(* ===== verification/Axe_Prelude.thy ===== *)
theory Axe_Prelude
  imports Main "HOL-Library.Word" "HOL-Library.Monad_Syntax"
begin

text \<open>
  Shared vocabulary of the development: the machine integers of the Rust code, the
  parts of Rust's standard library on strings and integers that the modelled code
  calls (trimming, prefixes, ASCII case, integer parsing and formatting), the named
  collections of simplification rules, and generic lemmas on lists, options and words.

  Strings are byte strings (\<^typ>\<open>string\<close>): the code slices them by byte offsets. The
  whitespace that \<open>trim\<close> removes is ASCII whitespace; the instruction text the code
  receives from its disassembler is ASCII.
\<close>

section \<open>Machine integers and results\<close>

type_synonym u8 = "8 word"
type_synonym u32 = "32 word"
type_synonym u64 = "64 word"
type_synonym u128 = "128 word"

type_synonym ('e, 'a) result = "'e + 'a"

abbreviation Err :: "'e \<Rightarrow> ('e, 'a) result" where "Err \<equiv> Inl"
abbreviation Ok :: "'a \<Rightarrow> ('e, 'a) result" where "Ok \<equiv> Inr"

named_theorems dag_intro \<open>introduction rules of the node and state invariants\<close>
named_theorems dag_mono \<open>facts that survive growth of the expression DAG\<close>
named_theorems emu_defs \<open>handler definitions of the shadow emulator\<close>

section \<open>Rust strings\<close>

definition is_ws :: "char \<Rightarrow> bool" where
  "is_ws c \<longleftrightarrow> (let n = of_char c :: nat in n = 32 \<or> (9 \<le> n \<and> n \<le> 13))"

definition trim_start :: "string \<Rightarrow> string" where
  "trim_start s = dropWhile is_ws s"

definition trim :: "string \<Rightarrow> string" where
  "trim s = rev (dropWhile is_ws (rev (dropWhile is_ws s)))"

definition lower_char :: "char \<Rightarrow> char" where
  "lower_char c = (let n = of_char c :: nat in if 65 \<le> n \<and> n \<le> 90 then char_of (n + 32) else c)"

definition to_ascii_lowercase :: "string \<Rightarrow> string" where
  "to_ascii_lowercase s = map lower_char s"

fun strip_prefix :: "string \<Rightarrow> string \<Rightarrow> string option" where
  "strip_prefix [] s = Some s"
| "strip_prefix (p # ps) [] = None"
| "strip_prefix (p # ps) (c # cs) = (if p = c then strip_prefix ps cs else None)"

definition strip_suffix :: "string \<Rightarrow> string \<Rightarrow> string option" where
  "strip_suffix p s = map_option rev (strip_prefix (rev p) (rev s))"

definition starts_with :: "string \<Rightarrow> string \<Rightarrow> bool" where
  "starts_with p s \<longleftrightarrow> strip_prefix p s \<noteq> None"

definition ends_with :: "string \<Rightarrow> string \<Rightarrow> bool" where
  "ends_with p s \<longleftrightarrow> strip_suffix p s \<noteq> None"

definition eq_ignore_ascii_case :: "string \<Rightarrow> string \<Rightarrow> bool" where
  "eq_ignore_ascii_case a b \<longleftrightarrow> to_ascii_lowercase a = to_ascii_lowercase b"

fun contains :: "string \<Rightarrow> string \<Rightarrow> bool" where
  "contains needle [] \<longleftrightarrow> starts_with needle []"
| "contains needle (c # cs) \<longleftrightarrow> starts_with needle (c # cs) \<or> contains needle cs"

fun find_char :: "char \<Rightarrow> string \<Rightarrow> nat option" where
  "find_char c [] = None"
| "find_char c (x # xs) = (if x = c then Some 0 else map_option Suc (find_char c xs))"

fun split_on :: "char \<Rightarrow> string \<Rightarrow> string list" where
  "split_on c [] = [[]]"
| "split_on c (x # xs) =
     (if x = c then [] # split_on c xs
      else case split_on c xs of [] \<Rightarrow> [[x]] | y # ys \<Rightarrow> (x # y) # ys)"

text \<open>\<open>rsplit(c).next()\<close>: the part after the last separator.\<close>

definition after_last :: "char \<Rightarrow> string \<Rightarrow> string" where
  "after_last c s = rev (takeWhile (\<lambda>x. x \<noteq> c) (rev s))"

text \<open>\<open>str::lines\<close>: a final line break ends the last line, and a carriage return before a break is dropped.\<close>

definition newline :: char where
  "newline = char_of (10 :: nat)"

definition drop_cr :: "string \<Rightarrow> string" where
  "drop_cr s = (if s \<noteq> [] \<and> last s = char_of (13 :: nat) then butlast s else s)"

definition lines :: "string \<Rightarrow> string list" where
  "lines s =
     (let ps = split_on newline s
      in map drop_cr (butlast ps) @ (if last ps = [] then [] else [last ps]))"

text \<open>\<open>split_whitespace\<close>\<close>

fun words_from :: "string \<Rightarrow> string \<Rightarrow> string list" where
  "words_from acc [] = (if acc = [] then [] else [rev acc])"
| "words_from acc (c # cs) =
     (if is_ws c then (if acc = [] then words_from [] cs else rev acc # words_from [] cs)
      else words_from (c # acc) cs)"

definition split_whitespace :: "string \<Rightarrow> string list" where
  "split_whitespace s = words_from [] s"

text \<open>The rest of a string after the first occurrence of a pattern.\<close>

fun after_first :: "string \<Rightarrow> string \<Rightarrow> string option" where
  "after_first p [] = strip_prefix p []"
| "after_first p (c # cs) = (case strip_prefix p (c # cs) of Some r \<Rightarrow> Some r | None \<Rightarrow> after_first p cs)"

lemma strip_prefix_append [simp]: "strip_prefix p (p @ s) = Some s"
  by (induction p) auto

lemma strip_prefix_Some: "strip_prefix p s = Some r \<longleftrightarrow> s = p @ r"
  by (induction p s rule: strip_prefix.induct) auto

text \<open>\<open>trim_start_matches\<close> with a string pattern strips it repeatedly.\<close>

function trim_start_matches :: "string \<Rightarrow> string \<Rightarrow> string" where
  "trim_start_matches p s =
     (if p = [] then s
      else case strip_prefix p s of None \<Rightarrow> s | Some r \<Rightarrow> trim_start_matches p r)"
  by pat_completeness auto
termination
  by (relation "measure (\<lambda>(p, s). length s)") (auto simp: strip_prefix_Some)

declare trim_start_matches.simps [simp del]

definition trim_start_char :: "char \<Rightarrow> string \<Rightarrow> string" where
  "trim_start_char c s = dropWhile (\<lambda>x. x = c) s"

definition trim_end_char :: "char \<Rightarrow> string \<Rightarrow> string" where
  "trim_end_char c s = rev (dropWhile (\<lambda>x. x = c) (rev s))"

section \<open>Integer parsing and formatting\<close>

definition digit_val :: "nat \<Rightarrow> char \<Rightarrow> nat option" where
  "digit_val radix c =
     (let n = of_char c :: nat;
          v = (if 48 \<le> n \<and> n \<le> 57 then Some (n - 48)
               else if 97 \<le> n \<and> n \<le> 122 then Some (n - 87)
               else if 65 \<le> n \<and> n \<le> 90 then Some (n - 55) else None)
      in case v of None \<Rightarrow> None | Some d \<Rightarrow> if d < radix then Some d else None)"

fun parse_digits :: "nat \<Rightarrow> string \<Rightarrow> nat \<Rightarrow> nat option" where
  "parse_digits radix [] acc = Some acc"
| "parse_digits radix (c # cs) acc =
     (case digit_val radix c of None \<Rightarrow> None | Some d \<Rightarrow> parse_digits radix cs (acc * radix + d))"

text \<open>
  \<open>uN::from_str_radix\<close>: an optional leading \<open>+\<close>, at least one digit, \<open>None\<close> for the
  error cases, overflow included. \<open>str::parse\<close> is the radix-10 case.
\<close>

definition parse_unsigned :: "nat \<Rightarrow> nat \<Rightarrow> string \<Rightarrow> nat option" where
  "parse_unsigned bits radix s =
     (let ds = (case s of c # cs \<Rightarrow> if c = CHR ''+'' then cs else s | [] \<Rightarrow> [])
      in if ds = [] then None
         else case parse_digits radix ds 0 of
                None \<Rightarrow> None
              | Some v \<Rightarrow> if int v < 2 ^ bits then Some v else None)"

definition parse_u64_radix :: "nat \<Rightarrow> string \<Rightarrow> u64 option" where
  "parse_u64_radix radix s = map_option of_nat (parse_unsigned 64 radix s)"

definition parse_u64 :: "string \<Rightarrow> u64 option" where
  "parse_u64 s = parse_u64_radix 10 s"

definition parse_u32 :: "string \<Rightarrow> u32 option" where
  "parse_u32 s = map_option of_nat (parse_unsigned 32 10 s)"

text \<open>\<open>str::parse::<i64>\<close>, as the integer it returns.\<close>

definition parse_i64 :: "string \<Rightarrow> int option" where
  "parse_i64 s =
     (case s of
        [] \<Rightarrow> None
      | c # cs \<Rightarrow>
          let neg = (c = CHR ''-'');
              ds = (if c = CHR ''+'' \<or> c = CHR ''-'' then cs else s)
          in if ds = [] then None
             else case parse_digits 10 ds 0 of
                    None \<Rightarrow> None
                  | Some v \<Rightarrow>
                      let i = (if neg then - int v else int v)
                      in if - (2 ^ 63) \<le> i \<and> i < 2 ^ 63 then Some i else None)"

fun show_radix :: "nat \<Rightarrow> nat \<Rightarrow> string" where
  "show_radix radix n =
     (if radix < 2 \<or> n < radix then [char_of (if n < 10 then 48 + n else 87 + n)]
      else show_radix radix (n div radix) @
        [char_of (if n mod radix < 10 then 48 + n mod radix else 87 + n mod radix)])"

declare show_radix.simps [simp del]

abbreviation show_nat :: "nat \<Rightarrow> string" where
  "show_nat \<equiv> show_radix 10"

text \<open>Zero padding to a minimum width, as \<open>{:04}\<close> and \<open>{:016X}\<close> do.\<close>

definition pad0 :: "nat \<Rightarrow> string \<Rightarrow> string" where
  "pad0 w s = replicate (w - length s) (CHR ''0'') @ s"

definition upper_char :: "char \<Rightarrow> char" where
  "upper_char c = (let n = of_char c :: nat in if 97 \<le> n \<and> n \<le> 122 then char_of (n - 32) else c)"

text \<open>\<open>{:016X}\<close>\<close>

definition hex016 :: "u64 \<Rightarrow> string" where
  "hex016 v = pad0 16 (map upper_char (show_radix 16 (unat v)))"

subsection \<open>Parsing is the inverse of formatting\<close>

lemma of_char_char_of_small: "n < 256 \<Longrightarrow> (of_char (char_of n :: char) :: nat) = n"
  by simp

lemma digit_val_dec: "d < 10 \<Longrightarrow> digit_val 10 (char_of (48 + d)) = Some d"
  by (simp add: digit_val_def of_char_char_of_small Let_def)

lemma parse_digits_append:
  "parse_digits r (xs @ ys) acc =
     (case parse_digits r xs acc of None \<Rightarrow> None | Some a \<Rightarrow> parse_digits r ys a)"
  by (induction xs arbitrary: acc) (auto split: option.splits)

lemma parse_digits_show_nat: "parse_digits 10 (show_nat n) 0 = Some n"
proof (induction "10::nat" n rule: show_radix.induct)
  case (1 n)
  show ?case
  proof (cases "n < 10")
    case True
    then show ?thesis
      by (subst show_radix.simps) (simp add: digit_val_dec)
  next
    case False
    with 1 have IH: "parse_digits 10 (show_nat (n div 10)) 0 = Some (n div 10)" by simp
    have "show_nat n = show_nat (n div 10) @ [char_of (48 + n mod 10)]"
      using False by (subst show_radix.simps) simp
    then show ?thesis
      using digit_val_dec [of "n mod 10"] by (simp add: parse_digits_append IH)
  qed
qed

lemma show_nat_nonempty: "show_nat n \<noteq> []"
  by (subst show_radix.simps) simp

lemma char_of_dec_neq_plus: "d < 10 \<Longrightarrow> (char_of (48 + d :: nat) :: char) \<noteq> CHR ''+''"
proof
  assume "d < 10" and "(char_of (48 + d :: nat) :: char) = CHR ''+''"
  then have "(of_char (char_of (48 + d :: nat) :: char) :: nat) = of_char (CHR ''+'')" by simp
  with \<open>d < 10\<close> show False by (simp add: of_char_char_of_small)
qed

lemma hd_show_nat: "\<exists>d<10. hd (show_nat n) = char_of (48 + d :: nat)"
proof (induction "10::nat" n rule: show_radix.induct)
  case (1 n)
  show ?case
  proof (cases "n < 10")
    case True
    then show ?thesis by (subst show_radix.simps) auto
  next
    case False
    with 1 have "\<exists>d<10. hd (show_nat (n div 10)) = char_of (48 + d :: nat)" by simp
    moreover have "hd (show_nat n) = hd (show_nat (n div 10))"
      using False show_nat_nonempty [of "n div 10"] by (subst show_radix.simps) (simp add: hd_append)
    ultimately show ?thesis by simp
  qed
qed

lemma parse_unsigned_show_nat:
  assumes "n < 2 ^ bits"
  shows "parse_unsigned bits 10 (show_nat n) = Some n"
proof -
  obtain c cs where s: "show_nat n = c # cs" using show_nat_nonempty by (cases "show_nat n") auto
  obtain d where "d < 10" "c = char_of (48 + d :: nat)" using hd_show_nat [of n] s by auto
  then have "c \<noteq> CHR ''+''" using char_of_dec_neq_plus by simp
  moreover have "int n < 2 ^ bits" using assms by (metis of_nat_less_iff of_nat_numeral of_nat_power)
  ultimately show ?thesis
    using parse_digits_show_nat [of n] assms s by (simp add: parse_unsigned_def)
qed

section \<open>Lists and options\<close>

text \<open>\<open>partition_point\<close> of a list partitioned by the predicate.\<close>

definition partition_count :: "('a \<Rightarrow> bool) \<Rightarrow> 'a list \<Rightarrow> nat" where
  "partition_count P xs = length (takeWhile P xs)"

lemma nth_prefix: "i < length xs \<Longrightarrow> (xs @ ys) ! i = xs ! i"
  by (simp add: nth_append)

lemma unat_of_nat_less: "n < 2 ^ LENGTH('a) \<Longrightarrow> unat (of_nat n :: 'a::len word) = n"
  by (simp add: unat_of_nat take_bit_nat_eq_self)

lemma unat_2_power:
  assumes "n < LENGTH('a)"
  shows "unat (2 ^ n :: 'a::len word) = 2 ^ n"
proof -
  have "(2::nat) ^ n < 2 ^ LENGTH('a)" using assms by simp
  then have "unat (of_nat (2 ^ n) :: 'a word) = 2 ^ n" by (rule unat_of_nat_less)
  then show ?thesis by simp
qed

section \<open>Signed reading\<close>

lemma sint_range_u64: "- (2 ^ 63) \<le> sint (x :: u64)" "sint (x :: u64) < 2 ^ 63"
  using sint_greater_eq [of x] sint_less [of x] by simp_all

lemma sint_uint_u64: "sint (a :: u64) = (if sint a < 0 then uint a - 2 ^ 64 else uint a)"
proof -
  have "sint a = (uint a + 2 ^ 63) mod 2 ^ 64 - 2 ^ 63"
    by (simp add: sint_uint signed_take_bit_eq_take_bit_shift take_bit_eq_mod)
  moreover have "(uint a + 2 ^ 63) mod 2 ^ 64 =
      (if uint a < 2 ^ 63 then uint a + 2 ^ 63 else uint a + 2 ^ 63 - 2 ^ 64)"
  proof (cases "uint a < 2 ^ 63")
    case True
    then show ?thesis by (simp add: mod_pos_pos_trivial)
  next
    case False
    have "(uint a + 2 ^ 63) mod 2 ^ 64 = (uint a + 2 ^ 63 - 2 ^ 64) mod 2 ^ 64"
      by (rule minus_mod_self2 [symmetric])
    also have "\<dots> = uint a + 2 ^ 63 - 2 ^ 64"
      using False uint_lt2p [of a] by (intro mod_pos_pos_trivial) simp_all
    finally show ?thesis using False by simp
  qed
  ultimately show ?thesis using uint_lt2p [of a] by (simp split: if_splits)
qed

end
