(* ===== verification/Expr_Dag.thy ===== *)
theory Expr_Dag
  imports Axe_Prelude
begin

text \<open>
  The hash-consed expression DAG of \<open>src/concolic/expr.rs\<close>: sorts, expressions, type
  errors, the interning tables for nodes and symbols, \<open>sort_of\<close> and \<open>validate\<close>.

  Node and symbol ids are 32-bit words, as in the code: \<open>nodes.len() as NodeId\<close>
  truncates, so the invariant \<open>wf_dag\<close> bounds the tables by \<open>2 ^ 32\<close> entries. Width
  arithmetic on \<open>u32\<close> wraps, as it does in a release build.

  \<open>sort_of\<close> and \<open>validate_node\<close> recurse along node ids. One unit of fuel is one
  recursive call; the entry points supply more fuel than there are nodes, and the
  outer \<open>None\<close> means that the call does not return. The recursion equations of the
  source hold without fuel for every well-formed DAG (\<open>dag_recursion.run_unfold\<close>).

  The interning contract is the locale \<open>interner\<close>, interpreted for nodes and for
  symbols; recursion over the DAG is the locale \<open>dag_recursion\<close>, interpreted here for
  \<open>sort_of\<close> and in the theories that add further walks over the DAG.
\<close>

section \<open>Data\<close>

type_synonym NodeId = u32
type_synonym SymbolId = u32

datatype Sort = Bool | Bv u32 | Array (index_bits: u32) (value_bits: u32)

datatype Expr =
    Var (var_name: SymbolId) (var_sort: Sort)
  | BvConst u128 u32
  | BoolConst bool
  | ENot NodeId
  | EAnd "NodeId list"
  | EOr "NodeId list"
  | EEq NodeId NodeId
  | BvAdd NodeId NodeId
  | BvSub NodeId NodeId
  | BvMul NodeId NodeId
  | BvAnd NodeId NodeId
  | BvOr NodeId NodeId
  | BvXor NodeId NodeId
  | BvShl NodeId NodeId
  | BvLShr NodeId NodeId
  | BvAShr NodeId NodeId
  | Ult NodeId NodeId
  | Ule NodeId NodeId
  | Slt NodeId NodeId
  | Sle NodeId NodeId
  | Extract (ex_hi: u32) (ex_lo: u32) (ex_value: NodeId)
  | Concat NodeId NodeId
  | ZeroExt u32 NodeId
  | SignExt u32 NodeId
  | Ite NodeId NodeId NodeId
  | Load8 NodeId NodeId
  | Store8 NodeId NodeId NodeId

datatype TypeError =
    WidthMismatch string u32 u32
  | BadExtractBounds u32 u32 u32
  | SortMismatch string Sort Sort
  | ArrayValueWidth u32
  | BvConstOverflow u128 u32
  | InvalidNodeId NodeId

record ExprDag =
  nodes :: "Expr list"
  index :: "Expr \<Rightarrow> NodeId option"
  symbols :: "string list"
  symbol_index :: "string \<Rightarrow> SymbolId option"

section \<open>Interning and access\<close>

definition new :: ExprDag where
  "new = \<lparr>nodes = [], index = Map.empty, symbols = [], symbol_index = Map.empty\<rparr>"

definition intern :: "ExprDag \<Rightarrow> Expr \<Rightarrow> NodeId \<times> ExprDag" where
  "intern d e =
     (case index d e of
        Some i \<Rightarrow> (i, d)
      | None \<Rightarrow>
          let i = of_nat (length (nodes d))
          in (i, d\<lparr>nodes := nodes d @ [e], index := (index d)(e \<mapsto> i)\<rparr>))"

definition intern_symbol :: "ExprDag \<Rightarrow> string \<Rightarrow> SymbolId \<times> ExprDag" where
  "intern_symbol d name =
     (case symbol_index d name of
        Some i \<Rightarrow> (i, d)
      | None \<Rightarrow>
          let i = of_nat (length (symbols d))
          in (i, d\<lparr>symbols := symbols d @ [name], symbol_index := (symbol_index d)(name \<mapsto> i)\<rparr>))"

text \<open>\<open>get\<close> and \<open>symbol_name\<close> index a vector: \<open>None\<close> is the panic.\<close>

definition try_get :: "ExprDag \<Rightarrow> NodeId \<Rightarrow> Expr option" where
  "try_get d i = (if unat i < length (nodes d) then Some (nodes d ! unat i) else None)"

definition get :: "ExprDag \<Rightarrow> NodeId \<Rightarrow> Expr option" where
  "get d i = try_get d i"

definition symbol_name :: "ExprDag \<Rightarrow> SymbolId \<Rightarrow> string option" where
  "symbol_name d i = (if unat i < length (symbols d) then Some (symbols d ! unat i) else None)"

definition dag_len :: "ExprDag \<Rightarrow> nat" where
  "dag_len d = length (nodes d)"

definition is_empty :: "ExprDag \<Rightarrow> bool" where
  "is_empty d \<longleftrightarrow> nodes d = []"

definition symbol_count :: "ExprDag \<Rightarrow> nat" where
  "symbol_count d = length (symbols d)"

text \<open>\<open>children_of\<close> is declared in \<open>smt2_emit.rs\<close>; it fixes the shape of every walk.\<close>

fun children_of :: "Expr \<Rightarrow> NodeId list" where
  "children_of (Var _ _) = []"
| "children_of (BvConst _ _) = []"
| "children_of (BoolConst _) = []"
| "children_of (ENot a) = [a]"
| "children_of (EAnd v) = v"
| "children_of (EOr v) = v"
| "children_of (EEq a b) = [a, b]"
| "children_of (BvAdd a b) = [a, b]"
| "children_of (BvSub a b) = [a, b]"
| "children_of (BvMul a b) = [a, b]"
| "children_of (BvAnd a b) = [a, b]"
| "children_of (BvOr a b) = [a, b]"
| "children_of (BvXor a b) = [a, b]"
| "children_of (BvShl a b) = [a, b]"
| "children_of (BvLShr a b) = [a, b]"
| "children_of (BvAShr a b) = [a, b]"
| "children_of (Ult a b) = [a, b]"
| "children_of (Ule a b) = [a, b]"
| "children_of (Slt a b) = [a, b]"
| "children_of (Sle a b) = [a, b]"
| "children_of (Concat a b) = [a, b]"
| "children_of (Extract _ _ value) = [value]"
| "children_of (ZeroExt _ value) = [value]"
| "children_of (SignExt _ value) = [value]"
| "children_of (Ite c t e) = [c, t, e]"
| "children_of (Load8 mem addr) = [mem, addr]"
| "children_of (Store8 mem addr value) = [mem, addr, value]"

section \<open>Sorts\<close>

fun bv_width :: "Sort \<Rightarrow> u32 option" where
  "bv_width (Bv w) = Some w"
| "bv_width _ = None"

fun bv_op_name :: "Expr \<Rightarrow> string" where
  "bv_op_name (BvAdd _ _) = ''bvadd''"
| "bv_op_name (BvSub _ _) = ''bvsub''"
| "bv_op_name (BvMul _ _) = ''bvmul''"
| "bv_op_name (BvAnd _ _) = ''bvand''"
| "bv_op_name (BvOr _ _) = ''bvor''"
| "bv_op_name (BvXor _ _) = ''bvxor''"
| "bv_op_name (BvShl _ _) = ''bvshl''"
| "bv_op_name (BvLShr _ _) = ''bvlshr''"
| "bv_op_name (BvAShr _ _) = ''bvashr''"
| "bv_op_name _ = ''bv_op''"

text \<open>
  Recursion along node ids. The step function is the body of the source function, with
  its recursive calls as a parameter; \<open>missing\<close> is the result for an invalid id. An
  acyclic path visits each node at most once, so the fuel of \<open>dag_run\<close> is exhausted only
  by a recursion that does not end.
\<close>

primrec dag_iter :: "nat \<Rightarrow> ((NodeId \<Rightarrow> 'r option) \<Rightarrow> Expr \<Rightarrow> 'r option) \<Rightarrow>
    (NodeId \<Rightarrow> 'r option) \<Rightarrow> ExprDag \<Rightarrow> NodeId \<Rightarrow> 'r option" where
  "dag_iter 0 step missing d i = None"
| "dag_iter (Suc n) step missing d i =
     (case try_get d i of None \<Rightarrow> missing i | Some e \<Rightarrow> step (dag_iter n step missing d) e)"

definition dag_run :: "((NodeId \<Rightarrow> 'r option) \<Rightarrow> Expr \<Rightarrow> 'r option) \<Rightarrow>
    (NodeId \<Rightarrow> 'r option) \<Rightarrow> ExprDag \<Rightarrow> NodeId \<Rightarrow> 'r option" where
  "dag_run step missing d i = dag_iter (length (nodes d) + 2) step missing d i"

definition ext_sort :: "(NodeId \<Rightarrow> Sort option option) \<Rightarrow> u32 \<Rightarrow> NodeId \<Rightarrow> Sort option option" where
  "ext_sort rec extra value =
     map_option (\<lambda>s. Option.bind s bv_width \<bind> (\<lambda>wv. Some (Bv (wv + extra)))) (rec value)"

fun sort_step :: "(NodeId \<Rightarrow> Sort option option) \<Rightarrow> Expr \<Rightarrow> Sort option option" where
  "sort_step rec (Var _ s) = Some (Some s)"
| "sort_step rec (BvConst _ bits) = Some (Some (Bv bits))"
| "sort_step rec (BoolConst _) = Some (Some Bool)"
| "sort_step rec (ENot _) = Some (Some Bool)"
| "sort_step rec (EAnd _) = Some (Some Bool)"
| "sort_step rec (EOr _) = Some (Some Bool)"
| "sort_step rec (EEq _ _) = Some (Some Bool)"
| "sort_step rec (Ult _ _) = Some (Some Bool)"
| "sort_step rec (Ule _ _) = Some (Some Bool)"
| "sort_step rec (Slt _ _) = Some (Some Bool)"
| "sort_step rec (Sle _ _) = Some (Some Bool)"
| "sort_step rec (BvAdd a _) = rec a"
| "sort_step rec (BvSub a _) = rec a"
| "sort_step rec (BvMul a _) = rec a"
| "sort_step rec (BvAnd a _) = rec a"
| "sort_step rec (BvOr a _) = rec a"
| "sort_step rec (BvXor a _) = rec a"
| "sort_step rec (BvShl a _) = rec a"
| "sort_step rec (BvLShr a _) = rec a"
| "sort_step rec (BvAShr a _) = rec a"
| "sort_step rec (Extract hi lo _) = Some (Some (Bv (hi - lo + 1)))"
| "sort_step rec (Concat a b) =
     (case rec a of
        None \<Rightarrow> None
      | Some sa \<Rightarrow>
          (case Option.bind sa bv_width of
             None \<Rightarrow> Some None
           | Some wa \<Rightarrow>
               map_option (\<lambda>sb. Option.bind sb bv_width \<bind> (\<lambda>wb. Some (Bv (wa + wb)))) (rec b)))"
| "sort_step rec (ZeroExt extra value) = ext_sort rec extra value"
| "sort_step rec (SignExt extra value) = ext_sort rec extra value"
| "sort_step rec (Ite _ then_id _) = rec then_id"
| "sort_step rec (Load8 _ _) = Some (Some (Bv 8))"
| "sort_step rec (Store8 mem _ _) = rec mem"

definition sort_of :: "ExprDag \<Rightarrow> NodeId \<Rightarrow> Sort option option" where
  "sort_of d i = dag_run sort_step (\<lambda>_. Some None) d i"

section \<open>Validation\<close>

type_synonym 'a run = "(TypeError, 'a) result option"

definition and_then :: "'a run \<Rightarrow> ('a \<Rightarrow> 'b run) \<Rightarrow> 'b run" where
  "and_then m f = (case m of None \<Rightarrow> None | Some (Inl e) \<Rightarrow> Some (Err e) | Some (Inr x) \<Rightarrow> f x)"

definition sort_or_err :: "ExprDag \<Rightarrow> NodeId \<Rightarrow> Sort run" where
  "sort_or_err d i = map_option (\<lambda>s. case s of None \<Rightarrow> Err (InvalidNodeId i) | Some x \<Rightarrow> Ok x) (sort_of d i)"

definition width_or_err :: "ExprDag \<Rightarrow> NodeId \<Rightarrow> string \<Rightarrow> u32 run" where
  "width_or_err d i op =
     and_then (sort_or_err d i) (\<lambda>s.
       case bv_width s of
         None \<Rightarrow> Some (Err (SortMismatch op (Bv 0) Bool))
       | Some w \<Rightarrow> Some (Ok w))"

definition expect_sort :: "ExprDag \<Rightarrow> NodeId \<Rightarrow> Sort \<Rightarrow> string \<Rightarrow> unit run" where
  "expect_sort d i expected op =
     and_then (sort_or_err d i) (\<lambda>got.
       if got = expected then Some (Ok ()) else Some (Err (SortMismatch op expected got)))"

type_synonym visit = "NodeId \<Rightarrow> NodeId set \<Rightarrow> NodeId set run"

fun validate_children :: "ExprDag \<Rightarrow> visit \<Rightarrow> NodeId list \<Rightarrow> NodeId set \<Rightarrow> NodeId set run" where
  "validate_children d rec [] visited = Some (Ok visited)"
| "validate_children d rec (c # cs) visited =
     and_then (rec c visited) (\<lambda>visited.
     and_then (expect_sort d c Bool ''and/or'') (\<lambda>_.
       validate_children d rec cs visited))"

text \<open>The shared bodies of the two match arms for binary operators and comparisons.\<close>

definition validate_pair :: "ExprDag \<Rightarrow> visit \<Rightarrow> string \<Rightarrow> NodeId \<Rightarrow> NodeId \<Rightarrow> NodeId set \<Rightarrow> NodeId set run" where
  "validate_pair d rec op a b visited =
     and_then (rec a visited) (\<lambda>visited.
     and_then (rec b visited) (\<lambda>visited.
     and_then (width_or_err d a op) (\<lambda>wa.
     and_then (width_or_err d b op) (\<lambda>wb.
       if wa \<noteq> wb then Some (Err (WidthMismatch op wa wb)) else Some (Ok visited)))))"

definition validate_ext :: "ExprDag \<Rightarrow> visit \<Rightarrow> NodeId \<Rightarrow> NodeId set \<Rightarrow> NodeId set run" where
  "validate_ext d rec value visited =
     and_then (rec value visited) (\<lambda>visited.
     and_then (width_or_err d value ''ext'') (\<lambda>_. Some (Ok visited)))"

definition check_byte_array :: "string \<Rightarrow> Sort \<Rightarrow> unit run" where
  "check_byte_array op sm =
     (case sm of
        Array ib vb \<Rightarrow> if vb \<noteq> 8 then Some (Err (ArrayValueWidth vb)) else Some (Ok ())
      | _ \<Rightarrow> Some (Err (SortMismatch op (Array 64 8) sm)))"

fun validate_expr :: "ExprDag \<Rightarrow> visit \<Rightarrow> Expr \<Rightarrow> NodeId set \<Rightarrow> NodeId set run" where
  "validate_expr d rec (Var _ _) visited = Some (Ok visited)"
| "validate_expr d rec (BoolConst _) visited = Some (Ok visited)"
| "validate_expr d rec (BvConst value bits) visited =
     (if bits = 0 \<or> bits > 128 then Some (Err (BvConstOverflow value bits))
      else if bits < 128 \<and> value \<ge> push_bit (unat bits) 1 then Some (Err (BvConstOverflow value bits))
      else Some (Ok visited))"
| "validate_expr d rec (ENot a) visited =
     and_then (rec a visited) (\<lambda>visited.
     and_then (expect_sort d a Bool ''not'') (\<lambda>_. Some (Ok visited)))"
| "validate_expr d rec (EAnd cs) visited = validate_children d rec cs visited"
| "validate_expr d rec (EOr cs) visited = validate_children d rec cs visited"
| "validate_expr d rec (EEq a b) visited =
     and_then (rec a visited) (\<lambda>visited.
     and_then (rec b visited) (\<lambda>visited.
     and_then (sort_or_err d a) (\<lambda>sa.
     and_then (sort_or_err d b) (\<lambda>sb.
       if sa \<noteq> sb then Some (Err (SortMismatch ''eq'' sa sb)) else Some (Ok visited)))))"
| "validate_expr d rec (BvAdd a b) visited = validate_pair d rec (bv_op_name (BvAdd a b)) a b visited"
| "validate_expr d rec (BvSub a b) visited = validate_pair d rec (bv_op_name (BvSub a b)) a b visited"
| "validate_expr d rec (BvMul a b) visited = validate_pair d rec (bv_op_name (BvMul a b)) a b visited"
| "validate_expr d rec (BvAnd a b) visited = validate_pair d rec (bv_op_name (BvAnd a b)) a b visited"
| "validate_expr d rec (BvOr a b) visited = validate_pair d rec (bv_op_name (BvOr a b)) a b visited"
| "validate_expr d rec (BvXor a b) visited = validate_pair d rec (bv_op_name (BvXor a b)) a b visited"
| "validate_expr d rec (BvShl a b) visited = validate_pair d rec (bv_op_name (BvShl a b)) a b visited"
| "validate_expr d rec (BvLShr a b) visited = validate_pair d rec (bv_op_name (BvLShr a b)) a b visited"
| "validate_expr d rec (BvAShr a b) visited = validate_pair d rec (bv_op_name (BvAShr a b)) a b visited"
| "validate_expr d rec (Ult a b) visited = validate_pair d rec ''bv_cmp'' a b visited"
| "validate_expr d rec (Ule a b) visited = validate_pair d rec ''bv_cmp'' a b visited"
| "validate_expr d rec (Slt a b) visited = validate_pair d rec ''bv_cmp'' a b visited"
| "validate_expr d rec (Sle a b) visited = validate_pair d rec ''bv_cmp'' a b visited"
| "validate_expr d rec (Extract hi lo value) visited =
     and_then (rec value visited) (\<lambda>visited.
     and_then (width_or_err d value ''extract'') (\<lambda>w.
       if hi < lo \<or> hi \<ge> w then Some (Err (BadExtractBounds hi lo w)) else Some (Ok visited)))"
| "validate_expr d rec (Concat a b) visited =
     and_then (rec a visited) (\<lambda>visited.
     and_then (rec b visited) (\<lambda>visited.
     and_then (width_or_err d a ''concat'') (\<lambda>_.
     and_then (width_or_err d b ''concat'') (\<lambda>_. Some (Ok visited)))))"
| "validate_expr d rec (ZeroExt _ value) visited = validate_ext d rec value visited"
| "validate_expr d rec (SignExt _ value) visited = validate_ext d rec value visited"
| "validate_expr d rec (Ite cond then_id else_id) visited =
     and_then (rec cond visited) (\<lambda>visited.
     and_then (rec then_id visited) (\<lambda>visited.
     and_then (rec else_id visited) (\<lambda>visited.
     and_then (expect_sort d cond Bool ''ite-cond'') (\<lambda>_.
     and_then (sort_or_err d then_id) (\<lambda>st.
     and_then (sort_or_err d else_id) (\<lambda>se.
       if st \<noteq> se then Some (Err (SortMismatch ''ite'' st se)) else Some (Ok visited)))))))"
| "validate_expr d rec (Load8 mem addr) visited =
     and_then (rec mem visited) (\<lambda>visited.
     and_then (rec addr visited) (\<lambda>visited.
     and_then (sort_or_err d mem) (\<lambda>sm.
     and_then (check_byte_array ''load8'' sm) (\<lambda>_. Some (Ok visited)))))"
| "validate_expr d rec (Store8 mem addr value) visited =
     and_then (rec mem visited) (\<lambda>visited.
     and_then (rec addr visited) (\<lambda>visited.
     and_then (rec value visited) (\<lambda>visited.
     and_then (sort_or_err d mem) (\<lambda>sm.
     and_then (check_byte_array ''store8'' sm) (\<lambda>_.
     and_then (sort_or_err d value) (\<lambda>sv.
       if bv_width sv \<noteq> Some 8 then Some (Err (SortMismatch ''store8-value'' (Bv 8) sv))
       else Some (Ok visited)))))))"

primrec validate_node :: "nat \<Rightarrow> ExprDag \<Rightarrow> visit" where
  "validate_node 0 d i visited = None"
| "validate_node (Suc n) d i visited =
     (if i \<in> visited then Some (Ok visited)
      else case try_get d i of
             None \<Rightarrow> Some (Err (InvalidNodeId i))
           | Some e \<Rightarrow> validate_expr d (validate_node n d) e (insert i visited))"

definition validate :: "ExprDag \<Rightarrow> NodeId \<Rightarrow> unit run" where
  "validate d root =
     and_then (validate_node (length (nodes d) + 2) d root {}) (\<lambda>_. Some (Ok ()))"


section \<open>The interning contract\<close>

text \<open>
  A table of items with an inverse index: the index maps exactly the stored items, each
  to its own position. Positions are 32-bit, so the table holds at most \<open>2 ^ 32\<close> items.
\<close>

definition table_ok :: "'k list \<Rightarrow> ('k \<Rightarrow> u32 option) \<Rightarrow> bool" where
  "table_ok xs ix \<longleftrightarrow>
     length xs \<le> 2 ^ 32 \<and>
     (\<forall>k i. ix k = Some i \<longleftrightarrow> unat i < length xs \<and> xs ! unat i = k)"

lemma table_okD: "table_ok xs ix \<Longrightarrow> ix k = Some i \<Longrightarrow> unat i < length xs \<and> xs ! unat i = k"
  by (simp add: table_ok_def)

lemma table_ok_find: "table_ok xs ix \<Longrightarrow> unat i < length xs \<Longrightarrow> ix (xs ! unat i) = Some i"
  by (simp add: table_ok_def)

lemma table_ok_None: "table_ok xs ix \<Longrightarrow> ix k = None \<Longrightarrow> k \<notin> set xs"
proof
  assume t: "table_ok xs ix" and n: "ix k = None" and "k \<in> set xs"
  then obtain j where j: "j < length xs" "xs ! j = k" by (auto simp: in_set_conv_nth)
  then have "unat (of_nat j :: u32) = j"
    using t by (auto simp: table_ok_def intro!: unat_of_nat_less)
  with t j have "ix k = Some (of_nat j)" by (simp add: table_ok_def)
  with n show False by simp
qed

lemma table_ok_distinct: "table_ok xs ix \<Longrightarrow> distinct xs"
proof -
  assume t: "table_ok xs ix"
  have "i = j" if "i < length xs" "j < length xs" "xs ! i = xs ! j" for i j
  proof -
    have u: "unat (of_nat i :: u32) = i" "unat (of_nat j :: u32) = j"
      using t that by (auto simp: table_ok_def intro!: unat_of_nat_less)
    then have "ix (xs ! i) = Some (of_nat i)" "ix (xs ! i) = Some (of_nat j)"
      using t that by (simp_all add: table_ok_def)
    then show ?thesis using u by (metis option.inject)
  qed
  then show ?thesis by (auto simp: distinct_conv_nth)
qed

lemma table_ok_snoc:
  assumes t: "table_ok xs ix" and n: "ix k = None" and l: "length xs < 2 ^ 32"
  shows "table_ok (xs @ [k]) (ix(k \<mapsto> of_nat (length xs)))"
proof -
  have u: "unat (of_nat (length xs) :: u32) = length xs"
    using l by (intro unat_of_nat_less) simp
  have "(ix(k \<mapsto> of_nat (length xs))) k' = Some i \<longleftrightarrow>
      unat i < length (xs @ [k]) \<and> (xs @ [k]) ! unat i = k'" for k' i
  proof (cases "k' = k")
    case True
    have "unat i < length xs \<Longrightarrow> xs ! unat i \<noteq> k"
      using table_ok_None [OF t n] by auto
    with True u show ?thesis
      by (auto simp: nth_append less_Suc_eq word_unat_eq_iff)
  next
    case False
    with t u show ?thesis
      by (auto simp: table_ok_def nth_append less_Suc_eq)
  qed
  with l show ?thesis by (simp add: table_ok_def)
qed

locale interner =
  fixes items :: "'t \<Rightarrow> 'k list"
    and find :: "'t \<Rightarrow> 'k \<Rightarrow> u32 option"
    and put :: "'t \<Rightarrow> 'k \<Rightarrow> u32 \<times> 't"
  assumes put_hit: "find t k = Some i \<Longrightarrow> put t k = (i, t)"
    and put_miss_id: "find t k = None \<Longrightarrow> fst (put t k) = of_nat (length (items t))"
    and put_miss_items: "find t k = None \<Longrightarrow> items (snd (put t k)) = items t @ [k]"
    and put_miss_find: "find t k = None \<Longrightarrow>
      find (snd (put t k)) = (find t)(k \<mapsto> of_nat (length (items t)))"
begin

lemma put_prefix: "\<exists>ys. items (snd (put t k)) = items t @ ys"
  by (cases "find t k") (auto simp: put_hit put_miss_items)

lemma put_ok:
  assumes "table_ok (items t) (find t)" and "length (items (snd (put t k))) \<le> 2 ^ 32"
  shows "table_ok (items (snd (put t k))) (find (snd (put t k)))"
proof (cases "find t k")
  case None
  with assms show ?thesis by (simp add: put_miss_items put_miss_find table_ok_snoc)
next
  case (Some i)
  with assms show ?thesis by (simp add: put_hit)
qed

lemma put_lookup:
  assumes "table_ok (items t) (find t)" and "length (items (snd (put t k))) \<le> 2 ^ 32"
  shows "unat (fst (put t k)) < length (items (snd (put t k)))"
    and "items (snd (put t k)) ! unat (fst (put t k)) = k"
proof -
  have "unat (fst (put t k)) < length (items (snd (put t k))) \<and>
      items (snd (put t k)) ! unat (fst (put t k)) = k"
  proof (cases "find t k")
    case None
    moreover have "unat (of_nat (length (items t)) :: u32) = length (items t)"
      using None assms(2) by (intro unat_of_nat_less) (simp add: put_miss_items)
    ultimately show ?thesis by (simp add: put_miss_id put_miss_items)
  next
    case (Some i)
    with table_okD [OF assms(1)] show ?thesis by (simp add: put_hit)
  qed
  then show "unat (fst (put t k)) < length (items (snd (put t k)))"
    and "items (snd (put t k)) ! unat (fst (put t k)) = k" by auto
qed

lemma put_again: "put (snd (put t k)) k = put t k"
proof (cases "find t k")
  case None
  then have "find (snd (put t k)) k = Some (of_nat (length (items t)))"
    by (simp add: put_miss_find)
  then show ?thesis using None by (simp add: put_hit prod_eq_iff put_miss_id)
next
  case (Some i)
  then show ?thesis by (simp add: put_hit)
qed

lemma put_mono: "find t k = Some i \<Longrightarrow> find (snd (put t k')) k = Some i"
  by (cases "find t k'") (auto simp: put_hit put_miss_find)

lemma put_find: "find (snd (put t k)) k = Some (fst (put t k))"
  by (cases "find t k") (auto simp: put_hit put_miss_find put_miss_id)

end

interpretation node_tab: interner nodes index intern
  by unfold_locales (auto simp: intern_def Let_def split: option.splits)

interpretation sym_tab: interner symbols symbol_index intern_symbol
  by unfold_locales (auto simp: intern_symbol_def Let_def split: option.splits)

section \<open>Well-formed DAGs and their growth\<close>

fun var_ok :: "nat \<Rightarrow> Expr \<Rightarrow> bool" where
  "var_ok k (Var name _) \<longleftrightarrow> unat name < k"
| "var_ok k _ \<longleftrightarrow> True"

definition wf_dag :: "ExprDag \<Rightarrow> bool" where
  "wf_dag d \<longleftrightarrow>
     table_ok (nodes d) (index d) \<and> table_ok (symbols d) (symbol_index d) \<and>
     (\<forall>i<length (nodes d). \<forall>c\<in>set (children_of (nodes d ! i)). unat c < i) \<and>
     (\<forall>e\<in>set (nodes d). var_ok (length (symbols d)) e)"

definition dag_le :: "ExprDag \<Rightarrow> ExprDag \<Rightarrow> bool" where
  "dag_le d d' \<longleftrightarrow> (\<exists>ys. nodes d' = nodes d @ ys) \<and> (\<exists>zs. symbols d' = symbols d @ zs)"

lemma dag_le_refl [simp, intro]: "dag_le d d"
  by (simp add: dag_le_def)

lemma dag_le_trans [trans]: "dag_le a b \<Longrightarrow> dag_le b c \<Longrightarrow> dag_le a c"
  by (auto simp: dag_le_def)

lemma dag_le_length: "dag_le d d' \<Longrightarrow> length (nodes d) \<le> length (nodes d')"
  by (auto simp: dag_le_def)

lemma dag_le_syms: "dag_le d d' \<Longrightarrow> length (symbols d) \<le> length (symbols d')"
  by (auto simp: dag_le_def)

lemma dag_le_try_get: "dag_le d d' \<Longrightarrow> try_get d i = Some e \<Longrightarrow> try_get d' i = Some e"
  by (auto simp: dag_le_def try_get_def nth_append split: if_splits)

lemma dag_le_symbol_name: "dag_le d d' \<Longrightarrow> symbol_name d i = Some e \<Longrightarrow> symbol_name d' i = Some e"
  by (auto simp: dag_le_def symbol_name_def nth_append split: if_splits)

lemma intern_symbols [simp]: "symbols (snd (intern d e)) = symbols d"
  "symbol_index (snd (intern d e)) = symbol_index d"
  by (auto simp: intern_def Let_def split: option.splits)

lemma intern_symbol_nodes [simp]: "nodes (snd (intern_symbol d s)) = nodes d"
  "index (snd (intern_symbol d s)) = index d"
  by (auto simp: intern_symbol_def Let_def split: option.splits)

lemma intern_le [simp]: "dag_le d (snd (intern d e))"
  using node_tab.put_prefix [of d e] by (simp add: dag_le_def)

lemma intern_symbol_le [simp]: "dag_le d (snd (intern_symbol d s))"
  using sym_tab.put_prefix [of d s] by (simp add: dag_le_def)

lemma wf_dag_new [simp]: "wf_dag new"
  by (simp add: wf_dag_def new_def table_ok_def)

lemma wf_dag_child:
  "wf_dag d \<Longrightarrow> try_get d i = Some e \<Longrightarrow> c \<in> set (children_of e) \<Longrightarrow>
     unat c < unat i \<and> unat c < length (nodes d)"
  unfolding wf_dag_def try_get_def by (metis less_trans option.distinct(1) option.inject)

lemma wf_dag_child_get:
  "wf_dag d \<Longrightarrow> try_get d i = Some e \<Longrightarrow> c \<in> set (children_of e) \<Longrightarrow> \<exists>e'. try_get d c = Some e'"
  by (drule (2) wf_dag_child) (simp add: try_get_def)

definition expr_ok :: "ExprDag \<Rightarrow> Expr \<Rightarrow> bool" where
  "expr_ok d e \<longleftrightarrow>
     (\<forall>c\<in>set (children_of e). unat c < length (nodes d)) \<and> var_ok (length (symbols d)) e"

lemma intern_wf:
  assumes "wf_dag d" "expr_ok d e" "length (nodes (snd (intern d e))) \<le> 2 ^ 32"
  shows "wf_dag (snd (intern d e))"
proof -
  have t: "table_ok (nodes (snd (intern d e))) (index (snd (intern d e)))"
    using assms by (intro node_tab.put_ok) (simp_all add: wf_dag_def)
  show ?thesis
  proof (cases "index d e")
    case None
    then have n: "nodes (snd (intern d e)) = nodes d @ [e]" by (rule node_tab.put_miss_items)
    with t assms(1,2) show ?thesis
      by (auto simp: wf_dag_def expr_ok_def nth_append less_Suc_eq)
  next
    case (Some i)
    with assms(1) show ?thesis by (simp add: node_tab.put_hit)
  qed
qed

lemma var_ok_mono: "var_ok k e \<Longrightarrow> k \<le> k' \<Longrightarrow> var_ok k' e"
  by (cases e) auto

lemma intern_symbol_wf:
  assumes "wf_dag d" "length (symbols (snd (intern_symbol d s))) \<le> 2 ^ 32"
  shows "wf_dag (snd (intern_symbol d s))"
proof -
  have "table_ok (symbols (snd (intern_symbol d s))) (symbol_index (snd (intern_symbol d s)))"
    using assms by (intro sym_tab.put_ok) (simp_all add: wf_dag_def)
  moreover have "length (symbols d) \<le> length (symbols (snd (intern_symbol d s)))"
    by (rule dag_le_syms) simp
  ultimately show ?thesis
    using assms(1) by (auto simp: wf_dag_def intro: var_ok_mono)
qed

section \<open>Recursion over the DAG\<close>

text \<open>
  A walk whose body only looks at the children of a node. On a well-formed DAG it does
  not depend on the fuel, satisfies its source equation, and does not see later growth.
\<close>

locale dag_recursion =
  fixes step :: "(NodeId \<Rightarrow> 'r option) \<Rightarrow> Expr \<Rightarrow> 'r option"
    and missing :: "NodeId \<Rightarrow> 'r option"
  assumes step_cong: "(\<And>c. c \<in> set (children_of e) \<Longrightarrow> f c = g c) \<Longrightarrow> step f e = step g e"
begin

lemma iter_fuel:
  assumes "wf_dag d" "unat i < n" "unat i < m"
  shows "dag_iter n step missing d i = dag_iter m step missing d i"
  using assms(2,3)
proof (induction "unat i" arbitrary: i n m rule: less_induct)
  case less
  then obtain n' m' where nm: "n = Suc n'" "m = Suc m'" by (metis less_imp_Suc_add)
  show ?case
  proof (cases "try_get d i")
    case (Some e)
    have "step (dag_iter n' step missing d) e = step (dag_iter m' step missing d) e"
    proof (rule step_cong)
      fix c assume "c \<in> set (children_of e)"
      with wf_dag_child [OF assms(1) Some] have c: "unat c < unat i" by simp
      moreover from c less.prems nm have "unat c < n'" "unat c < m'" by simp_all
      ultimately show "dag_iter n' step missing d c = dag_iter m' step missing d c"
        by (rule less.hyps)
    qed
    with Some nm show ?thesis by simp
  qed (simp add: nm)
qed

lemma run_unfold:
  assumes "wf_dag d"
  shows "dag_run step missing d i =
    (case try_get d i of None \<Rightarrow> missing i | Some e \<Rightarrow> step (dag_run step missing d) e)"
proof (cases "try_get d i")
  case (Some e)
  have "step (dag_iter (Suc (length (nodes d))) step missing d) e = step (dag_run step missing d) e"
  proof (rule step_cong)
    fix c assume "c \<in> set (children_of e)"
    with wf_dag_child [OF assms Some] have "unat c < length (nodes d)" by simp
    then show "dag_iter (Suc (length (nodes d))) step missing d c = dag_run step missing d c"
      unfolding dag_run_def by (intro iter_fuel assms) simp_all
  qed
  with Some show ?thesis by (simp add: dag_run_def)
qed (simp add: dag_run_def)

lemma run_extend:
  assumes "wf_dag d" "wf_dag d'" "dag_le d d'" "unat i < length (nodes d)"
  shows "dag_run step missing d' i = dag_run step missing d i"
  using assms(4)
proof (induction "unat i" arbitrary: i rule: less_induct)
  case less
  then obtain e where e: "try_get d i = Some e" by (simp add: try_get_def)
  with assms(3) have e': "try_get d' i = Some e" by (rule dag_le_try_get)
  have "step (dag_run step missing d') e = step (dag_run step missing d) e"
  proof (rule step_cong)
    fix c assume "c \<in> set (children_of e)"
    with wf_dag_child [OF assms(1) e] have "unat c < unat i" "unat c < length (nodes d)" by simp_all
    with less.hyps show "dag_run step missing d' c = dag_run step missing d c" by simp
  qed
  then show ?case
    using e e' by (simp add: run_unfold [OF assms(1)] run_unfold [OF assms(2)])
qed

end

locale dag_recursion_total = dag_recursion +
  assumes step_total: "(\<And>c. c \<in> set (children_of e) \<Longrightarrow> f c \<noteq> None) \<Longrightarrow> step f e \<noteq> None"
    and missing_total: "missing i \<noteq> None"
begin

lemma run_returns:
  assumes "wf_dag d"
  shows "dag_run step missing d i \<noteq> None"
proof (induction "unat i" arbitrary: i rule: less_induct)
  case less
  show ?case
  proof (cases "try_get d i")
    case None
    then show ?thesis using missing_total by (simp add: run_unfold [OF assms])
  next
    case (Some e)
    have "step (dag_run step missing d) e \<noteq> None"
    proof (rule step_total)
      fix c assume "c \<in> set (children_of e)"
      with wf_dag_child [OF assms Some] have "unat c < unat i" by simp
      then show "dag_run step missing d c \<noteq> None" by (rule less.hyps)
    qed
    with Some show ?thesis by (simp add: run_unfold [OF assms])
  qed
qed

end

interpretation sort_rec: dag_recursion_total sort_step "\<lambda>_. Some None"
proof unfold_locales
  show "sort_step f e = sort_step g e"
    if "\<And>c. c \<in> set (children_of e) \<Longrightarrow> f c = g c" for e f g
    using that by (cases e) (auto simp: ext_sort_def split: option.splits)
  show "sort_step f e \<noteq> None"
    if "\<And>c. c \<in> set (children_of e) \<Longrightarrow> f c \<noteq> None" for e f
    using that by (cases e) (auto simp: ext_sort_def split: option.splits)
qed simp

lemma sort_of_unfold:
  "wf_dag d \<Longrightarrow> sort_of d i =
     (case try_get d i of None \<Rightarrow> Some None | Some e \<Rightarrow> sort_step (sort_of d) e)"
  unfolding sort_of_def [abs_def] by (rule sort_rec.run_unfold)

lemma sort_of_extend:
  "wf_dag d \<Longrightarrow> wf_dag d' \<Longrightarrow> dag_le d d' \<Longrightarrow> unat i < length (nodes d) \<Longrightarrow> sort_of d' i = sort_of d i"
  unfolding sort_of_def by (rule sort_rec.run_extend)

lemma sort_of_returns: "wf_dag d \<Longrightarrow> sort_of d i \<noteq> None"
  unfolding sort_of_def by (rule sort_rec.run_returns)


section \<open>Building a DAG from lists\<close>

text \<open>Interning the given symbols and then the given expressions, in order.\<close>

definition intern_all :: "Expr list \<Rightarrow> ExprDag \<Rightarrow> ExprDag" where
  "intern_all es d = fold (\<lambda>e d. snd (intern d e)) es d"

definition dag_of :: "string list \<Rightarrow> Expr list \<Rightarrow> ExprDag" where
  "dag_of syms es = intern_all es (fold (\<lambda>s d. snd (intern_symbol d s)) syms new)"

fun exprs_ok :: "nat \<Rightarrow> nat \<Rightarrow> Expr list \<Rightarrow> bool" where
  "exprs_ok k n [] \<longleftrightarrow> True"
| "exprs_ok k n (e # es) \<longleftrightarrow>
     list_all (\<lambda>c. unat c < n) (children_of e) \<and> var_ok k e \<and> exprs_ok k (Suc n) es"

lemma intern_fresh:
  assumes "wf_dag d" "e \<notin> set (nodes d)"
  shows "nodes (snd (intern d e)) = nodes d @ [e]"
proof -
  have "index d e = None"
    using assms table_okD [of "nodes d" "index d" e] by (cases "index d e") (auto simp: wf_dag_def)
  then show ?thesis by (rule node_tab.put_miss_items)
qed

lemma intern_symbol_fresh:
  assumes "wf_dag d" "s \<notin> set (symbols d)"
  shows "symbols (snd (intern_symbol d s)) = symbols d @ [s]"
proof -
  have "symbol_index d s = None"
    using assms table_okD [of "symbols d" "symbol_index d" s]
    by (cases "symbol_index d s") (auto simp: wf_dag_def)
  then show ?thesis by (rule sym_tab.put_miss_items)
qed

lemma intern_all_wf:
  assumes "wf_dag d" "distinct (nodes d @ es)" "length (nodes d) + length es \<le> 2 ^ 32"
    and "exprs_ok (length (symbols d)) (length (nodes d)) es"
  shows "wf_dag (intern_all es d) \<and> nodes (intern_all es d) = nodes d @ es \<and>
    symbols (intern_all es d) = symbols d"
  using assms
proof (induction es arbitrary: d)
  case (Cons e es)
  let ?d = "snd (intern d e)"
  have n: "nodes ?d = nodes d @ [e]" using Cons.prems by (intro intern_fresh) auto
  have "wf_dag ?d"
    using Cons.prems n by (intro intern_wf) (auto simp: expr_ok_def list_all_iff)
  then have "wf_dag (intern_all es ?d) \<and> nodes (intern_all es ?d) = nodes ?d @ es \<and>
      symbols (intern_all es ?d) = symbols ?d"
    by (rule Cons.IH) (use Cons.prems n in simp_all)
  with n show ?case by (simp add: intern_all_def)
qed (simp add: intern_all_def)

lemma intern_symbols_wf:
  assumes "wf_dag d" "distinct (symbols d @ ss)" "length (symbols d) + length ss \<le> 2 ^ 32"
  shows "let d' = fold (\<lambda>s d. snd (intern_symbol d s)) ss d
    in wf_dag d' \<and> symbols d' = symbols d @ ss \<and> nodes d' = nodes d"
  using assms
proof (induction ss arbitrary: d)
  case (Cons s ss)
  let ?d = "snd (intern_symbol d s)"
  have n: "symbols ?d = symbols d @ [s]" using Cons.prems by (intro intern_symbol_fresh) auto
  have "wf_dag ?d" using Cons.prems n by (intro intern_symbol_wf) auto
  from Cons.IH [OF this] Cons.prems n show ?case by (simp add: Let_def)
qed simp

lemma dag_of_wf:
  assumes "distinct syms" "distinct es" "length syms \<le> 2 ^ 32" "length es \<le> 2 ^ 32"
    and "exprs_ok (length syms) 0 es"
  shows "wf_dag (dag_of syms es)" "nodes (dag_of syms es) = es" "symbols (dag_of syms es) = syms"
proof -
  have s: "symbols new = []" "nodes new = []" by (simp_all add: new_def)
  let ?d = "fold (\<lambda>s d. snd (intern_symbol d s)) syms new"
  have d: "wf_dag ?d" "symbols ?d = syms" "nodes ?d = []"
    using intern_symbols_wf [of new syms] assms s by (simp_all add: Let_def)
  have "wf_dag (intern_all es ?d) \<and> nodes (intern_all es ?d) = nodes ?d @ es \<and>
      symbols (intern_all es ?d) = symbols ?d"
    using d assms by (intro intern_all_wf) simp_all
  then show "wf_dag (dag_of syms es)" "nodes (dag_of syms es) = es" "symbols (dag_of syms es) = syms"
    using d by (simp_all add: dag_of_def)
qed

end
