(* ===== verification/Expr_Typing.thy ===== *)
theory Expr_Typing
  imports Expr_Dag
begin

text \<open>
  The sort discipline of \<open>src/concolic/expr.rs\<close> as an inductive judgement \<open>wt\<close>, and
  the equivalence of the checker \<open>validate\<close> with it: on a well-formed DAG the checker
  returns, it accepts exactly the well-typed roots, and \<open>sort_of\<close> computes their sort.
  The visited set, which makes the checker skip shared nodes, is shown not to lose errors.
\<close>

section \<open>The typing judgement\<close>

fun bv_binop_args :: "Expr \<Rightarrow> (NodeId \<times> NodeId) option" where
  "bv_binop_args (BvAdd a b) = Some (a, b)"
| "bv_binop_args (BvSub a b) = Some (a, b)"
| "bv_binop_args (BvMul a b) = Some (a, b)"
| "bv_binop_args (BvAnd a b) = Some (a, b)"
| "bv_binop_args (BvOr a b) = Some (a, b)"
| "bv_binop_args (BvXor a b) = Some (a, b)"
| "bv_binop_args (BvShl a b) = Some (a, b)"
| "bv_binop_args (BvLShr a b) = Some (a, b)"
| "bv_binop_args (BvAShr a b) = Some (a, b)"
| "bv_binop_args _ = None"

fun bv_cmp_args :: "Expr \<Rightarrow> (NodeId \<times> NodeId) option" where
  "bv_cmp_args (Ult a b) = Some (a, b)"
| "bv_cmp_args (Ule a b) = Some (a, b)"
| "bv_cmp_args (Slt a b) = Some (a, b)"
| "bv_cmp_args (Sle a b) = Some (a, b)"
| "bv_cmp_args _ = None"

fun bool_args :: "Expr \<Rightarrow> NodeId list option" where
  "bool_args (ENot a) = Some [a]"
| "bool_args (EAnd cs) = Some cs"
| "bool_args (EOr cs) = Some cs"
| "bool_args _ = None"

fun ext_args :: "Expr \<Rightarrow> (u32 \<times> NodeId) option" where
  "ext_args (ZeroExt extra value) = Some (extra, value)"
| "ext_args (SignExt extra value) = Some (extra, value)"
| "ext_args _ = None"

definition const_fits :: "u128 \<Rightarrow> u32 \<Rightarrow> bool" where
  "const_fits value bits \<longleftrightarrow> bits \<noteq> 0 \<and> bits \<le> 128 \<and> unat value < 2 ^ unat bits"

inductive wt :: "ExprDag \<Rightarrow> NodeId \<Rightarrow> Sort \<Rightarrow> bool" for d where
  wt_var: "try_get d i = Some (Var n s) \<Longrightarrow> wt d i s"
| wt_bool: "try_get d i = Some (BoolConst b) \<Longrightarrow> wt d i Bool"
| wt_const: "try_get d i = Some (BvConst v w) \<Longrightarrow> const_fits v w \<Longrightarrow> wt d i (Bv w)"
| wt_logic: "try_get d i = Some e \<Longrightarrow> bool_args e = Some cs \<Longrightarrow>
    (\<And>c. c \<in> set cs \<Longrightarrow> wt d c Bool) \<Longrightarrow> wt d i Bool"
| wt_eq: "try_get d i = Some (EEq a b) \<Longrightarrow> wt d a s \<Longrightarrow> wt d b s \<Longrightarrow> wt d i Bool"
| wt_binop: "try_get d i = Some e \<Longrightarrow> bv_binop_args e = Some (a, b) \<Longrightarrow>
    wt d a (Bv w) \<Longrightarrow> wt d b (Bv w) \<Longrightarrow> wt d i (Bv w)"
| wt_cmp: "try_get d i = Some e \<Longrightarrow> bv_cmp_args e = Some (a, b) \<Longrightarrow>
    wt d a (Bv w) \<Longrightarrow> wt d b (Bv w) \<Longrightarrow> wt d i Bool"
| wt_extract: "try_get d i = Some (Extract hi lo value) \<Longrightarrow> wt d value (Bv w) \<Longrightarrow>
    lo \<le> hi \<Longrightarrow> hi < w \<Longrightarrow> wt d i (Bv (hi - lo + 1))"
| wt_concat: "try_get d i = Some (Concat a b) \<Longrightarrow> wt d a (Bv wa) \<Longrightarrow> wt d b (Bv wb) \<Longrightarrow>
    wt d i (Bv (wa + wb))"
| wt_ext: "try_get d i = Some e \<Longrightarrow> ext_args e = Some (extra, value) \<Longrightarrow> wt d value (Bv w) \<Longrightarrow>
    wt d i (Bv (w + extra))"
| wt_ite: "try_get d i = Some (Ite c t e) \<Longrightarrow> wt d c Bool \<Longrightarrow> wt d t s \<Longrightarrow> wt d e s \<Longrightarrow> wt d i s"
| wt_load: "try_get d i = Some (Load8 mem addr) \<Longrightarrow> wt d mem (Array ib 8) \<Longrightarrow> wt d addr sa \<Longrightarrow>
    wt d i (Bv 8)"
| wt_store: "try_get d i = Some (Store8 mem addr value) \<Longrightarrow> wt d mem (Array ib 8) \<Longrightarrow>
    wt d addr sa \<Longrightarrow> wt d value (Bv 8) \<Longrightarrow> wt d i (Array ib 8)"

definition typeable :: "ExprDag \<Rightarrow> NodeId \<Rightarrow> bool" where
  "typeable d i \<longleftrightarrow> (\<exists>s. wt d i s)"

lemma wt_get: "wt d i s \<Longrightarrow> \<exists>e. try_get d i = Some e"
  by (cases rule: wt.cases) auto

lemma wt_bound: "wt d i s \<Longrightarrow> unat i < length (nodes d)"
  using wt_get by (fastforce simp: try_get_def split: if_splits)

lemma wt_extend: "wt d i s \<Longrightarrow> dag_le d d' \<Longrightarrow> wt d' i s"
  by (induction rule: wt.induct) (auto intro: wt.intros dest: dag_le_try_get)

text \<open>The sort of a well-typed node is what \<open>sort_of\<close> computes.\<close>

lemma wt_sort_of: "wt d i s \<Longrightarrow> wf_dag d \<Longrightarrow> sort_of d i = Some (Some s)"
proof (induction rule: wt.induct)
  case (wt_logic i e cs)
  then show ?case by (subst sort_of_unfold) (cases e; simp)+
next
  case (wt_binop i e a b w)
  then show ?case by (subst sort_of_unfold) (cases e; simp)+
next
  case (wt_cmp i e a b w)
  then show ?case by (subst sort_of_unfold) (cases e; simp)+
next
  case (wt_ext i e extra v w)
  then show ?case by (subst sort_of_unfold) (cases e; simp add: ext_sort_def)+
qed (subst sort_of_unfold; simp)+

lemma wt_unique: "wf_dag d \<Longrightarrow> wt d i s \<Longrightarrow> wt d i s' \<Longrightarrow> s = s'"
  by (drule (1) wt_sort_of)+ simp

section \<open>What the checker asks of one node\<close>

lemma and_then_Ok: "and_then m f = Some (Ok y) \<longleftrightarrow> (\<exists>x. m = Some (Ok x) \<and> f x = Some (Ok y))"
  by (auto simp: and_then_def split: option.splits sum.splits)

lemma bv_width_Some: "bv_width s = Some w \<longleftrightarrow> s = Bv w"
  by (cases s) auto

lemma sort_or_err_Ok: "sort_or_err d i = Some (Ok s) \<longleftrightarrow> sort_of d i = Some (Some s)"
  by (auto simp: sort_or_err_def split: option.splits)

lemma width_or_err_Ok: "width_or_err d i op = Some (Ok w) \<longleftrightarrow> sort_of d i = Some (Some (Bv w))"
proof -
  have "(case bv_width s of None \<Rightarrow> Some (Err (SortMismatch op (Bv 0) Bool)) | Some w \<Rightarrow> Some (Ok w)) =
      Some (Ok w) \<longleftrightarrow> s = Bv w" for s
    by (cases s) auto
  then show ?thesis by (auto simp: width_or_err_def and_then_Ok sort_or_err_Ok)
qed

lemma expect_sort_Ok: "expect_sort d i s op = Some (Ok u) \<longleftrightarrow> sort_of d i = Some (Some s)"
  by (auto simp: expect_sort_def and_then_Ok sort_or_err_Ok)

lemma check_byte_array_Ok: "check_byte_array op s = Some (Ok u) \<longleftrightarrow> (\<exists>ib. s = Array ib 8)"
  by (auto simp: check_byte_array_def split: Sort.splits)

lemmas run_Ok = and_then_Ok sort_or_err_Ok width_or_err_Ok expect_sort_Ok check_byte_array_Ok bv_width_Some

lemma const_check:
  "\<not> (bits = 0 \<or> bits > 128) \<and> \<not> (bits < 128 \<and> v \<ge> push_bit (unat bits) 1) \<longleftrightarrow>
     const_fits v (bits :: u32)"
proof (cases "bits < 128")
  case True
  then have "unat bits < 128" by (simp add: word_less_nat_alt)
  then have "unat (push_bit (unat bits) (1 :: u128)) = 2 ^ unat bits"
    using unat_2_power [where 'a = 128, of "unat bits"] by (simp add: push_bit_eq_mult)
  then show ?thesis
    using True by (auto simp: const_fits_def word_le_nat_alt word_less_nat_alt)
next
  case False
  have "unat v < 2 ^ 128" using unsigned_less [of v, where ?'a = nat] by simp
  moreover have "bits = 128" if "\<not> 128 < bits" using False that by simp
  ultimately show ?thesis using False by (auto simp: const_fits_def)
qed

text \<open>The node-local part of the check, in terms of the sorts of the children.\<close>

fun local_ok :: "ExprDag \<Rightarrow> Expr \<Rightarrow> bool" where
  "local_ok d (BvConst v w) \<longleftrightarrow> const_fits v w"
| "local_ok d (EEq a b) \<longleftrightarrow> (\<exists>s. sort_of d a = Some (Some s) \<and> sort_of d b = Some (Some s))"
| "local_ok d (Extract hi lo v) \<longleftrightarrow> (\<exists>w. sort_of d v = Some (Some (Bv w)) \<and> lo \<le> hi \<and> hi < w)"
| "local_ok d (Concat a b) \<longleftrightarrow>
     (\<exists>wa wb. sort_of d a = Some (Some (Bv wa)) \<and> sort_of d b = Some (Some (Bv wb)))"
| "local_ok d (Ite c t e) \<longleftrightarrow> sort_of d c = Some (Some Bool) \<and>
     (\<exists>s. sort_of d t = Some (Some s) \<and> sort_of d e = Some (Some s))"
| "local_ok d (Load8 m a) \<longleftrightarrow> (\<exists>ib. sort_of d m = Some (Some (Array ib 8)))"
| "local_ok d (Store8 m a v) \<longleftrightarrow>
     (\<exists>ib. sort_of d m = Some (Some (Array ib 8))) \<and> sort_of d v = Some (Some (Bv 8))"
| "local_ok d e \<longleftrightarrow>
     (\<forall>cs. bool_args e = Some cs \<longrightarrow> (\<forall>c\<in>set cs. sort_of d c = Some (Some Bool))) \<and>
     (\<forall>x v. ext_args e = Some (x, v) \<longrightarrow> (\<exists>w. sort_of d v = Some (Some (Bv w)))) \<and>
     (\<forall>a b. bv_binop_args e = Some (a, b) \<or> bv_cmp_args e = Some (a, b) \<longrightarrow>
        (\<exists>w. sort_of d a = Some (Some (Bv w)) \<and> sort_of d b = Some (Some (Bv w))))"

text \<open>The recursive part: the children are visited in order, threading the visited set.\<close>

fun visit_all :: "visit \<Rightarrow> NodeId list \<Rightarrow> NodeId set \<Rightarrow> NodeId set run" where
  "visit_all rec [] V = Some (Ok V)"
| "visit_all rec (c # cs) V = and_then (rec c V) (visit_all rec cs)"

lemma validate_children_Ok:
  "validate_children d rec cs V = Some (Ok V') \<longleftrightarrow>
     visit_all rec cs V = Some (Ok V') \<and> (\<forall>c\<in>set cs. sort_of d c = Some (Some Bool))"
  by (induction cs arbitrary: V) (auto simp: run_Ok)

lemma validate_pair_Ok:
  "validate_pair d rec op a b V = Some (Ok V') \<longleftrightarrow>
     visit_all rec [a, b] V = Some (Ok V') \<and>
     (\<exists>w. sort_of d a = Some (Some (Bv w)) \<and> sort_of d b = Some (Some (Bv w)))"
  by (auto simp: validate_pair_def run_Ok)

lemma validate_expr_Ok:
  "validate_expr d rec e V = Some (Ok V') \<longleftrightarrow>
     visit_all rec (children_of e) V = Some (Ok V') \<and> local_ok d e"
proof (cases e)
  case (BvConst v w)
  then show ?thesis using const_check [of w v] by auto
next
  case (Extract hi lo v)
  then show ?thesis by (auto simp: run_Ok not_less not_le)
qed (auto simp: validate_children_Ok validate_pair_Ok validate_ext_def run_Ok)

lemma local_ok_views:
  "local_ok d e \<Longrightarrow> bv_binop_args e = Some (a, b) \<or> bv_cmp_args e = Some (a, b) \<Longrightarrow>
     \<exists>w. sort_of d a = Some (Some (Bv w)) \<and> sort_of d b = Some (Some (Bv w))"
  "local_ok d e \<Longrightarrow> ext_args e = Some (x, v) \<Longrightarrow> \<exists>w. sort_of d v = Some (Some (Bv w))"
  "local_ok d e \<Longrightarrow> bool_args e = Some cs \<Longrightarrow> c \<in> set cs \<Longrightarrow> sort_of d c = Some (Some Bool)"
  by (cases e; auto)+

lemma children_views:
  "bv_binop_args e = Some (a, b) \<or> bv_cmp_args e = Some (a, b) \<Longrightarrow> set (children_of e) = {a, b}"
  "ext_args e = Some (x, v) \<Longrightarrow> children_of e = [v]"
  "bool_args e = Some cs \<Longrightarrow> children_of e = cs"
  by (cases e; auto)+

lemma local_ok_iff_typed:
  assumes "wf_dag d" "try_get d i = Some e"
  shows "typeable d i \<longleftrightarrow> local_ok d e \<and> (\<forall>c\<in>set (children_of e). typeable d c)"
proof
  assume "typeable d i"
  then obtain s where "wt d i s" by (auto simp: typeable_def)
  then show "local_ok d e \<and> (\<forall>c\<in>set (children_of e). typeable d c)"
    using assms(2) by (cases rule: wt.cases; cases e)
      (auto simp: typeable_def wt_sort_of [OF _ assms(1)])
next
  assume r: "local_ok d e \<and> (\<forall>c\<in>set (children_of e). typeable d c)"
  then have sub: "\<forall>c\<in>set (children_of e). \<forall>s. sort_of d c = Some (Some s) \<longrightarrow> wt d c s"
    using wt_sort_of [OF _ assms(1)] by (fastforce simp: typeable_def)
  have c: "\<forall>c\<in>set (children_of e). \<exists>s. wt d c s" using r by (simp add: typeable_def)
  have l: "local_ok d e" using r by simp
  have "\<exists>s. wt d i s"
  proof (cases "bv_binop_args e")
    case (Some p)
    then obtain a b where ab: "bv_binop_args e = Some (a, b)" by (cases p) simp
    then obtain w where "sort_of d a = Some (Some (Bv w))" "sort_of d b = Some (Some (Bv w))"
      using local_ok_views(1) [OF l] by blast
    then have "wt d a (Bv w)" "wt d b (Bv w)" using sub children_views(1) [of e a b] ab by simp_all
    with assms(2) ab have "wt d i (Bv w)" by (rule wt_binop)
    then show ?thesis ..
  next
    case no_bin: None
    show ?thesis
    proof (cases "bv_cmp_args e")
      case (Some p)
      then obtain a b where ab: "bv_cmp_args e = Some (a, b)" by (cases p) simp
      then obtain w where "sort_of d a = Some (Some (Bv w))" "sort_of d b = Some (Some (Bv w))"
        using local_ok_views(1) [OF l] by blast
      then have "wt d a (Bv w)" "wt d b (Bv w)" using sub children_views(1) [of e a b] ab by simp_all
      with assms(2) ab have "wt d i Bool" by (rule wt_cmp)
      then show ?thesis ..
    next
      case no_cmp: None
      show ?thesis
      proof (cases "ext_args e")
        case (Some p)
        then obtain x v where xv: "ext_args e = Some (x, v)" by (cases p) simp
        then obtain w where "sort_of d v = Some (Some (Bv w))" using local_ok_views(2) [OF l] by blast
        then have "wt d v (Bv w)" using sub children_views(2) [OF xv] by simp
        with assms(2) xv have "wt d i (Bv (w + x))" by (rule wt_ext)
        then show ?thesis ..
      next
        case no_ext: None
        show ?thesis
        proof (cases "bool_args e")
          case (Some cs)
          have "wt d i Bool"
            using local_ok_views(3) [OF l Some] children_views(3) [OF Some] sub
            by (intro wt_logic [OF assms(2) Some]) simp
          then show ?thesis ..
        next
          case None
          with no_bin no_cmp no_ext l c sub assms(2) show ?thesis
            by (cases e) (auto intro: wt_var wt_const wt_bool wt_extract wt_ite wt_store,
              (blast intro: wt_eq wt_concat wt_load)+)
        qed
      qed
    qed
  qed
  then show "typeable d i" by (simp add: typeable_def)
qed


section \<open>The visited set\<close>

text \<open>
  What a recursive call guarantees about nodes below \<open>k\<close>, when everything already
  visited below \<open>k\<close> is typeable: the node is typeable, and so is all it adds.
\<close>

definition visit_sound :: "ExprDag \<Rightarrow> nat \<Rightarrow> visit \<Rightarrow> bool" where
  "visit_sound d k rec \<longleftrightarrow>
     (\<forall>c V V'. unat c < k \<longrightarrow> (\<forall>x\<in>V. unat x < k \<longrightarrow> typeable d x) \<longrightarrow> rec c V = Some (Ok V') \<longrightarrow>
        typeable d c \<and> (\<forall>x\<in>V'. x \<in> V \<or> typeable d x))"

lemma visit_all_sound:
  assumes "visit_sound d k rec" "\<forall>c\<in>set cs. unat c < k"
    and "\<forall>x\<in>V. unat x < k \<longrightarrow> typeable d x" "visit_all rec cs V = Some (Ok V')"
  shows "(\<forall>c\<in>set cs. typeable d c) \<and> (\<forall>x\<in>V'. x \<in> V \<or> typeable d x)"
  using assms(2-)
proof (induction cs arbitrary: V)
  case (Cons c cs)
  then obtain V1 where r: "rec c V = Some (Ok V1)" "visit_all rec cs V1 = Some (Ok V')"
    by (auto simp: run_Ok)
  with assms(1) Cons.prems have v: "typeable d c \<and> (\<forall>x\<in>V1. x \<in> V \<or> typeable d x)"
    unfolding visit_sound_def by (metis list.set_intros(1))
  with Cons.prems have "\<forall>x\<in>V1. unat x < k \<longrightarrow> typeable d x" by blast
  with Cons.IH [OF _ _ r(2)] Cons.prems(1) v show ?case by auto
qed simp

lemma validate_node_sound:
  assumes "wf_dag d"
  shows "validate_node n d i V = Some (Ok V') \<Longrightarrow> \<forall>x\<in>V. unat x \<le> unat i \<longrightarrow> typeable d x \<Longrightarrow>
    typeable d i \<and> (\<forall>x\<in>V'. x \<in> V \<or> typeable d x)"
proof (induction n arbitrary: i V V')
  case (Suc n)
  show ?case
  proof (cases "i \<in> V")
    case True
    with Suc.prems show ?thesis by auto
  next
    case False
    with Suc.prems(1) obtain e where e: "try_get d i = Some e"
      and x: "validate_expr d (validate_node n d) e (insert i V) = Some (Ok V')"
      by (auto split: option.splits)
    then have v: "visit_all (validate_node n d) (children_of e) (insert i V) = Some (Ok V')"
      and l: "local_ok d e" by (simp_all add: validate_expr_Ok)
    have "visit_sound d (unat i) (validate_node n d)"
      unfolding visit_sound_def
    proof (intro allI impI)
      fix c W W'
      assume c: "unat c < unat i" "\<forall>x\<in>W. unat x < unat i \<longrightarrow> typeable d x"
        and r: "validate_node n d c W = Some (Ok W')"
      then have "\<forall>x\<in>W. unat x \<le> unat c \<longrightarrow> typeable d x" by simp
      with r show "typeable d c \<and> (\<forall>x\<in>W'. x \<in> W \<or> typeable d x)" by (rule Suc.IH)
    qed
    moreover have "\<forall>c\<in>set (children_of e). unat c < unat i"
      using wf_dag_child [OF assms e] by blast
    moreover have "\<forall>x\<in>insert i V. unat x < unat i \<longrightarrow> typeable d x" using Suc.prems(2) by auto
    ultimately have "(\<forall>c\<in>set (children_of e). typeable d c) \<and> (\<forall>x\<in>V'. x \<in> insert i V \<or> typeable d x)"
      using v by (rule visit_all_sound)
    moreover from this l have "typeable d i" using local_ok_iff_typed [OF assms e] by blast
    ultimately show ?thesis by auto
  qed
qed simp

section \<open>Completeness and termination\<close>

lemma visit_all_complete:
  "(\<And>c V. c \<in> set cs \<Longrightarrow> \<exists>V'. rec c V = Some (Ok V')) \<Longrightarrow> \<exists>V'. visit_all rec cs V = Some (Ok V')"
  by (induction cs arbitrary: V) (auto simp: run_Ok, metis)

lemma validate_node_complete:
  assumes "wf_dag d"
  shows "typeable d i \<Longrightarrow> unat i < n \<Longrightarrow> \<exists>V'. validate_node n d i V = Some (Ok V')"
proof (induction n arbitrary: i V)
  case (Suc n)
  obtain e where e: "try_get d i = Some e"
    using Suc.prems(1) wt_get unfolding typeable_def by blast
  from Suc.prems(1) have l: "local_ok d e" and c: "\<forall>c\<in>set (children_of e). typeable d c"
    using local_ok_iff_typed [OF assms e] by blast+
  have "\<exists>V'. visit_all (validate_node n d) (children_of e) (insert i V) = Some (Ok V')"
  proof (rule visit_all_complete)
    fix x W assume x: "x \<in> set (children_of e)"
    with wf_dag_child [OF assms e] Suc.prems(2) have "unat x < n" by fastforce
    with Suc.IH c x show "\<exists>V'. validate_node n d x W = Some (Ok V')" by blast
  qed
  with e l show ?case by (auto simp: validate_expr_Ok)
qed simp

lemma and_then_returns: "m \<noteq> None \<Longrightarrow> (\<And>x. f x \<noteq> None) \<Longrightarrow> and_then m f \<noteq> None"
  by (auto simp: and_then_def split: option.splits sum.splits)

lemma checks_return:
  assumes "wf_dag d"
  shows "sort_or_err d i \<noteq> None" "width_or_err d i op \<noteq> None" "expect_sort d i s op \<noteq> None"
    "check_byte_array op s \<noteq> None"
proof -
  show 1: "sort_or_err d i \<noteq> None" for i
    using sort_of_returns [OF assms, of i] by (simp add: sort_or_err_def)
  show "width_or_err d i op \<noteq> None"
    unfolding width_or_err_def by (intro and_then_returns 1) (simp split: option.splits)
  show "expect_sort d i s op \<noteq> None"
    unfolding expect_sort_def by (intro and_then_returns 1) simp
  show "check_byte_array op s \<noteq> None"
    by (simp add: check_byte_array_def split: Sort.splits)
qed

lemma validate_children_returns:
  assumes "wf_dag d"
  shows "(\<And>c V. c \<in> set cs \<Longrightarrow> rec c V \<noteq> None) \<Longrightarrow> validate_children d rec cs V \<noteq> None"
proof (induction cs arbitrary: V)
  case (Cons c cs)
  show ?case
    unfolding validate_children.simps
    by (intro and_then_returns checks_return [OF assms] Cons.IH Cons.prems) simp_all
qed simp

lemma validate_expr_returns:
  assumes "wf_dag d" "\<And>c V. c \<in> set (children_of e) \<Longrightarrow> rec c V \<noteq> None"
  shows "validate_expr d rec e V \<noteq> None"
  using assms(2)
  by (cases e)
    (simp_all del: not_None_eq add: validate_pair_def validate_ext_def and_then_returns
      checks_return [OF assms(1)] validate_children_returns [OF assms(1)])

lemma validate_node_returns:
  assumes "wf_dag d"
  shows "unat i < n \<Longrightarrow> validate_node n d i V \<noteq> None"
proof (induction n arbitrary: i V)
  case (Suc n)
  show ?case
  proof (cases "try_get d i")
    case (Some e)
    have "validate_expr d (validate_node n d) e (insert i V) \<noteq> None"
    proof (rule validate_expr_returns [OF assms])
      fix c W assume "c \<in> set (children_of e)"
      with wf_dag_child [OF assms Some] Suc.prems have "unat c < n" by fastforce
      then show "validate_node n d c W \<noteq> None" by (rule Suc.IH)
    qed
    with Some show ?thesis by simp
  qed simp
qed simp

lemma validate_node_invalid: "try_get d i = None \<Longrightarrow> validate_node (Suc n) d i {} = Some (Err (InvalidNodeId i))"
  by simp

lemma validate_iff_typeable:
  assumes "wf_dag d"
  shows "validate d i = Some (Ok ()) \<longleftrightarrow> typeable d i"
proof
  assume "validate d i = Some (Ok ())"
  then obtain V where V: "validate_node (length (nodes d) + 2) d i {} = Some (Ok V)"
    by (auto simp: validate_def run_Ok)
  show "typeable d i"
    using validate_node_sound [OF assms V] by simp
next
  assume t: "typeable d i"
  then have "unat i < length (nodes d) + 2" unfolding typeable_def using wt_bound by fastforce
  with validate_node_complete [OF assms t] obtain V where
    "validate_node (length (nodes d) + 2) d i {} = Some (Ok V)" by blast
  then show "validate d i = Some (Ok ())" by (simp add: validate_def and_then_def)
qed

lemma validate_returns:
  assumes "wf_dag d"
  shows "validate d i \<noteq> None"
proof (cases "try_get d i")
  case None
  then show ?thesis by (simp add: validate_def and_then_def)
next
  case (Some e)
  then have "unat i < length (nodes d) + 2" by (simp add: try_get_def split: if_splits)
  then show ?thesis
    unfolding validate_def by (intro and_then_returns validate_node_returns [OF assms]) simp_all
qed


section \<open>Properties\<close>

text \<open>
  Interning an expression over valid ids keeps the DAG well-formed, returns an id that
  reads back as the expression, leaves every earlier node in place, finds the same id when
  the expression is interned again, and no other id holds it: structurally equal
  expressions have equal ids. The only capacity condition is that ids stay within 32 bits.
\<close>

theorem intern_correct:
  assumes "wf_dag d" "expr_ok d e" "intern d e = (i, d')" "length (nodes d') \<le> 2 ^ 32"
  shows "wf_dag d' \<and> get d' i = Some e \<and> intern d' e = (i, d') \<and>
    (\<forall>j x. get d j = Some x \<longrightarrow> get d' j = Some x) \<and> (\<forall>j. get d' j = Some e \<longrightarrow> j = i)"
proof -
  have d': "d' = snd (intern d e)" and i: "i = fst (intern d e)" using assms(3) by simp_all
  have wf: "wf_dag d'" unfolding d' using assms d' by (intro intern_wf) simp_all
  have t: "table_ok (nodes d) (index d)" using assms(1) by (simp add: wf_dag_def)
  have g: "get d' i = Some e"
    using node_tab.put_lookup [OF t, of e] assms(4) unfolding d' i by (simp add: get_def try_get_def)
  have inj: "j = i" if "get d' j = Some e" for j
  proof -
    have t': "table_ok (nodes d') (index d')" using wf by (simp add: wf_dag_def)
    have "index d' e = Some j" "index d' e = Some i"
      using table_ok_find [OF t', of j] table_ok_find [OF t', of i] that g
      by (simp_all add: get_def try_get_def split: if_splits)
    then show ?thesis by simp
  qed
  have "intern d' e = (i, d')" using node_tab.put_again [of d e] assms(3) by simp
  moreover have "dag_le d d'" unfolding d' by simp
  then have "\<forall>j x. get d j = Some x \<longrightarrow> get d' j = Some x"
    unfolding get_def using dag_le_try_get by blast
  ultimately show ?thesis using wf g inj by blast
qed

lemma intern_correct_witness:
  "wf_dag (dag_of [] [BvConst 1 8, BvConst 2 8]) \<and>
   (let (i, d') = intern (dag_of [] [BvConst 1 8, BvConst 2 8]) (BvAdd 0 1)
    in get d' i = Some (BvAdd 0 1) \<and> (\<forall>j. get d' j = Some (BvAdd 0 1) \<longrightarrow> j = i))"
proof -
  let ?d = "dag_of [] [BvConst 1 8, BvConst 2 8]"
  have d: "wf_dag ?d" "nodes ?d = [BvConst 1 8, BvConst 2 8]" by (rule dag_of_wf; simp)+
  obtain i d' where r: "intern ?d (BvAdd 0 1) = (i, d')" by (cases "intern ?d (BvAdd 0 1)")
  then have "nodes d' = nodes ?d @ [BvAdd 0 1]"
    using intern_fresh [OF d(1), of "BvAdd 0 1"] d(2) by simp
  then have "length (nodes d') \<le> 2 ^ 32" using d(2) by simp
  with intern_correct [OF d(1) _ r] d r show ?thesis by (simp add: expr_ok_def)
qed

text \<open>
  Symbols are interned the same way: the id reads back as the name, names already in the
  table keep their ids, and no other id carries the name.
\<close>

theorem intern_symbol_correct:
  assumes "wf_dag d" "intern_symbol d name = (i, d')" "length (symbols d') \<le> 2 ^ 32"
  shows "wf_dag d' \<and> symbol_name d' i = Some name \<and> intern_symbol d' name = (i, d') \<and>
    (\<forall>j x. symbol_name d j = Some x \<longrightarrow> symbol_name d' j = Some x) \<and>
    (\<forall>j. symbol_name d' j = Some name \<longrightarrow> j = i)"
proof -
  have d': "d' = snd (intern_symbol d name)" and i: "i = fst (intern_symbol d name)"
    using assms(2) by simp_all
  have wf: "wf_dag d'" unfolding d' using assms d' by (intro intern_symbol_wf) simp_all
  have t: "table_ok (symbols d) (symbol_index d)" using assms(1) by (simp add: wf_dag_def)
  have g: "symbol_name d' i = Some name"
    using sym_tab.put_lookup [OF t, of name] assms(3) unfolding d' i by (simp add: symbol_name_def)
  have inj: "j = i" if "symbol_name d' j = Some name" for j
  proof -
    have t': "table_ok (symbols d') (symbol_index d')" using wf by (simp add: wf_dag_def)
    have "symbol_index d' name = Some j" "symbol_index d' name = Some i"
      using table_ok_find [OF t', of j] table_ok_find [OF t', of i] that g
      by (simp_all add: symbol_name_def split: if_splits)
    then show ?thesis by simp
  qed
  have "intern_symbol d' name = (i, d')" using sym_tab.put_again [of d name] assms(2) by simp
  moreover have "dag_le d d'" unfolding d' by simp
  then have "\<forall>j x. symbol_name d j = Some x \<longrightarrow> symbol_name d' j = Some x"
    using dag_le_symbol_name by blast
  ultimately show ?thesis using wf g inj by blast
qed

lemma intern_symbol_correct_witness:
  "let (i, d') = intern_symbol new ''input_b0''
   in wf_dag d' \<and> symbol_name d' i = Some ''input_b0'' \<and> intern_symbol d' ''input_b0'' = (i, d')"
proof -
  obtain i d' where r: "intern_symbol new ''input_b0'' = (i, d')" by (cases "intern_symbol new ''input_b0''")
  then have "symbols d' = [''input_b0'']"
    using intern_symbol_fresh [OF wf_dag_new, of "''input_b0''"] by (simp add: new_def)
  then have "length (symbols d') \<le> 2 ^ 32" by simp
  with intern_symbol_correct [OF wf_dag_new r] r show ?thesis by simp
qed

text \<open>
  C35: the checker decides the sort discipline. On a well-formed DAG \<open>validate\<close> returns on
  every root, accepts a root exactly when the typing judgement gives it a sort, and
  \<open>sort_of\<close> computes that sort; skipping visited nodes loses no error.
\<close>

theorem validate_decides_typing:
  assumes "wf_dag d"
  shows "validate d i \<noteq> None \<and> (validate d i = Some (Ok ()) \<longleftrightarrow> (\<exists>s. wt d i s)) \<and>
    (\<forall>s. wt d i s \<longrightarrow> sort_of d i = Some (Some s))"
  using validate_returns [OF assms] validate_iff_typeable [OF assms] wt_sort_of [OF _ assms]
  by (auto simp: typeable_def)

lemma validate_decides_typing_witness:
  "(\<exists>s. wt (dag_of [] [BvConst 1 8, BvConst 2 8, BvAdd 0 1]) 2 s) \<and>
   \<not> (\<exists>s. wt (dag_of [] [BvConst 1 8, BvConst 2 16, BvAdd 0 1]) 2 s)"
proof -
  let ?d = "dag_of [] [BvConst 1 8, BvConst 2 8, BvAdd 0 1]"
  let ?e = "dag_of [] [BvConst 1 8, BvConst 2 16, BvAdd 0 1]"
  have d: "wf_dag ?d" and e: "wf_dag ?e" by (rule dag_of_wf; simp)+
  have "validate ?d 2 = Some (Ok ())" and "validate ?e 2 = Some (Err (WidthMismatch ''bvadd'' 8 16))"
    by code_simp+
  then show ?thesis
    using validate_decides_typing [OF d, of 2] validate_decides_typing [OF e, of 2] by simp
qed

end
