(* ===== verification/Expr_Semantics.thy ===== *)
theory Expr_Semantics
  imports Expr_Typing
begin

text \<open>
  A specification of what a DAG node means: the fixed-width bit-vector semantics of
  SMT-LIB that the backends of the concolic engine give to the expression constructors.
  It is not code of the repository; the properties of the slicer, the branch lifters, the
  fast solver and the shadow emulator are stated against it.

  Bit-vector values are integers in \<open>0 ..< 2 ^ w\<close> tagged with their width. \<open>eval\<close> is
  \<open>None\<close> where the expression has no value (a width or sort error, an invalid node).
  An assignment gives a value to every symbol at every sort. Equality of arrays is left
  without a value.
\<close>

section \<open>Values and assignments\<close>

datatype val = VBool bool | VBv nat int | VArr "int \<Rightarrow> int"

type_synonym assignment = "SymbolId \<Rightarrow> Sort \<Rightarrow> val"

fun val_ok :: "Sort \<Rightarrow> val \<Rightarrow> bool" where
  "val_ok Bool (VBool b) \<longleftrightarrow> True"
| "val_ok (Bv w) (VBv n x) \<longleftrightarrow> n = unat w \<and> 0 \<le> x \<and> x < 2 ^ n"
| "val_ok (Array ib vb) (VArr f) \<longleftrightarrow> (\<forall>i. 0 \<le> f i \<and> f i < 2 ^ unat vb)"
| "val_ok _ _ \<longleftrightarrow> False"

definition env_ok :: "assignment \<Rightarrow> bool" where
  "env_ok env \<longleftrightarrow> (\<forall>n s. val_ok s (env n s))"

definition sval :: "nat \<Rightarrow> int \<Rightarrow> int" where
  "sval w x = signed_take_bit (w - 1) x"

section \<open>Evaluation\<close>

fun all_true :: "val option list \<Rightarrow> bool option" where
  "all_true [] = Some True"
| "all_true (Some (VBool b) # vs) = map_option (\<lambda>r. b \<and> r) (all_true vs)"
| "all_true _ = None"

fun any_true :: "val option list \<Rightarrow> bool option" where
  "any_true [] = Some False"
| "any_true (Some (VBool b) # vs) = map_option (\<lambda>r. b \<or> r) (any_true vs)"
| "any_true _ = None"

fun bv2 :: "(nat \<Rightarrow> int \<Rightarrow> int \<Rightarrow> val) \<Rightarrow> val option \<Rightarrow> val option \<Rightarrow> val option" where
  "bv2 f (Some (VBv w x)) (Some (VBv w' y)) = (if w = w' then Some (f w x y) else None)"
| "bv2 f _ _ = None"

fun bv1 :: "(nat \<Rightarrow> int \<Rightarrow> val option) \<Rightarrow> val option \<Rightarrow> val option" where
  "bv1 f (Some (VBv w x)) = f w x"
| "bv1 f _ = None"

fun eq_val :: "val option \<Rightarrow> val option \<Rightarrow> val option" where
  "eq_val (Some (VBool a)) (Some (VBool b)) = Some (VBool (a = b))"
| "eq_val (Some (VBv w x)) (Some (VBv w' y)) = (if w = w' then Some (VBool (x = y)) else None)"
| "eq_val _ _ = None"

definition sem_add :: "nat \<Rightarrow> int \<Rightarrow> int \<Rightarrow> val" where
  "sem_add w x y = VBv w (take_bit w (x + y))"
definition sem_sub :: "nat \<Rightarrow> int \<Rightarrow> int \<Rightarrow> val" where
  "sem_sub w x y = VBv w (take_bit w (x - y))"
definition sem_mul :: "nat \<Rightarrow> int \<Rightarrow> int \<Rightarrow> val" where
  "sem_mul w x y = VBv w (take_bit w (x * y))"
definition sem_and :: "nat \<Rightarrow> int \<Rightarrow> int \<Rightarrow> val" where
  "sem_and w x y = VBv w (and x y)"
definition sem_or :: "nat \<Rightarrow> int \<Rightarrow> int \<Rightarrow> val" where
  "sem_or w x y = VBv w (or x y)"
definition sem_xor :: "nat \<Rightarrow> int \<Rightarrow> int \<Rightarrow> val" where
  "sem_xor w x y = VBv w (xor x y)"
definition sem_shl :: "nat \<Rightarrow> int \<Rightarrow> int \<Rightarrow> val" where
  "sem_shl w x y = VBv w (if y < int w then take_bit w (push_bit (nat y) x) else 0)"
definition sem_lshr :: "nat \<Rightarrow> int \<Rightarrow> int \<Rightarrow> val" where
  "sem_lshr w x y = VBv w (if y < int w then drop_bit (nat y) x else 0)"
definition sem_ashr :: "nat \<Rightarrow> int \<Rightarrow> int \<Rightarrow> val" where
  "sem_ashr w x y = VBv w (take_bit w (drop_bit (if y < int w then nat y else w) (sval w x)))"

fun eval_step :: "assignment \<Rightarrow> (NodeId \<Rightarrow> val option) \<Rightarrow> Expr \<Rightarrow> val option" where
  "eval_step env rec (Var n s) = Some (env n s)"
| "eval_step env rec (BvConst v w) = Some (VBv (unat w) (take_bit (unat w) (uint v)))"
| "eval_step env rec (BoolConst b) = Some (VBool b)"
| "eval_step env rec (ENot a) =
     (case rec a of Some (VBool b) \<Rightarrow> Some (VBool (\<not> b)) | _ \<Rightarrow> None)"
| "eval_step env rec (EAnd cs) = map_option VBool (all_true (map rec cs))"
| "eval_step env rec (EOr cs) = map_option VBool (any_true (map rec cs))"
| "eval_step env rec (EEq a b) = eq_val (rec a) (rec b)"
| "eval_step env rec (BvAdd a b) = bv2 sem_add (rec a) (rec b)"
| "eval_step env rec (BvSub a b) = bv2 sem_sub (rec a) (rec b)"
| "eval_step env rec (BvMul a b) = bv2 sem_mul (rec a) (rec b)"
| "eval_step env rec (BvAnd a b) = bv2 sem_and (rec a) (rec b)"
| "eval_step env rec (BvOr a b) = bv2 sem_or (rec a) (rec b)"
| "eval_step env rec (BvXor a b) = bv2 sem_xor (rec a) (rec b)"
| "eval_step env rec (BvShl a b) = bv2 sem_shl (rec a) (rec b)"
| "eval_step env rec (BvLShr a b) = bv2 sem_lshr (rec a) (rec b)"
| "eval_step env rec (BvAShr a b) = bv2 sem_ashr (rec a) (rec b)"
| "eval_step env rec (Ult a b) = bv2 (\<lambda>_ x y. VBool (x < y)) (rec a) (rec b)"
| "eval_step env rec (Ule a b) = bv2 (\<lambda>_ x y. VBool (x \<le> y)) (rec a) (rec b)"
| "eval_step env rec (Slt a b) = bv2 (\<lambda>w x y. VBool (sval w x < sval w y)) (rec a) (rec b)"
| "eval_step env rec (Sle a b) = bv2 (\<lambda>w x y. VBool (sval w x \<le> sval w y)) (rec a) (rec b)"
| "eval_step env rec (Extract hi lo v) =
     bv1 (\<lambda>w x. if lo \<le> hi \<and> unat hi < w
                then let n = unat hi - unat lo + 1 in Some (VBv n (take_bit n (drop_bit (unat lo) x)))
                else None) (rec v)"
| "eval_step env rec (Concat a b) =
     bv1 (\<lambda>w x. bv1 (\<lambda>w' y. Some (VBv (w + w') (push_bit w' x + y))) (rec b)) (rec a)"
| "eval_step env rec (ZeroExt extra v) = bv1 (\<lambda>w x. Some (VBv (w + unat extra) x)) (rec v)"
| "eval_step env rec (SignExt extra v) =
     bv1 (\<lambda>w x. Some (VBv (w + unat extra) (take_bit (w + unat extra) (sval w x)))) (rec v)"
| "eval_step env rec (Ite c t e) =
     (case rec c of Some (VBool b) \<Rightarrow> (if b then rec t else rec e) | _ \<Rightarrow> None)"
| "eval_step env rec (Load8 m a) =
     (case rec m of Some (VArr f) \<Rightarrow> bv1 (\<lambda>_ x. Some (VBv 8 (f x))) (rec a) | _ \<Rightarrow> None)"
| "eval_step env rec (Store8 m a v) =
     (case rec m of
        Some (VArr f) \<Rightarrow> bv1 (\<lambda>_ x. bv1 (\<lambda>_ y. Some (VArr (f(x := y)))) (rec v)) (rec a)
      | _ \<Rightarrow> None)"

definition eval :: "assignment \<Rightarrow> ExprDag \<Rightarrow> NodeId \<Rightarrow> val option" where
  "eval env d i = dag_run (eval_step env) (\<lambda>_. None) d i"

definition holds :: "assignment \<Rightarrow> ExprDag \<Rightarrow> NodeId \<Rightarrow> bool" where
  "holds env d i \<longleftrightarrow> eval env d i = Some (VBool True)"

lemma eval_step_vars:
  assumes "\<And>c. c \<in> set (children_of e) \<Longrightarrow> f c = g c" "\<And>n s. e = Var n s \<Longrightarrow> env n s = env' n s"
  shows "eval_step env f e = eval_step env' g e"
  using assms by (cases e) (simp_all cong: map_cong split: option.split val.split)

interpretation eval_rec: dag_recursion "eval_step env" "\<lambda>_. None" for env
proof
  show "eval_step env f e = eval_step env g e"
    if "\<And>c. c \<in> set (children_of e) \<Longrightarrow> f c = g c" for e f g
    using that by (intro eval_step_vars) simp_all
qed

lemma eval_unfold:
  "wf_dag d \<Longrightarrow> eval env d i =
     (case try_get d i of None \<Rightarrow> None | Some e \<Rightarrow> eval_step env (eval env d) e)"
  unfolding eval_def [abs_def] by (rule eval_rec.run_unfold)

lemma eval_get: "wf_dag d \<Longrightarrow> try_get d i = Some e \<Longrightarrow> eval env d i = eval_step env (eval env d) e"
  by (simp add: eval_unfold [of d env i])

lemma eval_extend:
  "wf_dag d \<Longrightarrow> wf_dag d' \<Longrightarrow> dag_le d d' \<Longrightarrow> unat i < length (nodes d) \<Longrightarrow> eval env d' i = eval env d i"
  unfolding eval_def by (rule eval_rec.run_extend)

text \<open>Evaluating a node right after it has been interned.\<close>

lemma intern_eval:
  assumes "wf_dag d" "expr_ok d e" "intern d e = (i, d')" "length (nodes d') \<le> 2 ^ 32"
  shows "wf_dag d'" "dag_le d d'" "eval env d' i = eval_step env (eval env d) e"
proof -
  have d': "d' = snd (intern d e)" and i: "i = fst (intern d e)" using assms(3) by simp_all
  show wf: "wf_dag d'" unfolding d' using assms d' by (intro intern_wf) simp_all
  show le: "dag_le d d'" unfolding d' by simp
  have "try_get d' i = Some e"
    using node_tab.put_lookup [of d e] assms(1,4) unfolding d' i by (simp add: try_get_def wf_dag_def)
  then have "eval env d' i = eval_step env (eval env d') e" by (rule eval_get [OF wf])
  also have "\<dots> = eval_step env (eval env d) e"
    using assms(2) by (intro eval_step_vars eval_extend [OF assms(1) wf le]) (auto simp: expr_ok_def)
  finally show "eval env d' i = eval_step env (eval env d) e" .
qed

lemma eval_bound: "wf_dag d \<Longrightarrow> eval env d i = Some v \<Longrightarrow> unat i < length (nodes d)"
  by (simp add: eval_unfold [of d env i] try_get_def split: if_splits)

section \<open>Variables\<close>

definition child :: "ExprDag \<Rightarrow> NodeId \<Rightarrow> NodeId \<Rightarrow> bool" where
  "child d i c \<longleftrightarrow> (\<exists>e. try_get d i = Some e \<and> c \<in> set (children_of e))"

definition vars :: "ExprDag \<Rightarrow> NodeId \<Rightarrow> SymbolId set" where
  "vars d i = {n. \<exists>j s. (child d)\<^sup>*\<^sup>* i j \<and> try_get d j = Some (Var n s)}"

lemma vars_child: "child d i c \<Longrightarrow> vars d c \<subseteq> vars d i"
  by (auto simp: vars_def intro: converse_rtranclp_into_rtranclp)

lemma vars_var: "try_get d i = Some (Var n s) \<Longrightarrow> n \<in> vars d i"
  by (auto simp: vars_def)

text \<open>The value of a node depends only on the symbols it reaches.\<close>

lemma eval_coincidence:
  assumes "wf_dag d"
  shows "(\<And>n s. n \<in> vars d i \<Longrightarrow> env n s = env' n s) \<Longrightarrow> eval env d i = eval env' d i"
proof (induction "unat i" arbitrary: i rule: less_induct)
  case less
  show ?case
  proof (cases "try_get d i")
    case None
    then show ?thesis by (simp add: eval_unfold [OF assms])
  next
    case (Some e)
    have "eval_step env (eval env d) e = eval_step env' (eval env' d) e"
    proof (rule eval_step_vars)
      fix c assume c: "c \<in> set (children_of e)"
      with Some have "child d i c" by (auto simp: child_def)
      then have "vars d c \<subseteq> vars d i" by (rule vars_child)
      moreover have "unat c < unat i" using wf_dag_child [OF assms Some c] by simp
      ultimately show "eval env d c = eval env' d c" using less by blast
    next
      fix n s assume "e = Var n s"
      with Some less.prems vars_var show "env n s = env' n s" by blast
    qed
    then show ?thesis by (simp add: eval_get [OF assms Some])
  qed
qed

end
