(* ===== verification/Slicer.thy ===== *)
theory Slicer
  imports Expr_Semantics
begin

text \<open>
  The backward slicer of \<open>src/concolic/slicer.rs\<close>: the worklist walk \<open>collect_vars\<close>, the
  bounded fixpoint \<open>backward_slice\<close>, and what the slice means for satisfiability.

  The stack of the walk is a list whose head is the top; the arms of the source's match
  push the children of the node in order, which is \<open>rev (children_of e)\<close> on top. \<open>None\<close>
  is the panic of \<open>dag.get\<close> on an invalid id.
\<close>

section \<open>Definitions\<close>

definition MAX_SLICE_ITERATIONS :: nat where
  "MAX_SLICE_ITERATIONS = 16"

record ConstraintSlice =
  constraints :: "NodeId list"
  variables :: "SymbolId set"
  fixpoint_reached :: bool
  iterations :: nat

fun note_var :: "Expr \<Rightarrow> SymbolId set \<Rightarrow> SymbolId set" where
  "note_var (Var name _) out = insert name out"
| "note_var _ out = out"

function collect_loop :: "ExprDag \<Rightarrow> NodeId set \<Rightarrow> NodeId list \<Rightarrow> SymbolId set \<Rightarrow> SymbolId set option" where
  "collect_loop d visited [] out = Some out"
| "collect_loop d visited (i # stack) out =
     (if i \<in> visited then collect_loop d visited stack out
      else case get d i of
             None \<Rightarrow> None
           | Some e \<Rightarrow>
               collect_loop d (insert i visited) (rev (children_of e) @ stack) (note_var e out))"
  by pat_completeness auto
termination
proof (relation "inv_image (finite_psubset <*lex*> less_than)
    (\<lambda>(d, visited :: NodeId set, stack, out). (- visited, length stack))")
  show "wf (inv_image (finite_psubset <*lex*> less_than)
    (\<lambda>(d :: ExprDag, visited :: NodeId set, stack :: NodeId list, out :: SymbolId set).
       (- visited, length stack)))"
    by (intro wf_inv_image wf_lex_prod wf_finite_psubset wf_less_than)
qed (auto simp: finite_psubset_def)

definition collect_vars :: "ExprDag \<Rightarrow> NodeId \<Rightarrow> SymbolId set \<Rightarrow> SymbolId set option" where
  "collect_vars d root out = collect_loop d {} [root] out"

text \<open>One pass of the inner \<open>for\<close> loop; the flag is \<open>grew\<close>.\<close>

fun slice_pass :: "ExprDag \<Rightarrow> NodeId list \<Rightarrow> NodeId set \<Rightarrow> SymbolId set \<Rightarrow> bool \<Rightarrow>
    (NodeId set \<times> SymbolId set \<times> bool) option" where
  "slice_pass d [] included reachable grew = Some (included, reachable, grew)"
| "slice_pass d (c # cs) included reachable grew =
     (if c \<in> included then slice_pass d cs included reachable grew
      else case collect_vars d c {} of
             None \<Rightarrow> None
           | Some c_vars \<Rightarrow>
               if c_vars \<inter> reachable = {} then slice_pass d cs included reachable grew
               else slice_pass d cs (insert c included) (reachable \<union> c_vars) True)"

text \<open>The outer loop: at most \<open>fuel\<close> further passes, \<open>iter\<close> already made.\<close>

fun slice_loop :: "ExprDag \<Rightarrow> NodeId list \<Rightarrow> nat \<Rightarrow> nat \<Rightarrow> NodeId set \<Rightarrow> SymbolId set \<Rightarrow>
    (NodeId set \<times> SymbolId set \<times> bool \<times> nat) option" where
  "slice_loop d pcs 0 iter included reachable = Some (included, reachable, False, iter)"
| "slice_loop d pcs (Suc fuel) iter included reachable =
     (case slice_pass d pcs included reachable False of
        None \<Rightarrow> None
      | Some (included, reachable, grew) \<Rightarrow>
          if \<not> grew then Some (included, reachable, True, iter + 1)
          else slice_loop d pcs fuel (iter + 1) included reachable)"

definition backward_slice :: "ExprDag \<Rightarrow> NodeId list \<Rightarrow> NodeId \<Rightarrow> ConstraintSlice option" where
  "backward_slice d path_constraints target_branch =
     (case collect_vars d target_branch {} of
        None \<Rightarrow> None
      | Some reachable \<Rightarrow>
          (case slice_loop d path_constraints MAX_SLICE_ITERATIONS 0 {} reachable of
             None \<Rightarrow> None
           | Some (included, reachable, fx, iter) \<Rightarrow>
               Some \<lparr>constraints = remdups_adj (filter (\<lambda>c. c \<in> included) path_constraints),
                     variables = reachable, fixpoint_reached = fx, iterations = iter\<rparr>))"

section \<open>The worklist walk computes the reachable variables\<close>

definition valid_id :: "ExprDag \<Rightarrow> NodeId \<Rightarrow> bool" where
  "valid_id d i \<longleftrightarrow> unat i < length (nodes d)"

lemma valid_id_get: "valid_id d i \<longleftrightarrow> (\<exists>e. try_get d i = Some e)"
  by (auto simp: valid_id_def try_get_def)

lemma note_var_eq: "note_var e out = out \<union> {n. \<exists>s. e = Var n s}"
  by (cases e) auto

lemma collect_loop_returns:
  "wf_dag d \<Longrightarrow> \<forall>i\<in>set stack. valid_id d i \<Longrightarrow> collect_loop d visited stack out \<noteq> None"
proof (induction d visited stack out rule: collect_loop.induct)
  case (2 d visited i stack out)
  show ?case
  proof (cases "i \<in> visited")
    case True
    with 2 show ?thesis by simp
  next
    case False
    from "2.prems"(2) obtain e where e: "try_get d i = Some e" by (auto simp: valid_id_get)
    then have "\<forall>c\<in>set (children_of e). valid_id d c"
      using wf_dag_child [OF "2.prems"(1) e] by (simp add: valid_id_def)
    then have "collect_loop d (insert i visited) (rev (children_of e) @ stack) (note_var e out) \<noteq> None"
      using e "2.prems" False by (intro "2.IH"(2)) (auto simp: get_def)
    with e False show ?thesis by (simp add: get_def)
  qed
qed simp

lemma collect_loop_upper:
  "collect_loop d visited stack out = Some out' \<Longrightarrow> out' \<subseteq> out \<union> (\<Union>i\<in>set stack. vars d i)"
proof (induction d visited stack out rule: collect_loop.induct)
  case (2 d visited i stack out)
  show ?case
  proof (cases "i \<in> visited")
    case True
    with 2 show ?thesis by auto
  next
    case False
    with "2.prems" obtain e where e: "try_get d i = Some e"
      and r: "collect_loop d (insert i visited) (rev (children_of e) @ stack) (note_var e out) = Some out'"
      by (auto simp: get_def split: option.splits)
    have "(\<Union>c\<in>set (children_of e). vars d c) \<subseteq> vars d i"
      using vars_child e by (fastforce simp: child_def)
    moreover have "{n. \<exists>s. e = Var n s} \<subseteq> vars d i" using vars_var e by auto
    moreover have "out' \<subseteq> note_var e out \<union> (\<Union>i\<in>set (rev (children_of e) @ stack). vars d i)"
      using e by (intro "2.IH"(2) [OF False _ r]) (simp add: get_def)
    ultimately show ?thesis unfolding note_var_eq by fastforce
  qed
qed simp

definition var_closed :: "ExprDag \<Rightarrow> NodeId set \<Rightarrow> NodeId set \<Rightarrow> SymbolId set \<Rightarrow> bool" where
  "var_closed d V W out \<longleftrightarrow>
     (\<forall>x\<in>V. (\<forall>c. child d x c \<longrightarrow> c \<in> W) \<and> (\<forall>n s. try_get d x = Some (Var n s) \<longrightarrow> n \<in> out))"

lemma collect_loop_lower:
  "collect_loop d visited stack out = Some out' \<Longrightarrow>
     var_closed d visited (visited \<union> set stack) out \<Longrightarrow>
     out \<subseteq> out' \<and> (\<exists>W. visited \<union> set stack \<subseteq> W \<and> var_closed d W W out')"
proof (induction d visited stack out rule: collect_loop.induct)
  case (1 d visited out)
  then show ?case by auto
next
  case (2 d visited i stack out)
  show ?case
  proof (cases "i \<in> visited")
    case True
    with 2 show ?thesis by (auto simp: insert_absorb)
  next
    case False
    with "2.prems" obtain e where e: "try_get d i = Some e"
      and r: "collect_loop d (insert i visited) (rev (children_of e) @ stack) (note_var e out) = Some out'"
      by (auto simp: get_def split: option.splits)
    have "var_closed d (insert i visited) (insert i visited \<union> set (rev (children_of e) @ stack)) (note_var e out)"
      using "2.prems"(2) e by (auto simp: var_closed_def child_def note_var_eq)
    then have "note_var e out \<subseteq> out' \<and>
        (\<exists>W. insert i visited \<union> set (rev (children_of e) @ stack) \<subseteq> W \<and> var_closed d W W out')"
      using e by (intro "2.IH"(2) [OF False _ r]) (simp add: get_def)
    then show ?thesis unfolding note_var_eq by auto
  qed
qed

lemma collect_vars_eq:
  assumes "wf_dag d" "valid_id d i"
  shows "collect_vars d i out = Some (out \<union> vars d i)"
proof -
  obtain out' where r: "collect_loop d {} [i] out = Some out'"
    using collect_loop_returns [of d "[i]" "{}" out] assms by auto
  obtain W where W: "i \<in> W" "var_closed d W W out'" and out: "out \<subseteq> out'"
    using collect_loop_lower [OF r] by (auto simp: var_closed_def)
  have "j \<in> W" if "(child d)\<^sup>*\<^sup>* i j" for j
    using that by (induction rule: rtranclp_induct) (use W in \<open>auto simp: var_closed_def\<close>)
  then have "vars d i \<subseteq> out'" using W(2) unfolding vars_def var_closed_def by blast
  moreover have "out' \<subseteq> out \<union> vars d i" using collect_loop_upper [OF r] by simp
  ultimately show ?thesis using r out by (auto simp: collect_vars_def)
qed


section \<open>The passes of the slicer\<close>

text \<open>
  A set of symbols is closed under the path constraints when every constraint that touches
  it lies inside it. The exact slice of a target is the least such set around its symbols.
\<close>

definition linked_closed :: "ExprDag \<Rightarrow> NodeId list \<Rightarrow> SymbolId set \<Rightarrow> bool" where
  "linked_closed d pcs X \<longleftrightarrow> (\<forall>c\<in>set pcs. vars d c \<inter> X \<noteq> {} \<longrightarrow> vars d c \<subseteq> X)"

lemma slice_pass_returns:
  "wf_dag d \<Longrightarrow> \<forall>c\<in>set cs. valid_id d c \<Longrightarrow> slice_pass d cs inc reach g \<noteq> None"
  by (induction cs arbitrary: inc reach g) (auto simp: collect_vars_eq)

lemma slice_pass_spec:
  assumes "wf_dag d" "\<forall>c\<in>set cs. valid_id d c" "slice_pass d cs inc reach g = Some (inc', reach', g')"
  shows "inc \<subseteq> inc' \<and> inc' \<subseteq> inc \<union> set cs \<and> reach \<subseteq> reach' \<and>
    (\<forall>c\<in>inc'. c \<in> inc \<or> vars d c \<subseteq> reach') \<and>
    (\<not> g' \<longrightarrow> \<not> g \<and> inc' = inc \<and> reach' = reach \<and> (\<forall>c\<in>set cs. c \<in> inc \<or> vars d c \<inter> reach = {}))"
  using assms(2,3)
proof (induction cs arbitrary: inc reach g)
  case (Cons c cs)
  show ?case
  proof (cases "c \<in> inc \<or> vars d c \<inter> reach = {}")
    case True
    with Cons.prems have "slice_pass d cs inc reach g = Some (inc', reach', g')"
      by (auto simp: collect_vars_eq [OF assms(1)] split: if_splits)
    from Cons.IH [OF _ this] Cons.prems(1) True show ?thesis
      by (simp add: subset_insertI2 le_supI2)
  next
    case False
    with Cons.prems have "slice_pass d cs (insert c inc) (reach \<union> vars d c) True = Some (inc', reach', g')"
      by (auto simp: collect_vars_eq [OF assms(1)])
    from Cons.IH [OF _ this] Cons.prems(1) show ?thesis by auto
  qed
qed simp

lemma slice_pass_least:
  assumes "wf_dag d" "\<forall>c\<in>set cs. valid_id d c" "slice_pass d cs inc reach g = Some (inc', reach', g')"
    and "linked_closed d cs X" "reach \<subseteq> X" "\<forall>c\<in>inc. vars d c \<inter> X \<noteq> {}"
  shows "reach' \<subseteq> X \<and> (\<forall>c\<in>inc'. vars d c \<inter> X \<noteq> {})"
  using assms(2-)
proof (induction cs arbitrary: inc reach g)
  case (Cons c cs)
  have cl: "linked_closed d cs X" using Cons.prems(3) by (simp add: linked_closed_def)
  have v: "collect_vars d c {} = Some (vars d c)"
    using Cons.prems(1) by (simp add: collect_vars_eq [OF assms(1)])
  show ?case
  proof (cases "c \<in> inc \<or> vars d c \<inter> reach = {}")
    case True
    with Cons.prems(2) have "slice_pass d cs inc reach g = Some (inc', reach', g')"
      by (auto simp: v split: if_splits)
    with Cons.IH [OF _ this cl] Cons.prems show ?thesis by simp
  next
    case False
    then have x: "vars d c \<inter> X \<noteq> {}" using Cons.prems(4) by blast
    then have s: "vars d c \<subseteq> X" using Cons.prems(3) by (simp add: linked_closed_def)
    have r: "slice_pass d cs (insert c inc) (reach \<union> vars d c) True = Some (inc', reach', g')"
      using False Cons.prems(2) by (simp add: v)
    show ?thesis
    proof (rule Cons.IH [OF _ r cl])
      show "\<forall>c\<in>set cs. valid_id d c" using Cons.prems(1) by simp
      show "reach \<union> vars d c \<subseteq> X" using Cons.prems(4) s by blast
      show "\<forall>c\<in>insert c inc. vars d c \<inter> X \<noteq> {}" using Cons.prems(5) x by blast
    qed
  qed
qed simp

lemma slice_loop_returns:
  "wf_dag d \<Longrightarrow> \<forall>c\<in>set pcs. valid_id d c \<Longrightarrow> slice_loop d pcs fuel iter inc reach \<noteq> None"
proof (induction fuel arbitrary: iter inc reach)
  case (Suc fuel)
  obtain inc' reach' g' where "slice_pass d pcs inc reach False = Some (inc', reach', g')"
    using slice_pass_returns [OF Suc.prems] by (metis not_None_eq prod_cases3)
  with Suc show ?case by (cases g') (simp_all del: not_None_eq add: Suc.IH)
qed simp

lemma slice_loop_spec:
  assumes "wf_dag d" "\<forall>c\<in>set pcs. valid_id d c"
    and "slice_loop d pcs fuel iter inc reach = Some (inc', reach', fx, iter')"
    and "inc \<subseteq> set pcs" "\<forall>c\<in>inc. vars d c \<subseteq> reach"
  shows "inc' \<subseteq> set pcs \<and> reach \<subseteq> reach' \<and> (\<forall>c\<in>inc'. vars d c \<subseteq> reach') \<and> iter' \<le> iter + fuel \<and>
    (fx \<longrightarrow> (\<forall>c\<in>set pcs. c \<in> inc' \<or> vars d c \<inter> reach' = {}))"
  using assms(3-)
proof (induction fuel arbitrary: iter inc reach)
  case (Suc fuel)
  then obtain inc1 reach1 g where p: "slice_pass d pcs inc reach False = Some (inc1, reach1, g)"
    by (auto split: option.splits)
  note sp = slice_pass_spec [OF assms(1,2) p]
  show ?case
  proof (cases g)
    case True
    with Suc.prems p have l: "slice_loop d pcs fuel (iter + 1) inc1 reach1 = Some (inc', reach', fx, iter')"
      by simp
    moreover have "inc1 \<subseteq> set pcs" "\<forall>c\<in>inc1. vars d c \<subseteq> reach1" using sp Suc.prems(2,3) by blast+
    ultimately show ?thesis using Suc.IH [OF l] sp by auto
  next
    case False
    with Suc.prems p sp show ?thesis by auto
  qed
qed simp

lemma slice_loop_least:
  assumes "wf_dag d" "\<forall>c\<in>set pcs. valid_id d c"
    and "slice_loop d pcs fuel iter inc reach = Some (inc', reach', fx, iter')"
    and "linked_closed d pcs X" "reach \<subseteq> X" "\<forall>c\<in>inc. vars d c \<inter> X \<noteq> {}"
  shows "reach' \<subseteq> X \<and> (\<forall>c\<in>inc'. vars d c \<inter> X \<noteq> {})"
  using assms(3,5,6)
proof (induction fuel arbitrary: iter inc reach)
  case (Suc fuel)
  then obtain inc1 reach1 g where p: "slice_pass d pcs inc reach False = Some (inc1, reach1, g)"
    by (auto split: option.splits)
  note sl = slice_pass_least [OF assms(1,2) p assms(4) Suc.prems(2,3)]
  show ?case
  proof (cases g)
    case True
    with Suc.prems p have "slice_loop d pcs fuel (iter + 1) inc1 reach1 = Some (inc', reach', fx, iter')"
      by simp
    with Suc.IH sl show ?thesis by blast
  next
    case False
    with Suc.prems p sl show ?thesis by auto
  qed
qed simp

section \<open>The slice\<close>

definition query_ok :: "ExprDag \<Rightarrow> NodeId list \<Rightarrow> NodeId \<Rightarrow> bool" where
  "query_ok d pcs target \<longleftrightarrow> wf_dag d \<and> valid_id d target \<and> (\<forall>c\<in>set pcs. valid_id d c)"

lemma backward_slice_cases:
  assumes "query_ok d pcs target"
  obtains inc reach fx iter where
    "slice_loop d pcs MAX_SLICE_ITERATIONS 0 {} (vars d target) = Some (inc, reach, fx, iter)"
    "backward_slice d pcs target =
       Some \<lparr>constraints = remdups_adj (filter (\<lambda>c. c \<in> inc) pcs),
             variables = reach, fixpoint_reached = fx, iterations = iter\<rparr>"
proof -
  obtain r where "slice_loop d pcs MAX_SLICE_ITERATIONS 0 {} (vars d target) = Some r"
    using slice_loop_returns [of d pcs MAX_SLICE_ITERATIONS 0 "{}" "vars d target"] assms
    by (auto simp: query_ok_def)
  then show thesis
    using assms that by (cases r) (auto simp: backward_slice_def query_ok_def collect_vars_eq)
qed

lemma backward_slice_facts:
  assumes q: "query_ok d pcs target" and b: "backward_slice d pcs target = Some s"
  shows "\<exists>P. constraints s = remdups_adj (filter P pcs)" "iterations s \<le> MAX_SLICE_ITERATIONS"
    and "vars d target \<subseteq> variables s" "\<forall>c\<in>set (constraints s). vars d c \<subseteq> variables s"
    and "fixpoint_reached s \<Longrightarrow> \<forall>c\<in>set pcs - set (constraints s). vars d c \<inter> variables s = {}"
    and "linked_closed d pcs X \<Longrightarrow> vars d target \<subseteq> X \<Longrightarrow>
      variables s \<subseteq> X \<and> (\<forall>c\<in>set (constraints s). vars d c \<inter> X \<noteq> {})"
proof -
  obtain inc reach fx iter where
    l: "slice_loop d pcs MAX_SLICE_ITERATIONS 0 {} (vars d target) = Some (inc, reach, fx, iter)" and
    "backward_slice d pcs target =
       Some \<lparr>constraints = remdups_adj (filter (\<lambda>c. c \<in> inc) pcs),
             variables = reach, fixpoint_reached = fx, iterations = iter\<rparr>"
    using q by (rule backward_slice_cases)
  with b have s: "s = \<lparr>constraints = remdups_adj (filter (\<lambda>c. c \<in> inc) pcs),
      variables = reach, fixpoint_reached = fx, iterations = iter\<rparr>" by simp
  have w: "wf_dag d" "\<forall>c\<in>set pcs. valid_id d c" using q by (auto simp: query_ok_def)
  note sp = slice_loop_spec [OF w l]
  show "\<exists>P. constraints s = remdups_adj (filter P pcs)" using s by auto
  show "iterations s \<le> MAX_SLICE_ITERATIONS" "vars d target \<subseteq> variables s"
    "\<forall>c\<in>set (constraints s). vars d c \<subseteq> variables s"
    "fixpoint_reached s \<Longrightarrow> \<forall>c\<in>set pcs - set (constraints s). vars d c \<inter> variables s = {}"
    using sp s by auto
  show "variables s \<subseteq> X \<and> (\<forall>c\<in>set (constraints s). vars d c \<inter> X \<noteq> {})"
    if "linked_closed d pcs X" "vars d target \<subseteq> X"
    using slice_loop_least [OF w l that] s by auto
qed

text \<open>At a fixpoint the slice is exactly the constraints linked to the target.\<close>

lemma slice_closed:
  assumes "query_ok d pcs target" "backward_slice d pcs target = Some s" "fixpoint_reached s"
  shows "linked_closed d pcs (variables s)"
    and "set (constraints s) = {c \<in> set pcs. vars d c \<inter> variables s \<noteq> {}}"
proof -
  note f = backward_slice_facts [OF assms(1,2)]
  have sub: "set (constraints s) \<subseteq> set pcs" using f(1) by auto
  show c: "linked_closed d pcs (variables s)"
    unfolding linked_closed_def using f(4) f(5) [OF assms(3)] by blast
  show "set (constraints s) = {c \<in> set pcs. vars d c \<inter> variables s \<noteq> {}}"
    using sub f(5) [OF assms(3)] f(6) [OF c f(3)] by blast
qed

text \<open>Two assignments spliced along a set of symbols.\<close>

definition splice :: "SymbolId set \<Rightarrow> assignment \<Rightarrow> assignment \<Rightarrow> assignment" where
  "splice X env env' n s = (if n \<in> X then env n s else env' n s)"

lemma splice_ok: "env_ok env \<Longrightarrow> env_ok env' \<Longrightarrow> env_ok (splice X env env')"
  by (simp add: env_ok_def splice_def)

lemma eval_splice_in: "wf_dag d \<Longrightarrow> vars d i \<subseteq> X \<Longrightarrow> eval (splice X env env') d i = eval env d i"
  by (rule eval_coincidence) (auto simp: splice_def)

lemma eval_splice_out: "wf_dag d \<Longrightarrow> vars d i \<inter> X = {} \<Longrightarrow> eval (splice X env env') d i = eval env' d i"
  by (rule eval_coincidence) (auto simp: splice_def)

definition sat :: "ExprDag \<Rightarrow> NodeId set \<Rightarrow> bool" where
  "sat d C \<longleftrightarrow> (\<exists>env. env_ok env \<and> (\<forall>c\<in>C. holds env d c))"

definition sat_branch :: "ExprDag \<Rightarrow> NodeId set \<Rightarrow> NodeId \<Rightarrow> bool \<Rightarrow> bool" where
  "sat_branch d C target want \<longleftrightarrow>
     (\<exists>env. env_ok env \<and> (\<forall>c\<in>C. holds env d c) \<and> eval env d target = Some (VBool want))"

section \<open>Properties\<close>

text \<open>
  C31: on a well-formed DAG with valid ids the slicer returns; the slice keeps path
  constraints only, in their order; it covers the symbols of the target and of everything
  it keeps; and when it reports a fixpoint, no constraint it drops mentions one of its symbols.
\<close>

theorem backward_slice_sound:
  assumes "query_ok d pcs target"
  shows "\<exists>s. backward_slice d pcs target = Some s \<and>
    (\<exists>P. constraints s = remdups_adj (filter P pcs)) \<and> iterations s \<le> MAX_SLICE_ITERATIONS \<and>
    vars d target \<subseteq> variables s \<and> (\<forall>c\<in>set (constraints s). vars d c \<subseteq> variables s) \<and>
    (fixpoint_reached s \<longrightarrow>
       (\<forall>c\<in>set pcs - set (constraints s). vars d c \<inter> variables s = {}))"
proof -
  obtain s where b: "backward_slice d pcs target = Some s"
    using backward_slice_cases [OF assms] by metis
  show ?thesis
    using b backward_slice_facts(1-5) [OF assms b] by blast
qed

text \<open>
  C3: slicing is exact for satisfiability. When the slicer reports a fixpoint, the path with
  the wanted branch outcome is satisfiable if and only if the sliced query is and the
  dropped constraints are on their own: a model of each part splices into one of the whole.
\<close>

theorem slice_equisatisfiable:
  assumes q: "query_ok d pcs target" and b: "backward_slice d pcs target = Some s"
    and fx: "fixpoint_reached s"
  shows "sat_branch d (set pcs) target want \<longleftrightarrow>
    sat_branch d (set (constraints s)) target want \<and> sat d (set pcs - set (constraints s))"
proof
  have sub: "set (constraints s) \<subseteq> set pcs" using slice_closed(2) [OF q b fx] by blast
  show "sat_branch d (set (constraints s)) target want \<and> sat d (set pcs - set (constraints s))"
    if "sat_branch d (set pcs) target want"
    using that sub unfolding sat_branch_def sat_def by blast
next
  assume "sat_branch d (set (constraints s)) target want \<and> sat d (set pcs - set (constraints s))"
  then obtain env env' where e: "env_ok env" "\<forall>c\<in>set (constraints s). holds env d c"
    "eval env d target = Some (VBool want)"
    and e': "env_ok env'" "\<forall>c\<in>set pcs - set (constraints s). holds env' d c"
    unfolding sat_branch_def sat_def by blast
  have w: "wf_dag d" using q by (simp add: query_ok_def)
  note f = backward_slice_facts [OF q b]
  let ?env = "splice (variables s) env env'"
  have "holds ?env d c" if "c \<in> set pcs" for c
  proof (cases "c \<in> set (constraints s)")
    case True
    then show ?thesis using f(4) e(2) by (simp add: holds_def eval_splice_in [OF w])
  next
    case False
    then show ?thesis using f(5) [OF fx] e'(2) that by (simp add: holds_def eval_splice_out [OF w])
  qed
  moreover have "eval ?env d target = Some (VBool want)"
    using f(3) e(3) by (simp add: eval_splice_in [OF w])
  ultimately show "sat_branch d (set pcs) target want"
    using splice_ok [OF e(1) e'(1)] unfolding sat_branch_def by blast
qed

text \<open>
  The slice never exceeds the exact slice, whether or not the iteration cap was hit:
  its symbols lie in every set that contains the target's symbols and is closed under the
  path constraints. So a slice cut off by the cap is a subset of the exact one.
\<close>

theorem slice_within_closure:
  assumes "query_ok d pcs target" "backward_slice d pcs target = Some s"
    and "linked_closed d pcs X" "vars d target \<subseteq> X"
  shows "variables s \<subseteq> X \<and> set (constraints s) \<subseteq> {c \<in> set pcs. vars d c \<subseteq> X}"
proof -
  note f = backward_slice_facts [OF assms(1,2)]
  have "set (constraints s) \<subseteq> set pcs" using f(1) by auto
  with f(4) f(6) [OF assms(3,4)] show ?thesis by blast
qed

section \<open>Witnesses\<close>

definition demo_dag :: ExprDag where
  "demo_dag = dag_of [''input_b0'', ''input_b1'']
     [Var 0 (Bv 8), Var 1 (Bv 8), BvConst 7 8, EEq 0 2, Ult 1 2, Ult 0 2]"

lemma demo_dag:
  "wf_dag demo_dag"
  "nodes demo_dag = [Var 0 (Bv 8), Var 1 (Bv 8), BvConst 7 8, EEq 0 2, Ult 1 2, Ult 0 2]"
  unfolding demo_dag_def by (rule dag_of_wf; simp)+

lemma demo_query: "query_ok demo_dag [3, 4] 5"
  by (simp add: query_ok_def demo_dag valid_id_def)

lemma demo_slice:
  "backward_slice demo_dag [3, 4] 5 =
     Some \<lparr>constraints = [3], variables = {0}, fixpoint_reached = True, iterations = 2\<rparr>"
  by code_simp

lemma backward_slice_sound_witness:
  "\<exists>s. backward_slice demo_dag [3, 4] 5 = Some s \<and>
    (\<exists>P. constraints s = remdups_adj (filter P [3, 4])) \<and> iterations s \<le> MAX_SLICE_ITERATIONS \<and>
    vars demo_dag 5 \<subseteq> variables s \<and> (\<forall>c\<in>set (constraints s). vars demo_dag c \<subseteq> variables s) \<and>
    (fixpoint_reached s \<longrightarrow>
       (\<forall>c\<in>set [3, 4] - set (constraints s). vars demo_dag c \<inter> variables s = {}))"
  using backward_slice_sound [OF demo_query] .

lemma slice_equisatisfiable_witness:
  "sat_branch demo_dag {3, 4} 5 True \<longleftrightarrow> sat_branch demo_dag {3} 5 True \<and> sat demo_dag {4}"
proof -
  have "set [3, 4] - set [3] = {4 :: NodeId}" by auto
  then show ?thesis
    using slice_equisatisfiable [OF demo_query demo_slice, of True] by simp
qed

lemma slice_within_closure_witness:
  "{0 :: SymbolId} \<subseteq> {0} \<and> set [3 :: NodeId] \<subseteq> {c \<in> set [3, 4]. vars demo_dag c \<subseteq> {0}}"
proof -
  have "linked_closed demo_dag [3, 4] {0}" using slice_closed(1) [OF demo_query demo_slice] by simp
  moreover have "vars demo_dag 5 \<subseteq> {0}"
    using backward_slice_facts(3) [OF demo_query demo_slice] by simp
  ultimately show ?thesis
    using slice_within_closure [OF demo_query demo_slice, of "{0}"] by simp
qed

end
