(* ===== verification/Shadow_State.thy ===== *)
theory Shadow_State
  imports Expr_Dag
begin

text \<open>
  The shadow state of \<open>src/concolic/shadow_state.rs\<close>: the symbolic register file, the flag
  shadows, the byte-addressed symbolic memory, and the state that combines them and counts
  concretizations. \<open>None\<close> in a cell means that the cell is concrete.

  Registers and memory bytes share one contract, the locale \<open>cells\<close>: what a read returns
  after a write, and that a property of all symbolic cells survives a write. It is
  interpreted for both stores, and for the two stores inside the combined state.
\<close>

section \<open>Registers\<close>

record RegFile =
  rax :: "NodeId option"
  rbx :: "NodeId option"
  rcx :: "NodeId option"
  rdx :: "NodeId option"
  rsi :: "NodeId option"
  rdi :: "NodeId option"
  rsp :: "NodeId option"
  rbp :: "NodeId option"
  r8 :: "NodeId option"
  r9 :: "NodeId option"
  r10 :: "NodeId option"
  r11 :: "NodeId option"
  r12 :: "NodeId option"
  r13 :: "NodeId option"
  r14 :: "NodeId option"
  r15 :: "NodeId option"

definition regfile_default :: RegFile where
  "regfile_default = \<lparr>rax = None, rbx = None, rcx = None, rdx = None, rsi = None, rdi = None, rsp = None, rbp = None, r8 = None, r9 = None, r10 = None, r11 = None, r12 = None, r13 = None, r14 = None, r15 = None\<rparr>"

definition regfile_read :: "RegFile \<Rightarrow> string \<Rightarrow> NodeId option" where
  "regfile_read rf reg =
     (if reg = ''rax'' then rax rf
      else if reg = ''rbx'' then rbx rf
      else if reg = ''rcx'' then rcx rf
      else if reg = ''rdx'' then rdx rf
      else if reg = ''rsi'' then rsi rf
      else if reg = ''rdi'' then rdi rf
      else if reg = ''rsp'' then rsp rf
      else if reg = ''rbp'' then rbp rf
      else if reg = ''r8'' then r8 rf
      else if reg = ''r9'' then r9 rf
      else if reg = ''r10'' then r10 rf
      else if reg = ''r11'' then r11 rf
      else if reg = ''r12'' then r12 rf
      else if reg = ''r13'' then r13 rf
      else if reg = ''r14'' then r14 rf
      else if reg = ''r15'' then r15 rf
      else None)"

definition regfile_write :: "RegFile \<Rightarrow> string \<Rightarrow> NodeId option \<Rightarrow> RegFile" where
  "regfile_write rf reg node =
     (if reg = ''rax'' then rf\<lparr>rax := node\<rparr>
      else if reg = ''rbx'' then rf\<lparr>rbx := node\<rparr>
      else if reg = ''rcx'' then rf\<lparr>rcx := node\<rparr>
      else if reg = ''rdx'' then rf\<lparr>rdx := node\<rparr>
      else if reg = ''rsi'' then rf\<lparr>rsi := node\<rparr>
      else if reg = ''rdi'' then rf\<lparr>rdi := node\<rparr>
      else if reg = ''rsp'' then rf\<lparr>rsp := node\<rparr>
      else if reg = ''rbp'' then rf\<lparr>rbp := node\<rparr>
      else if reg = ''r8'' then rf\<lparr>r8 := node\<rparr>
      else if reg = ''r9'' then rf\<lparr>r9 := node\<rparr>
      else if reg = ''r10'' then rf\<lparr>r10 := node\<rparr>
      else if reg = ''r11'' then rf\<lparr>r11 := node\<rparr>
      else if reg = ''r12'' then rf\<lparr>r12 := node\<rparr>
      else if reg = ''r13'' then rf\<lparr>r13 := node\<rparr>
      else if reg = ''r14'' then rf\<lparr>r14 := node\<rparr>
      else if reg = ''r15'' then rf\<lparr>r15 := node\<rparr>
      else rf)"

definition regfile_clear :: "RegFile \<Rightarrow> string \<Rightarrow> RegFile" where
  "regfile_clear rf reg = regfile_write rf reg None"

definition symbolic_count :: "RegFile \<Rightarrow> nat" where
  "symbolic_count rf =
     length (filter (\<lambda>n. n \<noteq> None)
       [rax rf, rbx rf, rcx rf, rdx rf, rsi rf, rdi rf, rsp rf, rbp rf, r8 rf, r9 rf, r10 rf, r11 rf, r12 rf, r13 rf, r14 rf, r15 rf])"

section \<open>Flags, memory and the combined state\<close>

record ShadowFlags =
  zf :: "NodeId option"
  sf :: "NodeId option"
  cf :: "NodeId option"
  of_flag :: "NodeId option"

record ShadowMemory =
  byte_map :: "u64 \<Rightarrow> NodeId option"
  array_fallback :: "NodeId option"

definition memory_read_byte :: "ShadowMemory \<Rightarrow> u64 \<Rightarrow> NodeId option" where
  "memory_read_byte m addr = byte_map m addr"

definition memory_write_byte :: "ShadowMemory \<Rightarrow> u64 \<Rightarrow> NodeId option \<Rightarrow> ShadowMemory" where
  "memory_write_byte m addr node =
     (case node of
        Some n \<Rightarrow> m\<lparr>byte_map := (byte_map m)(addr \<mapsto> n)\<rparr>
      | None \<Rightarrow> m\<lparr>byte_map := (byte_map m)(addr := None)\<rparr>)"

definition memory_clear :: "ShadowMemory \<Rightarrow> u64 \<Rightarrow> ShadowMemory" where
  "memory_clear m addr = m\<lparr>byte_map := (byte_map m)(addr := None)\<rparr>"

definition symbolic_byte_count :: "ShadowMemory \<Rightarrow> nat" where
  "symbolic_byte_count m = card (dom (byte_map m))"

record ShadowState =
  regs :: RegFile
  flags :: ShadowFlags
  memory :: ShadowMemory
  concretization_events :: u64

definition shadow_new :: ShadowState where
  "shadow_new =
     \<lparr>regs = regfile_default,
      flags = \<lparr>zf = None, sf = None, cf = None, of_flag = None\<rparr>,
      memory = \<lparr>byte_map = Map.empty, array_fallback = None\<rparr>,
      concretization_events = 0\<rparr>"

definition read_reg :: "ShadowState \<Rightarrow> string \<Rightarrow> NodeId option" where
  "read_reg s reg = regfile_read (regs s) reg"

definition write_reg :: "ShadowState \<Rightarrow> string \<Rightarrow> NodeId option \<Rightarrow> ShadowState" where
  "write_reg s reg node =
     (let s = (if node = None \<and> regfile_read (regs s) reg \<noteq> None
               then s\<lparr>concretization_events := concretization_events s + 1\<rparr> else s)
      in s\<lparr>regs := regfile_write (regs s) reg node\<rparr>)"

definition read_byte :: "ShadowState \<Rightarrow> u64 \<Rightarrow> NodeId option" where
  "read_byte s addr = memory_read_byte (memory s) addr"

definition write_byte :: "ShadowState \<Rightarrow> u64 \<Rightarrow> NodeId option \<Rightarrow> ShadowState" where
  "write_byte s addr node =
     (let s = (if node = None \<and> memory_read_byte (memory s) addr \<noteq> None
               then s\<lparr>concretization_events := concretization_events s + 1\<rparr> else s)
      in s\<lparr>memory := memory_write_byte (memory s) addr node\<rparr>)"

definition bool_count :: "bool \<Rightarrow> nat" where
  "bool_count b = (if b then 1 else 0)"

definition symbolic_size :: "ShadowState \<Rightarrow> nat" where
  "symbolic_size s =
     symbolic_count (regs s)
     + bool_count (zf (flags s) \<noteq> None) + bool_count (sf (flags s) \<noteq> None)
     + bool_count (cf (flags s) \<noteq> None) + bool_count (of_flag (flags s) \<noteq> None)
     + symbolic_byte_count (memory s)"

section \<open>The contract of a store of symbolic cells\<close>

definition all_cells :: "('s \<Rightarrow> 'k \<Rightarrow> 'v option) \<Rightarrow> ('v \<Rightarrow> bool) \<Rightarrow> 's \<Rightarrow> bool" where
  "all_cells rd P s \<longleftrightarrow> (\<forall>k v. rd s k = Some v \<longrightarrow> P v)"

lemma all_cellsD: "all_cells rd P s \<Longrightarrow> rd s k = Some v \<Longrightarrow> P v"
  by (simp add: all_cells_def)

lemma all_cells_mono: "all_cells rd P s \<Longrightarrow> (\<And>v. P v \<Longrightarrow> Q v) \<Longrightarrow> all_cells rd Q s"
  by (auto simp: all_cells_def)

locale cells =
  fixes rd :: "'s \<Rightarrow> 'k \<Rightarrow> 'v option"
    and wr :: "'s \<Rightarrow> 'k \<Rightarrow> 'v option \<Rightarrow> 's"
    and known :: "'k \<Rightarrow> bool"
  assumes rd_wr_same: "known k \<Longrightarrow> rd (wr s k v) k = v"
    and rd_wr_other: "k' \<noteq> k \<Longrightarrow> rd (wr s k v) k' = rd s k'"
    and rd_unknown: "\<not> known k \<Longrightarrow> rd s k = None"
begin

lemma rd_wr: "rd (wr s k v) k' = (if k' = k \<and> known k then v else rd s k')"
  using rd_wr_same rd_wr_other rd_unknown by (cases "k' = k") auto

lemma wr_all:
  assumes "all_cells rd P s" "\<And>x. v = Some x \<Longrightarrow> P x"
  shows "all_cells rd P (wr s k v)"
  using assms by (auto simp: all_cells_def rd_wr split: if_splits)

lemma wr_None_all: "all_cells rd P s \<Longrightarrow> all_cells rd P (wr s k None)"
  by (rule wr_all) auto

end

definition REGS :: "string list" where
  "REGS = [''rax'', ''rbx'', ''rcx'', ''rdx'', ''rsi'', ''rdi'', ''rsp'', ''rbp'', ''r8'', ''r9'', ''r10'', ''r11'', ''r12'', ''r13'', ''r14'', ''r15'']"

lemma regfile_write_unknown: "r \<notin> set REGS \<Longrightarrow> regfile_write rf r v = rf"
  unfolding REGS_def by (simp add: regfile_write_def)

lemma regfile_write_other [simp]:
  assumes "r' \<noteq> r"
  shows "regfile_read (regfile_write rf r v) r' = regfile_read rf r'"
proof (cases "r \<in> set REGS")
  case True
  then show ?thesis
    using assms unfolding REGS_def
    by (simp only: set_simps, elim insertE) (simp_all add: regfile_write_def regfile_read_def)
next
  case False
  then show ?thesis by (simp add: regfile_write_unknown)
qed

lemma regfile_write_same: "r \<in> set REGS \<Longrightarrow> regfile_read (regfile_write rf r v) r = v"
  unfolding REGS_def by (auto simp: regfile_write_def regfile_read_def)

lemma regfile_read_unknown: "r \<notin> set REGS \<Longrightarrow> regfile_read rf r = None"
  unfolding REGS_def by (simp add: regfile_read_def)

interpretation reg_cells: cells regfile_read regfile_write "\<lambda>r. r \<in> set REGS"
  by unfold_locales (simp_all add: regfile_write_same regfile_read_unknown)

interpretation mem_cells: cells memory_read_byte memory_write_byte "\<lambda>_. True"
  by unfold_locales (auto simp: memory_read_byte_def memory_write_byte_def split: option.splits)

interpretation sreg_cells: cells read_reg write_reg "\<lambda>r. r \<in> set REGS"
  by unfold_locales
    (simp_all add: read_reg_def write_reg_def Let_def regfile_write_same regfile_read_unknown)

interpretation sbyte_cells: cells read_byte write_byte "\<lambda>_. True"
  by unfold_locales (auto simp: read_byte_def write_byte_def Let_def mem_cells.rd_wr)

lemma write_reg_frame [simp]:
  "memory (write_reg s r v) = memory s" "flags (write_reg s r v) = flags s"
  "read_byte (write_reg s r v) a = read_byte s a"
  by (simp_all add: write_reg_def Let_def read_byte_def)

lemma write_byte_frame [simp]:
  "regs (write_byte s a v) = regs s" "flags (write_byte s a v) = flags s"
  "read_reg (write_byte s a v) r = read_reg s r"
  by (simp_all add: write_byte_def Let_def read_reg_def)

lemma all_bytes_write_reg [simp]: "all_cells read_byte P (write_reg s r v) = all_cells read_byte P s"
  by (simp add: all_cells_def)

lemma all_regs_write_byte [simp]: "all_cells read_reg P (write_byte s a v) = all_cells read_reg P s"
  by (simp add: all_cells_def)

lemma shadow_new_cells [simp]: "read_reg shadow_new r = None" "read_byte shadow_new a = None"
  by (simp_all add: read_reg_def read_byte_def shadow_new_def regfile_read_def regfile_default_def
      memory_read_byte_def)

section \<open>Counting symbolic cells\<close>

lemma symbolic_count_filter: "symbolic_count rf = length (filter (\<lambda>r. regfile_read rf r \<noteq> None) REGS)"
proof -
  have "map (regfile_read rf) REGS = [rax rf, rbx rf, rcx rf, rdx rf, rsi rf, rdi rf, rsp rf, rbp rf, r8 rf, r9 rf, r10 rf, r11 rf, r12 rf, r13 rf, r14 rf, r15 rf]"
    by (simp add: REGS_def regfile_read_def)
  then have "symbolic_count rf = length (filter (\<lambda>n. n \<noteq> None) (map (regfile_read rf) REGS))"
    by (simp only: symbolic_count_def)
  then show ?thesis by (simp add: filter_map comp_def)
qed

lemma symbolic_count_card: "symbolic_count rf = card {r. regfile_read rf r \<noteq> None}"
proof -
  have "distinct REGS" by (simp add: REGS_def)
  then have "card (set (filter (\<lambda>r. regfile_read rf r \<noteq> None) REGS)) = symbolic_count rf"
    unfolding symbolic_count_filter by (intro distinct_card) simp
  moreover have "set (filter (\<lambda>r. regfile_read rf r \<noteq> None) REGS) = {r. regfile_read rf r \<noteq> None}"
    using regfile_read_unknown [of _ rf] by fastforce
  ultimately show ?thesis by simp
qed

section \<open>Properties\<close>

text \<open>
  A write to the shadow state is seen by exactly the reads it should be. A register write
  changes the register it names, provided it is one of the sixteen the file has, and nothing
  else (memory and flags included); it counts one concretization exactly when it makes a
  symbolic register concrete. Byte writes behave the same at every address.
\<close>

theorem shadow_write_read:
  "read_reg (write_reg s r v) r' = (if r' = r \<and> r \<in> set REGS then v else read_reg s r') \<and>
   read_byte (write_reg s r v) a = read_byte s a \<and> flags (write_reg s r v) = flags s \<and>
   concretization_events (write_reg s r v) =
     concretization_events s + (if v = None \<and> read_reg s r \<noteq> None then 1 else 0) \<and>
   read_byte (write_byte s b v) b' = (if b' = b then v else read_byte s b') \<and>
   read_reg (write_byte s b v) r' = read_reg s r' \<and> flags (write_byte s b v) = flags s \<and>
   concretization_events (write_byte s b v) =
     concretization_events s + (if v = None \<and> read_byte s b \<noteq> None then 1 else 0)"
  using sreg_cells.rd_wr [of s r v r'] sbyte_cells.rd_wr [of s b v b']
  by (auto simp: write_reg_def write_byte_def Let_def read_reg_def read_byte_def)

text \<open>
  The telemetry counts what it says: \<open>symbolic_size\<close> is the number of register names and
  addresses that read as symbolic plus the number of symbolic flags.
\<close>

theorem symbolic_size_counts:
  "symbolic_size s =
     card {r. read_reg s r \<noteq> None} + card {a. read_byte s a \<noteq> None} +
     length (filter (\<lambda>f. f (flags s) \<noteq> None) [zf, sf, cf, of_flag])"
proof -
  have "symbolic_byte_count (memory s) = card {a. read_byte s a \<noteq> None}"
    by (simp add: symbolic_byte_count_def read_byte_def memory_read_byte_def dom_def)
  moreover have "symbolic_count (regs s) = card {r. read_reg s r \<noteq> None}"
    by (simp add: symbolic_count_card read_reg_def)
  ultimately show ?thesis by (simp add: symbolic_size_def bool_count_def)
qed

end
