(* ===== verification/X86_Operands.thy ===== *)
theory X86_Operands
  imports Shadow_State
begin

text \<open>
  The operand parser and the register tables of \<open>src/concolic/shadow_emulator.rs\<close>: operand
  text as the disassembler prints it (\<open>rax\<close>, \<open>0x40\<close>, \<open>dword ptr [rdi+0x10]\<close>) becomes a list of
  operands. Displacements are \<open>i64\<close> in the code; here they are 64-bit words with the same
  bits, so the casts between \<open>i64\<close> and \<open>u64\<close> are the identity.

  The lemmas show which widths and register names can come out of the parser, that the
  two register tables agree, and that parsing inverts a printer of operand text.
\<close>

section \<open>Register tables\<close>

definition GPR64 :: "string list" where
  "GPR64 = [''rax'', ''rbx'', ''rcx'', ''rdx'', ''rsi'', ''rdi'', ''rsp'', ''rbp'',
    ''r8'', ''r9'', ''r10'', ''r11'', ''r12'', ''r13'', ''r14'', ''r15'']"

definition GPR32 :: "string list" where
  "GPR32 = [''eax'', ''ebx'', ''ecx'', ''edx'', ''esi'', ''edi'', ''esp'', ''ebp'',
    ''r8d'', ''r9d'', ''r10d'', ''r11d'', ''r12d'', ''r13d'', ''r14d'', ''r15d'']"

definition GPR16 :: "string list" where
  "GPR16 = [''ax'', ''bx'', ''cx'', ''dx'', ''si'', ''di'', ''sp'', ''bp'',
    ''r8w'', ''r9w'', ''r10w'', ''r11w'', ''r12w'', ''r13w'', ''r14w'', ''r15w'']"

definition GPR8 :: "string list" where
  "GPR8 = [''al'', ''bl'', ''cl'', ''dl'', ''sil'', ''dil'', ''spl'', ''bpl'',
    ''r8b'', ''r9b'', ''r10b'', ''r11b'', ''r12b'', ''r13b'', ''r14b'', ''r15b'',
    ''ah'', ''bh'', ''ch'', ''dh'']"

definition register_width :: "string \<Rightarrow> u32 option" where
  "register_width name =
     (let s = to_ascii_lowercase name in
      if s \<in> set GPR64 then Some 64
      else if s \<in> set GPR32 then Some 32
      else if s \<in> set GPR16 then Some 16
      else if s \<in> set GPR8 then Some 8
      else None)"

definition canonical_reg :: "string \<Rightarrow> string option" where
  "canonical_reg name =
     (let s = to_ascii_lowercase name in
      if s \<in> set [''rax'', ''eax'', ''ax'', ''ah'', ''al''] then Some ''rax''
      else if s \<in> set [''rbx'', ''ebx'', ''bx'', ''bh'', ''bl''] then Some ''rbx''
      else if s \<in> set [''rcx'', ''ecx'', ''cx'', ''ch'', ''cl''] then Some ''rcx''
      else if s \<in> set [''rdx'', ''edx'', ''dx'', ''dh'', ''dl''] then Some ''rdx''
      else if s \<in> set [''rsi'', ''esi'', ''si'', ''sil''] then Some ''rsi''
      else if s \<in> set [''rdi'', ''edi'', ''di'', ''dil''] then Some ''rdi''
      else if s \<in> set [''rsp'', ''esp'', ''sp'', ''spl''] then Some ''rsp''
      else if s \<in> set [''rbp'', ''ebp'', ''bp'', ''bpl''] then Some ''rbp''
      else if s \<in> set [''r8'', ''r8d'', ''r8w'', ''r8b''] then Some ''r8''
      else if s \<in> set [''r9'', ''r9d'', ''r9w'', ''r9b''] then Some ''r9''
      else if s \<in> set [''r10'', ''r10d'', ''r10w'', ''r10b''] then Some ''r10''
      else if s \<in> set [''r11'', ''r11d'', ''r11w'', ''r11b''] then Some ''r11''
      else if s \<in> set [''r12'', ''r12d'', ''r12w'', ''r12b''] then Some ''r12''
      else if s \<in> set [''r13'', ''r13d'', ''r13w'', ''r13b''] then Some ''r13''
      else if s \<in> set [''r14'', ''r14d'', ''r14w'', ''r14b''] then Some ''r14''
      else if s \<in> set [''r15'', ''r15d'', ''r15w'', ''r15b''] then Some ''r15''
      else None)"

section \<open>Operands\<close>

type_synonym i64 = "64 word"

datatype Operand =
    Reg (reg_name: string) (reg_width: u32)
  | Imm u64
  | Mem (mem_base: "string option") (mem_disp: i64) (mem_width: u32)

fun operand_width :: "Operand \<Rightarrow> u32 option" where
  "operand_width (Reg name width) = Some width"
| "operand_width (Imm v) = None"
| "operand_width (Mem base disp width) = Some width"

fun literal_value :: "Operand \<Rightarrow> u64 option" where
  "literal_value (Imm v) = Some v"
| "literal_value _ = None"

definition parse_int_like :: "string \<Rightarrow> u64 option" where
  "parse_int_like raw =
     (let s = trim raw;
          hex_prefix = (case strip_prefix ''0x'' s of Some r \<Rightarrow> Some r | None \<Rightarrow> strip_prefix ''0X'' s)
      in case hex_prefix of
           Some rest \<Rightarrow> parse_u64_radix 16 rest
         | None \<Rightarrow>
             (case (case strip_suffix ''h'' s of Some r \<Rightarrow> Some r | None \<Rightarrow> strip_suffix ''H'' s) of
                Some rest \<Rightarrow> parse_u64_radix 16 rest
              | None \<Rightarrow>
                  (case strip_prefix ''-'' s of
                     Some rest \<Rightarrow> map_option (\<lambda>v. of_int (- v)) (parse_i64 rest)
                   | None \<Rightarrow> parse_u64 s)))"

text \<open>\<open>splitn(3, ' ')\<close>: the two chunks before the first two spaces, and what follows.\<close>

definition split_space :: "string \<Rightarrow> (string \<times> string) option" where
  "split_space s =
     (case dropWhile (\<lambda>c. c \<noteq> CHR '' '') s of
        [] \<Rightarrow> None
      | _ # rest \<Rightarrow> Some (takeWhile (\<lambda>c. c \<noteq> CHR '' '') s, rest))"

definition width_of_keyword :: "string \<Rightarrow> u32 option" where
  "width_of_keyword kw =
     (if kw = ''byte'' then Some 8 else if kw = ''word'' then Some 16
      else if kw = ''dword'' then Some 32 else if kw = ''qword'' then Some 64 else None)"

definition strip_width_prefix :: "string \<Rightarrow> u32 option \<times> string" where
  "strip_width_prefix s =
     (case split_space s of
        None \<Rightarrow> (None, s)
      | Some (chunk0, rest0) \<Rightarrow>
          (case split_space rest0 of
             None \<Rightarrow> (None, s)
           | Some (chunk1, rest1) \<Rightarrow>
               if to_ascii_lowercase chunk1 = ''ptr''
               then (case width_of_keyword (to_ascii_lowercase chunk0) of
                       Some w \<Rightarrow> (Some w, rest1)
                     | None \<Rightarrow> (None, s))
               else (None, s)))"

fun split_addr_loop :: "string \<Rightarrow> string \<Rightarrow> string \<times> char \<times> string option" where
  "split_addr_loop left [] = (trim left, CHR ''+'', None)"
| "split_addr_loop left (b # bs) =
     (if b = CHR ''+'' then (trim left, CHR ''+'', Some (trim bs))
      else if b = CHR ''-'' then (trim left, CHR ''-'', Some (trim bs))
      else split_addr_loop (left @ [b]) bs)"

definition split_addr_terms :: "string \<Rightarrow> string \<times> char \<times> string option" where
  "split_addr_terms s = (case s of [] \<Rightarrow> (trim s, CHR ''+'', None) | c # cs \<Rightarrow> split_addr_loop [c] cs)"

definition parse_addr_inner :: "string \<Rightarrow> string option \<times> i64" where
  "parse_addr_inner raw =
     (let s = trim raw;
          s = trim (case strip_prefix ''rel '' s of Some r \<Rightarrow> r | None \<Rightarrow> s);
          (left, sign, right) = split_addr_terms s;
          base = (if left \<noteq> [] \<and> register_width left \<noteq> None
                  then Some (to_ascii_lowercase left) else None);
          disp = (case right of
                    Some r \<Rightarrow>
                      let mag = (case parse_int_like r of Some v \<Rightarrow> v | None \<Rightarrow> 0)
                      in if sign = CHR ''-'' then - mag else mag
                  | None \<Rightarrow>
                      if base = None then (case parse_int_like left of Some v \<Rightarrow> v | None \<Rightarrow> 0) else 0)
      in (base, disp))"

definition parse_single_operand :: "string \<Rightarrow> Operand" where
  "parse_single_operand raw =
     (let s = trim raw;
          (width_hint, rest) = strip_width_prefix s;
          s = trim rest
      in case Option.bind (strip_prefix ''['' s) (strip_suffix '']'') of
           Some stripped \<Rightarrow>
             (let (base, disp) = parse_addr_inner stripped
              in Mem base disp (case width_hint of Some w \<Rightarrow> w | None \<Rightarrow> 64))
         | None \<Rightarrow>
             (case register_width s of
                Some w \<Rightarrow> Reg (to_ascii_lowercase s) w
              | None \<Rightarrow> (case parse_int_like s of Some v \<Rightarrow> Imm v | None \<Rightarrow> Imm 0)))"

text \<open>The loop of \<open>parse_operands\<close>: \<open>cur\<close> is the slice from \<open>start\<close> to the current byte.\<close>

fun parse_operands_loop :: "string \<Rightarrow> string \<Rightarrow> int \<Rightarrow> Operand list \<Rightarrow> Operand list" where
  "parse_operands_loop [] cur depth out =
     (let last = trim cur in if last = [] then out else out @ [parse_single_operand last])"
| "parse_operands_loop (b # bs) cur depth out =
     (if b = CHR ''['' then parse_operands_loop bs (cur @ [b]) (depth + 1) out
      else if b = CHR '']'' then parse_operands_loop bs (cur @ [b]) (depth - 1) out
      else if b = CHR '','' \<and> depth = 0
        then parse_operands_loop bs [] depth (out @ [parse_single_operand cur])
      else parse_operands_loop bs (cur @ [b]) depth out)"

definition parse_operands :: "string \<Rightarrow> Operand list" where
  "parse_operands s = parse_operands_loop s [] 0 []"

section \<open>What the parser can return\<close>

definition WIDTHS :: "u32 list" where
  "WIDTHS = [8, 16, 32, 64]"

lemma WIDTHS_cases:
  assumes "w \<in> set WIDTHS"
  obtains "w = 8" | "w = 16" | "w = 32" | "w = 64"
  using assms by (auto simp: WIDTHS_def)

lemma register_width_WIDTHS: "register_width s = Some w \<Longrightarrow> w \<in> set WIDTHS"
  by (auto simp: register_width_def WIDTHS_def Let_def split: if_splits)

lemma lower_char_idem: "lower_char (lower_char c) = lower_char c"
  by (auto simp: lower_char_def Let_def of_char_char_of_small)

lemma to_ascii_lowercase_idem [simp]: "to_ascii_lowercase (to_ascii_lowercase s) = to_ascii_lowercase s"
  by (simp add: to_ascii_lowercase_def lower_char_idem)

lemma register_width_lower [simp]: "register_width (to_ascii_lowercase s) = register_width s"
  by (simp add: register_width_def)

lemma canonical_reg_lower [simp]: "canonical_reg (to_ascii_lowercase s) = canonical_reg s"
  by (simp add: canonical_reg_def)

text \<open>The two tables recognise the same names, and every canonical name is in the register file.\<close>

lemma GPRs_canonical:
  "list_all (\<lambda>r. to_ascii_lowercase r = r \<and> canonical_reg r \<noteq> None \<and> register_width r \<noteq> None)
     (GPR64 @ GPR32 @ GPR16 @ GPR8)"
  by code_simp

lemma canonical_reg_REGS: "canonical_reg s = Some c \<Longrightarrow> c \<in> set REGS"
  by (auto simp: canonical_reg_def REGS_def Let_def split: if_splits)

lemma canonical_names:
  assumes "canonical_reg s = Some c"
  shows "to_ascii_lowercase s \<in> set (GPR64 @ GPR32 @ GPR16 @ GPR8)"
  using assms unfolding canonical_reg_def Let_def GPR64_def GPR32_def GPR16_def GPR8_def
  by (simp split: if_splits) presburger+

lemma register_width_iff_canonical: "register_width s \<noteq> None \<longleftrightarrow> canonical_reg s \<noteq> None"
proof
  assume "register_width s \<noteq> None"
  then have "to_ascii_lowercase s \<in> set (GPR64 @ GPR32 @ GPR16 @ GPR8)"
    by (auto simp: register_width_def Let_def split: if_splits)
  then have "canonical_reg (to_ascii_lowercase s) \<noteq> None"
    using GPRs_canonical by (auto simp only: list_all_iff)
  then show "canonical_reg s \<noteq> None" by simp
next
  assume "canonical_reg s \<noteq> None"
  then have "to_ascii_lowercase s \<in> set (GPR64 @ GPR32 @ GPR16 @ GPR8)"
    using canonical_names by blast
  then have "register_width (to_ascii_lowercase s) \<noteq> None"
    using GPRs_canonical by (auto simp only: list_all_iff)
  then show "register_width s \<noteq> None" by simp
qed

fun operand_ok :: "Operand \<Rightarrow> bool" where
  "operand_ok (Reg name w) \<longleftrightarrow> register_width name = Some w"
| "operand_ok (Imm v) \<longleftrightarrow> True"
| "operand_ok (Mem base disp w) \<longleftrightarrow>
     w \<in> set WIDTHS \<and> (case base of None \<Rightarrow> True | Some b \<Rightarrow> canonical_reg b \<noteq> None)"

lemma operand_ok_width: "operand_ok a \<Longrightarrow> operand_width a = Some w \<Longrightarrow> w \<in> set WIDTHS"
  by (cases a) (auto dest: register_width_WIDTHS)

lemma strip_width_prefix_WIDTHS: "strip_width_prefix s = (Some w, r) \<Longrightarrow> w \<in> set WIDTHS"
  by (auto simp: strip_width_prefix_def width_of_keyword_def WIDTHS_def split: option.splits if_splits)

lemma parse_addr_base:
  assumes "fst (parse_addr_inner s) = Some b"
  shows "canonical_reg b \<noteq> None"
proof -
  have "register_width b \<noteq> None"
    using assms by (auto simp: parse_addr_inner_def Let_def split: prod.splits if_splits)
  then show ?thesis using register_width_iff_canonical by blast
qed

lemma parse_single_operand_ok: "operand_ok (parse_single_operand s)"
proof -
  obtain w r where wr: "strip_width_prefix (trim s) = (w, r)" by fastforce
  have "w = Some x \<Longrightarrow> x \<in> set WIDTHS" for x using strip_width_prefix_WIDTHS wr by blast
  then have "(case w of Some w \<Rightarrow> w | None \<Rightarrow> 64) \<in> set WIDTHS" by (cases w) (auto simp: WIDTHS_def)
  then show ?thesis
    using parse_addr_base wr
    by (auto simp: parse_single_operand_def Let_def case_prod_beta split: option.split)
qed

lemma parse_operands_loop_ok:
  "list_all operand_ok out \<Longrightarrow> list_all operand_ok (parse_operands_loop s cur depth out)"
  by (induction s cur depth out rule: parse_operands_loop.induct)
    (auto simp: Let_def parse_single_operand_ok)

text \<open>Every operand the parser returns has a width of 8, 16, 32 or 64 bits and a known register.\<close>

lemma parse_operands_ok: "list_all operand_ok (parse_operands s)"
  by (simp add: parse_operands_def parse_operands_loop_ok)

end
