(* ===== verification/Pe_Records.thy ===== *)
theory Pe_Records
  imports Axe_Prelude
begin

text \<open>
  The rows of \<open>src/pe.rs\<close> that several components share: instructions as the disassembler
  delivers them, functions, and the control-flow records built from them.
\<close>

record ImportRecord =
  dll :: string
  import_name :: string
  imp_symbol :: string
  import_va :: u64
  import_rva :: u64
  hint :: "16 word option"
  categories :: "string list"

record InstructionRecord =
  address :: u64
  ins_size :: u32
  ins_mnemonic :: string
  op_str :: string
  ins_section :: string
  groups :: "string list"
  is_call :: bool
  is_jump :: bool
  is_ret :: bool
  branch_target :: "u64 option"

record FunctionRecord =
  fn_start :: u64
  fn_end :: u64
  fn_size :: u64
  fn_source :: string
  calls :: "u64 list"
  calls_imports :: "string list"
  fn_strings :: "string list"
  xrefs :: nat

record BasicBlockRecord =
  block_start :: u64
  block_end :: u64
  instruction_count :: nat

record EdgeRecord =
  edge_from :: u64
  edge_to :: u64
  edge_type :: string

record CfgRecord =
  cfg_function :: u64
  blocks :: "BasicBlockRecord list"
  edges :: "EdgeRecord list"

text \<open>A row with only an address, a mnemonic and operand text, as the tests of the code build it.\<close>

definition plain_ir :: "u64 \<Rightarrow> string \<Rightarrow> string \<Rightarrow> InstructionRecord" where
  "plain_ir addr m ops =
     \<lparr>address = addr, ins_size = 0, ins_mnemonic = m, op_str = ops, ins_section = [], groups = [],
      is_call = False, is_jump = False, is_ret = False, branch_target = None\<rparr>"

end
