(* ===== verification/Shadow_Emulator.thy ===== *)
theory Shadow_Emulator
  imports X86_Operands Expr_Semantics Pe_Records
begin

text \<open>
  The shadow emulator of \<open>src/concolic/shadow_emulator.rs\<close>: one step per instruction, which
  propagates symbolic nodes through registers and memory bytes, remembers the last \<open>cmp\<close> or
  \<open>test\<close> with a symbolic operand, and turns a conditional jump into a branch event whose
  predicate is a Boolean node.

  Methods that take \<open>&mut self\<close> become functions that return the updated emulator. Address
  arithmetic on \<open>u64\<close> and offset arithmetic on \<open>u32\<close> wraps, as in a release build.
\<close>

section \<open>State\<close>

record LastCompare =
  lhs :: NodeId
  rhs :: NodeId
  cmp_width :: u32
  is_test :: bool

record BranchEventWithNodeIds =
  site_va :: u64
  mnemonic :: string
  predicate :: NodeId
  event_width :: u32
  event_last_cmp :: LastCompare

record ShadowEmulator =
  dag :: ExprDag
  state :: ShadowState
  input_base :: u64
  input_len :: u32
  last_cmp :: "LastCompare option"

definition emulator_new :: "ExprDag \<Rightarrow> u64 \<Rightarrow> u32 \<Rightarrow> ShadowEmulator" where
  "emulator_new d base len =
     \<lparr>dag = d, state = shadow_new, input_base = base, input_len = len, last_cmp = None\<rparr>"

definition last_compare :: "ShadowEmulator \<Rightarrow> LastCompare option" where
  "last_compare s = last_cmp s"

definition emu_intern :: "ShadowEmulator \<Rightarrow> Expr \<Rightarrow> NodeId \<times> ShadowEmulator" where
  "emu_intern s e = (let (i, d) = intern (dag s) e in (i, s\<lparr>dag := d\<rparr>))"

section \<open>Operation tables\<close>

datatype Binop = Add | Sub | Mul | And | Or | Xor

fun binop_to_expr :: "Binop \<Rightarrow> NodeId \<Rightarrow> NodeId \<Rightarrow> Expr" where
  "binop_to_expr Add l r = BvAdd l r"
| "binop_to_expr Sub l r = BvSub l r"
| "binop_to_expr Mul l r = BvMul l r"
| "binop_to_expr And l r = BvAnd l r"
| "binop_to_expr Or l r = BvOr l r"
| "binop_to_expr Xor l r = BvXor l r"

datatype Shift = Shl | Lshr | Ashr

fun shift_to_expr :: "Shift \<Rightarrow> NodeId \<Rightarrow> NodeId \<Rightarrow> Expr" where
  "shift_to_expr Shl l r = BvShl l r"
| "shift_to_expr Lshr l r = BvLShr l r"
| "shift_to_expr Ashr l r = BvAShr l r"

datatype BranchRel = Eq | Ne | UGt | UGe | ULt | ULe | SGt | SGe | SLt | SLe

definition relation_for_branch :: "string \<Rightarrow> BranchRel option" where
  "relation_for_branch m =
     (if m \<in> set [''je'', ''jz''] then Some Eq
      else if m \<in> set [''jne'', ''jnz''] then Some Ne
      else if m \<in> set [''ja'', ''jnbe''] then Some UGt
      else if m \<in> set [''jae'', ''jnb'', ''jnc''] then Some UGe
      else if m \<in> set [''jb'', ''jc'', ''jnae''] then Some ULt
      else if m \<in> set [''jbe'', ''jna''] then Some ULe
      else if m \<in> set [''jg'', ''jnle''] then Some SGt
      else if m \<in> set [''jge'', ''jnl''] then Some SGe
      else if m \<in> set [''jl'', ''jnge''] then Some SLt
      else if m \<in> set [''jle'', ''jng''] then Some SLe
      else None)"

text \<open>\<open>build_predicate\<close> interns one comparison and, for half of the relations, its negation.\<close>

definition intern_not :: "ExprDag \<Rightarrow> Expr \<Rightarrow> NodeId \<times> ExprDag" where
  "intern_not d e = (let (i, d) = intern d e in intern d (ENot i))"

fun build_predicate :: "ExprDag \<Rightarrow> BranchRel \<Rightarrow> NodeId \<Rightarrow> NodeId \<Rightarrow> NodeId \<times> ExprDag" where
  "build_predicate d Eq l r = intern d (EEq l r)"
| "build_predicate d Ne l r = intern_not d (EEq l r)"
| "build_predicate d UGt l r = intern_not d (Ule l r)"
| "build_predicate d UGe l r = intern_not d (Ult l r)"
| "build_predicate d ULt l r = intern d (Ult l r)"
| "build_predicate d ULe l r = intern d (Ule l r)"
| "build_predicate d SGt l r = intern_not d (Sle l r)"
| "build_predicate d SGe l r = intern_not d (Slt l r)"
| "build_predicate d SLt l r = intern d (Slt l r)"
| "build_predicate d SLe l r = intern d (Sle l r)"

section \<open>Helpers\<close>

definition input_byte_var :: "ShadowEmulator \<Rightarrow> u32 \<Rightarrow> NodeId \<times> ShadowEmulator" where
  "input_byte_var s i =
     (let name = ''input_b'' @ show_nat (unat i);
          (sym, d) = intern_symbol (dag s) name
      in emu_intern (s\<lparr>dag := d\<rparr>) (Var sym (Bv 8)))"

text \<open>The loop of \<open>concat_input_bytes\<close> over the offsets that are left, with its accumulator.\<close>

fun concat_input_loop :: "ShadowEmulator \<Rightarrow> u32 list \<Rightarrow> NodeId option \<Rightarrow> NodeId option \<times> ShadowEmulator" where
  "concat_input_loop s [] acc = (acc, s)"
| "concat_input_loop s (i # is) acc =
     (let (byte_id, s) = input_byte_var s i;
          (n, s) = (case acc of None \<Rightarrow> (byte_id, s) | Some low \<Rightarrow> emu_intern s (Concat byte_id low))
      in concat_input_loop s is (Some n))"

definition concat_input_bytes :: "ShadowEmulator \<Rightarrow> u32 \<Rightarrow> u32 \<Rightarrow> NodeId option \<times> ShadowEmulator" where
  "concat_input_bytes s start count =
     concat_input_loop s (map (\<lambda>i. start + of_nat i) [0..<unat count]) None"

fun concat_shadow_loop :: "ShadowEmulator \<Rightarrow> u64 list \<Rightarrow> NodeId option \<Rightarrow> NodeId option \<times> ShadowEmulator" where
  "concat_shadow_loop s [] acc = (acc, s)"
| "concat_shadow_loop s (a # as) acc =
     (case read_byte (state s) a of
        None \<Rightarrow> (None, s)
      | Some b \<Rightarrow>
          let (n, s) = (case acc of None \<Rightarrow> (b, s) | Some low \<Rightarrow> emu_intern s (Concat b low))
          in concat_shadow_loop s as (Some n))"

definition concat_shadow_bytes :: "ShadowEmulator \<Rightarrow> u64 \<Rightarrow> u32 \<Rightarrow> NodeId option \<times> ShadowEmulator" where
  "concat_shadow_bytes s addr count =
     concat_shadow_loop s (map (\<lambda>i. addr + of_nat i) [0..<unat count]) None"

definition read_memory_region ::
  "ShadowEmulator \<Rightarrow> string option \<Rightarrow> i64 \<Rightarrow> u32 \<Rightarrow> NodeId option \<times> ShadowEmulator" where
  "read_memory_region s base disp width_bits =
     (if width_bits = 0 \<or> width_bits mod 8 \<noteq> 0 then (None, s)
      else
        let byte_count = width_bits div 8;
            base_concrete =
              ((case Option.bind base canonical_reg of
                  None \<Rightarrow> False
                | Some c \<Rightarrow> read_reg (state s) c = None) \<or> base = None);
            effective_addr = (if base = None then disp else input_base s + disp)
        in if \<not> base_concrete then (None, s)
           else if effective_addr \<ge> input_base s \<and>
                   effective_addr + ucast byte_count \<le> input_base s + ucast (input_len s)
           then concat_input_bytes s (ucast (effective_addr - input_base s)) byte_count
           else concat_shadow_bytes s effective_addr byte_count)"

text \<open>
  The byte loop of \<open>write_memory_region\<close>: byte \<open>i\<close> of the value goes to the address plus \<open>i\<close>.
\<close>

fun write_bytes_loop :: "ShadowEmulator \<Rightarrow> u64 \<Rightarrow> NodeId option \<Rightarrow> nat list \<Rightarrow> ShadowEmulator" where
  "write_bytes_loop s addr v [] = s"
| "write_bytes_loop s addr v (i # is) =
     (let (byte_val, s) =
        (case v of
           None \<Rightarrow> (None, s)
         | Some n \<Rightarrow>
             let lo = of_nat i * 8; hi = lo + 7; (b, s) = emu_intern s (Extract hi lo n)
             in (Some b, s))
      in write_bytes_loop (s\<lparr>state := write_byte (state s) (addr + of_nat i) byte_val\<rparr>) addr v is)"

definition write_memory_region ::
  "ShadowEmulator \<Rightarrow> string option \<Rightarrow> i64 \<Rightarrow> u32 \<Rightarrow> NodeId option \<Rightarrow> ShadowEmulator" where
  "write_memory_region s base disp width_bits v =
     (if width_bits = 0 \<or> width_bits mod 8 \<noteq> 0 then s
      else
        let byte_count = unat (width_bits div 8);
            effective_addr = (case base of Some _ \<Rightarrow> input_base s + disp | None \<Rightarrow> disp)
        in write_bytes_loop s effective_addr v [0..<byte_count])"

definition write_reg64 :: "ShadowEmulator \<Rightarrow> string \<Rightarrow> NodeId option \<Rightarrow> ShadowEmulator" where
  "write_reg64 s name_alias full =
     (case canonical_reg name_alias of
        None \<Rightarrow> s
      | Some canon \<Rightarrow> s\<lparr>state := write_reg (state s) canon full\<rparr>)"

definition widen_to_64 :: "ShadowEmulator \<Rightarrow> NodeId option \<Rightarrow> u32 \<Rightarrow> NodeId option \<times> ShadowEmulator" where
  "widen_to_64 s node width =
     (case node of
        None \<Rightarrow> (None, s)
      | Some n \<Rightarrow>
          if width \<ge> 64 then (Some n, s)
          else let (i, s) = emu_intern s (ZeroExt (64 - width) n) in (Some i, s))"

definition narrow_to :: "ShadowEmulator \<Rightarrow> NodeId \<Rightarrow> u32 \<Rightarrow> u32 \<Rightarrow> bool \<Rightarrow> NodeId \<times> ShadowEmulator" where
  "narrow_to s full stored_width want_width is_ah =
     (if is_ah then emu_intern s (Extract 15 8 full)
      else if want_width \<ge> 64 then (full, s)
      else emu_intern s (Extract (want_width - 1) 0 full))"

definition imm_mask :: "nat \<Rightarrow> u128" where
  "imm_mask n = max (push_bit n 1 - 1) 1"

definition read_operand :: "ShadowEmulator \<Rightarrow> Operand \<Rightarrow> u32 \<Rightarrow> NodeId option \<times> ShadowEmulator" where
  "read_operand s op want_width =
     (case op of
        Imm v \<Rightarrow>
          let (i, s) = emu_intern s
                (BvConst (and (ucast v) (imm_mask (unat (min want_width 127)))) want_width)
          in (Some i, s)
      | Reg name width \<Rightarrow>
          (case Option.bind (canonical_reg name) (read_reg (state s)) of
             None \<Rightarrow> (None, s)
           | Some full \<Rightarrow>
               let (i, s) = narrow_to s full width want_width (name = ''ah'') in (Some i, s))
      | Mem base disp width \<Rightarrow>
          let read_width = min width want_width;
              (load, s) = read_memory_region s base disp read_width
          in (case load of
                None \<Rightarrow> (None, s)
              | Some n \<Rightarrow> let (i, s) = narrow_to s n read_width want_width False in (Some i, s)))"

section \<open>Instruction handlers\<close>

definition step_mov :: "ShadowEmulator \<Rightarrow> Operand list \<Rightarrow> ShadowEmulator" where
  "step_mov s ops =
     (case ops of
        [dst, src] \<Rightarrow>
          (case dst of
             Reg name width \<Rightarrow>
               let (src_node, s) = read_operand s src width;
                   (dst64, s) = widen_to_64 s src_node width
               in write_reg64 s name dst64
           | Mem base disp width \<Rightarrow>
               let (src_node, s) = read_operand s src width
               in write_memory_region s base disp width src_node
           | Imm _ \<Rightarrow> s)
      | _ \<Rightarrow> s)"

definition step_movzx_or_sx :: "ShadowEmulator \<Rightarrow> Operand list \<Rightarrow> bool \<Rightarrow> ShadowEmulator" where
  "step_movzx_or_sx s ops is_signed =
     (case ops of
        [Reg dst_name dw, src] \<Rightarrow>
          let src_w = (case operand_width src of Some w \<Rightarrow> w | None \<Rightarrow> 8);
              (src_node, s) = read_operand s src src_w;
              extra = (if src_w \<le> dw then dw - src_w else 0);
              (extended, s) =
                (case src_node of
                   Some n \<Rightarrow>
                     if extra > 0
                     then let (i, s) = emu_intern s (if is_signed then SignExt extra n else ZeroExt extra n)
                          in (Some i, s)
                     else (src_node, s)
                 | None \<Rightarrow> (None, s));
              (dst64, s) = widen_to_64 s extended dw
          in write_reg64 s dst_name dst64
      | _ \<Rightarrow> s)"

definition step_binop :: "ShadowEmulator \<Rightarrow> Operand list \<Rightarrow> Binop \<Rightarrow> ShadowEmulator" where
  "step_binop s ops op =
     (case ops of
        [Reg name width, src] \<Rightarrow>
          let (l_node, s) = read_operand s (Reg name width) width;
              (r_node, s) = read_operand s src width;
              one_side = (\<lambda>l s.
                case src of
                  Imm v \<Rightarrow>
                    let (cv, s) = emu_intern s (BvConst (ucast v) width);
                        (i, s) = emu_intern s (binop_to_expr op l cv)
                    in (Some i, s)
                | _ \<Rightarrow> (None, s));
              (res, s) =
                (case (l_node, r_node) of
                   (Some l, Some r) \<Rightarrow> let (i, s) = emu_intern s (binop_to_expr op l r) in (Some i, s)
                 | (Some l, None) \<Rightarrow> one_side l s
                 | (None, Some l) \<Rightarrow> one_side l s
                 | (None, None) \<Rightarrow> (None, s));
              (dst64, s) = widen_to_64 s res width
          in write_reg64 s name dst64
      | _ \<Rightarrow> s)"

definition step_shift :: "ShadowEmulator \<Rightarrow> Operand list \<Rightarrow> Shift \<Rightarrow> ShadowEmulator" where
  "step_shift s ops shift =
     (case ops of
        [Reg name width, src] \<Rightarrow>
          let (l_node, s) = read_operand s (Reg name width) width;
              (amount, s) =
                (case src of
                   Imm v \<Rightarrow>
                     let (i, s) = emu_intern s
                           (BvConst (and (ucast v) (imm_mask (unat width mod 128))) width)
                     in (Some i, s)
                 | Reg _ _ \<Rightarrow> read_operand s src width
                 | Mem _ _ _ \<Rightarrow> (None, s));
              (res, s) =
                (case (l_node, amount) of
                   (Some l, Some a) \<Rightarrow> let (i, s) = emu_intern s (shift_to_expr shift l a) in (Some i, s)
                 | _ \<Rightarrow> (None, s));
              (dst64, s) = widen_to_64 s res width
          in write_reg64 s name dst64
      | _ \<Rightarrow> s)"

definition cmp_operand_width :: "Operand \<Rightarrow> Operand \<Rightarrow> u32" where
  "cmp_operand_width a b =
     (case (operand_width a, operand_width b) of
        (Some wa, Some wb) \<Rightarrow> max (min wa wb) 8
      | (Some wa, None) \<Rightarrow> wa
      | (None, Some wb) \<Rightarrow> wb
      | (None, None) \<Rightarrow> 32)"

definition is_place :: "Operand \<Rightarrow> bool" where
  "is_place a = (case a of Reg _ _ \<Rightarrow> True | Mem _ _ _ \<Rightarrow> True | Imm _ \<Rightarrow> False)"

text \<open>\<open>unwrap_or_else\<close>: a missing node becomes the literal of the operand, or zero.\<close>

definition node_or_literal ::
  "ShadowEmulator \<Rightarrow> NodeId option \<Rightarrow> Operand \<Rightarrow> u32 \<Rightarrow> NodeId \<times> ShadowEmulator" where
  "node_or_literal s node a w =
     (case node of
        Some n \<Rightarrow> (n, s)
      | None \<Rightarrow>
          let imm = (case literal_value a of Some v \<Rightarrow> v | None \<Rightarrow> 0)
          in emu_intern s (BvConst (ucast imm) w))"

definition step_cmp :: "ShadowEmulator \<Rightarrow> Operand list \<Rightarrow> bool \<Rightarrow> ShadowEmulator" where
  "step_cmp s ops test =
     (case ops of
        [a, b] \<Rightarrow>
          let w = cmp_operand_width a b;
              (l_node, s) = read_operand s a w;
              (r_node, s) = read_operand s b w;
              lhs_symbolic = (is_place a \<and> l_node \<noteq> None);
              rhs_symbolic = (is_place b \<and> r_node \<noteq> None)
          in if \<not> lhs_symbolic \<and> \<not> rhs_symbolic then s\<lparr>last_cmp := None\<rparr>
             else
               let (lhs_n, s) = node_or_literal s l_node a w;
                   (rhs_n, s) = node_or_literal s r_node b w;
                   (l, r, s) =
                     (if test
                      then let (anded, s) = emu_intern s (BvAnd lhs_n rhs_n);
                               (zero, s) = emu_intern s (BvConst 0 w)
                           in (anded, zero, s)
                      else (lhs_n, rhs_n, s))
               in s\<lparr>last_cmp := Some \<lparr>lhs = l, rhs = r, cmp_width = w, is_test = test\<rparr>\<rparr>
      | _ \<Rightarrow> s)"

definition step_lea :: "ShadowEmulator \<Rightarrow> Operand list \<Rightarrow> ShadowEmulator" where
  "step_lea s ops =
     (case ops of
        [Reg name _, Mem base disp _] \<Rightarrow>
          let base_node =
                (case base of
                   Some b \<Rightarrow> Option.bind (canonical_reg b) (read_reg (state s))
                 | None \<Rightarrow> None);
              (res, s) =
                (case base_node of
                   Some b \<Rightarrow>
                     let (c, s) = emu_intern s (BvConst (and (scast disp) (push_bit 64 1 - 1)) 64);
                         (i, s) = emu_intern s (BvAdd b c)
                     in (Some i, s)
                 | None \<Rightarrow> (None, s))
          in write_reg64 s name res
      | _ \<Rightarrow> s)"

definition emit_branch_event ::
  "ShadowEmulator \<Rightarrow> u64 \<Rightarrow> string \<Rightarrow> BranchRel \<Rightarrow> BranchEventWithNodeIds option \<times> ShadowEmulator" where
  "emit_branch_event s va m rel =
     (case last_cmp s of
        None \<Rightarrow> (None, s)
      | Some c \<Rightarrow>
          let (p, d) = build_predicate (dag s) rel (lhs c) (rhs c)
          in (Some \<lparr>site_va = va, mnemonic = m, predicate = p, event_width = cmp_width c,
                    event_last_cmp = c\<rparr>, s\<lparr>dag := d\<rparr>))"

text \<open>The arm for unsupported instructions: a symbolic first register is concretized.\<close>

definition step_unsupported :: "ShadowEmulator \<Rightarrow> Operand list \<Rightarrow> ShadowEmulator" where
  "step_unsupported s ops =
     (case ops of
        Reg dst _ # _ \<Rightarrow>
          (case canonical_reg dst of
             Some c \<Rightarrow>
               if read_reg (state s) c \<noteq> None then s\<lparr>state := write_reg (state s) c None\<rparr> else s
           | None \<Rightarrow> s)
      | _ \<Rightarrow> s)"

definition step_handler :: "ShadowEmulator \<Rightarrow> string \<Rightarrow> Operand list \<Rightarrow> ShadowEmulator" where
  "step_handler s m ops =
     (if m = ''mov'' then step_mov s ops
      else if m = ''movzx'' then step_movzx_or_sx s ops False
      else if m = ''movsx'' then step_movzx_or_sx s ops True
      else if m = ''add'' then step_binop s ops Add
      else if m = ''sub'' then step_binop s ops Sub
      else if m = ''imul'' then step_binop s ops Mul
      else if m = ''and'' then step_binop s ops And
      else if m = ''or'' then step_binop s ops Or
      else if m = ''xor'' then step_binop s ops Xor
      else if m = ''shl'' \<or> m = ''sal'' then step_shift s ops Shl
      else if m = ''shr'' then step_shift s ops Lshr
      else if m = ''sar'' then step_shift s ops Ashr
      else if m = ''cmp'' then step_cmp s ops False
      else if m = ''test'' then step_cmp s ops True
      else if m = ''lea'' then step_lea s ops
      else step_unsupported s ops)"

definition step_instruction ::
  "ShadowEmulator \<Rightarrow> InstructionRecord \<Rightarrow> BranchEventWithNodeIds option \<times> ShadowEmulator" where
  "step_instruction s ir =
     (let m = to_ascii_lowercase (ins_mnemonic ir);
          operands = parse_operands (op_str ir)
      in case relation_for_branch m of
           Some rel \<Rightarrow> emit_branch_event s (address ir) m rel
         | None \<Rightarrow> (None, step_handler s m operands))"

text \<open>A run over a list of instructions, collecting the events in order.\<close>

fun emu_run :: "ShadowEmulator \<Rightarrow> InstructionRecord list \<Rightarrow> BranchEventWithNodeIds list \<times> ShadowEmulator" where
  "emu_run s [] = ([], s)"
| "emu_run s (ir # irs) =
     (let (ev, s) = step_instruction s ir;
          (evs, s) = emu_run s irs
      in (case ev of None \<Rightarrow> evs | Some e \<Rightarrow> e # evs, s))"

end
