(* ===== verification/Shadow_Typing.thy ===== *)
theory Shadow_Typing
  imports Shadow_Emulator
begin

text \<open>
  The typing invariant of the shadow emulator: registers hold 64-bit nodes, memory bytes hold
  8-bit nodes, and the operands of the remembered comparison have its width. Every handler
  preserves it for operands an x86 encoding can have, so every branch predicate the emulator
  emits passes \<open>validate\<close>. A second group of lemmas bounds how far one instruction grows the DAG.

  Node ids are 32-bit, so the facts hold as long as the tables fit into 32-bit ids. They are
  stated conditionally on \<open>fits\<close>, which makes them compose without side conditions.
\<close>

section \<open>Typing as long as the tables fit\<close>

definition fits :: "ExprDag \<Rightarrow> bool" where
  "fits d \<longleftrightarrow> length (nodes d) \<le> 2 ^ 32 \<and> length (symbols d) \<le> 2 ^ 32"

definition cwf :: "ExprDag \<Rightarrow> bool" where
  "cwf d \<longleftrightarrow> (fits d \<longrightarrow> wf_dag d)"

definition cwt :: "ExprDag \<Rightarrow> NodeId \<Rightarrow> Sort \<Rightarrow> bool" where
  "cwt d i t \<longleftrightarrow> (fits d \<longrightarrow> wt d i t)"

definition typed_expr :: "ExprDag \<Rightarrow> Expr \<Rightarrow> Sort \<Rightarrow> bool" where
  "typed_expr d e t \<longleftrightarrow>
     (fits d \<longrightarrow> expr_ok d e \<and> (\<forall>d' i. dag_le d d' \<longrightarrow> try_get d' i = Some e \<longrightarrow> wt d' i t))"

lemma fits_le: "dag_le d d' \<Longrightarrow> fits d' \<Longrightarrow> fits d"
  using dag_le_length [of d d'] dag_le_syms [of d d'] by (simp add: fits_def)

lemma cwt_mono [dag_mono]: "cwt d i t \<Longrightarrow> dag_le d d' \<Longrightarrow> cwt d' i t"
  using fits_le wt_extend by (fastforce simp: cwt_def)

lemma intern_typed:
  assumes "cwf d" "typed_expr d e t"
  shows "cwf (snd (intern d e))" "cwt (snd (intern d e)) (fst (intern d e)) t"
proof -
  let ?d = "snd (intern d e)" and ?i = "fst (intern d e)"
  have "wf_dag ?d \<and> wt ?d ?i t" if f: "fits ?d"
  proof -
    have "fits d" using f by (rule fits_le [OF intern_le])
    with assms have d: "wf_dag d" "expr_ok d e"
      and t: "\<And>d' i. dag_le d d' \<Longrightarrow> try_get d' i = Some e \<Longrightarrow> wt d' i t"
      by (auto simp: cwf_def typed_expr_def)
    have w: "wf_dag ?d" using f d by (intro intern_wf) (simp_all add: fits_def)
    have "try_get ?d ?i = Some e"
      using node_tab.put_lookup [of d e] d(1) f by (simp add: try_get_def fits_def wf_dag_def)
    with t w show ?thesis by simp
  qed
  then show "cwf ?d" "cwt ?d ?i t" by (simp_all add: cwf_def cwt_def)
qed

lemma cwt_bound: "cwt d i t \<Longrightarrow> fits d \<Longrightarrow> unat i < length (nodes d)"
  by (simp add: cwt_def wt_bound)

subsection \<open>Typing rules for interned expressions\<close>

lemma typed_binop [dag_intro]:
  assumes "bv_binop_args e = Some (a, b)" "cwt d a (Bv w)" "cwt d b (Bv w)"
  shows "typed_expr d e (Bv w)"
proof -
  have "expr_ok d e" if "fits d"
    using assms cwt_bound that by (cases e) (auto simp: expr_ok_def)
  then show ?thesis
    using assms by (auto simp: typed_expr_def cwt_def intro: wt_binop wt_extend)
qed

lemma typed_cmp [dag_intro]:
  assumes "bv_cmp_args e = Some (a, b)" "cwt d a (Bv w)" "cwt d b (Bv w)"
  shows "typed_expr d e Bool"
proof -
  have "expr_ok d e" if "fits d"
    using assms cwt_bound that by (cases e) (auto simp: expr_ok_def)
  then show ?thesis
    using assms by (auto simp: typed_expr_def cwt_def intro: wt_cmp wt_extend)
qed

lemma typed_ext [dag_intro]:
  assumes "ext_args e = Some (x, v)" "cwt d v (Bv w)"
  shows "typed_expr d e (Bv (w + x))"
proof -
  have "expr_ok d e" if "fits d"
    using assms cwt_bound that by (cases e) (auto simp: expr_ok_def)
  then show ?thesis
    using assms by (auto simp: typed_expr_def cwt_def intro: wt_ext wt_extend)
qed

lemma typed_eq [dag_intro]: "cwt d a t \<Longrightarrow> cwt d b t \<Longrightarrow> typed_expr d (EEq a b) Bool"
  using cwt_bound [of d a t] cwt_bound [of d b t]
  by (auto simp: typed_expr_def cwt_def expr_ok_def intro: wt_eq wt_extend)

lemma wt_not: "try_get d i = Some (ENot a) \<Longrightarrow> wt d a Bool \<Longrightarrow> wt d i Bool"
  by (erule wt_logic [where cs = "[a]"]) simp_all

lemma typed_not [dag_intro]: "cwt d a Bool \<Longrightarrow> typed_expr d (ENot a) Bool"
  using cwt_bound [of d a Bool]
  by (auto simp: typed_expr_def cwt_def expr_ok_def intro: wt_not wt_extend)

lemma typed_const [dag_intro]: "const_fits v w \<Longrightarrow> typed_expr d (BvConst v w) (Bv w)"
  by (auto simp: typed_expr_def expr_ok_def intro: wt_const)

lemma typed_concat [dag_intro]:
  "cwt d a (Bv wa) \<Longrightarrow> cwt d b (Bv wb) \<Longrightarrow> typed_expr d (Concat a b) (Bv (wa + wb))"
  using cwt_bound [of d a "Bv wa"] cwt_bound [of d b "Bv wb"]
  by (auto simp: typed_expr_def cwt_def expr_ok_def intro: wt_concat wt_extend)

lemma typed_extract:
  "cwt d v (Bv w) \<Longrightarrow> lo \<le> hi \<Longrightarrow> hi < w \<Longrightarrow> n = hi - lo + 1 \<Longrightarrow> typed_expr d (Extract hi lo v) (Bv n)"
  using cwt_bound [of d v "Bv w"]
  by (auto simp: typed_expr_def cwt_def expr_ok_def intro: wt_extract wt_extend)

lemma typed_var: "(fits d \<Longrightarrow> unat n < length (symbols d)) \<Longrightarrow> typed_expr d (Var n t) t"
  by (auto simp: typed_expr_def expr_ok_def intro: wt_var)

section \<open>The invariant\<close>

definition emu_ok :: "ShadowEmulator \<Rightarrow> bool" where
  "emu_ok s \<longleftrightarrow>
     cwf (dag s) \<and>
     all_cells read_reg (\<lambda>n. cwt (dag s) n (Bv 64)) (state s) \<and>
     all_cells read_byte (\<lambda>n. cwt (dag s) n (Bv 8)) (state s) \<and>
     (\<forall>c. last_cmp s = Some c \<longrightarrow>
        cwt (dag s) (lhs c) (Bv (cmp_width c)) \<and> cwt (dag s) (rhs c) (Bv (cmp_width c)))"

definition opt_typed :: "ShadowEmulator \<Rightarrow> NodeId option \<Rightarrow> u32 \<Rightarrow> bool" where
  "opt_typed s r w \<longleftrightarrow> (\<forall>n. r = Some n \<longrightarrow> cwt (dag s) n (Bv w))"

text \<open>What an operation that computes a node promises of its result.\<close>

definition gives :: "ShadowEmulator \<Rightarrow> NodeId option \<times> ShadowEmulator \<Rightarrow> u32 \<Rightarrow> bool" where
  "gives s p w \<longleftrightarrow> emu_ok (snd p) \<and> dag_le (dag s) (dag (snd p)) \<and> opt_typed (snd p) (fst p) w"

lemma opt_typed_simps [simp]: "opt_typed s None w" "opt_typed s (Some n) w = cwt (dag s) n (Bv w)"
  by (simp_all add: opt_typed_def)

lemma opt_typed_mono: "opt_typed s r w \<Longrightarrow> dag_le (dag s) (dag s') \<Longrightarrow> opt_typed s' r w"
  by (auto simp: opt_typed_def intro: cwt_mono)

lemma gives_trans: "gives s1 p w \<Longrightarrow> dag_le (dag s) (dag s1) \<Longrightarrow> gives s p w"
  unfolding gives_def by (metis dag_le_trans)

lemma givesD: "gives s (r, s') w \<Longrightarrow> emu_ok s' \<and> dag_le (dag s) (dag s') \<and> opt_typed s' r w"
  by (simp add: gives_def)

lemma gives_chain: "gives s (r, s1) w \<Longrightarrow> gives s1 p w' \<Longrightarrow> gives s p w'"
  by (erule gives_trans) (simp add: givesD)

lemma gives_same: "emu_ok s \<Longrightarrow> opt_typed s r w \<Longrightarrow> gives s (r, s) w"
  by (simp add: gives_def)

lemma emu_ok_dag:
  assumes "emu_ok s" "dag_le (dag s) d" "cwf d"
  shows "emu_ok (s\<lparr>dag := d\<rparr>)"
  using assms unfolding emu_ok_def
  by (auto intro: cwt_mono all_cells_mono)

lemma emu_intern_ok:
  assumes "emu_ok s" "typed_expr (dag s) e t"
  shows "emu_ok (snd (emu_intern s e))" "dag_le (dag s) (dag (snd (emu_intern s e)))"
    "cwt (dag (snd (emu_intern s e))) (fst (emu_intern s e)) t"
    "state (snd (emu_intern s e)) = state s"
    "input_base (snd (emu_intern s e)) = input_base s"
    "input_len (snd (emu_intern s e)) = input_len s"
  using assms intern_typed [of "dag s" e t] emu_ok_dag [of s "snd (intern (dag s) e)"]
  by (auto simp: emu_intern_def emu_ok_def case_prod_beta)

lemma emu_intern_gives:
  "emu_ok s \<Longrightarrow> typed_expr (dag s) e (Bv w) \<Longrightarrow>
     gives s (let (i, s) = emu_intern s e in (Some i, s)) w"
  using emu_intern_ok [of s e "Bv w"] by (simp add: gives_def case_prod_beta)

lemma emu_intern_gives_case:
  "emu_ok s \<Longrightarrow> typed_expr (dag s) e (Bv w) \<Longrightarrow>
     gives s (case emu_intern s e of (i, s) \<Rightarrow> (Some i, s)) w"
  using emu_intern_gives [of s e w] by simp

lemma emu_intern_gives':
  "emu_ok s \<Longrightarrow> typed_expr (dag s) e (Bv w) \<Longrightarrow> emu_intern s e = (i, s') \<Longrightarrow> gives s (Some i, s') w"
  using emu_intern_ok [of s e "Bv w"] by (simp add: gives_def)

section \<open>Helpers preserve the invariant\<close>

lemma write_reg64_ok: "emu_ok s \<Longrightarrow> opt_typed s r 64 \<Longrightarrow> emu_ok (write_reg64 s name r)"
  by (auto simp: emu_ok_def write_reg64_def opt_typed_def split: option.split
      intro!: sreg_cells.wr_all)

lemma write_reg64_dag [simp]: "dag (write_reg64 s name r) = dag s"
  by (simp add: write_reg64_def split: option.split)

lemma widen_to_64_gives:
  assumes "emu_ok s" "opt_typed s r w" "w \<le> 64"
  shows "gives s (widen_to_64 s r w) 64"
proof (cases r)
  case (Some n)
  then have n: "cwt (dag s) n (Bv w)" using assms by simp
  have "w = 64" if "w \<ge> 64" using that assms(3) by simp
  moreover have "typed_expr (dag s) (ZeroExt (64 - w) n) (Bv 64)"
    using typed_ext [of "ZeroExt (64 - w) n" "64 - w" n "dag s" w] n by simp
  ultimately show ?thesis
    using Some n assms(1) emu_intern_gives [OF assms(1)]
    by (auto simp: widen_to_64_def intro!: gives_same)
qed (simp add: widen_to_64_def gives_same assms)

lemma WIDTHS_le: "w \<in> set WIDTHS \<Longrightarrow> w \<le> 64 \<and> 8 \<le> w"
  by (auto simp: WIDTHS_def)

lemma narrow_to_gives:
  assumes "emu_ok s" "cwt (dag s) n (Bv stored)" "want \<in> set WIDTHS" "want \<le> stored" "stored \<le> 64"
    and "is_ah \<Longrightarrow> want = 8 \<and> stored = 64"
  shows "gives s (let (i, s) = narrow_to s n sw want is_ah in (Some i, s)) want"
proof -
  have 1: "typed_expr (dag s) (Extract 15 8 n) (Bv want)" if is_ah
    by (rule typed_extract [OF assms(2)]) (use that assms(6) in simp_all)
  have w: "want - 1 < stored"
    using assms(3,4) by (elim WIDTHS_cases) (auto simp: word_le_nat_alt word_less_nat_alt)
  have 2: "typed_expr (dag s) (Extract (want - 1) 0 n) (Bv want)"
    by (rule typed_extract [OF assms(2)]) (simp_all add: w)
  have "stored = want" if "want \<ge> 64" using that assms(4,5) by simp
  then show ?thesis
    using assms(1,2) 1 2 emu_intern_gives [OF assms(1)] by (auto simp: narrow_to_def gives_same)
qed

lemma input_byte_var_ok:
  assumes "emu_ok s" "input_byte_var s i = (b, s')"
  shows "gives s (Some b, s') 8"
proof -
  let ?name = "''input_b'' @ show_nat (unat i)"
  let ?d = "snd (intern_symbol (dag s) ?name)" and ?n = "fst (intern_symbol (dag s) ?name)"
  let ?s = "s\<lparr>dag := ?d\<rparr>"
  have "wf_dag ?d \<and> unat ?n < length (symbols ?d)" if f: "fits ?d"
  proof -
    have "fits (dag s)" using f by (rule fits_le [OF intern_symbol_le])
    with assms(1) have "wf_dag (dag s)" by (simp add: emu_ok_def cwf_def)
    then show ?thesis
      using f sym_tab.put_lookup(1) [of "dag s" ?name] intern_symbol_wf [of "dag s" ?name]
      by (simp add: fits_def wf_dag_def)
  qed
  then have "emu_ok ?s" "typed_expr ?d (Var ?n (Bv 8)) (Bv 8)"
    using assms(1) by (auto intro!: emu_ok_dag typed_var simp: cwf_def)
  then have "gives ?s (Some b, s') 8"
    using assms(2) emu_intern_gives' [of ?s "Var ?n (Bv 8)" 8 b s']
    by (simp add: input_byte_var_def Let_def case_prod_beta)
  then show ?thesis by (rule gives_trans) simp
qed

text \<open>One round of either byte loop: a new high byte in front of the accumulator.\<close>

definition push_high :: "ShadowEmulator \<Rightarrow> NodeId \<Rightarrow> NodeId option \<Rightarrow> NodeId \<times> ShadowEmulator" where
  "push_high s b acc = (case acc of None \<Rightarrow> (b, s) | Some low \<Rightarrow> emu_intern s (Concat b low))"

lemma push_high_gives:
  assumes "emu_ok s" "cwt (dag s) b (Bv 8)" "opt_typed s acc w" "acc = None \<Longrightarrow> w = 0"
    and "push_high s b acc = (n, s')"
  shows "gives s (Some n, s') (w + 8)"
proof (cases acc)
  case None
  with assms show ?thesis by (auto simp: push_high_def intro: gives_same)
next
  case (Some low)
  have "typed_expr (dag s) (Concat b low) (Bv (8 + w))"
    using assms Some by (intro typed_concat) simp_all
  then show ?thesis
    using emu_intern_gives' [OF assms(1), of "Concat b low" "w + 8" n s'] assms(5) Some
    by (simp add: push_high_def add.commute)
qed

lemma concat_input_loop_gives:
  assumes "emu_ok s" "opt_typed s acc w" "acc = None \<Longrightarrow> w = 0"
  shows "gives s (concat_input_loop s is acc) (w + 8 * of_nat (length is))"
  using assms
proof (induction "is" arbitrary: s acc w)
  case Nil
  then show ?case by (simp add: gives_same)
next
  case (Cons i "is")
  obtain b s1 where b: "input_byte_var s i = (b, s1)" by fastforce
  obtain n s2 where n: "push_high s1 b acc = (n, s2)" by fastforce
  have 1: "gives s (Some b, s1) 8" using Cons.prems(1) b by (rule input_byte_var_ok)
  then have "opt_typed s1 acc w" using Cons.prems(2) by (auto dest!: givesD intro: opt_typed_mono)
  with 1 n Cons.prems(3) have 2: "gives s1 (Some n, s2) (w + 8)"
    by (intro push_high_gives) (auto dest: givesD)
  have "gives s2 (concat_input_loop s2 is (Some n)) (w + 8 + 8 * of_nat (length is))"
    using 2 by (intro Cons.IH) (auto dest: givesD)
  moreover have "dag_le (dag s) (dag s2)" using 1 2 by (auto dest!: givesD intro: dag_le_trans)
  ultimately have "gives s (concat_input_loop s2 is (Some n)) (w + 8 + 8 * of_nat (length is))"
    by (rule gives_trans)
  then show ?case using b n by (simp add: push_high_def algebra_simps)
qed

lemma concat_shadow_loop_gives:
  assumes "emu_ok s" "opt_typed s acc w" "acc = None \<Longrightarrow> w = 0"
  shows "gives s (concat_shadow_loop s as acc) (w + 8 * of_nat (length as))"
  using assms
proof (induction "as" arbitrary: s acc w)
  case Nil
  then show ?case by (simp add: gives_same)
next
  case (Cons a "as")
  show ?case
  proof (cases "read_byte (state s) a")
    case None
    with Cons.prems show ?thesis by (simp add: gives_same)
  next
    case (Some b)
    obtain n s2 where n: "push_high s b acc = (n, s2)" by fastforce
    have "cwt (dag s) b (Bv 8)" using Cons.prems(1) Some by (auto simp: emu_ok_def dest: all_cellsD)
    with n Cons.prems have 2: "gives s (Some n, s2) (w + 8)" by (intro push_high_gives)
    have "gives s2 (concat_shadow_loop s2 as (Some n)) (w + 8 + 8 * of_nat (length as))"
      using 2 by (intro Cons.IH) (auto dest: givesD)
    moreover have "dag_le (dag s) (dag s2)" using 2 by (auto dest: givesD)
    ultimately have "gives s (concat_shadow_loop s2 as (Some n)) (w + 8 + 8 * of_nat (length as))"
      by (rule gives_trans)
    then show ?thesis using Some n by (simp add: push_high_def algebra_simps)
  qed
qed

lemma byte_count_width: "w \<in> set WIDTHS \<Longrightarrow> 8 * of_nat (unat (w div 8)) = w"
  by (elim WIDTHS_cases) simp_all

lemma read_memory_region_gives:
  assumes "emu_ok s" "w \<in> set WIDTHS"
  shows "gives s (read_memory_region s base disp w) w"
proof -
  have "gives s (concat_input_bytes s a (w div 8)) w" for a
    using concat_input_loop_gives [OF assms(1), of None 0 "map (\<lambda>i. a + of_nat i) [0..<unat (w div 8)]"]
      byte_count_width [OF assms(2)] by (simp add: concat_input_bytes_def)
  moreover have "gives s (concat_shadow_bytes s a (w div 8)) w" for a
    using concat_shadow_loop_gives [OF assms(1), of None 0 "map (\<lambda>i. a + of_nat i) [0..<unat (w div 8)]"]
      byte_count_width [OF assms(2)] by (simp add: concat_shadow_bytes_def)
  ultimately show ?thesis
    using assms(1) by (simp add: read_memory_region_def Let_def gives_same)
qed

section \<open>Operands\<close>

text \<open>
  What an x86 encoding guarantees of a source operand read at width \<open>w\<close>: \<open>ah\<close> is read as one
  byte, and a memory operand is at least as wide as the read.
\<close>

fun readable :: "Operand \<Rightarrow> u32 \<Rightarrow> bool" where
  "readable (Reg name _) w \<longleftrightarrow> (name = ''ah'' \<longrightarrow> w = 8)"
| "readable (Imm _) w \<longleftrightarrow> True"
| "readable (Mem _ _ mw) w \<longleftrightarrow> w \<le> mw"

lemma imm_mask_WIDTHS: "w \<in> set WIDTHS \<Longrightarrow> imm_mask (unat w) = mask (unat w)"
  by (elim WIDTHS_cases) (simp_all add: imm_mask_def max_def word_le_nat_alt mask_eq_exp_minus_1 push_bit_eq_mult)

lemma min_127: "w \<in> set WIDTHS \<Longrightarrow> min w 127 = w"
  by (elim WIDTHS_cases) (simp_all add: min_def word_le_nat_alt)

lemma imm_mask_64: "imm_mask 64 = push_bit 64 1 - 1"
  by (simp add: imm_mask_def max_def word_le_nat_alt push_bit_eq_mult)

lemma const_fits_WIDTHS:
  assumes "w \<in> set WIDTHS" "unat v < 2 ^ unat w"
  shows "const_fits v w"
  using assms by (elim WIDTHS_cases) (simp_all add: const_fits_def)

lemma const_fits_masked:
  assumes "w \<in> set WIDTHS"
  shows "const_fits (and x (imm_mask (unat w))) w"
proof (rule const_fits_WIDTHS [OF assms])
  have "and x (imm_mask (unat w)) = take_bit (unat w) x"
    by (simp add: imm_mask_WIDTHS assms take_bit_eq_mask)
  then show "unat (and x (imm_mask (unat w))) < 2 ^ unat w"
    by (simp add: unsigned_take_bit_eq)
qed

lemma unat_mod_128: "w \<in> set WIDTHS \<Longrightarrow> unat w mod 128 = unat w"
  by (elim WIDTHS_cases) simp_all

lemma register_ah: "register_width ''ah'' = Some 8"
  by code_simp

lemma read_operand_gives:
  assumes "emu_ok s" "w \<in> set WIDTHS" "readable op w"
  shows "gives s (read_operand s op w) w"
proof (cases op)
  case (Imm v)
  then show ?thesis
    using min_127 [OF assms(2)]
    using emu_intern_gives [OF assms(1) typed_const [OF const_fits_masked [OF assms(2)]]]
    by (simp add: read_operand_def)
next
  case (Reg name rw)
  show ?thesis
  proof (cases "Option.bind (canonical_reg name) (read_reg (state s))")
    case None
    with Reg assms(1) show ?thesis by (simp add: read_operand_def gives_same)
  next
    case (Some n)
    then have "cwt (dag s) n (Bv 64)"
      using assms(1) by (auto simp: emu_ok_def bind_eq_Some_conv dest: all_cellsD)
    then have "gives s (let (i, s) = narrow_to s n rw w (name = ''ah'') in (Some i, s)) w"
      using assms Reg WIDTHS_le by (intro narrow_to_gives) auto
    with Reg Some show ?thesis by (simp add: read_operand_def)
  qed
next
  case (Mem base disp mw)
  then have m: "min mw w = w" using assms(3) by simp
  obtain r s1 where r: "read_memory_region s base disp w = (r, s1)" by fastforce
  have 1: "gives s (r, s1) w" using read_memory_region_gives [OF assms(1,2), of base disp] r by simp
  show ?thesis
  proof (cases "r")
    case None
    with 1 Mem r m show ?thesis by (simp add: read_operand_def)
  next
    case (Some n)
    have "gives s1 (let (i, s) = narrow_to s1 n w w False in (Some i, s)) w"
      using 1 Some assms(2) WIDTHS_le by (intro narrow_to_gives) (auto dest: givesD)
    then have "gives s (let (i, s) = narrow_to s1 n w w False in (Some i, s)) w"
      using 1 by (auto dest: givesD intro: gives_trans)
    with Mem Some r m show ?thesis by (simp add: read_operand_def)
  qed
qed

lemma read_own_gives:
  assumes "emu_ok s" "register_width name = Some w" "read_operand s (Reg name w) w = (l, s1)"
  shows "gives s (l, s1) w"
proof -
  have "readable (Reg name w) w" using assms(2) register_ah by auto
  then show ?thesis
    using read_operand_gives [OF assms(1) register_width_WIDTHS [OF assms(2)]] assms(3) by fastforce
qed

section \<open>Memory writes\<close>

lemma byte_bounds:
  assumes "w \<in> set WIDTHS" "i < unat (w div 8)"
  shows "(of_nat i * 8 :: u32) \<le> of_nat i * 8 + 7" "of_nat i * 8 + 7 < w"
proof -
  have "i < 8" using assms by (elim WIDTHS_cases) simp_all
  then have u: "unat (of_nat i * 8 :: u32) = i * 8" "unat (of_nat i * 8 + 7 :: u32) = i * 8 + 7"
    using unat_of_nat_less [where 'a = 32, of "i * 8"] unat_of_nat_less [where 'a = 32, of "i * 8 + 7"]
    by simp_all
  then show "(of_nat i * 8 :: u32) \<le> of_nat i * 8 + 7" by (simp add: word_le_nat_alt)
  show "of_nat i * 8 + 7 < w"
    using assms u by (elim WIDTHS_cases) (simp_all add: word_less_nat_alt)
qed

lemma emu_ok_write_byte:
  "emu_ok s \<Longrightarrow> opt_typed s b 8 \<Longrightarrow> emu_ok (s\<lparr>state := write_byte (state s) a b\<rparr>)"
  by (auto simp: emu_ok_def opt_typed_def intro!: sbyte_cells.wr_all)

lemma write_bytes_loop_ok:
  assumes "emu_ok s" "opt_typed s v w" "w \<in> set WIDTHS" "\<forall>i\<in>set is. i < unat (w div 8)"
  shows "emu_ok (write_bytes_loop s addr v is) \<and> dag_le (dag s) (dag (write_bytes_loop s addr v is))"
  using assms
proof (induction "is" arbitrary: s)
  case (Cons i "is")
  let ?p = "case v of None \<Rightarrow> (None, s) | Some n \<Rightarrow>
    let (b, s) = emu_intern s (Extract (of_nat i * 8 + 7) (of_nat i * 8) n) in (Some b, s)"
  have "gives s ?p 8"
  proof (cases v)
    case (Some n)
    have "typed_expr (dag s) (Extract (of_nat i * 8 + 7) (of_nat i * 8) n) (Bv 8)"
      using Cons.prems Some byte_bounds [OF Cons.prems(3), of i] by (intro typed_extract) simp_all
    then show ?thesis using emu_intern_gives [OF Cons.prems(1)] Some by simp
  qed (simp add: Cons.prems gives_same)
  moreover obtain b s1 where p: "?p = (b, s1)" by (cases "?p")
  ultimately have g: "gives s (b, s1) 8" by simp
  let ?s = "s1\<lparr>state := write_byte (state s1) (addr + of_nat i) b\<rparr>"
  have "emu_ok ?s" using g by (auto dest!: givesD intro: emu_ok_write_byte)
  moreover have "opt_typed ?s v w"
    using Cons.prems(2) opt_typed_mono [of s v w ?s] givesD [OF g] by simp
  ultimately have "emu_ok (write_bytes_loop ?s addr v is) \<and>
      dag_le (dag ?s) (dag (write_bytes_loop ?s addr v is))"
    using Cons.prems by (intro Cons.IH) simp_all
  moreover have "write_bytes_loop s addr v (i # is) = write_bytes_loop ?s addr v is"
    using p by (simp add: Let_def split: option.splits)
  ultimately show ?case using givesD [OF g] by (auto intro: dag_le_trans)
qed simp

lemma write_memory_region_ok:
  assumes "emu_ok s" "opt_typed s v w" "w \<in> set WIDTHS"
  shows "emu_ok (write_memory_region s base disp w v)"
    "dag_le (dag s) (dag (write_memory_region s base disp w v))"
  using assms write_bytes_loop_ok [OF assms, of "[0..<unat (w div 8)]"]
  by (simp_all add: write_memory_region_def Let_def)

section \<open>Instruction handlers preserve the invariant\<close>

definition steps_ok :: "ShadowEmulator \<Rightarrow> ShadowEmulator \<Rightarrow> bool" where
  "steps_ok s s' \<longleftrightarrow> emu_ok s' \<and> dag_le (dag s) (dag s')"

lemma steps_ok_refl: "emu_ok s \<Longrightarrow> steps_ok s s"
  by (simp add: steps_ok_def)

text \<open>The common end of the register handlers: widen the result and store it.\<close>

lemma widen_store_ok:
  assumes "gives s (r, s1) w" "w \<in> set WIDTHS" "widen_to_64 s1 r w = (r', s2)"
  shows "steps_ok s (write_reg64 s2 name r')"
proof -
  have "gives s1 (r', s2) 64"
    using assms widen_to_64_gives [of s1 r w] WIDTHS_le by (auto dest: givesD)
  with assms(1) show ?thesis
    by (auto dest!: givesD simp: steps_ok_def intro: write_reg64_ok dag_le_trans)
qed

definition encodable_mov :: "Operand list \<Rightarrow> bool" where
  "encodable_mov ops =
     (case ops of [dst, src] \<Rightarrow> (case operand_width dst of None \<Rightarrow> True | Some w \<Rightarrow> readable src w) | _ \<Rightarrow> True)"

lemma step_mov_ok:
  assumes "emu_ok s" "list_all operand_ok ops" "encodable_mov ops"
  shows "steps_ok s (step_mov s ops)"
proof (cases "\<exists>dst src. ops = [dst, src]")
  case True
  then obtain dst src where ops: "ops = [dst, src]" by auto
  show ?thesis
  proof (cases dst)
    case (Reg name w)
    then have w: "w \<in> set WIDTHS" using assms(2) ops operand_ok_width [of dst] by simp
    obtain r s1 where r: "read_operand s src w = (r, s1)" by fastforce
    obtain r' s2 where r': "widen_to_64 s1 r w = (r', s2)" by fastforce
    have "gives s (r, s1) w"
      using read_operand_gives [OF assms(1) w, of src] assms(3) ops Reg r by (simp add: encodable_mov_def)
    from widen_store_ok [OF this w r'] show ?thesis
      using ops Reg r r' by (simp add: step_mov_def)
  next
    case (Mem base disp w)
    then have w: "w \<in> set WIDTHS" using assms(2) ops operand_ok_width [of dst] by simp
    obtain r s1 where r: "read_operand s src w = (r, s1)" by fastforce
    have "gives s (r, s1) w"
      using read_operand_gives [OF assms(1) w, of src] assms(3) ops Mem r by (simp add: encodable_mov_def)
    then show ?thesis
      using ops Mem r write_memory_region_ok [of s1 r w base disp] w
      by (auto dest!: givesD simp: step_mov_def steps_ok_def intro: dag_le_trans)
  qed (simp add: ops step_mov_def steps_ok_refl assms)
qed (auto simp: step_mov_def steps_ok_refl assms split: list.split)

definition encodable_movx :: "Operand list \<Rightarrow> bool" where
  "encodable_movx ops =
     (case ops of
        [dst, src] \<Rightarrow>
          (case (operand_width dst, operand_width src) of (Some dw, Some sw) \<Rightarrow> sw \<le> dw | _ \<Rightarrow> True)
      | _ \<Rightarrow> True)"

lemma readable_own_width:
  assumes "operand_ok op" "operand_width op = Some w"
  shows "readable op w"
  using assms register_ah by (cases op) auto

lemma step_movzx_or_sx_ok:
  assumes "emu_ok s" "list_all operand_ok ops" "encodable_movx ops"
  shows "steps_ok s (step_movzx_or_sx s ops sg)"
proof (cases "\<exists>name dw src. ops = [Reg name dw, src]")
  case True
  then obtain name dw src where ops: "ops = [Reg name dw, src]" by auto
  define sw where "sw = (case operand_width src of Some w \<Rightarrow> w | None \<Rightarrow> 8)"
  define x where "x = (if sw \<le> dw then dw - sw else 0)"
  have dw: "dw \<in> set WIDTHS" using assms(2) ops register_width_WIDTHS by auto
  have sw: "sw \<in> set WIDTHS"
    using assms(2) ops operand_ok_width [of src] by (auto simp: sw_def WIDTHS_def split: option.splits)
  have le: "sw \<le> dw"
    using assms(3) ops WIDTHS_le [OF dw] by (auto simp: encodable_movx_def sw_def split: option.splits)
  have rd: "readable src sw"
    using assms(2) ops readable_own_width [of src] by (cases src) (auto simp: sw_def)
  obtain r s1 where r: "read_operand s src sw = (r, s1)" by fastforce
  have 1: "gives s (r, s1) sw" using read_operand_gives [OF assms(1) sw rd] r by simp
  let ?p = "case r of Some n \<Rightarrow>
      if x > 0 then let (i, s) = emu_intern s1 (if sg then SignExt x n else ZeroExt x n) in (Some i, s)
      else (r, s1)
    | None \<Rightarrow> (None, s1)"
  have x: "sw + x = dw" using le by (simp add: x_def)
  have "gives s1 ?p dw"
  proof (cases r)
    case (Some n)
    then have "typed_expr (dag s1) (if sg then SignExt x n else ZeroExt x n) (Bv dw)"
      using givesD [OF 1] typed_ext [of _ x n "dag s1" sw] x by simp
    then have "gives s1 (let (i, s) = emu_intern s1 (if sg then SignExt x n else ZeroExt x n)
        in (Some i, s)) dw"
      using givesD [OF 1] by (intro emu_intern_gives) simp_all
    moreover have "x = 0 \<Longrightarrow> gives s1 (r, s1) dw" using givesD [OF 1] x by (simp add: gives_same)
    ultimately show ?thesis using Some by (simp add: word_gt_0)
  qed (use 1 in \<open>auto dest: givesD intro: gives_same\<close>)
  moreover obtain e s2 where p: "?p = (e, s2)" by (cases "?p")
  ultimately have 2: "gives s1 (e, s2) dw" by simp
  obtain r' s3 where r': "widen_to_64 s2 e dw = (r', s3)" by fastforce
  have "gives s (e, s2) dw" using 1 2 by (rule gives_chain)
  from widen_store_ok [OF this dw r'] show ?thesis
    using ops r p r' by (simp add: step_movzx_or_sx_def sw_def [symmetric] x_def [symmetric])
qed (auto simp: step_movzx_or_sx_def steps_ok_refl assms split: list.split Operand.split)

lemma binop_args [simp]: "bv_binop_args (binop_to_expr op l r) = Some (l, r)"
  by (cases op) simp_all

lemma shift_args [simp]: "bv_binop_args (shift_to_expr sh l r) = Some (l, r)"
  by (cases sh) simp_all

definition encodable_binop :: "Operand list \<Rightarrow> bool" where
  "encodable_binop ops =
     (case ops of
        [Reg _ w, src] \<Rightarrow>
          readable src w \<and> (case src of Imm v \<Rightarrow> uint v < 2 ^ unat w | _ \<Rightarrow> True)
      | _ \<Rightarrow> True)"

lemma unat_ucast_u128 [simp]: "unat (ucast (v :: u64) :: u128) = unat v"
  by (simp add: unsigned_ucast_eq take_bit_nat_eq_self_iff)
    (rule less_trans [OF unsigned_less], simp)

lemma uint_less_unat:
  assumes "uint v < 2 ^ n"
  shows "unat v < 2 ^ n"
proof -
  have "int (unat v) = uint v" by simp
  then have "int (unat v) < int (2 ^ n)" using assms by simp
  then show ?thesis by (rule of_nat_less_imp_less)
qed

lemma step_binop_ok:
  assumes "emu_ok s" "list_all operand_ok ops" "encodable_binop ops"
  shows "steps_ok s (step_binop s ops op)"
proof (cases "\<exists>name w src. ops = [Reg name w, src]")
  case True
  then obtain name w src where ops: "ops = [Reg name w, src]" by auto
  have w: "w \<in> set WIDTHS" using assms(2) ops register_width_WIDTHS by auto
  obtain l s1 where l: "read_operand s (Reg name w) w = (l, s1)" by fastforce
  obtain r s2 where r: "read_operand s1 src w = (r, s2)" by fastforce
  have 1: "gives s (l, s1) w"
    using read_own_gives [OF assms(1) _ l] assms(2) ops by simp
  then have 2: "gives s1 (r, s2) w"
    using read_operand_gives [of s1 w src] w assms(3) ops r
    by (auto dest!: givesD simp: encodable_binop_def)
  have l2: "opt_typed s2 l w" using 1 2 by (auto dest!: givesD intro: opt_typed_mono)
  let ?one = "\<lambda>l s. case src of
      Imm v \<Rightarrow> let (cv, s) = emu_intern s (BvConst (ucast v) w);
                   (i, s) = emu_intern s (binop_to_expr op l cv) in (Some i, s)
    | _ \<Rightarrow> (None, s)"
  have one: "gives s2 (?one n s2) w" if n: "cwt (dag s2) n (Bv w)" for n
  proof (cases src)
    case (Imm v)
    then have "const_fits (ucast v) w"
      using assms(3) ops w uint_less_unat [of v "unat w"]
      by (intro const_fits_WIDTHS) (simp_all add: encodable_binop_def)
    then have c: "gives s2 (Some c, s3) w" if "emu_intern s2 (BvConst (ucast v) w) = (c, s3)" for c s3
      using 2 that by (auto dest!: givesD intro: emu_intern_gives' typed_const)
    obtain c s3 where c3: "emu_intern s2 (BvConst (ucast v) w) = (c, s3)" by fastforce
    have "typed_expr (dag s3) (binop_to_expr op n c) (Bv w)"
      using c [OF c3] n by (auto dest!: givesD intro: typed_binop cwt_mono)
    then have "gives s3 (let (i, s) = emu_intern s3 (binop_to_expr op n c) in (Some i, s)) w"
      using givesD [OF c [OF c3]] by (intro emu_intern_gives) simp_all
    from gives_chain [OF c [OF c3] this] show ?thesis using c3 Imm by simp
  qed (use 2 in \<open>auto dest!: givesD intro: gives_same\<close>)
  let ?p = "case (l, r) of
      (Some l, Some r) \<Rightarrow> let (i, s) = emu_intern s2 (binop_to_expr op l r) in (Some i, s)
    | (Some l, None) \<Rightarrow> ?one l s2 | (None, Some l) \<Rightarrow> ?one l s2 | (None, None) \<Rightarrow> (None, s2)"
  have "gives s2 ?p w"
    using l2 givesD [OF 2] one
    by (cases l; cases r) (auto simp: gives_same intro!: emu_intern_gives_case typed_binop)
  moreover obtain e s3 where p: "?p = (e, s3)" by (cases "?p")
  ultimately have 3: "gives s2 (e, s3) w" by simp
  obtain r' s4 where r': "widen_to_64 s3 e w = (r', s4)" by fastforce
  have "gives s (e, s3) w" by (rule gives_chain [OF gives_chain [OF 1 2] 3])
  from widen_store_ok [OF this w r'] show ?thesis
    using ops l r p r' by (simp add: step_binop_def Let_def)
qed (auto simp: step_binop_def steps_ok_refl assms split: list.split Operand.split)

definition encodable_shift :: "Operand list \<Rightarrow> bool" where
  "encodable_shift ops =
     (case ops of [Reg _ w, Reg name rw] \<Rightarrow> readable (Reg name rw) w | _ \<Rightarrow> True)"

lemma step_shift_ok:
  assumes "emu_ok s" "list_all operand_ok ops" "encodable_shift ops"
  shows "steps_ok s (step_shift s ops sh)"
proof (cases "\<exists>name w src. ops = [Reg name w, src]")
  case True
  then obtain name w src where ops: "ops = [Reg name w, src]" by auto
  have w: "w \<in> set WIDTHS" using assms(2) ops register_width_WIDTHS by auto
  obtain l s1 where l: "read_operand s (Reg name w) w = (l, s1)" by fastforce
  have 1: "gives s (l, s1) w"
    using read_own_gives [OF assms(1) _ l] assms(2) ops by simp
  let ?a = "case src of
      Imm v \<Rightarrow> let (i, s) = emu_intern s1 (BvConst (and (ucast v) (imm_mask (unat w mod 128))) w) in (Some i, s)
    | Reg _ _ \<Rightarrow> read_operand s1 src w
    | Mem _ _ _ \<Rightarrow> (None, s1)"
  have "gives s1 ?a w"
  proof (cases src)
    case (Imm v)
    have "typed_expr (dag s1) (BvConst (and (ucast v) (imm_mask (unat w mod 128))) w) (Bv w)"
      using const_fits_masked [OF w] unat_mod_128 [OF w] by (intro typed_const) simp
    from emu_intern_gives [OF _ this] givesD [OF 1] Imm show ?thesis by simp
  next
    case (Reg rn rw)
    then show ?thesis
      using assms(3) ops w givesD [OF 1] read_operand_gives [of s1 w src]
      by (simp add: encodable_shift_def)
  qed (use givesD [OF 1] in \<open>simp add: gives_same\<close>)
  moreover obtain a s2 where a: "?a = (a, s2)" by (cases "?a")
  ultimately have 2: "gives s1 (a, s2) w" by simp
  have l2: "opt_typed s2 l w" using 1 2 by (auto dest!: givesD intro: opt_typed_mono)
  let ?p = "case (l, a) of
      (Some l, Some a) \<Rightarrow> let (i, s) = emu_intern s2 (shift_to_expr sh l a) in (Some i, s)
    | _ \<Rightarrow> (None, s2)"
  have "gives s2 ?p w"
    using l2 givesD [OF 2]
    by (cases l; cases a) (auto simp: gives_same intro!: emu_intern_gives_case typed_binop)
  moreover obtain e s3 where p: "?p = (e, s3)" by (cases "?p")
  ultimately have 3: "gives s2 (e, s3) w" by simp
  obtain r' s4 where r': "widen_to_64 s3 e w = (r', s4)" by fastforce
  have "gives s (e, s3) w" by (rule gives_chain [OF gives_chain [OF 1 2] 3])
  from widen_store_ok [OF this w r'] show ?thesis
    using ops l a p r' by (simp add: step_shift_def Let_def)
qed (auto simp: step_shift_def steps_ok_refl assms split: list.split Operand.split)

lemma cmp_width_ok:
  assumes "operand_ok a" "operand_ok b"
  shows "cmp_operand_width a b \<in> set WIDTHS"
    "readable a (cmp_operand_width a b)" "readable b (cmp_operand_width a b)"
proof -
  have w: "operand_width a = Some x \<Longrightarrow> x \<in> set WIDTHS"
    "operand_width b = Some x \<Longrightarrow> x \<in> set WIDTHS" for x
    using assms operand_ok_width by blast+
  show "cmp_operand_width a b \<in> set WIDTHS"
    using w by (cases "operand_width a"; cases "operand_width b")
      (auto simp: cmp_operand_width_def WIDTHS_def max_def min_def)
  have m: "max (min x y) 8 \<le> x \<and> max (min x y) 8 \<le> y" if "x \<in> set WIDTHS" "y \<in> set WIDTHS" for x y
    using WIDTHS_le that by (simp add: max_def min_def) (metis linear)
  have ah: "operand_ok (Reg ''ah'' rw) \<Longrightarrow> rw = 8" for rw using register_ah by simp
  have m8: "x \<in> set WIDTHS \<Longrightarrow> max (min x 8) 8 = 8 \<and> max (min 8 x) 8 = 8" for x
    using WIDTHS_le by (simp add: max_def min_def)
  show "readable a (cmp_operand_width a b)"
    using assms w m ah m8 by (cases a; cases "operand_width b")
      (auto simp: cmp_operand_width_def)
  show "readable b (cmp_operand_width a b)"
    using assms w m ah m8 by (cases b; cases "operand_width a")
      (auto simp: cmp_operand_width_def)
qed

lemma node_or_literal_gives:
  assumes "emu_ok s" "opt_typed s r w" "w \<in> set WIDTHS" "r = None \<Longrightarrow> is_place a"
    and "node_or_literal s r a w = (n, s')"
  shows "gives s (Some n, s') w"
proof (cases r)
  case None
  then have "literal_value a = None" using assms(4) by (cases a) (auto simp: is_place_def)
  moreover have "typed_expr (dag s) (BvConst 0 w) (Bv w)"
    using assms(3) by (intro typed_const const_fits_WIDTHS) simp_all
  ultimately show ?thesis
    using emu_intern_gives' [OF assms(1)] assms(5) None by (simp add: node_or_literal_def)
qed (use assms in \<open>auto simp: node_or_literal_def gives_same\<close>)

lemma read_imm_Some: "\<not> is_place a \<Longrightarrow> fst (read_operand s a w) \<noteq> None"
  by (cases a) (simp_all add: is_place_def read_operand_def Let_def case_prod_beta)

definition set_cmp :: "ShadowEmulator \<Rightarrow> NodeId \<Rightarrow> NodeId \<Rightarrow> u32 \<Rightarrow> bool \<Rightarrow> ShadowEmulator" where
  "set_cmp s l r w t = s\<lparr>last_cmp := Some \<lparr>lhs = l, rhs = r, cmp_width = w, is_test = t\<rparr>\<rparr>"

lemma set_cmp_ok:
  "emu_ok s \<Longrightarrow> cwt (dag s) l (Bv w) \<Longrightarrow> cwt (dag s) r (Bv w) \<Longrightarrow> emu_ok (set_cmp s l r w t)"
  "dag (set_cmp s l r w t) = dag s"
  by (auto simp: emu_ok_def set_cmp_def)

text \<open>The second half of \<open>step_cmp\<close>, for operands that are already nodes.\<close>

lemma cmp_finish_ok:
  assumes "emu_ok s" "cwt (dag s) l (Bv w)" "cwt (dag s) r (Bv w)" "w \<in> set WIDTHS"
  shows "steps_ok s (let (l, r, s) =
      (if t then let (anded, s) = emu_intern s (BvAnd l r); (zero, s) = emu_intern s (BvConst 0 w)
                 in (anded, zero, s)
       else (l, r, s)) in set_cmp s l r w t)"
proof (cases t)
  case True
  obtain a s1 where a: "emu_intern s (BvAnd l r) = (a, s1)" by fastforce
  obtain z s2 where z: "emu_intern s1 (BvConst 0 w) = (z, s2)" by fastforce
  have "typed_expr (dag s) (BvAnd l r) (Bv w)" 
    using assms by (intro typed_binop [of "BvAnd l r" l r]) simp_all
  then have 1: "gives s (Some a, s1) w" using emu_intern_gives' [OF assms(1) _ a] by simp
  have "typed_expr (dag s1) (BvConst 0 w) (Bv w)"
    using assms(4) by (intro typed_const const_fits_WIDTHS) simp_all
  with 1 have 2: "gives s1 (Some z, s2) w" using emu_intern_gives' [OF _ _ z] by (auto dest: givesD)
  have "cwt (dag s2) a (Bv w)" using 1 2 by (auto dest!: givesD intro: cwt_mono)
  with 1 2 have "emu_ok (set_cmp s2 a z w t) \<and> dag_le (dag s) (dag (set_cmp s2 a z w t))"
    by (auto dest!: givesD simp: set_cmp_ok intro: set_cmp_ok(1) dag_le_trans)
  with True a z show ?thesis by (simp add: steps_ok_def)
next
  case False
  with set_cmp_ok(1) [OF assms(1-3)] set_cmp_ok(2) show ?thesis by (simp add: steps_ok_def)
qed

lemma step_cmp_ok:
  assumes "emu_ok s" "list_all operand_ok ops"
  shows "steps_ok s (step_cmp s ops t)"
proof (cases "\<exists>a b. ops = [a, b]")
  case True
  then obtain a b where ops: "ops = [a, b]" by auto
  define w where "w = cmp_operand_width a b"
  have w: "w \<in> set WIDTHS" "readable a w" "readable b w"
    using cmp_width_ok [of a b] assms(2) ops by (simp_all add: w_def)
  obtain l s1 where l: "read_operand s a w = (l, s1)" by fastforce
  obtain r s2 where r: "read_operand s1 b w = (r, s2)" by fastforce
  have 1: "gives s (l, s1) w" using read_operand_gives [OF assms(1) w(1,2)] l by simp
  then have 2: "gives s1 (r, s2) w"
    using read_operand_gives [OF _ w(1,3), of s1] r by (simp add: givesD)
  have le: "dag_le (dag s) (dag s2)" using 1 2 by (auto dest!: givesD intro: dag_le_trans)
  show ?thesis
  proof (cases "is_place a \<and> l \<noteq> None \<or> is_place b \<and> r \<noteq> None")
    case False
    have "emu_ok (s2\<lparr>last_cmp := None\<rparr>)" using 2 by (auto dest!: givesD simp: emu_ok_def)
    with False le show ?thesis
      using ops l r by (simp add: step_cmp_def w_def steps_ok_def Let_def)
  next
    case sym: True
    obtain l' s3 where l': "node_or_literal s2 l a w = (l', s3)" by fastforce
    obtain r' s4 where r': "node_or_literal s3 r b w = (r', s4)" by fastforce
    have "l = None \<Longrightarrow> is_place a" "r = None \<Longrightarrow> is_place b"
      using read_imm_Some [of a s w] read_imm_Some [of b s1 w] l r by auto
    moreover have "opt_typed s2 l w" using 1 2 by (auto dest!: givesD intro: opt_typed_mono)
    ultimately have 3: "gives s2 (Some l', s3) w"
      using l' 2 w(1) by (auto dest!: givesD intro: node_or_literal_gives)
    have "opt_typed s3 r w" using 2 3 by (auto dest!: givesD intro: opt_typed_mono)
    then have 4: "gives s3 (Some r', s4) w"
      using r' 3 w(1) \<open>r = None \<Longrightarrow> is_place b\<close> by (auto dest!: givesD intro: node_or_literal_gives)
    have "cwt (dag s4) l' (Bv w)" using 3 4 by (auto dest!: givesD intro: cwt_mono)
    with 4 have "steps_ok s4 (let (l, r, s) =
        (if t then let (anded, s) = emu_intern s4 (BvAnd l' r'); (zero, s) = emu_intern s (BvConst 0 w)
                   in (anded, zero, s)
         else (l', r', s4)) in set_cmp s l r w t)"
      using w(1) by (intro cmp_finish_ok) (auto dest: givesD)
    moreover have "dag_le (dag s) (dag s4)"
      using le 3 4 by (auto dest!: givesD intro: dag_le_trans)
    ultimately show ?thesis
      using ops l r l' r' sym unfolding w_def
      by (auto simp: step_cmp_def Let_def set_cmp_def steps_ok_def intro: dag_le_trans)
  qed
qed (auto simp: step_cmp_def steps_ok_refl assms split: list.split)

lemma step_lea_ok:
  assumes "emu_ok s"
  shows "steps_ok s (step_lea s ops)"
proof (cases "\<exists>name w base disp mw. ops = [Reg name w, Mem base disp mw]")
  case True
  then obtain name w base disp mw where ops: "ops = [Reg name w, Mem base disp mw]" by auto
  let ?b = "case base of Some b \<Rightarrow> Option.bind (canonical_reg b) (read_reg (state s)) | None \<Rightarrow> None"
  show ?thesis
  proof (cases ?b)
    case None
    then show ?thesis
      using assms ops by (simp add: step_lea_def steps_ok_def write_reg64_ok)
  next
    case (Some n)
    then have n: "cwt (dag s) n (Bv 64)"
      using assms by (auto simp: emu_ok_def bind_eq_Some_conv split: option.splits dest: all_cellsD)
    let ?c = "BvConst (and (scast disp) (push_bit 64 1 - 1)) 64"
    obtain c s1 where c: "emu_intern s ?c = (c, s1)" by fastforce
    obtain i s2 where i: "emu_intern s1 (BvAdd n c) = (i, s2)" by fastforce
    have "typed_expr (dag s) ?c (Bv 64)"
      using const_fits_masked [of 64 "scast disp"] imm_mask_64
      by (intro typed_const) (simp add: WIDTHS_def)
    then have 1: "gives s (Some c, s1) 64" using emu_intern_gives' [OF assms _ c] by simp
    then have "typed_expr (dag s1) (BvAdd n c) (Bv 64)"
      using n by (auto dest!: givesD intro: typed_binop cwt_mono)
    then have 2: "gives s1 (Some i, s2) 64" using 1 emu_intern_gives' [OF _ _ i] by (auto dest: givesD)
    show ?thesis
      using ops Some c i 1 2
      by (auto dest!: givesD simp: step_lea_def steps_ok_def intro!: write_reg64_ok intro: dag_le_trans)
  qed
qed (auto simp: step_lea_def steps_ok_refl assms split: list.split Operand.split)

lemma step_unsupported_ok: "emu_ok s \<Longrightarrow> steps_ok s (step_unsupported s ops)"
  by (auto simp: step_unsupported_def steps_ok_def emu_ok_def sreg_cells.wr_None_all
      split: list.split Operand.split option.split)

section \<open>Branch events\<close>

lemma intern_bool:
  "cwf d \<Longrightarrow> typed_expr d e Bool \<Longrightarrow> intern d e = (i, d') \<Longrightarrow>
     cwf d' \<and> dag_le d d' \<and> cwt d' i Bool"
  using intern_typed [of d e Bool] intern_le [of d e] by auto

lemma intern_not_bool:
  assumes "cwf d" "typed_expr d e Bool" "intern_not d e = (i, d')"
  shows "cwf d' \<and> dag_le d d' \<and> cwt d' i Bool"
proof -
  obtain j d1 where j: "intern d e = (j, d1)" by fastforce
  then have 1: "cwf d1 \<and> dag_le d d1 \<and> cwt d1 j Bool" using assms intern_bool by blast
  then have "cwf d' \<and> dag_le d1 d' \<and> cwt d' i Bool"
    using assms(3) j intern_bool [of d1 "ENot j" i d'] by (simp add: intern_not_def typed_not)
  with 1 show ?thesis using dag_le_trans by blast
qed

lemma build_predicate_ok:
  assumes "cwf d" "cwt d l (Bv w)" "cwt d r (Bv w)" "build_predicate d rel l r = (i, d')"
  shows "cwf d' \<and> dag_le d d' \<and> cwt d' i Bool"
proof -
  have c: "typed_expr d (Ult l r) Bool" "typed_expr d (Ule l r) Bool"
    "typed_expr d (Slt l r) Bool" "typed_expr d (Sle l r) Bool"
    by (rule typed_cmp [OF _ assms(2,3)], simp)+
  have e: "typed_expr d (EEq l r) Bool" using assms(2,3) by (rule typed_eq)
  show ?thesis
    using assms(4) c e intern_bool [OF assms(1)] intern_not_bool [OF assms(1)] by (cases rel) auto
qed

lemma emit_branch_event_ok:
  assumes "emu_ok s" "emit_branch_event s va m rel = (ev, s')"
  shows "steps_ok s s' \<and> (\<forall>e. ev = Some e \<longrightarrow> cwt (dag s') (predicate e) Bool)"
proof (cases "last_cmp s")
  case None
  with assms show ?thesis by (auto simp: emit_branch_event_def steps_ok_def)
next
  case (Some c)
  obtain i d' where p: "build_predicate (dag s) rel (lhs c) (rhs c) = (i, d')" by fastforce
  then have "cwf d' \<and> dag_le (dag s) d' \<and> cwt d' i Bool"
    using assms(1) Some build_predicate_ok [of "dag s" "lhs c" "cmp_width c" "rhs c"]
    by (auto simp: emu_ok_def)
  with assms Some p emu_ok_dag [of s d'] show ?thesis
    by (auto simp: emit_branch_event_def steps_ok_def)
qed

text \<open>The operand shapes that x86 encodings of the supported instructions have.\<close>

definition encodable :: "string \<Rightarrow> Operand list \<Rightarrow> bool" where
  "encodable m ops \<longleftrightarrow>
     (if m = ''mov'' then encodable_mov ops
      else if m \<in> set [''movzx'', ''movsx''] then encodable_movx ops
      else if m \<in> set [''add'', ''sub'', ''imul'', ''and'', ''or'', ''xor''] then encodable_binop ops
      else if m \<in> set [''shl'', ''sal'', ''shr'', ''sar''] then encodable_shift ops
      else True)"

definition instr_ok :: "InstructionRecord \<Rightarrow> bool" where
  "instr_ok ir \<longleftrightarrow> encodable (to_ascii_lowercase (ins_mnemonic ir)) (parse_operands (op_str ir))"

lemma step_handler_ok:
  assumes "emu_ok s" "list_all operand_ok ops" "encodable m ops"
  shows "steps_ok s (step_handler s m ops)"
  using assms(3) unfolding step_handler_def encodable_def
  by (simp add: step_mov_ok step_movzx_or_sx_ok step_binop_ok step_shift_ok step_cmp_ok
      step_lea_ok step_unsupported_ok assms(1,2))

lemma step_instruction_ok:
  assumes "emu_ok s" "instr_ok ir" "step_instruction s ir = (ev, s')"
  shows "steps_ok s s' \<and> (\<forall>e. ev = Some e \<longrightarrow> cwt (dag s') (predicate e) Bool)"
proof (cases "relation_for_branch (to_ascii_lowercase (ins_mnemonic ir))")
  case None
  with assms show ?thesis
    using step_handler_ok [OF assms(1) parse_operands_ok]
    by (auto simp: step_instruction_def instr_ok_def)
next
  case (Some rel)
  with assms show ?thesis
    using emit_branch_event_ok [OF assms(1)] by (simp add: step_instruction_def Let_def)
qed

lemma emu_run_ok:
  assumes "emu_ok s" "\<forall>ir\<in>set irs. instr_ok ir" "emu_run s irs = (evs, s')"
  shows "steps_ok s s' \<and> (\<forall>e\<in>set evs. cwt (dag s') (predicate e) Bool)"
  using assms
proof (induction irs arbitrary: s evs)
  case (Cons ir irs)
  obtain ev s1 where 1: "step_instruction s ir = (ev, s1)" by fastforce
  obtain evs' where 2: "emu_run s1 irs = (evs', s')"
    using Cons.prems(3) 1 by (auto simp: case_prod_beta prod_eq_iff)
  have a: "steps_ok s s1 \<and> (\<forall>e. ev = Some e \<longrightarrow> cwt (dag s1) (predicate e) Bool)"
    using Cons.prems 1 by (intro step_instruction_ok) simp_all
  then have b: "steps_ok s1 s' \<and> (\<forall>e\<in>set evs'. cwt (dag s') (predicate e) Bool)"
    using Cons.prems 2 by (intro Cons.IH) (simp_all add: steps_ok_def)
  have "evs = (case ev of None \<Rightarrow> evs' | Some e \<Rightarrow> e # evs')" using Cons.prems(3) 1 2 by simp
  with a b show ?case
    by (auto simp: steps_ok_def split: option.splits intro: dag_le_trans cwt_mono)
qed (simp add: steps_ok_refl)

lemma emulator_new_ok: "wf_dag d \<Longrightarrow> emu_ok (emulator_new d base len)"
  by (simp add: emu_ok_def emulator_new_def cwf_def all_cells_def)

section \<open>Growth of the DAG\<close>

definition grow :: "nat \<Rightarrow> ShadowEmulator \<Rightarrow> ShadowEmulator \<Rightarrow> bool" where
  "grow k s s' \<longleftrightarrow>
     length (nodes (dag s')) \<le> length (nodes (dag s)) + k \<and>
     length (symbols (dag s')) \<le> length (symbols (dag s)) + k"

lemma grow_refl [simp]: "grow k s s"
  by (simp add: grow_def)

lemma grow_trans: "grow a s s1 \<Longrightarrow> grow b s1 s2 \<Longrightarrow> a + b \<le> c \<Longrightarrow> grow c s s2"
  by (auto simp: grow_def)

lemma grow_mono: "grow a s s' \<Longrightarrow> a \<le> b \<Longrightarrow> grow b s s'"
  by (auto simp: grow_def)

lemma grow_dag: "dag s' = dag s \<Longrightarrow> grow k s s'"
  by (simp add: grow_def)

lemma intern_length: "length (nodes (snd (intern d e))) \<le> length (nodes d) + 1"
  by (cases "index d e") (simp_all add: intern_def Let_def)

lemma grow_intern: "emu_intern s e = (i, s') \<Longrightarrow> grow 1 s s'"
  using intern_length [of "dag s" e] by (auto simp: grow_def emu_intern_def case_prod_beta)

lemma grow_input_byte_var: "input_byte_var s i = (b, s') \<Longrightarrow> grow 1 s s'"
proof -
  assume a: "input_byte_var s i = (b, s')"
  let ?name = "''input_b'' @ show_nat (unat i)"
  have "length (symbols (snd (intern_symbol (dag s) ?name))) \<le> length (symbols (dag s)) + 1"
    by (cases "symbol_index (dag s) ?name") (simp_all add: intern_symbol_def Let_def)
  with a show ?thesis
    using intern_length [of "snd (intern_symbol (dag s) ?name)"]
    by (auto simp: grow_def input_byte_var_def emu_intern_def case_prod_beta Let_def)
qed

lemma grow_push_high: "push_high s b acc = (n, s') \<Longrightarrow> grow 1 s s'"
  by (cases acc) (auto simp: push_high_def dest: grow_intern)

lemma grow_concat_input: "grow (2 * length is) s (snd (concat_input_loop s is acc))"
proof (induction "is" arbitrary: s acc)
  case (Cons i "is")
  obtain b s1 where b: "input_byte_var s i = (b, s1)" by fastforce
  obtain n s2 where n: "push_high s1 b acc = (n, s2)" by fastforce
  have "grow 2 s s2"
    using grow_input_byte_var [OF b] grow_push_high [OF n] by (rule grow_trans) simp
  then have "grow (2 * length (i # is)) s (snd (concat_input_loop s2 is (Some n)))"
    by (rule grow_trans [OF _ Cons.IH]) simp
  then show ?case using b n by (simp add: push_high_def)
qed simp

lemma grow_concat_shadow: "grow (length as) s (snd (concat_shadow_loop s as acc))"
proof (induction "as" arbitrary: s acc)
  case (Cons a "as")
  show ?case
  proof (cases "read_byte (state s) a")
    case (Some b)
    obtain n s2 where n: "push_high s b acc = (n, s2)" by fastforce
    have "grow (length (a # as)) s (snd (concat_shadow_loop s2 as (Some n)))"
      by (rule grow_trans [OF grow_push_high [OF n] Cons.IH]) simp
    then show ?thesis using Some n by (simp add: push_high_def)
  qed simp
qed simp

lemma byte_count_le: "(w :: u32) \<le> 64 \<Longrightarrow> unat (w div 8) \<le> 8"
  using div_le_mono [of "unat w" 64 8] by (simp add: word_le_nat_alt unat_div)

lemma grow_read_memory: "w \<le> 64 \<Longrightarrow> grow 16 s (snd (read_memory_region s base disp w))"
proof -
  assume "w \<le> 64"
  then have n: "2 * unat (w div 8) \<le> 16" "unat (w div 8) \<le> 16" using byte_count_le [of w] by simp_all
  have "grow 16 s (snd (concat_input_bytes s a (w div 8)))" for a
    unfolding concat_input_bytes_def by (rule grow_mono [OF grow_concat_input]) (use n in simp)
  moreover have "grow 16 s (snd (concat_shadow_bytes s a (w div 8)))" for a
    unfolding concat_shadow_bytes_def by (rule grow_mono [OF grow_concat_shadow]) (use n in simp)
  ultimately show ?thesis by (simp add: read_memory_region_def Let_def)
qed

lemma grow_narrow: "narrow_to s n sw w ah = (i, s') \<Longrightarrow> grow 1 s s'"
  by (auto simp: narrow_to_def split: if_splits dest: grow_intern)

lemma grow_widen: "widen_to_64 s n w = (i, s') \<Longrightarrow> grow 1 s s'"
  by (auto simp: widen_to_64_def split: option.splits if_splits prod.splits dest: grow_intern)

lemma grow_read_operand:
  assumes "w \<le> 64" "read_operand s op w = (r, s')"
  shows "grow 17 s s'"
proof (cases op)
  case (Imm v)
  with assms(2) show ?thesis
    by (auto simp: read_operand_def split: prod.splits dest!: grow_intern intro: grow_mono)
next
  case (Reg name rw)
  with assms(2) show ?thesis
    by (auto simp: read_operand_def split: prod.splits option.splits dest!: grow_narrow intro: grow_mono)
next
  case (Mem base disp mw)
  obtain n s1 where n: "read_memory_region s base disp (min mw w) = (n, s1)" by fastforce
  have 1: "grow 16 s s1"
    using grow_read_memory [of "min mw w" s base disp] assms(1) n by (simp add: min.coboundedI2)
  then show ?thesis
    using Mem assms(2) n
    by (auto simp: read_operand_def split: prod.splits option.splits dest!: grow_narrow
        intro: grow_mono grow_trans)
qed

lemma grow_write_bytes: "grow (length is) s (write_bytes_loop s addr v is)"
proof (induction "is" arbitrary: s)
  case (Cons i "is")
  let ?p = "case v of None \<Rightarrow> (None, s) | Some n \<Rightarrow>
    let lo = of_nat i * 8; hi = lo + 7; (b, s) = emu_intern s (Extract hi lo n) in (Some b, s)"
  obtain b s1 where p: "?p = (b, s1)" by (cases ?p)
  then have 1: "grow 1 s s1" by (auto simp: Let_def split: option.splits prod.splits dest: grow_intern)
  let ?s = "s1\<lparr>state := write_byte (state s1) (addr + of_nat i) b\<rparr>"
  have "grow 1 s ?s" using 1 by (simp add: grow_def)
  then have "grow (length (i # is)) s (write_bytes_loop ?s addr v is)"
    by (rule grow_trans [OF _ Cons.IH]) simp
  then show ?case using p by simp
qed simp

lemma grow_write_memory: "w \<le> 64 \<Longrightarrow> grow 8 s (write_memory_region s base disp w v)"
  using grow_mono [OF grow_write_bytes, of "[0..<unat (w div 8)]" 8] byte_count_le [of w]
  by (simp add: write_memory_region_def Let_def)

lemma grow_write_reg64: "grow k s s' \<Longrightarrow> grow k s (write_reg64 s' name r)"
  by (simp add: grow_def)

text \<open>The widths the handlers read at are at most 64 bits.\<close>

lemma op_width_le: "operand_ok op \<Longrightarrow> operand_width op = Some w \<Longrightarrow> w \<le> 64"
  using operand_ok_width WIDTHS_le by blast

lemma grow_store:
  assumes "grow a s s1" "widen_to_64 s1 r w = (r', s2)" "Suc a \<le> b"
  shows "grow b s (write_reg64 s2 name r')"
  using assms grow_trans [OF assms(1) grow_widen [OF assms(2)], of b] by (intro grow_write_reg64) simp

lemma grow_mov:
  assumes "list_all operand_ok ops"
  shows "grow 25 s (step_mov s ops)"
proof (cases "\<exists>dst src. ops = [dst, src]")
  case True
  then obtain dst src where ops: "ops = [dst, src]" by auto
  have w: "operand_width dst = Some w \<Longrightarrow> w \<le> 64" for w using assms ops op_width_le by auto
  show ?thesis
  proof (cases dst)
    case (Reg name w)
    obtain r s1 where r: "read_operand s src w = (r, s1)" by fastforce
    obtain r' s2 where r': "widen_to_64 s1 r w = (r', s2)" by fastforce
    have "grow 17 s s1" using grow_read_operand [OF _ r] w Reg by simp
    then have "grow 25 s (write_reg64 s2 name r')" using r' by (rule grow_store) simp
    with ops Reg r r' show ?thesis by (simp add: step_mov_def)
  next
    case (Mem base disp w')
    obtain r s1 where r: "read_operand s src w' = (r, s1)" by fastforce
    have "grow 17 s s1" using grow_read_operand [OF _ r] w Mem by simp
    then have "grow 25 s (write_memory_region s1 base disp w' r)"
      by (rule grow_trans [OF _ grow_write_memory]) (use w Mem in simp_all)
    with ops Mem r show ?thesis by (simp add: step_mov_def)
  qed (simp add: ops step_mov_def)
qed (auto simp: step_mov_def split: list.split)

lemma grow_movx:
  assumes "list_all operand_ok ops"
  shows "grow 19 s (step_movzx_or_sx s ops sg)"
proof (cases "\<exists>name dw src. ops = [Reg name dw, src]")
  case True
  then obtain name dw src where ops: "ops = [Reg name dw, src]" by auto
  define sw where "sw = (case operand_width src of Some w \<Rightarrow> w | None \<Rightarrow> 8)"
  define x where "x = (if sw \<le> dw then dw - sw else 0)"
  have sw: "sw \<le> 64" using assms ops op_width_le [of src] by (auto simp: sw_def split: option.splits)
  obtain r s1 where r: "read_operand s src sw = (r, s1)" by fastforce
  let ?p = "case r of Some n \<Rightarrow>
      if x > 0 then let (i, s) = emu_intern s1 (if sg then SignExt x n else ZeroExt x n) in (Some i, s)
      else (r, s1)
    | None \<Rightarrow> (None, s1)"
  obtain e s2 where p: "?p = (e, s2)" by (cases ?p)
  then have "grow 1 s1 s2" by (auto split: option.splits if_splits prod.splits dest: grow_intern)
  then have 2: "grow 18 s s2" by (rule grow_trans [OF grow_read_operand [OF sw r]]) simp
  obtain r' s3 where r': "widen_to_64 s2 e dw = (r', s3)" by fastforce
  have "grow 19 s (write_reg64 s3 name r')" using 2 r' by (rule grow_store) simp
  then show ?thesis
    using ops r p r' by (simp add: step_movzx_or_sx_def sw_def [symmetric] x_def [symmetric])
qed (auto simp: step_movzx_or_sx_def split: list.split Operand.split)

lemma grow_binop:
  assumes "list_all operand_ok ops"
  shows "grow 37 s (step_binop s ops op)"
proof (cases "\<exists>name w src. ops = [Reg name w, src]")
  case True
  then obtain name w src where ops: "ops = [Reg name w, src]" by auto
  have w: "w \<le> 64" using assms ops op_width_le [of "Reg name w"] by simp
  obtain l s1 where l: "read_operand s (Reg name w) w = (l, s1)" by fastforce
  obtain r s2 where r: "read_operand s1 src w = (r, s2)" by fastforce
  let ?one = "\<lambda>l s. case src of
      Imm v \<Rightarrow> let (cv, s) = emu_intern s (BvConst (ucast v) w);
                   (i, s) = emu_intern s (binop_to_expr op l cv) in (Some i, s)
    | _ \<Rightarrow> (None, s)"
  let ?p = "case (l, r) of
      (Some l, Some r) \<Rightarrow> let (i, s) = emu_intern s2 (binop_to_expr op l r) in (Some i, s)
    | (Some l, None) \<Rightarrow> ?one l s2 | (None, Some l) \<Rightarrow> ?one l s2 | (None, None) \<Rightarrow> (None, s2)"
  obtain e s3 where p: "?p = (e, s3)" by (cases ?p)
  have one: "grow 2 s2 s'" if "?one n s2 = (e', s')" for n e' s'
    using that by (cases src) (auto split: prod.splits dest!: grow_intern intro: grow_trans)
  have "grow 2 s2 s3"
    using p one by (cases l; cases r) (auto split: prod.splits dest!: grow_intern intro: grow_mono)
  moreover have "grow 34 s s2"
    by (rule grow_trans [OF grow_read_operand [OF w l] grow_read_operand [OF w r]]) simp
  ultimately have 3: "grow 36 s s3" by (auto intro: grow_trans)
  obtain r' s4 where r': "widen_to_64 s3 e w = (r', s4)" by fastforce
  have "grow 37 s (write_reg64 s4 name r')" using 3 r' by (rule grow_store) simp
  then show ?thesis using ops l r p r' by (simp add: step_binop_def Let_def)
qed (auto simp: step_binop_def split: list.split Operand.split)

lemma grow_shift:
  assumes "list_all operand_ok ops"
  shows "grow 36 s (step_shift s ops sh)"
proof (cases "\<exists>name w src. ops = [Reg name w, src]")
  case True
  then obtain name w src where ops: "ops = [Reg name w, src]" by auto
  have w: "w \<le> 64" using assms ops op_width_le [of "Reg name w"] by simp
  obtain l s1 where l: "read_operand s (Reg name w) w = (l, s1)" by fastforce
  let ?a = "case src of
      Imm v \<Rightarrow> let (i, s) = emu_intern s1 (BvConst (and (ucast v) (imm_mask (unat w mod 128))) w) in (Some i, s)
    | Reg _ _ \<Rightarrow> read_operand s1 src w
    | Mem _ _ _ \<Rightarrow> (None, s1)"
  obtain a s2 where a: "?a = (a, s2)" by (cases ?a)
  have "grow 17 s1 s2"
    using a grow_read_operand [OF w]
    by (cases src) (auto split: prod.splits dest!: grow_intern intro: grow_mono)
  then have 2: "grow 34 s s2" by (rule grow_trans [OF grow_read_operand [OF w l]]) simp
  let ?p = "case (l, a) of
      (Some l, Some a) \<Rightarrow> let (i, s) = emu_intern s2 (shift_to_expr sh l a) in (Some i, s)
    | _ \<Rightarrow> (None, s2)"
  obtain e s3 where p: "?p = (e, s3)" by (cases ?p)
  then have "grow 1 s2 s3" by (cases l; cases a) (auto split: prod.splits dest!: grow_intern)
  with 2 have 3: "grow 35 s s3" by (rule grow_trans) simp
  obtain r' s4 where r': "widen_to_64 s3 e w = (r', s4)" by fastforce
  have "grow 36 s (write_reg64 s4 name r')" using 3 r' by (rule grow_store) simp
  then show ?thesis using ops l a p r' by (simp add: step_shift_def Let_def)
qed (auto simp: step_shift_def split: list.split Operand.split)

lemma grow_node_or_literal: "node_or_literal s r a w = (n, s') \<Longrightarrow> grow 1 s s'"
  by (auto simp: node_or_literal_def split: option.splits dest: grow_intern)

lemma grow_cmp_finish:
  "(if t then let (anded, s) = emu_intern s (BvAnd l r); (zero, s) = emu_intern s (BvConst 0 w)
              in (anded, zero, s)
    else (l, r, s)) = (l', r', s') \<Longrightarrow> grow 2 s s'"
  by (auto split: if_splits prod.splits dest!: grow_intern intro: grow_trans)

lemma grow_cmp:
  assumes "list_all operand_ok ops"
  shows "grow 38 s (step_cmp s ops t)"
proof (cases "\<exists>a b. ops = [a, b]")
  case True
  then obtain a b where ops: "ops = [a, b]" by auto
  define w where "w = cmp_operand_width a b"
  have w: "w \<le> 64" using cmp_width_ok(1) [of a b] assms ops WIDTHS_le by (simp add: w_def)
  obtain l s1 where l: "read_operand s a w = (l, s1)" by fastforce
  obtain r s2 where r: "read_operand s1 b w = (r, s2)" by fastforce
  have 2: "grow 34 s s2"
    by (rule grow_trans [OF grow_read_operand [OF w l] grow_read_operand [OF w r]]) simp
  obtain l' s3 where l': "node_or_literal s2 l a w = (l', s3)" by fastforce
  obtain r' s4 where r': "node_or_literal s3 r b w = (r', s4)" by fastforce
  have "grow 35 s s3" by (rule grow_trans [OF 2 grow_node_or_literal [OF l']]) simp
  then have 4: "grow 36 s s4" by (rule grow_trans [OF _ grow_node_or_literal [OF r']]) simp
  let ?f = "if t then let (anded, s) = emu_intern s4 (BvAnd l' r'); (zero, s) = emu_intern s (BvConst 0 w)
                      in (anded, zero, s) else (l', r', s4)"
  obtain p q s5 where f: "?f = (p, q, s5)" by (cases ?f)
  have 5: "grow 38 s s5" by (rule grow_trans [OF 4 grow_cmp_finish [OF f]]) simp
  then have "grow 38 s (s5\<lparr>last_cmp := c\<rparr>)" for c by (simp add: grow_def)
  moreover have "grow 38 s (s2\<lparr>last_cmp := c\<rparr>)" for c using 2 by (simp add: grow_def)
  ultimately show ?thesis
    using ops l r l' r' f by (cases t) (auto simp: step_cmp_def w_def [symmetric] Let_def split: prod.splits)
qed (auto simp: step_cmp_def split: list.split)

lemma grow_lea: "grow 2 s (step_lea s ops)"
  by (auto simp: step_lea_def Let_def split: list.split Operand.split option.split prod.split
      intro!: grow_write_reg64 dest!: grow_intern intro: grow_trans)

lemma grow_unsupported: "grow 0 s (step_unsupported s ops)"
  by (auto simp: step_unsupported_def grow_def split: list.split Operand.split option.split)

lemma intern_grows:
  "intern d e = (i, d') \<Longrightarrow> length (nodes d') \<le> length (nodes d) + 1 \<and> symbols d' = symbols d"
  using intern_length [of d e] intern_symbols [of d e] by auto

lemma intern_not_grows:
  assumes "intern_not d e = (i, d')"
  shows "length (nodes d') \<le> length (nodes d) + 2 \<and> symbols d' = symbols d"
proof -
  obtain j d1 where j: "intern d e = (j, d1)" by fastforce
  with assms have "intern d1 (ENot j) = (i, d')" by (simp add: intern_not_def)
  with j show ?thesis by (auto dest!: intern_grows)
qed

lemma grow_predicate:
  assumes "build_predicate d rel l r = (i, d')"
  shows "length (nodes d') \<le> length (nodes d) + 2 \<and> symbols d' = symbols d"
  using assms by (cases rel) (auto dest: intern_grows intern_not_grows)

text \<open>An instruction interns at most 38 nodes and symbols.\<close>

lemma step_instruction_grows: "grow 38 s (snd (step_instruction s ir))"
proof (cases "relation_for_branch (to_ascii_lowercase (ins_mnemonic ir))")
  case (Some rel)
  then show ?thesis
    by (auto simp: step_instruction_def emit_branch_event_def grow_def
        split: option.split prod.split dest!: grow_predicate)
next
  case None
  let ?ops = "parse_operands (op_str ir)"
  have "grow 38 s (step_mov s ?ops)"
    by (rule grow_mono [OF grow_mov [OF parse_operands_ok]]) simp
  moreover have "grow 38 s (step_movzx_or_sx s ?ops sg)" for sg
    by (rule grow_mono [OF grow_movx [OF parse_operands_ok]]) simp
  moreover have "grow 38 s (step_binop s ?ops op)" for op
    by (rule grow_mono [OF grow_binop [OF parse_operands_ok]]) simp
  moreover have "grow 38 s (step_shift s ?ops sh)" for sh
    by (rule grow_mono [OF grow_shift [OF parse_operands_ok]]) simp
  moreover have "grow 38 s (step_lea s ?ops)" by (rule grow_mono [OF grow_lea]) simp
  moreover have "grow 38 s (step_unsupported s ?ops)" by (rule grow_mono [OF grow_unsupported]) simp
  ultimately have "grow 38 s (step_handler s m ?ops)" for m
    by (simp add: step_handler_def grow_cmp parse_operands_ok)
  with None show ?thesis by (simp add: step_instruction_def Let_def)
qed

lemma emu_run_grows: "grow (38 * length irs) s (snd (emu_run s irs))"
proof (induction irs arbitrary: s)
  case (Cons ir irs)
  have "grow (38 * length (ir # irs)) s (snd (emu_run (snd (step_instruction s ir)) irs))"
    by (rule grow_trans [OF step_instruction_grows Cons.IH]) simp
  then show ?case by (simp add: case_prod_beta)
qed simp

section \<open>Properties\<close>

text \<open>
  C4: every branch predicate the shadow emulator emits is well typed. Starting from a
  well-formed DAG with room for the run, and for instructions whose operands have the widths
  an x86 encoding gives them, \<open>validate\<close> accepts every emitted predicate on the final DAG,
  \<open>sort_of\<close> says that it is Boolean, and the final DAG is well formed and extends the initial one.
\<close>

theorem branch_events_validate:
  assumes "wf_dag d"
    and "length (nodes d) + 38 * length irs \<le> 2 ^ 32" "length (symbols d) + 38 * length irs \<le> 2 ^ 32"
    and "\<forall>ir\<in>set irs. instr_ok ir"
    and "emu_run (emulator_new d base len) irs = (evs, s)"
  shows "wf_dag (dag s) \<and> dag_le d (dag s) \<and>
    (\<forall>ev\<in>set evs. validate (dag s) (predicate ev) = Some (Ok ()) \<and>
       sort_of (dag s) (predicate ev) = Some (Some Bool))"
proof -
  have run: "steps_ok (emulator_new d base len) s \<and> (\<forall>ev\<in>set evs. cwt (dag s) (predicate ev) Bool)"
    using emu_run_ok [OF emulator_new_ok [OF assms(1)] assms(4,5)] .
  have "fits (dag s)"
    using emu_run_grows [of irs "emulator_new d base len"] assms(2,3,5)
    by (simp add: fits_def grow_def emulator_new_def)
  with run have wf: "wf_dag (dag s)" and t: "\<forall>ev\<in>set evs. wt (dag s) (predicate ev) Bool"
    by (auto simp: steps_ok_def emu_ok_def cwf_def cwt_def)
  have "validate (dag s) (predicate ev) = Some (Ok ()) \<and>
      sort_of (dag s) (predicate ev) = Some (Some Bool)" if "ev \<in> set evs" for ev
    using validate_iff_typeable [OF wf] wt_sort_of [OF _ wf] t that by (auto simp: typeable_def)
  with wf run show ?thesis by (simp add: steps_ok_def emulator_new_def)
qed

definition demo_prog :: "InstructionRecord list" where
  "demo_prog =
     [plain_ir 0 ''movzx'' ''eax, byte ptr [rdi+0x1]'', plain_ir 4 ''ADD'' ''eax, 5'',
      plain_ir 7 ''cmp'' ''eax, 0x40'', plain_ir 10 ''jl'' ''0x1000'']"

lemma demo_prog_ok: "\<forall>ir\<in>set demo_prog. instr_ok ir"
  by code_simp

lemma branch_events_validate_witness:
  "let (evs, s) = emu_run (emulator_new new 4096 8) demo_prog
   in wf_dag (dag s) \<and> (\<forall>ev\<in>set evs. validate (dag s) (predicate ev) = Some (Ok ()))"
proof -
  obtain evs s where r: "emu_run (emulator_new new 4096 8) demo_prog = (evs, s)" by fastforce
  have "length demo_prog = 4" by (simp add: demo_prog_def)
  then have "length (nodes new) + 38 * length demo_prog \<le> 2 ^ 32"
    "length (symbols new) + 38 * length demo_prog \<le> 2 ^ 32" by (simp_all add: new_def)
  from branch_events_validate [OF wf_dag_new this demo_prog_ok r] r show ?thesis by simp
qed

end
