(* ===== verification/Winapi.thy ===== *)
theory Winapi
  imports Axe_Prelude
begin

text \<open>
  The prototype table of \<open>src/winapi.rs\<close>. The match arms of \<open>prototype\<close> are a list of rows,
  searched in order; the symbol is reduced to the part after its last \<open>!\<close>, in lower case.
\<close>

record WinApiPrototype =
  return_type :: string
  proto_args :: "string list"

definition PROTOTYPES_1 :: "(string list \<times> WinApiPrototype) list" where
  "PROTOTYPES_1 =
     [([''createfilew''],
        \<lparr>return_type = ''HANDLE'', proto_args = [''LPCWSTR'', ''DWORD'', ''DWORD'', ''LPSECURITY_ATTRIBUTES'']\<rparr>),
      ([''createfilea''],
        \<lparr>return_type = ''HANDLE'', proto_args = [''LPCSTR'', ''DWORD'', ''DWORD'', ''LPSECURITY_ATTRIBUTES'']\<rparr>),
      ([''readfile'', ''writefile'', ''deviceiocontrol''],
        \<lparr>return_type = ''BOOL'', proto_args = [''HANDLE'', ''LPVOID'', ''DWORD'', ''LPDWORD'']\<rparr>),
      ([''closehandle''],
        \<lparr>return_type = ''BOOL'', proto_args = [''HANDLE'']\<rparr>),
      ([''createprocessw''],
        \<lparr>return_type = ''BOOL'', proto_args = [''LPCWSTR'', ''LPWSTR'', ''LPSECURITY_ATTRIBUTES'', ''LPSECURITY_ATTRIBUTES'']\<rparr>),
      ([''createprocessa''],
        \<lparr>return_type = ''BOOL'', proto_args = [''LPCSTR'', ''LPSTR'', ''LPSECURITY_ATTRIBUTES'', ''LPSECURITY_ATTRIBUTES'']\<rparr>),
      ([''regopenkeyexw'', ''regcreatekeyexw''],
        \<lparr>return_type = ''LSTATUS'', proto_args = [''HKEY'', ''LPCWSTR'', ''DWORD'', ''REGSAM'']\<rparr>),
      ([''regopenkeyexa'', ''regcreatekeyexa''],
        \<lparr>return_type = ''LSTATUS'', proto_args = [''HKEY'', ''LPCSTR'', ''DWORD'', ''REGSAM'']\<rparr>),
      ([''regqueryvalueexw''],
        \<lparr>return_type = ''LSTATUS'', proto_args = [''HKEY'', ''LPCWSTR'', ''LPDWORD'', ''LPDWORD'']\<rparr>),
      ([''regqueryvalueexa''],
        \<lparr>return_type = ''LSTATUS'', proto_args = [''HKEY'', ''LPCSTR'', ''LPDWORD'', ''LPDWORD'']\<rparr>),
      ([''regsetvalueexw''],
        \<lparr>return_type = ''LSTATUS'', proto_args = [''HKEY'', ''LPCWSTR'', ''DWORD'', ''DWORD'']\<rparr>),
      ([''regsetvalueexa''],
        \<lparr>return_type = ''LSTATUS'', proto_args = [''HKEY'', ''LPCSTR'', ''DWORD'', ''DWORD'']\<rparr>),
      ([''virtualalloc''],
        \<lparr>return_type = ''LPVOID'', proto_args = [''LPVOID'', ''SIZE_T'', ''DWORD'', ''DWORD'']\<rparr>),
      ([''virtualallocex''],
        \<lparr>return_type = ''LPVOID'', proto_args = [''HANDLE'', ''LPVOID'', ''SIZE_T'', ''DWORD'']\<rparr>),
      ([''virtualprotect''],
        \<lparr>return_type = ''BOOL'', proto_args = [''LPVOID'', ''SIZE_T'', ''DWORD'', ''LPDWORD'']\<rparr>),
      ([''virtualprotectex''],
        \<lparr>return_type = ''BOOL'', proto_args = [''HANDLE'', ''LPVOID'', ''SIZE_T'', ''DWORD'']\<rparr>),
      ([''writeprocessmemory''],
        \<lparr>return_type = ''BOOL'', proto_args = [''HANDLE'', ''LPVOID'', ''LPCVOID'', ''SIZE_T'']\<rparr>),
      ([''readprocessmemory''],
        \<lparr>return_type = ''BOOL'', proto_args = [''HANDLE'', ''LPCVOID'', ''LPVOID'', ''SIZE_T'']\<rparr>),
      ([''openprocess''],
        \<lparr>return_type = ''HANDLE'', proto_args = [''DWORD'', ''BOOL'', ''DWORD'']\<rparr>),
      ([''createremotethread'', ''createremotethreadex''],
        \<lparr>return_type = ''HANDLE'', proto_args = [''HANDLE'', ''LPSECURITY_ATTRIBUTES'', ''SIZE_T'', ''LPTHREAD_START_ROUTINE'']\<rparr>),
      ([''loadlibraryw''],
        \<lparr>return_type = ''HMODULE'', proto_args = [''LPCWSTR'']\<rparr>),
      ([''loadlibrarya''],
        \<lparr>return_type = ''HMODULE'', proto_args = [''LPCSTR'']\<rparr>),
      ([''getprocaddress''],
        \<lparr>return_type = ''FARPROC'', proto_args = [''HMODULE'', ''LPCSTR'']\<rparr>),
      ([''ldrloadll''],
        \<lparr>return_type = ''NTSTATUS'', proto_args = [''PWSTR'', ''PULONG'', ''PUNICODE_STRING'', ''PHANDLE'']\<rparr>),
      ([''ldrgetprocedureaddress''],
        \<lparr>return_type = ''NTSTATUS'', proto_args = [''HMODULE'', ''PANSI_STRING'', ''WORD'', ''PVOID'']\<rparr>),
      ([''ntqueryinformationprocess''],
        \<lparr>return_type = ''NTSTATUS'', proto_args = [''HANDLE'', ''PROCESSINFOCLASS'', ''PVOID'', ''ULONG'']\<rparr>),
      ([''ntmapviewofsection''],
        \<lparr>return_type = ''NTSTATUS'', proto_args = [''HANDLE'', ''HANDLE'', ''PVOID'', ''ULONG_PTR'']\<rparr>),
      ([''ntunmapviewofsection''],
        \<lparr>return_type = ''NTSTATUS'', proto_args = [''HANDLE'', ''PVOID'']\<rparr>),
      ([''ntprotectvirtualmemory''],
        \<lparr>return_type = ''NTSTATUS'', proto_args = [''HANDLE'', ''PVOID'', ''PSIZE_T'', ''ULONG'']\<rparr>)]"

definition PROTOTYPES_2 :: "(string list \<times> WinApiPrototype) list" where
  "PROTOTYPES_2 =
     [([''ntallocatevirtualmemory''],
        \<lparr>return_type = ''NTSTATUS'', proto_args = [''HANDLE'', ''PVOID'', ''ULONG_PTR'', ''PSIZE_T'']\<rparr>),
      ([''ntwritevirtualmemory'', ''ntreadvirtualmemory''],
        \<lparr>return_type = ''NTSTATUS'', proto_args = [''HANDLE'', ''PVOID'', ''PVOID'', ''SIZE_T'']\<rparr>),
      ([''ntcreatethreadex''],
        \<lparr>return_type = ''NTSTATUS'', proto_args = [''PHANDLE'', ''ACCESS_MASK'', ''PVOID'', ''HANDLE'']\<rparr>),
      ([''rtldecompressbuffer''],
        \<lparr>return_type = ''NTSTATUS'', proto_args = [''USHORT'', ''PUCHAR'', ''ULONG'', ''PUCHAR'']\<rparr>),
      ([''rtlcreateuserthread''],
        \<lparr>return_type = ''NTSTATUS'', proto_args = [''HANDLE'', ''PSECURITY_DESCRIPTOR'', ''BOOLEAN'', ''ULONG'']\<rparr>),
      ([''isdebuggerpresent''],
        \<lparr>return_type = ''BOOL'', proto_args = []\<rparr>),
      ([''checkremotedebuggerpresent''],
        \<lparr>return_type = ''BOOL'', proto_args = [''HANDLE'', ''PBOOL'']\<rparr>),
      ([''winhttpsendrequest''],
        \<lparr>return_type = ''BOOL'', proto_args = [''HINTERNET'', ''LPCWSTR'', ''DWORD'', ''LPVOID'']\<rparr>),
      ([''winhttpopen''],
        \<lparr>return_type = ''HINTERNET'', proto_args = [''LPCWSTR'', ''DWORD'', ''LPCWSTR'', ''LPCWSTR'']\<rparr>),
      ([''winhttpconnect''],
        \<lparr>return_type = ''HINTERNET'', proto_args = [''HINTERNET'', ''LPCWSTR'', ''INTERNET_PORT'']\<rparr>),
      ([''internetopenw'', ''internetopena''],
        \<lparr>return_type = ''HINTERNET'', proto_args = [''LPCTSTR'', ''DWORD'', ''LPCTSTR'', ''LPCTSTR'']\<rparr>),
      ([''internetconnectw'', ''internetconnecta''],
        \<lparr>return_type = ''HINTERNET'', proto_args = [''HINTERNET'', ''LPCTSTR'', ''INTERNET_PORT'']\<rparr>),
      ([''internetreadfile'', ''internetwritefile''],
        \<lparr>return_type = ''BOOL'', proto_args = [''HINTERNET'', ''LPVOID'', ''DWORD'', ''LPDWORD'']\<rparr>),
      ([''httpsendrequestw'', ''httpsendrequesta''],
        \<lparr>return_type = ''BOOL'', proto_args = [''HINTERNET'', ''LPCTSTR'', ''DWORD'', ''LPVOID'']\<rparr>),
      ([''connect''],
        \<lparr>return_type = ''INT'', proto_args = [''SOCKET'', ''SOCKADDR_PTR'', ''INT'']\<rparr>),
      ([''wsaconnect''],
        \<lparr>return_type = ''INT'', proto_args = [''SOCKET'', ''SOCKADDR_PTR'', ''INT'', ''LPWSABUF'']\<rparr>),
      ([''socket''],
        \<lparr>return_type = ''SOCKET'', proto_args = [''INT'', ''INT'', ''INT'']\<rparr>),
      ([''send'', ''recv''],
        \<lparr>return_type = ''INT'', proto_args = [''SOCKET'', ''CHAR_PTR'', ''INT'', ''INT'']\<rparr>),
      ([''bcryptencrypt''],
        \<lparr>return_type = ''NTSTATUS'', proto_args = [''BCRYPT_KEY_HANDLE'', ''PUCHAR'', ''ULONG'', ''PVOID'']\<rparr>),
      ([''bcryptdecrypt''],
        \<lparr>return_type = ''NTSTATUS'', proto_args = [''BCRYPT_KEY_HANDLE'', ''PUCHAR'', ''ULONG'', ''PVOID'']\<rparr>),
      ([''bcryptgenrandom''],
        \<lparr>return_type = ''NTSTATUS'', proto_args = [''BCRYPT_ALG_HANDLE'', ''PUCHAR'', ''ULONG'', ''ULONG'']\<rparr>),
      ([''cryptencrypt'', ''cryptdecrypt''],
        \<lparr>return_type = ''BOOL'', proto_args = [''HCRYPTKEY'', ''HCRYPTHASH'', ''BOOL'', ''DWORD'']\<rparr>),
      ([''crypthashdata''],
        \<lparr>return_type = ''BOOL'', proto_args = [''HCRYPTHASH'', ''BYTE_PTR'', ''DWORD'', ''DWORD'']\<rparr>),
      ([''cryptdecodeobjectex''],
        \<lparr>return_type = ''BOOL'', proto_args = [''DWORD'', ''LPCSTR'', ''BYTE_PTR'', ''DWORD'']\<rparr>),
      ([''createfilemappingw'', ''createfilemappinga''],
        \<lparr>return_type = ''HANDLE'', proto_args = [''HANDLE'', ''LPSECURITY_ATTRIBUTES'', ''DWORD'', ''DWORD'']\<rparr>),
      ([''mapviewoffile''],
        \<lparr>return_type = ''LPVOID'', proto_args = [''HANDLE'', ''DWORD'', ''DWORD'', ''DWORD'']\<rparr>),
      ([''createtoolhelp32snapshot''],
        \<lparr>return_type = ''HANDLE'', proto_args = [''DWORD'', ''DWORD'']\<rparr>),
      ([''createservicew''],
        \<lparr>return_type = ''SC_HANDLE'', proto_args = [''SC_HANDLE'', ''LPCWSTR'', ''LPCWSTR'', ''DWORD'']\<rparr>),
      ([''createservicea''],
        \<lparr>return_type = ''SC_HANDLE'', proto_args = [''SC_HANDLE'', ''LPCSTR'', ''LPCSTR'', ''DWORD'']\<rparr>),
      ([''openscmanagerw'', ''openscmanagera''],
        \<lparr>return_type = ''SC_HANDLE'', proto_args = [''LPCTSTR'', ''LPCTSTR'', ''DWORD'']\<rparr>),
      ([''startservicew'', ''startservicea''],
        \<lparr>return_type = ''BOOL'', proto_args = [''SC_HANDLE'', ''DWORD'', ''LPCWSTR_PTR'']\<rparr>),
      ([''controlservice'', ''deleteservice''],
        \<lparr>return_type = ''BOOL'', proto_args = [''SC_HANDLE'']\<rparr>),
      ([''shellexecutew''],
        \<lparr>return_type = ''HINSTANCE'', proto_args = [''HWND'', ''LPCWSTR'', ''LPCWSTR'', ''LPCWSTR'']\<rparr>),
      ([''shellexecutea''],
        \<lparr>return_type = ''HINSTANCE'', proto_args = [''HWND'', ''LPCSTR'', ''LPCSTR'', ''LPCSTR'']\<rparr>),
      ([''coinitializeex''],
        \<lparr>return_type = ''HRESULT'', proto_args = [''LPVOID'', ''DWORD'']\<rparr>),
      ([''coinitializesecurity''],
        \<lparr>return_type = ''HRESULT'', proto_args = [''PSECURITY_DESCRIPTOR'', ''LONG'', ''SOLE_AUTHENTICATION_SERVICE_PTR'', ''PVOID'']\<rparr>),
      ([''cocreateinstance''],
        \<lparr>return_type = ''HRESULT'', proto_args = [''REFCLSID'', ''LPUNKNOWN'', ''DWORD'', ''REFIID'']\<rparr>),
      ([''cogetclassobject''],
        \<lparr>return_type = ''HRESULT'', proto_args = [''REFCLSID'', ''DWORD'', ''LPVOID'', ''REFIID'']\<rparr>),
      ([''cosetproxyblanket''],
        \<lparr>return_type = ''HRESULT'', proto_args = [''IUnknown'', ''DWORD'', ''DWORD'', ''OLECHAR_PTR'']\<rparr>)]"

definition PROTOTYPES :: "(string list \<times> WinApiPrototype) list" where
  "PROTOTYPES = PROTOTYPES_1 @ PROTOTYPES_2"

definition api_name :: "string \<Rightarrow> string" where
  "api_name symbol = to_ascii_lowercase (after_last (CHR ''!'') symbol)"

definition prototype :: "string \<Rightarrow> WinApiPrototype option" where
  "prototype symbol =
     map_option snd (find (\<lambda>(names, proto). api_name symbol \<in> set names) PROTOTYPES)"

end
