(* ===== verification/Native_Emulator.thy ===== *)
theory Native_Emulator
  imports Pe_Records Winapi
begin

text \<open>
  The bounded concrete emulator of \<open>src/native_emulator.rs\<close>: operand text, the register and
  stack-slot state with its flags, one function per instruction family, and the driver that
  walks a function until it returns, leaves the function, repeats a branch edge or exhausts
  its budget. \<open>parse_int\<close> is from \<open>src/portable.rs\<close>.

  Registers are keyed by the operand name, as in the code: \<open>rax\<close> and \<open>eax\<close> are separate
  entries. Signed 64-bit values are 64-bit words with the same bits.
\<close>

section \<open>Operand text\<close>

definition parse_int :: "string \<Rightarrow> u64 option" where
  "parse_int raw =
     (let trimmed = trim_end_char (CHR ''h'') (trim raw)
      in case strip_prefix ''0x'' trimmed of
           Some hex \<Rightarrow> parse_u64_radix 16 hex
         | None \<Rightarrow> if ends_with ''h'' raw then parse_u64_radix 16 trimmed else parse_u64 trimmed)"

definition split_operands :: "string \<Rightarrow> string list" where
  "split_operands s = filter (\<lambda>v. v \<noteq> []) (map trim (split_on (CHR '','') s))"

definition normalize_operand :: "string \<Rightarrow> string" where
  "normalize_operand v =
     to_ascii_lowercase (trim (trim_start_matches ''byte ptr'' (trim_start_matches ''word ptr''
       (trim_start_matches ''dword ptr'' (trim_start_matches ''qword ptr'' (trim v))))))"

definition REGISTERS :: "string list" where
  "REGISTERS = [''rax'', ''eax'', ''ax'', ''al'', ''rbx'', ''ebx'', ''bx'', ''bl'', ''rcx'', ''ecx'', ''cx'', ''cl'',
    ''rdx'', ''edx'', ''dx'', ''dl'', ''rsi'', ''esi'', ''si'', ''rdi'', ''edi'', ''di'', ''rsp'', ''esp'', ''sp'',
    ''rbp'', ''ebp'', ''bp'', ''r8'', ''r8d'', ''r8w'', ''r8b'', ''r9'', ''r9d'', ''r9w'', ''r9b'', ''r10'', ''r10d'',
    ''r10w'', ''r10b'', ''r11'', ''r11d'', ''r11w'', ''r11b'', ''r12'', ''r12d'', ''r12w'', ''r12b'', ''r13'', ''r13d'',
    ''r13w'', ''r13b'', ''r14'', ''r14d'', ''r14w'', ''r14b'', ''r15'', ''r15d'', ''r15w'', ''r15b'']"

definition register_name :: "string \<Rightarrow> string option" where
  "register_name v = find (\<lambda>reg. reg = v) REGISTERS"

text \<open>The text between brackets, or \<open>None\<close>.\<close>

definition bracketed :: "string \<Rightarrow> string option" where
  "bracketed v = Option.bind (strip_prefix ''['' v) (strip_suffix '']'')"

definition stack_slot :: "string \<Rightarrow> u64 option" where
  "stack_slot v =
     (case bracketed v of
        None \<Rightarrow> None
      | Some inner \<Rightarrow>
          if \<not> (starts_with ''rsp'' inner \<or> starts_with ''rbp'' inner) then None
          else if inner = ''rsp'' \<or> inner = ''rbp'' then Some 0
          else
            (case (case find_char (CHR ''+'') inner of
                     Some i \<Rightarrow> Some i
                   | None \<Rightarrow> map_option Suc (find_char (CHR ''-'') (tl inner))) of
               None \<Rightarrow> None
             | Some i \<Rightarrow>
                 (case parse_int (drop (i + 1) inner) of
                    None \<Rightarrow> None
                  | Some amount \<Rightarrow> Some (if inner ! i = CHR ''-'' then - amount else amount))))"

definition looks_like_stack_or_image :: "string \<Rightarrow> bool" where
  "looks_like_stack_or_image operand =
     (let inner = trim_end_char (CHR '']'') (trim_start_char (CHR ''['') operand)
      in starts_with ''rsp'' inner \<or> starts_with ''rbp'' inner \<or> starts_with ''rip'' inner \<or>
         contains ''0x14'' inner \<or> contains ''0x40'' inner)"

definition parse_effective_address :: "string \<Rightarrow> u64 option" where
  "parse_effective_address v =
     (case bracketed v of
        None \<Rightarrow> None
      | Some inner \<Rightarrow>
          (case strip_prefix ''rip+'' inner of
             Some rest \<Rightarrow> parse_int rest
           | None \<Rightarrow>
               (case strip_prefix ''rip-'' inner of
                  Some rest \<Rightarrow> map_option (\<lambda>amount. 0 - amount) (parse_int rest)
                | None \<Rightarrow> parse_int inner)))"

definition next_address :: "u64 list \<Rightarrow> u64 \<Rightarrow> u64 option" where
  "next_address addresses current = find (\<lambda>addr. current < addr) addresses"

section \<open>State\<close>

record BranchPredicate =
  bp_site_va :: u64
  bp_mnemonic :: string
  left :: string
  right :: string
  bp_text :: string
  left_value :: "u64 option"
  right_value :: "u64 option"

record NativeState =
  registers :: "string \<Rightarrow> u64 option"
  stack :: "u64 \<Rightarrow> u64 option"
  nat_last_compare :: "(string \<times> string \<times> u64 option \<times> u64 option) option"
  memory_events :: "string list"
  api_stub_events :: "string list"
  oob_write_sites :: "u64 list"
  flags_zf :: bool
  flags_sf :: bool
  flags_cf :: bool
  flags_of :: bool

definition native_default :: NativeState where
  "native_default =
     \<lparr>registers = Map.empty, stack = Map.empty, nat_last_compare = None, memory_events = [],
      api_stub_events = [], oob_write_sites = [], flags_zf = False, flags_sf = False,
      flags_cf = False, flags_of = False\<rparr>"

datatype StepOutcome = Supported | ApiStub string | Branch BranchPredicate | Unsupported string

definition value_of :: "string \<Rightarrow> NativeState \<Rightarrow> u64 option" where
  "value_of v st =
     (let normalized = normalize_operand v
      in case parse_int normalized of
           Some n \<Rightarrow> Some n
         | None \<Rightarrow>
             (case Option.bind (register_name normalized) (registers st) of
                Some n \<Rightarrow> Some n
              | None \<Rightarrow> Option.bind (stack_slot normalized) (stack st)))"

definition set_register :: "string \<Rightarrow> u64 \<Rightarrow> NativeState \<Rightarrow> NativeState" where
  "set_register reg v st = st\<lparr>registers := (registers st)(reg \<mapsto> v)\<rparr>"

section \<open>Instruction families\<close>

definition emulate_mov :: "InstructionRecord \<Rightarrow> string list \<Rightarrow> NativeState \<Rightarrow> StepOutcome \<times> NativeState" where
  "emulate_mov row operands st =
     (case operands of
        op0 # op1 # _ \<Rightarrow>
          let dst = normalize_operand op0; src = normalize_operand op1
          in if starts_with ''['' dst then
               let st = st\<lparr>memory_events := memory_events st @ [''write '' @ dst @ '' <= '' @ src]\<rparr>;
                   st = (case (stack_slot dst, value_of src st) of
                           (Some slot, Some v) \<Rightarrow> st\<lparr>stack := (stack st)(slot \<mapsto> v)\<rparr>
                         | _ \<Rightarrow> if \<not> looks_like_stack_or_image dst
                               then st\<lparr>oob_write_sites := oob_write_sites st @ [address row]\<rparr> else st)
               in (Supported, st)
             else
               let st = (if starts_with ''['' src
                         then st\<lparr>memory_events := memory_events st @ [''read '' @ src @ '' => '' @ dst]\<rparr>
                         else st)
               in case register_name dst of
                    Some reg \<Rightarrow>
                      (Supported,
                       case value_of src st of
                         Some v \<Rightarrow> set_register reg v st
                       | None \<Rightarrow>
                           (case Option.bind (stack_slot src) (stack st) of
                              Some v \<Rightarrow> set_register reg v st
                            | None \<Rightarrow> st))
                  | None \<Rightarrow> (Unsupported ''unsupported mov operand form'', st)
      | _ \<Rightarrow> (Unsupported ''missing mov operands'', st))"

definition emulate_lea :: "string list \<Rightarrow> NativeState \<Rightarrow> StepOutcome \<times> NativeState" where
  "emulate_lea operands st =
     (case operands of
        op0 # op1 # _ \<Rightarrow>
          let dst = normalize_operand op0; src = normalize_operand op1
          in (case register_name dst of
                None \<Rightarrow> (Unsupported ''lea destination is not a register'', st)
              | Some reg \<Rightarrow>
                  (Supported, case parse_effective_address src of
                                Some v \<Rightarrow> set_register reg v st
                              | None \<Rightarrow> st))
      | _ \<Rightarrow> (Unsupported ''missing lea operands'', st))"

definition shift_count :: "u64 \<Rightarrow> nat" where
  "shift_count r = unat (and r 63)"

definition binary_value :: "string \<Rightarrow> bool \<Rightarrow> u64 \<Rightarrow> u64 \<Rightarrow> u64" where
  "binary_value m same l r =
     (if m = ''xor'' \<and> same then 0
      else if m = ''xor'' then xor l r
      else if m = ''and'' then and l r
      else if m = ''or'' then or l r
      else if m = ''add'' then l + r
      else if m = ''sub'' then l - r
      else if m = ''shl'' \<or> m = ''sal'' then push_bit (shift_count r) l
      else if m = ''shr'' then drop_bit (shift_count r) l
      else if m = ''sar'' then signed_drop_bit (shift_count r) l
      else if m = ''rol'' then word_rotl (shift_count r) l
      else if m = ''ror'' then word_rotr (shift_count r) l
      else l)"

definition set_result :: "string \<Rightarrow> u64 \<Rightarrow> NativeState \<Rightarrow> NativeState" where
  "set_result reg v st = (set_register reg v st)\<lparr>flags_zf := (v = 0), flags_sf := (sint v < 0)\<rparr>"

definition emulate_binary :: "string \<Rightarrow> string list \<Rightarrow> NativeState \<Rightarrow> StepOutcome \<times> NativeState" where
  "emulate_binary m operands st =
     (case operands of
        op0 # op1 # _ \<Rightarrow>
          let dst = normalize_operand op0; src = normalize_operand op1
          in (case register_name dst of
                None \<Rightarrow> (Unsupported ''binary destination is not a register'', st)
              | Some reg \<Rightarrow>
                  let l = (case registers st reg of Some v \<Rightarrow> v | None \<Rightarrow> 0);
                      r = (case value_of src st of Some v \<Rightarrow> v | None \<Rightarrow> 0)
                  in (Supported, set_result reg (binary_value m (dst = src) l r) st))
      | _ \<Rightarrow> (Unsupported ''missing binary operands'', st))"

definition byte_at :: "u64 \<Rightarrow> nat \<Rightarrow> u64" where
  "byte_at v i = and (drop_bit (8 * i) v) 255"

definition swap_bytes :: "u64 \<Rightarrow> u64" where
  "swap_bytes v =
     or (push_bit 56 (byte_at v 0)) (or (push_bit 48 (byte_at v 1)) (or (push_bit 40 (byte_at v 2))
       (or (push_bit 32 (byte_at v 3)) (or (push_bit 24 (byte_at v 4)) (or (push_bit 16 (byte_at v 5))
         (or (push_bit 8 (byte_at v 6)) (byte_at v 7)))))))"

definition unary_value :: "string \<Rightarrow> u64 \<Rightarrow> u64" where
  "unary_value m cur =
     (if m = ''inc'' then cur + 1
      else if m = ''dec'' then cur - 1
      else if m = ''neg'' then not cur + 1
      else if m = ''not'' then not cur
      else if m = ''bswap'' then swap_bytes cur
      else cur)"

definition emulate_unary :: "string \<Rightarrow> string list \<Rightarrow> NativeState \<Rightarrow> StepOutcome \<times> NativeState" where
  "emulate_unary m operands st =
     (case operands of
        op0 # _ \<Rightarrow>
          (case register_name (normalize_operand op0) of
             None \<Rightarrow> (Unsupported ''unary destination is not a register'', st)
           | Some reg \<Rightarrow>
               let cur = (case registers st reg of Some v \<Rightarrow> v | None \<Rightarrow> 0)
               in (Supported, set_result reg (unary_value m cur) st))
      | [] \<Rightarrow> (Unsupported ''missing unary operand'', st))"

definition conditional_holds :: "string \<Rightarrow> NativeState \<Rightarrow> bool" where
  "conditional_holds suffix st =
     (if suffix \<in> set [''z'', ''e''] then flags_zf st
      else if suffix \<in> set [''nz'', ''ne''] then \<not> flags_zf st
      else if suffix = ''s'' then flags_sf st
      else if suffix = ''ns'' then \<not> flags_sf st
      else if suffix \<in> set [''c'', ''b'', ''nae''] then flags_cf st
      else if suffix \<in> set [''nc'', ''ae'', ''nb''] then \<not> flags_cf st
      else if suffix \<in> set [''be'', ''na''] then flags_cf st \<or> flags_zf st
      else if suffix \<in> set [''a'', ''nbe''] then \<not> flags_cf st \<and> \<not> flags_zf st
      else if suffix \<in> set [''l'', ''nge''] then flags_sf st \<noteq> flags_of st
      else if suffix \<in> set [''ge'', ''nl''] then flags_sf st = flags_of st
      else if suffix \<in> set [''le'', ''ng''] then flags_zf st \<or> flags_sf st \<noteq> flags_of st
      else if suffix \<in> set [''g'', ''nle''] then \<not> flags_zf st \<and> flags_sf st = flags_of st
      else if suffix = ''o'' then flags_of st
      else if suffix = ''no'' then \<not> flags_of st
      else False)"

definition set_compare_flags :: "bool \<Rightarrow> u64 \<Rightarrow> u64 \<Rightarrow> NativeState \<Rightarrow> NativeState" where
  "set_compare_flags is_cmp l r st =
     (let diff = (if is_cmp then l - r else and l r)
      in st\<lparr>flags_zf := (diff = 0), flags_sf := (sint diff < 0),
            flags_cf := (if is_cmp then l < r else False),
            flags_of := (if is_cmp then sint (and (xor l r) (xor l (l - r))) < 0 else False)\<rparr>)"

definition emulate_compare :: "string \<Rightarrow> string list \<Rightarrow> NativeState \<Rightarrow> StepOutcome \<times> NativeState" where
  "emulate_compare m operands st =
     (case operands of
        op0 # op1 # _ \<Rightarrow>
          let left_val = value_of op0 st;
              right_val = value_of op1 st;
              st = st\<lparr>nat_last_compare :=
                Some (normalize_operand op0, normalize_operand op1, left_val, right_val)\<rparr>
          in (Supported,
              case (left_val, right_val) of
                (Some l, Some r) \<Rightarrow> set_compare_flags (m = ''cmp'') l r st
              | _ \<Rightarrow> st)
      | _ \<Rightarrow> (Unsupported ''missing comparison operands'', st))"

definition CMOVS :: "string list" where
  "CMOVS = [''cmovz'', ''cmove'', ''cmovnz'', ''cmovne'', ''cmovg'', ''cmovl'', ''cmovge'', ''cmovle'', ''cmova'',
    ''cmovae'', ''cmovb'', ''cmovbe'', ''cmovs'', ''cmovns'']"

definition emulate_set :: "string \<Rightarrow> string \<Rightarrow> NativeState \<Rightarrow> StepOutcome \<times> NativeState" where
  "emulate_set m op0 st =
     (let held = conditional_holds (drop 3 m) st
      in (Supported,
          case register_name (normalize_operand op0) of
            Some reg \<Rightarrow> set_register reg (if held then 1 else 0) st
          | None \<Rightarrow> st))"

definition emulate_branch :: "InstructionRecord \<Rightarrow> string \<Rightarrow> u64 \<Rightarrow> NativeState \<Rightarrow> StepOutcome" where
  "emulate_branch row m target st =
     (let (l, r, lv, rv) = (case nat_last_compare st of
                              Some c \<Rightarrow> c
                            | None \<Rightarrow> (''unknown'', ''unknown'', None, None))
      in Branch \<lparr>bp_site_va = address row, bp_mnemonic = m, left = l, right = r,
                 bp_text = m @ '' if cmp '' @ l @ '', '' @ r @ '' -> 0x'' @ hex016 target,
                 left_value = lv, right_value = rv\<rparr>)"

definition emulate_instruction :: "InstructionRecord \<Rightarrow> NativeState \<Rightarrow> StepOutcome \<times> NativeState" where
  "emulate_instruction row st =
     (let m = to_ascii_lowercase (ins_mnemonic row);
          operands = split_operands (op_str row)
      in if m = ''mov'' then emulate_mov row operands st
         else if m \<in> set [''movzx'', ''movsx'', ''movsxd''] then emulate_mov row operands st
         else if m = ''lea'' then emulate_lea operands st
         else if m \<in> set [''xor'', ''add'', ''sub'', ''and'', ''or'', ''shl'', ''shr'', ''sar'', ''sal'', ''rol'', ''ror'']
           then emulate_binary m operands st
         else if m \<in> set [''inc'', ''dec'', ''neg'', ''not'', ''bswap''] then emulate_unary m operands st
         else if m = ''cmp'' \<or> m = ''test'' then emulate_compare m operands st
         else if m = ''call'' then (ApiStub (trim (op_str row)), st)
         else if m \<in> set [''ret'', ''nop'', ''push'', ''pop'', ''leave'', ''endbr64'', ''endbr32'', ''cdq'', ''cqo'']
           then (Supported, st)
         else if m \<in> set CMOVS then
           (if conditional_holds (drop 4 m) st then emulate_mov row operands st else (Supported, st))
         else if starts_with ''set'' m \<and> length operands = 1 then emulate_set m (hd operands) st
         else (case branch_target row of
                 Some target \<Rightarrow>
                   if starts_with ''j'' m then (emulate_branch row m target st, st)
                   else (Unsupported ''unsupported mnemonic in native bounded emulator'', st)
               | None \<Rightarrow> (Unsupported ''unsupported mnemonic in native bounded emulator'', st)))"

definition branch_is_satisfied :: "BranchPredicate \<Rightarrow> NativeState \<Rightarrow> bool" where
  "branch_is_satisfied p st =
     (let m = bp_mnemonic p
      in if m = ''jmp'' then True
         else if nat_last_compare st \<noteq> None
           then conditional_holds (case strip_prefix ''j'' m of Some s \<Rightarrow> s | None \<Rightarrow> m) st
         else
           (case (case left_value p of Some v \<Rightarrow> Some v | None \<Rightarrow> value_of (left p) st,
                  case right_value p of Some v \<Rightarrow> Some v | None \<Rightarrow> value_of (right p) st) of
              (Some l, Some r) \<Rightarrow>
                if m \<in> set [''je'', ''jz''] then l = r
                else if m \<in> set [''jne'', ''jnz''] then l \<noteq> r
                else if m \<in> set [''ja'', ''jnbe'', ''jg'', ''jnle''] then r < l
                else if m \<in> set [''jae'', ''jnb'', ''jge'', ''jnl''] then r \<le> l
                else if m \<in> set [''jb'', ''jnae'', ''jl'', ''jnge''] then l < r
                else if m \<in> set [''jbe'', ''jna'', ''jle'', ''jng''] then l \<le> r
                else False
            | _ \<Rightarrow> False))"

definition api_return_value :: "string \<Rightarrow> u64" where
  "api_return_value symbol =
     (case prototype symbol of
        Some proto \<Rightarrow>
          (if return_type proto = ''HANDLE'' then 0x12340000
           else if return_type proto \<in> set [''LPVOID'', ''PVOID'', ''LPCWSTR'', ''LPWSTR'', ''LPCSTR'', ''LPSTR'']
             then 0x20000000
           else if return_type proto = ''BOOL'' then 1
           else 0)
      | None \<Rightarrow> 0)"

definition apply_api_return_heuristic :: "string \<Rightarrow> NativeState \<Rightarrow> NativeState" where
  "apply_api_return_heuristic api st =
     (let symbol = trim api
      in if symbol = [] then st
         else let v = api_return_value symbol
              in set_register ''eax'' (and v 0xFFFFFFFF) (set_register ''rax'' v st))"

section \<open>The driver\<close>

record EmulationTraceRecord =
  trace_id :: string
  trace_function :: u64
  trace_start_va :: u64
  trace_status :: string
  step_count :: nat
  trace_supported_steps :: nat
  trace_unsupported :: "string list"
  trace_cap_hit :: bool
  budget :: string
  api_stubs :: "string list"
  trace_api_stub_events :: "string list"
  trace_memory_events :: "string list"
  exit_reason :: string
  trace_registers :: "string \<Rightarrow> u64 option"
  evidence :: "u64 list"

record NativeEmulationResult =
  res_function :: u64
  res_start_va :: u64
  res_unsupported :: "string list"
  res_cap_hit :: bool
  res_predicates :: "BranchPredicate list"
  res_trace :: EmulationTraceRecord
  res_visited_path :: "u64 list"
  res_oob_write_sites :: "u64 list"

text \<open>The fields of \<open>PortableInput\<close> that the emulator and the path solver read.\<close>

record PortableInput =
  emulation_budget :: string
  function_list :: "FunctionRecord list"
  instructions :: "InstructionRecord list"
  import_rows :: "ImportRecord list"

text \<open>The mutable locals of the driver loop.\<close>

record NativeRun =
  nstate :: NativeState
  steps :: nat
  supported_steps :: nat
  unsupported :: "string list"
  predicates :: "BranchPredicate list"
  cap_hit :: bool
  visited_edges :: "(u64 \<times> u64) set"
  visited_path :: "u64 list"
  pc :: u64
  run_exit :: string

definition budget_cap :: "string \<Rightarrow> nat" where
  "budget_cap b = (if b = ''max'' then 512 else if b = ''high'' then 192 else 96)"

text \<open>
  One iteration after the budget check: \<open>Inl\<close> when the source breaks out of the loop,
  \<open>Inr\<close> when it goes on.
\<close>

definition run_row :: "u64 list \<Rightarrow> u64 \<Rightarrow> InstructionRecord \<Rightarrow> NativeRun \<Rightarrow> NativeRun + NativeRun" where
  "run_row addresses fend row r =
     (let next_pc = next_address addresses (address row);
          fall = (case next_pc of Some a \<Rightarrow> a | None \<Rightarrow> fend);
          (outcome, st) = emulate_instruction row (nstate r);
          r = r\<lparr>nstate := st\<rparr>;
          res =
            (case outcome of
               Supported \<Rightarrow>
                 let r = r\<lparr>supported_steps := supported_steps r + 1\<rparr>
                 in if is_ret row \<or> eq_ignore_ascii_case (ins_mnemonic row) ''ret''
                    then Inl (r\<lparr>run_exit := ''return''\<rparr>)
                    else Inr (r\<lparr>pc := fall\<rparr>)
             | ApiStub api \<Rightarrow>
                 let st = apply_api_return_heuristic api (nstate r);
                     st = st\<lparr>api_stub_events := api_stub_events st @ [''0x'' @ hex016 (address row) @ '':'' @ api]\<rparr>
                 in Inr (r\<lparr>supported_steps := supported_steps r + 1, nstate := st, pc := fall\<rparr>)
             | Branch p \<Rightarrow>
                 let r = r\<lparr>supported_steps := supported_steps r + 1, predicates := predicates r @ [p]\<rparr>;
                     target = (case branch_target row of Some t \<Rightarrow> t | None \<Rightarrow> 0);
                     chosen = (if branch_is_satisfied p (nstate r) then Some target else next_pc)
                 in (case chosen of
                       None \<Rightarrow> Inl (r\<lparr>run_exit := ''branch_exit''\<rparr>)
                     | Some c \<Rightarrow>
                         if (address row, c) \<in> visited_edges r then Inl (r\<lparr>run_exit := ''loop_guard''\<rparr>)
                         else Inr (r\<lparr>visited_edges := insert (address row, c) (visited_edges r), pc := c\<rparr>))
             | Unsupported reason \<Rightarrow>
                 let r = (if length (unsupported r) < 16
                          then r\<lparr>unsupported := unsupported r @
                                 [''0x'' @ hex016 (address row) @ '': '' @ ins_mnemonic row @ '' '' @
                                  op_str row @ '' ('' @ reason @ '')'']\<rparr>
                          else r)
                 in Inr (r\<lparr>pc := fall\<rparr>))
      in case res of
           Inl r \<Rightarrow> Inl r
         | Inr r \<Rightarrow> if pc r \<ge> fend then Inl r else Inr r)"

lemma run_row_steps:
  "run_row addresses fend row r = Inr r' \<Longrightarrow> steps r' = steps r"
  by (auto simp: run_row_def Let_def split: prod.splits StepOutcome.splits if_splits option.splits)

function (sequential) run_loop ::
  "(u64 \<Rightarrow> InstructionRecord option) \<Rightarrow> u64 list \<Rightarrow> u64 \<Rightarrow> nat \<Rightarrow> NativeRun \<Rightarrow> NativeRun" where
  "run_loop by_va addresses fend cap r =
     (case by_va (pc r) of
        None \<Rightarrow> r
      | Some row \<Rightarrow>
          if steps r \<ge> cap then r\<lparr>cap_hit := True, run_exit := ''budget_cap''\<rparr>
          else
            (case run_row addresses fend row
                    (r\<lparr>steps := steps r + 1, visited_path := visited_path r @ [address row]\<rparr>) of
               Inl r' \<Rightarrow> r'
             | Inr r' \<Rightarrow> run_loop by_va addresses fend cap r'))"
  by pat_completeness auto
termination
  by (relation "measure (\<lambda>(by_va, addresses, fend, cap, r). cap - steps r)")
    (auto dest!: run_row_steps)

declare run_loop.simps [simp del]

definition run_init :: "NativeState \<Rightarrow> u64 \<Rightarrow> NativeRun" where
  "run_init st start =
     \<lparr>nstate = st, steps = 0, supported_steps = 0, unsupported = [], predicates = [], cap_hit = False,
      visited_edges = {}, visited_path = [], pc = start, run_exit = ''function_end''\<rparr>"

definition function_rows :: "PortableInput \<Rightarrow> FunctionRecord \<Rightarrow> InstructionRecord list" where
  "function_rows inp f = filter (\<lambda>row. address row \<ge> fn_start f \<and> address row < fn_end f) (instructions inp)"

definition rows_by_va :: "InstructionRecord list \<Rightarrow> u64 \<Rightarrow> InstructionRecord option" where
  "rows_by_va rows = map_of (rev (map (\<lambda>row. (address row, row)) rows))"

definition emulate_run ::
  "PortableInput \<Rightarrow> FunctionRecord \<Rightarrow> (string \<times> u64) list \<Rightarrow> nat \<Rightarrow> NativeRun" where
  "emulate_run inp f initial_regs cap =
     (let rows = function_rows inp f;
          by_va = rows_by_va rows;
          addresses = map address rows;
          st = fold (\<lambda>(name, v) st. set_register name v st) initial_regs native_default;
          start = (if by_va (fn_start f) \<noteq> None then fn_start f else hd addresses)
      in run_loop by_va addresses (fn_end f) cap (run_init st start))"

definition emulate_function ::
  "PortableInput \<Rightarrow> FunctionRecord \<Rightarrow> (string \<times> u64) list option \<Rightarrow> nat option \<Rightarrow>
     NativeEmulationResult option" where
  "emulate_function inp f initial_regs budget_override =
     (let cap = (case budget_override of Some b \<Rightarrow> b | None \<Rightarrow> budget_cap (emulation_budget inp))
      in if function_rows inp f = [] then None
         else
           let r = emulate_run inp f (case initial_regs of Some regs \<Rightarrow> regs | None \<Rightarrow> []) cap
           in if supported_steps r = 0 then None
              else Some
                \<lparr>res_function = fn_start f, res_start_va = fn_start f, res_unsupported = unsupported r,
                 res_cap_hit = cap_hit r, res_predicates = predicates r,
                 res_trace =
                   \<lparr>trace_id = ''emu:'' @ hex016 (fn_start f) @ '':0000'', trace_function = fn_start f,
                    trace_start_va = fn_start f,
                    trace_status = (if cap_hit r then ''failed_capped'' else ''executed''),
                    step_count = steps r, trace_supported_steps = supported_steps r,
                    trace_unsupported = unsupported r, trace_cap_hit = cap_hit r,
                    budget = emulation_budget inp,
                    api_stubs = map imp_symbol (take 16 (import_rows inp)),
                    trace_api_stub_events = api_stub_events (nstate r),
                    trace_memory_events = memory_events (nstate r), exit_reason = run_exit r,
                    trace_registers = registers (nstate r), evidence = [fn_start f]\<rparr>,
                 res_visited_path = visited_path r,
                 res_oob_write_sites = oob_write_sites (nstate r)\<rparr>)"

definition emulate :: "PortableInput \<Rightarrow> NativeEmulationResult option" where
  "emulate inp =
     (case function_list inp of [] \<Rightarrow> None | f # _ \<Rightarrow> emulate_function inp f None None)"

end
