(* ===== verification/Native_Props.thy ===== *)
theory Native_Props
  imports Native_Emulator
begin

text \<open>
  Properties of the concrete emulator: the flag logic of \<open>cmp\<close> and the conditional jumps decides
  the unsigned and signed order, register arithmetic writes what it should and nothing else,
  and the driver stays within its budget and inside the function it walks.
\<close>

section \<open>Flags decide the order\<close>

lemma sint_neg_bit: "sint (x :: u64) < 0 \<longleftrightarrow> bit x 63"
  using bit_last_iff [of x] by simp

lemma sint_xor_neg: "sint (xor x y :: u64) < 0 \<longleftrightarrow> (sint x < 0) \<noteq> (sint y < 0)"
  by (simp add: sint_neg_bit bit_xor_iff)

lemma sint_and_neg: "sint (and x y :: u64) < 0 \<longleftrightarrow> sint x < 0 \<and> sint y < 0"
  by (simp add: sint_neg_bit bit_and_iff)

text \<open>The sign of a wrapped difference.\<close>

lemma wrapped_diff_neg:
  fixes a b :: int
  assumes "- (2 ^ 63) \<le> a" "a < 2 ^ 63" "- (2 ^ 63) \<le> b" "b < 2 ^ 63"
  shows "signed_take_bit 63 (a - b) < 0 \<longleftrightarrow>
    (if a - b < - (2 ^ 63) then False else if a - b < 2 ^ 63 then a < b else True)"
proof -
  let ?x = "a - b + 2 ^ 63"
  have s: "signed_take_bit 63 (a - b) = ?x mod 2 ^ 64 - 2 ^ 63"
    by (simp add: signed_take_bit_eq_take_bit_shift take_bit_eq_mod)
  consider "a - b < - (2 ^ 63)" | "- (2 ^ 63) \<le> a - b" "a - b < 2 ^ 63" | "2 ^ 63 \<le> a - b" by linarith
  then show ?thesis
  proof cases
    case 1
    have "?x mod 2 ^ 64 = (?x + 2 ^ 64) mod 2 ^ 64" by (rule mod_add_self2 [symmetric])
    also have "\<dots> = ?x + 2 ^ 64" by (rule mod_pos_pos_trivial) (use 1 assms in simp_all)
    finally show ?thesis using 1 s assms by simp
  next
    case 2
    then have "?x mod 2 ^ 64 = ?x" by (intro mod_pos_pos_trivial) simp_all
    with 2 s show ?thesis by simp
  next
    case 3
    have "?x mod 2 ^ 64 = (?x - 2 ^ 64) mod 2 ^ 64" by (rule minus_mod_self2 [symmetric])
    also have "\<dots> = ?x - 2 ^ 64" by (rule mod_pos_pos_trivial) (use 3 assms in simp_all)
    finally show ?thesis using 3 s assms by simp
  qed
qed

text \<open>The sign flag differs from the overflow flag exactly when the signed order holds.\<close>

lemma signed_less_flags:
  fixes l r :: u64
  shows "(sint (l - r) < 0) \<noteq> (sint (and (xor l r) (xor l (l - r))) < 0) \<longleftrightarrow> sint l < sint r"
proof -
  have "sint (l - r) = signed_take_bit 63 (sint l - sint r)" by (simp add: sint_word_diff)
  then have d: "sint (l - r) < 0 \<longleftrightarrow>
      (if sint l - sint r < - (2 ^ 63) then False else if sint l - sint r < 2 ^ 63 then sint l < sint r else True)"
    using wrapped_diff_neg [OF sint_range_u64 sint_range_u64, of l r] by simp
  have "sint (and (xor l r) (xor l (l - r))) < 0 \<longleftrightarrow>
      (sint l < 0) \<noteq> (sint r < 0) \<and> (sint l < 0) \<noteq> (sint (l - r) < 0)"
    by (simp add: sint_and_neg sint_xor_neg)
  with d show ?thesis
    using sint_range_u64 [of l] sint_range_u64 [of r] by (auto split: if_splits)
qed

text \<open>What a conditional jump means after \<open>cmp l, r\<close>: the relation its mnemonic names.\<close>

definition jcc_meaning :: "string \<Rightarrow> u64 \<Rightarrow> u64 \<Rightarrow> bool option" where
  "jcc_meaning m l r =
     map_of
       [(''je'', l = r), (''jz'', l = r),
        (''jne'', l \<noteq> r), (''jnz'', l \<noteq> r),
        (''jb'', l < r), (''jc'', l < r), (''jnae'', l < r),
        (''jae'', r \<le> l), (''jnb'', r \<le> l), (''jnc'', r \<le> l),
        (''jbe'', l \<le> r), (''jna'', l \<le> r),
        (''ja'', r < l), (''jnbe'', r < l),
        (''jl'', sint l < sint r), (''jnge'', sint l < sint r),
        (''jge'', sint r \<le> sint l), (''jnl'', sint r \<le> sint l),
        (''jle'', sint l \<le> sint r), (''jng'', sint l \<le> sint r),
        (''jg'', sint r < sint l), (''jnle'', sint r < sint l)] m"

lemma compare_flags:
  assumes "st' = set_compare_flags True l r st"
  shows "flags_zf st' \<longleftrightarrow> l = r" "flags_cf st' \<longleftrightarrow> l < r" "flags_sf st' = flags_of st' \<longleftrightarrow> sint r \<le> sint l"
  using assms signed_less_flags [of l r] by (auto simp: set_compare_flags_def Let_def)

lemma jcc_after_cmp:
  assumes "jcc_meaning m l r = Some t" "st' = set_compare_flags True l r st"
  shows "m \<noteq> ''jmp'' \<and> strip_prefix ''j'' m = Some (tl m) \<and> conditional_holds (tl m) st' = t"
proof -
  have e: "l = r \<longleftrightarrow> sint l = sint r" using signed_word_eqI by auto
  note flags = compare_flags [OF assms(2)]
  show ?thesis
    using map_of_SomeD [OF assms(1) [unfolded jcc_meaning_def]]
    by (simp only: set_simps insert_iff prod.inject empty_iff simp_thms)
      (elim disjE conjE; simp add: conditional_holds_def flags; use e in force)
qed

section \<open>Budget and confinement of the driver\<close>

definition run_ok :: "(u64 \<Rightarrow> InstructionRecord option) \<Rightarrow> nat \<Rightarrow> NativeRun \<Rightarrow> bool" where
  "run_ok by_va cap r \<longleftrightarrow>
     steps r \<le> cap \<and> length (visited_path r) = steps r \<and>
     supported_steps r + length (unsupported r) \<le> steps r \<and> length (unsupported r) \<le> 16 \<and>
     (\<forall>a\<in>set (visited_path r). by_va a \<noteq> None) \<and>
     finite (visited_edges r) \<and> \<not> cap_hit r \<and> run_exit r \<noteq> ''budget_cap''"

text \<open>While the loop goes on, every branch taken so far has its own edge.\<close>

definition edges_ok :: "NativeRun \<Rightarrow> bool" where
  "edges_ok r \<longleftrightarrow> length (predicates r) = card (visited_edges r)"

lemma run_row_ok:
  assumes "run_ok by_va cap r" "steps r < cap" "by_va (address row) = Some row'" "edges_ok r"
    and "run_row addresses fend row
      (r\<lparr>steps := steps r + 1, visited_path := visited_path r @ [address row]\<rparr>) = res"
  shows "case res of
      Inl r' \<Rightarrow> run_ok by_va cap r' \<and> length (predicates r') \<le> Suc (card (visited_edges r'))
    | Inr r' \<Rightarrow> run_ok by_va cap r' \<and> edges_ok r'"
proof -
  obtain oc st where e: "emulate_instruction row (nstate r) = (oc, st)" by fastforce
  show ?thesis
    using assms(1-4) unfolding assms(5) [symmetric]
    by (cases oc) (auto simp: run_row_def e Let_def run_ok_def edges_ok_def split: option.splits)
qed

text \<open>The shape of a finished run.\<close>

definition run_done :: "(u64 \<Rightarrow> InstructionRecord option) \<Rightarrow> nat \<Rightarrow> NativeRun \<Rightarrow> bool" where
  "run_done by_va cap r \<longleftrightarrow>
     run_ok by_va cap (r\<lparr>cap_hit := False, run_exit := []\<rparr>) \<and>
     (cap_hit r \<longleftrightarrow> run_exit r = ''budget_cap'') \<and> (cap_hit r \<longrightarrow> steps r = cap) \<and>
     length (predicates r) \<le> Suc (card (visited_edges r))"

lemma run_ok_done:
  "run_ok by_va cap r \<Longrightarrow> length (predicates r) \<le> Suc (card (visited_edges r)) \<Longrightarrow> run_done by_va cap r"
  by (simp add: run_ok_def run_done_def)

lemma run_loop_ok:
  assumes key: "\<And>a row. by_va a = Some row \<Longrightarrow> address row = a"
  shows "run_ok by_va cap r \<Longrightarrow> edges_ok r \<Longrightarrow> run_done by_va cap (run_loop by_va addresses fend cap r)"
proof (induction "cap - steps r" arbitrary: r rule: less_induct)
  case less
  show ?case
  proof (cases "by_va (pc r)")
    case None
    with less.prems show ?thesis
      by (subst run_loop.simps) (simp add: run_ok_done edges_ok_def)
  next
    case (Some row)
    then have a: "by_va (address row) = Some row" using key by metis
    let ?r = "r\<lparr>steps := steps r + 1, visited_path := visited_path r @ [address row]\<rparr>"
    let ?res = "run_row addresses fend row ?r"
    show ?thesis
    proof (cases "cap \<le> steps r")
      case True
      with less.prems Some show ?thesis
        by (subst run_loop.simps) (auto simp: run_done_def run_ok_def edges_ok_def)
    next
      case False
      then have lt: "steps r < cap" by simp
      have ok: "case ?res of
          Inl r' \<Rightarrow> run_ok by_va cap r' \<and> length (predicates r') \<le> Suc (card (visited_edges r'))
        | Inr r' \<Rightarrow> run_ok by_va cap r' \<and> edges_ok r'"
        by (rule run_row_ok [OF less.prems(1) lt a less.prems(2) refl])
      show ?thesis
      proof (cases ?res)
        case (Inl r')
        with ok have "run_done by_va cap r'" by (simp add: run_ok_done)
        with Some False Inl show ?thesis by (subst run_loop.simps) simp
      next
        case (Inr r')
        with run_row_steps have "steps r' = steps r + 1" by fastforce
        then have "run_done by_va cap (run_loop by_va addresses fend cap r')"
          using Inr ok lt by (intro less.hyps) simp_all
        with Some False Inr show ?thesis by (subst run_loop.simps) simp
      qed
    qed
  qed
qed

lemma rows_by_va_key: "rows_by_va rows a = Some row \<Longrightarrow> address row = a \<and> row \<in> set rows"
  by (auto simp: rows_by_va_def dest!: map_of_SomeD)

lemma rows_by_va_iff: "rows_by_va rows a \<noteq> None \<longleftrightarrow> a \<in> address ` set rows"
  by (auto simp: rows_by_va_def map_of_eq_None_iff image_image)

section \<open>Properties\<close>

text \<open>
  The emulator decides conditional jumps as x86 does. After \<open>cmp a, b\<close> with both operands
  known, every jump mnemonic with a documented condition (equality, unsigned and signed order) is
  taken exactly when its relation holds between the two 64-bit values.
\<close>

theorem cmp_then_branch_correct:
  assumes "value_of a st = Some l" "value_of b st = Some r"
    and "jcc_meaning (bp_mnemonic p) l r = Some t"
  shows "branch_is_satisfied p (snd (emulate_compare ''cmp'' [a, b] st)) = t"
proof -
  let ?st = "st\<lparr>nat_last_compare := Some (normalize_operand a, normalize_operand b, Some l, Some r)\<rparr>"
  have st: "snd (emulate_compare ''cmp'' [a, b] st) = set_compare_flags True l r ?st"
    using assms(1,2) by (simp add: emulate_compare_def)
  have "nat_last_compare (set_compare_flags True l r ?st) \<noteq> None"
    by (simp add: set_compare_flags_def Let_def)
  then show ?thesis
    unfolding st branch_is_satisfied_def Let_def
    using jcc_after_cmp [OF assms(3) refl] by simp
qed

lemma cmp_then_branch_correct_witness:
  "let p = \<lparr>bp_site_va = 0, bp_mnemonic = ''jl'', left = ''eax'', right = ''5'', bp_text = [],
            left_value = None, right_value = None\<rparr>
   in branch_is_satisfied p (snd (emulate_compare ''cmp'' [''eax'', ''5''] (set_register ''eax'' 3 native_default)))"
proof -
  let ?p = "\<lparr>bp_site_va = 0, bp_mnemonic = ''jl'', left = ''eax'', right = ''5'', bp_text = [],
            left_value = None, right_value = None\<rparr>"
  have "value_of ''eax'' (set_register ''eax'' 3 native_default) = Some 3"
    "value_of ''5'' (set_register ''eax'' 3 native_default) = Some 5" by code_simp+
  moreover have "jcc_meaning (bp_mnemonic ?p) 3 5 = Some True" by code_simp
  ultimately show ?thesis unfolding Let_def by (simp only: cmp_then_branch_correct)
qed

text \<open>
  A run of the emulator is bounded and confined. It takes at most \<open>cap\<close> steps, records one
  visited address per step and only addresses of the function's own instructions, keeps at most
  sixteen unsupported rows, reports the cap exactly when the budget ended the run, and records at
  most one branch more than it has distinct branch edges (no edge is taken twice).
\<close>

theorem emulate_run_bounded:
  assumes "function_rows inp f \<noteq> []"
  shows "let r = emulate_run inp f regs cap
    in steps r \<le> cap \<and> length (visited_path r) = steps r \<and>
       set (visited_path r) \<subseteq> address ` set (function_rows inp f) \<and>
       (\<forall>a\<in>set (visited_path r). fn_start f \<le> a \<and> a < fn_end f) \<and>
       supported_steps r + length (unsupported r) \<le> steps r \<and> length (unsupported r) \<le> 16 \<and>
       (cap_hit r \<longleftrightarrow> run_exit r = ''budget_cap'') \<and> (cap_hit r \<longrightarrow> steps r = cap) \<and>
       length (predicates r) \<le> Suc (card (visited_edges r))"
proof -
  let ?rows = "function_rows inp f"
  have init: "run_ok (rows_by_va ?rows) cap (run_init st a)" "edges_ok (run_init st a)" for st a
    by (simp_all add: run_ok_def edges_ok_def run_init_def)
  have "run_done (rows_by_va ?rows) cap (emulate_run inp f regs cap)"
    unfolding emulate_run_def Let_def
    by (rule run_loop_ok [OF _ init]) (use rows_by_va_key in blast)
  moreover have "a \<in> address ` set ?rows \<Longrightarrow> fn_start f \<le> a \<and> a < fn_end f" for a
    by (auto simp: function_rows_def)
  ultimately show ?thesis
    unfolding run_done_def run_ok_def Let_def rows_by_va_iff by (simp add: subset_iff)
qed

lemma emulate_run_bounded_witness:
  "let f = \<lparr>fn_start = 16, fn_end = 32, fn_size = 16, fn_source = [], calls = [], calls_imports = [],
            fn_strings = [], xrefs = 0\<rparr>;
       inp = \<lparr>emulation_budget = ''max'', function_list = [f],
              instructions = [plain_ir 16 ''inc'' ''eax'', plain_ir 20 ''ret'' []], import_rows = []\<rparr>
   in steps (emulate_run inp f [] 5) \<le> 5"
proof -
  let ?f = "\<lparr>fn_start = 16, fn_end = 32, fn_size = 16, fn_source = [], calls = [], calls_imports = [],
            fn_strings = [], xrefs = 0\<rparr>"
  let ?inp = "\<lparr>emulation_budget = ''max'', function_list = [?f],
              instructions = [plain_ir 16 ''inc'' ''eax'', plain_ir 20 ''ret'' []], import_rows = []\<rparr>"
  have "function_rows ?inp ?f \<noteq> []" by (simp add: function_rows_def plain_ir_def)
  from emulate_run_bounded [OF this, of "[]" 5] show ?thesis by (simp add: Let_def)
qed

end
