(* ===== verification/Branch_Lifter.thy ===== *)
theory Branch_Lifter
  imports Shadow_Typing Native_Props
begin

text \<open>
  The fallback lifter of \<open>src/concolic/predicate.rs\<close>: a branch predicate with textual operands
  becomes a Boolean node, through a table that binds operand names to variables of one width.

  The lemmas give the meaning of the predicates both lifters build, show that the two lifters
  build the same node for every mnemonic this one knows, and that lifting keeps the DAG and the
  table well formed.
\<close>

section \<open>The lifter\<close>

record SymbolTable =
  by_name :: "string \<Rightarrow> NodeId option"
  table_width :: u32

datatype LiftError = UnsupportedMnemonic string | EmptyOperand

definition symbol_table_new :: "u32 \<Rightarrow> SymbolTable" where
  "symbol_table_new default_width = \<lparr>by_name = Map.empty, table_width = default_width\<rparr>"

definition fetch_or_define ::
  "SymbolTable \<Rightarrow> ExprDag \<Rightarrow> string \<Rightarrow> NodeId \<times> ExprDag \<times> SymbolTable" where
  "fetch_or_define t d name =
     (case by_name t name of
        Some i \<Rightarrow> (i, d, t)
      | None \<Rightarrow>
          let (sy, d) = intern_symbol d name;
              (i, d) = intern d (Var sy (Bv (table_width t)))
          in (i, d, t\<lparr>by_name := (by_name t)(name \<mapsto> i)\<rparr>))"

definition parse_numeric :: "string \<Rightarrow> u64 option" where
  "parse_numeric s =
     (case (case strip_prefix ''0x'' s of Some r \<Rightarrow> Some r | None \<Rightarrow> strip_prefix ''0X'' s) of
        Some rest \<Rightarrow> parse_u64_radix 16 rest
      | None \<Rightarrow>
          (case strip_prefix ''-'' s of
             Some rest \<Rightarrow> map_option (\<lambda>v. of_int (- v)) (parse_i64 rest)
           | None \<Rightarrow> parse_u64 s))"

definition operand_to_node ::
  "string \<Rightarrow> u64 option \<Rightarrow> ExprDag \<Rightarrow> SymbolTable \<Rightarrow> NodeId \<times> ExprDag \<times> SymbolTable" where
  "operand_to_node operand concrete d t =
     (case parse_numeric operand of
        Some v \<Rightarrow> let (i, d) = intern d (BvConst (ucast v) (table_width t)) in (i, d, t)
      | None \<Rightarrow>
          (case concrete of
             Some v \<Rightarrow> let (i, d) = intern d (BvConst (ucast v) (table_width t)) in (i, d, t)
           | None \<Rightarrow> fetch_or_define t d operand))"

definition pred_relation_for_branch :: "string \<Rightarrow> string option" where
  "pred_relation_for_branch mnem =
     (let m = to_ascii_lowercase mnem
      in if m \<in> set [''je'', ''jz''] then Some ''=''
         else if m \<in> set [''jne'', ''jnz''] then Some ''!=''
         else if m \<in> set [''ja'', ''jnbe''] then Some ''u>''
         else if m \<in> set [''jae'', ''jnb''] then Some ''u>=''
         else if m \<in> set [''jb'', ''jc'', ''jnae''] then Some ''u<''
         else if m \<in> set [''jbe'', ''jna''] then Some ''u<=''
         else if m \<in> set [''jg'', ''jnle''] then Some ''s>''
         else if m \<in> set [''jge'', ''jnl''] then Some ''s>=''
         else if m \<in> set [''jl'', ''jnge''] then Some ''s<''
         else if m \<in> set [''jle'', ''jng''] then Some ''s<=''
         else None)"

definition apply_relation :: "string \<Rightarrow> NodeId \<Rightarrow> NodeId \<Rightarrow> ExprDag \<Rightarrow> NodeId \<times> ExprDag" where
  "apply_relation rel l r d =
     (if rel = ''='' then intern d (EEq l r)
      else if rel = ''!='' then intern_not d (EEq l r)
      else if rel = ''u<'' then intern d (Ult l r)
      else if rel = ''u<='' then intern d (Ule l r)
      else if rel = ''u>'' then intern_not d (Ule l r)
      else if rel = ''u>='' then intern_not d (Ult l r)
      else if rel = ''s<'' then intern d (Slt l r)
      else if rel = ''s<='' then intern d (Sle l r)
      else if rel = ''s>'' then intern_not d (Sle l r)
      else if rel = ''s>='' then intern_not d (Slt l r)
      else intern d (BoolConst False))"

text \<open>The DAG and the table are returned on the error path too: the operands are bound first.\<close>

definition lift_branch_predicate ::
  "BranchPredicate \<Rightarrow> ExprDag \<Rightarrow> SymbolTable \<Rightarrow> (LiftError, NodeId) result \<times> ExprDag \<times> SymbolTable" where
  "lift_branch_predicate p d t =
     (if left p = [] \<or> right p = [] then (Err EmptyOperand, d, t)
      else
        let (l, d, t) = operand_to_node (left p) (left_value p) d t;
            (r, d, t) = operand_to_node (right p) (right_value p) d t
        in case pred_relation_for_branch (bp_mnemonic p) of
             None \<Rightarrow> (Err (UnsupportedMnemonic (bp_mnemonic p)), d, t)
           | Some rel \<Rightarrow> let (i, d) = apply_relation rel l r d in (Ok i, d, t))"

section \<open>The meaning of the relations\<close>

fun rel_sem :: "BranchRel \<Rightarrow> nat \<Rightarrow> int \<Rightarrow> int \<Rightarrow> bool" where
  "rel_sem Eq w x y \<longleftrightarrow> x = y"
| "rel_sem Ne w x y \<longleftrightarrow> x \<noteq> y"
| "rel_sem UGt w x y \<longleftrightarrow> y < x"
| "rel_sem UGe w x y \<longleftrightarrow> y \<le> x"
| "rel_sem ULt w x y \<longleftrightarrow> x < y"
| "rel_sem ULe w x y \<longleftrightarrow> x \<le> y"
| "rel_sem SGt w x y \<longleftrightarrow> sval w y < sval w x"
| "rel_sem SGe w x y \<longleftrightarrow> sval w y \<le> sval w x"
| "rel_sem SLt w x y \<longleftrightarrow> sval w x < sval w y"
| "rel_sem SLe w x y \<longleftrightarrow> sval w x \<le> sval w y"

lemma intern_not_eval:
  assumes "wf_dag d" "expr_ok d e" "intern_not d e = (i, d')" "length (nodes d) + 2 \<le> 2 ^ 32"
    and "eval_step env (eval env d) e = Some (VBool b)"
  shows "wf_dag d' \<and> dag_le d d' \<and> eval env d' i = Some (VBool (\<not> b))"
proof -
  obtain j d1 where j: "intern d e = (j, d1)" by fastforce
  have l1: "length (nodes d1) \<le> length (nodes d) + 1" using intern_grows [OF j] by simp
  with assms(4) have "length (nodes d1) \<le> 2 ^ 32" by simp
  from intern_eval [OF assms(1,2) j this]
  have 1: "wf_dag d1" "dag_le d d1" "eval env d1 j = Some (VBool b)" using assms(5) by simp_all
  have i: "intern d1 (ENot j) = (i, d')" using assms(3) j by (simp add: intern_not_def)
  have "length (nodes d') \<le> 2 ^ 32" using intern_grows [OF i] l1 assms(4) by simp
  moreover have "expr_ok d1 (ENot j)" using eval_bound [OF 1(1,3)] by (simp add: expr_ok_def)
  ultimately have "wf_dag d'" "dag_le d1 d'" "eval env d' i = Some (VBool (\<not> b))"
    using intern_eval [OF 1(1) _ i] 1(3) by simp_all
  with 1(2) show ?thesis using dag_le_trans by blast
qed

lemma intern_pred_eval:
  assumes "wf_dag d" "expr_ok d e" "intern d e = (i, d')" "length (nodes d) + 2 \<le> 2 ^ 32"
    and "eval_step env (eval env d) e = Some (VBool b)"
  shows "wf_dag d' \<and> dag_le d d' \<and> eval env d' i = Some (VBool b)"
proof -
  have "length (nodes d') \<le> 2 ^ 32" using intern_grows [OF assms(3)] assms(4) by simp
  from intern_eval [OF assms(1-3) this] assms(5) show ?thesis by simp
qed

lemma build_predicate_eval:
  assumes "wf_dag d" "length (nodes d) + 2 \<le> 2 ^ 32"
    and "eval env d l = Some (VBv w x)" "eval env d r = Some (VBv w y)"
    and "build_predicate d rel l r = (i, d')"
  shows "wf_dag d' \<and> dag_le d d' \<and> eval env d' i = Some (VBool (rel_sem rel w x y))"
proof -
  have b: "unat l < length (nodes d)" "unat r < length (nodes d)"
    using eval_bound [OF assms(1)] assms(3,4) by blast+
  have ok: "expr_ok d (EEq l r)" "expr_ok d (Ult l r)" "expr_ok d (Ule l r)"
    "expr_ok d (Slt l r)" "expr_ok d (Sle l r)"
    using b by (simp_all add: expr_ok_def)
  note p = intern_pred_eval [OF assms(1) _ _ assms(2)] and n = intern_not_eval [OF assms(1) _ _ assms(2)]
  show ?thesis
  proof (cases rel)
    case Eq with p [OF ok(1), of i d' env "x = y"] assms show ?thesis by simp
  next
    case Ne with n [OF ok(1), of i d' env "x = y"] assms show ?thesis by simp
  next
    case UGt with n [OF ok(3), of i d' env "x \<le> y"] assms show ?thesis by (simp add: not_le)
  next
    case UGe with n [OF ok(2), of i d' env "x < y"] assms show ?thesis by (simp add: not_less)
  next
    case ULt with p [OF ok(2), of i d' env "x < y"] assms show ?thesis by simp
  next
    case ULe with p [OF ok(3), of i d' env "x \<le> y"] assms show ?thesis by simp
  next
    case SGt with n [OF ok(5), of i d' env "sval w x \<le> sval w y"] assms show ?thesis by (simp add: not_le)
  next
    case SGe with n [OF ok(4), of i d' env "sval w x < sval w y"] assms show ?thesis by (simp add: not_less)
  next
    case SLt with p [OF ok(4), of i d' env "sval w x < sval w y"] assms show ?thesis by simp
  next
    case SLe with p [OF ok(5), of i d' env "sval w x \<le> sval w y"] assms show ?thesis by simp
  qed
qed

section \<open>The two lifters agree\<close>

definition rel_text :: "BranchRel \<Rightarrow> string" where
  "rel_text rel =
     (case rel of Eq \<Rightarrow> ''='' | Ne \<Rightarrow> ''!='' | UGt \<Rightarrow> ''u>'' | UGe \<Rightarrow> ''u>='' | ULt \<Rightarrow> ''u<'' | ULe \<Rightarrow> ''u<=''
      | SGt \<Rightarrow> ''s>'' | SGe \<Rightarrow> ''s>='' | SLt \<Rightarrow> ''s<'' | SLe \<Rightarrow> ''s<='')"

lemma apply_relation_build: "apply_relation (rel_text rel) l r d = build_predicate d rel l r"
  by (cases rel) (simp_all add: apply_relation_def rel_text_def)

lemma pred_relation_agrees:
  "pred_relation_for_branch m =
     (if to_ascii_lowercase m = ''jnc'' then None
      else map_option rel_text (relation_for_branch (to_ascii_lowercase m)))"
  by (simp add: pred_relation_for_branch_def relation_for_branch_def Let_def rel_text_def)

section \<open>The symbol table\<close>

definition sym_table_ok :: "SymbolTable \<Rightarrow> ExprDag \<Rightarrow> bool" where
  "sym_table_ok t d \<longleftrightarrow>
     (\<forall>name i. by_name t name = Some i \<longrightarrow>
        (\<exists>sy. try_get d i = Some (Var sy (Bv (table_width t))) \<and> symbol_index d name = Some sy))"

text \<open>What an operand stands for: its literal, its concrete value, or the variable of its name.\<close>

definition operand_val :: "assignment \<Rightarrow> ExprDag \<Rightarrow> u32 \<Rightarrow> string \<Rightarrow> u64 option \<Rightarrow> val option" where
  "operand_val env d w operand concrete =
     (case (case parse_numeric operand of Some v \<Rightarrow> Some v | None \<Rightarrow> concrete) of
        Some v \<Rightarrow> Some (VBv (unat w) (take_bit (unat w) (uint v)))
      | None \<Rightarrow> map_option (\<lambda>sy. env sy (Bv w)) (symbol_index d operand))"

lemma uint_ucast_u128 [simp]: "uint (ucast (v :: u64) :: u128) = uint v"
proof -
  have u: "uint w = int (unat w)" for w :: "'x::len word" by simp
  show ?thesis unfolding u by simp
qed

text \<open>A DAG that grew by at most \<open>k\<close> nodes and symbols, index entries kept.\<close>

definition ext_by :: "nat \<Rightarrow> ExprDag \<Rightarrow> ExprDag \<Rightarrow> bool" where
  "ext_by k d d' \<longleftrightarrow>
     wf_dag d' \<and> dag_le d d' \<and> length (nodes d') \<le> length (nodes d) + k \<and>
     length (symbols d') \<le> length (symbols d) + k \<and>
     (\<forall>s i. symbol_index d s = Some i \<longrightarrow> symbol_index d' s = Some i)"

lemma ext_by_refl: "wf_dag d \<Longrightarrow> ext_by k d d"
  by (simp add: ext_by_def)

lemma ext_by_trans: "ext_by a d d1 \<Longrightarrow> ext_by b d1 d2 \<Longrightarrow> ext_by (a + b) d d2"
  unfolding ext_by_def by (auto intro: dag_le_trans)

lemma ext_by_intern:
  assumes "wf_dag d" "expr_ok d e" "intern d e = (i, d')" "length (nodes d) + 1 \<le> 2 ^ 32"
  shows "ext_by 1 d d'" "eval env d' i = eval_step env (eval env d) e" "try_get d' i = Some e"
proof -
  have g: "length (nodes d') \<le> length (nodes d) + 1" "symbols d' = symbols d"
    using intern_grows [OF assms(3)] by simp_all
  then have l: "length (nodes d') \<le> 2 ^ 32" using assms(4) by simp
  have "symbol_index d' = symbol_index d" using intern_symbols(2) [of d e] assms(3) by simp
  with g intern_eval(1,2) [OF assms(1-3) l] show "ext_by 1 d d'" by (simp add: ext_by_def)
  show "eval env d' i = eval_step env (eval env d) e" by (rule intern_eval(3) [OF assms(1-3) l])
  show "try_get d' i = Some e"
    using node_tab.put_lookup [of d e] assms(1,3) l by (simp add: try_get_def wf_dag_def)
qed

lemma ext_by_symbol:
  assumes "wf_dag d" "intern_symbol d name = (sy, d')" "length (symbols d) + 1 \<le> 2 ^ 32"
  shows "ext_by 1 d d'" "symbol_index d' name = Some sy" "unat sy < length (symbols d')"
proof -
  have d': "d' = snd (intern_symbol d name)" and sy: "sy = fst (intern_symbol d name)"
    using assms(2) by simp_all
  have l: "length (symbols d') \<le> length (symbols d) + 1"
    unfolding d' by (cases "symbol_index d name") (simp_all add: intern_symbol_def Let_def)
  have "wf_dag d'" unfolding d' using assms(1,3) l d' by (intro intern_symbol_wf) simp_all
  then show "ext_by 1 d d'"
    using l sym_tab.put_mono unfolding ext_by_def d' by simp
  show "symbol_index d' name = Some sy" unfolding d' sy by (rule sym_tab.put_find)
  show "unat sy < length (symbols d')"
    using sym_tab.put_lookup(1) [of d name] assms(1,3) l unfolding d' sy by (simp add: wf_dag_def)
qed

lemma sym_table_ext: "sym_table_ok t d \<Longrightarrow> ext_by k d d' \<Longrightarrow> sym_table_ok t d'"
  unfolding sym_table_ok_def ext_by_def by (meson dag_le_try_get)

lemma operand_val_ext:
  "operand_val env d w s c = Some v \<Longrightarrow> ext_by k d d' \<Longrightarrow> operand_val env d' w s c = Some v"
  by (auto simp: operand_val_def ext_by_def split: option.splits)

lemma intern_index: "intern d e = (i, d') \<Longrightarrow> symbol_index d' = symbol_index d"
  using intern_symbols(2) [of d e] by simp

lemma intern_not_index: "intern_not d e = (i, d') \<Longrightarrow> symbol_index d' = symbol_index d"
  by (auto simp: intern_not_def split: prod.splits dest!: intern_index)

lemma predicate_index: "build_predicate d rel l r = (i, d') \<Longrightarrow> symbol_index d' = symbol_index d"
  by (cases rel) (auto dest: intern_index intern_not_index)

lemma fetch_or_define_ok:
  assumes "wf_dag d" "sym_table_ok t d" "length (nodes d) + 1 \<le> 2 ^ 32" "length (symbols d) + 1 \<le> 2 ^ 32"
    and "fetch_or_define t d name = (i, d', t')"
  shows "ext_by 2 d d' \<and> sym_table_ok t' d' \<and> table_width t' = table_width t \<and>
    length (nodes d') \<le> length (nodes d) + 1 \<and> length (symbols d') \<le> length (symbols d) + 1 \<and>
    (\<exists>sy. symbol_index d' name = Some sy \<and> eval env d' i = Some (env sy (Bv (table_width t))))"
proof (cases "by_name t name")
  case (Some j)
  then obtain sy where "try_get d j = Some (Var sy (Bv (table_width t)))" "symbol_index d name = Some sy"
    using assms(2) by (auto simp: sym_table_ok_def)
  with Some assms show ?thesis
    by (auto simp: fetch_or_define_def ext_by_refl eval_get)
next
  case None
  obtain sy d1 where s: "intern_symbol d name = (sy, d1)" by fastforce
  let ?e = "Var sy (Bv (table_width t))"
  obtain j d2 where j: "intern d1 ?e = (j, d2)" by fastforce
  note 1 = ext_by_symbol [OF assms(1) s assms(4)]
  have n1: "nodes d1 = nodes d" using intern_symbol_nodes(1) [of d name] s by simp
  have w1: "wf_dag d1" using 1(1) by (simp add: ext_by_def)
  have "expr_ok d1 ?e" using 1(3) by (simp add: expr_ok_def)
  note 2 = ext_by_intern [OF w1 this j] 
  have l1: "length (nodes d1) + 1 \<le> 2 ^ 32" using assms(3) n1 by simp
  have e: "ext_by 2 d d2" using ext_by_trans [OF 1(1) 2(1) [OF l1]] by (simp add: numeral_2_eq_2)
  have i2: "symbol_index d2 name = Some sy" using 1(2) 2(1) [OF l1] by (simp add: ext_by_def)
  have r: "i = j" "d' = d2" "t' = t\<lparr>by_name := (by_name t)(name \<mapsto> j)\<rparr>"
    using assms(5) None s j by (auto simp: fetch_or_define_def)
  have "sym_table_ok t' d'"
    using sym_table_ext [OF assms(2) e] 2(3) [OF l1] i2 unfolding r sym_table_ok_def by simp
  moreover have "length (nodes d2) \<le> length (nodes d) + 1" "symbols d2 = symbols d1"
    using intern_grows [OF j] n1 by simp_all
  moreover have "length (symbols d1) \<le> length (symbols d) + 1" using 1(1) by (simp add: ext_by_def)
  ultimately show ?thesis using e i2 2(2) [OF l1, of env] unfolding r by simp
qed

lemma operand_to_node_ok:
  assumes "wf_dag d" "sym_table_ok t d" "length (nodes d) + 1 \<le> 2 ^ 32" "length (symbols d) + 1 \<le> 2 ^ 32"
    and "operand_to_node operand c d t = (i, d', t')" "env_ok env"
  shows "ext_by 2 d d' \<and> sym_table_ok t' d' \<and> table_width t' = table_width t \<and>
    length (nodes d') \<le> length (nodes d) + 1 \<and> length (symbols d') \<le> length (symbols d) + 1 \<and>
    (\<exists>x. eval env d' i = Some (VBv (unat (table_width t)) x) \<and>
       operand_val env d' (table_width t) operand c = Some (VBv (unat (table_width t)) x))"
proof (cases "case parse_numeric operand of Some v \<Rightarrow> Some v | None \<Rightarrow> c")
  case (Some v)
  let ?e = "BvConst (ucast v) (table_width t)"
  obtain j d1 where j: "intern d ?e = (j, d1)" by fastforce
  have r: "i = j" "d' = d1" "t' = t"
    using assms(5) Some j by (auto simp: operand_to_node_def split: option.splits)
  have "expr_ok d ?e" by (simp add: expr_ok_def)
  note 1 = ext_by_intern [OF assms(1) this j assms(3)]
  have "ext_by 2 d d1" using 1(1) by (simp add: ext_by_def)
  moreover have "length (nodes d1) \<le> length (nodes d) + 1 \<and> length (symbols d1) \<le> length (symbols d) + 1"
    using 1(1) by (simp add: ext_by_def)
  ultimately show ?thesis
    using sym_table_ext [OF assms(2) 1(1)] 1(2) [of env] Some unfolding r by (simp add: operand_val_def)
next
  case None
  then have f: "fetch_or_define t d operand = (i, d', t')"
    using assms(5) by (auto simp: operand_to_node_def split: option.splits)
  have "\<exists>x. env sy (Bv w) = VBv (unat w) x" for sy w
  proof -
    have "val_ok (Bv w) (env sy (Bv w))" using assms(6) by (simp add: env_ok_def)
    then show ?thesis by (cases "env sy (Bv w)") auto
  qed
  with fetch_or_define_ok [OF assms(1-4) f, of env] None show ?thesis
    by (fastforce simp: operand_val_def)
qed

section \<open>Properties\<close>

text \<open>
  The predicate the shadow emulator builds means the relation of its jump. For operand nodes
  that evaluate to bit-vectors of one width, the node of \<open>build_predicate\<close> evaluates to the
  unsigned or two's-complement relation between the two values; the DAG only grows.
\<close>

theorem build_predicate_meaning:
  assumes "wf_dag d" "length (nodes d) + 2 \<le> 2 ^ 32"
    and "eval env d l = Some (VBv w x)" "eval env d r = Some (VBv w y)"
    and "build_predicate d rel l r = (i, d')"
  shows "wf_dag d' \<and> dag_le d d' \<and> eval env d' i = Some (VBool (rel_sem rel w x y))"
  by (rule build_predicate_eval [OF assms])

lemma build_predicate_meaning_witness:
  "let d = dag_of [] [BvConst 200 8, BvConst 5 8]; (i, d') = build_predicate d SLt 0 1
   in eval (\<lambda>_ _. VBool False) d' i = Some (VBool True)"
proof -
  let ?d = "dag_of [] [BvConst 200 8, BvConst 5 8]" and ?env = "\<lambda>_ _. VBool False"
  have d: "wf_dag ?d" "nodes ?d = [BvConst 200 8, BvConst 5 8]" by (rule dag_of_wf; simp)+
  obtain i d' where r: "build_predicate ?d SLt 0 1 = (i, d')" by fastforce
  have "try_get ?d 0 = Some (BvConst 200 8)" "try_get ?d 1 = Some (BvConst 5 8)"
    using d(2) by (simp_all add: try_get_def)
  then have "eval ?env ?d 0 = Some (VBv 8 200)" "eval ?env ?d 1 = Some (VBv 8 5)"
    by (simp_all add: eval_get [OF d(1)])
  moreover have "length (nodes ?d) + 2 \<le> 2 ^ 32" using d(2) by simp
  ultimately have "eval ?env d' i = Some (VBool (rel_sem SLt 8 200 5))"
    using build_predicate_meaning [OF d(1) _ _ _ r] by blast
  moreover have "rel_sem SLt 8 200 5" by (simp add: sval_def)
  ultimately show ?thesis using r by (simp add: Let_def)
qed

text \<open>
  C30: the fallback lifter is correct. From a well-formed DAG and table with room for four more
  nodes, it keeps both well formed; it fails exactly for an empty operand or an unknown mnemonic;
  otherwise the node it returns evaluates, under every assignment, to the relation of the jump
  between what the two operands stand for.
\<close>

theorem lift_branch_predicate_correct:
  assumes "wf_dag d" "sym_table_ok t d" "length (nodes d) + 4 \<le> 2 ^ 32" "length (symbols d) + 2 \<le> 2 ^ 32"
    and "env_ok env" "lift_branch_predicate p d t = (res, d', t')"
  shows "wf_dag d' \<and> dag_le d d' \<and> sym_table_ok t' d' \<and> table_width t' = table_width t \<and>
    (case res of
       Inl e \<Rightarrow> e = (if left p = [] \<or> right p = [] then EmptyOperand else UnsupportedMnemonic (bp_mnemonic p)) \<and>
         (left p = [] \<or> right p = [] \<or> pred_relation_for_branch (bp_mnemonic p) = None)
     | Inr i \<Rightarrow> \<exists>rel x y.
         relation_for_branch (to_ascii_lowercase (bp_mnemonic p)) = Some rel \<and>
         operand_val env d' (table_width t) (left p) (left_value p) = Some (VBv (unat (table_width t)) x) \<and>
         operand_val env d' (table_width t) (right p) (right_value p) = Some (VBv (unat (table_width t)) y) \<and>
         eval env d' i = Some (VBool (rel_sem rel (unat (table_width t)) x y)))"
proof (cases "left p = [] \<or> right p = []")
  case True
  with assms show ?thesis by (auto simp: lift_branch_predicate_def)
next
  case ne: False
  let ?w = "unat (table_width t)"
  obtain l d1 t1 where l: "operand_to_node (left p) (left_value p) d t = (l, d1, t1)"
    by (metis prod.collapse)
  obtain r d2 t2 where r: "operand_to_node (right p) (right_value p) d1 t1 = (r, d2, t2)"
    by (metis prod.collapse)
  have "length (nodes d) + 1 \<le> 2 ^ 32" "length (symbols d) + 1 \<le> 2 ^ 32" using assms(3,4) by simp_all
  note 1 = operand_to_node_ok [OF assms(1,2) this l assms(5)]
  then obtain x where x: "eval env d1 l = Some (VBv ?w x)"
    "operand_val env d1 (table_width t) (left p) (left_value p) = Some (VBv ?w x)" by blast
  have w1: "wf_dag d1" "sym_table_ok t1 d1" using 1 by (simp_all add: ext_by_def)
  have "length (nodes d1) + 1 \<le> 2 ^ 32" "length (symbols d1) + 1 \<le> 2 ^ 32" using 1 assms(3,4) by simp_all
  note 2 = operand_to_node_ok [OF w1 this r assms(5)]
  then obtain y where y: "eval env d2 r = Some (VBv ?w y)"
    "operand_val env d2 (table_width t) (right p) (right_value p) = Some (VBv ?w y)" using 1 by auto
  have w2: "wf_dag d2" "sym_table_ok t2 d2" "ext_by 2 d1 d2" using 2 by (simp_all add: ext_by_def)
  have le: "dag_le d d2" using 1 2 by (auto simp: ext_by_def intro: dag_le_trans)
  have x2: "eval env d2 l = Some (VBv ?w x)"
    using eval_extend [OF w1(1) w2(1) _ eval_bound [OF w1(1) x(1)]] w2(3) x(1) by (simp add: ext_by_def)
  show ?thesis
  proof (cases "pred_relation_for_branch (bp_mnemonic p)")
    case None
    with assms(6) ne l r w2 le 1 2 show ?thesis by (auto simp: lift_branch_predicate_def)
  next
    case (Some rt)
    then obtain rel where rel: "relation_for_branch (to_ascii_lowercase (bp_mnemonic p)) = Some rel" "rt = rel_text rel"
      by (auto simp: pred_relation_agrees split: if_splits)
    obtain i d3 where i: "build_predicate d2 rel l r = (i, d3)" by fastforce
    have "length (nodes d2) + 2 \<le> 2 ^ 32" using 1 2 assms(3) by simp
    from build_predicate_eval [OF w2(1) this x2 y(1) i]
    have 3: "wf_dag d3" "dag_le d2 d3" "eval env d3 i = Some (VBool (rel_sem rel ?w x y))" by simp_all
    have res: "res = Ok i" "d' = d3" "t' = t2"
      using assms(6) ne l r Some rel(2) i by (simp_all add: lift_branch_predicate_def apply_relation_build)
    have e3: "ext_by 2 d2 d3"
      using 3 grow_predicate [OF i] predicate_index [OF i] by (simp add: ext_by_def)
    have "operand_val env d3 (table_width t) (left p) (left_value p) = Some (VBv ?w x)"
      using operand_val_ext [OF operand_val_ext [OF x(2) w2(3)] e3] .
    moreover have "operand_val env d3 (table_width t) (right p) (right_value p) = Some (VBv ?w y)"
      using operand_val_ext [OF y(2) e3] .
    ultimately show ?thesis
      unfolding res using 1 2 3 rel(1) dag_le_trans [OF le 3(2)] sym_table_ext [OF w2(2) e3] by auto
  qed
qed

lemma lift_branch_predicate_correct_witness:
  "let p = \<lparr>bp_site_va = 0, bp_mnemonic = ''jb'', left = ''rax'', right = ''0x10'', bp_text = [],
            left_value = None, right_value = None\<rparr>;
       (res, d', t') = lift_branch_predicate p new (symbol_table_new 64)
   in wf_dag d' \<and> sym_table_ok t' d' \<and> (\<exists>i. res = Ok i)"
proof -
  let ?p = "\<lparr>bp_site_va = 0, bp_mnemonic = ''jb'', left = ''rax'', right = ''0x10'', bp_text = [],
            left_value = None, right_value = None\<rparr>"
  obtain res d' t' where r: "lift_branch_predicate ?p new (symbol_table_new 64) = (res, d', t')"
    by (metis prod.collapse)
  define env where "env = (\<lambda>(_ :: SymbolId) s. case s of Bool \<Rightarrow> VBool False | Bv w \<Rightarrow> VBv (unat w) 0 | Array ib vb \<Rightarrow> VArr (\<lambda>_. 0))"
  have env: "env_ok env" by (auto simp: env_ok_def env_def split: Sort.split)
  have t: "sym_table_ok (symbol_table_new 64) new" by (simp add: sym_table_ok_def symbol_table_new_def)
  have n: "length (nodes new) + 4 \<le> 2 ^ 32" "length (symbols new) + 2 \<le> 2 ^ 32" by (simp_all add: new_def)
  have rel: "pred_relation_for_branch ''jb'' = Some ''u<''" by code_simp
  have "\<exists>i. res = Ok i"
    using r rel by (auto simp: lift_branch_predicate_def split: prod.splits)
  with lift_branch_predicate_correct [OF wf_dag_new t n env r] r show ?thesis by auto
qed

text \<open>
  The two lifters agree. The fallback lifter knows every mnemonic the shadow emulator knows
  except \<open>jnc\<close>, in any letter case, and builds the very same node for it.
\<close>

theorem lifters_agree:
  "(pred_relation_for_branch m = None \<longleftrightarrow>
      relation_for_branch (to_ascii_lowercase m) = None \<or> to_ascii_lowercase m = ''jnc'') \<and>
   (\<forall>rt rel. pred_relation_for_branch m = Some rt \<longrightarrow> relation_for_branch (to_ascii_lowercase m) = Some rel \<longrightarrow>
      apply_relation rt l r d = build_predicate d rel l r)"
  by (auto simp: pred_relation_agrees apply_relation_build)

lemma lifters_agree_witness:
  "apply_relation ''u<'' 0 1 new = build_predicate new ULt 0 1"
proof -
  have "pred_relation_for_branch ''JB'' = Some ''u<''"
    "relation_for_branch (to_ascii_lowercase ''JB'') = Some ULt" by code_simp+
  with lifters_agree [of "''JB''" 0 1 new] show ?thesis by blast
qed

section \<open>Symbolic and concrete branches\<close>

lemma sval_64: "sval 64 (uint (a :: u64)) = sint a"
  by (simp add: sval_def sint_uint)

lemma rel_sem_jcc:
  assumes "relation_for_branch m = Some rel"
  shows "jcc_meaning m a b = Some (rel_sem rel 64 (uint a) (uint b))"
proof -
  have u: "(a = b) = (uint a = uint b)" by (simp add: word_uint_eq_iff)
  show ?thesis
    using assms unfolding relation_for_branch_def jcc_meaning_def
    by (simp split: if_splits; elim disjE; simp add: sval_64 u word_less_def word_le_def)
qed

text \<open>
  C2: the symbolic and the concrete emulator agree on branches. When two nodes evaluate to the
  64-bit values that the native emulator reads for the operands of a \<open>cmp\<close>, the predicate the
  shadow emulator builds for a conditional jump evaluates to the decision the native emulator takes.
\<close>

theorem symbolic_branch_matches_native:
  assumes "wf_dag d" "length (nodes d) + 2 \<le> 2 ^ 32"
    and "eval env d l = Some (VBv 64 (uint a))" "eval env d r = Some (VBv 64 (uint b))"
    and "value_of x st = Some a" "value_of y st = Some b"
    and "relation_for_branch (bp_mnemonic p) = Some rel" "build_predicate d rel l r = (i, d')"
  shows "eval env d' i = Some (VBool (branch_is_satisfied p (snd (emulate_compare ''cmp'' [x, y] st))))"
proof -
  let ?st = "st\<lparr>nat_last_compare := Some (normalize_operand x, normalize_operand y, Some a, Some b)\<rparr>"
  have st: "snd (emulate_compare ''cmp'' [x, y] st) = set_compare_flags True a b ?st"
    using assms(5,6) by (simp add: emulate_compare_def)
  have "nat_last_compare (set_compare_flags True a b ?st) \<noteq> None"
    by (simp add: set_compare_flags_def Let_def)
  then have "branch_is_satisfied p (snd (emulate_compare ''cmp'' [x, y] st)) = rel_sem rel 64 (uint a) (uint b)"
    unfolding st branch_is_satisfied_def Let_def
    using jcc_after_cmp [OF rel_sem_jcc [OF assms(7)] refl] by simp
  with build_predicate_eval [OF assms(1-4,8)] show ?thesis by simp
qed

lemma symbolic_branch_matches_native_witness:
  "let d = dag_of [] [BvConst 3 64, BvConst 5 64]; st = set_register ''rax'' 3 native_default;
       p = \<lparr>bp_site_va = 0, bp_mnemonic = ''jl'', left = [], right = [], bp_text = [],
            left_value = None, right_value = None\<rparr>;
       (i, d') = build_predicate d SLt 0 1
   in eval (\<lambda>_ _. VBool False) d' i =
        Some (VBool (branch_is_satisfied p (snd (emulate_compare ''cmp'' [''rax'', ''5''] st))))"
proof -
  let ?d = "dag_of [] [BvConst 3 64, BvConst 5 64]" and ?env = "\<lambda>_ _. VBool False"
  let ?st = "set_register ''rax'' 3 native_default"
  let ?p = "\<lparr>bp_site_va = 0, bp_mnemonic = ''jl'', left = [], right = [], bp_text = [],
            left_value = None, right_value = None\<rparr>"
  have d: "wf_dag ?d" "nodes ?d = [BvConst 3 64, BvConst 5 64]" by (rule dag_of_wf; simp)+
  obtain i d' where r: "build_predicate ?d SLt 0 1 = (i, d')" by fastforce
  have "try_get ?d 0 = Some (BvConst 3 64)" "try_get ?d 1 = Some (BvConst 5 64)"
    using d(2) by (simp_all add: try_get_def)
  then have e: "eval ?env ?d 0 = Some (VBv 64 (uint (3 :: u64)))" "eval ?env ?d 1 = Some (VBv 64 (uint (5 :: u64)))"
    by (simp_all add: eval_get [OF d(1)])
  have v: "value_of ''rax'' ?st = Some 3" "value_of ''5'' ?st = Some 5" by code_simp+
  have "relation_for_branch (bp_mnemonic ?p) = Some SLt" by code_simp
  moreover have "length (nodes ?d) + 2 \<le> 2 ^ 32" using d(2) by simp
  ultimately show ?thesis
    using symbolic_branch_matches_native [OF d(1) _ e v _ r] r by (simp add: Let_def)
qed

end
