(* ===== verification/Symbolic_Solver.thy ===== *)
theory Symbolic_Solver
  imports Native_Props
begin

text \<open>
  The bounded path solver of \<open>src/symbolic_solver.rs\<close>: one branch predicate of the native
  emulator at a time, solved over unsigned 64-bit values without an external engine.

  The solver is sound except where \<open>wrapping_add\<close> wraps at the largest value, which is stated
  as a theorem of its own, and it orders signed jumps as unsigned ones.
\<close>

section \<open>The solver\<close>

record SolvedPredicate =
  constraints :: "string list"
  satisfiability :: string
  model :: "string \<Rightarrow> u64 option"

record SymbolicPathRecord =
  path_id :: string
  path_function :: u64
  path_site_va :: u64
  path_predicate :: string
  path_status :: string
  reason :: string
  path_constraints :: "string list"
  path_satisfiability :: string
  path_model :: "string \<Rightarrow> u64 option"
  path_cap_hit :: bool
  path_evidence :: "u64 list"

definition solver_relation :: "string \<Rightarrow> string option" where
  "solver_relation branch =
     (if branch \<in> set [''je'', ''jz''] then Some ''==''
      else if branch \<in> set [''jne'', ''jnz''] then Some ''!=''
      else if branch \<in> set [''ja'', ''jnbe'', ''jg'', ''jnle''] then Some ''>''
      else if branch \<in> set [''jae'', ''jnb'', ''jge'', ''jnl''] then Some ''>=''
      else if branch \<in> set [''jb'', ''jnae'', ''jl'', ''jnge''] then Some ''<''
      else if branch \<in> set [''jbe'', ''jna'', ''jle'', ''jng''] then Some ''<=''
      else None)"

definition relation_holds :: "string \<Rightarrow> u64 \<Rightarrow> u64 \<Rightarrow> bool" where
  "relation_holds relation l r =
     (if relation = ''=='' then l = r
      else if relation = ''!='' then l \<noteq> r
      else if relation = ''>'' then l > r
      else if relation = ''>='' then l \<ge> r
      else if relation = ''<'' then l < r
      else if relation = ''<='' then l \<le> r
      else False)"

definition checked_sub_one :: "u64 \<Rightarrow> u64 option" where
  "checked_sub_one v = (if v \<ge> 1 then Some (v - 1) else None)"

definition satisfying_value :: "string \<Rightarrow> u64 \<Rightarrow> u64 option" where
  "satisfying_value relation r =
     (if relation = ''=='' then Some r
      else if relation = ''!='' then Some (r + 1)
      else if relation = ''>'' then Some (r + 1)
      else if relation = ''>='' then Some r
      else if relation = ''<'' then checked_sub_one r
      else if relation = ''<='' then Some r
      else None)"

definition satisfying_value_for_right :: "string \<Rightarrow> u64 \<Rightarrow> u64 option" where
  "satisfying_value_for_right relation l =
     (if relation = ''=='' then Some l
      else if relation = ''!='' then Some (l + 1)
      else if relation = ''>'' then checked_sub_one l
      else if relation = ''>='' then Some l
      else if relation = ''<'' then Some (l + 1)
      else if relation = ''<='' then Some l
      else None)"

text \<open>\<open>or_else\<close>: a recorded value wins over the literal in the operand text.\<close>

definition left_const :: "BranchPredicate \<Rightarrow> u64 option" where
  "left_const p = (case left_value p of Some v \<Rightarrow> Some v | None \<Rightarrow> parse_int (left p))"

definition right_const :: "BranchPredicate \<Rightarrow> u64 option" where
  "right_const p = (case right_value p of Some v \<Rightarrow> Some v | None \<Rightarrow> parse_int (right p))"

definition predicate_relation :: "BranchPredicate \<Rightarrow> string" where
  "predicate_relation p = (case solver_relation (bp_mnemonic p) of Some r \<Rightarrow> r | None \<Rightarrow> ''unknown'')"

definition bind_operand :: "string \<Rightarrow> u64 \<Rightarrow> (string \<Rightarrow> u64 option) \<Rightarrow> (string \<Rightarrow> u64 option)" where
  "bind_operand name v m = (if parse_int name = None \<and> name \<noteq> [] then m(name \<mapsto> v) else m)"

definition solve_values :: "BranchPredicate \<Rightarrow> string \<Rightarrow> string \<times> (string \<Rightarrow> u64 option)" where
  "solve_values p relation =
     (case (left_const p, right_const p) of
        (Some l, Some r) \<Rightarrow>
          if relation_holds relation l r
          then (''satisfiable'', bind_operand (right p) r (bind_operand (left p) l Map.empty))
          else (''unsatisfiable'', Map.empty)
      | (None, Some r) \<Rightarrow>
          (case satisfying_value relation r of
             Some v \<Rightarrow> (''satisfiable'', [left p \<mapsto> v])
           | None \<Rightarrow> (''unknown'', Map.empty))
      | (Some l, None) \<Rightarrow>
          (case satisfying_value_for_right relation l of
             Some v \<Rightarrow> (''satisfiable'', [right p \<mapsto> v])
           | None \<Rightarrow> (''unknown'', Map.empty))
      | (None, None) \<Rightarrow> (''unknown'', Map.empty))"

definition solve_predicate :: "BranchPredicate \<Rightarrow> SolvedPredicate" where
  "solve_predicate p =
     (let relation = predicate_relation p;
          constraint = left p @ '' '' @ relation @ '' '' @ right p
      in if relation = ''unknown'' \<or> left p = ''unknown'' \<or> right p = ''unknown''
         then \<lparr>constraints = [constraint], satisfiability = ''unknown'', model = Map.empty\<rparr>
         else let (sat, m) = solve_values p relation
              in \<lparr>constraints = [constraint], satisfiability = sat, model = m\<rparr>)"

definition path_record :: "NativeEmulationResult \<Rightarrow> nat \<Rightarrow> BranchPredicate \<Rightarrow> SymbolicPathRecord" where
  "path_record res i p =
     (let solved = solve_predicate p
      in \<lparr>path_id = ''sym:'' @ hex016 (bp_site_va p) @ '':'' @ pad0 4 (map upper_char (show_radix 16 i)),
          path_function = res_function res, path_site_va = bp_site_va p, path_predicate = bp_text p,
          path_status = (if res_cap_hit res then ''failed_capped'' else ''executed''),
          reason = ''bounded native constraint solve over branch predicate; no external SMT engine'',
          path_constraints = constraints solved, path_satisfiability = satisfiability solved,
          path_model = model solved, path_cap_hit = res_cap_hit res, path_evidence = [bp_site_va p]\<rparr>)"

definition build_symbolic_paths ::
  "PortableInput \<Rightarrow> NativeEmulationResult option \<Rightarrow> SymbolicPathRecord list" where
  "build_symbolic_paths inp result =
     (case result of
        None \<Rightarrow> []
      | Some res \<Rightarrow>
          let cap = budget_cap (emulation_budget inp);
              ps = take cap (res_predicates res)
          in map (\<lambda>(i, p). path_record res i p) (zip [0..<length ps] ps))"

section \<open>Soundness\<close>

definition max_u64 :: u64 where
  "max_u64 = - 1"

lemma add_one_greater: "r \<noteq> max_u64 \<Longrightarrow> r < r + 1" for r :: u64
proof -
  assume "r \<noteq> max_u64"
  then have "1 + r \<noteq> 0" by (simp add: max_u64_def eq_neg_iff_add_eq_0 add.commute)
  from unatSuc [OF this] show ?thesis by (simp add: word_less_nat_alt add.commute)
qed

lemma sub_one_less: "checked_sub_one r = Some v \<Longrightarrow> v < r"
proof -
  assume "checked_sub_one r = Some v"
  then have r: "1 \<le> r" "v = r - 1" by (auto simp: checked_sub_one_def split: if_splits)
  then have "unat v = unat r - 1" "0 < unat r"
    by (simp_all add: unat_sub word_le_nat_alt)
  then show ?thesis by (simp add: word_less_nat_alt)
qed

text \<open>The two cases in which the chosen value wraps around.\<close>

definition wraps :: "BranchPredicate \<Rightarrow> bool" where
  "wraps p \<longleftrightarrow>
     predicate_relation p = ''>'' \<and> left_const p = None \<and> right_const p = Some max_u64 \<or>
     predicate_relation p = ''<'' \<and> right_const p = None \<and> left_const p = Some max_u64"

lemma satisfying_value_sound:
  assumes "satisfying_value rel r = Some v" "\<not> (rel = ''>'' \<and> r = max_u64)"
  shows "relation_holds rel v r"
  using assms add_one_greater [of r] sub_one_less [of r v]
  by (auto simp: satisfying_value_def relation_holds_def split: if_splits)

lemma satisfying_value_for_right_sound:
  assumes "satisfying_value_for_right rel l = Some v" "\<not> (rel = ''<'' \<and> l = max_u64)"
  shows "relation_holds rel l v"
  using assms add_one_greater [of l] sub_one_less [of l v]
  by (auto simp: satisfying_value_for_right_def relation_holds_def split: if_splits)

definition operand_under :: "u64 option \<Rightarrow> (string \<Rightarrow> u64 option) \<Rightarrow> string \<Rightarrow> u64 option" where
  "operand_under c m name = (case c of Some v \<Rightarrow> Some v | None \<Rightarrow> m name)"

section \<open>Properties\<close>

text \<open>
  The path solver is sound where nothing wraps. A predicate reported satisfiable holds between
  the operands' values under the reported model, and one reported unsatisfiable has two known
  operands between which the relation fails.
\<close>

theorem solve_predicate_sound:
  assumes "\<not> wraps p"
  shows "(satisfiability (solve_predicate p) = ''satisfiable'' \<longrightarrow>
      (\<exists>l r. operand_under (left_const p) (model (solve_predicate p)) (left p) = Some l \<and>
             operand_under (right_const p) (model (solve_predicate p)) (right p) = Some r \<and>
             relation_holds (predicate_relation p) l r)) \<and>
    (satisfiability (solve_predicate p) = ''unsatisfiable'' \<longrightarrow>
      (\<exists>l r. left_const p = Some l \<and> right_const p = Some r \<and>
             \<not> relation_holds (predicate_relation p) l r))"
proof -
  have v: "satisfying_value (predicate_relation p) r = Some x \<Longrightarrow> left_const p = None \<Longrightarrow>
      right_const p = Some r \<Longrightarrow> relation_holds (predicate_relation p) x r" for r x
    using assms satisfying_value_sound by (auto simp: wraps_def)
  have w: "satisfying_value_for_right (predicate_relation p) l = Some x \<Longrightarrow> right_const p = None \<Longrightarrow>
      left_const p = Some l \<Longrightarrow> relation_holds (predicate_relation p) l x" for l x
    using assms satisfying_value_for_right_sound by (auto simp: wraps_def)
  show ?thesis
    using v w
    by (cases "left_const p"; cases "right_const p")
      (auto simp: solve_predicate_def Let_def solve_values_def operand_under_def split: option.splits)
qed

definition demo_pred :: "string \<Rightarrow> u64 option \<Rightarrow> u64 option \<Rightarrow> BranchPredicate" where
  "demo_pred m lv rv =
     \<lparr>bp_site_va = 0, bp_mnemonic = m, left = ''rax'', right = ''rbx'', bp_text = [],
      left_value = lv, right_value = rv\<rparr>"

lemma solve_predicate_sound_witness:
  "satisfiability (solve_predicate (demo_pred ''ja'' None (Some 7))) = ''satisfiable'' \<and>
   (\<exists>l. model (solve_predicate (demo_pred ''ja'' None (Some 7))) ''rax'' = Some l \<and> l > 7)"
proof -
  let ?p = "demo_pred ''ja'' None (Some 7)"
  have c: "left_const ?p = None" "right_const ?p = Some 7" "predicate_relation ?p = ''>''"
    "satisfiability (solve_predicate ?p) = ''satisfiable''" by code_simp+
  then have "\<not> wraps ?p" by (simp add: wraps_def max_u64_def)
  from solve_predicate_sound [OF this] c show ?thesis
    by (auto simp: operand_under_def relation_holds_def demo_pred_def)
qed

text \<open>
  At the largest value the solver reports a relation satisfiable that no value satisfies:
  \<open>x > u64::MAX\<close> and \<open>u64::MAX < x\<close>, with a model that wraps to zero.
\<close>

theorem solve_predicate_wraps:
  assumes "wraps p" "left p \<noteq> ''unknown''" "right p \<noteq> ''unknown''"
  shows "satisfiability (solve_predicate p) = ''satisfiable'' \<and>
    (\<forall>v. \<not> relation_holds ''>'' v max_u64 \<and> \<not> relation_holds ''<'' max_u64 v)"
proof -
  have "\<not> v > max_u64" for v by (simp add: max_u64_def not_less)
  with assms show ?thesis
    by (auto simp: wraps_def solve_predicate_def solve_values_def satisfying_value_def
        satisfying_value_for_right_def relation_holds_def Let_def)
qed

lemma solve_predicate_wraps_witness:
  "satisfiability (solve_predicate (demo_pred ''ja'' None (Some max_u64))) = ''satisfiable''"
proof -
  let ?p = "demo_pred ''ja'' None (Some max_u64)"
  have "left_const ?p = None" "predicate_relation ?p = ''>''" by code_simp+
  then have "wraps ?p" by (simp add: wraps_def right_const_def demo_pred_def)
  moreover have "left ?p \<noteq> ''unknown''" "right ?p \<noteq> ''unknown''" by (simp_all add: demo_pred_def)
  ultimately show ?thesis using solve_predicate_wraps [of ?p] by blast
qed

definition signed_jump :: "string \<Rightarrow> bool" where
  "signed_jump m \<longleftrightarrow> m \<in> set [''jg'', ''jnle'', ''jge'', ''jnl'', ''jl'', ''jnge'', ''jle'', ''jng'']"

lemma signed_unsigned_order:
  fixes l r :: u64
  shows "(sint l < sint r) = (if (sint l < 0) \<noteq> (sint r < 0) then \<not> l < r else l < r)"
    "(sint l \<le> sint r) = (if (sint l < 0) \<noteq> (sint r < 0) then \<not> l \<le> r else l \<le> r)"
proof -
  have *: "(a < b) = (if (a < 0) \<noteq> (b < 0) then \<not> x < y else x < y) \<and>
      (a \<le> b) = (if (a < 0) \<noteq> (b < 0) then \<not> x \<le> y else x \<le> y)"
    if "a = (if a < 0 then x - 2 ^ 64 else x)" "b = (if b < 0 then y - 2 ^ 64 else y)"
      "0 \<le> x" "x < 2 ^ 64" "0 \<le> y" "y < 2 ^ 64" "- (2 ^ 63) \<le> a" "a < 2 ^ 63" "- (2 ^ 63) \<le> b" "b < 2 ^ 63"
    for a b x y :: int
    using that by (auto split: if_splits)
  have "uint l < 2 ^ 64" "uint r < 2 ^ 64" using uint_lt2p [of l] uint_lt2p [of r] by simp_all
  from * [OF sint_uint_u64 sint_uint_u64 _ this(1) _ this(2) sint_range_u64 sint_range_u64]
  show "(sint l < sint r) = (if (sint l < 0) \<noteq> (sint r < 0) then \<not> l < r else l < r)"
    "(sint l \<le> sint r) = (if (sint l < 0) \<noteq> (sint r < 0) then \<not> l \<le> r else l \<le> r)"
    by (simp_all add: word_less_def word_le_def)
qed

text \<open>
  Against the native emulator, the solver's relation is the one the jump decides for every
  unsigned and equality jump; for a signed jump it is the same exactly when both operands have the
  same sign, and the opposite otherwise.
\<close>

theorem solver_relation_vs_native:
  assumes "solver_relation m = Some rel"
  shows "jcc_meaning m l r =
    Some (if signed_jump m \<and> (sint l < 0) \<noteq> (sint r < 0) then \<not> relation_holds rel l r
          else relation_holds rel l r)"
proof -
  note s = signed_unsigned_order [of l r] signed_unsigned_order [of r l]
  show ?thesis
    using assms unfolding solver_relation_def
    by (simp split: if_splits; elim disjE; hypsubst; simp add: jcc_meaning_def signed_jump_def relation_holds_def s)
qed

lemma solver_relation_vs_native_witness:
  "jcc_meaning ''jl'' (- 1) 0 = Some True \<and> \<not> relation_holds ''<'' (- 1) 0"
proof -
  have "solver_relation ''jl'' = Some ''<''" by code_simp
  from solver_relation_vs_native [OF this, of "- 1" 0] show ?thesis
    by (simp add: signed_jump_def relation_holds_def)
qed

end
