(* ===== verification/Smt_Backend.thy ===== *)
theory Smt_Backend
  imports Slicer
begin

text \<open>
  The types every solver backend shares, from \<open>src/concolic/backend.rs\<close>: the query, the coarse
  status, the report, and the bar a report has to meet before a branch may be called unreachable.
  Durations are milliseconds. The wall-clock time a backend reports is a parameter.

  The interface of a backend is the locale \<open>unreachability_contract\<close>: a report that meets the bar
  is given only for a query no input satisfies. \<open>Pure_Rust\<close> interprets it for the tier-1 solver.
\<close>

record BranchQuery =
  input_bytes :: u32
  q_path_constraints :: "NodeId list"
  target_branch :: NodeId
  want_taken :: bool
  timeout :: nat
  prefer_logic :: "string option"

datatype SolveStatus = Sat | Unsat | Unknown | Timeout | LoweringErrorStatus

record SolveReport =
  status :: SolveStatus
  time_ms :: nat
  input_model :: "u8 list option"
  smt2 :: string
  report_reason :: "string option"
  unsat_core :: "NodeId list"
  unsat_assumptions_returned :: bool
  backend_name :: string

datatype LoweringError =
    LWidthMismatch string u32 u32
  | UnsupportedExpr string string
  | UnboundSymbol string
  | Protocol string

definition is_authoritative_unreachable :: "SolveReport \<Rightarrow> bool" where
  "is_authoritative_unreachable r \<longleftrightarrow>
     status r = Unsat \<and> unsat_assumptions_returned r \<and> unsat_core r \<noteq> []"

section \<open>What a query asks\<close>

definition query_valid :: "BranchQuery \<Rightarrow> ExprDag \<Rightarrow> bool" where
  "query_valid q d \<longleftrightarrow> query_ok d (q_path_constraints q) (target_branch q)"

definition query_sat :: "BranchQuery \<Rightarrow> ExprDag \<Rightarrow> bool" where
  "query_sat q d \<longleftrightarrow> sat_branch d (set (q_path_constraints q)) (target_branch q) (want_taken q)"

text \<open>Dropping constraints keeps a query satisfiable.\<close>

lemma query_sat_mono:
  "query_sat q d \<Longrightarrow> set pcs \<subseteq> set (q_path_constraints q) \<Longrightarrow>
     query_sat (q\<lparr>q_path_constraints := pcs, timeout := t\<rparr>) d"
  by (auto simp: query_sat_def sat_branch_def)

locale unreachability_contract =
  fixes solve_branch :: "BranchQuery \<Rightarrow> ExprDag \<Rightarrow> SolveReport option"
  assumes authoritative_unsat:
    "query_valid q d \<Longrightarrow> solve_branch q d = Some r \<Longrightarrow> is_authoritative_unreachable r \<Longrightarrow> \<not> query_sat q d"
begin

lemma subset_unsat:
  assumes "query_valid (q\<lparr>q_path_constraints := pcs, timeout := t\<rparr>) d" "set pcs \<subseteq> set (q_path_constraints q)"
    and "solve_branch (q\<lparr>q_path_constraints := pcs, timeout := t\<rparr>) d = Some r" "is_authoritative_unreachable r"
  shows "\<not> query_sat q d"
  using authoritative_unsat [OF assms(1,3,4)] query_sat_mono [OF _ assms(2), of d t] by blast

end

end
