(* ===== verification/Smt2_Emit.thy ===== *)
theory Smt2_Emit
  imports Smt_Backend
begin

text \<open>
  The SMT-LIB emitter of \<open>src/concolic/smt2_emit.rs\<close>: declarations, one named assertion per path
  constraint and one for the target, and the table that maps the names back to node ids.

  \<open>None\<close> is a panic of the code, an index out of range. The reference counts the emitter computes
  do not influence its output (the let-binding pass they are for is not in the code); they are
  modelled because the pass reads every node it counts.
\<close>

section \<open>Expressions\<close>

definition spaced :: "string list \<Rightarrow> string" where
  "spaced ws = concat (map (\<lambda>w. CHR '' '' # w) ws)"

definition app_text :: "string \<Rightarrow> string list \<Rightarrow> string" where
  "app_text head args = ''('' @ head @ spaced args @ '')''"

fun all_some :: "'a option list \<Rightarrow> 'a list option" where
  "all_some [] = Some []"
| "all_some (x # xs) = (case x of None \<Rightarrow> None | Some v \<Rightarrow> map_option ((#) v) (all_some xs))"

definition app_nodes :: "string \<Rightarrow> (NodeId \<Rightarrow> string option) \<Rightarrow> NodeId list \<Rightarrow> string option" where
  "app_nodes head rec cs = map_option (app_text head) (all_some (map rec cs))"

definition n_ary :: "string \<Rightarrow> (NodeId \<Rightarrow> string option) \<Rightarrow> NodeId list \<Rightarrow> string option" where
  "n_ary op rec cs =
     (if cs = [] then Some (if op = ''and'' then ''true'' else ''false'') else app_nodes op rec cs)"

definition u32_text :: "u32 \<Rightarrow> string" where
  "u32_text w = show_nat (unat w)"

definition const_text :: "u128 \<Rightarrow> u32 \<Rightarrow> string" where
  "const_text v bits =
     (if bits \<le> 64 then ''(_ bv'' @ show_nat (unat v) @ '' '' @ u32_text bits @ '')''
      else ''#x'' @ pad0 (unat ((bits + 3) div 4)) (show_radix 16 (unat v)))"

fun inline_text :: "ExprDag \<Rightarrow> (NodeId \<Rightarrow> string option) \<Rightarrow> Expr \<Rightarrow> string option" where
  "inline_text d rec (Var name _) = symbol_name d name"
| "inline_text d rec (BvConst v bits) = Some (const_text v bits)"
| "inline_text d rec (BoolConst b) = Some (if b then ''true'' else ''false'')"
| "inline_text d rec (ENot a) = app_nodes ''not'' rec [a]"
| "inline_text d rec (EAnd cs) = n_ary ''and'' rec cs"
| "inline_text d rec (EOr cs) = n_ary ''or'' rec cs"
| "inline_text d rec (EEq a b) = app_nodes ''='' rec [a, b]"
| "inline_text d rec (BvAdd a b) = app_nodes ''bvadd'' rec [a, b]"
| "inline_text d rec (BvSub a b) = app_nodes ''bvsub'' rec [a, b]"
| "inline_text d rec (BvMul a b) = app_nodes ''bvmul'' rec [a, b]"
| "inline_text d rec (BvAnd a b) = app_nodes ''bvand'' rec [a, b]"
| "inline_text d rec (BvOr a b) = app_nodes ''bvor'' rec [a, b]"
| "inline_text d rec (BvXor a b) = app_nodes ''bvxor'' rec [a, b]"
| "inline_text d rec (BvShl a b) = app_nodes ''bvshl'' rec [a, b]"
| "inline_text d rec (BvLShr a b) = app_nodes ''bvlshr'' rec [a, b]"
| "inline_text d rec (BvAShr a b) = app_nodes ''bvashr'' rec [a, b]"
| "inline_text d rec (Ult a b) = app_nodes ''bvult'' rec [a, b]"
| "inline_text d rec (Ule a b) = app_nodes ''bvule'' rec [a, b]"
| "inline_text d rec (Slt a b) = app_nodes ''bvslt'' rec [a, b]"
| "inline_text d rec (Sle a b) = app_nodes ''bvsle'' rec [a, b]"
| "inline_text d rec (Extract hi lo v) =
     app_nodes (''(_ extract '' @ u32_text hi @ '' '' @ u32_text lo @ '')'') rec [v]"
| "inline_text d rec (Concat a b) = app_nodes ''concat'' rec [a, b]"
| "inline_text d rec (ZeroExt extra v) = app_nodes (''(_ zero_extend '' @ u32_text extra @ '')'') rec [v]"
| "inline_text d rec (SignExt extra v) = app_nodes (''(_ sign_extend '' @ u32_text extra @ '')'') rec [v]"
| "inline_text d rec (Ite c t e) = app_nodes ''ite'' rec [c, t, e]"
| "inline_text d rec (Load8 m a) = app_nodes ''select'' rec [m, a]"
| "inline_text d rec (Store8 m a v) = app_nodes ''store'' rec [m, a, v]"

text \<open>\<open>expr_text\<close> looks a node up among the let-bound names first; the emitter binds none.\<close>

definition expr_text :: "ExprDag \<Rightarrow> NodeId \<Rightarrow> string option" where
  "expr_text d i = dag_run (inline_text d) (\<lambda>_. None) d i"

section \<open>Reference counts\<close>

type_synonym counts = "NodeId \<Rightarrow> nat"

primrec count_refs :: "nat \<Rightarrow> ExprDag \<Rightarrow> NodeId \<Rightarrow> counts \<times> NodeId set \<Rightarrow> (counts \<times> NodeId set) option" where
  "count_refs 0 d i st = None"
| "count_refs (Suc n) d i st =
     (let (rc, seen) = st; rc = rc(i := rc i + 1)
      in if i \<in> seen then Some (rc, seen)
         else (case get d i of
                 None \<Rightarrow> None
               | Some e \<Rightarrow>
                   fold (\<lambda>c acc. Option.bind acc (count_refs n d c)) (children_of e) (Some (rc, insert i seen))))"

definition count_all :: "ExprDag \<Rightarrow> NodeId list \<Rightarrow> (counts \<times> NodeId set) option" where
  "count_all d roots =
     fold (\<lambda>r acc. Option.bind acc (count_refs (length (nodes d) + 1) d r)) roots (Some (\<lambda>_. 0, {}))"

section \<open>The query\<close>

record EmittedQuery =
  eq_smt2 :: string
  name_map :: "(string \<times> NodeId) list"

definition line :: "string \<Rightarrow> string" where
  "line s = s @ [char_of (10 :: nat)]"

definition constraint_name :: "nat \<Rightarrow> string" where
  "constraint_name idx = ''c_'' @ pad0 4 (show_nat idx)"

definition header_text :: "BranchQuery \<Rightarrow> string" where
  "header_text q =
     line ''(set-info :smt-lib-version 2.6)'' @
     line (''(set-logic '' @ (case prefer_logic q of Some l \<Rightarrow> l | None \<Rightarrow> ''QF_ABV'') @ '')'') @
     line ''(set-option :produce-models true)'' @
     line ''(set-option :produce-unsat-cores true)'' @
     concat (map (\<lambda>i. line (''(declare-fun input_b'' @ show_nat i @ '' () (_ BitVec 8))''))
       [0..<unat (input_bytes q)])"

definition footer_text :: string where
  "footer_text = line ''(check-sat)'' @ line ''(get-model)'' @ line ''(get-unsat-core)'' @ line ''(exit)''"

definition assert_text :: "string \<Rightarrow> string \<Rightarrow> string" where
  "assert_text name body = line (''(assert (! '' @ body @ '' :named '' @ name @ ''))'')"

text \<open>The loop over the path constraints: name, table row, assertion.\<close>

fun emit_constraints :: "ExprDag \<Rightarrow> nat \<Rightarrow> NodeId list \<Rightarrow> (string \<times> (string \<times> NodeId) list) option" where
  "emit_constraints d idx [] = Some ([], [])"
| "emit_constraints d idx (c # cs) =
     (case expr_text d c of
        None \<Rightarrow> None
      | Some body \<Rightarrow>
          (case emit_constraints d (idx + 1) cs of
             None \<Rightarrow> None
           | Some (text, names) \<Rightarrow>
               Some (assert_text (constraint_name idx) body @ text, (constraint_name idx, c) # names)))"

definition emit_query :: "BranchQuery \<Rightarrow> ExprDag \<Rightarrow> EmittedQuery option" where
  "emit_query q d =
     (case count_all d (q_path_constraints q @ [target_branch q]) of
        None \<Rightarrow> None
      | Some _ \<Rightarrow>
          (case emit_constraints d 0 (q_path_constraints q) of
             None \<Rightarrow> None
           | Some (text, names) \<Rightarrow>
               (case expr_text d (target_branch q) of
                  None \<Rightarrow> None
                | Some body \<Rightarrow>
                    let assertion = (if want_taken q then body else ''(not '' @ body @ '')'')
                    in Some \<lparr>eq_smt2 = header_text q @ text @ assert_text ''c_TGT'' assertion @ footer_text,
                             name_map = names @ [(''c_TGT'', target_branch q)]\<rparr>)))"

section \<open>The emitter returns\<close>

lemma all_some_None: "all_some xs = None \<longleftrightarrow> None \<in> set xs"
  by (induction xs) (auto split: option.splits)

lemma app_nodes_total: "(\<And>c. c \<in> set cs \<Longrightarrow> \<exists>s. rec c = Some s) \<Longrightarrow> \<exists>s. app_nodes h rec cs = Some s"
  by (cases "all_some (map rec cs)") (fastforce simp: app_nodes_def all_some_None)+

interpretation text_rec: dag_recursion "inline_text d" "\<lambda>_. None" for d
proof
  show "inline_text d f e = inline_text d g e" if "\<And>c. c \<in> set (children_of e) \<Longrightarrow> f c = g c" for e f g
    using that by (cases e) (auto simp: app_nodes_def n_ary_def cong: map_cong)
qed

lemma expr_text_unfold:
  "wf_dag d \<Longrightarrow> expr_text d i = (case try_get d i of None \<Rightarrow> None | Some e \<Rightarrow> inline_text d (expr_text d) e)"
  unfolding expr_text_def [abs_def] by (rule text_rec.run_unfold)

lemma expr_text_returns:
  assumes "wf_dag d"
  shows "valid_id d i \<Longrightarrow> \<exists>s. expr_text d i = Some s"
proof (induction "unat i" arbitrary: i rule: less_induct)
  case less
  then obtain e where e: "try_get d i = Some e" by (auto simp: valid_id_get)
  have rec: "\<exists>s. expr_text d c = Some s" if "c \<in> set (children_of e)" for c
    using wf_dag_child [OF assms e that] by (intro less.hyps) (simp_all add: valid_id_def)
  have v: "\<exists>s. symbol_name d n = Some s" if "e = Var n t" for n t
  proof -
    have "e \<in> set (nodes d)" using e by (auto simp: try_get_def split: if_splits)
    then show ?thesis using assms that by (auto simp: wf_dag_def symbol_name_def)
  qed
  have "\<exists>s. inline_text d (expr_text d) e = Some s"
    using rec v by (cases e) (auto simp: n_ary_def intro!: app_nodes_total)
  with e show ?case by (simp add: expr_text_unfold [OF assms])
qed

lemma fold_bind_None: "fold (\<lambda>c acc. Option.bind acc (f c)) cs None = None"
  by (induction cs) simp_all

lemma fold_bind_returns:
  "(\<And>c st. c \<in> set cs \<Longrightarrow> \<exists>st'. f c st = Some st') \<Longrightarrow>
     \<exists>st'. fold (\<lambda>c acc. Option.bind acc (f c)) cs (Some st) = Some st'"
proof (induction cs arbitrary: st)
  case (Cons c cs)
  from Cons.prems obtain st1 where "f c st = Some st1" by (metis list.set_intros(1))
  with Cons.IH [of st1] Cons.prems show ?case by simp
qed simp

lemma count_refs_returns:
  assumes "wf_dag d"
  shows "valid_id d i \<Longrightarrow> unat i < n \<Longrightarrow> \<exists>st'. count_refs n d i st = Some st'"
proof (induction n arbitrary: i st)
  case (Suc n)
  then obtain e where e: "try_get d i = Some e" by (auto simp: valid_id_get)
  obtain rc seen where st: "st = (rc, seen)" by (cases st)
  have r: "\<exists>st'. count_refs n d c st = Some st'" if "c \<in> set (children_of e)" for c st
    using wf_dag_child [OF assms e that] Suc.prems(2) by (intro Suc.IH) (simp_all add: valid_id_def)
  have "\<exists>st'. fold (\<lambda>c acc. Option.bind acc (count_refs n d c)) (children_of e) (Some st) = Some st'" for st
    by (rule fold_bind_returns) (rule r)
  then show ?case using e by (simp add: st get_def Let_def)
qed simp

lemma count_all_returns:
  assumes "wf_dag d" "\<And>r. r \<in> set roots \<Longrightarrow> valid_id d r"
  shows "\<exists>st. count_all d roots = Some st"
  unfolding count_all_def
  by (rule fold_bind_returns, rule count_refs_returns)
    (use assms in \<open>auto simp: valid_id_def less_Suc_eq\<close>)

section \<open>Names\<close>

lemma parse_digits_zeros: "parse_digits 10 (replicate k (CHR ''0'')) 0 = Some 0"
  by (induction k) (simp_all add: digit_val_def)

lemma parse_digits_pad0: "parse_digits 10 (pad0 w (show_nat n)) 0 = Some n"
  by (simp add: pad0_def parse_digits_append parse_digits_zeros parse_digits_show_nat)

lemma constraint_name_inj: "constraint_name i = constraint_name j \<longleftrightarrow> i = j"
  unfolding constraint_name_def by (metis append_same_eq option.inject parse_digits_pad0 same_append_eq)

lemma constraint_name_not_target: "constraint_name i \<noteq> ''c_TGT''"
proof
  assume "constraint_name i = ''c_TGT''"
  then have "pad0 4 (show_nat i) = ''TGT''" by (simp add: constraint_name_def)
  with parse_digits_pad0 [of 4 i] have "parse_digits 10 ''TGT'' 0 = Some i" by simp
  then show False by (simp add: digit_val_def)
qed

lemma emit_constraints_spec:
  assumes "wf_dag d"
  shows "(\<And>c. c \<in> set cs \<Longrightarrow> valid_id d c) \<Longrightarrow>
    \<exists>t. emit_constraints d k cs = Some (t, zip (map constraint_name [k..<k + length cs]) cs)"
proof (induction cs arbitrary: k)
  case (Cons c cs)
  from Cons.prems expr_text_returns [OF assms] obtain body where "expr_text d c = Some body" by auto
  moreover obtain t where
    "emit_constraints d (Suc k) cs = Some (t, zip (map constraint_name [Suc k..<Suc k + length cs]) cs)"
    using Cons.IH [of "Suc k"] Cons.prems by auto
  ultimately show ?case by (simp add: upt_conv_Cons del: upt_Suc)
qed simp

definition query_names :: "BranchQuery \<Rightarrow> (string \<times> NodeId) list" where
  "query_names q =
     zip (map constraint_name [0..<length (q_path_constraints q)]) (q_path_constraints q) @
     [(''c_TGT'', target_branch q)]"

lemma emit_query_returns:
  assumes "query_valid q d"
  shows "\<exists>e. emit_query q d = Some e \<and> name_map e = query_names q"
proof -
  have d: "wf_dag d" "valid_id d (target_branch q)" "\<And>c. c \<in> set (q_path_constraints q) \<Longrightarrow> valid_id d c"
    using assms by (auto simp: query_valid_def query_ok_def)
  obtain st where c: "count_all d (q_path_constraints q @ [target_branch q]) = Some st"
    using count_all_returns [OF d(1), of "q_path_constraints q @ [target_branch q]"] d by auto
  obtain body where "expr_text d (target_branch q) = Some body"
    using expr_text_returns [OF d(1,2)] by auto
  moreover obtain t where
    "emit_constraints d 0 (q_path_constraints q) =
      Some (t, zip (map constraint_name [0..<length (q_path_constraints q)]) (q_path_constraints q))"
    using emit_constraints_spec [OF d(1), of "q_path_constraints q" 0] d(3) by auto
  ultimately show ?thesis using c by (simp add: emit_query_def Let_def query_names_def)
qed

lemma query_names_distinct: "distinct (map fst (query_names q))"
  by (auto simp: query_names_def distinct_map inj_on_def constraint_name_inj
      constraint_name_not_target [symmetric])

lemma query_names_ids: "map snd (query_names q) = q_path_constraints q @ [target_branch q]"
  by (simp add: query_names_def)

section \<open>Parentheses\<close>

fun scan :: "nat \<Rightarrow> string \<Rightarrow> nat option" where
  "scan n [] = Some n"
| "scan n (c # cs) =
     (if c = CHR ''('' then scan (Suc n) cs
      else if c = CHR '')'' then (case n of 0 \<Rightarrow> None | Suc m \<Rightarrow> scan m cs)
      else scan n cs)"

definition balanced :: "string \<Rightarrow> bool" where
  "balanced s \<longleftrightarrow> (\<forall>n. scan n s = Some n)"

definition flat :: "string \<Rightarrow> bool" where
  "flat s \<longleftrightarrow> CHR ''('' \<notin> set s \<and> CHR '')'' \<notin> set s"

lemma scan_append: "scan n (xs @ ys) = Option.bind (scan n xs) (\<lambda>m. scan m ys)"
  by (induction n xs rule: scan.induct) (auto split: nat.splits)

lemma balanced_append [intro]: "balanced xs \<Longrightarrow> balanced ys \<Longrightarrow> balanced (xs @ ys)"
  by (simp add: balanced_def scan_append)

lemma balanced_Nil [simp]: "balanced []"
  by (simp add: balanced_def)

lemma balanced_concat: "(\<And>x. x \<in> set xs \<Longrightarrow> balanced x) \<Longrightarrow> balanced (concat xs)"
  by (induction xs) auto

lemma balanced_parens: "balanced s \<Longrightarrow> balanced (''('' @ s @ '')'')"
  by (simp add: balanced_def scan_append)

lemma scan_flat: "flat s \<Longrightarrow> scan n s = Some n"
  by (induction s) (auto simp: flat_def)

lemma scan_balanced: "balanced s \<Longrightarrow> scan n s = Some n"
  by (simp add: balanced_def)

lemma flat_balanced: "flat s \<Longrightarrow> balanced s"
  by (simp add: balanced_def scan_flat)

lemma char_of_neq: "n < 256 \<Longrightarrow> n \<noteq> of_char c \<Longrightarrow> char_of n \<noteq> c" for n :: nat
  by (metis of_char_char_of_small)

lemma flat_show_radix: "2 \<le> r \<Longrightarrow> r \<le> 16 \<Longrightarrow> flat (show_radix r n)"
proof (induction r n rule: show_radix.induct)
  case (1 r n)
  have digit: "CHR ''('' \<noteq> char_of (if k < 10 then 48 + k else 87 + k)"
    "CHR '')'' \<noteq> char_of (if k < 10 then 48 + k else 87 + k)" if "k < 16" for k :: nat
    using that char_of_neq [of "48 + k" "CHR ''(''"] char_of_neq [of "87 + k" "CHR ''(''"]
      char_of_neq [of "48 + k" "CHR '')''"] char_of_neq [of "87 + k" "CHR '')''"] by auto
  have "n mod r < r" using 1 by simp
  with 1(3) have "n mod r < 16" by simp
  then show ?case
    using 1 digit [of n] digit [of "n mod r"] by (subst show_radix.simps) (auto simp: flat_def)
qed

lemma flat_Cons: "flat (c # s) \<longleftrightarrow> c \<noteq> CHR ''('' \<and> c \<noteq> CHR '')'' \<and> flat s"
  by (auto simp: flat_def)

lemma flat_append: "flat (xs @ ys) \<longleftrightarrow> flat xs \<and> flat ys"
  by (auto simp: flat_def)

lemma flat_pad0: "flat s \<Longrightarrow> flat (pad0 w s)"
  by (auto simp: flat_def pad0_def)

lemma flat_u32_text: "flat (u32_text w)"
  by (simp add: u32_text_def flat_show_radix)

lemma balanced_app_text:
  assumes "balanced h" "\<And>a. a \<in> set args \<Longrightarrow> balanced a"
  shows "balanced (app_text h args)"
proof -
  have "balanced (CHR '' '' # a)" if "a \<in> set args" for a
    using assms(2) [OF that] by (simp add: balanced_def)
  then have "balanced (spaced args)" unfolding spaced_def by (intro balanced_concat) auto
  with assms(1) show ?thesis unfolding app_text_def using balanced_parens [of "h @ spaced args"] by auto
qed

lemma all_some_Some: "all_some xs = Some ys \<longleftrightarrow> xs = map Some ys"
  by (induction xs arbitrary: ys) (auto split: option.splits simp: map_eq_Cons_conv)

lemma balanced_app_nodes:
  assumes "app_nodes h rec cs = Some s" "balanced h"
    and "\<And>c t. c \<in> set cs \<Longrightarrow> rec c = Some t \<Longrightarrow> balanced t"
  shows "balanced s"
proof -
  obtain args where a: "map rec cs = map Some args" "s = app_text h args"
    using assms(1) by (auto simp: app_nodes_def all_some_Some)
  have "balanced t" if "t \<in> set args" for t
    using that a(1) assms(3) by (metis (no_types, lifting) image_iff list.set_map)
  with a(2) assms(2) show ?thesis by (simp add: balanced_app_text)
qed

lemmas flat_texts = flat_show_radix flat_pad0 flat_u32_text

lemma balanced_const: "balanced (const_text v bits)"
  by (simp add: balanced_def const_text_def scan_append scan_flat flat_texts)

definition flat_symbols :: "ExprDag \<Rightarrow> bool" where
  "flat_symbols d \<longleftrightarrow> (\<forall>s\<in>set (symbols d). flat s)"

lemma inline_text_balanced:
  assumes "inline_text d rec e = Some s" "flat_symbols d"
    and "\<And>c t. c \<in> set (children_of e) \<Longrightarrow> rec c = Some t \<Longrightarrow> balanced t"
  shows "balanced s"
proof -
  have w: "balanced w" if "flat w" for w using that by (rule flat_balanced)
  have tf: "balanced ''true''" "balanced ''false''" by (simp_all add: balanced_def)
  have sym: "balanced t" if "symbol_name d n = Some t" for n t
    using that assms(2) by (auto simp: symbol_name_def flat_symbols_def split: if_splits intro!: w)
  have app: "balanced s"
    if "app_nodes h rec cs = Some s" "set cs \<subseteq> set (children_of e)" "\<And>n. scan n h = Some n" for h cs
  proof (rule balanced_app_nodes [OF that(1)])
    show "balanced h" using that(3) by (simp add: balanced_def)
  qed (use that(2) assms(3) in blast)
  show ?thesis
    using assms(1)
    by (cases e)
      (auto simp: n_ary_def balanced_const tf split: if_splits
        intro: sym elim!: app simp: scan_append scan_flat flat_texts)
qed

lemma expr_text_balanced:
  assumes "wf_dag d" "flat_symbols d"
  shows "expr_text d i = Some s \<Longrightarrow> balanced s"
proof (induction "unat i" arbitrary: i s rule: less_induct)
  case less
  then obtain e where e: "try_get d i = Some e" "inline_text d (expr_text d) e = Some s"
    by (auto simp: expr_text_unfold [OF assms(1)] split: option.splits)
  show ?case
    by (rule inline_text_balanced [OF e(2) assms(2)]) (use less.hyps wf_dag_child [OF assms(1) e(1)] in blast)
qed

lemma newline_neq: "char_of (10 :: nat) \<noteq> CHR ''(''" "char_of (10 :: nat) \<noteq> CHR '')''"
  by (simp_all add: char_of_neq)

lemma balanced_line: "balanced s \<Longrightarrow> balanced (line s)"
  by (simp add: balanced_def line_def scan_append newline_neq)

lemma balanced_assert: "balanced body \<Longrightarrow> flat name \<Longrightarrow> balanced (assert_text name body)"
  by (simp add: balanced_def assert_text_def line_def scan_append scan_flat newline_neq)

lemma emit_constraints_balanced:
  assumes "wf_dag d" "flat_symbols d"
  shows "emit_constraints d k cs = Some (t, names) \<Longrightarrow> balanced t"
proof (induction cs arbitrary: k t names)
  case (Cons c cs)
  then obtain body t' names' where e: "expr_text d c = Some body" "t = assert_text (constraint_name k) body @ t'"
      "emit_constraints d (Suc k) cs = Some (t', names')"
    by (auto split: option.splits)
  have "balanced (assert_text (constraint_name k) body)"
    using expr_text_balanced [OF assms e(1)] by (rule balanced_assert) 
      (simp add: constraint_name_def flat_Cons flat_texts)
  with Cons.IH [OF e(3)] e(2) show ?case by auto
qed simp

lemma header_balanced: "flat l \<Longrightarrow> prefer_logic q \<in> {None, Some l} \<Longrightarrow> balanced (header_text q)"
  unfolding header_text_def
  by (intro balanced_append [of "line s" for s] balanced_concat balanced_line)
    (auto simp: balanced_def scan_append scan_flat flat_texts newline_neq line_def)

section \<open>Sharing\<close>

text \<open>A chain of \<open>k\<close> additions, each of the previous node with itself.\<close>

definition shared_chain :: "nat \<Rightarrow> ExprDag" where
  "shared_chain k =
     dag_of [''input_b0''] (Var 0 (Bv 8) # map (\<lambda>i. BvAdd (of_nat i) (of_nat i)) [0..<k])"

lemma shared_chain:
  assumes "k < 2 ^ 32"
  shows "wf_dag (shared_chain k)"
    "nodes (shared_chain k) = Var 0 (Bv 8) # map (\<lambda>i. BvAdd (of_nat i) (of_nat i)) [0..<k]"
    "symbols (shared_chain k) = [''input_b0'']"
proof -
  have w: "unat (of_nat i :: u32) = i" if "i < k" for i
    using that assms by (intro unat_of_nat_less) simp
  have "inj_on (\<lambda>i. BvAdd (of_nat i :: NodeId) (of_nat i)) {0..<k}"
    by (rule inj_onI) (metis Expr.inject(8) atLeastLessThan_iff w)
  then have "distinct (Var 0 (Bv 8) # map (\<lambda>i. BvAdd (of_nat i) (of_nat i)) [0..<k])"
    by (auto simp: distinct_map)
  moreover have "exprs_ok (Suc 0) (Suc a) (map (\<lambda>i. BvAdd (of_nat i) (of_nat i)) [a..<k])" for a
    by (induction "k - a" arbitrary: a) (auto simp: upt_rec w)
  ultimately show "wf_dag (shared_chain k)"
    "nodes (shared_chain k) = Var 0 (Bv 8) # map (\<lambda>i. BvAdd (of_nat i) (of_nat i)) [0..<k]"
    "symbols (shared_chain k) = [''input_b0'']"
    unfolding shared_chain_def using assms by (simp_all add: dag_of_wf)
qed

lemma shared_chain_text:
  assumes "k < 2 ^ 32" "i \<le> k"
  shows "\<exists>t. expr_text (shared_chain k) (of_nat i) = Some t \<and> 2 ^ i \<le> length t"
  using assms(2)
proof (induction i)
  case 0
  show ?case using shared_chain [OF assms(1)]
    by (simp add: expr_text_unfold try_get_def symbol_name_def)
next
  case (Suc i)
  let ?d = "shared_chain k"
  from Suc obtain t where t: "expr_text ?d (of_nat i) = Some t" "2 ^ i \<le> length t" by auto
  have "unat (of_nat (Suc i) :: NodeId) = Suc i" using Suc.prems assms(1) by (intro unat_of_nat_less) simp
  then have "try_get ?d (of_nat (Suc i)) = Some (BvAdd (of_nat i) (of_nat i))"
    using Suc.prems by (simp add: try_get_def shared_chain [OF assms(1)] del: of_nat_Suc upt_Suc)
  then have "expr_text ?d (of_nat (Suc i)) = Some (app_text ''bvadd'' [t, t])"
    by (simp add: expr_text_unfold [OF shared_chain(1) [OF assms(1)], of "of_nat (Suc i)"] app_nodes_def t(1)
        del: of_nat_Suc)
  moreover have "2 ^ Suc i \<le> length (app_text ''bvadd'' [t, t])"
    using t(2) by (simp add: app_text_def spaced_def)
  ultimately show ?case by blast
qed

section \<open>Properties\<close>

text \<open>
  For every query over nodes of a well-formed DAG the emitter returns. Its table names the path
  constraints in order and then the target, and no name occurs twice, so a name in a solver's unsat
  core stands for one constraint.
\<close>

lemma emit_query_names:
  assumes "query_valid q d"
  shows "\<exists>e. emit_query q d = Some e \<and> distinct (map fst (name_map e)) \<and>
    map snd (name_map e) = q_path_constraints q @ [target_branch q]"
  using emit_query_returns [OF assms] by (auto simp: query_names_distinct query_names_ids)

text \<open>
  The emitted script is balanced: no closing parenthesis comes too early and none is missing,
  when the symbol names and the logic's name contain no parenthesis.
\<close>

lemma emit_query_balanced:
  assumes "query_valid q d" "flat_symbols d" "flat l" "prefer_logic q \<in> {None, Some l}"
  shows "\<exists>e. emit_query q d = Some e \<and> scan 0 (eq_smt2 e) = Some 0"
proof -
  have d: "wf_dag d" using assms(1) by (simp add: query_valid_def query_ok_def)
  obtain e where e: "emit_query q d = Some e" using emit_query_returns [OF assms(1)] by auto
  then obtain t names body where t: "emit_constraints d 0 (q_path_constraints q) = Some (t, names)"
      "expr_text d (target_branch q) = Some body"
      "eq_smt2 e = header_text q @ t @
         assert_text ''c_TGT'' (if want_taken q then body else ''(not '' @ body @ '')'') @ footer_text"
    by (auto simp: emit_query_def Let_def split: option.splits)
  have b: "balanced body" using expr_text_balanced [OF d assms(2) t(2)] .
  then have "balanced (if want_taken q then body else ''(not '' @ body @ '')'')"
    by (simp add: balanced_def scan_append)
  then have "balanced (assert_text ''c_TGT'' (if want_taken q then body else ''(not '' @ body @ '')''))"
    by (rule balanced_assert) (simp add: flat_def)
  moreover have "balanced footer_text"
    by (simp add: balanced_def footer_text_def line_def scan_append newline_neq)
  ultimately have "balanced (eq_smt2 e)"
    unfolding t(3) using header_balanced [OF assms(3,4)] emit_constraints_balanced [OF d assms(2) t(1)]
    by (intro balanced_append)
  with e show ?thesis by (simp add: balanced_def)
qed

text \<open>
  The emitter expands shared nodes each time they are used: the text of a chain of \<open>k\<close> additions
  of a node with itself, \<open>k + 1\<close> nodes, is at least \<open>2 ^ k\<close> characters long. (The module's
  description promises text linear in the size of the DAG.)
\<close>

lemma emit_text_exponential:
  assumes "k < 2 ^ 32"
  shows "length (nodes (shared_chain k)) = k + 1 \<and>
    (\<exists>t. expr_text (shared_chain k) (of_nat k) = Some t \<and> 2 ^ k \<le> length t)"
  using shared_chain(2) [OF assms] shared_chain_text [OF assms, of k] by simp

section \<open>Witnesses\<close>

definition demo_query_rec :: BranchQuery where
  "demo_query_rec = \<lparr>input_bytes = 2, q_path_constraints = [3, 4], target_branch = 5, want_taken = False,
     timeout = 100, prefer_logic = Some ''QF_BV''\<rparr>"

lemma demo_query_valid: "query_valid demo_query_rec demo_dag"
  using demo_query by (simp add: query_valid_def demo_query_rec_def)

lemma emit_query_names_witness:
  "\<exists>e. emit_query demo_query_rec demo_dag = Some e \<and> distinct (map fst (name_map e)) \<and>
     map snd (name_map e) = q_path_constraints demo_query_rec @ [target_branch demo_query_rec]"
  using emit_query_names [OF demo_query_valid] .

lemma emit_query_balanced_witness:
  "\<exists>e. emit_query demo_query_rec demo_dag = Some e \<and> scan 0 (eq_smt2 e) = Some 0"
proof (rule emit_query_balanced [OF demo_query_valid, of "''QF_BV''"])
  have "symbols demo_dag = [''input_b0'', ''input_b1'']"
    unfolding demo_dag_def by (rule dag_of_wf; simp)
  then show "flat_symbols demo_dag" by (simp add: flat_symbols_def flat_def)
qed (simp_all add: flat_def demo_query_rec_def)

lemma emit_text_exponential_witness:
  "length (nodes (shared_chain 40)) = 40 + 1 \<and>
    (\<exists>t. expr_text (shared_chain 40) (of_nat 40) = Some t \<and> 2 ^ 40 \<le> length t)"
  by (rule emit_text_exponential) simp

end
