(* ===== verification/Pure_Rust.thy ===== *)
theory Pure_Rust
  imports Smt2_Emit
begin

text \<open>
  The ladder's tier-1 solver, \<open>src/concolic/pure_rust.rs\<close>: it recognises a comparison of one input
  byte with a constant, under at most one negation, and picks a byte by arithmetic.

  The \<open>i32\<close> and \<open>i8\<close> values of the byte arithmetic are integers with the checked operations and
  casts written out. \<open>None\<close> is a panic (a symbol id out of range, or one inside the emitter). The
  elapsed time is a parameter.
\<close>

section \<open>Matching\<close>

definition BACKEND_NAME :: string where
  "BACKEND_NAME = ''pure_rust''"

datatype ResolvedTarget = Direct NodeId | Negated NodeId

datatype TrivialOutcome = TSat "u8 list" | TUnsat

datatype Rel = REq | RNe | RUlt | RUle | RUgt | RUge | RSlt | RSle | RSgt | RSge

fun invert :: "Rel \<Rightarrow> Rel" where
  "invert REq = RNe"
| "invert RNe = REq"
| "invert RUlt = RUge"
| "invert RUle = RUgt"
| "invert RUgt = RUle"
| "invert RUge = RUlt"
| "invert RSlt = RSge"
| "invert RSle = RSgt"
| "invert RSgt = RSle"
| "invert RSge = RSlt"

datatype SideKind = InputByte u32 u32 | Const u128 u32 | Other

definition parse_input_byte_var_name :: "string \<Rightarrow> u32 option" where
  "parse_input_byte_var_name s = Option.bind (strip_prefix ''input_b'' s) parse_u32"

text \<open>The recursion of \<open>classify_side\<close> goes down a chain of extensions, one node id at a time.\<close>

primrec classify_iter :: "nat \<Rightarrow> ExprDag \<Rightarrow> NodeId \<Rightarrow> SideKind option" where
  "classify_iter 0 d i = None"
| "classify_iter (Suc n) d i =
     (let extension = (\<lambda>v.
        case classify_iter n d v of
          None \<Rightarrow> None
        | Some (InputByte j _) \<Rightarrow>
            (case sort_of d i of
               None \<Rightarrow> None
             | Some (Some (Bv w)) \<Rightarrow> Some (InputByte j w)
             | Some _ \<Rightarrow> Some Other)
        | Some _ \<Rightarrow> Some Other)
      in case try_get d i of
           None \<Rightarrow> Some Other
         | Some (Var name srt) \<Rightarrow>
             (case symbol_name d name of
                None \<Rightarrow> None
              | Some nm \<Rightarrow>
                  (case parse_input_byte_var_name nm of
                     None \<Rightarrow> Some Other
                   | Some idx \<Rightarrow> (case srt of Bv b \<Rightarrow> Some (InputByte idx b) | _ \<Rightarrow> Some Other)))
         | Some (BvConst v bits) \<Rightarrow> Some (Const v bits)
         | Some (ZeroExt _ v) \<Rightarrow> extension v
         | Some (SignExt _ v) \<Rightarrow> extension v
         | Some _ \<Rightarrow> Some Other)"

definition classify_side :: "ExprDag \<Rightarrow> NodeId \<Rightarrow> SideKind option" where
  "classify_side d i = classify_iter (length (nodes d) + 2) d i"

definition check_widths :: "u32 \<Rightarrow> u32 \<Rightarrow> (string, unit option) result" where
  "check_widths var_width const_bits =
     (if var_width \<noteq> const_bits then Err ''width_mismatch'' else Ok (Some ()))"

section \<open>Choosing a byte\<close>

definition try_u8 :: "int \<Rightarrow> u8 option" where
  "try_u8 v = (if 0 \<le> v \<and> v \<le> 255 then Some (word_of_int v) else None)"

definition try_i8 :: "int \<Rightarrow> int option" where
  "try_i8 v = (if - 128 \<le> v \<and> v \<le> 127 then Some v else None)"

definition as_i8 :: "int \<Rightarrow> int" where
  "as_i8 v = signed_take_bit 7 v"

definition i8_as_u8 :: "int \<Rightarrow> u8" where
  "i8_as_u8 v = word_of_int v"

definition low_byte :: "u128 \<Rightarrow> int" where
  "low_byte c = uint (and c 0xff)"

definition flip_var_const :: "Rel \<Rightarrow> u128 \<Rightarrow> u8 option" where
  "flip_var_const rel v =
     (let c = low_byte v
      in case rel of
           REq \<Rightarrow> try_u8 c
         | RNe \<Rightarrow> Some (if c = 0 then 1 else 0)
         | RUlt \<Rightarrow> try_u8 (c - 1)
         | RUle \<Rightarrow> try_u8 c
         | RUgt \<Rightarrow> try_u8 (c + 1)
         | RUge \<Rightarrow> try_u8 c
         | RSlt \<Rightarrow> map_option i8_as_u8 (try_i8 (as_i8 c - 1))
         | RSle \<Rightarrow> map_option i8_as_u8 (try_i8 c)
         | RSgt \<Rightarrow> map_option i8_as_u8 (try_i8 (as_i8 c + 1))
         | RSge \<Rightarrow> map_option i8_as_u8 (try_i8 c))"

definition flip_const_var :: "Rel \<Rightarrow> u128 \<Rightarrow> u8 option" where
  "flip_const_var rel v =
     (let c = low_byte v
      in case rel of
           REq \<Rightarrow> try_u8 c
         | RNe \<Rightarrow> Some (if c = 0 then 1 else 0)
         | RUlt \<Rightarrow> try_u8 (c + 1)
         | RUle \<Rightarrow> try_u8 c
         | RUgt \<Rightarrow> try_u8 (c - 1)
         | RUge \<Rightarrow> try_u8 c
         | RSlt \<Rightarrow> map_option i8_as_u8 (try_i8 (as_i8 c + 1))
         | RSle \<Rightarrow> map_option i8_as_u8 (try_i8 c)
         | RSgt \<Rightarrow> map_option i8_as_u8 (try_i8 (as_i8 c - 1))
         | RSge \<Rightarrow> map_option i8_as_u8 (try_i8 c))"

section \<open>Solving\<close>

fun relation_of :: "Expr \<Rightarrow> (Rel \<times> NodeId \<times> NodeId) option" where
  "relation_of (EEq a b) = Some (REq, a, b)"
| "relation_of (Ult a b) = Some (RUlt, a, b)"
| "relation_of (Ule a b) = Some (RUle, a, b)"
| "relation_of (Slt a b) = Some (RSlt, a, b)"
| "relation_of (Sle a b) = Some (RSle, a, b)"
| "relation_of _ = None"

text \<open>The byte index, the constant and whether the constant is on the left.\<close>

definition match_sides :: "SideKind \<Rightarrow> SideKind \<Rightarrow> (string, u32 \<times> u128 \<times> bool) result" where
  "match_sides l r =
     (let checked = (\<lambda>widths row.
        case widths of Inl err \<Rightarrow> Err err | Inr None \<Rightarrow> Err ''width_mismatch'' | Inr (Some _) \<Rightarrow> Ok row)
      in case (l, r) of
           (InputByte idx width, Const v bits) \<Rightarrow> checked (check_widths width bits) (idx, v, False)
         | (Const v bits, InputByte idx width) \<Rightarrow> checked (check_widths bits width) (idx, v, True)
         | _ \<Rightarrow> Err ''unsupported_feature'')"

definition finish :: "Rel \<Rightarrow> u32 \<Rightarrow> u32 \<times> u128 \<times> bool \<Rightarrow> (string, TrivialOutcome) result" where
  "finish rel n row =
     (let (byte_index, const_value, swapped) = row
      in if byte_index \<ge> n then Err ''byte_index_out_of_range''
         else case (if swapped then flip_const_var rel const_value else flip_var_const rel const_value) of
                Some b \<Rightarrow> Ok (TSat ((replicate (unat n) 0)[unat byte_index := b]))
              | None \<Rightarrow> Ok TUnsat)"

definition strip_not :: "ExprDag \<Rightarrow> Expr \<Rightarrow> bool \<Rightarrow> (string, Expr \<times> bool) result" where
  "strip_not d e negated =
     (case e of
        ENot inner \<Rightarrow>
          (case try_get d inner of None \<Rightarrow> Err ''invalid_node_id'' | Some e' \<Rightarrow> Ok (e', \<not> negated))
      | _ \<Rightarrow> Ok (e, negated))"

definition solve_trivial ::
    "ExprDag \<Rightarrow> ResolvedTarget \<Rightarrow> u32 \<Rightarrow> (string, TrivialOutcome) result option" where
  "solve_trivial d target n =
     (let (node, negated) = (case target of Direct i \<Rightarrow> (i, False) | Negated i \<Rightarrow> (i, True))
      in case try_get d node of
           None \<Rightarrow> Some (Err ''invalid_node_id'')
         | Some e \<Rightarrow>
             (case strip_not d e negated of
                Inl err \<Rightarrow> Some (Err err)
              | Inr (e, negated) \<Rightarrow>
                  (case relation_of e of
                     None \<Rightarrow> Some (Err ''unsupported_feature'')
                   | Some (rel, lhs, rhs) \<Rightarrow>
                       let rel = (if negated then invert rel else rel)
                       in case classify_side d lhs of
                            None \<Rightarrow> None
                          | Some lk \<Rightarrow>
                              (case classify_side d rhs of
                                 None \<Rightarrow> None
                               | Some rk \<Rightarrow>
                                   (case match_sides lk rk of
                                      Inl err \<Rightarrow> Some (Err err)
                                    | Inr row \<Rightarrow> Some (finish rel n row))))))"

definition tier1_report :: "nat \<Rightarrow> string \<Rightarrow> (string, TrivialOutcome) result \<Rightarrow> SolveReport" where
  "tier1_report elapsed text outcome =
     (let base = \<lparr>status = Unknown, time_ms = elapsed, input_model = None, smt2 = text,
                  report_reason = None, unsat_core = [], unsat_assumptions_returned = False,
                  backend_name = BACKEND_NAME\<rparr>
      in case outcome of
           Inr (TSat model) \<Rightarrow> base\<lparr>status := Sat, input_model := Some model\<rparr>
         | Inr TUnsat \<Rightarrow> base\<lparr>status := Unsat, report_reason := Some ''trivially_unsat''\<rparr>
         | Inl reason \<Rightarrow> base\<lparr>report_reason := Some reason\<rparr>)"

definition dump_smt2 :: "BranchQuery \<Rightarrow> ExprDag \<Rightarrow> string option" where
  "dump_smt2 q d = map_option eq_smt2 (emit_query q d)"

definition solve_branch :: "nat \<Rightarrow> BranchQuery \<Rightarrow> ExprDag \<Rightarrow> SolveReport option" where
  "solve_branch elapsed q d =
     (case dump_smt2 q d of
        None \<Rightarrow> None
      | Some text \<Rightarrow>
          let target = (if want_taken q then Direct (target_branch q) else Negated (target_branch q))
          in map_option (tier1_report elapsed text) (solve_trivial d target (input_bytes q)))"

section \<open>The arithmetic is right for one byte\<close>

fun byte_rel :: "Rel \<Rightarrow> int \<Rightarrow> int \<Rightarrow> bool" where
  "byte_rel REq x y \<longleftrightarrow> x = y"
| "byte_rel RNe x y \<longleftrightarrow> x \<noteq> y"
| "byte_rel RUlt x y \<longleftrightarrow> x < y"
| "byte_rel RUle x y \<longleftrightarrow> x \<le> y"
| "byte_rel RUgt x y \<longleftrightarrow> x > y"
| "byte_rel RUge x y \<longleftrightarrow> x \<ge> y"
| "byte_rel RSlt x y \<longleftrightarrow> sval 8 x < sval 8 y"
| "byte_rel RSle x y \<longleftrightarrow> sval 8 x \<le> sval 8 y"
| "byte_rel RSgt x y \<longleftrightarrow> sval 8 x > sval 8 y"
| "byte_rel RSge x y \<longleftrightarrow> sval 8 x \<ge> sval 8 y"

fun mirror :: "Rel \<Rightarrow> Rel" where
  "mirror RUlt = RUgt" | "mirror RUle = RUge" | "mirror RUgt = RUlt" | "mirror RUge = RUle"
| "mirror RSlt = RSgt" | "mirror RSle = RSge" | "mirror RSgt = RSlt" | "mirror RSge = RSle"
| "mirror r = r"

lemma byte_rel_mirror: "byte_rel (mirror r) x y \<longleftrightarrow> byte_rel r y x"
  by (cases r) auto

lemma byte_rel_invert: "byte_rel (invert r) x y \<longleftrightarrow> \<not> byte_rel r x y"
  by (cases r) auto

lemma flip_mirror: "flip_const_var r c = flip_var_const (mirror r) c"
  by (cases r) (simp_all add: flip_const_var_def flip_var_const_def)

lemma low_byte: "low_byte c = take_bit 8 (uint c)" "0 \<le> low_byte c" "low_byte c < 256"
proof -
  have "low_byte c = and (uint c) (mask 8)" by (simp add: low_byte_def uint_and mask_eq_exp_minus_1)
  then show t: "low_byte c = take_bit 8 (uint c)" by (simp add: take_bit_eq_mask)
  then show "0 \<le> low_byte c" "low_byte c < 256" by (simp_all add: take_bit_eq_mod)
qed

lemma signed_byte: "signed_take_bit 7 x = (x + 128) mod 256 - 128" for x :: int
  by (simp add: signed_take_bit_eq_take_bit_shift take_bit_eq_mod)

lemma mod_wrap: "0 \<le> x \<Longrightarrow> x < 256 \<Longrightarrow> (x + 128) mod 256 = (if x < 128 then x + 128 else x - 128)" for x :: int
  using mod_pos_pos_trivial [of "x + 128" 256] mod_pos_pos_trivial [of "x - 128" 256]
    mod_add_self2 [of "x - 128" "256 :: int"] by (auto simp: add.commute)

lemma sval_byte: "0 \<le> x \<Longrightarrow> x < 256 \<Longrightarrow> sval 8 x = (if x < 128 then x else x - 256)"
  by (simp add: sval_def signed_byte mod_wrap)

lemma sval_i8:
  assumes "- 128 \<le> v" "v \<le> 127"
  shows "sval 8 (uint (i8_as_u8 v)) = v"
proof -
  have "sval 8 (uint (i8_as_u8 v)) = (v mod 256 + 128) mod 256 - 128"
    by (simp add: sval_def i8_as_u8_def signed_byte uint_word_of_int)
  also have "\<dots> = (v + 128) mod 256 - 128" by (simp add: mod_simps)
  also have "\<dots> = v" using assms by simp
  finally show ?thesis .
qed

lemma try_u8_Some: "try_u8 v = Some b \<Longrightarrow> uint b = v"
  by (auto simp: try_u8_def uint_word_of_int split: if_splits)

lemma try_u8_None: "try_u8 v = None \<longleftrightarrow> v < 0 \<or> 255 < v"
  by (auto simp: try_u8_def)

lemma try_i8_Some: "try_i8 v = Some z \<longleftrightarrow> z = v \<and> - 128 \<le> v \<and> v \<le> 127"
  by (auto simp: try_i8_def)

lemma try_i8_None: "try_i8 v = None \<longleftrightarrow> v < - 128 \<or> 127 < v"
  by (auto simp: try_i8_def)

lemma as_i8_sval: "as_i8 v = sval 8 v"
  by (simp add: as_i8_def sval_def)

lemma low_byte_eq: "sval 8 (low_byte c) = (if low_byte c < 128 then low_byte c else low_byte c - 256)"
  by (rule sval_byte [OF low_byte(2,3)])

lemma flip_var_const_sound:
  assumes "flip_var_const r c = Some b"
  shows "byte_rel r (uint b) (take_bit 8 (uint c))"
proof -
  have "byte_rel r (uint b) (low_byte c)"
    using assms unfolding flip_var_const_def Let_def as_i8_sval
    by (cases r)
      (auto dest!: try_u8_Some simp: try_i8_Some sval_i8 low_byte_eq split: if_splits)
  then show ?thesis by (simp add: low_byte(1))
qed

lemma flip_var_const_complete:
  assumes "flip_var_const r c = None" "\<not> (r \<in> {RSle, RSge} \<and> 128 \<le> low_byte c)" "0 \<le> x" "x < 256"
  shows "\<not> byte_rel r x (take_bit 8 (uint c))"
proof -
  have "\<not> byte_rel r x (low_byte c)"
    using assms low_byte(2,3) [of c] sval_byte [OF assms(3,4)]
    unfolding flip_var_const_def Let_def as_i8_sval
    by (cases r)
      (auto simp: try_u8_None try_i8_None low_byte_eq split: if_splits)
  then show ?thesis by (simp add: low_byte(1))
qed

lemma flip_var_const_signed_gap:
  assumes "r \<in> {RSle, RSge}" "128 \<le> low_byte c"
  shows "flip_var_const r c = None" "byte_rel r (if r = RSle then 128 else 127) (take_bit 8 (uint c))"
proof -
  show "flip_var_const r c = None" using assms by (auto simp: flip_var_const_def try_i8_def)
  have "byte_rel r (if r = RSle then 128 else 127) (low_byte c)"
    using assms low_byte(2,3) [of c] sval_byte [of 128] sval_byte [of 127] by (auto simp: low_byte_eq)
  then show "byte_rel r (if r = RSle then 128 else 127) (take_bit 8 (uint c))" by (simp add: low_byte(1))
qed

section \<open>Queries about one byte\<close>

definition byte_side :: "ExprDag \<Rightarrow> NodeId \<Rightarrow> bool" where
  "byte_side d i \<longleftrightarrow>
     (case try_get d i of
        Some (Var _ s) \<Rightarrow> s = Bv 8
      | Some (BvConst _ w) \<Rightarrow> w = 8
      | _ \<Rightarrow> False)"

text \<open>A comparison of 8-bit variables and constants, negated or not, by one of the given relations.\<close>

definition byte_target :: "Rel set \<Rightarrow> ExprDag \<Rightarrow> NodeId \<Rightarrow> bool" where
  "byte_target R d t \<longleftrightarrow>
     (case try_get d t of
        None \<Rightarrow> False
      | Some e \<Rightarrow>
          (case strip_not d e False of
             Inl _ \<Rightarrow> False
           | Inr (e, _) \<Rightarrow>
               (case relation_of e of
                  None \<Rightarrow> False
                | Some (rel, l, r) \<Rightarrow> rel \<in> R \<and> byte_side d l \<and> byte_side d r)))"

lemma strip_not_negated:
  "strip_not d e False = Inr (e', neg) \<Longrightarrow> strip_not d e b = Inr (e', neg \<noteq> b)"
  by (auto simp: strip_not_def split: Expr.splits option.splits)

lemma relation_of_eval:
  "relation_of e = Some (rel, l, r) \<Longrightarrow> f l = Some (VBv 8 x) \<Longrightarrow> f r = Some (VBv 8 y) \<Longrightarrow>
     eval_step env f e = Some (VBool (byte_rel rel x y))"
  by (cases e) auto

lemma strip_not_eval:
  assumes "wf_dag d" "strip_not d e False = Inr (e', neg)" "eval_step env (eval env d) e' = Some (VBool b)"
  shows "eval_step env (eval env d) e = Some (VBool (b \<noteq> neg))"
  using assms by (cases e) (auto simp: strip_not_def eval_unfold [OF assms(1)] split: option.splits)

lemma byte_side_const:
  assumes "byte_side d i" "classify_side d i = Some (Const c w)" "wf_dag d"
  shows "eval env d i = Some (VBv 8 (take_bit 8 (uint c)))"
  using assms(1,2)
  by (auto simp: byte_side_def classify_side_def eval_unfold [OF assms(3)] split: option.splits Expr.splits)

lemma byte_side_input:
  assumes "byte_side d i" "classify_side d i = Some (InputByte idx w)"
  obtains name nm where "try_get d i = Some (Var name (Bv 8))" "symbol_name d name = Some nm"
    "parse_input_byte_var_name nm = Some idx"
  using assms by (auto simp: byte_side_def classify_side_def split: option.splits Expr.splits)

lemma env_byte:
  assumes "env_ok env"
  obtains x where "env n (Bv 8) = VBv 8 x" "0 \<le> x" "x < 256"
proof -
  have "val_ok (Bv 8) (env n (Bv 8))" using assms by (simp add: env_ok_def)
  then show ?thesis using that by (cases "env n (Bv 8)") auto
qed

definition byte_case :: "ExprDag \<Rightarrow> NodeId \<Rightarrow> bool \<Rightarrow> Rel \<Rightarrow> SymbolId \<Rightarrow> u128 \<Rightarrow> bool" where
  "byte_case d t want rel name c \<longleftrightarrow>
     (\<forall>env x. env name (Bv 8) = VBv 8 x \<longrightarrow>
        eval env d t = Some (VBool (byte_rel rel x (take_bit 8 (uint c)) = want)))"

definition byte_outcome :: "ExprDag \<Rightarrow> NodeId \<Rightarrow> bool \<Rightarrow> u32 \<Rightarrow> Rel \<Rightarrow> TrivialOutcome \<Rightarrow> bool" where
  "byte_outcome d t want n rel out \<longleftrightarrow>
     (\<exists>name nm idx c. symbol_name d name = Some nm \<and> parse_input_byte_var_name nm = Some idx \<and> idx < n \<and>
        byte_case d t want rel name c \<and>
        out = (case flip_var_const rel c of
                 None \<Rightarrow> TUnsat
               | Some b \<Rightarrow> TSat ((replicate (unat n) 0)[unat idx := b])))"

lemma byte_outcomeI:
  "byte_case d t want rel name c \<Longrightarrow> symbol_name d name = Some nm \<Longrightarrow>
     parse_input_byte_var_name nm = Some idx \<Longrightarrow> idx < n \<and>
       out = (case flip_var_const rel c of
                None \<Rightarrow> TUnsat
              | Some b \<Rightarrow> TSat ((replicate (unat n) 0)[unat idx := b])) \<Longrightarrow>
     byte_outcome d t want n rel out"
  unfolding byte_outcome_def by blast

lemma match_sides_Inr:
  "match_sides l r = Inr (idx, c, swapped) \<longleftrightarrow>
     (\<exists>w. \<not> swapped \<and> l = InputByte idx w \<and> r = Const c w \<or> swapped \<and> r = InputByte idx w \<and> l = Const c w)"
  by (cases l; cases r) (auto simp: match_sides_def check_widths_def split: if_splits)

lemma finish_Inr:
  "finish rel n (idx, c, swapped) = Inr out \<Longrightarrow> idx < n \<and>
     out = (case flip_var_const (if swapped then mirror rel else rel) c of
              None \<Rightarrow> TUnsat
            | Some b \<Rightarrow> TSat ((replicate (unat n) 0)[unat idx := b]))"
  by (auto simp: finish_def flip_mirror split: if_splits option.splits)

definition rel_orbit :: "Rel set \<Rightarrow> Rel set" where
  "rel_orbit R = (\<Union>r\<in>R. {r, invert r, mirror r, mirror (invert r)})"

lemma solve_trivial_byte:
  assumes "wf_dag d" "byte_target R d t"
    and "solve_trivial d (if want then Direct t else Negated t) n = Some (Inr out)"
  shows "\<exists>rel\<in>rel_orbit R. byte_outcome d t want n rel out"
proof -
  from assms(2) obtain e e' neg rel l r where e: "try_get d t = Some e"
      "strip_not d e False = Inr (e', neg)" "relation_of e' = Some (rel, l, r)"
      and R: "rel \<in> R" and s: "byte_side d l" "byte_side d r"
    by (auto simp: byte_target_def split: option.splits sum.splits)
  let ?rel = "if neg = want then invert rel else rel"
  obtain lk rk idx c sw where k: "classify_side d l = Some lk" "classify_side d r = Some rk"
      "match_sides lk rk = Inr (idx, c, sw)" "finish ?rel n (idx, c, sw) = Inr out"
    using assms(3) e strip_not_negated [OF e(2), of "\<not> want"]
    by (auto simp: solve_trivial_def Let_def split: option.splits sum.splits if_splits)
  have ev: "eval env d t = Some (VBool (byte_rel ?rel x y = want))"
    if "eval env d l = Some (VBv 8 x)" "eval env d r = Some (VBv 8 y)" for env x y
    using strip_not_eval [OF assms(1) e(2) relation_of_eval [where f = "eval env d", OF e(3) that]]
    by (auto simp: eval_get [OF assms(1) e(1)] byte_rel_invert)
  have orbit: "?rel \<in> rel_orbit R" "mirror ?rel \<in> rel_orbit R" using R by (auto simp: rel_orbit_def)
  show ?thesis
  proof (cases sw)
    case False
    with k(3) obtain w where w: "lk = InputByte idx w" "rk = Const c w" by (auto simp: match_sides_Inr)
    obtain name nm where nm: "try_get d l = Some (Var name (Bv 8))" "symbol_name d name = Some nm"
        "parse_input_byte_var_name nm = Some idx"
      using byte_side_input [OF s(1)] k(1) w(1) by blast
    have "byte_case d t want ?rel name c"
      using ev nm(1) byte_side_const [OF s(2) _ assms(1)] k(2) w(2)
      by (auto simp: byte_case_def eval_get [OF assms(1) nm(1)])
    then have "byte_outcome d t want n ?rel out"
      using nm(2,3) by (rule byte_outcomeI) (use finish_Inr [OF k(4)] False in \<open>simp only: if_False\<close>)
    with orbit show ?thesis by blast
  next
    case True
    with k(3) obtain w where w: "rk = InputByte idx w" "lk = Const c w" by (auto simp: match_sides_Inr)
    obtain name nm where nm: "try_get d r = Some (Var name (Bv 8))" "symbol_name d name = Some nm"
        "parse_input_byte_var_name nm = Some idx"
      using byte_side_input [OF s(2)] k(2) w(1) by blast
    have "byte_case d t want (mirror ?rel) name c"
      using ev nm(1) byte_side_const [OF s(1) _ assms(1)] k(1) w(2)
      by (auto simp: byte_case_def eval_get [OF assms(1) nm(1)] byte_rel_mirror)
    then have "byte_outcome d t want n (mirror ?rel) out"
      using nm(2,3) by (rule byte_outcomeI) (use finish_Inr [OF k(4)] True in \<open>simp only: if_True\<close>)
    with orbit show ?thesis by blast
  qed
qed

section \<open>The solver returns, and never claims unreachability\<close>

lemma wf_symbol: "wf_dag d \<Longrightarrow> try_get d i = Some (Var n s) \<Longrightarrow> \<exists>nm. symbol_name d n = Some nm"
  unfolding wf_dag_def try_get_def symbol_name_def
  by (metis nth_mem option.distinct(1) option.inject var_ok.simps(1))

lemma classify_iter_returns:
  assumes "wf_dag d"
  shows "unat i < n \<Longrightarrow> \<exists>k. classify_iter n d i = Some k"
proof (induction n arbitrary: i)
  case (Suc n)
  have ext: "\<exists>k. classify_iter n d c = Some k"
    if "try_get d i = Some (ZeroExt x c) \<or> try_get d i = Some (SignExt x c)" for x c
    using that wf_dag_child [OF assms, of i _ c] Suc.prems by (intro Suc.IH) fastforce
  obtain srt where "sort_of d i = Some srt" using sort_of_returns [OF assms, of i] by auto
  with ext wf_symbol [OF assms, of i] show ?case
    by (fastforce simp: Let_def split: option.splits Expr.splits SideKind.splits Sort.splits)
qed simp

lemma classify_side_returns:
  assumes "wf_dag d"
  shows "\<exists>k. classify_side d i = Some k"
proof (cases "try_get d i")
  case None
  then show ?thesis by (simp add: classify_side_def)
next
  case (Some e)
  then have "unat i < length (nodes d)" by (simp add: try_get_def split: if_splits)
  then show ?thesis unfolding classify_side_def by (intro classify_iter_returns [OF assms]) simp
qed

lemma solve_trivial_returns:
  assumes "wf_dag d"
  shows "\<exists>r. solve_trivial d t n = Some r"
proof -
  obtain K where "\<And>i. classify_side d i = Some (K i)" using classify_side_returns [OF assms] by metis
  then show ?thesis
    by (simp add: solve_trivial_def Let_def split: ResolvedTarget.split option.split sum.split)
qed

abbreviation resolved :: "BranchQuery \<Rightarrow> ResolvedTarget" where
  "resolved q \<equiv> if want_taken q then Direct (target_branch q) else Negated (target_branch q)"

lemma solve_branch_Some:
  assumes "solve_branch elapsed q d = Some r"
  obtains s out where "solve_trivial d (resolved q) (input_bytes q) = Some out" "r = tier1_report elapsed s out"
  using assms by (auto simp: solve_branch_def Let_def split: option.splits)

lemma tier1_report_fields:
  "status (tier1_report elapsed text out) =
     (case out of Inl _ \<Rightarrow> Unknown | Inr (TSat _) \<Rightarrow> Sat | Inr TUnsat \<Rightarrow> Unsat)"
  "input_model (tier1_report elapsed text out) = (case out of Inr (TSat m) \<Rightarrow> Some m | _ \<Rightarrow> None)"
  "unsat_assumptions_returned (tier1_report elapsed text out) = False"
  by (simp_all add: tier1_report_def Let_def split: sum.split TrivialOutcome.split)

lemma solve_branch_returns:
  assumes "query_valid q d"
  shows "\<exists>r. solve_branch elapsed q d = Some r"
proof -
  obtain e where "emit_query q d = Some e" using emit_query_returns [OF assms] by blast
  moreover have "wf_dag d" using assms by (simp add: query_valid_def query_ok_def)
  ultimately show ?thesis
    using solve_trivial_returns [of d] by (auto simp: solve_branch_def dump_smt2_def Let_def)
qed

lemma tier1_never_authoritative:
  "solve_branch elapsed q d = Some r \<Longrightarrow> \<not> is_authoritative_unreachable r"
  by (auto elim: solve_branch_Some simp: is_authoritative_unreachable_def tier1_report_fields)

interpretation tier1: unreachability_contract "solve_branch elapsed" for elapsed
  by unfold_locales (use tier1_never_authoritative in blast)

lemma solve_branch_outcome:
  assumes "solve_branch elapsed q d = Some r"
  shows "status r = Sat \<Longrightarrow> \<exists>m. input_model r = Some m \<and>
      solve_trivial d (resolved q) (input_bytes q) = Some (Inr (TSat m))"
    and "status r = Unsat \<Longrightarrow> solve_trivial d (resolved q) (input_bytes q) = Some (Inr TUnsat)"
  using assms
  by (auto elim!: solve_branch_Some simp: tier1_report_fields split: sum.splits TrivialOutcome.splits)

text \<open>An assignment that gives every 8-bit input symbol the byte a model has for its index.\<close>

definition follows_model :: "assignment \<Rightarrow> ExprDag \<Rightarrow> u8 list \<Rightarrow> bool" where
  "follows_model env d m \<longleftrightarrow>
     (\<forall>n nm i. symbol_name d n = Some nm \<longrightarrow> parse_input_byte_var_name nm = Some i \<longrightarrow> unat i < length m \<longrightarrow>
        env n (Bv 8) = VBv 8 (uint (m ! unat i)))"

section \<open>Properties\<close>

text \<open>
  C23: a model the tier-1 solver reports for a comparison of 8-bit operands has one byte per input
  byte, and every assignment that follows it gives the target branch the wanted value.
\<close>

lemma pure_rust_sat_sound:
  assumes "query_valid q d" "byte_target UNIV d (target_branch q)"
    and "solve_branch elapsed q d = Some r" "status r = Sat"
  shows "\<exists>m. input_model r = Some m \<and> length m = unat (input_bytes q) \<and>
    (\<forall>env. follows_model env d m \<longrightarrow> eval env d (target_branch q) = Some (VBool (want_taken q)))"
proof -
  have d: "wf_dag d" using assms(1) by (simp add: query_valid_def query_ok_def)
  obtain m where m: "input_model r = Some m" "solve_trivial d (resolved q) (input_bytes q) = Some (Inr (TSat m))"
    using solve_branch_outcome(1) [OF assms(3,4)] by auto
  from solve_trivial_byte [OF d assms(2) m(2)] obtain rel name nm idx c b where
      nm: "symbol_name d name = Some nm" "parse_input_byte_var_name nm = Some idx" "idx < input_bytes q"
      and b: "byte_case d (target_branch q) (want_taken q) rel name c" "flip_var_const rel c = Some b"
      and out: "m = (replicate (unat (input_bytes q)) 0)[unat idx := b]"
    by (auto simp: byte_outcome_def split: option.splits)
  have idx: "unat idx < unat (input_bytes q)" using nm(3) by (simp add: word_less_nat_alt)
  have "eval env d (target_branch q) = Some (VBool (want_taken q))" if "follows_model env d m" for env
  proof -
    have "env name (Bv 8) = VBv 8 (uint b)"
      using that nm idx by (simp add: follows_model_def out)
    with b(1) flip_var_const_sound [OF b(2)] show ?thesis by (simp add: byte_case_def)
  qed
  with m(1) show ?thesis by (simp add: out)
qed

text \<open>
  An \<open>Unsat\<close> of the tier-1 solver for an equality or unsigned comparison of 8-bit operands is
  right: no assignment gives the target the wanted value, so the query has no solution.
\<close>

lemma pure_rust_unsat_sound:
  assumes "query_valid q d" "byte_target {REq, RUlt, RUle} d (target_branch q)"
    and "solve_branch elapsed q d = Some r" "status r = Unsat"
  shows "\<not> query_sat q d"
proof
  assume "query_sat q d"
  then obtain env where env: "env_ok env" "eval env d (target_branch q) = Some (VBool (want_taken q))"
    by (auto simp: query_sat_def sat_branch_def)
  have d: "wf_dag d" using assms(1) by (simp add: query_valid_def query_ok_def)
  from solve_trivial_byte [OF d assms(2) solve_branch_outcome(2) [OF assms(3,4)]]
  obtain rel name c where rel: "rel \<in> rel_orbit {REq, RUlt, RUle}"
      "byte_case d (target_branch q) (want_taken q) rel name c" "flip_var_const rel c = None"
    by (auto simp: byte_outcome_def split: option.splits)
  obtain x where x: "env name (Bv 8) = VBv 8 x" "0 \<le> x" "x < 256" using env_byte [OF env(1)] .
  have "rel \<notin> {RSle, RSge}" using rel(1) by (auto simp: rel_orbit_def)
  then have "\<not> byte_rel rel x (take_bit 8 (uint c))" using flip_var_const_complete [OF rel(3) _ x(2,3)] by blast
  with rel(2) x(1) env(2) show False by (simp add: byte_case_def)
qed

text \<open>
  The tier-1 solver reports \<open>Unsat\<close> for a signed \<open>input <= c\<close> with a negative constant byte, a
  branch that some input takes: the signed cases convert \<open>128 .. 255\<close> to a signed byte and give up.
\<close>

lemma pure_rust_signed_false_unsat:
  assumes "wf_dag d" "try_get d t = Some (Sle l r)" "try_get d l = Some (Var name (Bv 8))"
    and "symbol_name d name = Some nm" "parse_input_byte_var_name nm = Some idx" "idx < n"
    and "try_get d r = Some (BvConst c 8)" "128 \<le> low_byte c"
  shows "solve_trivial d (Direct t) n = Some (Inr TUnsat) \<and>
    (\<exists>env. env_ok env \<and> eval env d t = Some (VBool True))"
proof
  have k: "classify_side d l = Some (InputByte idx 8)" "classify_side d r = Some (Const c 8)"
    using assms by (simp_all add: classify_side_def)
  note gap = flip_var_const_signed_gap [of RSle c, simplified, OF assms(8)]
  show "solve_trivial d (Direct t) n = Some (Inr TUnsat)"
    using assms k gap(1)
    by (simp add: solve_trivial_def strip_not_def match_sides_def check_widths_def finish_def not_le)
  define env :: assignment where "env = (\<lambda>_ s. case s of Bool \<Rightarrow> VBool True
    | Bv w \<Rightarrow> VBv (unat w) (if w = 8 then 128 else 0) | Array _ _ \<Rightarrow> VArr (\<lambda>_. 0))"
  have "env_ok env" by (auto simp: env_ok_def env_def split: Sort.splits)
  moreover have "eval env d t = Some (VBool True)"
    using gap(2) assms(2,3,7) by (simp add: eval_unfold [OF assms(1)] env_def)
  ultimately show "\<exists>env. env_ok env \<and> eval env d t = Some (VBool True)" by blast
qed

text \<open>
  The tier-1 answer does not depend on the path constraints: its status and its model are the
  same for every list of constraints over the DAG.
\<close>

lemma pure_rust_ignores_path:
  assumes "query_valid q d" "query_valid (q\<lparr>q_path_constraints := pcs\<rparr>) d"
  shows "\<exists>r r'. solve_branch elapsed q d = Some r \<and>
    solve_branch elapsed (q\<lparr>q_path_constraints := pcs\<rparr>) d = Some r' \<and>
    status r' = status r \<and> input_model r' = input_model r"
proof -
  obtain r r' where r: "solve_branch elapsed q d = Some r"
      "solve_branch elapsed (q\<lparr>q_path_constraints := pcs\<rparr>) d = Some r'"
    using assms solve_branch_returns by blast
  then have "status r' = status r \<and> input_model r' = input_model r"
    by (elim solve_branch_Some) (simp add: tier1_report_fields cong: if_cong)
  with r show ?thesis by blast
qed

text \<open>The name of an input byte determines its index: the solver reads back what the emitter declares.\<close>

lemma input_byte_name_round_trip:
  "parse_input_byte_var_name (''input_b'' @ show_nat (unat i)) = Some i"
proof -
  have "unat i < 2 ^ 32" using unsigned_less [of i, where ?'a = nat] by simp
  then show ?thesis
    unfolding parse_input_byte_var_name_def strip_prefix_append
    by (simp add: parse_u32_def parse_unsigned_show_nat)
qed

section \<open>Witnesses\<close>

text \<open>\<open>input_b0 < 7\<close> under the constraints of \<^const>\<open>demo_query_rec\<close>, and \<open>input_b0 < 0\<close>.\<close>

definition byte_dag :: ExprDag where
  "byte_dag = dag_of [''input_b0'']
     [Var 0 (Bv 8), BvConst 0 8, Ult 0 1, BvConst 200 8, Sle 0 3]"

lemma byte_dag:
  "wf_dag byte_dag" "nodes byte_dag = [Var 0 (Bv 8), BvConst 0 8, Ult 0 1, BvConst 200 8, Sle 0 3]"
  "symbols byte_dag = [''input_b0'']"
  unfolding byte_dag_def by (rule dag_of_wf; simp)+

definition byte_query :: BranchQuery where
  "byte_query = \<lparr>input_bytes = 1, q_path_constraints = [], target_branch = 2, want_taken = True,
     timeout = 0, prefer_logic = None\<rparr>"

lemma byte_query_valid: "query_valid byte_query byte_dag"
  by (simp add: query_valid_def query_ok_def byte_query_def byte_dag valid_id_def)

lemma pure_rust_sat_sound_witness:
  "\<exists>r. solve_branch 0 (demo_query_rec\<lparr>want_taken := True\<rparr>) demo_dag = Some r \<and> (\<exists>m. input_model r = Some m \<and>
     (\<forall>env. follows_model env demo_dag m \<longrightarrow> eval env demo_dag 5 = Some (VBool True)))"
proof -
  let ?q = "demo_query_rec\<lparr>want_taken := True\<rparr>"
  have v: "query_valid ?q demo_dag" using demo_query_valid by (simp add: query_valid_def)
  then obtain r where r: "solve_branch 0 ?q demo_dag = Some r" using solve_branch_returns by blast
  have "solve_trivial demo_dag (Direct 5) 2 = Some (Inr (TSat [6, 0]))" by code_simp
  with r have "status r = Sat" by (elim solve_branch_Some) (auto simp: tier1_report_fields demo_query_rec_def)
  moreover have "byte_target UNIV demo_dag 5" by code_simp
  ultimately show ?thesis
    using pure_rust_sat_sound [OF v _ r] r by (auto simp: demo_query_rec_def)
qed

lemma pure_rust_unsat_sound_witness: "\<not> query_sat byte_query byte_dag"
proof -
  obtain r where r: "solve_branch 0 byte_query byte_dag = Some r"
    using solve_branch_returns [OF byte_query_valid] by blast
  have "solve_trivial byte_dag (Direct 2) 1 = Some (Inr TUnsat)" by code_simp
  with r have "status r = Unsat" by (elim solve_branch_Some) (auto simp: tier1_report_fields byte_query_def)
  moreover have "byte_target {REq, RUlt, RUle} byte_dag 2" by code_simp
  ultimately show ?thesis using pure_rust_unsat_sound [OF byte_query_valid _ r] by (simp add: byte_query_def)
qed

lemma pure_rust_signed_false_unsat_witness:
  "solve_trivial byte_dag (Direct 4) 1 = Some (Inr TUnsat) \<and>
    (\<exists>env. env_ok env \<and> eval env byte_dag 4 = Some (VBool True))"
proof (rule pure_rust_signed_false_unsat [OF byte_dag(1)])
  show "try_get byte_dag 4 = Some (Sle 0 3)" "try_get byte_dag 0 = Some (Var 0 (Bv 8))"
    "symbol_name byte_dag 0 = Some ''input_b0''" "try_get byte_dag 3 = Some (BvConst 200 8)"
    by (simp_all add: try_get_def symbol_name_def byte_dag)
  show "parse_input_byte_var_name ''input_b0'' = Some 0" "128 \<le> low_byte 200" by code_simp+
qed simp

lemma pure_rust_ignores_path_witness:
  "\<exists>r r'. solve_branch 0 demo_query_rec demo_dag = Some r \<and>
    solve_branch 0 (demo_query_rec\<lparr>q_path_constraints := []\<rparr>) demo_dag = Some r' \<and>
    status r' = status r \<and> input_model r' = input_model r"
  using pure_rust_ignores_path [of demo_query_rec demo_dag "[]" 0] demo_query_valid
  by (simp add: query_valid_def query_ok_def)

end
