(* ===== verification/Ladder.thy ===== *)
theory Ladder
  imports Pure_Rust
begin

text \<open>
  The tiered solver cascade of \<open>src/concolic/ladder.rs\<close>: constant folding, then the backends in
  order, each on the full query or on its slice, until one reports a model.

  A backend of the ladder is modelled by its response to a query, \<open>solve\<close>; the ladder calls each one
  once. \<open>None\<close> is a panic of the code (a node id out of range, or one inside a backend). The total
  wall-clock time is a parameter.
\<close>

section \<open>Tiers\<close>

datatype SolveTier = ConstantFold | PureFast | Z3Quick | Z3SlicedAssumptions | Z3External | UnknownTier

definition can_authoritatively_unreachable :: "SolveTier \<Rightarrow> bool" where
  "can_authoritatively_unreachable t \<longleftrightarrow> t \<in> {Z3SlicedAssumptions, Z3External}"

fun label :: "SolveTier \<Rightarrow> string" where
  "label ConstantFold = ''constant_fold''"
| "label PureFast = ''pure_fast''"
| "label Z3Quick = ''z3_quick''"
| "label Z3SlicedAssumptions = ''z3_sliced_assumptions''"
| "label Z3External = ''z3_external''"
| "label UnknownTier = ''unknown''"

type_synonym response = "BranchQuery \<Rightarrow> ExprDag \<Rightarrow> SolveReport option"

record LadderBackend =
  tier :: SolveTier
  backend_solve :: response
  slice :: bool
  tier_timeout :: nat

record LadderAttempt =
  at_tier :: SolveTier
  at_backend_name :: string
  slice_size :: nat
  at_time_ms :: nat
  at_status :: SolveStatus
  at_reason :: "string option"
  at_authoritative :: bool

record LadderOutcome =
  attempts :: "LadderAttempt list"
  winning_tier :: SolveTier
  final_report :: SolveReport
  branch_marked_unreachable :: bool
  total_time_ms :: nat

section \<open>Tier 0\<close>

definition fold_report :: SolveReport where
  "fold_report = \<lparr>status = Unsat, time_ms = 0, input_model = None, smt2 = [], report_reason = None,
     unsat_core = [], unsat_assumptions_returned = False, backend_name = ''constant_fold''\<rparr>"

fun all_true_consts :: "ExprDag \<Rightarrow> NodeId list \<Rightarrow> bool option" where
  "all_true_consts d [] = Some True"
| "all_true_consts d (pc # pcs) =
     (case get d pc of
        None \<Rightarrow> None
      | Some (BoolConst True) \<Rightarrow> all_true_consts d pcs
      | Some _ \<Rightarrow> Some False)"

definition constant_fold :: "BranchQuery \<Rightarrow> ExprDag \<Rightarrow> SolveReport option option" where
  "constant_fold q d =
     (case get d (target_branch q) of
        None \<Rightarrow> None
      | Some (BoolConst target_value) \<Rightarrow>
          let asserted_true = (if want_taken q then target_value else \<not> target_value)
          in if \<not> asserted_true then Some (Some (fold_report\<lparr>report_reason := Some ''constant_fold_unsat''\<rparr>))
             else (case all_true_consts d (q_path_constraints q) of
                     None \<Rightarrow> None
                   | Some False \<Rightarrow> Some None
                   | Some True \<Rightarrow>
                       Some (Some (fold_report\<lparr>status := Sat,
                         input_model := Some (replicate (unat (input_bytes q)) 0)\<rparr>)))
      | Some _ \<Rightarrow> Some None)"

section \<open>Slicing\<close>

definition cap_timeout :: "nat \<Rightarrow> BranchQuery \<Rightarrow> BranchQuery" where
  "cap_timeout t q = (if t > 0 then q\<lparr>timeout := t\<rparr> else q)"

definition slice_query :: "BranchQuery \<Rightarrow> ExprDag \<Rightarrow> nat \<Rightarrow> (BranchQuery \<times> nat) option" where
  "slice_query q d t =
     (case backward_slice d (q_path_constraints q) (target_branch q) of
        None \<Rightarrow> None
      | Some s \<Rightarrow>
          Some (cap_timeout t (q\<lparr>q_path_constraints := constraints s\<rparr>), length (constraints s)))"

definition effective_query :: "LadderBackend \<Rightarrow> BranchQuery \<Rightarrow> ExprDag \<Rightarrow> (BranchQuery \<times> nat) option" where
  "effective_query lb q d =
     (if slice lb then slice_query q d (tier_timeout lb)
      else Some (cap_timeout (tier_timeout lb) q, length (q_path_constraints q)))"

section \<open>The cascade\<close>

type_synonym tracked = "(SolveTier \<times> SolveReport \<times> nat) option"

definition attempt_row :: "SolveTier \<Rightarrow> nat \<Rightarrow> SolveReport \<Rightarrow> bool \<Rightarrow> LadderAttempt" where
  "attempt_row t n r auth = \<lparr>at_tier = t, at_backend_name = backend_name r, slice_size = n,
     at_time_ms = time_ms r, at_status = status r, at_reason = report_reason r, at_authoritative = auth\<rparr>"

definition outcome :: "nat \<Rightarrow> LadderAttempt list \<Rightarrow> SolveTier \<Rightarrow> SolveReport \<Rightarrow> bool \<Rightarrow> LadderOutcome" where
  "outcome ms log t r unreachable = \<lparr>attempts = log, winning_tier = t, final_report = r,
     branch_marked_unreachable = unreachable, total_time_ms = ms\<rparr>"

definition empty_report :: SolveReport where
  "empty_report = \<lparr>status = Unknown, time_ms = 0, input_model = None, smt2 = [],
     report_reason = Some ''ladder_empty'', unsat_core = [], unsat_assumptions_returned = False,
     backend_name = ''ladder''\<rparr>"

text \<open>After the loop: the best authoritative report, else the last one, else a stub.\<close>

definition settle :: "nat \<Rightarrow> LadderAttempt list \<Rightarrow> tracked \<Rightarrow> tracked \<Rightarrow> LadderOutcome" where
  "settle ms log prev best =
     (case best of
        Some (t, r, _) \<Rightarrow> outcome ms log t r True
      | None \<Rightarrow>
          (case prev of
             Some (t, r, _) \<Rightarrow> outcome ms log t r False
           | None \<Rightarrow> outcome ms log UnknownTier empty_report False))"

fun run_tiers :: "nat \<Rightarrow> BranchQuery \<Rightarrow> ExprDag \<Rightarrow> LadderBackend list \<Rightarrow> LadderAttempt list \<Rightarrow>
    tracked \<Rightarrow> tracked \<Rightarrow> LadderOutcome option" where
  "run_tiers ms q d [] log prev best = Some (settle ms log prev best)"
| "run_tiers ms q d (lb # lbs) log prev best =
     (case effective_query lb q d of
        None \<Rightarrow> None
      | Some (eq, n) \<Rightarrow>
          (case backend_solve lb eq d of
             None \<Rightarrow> None
           | Some r \<Rightarrow>
               let auth = (can_authoritatively_unreachable (tier lb) \<and> is_authoritative_unreachable r);
                   log = log @ [attempt_row (tier lb) n r auth]
               in if status r = Sat then Some (outcome ms log (tier lb) r False)
                  else if status r = Unsat \<and> auth
                    then run_tiers ms q d lbs log (Some (tier lb, r, n)) (Some (tier lb, r, n))
                  else run_tiers ms q d lbs log (Some (tier lb, r, n)) best))"

definition solve :: "nat \<Rightarrow> LadderBackend list \<Rightarrow> BranchQuery \<Rightarrow> ExprDag \<Rightarrow> LadderOutcome option" where
  "solve ms backends q d =
     (case constant_fold q d of
        None \<Rightarrow> None
      | Some None \<Rightarrow> run_tiers ms q d backends [] None None
      | Some (Some cf) \<Rightarrow>
          let log = [(attempt_row ConstantFold 0 cf False)\<lparr>at_backend_name := ''constant_fold'', at_time_ms := 0\<rparr>]
          in if status cf = Sat then Some (outcome ms log ConstantFold cf False)
             else if status cf = Unsat
               then run_tiers ms q d backends log (Some (ConstantFold, cf, 0)) None
             else run_tiers ms q d backends log None None)"

text \<open>The default ladder; \<open>external\<close> is the response of the external Z3 backend.\<close>

definition default_for_features :: "nat \<Rightarrow> response \<Rightarrow> LadderBackend list" where
  "default_for_features elapsed external =
     [\<lparr>tier = PureFast, backend_solve = solve_branch elapsed, slice = False, tier_timeout = 0\<rparr>,
      \<lparr>tier = Z3External, backend_solve = external, slice = True, tier_timeout = 10000\<rparr>]"

section \<open>Tier 0 is right\<close>

lemma all_true_consts_True:
  "all_true_consts d pcs = Some True \<Longrightarrow> c \<in> set pcs \<Longrightarrow> try_get d c = Some (BoolConst True)"
  by (induction d pcs rule: all_true_consts.induct) (auto simp: get_def split: option.splits Expr.splits bool.splits)

lemma all_true_consts_returns: "\<forall>c\<in>set pcs. valid_id d c \<Longrightarrow> all_true_consts d pcs \<noteq> None"
  by (induction d pcs rule: all_true_consts.induct)
    (auto simp: get_def valid_id_get split: option.splits Expr.splits bool.splits)

lemma constant_fold_returns:
  assumes "query_valid q d"
  shows "constant_fold q d \<noteq> None"
proof -
  have "all_true_consts d (q_path_constraints q) \<noteq> None" "valid_id d (target_branch q)"
    using assms all_true_consts_returns by (auto simp: query_valid_def query_ok_def)
  then show ?thesis
    by (auto simp: constant_fold_def get_def valid_id_get Let_def split: option.splits Expr.splits bool.splits)
qed

lemma some_env: "\<exists>env. env_ok env"
  by (rule exI [of _ "\<lambda>_ s. case s of Bool \<Rightarrow> VBool True | Bv w \<Rightarrow> VBv (unat w) 0 | Array _ _ \<Rightarrow> VArr (\<lambda>_. 0)"])
    (auto simp: env_ok_def split: Sort.splits)

lemma fold_target:
  assumes "constant_fold q d = Some (Some cf)"
  obtains b where "try_get d (target_branch q) = Some (BoolConst b)"
    "status cf = Unsat \<and> b \<noteq> want_taken q \<or>
     status cf = Sat \<and> b = want_taken q \<and> all_true_consts d (q_path_constraints q) = Some True"
  using assms
  by (auto simp: constant_fold_def get_def Let_def fold_report_def
      split: option.splits Expr.splits bool.splits if_splits)

text \<open>
  Constant folding is right: its \<open>Sat\<close> is given only for a query every assignment satisfies, its
  \<open>Unsat\<close> only for one that none does.
\<close>

lemma constant_fold_correct:
  assumes "query_valid q d" "constant_fold q d = Some (Some cf)"
  shows "(status cf = Sat \<and> (\<forall>env. eval env d (target_branch q) = Some (VBool (want_taken q)) \<and>
             (\<forall>c\<in>set (q_path_constraints q). holds env d c)) \<and> query_sat q d) \<or>
    (status cf = Unsat \<and> \<not> query_sat q d)"
proof -
  have d: "wf_dag d" using assms(1) by (simp add: query_valid_def query_ok_def)
  obtain b where b: "try_get d (target_branch q) = Some (BoolConst b)"
    "status cf = Unsat \<and> b \<noteq> want_taken q \<or>
     status cf = Sat \<and> b = want_taken q \<and> all_true_consts d (q_path_constraints q) = Some True"
    by (rule fold_target [OF assms(2)])
  have t: "eval env d (target_branch q) = Some (VBool b)" for env
    using b(1) by (simp add: eval_get [OF d])
  show ?thesis
  proof (cases "b = want_taken q")
    case True
    with b have "holds env d c" if "c \<in> set (q_path_constraints q)" for env c
      using that all_true_consts_True by (auto simp: holds_def eval_get [OF d])
    with b True t some_env show ?thesis by (auto simp: query_sat_def sat_branch_def)
  next
    case False
    with b t show ?thesis by (auto simp: query_sat_def sat_branch_def)
  qed
qed

section \<open>Slices\<close>

lemma slice_query_returns:
  assumes "query_valid q d"
  obtains eq n where "effective_query lb q d = Some (eq, n)" "query_valid eq d"
    "query_sat q d \<Longrightarrow> query_sat eq d" "n = length (q_path_constraints eq)"
    "n \<le> length (q_path_constraints q)"
proof (cases "slice lb")
  case False
  show ?thesis
    by (rule that [of "cap_timeout (tier_timeout lb) q" "length (q_path_constraints q)"])
      (use False assms in \<open>auto simp: effective_query_def cap_timeout_def query_valid_def query_sat_def\<close>)
next
  case True
  have ok: "query_ok d (q_path_constraints q) (target_branch q)" using assms by (simp add: query_valid_def)
  obtain s where s: "backward_slice d (q_path_constraints q) (target_branch q) = Some s"
    using backward_slice_cases [OF ok] by blast
  obtain P where P: "constraints s = remdups_adj (filter P (q_path_constraints q))"
    using backward_slice_facts(1) [OF ok s] by blast
  then have sub: "set (constraints s) \<subseteq> set (q_path_constraints q)" by auto
  show ?thesis
  proof (rule that)
    show "effective_query lb q d =
      Some (cap_timeout (tier_timeout lb) (q\<lparr>q_path_constraints := constraints s\<rparr>), length (constraints s))"
      using True s by (simp add: effective_query_def slice_query_def)
    show "query_valid (cap_timeout (tier_timeout lb) (q\<lparr>q_path_constraints := constraints s\<rparr>)) d"
      using ok sub by (auto simp: query_valid_def query_ok_def cap_timeout_def)
    show "query_sat (cap_timeout (tier_timeout lb) (q\<lparr>q_path_constraints := constraints s\<rparr>)) d" if "query_sat q d"
      using query_sat_mono [OF that sub, of "timeout q"] query_sat_mono [OF that sub, of "tier_timeout lb"]
      by (simp add: cap_timeout_def query_sat_def)
    show "length (constraints s) \<le> length (q_path_constraints q)"
      using P le_trans [OF remdups_adj_length length_filter_le] by simp
  qed (simp add: cap_timeout_def)
qed

section \<open>The cascade\<close>

definition tracked_ok :: "(SolveTier \<Rightarrow> SolveReport \<Rightarrow> bool) \<Rightarrow> tracked \<Rightarrow> bool" where
  "tracked_ok P x \<longleftrightarrow> (case x of None \<Rightarrow> True | Some (t, r, _) \<Rightarrow> P t r)"

lemma tracked_ok_simps [simp]: "tracked_ok P None" "tracked_ok P (Some (t, r, n)) \<longleftrightarrow> P t r"
  by (simp_all add: tracked_ok_def)

definition proves_unreachable :: "BranchQuery \<Rightarrow> ExprDag \<Rightarrow> SolveTier \<Rightarrow> SolveReport \<Rightarrow> bool" where
  "proves_unreachable q d t r \<longleftrightarrow>
     can_authoritatively_unreachable t \<and> is_authoritative_unreachable r \<and> \<not> query_sat q d"

text \<open>One turn of the loop.\<close>

lemma run_tiers_Cons:
  assumes "run_tiers ms q d (lb # lbs) log prev best = Some out"
  obtains eq n r where "effective_query lb q d = Some (eq, n)" "backend_solve lb eq d = Some r"
    "let auth = (can_authoritatively_unreachable (tier lb) \<and> is_authoritative_unreachable r);
         log' = log @ [attempt_row (tier lb) n r auth]
     in (status r = Sat \<and> out = outcome ms log' (tier lb) r False) \<or>
        (status r \<noteq> Sat \<and> run_tiers ms q d lbs log' (Some (tier lb, r, n))
           (if auth then Some (tier lb, r, n) else best) = Some out)"
  using assms
  by (auto simp: Let_def is_authoritative_unreachable_def split: option.splits if_splits)

text \<open>What holds of every authoritative answer of an eligible tier holds of the one that marks the branch.\<close>

lemma run_tiers_marked:
  assumes "\<And>lb eq n r. lb \<in> set lbs \<Longrightarrow> effective_query lb q d = Some (eq, n) \<Longrightarrow> backend_solve lb eq d = Some r \<Longrightarrow>
      can_authoritatively_unreachable (tier lb) \<Longrightarrow> is_authoritative_unreachable r \<Longrightarrow> P (tier lb) r"
    and "run_tiers ms q d lbs log prev best = Some out" "branch_marked_unreachable out" "tracked_ok P best"
  shows "P (winning_tier out) (final_report out)"
  using assms
proof (induction lbs arbitrary: log prev best)
  case Nil
  then show ?case by (auto simp: settle_def outcome_def split: option.splits prod.splits)
next
  case (Cons lb lbs)
  obtain eq n r where e: "effective_query lb q d = Some (eq, n)" "backend_solve lb eq d = Some r"
    and next_: "let auth = (can_authoritatively_unreachable (tier lb) \<and> is_authoritative_unreachable r);
         log' = log @ [attempt_row (tier lb) n r auth]
     in (status r = Sat \<and> out = outcome ms log' (tier lb) r False) \<or>
        (status r \<noteq> Sat \<and> run_tiers ms q d lbs log' (Some (tier lb, r, n))
           (if auth then Some (tier lb, r, n) else best) = Some out)"
    by (rule run_tiers_Cons [OF Cons.prems(2)])
  from e Cons.prems(1) [of lb eq n r]
  have "P (tier lb) r" if "can_authoritatively_unreachable (tier lb)" "is_authoritative_unreachable r"
    using that by simp
  with next_ Cons.prems Cons.IH show ?case by (auto simp: Let_def outcome_def split: if_splits)
qed

text \<open>
  What the loop adds to the log: one row per backend called, in order. It stops early only at a
  \<open>Sat\<close>, which is then the last row and the final report.
\<close>

definition log_ok :: "LadderBackend list \<Rightarrow> LadderAttempt list \<Rightarrow> LadderOutcome \<Rightarrow> bool" where
  "log_ok lbs rows out \<longleftrightarrow>
     map at_tier rows = map tier (take (length rows) lbs) \<and> length rows \<le> length lbs \<and>
     (\<forall>row\<in>set (butlast rows). at_status row \<noteq> Sat) \<and>
     (if status (final_report out) = Sat
      then rows \<noteq> [] \<and> at_status (last rows) = Sat \<and> at_tier (last rows) = winning_tier out \<and>
        \<not> branch_marked_unreachable out
      else length rows = length lbs \<and> (\<forall>row\<in>set rows. at_status row \<noteq> Sat))"

lemma run_tiers_log:
  assumes "run_tiers ms q d lbs log prev best = Some out"
    and "tracked_ok (\<lambda>_ r. status r \<noteq> Sat) prev" "tracked_ok (\<lambda>_ r. status r \<noteq> Sat) best"
  shows "\<exists>rows. attempts out = log @ rows \<and> log_ok lbs rows out"
  using assms
proof (induction lbs arbitrary: log prev best)
  case Nil
  then show ?case
    by (auto simp: settle_def outcome_def empty_report_def log_ok_def split: option.splits prod.splits)
next
  case (Cons lb lbs)
  obtain eq n r where
    n: "let auth = (can_authoritatively_unreachable (tier lb) \<and> is_authoritative_unreachable r);
         log' = log @ [attempt_row (tier lb) n r auth]
     in (status r = Sat \<and> out = outcome ms log' (tier lb) r False) \<or>
        (status r \<noteq> Sat \<and> run_tiers ms q d lbs log' (Some (tier lb, r, n))
           (if auth then Some (tier lb, r, n) else best) = Some out)"
    by (rule run_tiers_Cons [OF Cons.prems(1)])
  define row where "row = attempt_row (tier lb) n r
    (can_authoritatively_unreachable (tier lb) \<and> is_authoritative_unreachable r)"
  have row: "at_tier row = tier lb" "at_status row = status r" by (simp_all add: row_def attempt_row_def)
  let ?best = "if can_authoritatively_unreachable (tier lb) \<and> is_authoritative_unreachable r
    then Some (tier lb, r, n) else best"
  from n consider (sat) "status r = Sat" "out = outcome ms (log @ [row]) (tier lb) r False"
    | (more) "status r \<noteq> Sat"
        "run_tiers ms q d lbs (log @ [row]) (Some (tier lb, r, n)) ?best = Some out"
    unfolding row_def Let_def by blast
  then show ?case
  proof cases
    case sat
    then show ?thesis by (auto simp: log_ok_def outcome_def row intro!: exI [of _ "[row]"])
  next
    case more
    have "tracked_ok (\<lambda>_ r. status r \<noteq> Sat) ?best" using more(1) Cons.prems(3) by simp
    with Cons.IH [OF more(2)] more(1) obtain rows where
      "attempts out = (log @ [row]) @ rows" "log_ok lbs rows out" by auto
    then show ?thesis using more(1)
      by (auto simp: log_ok_def row intro!: exI [of _ "row # rows"] split: if_splits)
  qed
qed

lemma run_tiers_returns:
  assumes "query_valid q d"
    and "\<And>lb q'. lb \<in> set lbs \<Longrightarrow> query_valid q' d \<Longrightarrow> \<exists>r. backend_solve lb q' d = Some r"
  shows "\<exists>out. run_tiers ms q d lbs log prev best = Some out"
  using assms(2)
proof (induction lbs arbitrary: log prev best)
  case (Cons lb lbs)
  obtain eq n where "effective_query lb q d = Some (eq, n)" "query_valid eq d"
    using slice_query_returns [OF assms(1), of lb] by blast
  moreover from this Cons.prems obtain r where "backend_solve lb eq d = Some r" by (metis list.set_intros(1))
  ultimately show ?case using Cons.IH Cons.prems by (simp add: Let_def)
qed simp

lemma solve_cases:
  assumes "solve ms lbs q d = Some out"
  obtains (fold) cf log where "constant_fold q d = Some (Some cf)" "status cf = Sat" "length log = 1"
      "map at_tier log = [ConstantFold]" "map at_status log = [Sat]" "out = outcome ms log ConstantFold cf False"
  | (tiers) log prev where "constant_fold q d = Some None \<and> log = [] \<or>
        (\<exists>cf. constant_fold q d = Some (Some cf) \<and> status cf = Unsat) \<and> map at_tier log = [ConstantFold]"
      "\<forall>row\<in>set log. at_status row = Unsat"
      "tracked_ok (\<lambda>_ r. status r \<noteq> Sat) prev" "run_tiers ms q d lbs log prev None = Some out"
proof (cases "constant_fold q d")
  case None
  with assms show ?thesis by (simp add: solve_def)
next
  case (Some c)
  show ?thesis
  proof (cases c)
    case None
    with Some assms show ?thesis by (intro tiers [of "[]" None]) (simp_all add: solve_def)
  next
    case (Some cf)
    with \<open>constant_fold q d = Some c\<close> have cf: "constant_fold q d = Some (Some cf)" by simp
    let ?log = "[(attempt_row ConstantFold 0 cf False)\<lparr>at_backend_name := ''constant_fold'', at_time_ms := 0\<rparr>]"
    have log: "map at_tier ?log = [ConstantFold]" "map at_status ?log = [status cf]"
      by (simp_all add: attempt_row_def)
    from cf have "status cf = Sat \<or> status cf = Unsat" by (rule fold_target) auto
    then show ?thesis
    proof
      assume "status cf = Sat"
      with cf assms log show ?thesis by (intro fold [of cf ?log]) (simp_all add: solve_def)
    next
      assume "status cf = Unsat"
      with cf assms log show ?thesis
        by (intro tiers [of ?log "Some (ConstantFold, cf, 0)"]) (simp_all add: solve_def)
    qed
  qed
qed

lemma solve_marked:
  assumes "\<And>lb eq n r. lb \<in> set lbs \<Longrightarrow> effective_query lb q d = Some (eq, n) \<Longrightarrow> backend_solve lb eq d = Some r \<Longrightarrow>
      can_authoritatively_unreachable (tier lb) \<Longrightarrow> is_authoritative_unreachable r \<Longrightarrow> P (tier lb) r"
    and "solve ms lbs q d = Some out" "branch_marked_unreachable out"
  shows "P (winning_tier out) (final_report out)"
  using assms(2)
proof (cases rule: solve_cases)
  case fold
  with assms(3) show ?thesis by (simp add: outcome_def)
next
  case (tiers log prev)
  show ?thesis by (rule run_tiers_marked [where P = P, OF _ tiers(4) assms(3)]) (simp_all add: assms(1))
qed

lemma solve_marked_log:
  assumes "solve ms lbs q d = Some out" "status (final_report out) \<noteq> Sat" "row \<in> set (attempts out)"
  shows "at_status row \<noteq> Sat"
  using assms(1)
proof (cases rule: solve_cases)
  case fold
  with assms(2) show ?thesis by (simp add: outcome_def)
next
  case (tiers log prev)
  obtain rows where "attempts out = log @ rows" "log_ok lbs rows out"
    using run_tiers_log [OF tiers(4,3)] by auto
  with assms(2,3) tiers(2) show ?thesis by (auto simp: log_ok_def)
qed

section \<open>Properties\<close>

text \<open>
  C1: when every backend of a tier that may decide unreachability keeps the contract of
  \<open>Smt_Backend\<close>, the ladder marks a branch unreachable only if no input satisfies the full query,
  although the backends see slices of it. The winning report then is an authoritative \<open>Unsat\<close> of
  such a tier, and no attempt of the log reported a model.
\<close>

lemma ladder_unreachable_sound:
  assumes "query_valid q d"
    and "\<forall>lb\<in>set lbs. can_authoritatively_unreachable (tier lb) \<longrightarrow> unreachability_contract (backend_solve lb)"
    and "solve ms lbs q d = Some out" "branch_marked_unreachable out"
  shows "\<not> query_sat q d \<and> can_authoritatively_unreachable (winning_tier out) \<and>
    is_authoritative_unreachable (final_report out) \<and> (\<forall>row\<in>set (attempts out). at_status row \<noteq> Sat)"
proof -
  have u: "proves_unreachable q d (winning_tier out) (final_report out)"
  proof (rule solve_marked [where P = "proves_unreachable q d", OF _ assms(3,4)])
    fix lb eq n r
    assume lb: "lb \<in> set lbs" "effective_query lb q d = Some (eq, n)" "backend_solve lb eq d = Some r"
      "can_authoritatively_unreachable (tier lb)" "is_authoritative_unreachable r"
    then have "query_valid eq d" "query_sat q d \<Longrightarrow> query_sat eq d"
      using slice_query_returns [OF assms(1), of lb] by (metis option.inject prod.inject)+
    with lb assms(2) show "proves_unreachable q d (tier lb) r"
      using unreachability_contract.authoritative_unsat by (auto simp: proves_unreachable_def)
  qed
  then have "status (final_report out) \<noteq> Sat"
    by (simp add: proves_unreachable_def is_authoritative_unreachable_def)
  with u solve_marked_log [OF assms(3)] show ?thesis by (simp add: proves_unreachable_def)
qed

text \<open>
  The ladder returns for every valid query when its backends do, and its log has one row for
  tier 0 if constant folding decided, then one row per backend called, in the ladder's order. It stops
  early only at a model; then the last row is that \<open>Sat\<close> and its tier wins.
\<close>

lemma ladder_returns_log:
  assumes "query_valid q d"
    and "\<And>lb q'. lb \<in> set lbs \<Longrightarrow> query_valid q' d \<Longrightarrow> \<exists>r. backend_solve lb q' d = Some r"
  shows "\<exists>out. solve ms lbs q d = Some out \<and>
    ((map at_tier (attempts out) = [ConstantFold] \<and> winning_tier out = ConstantFold \<and>
        status (final_report out) = Sat) \<or>
     (\<exists>log rows. attempts out = log @ rows \<and> map at_tier log \<in> {[], [ConstantFold]} \<and> log_ok lbs rows out))"
proof -
  obtain c where "constant_fold q d = Some c" using constant_fold_returns [OF assms(1)] by auto
  moreover have "\<exists>out. run_tiers ms q d lbs log prev best = Some out" for log prev best
    using run_tiers_returns [of q d lbs ms, OF assms] by blast
  ultimately have "\<exists>out. solve ms lbs q d = Some out" by (cases c) (simp_all add: solve_def Let_def)
  then obtain out where out: "solve ms lbs q d = Some out" by blast
  then show ?thesis
  proof (cases rule: solve_cases)
    case fold
    with out show ?thesis by (auto simp: outcome_def)
  next
    case (tiers log prev)
    have "map at_tier log \<in> {[], [ConstantFold]}" using tiers(1) by auto
    moreover obtain rows where "attempts out = log @ rows" "log_ok lbs rows out"
      using run_tiers_log [OF tiers(4,3)] by auto
    ultimately have "\<exists>log rows. attempts out = log @ rows \<and> map at_tier log \<in> {[], [ConstantFold]} \<and> log_ok lbs rows out"
      by (intro exI [of _ log] exI [of _ rows]) simp
    with out show ?thesis by (intro exI [of _ out] conjI disjI2)
  qed
qed

section \<open>The default ladder\<close>

text \<open>Constraint \<open>input_b0 = 3\<close>, target \<open>input_b0 = 5\<close>.\<close>

definition clash_dag :: ExprDag where
  "clash_dag = dag_of [''input_b0''] [Var 0 (Bv 8), BvConst 3 8, BvConst 5 8, EEq 0 1, EEq 0 2]"

lemma clash_dag:
  "wf_dag clash_dag" "nodes clash_dag = [Var 0 (Bv 8), BvConst 3 8, BvConst 5 8, EEq 0 1, EEq 0 2]"
  "symbols clash_dag = [''input_b0'']"
  unfolding clash_dag_def by (rule dag_of_wf; simp)+

definition clash_query :: BranchQuery where
  "clash_query = \<lparr>input_bytes = 1, q_path_constraints = [3], target_branch = 4, want_taken = True,
     timeout = 100, prefer_logic = None\<rparr>"

lemma clash_query_valid: "query_valid clash_query clash_dag"
  by (simp add: query_valid_def query_ok_def clash_query_def clash_dag valid_id_def)

lemma clash_query_unsat: "\<not> query_sat clash_query clash_dag"
proof
  assume "query_sat clash_query clash_dag"
  then obtain env where env: "env_ok env" "holds env clash_dag 3" "eval env clash_dag 4 = Some (VBool True)"
    by (auto simp: query_sat_def sat_branch_def clash_query_def)
  obtain x where x: "env 0 (Bv 8) = VBv 8 x" using env_byte [OF env(1)] .
  have g: "try_get clash_dag 3 = Some (EEq 0 1)" "try_get clash_dag 4 = Some (EEq 0 2)"
    "try_get clash_dag 0 = Some (Var 0 (Bv 8))" "try_get clash_dag 1 = Some (BvConst 3 8)"
    "try_get clash_dag 2 = Some (BvConst 5 8)"
    by (simp_all add: try_get_def clash_dag)
  have "x = 3" "x = 5"
    using env(2,3) x by (simp_all add: holds_def eval_get [OF clash_dag(1)] g)
  then show False by simp
qed

text \<open>
  The default ladder, whatever its external backend answers, reports \<open>Sat\<close> with the model \<open>[5]\<close> for a query
  that no input satisfies: tier 1 does not look at the path constraints, and its \<open>Sat\<close> ends the cascade.
\<close>

lemma default_ladder_unsound_sat:
  "query_valid clash_query clash_dag \<and> \<not> query_sat clash_query clash_dag \<and>
   (\<exists>out. solve ms (default_for_features elapsed external) clash_query clash_dag = Some out \<and>
      winning_tier out = PureFast \<and> status (final_report out) = Sat \<and> input_model (final_report out) = Some [5])"
proof (intro conjI clash_query_valid clash_query_unsat)
  obtain r where r: "solve_branch elapsed clash_query clash_dag = Some r"
    using solve_branch_returns [OF clash_query_valid] by blast
  have "solve_trivial clash_dag (Direct 4) 1 = Some (Inr (TSat [5]))" by code_simp
  with r have s: "status r = Sat" "input_model r = Some [5]"
    by (auto elim!: solve_branch_Some simp: tier1_report_fields clash_query_def)
  have "constant_fold clash_query clash_dag = Some None" by code_simp
  with r s show "\<exists>out. solve ms (default_for_features elapsed external) clash_query clash_dag = Some out \<and>
      winning_tier out = PureFast \<and> status (final_report out) = Sat \<and> input_model (final_report out) = Some [5]"
    by (simp add: solve_def default_for_features_def effective_query_def cap_timeout_def outcome_def)
qed

section \<open>Witnesses\<close>

text \<open>A response that is authoritative exactly on targets that are the opposite constant.\<close>

definition constant_response :: response where
  "constant_response q d = Some
     (if try_get d (target_branch q) = Some (BoolConst (\<not> want_taken q))
      then fold_report\<lparr>unsat_core := [target_branch q], unsat_assumptions_returned := True\<rparr>
      else empty_report)"

lemma constant_response_contract: "unreachability_contract constant_response"
proof
  fix q d r
  assume "query_valid q d" "constant_response q d = Some r" "is_authoritative_unreachable r"
  then have "try_get d (target_branch q) = Some (BoolConst (\<not> want_taken q))" "wf_dag d"
    by (auto simp: constant_response_def empty_report_def is_authoritative_unreachable_def query_valid_def
        query_ok_def split: if_splits)
  then show "\<not> query_sat q d" by (simp add: query_sat_def sat_branch_def eval_get)
qed

definition const_dag :: ExprDag where
  "const_dag = dag_of [] [BoolConst False, BoolConst True]"

lemma const_dag: "wf_dag const_dag" "nodes const_dag = [BoolConst False, BoolConst True]"
  unfolding const_dag_def by (rule dag_of_wf; simp)+

definition const_query :: BranchQuery where
  "const_query = \<lparr>input_bytes = 0, q_path_constraints = [1], target_branch = 0, want_taken = True,
     timeout = 0, prefer_logic = None\<rparr>"

lemma const_query_valid: "query_valid const_query const_dag"
  by (simp add: query_valid_def query_ok_def const_query_def const_dag valid_id_def)

lemma const_ladder_returns:
  "lb \<in> set (default_for_features 0 constant_response) \<Longrightarrow> query_valid q d \<Longrightarrow> \<exists>r. backend_solve lb q d = Some r"
  using solve_branch_returns by (auto simp: default_for_features_def constant_response_def)

lemma ladder_returns_log_witness:
  "\<exists>out. solve 0 (default_for_features 0 constant_response) const_query const_dag = Some out \<and>
    ((map at_tier (attempts out) = [ConstantFold] \<and> winning_tier out = ConstantFold \<and>
        status (final_report out) = Sat) \<or>
     (\<exists>log rows. attempts out = log @ rows \<and> map at_tier log \<in> {[], [ConstantFold]} \<and>
        log_ok (default_for_features 0 constant_response) rows out))"
  by (rule ladder_returns_log [OF const_query_valid const_ladder_returns])

lemma constant_fold_correct_witness: "\<not> query_sat const_query const_dag"
proof -
  have "constant_fold const_query const_dag = Some (Some (fold_report\<lparr>report_reason := Some ''constant_fold_unsat''\<rparr>))"
    by (simp add: constant_fold_def get_def try_get_def const_dag const_query_def)
  from constant_fold_correct [OF const_query_valid this] show ?thesis by (simp add: fold_report_def)
qed

definition const_ladder :: "LadderBackend list" where
  "const_ladder = [\<lparr>tier = Z3External, backend_solve = constant_response, slice = True, tier_timeout = 10\<rparr>]"

lemma const_ladder_marks:
  "map_option branch_marked_unreachable (solve 0 const_ladder const_query const_dag) = Some True"
  by code_simp

lemma ladder_unreachable_sound_witness: "\<not> query_sat const_query const_dag"
proof -
  obtain out where "solve 0 const_ladder const_query const_dag = Some out" "branch_marked_unreachable out"
    using const_ladder_marks by auto
  with ladder_unreachable_sound [OF const_query_valid, of const_ladder] constant_response_contract
  show ?thesis by (simp add: const_ladder_def)
qed

end
