(* ===== verification/Smt2_Backend.thy ===== *)
theory Smt2_Backend
  imports Ladder
begin

text \<open>
  The external backend of \<open>src/concolic/smt2_backend.rs\<close>: it sends the emitted script to a \<open>z3\<close>
  process and reads the reply.

  The process is the parameter \<open>z3\<close>: from the script and the timeout in milliseconds to the error
  text, or the standard output and the elapsed milliseconds (\<open>run_z3\<close>). Everything the code does with
  the reply is modelled.
\<close>

section \<open>Reading the reply\<close>

definition EXTERNAL_NAME :: string where
  "EXTERNAL_NAME = ''z3_external_smt2''"

definition is_hexdigit :: "char \<Rightarrow> bool" where
  "is_hexdigit c \<longleftrightarrow> digit_val 16 c \<noteq> None"

definition parse_u8_radix :: "nat \<Rightarrow> string \<Rightarrow> u8 option" where
  "parse_u8_radix radix s = map_option of_nat (parse_unsigned 8 radix s)"

definition parse_byte_literal :: "string \<Rightarrow> u8 option" where
  "parse_byte_literal s =
     (let digits = (\<lambda>p ok. case after_first p s of None \<Rightarrow> [] | Some rest \<Rightarrow> takeWhile ok rest);
          hex = digits ''#x'' is_hexdigit;
          bin = digits ''#b'' (\<lambda>c. c = CHR ''0'' \<or> c = CHR ''1'');
          dec = digits ''(_ bv'' (\<lambda>c. c \<noteq> CHR '' '')
      in if hex \<noteq> [] then parse_u8_radix 16 hex
         else if bin \<noteq> [] then parse_u8_radix 2 bin
         else if dec \<noteq> [] then parse_u8_radix 10 dec
         else None)"

definition model_line :: "u32 \<Rightarrow> string \<Rightarrow> u8 list \<Rightarrow> u8 list" where
  "model_line n raw out =
     (case strip_prefix ''(define-fun input_b'' (trim raw) of
        None \<Rightarrow> out
      | Some rest \<Rightarrow>
          let idx_text = takeWhile (\<lambda>c. c \<noteq> CHR '' '') rest
          in case parse_u32 idx_text of
               None \<Rightarrow> out
             | Some idx \<Rightarrow>
                 if idx \<ge> n then out
                 else case parse_byte_literal (drop (length idx_text) rest) of
                        Some v \<Rightarrow> out[unat idx := v]
                      | None \<Rightarrow> out)"

definition parse_model_input_bytes :: "string \<Rightarrow> u32 \<Rightarrow> u8 list" where
  "parse_model_input_bytes stdout n = fold (model_line n) (lines stdout) (replicate (unat n) 0)"

fun core_of_lines :: "string list \<Rightarrow> string list" where
  "core_of_lines [] = []"
| "core_of_lines (raw # rest) =
     (case Option.bind (strip_prefix ''('' (trim raw)) (strip_suffix '')'') of
        None \<Rightarrow> core_of_lines rest
      | Some inner \<Rightarrow>
          let tokens = split_whitespace inner
          in if tokens \<noteq> [] \<and> list_all (starts_with ''c_'') tokens then tokens else core_of_lines rest)"

definition parse_unsat_core :: "string \<Rightarrow> string list" where
  "parse_unsat_core stdout = core_of_lines (lines stdout)"

text \<open>The scan for the status line: the first of the four words, and whether an error line occurs.\<close>

definition is_status :: "string \<Rightarrow> bool" where
  "is_status l \<longleftrightarrow> l \<in> {''sat'', ''unsat'', ''unknown'', ''timeout''}"

definition scan_line :: "string \<Rightarrow> string option \<times> bool \<Rightarrow> string option \<times> bool" where
  "scan_line raw st =
     (let l = trim raw; (status_line, error_seen) = st
      in if l = [] \<or> starts_with '';'' l then st
         else if starts_with ''(error'' l then (status_line, True)
         else if status_line = None \<and> is_status l then (Some l, error_seen)
         else st)"

definition scan_reply :: "string \<Rightarrow> string option \<times> bool" where
  "scan_reply stdout = fold scan_line (lines stdout) (None, False)"

definition reverse_map :: "(string \<times> NodeId) list \<Rightarrow> string list \<Rightarrow> NodeId list" where
  "reverse_map table names = List.map_filter (map_of table) names"

definition external_report :: "nat \<Rightarrow> string \<Rightarrow> SolveStatus \<Rightarrow> string option \<Rightarrow> SolveReport" where
  "external_report elapsed script st why = \<lparr>status = st, time_ms = elapsed, input_model = None,
     smt2 = script, report_reason = why, unsat_core = [], unsat_assumptions_returned = False,
     backend_name = EXTERNAL_NAME\<rparr>"

definition parse_z3_response :: "string \<Rightarrow> nat \<Rightarrow> EmittedQuery \<Rightarrow> BranchQuery \<Rightarrow> SolveReport" where
  "parse_z3_response stdout elapsed emitted q =
     (let (status_line, error_seen) = scan_reply stdout;
          report = external_report elapsed (eq_smt2 emitted)
      in case status_line of
           None \<Rightarrow> report Unknown (Some ''z3_external_no_status_line'')
         | Some w \<Rightarrow>
             if w = ''sat'' then
               (report Sat None)\<lparr>input_model := Some (parse_model_input_bytes stdout (input_bytes q))\<rparr>
             else if w = ''unsat'' then
               (let core_names = parse_unsat_core stdout;
                    core = reverse_map (name_map emitted) core_names;
                    core_was_returned = (core_names \<noteq> [] \<and> \<not> error_seen)
                in if \<not> core_was_returned then report Unknown (Some ''external_unsat_without_core'')
                   else (report Unsat None)\<lparr>unsat_core := core, unsat_assumptions_returned := True\<rparr>)
             else if w = ''unknown'' then report Unknown (Some ''z3_external_unknown'')
             else if w = ''timeout'' then report Timeout (Some ''z3_external_timeout'')
             else report Unknown (Some (''z3_external_unexpected_status: '' @ w)))"

section \<open>The backend\<close>

type_synonym z3_process = "string \<Rightarrow> nat \<Rightarrow> (string, string \<times> nat) result"

definition external_solve :: "z3_process \<Rightarrow> BranchQuery \<Rightarrow> ExprDag \<Rightarrow> SolveReport option" where
  "external_solve z3 q d =
     (case emit_query q d of
        None \<Rightarrow> None
      | Some emitted \<Rightarrow>
          Some (case z3 (eq_smt2 emitted) (timeout q) of
                  Inr (stdout, elapsed) \<Rightarrow> parse_z3_response stdout elapsed emitted q
                | Inl e \<Rightarrow> external_report 0 (eq_smt2 emitted) Unknown (Some (''z3_external_run_error: '' @ e))))"

section \<open>Lines and words\<close>

definition plain_line :: "string \<Rightarrow> bool" where
  "plain_line l \<longleftrightarrow> l \<noteq> [] \<and> newline \<notin> set l \<and> \<not> is_ws (hd l) \<and> \<not> is_ws (last l)"

lemma split_on_nonempty: "split_on c s \<noteq> []"
  by (induction s) (auto split: list.splits)

lemma split_on_line: "c \<notin> set l \<Longrightarrow> split_on c (l @ c # r) = l # split_on c r"
  by (induction l) auto

lemma is_ws_newline: "is_ws newline" "is_ws (char_of (13 :: nat))"
  by (simp_all add: is_ws_def newline_def of_char_char_of_small)

lemma trim_plain: "plain_line l \<Longrightarrow> trim l = l"
proof -
  assume l: "plain_line l"
  then have "dropWhile is_ws l = l" by (cases l) (simp_all add: plain_line_def)
  moreover have "dropWhile is_ws (rev l) = rev l"
    using l by (cases "rev l") (auto simp: plain_line_def hd_rev [symmetric])
  ultimately show ?thesis by (simp add: trim_def)
qed

lemma lines_line: "plain_line l \<Longrightarrow> lines (line l @ r) = l # lines r"
proof -
  assume l: "plain_line l"
  then have "drop_cr l = l" by (auto simp: drop_cr_def plain_line_def is_ws_newline)
  moreover have "split_on newline (line l @ r) = l # split_on newline r"
    using l split_on_line [of newline l r] by (simp add: line_def plain_line_def newline_def)
  ultimately show ?thesis by (simp add: lines_def Let_def split_on_nonempty)
qed

lemma lines_Nil: "lines [] = []"
  by (simp add: lines_def)

lemma lines_concat: "(\<And>l. l \<in> set ls \<Longrightarrow> plain_line l) \<Longrightarrow> lines (concat (map line ls)) = ls"
  by (induction ls) (simp_all add: lines_Nil lines_line)

lemma words_from_word:
  "(\<forall>c\<in>set w. \<not> is_ws c) \<Longrightarrow> words_from acc (w @ r) = words_from (rev w @ acc) r"
  by (induction w arbitrary: acc) auto

lemma split_whitespace_spaced:
  assumes "\<And>w. w \<in> set ws \<Longrightarrow> w \<noteq> [] \<and> (\<forall>c\<in>set w. \<not> is_ws c)"
  shows "split_whitespace (spaced ws) = ws"
proof -
  have sp: "is_ws (CHR '' '')" by (simp add: is_ws_def)
  have "words_from acc (spaced ws) = (if acc = [] then [] else [rev acc]) @ ws" for acc
    using assms
  proof (induction ws arbitrary: acc)
    case (Cons w ws)
    have "words_from [] (w @ spaced ws) = words_from (rev w) (spaced ws)"
      using Cons.prems [of w] words_from_word [of w "[]" "spaced ws"] by simp
    also have "\<dots> = w # ws" using Cons.IH [of "rev w"] Cons.prems by auto
    finally show ?case by (simp add: spaced_def sp)
  qed (simp add: spaced_def)
  then show ?thesis by (simp add: split_whitespace_def)
qed

section \<open>Digits\<close>

lemma digit_val_radix: "d < r \<Longrightarrow> r \<le> 16 \<Longrightarrow> digit_val r (char_of (if d < 10 then 48 + d else 87 + d)) = Some d"
  by (simp add: digit_val_def of_char_char_of_small Let_def)

lemma parse_digits_show_radix: "2 \<le> r \<Longrightarrow> r \<le> 16 \<Longrightarrow> parse_digits r (show_radix r n) 0 = Some n"
proof (induction r n rule: show_radix.induct)
  case (1 r n)
  show ?case
  proof (cases "n < r")
    case True
    with 1 show ?thesis using digit_val_radix [of n r] by (subst show_radix.simps) simp
  next
    case False
    with 1 have IH: "parse_digits r (show_radix r (n div r)) 0 = Some (n div r)" by simp
    have "show_radix r n = show_radix r (n div r) @ [char_of (if n mod r < 10 then 48 + n mod r else 87 + n mod r)]"
      using False 1(2) by (subst show_radix.simps) simp
    moreover have "n mod r < r" using 1(2) by simp
    ultimately show ?thesis
      using 1(3) digit_val_radix [of "n mod r" r] by (simp add: parse_digits_append IH del: if_split)
  qed
qed

definition hex2 :: "u8 \<Rightarrow> string" where
  "hex2 b = pad0 2 (show_radix 16 (unat b))"

lemma parse_digits_hexdigit: "parse_digits 16 s acc = Some v \<Longrightarrow> list_all is_hexdigit s"
  by (induction s arbitrary: acc) (auto simp: is_hexdigit_def split: option.splits)

lemma hex2_parses: "parse_digits 16 (hex2 b) 0 = Some (unat b)"
proof -
  have "parse_digits 16 (replicate k (CHR ''0'')) 0 = Some 0" for k
    by (induction k) (simp_all add: digit_val_def)
  then show ?thesis by (simp add: hex2_def pad0_def parse_digits_append parse_digits_show_radix)
qed

lemma hex2_digits: "takeWhile is_hexdigit (hex2 b @ '')'') = hex2 b" "hex2 b \<noteq> []"
proof -
  have "list_all is_hexdigit (hex2 b)" using hex2_parses parse_digits_hexdigit by blast
  moreover have "\<not> is_hexdigit (CHR '')'')" by (simp add: is_hexdigit_def digit_val_def)
  ultimately show "takeWhile is_hexdigit (hex2 b @ '')'') = hex2 b" by (simp add: takeWhile_append2 list_all_iff)
  show "hex2 b \<noteq> []" unfolding hex2_def pad0_def by (subst show_radix.simps) simp
qed

lemma parse_hex2: "parse_u8_radix 16 (hex2 b) = Some b"
proof -
  obtain c cs where s: "hex2 b = c # cs" using hex2_digits(2) by (cases "hex2 b") auto
  have "c \<noteq> CHR ''+''" using hex2_parses [of b] s by (auto simp: digit_val_def)
  moreover have "int (unat b) < 2 ^ 8" using unsigned_less [of b, where ?'a = int] by simp
  ultimately show ?thesis using hex2_parses [of b] s by (simp add: parse_u8_radix_def parse_unsigned_def)
qed

section \<open>Replies with a model\<close>

text \<open>One definition per line, as the code's parser expects.\<close>

definition byte_line :: "u8 list \<Rightarrow> nat \<Rightarrow> string" where
  "byte_line m i = ''(define-fun input_b'' @ show_nat i @ '' () (_ BitVec 8) #x'' @ hex2 (m ! i) @ '')''"

definition sat_reply :: "u8 list \<Rightarrow> nat list \<Rightarrow> string" where
  "sat_reply m is = concat (map line (''sat'' # map (byte_line m) is))"

lemma show_nat_chars: "c \<in> set (show_nat n) \<Longrightarrow> digit_val 10 c \<noteq> None"
proof -
  have "parse_digits 10 s acc = Some v \<Longrightarrow> c \<in> set s \<Longrightarrow> digit_val 10 c \<noteq> None" for s acc v
    by (induction s arbitrary: acc) (auto split: option.splits)
  then show "c \<in> set (show_nat n) \<Longrightarrow> digit_val 10 c \<noteq> None" using parse_digits_show_nat by blast
qed

lemma digit_not_ws: "digit_val r c \<noteq> None \<Longrightarrow> \<not> is_ws c"
  by (auto simp: digit_val_def is_ws_def Let_def split: if_splits)

lemma byte_line_plain: "plain_line (byte_line m i)"
proof -
  have "newline \<notin> set (show_nat i)" using show_nat_chars digit_not_ws is_ws_newline(1) by blast
  moreover have "newline \<notin> set (hex2 b)" for b
    using hex2_digits(1) [of b] is_ws_newline(1) digit_not_ws
    by (metis is_hexdigit_def set_takeWhileD)
  ultimately show ?thesis by (simp add: plain_line_def byte_line_def newline_def is_ws_def char_of_neq)
qed

lemma model_line_byte:
  assumes "i < unat n"
  shows "model_line n (byte_line m i) out = out[i := m ! i]"
proof -
  have tw: "takeWhile (\<lambda>c. c \<noteq> CHR '' '') (show_nat i @ CHR '' '' # r) = show_nat i" for r
    using show_nat_chars [of "CHR '' ''" i] by (subst takeWhile_append2) (auto simp: digit_val_def)
  have i: "i < 2 ^ 32" using assms unsigned_less [of n, where ?'a = nat] by simp
  then have p: "parse_u32 (show_nat i) = Some (of_nat i)" by (simp add: parse_u32_def parse_unsigned_show_nat)
  have u: "unat (of_nat i :: u32) = i" using i by (intro unat_of_nat_less) simp
  have "parse_byte_literal ('' () (_ BitVec 8) #x'' @ hex2 (m ! i) @ '')'') = Some (m ! i)"
    by (simp add: parse_byte_literal_def hex2_digits [simplified] parse_hex2)
  moreover have "\<not> n \<le> of_nat i" using assms u by (simp add: word_le_nat_alt)
  ultimately show ?thesis
    using tw p u by (simp add: model_line_def trim_plain [OF byte_line_plain]) (simp add: byte_line_def)
qed

lemma fold_model_lines:
  assumes "\<forall>i\<in>set is. i < unat n" "length out = unat n"
  shows "length (fold (model_line n) (map (byte_line m) is) out) = unat n \<and>
    (\<forall>j<unat n. fold (model_line n) (map (byte_line m) is) out ! j = (if j \<in> set is then m ! j else out ! j))"
  using assms by (induction "is" arbitrary: out) (auto simp: model_line_byte nth_list_update)

lemma model_line_sat: "model_line n ''sat'' out = out"
  by (simp add: model_line_def trim_def is_ws_def)

lemma plain_words: "plain_line ''sat''" "plain_line ''unsat''"
  by (simp_all add: plain_line_def newline_def is_ws_def char_of_neq)

lemma sat_reply_lines: "lines (sat_reply m is) = ''sat'' # map (byte_line m) is"
  unfolding sat_reply_def
  by (rule lines_concat) (auto simp: byte_line_plain plain_words)

lemma scan_line_keeps: "\<exists>e'. scan_line raw (Some w, e) = (Some w, e')"
  by (auto simp: scan_line_def Let_def)

lemma scan_keeps: "fst (fold scan_line ls (Some w, e)) = Some w"
proof (induction ls arbitrary: e)
  case (Cons l ls)
  obtain e' where "scan_line l (Some w, e) = (Some w, e')" using scan_line_keeps by blast
  with Cons show ?case by simp
qed simp

lemma scan_error_keeps: "snd (fold scan_line ls (w, True))"
proof (induction ls arbitrary: w)
  case (Cons l ls)
  have "\<exists>w'. scan_line l (w, True) = (w', True)" by (auto simp: scan_line_def Let_def)
  with Cons show ?case by auto
qed simp

lemma scan_error:
  assumes "l \<in> set ls" "starts_with ''(error'' (trim l)"
  shows "snd (fold scan_line ls st)"
proof -
  obtain xs ys where ls: "ls = xs @ l # ys" using assms(1) by (meson split_list)
  obtain w e where st: "fold scan_line xs st = (w, e)" by (cases "fold scan_line xs st")
  have "scan_line l (w, e) = (w, True)"
    using assms(2) by (auto simp: scan_line_def Let_def starts_with_def strip_prefix_Some)
  then show ?thesis by (simp add: ls st scan_error_keeps)
qed

lemma scan_error_source:
  "snd (fold scan_line ls st) \<Longrightarrow> snd st \<or> (\<exists>l\<in>set ls. starts_with ''(error'' (trim l))"
proof (induction ls arbitrary: st)
  case (Cons l ls)
  moreover have "snd (scan_line l st) \<Longrightarrow> snd st \<or> starts_with ''(error'' (trim l)"
    by (cases st) (auto simp: scan_line_def Let_def split: if_splits)
  ultimately show ?case by fastforce
qed simp

lemma scan_first:
  assumes "is_status w"
  shows "fold scan_line (w # ls) (None, False) = fold scan_line ls (Some w, False)"
  using assms by (auto simp: is_status_def scan_line_def trim_def is_ws_def starts_with_def)

section \<open>Replies with an unsat core\<close>

definition core_line :: "string list \<Rightarrow> string" where
  "core_line names = ''('' @ drop 1 (spaced names) @ '')''"

definition unsat_reply :: "string list \<Rightarrow> string" where
  "unsat_reply names = line ''unsat'' @ line (core_line names)"

definition core_name :: "string \<Rightarrow> bool" where
  "core_name w \<longleftrightarrow> starts_with ''c_'' w \<and> (\<forall>c\<in>set w. \<not> is_ws c)"

lemma query_names_core: "(w, i) \<in> set (query_names q) \<Longrightarrow> core_name w"
proof -
  have "core_name (constraint_name k)" for k
  proof -
    have "\<not> is_ws c" if "c \<in> set (pad0 4 (show_nat k))" for c
      using that show_nat_chars [THEN digit_not_ws, of c k] by (auto simp: pad0_def is_ws_def)
    then show ?thesis by (auto simp: core_name_def constraint_name_def starts_with_def is_ws_def)
  qed
  moreover have "core_name ''c_TGT''" by (simp add: core_name_def starts_with_def is_ws_def)
  ultimately show "(w, i) \<in> set (query_names q) \<Longrightarrow> core_name w"
    by (auto simp: query_names_def dest!: set_zip_leftD)
qed

lemma split_whitespace_core:
  assumes "names \<noteq> []" "\<And>w. w \<in> set names \<Longrightarrow> core_name w"
  shows "split_whitespace (drop 1 (spaced names)) = names"
proof -
  have sp: "is_ws (CHR '' '')" by (simp add: is_ws_def)
  have "\<exists>r. spaced names = CHR '' '' # r" using assms(1) by (cases names) (simp_all add: spaced_def)
  then obtain r where r: "spaced names = CHR '' '' # r" by blast
  have "split_whitespace (spaced names) = names"
    using assms(2) by (intro split_whitespace_spaced) (fastforce simp: core_name_def starts_with_def)
  with r sp show ?thesis by (simp add: split_whitespace_def)
qed

lemma unsat_reply_lines:
  assumes "\<And>w. w \<in> set names \<Longrightarrow> core_name w"
  shows "lines (unsat_reply names) = [''unsat'', core_line names]" "plain_line (core_line names)"
proof -
  have "newline \<notin> set (spaced names)"
    using assms is_ws_newline(1) by (auto simp: spaced_def core_name_def newline_def char_of_neq)
  then show p: "plain_line (core_line names)"
    by (auto simp: plain_line_def core_line_def is_ws_def newline_def char_of_neq dest: in_set_dropD)
  have "lines (concat (map line [''unsat'', core_line names])) = [''unsat'', core_line names]"
    by (rule lines_concat) (use p plain_words in auto)
  then show "lines (unsat_reply names) = [''unsat'', core_line names]" by (simp add: unsat_reply_def)
qed

lemma scan_sat: "fst (scan_reply (sat_reply m is)) = Some ''sat''"
  unfolding scan_reply_def sat_reply_lines by (subst scan_first) (simp_all add: is_status_def scan_keeps)

lemma core_line_shape:
  assumes "names \<noteq> []" "\<And>w. w \<in> set names \<Longrightarrow> core_name w"
  obtains r where "core_line names = ''(c_'' @ r @ '')''"
proof -
  obtain w ws where n: "names = w # ws" using assms(1) by (cases names) auto
  moreover obtain v where "w = ''c_'' @ v"
    using assms(2) [of w] n by (auto simp: core_name_def starts_with_def strip_prefix_Some)
  ultimately show ?thesis using that [of "v @ spaced ws"] by (simp add: core_line_def spaced_def)
qed

lemma scan_unsat:
  assumes "names \<noteq> []" "\<And>w. w \<in> set names \<Longrightarrow> core_name w"
  shows "scan_reply (unsat_reply names) = (Some ''unsat'', False)"
proof -
  have l: "lines (unsat_reply names) = [''unsat'', core_line names]" "trim (core_line names) = core_line names"
    using unsat_reply_lines [of names] assms(2) by (blast, simp add: trim_plain)
  obtain r where "core_line names = ''(c_'' @ r @ '')''" using core_line_shape [OF assms] .
  then have "scan_line (core_line names) (Some ''unsat'', False) = (Some ''unsat'', False)"
    unfolding scan_line_def l(2) Let_def by (simp add: starts_with_def)
  then show ?thesis
    unfolding scan_reply_def l(1)
    by (subst scan_first) (simp_all add: is_status_def)
qed

lemma parse_unsat_reply:
  assumes "names \<noteq> []" "\<And>w. w \<in> set names \<Longrightarrow> core_name w"
  shows "parse_unsat_core (unsat_reply names) = names"
proof -
  have l: "lines (unsat_reply names) = [''unsat'', core_line names]" "trim (core_line names) = core_line names"
    using unsat_reply_lines [of names] assms(2) by (blast, simp add: trim_plain)
  have u: "Option.bind (strip_prefix ''('' (trim ''unsat'')) (strip_suffix '')'') = None"
    by (simp add: trim_plain plain_words)
  have c: "Option.bind (strip_prefix ''('' (trim (core_line names))) (strip_suffix '')'') = Some (drop 1 (spaced names))"
    unfolding l(2) by (simp add: core_line_def strip_suffix_def)
  show ?thesis
    using u c split_whitespace_core [OF assms] assms
    by (simp add: parse_unsat_core_def l(1) Let_def list_all_iff core_name_def)
qed

lemma unsat_status_iff:
  "status (parse_z3_response stdout elapsed e q) = Unsat \<longleftrightarrow>
     fst (scan_reply stdout) = Some ''unsat'' \<and> parse_unsat_core stdout \<noteq> [] \<and>
     (\<forall>l\<in>set (lines stdout). \<not> starts_with ''(error'' (trim l))"
proof -
  obtain w err where sc: "scan_reply stdout = (w, err)" by (cases "scan_reply stdout")
  have "err \<longleftrightarrow> (\<exists>l\<in>set (lines stdout). starts_with ''(error'' (trim l))"
  proof
    assume err
    with sc scan_error_source [of "lines stdout" "(None, False)"]
    show "\<exists>l\<in>set (lines stdout). starts_with ''(error'' (trim l)" by (simp add: scan_reply_def)
  next
    assume "\<exists>l\<in>set (lines stdout). starts_with ''(error'' (trim l)"
    then show err using scan_error [of _ "lines stdout" "(None, False)"] sc by (auto simp: scan_reply_def)
  qed
  then show ?thesis
    by (auto simp: parse_z3_response_def sc external_report_def Let_def split: option.splits)
qed

lemma unsat_reply_parsed:
  assumes "query_valid q d" "emit_query q d = Some e" "rows \<noteq> []" "set rows \<subseteq> set (name_map e)"
  shows "is_authoritative_unreachable (parse_z3_response (unsat_reply (map fst rows)) elapsed e q) \<and>
    unsat_core (parse_z3_response (unsat_reply (map fst rows)) elapsed e q) = map snd rows"
proof -
  have t: "name_map e = query_names q" using emit_query_returns [OF assms(1)] assms(2) by auto
  have names: "map fst rows \<noteq> []" "\<And>w. w \<in> set (map fst rows) \<Longrightarrow> core_name w"
    using assms(3,4) query_names_core by (auto simp: t)
  have "map_of (query_names q) (fst row) = Some (snd row)" if "row \<in> set rows" for row
    using that assms(4) query_names_distinct [of q] by (auto simp: t)
  then have "reverse_map (query_names q) (map fst rows) = map snd rows"
    by (induction rows) (simp_all add: reverse_map_def)
  then show ?thesis
    using scan_unsat [OF names] parse_unsat_reply [OF names] assms(3) t
    by (simp add: parse_z3_response_def external_report_def is_authoritative_unreachable_def)
qed

section \<open>Properties\<close>

text \<open>
  Reading a model: when the reply is \<open>sat\<close> followed by one definition line per byte of any list of
  input bytes, the report is \<open>Sat\<close> and its model has those bytes, and zero for the others.
\<close>

lemma sat_reply_round_trip:
  assumes "length m = unat (input_bytes q)" "\<forall>i\<in>set is. i < length m"
  shows "status (parse_z3_response (sat_reply m is) elapsed e q) = Sat \<and>
    input_model (parse_z3_response (sat_reply m is) elapsed e q) =
      Some (map (\<lambda>j. if j \<in> set is then m ! j else 0) [0..<length m])"
proof -
  obtain err where "scan_reply (sat_reply m is) = (Some ''sat'', err)"
    using scan_sat [of m "is"] by (cases "scan_reply (sat_reply m is)") auto
  moreover have "parse_model_input_bytes (sat_reply m is) (input_bytes q) =
      map (\<lambda>j. if j \<in> set is then m ! j else 0) [0..<length m]"
    using fold_model_lines [of "is" "input_bytes q" "replicate (length m) 0" m] assms
    by (auto simp: parse_model_input_bytes_def sat_reply_lines model_line_sat intro!: nth_equalityI)
  ultimately show ?thesis by (simp add: parse_z3_response_def external_report_def)
qed

text \<open>
  C20: reading an unsat core: a reply \<open>unsat\<close> with a non-empty list of names of the emitter's table gives
  an authoritative \<open>Unsat\<close> whose core is the constraints of those names, in the order of the reply.
\<close>

lemma unsat_reply_round_trip:
  assumes "query_valid q d" "emit_query q d = Some e" "rows \<noteq> []" "set rows \<subseteq> set (name_map e)"
  shows "is_authoritative_unreachable (parse_z3_response (unsat_reply (map fst rows)) elapsed e q) \<and>
    unsat_core (parse_z3_response (unsat_reply (map fst rows)) elapsed e q) = map snd rows"
  using unsat_reply_parsed [OF assms] .

text \<open>
  The backend reports \<open>Unsat\<close> only for a reply whose status line is \<open>unsat\<close>, that names at least one
  assertion and has no error line; a bare \<open>unsat\<close> becomes \<open>Unknown\<close>.
\<close>

lemma external_unsat_needs_core:
  "status (parse_z3_response stdout elapsed e q) = Unsat \<longleftrightarrow>
     fst (scan_reply stdout) = Some ''unsat'' \<and> parse_unsat_core stdout \<noteq> [] \<and>
     (\<forall>l\<in>set (lines stdout). \<not> starts_with ''(error'' (trim l))"
  by (rule unsat_status_iff)

text \<open>
  A solver that follows SMT-LIB answers \<open>(get-model)\<close> after \<open>unsat\<close> with an error, and the emitted
  script always asks for a model. With such a solver the external backend never reports \<open>Unsat\<close>, and
  the default ladder never marks a branch unreachable.
\<close>

lemma default_ladder_never_unreachable:
  assumes "\<And>script t stdout ms'. z3 script t = Inr (stdout, ms') \<Longrightarrow> fst (scan_reply stdout) = Some ''unsat'' \<Longrightarrow>
      \<exists>l\<in>set (lines stdout). starts_with ''(error'' (trim l)"
    and "query_valid q d" "solve ms (default_for_features elapsed (external_solve z3)) q d = Some out"
  shows "\<not> branch_marked_unreachable out"
proof
  assume marked: "branch_marked_unreachable out"
  have "\<not> is_authoritative_unreachable r" if "external_solve z3 q' d' = Some r" for q' d' r
  proof -
    have "status (parse_z3_response stdout el e q') \<noteq> Unsat" if "z3 script t = Inr (stdout, el)" for stdout el e script t
      using assms(1) [OF that] unfolding unsat_status_iff by blast
    then show ?thesis
      using that
      by (auto simp: external_solve_def is_authoritative_unreachable_def external_report_def
          split: option.splits sum.splits)
  qed
  then have False
    if "lb \<in> set (default_for_features elapsed (external_solve z3))" "backend_solve lb eq d = Some r"
      "is_authoritative_unreachable r" for lb eq r
    using that tier1_never_authoritative by (auto simp: default_for_features_def)
  then show False using solve_marked [OF _ assms(3) marked, where P = "\<lambda>_ _. False"] by blast
qed

section \<open>The default ladder with a sound solver\<close>

text \<open>
  If \<open>z3\<close> is right about the script it is sent, that is, it answers \<open>unsat\<close> only when the sliced
  query has no solution, then the default ladder marks a branch unreachable only when no input
  satisfies the full query.
\<close>

lemma default_ladder_unreachable_sound:
  assumes "query_valid q d"
    and "\<And>q' n e stdout ms'. slice_query q d 10000 = Some (q', n) \<Longrightarrow> emit_query q' d = Some e \<Longrightarrow>
      z3 (eq_smt2 e) (timeout q') = Inr (stdout, ms') \<Longrightarrow> fst (scan_reply stdout) = Some ''unsat'' \<Longrightarrow> \<not> query_sat q' d"
    and "solve ms (default_for_features elapsed (external_solve z3)) q d = Some out" "branch_marked_unreachable out"
  shows "\<not> query_sat q d \<and> winning_tier out = Z3External"
proof -
  have "winning_tier out = Z3External \<and> \<not> query_sat q d"
  proof (rule solve_marked [OF _ assms(3,4), where P = "\<lambda>t r. t = Z3External \<and> \<not> query_sat q d"])
    fix lb eq n r
    assume lb: "lb \<in> set (default_for_features elapsed (external_solve z3))" "effective_query lb q d = Some (eq, n)"
      "backend_solve lb eq d = Some r" "is_authoritative_unreachable r"
    then have eq: "query_valid eq d" "query_sat q d \<Longrightarrow> query_sat eq d"
      using slice_query_returns [OF assms(1), of lb] by (metis option.inject prod.inject)+
    have t: "tier lb = Z3External" "external_solve z3 eq d = Some r" "slice_query q d 10000 = Some (eq, n)"
      using lb tier1_never_authoritative by (auto simp: default_for_features_def effective_query_def)
    then have "\<not> query_sat eq d"
      using lb(4) assms(2) [OF t(3)] unsat_status_iff
      by (fastforce simp: external_solve_def is_authoritative_unreachable_def external_report_def
          split: option.splits sum.splits prod.splits)
    with t(1) eq(2) show "tier lb = Z3External \<and> \<not> query_sat q d" by blast
  qed
  then show ?thesis by simp
qed

section \<open>Witnesses\<close>

lemma sat_reply_round_trip_witness:
  "input_model (parse_z3_response (sat_reply [65, 66] [1]) 5 \<lparr>eq_smt2 = [], name_map = []\<rparr> demo_query_rec) =
     Some [0, 66]"
  using sat_reply_round_trip [of "[65, 66]" demo_query_rec "[1]" 5 "\<lparr>eq_smt2 = [], name_map = []\<rparr>"]
  by (simp add: demo_query_rec_def upt_rec)

lemma unsat_reply_round_trip_witness:
  "\<exists>e. emit_query demo_query_rec demo_dag = Some e \<and>
    unsat_core (parse_z3_response (unsat_reply (map fst (name_map e))) 5 e demo_query_rec) = map snd (name_map e)"
proof -
  obtain e where e: "emit_query demo_query_rec demo_dag = Some e" "name_map e = query_names demo_query_rec"
    using emit_query_returns [OF demo_query_valid] by blast
  then have "name_map e \<noteq> []" by (simp add: query_names_def)
  with unsat_reply_round_trip [OF demo_query_valid e(1), of "name_map e" 5] e(1) show ?thesis by auto
qed

definition bare_unsat :: string where
  "bare_unsat = line ''unsat''"

lemma external_unsat_needs_core_witness:
  "status (parse_z3_response bare_unsat 5 \<lparr>eq_smt2 = [], name_map = []\<rparr> demo_query_rec) \<noteq> Unsat"
proof -
  have "lines bare_unsat = [''unsat'']" using lines_concat [of "[''unsat'']"] plain_words by (simp add: bare_unsat_def)
  then have "parse_unsat_core bare_unsat = []" by (simp add: parse_unsat_core_def trim_plain plain_words)
  then show ?thesis using external_unsat_needs_core by blast
qed

text \<open>A reply as SMT-LIB prescribes it for the emitted script when the assertions are unsatisfiable.\<close>

definition standard_unsat :: string where
  "standard_unsat = concat (map line [''unsat'', ''(error no model)'', ''(c_TGT)''])"

lemma standard_unsat_lines: "lines standard_unsat = [''unsat'', ''(error no model)'', ''(c_TGT)'']"
  unfolding standard_unsat_def
  by (rule lines_concat) (auto simp: plain_line_def newline_def is_ws_def char_of_neq)

lemma default_ladder_never_unreachable_witness:
  "\<exists>out. solve 0 (default_for_features 0 (external_solve (\<lambda>_ _. Inr (standard_unsat, 5)))) const_query const_dag = Some out \<and>
     \<not> branch_marked_unreachable out"
proof -
  let ?lbs = "default_for_features 0 (external_solve (\<lambda>_ _. Inr (standard_unsat, 5)))"
  have e: "\<exists>l\<in>set (lines standard_unsat). starts_with ''(error'' (trim l)"
    by (simp add: standard_unsat_lines trim_def is_ws_def starts_with_def)
  have "\<exists>r. backend_solve lb q d = Some r" if "lb \<in> set ?lbs" "query_valid q d" for lb q d
    using that solve_branch_returns emit_query_returns
    by (fastforce simp: default_for_features_def external_solve_def)
  then obtain out where out: "solve 0 ?lbs const_query const_dag = Some out"
    using run_tiers_returns [OF const_query_valid, of ?lbs] constant_fold_returns [OF const_query_valid]
    by (fastforce simp: solve_def Let_def split: option.splits if_splits)
  moreover have "\<not> branch_marked_unreachable out"
    by (rule default_ladder_never_unreachable [OF _ const_query_valid out]) (use e in auto)
  ultimately show ?thesis by blast
qed

lemma const_dag_unsat: "\<not> query_sat (q\<lparr>want_taken := True, target_branch := 0\<rparr>) const_dag"
  by (simp add: query_sat_def sat_branch_def eval_unfold [OF const_dag(1)] try_get_def const_dag(2))

lemma const_ladder_external:
  "\<exists>out. solve 0 (default_for_features 0 (external_solve (\<lambda>_ _. Inr (unsat_reply [''c_TGT''], 5)))) const_query const_dag
     = Some out \<and> branch_marked_unreachable out"
proof -
  let ?z3 = "\<lambda>_ _. Inr (unsat_reply [''c_TGT''], 5)"
  let ?ext = "\<lparr>tier = Z3External, backend_solve = external_solve ?z3, slice = True, tier_timeout = 10000\<rparr>"
  obtain eq n where eq: "effective_query ?ext const_query const_dag = Some (eq, n)" "query_valid eq const_dag"
    using slice_query_returns [OF const_query_valid, of ?ext] by blast
  obtain e where e: "emit_query eq const_dag = Some e" "name_map e = query_names eq"
    using emit_query_returns [OF eq(2)] by blast
  define r2 where "r2 = parse_z3_response (unsat_reply [''c_TGT'']) 5 e eq"
  have r2: "external_solve ?z3 eq const_dag = Some r2" "is_authoritative_unreachable r2"
    using e unsat_reply_parsed [OF eq(2) e(1), of "[(''c_TGT'', target_branch eq)]" 5]
    by (auto simp: external_solve_def r2_def query_names_def)
  obtain r1 where r1: "solve_branch 0 const_query const_dag = Some r1"
    using solve_branch_returns [OF const_query_valid] by blast
  have "solve_trivial const_dag (Direct 0) 0 = Some (Inl ''unsupported_feature'')" by code_simp
  with r1 have s1: "status r1 = Unknown"
    by (auto elim!: solve_branch_Some simp: tier1_report_fields const_query_def)
  have cf: "constant_fold const_query const_dag = Some (Some (fold_report\<lparr>report_reason := Some ''constant_fold_unsat''\<rparr>))"
    by (simp add: constant_fold_def get_def try_get_def const_dag const_query_def)
  show ?thesis
    using cf eq r1 s1 r2
    by (simp add: solve_def default_for_features_def effective_query_def cap_timeout_def fold_report_def
        can_authoritatively_unreachable_def is_authoritative_unreachable_def settle_def outcome_def)
qed

lemma default_ladder_unreachable_sound_witness: "\<not> query_sat const_query const_dag"
proof -
  let ?z3 = "\<lambda>_ _. Inr (unsat_reply [''c_TGT''], 5)"
  obtain out where out: "solve 0 (default_for_features 0 (external_solve ?z3)) const_query const_dag = Some out"
      "branch_marked_unreachable out"
    using const_ladder_external by blast
  have "\<not> query_sat q' const_dag" if "slice_query const_query const_dag 10000 = Some (q', n)" for q' n
  proof -
    have "q' = q'\<lparr>want_taken := True, target_branch := 0\<rparr>"
      using that by (auto simp: slice_query_def cap_timeout_def const_query_def split: option.splits)
    then show ?thesis using const_dag_unsat by metis
  qed
  then show ?thesis
    using default_ladder_unreachable_sound [OF const_query_valid _ out] by blast
qed

end
