(* ===== verification/Backlog.thy ===== *)
theory Backlog
  imports Axe_Prelude Expr_Dag "HOL-Library.AList" "HOL-Library.Multiset"
begin

text \<open>
  The frontier queue of the concolic loop, \<open>src/concolic/scheduler.rs\<close>: a max-heap of scored keys, a
  table from keys to items and an eviction queue, with the stale heap entries the code tolerates.

  The hash map \<open>by_key\<close> is an association list with distinct keys; the order in which the standard
  library iterates over it is the parameter \<open>reorder\<close>. The heap is the list of its entries; which of
  the entries that compare equal the standard library pops first is decided by the parameter \<open>pick\<close>.
  Scores are IEEE single-precision numbers: \<open>score\<close> stands for \<open>pack_score (score_item item)\<close> and
  \<open>aged\<close> for the product with the aging factor, on the bits of the number.
\<close>

section \<open>Data\<close>

definition BACKLOG_CAP :: nat where
  "BACKLOG_CAP = 4096"

record FrontierItem =
  fi_path_id :: string
  fi_branch_pc :: u64
  fi_branch_index :: u32
  fi_depth :: u32
  fi_hit_count :: u32
  fi_expr_complexity :: u32
  fi_last_solver_ms :: "u64 option"
  fi_novelty_score :: u32
  fi_origin_seed_id :: string
  fi_reachability_distance :: u32
  fi_rhs_is_concrete :: bool
  fi_prior_timeouts :: u32
  fi_target_branch :: NodeId
  fi_path_constraints :: "NodeId list"
  fi_input_bytes :: u32
  fi_want_taken :: bool
  fi_expected_flip_pc :: "u64 option"

type_synonym key = "u64 \<times> u32"

definition dedup_key :: "FrontierItem \<Rightarrow> key" where
  "dedup_key item = (fi_branch_pc item, fi_branch_index item)"

record ScoredItem =
  score_bits :: u32
  pc_tiebreak :: u64
  si_key :: key

definition scored_le :: "ScoredItem \<Rightarrow> ScoredItem \<Rightarrow> bool" where
  "scored_le a b \<longleftrightarrow>
     score_bits a < score_bits b \<or> (score_bits a = score_bits b \<and> pc_tiebreak a \<le> pc_tiebreak b)"

record ConcolicBacklog =
  heap :: "ScoredItem list"
  by_key :: "(key \<times> FrontierItem) list"
  lru_order :: "key list"
  cap :: nat

record Platform =
  score :: "FrontierItem \<Rightarrow> u32"
  aged :: "u32 \<Rightarrow> u32"
  pick :: "ScoredItem list \<Rightarrow> ScoredItem"
  reorder :: "(key \<times> FrontierItem) list \<Rightarrow> (key \<times> FrontierItem) list"

section \<open>Operations\<close>

definition with_capacity :: "nat \<Rightarrow> ConcolicBacklog" where
  "with_capacity c = \<lparr>heap = [], by_key = [], lru_order = [], cap = c\<rparr>"

definition backlog_new :: ConcolicBacklog where
  "backlog_new = with_capacity BACKLOG_CAP"

definition backlog_len :: "ConcolicBacklog \<Rightarrow> nat" where
  "backlog_len b = length (by_key b)"

definition backlog_is_empty :: "ConcolicBacklog \<Rightarrow> bool" where
  "backlog_is_empty b \<longleftrightarrow> by_key b = []"

definition scored :: "Platform \<Rightarrow> FrontierItem \<Rightarrow> ScoredItem" where
  "scored P item = \<lparr>score_bits = score P item, pc_tiebreak = fi_branch_pc item, si_key = dedup_key item\<rparr>"

text \<open>The insertion path both \<open>push\<close> and the aging sweep end with.\<close>

definition insert_item :: "Platform \<Rightarrow> FrontierItem \<Rightarrow> ConcolicBacklog \<Rightarrow> ConcolicBacklog" where
  "insert_item P item b =
     b\<lparr>lru_order := lru_order b @ [dedup_key item],
       by_key := AList.update (dedup_key item) item (by_key b),
       heap := scored P item # heap b\<rparr>"

definition evict :: "key \<Rightarrow> ConcolicBacklog \<Rightarrow> key option \<times> ConcolicBacklog" where
  "evict k b =
     (if map_of (by_key b) k = None \<and> length (by_key b) \<ge> cap b then
        case lru_order b of
          [] \<Rightarrow> (None, b)
        | old # rest \<Rightarrow> (Some old, b\<lparr>lru_order := rest, by_key := AList.delete old (by_key b)\<rparr>)
      else (None, b))"

definition push :: "Platform \<Rightarrow> FrontierItem \<Rightarrow> ConcolicBacklog \<Rightarrow> key option \<times> ConcolicBacklog" where
  "push P item b =
     (let k = dedup_key item;
          (evicted, b) = evict k b;
          b = (if map_of (by_key b) k \<noteq> None then b\<lparr>lru_order := remove1 k (lru_order b)\<rparr> else b)
      in (evicted, insert_item P item b))"

definition age_item :: "Platform \<Rightarrow> FrontierItem \<Rightarrow> FrontierItem" where
  "age_item P item = item\<lparr>fi_novelty_score := aged P (fi_novelty_score item)\<rparr>"

definition age_others_after_pop :: "Platform \<Rightarrow> ConcolicBacklog \<Rightarrow> ConcolicBacklog" where
  "age_others_after_pop P b =
     (if by_key b = [] then b
      else
        let updated = map (\<lambda>(_, item). age_item P item) (reorder P (by_key b))
        in fold (insert_item P) updated (b\<lparr>by_key := [], lru_order := [], heap := []\<rparr>))"

text \<open>The loop of \<open>pop\<close>: each turn takes one entry off the heap, so its length is enough fuel.\<close>

primrec pop_loop :: "nat \<Rightarrow> Platform \<Rightarrow> ConcolicBacklog \<Rightarrow> FrontierItem option \<times> ConcolicBacklog" where
  "pop_loop 0 P b = (None, b)"
| "pop_loop (Suc n) P b =
     (if heap b = [] then (None, b)
      else
        let top = pick P (heap b);
            b = b\<lparr>heap := remove1 top (heap b)\<rparr>
        in case map_of (by_key b) (si_key top) of
             Some item \<Rightarrow>
               (Some item, age_others_after_pop P
                  (b\<lparr>by_key := AList.delete (si_key top) (by_key b),
                     lru_order := remove1 (si_key top) (lru_order b)\<rparr>))
           | None \<Rightarrow> pop_loop n P b)"

definition pop :: "Platform \<Rightarrow> ConcolicBacklog \<Rightarrow> FrontierItem option \<times> ConcolicBacklog" where
  "pop P b = pop_loop (length (heap b)) P b"

text \<open>The scheduler is a facade over the backlog.\<close>

definition scheduler_new :: ConcolicBacklog where
  "scheduler_new = backlog_new"

definition enqueue :: "Platform \<Rightarrow> FrontierItem \<Rightarrow> ConcolicBacklog \<Rightarrow> key option \<times> ConcolicBacklog" where
  "enqueue P item b = push P item b"

definition scheduler_next :: "Platform \<Rightarrow> ConcolicBacklog \<Rightarrow> FrontierItem option \<times> ConcolicBacklog" where
  "scheduler_next P b = pop P b"

section \<open>The invariant\<close>

definition table_keys :: "ConcolicBacklog \<Rightarrow> key set" where
  "table_keys b = fst ` set (by_key b)"

definition backlog_ok :: "Platform \<Rightarrow> ConcolicBacklog \<Rightarrow> bool" where
  "backlog_ok P b \<longleftrightarrow>
     distinct (map fst (by_key b)) \<and> (\<forall>(k, item)\<in>set (by_key b). k = dedup_key item) \<and>
     distinct (lru_order b) \<and> set (lru_order b) = table_keys b \<and>
     (\<forall>(k, item)\<in>set (by_key b). scored P item \<in> set (heap b)) \<and>
     length (by_key b) \<le> max 1 (cap b)"

text \<open>Every entry of a live key carries the current score of its item.\<close>

definition heap_fresh :: "Platform \<Rightarrow> ConcolicBacklog \<Rightarrow> bool" where
  "heap_fresh P b \<longleftrightarrow>
     (\<forall>e\<in>set (heap b). \<forall>item. map_of (by_key b) (si_key e) = Some item \<longrightarrow> e = scored P item)"

lemma backlog_ok_new: "backlog_ok P (with_capacity c)"
  by (simp add: backlog_ok_def with_capacity_def table_keys_def)

lemma map_of_ok: "distinct (map fst xs) \<Longrightarrow> (k, v) \<in> set xs \<longleftrightarrow> map_of xs k = Some v"
  by (simp add: map_of_eq_Some_iff)

lemma set_update:
  "distinct (map fst xs) \<Longrightarrow> set (AList.update k v xs) = insert (k, v) {p \<in> set xs. fst p \<noteq> k}"
  by (induction xs) (auto simp: image_iff)

lemma length_update:
  "length (AList.update k v xs) = (if k \<in> fst ` set xs then length xs else Suc (length xs))"
  by (induction xs) auto

lemma set_delete: "set (AList.delete k xs) = {p \<in> set xs. fst p \<noteq> k}"
  by (auto simp: AList.delete_eq)

lemma length_delete:
  "distinct (map fst xs) \<Longrightarrow> k \<in> fst ` set xs \<Longrightarrow> Suc (length (AList.delete k xs)) = length xs"
proof (induction xs)
  case (Cons x xs)
  obtain a v where x: "x = (a, v)" by (cases x)
  show ?case
  proof (cases "a = k")
    case True
    with Cons.prems x have "AList.delete k xs = xs" by (intro AList.delete_id) simp
    with True x show ?thesis by simp
  next
    case False
    with Cons x show ?thesis by simp
  qed
qed simp

lemma map_of_None_keys: "map_of xs k = None \<longleftrightarrow> k \<notin> fst ` set xs"
  by (simp add: map_of_eq_None_iff)

text \<open>Inserting an item whose key is not in the eviction queue.\<close>

lemma insert_item_ok:
  assumes "distinct (map fst (by_key b))" "\<forall>(k, it)\<in>set (by_key b). k = dedup_key it"
    and "distinct (lru_order b)" "insert (dedup_key item) (set (lru_order b)) = insert (dedup_key item) (table_keys b)"
    and "dedup_key item \<notin> set (lru_order b)"
    and "\<forall>(k, it)\<in>set (by_key b). k \<noteq> dedup_key item \<longrightarrow> scored P it \<in> set (heap b)"
    and "length (AList.update (dedup_key item) item (by_key b)) \<le> max 1 (cap b)"
  shows "backlog_ok P (insert_item P item b)"
  using assms
  by (auto simp: backlog_ok_def insert_item_def table_keys_def set_update distinct_update image_iff)

lemma backlog_okD:
  "backlog_ok P b \<Longrightarrow> (k, it) \<in> set (by_key b) \<Longrightarrow> k = dedup_key it \<and> scored P it \<in> set (heap b)"
  unfolding backlog_ok_def by blast

lemma backlog_ok_empty: "backlog_ok P b \<Longrightarrow> heap b = [] \<Longrightarrow> by_key b = []"
proof (rule ccontr)
  assume b: "backlog_ok P b" "heap b = []" "by_key b \<noteq> []"
  then obtain k it where "(k, it) \<in> set (by_key b)" by (cases "by_key b") auto
  with backlog_okD [OF b(1)] b(2) show False by fastforce
qed

text \<open>What the backlog holds, as a map.\<close>

definition items :: "ConcolicBacklog \<Rightarrow> key \<Rightarrow> FrontierItem option" where
  "items b = map_of (by_key b)"

lemma evict_spec:
  assumes "backlog_ok P b" "evict k b = (ev, b')"
  shows "backlog_ok P b'" "cap b' = cap b" "heap b' = heap b"
    and "items b' = items b |` (- set_option ev)"
    and "k \<notin> table_keys b' \<Longrightarrow> length (by_key b') < max 1 (cap b)"
    and "ev = (if k \<notin> table_keys b \<and> cap b \<le> length (by_key b) \<and> by_key b \<noteq> [] then Some (hd (lru_order b)) else None)"
proof -
  note ok = assms(1) [unfolded backlog_ok_def]
  have e: "by_key b = [] \<longleftrightarrow> lru_order b = []" using ok by (auto simp: table_keys_def)
  show "cap b' = cap b" "heap b' = heap b"
    using assms(2) by (auto simp: evict_def split: if_splits list.splits)
  show "ev = (if k \<notin> table_keys b \<and> cap b \<le> length (by_key b) \<and> by_key b \<noteq> [] then Some (hd (lru_order b)) else None)"
    using assms(2) e by (auto simp: evict_def table_keys_def map_of_None_keys split: if_splits list.splits)
  consider (same) "b' = b" "ev = None" "by_key b = [] \<or> k \<in> table_keys b \<or> length (by_key b) < cap b"
    | (drop) old rest where "lru_order b = old # rest" "ev = Some old" "k \<notin> table_keys b"
        "b' = b\<lparr>lru_order := rest, by_key := AList.delete old (by_key b)\<rparr>"
  proof (cases "k \<notin> table_keys b \<and> cap b \<le> length (by_key b)")
    case True
    then have c: "map_of (by_key b) k = None \<and> cap b \<le> length (by_key b)"
      by (simp add: table_keys_def map_of_None_keys)
    show thesis
    proof (cases "lru_order b")
      case Nil
      with assms(2) c e show thesis by (intro same) (auto simp: evict_def)
    next
      case (Cons old rest)
      with assms(2) c True show thesis by (intro drop [of old rest]) (auto simp: evict_def)
    qed
  next
    case False
    then have "\<not> (map_of (by_key b) k = None \<and> cap b \<le> length (by_key b))"
      by (simp add: table_keys_def map_of_None_keys)
    with assms(2) False show thesis by (intro same) (auto simp: evict_def split: if_splits)
  qed
  then have "backlog_ok P b' \<and> items b' = items b |` (- set_option ev) \<and>
    (k \<notin> table_keys b' \<longrightarrow> length (by_key b') < max 1 (cap b))"
  proof cases
    case same
    then show ?thesis using assms(1) by auto
  next
    case drop
    have old: "old \<in> table_keys b" using ok drop(1) by auto
    have d: "distinct (map fst (by_key b'))" using ok drop by (simp add: distinct_delete)
    have l: "Suc (length (by_key b')) = length (by_key b)"
      using length_delete [of "by_key b" old] ok old drop(4) by (simp add: table_keys_def)
    have t: "table_keys b' = table_keys b - {old}" using drop by (auto simp: table_keys_def set_delete)
    have "backlog_ok P b'"
      using ok d l t drop by (auto simp: backlog_ok_def set_delete table_keys_def)
    moreover have "items b' = items b |` (- {old})" using drop by (auto simp: items_def AList.delete_conv' restrict_map_def)
    ultimately show ?thesis using drop(2) l ok by auto
  qed
  then show "backlog_ok P b'" "items b' = items b |` (- set_option ev)"
    "k \<notin> table_keys b' \<Longrightarrow> length (by_key b') < max 1 (cap b)" by auto
qed

lemma push_spec:
  assumes "backlog_ok P b" "push P item b = (ev, b')"
  shows "backlog_ok P b'" "items b' = (items b |` (- set_option ev))(dedup_key item \<mapsto> item)"
    and "heap b' = scored P item # heap b"
    and "ev = (if dedup_key item \<notin> table_keys b \<and> cap b \<le> length (by_key b) \<and> by_key b \<noteq> []
               then Some (hd (lru_order b)) else None)"
proof -
  let ?k = "dedup_key item"
  obtain b1 where e: "evict ?k b = (ev, b1)" using assms(2) by (auto simp: push_def Let_def split: prod.splits)
  note ev = evict_spec [OF assms(1) e]
  note ok = ev(1) [unfolded backlog_ok_def]
  define b2 where "b2 = (if map_of (by_key b1) ?k \<noteq> None then b1\<lparr>lru_order := remove1 ?k (lru_order b1)\<rparr> else b1)"
  have b': "b' = insert_item P item b2" using assms(2) e by (simp add: push_def b2_def Let_def)
  have k: "map_of (by_key b1) ?k \<noteq> None \<longleftrightarrow> ?k \<in> table_keys b1" by (simp add: table_keys_def map_of_None_keys)
  have f: "by_key b2 = by_key b1" "heap b2 = heap b1" "cap b2 = cap b1" by (simp_all add: b2_def)
  have lru: "distinct (lru_order b2)" "?k \<notin> set (lru_order b2)"
      "insert ?k (set (lru_order b2)) = insert ?k (table_keys b1)"
    using ok k by (auto simp: b2_def)
  have len: "length (AList.update ?k item (by_key b2)) \<le> max 1 (cap b2)"
    using ev(5) ev(2) ok by (auto simp: f length_update table_keys_def)
  show "backlog_ok P b'" unfolding b'
    using ok lru len by (intro insert_item_ok) (auto simp: f table_keys_def)
  show "heap b' = scored P item # heap b" by (simp add: b' insert_item_def f ev(3))
  show "items b' = (items b |` (- set_option ev))(?k \<mapsto> item)"
    using ev(4) by (simp add: b' insert_item_def items_def f update_conv')
  show "ev = (if ?k \<notin> table_keys b \<and> cap b \<le> length (by_key b) \<and> by_key b \<noteq> []
               then Some (hd (lru_order b)) else None)" by (rule ev(6))
qed

lemma push_ok: "backlog_ok P b \<Longrightarrow> backlog_ok P (snd (push P item b))"
  by (cases "push P item b") (simp add: push_spec(1))

lemma update_new: "k \<notin> fst ` set xs \<Longrightarrow> AList.update k v xs = xs @ [(k, v)]"
  by (induction xs) auto

lemma fold_insert:
  assumes "distinct (map dedup_key us)" "dedup_key ` set us \<inter> table_keys b = {}"
  shows "fold (insert_item P) us b =
    b\<lparr>heap := rev (map (scored P) us) @ heap b, by_key := by_key b @ map (\<lambda>u. (dedup_key u, u)) us,
      lru_order := lru_order b @ map dedup_key us\<rparr>"
  using assms
proof (induction us arbitrary: b)
  case (Cons u us)
  have n: "dedup_key u \<notin> fst ` set (by_key b)" using Cons.prems(2) by (auto simp: table_keys_def)
  have "dedup_key ` set us \<inter> table_keys (insert_item P u b) = {}"
    using Cons.prems by (auto simp: insert_item_def table_keys_def update_new [OF n] image_iff)
  with Cons show ?case by (simp add: insert_item_def update_new [OF n])
qed simp

lemma age_item_key [simp]: "dedup_key (age_item P it) = dedup_key it"
  by (simp add: dedup_key_def age_item_def)

section \<open>What the standard library promises\<close>

locale heap_and_map =
  fixes P :: Platform
  assumes pick_max: "h \<noteq> [] \<Longrightarrow> pick P h \<in> set h \<and> (\<forall>e\<in>set h. scored_le e (pick P h))"
    and reorder_all: "mset (reorder P xs) = mset xs"
begin

lemma age_spec:
  assumes "distinct (map fst (by_key b))" "\<forall>(k, it)\<in>set (by_key b). k = dedup_key it"
    and "length (by_key b) \<le> max 1 (cap b)" "distinct (lru_order b)" "set (lru_order b) = table_keys b"
  shows "backlog_ok P (age_others_after_pop P b)" "heap_fresh P (age_others_after_pop P b)"
    and "items (age_others_after_pop P b) = (\<lambda>k. map_option (age_item P) (items b k))"
    and "length (by_key (age_others_after_pop P b)) = length (by_key b)"
proof -
  let ?xs = "reorder P (by_key b)" and ?b = "age_others_after_pop P b"
  have s: "set ?xs = set (by_key b)" using reorder_all by (metis set_mset_mset)
  have len: "length ?xs = length (by_key b)" using reorder_all by (metis size_mset)
  have "mset (map fst ?xs) = mset (map fst (by_key b))" using reorder_all by simp
  then have dx: "distinct (map fst ?xs)" using assms(1) by (metis mset_eq_imp_distinct_iff)
  have keys: "map (dedup_key \<circ> (\<lambda>(_, it). age_item P it)) ?xs = map fst ?xs"
    using assms(2) s by (auto simp: split_beta)
  have b: "?b = (if by_key b = [] then b else
      b\<lparr>heap := rev (map (\<lambda>(_, it). scored P (age_item P it)) ?xs),
        by_key := map (\<lambda>(k, it). (k, age_item P it)) ?xs, lru_order := map fst ?xs\<rparr>)"
  proof (cases "by_key b = []")
    case False
    let ?us = "map (\<lambda>(_, it). age_item P it) ?xs"
    have "distinct (map dedup_key ?us)" using dx by (simp add: keys [symmetric] comp_def split_beta)
    then have "?b = b\<lparr>heap := rev (map (scored P) ?us), by_key := map (\<lambda>u. (dedup_key u, u)) ?us,
        lru_order := map dedup_key ?us\<rparr>"
      using False by (simp add: age_others_after_pop_def fold_insert table_keys_def)
    moreover have "map (\<lambda>u. (dedup_key u, u)) ?us = map (\<lambda>(k, it). (k, age_item P it)) ?xs"
      using assms(2) s by (auto simp: split_beta)
    ultimately show ?thesis using False keys by (simp add: comp_def split_beta)
  qed (simp add: age_others_after_pop_def)
  have m: "map_of ?xs = map_of (by_key b)" using dx assms(1) s by (metis map_of_inject_set)
  show i: "items ?b = (\<lambda>k. map_option (age_item P) (items b k))"
    by (auto simp: b items_def m map_of_map comp_def)
  show "length (by_key ?b) = length (by_key b)" by (simp add: b len)
  have dm: "map fst (map (\<lambda>(k, it). (k, age_item P it)) ?xs) = map fst ?xs" by (simp add: comp_def split_beta)
  show "backlog_ok P ?b"
  proof (cases "by_key b = []")
    case True
    with assms b show ?thesis by (simp add: backlog_ok_def)
  next
    case False
    have "distinct (map fst (map (\<lambda>(k, it). (k, age_item P it)) ?xs))" unfolding dm by (rule dx)
    moreover have "table_keys ?b = set (map fst ?xs)"
      using False arg_cong [OF dm, of set] by (simp add: b table_keys_def image_image)
    moreover have "\<forall>(k, it)\<in>set (map (\<lambda>(k, it). (k, age_item P it)) ?xs). k = dedup_key it"
      "\<forall>(k, it)\<in>set (map (\<lambda>(k, it). (k, age_item P it)) ?xs).
         scored P it \<in> set (rev (map (\<lambda>(_, it). scored P (age_item P it)) ?xs))"
      using assms(2) s by force+
    ultimately show ?thesis using assms(3) False dx len by (simp add: b backlog_ok_def)
  qed
  show "heap_fresh P ?b"
  proof (cases "by_key b = []")
    case True
    with b show ?thesis by (simp add: heap_fresh_def)
  next
    case False
    have "items ?b (dedup_key it) = Some (age_item P it)" if "(k, it) \<in> set ?xs" for k it
      unfolding i using that assms(1,2) s by (auto simp: items_def)
    then have fresh: "it' = age_item P it"
      if "(k, it) \<in> set ?xs" "map_of (by_key ?b) (dedup_key it) = Some it'" for k it it'
      using that by (simp add: items_def)
    show ?thesis unfolding heap_fresh_def
    proof (intro ballI allI impI)
      fix e it'
      assume e: "e \<in> set (heap ?b)" "map_of (by_key ?b) (si_key e) = Some it'"
      then obtain k it where it: "(k, it) \<in> set ?xs" "e = scored P (age_item P it)" using False by (auto simp: b)
      with e(2) fresh [OF it(1), of it'] show "e = scored P it'" by (simp add: scored_def)
    qed
  qed
qed

lemma pop_loop_spec:
  assumes "backlog_ok P b" "length (heap b) \<le> n" "pop_loop n P b = (res, b')"
  shows "case res of
      None \<Rightarrow> by_key b = [] \<and> by_key b' = []
    | Some item \<Rightarrow>
        items b (dedup_key item) = Some item \<and>
        items b' = (\<lambda>k. map_option (age_item P) (((items b)(dedup_key item := None)) k)) \<and>
        backlog_ok P b' \<and> heap_fresh P b' \<and> Suc (length (by_key b')) = length (by_key b) \<and>
        (heap_fresh P b \<longrightarrow> (\<forall>k it. items b k = Some it \<longrightarrow> scored_le (scored P it) (scored P item)))"
  using assms
proof (induction n arbitrary: b)
  case 0
  then have "by_key b = []" by (simp add: backlog_ok_empty)
  with 0 show ?case by auto
next
  case (Suc n)
  note ok = Suc.prems(1) [unfolded backlog_ok_def]
  show ?case
  proof (cases "heap b = []")
    case True
    then have "by_key b = []" using Suc.prems(1) by (simp add: backlog_ok_empty)
    with True Suc.prems(3) show ?thesis by auto
  next
    case False
    define top where "top = pick P (heap b)"
    have top: "top \<in> set (heap b)" "\<forall>e\<in>set (heap b). scored_le e top"
      using pick_max [OF False] by (simp_all add: top_def)
    show ?thesis
    proof (cases "map_of (by_key b) (si_key top)")
      case None
      let ?b = "b\<lparr>heap := remove1 top (heap b)\<rparr>"
      have live: "scored P it \<noteq> top" if "(k, it) \<in> set (by_key b)" for k it
      proof
        assume "scored P it = top"
        then have "si_key top = k" using backlog_okD [OF Suc.prems(1) that] by (auto simp: scored_def)
        with that None show False by (force simp: map_of_eq_None_iff)
      qed
      have ok': "backlog_ok P ?b"
        using ok live by (auto simp: backlog_ok_def table_keys_def in_set_remove1)
      have len: "length (heap ?b) \<le> n" using Suc.prems(2) top(1) by (simp add: length_remove1)
      have run: "pop_loop n P ?b = (res, b')" using Suc.prems(3) False None by (simp add: top_def Let_def)
      have fr: "heap_fresh P b \<Longrightarrow> heap_fresh P ?b" 
        using set_remove1_subset [of top "heap b"] by (auto simp: heap_fresh_def)
      from Suc.IH [OF ok' len run] fr show ?thesis by (auto simp: items_def split: option.splits)
    next
      case (Some item)
      let ?b = "b\<lparr>heap := remove1 top (heap b), by_key := AList.delete (si_key top) (by_key b),
        lru_order := remove1 (si_key top) (lru_order b)\<rparr>"
      have k: "si_key top = dedup_key item" "(si_key top, item) \<in> set (by_key b)"
        using Some ok by (auto dest: map_of_SomeD)
      have r: "res = Some item" "b' = age_others_after_pop P ?b"
        using Suc.prems(3) False Some by (simp_all add: top_def Let_def)
      have sl: "Suc (length (by_key ?b)) = length (by_key b)"
        using length_delete [of "by_key b" "si_key top"] ok k(2) by (force simp: image_iff)
      have a: "distinct (map fst (by_key ?b))" "\<forall>(k, it)\<in>set (by_key ?b). k = dedup_key it"
          "length (by_key ?b) \<le> max 1 (cap ?b)" "distinct (lru_order ?b)" "set (lru_order ?b) = table_keys ?b"
        using ok sl by (auto simp: distinct_delete set_delete table_keys_def)
      note age = age_spec [OF a, folded r(2)]
      have it: "items ?b = (items b)(dedup_key item := None)"
        by (simp add: items_def AList.delete_conv' k(1))
      have "scored_le (scored P it) (scored P item)"
        if "heap_fresh P b" "items b k' = Some it" for k' it
      proof -
        have "scored P it \<in> set (heap b)" using that(2) ok by (auto simp: items_def dest!: map_of_SomeD)
        moreover have "top = scored P item" using that(1) top(1) Some by (simp add: heap_fresh_def)
        ultimately show ?thesis using top(2) by blast
      qed
      with age it sl r(1) Some k(1) show ?thesis by (simp add: items_def [of b])
    qed
  qed
qed

lemmas pop_spec = pop_loop_spec [OF _ order_refl, folded pop_def]

lemma pop_Some:
  assumes "backlog_ok P b" "pop P b = (Some item, b')"
  shows "items b (dedup_key item) = Some item" "backlog_ok P b'"
    and "items b' = (\<lambda>k. map_option (age_item P) (((items b)(dedup_key item := None)) k))"
    and "Suc (length (by_key b')) = length (by_key b)"
  using pop_spec [OF assms] by simp_all

lemma pop_None: "backlog_ok P b \<Longrightarrow> pop P b = (None, b') \<Longrightarrow> by_key b = []"
  using pop_spec [of b None b'] by simp

end

section \<open>A heap and a map as the standard library may implement them\<close>

fun first_max :: "ScoredItem list \<Rightarrow> ScoredItem" where
  "first_max [] = \<lparr>score_bits = 0, pc_tiebreak = 0, si_key = (0, 0)\<rparr>"
| "first_max [e] = e"
| "first_max (e # es) = (let m = first_max es in if scored_le m e then e else m)"

definition std_platform :: "(FrontierItem \<Rightarrow> u32) \<Rightarrow> (u32 \<Rightarrow> u32) \<Rightarrow> Platform" where
  "std_platform sc ag = \<lparr>score = sc, aged = ag, pick = first_max, reorder = (\<lambda>xs. xs)\<rparr>"

lemma scored_le_total: "scored_le a b \<or> scored_le b a"
  by (auto simp: scored_le_def)

lemma scored_le_trans: "scored_le a b \<Longrightarrow> scored_le b c \<Longrightarrow> scored_le a c"
  by (auto simp: scored_le_def)

lemma scored_le_refl [simp]: "scored_le a a"
  by (simp add: scored_le_def)

lemma first_max: "h \<noteq> [] \<Longrightarrow> first_max h \<in> set h \<and> (\<forall>e\<in>set h. scored_le e (first_max h))"
proof (induction h rule: first_max.induct)
  case (3 e e' es)
  let ?m = "first_max (e' # es)"
  have m: "?m \<in> set (e' # es)" "\<forall>x\<in>set (e' # es). scored_le x ?m" using 3 by auto
  show ?case
  proof (cases "scored_le ?m e")
    case True
    with m have "\<forall>x\<in>set (e' # es). scored_le x e" using scored_le_trans by blast
    with True show ?thesis by (simp add: Let_def)
  next
    case False
    with m scored_le_total [of ?m e] show ?thesis by (auto simp: Let_def)
  qed
qed auto

interpretation std: heap_and_map "std_platform sc ag" for sc ag
  by unfold_locales (simp_all add: std_platform_def first_max)

section \<open>Properties\<close>

text \<open>
  C26: \<open>push\<close> keeps the invariant of the backlog (table, eviction queue and heap agree; the size stays
  within the capacity) and refines a map update: the item is stored under its key, and a key is evicted
  only when the table is full and the key is new, and then the oldest of the eviction queue.
\<close>

lemma backlog_push_correct:
  assumes "backlog_ok P b" "push P item b = (evicted, b')"
  shows "backlog_ok P b' \<and> items b' = (items b |` (- set_option evicted))(dedup_key item \<mapsto> item) \<and>
    evicted = (if dedup_key item \<notin> table_keys b \<and> cap b \<le> length (by_key b) \<and> by_key b \<noteq> []
               then Some (hd (lru_order b)) else None)"
  using push_spec [OF assms] by blast

text \<open>
  C25: \<open>pop\<close> returns nothing exactly when the backlog is empty. Otherwise it returns an item of the
  table, removes it and ages the others, keeps the invariant, and leaves no stale score in the heap;
  when the heap had none before, the item has a maximal score.
\<close>

lemma backlog_pop_correct:
  assumes "heap_and_map P" "backlog_ok P b" "pop P b = (res, b')"
  shows "case res of
      None \<Rightarrow> by_key b = [] \<and> by_key b' = []
    | Some item \<Rightarrow>
        items b (dedup_key item) = Some item \<and>
        items b' = (\<lambda>k. map_option (age_item P) (((items b)(dedup_key item := None)) k)) \<and>
        backlog_ok P b' \<and> heap_fresh P b' \<and> Suc (length (by_key b')) = length (by_key b) \<and>
        (heap_fresh P b \<longrightarrow> (\<forall>k it. items b k = Some it \<longrightarrow> scored_le (scored P it) (scored P item)))"
  using heap_and_map.pop_spec [OF assms] .

text \<open>Popping up to \<open>n\<close> times, with nothing pushed in between.\<close>

primrec pops :: "nat \<Rightarrow> Platform \<Rightarrow> ConcolicBacklog \<Rightarrow> FrontierItem list" where
  "pops 0 P b = []"
| "pops (Suc n) P b = (case pop P b of (None, _) \<Rightarrow> [] | (Some item, b') \<Rightarrow> item # pops n P b')"

lemma table_keys_items: "table_keys b = dom (items b)"
  by (simp add: table_keys_def items_def dom_map_of_conv_image_fst)

lemma pops_keys:
  assumes "heap_and_map P"
  shows "backlog_ok P b \<Longrightarrow> length (by_key b) = n \<Longrightarrow>
    length (pops n P b) = n \<and> dedup_key ` set (pops n P b) = table_keys b \<and> distinct (map dedup_key (pops n P b))"
proof (induction n arbitrary: b)
  case (Suc n)
  obtain res b' where p: "pop P b = (res, b')" by (cases "pop P b")
  show ?case
  proof (cases res)
    case None
    with p Suc.prems heap_and_map.pop_None [OF assms] show ?thesis by fastforce
  next
    case (Some item)
    with p have p': "pop P b = (Some item, b')" by simp
    note s = heap_and_map.pop_Some [OF assms Suc.prems(1) p']
    have "dom (items b') = dom (items b) - {dedup_key item}" using s(3) by (auto split: if_splits)
    then have t: "table_keys b' = table_keys b - {dedup_key item}" "dedup_key item \<in> table_keys b"
      using s(1) by (simp_all add: table_keys_items domI)
    have "length (by_key b') = n" using s(4) Suc.prems(2) by simp
    from Suc.IH [OF s(2) this] have IH: "length (pops n P b') = n"
      "dedup_key ` set (pops n P b') = table_keys b - {dedup_key item}" "distinct (map dedup_key (pops n P b'))"
      by (simp_all add: t(1))
    have "pops (Suc n) P b = item # pops n P b'" by (simp add: p')
    with IH insert_Diff [OF t(2)] show ?thesis by simp
  qed
qed (simp add: table_keys_def)

text \<open>
  Nothing starves: as many pops as the backlog has items return every queued key exactly once,
  whatever the scores are.
\<close>

lemma backlog_drains:
  assumes "heap_and_map P" "backlog_ok P b"
  shows "length (pops (backlog_len b) P b) = backlog_len b \<and>
    dedup_key ` set (pops (backlog_len b) P b) = table_keys b \<and>
    distinct (map dedup_key (pops (backlog_len b) P b))"
  using pops_keys [OF assms(1,2)] by (simp add: backlog_len_def)

section \<open>Witnesses\<close>

definition item_at :: "u64 \<Rightarrow> u32 \<Rightarrow> FrontierItem" where
  "item_at pc novelty = \<lparr>fi_path_id = [], fi_branch_pc = pc, fi_branch_index = 0, fi_depth = 0,
     fi_hit_count = 0, fi_expr_complexity = 1, fi_last_solver_ms = None, fi_novelty_score = novelty,
     fi_origin_seed_id = [], fi_reachability_distance = 0, fi_rhs_is_concrete = False,
     fi_prior_timeouts = 0, fi_target_branch = 0, fi_path_constraints = [], fi_input_bytes = 0,
     fi_want_taken = True, fi_expected_flip_pc = None\<rparr>"

definition novelty_platform :: Platform where
  "novelty_platform = std_platform fi_novelty_score (\<lambda>v. v + 1)"

definition small_backlog :: ConcolicBacklog where
  "small_backlog = snd (push novelty_platform (item_at 2 5) (snd (push novelty_platform (item_at 1 9) (with_capacity 2))))"

lemma small_backlog_ok: "backlog_ok novelty_platform small_backlog"
  unfolding small_backlog_def by (rule push_ok, rule push_ok, rule backlog_ok_new)

lemma platform_ok: "heap_and_map novelty_platform"
  unfolding novelty_platform_def by (rule std.heap_and_map_axioms)

text \<open>
  A key pushed again with a lower score is still popped at its old, higher score: the old heap
  entry stays, and the key of that entry is live. Here the second push of key \<open>(1, 0)\<close> lowers its
  score from 9 to 1, and it comes out before \<open>(2, 0)\<close> with score 5.
\<close>

lemma backlog_stale_priority:
  "map fi_novelty_score (map snd (by_key (snd (push novelty_platform (item_at 1 1) small_backlog)))) = [1, 5] \<and>
   map_option fi_branch_pc (fst (pop novelty_platform (snd (push novelty_platform (item_at 1 1) small_backlog)))) = Some 1"
  by code_simp

lemma backlog_push_correct_witness:
  "\<exists>b'. push novelty_platform (item_at 3 7) small_backlog = (Some (1, 0), b') \<and> backlog_ok novelty_platform b' \<and>
     items b' = (items small_backlog |` (- {(1, 0)}))((3, 0) \<mapsto> item_at 3 7)"
proof -
  obtain ev b' where p: "push novelty_platform (item_at 3 7) small_backlog = (ev, b')"
    by (cases "push novelty_platform (item_at 3 7) small_backlog")
  have "fst (push novelty_platform (item_at 3 7) small_backlog) = Some (1, 0)" by code_simp
  with p have "ev = Some (1, 0)" by simp
  with backlog_push_correct [OF small_backlog_ok p] p show ?thesis by (simp add: dedup_key_def item_at_def)
qed

lemma backlog_pop_correct_witness:
  "\<exists>item b'. pop novelty_platform small_backlog = (Some item, b') \<and> fi_branch_pc item = 1 \<and>
     backlog_ok novelty_platform b' \<and> heap_fresh novelty_platform b'"
proof -
  have "map_option fi_branch_pc (fst (pop novelty_platform small_backlog)) = Some 1" by code_simp
  then obtain item b' where p: "pop novelty_platform small_backlog = (Some item, b')" "fi_branch_pc item = 1"
    by (cases "pop novelty_platform small_backlog") auto
  with backlog_pop_correct [OF platform_ok small_backlog_ok p(1)] show ?thesis by simp
qed

lemma backlog_drains_witness:
  "dedup_key ` set (pops 2 novelty_platform small_backlog) = {(1, 0), (2, 0)}"
proof -
  have "backlog_len small_backlog = 2" "table_keys small_backlog = {(1, 0), (2, 0)}" by code_simp+
  with backlog_drains [OF platform_ok small_backlog_ok] show ?thesis by simp
qed

end
