(* ===== verification/Cfg_Builder.thy ===== *)
theory Cfg_Builder
  imports Pe_Records
begin

text \<open>
  The control-flow graph builder, \<open>src/cfg.rs\<close>: block starts, edges and blocks of every function from
  the disassembled instructions.

  Ordered sets of addresses are sorted lists without duplicates. The addition of an instruction's size
  wraps, as in a release build. \<open>None\<close> is the panic of the address slice for a function whose end lies
  before its start with an instruction in between.
\<close>

section \<open>The builder\<close>

definition sorted_set :: "u64 list \<Rightarrow> u64 list" where
  "sorted_set xs = sort (remdups xs)"

text \<open>Later rows with the same address replace earlier ones.\<close>

definition instructions_by_va :: "InstructionRecord list \<Rightarrow> u64 \<Rightarrow> InstructionRecord option" where
  "instructions_by_va rows = map_of (rev (map (\<lambda>row. (address row, row)) rows))"

definition partition_point :: "(u64 \<Rightarrow> bool) \<Rightarrow> u64 list \<Rightarrow> nat" where
  "partition_point p xs = length (takeWhile p xs)"

definition function_insns ::
    "u64 list \<Rightarrow> (u64 \<Rightarrow> InstructionRecord option) \<Rightarrow> FunctionRecord \<Rightarrow> InstructionRecord list option" where
  "function_insns addresses by_va f =
     (let start_idx = partition_point (\<lambda>a. a < fn_start f) addresses;
          end_idx = partition_point (\<lambda>a. a < fn_end f) addresses
      in if start_idx > end_idx then None
         else Some (List.map_filter by_va (take (end_idx - start_idx) (drop start_idx addresses))))"

definition next_addr :: "InstructionRecord \<Rightarrow> u64" where
  "next_addr ins = address ins + ucast (ins_size ins)"

definition branch_into :: "FunctionRecord \<Rightarrow> InstructionRecord \<Rightarrow> u64 list" where
  "branch_into f ins =
     (case branch_target ins of
        Some t \<Rightarrow> if fn_start f \<le> t \<and> t < fn_end f then [t] else []
      | None \<Rightarrow> [])"

definition ins_starts :: "FunctionRecord \<Rightarrow> u64 set \<Rightarrow> InstructionRecord \<Rightarrow> u64 list" where
  "ins_starts f known ins =
     branch_into f ins @
     (if (is_jump ins \<or> is_call ins) \<and> next_addr ins \<in> known then [next_addr ins] else [])"

definition ins_edges :: "FunctionRecord \<Rightarrow> u64 set \<Rightarrow> InstructionRecord \<Rightarrow> EdgeRecord list" where
  "ins_edges f known ins =
     map (\<lambda>t. \<lparr>edge_from = address ins, edge_to = t, edge_type = ''branch''\<rparr>) (branch_into f ins) @
     (if is_call ins \<and> next_addr ins \<in> known \<or>
         \<not> (is_call ins \<and> next_addr ins \<in> known) \<and>
         is_jump ins \<and> \<not> eq_ignore_ascii_case (ins_mnemonic ins) ''jmp'' \<and> next_addr ins \<in> known
      then [\<lparr>edge_from = address ins, edge_to = next_addr ins, edge_type = ''fallthrough''\<rparr>] else [])"

definition block_starts :: "FunctionRecord \<Rightarrow> InstructionRecord list \<Rightarrow> u64 list" where
  "block_starts f insns =
     (let known = set (map address insns)
      in sorted_set (fn_start f # concat (map (ins_starts f known) insns)))"

definition block_of :: "InstructionRecord list \<Rightarrow> u64 \<Rightarrow> u64 \<Rightarrow> BasicBlockRecord list" where
  "block_of insns start following =
     (let block_ins = filter (\<lambda>ins. start \<le> address ins \<and> address ins < following) insns
      in if block_ins = [] then []
         else [\<lparr>block_start = start, block_end = next_addr (last block_ins),
                instruction_count = length block_ins\<rparr>])"

fun build_blocks :: "InstructionRecord list \<Rightarrow> u64 \<Rightarrow> u64 list \<Rightarrow> BasicBlockRecord list" where
  "build_blocks insns fend [] = []"
| "build_blocks insns fend [s] = block_of insns s fend"
| "build_blocks insns fend (s # s' # ss) = block_of insns s s' @ build_blocks insns fend (s' # ss)"

definition function_cfg :: "FunctionRecord \<Rightarrow> InstructionRecord list \<Rightarrow> CfgRecord" where
  "function_cfg f insns =
     \<lparr>cfg_function = fn_start f, blocks = build_blocks insns (fn_end f) (block_starts f insns),
      edges = concat (map (ins_edges f (set (map address insns))) insns)\<rparr>"

fun build_rows :: "u64 list \<Rightarrow> (u64 \<Rightarrow> InstructionRecord option) \<Rightarrow> FunctionRecord list \<Rightarrow> CfgRecord list option" where
  "build_rows addresses by_va [] = Some []"
| "build_rows addresses by_va (f # fs) =
     (case function_insns addresses by_va f of
        None \<Rightarrow> None
      | Some insns \<Rightarrow>
          map_option (\<lambda>rows. (if insns = [] then [] else [function_cfg f insns]) @ rows)
            (build_rows addresses by_va fs))"

definition build_cfg :: "FunctionRecord list \<Rightarrow> InstructionRecord list \<Rightarrow> CfgRecord list option" where
  "build_cfg fs rows = build_rows (sorted_set (map address rows)) (instructions_by_va rows) fs"

section \<open>The instructions of a function\<close>

lemma sorted_set: "sorted (sorted_set xs)" "distinct (sorted_set xs)" "set (sorted_set xs) = set xs"
  by (simp_all add: sorted_set_def)

lemma takeWhile_less: "sorted xs \<Longrightarrow> takeWhile (\<lambda>a. a < c) xs = filter (\<lambda>a. a < c) xs" for c :: u64
proof (induction xs)
  case (Cons x xs)
  have "filter (\<lambda>a. a < c) xs = []" if "\<not> x < c" using that Cons.prems by (auto simp: filter_empty_conv)
  with Cons show ?case by simp
qed simp

lemma dropWhile_less: "sorted xs \<Longrightarrow> dropWhile (\<lambda>a. a < c) xs = filter (\<lambda>a. c \<le> a) xs" for c :: u64
proof (induction xs)
  case (Cons x xs)
  have "filter (\<lambda>a. c \<le> a) xs = xs" if "\<not> x < c" using that Cons.prems by (auto simp: filter_id_conv)
  with Cons show ?case by (auto simp: not_less)
qed simp

lemma drop_point: "drop (partition_point p xs) xs = dropWhile p xs"
  by (simp add: partition_point_def dropWhile_eq_drop)

text \<open>The slice between two partition points holds the addresses of the half-open interval.\<close>

lemma slice_points:
  fixes a b :: u64
  assumes "sorted xs" "a \<le> b"
  shows "partition_point (\<lambda>x. x < a) xs \<le> partition_point (\<lambda>x. x < b) xs"
    and "take (partition_point (\<lambda>x. x < b) xs - partition_point (\<lambda>x. x < a) xs)
        (drop (partition_point (\<lambda>x. x < a) xs) xs) = filter (\<lambda>x. a \<le> x \<and> x < b) xs"
proof -
  let ?ys = "takeWhile (\<lambda>x. x < b) xs"
  have pre: "takeWhile (\<lambda>x. x < a) ?ys = takeWhile (\<lambda>x. x < a) xs"
    using assms(2) by (induction xs) auto
  then have pt: "partition_point (\<lambda>x. x < a) xs = partition_point (\<lambda>x. x < a) ?ys"
    by (simp add: partition_point_def)
  show "partition_point (\<lambda>x. x < a) xs \<le> partition_point (\<lambda>x. x < b) xs"
    unfolding pt by (simp add: partition_point_def length_takeWhile_le)
  have "take (partition_point (\<lambda>x. x < b) xs - partition_point (\<lambda>x. x < a) xs)
      (drop (partition_point (\<lambda>x. x < a) xs) xs) = drop (partition_point (\<lambda>x. x < a) xs) ?ys"
    by (simp add: drop_take [symmetric] partition_point_def takeWhile_eq_take [symmetric])
  also have "\<dots> = dropWhile (\<lambda>x. x < a) ?ys" unfolding pt by (rule drop_point)
  also have "\<dots> = filter (\<lambda>x. a \<le> x) ?ys"
    using assms(1) by (intro dropWhile_less) (simp add: takeWhile_less sorted_wrt_filter)
  also have "\<dots> = filter (\<lambda>x. a \<le> x \<and> x < b) xs"
    using assms(1) by (simp add: takeWhile_less conj_commute)
  finally show "take (partition_point (\<lambda>x. x < b) xs - partition_point (\<lambda>x. x < a) xs)
      (drop (partition_point (\<lambda>x. x < a) xs) xs) = filter (\<lambda>x. a \<le> x \<and> x < b) xs" .
qed

lemma by_va_address: "instructions_by_va rows a = Some row \<Longrightarrow> address row = a"
  by (auto simp: instructions_by_va_def dest: map_of_SomeD)

lemma by_va_found: "a \<in> address ` set rows \<Longrightarrow> \<exists>row. instructions_by_va rows a = Some row"
  by (cases "instructions_by_va rows a") (auto simp: instructions_by_va_def map_of_eq_None_iff image_iff)

definition function_range :: "FunctionRecord \<Rightarrow> InstructionRecord list \<Rightarrow> u64 list" where
  "function_range f rows = filter (\<lambda>a. fn_start f \<le> a \<and> a < fn_end f) (sorted_set (map address rows))"

lemma map_filter_addresses:
  "set as \<subseteq> address ` set rows \<Longrightarrow> map address (List.map_filter (instructions_by_va rows) as) = as"
proof (induction as)
  case (Cons a as)
  then obtain row where "instructions_by_va rows a = Some row" using by_va_found [of a rows] by auto
  with Cons by_va_address [of rows a row] show ?case by (simp add: map_filter_simps)
qed (simp add: map_filter_simps)

lemma function_insns_spec:
  assumes "fn_start f \<le> fn_end f"
  obtains insns where
    "function_insns (sorted_set (map address rows)) (instructions_by_va rows) f = Some insns"
    "map address insns = function_range f rows"
proof -
  let ?as = "sorted_set (map address rows)"
  note s = slice_points [OF sorted_set(1) assms, of "map address rows"]
  have "function_insns ?as (instructions_by_va rows) f =
      Some (List.map_filter (instructions_by_va rows) (function_range f rows))"
    using s(1) by (simp add: function_insns_def s(2) function_range_def Let_def)
  moreover have "map address (List.map_filter (instructions_by_va rows) (function_range f rows)) = function_range f rows"
    by (rule map_filter_addresses) (auto simp: function_range_def sorted_set(3))
  ultimately show ?thesis by (rule that)
qed

lemma function_range: "sorted_wrt (<) (function_range f rows)"
    "set (function_range f rows) = {a \<in> address ` set rows. fn_start f \<le> a \<and> a < fn_end f}"
proof -
  have "sorted_wrt (<) (sorted_set (map address rows))" using sorted_set by (simp add: strict_sorted_iff)
  then show "sorted_wrt (<) (function_range f rows)" by (simp add: function_range_def sorted_wrt_filter)
  show "set (function_range f rows) = {a \<in> address ` set rows. fn_start f \<le> a \<and> a < fn_end f}"
    by (auto simp: function_range_def sorted_set(3))
qed

section \<open>Blocks\<close>

lemma block_of_count:
  "sum_list (map instruction_count (block_of insns s t)) = length (filter (\<lambda>i. s \<le> address i \<and> address i < t) insns)"
  by (simp add: block_of_def Let_def)

lemma split_count:
  fixes s s' :: u64
  assumes "s \<le> s'"
  shows "length (filter (\<lambda>i. s \<le> address i \<and> address i < s') insns) + length (filter (\<lambda>i. s' \<le> address i) insns)
    = length (filter (\<lambda>i. s \<le> address i) insns)"
  using assms by (induction insns) auto

lemma build_blocks_count:
  assumes "\<forall>i\<in>set insns. address i < fend"
  shows "sorted_wrt (<) (s # ss) \<Longrightarrow>
    sum_list (map instruction_count (build_blocks insns fend (s # ss))) = length (filter (\<lambda>i. s \<le> address i) insns)"
proof (induction ss arbitrary: s)
  case Nil
  have "filter (\<lambda>i. s \<le> address i \<and> address i < fend) insns = filter (\<lambda>i. s \<le> address i) insns"
    using assms by (auto intro: filter_cong)
  then show ?case by (simp add: block_of_count)
next
  case (Cons s' ss)
  then show ?case using split_count [of s s' insns] by (auto simp: block_of_count)
qed

lemma build_blocks_starts: "b \<in> set (build_blocks insns fend ss) \<Longrightarrow> block_start b \<in> set ss"
  by (induction insns fend ss rule: build_blocks.induct) (auto simp: block_of_def Let_def split: if_splits)

lemma build_blocks_sorted:
  "sorted_wrt (<) ss \<Longrightarrow> sorted_wrt (<) (map block_start (build_blocks insns fend ss))"
proof (induction insns fend ss rule: build_blocks.induct)
  case (3 insns fend s s' ss)
  have "s < block_start b" if "b \<in> set (build_blocks insns fend (s' # ss))" for b
    using build_blocks_starts [OF that] 3(2) by auto
  with 3 show ?case by (auto simp: block_of_def Let_def sorted_wrt_append)
qed (auto simp: block_of_def Let_def)

lemma build_blocks_hit:
  "sorted_wrt (<) ss \<Longrightarrow> t \<in> set ss \<Longrightarrow> t < fend \<Longrightarrow> t \<in> address ` set insns \<Longrightarrow>
     \<exists>b\<in>set (build_blocks insns fend ss). block_start b = t"
proof (induction insns fend ss rule: build_blocks.induct)
  case (2 insns fend s)
  then show ?case by (auto simp: block_of_def Let_def filter_empty_conv)
next
  case (3 insns fend s s' ss)
  show ?case
  proof (cases "t = s")
    case True
    with 3(2,5) have "filter (\<lambda>i. s \<le> address i \<and> address i < s') insns \<noteq> []"
      by (auto simp: filter_empty_conv)
    with True show ?thesis by (simp add: block_of_def Let_def)
  next
    case False
    with 3 show ?thesis by auto
  qed
qed simp

section \<open>Starts\<close>

lemma block_starts:
  assumes "set (map address insns) \<subseteq> {a. fn_start f \<le> a \<and> a < fn_end f}" "insns \<noteq> []"
  shows "sorted_wrt (<) (block_starts f insns)" "set (block_starts f insns) \<subseteq> {a. fn_start f \<le> a \<and> a < fn_end f}"
    and "\<exists>ss. block_starts f insns = fn_start f # ss"
proof -
  let ?b = "block_starts f insns"
  have s: "set ?b = insert (fn_start f) (\<Union>i\<in>set insns. set (ins_starts f (set (map address insns)) i))"
    by (simp add: block_starts_def sorted_set(3))
  show sw: "sorted_wrt (<) ?b"
    using sorted_set by (simp add: block_starts_def strict_sorted_iff Let_def)
  have "fn_start f < fn_end f" using assms by (cases insns) auto
  moreover have "set (ins_starts f (set (map address insns)) i) \<subseteq> {a. fn_start f \<le> a \<and> a < fn_end f}" for i
    using assms(1) by (auto simp: ins_starts_def branch_into_def split: option.splits if_splits)
  ultimately show r: "set ?b \<subseteq> {a. fn_start f \<le> a \<and> a < fn_end f}" unfolding s by auto
  show "\<exists>ss. ?b = fn_start f # ss"
  proof (cases ?b)
    case (Cons x xs)
    then have "fn_start f \<le> x" using r by simp
    moreover have "fn_start f \<in> set (x # xs)" using s Cons by auto
    ultimately have "x = fn_start f" using sw Cons by auto
    with Cons show ?thesis by simp
  qed (use s in simp)
qed

lemma edge_target_start:
  assumes "e \<in> set (edges (function_cfg f insns))"
  shows "edge_from e \<in> set (map address insns)" "edge_to e \<in> set (block_starts f insns)"
    and "edge_type e \<in> {''branch'', ''fallthrough''}"
proof -
  from assms obtain i where i: "i \<in> set insns" "e \<in> set (ins_edges f (set (map address insns)) i)"
    by (auto simp: function_cfg_def)
  then show "edge_from e \<in> set (map address insns)" "edge_type e \<in> {''branch'', ''fallthrough''}"
    by (auto simp: ins_edges_def split: if_splits)
  have "edge_to e \<in> set (ins_starts f (set (map address insns)) i)"
    using i(2) by (auto simp: ins_edges_def ins_starts_def split: if_splits)
  with i(1) show "edge_to e \<in> set (block_starts f insns)" by (auto simp: block_starts_def sorted_set(3))
qed

lemma build_rows_spec:
  assumes "\<forall>f\<in>set fs. fn_start f \<le> fn_end f"
  shows "\<exists>cfgs. build_rows (sorted_set (map address rows)) (instructions_by_va rows) fs = Some cfgs \<and>
    (\<forall>c\<in>set cfgs. \<exists>f\<in>set fs. \<exists>insns. insns \<noteq> [] \<and> map address insns = function_range f rows \<and> c = function_cfg f insns)"
  using assms
proof (induction fs)
  case (Cons f fs)
  obtain insns where i: "function_insns (sorted_set (map address rows)) (instructions_by_va rows) f = Some insns"
      "map address insns = function_range f rows"
    using function_insns_spec [of f rows] Cons.prems by auto
  from Cons obtain cfgs where
    c: "build_rows (sorted_set (map address rows)) (instructions_by_va rows) fs = Some cfgs"
      "\<forall>c\<in>set cfgs. \<exists>f\<in>set fs. \<exists>insns. insns \<noteq> [] \<and> map address insns = function_range f rows \<and> c = function_cfg f insns"
    by auto
  then show ?case using i by (cases "insns = []") auto
qed simp

section \<open>Properties\<close>

text \<open>
  The rows of a function, read off the input without the tables of the code: of several rows with one
  address the last one counts.
\<close>

definition row_at :: "InstructionRecord list \<Rightarrow> u64 \<Rightarrow> InstructionRecord option" where
  "row_at rows a = find (\<lambda>row. address row = a) (rev rows)"

definition function_addresses :: "FunctionRecord \<Rightarrow> InstructionRecord list \<Rightarrow> u64 set" where
  "function_addresses f rows = {a \<in> address ` set rows. fn_start f \<le> a \<and> a < fn_end f}"

text \<open>Where a block can start.\<close>

definition leader :: "FunctionRecord \<Rightarrow> InstructionRecord list \<Rightarrow> u64 \<Rightarrow> bool" where
  "leader f rows x \<longleftrightarrow>
     x = fn_start f \<or>
     (\<exists>a\<in>function_addresses f rows. \<exists>row. row_at rows a = Some row \<and>
        (branch_target row = Some x \<and> fn_start f \<le> x \<and> x < fn_end f \<or>
         (is_jump row \<or> is_call row) \<and> x = address row + ucast (ins_size row) \<and> x \<in> function_addresses f rows))"

text \<open>
  The blocks take a set of addresses in order: each one takes those before the start of the next block,
  at least one and none before its own start, counts them, and ends behind the last of them.
\<close>

fun tiling :: "(u64 \<Rightarrow> InstructionRecord option) \<Rightarrow> u64 set \<Rightarrow> BasicBlockRecord list \<Rightarrow> bool" where
  "tiling at A [] \<longleftrightarrow> A = {}"
| "tiling at A (b # bs) \<longleftrightarrow>
     (let M = (case bs of [] \<Rightarrow> A | b' # _ \<Rightarrow> {a \<in> A. a < block_start b'})
      in M \<noteq> {} \<and> (\<forall>a\<in>M. block_start b \<le> a) \<and> instruction_count b = card M \<and>
         (\<exists>row. at (Max M) = Some row \<and> address row = Max M \<and> block_end b = Max M + ucast (ins_size row)) \<and>
         tiling at (A - M) bs)"

definition cfg_partition :: "InstructionRecord list \<Rightarrow> FunctionRecord \<Rightarrow> CfgRecord \<Rightarrow> bool" where
  "cfg_partition rows f c \<longleftrightarrow>
     cfg_function c = fn_start f \<and> sorted_wrt (<) (map block_start (blocks c)) \<and>
     tiling (row_at rows) (function_addresses f rows) (blocks c) \<and>
     (\<forall>b\<in>set (blocks c). leader f rows (block_start b)) \<and>
     (\<forall>x\<in>function_addresses f rows. leader f rows x \<longrightarrow> x \<in> block_start ` set (blocks c))"

lemma by_va_row_at: "instructions_by_va rows = row_at rows"
proof -
  have "map_of (map (\<lambda>row. (address row, row)) xs) a = find (\<lambda>row. address row = a) xs"
    for xs :: "InstructionRecord list" and a
    by (induction xs) auto
  then show ?thesis by (simp add: instructions_by_va_def row_at_def rev_map fun_eq_iff)
qed

lemma sorted_le_last: "sorted xs \<Longrightarrow> \<forall>x\<in>set xs. x \<le> last xs" for xs :: "u64 list"
  by (induction xs) auto

lemma block_of_nonempty:
  assumes "sorted_wrt (<) (map address insns)" "\<forall>i\<in>set insns. at (address i) = Some i"
    and "block_of insns s t = b # bs"
  defines "M \<equiv> {a \<in> address ` set insns. s \<le> a \<and> a < t}"
  shows "bs = [] \<and> block_start b = s \<and> M \<noteq> {} \<and> instruction_count b = card M \<and>
    (\<exists>row. at (Max M) = Some row \<and> address row = Max M \<and> block_end b = Max M + ucast (ins_size row))"
proof -
  let ?B = "filter (\<lambda>i. s \<le> address i \<and> address i < t) insns"
  have M: "M = address ` set ?B" by (auto simp: M_def)
  have B: "?B \<noteq> []" "bs = []" "block_start b = s" "instruction_count b = length ?B" "block_end b = next_addr (last ?B)"
    using assms(3) by (auto simp: block_of_def Let_def split: if_splits)
  have sw: "sorted_wrt (<) (map address ?B)" using assms(1) by (simp add: sorted_wrt_map sorted_wrt_filter)
  then have d: "distinct (map address ?B)" by (simp only: strict_sorted_iff)
  have card: "card M = length ?B" unfolding M using distinct_card [OF d] by simp
  have "sorted (map address ?B)" using sw by (simp only: strict_sorted_iff)
  then have "\<forall>x\<in>set (map address ?B). x \<le> last (map address ?B)"
    by (rule sorted_le_last)
  then have "Max M = address (last ?B)"
    using B(1) imageI [OF last_in_set [OF B(1)], of address] unfolding M
    by (intro Max_eqI) (auto simp: last_map)
  moreover have "last ?B \<in> set insns" using last_in_set [OF B(1)] by auto
  moreover have "M \<noteq> {}" by (simp only: M image_is_empty set_empty B(1) simp_thms)
  ultimately show ?thesis using B(2-5) card assms(2) by (simp add: next_addr_def)
qed

lemma block_of_empty: "block_of insns s t = [] \<longleftrightarrow> {a \<in> address ` set insns. s \<le> a \<and> a < t} = {}"
  by (auto simp: block_of_def Let_def filter_empty_conv)

lemma build_blocks_tiling:
  assumes "sorted_wrt (<) (map address insns)" "\<forall>i\<in>set insns. at (address i) = Some i" "\<forall>i\<in>set insns. address i < fend"
  shows "sorted_wrt (<) (s # ss) \<Longrightarrow>
    tiling at {a \<in> address ` set insns. s \<le> a} (build_blocks insns fend (s # ss)) \<and>
    (\<forall>b bs. build_blocks insns fend (s # ss) = b # bs \<longrightarrow> (\<forall>a\<in>address ` set insns. s \<le> a \<longrightarrow> block_start b \<le> a))"
proof (induction ss arbitrary: s)
  case Nil
  have A: "{a \<in> address ` set insns. s \<le> a} = {a \<in> address ` set insns. s \<le> a \<and> a < fend}" using assms(3) by auto
  show ?case
  proof (cases "block_of insns s fend")
    case Nil
    then show ?thesis using block_of_empty [of insns s fend] by (simp add: A)
  next
    case (Cons b bs)
    then show ?thesis using block_of_nonempty [OF assms(1,2) Cons] by (auto simp: A Let_def)
  qed
next
  case (Cons s' ss)
  let ?A = "\<lambda>s. {a \<in> address ` set insns. s \<le> a}" and ?M = "{a \<in> address ` set insns. s \<le> a \<and> a < s'}"
  let ?rest = "build_blocks insns fend (s' # ss)"
  have s': "s < s'" using Cons.prems by simp
  have IH: "tiling at (?A s') ?rest"
    "\<And>b bs. ?rest = b # bs \<Longrightarrow> (\<forall>a\<in>address ` set insns. s' \<le> a \<longrightarrow> block_start b \<le> a)"
    using Cons.IH [of s'] Cons.prems by auto
  show ?case
  proof (cases "block_of insns s s'")
    case Nil
    then have "?M = {}" by (simp only: block_of_empty)
    then have "?A s = ?A s'" using s' by force
    moreover have "build_blocks insns fend (s # s' # ss) = ?rest" using Nil by simp
    ultimately show ?thesis using IH by auto
  next
    case (Cons b bs)
    note B = block_of_nonempty [OF assms(1,2) Cons]
    have eq: "build_blocks insns fend (s # s' # ss) = b # ?rest" using Cons B by simp
    have rest: "?A s - ?M = ?A s'" using s' by force
    have M: "(case ?rest of [] \<Rightarrow> ?A s | b' # _ \<Rightarrow> {a \<in> ?A s. a < block_start b'}) = ?M"
    proof (cases ?rest)
      case Nil
      then have "?A s' = {}" using IH(1) by simp
      then show ?thesis using Nil rest by auto
    next
      case (Cons b' bs')
      have "block_start b' \<in> set (s' # ss)" using build_blocks_starts [of b' insns fend "s' # ss"] Cons by simp
      then have "s' \<le> block_start b'" using \<open>sorted_wrt (<) (s # s' # ss)\<close> by auto
      then have "a < block_start b' \<longleftrightarrow> a < s'" if "a \<in> address ` set insns" for a
        using IH(2) [OF Cons] that by force
      then show ?thesis using Cons by auto
    qed
    show ?thesis
      unfolding eq tiling.simps(2) M Let_def rest using IH(1) B by auto
  qed
qed

lemma build_rows_insns:
  assumes "\<forall>f\<in>set fs. fn_start f \<le> fn_end f"
  shows "\<exists>cfgs. build_rows (sorted_set (map address rows)) (instructions_by_va rows) fs = Some cfgs \<and>
    list_all2 (\<lambda>f c. \<exists>insns. insns \<noteq> [] \<and> map address insns = function_range f rows \<and>
        (\<forall>i\<in>set insns. row_at rows (address i) = Some i) \<and> c = function_cfg f insns)
      (filter (\<lambda>f. list_ex (\<lambda>row. fn_start f \<le> address row \<and> address row < fn_end f) rows) fs) cfgs"
  using assms
proof (induction fs)
  case (Cons f fs)
  obtain insns where i: "function_insns (sorted_set (map address rows)) (instructions_by_va rows) f = Some insns"
      "map address insns = function_range f rows"
    using function_insns_spec [of f rows] Cons.prems by auto
  obtain as where "insns = List.map_filter (instructions_by_va rows) as"
    using i(1) by (auto simp: function_insns_def Let_def split: if_splits)
  then have "set insns \<subseteq> {i. \<exists>a. instructions_by_va rows a = Some i}"
    by (force simp: List.map_filter_def)
  then have at: "\<forall>i\<in>set insns. row_at rows (address i) = Some i"
    using by_va_address [of rows] by (fastforce simp: by_va_row_at)
  have "set (map address insns) = {a \<in> address ` set rows. fn_start f \<le> a \<and> a < fn_end f}"
    unfolding i(2) by (rule function_range(2))
  then have "insns \<noteq> [] \<longleftrightarrow> {a \<in> address ` set rows. fn_start f \<le> a \<and> a < fn_end f} \<noteq> {}"
    by (metis list.map_disc_iff set_empty)
  then have "insns \<noteq> [] \<longleftrightarrow> list_ex (\<lambda>row. fn_start f \<le> address row \<and> address row < fn_end f) rows"
    by (auto simp: list_ex_iff)
  moreover obtain cfgs where "build_rows (sorted_set (map address rows)) (instructions_by_va rows) fs = Some cfgs"
    "list_all2 (\<lambda>f c. \<exists>insns. insns \<noteq> [] \<and> map address insns = function_range f rows \<and>
        (\<forall>i\<in>set insns. row_at rows (address i) = Some i) \<and> c = function_cfg f insns)
      (filter (\<lambda>f. list_ex (\<lambda>row. fn_start f \<le> address row \<and> address row < fn_end f) rows) fs) cfgs"
    using Cons by auto
  ultimately show ?case using i at by (cases "insns = []") auto
qed simp

lemma function_starts_leader:
  assumes "map address insns = function_range f rows" "\<forall>i\<in>set insns. row_at rows (address i) = Some i"
  shows "x \<in> set (block_starts f insns) \<longleftrightarrow> leader f rows x"
proof -
  have A: "set (map address insns) = function_addresses f rows"
    using assms(1) function_range(2) by (simp add: function_addresses_def)
  have rows: "(\<exists>i\<in>set insns. P i) \<longleftrightarrow> (\<exists>a\<in>function_addresses f rows. \<exists>row. row_at rows a = Some row \<and> P row)" for P
  proof
    assume "\<exists>i\<in>set insns. P i"
    then show "\<exists>a\<in>function_addresses f rows. \<exists>row. row_at rows a = Some row \<and> P row"
      using assms(2) unfolding A [symmetric] by auto
  next
    assume "\<exists>a\<in>function_addresses f rows. \<exists>row. row_at rows a = Some row \<and> P row"
    then show "\<exists>i\<in>set insns. P i" using assms(2) unfolding A [symmetric] by auto
  qed
  have "x \<in> set (ins_starts f (set (map address insns)) i) \<longleftrightarrow>
      branch_target i = Some x \<and> fn_start f \<le> x \<and> x < fn_end f \<or>
      (is_jump i \<or> is_call i) \<and> x = address i + ucast (ins_size i) \<and> x \<in> function_addresses f rows" for i
    unfolding ins_starts_def A by (auto simp: branch_into_def next_addr_def split: option.splits if_splits)
  then show ?thesis
    unfolding leader_def rows [symmetric, of "\<lambda>row. branch_target row = Some x \<and> fn_start f \<le> x \<and> x < fn_end f \<or>
      (is_jump row \<or> is_call row) \<and> x = address row + ucast (ins_size row) \<and> x \<in> function_addresses f rows"]
    by (simp add: block_starts_def sorted_set(3))
qed

lemma function_cfg_partition:
  assumes "insns \<noteq> []" "map address insns = function_range f rows" "\<forall>i\<in>set insns. row_at rows (address i) = Some i"
  shows "cfg_partition rows f (function_cfg f insns)"
proof -
  have A: "set (map address insns) = function_addresses f rows"
    using assms(2) function_range(2) by (simp add: function_addresses_def)
  have sub: "set (map address insns) \<subseteq> {a. fn_start f \<le> a \<and> a < fn_end f}"
    unfolding A by (auto simp: function_addresses_def)
  note st = block_starts [OF sub assms(1)]
  obtain ss where ss: "block_starts f insns = fn_start f # ss" using st(3) by blast
  have "sorted_wrt (<) (map address insns)" using assms(2) function_range(1) by simp
  moreover have "\<forall>i\<in>set insns. address i < fn_end f" using sub by auto
  moreover have "{a \<in> address ` set insns. fn_start f \<le> a} = function_addresses f rows"
    using A by (auto simp: function_addresses_def)
  ultimately have "tiling (row_at rows) (function_addresses f rows) (blocks (function_cfg f insns))"
    using build_blocks_tiling [of insns "row_at rows" "fn_end f" "fn_start f" ss] assms(3) st(1) ss
    by (simp add: function_cfg_def)
  moreover have "sorted_wrt (<) (map block_start (blocks (function_cfg f insns)))"
    using build_blocks_sorted [OF st(1)] by (simp add: function_cfg_def)
  moreover have "leader f rows (block_start b)" if "b \<in> set (blocks (function_cfg f insns))" for b
    using that build_blocks_starts [of b insns "fn_end f" "block_starts f insns"] function_starts_leader [OF assms(2,3)]
    by (simp add: function_cfg_def)
  moreover have "x \<in> block_start ` set (blocks (function_cfg f insns))"
    if "x \<in> function_addresses f rows" "leader f rows x" for x
    using build_blocks_hit [OF st(1), of x "fn_end f" insns] that function_starts_leader [OF assms(2,3)] A
    by (auto simp: function_cfg_def function_addresses_def)
  ultimately show ?thesis by (simp add: cfg_partition_def function_cfg_def)
qed

text \<open>
  C38: for functions whose end is not before their start the builder returns one graph for each function
  that has instructions, in order, and its blocks partition the instruction addresses of the function: the
  block starts increase strictly, each block takes exactly the addresses up to the start of the next one (at
  least one, and together all), counts them, and ends behind the last of them. Blocks start only at the
  function start, at a branch target inside the function or behind a jump or call, and they do start at every
  such place that is an instruction.
\<close>

lemma cfg_blocks_partition:
  assumes "\<forall>f\<in>set fs. fn_start f \<le> fn_end f"
  shows "\<exists>cfgs. build_cfg fs rows = Some cfgs \<and>
    list_all2 (cfg_partition rows)
      (filter (\<lambda>f. list_ex (\<lambda>row. fn_start f \<le> address row \<and> address row < fn_end f) rows) fs) cfgs"
  using build_rows_insns [OF assms, of rows] function_cfg_partition
  unfolding build_cfg_def by (auto elim!: list_all2_mono)

text \<open>
  Every edge of the graph starts at an instruction of its function and stays inside the function;
  when its target is the address of an instruction, a block starts there.
\<close>

lemma cfg_edges_sound:
  assumes "\<forall>f\<in>set fs. fn_start f \<le> fn_end f"
  shows "\<exists>cfgs. build_cfg fs rows = Some cfgs \<and> (\<forall>c\<in>set cfgs. \<exists>f\<in>set fs. cfg_function c = fn_start f \<and>
    (\<forall>e\<in>set (edges c). edge_from e \<in> address ` set rows \<and> fn_start f \<le> edge_from e \<and> edge_from e < fn_end f \<and>
      fn_start f \<le> edge_to e \<and> edge_to e < fn_end f \<and>
      (edge_to e \<in> address ` set rows \<longrightarrow> (\<exists>b\<in>set (blocks c). block_start b = edge_to e))))"
proof -
  have one: "edge_from e \<in> address ` set rows \<and> fn_start f \<le> edge_from e \<and> edge_from e < fn_end f \<and>
      fn_start f \<le> edge_to e \<and> edge_to e < fn_end f \<and>
      (edge_to e \<in> address ` set rows \<longrightarrow> (\<exists>b\<in>set (blocks c). block_start b = edge_to e))"
    if i: "insns \<noteq> []" "map address insns = function_range f rows" and c: "c = function_cfg f insns"
      and e: "e \<in> set (edges c)" for c f insns e
  proof -
    have r: "set (map address insns) = {a \<in> address ` set rows. fn_start f \<le> a \<and> a < fn_end f}"
      using i(2) function_range(2) by simp
    then have sub: "set (map address insns) \<subseteq> {a. fn_start f \<le> a \<and> a < fn_end f}" by blast
    note st = block_starts [OF sub i(1)]
    note t = edge_target_start [OF e [unfolded c]]
    have to: "fn_start f \<le> edge_to e \<and> edge_to e < fn_end f" using t(2) st(2) by blast
    have "\<exists>b\<in>set (blocks c). block_start b = edge_to e" if "edge_to e \<in> address ` set rows"
      using build_blocks_hit [OF st(1) t(2)] to that r by (simp add: c function_cfg_def)
    with t(1) r to show ?thesis by blast
  qed
  obtain cfgs where "build_cfg fs rows = Some cfgs"
      "\<forall>c\<in>set cfgs. \<exists>f\<in>set fs. \<exists>insns. insns \<noteq> [] \<and> map address insns = function_range f rows \<and> c = function_cfg f insns"
    using build_rows_spec [OF assms, of rows] by (auto simp: build_cfg_def)
  moreover have "cfg_function (function_cfg f insns) = fn_start f" for f insns by (simp add: function_cfg_def)
  ultimately show ?thesis using one by (metis (no_types, lifting))
qed

section \<open>Witnesses\<close>

definition demo_rows :: "InstructionRecord list" where
  "demo_rows =
     [(plain_ir 0x10 ''cmp'' []) \<lparr>ins_size := 2\<rparr>,
      (plain_ir 0x12 ''je'' []) \<lparr>ins_size := 2, is_jump := True, branch_target := Some 0x16\<rparr>,
      (plain_ir 0x14 ''nop'' []) \<lparr>ins_size := 2\<rparr>,
      (plain_ir 0x16 ''ret'' []) \<lparr>ins_size := 1\<rparr>]"

definition demo_fn :: FunctionRecord where
  "demo_fn = \<lparr>fn_start = 0x10, fn_end = 0x17, fn_size = 7, fn_source = [], calls = [],
     calls_imports = [], fn_strings = [], xrefs = 0\<rparr>"

lemma demo_cfg:
  "map_option (map (\<lambda>c. (map (\<lambda>b. (block_start b, block_end b, instruction_count b)) (blocks c),
     map (\<lambda>e. (edge_from e, edge_to e)) (edges c)))) (build_cfg [demo_fn] demo_rows) =
   Some [([(0x10, 0x14, 2), (0x14, 0x16, 1), (0x16, 0x17, 1)], [(0x12, 0x16), (0x12, 0x14)])]"
  by code_simp

lemma cfg_blocks_partition_witness:
  "\<exists>c. build_cfg [demo_fn] demo_rows = Some [c] \<and> cfg_partition demo_rows demo_fn c"
proof -
  have "list_ex (\<lambda>row. fn_start demo_fn \<le> address row \<and> address row < fn_end demo_fn) demo_rows"
    by code_simp
  then show ?thesis
    using cfg_blocks_partition [of "[demo_fn]" demo_rows] by (auto simp: demo_fn_def list_all2_Cons1)
qed

lemma cfg_edges_sound_witness:
  "\<exists>cfgs. build_cfg [demo_fn] demo_rows = Some cfgs \<and>
    (\<forall>c\<in>set cfgs. \<forall>e\<in>set (edges c). 0x10 \<le> edge_to e \<and> edge_to e < 0x17)"
  using cfg_edges_sound [of "[demo_fn]" demo_rows] by (auto simp: demo_fn_def)

end
