(* ===== verification/Coverage_Map.thy ===== *)
theory Coverage_Map
  imports Axe_Prelude
begin

text \<open>
  The edge bitmap of the coverage-guided fuzzer (\<open>src/fuzzer/coverage.rs\<close>): a map of
  \<open>MAP_SIZE\<close> bytes that counts edges of one run, and the shared map that keeps the
  largest bucket ever seen. The AHash hasher is the parameter \<open>ah\<close>, a function of the two
  words it is fed; nothing is assumed of it.

  The lemmas show that every index the code computes is inside the array, that the two
  counters of the verdict cannot wrap, that the verdict is "interesting" exactly when the
  merge would change the shared map, and that merging is a pointwise maximum: inflationary,
  idempotent and independent of the order of the runs.
\<close>

unbundle bit_operations_syntax

section \<open>The map\<close>

definition MAP_SIZE :: nat where
  "MAP_SIZE = 2 ^ 20"

definition MAP_MASK :: u64 where
  "MAP_MASK = word_of_nat (MAP_SIZE - 1)"

record CoverageMap =
  inner :: "u8 list"

definition coverage_map_new :: CoverageMap where
  "coverage_map_new = \<lparr>inner = replicate MAP_SIZE 0\<rparr>"

text \<open>\<open>AHasher::default()\<close>, two \<open>write_u64\<close> and \<open>finish\<close> are the parameter \<open>ah\<close>.\<close>

type_synonym edge_hasher = "u64 \<Rightarrow> u64 \<Rightarrow> u64"

definition edge_hash :: "edge_hasher \<Rightarrow> u64 \<Rightarrow> u64 \<Rightarrow> nat" where
  "edge_hash ah from to = unat (ah from to AND MAP_MASK)"

definition saturating_incr :: "u8 \<Rightarrow> u8" where
  "saturating_incr b = (if b = 255 then 255 else b + 1)"

definition record_edge :: "edge_hasher \<Rightarrow> u64 \<Rightarrow> u64 \<Rightarrow> CoverageMap \<Rightarrow> CoverageMap" where
  "record_edge ah from to m =
     (let idx = edge_hash ah from to
      in m\<lparr>inner := (inner m)[idx := saturating_incr (inner m ! idx)]\<rparr>)"

definition coverage_map_clear :: "CoverageMap \<Rightarrow> CoverageMap" where
  "coverage_map_clear m = m\<lparr>inner := map (\<lambda>_. 0) (inner m)\<rparr>"

definition bucket :: "u8 \<Rightarrow> u8" where
  "bucket hits =
     (if hits = 0 then 0 else if hits = 1 then 1 else if hits = 2 then 2 else if hits = 3 then 3
      else if hits \<le> 7 then 4 else if hits \<le> 15 then 5 else if hits \<le> 31 then 6
      else if hits \<le> 127 then 7 else 8)"

section \<open>Novelty\<close>

record Novelty =
  new_edges :: u32
  new_buckets :: u32

definition novelty_default :: Novelty where
  "novelty_default = \<lparr>new_edges = 0, new_buckets = 0\<rparr>"

definition is_interesting :: "Novelty \<Rightarrow> bool" where
  "is_interesting n \<longleftrightarrow> new_edges n > 0 \<or> new_buckets n > 0"

text \<open>
  The loops run over the indices of both arrays in step; a step of the loop is a pair of
  bytes.
\<close>

definition novelty_step :: "u8 \<Rightarrow> u8 \<Rightarrow> Novelty \<Rightarrow> Novelty" where
  "novelty_step raw snap_bucket n =
     (if raw = 0 then n
      else let local_bucket = bucket raw
           in if snap_bucket = 0 then n\<lparr>new_edges := new_edges n + 1\<rparr>
              else if local_bucket > snap_bucket then n\<lparr>new_buckets := new_buckets n + 1\<rparr>
              else n)"

fun novelty_loop :: "u8 list \<Rightarrow> u8 list \<Rightarrow> Novelty \<Rightarrow> Novelty" where
  "novelty_loop (raw # ls) (snap # ss) n = novelty_loop ls ss (novelty_step raw snap n)"
| "novelty_loop _ _ n = n"

definition classify_against_snapshot :: "CoverageMap \<Rightarrow> CoverageMap \<Rightarrow> Novelty" where
  "classify_against_snapshot local snapshot =
     novelty_loop (inner local) (inner snapshot) novelty_default"

definition merge_step :: "u8 \<Rightarrow> u8 \<Rightarrow> u8" where
  "merge_step raw global_bucket =
     (if raw = 0 then global_bucket
      else let local_bucket = bucket raw
           in if local_bucket > global_bucket then local_bucket else global_bucket)"

fun merge_loop :: "u8 list \<Rightarrow> u8 list \<Rightarrow> u8 list" where
  "merge_loop (raw # ls) (g # gs) = merge_step raw g # merge_loop ls gs"
| "merge_loop _ gs = gs"

definition merge_into_global :: "CoverageMap \<Rightarrow> CoverageMap \<Rightarrow> CoverageMap" where
  "merge_into_global local global = global\<lparr>inner := merge_loop (inner local) (inner global)\<rparr>"

definition classify :: "CoverageMap \<Rightarrow> CoverageMap \<Rightarrow> Novelty \<times> CoverageMap" where
  "classify local global =
     (classify_against_snapshot local global, merge_into_global local global)"

section \<open>Well-formed maps\<close>

definition wf_map :: "CoverageMap \<Rightarrow> bool" where
  "wf_map m \<longleftrightarrow> length (inner m) = MAP_SIZE"

text \<open>A shared map holds buckets, never raw counts.\<close>

definition wf_global :: "CoverageMap \<Rightarrow> bool" where
  "wf_global m \<longleftrightarrow> wf_map m \<and> (\<forall>b \<in> set (inner m). b \<le> 8)"

named_theorems cov_simps \<open>lengths and reads of coverage maps\<close>

lemma edge_hash_bound: "edge_hash ah from to < MAP_SIZE"
proof -
  have "edge_hash ah from to \<le> unat MAP_MASK"
    unfolding edge_hash_def by (rule word_le_nat_alt [THEN iffD1]) (rule word_and_le1)
  then show ?thesis by (simp add: MAP_MASK_def MAP_SIZE_def)
qed

lemma wf_new [simp]: "wf_map coverage_map_new"
  by (simp add: wf_map_def coverage_map_new_def)

lemma wf_global_new [simp]: "wf_global coverage_map_new"
  by (auto simp: wf_global_def wf_map_def coverage_map_new_def)

lemma wf_record [simp]: "wf_map m \<Longrightarrow> wf_map (record_edge ah from to m)"
  by (simp add: wf_map_def record_edge_def Let_def)

lemma wf_clear [simp]: "wf_map m \<Longrightarrow> wf_map (coverage_map_clear m)"
  by (simp add: wf_map_def coverage_map_clear_def)

lemma clear_is_new: "wf_map m \<Longrightarrow> inner (coverage_map_clear m) = inner coverage_map_new"
  by (simp add: wf_map_def coverage_map_clear_def coverage_map_new_def map_replicate_const)

lemma clear_new: "wf_map m \<Longrightarrow> coverage_map_clear m = coverage_map_new"
  using clear_is_new [of m] by (simp add: coverage_map_clear_def coverage_map_new_def)

lemma nth_new [cov_simps]: "i < MAP_SIZE \<Longrightarrow> inner coverage_map_new ! i = 0"
  by (simp add: coverage_map_new_def)

lemma nth_record [cov_simps]:
  assumes "wf_map m" "i < MAP_SIZE"
  shows "inner (record_edge ah from to m) ! i =
    (if i = edge_hash ah from to then saturating_incr (inner m ! i) else inner m ! i)"
  using assms by (auto simp: record_edge_def Let_def wf_map_def)

lemma u8_bound: "unat (b :: u8) < 256"
  using unsigned_less [of b, where ?'a = nat] by simp

lemma saturating_incr_unat: "unat (saturating_incr b) = min 255 (unat b + 1)"
proof (cases "b = 255")
  case True then show ?thesis by (simp add: saturating_incr_def)
next
  case False
  have ne: "unat b \<noteq> 255"
  proof
    assume "unat b = 255"
    then have "unat b = unat (255 :: u8)" by simp
    with False show False by (simp only: word_unat_eq_iff)
  qed
  then have "unat (b + 1) = unat b + 1"
    using u8_bound [of b] by (subst unat_add_lem [THEN iffD1]) auto
  then show ?thesis using False u8_bound [of b] ne by (simp add: saturating_incr_def)
qed

section \<open>Buckets\<close>

lemma bucket_pos: "bucket b > 0 \<longleftrightarrow> b \<noteq> 0"
  by (auto simp: bucket_def)

lemma bucket_zero [simp]: "bucket 0 = 0"
  by (simp add: bucket_def)

lemma bucket_le: "bucket b \<le> 8"
  by (auto simp: bucket_def)

lemma bucket_mono:
  assumes "a \<le> b"
  shows "bucket a \<le> bucket b"
  using assms by (simp add: bucket_def word_le_nat_alt word_unat_eq_iff)

lemma merge_step_max: "merge_step raw g = max (bucket raw) g"
  by (auto simp: merge_step_def bucket_zero max_def Let_def)

lemma length_merge_loop [simp]: "length (merge_loop ls gs) = length gs"
  by (induction ls gs rule: merge_loop.induct) auto

lemma nth_merge_loop:
  "i < length ls \<Longrightarrow> i < length gs \<Longrightarrow> merge_loop ls gs ! i = max (bucket (ls ! i)) (gs ! i)"
  by (induction ls gs arbitrary: i rule: merge_loop.induct)
    (auto simp: merge_step_max nth_Cons split: nat.split)

lemma wf_merge [simp]: "wf_map g \<Longrightarrow> wf_map (merge_into_global l g)"
  by (simp add: wf_map_def merge_into_global_def)

lemma nth_merge [cov_simps]:
  assumes "wf_map l" "wf_map g" "i < MAP_SIZE"
  shows "inner (merge_into_global l g) ! i = max (bucket (inner l ! i)) (inner g ! i)"
  using assms by (simp add: wf_map_def merge_into_global_def nth_merge_loop)

text \<open>Two maps are equal when they agree at every index.\<close>

lemma map_eqI:
  assumes "wf_map a" "wf_map b" "\<And>i. i < MAP_SIZE \<Longrightarrow> inner a ! i = inner b ! i"
  shows "a = b"
  using assms by (auto simp: wf_map_def intro!: CoverageMap.equality nth_equalityI)

lemma wf_global_merge:
  assumes "wf_map l" "wf_global g"
  shows "wf_global (merge_into_global l g)"
  using assms unfolding wf_global_def
  by (auto simp: all_set_conv_all_nth wf_map_def merge_into_global_def nth_merge_loop bucket_le)

section \<open>What the verdict counts\<close>

definition new_edge_at :: "u8 \<times> u8 \<Rightarrow> bool" where
  "new_edge_at p \<longleftrightarrow> fst p \<noteq> 0 \<and> snd p = 0"

definition new_bucket_at :: "u8 \<times> u8 \<Rightarrow> bool" where
  "new_bucket_at p \<longleftrightarrow> fst p \<noteq> 0 \<and> snd p \<noteq> 0 \<and> bucket (fst p) > snd p"

lemma novelty_loop_counts:
  "novelty_loop ls ss n =
     \<lparr>new_edges = new_edges n + word_of_nat (length (filter new_edge_at (zip ls ss))),
      new_buckets = new_buckets n + word_of_nat (length (filter new_bucket_at (zip ls ss)))\<rparr>"
  by (induction ls ss n rule: novelty_loop.induct)
    (auto simp: novelty_step_def new_edge_at_def new_bucket_at_def Let_def)

definition new_edge_slots :: "CoverageMap \<Rightarrow> CoverageMap \<Rightarrow> nat set" where
  "new_edge_slots l g = {i. i < MAP_SIZE \<and> inner l ! i \<noteq> 0 \<and> inner g ! i = 0}"

definition raised_slots :: "CoverageMap \<Rightarrow> CoverageMap \<Rightarrow> nat set" where
  "raised_slots l g =
     {i. i < MAP_SIZE \<and> inner l ! i \<noteq> 0 \<and> inner g ! i \<noteq> 0 \<and> bucket (inner l ! i) > inner g ! i}"

lemma slots_bound:
  "card (new_edge_slots l g) + card (raised_slots l g) \<le> MAP_SIZE"
proof -
  have fin: "finite (new_edge_slots l g)" "finite (raised_slots l g)"
    by (auto simp: new_edge_slots_def raised_slots_def)
  have "card (new_edge_slots l g) + card (raised_slots l g) = card (new_edge_slots l g \<union> raised_slots l g)"
    by (subst card_Un_disjoint) (use fin in \<open>auto simp: new_edge_slots_def raised_slots_def\<close>)
  also have "\<dots> \<le> card {..<MAP_SIZE}"
    by (rule card_mono) (auto simp: new_edge_slots_def raised_slots_def)
  finally show ?thesis by simp
qed

lemma classify_counts:
  assumes "wf_map l" "wf_map g"
  shows "unat (new_edges (classify_against_snapshot l g)) = card (new_edge_slots l g)"
    and "unat (new_buckets (classify_against_snapshot l g)) = card (raised_slots l g)"
proof -
  have len: "length (inner l) = MAP_SIZE" "length (inner g) = MAP_SIZE"
    using assms by (simp_all add: wf_map_def)
  have e: "length (filter new_edge_at (zip (inner l) (inner g))) = card (new_edge_slots l g)"
    unfolding length_filter_conv_card new_edge_slots_def using len
    by (intro arg_cong [where f = card]) (auto simp: new_edge_at_def)
  have b: "length (filter new_bucket_at (zip (inner l) (inner g))) = card (raised_slots l g)"
    unfolding length_filter_conv_card raised_slots_def using len
    by (intro arg_cong [where f = card]) (auto simp: new_bucket_at_def)
  have small: "card (new_edge_slots l g) < 2 ^ 32" "card (raised_slots l g) < 2 ^ 32"
    using slots_bound [of l g] by (simp_all add: MAP_SIZE_def)
  show "unat (new_edges (classify_against_snapshot l g)) = card (new_edge_slots l g)"
    "unat (new_buckets (classify_against_snapshot l g)) = card (raised_slots l g)"
    using small
    by (simp_all add: classify_against_snapshot_def novelty_loop_counts novelty_default_def e b
      unat_of_nat take_bit_nat_eq_self)
qed

lemma interesting_slots:
  assumes "wf_map l" "wf_map g"
  shows "is_interesting (classify_against_snapshot l g) \<longleftrightarrow>
    (\<exists>i < MAP_SIZE. bucket (inner l ! i) > inner g ! i)"
proof -
  let ?n = "classify_against_snapshot l g"
  have "is_interesting ?n \<longleftrightarrow> unat (new_edges ?n) \<noteq> 0 \<or> unat (new_buckets ?n) \<noteq> 0"
    by (simp add: is_interesting_def word_neq_0_conv unat_eq_0)
  also have "\<dots> \<longleftrightarrow> new_edge_slots l g \<noteq> {} \<or> raised_slots l g \<noteq> {}"
    using classify_counts [OF assms] by (auto simp: new_edge_slots_def raised_slots_def)
  also have "\<dots> \<longleftrightarrow> (\<exists>i < MAP_SIZE. bucket (inner l ! i) > inner g ! i)"
    using bucket_pos by (fastforce simp: new_edge_slots_def raised_slots_def)
  finally show ?thesis .
qed

lemma merge_fixed_iff:
  assumes "wf_map l" "wf_map g"
  shows "merge_into_global l g = g \<longleftrightarrow> (\<forall>i < MAP_SIZE. bucket (inner l ! i) \<le> inner g ! i)"
proof
  assume "merge_into_global l g = g"
  then show "\<forall>i < MAP_SIZE. bucket (inner l ! i) \<le> inner g ! i"
    using nth_merge [OF assms] by (metis max.cobounded1)
next
  assume "\<forall>i < MAP_SIZE. bucket (inner l ! i) \<le> inner g ! i"
  then show "merge_into_global l g = g"
    using assms by (intro map_eqI) (auto simp: nth_merge max_def)
qed

lemma interesting_iff_changes:
  assumes "wf_map l" "wf_map g"
  shows "is_interesting (classify_against_snapshot l g) \<longleftrightarrow> merge_into_global l g \<noteq> g"
  unfolding interesting_slots [OF assms] merge_fixed_iff [OF assms] by (auto simp: not_le)

section \<open>Sequences of runs\<close>

definition merge_runs :: "CoverageMap list \<Rightarrow> CoverageMap \<Rightarrow> CoverageMap" where
  "merge_runs rs g = fold merge_into_global rs g"

lemma merge_commute:
  assumes "wf_map a" "wf_map b" "wf_map g"
  shows "merge_into_global a (merge_into_global b g) = merge_into_global b (merge_into_global a g)"
  using assms by (intro map_eqI) (auto simp: nth_merge max.left_commute)

lemma merge_idem:
  assumes "wf_map l" "wf_map g"
  shows "merge_into_global l (merge_into_global l g) = merge_into_global l g"
  using assms by (intro map_eqI) (auto simp: nth_merge)

lemma wf_merge_runs:
  "\<forall>r \<in> set rs. wf_map r \<Longrightarrow> wf_global g \<Longrightarrow> wf_global (merge_runs rs g)"
  unfolding merge_runs_def by (induction rs arbitrary: g) (auto simp: wf_global_merge)

lemma nth_merge_runs:
  assumes "\<forall>r \<in> set rs. wf_map r" "wf_map g" "i < MAP_SIZE"
  shows "inner (merge_runs rs g) ! i = Max (insert (inner g ! i) ((\<lambda>r. bucket (inner r ! i)) ` set rs))"
  using assms unfolding merge_runs_def
proof (induction rs arbitrary: g)
  case (Cons r rs)
  let ?B = "(\<lambda>r. bucket (inner r ! i)) ` set rs"
  have "inner (fold merge_into_global (r # rs) g) ! i =
      Max (insert (max (bucket (inner r ! i)) (inner g ! i)) ?B)"
    using Cons by (simp add: nth_merge)
  also have "\<dots> = Max (insert (inner g ! i) (insert (bucket (inner r ! i)) ?B))"
    by (cases "?B = {}") (auto simp: max.assoc max.commute max.left_commute)
  finally show ?case by simp
qed simp

lemma merge_runs_set:
  assumes "\<forall>r \<in> set rs. wf_map r" "wf_global g" "set rs = set rs'"
  shows "merge_runs rs g = merge_runs rs' g"
proof (rule map_eqI)
  have g: "wf_map g" using assms(2) by (simp add: wf_global_def)
  show "wf_map (merge_runs rs g)" "wf_map (merge_runs rs' g)"
    using wf_merge_runs [OF assms(1,2)] wf_merge_runs [OF assms(1) [unfolded assms(3)] assms(2)]
    unfolding wf_global_def by blast+
  show "inner (merge_runs rs g) ! i = inner (merge_runs rs' g) ! i" if "i < MAP_SIZE" for i
    using nth_merge_runs [of rs g i] nth_merge_runs [of rs' g i] assms g that by simp
qed

lemma merged_run_known:
  assumes "\<forall>r \<in> set rs. wf_map r" "wf_global g" "r \<in> set rs"
  shows "\<not> is_interesting (classify_against_snapshot r (merge_runs rs g))"
proof -
  have g: "wf_map g" using assms(2) by (simp add: wf_global_def)
  have w: "wf_map (merge_runs rs g)"
    using wf_merge_runs [of rs g] assms by (simp add: wf_global_def)
  have "bucket (inner r ! i) \<le> inner (merge_runs rs g) ! i" if "i < MAP_SIZE" for i
    unfolding nth_merge_runs [OF assms(1) g that] using assms(3) by (intro Max_ge) auto
  then show ?thesis
    using interesting_slots [of r "merge_runs rs g"] assms w by (force simp: not_less)
qed

section \<open>Collisions\<close>

lemma single_edge_bytes:
  assumes "i < MAP_SIZE"
  shows "inner (record_edge ah f t coverage_map_new) ! i = (if i = edge_hash ah f t then 1 else 0)"
  using assms by (simp add: cov_simps saturating_incr_def)

lemma colliding_single_edges:
  assumes "edge_hash ah f1 t1 = edge_hash ah f2 t2"
  shows "record_edge ah f1 t1 coverage_map_new = record_edge ah f2 t2 coverage_map_new"
  using assms by (simp add: record_edge_def)

section \<open>Properties\<close>

text \<open>
  The verdict of \<open>classify\<close> is exact. The run is reported interesting exactly when
  merging it changes the shared map; the new shared map is again a map of buckets; and the
  same run, classified a second time, is not interesting.
\<close>

theorem classify_exact:
  assumes "wf_map local" "wf_global global"
  shows "case classify local global of (n, global') \<Rightarrow>
    (is_interesting n \<longleftrightarrow> global' \<noteq> global) \<and> wf_global global' \<and>
    \<not> is_interesting (fst (classify local global')) \<and> snd (classify local global') = global'"
proof -
  have g: "wf_map global" using assms(2) by (simp add: wf_global_def)
  note wm = wf_merge [OF g, of local]
  show ?thesis
    using interesting_iff_changes [OF assms(1) g] interesting_iff_changes [OF assms(1) wm]
      wf_global_merge [OF assms] merge_idem [OF assms(1) g]
    by (simp add: classify_def)
qed

theorem classify_exact_witness:
  "case classify (record_edge (\<lambda>a b. a XOR b) 1 2 coverage_map_new) coverage_map_new of (n, global') \<Rightarrow>
    (is_interesting n \<longleftrightarrow> global' \<noteq> coverage_map_new) \<and> wf_global global' \<and>
    \<not> is_interesting (fst (classify (record_edge (\<lambda>a b. a XOR b) 1 2 coverage_map_new) global')) \<and>
    snd (classify (record_edge (\<lambda>a b. a XOR b) 1 2 coverage_map_new) global') = global'"
  by (rule classify_exact) simp_all

text \<open>
  The two \<open>u32\<close> counters of the verdict never wrap: they are the numbers of slots that
  were empty and of slots whose bucket rises, and together at most \<open>MAP_SIZE\<close>.
\<close>

theorem novelty_counts_exact:
  assumes "wf_map local" "wf_map snapshot"
  shows "unat (new_edges (classify_against_snapshot local snapshot)) =
      card {i. i < MAP_SIZE \<and> inner local ! i \<noteq> 0 \<and> inner snapshot ! i = 0}"
    and "unat (new_buckets (classify_against_snapshot local snapshot)) =
      card {i. i < MAP_SIZE \<and> inner local ! i \<noteq> 0 \<and> inner snapshot ! i \<noteq> 0 \<and>
        bucket (inner local ! i) > inner snapshot ! i}"
    and "unat (new_edges (classify_against_snapshot local snapshot)) +
      unat (new_buckets (classify_against_snapshot local snapshot)) \<le> MAP_SIZE"
  using classify_counts [OF assms] slots_bound [of local snapshot]
  by (simp_all add: new_edge_slots_def raised_slots_def)

theorem novelty_counts_exact_witness:
  "unat (new_edges (classify_against_snapshot coverage_map_new coverage_map_new)) +
     unat (new_buckets (classify_against_snapshot coverage_map_new coverage_map_new)) \<le> MAP_SIZE"
  by (rule novelty_counts_exact) simp_all

text \<open>
  The shared map after a sequence of runs depends only on the set of runs, not on their
  order or repetition: every byte is the largest bucket any run reached there (or the byte
  it started from), and no run of the sequence is interesting afterwards.
\<close>

theorem coverage_order_independent:
  assumes "\<forall>r \<in> set rs. wf_map r" "wf_global g" "set rs = set rs'"
  shows "merge_runs rs g = merge_runs rs' g \<and>
    (\<forall>i < MAP_SIZE. inner (merge_runs rs g) ! i =
       Max (insert (inner g ! i) ((\<lambda>r. bucket (inner r ! i)) ` set rs))) \<and>
    (\<forall>r \<in> set rs. \<not> is_interesting (classify_against_snapshot r (merge_runs rs g)))"
  using merge_runs_set [OF assms] merged_run_known [OF assms(1,2)] nth_merge_runs [OF assms(1), of g] assms(2)
  by (auto simp only: wf_global_def)

theorem coverage_order_independent_witness:
  "let a = record_edge (\<lambda>a b. a XOR b) 1 2 coverage_map_new;
       b = record_edge (\<lambda>a b. a XOR b) 3 4 coverage_map_new
   in merge_runs [a, b] coverage_map_new = merge_runs [b, a, b] coverage_map_new"
  unfolding Let_def by (rule coverage_order_independent [THEN conjunct1]) auto

text \<open>
  A hash collision hides coverage. When two different edges fall into the same slot, a
  run that takes only the second one is not interesting once a run over the first has been
  merged, whatever else the shared map holds.
\<close>

theorem collision_underreports:
  assumes "edge_hash ah f1 t1 = edge_hash ah f2 t2" "wf_global g"
  shows "\<not> is_interesting (classify_against_snapshot (record_edge ah f2 t2 coverage_map_new)
    (merge_into_global (record_edge ah f1 t1 coverage_map_new) g))"
  using merged_run_known [of "[record_edge ah f1 t1 coverage_map_new]" g "record_edge ah f1 t1 coverage_map_new"]
    assms by (simp add: merge_runs_def colliding_single_edges [OF assms(1)])

theorem collision_underreports_witness:
  "\<not> is_interesting (classify_against_snapshot (record_edge (\<lambda>a b. a XOR b) 5 6 coverage_map_new)
    (merge_into_global (record_edge (\<lambda>a b. a XOR b) 1 2 coverage_map_new) coverage_map_new))"
  by (rule collision_underreports) (simp_all add: edge_hash_def)

end
