(* ===== verification/Mutators.thy ===== *)
theory Mutators
  imports Axe_Prelude
begin

text \<open>
  The input mutators of the fuzzer (\<open>src/fuzzer/mutators.rs\<close>): the Xorshift64 generator, the
  havoc family, splicing, dictionary tokens and boundary values. The generator is threaded
  through every call as the code does it. An index, an insertion point or a slice outside the
  buffer is a Rust panic, written here as \<^const>\<open>None\<close>; the lemmas show that no mutator reaches
  one on any input, that the result respects the length cap and is what the reported mutator made, and that
  the generator is a permutation of the non-zero words, so it never gets stuck.
\<close>

unbundle bit_operations_syntax

section \<open>The generator\<close>

datatype Xorshift64 = Xorshift64 u64

fun rng_state :: "Xorshift64 \<Rightarrow> u64" where
  "rng_state (Xorshift64 x) = x"

definition xorshift_new :: "u64 \<Rightarrow> Xorshift64" where
  "xorshift_new seed = Xorshift64 (if seed = 0 then 0x9E3779B97F4A7C15 else seed)"

definition xorshift_step :: "u64 \<Rightarrow> u64" where
  "xorshift_step x =
     (let x = x XOR push_bit 13 x;
          x = x XOR drop_bit 7 x
      in x XOR push_bit 17 x)"

definition next_u64 :: "Xorshift64 \<Rightarrow> u64 \<times> Xorshift64" where
  "next_u64 rng = (let x = xorshift_step (rng_state rng) in (x, Xorshift64 x))"

definition rng_range :: "nat \<Rightarrow> Xorshift64 \<Rightarrow> nat \<times> Xorshift64" where
  "rng_range n rng =
     (if n = 0 then (0, rng) else let (x, rng) = next_u64 rng in (unat x mod n, rng))"

definition next_u8 :: "Xorshift64 \<Rightarrow> u8 \<times> Xorshift64" where
  "next_u8 rng = (let (x, rng) = next_u64 rng in (ucast x, rng))"

definition next_bool :: "Xorshift64 \<Rightarrow> bool \<times> Xorshift64" where
  "next_bool rng = (let (x, rng) = next_u64 rng in (x AND 1 = 1, rng))"

section \<open>Buffers that panic out of range\<close>

type_synonym bytes = "u8 list"

definition buf_get :: "bytes \<Rightarrow> nat \<Rightarrow> u8 option" where
  "buf_get buf i = (if i < length buf then Some (buf ! i) else None)"

definition buf_set :: "bytes \<Rightarrow> nat \<Rightarrow> u8 \<Rightarrow> bytes option" where
  "buf_set buf i b = (if i < length buf then Some (buf[i := b]) else None)"

definition buf_insert :: "bytes \<Rightarrow> nat \<Rightarrow> u8 \<Rightarrow> bytes option" where
  "buf_insert buf pos b = (if pos \<le> length buf then Some (take pos buf @ b # drop pos buf) else None)"

definition buf_slice :: "bytes \<Rightarrow> nat \<Rightarrow> nat \<Rightarrow> bytes option" where
  "buf_slice buf a b = (if a \<le> b \<and> b \<le> length buf then Some (take (b - a) (drop a buf)) else None)"

definition buf_drain :: "bytes \<Rightarrow> nat \<Rightarrow> nat \<Rightarrow> bytes option" where
  "buf_drain buf a b = (if a \<le> b \<and> b \<le> length buf then Some (take a buf @ drop b buf) else None)"

definition buf_copy :: "bytes \<Rightarrow> nat \<Rightarrow> nat \<Rightarrow> bytes \<Rightarrow> bytes option" where
  "buf_copy buf a b src =
     (if a \<le> b \<and> b \<le> length buf \<and> length src = b - a
      then Some (take a buf @ src @ drop b buf) else None)"

section \<open>Havoc\<close>

definition havoc_byte_flip :: "bytes \<Rightarrow> Xorshift64 \<Rightarrow> (bytes \<times> Xorshift64) option" where
  "havoc_byte_flip buf rng =
     (if buf = [] then Some (buf, rng)
      else do {
        let (idx, rng) = rng_range (length buf) rng;
        let (bit, rng) = rng_range 8 rng;
        b \<leftarrow> buf_get buf idx;
        buf \<leftarrow> buf_set buf idx (b XOR push_bit bit 1);
        Some (buf, rng)
      })"

definition havoc_byte_arith :: "bool \<Rightarrow> bytes \<Rightarrow> Xorshift64 \<Rightarrow> (bytes \<times> Xorshift64) option" where
  "havoc_byte_arith add buf rng =
     (if buf = [] then Some (buf, rng)
      else do {
        let (idx, rng) = rng_range (length buf) rng;
        let (d, rng) = rng_range 35 rng;
        let delta = word_of_nat (d + 1);
        b \<leftarrow> buf_get buf idx;
        buf \<leftarrow> buf_set buf idx (if add then b + delta else b - delta);
        Some (buf, rng)
      })"

definition havoc_byte_xor :: "bytes \<Rightarrow> Xorshift64 \<Rightarrow> (bytes \<times> Xorshift64) option" where
  "havoc_byte_xor buf rng =
     (if buf = [] then Some (buf, rng)
      else do {
        let (idx, rng) = rng_range (length buf) rng;
        let (v, rng) = next_u8 rng;
        b \<leftarrow> buf_get buf idx;
        buf \<leftarrow> buf_set buf idx (b XOR v);
        Some (buf, rng)
      })"

definition havoc_byte_overwrite :: "bytes \<Rightarrow> Xorshift64 \<Rightarrow> (bytes \<times> Xorshift64) option" where
  "havoc_byte_overwrite buf rng =
     (if buf = [] then Some (buf, rng)
      else do {
        let (idx, rng) = rng_range (length buf) rng;
        let (v, rng) = next_u8 rng;
        buf \<leftarrow> buf_set buf idx v;
        Some (buf, rng)
      })"

text \<open>The insertion loop, from iteration \<open>i\<close> with \<open>n\<close> iterations left.\<close>

fun insert_loop :: "nat \<Rightarrow> nat \<Rightarrow> nat \<Rightarrow> bytes \<Rightarrow> Xorshift64 \<Rightarrow> (bytes \<times> Xorshift64) option" where
  "insert_loop pos i 0 buf rng = Some (buf, rng)"
| "insert_loop pos i (Suc n) buf rng =
     (let (v, rng) = next_u8 rng
      in case buf_insert buf (pos + i) v of
           None \<Rightarrow> None
         | Some buf \<Rightarrow> insert_loop pos (i + 1) n buf rng)"

definition havoc_insert :: "bytes \<Rightarrow> Xorshift64 \<Rightarrow> (bytes \<times> Xorshift64) option" where
  "havoc_insert buf rng =
     (let (pos, rng) = rng_range (length buf + 1) rng;
          (c, rng) = rng_range 8 rng
      in insert_loop pos 0 (1 + c) buf rng)"

definition havoc_delete :: "bytes \<Rightarrow> Xorshift64 \<Rightarrow> (bytes \<times> Xorshift64) option" where
  "havoc_delete buf rng =
     (if length buf < 2 then Some (buf, rng)
      else do {
        let (pos, rng) = rng_range (length buf) rng;
        let (c, rng) = rng_range 8 rng;
        let count = min (1 + c) (length buf - pos);
        buf \<leftarrow> buf_drain buf pos (pos + count);
        Some (buf, rng)
      })"

definition havoc_chunk_swap :: "bytes \<Rightarrow> Xorshift64 \<Rightarrow> (bytes \<times> Xorshift64) option" where
  "havoc_chunk_swap buf rng =
     (if length buf < 4 then Some (buf, rng)
      else
        let max_chunk = max (length buf div 2) 1;
            (c, rng) = rng_range max_chunk rng;
            chunk = 1 + c;
            (src, rng) = rng_range (length buf - chunk + 1) rng;
            (dst, rng) = rng_range (length buf - chunk + 1) rng
        in if src = dst then Some (buf, rng)
           else do {
             scratch \<leftarrow> buf_slice buf src (src + chunk);
             buf \<leftarrow> buf_copy buf dst (dst + chunk) scratch;
             Some (buf, rng)
           })"

definition havoc_op :: "nat \<Rightarrow> bytes \<Rightarrow> Xorshift64 \<Rightarrow> (bytes \<times> Xorshift64) option" where
  "havoc_op k =
     (if k = 0 then havoc_byte_flip
      else if k = 1 then havoc_byte_arith True
      else if k = 2 then havoc_byte_arith False
      else if k = 3 then havoc_byte_overwrite
      else if k = 4 then havoc_insert
      else if k = 5 then havoc_delete
      else if k = 6 then havoc_byte_xor
      else havoc_chunk_swap)"

fun havoc_loop :: "nat \<Rightarrow> bytes \<Rightarrow> Xorshift64 \<Rightarrow> (bytes \<times> Xorshift64) option" where
  "havoc_loop 0 out rng = Some (out, rng)"
| "havoc_loop (Suc n) out rng =
     (let (k, rng) = rng_range 8 rng
      in case havoc_op k out rng of
           None \<Rightarrow> None
         | Some (out, rng) \<Rightarrow> havoc_loop n out rng)"

definition apply_havoc :: "bytes \<Rightarrow> Xorshift64 \<Rightarrow> (bytes \<times> Xorshift64) option" where
  "apply_havoc input rng = (let (d, rng) = rng_range 4 rng in havoc_loop (1 + d) input rng)"

section \<open>Splice, dictionary and boundary values\<close>

text \<open>
  These return the inner option of the source inside the outer one: \<open>Some (None, rng)\<close> is the
  source's \<open>None\<close>, \<^const>\<open>None\<close> a panic.
\<close>

definition splice_from ::
  "bytes \<Rightarrow> bytes list \<Rightarrow> Xorshift64 \<Rightarrow> (bytes option \<times> Xorshift64) option" where
  "splice_from input splice_pool rng =
     (if splice_pool = [] then Some (None, rng)
      else
        let (k, rng) = rng_range (length splice_pool) rng
        in if k \<ge> length splice_pool then None
           else
             let other = splice_pool ! k
             in if other = [] then Some (None, rng)
                else do {
                  let (split_a, rng) = (if input = [] then (0, rng) else rng_range (length input) rng);
                  let (split_b, rng) = rng_range (length other) rng;
                  head \<leftarrow> buf_slice input 0 split_a;
                  rest \<leftarrow> buf_slice other split_b (length other);
                  Some (Some (head @ rest), rng)
                })"

record Dictionary =
  tokens :: "bytes list"

definition dict_pick :: "Dictionary \<Rightarrow> Xorshift64 \<Rightarrow> (bytes option \<times> Xorshift64) option" where
  "dict_pick d rng =
     (if tokens d = [] then Some (None, rng)
      else
        let (idx, rng) = rng_range (length (tokens d)) rng
        in if idx < length (tokens d) then Some (Some (tokens d ! idx), rng) else None)"

fun insert_token :: "nat \<Rightarrow> nat \<Rightarrow> bytes \<Rightarrow> bytes \<Rightarrow> bytes option" where
  "insert_token pos i [] out = Some out"
| "insert_token pos i (b # bs) out =
     (case buf_insert out (pos + i) b of None \<Rightarrow> None | Some out \<Rightarrow> insert_token pos (i + 1) bs out)"

definition apply_dict ::
  "bytes \<Rightarrow> Dictionary \<Rightarrow> Xorshift64 \<Rightarrow> (bytes option \<times> Xorshift64) option" where
  "apply_dict input dict rng =
     (case dict_pick dict rng of
        None \<Rightarrow> None
      | Some (None, rng) \<Rightarrow> Some (None, rng)
      | Some (Some token, rng) \<Rightarrow>
          let (pos, rng) = (if input = [] then (0, rng) else rng_range (length input + 1) rng);
              (ins, rng) = next_bool rng
          in if ins \<or> pos + length token > length input
             then map_option (\<lambda>out. (Some out, rng)) (insert_token pos 0 token input)
             else map_option (\<lambda>out. (Some out, rng)) (buf_copy input pos (pos + length token) token))"

definition boundary_value :: "u64 \<Rightarrow> u32 \<Rightarrow> u64" where
  "boundary_value seed slot =
     (let shifted = word_rotl (unat ((slot * 11) AND 63)) seed;
          k = shifted AND 7
      in if k = 0 then 0
         else if k = 1 then 1
         else if k = 2 then 0x00000000FFFFFFFF
         else if k = 3 then - 1
         else if k = 4 then 0x000000007FFFFFFF
         else if k = 5 then 0x0000000000100000
         else if k = 6 then 0x0000000000000100
         else shifted)"

definition to_le_bytes :: "u64 \<Rightarrow> bytes" where
  "to_le_bytes v = map (\<lambda>i. ucast (drop_bit (8 * i) v)) [0..<8]"

definition apply_boundary_value :: "bytes \<Rightarrow> Xorshift64 \<Rightarrow> (bytes \<times> Xorshift64) option" where
  "apply_boundary_value input rng =
     (if length input < 8 then Some (input, rng)
      else do {
        let (pos, rng) = rng_range (length input - 7) rng;
        let (x, rng) = next_u64 rng;
        out \<leftarrow> buf_copy input pos (pos + 8) (to_le_bytes (boundary_value x 0));
        Some (out, rng)
      })"

section \<open>Choosing a mutator\<close>

datatype Mutator = Havoc | Splice | Dict | BoundaryValue | CmpGuided

record MutateCtx =
  dict :: Dictionary
  splice_pool :: "bytes list"
  max_len :: nat

definition havoc_as :: "bytes \<Rightarrow> Xorshift64 \<Rightarrow> ((bytes \<times> Mutator) \<times> Xorshift64) option" where
  "havoc_as input rng = map_option (\<lambda>(out, rng). ((out, Havoc), rng)) (apply_havoc input rng)"

fun apply_mutation ::
  "bytes \<Rightarrow> Mutator \<Rightarrow> Xorshift64 \<Rightarrow> MutateCtx \<Rightarrow> ((bytes \<times> Mutator) \<times> Xorshift64) option" where
  "apply_mutation input Havoc rng ctx = havoc_as input rng"
| "apply_mutation input Splice rng ctx =
     (case splice_from input (splice_pool ctx) rng of
        None \<Rightarrow> None
      | Some (Some v, rng) \<Rightarrow> Some ((v, Splice), rng)
      | Some (None, rng) \<Rightarrow> havoc_as input rng)"
| "apply_mutation input Dict rng ctx =
     (case apply_dict input (dict ctx) rng of
        None \<Rightarrow> None
      | Some (Some v, rng) \<Rightarrow> Some ((v, Dict), rng)
      | Some (None, rng) \<Rightarrow> havoc_as input rng)"
| "apply_mutation input BoundaryValue rng ctx =
     map_option (\<lambda>(out, rng). ((out, BoundaryValue), rng)) (apply_boundary_value input rng)"
| "apply_mutation input CmpGuided rng ctx = havoc_as input rng"

definition pick_mutator :: "nat \<Rightarrow> Mutator" where
  "pick_mutator k =
     (if k \<le> 4 then Havoc else if k \<le> 6 then BoundaryValue else if k = 7 then Splice
      else if k = 8 then Dict else CmpGuided)"

definition apply_random_mutation ::
  "bytes \<Rightarrow> Xorshift64 \<Rightarrow> MutateCtx \<Rightarrow> ((bytes \<times> Mutator) \<times> Xorshift64) option" where
  "apply_random_mutation input rng ctx =
     (let (k, rng) = rng_range 10 rng
      in case apply_mutation input (pick_mutator k) rng ctx of
           None \<Rightarrow> None
         | Some ((mutated, applied), rng) \<Rightarrow>
             Some ((if length mutated > max_len ctx then take (max_len ctx) mutated else mutated, applied), rng))"

section \<open>The generator is a permutation\<close>

lemma xor_zero_eq:
  fixes x y :: "'a :: len word"
  assumes "x XOR y = 0"
  shows "x = y"
proof -
  have "x = (x XOR y) XOR y" by (simp add: xor.assoc)
  then show ?thesis by (simp add: assms)
qed

lemma xor_push_bit_zero:
  fixes x :: "'a :: len word"
  assumes "x XOR push_bit k x = 0" "k > 0"
  shows "x = 0"
proof -
  have eq: "bit x n \<longleftrightarrow> bit (push_bit k x) n" for n
    using assms(1) by (metis bit_xor_iff bit_0_eq bot_apply bot_bool_def)
  have "\<not> bit x n" for n
  proof (induction n rule: less_induct)
    case (less n)
    show ?case
    proof
      assume "bit x n"
      then have "k \<le> n \<and> bit x (n - k)"
        using eq [of n] by (simp add: bit_push_bit_iff)
      with less [of "n - k"] assms(2) show False by simp
    qed
  qed
  then show ?thesis by (intro bit_eqI) simp
qed

lemma xor_drop_bit_zero:
  fixes x :: "'a :: len word"
  assumes "x XOR drop_bit k x = 0" "k > 0"
  shows "x = 0"
proof -
  have eq: "bit x n \<longleftrightarrow> bit x (k + n)" for n
    using assms(1) by (metis bit_xor_iff bit_0_eq bot_apply bot_bool_def bit_drop_bit_eq comp_apply)
  have iter: "bit x n \<longleftrightarrow> bit x (m * k + n)" for m n
    by (induction m) (use eq in \<open>simp_all add: add.assoc\<close>)
  have "\<not> bit x n" for n
  proof -
    have "LENGTH('a) \<le> LENGTH('a) * k + n" using assms(2) by (cases k) auto
    then have "\<not> bit x (LENGTH('a) * k + n)" by (metis bit_imp_le_length not_less)
    then show ?thesis using iter [of n "LENGTH('a)"] by simp
  qed
  then show ?thesis by (intro bit_eqI) simp
qed

text \<open>Each of the three shifts is linear over exclusive or, so its kernel decides injectivity.\<close>

lemma inj_xor_push: "0 < k \<Longrightarrow> inj (\<lambda>x :: 'a :: len word. x XOR push_bit k x)"
proof (rule injI)
  fix x y :: "'a word"
  assume k: "0 < k" and eq: "x XOR push_bit k x = y XOR push_bit k y"
  have "(x XOR y) XOR push_bit k (x XOR y) = (x XOR push_bit k x) XOR (y XOR push_bit k y)"
    by (simp add: push_bit_xor ac_simps)
  then have "(x XOR y) XOR push_bit k (x XOR y) = 0" by (simp add: eq)
  with k have "x XOR y = 0" by (rule xor_push_bit_zero [rotated])
  then show "x = y" by (rule xor_zero_eq)
qed

lemma inj_xor_drop: "0 < k \<Longrightarrow> inj (\<lambda>x :: 'a :: len word. x XOR drop_bit k x)"
proof (rule injI)
  fix x y :: "'a word"
  assume k: "0 < k" and eq: "x XOR drop_bit k x = y XOR drop_bit k y"
  have "(x XOR y) XOR drop_bit k (x XOR y) = (x XOR drop_bit k x) XOR (y XOR drop_bit k y)"
    by (simp add: drop_bit_xor ac_simps)
  then have "(x XOR y) XOR drop_bit k (x XOR y) = 0" by (simp add: eq)
  with k have "x XOR y = 0" by (rule xor_drop_bit_zero [rotated])
  then show "x = y" by (rule xor_zero_eq)
qed

lemma inj_xorshift_step: "inj xorshift_step"
proof -
  have "xorshift_step = (\<lambda>x. x XOR push_bit 17 x) \<circ> (\<lambda>x. x XOR drop_bit 7 x) \<circ> (\<lambda>x. x XOR push_bit 13 x)"
    by (simp add: fun_eq_iff xorshift_step_def Let_def)
  moreover have "inj \<dots>"
    by (intro inj_compose inj_xor_push inj_xor_drop) simp_all
  ultimately show ?thesis by simp
qed

lemma xorshift_step_zero [simp]: "xorshift_step 0 = 0"
  by (simp add: xorshift_step_def)

lemma xorshift_step_nonzero: "xorshift_step x = 0 \<longleftrightarrow> x = 0"
  using inj_xorshift_step by (metis injD xorshift_step_zero)

definition live :: "Xorshift64 \<Rightarrow> bool" where
  "live rng \<longleftrightarrow> rng_state rng \<noteq> 0"

lemma live_new [simp]: "live (xorshift_new seed)"
  by (simp add: live_def xorshift_new_def)

lemma live_next: "next_u64 rng = (x, rng') \<Longrightarrow> live rng' \<longleftrightarrow> live rng"
  by (auto simp: next_u64_def live_def Let_def xorshift_step_nonzero)

lemma live_range: "rng_range n rng = (k, rng') \<Longrightarrow> live rng' \<longleftrightarrow> live rng"
  by (auto simp: rng_range_def live_next split: if_splits prod.splits)

lemma live_u8: "next_u8 rng = (b, rng') \<Longrightarrow> live rng' \<longleftrightarrow> live rng"
  by (auto simp: next_u8_def live_next split: prod.splits)

lemma live_bool: "next_bool rng = (b, rng') \<Longrightarrow> live rng' \<longleftrightarrow> live rng"
  by (auto simp: next_bool_def live_next split: prod.splits)

lemma range_bound: "rng_range n rng = (k, rng') \<Longrightarrow> 0 < n \<Longrightarrow> k < n"
  by (auto simp: rng_range_def split: if_splits prod.splits)

lemmas rng_facts = live_next live_range live_u8 live_bool

section \<open>No mutator panics\<close>

text \<open>
  A step that does not panic, whose result is no longer than a bound, and whose generator is
  alive when it was before.
\<close>

definition step_ok :: "Xorshift64 \<Rightarrow> nat \<Rightarrow> (bytes \<times> Xorshift64) option \<Rightarrow> bool" where
  "step_ok rng n r \<longleftrightarrow> (\<exists>out rng'. r = Some (out, rng') \<and> length out \<le> n \<and> (live rng \<longrightarrow> live rng'))"

lemma step_okI: "length out \<le> n \<Longrightarrow> (live rng \<Longrightarrow> live rng') \<Longrightarrow> step_ok rng n (Some (out, rng'))"
  by (simp add: step_ok_def)

lemma step_okE:
  assumes "step_ok rng n r"
  obtains out rng' where "r = Some (out, rng')" "length out \<le> n" "live rng \<Longrightarrow> live rng'"
  using assms by (auto simp: step_ok_def)

lemmas buf_defs = buf_get_def buf_set_def buf_slice_def buf_drain_def buf_copy_def

lemma byte_ops_ok:
  "step_ok rng (length buf) (havoc_byte_flip buf rng)"
  "step_ok rng (length buf) (havoc_byte_arith add buf rng)"
  "step_ok rng (length buf) (havoc_byte_xor buf rng)"
  "step_ok rng (length buf) (havoc_byte_overwrite buf rng)"
  by (auto simp: havoc_byte_flip_def havoc_byte_arith_def havoc_byte_xor_def havoc_byte_overwrite_def
      buf_defs step_ok_def rng_facts Let_def dest: range_bound split: prod.splits)

lemma insert_loop_ok:
  "pos + i \<le> length buf \<Longrightarrow> step_ok rng (length buf + n) (insert_loop pos i n buf rng)"
proof (induction n arbitrary: i buf rng)
  case 0
  then show ?case by (simp add: step_ok_def)
next
  case (Suc n)
  obtain v g where v: "next_u8 rng = (v, g)" by fastforce
  let ?b = "take (pos + i) buf @ v # drop (pos + i) buf"
  have "step_ok g (length ?b + n) (insert_loop pos (i + 1) n ?b g)"
    by (rule Suc.IH) (use Suc.prems in simp)
  then show ?case
    using Suc.prems v live_u8 [OF v] by (simp add: buf_insert_def step_ok_def)
qed

lemma havoc_insert_ok: "step_ok rng (length buf + 8) (havoc_insert buf rng)"
proof -
  obtain pos g where p: "rng_range (length buf + 1) rng = (pos, g)" by fastforce
  obtain c h where c: "rng_range 8 g = (c, h)" by fastforce
  have "step_ok h (length buf + (1 + c)) (insert_loop pos 0 (1 + c) buf h)"
    using range_bound [OF p] by (intro insert_loop_ok) simp
  moreover have "c < 8" using range_bound [OF c] by simp
  ultimately show ?thesis
    using live_range [OF p] live_range [OF c] p c by (auto simp: havoc_insert_def step_ok_def)
qed

lemma havoc_delete_ok: "step_ok rng (length buf) (havoc_delete buf rng)"
  by (auto simp: havoc_delete_def buf_defs step_ok_def rng_facts Let_def min_def dest: range_bound
      split: prod.splits)

lemma havoc_chunk_swap_ok: "step_ok rng (length buf) (havoc_chunk_swap buf rng)"
proof (cases "length buf < 4")
  case True
  then show ?thesis by (simp add: havoc_chunk_swap_def step_ok_def)
next
  case False
  obtain c g1 where c: "rng_range (max (length buf div 2) 1) rng = (c, g1)" by fastforce
  obtain src g2 where a: "rng_range (length buf - (1 + c) + 1) g1 = (src, g2)" by fastforce
  obtain dst g3 where b: "rng_range (length buf - (1 + c) + 1) g2 = (dst, g3)" by fastforce
  have "1 + c \<le> length buf" using range_bound [OF c] False by simp
  moreover have "src + (1 + c) \<le> length buf" "dst + (1 + c) \<le> length buf"
    using range_bound [OF a] range_bound [OF b] calculation by simp_all
  ultimately show ?thesis
    using False c a b \<open>1 + c \<le> length buf\<close> live_range [OF c] live_range [OF a] live_range [OF b]
    by (auto simp: havoc_chunk_swap_def buf_defs step_ok_def Let_def)
qed

lemma step_ok_mono: "step_ok rng n r \<Longrightarrow> n \<le> m \<Longrightarrow> step_ok rng m r"
  by (auto simp: step_ok_def)

lemma havoc_op_ok: "step_ok rng (length buf + 8) (havoc_op k buf rng)"
  unfolding havoc_op_def
  by (auto intro: havoc_insert_ok step_ok_mono [OF havoc_delete_ok] step_ok_mono [OF havoc_chunk_swap_ok]
      step_ok_mono [OF byte_ops_ok(1)] step_ok_mono [OF byte_ops_ok(2)]
      step_ok_mono [OF byte_ops_ok(3)] step_ok_mono [OF byte_ops_ok(4)])

lemma havoc_loop_ok: "step_ok rng (length buf + 8 * n) (havoc_loop n buf rng)"
proof (induction n arbitrary: buf rng)
  case 0
  then show ?case by (simp add: step_ok_def)
next
  case (Suc n)
  obtain k g where k: "rng_range 8 rng = (k, g)" by fastforce
  obtain out h where o: "havoc_op k buf g = Some (out, h)" "length out \<le> length buf + 8"
      "live g \<Longrightarrow> live h"
    using step_okE [OF havoc_op_ok [of g buf k]] by blast
  show ?case
    using Suc.IH [of h out] k o live_range [OF k] by (auto simp: step_ok_def)
qed

lemma apply_havoc_ok: "step_ok rng (length buf + 32) (apply_havoc buf rng)"
proof -
  obtain d g where d: "rng_range 4 rng = (d, g)" by fastforce
  have "d < 4" using range_bound [OF d] by simp
  then have "step_ok g (length buf + 32) (havoc_loop (1 + d) buf g)"
    using havoc_loop_ok [of g buf "1 + d"] by (elim step_ok_mono) simp
  then show ?thesis using d live_range [OF d] by (simp add: apply_havoc_def step_ok_def)
qed

text \<open>What each mutator makes of an input, before the result is cut to the length limit.\<close>

definition spliced :: "bytes \<Rightarrow> bytes list \<Rightarrow> bytes \<Rightarrow> bool" where
  "spliced input pool out \<longleftrightarrow>
     (\<exists>other a b. other \<in> set pool \<and> a \<le> length input \<and> b < length other \<and> out = take a input @ drop b other)"

definition token_placed :: "bytes \<Rightarrow> bytes list \<Rightarrow> bytes \<Rightarrow> bool" where
  "token_placed input ts out \<longleftrightarrow>
     (\<exists>token pos. token \<in> set ts \<and> pos \<le> length input \<and>
        (out = take pos input @ token @ drop pos input \<or>
         (pos + length token \<le> length input \<and> out = take pos input @ token @ drop (pos + length token) input)))"

definition boundary_placed :: "bytes \<Rightarrow> bytes \<Rightarrow> bool" where
  "boundary_placed input out \<longleftrightarrow>
     (if length input < 8 then out = input
      else \<exists>pos x. pos + 8 \<le> length input \<and>
        out = take pos input @ to_le_bytes (boundary_value x 0) @ drop (pos + 8) input)"

fun made_by :: "bytes \<Rightarrow> MutateCtx \<Rightarrow> Mutator \<Rightarrow> bytes \<Rightarrow> bool" where
  "made_by input ctx Havoc out \<longleftrightarrow> (\<exists>g g'. apply_havoc input g = Some (out, g'))"
| "made_by input ctx Splice out \<longleftrightarrow> spliced input (splice_pool ctx) out"
| "made_by input ctx Dict out \<longleftrightarrow> token_placed input (tokens (dict ctx)) out"
| "made_by input ctx BoundaryValue out \<longleftrightarrow> boundary_placed input out"
| "made_by input ctx CmpGuided out \<longleftrightarrow> False"

lemma splice_from_ok:
  "\<exists>v rng'. splice_from input pool rng = Some (v, rng') \<and> (live rng \<longrightarrow> live rng') \<and>
     (\<forall>out. v = Some out \<longrightarrow> spliced input pool out)"
proof (cases "pool = []")
  case True
  then show ?thesis by (simp add: splice_from_def)
next
  case False
  obtain k g1 where k: "rng_range (length pool) rng = (k, g1)" by fastforce
  define other where "other = pool ! k"
  have kb: "k < length pool" using range_bound [OF k] False by simp
  show ?thesis
  proof (cases "other = []")
    case True
    then show ?thesis using False k kb live_range [OF k] by (simp add: splice_from_def other_def)
  next
    case ne: False
    obtain a g2 where a: "(if input = [] then (0, g1) else rng_range (length input) g1) = (a, g2)" by fastforce
    obtain b g3 where b: "rng_range (length other) g2 = (b, g3)" by fastforce
    have ab: "a \<le> length input" "live g2 \<longleftrightarrow> live g1"
      using a range_bound [of "length input" g1 a g2] live_range [of "length input" g1 a g2]
      by (auto split: if_splits)
    have "b < length other" using range_bound [OF b] ne by simp
    with ab have "splice_from input pool rng = Some (Some (take a input @ drop b other), g3)"
      using False k kb a b ne by (simp add: splice_from_def other_def [symmetric] Let_def buf_slice_def)
    moreover have "spliced input pool (take a input @ drop b other)"
      using ab(1) \<open>b < length other\<close> kb unfolding spliced_def other_def by (blast intro: nth_mem)
    ultimately show ?thesis
      using False ab live_range [OF k] live_range [OF b] by simp
  qed
qed

lemma insert_token_ok:
  "pos + i \<le> length out \<Longrightarrow> insert_token pos i token out = Some (take (pos + i) out @ token @ drop (pos + i) out)"
proof (induction token arbitrary: i out)
  case (Cons b bs)
  have "insert_token pos (i + 1) bs (take (pos + i) out @ b # drop (pos + i) out) =
      Some (take (pos + i) out @ b # bs @ drop (pos + i) out)"
    using Cons.IH [of "i + 1" "take (pos + i) out @ b # drop (pos + i) out"] Cons.prems by simp
  then show ?case using Cons.prems by (simp add: buf_insert_def)
qed simp

lemma apply_dict_ok:
  "\<exists>v rng'. apply_dict input d rng = Some (v, rng') \<and> (live rng \<longrightarrow> live rng') \<and>
     (\<forall>out. v = Some out \<longrightarrow> token_placed input (tokens d) out)"
proof (cases "tokens d = []")
  case True
  then show ?thesis by (simp add: apply_dict_def dict_pick_def)
next
  case False
  obtain k g1 where k: "rng_range (length (tokens d)) rng = (k, g1)" by fastforce
  have kb: "k < length (tokens d)" using range_bound [OF k] False by simp
  define token where "token = tokens d ! k"
  obtain pos g2 where p: "(if input = [] then (0, g1) else rng_range (length input + 1) g1) = (pos, g2)"
    by fastforce
  have pb: "pos \<le> length input" "live g2 \<longleftrightarrow> live g1"
    using p range_bound [of "length input + 1" g1 pos g2] live_range [of "length input + 1" g1 pos g2]
    by (auto split: if_splits)
  obtain ins g3 where n: "next_bool g2 = (ins, g3)" by fastforce
  let ?long = "take pos input @ token @ drop pos input" and ?short = "take pos input @ token @ drop (pos + length token) input"
  have r: "insert_token pos 0 token input = Some ?long" using insert_token_ok [of pos 0 input token] pb by simp
  have mem: "token \<in> set (tokens d)" using kb by (simp add: token_def)
  have "apply_dict input d rng = Some (Some (if ins \<or> pos + length token > length input then ?long else ?short), g3)"
    using False k kb p n pb r
    by (simp add: apply_dict_def dict_pick_def token_def [symmetric] Let_def buf_copy_def)
  moreover have "token_placed input (tokens d) (if ins \<or> pos + length token > length input then ?long else ?short)"
    unfolding token_placed_def using mem pb(1) by (intro exI [of _ token] exI [of _ pos]) auto
  ultimately show ?thesis using pb live_range [OF k] live_bool [OF n] by auto
qed

lemma length_le_bytes [simp]: "length (to_le_bytes v) = 8"
  by (simp add: to_le_bytes_def)

lemma boundary_ok:
  "\<exists>out rng'. apply_boundary_value input rng = Some (out, rng') \<and> (live rng \<longrightarrow> live rng') \<and> boundary_placed input out"
proof (cases "length input < 8")
  case True
  then show ?thesis by (simp add: apply_boundary_value_def boundary_placed_def)
next
  case False
  obtain pos g1 where p: "rng_range (length input - 7) rng = (pos, g1)" by fastforce
  obtain x g2 where x: "next_u64 g1 = (x, g2)" by fastforce
  have pos: "pos + 8 \<le> length input" using range_bound [OF p] False by simp
  have "apply_boundary_value input rng = Some (take pos input @ to_le_bytes (boundary_value x 0) @ drop (pos + 8) input, g2)"
    using False p x pos by (simp add: apply_boundary_value_def buf_copy_def)
  then show ?thesis using False p x pos by (auto simp: boundary_placed_def rng_facts)
qed

lemma havoc_as_ok:
  "\<exists>out rng'. havoc_as input rng = Some ((out, Havoc), rng') \<and> (live rng \<longrightarrow> live rng') \<and> made_by input ctx Havoc out"
proof -
  obtain out rng' where "apply_havoc input rng = Some (out, rng')" "live rng \<longrightarrow> live rng'"
    using apply_havoc_ok [of rng input] by (auto simp: step_ok_def)
  then show ?thesis by (auto simp: havoc_as_def)
qed

lemma apply_mutation_ok:
  "\<exists>out m' rng'. apply_mutation input m rng ctx = Some ((out, m'), rng') \<and> (live rng \<longrightarrow> live rng') \<and> made_by input ctx m' out"
proof (cases m)
  case Splice
  obtain v g where v: "splice_from input (splice_pool ctx) rng = Some (v, g)" "live rng \<longrightarrow> live g"
      "\<forall>out. v = Some out \<longrightarrow> spliced input (splice_pool ctx) out"
    using splice_from_ok by blast
  obtain out rng' where h: "havoc_as input g = Some ((out, Havoc), rng')" "live g \<longrightarrow> live rng'" "made_by input ctx Havoc out"
    using havoc_as_ok by blast
  show ?thesis
  proof (cases v)
    case None
    then show ?thesis using v(1,2) h Splice by (intro exI [of _ out] exI [of _ Havoc] exI [of _ rng']) simp
  qed (use v Splice in auto)
next
  case Dict
  obtain v g where v: "apply_dict input (dict ctx) rng = Some (v, g)" "live rng \<longrightarrow> live g"
      "\<forall>out. v = Some out \<longrightarrow> token_placed input (tokens (dict ctx)) out"
    using apply_dict_ok by blast
  obtain out rng' where h: "havoc_as input g = Some ((out, Havoc), rng')" "live g \<longrightarrow> live rng'" "made_by input ctx Havoc out"
    using havoc_as_ok by blast
  show ?thesis
  proof (cases v)
    case None
    then show ?thesis using v(1,2) h Dict by (intro exI [of _ out] exI [of _ Havoc] exI [of _ rng']) simp
  qed (use v Dict in auto)
next
  case BoundaryValue
  then show ?thesis using boundary_ok [of input rng] by auto
qed (use havoc_as_ok [of input rng ctx] in fastforce)+

lemma apply_random_ok:
  "\<exists>out m rng'. apply_random_mutation input rng ctx = Some ((take (max_len ctx) out, m), rng') \<and>
     made_by input ctx m out \<and> (live rng \<longrightarrow> live rng')"
proof -
  obtain k g where k: "rng_range 10 rng = (k, g)" by fastforce
  obtain out m rng' where m: "apply_mutation input (pick_mutator k) g ctx = Some ((out, m), rng')"
      "live g \<longrightarrow> live rng'" "made_by input ctx m out"
    using apply_mutation_ok by blast
  have "apply_random_mutation input rng ctx = Some ((take (max_len ctx) out, m), rng')"
    using m(1) k by (simp add: apply_random_mutation_def)
  then show ?thesis using m(2,3) live_range [OF k] by blast
qed

section \<open>Properties\<close>

text \<open>
  C39: mutation is total, and what it reports is true. On every input, dictionary and splice pool, with any
  generator, a random mutation returns (no index, insertion point or slice is out of range) and a generator
  that is not stuck at zero stays so. Its result is the first \<open>max_len\<close> bytes of what the reported mutator
  made of the input: a splice is a head of the input with a tail of a pool entry, a token of the dictionary
  is inserted or written over, a boundary value is written over eight bytes (an input shorter than that is
  unchanged), and anything else was made by the havoc stack; \<open>CmpGuided\<close> is never reported.
\<close>

theorem mutation_never_panics:
  "\<exists>out m rng'. apply_random_mutation input rng ctx = Some ((take (max_len ctx) out, m), rng') \<and>
     made_by input ctx m out \<and> (live rng \<longrightarrow> live rng')"
  by (rule apply_random_ok)

theorem mutation_never_panics_witness:
  "\<exists>out m rng'. apply_random_mutation [1, 2, 3] (xorshift_new 0)
       \<lparr>dict = \<lparr>tokens = []\<rparr>, splice_pool = [], max_len = 2\<rparr> = Some ((out, m), rng') \<and>
     length out \<le> 2 \<and> m \<noteq> Splice \<and> m \<noteq> Dict \<and> live rng'"
proof -
  let ?ctx = "\<lparr>dict = \<lparr>tokens = []\<rparr>, splice_pool = [], max_len = 2\<rparr>"
  obtain out m rng' where "apply_random_mutation [1, 2, 3] (xorshift_new 0) ?ctx = Some ((take 2 out, m), rng')"
    "made_by [1, 2, 3] ?ctx m out" "live (xorshift_new 0) \<longrightarrow> live rng'"
    using mutation_never_panics [of "[1, 2, 3]" "xorshift_new 0" ?ctx] by auto
  then show ?thesis by (cases m) (auto simp: spliced_def token_placed_def)
qed

text \<open>
  The generator never degenerates: one step of Xorshift64 is a permutation of the 64-bit
  words that fixes zero only, so from the (non-zero) seed the constructor builds it never
  reaches zero however often it is advanced.
\<close>

theorem xorshift_permutation:
  "bij xorshift_step \<and> (\<forall>x. xorshift_step x = 0 \<longleftrightarrow> x = 0) \<and>
   (\<forall>n seed. (xorshift_step ^^ n) (rng_state (xorshift_new seed)) \<noteq> 0)"
proof -
  have "(xorshift_step ^^ n) x \<noteq> 0" if "x \<noteq> 0" for n x
    using that by (induction n) (simp_all add: xorshift_step_nonzero)
  then show ?thesis
    using inj_xorshift_step finite_UNIV_inj_surj [OF _ inj_xorshift_step] live_new
    by (auto simp: bij_def xorshift_step_nonzero live_def)
qed

text \<open>
  On inputs shorter than eight bytes the boundary mutator changes nothing, and still reports
  that it was applied.
\<close>

theorem boundary_short_noop:
  assumes "length input < 8"
  shows "apply_mutation input BoundaryValue rng ctx = Some ((input, BoundaryValue), rng)"
  using assms by (simp add: apply_boundary_value_def)

end
