(* ===== verification/File_Store.thy ===== *)
theory File_Store
  imports Axe_Prelude "HOL-Library.AList"
begin

text \<open>
  Durable file writes: the temp-write-then-rename writer (\<open>src/atomic_write.rs\<close>) and the
  pre-execute staging area of the fuzzer (\<open>src/fuzzer/staging.rs\<close>).

  The file system is explicit: the contents of the files by path, and a script of faults.
  Every system call takes the next item of the script; \<open>Some (Fault e n)\<close> makes the call fail
  with \<open>e\<close> (a write after \<open>n\<close> bytes), \<^const>\<open>None\<close> or the end of the script lets it succeed.
  A theorem over all scripts is a theorem about a failure at any point. Directories are not
  tracked: creating one can fail but has no other effect, and a buffered writer reaches the
  file when it is flushed.

  The lemmas show that the writer is atomic (whatever fails, the target holds its old or its
  complete new contents, the new ones exactly on success, and only the target and its \<open>.tmp\<close>
  file change), that staging then recovering returns the staged bytes, and that discarding is
  idempotent.
\<close>

section \<open>File system\<close>

type_synonym path = string
type_synonym blob = "u8 list"

datatype IoError = NotFound | OtherIo string

datatype Fault = Fault IoError nat

record FS =
  files :: "(path \<times> blob) list"
  faults :: "Fault option list"

definition fs_read :: "FS \<Rightarrow> path \<Rightarrow> blob option" where
  "fs_read fs p = map_of (files fs) p"

definition next_fault :: "FS \<Rightarrow> Fault option \<times> FS" where
  "next_fault fs = (case faults fs of [] \<Rightarrow> (None, fs) | f # rest \<Rightarrow> (f, fs\<lparr>faults := rest\<rparr>))"

text \<open>A call without an effect on files: \<open>create_dir_all\<close>, \<open>sync_all\<close>.\<close>

definition sys_nop :: "FS \<Rightarrow> (IoError, unit) result \<times> FS" where
  "sys_nop fs =
     (case next_fault fs of (Some (Fault e _), fs) \<Rightarrow> (Err e, fs) | (None, fs) \<Rightarrow> (Ok (), fs))"

text \<open>Open for writing, created or truncated.\<close>

definition sys_create :: "path \<Rightarrow> FS \<Rightarrow> (IoError, unit) result \<times> FS" where
  "sys_create p fs =
     (case next_fault fs of
        (Some (Fault e _), fs) \<Rightarrow> (Err e, fs)
      | (None, fs) \<Rightarrow> (Ok (), fs\<lparr>files := AList.update p [] (files fs)\<rparr>))"

definition sys_write :: "path \<Rightarrow> blob \<Rightarrow> FS \<Rightarrow> (IoError, unit) result \<times> FS" where
  "sys_write p bytes fs =
     (let old = (case fs_read fs p of Some b \<Rightarrow> b | None \<Rightarrow> [])
      in case next_fault fs of
           (Some (Fault e n), fs) \<Rightarrow> (Err e, fs\<lparr>files := AList.update p (old @ take n bytes) (files fs)\<rparr>)
         | (None, fs) \<Rightarrow> (Ok (), fs\<lparr>files := AList.update p (old @ bytes) (files fs)\<rparr>))"

definition sys_rename :: "path \<Rightarrow> path \<Rightarrow> FS \<Rightarrow> (IoError, unit) result \<times> FS" where
  "sys_rename src dest fs =
     (case next_fault fs of
        (Some (Fault e _), fs) \<Rightarrow> (Err e, fs)
      | (None, fs) \<Rightarrow>
          (case fs_read fs src of
             None \<Rightarrow> (Err NotFound, fs)
           | Some b \<Rightarrow> (Ok (), fs\<lparr>files := AList.update dest b (AList.delete src (files fs))\<rparr>)))"

definition sys_remove :: "path \<Rightarrow> FS \<Rightarrow> (IoError, unit) result \<times> FS" where
  "sys_remove p fs =
     (case next_fault fs of
        (Some (Fault e _), fs) \<Rightarrow> (Err e, fs)
      | (None, fs) \<Rightarrow>
          (if fs_read fs p = None then (Err NotFound, fs)
           else (Ok (), fs\<lparr>files := AList.delete p (files fs)\<rparr>)))"

definition sys_read :: "path \<Rightarrow> FS \<Rightarrow> (IoError, blob) result \<times> FS" where
  "sys_read p fs =
     (case next_fault fs of
        (Some (Fault e _), fs) \<Rightarrow> (Err e, fs)
      | (None, fs) \<Rightarrow> (case fs_read fs p of None \<Rightarrow> (Err NotFound, fs) | Some b \<Rightarrow> (Ok b, fs)))"

text \<open>Sequencing of fallible calls: the \<open>?\<close> operator.\<close>

definition io_bind ::
  "(IoError, 'a) result \<times> FS \<Rightarrow> ('a \<Rightarrow> FS \<Rightarrow> (IoError, 'b) result \<times> FS) \<Rightarrow> (IoError, 'b) result \<times> FS" where
  "io_bind r k = (case r of (Err e, fs) \<Rightarrow> (Err e, fs) | (Ok a, fs) \<Rightarrow> k a fs)"

definition path_join :: "path \<Rightarrow> string \<Rightarrow> path" where
  "path_join d n = d @ ''/'' @ n"

lemma path_join_inj [simp]: "path_join d i = path_join d j \<longleftrightarrow> i = j"
  by (simp add: path_join_def)

section \<open>The atomic writer\<close>

record AtomicWriter =
  aw_target :: path
  aw_tmp :: path
  aw_inner :: "blob option"

definition with_tmp_extension :: "path \<Rightarrow> path" where
  "with_tmp_extension target = target @ ''.tmp''"

definition aw_create :: "path \<Rightarrow> FS \<Rightarrow> (IoError, AtomicWriter) result \<times> FS" where
  "aw_create target fs =
     io_bind (sys_nop fs) (\<lambda>_ fs.
       let tmp = with_tmp_extension target
       in io_bind (sys_create tmp fs) (\<lambda>_ fs.
            (Ok \<lparr>aw_target = target, aw_tmp = tmp, aw_inner = Some []\<rparr>, fs)))"

text \<open>Bytes go to the buffer; the \<open>expect\<close> on a closed writer is \<^const>\<open>None\<close>.\<close>

definition aw_write :: "blob \<Rightarrow> AtomicWriter \<Rightarrow> AtomicWriter option" where
  "aw_write buf w =
     (case aw_inner w of None \<Rightarrow> None | Some b \<Rightarrow> Some (w\<lparr>aw_inner := Some (b @ buf)\<rparr>))"

definition aw_finalize :: "AtomicWriter \<Rightarrow> FS \<Rightarrow> (IoError, unit) result \<times> FS" where
  "aw_finalize w fs =
     (let bw = (case aw_inner w of Some b \<Rightarrow> b | None \<Rightarrow> [])
      in io_bind (sys_write (aw_tmp w) bw fs) (\<lambda>_ fs.
           io_bind (sys_nop fs) (\<lambda>_ fs.
             sys_rename (aw_tmp w) (aw_target w) fs)))"

definition aw_abort :: "AtomicWriter \<Rightarrow> FS \<Rightarrow> (IoError, unit) result \<times> FS" where
  "aw_abort w fs =
     (case sys_remove (aw_tmp w) fs of
        (Ok _, fs) \<Rightarrow> (Ok (), fs)
      | (Err NotFound, fs) \<Rightarrow> (Ok (), fs)
      | (Err e, fs) \<Rightarrow> (Err e, fs))"

definition write_atomic :: "path \<Rightarrow> blob \<Rightarrow> FS \<Rightarrow> (IoError, unit) result \<times> FS" where
  "write_atomic target bytes fs =
     io_bind (aw_create target fs) (\<lambda>w fs.
       case aw_write bytes w of
         None \<Rightarrow> (Err (OtherIo ''writer is open until finalize/abort''), fs)
       | Some w \<Rightarrow> aw_finalize w fs)"

section \<open>Staging\<close>

definition STAGING_SUBDIR :: string where
  "STAGING_SUBDIR = ''.staging''"

record InputStaging =
  staging_dir :: path

definition staging_open :: "path \<Rightarrow> FS \<Rightarrow> (IoError, InputStaging) result \<times> FS" where
  "staging_open queue_dir fs =
     io_bind (sys_nop fs) (\<lambda>_ fs. (Ok \<lparr>staging_dir = path_join queue_dir STAGING_SUBDIR\<rparr>, fs))"

definition stage :: "InputStaging \<Rightarrow> string \<Rightarrow> blob \<Rightarrow> FS \<Rightarrow> (IoError, path) result \<times> FS" where
  "stage s i bytes fs =
     (let p = path_join (staging_dir s) i
      in io_bind (sys_create p fs) (\<lambda>_ fs.
           io_bind (sys_write p bytes fs) (\<lambda>_ fs.
             io_bind (sys_nop fs) (\<lambda>_ fs. (Ok p, fs)))))"

definition promote :: "InputStaging \<Rightarrow> string \<Rightarrow> path \<Rightarrow> FS \<Rightarrow> (IoError, unit) result \<times> FS" where
  "promote s i dest fs =
     (let src = path_join (staging_dir s) i
      in io_bind (sys_nop fs) (\<lambda>_ fs. sys_rename src dest fs))"

definition discard :: "InputStaging \<Rightarrow> string \<Rightarrow> FS \<Rightarrow> (IoError, unit) result \<times> FS" where
  "discard s i fs =
     (case sys_remove (path_join (staging_dir s) i) fs of
        (Ok _, fs) \<Rightarrow> (Ok (), fs)
      | (Err NotFound, fs) \<Rightarrow> (Ok (), fs)
      | (Err e, fs) \<Rightarrow> (Err e, fs))"

text \<open>The entries of a directory: the files directly below it, by name.\<close>

definition dir_entries :: "path \<Rightarrow> FS \<Rightarrow> string list" where
  "dir_entries d fs =
     map (drop (length d + 1))
       (filter (\<lambda>p. starts_with (d @ ''/'') p \<and> CHR ''/'' \<notin> set (drop (length d + 1) p)) (remdups (map fst (files fs))))"

fun read_entries :: "path \<Rightarrow> string list \<Rightarrow> FS \<Rightarrow> (IoError, (string \<times> blob) list) result \<times> FS" where
  "read_entries d [] fs = (Ok [], fs)"
| "read_entries d (n # ns) fs =
     io_bind (sys_nop fs) (\<lambda>_ fs.
       io_bind (sys_read (path_join d n) fs) (\<lambda>b fs.
         io_bind (read_entries d ns fs) (\<lambda>rest fs. (Ok ((n, b) # rest), fs))))"

definition recover_orphans :: "InputStaging \<Rightarrow> FS \<Rightarrow> (IoError, (string \<times> blob) list) result \<times> FS" where
  "recover_orphans s fs =
     (case sys_nop fs of
        (Err NotFound, fs) \<Rightarrow> (Ok [], fs)
      | (Err e, fs) \<Rightarrow> (Err e, fs)
      | (Ok _, fs) \<Rightarrow> read_entries (staging_dir s) (dir_entries (staging_dir s) fs) fs)"

section \<open>Effects of the calls\<close>

named_theorems fs_reads \<open>what a read returns after a system call\<close>

lemma next_fault_read [simp]: "next_fault fs = (f, fs') \<Longrightarrow> fs_read fs' p = fs_read fs p"
  by (auto simp: next_fault_def fs_read_def split: list.splits)

lemma next_fault_files: "next_fault fs = (f, fs') \<Longrightarrow> files fs' = files fs"
  by (auto simp: next_fault_def split: list.splits)

lemma sys_nop_read [fs_reads]: "fs_read (snd (sys_nop fs)) p = fs_read fs p"
  by (auto simp: sys_nop_def split: prod.splits option.splits Fault.splits)

lemma sys_create_read [fs_reads]:
  "fs_read (snd (sys_create q fs)) p =
     (if p = q \<and> fst (sys_create q fs) = Ok () then Some [] else fs_read fs p)"
  by (auto simp: sys_create_def fs_read_def update_conv next_fault_files
      split: prod.splits option.splits Fault.splits)

lemma sys_write_read [fs_reads]:
  "p \<noteq> q \<Longrightarrow> fs_read (snd (sys_write q b fs)) p = fs_read fs p"
  by (auto simp: sys_write_def fs_read_def update_conv next_fault_files Let_def
      split: prod.splits option.splits Fault.splits)

lemma sys_write_ok:
  "sys_write q b fs = (Ok u, fs') \<Longrightarrow>
   fs_read fs' q = Some ((case fs_read fs q of Some o' \<Rightarrow> o' | None \<Rightarrow> []) @ b)"
  by (auto simp: sys_write_def fs_read_def update_conv next_fault_files Let_def
      split: prod.splits option.splits Fault.splits)

lemma sys_rename_err:
  "sys_rename a b fs = (Err e, fs') \<Longrightarrow> fs_read fs' p = fs_read fs p"
  by (auto simp: sys_rename_def split: prod.splits option.splits Fault.splits)

lemma sys_rename_err':
  "fst (sys_rename a b fs) = Err e \<Longrightarrow> fs_read (snd (sys_rename a b fs)) p = fs_read fs p"
  using sys_rename_err [of a b fs e _ p] by (metis prod.collapse)

lemma sys_rename_ok:
  "sys_rename a b fs = (Ok u, fs') \<Longrightarrow>
   fs_read fs' p = (if p = b then fs_read fs a else if p = a then None else fs_read fs p) \<and>
   fs_read fs a \<noteq> None"
  by (auto simp: sys_rename_def fs_read_def update_conv delete_conv next_fault_files
      split: prod.splits option.splits Fault.splits)

lemma sys_remove_read [fs_reads]:
  "p \<noteq> q \<Longrightarrow> fs_read (snd (sys_remove q fs)) p = fs_read fs p"
  by (auto simp: sys_remove_def fs_read_def delete_conv next_fault_files
      split: prod.splits option.splits Fault.splits)

lemma sys_remove_gone:
  "sys_remove q fs = (Ok u, fs') \<Longrightarrow> fs_read fs' q = None"
  by (auto simp: sys_remove_def fs_read_def delete_conv next_fault_files
      split: prod.splits option.splits Fault.splits if_splits)

lemma sys_remove_missing:
  "sys_remove q fs = (Err NotFound, fs') \<Longrightarrow> faults fs = [] \<Longrightarrow> fs_read fs' q = None"
  by (auto simp: sys_remove_def next_fault_def split: if_splits)

lemma io_bind_Ok: "io_bind r k = (Ok b, fs') \<longleftrightarrow> (\<exists>a fs. r = (Ok a, fs) \<and> k a fs = (Ok b, fs'))"
  by (auto simp: io_bind_def split: prod.splits sum.splits)

lemma io_bind_Err:
  "io_bind r k = (Err e, fs') \<longleftrightarrow> r = (Err e, fs') \<or> (\<exists>a fs. r = (Ok a, fs) \<and> k a fs = (Err e, fs'))"
  by (auto simp: io_bind_def split: prod.splits sum.splits)

lemma sys_nop_readD: "sys_nop fs = (r, fs') \<Longrightarrow> fs_read fs' p = fs_read fs p"
  using sys_nop_read [of fs p] by simp

lemma sys_create_otherD: "sys_create q fs = (r, fs') \<Longrightarrow> p \<noteq> q \<Longrightarrow> fs_read fs' p = fs_read fs p"
  using sys_create_read [of q fs p] by simp

lemma sys_create_okD: "sys_create q fs = (Ok u, fs') \<Longrightarrow> fs_read fs' q = Some []"
  using sys_create_read [of q fs q] by simp

lemma sys_write_otherD: "sys_write q b fs = (r, fs') \<Longrightarrow> p \<noteq> q \<Longrightarrow> fs_read fs' p = fs_read fs p"
  using sys_write_read [of p q b fs] by simp

lemma sys_remove_otherD: "sys_remove q fs = (r, fs') \<Longrightarrow> p \<noteq> q \<Longrightarrow> fs_read fs' p = fs_read fs p"
  using sys_remove_read [of p q fs] by simp

lemmas other_reads = sys_nop_readD sys_create_otherD sys_write_otherD sys_remove_otherD sys_rename_err

lemma tmp_neq [simp]: "with_tmp_extension t \<noteq> t" "t \<noteq> with_tmp_extension t"
  by (auto simp: with_tmp_extension_def)

text \<open>A writer between its creation and its end touches only the \<open>.tmp\<close> file.\<close>

lemma io_bind_frame:
  assumes "fs_read (snd r) p = x" "\<And>a fs. fs_read fs p = x \<Longrightarrow> fs_read (snd (k a fs)) p = x"
  shows "fs_read (snd (io_bind r k)) p = x"
  using assms by (cases r; cases "fst r") (auto simp: io_bind_def)

lemma aw_create_frame:
  "p \<noteq> with_tmp_extension t \<Longrightarrow> fs_read (snd (aw_create t fs)) p = fs_read fs p"
  unfolding aw_create_def Let_def by (intro io_bind_frame) (simp_all add: fs_reads)

lemma aw_create_other:
  "aw_create t fs = (r, fs') \<Longrightarrow> p \<noteq> with_tmp_extension t \<Longrightarrow> fs_read fs' p = fs_read fs p"
  using aw_create_frame [of p t fs] by simp

lemma aw_create_ok:
  assumes "aw_create t fs = (Ok w, fs')"
  shows "w = \<lparr>aw_target = t, aw_tmp = with_tmp_extension t, aw_inner = Some []\<rparr>"
    and "fs_read fs' (with_tmp_extension t) = Some []"
  using assms by (auto simp: aw_create_def io_bind_Ok Let_def dest: sys_create_okD)

lemma io_bind_err_frame:
  assumes "fst (io_bind r k) = Err e" "fs_read (snd r) p = x"
    "\<And>a fs. fst (k a fs) = Err e \<Longrightarrow> fs_read fs p = x \<Longrightarrow> fs_read (snd (k a fs)) p = x"
  shows "fs_read (snd (io_bind r k)) p = x"
  using assms by (cases r; cases "fst r") (auto simp: io_bind_def)

lemma aw_finalize_err:
  assumes "aw_finalize w fs = (Err e, fs')" "p \<noteq> aw_tmp w"
  shows "fs_read fs' p = fs_read fs p"
proof -
  have "fst (aw_finalize w fs) = Err e" using assms(1) by simp
  then have "fs_read (snd (aw_finalize w fs)) p = fs_read fs p"
    unfolding aw_finalize_def Let_def
    by (rule io_bind_err_frame)
      (auto simp: fs_reads assms(2) sys_rename_err' elim!: io_bind_err_frame)
  then show ?thesis using assms(1) by simp
qed

lemma aw_finalize_ok:
  assumes "aw_finalize w fs = (Ok u, fs')" "aw_inner w = Some b" "fs_read fs (aw_tmp w) = Some []"
  shows "fs_read fs' p = (if p = aw_target w then Some b else if p = aw_tmp w then None else fs_read fs p)"
proof -
  obtain u1 fs1 u2 fs2 where c: "sys_write (aw_tmp w) b fs = (Ok u1, fs1)" "sys_nop fs1 = (Ok u2, fs2)"
      "sys_rename (aw_tmp w) (aw_target w) fs2 = (Ok u, fs')"
    using assms(1,2) by (auto simp: aw_finalize_def io_bind_Ok Let_def)
  have "fs_read fs1 (aw_tmp w) = Some b" using sys_write_ok [OF c(1)] assms(3) by simp
  then show ?thesis
    using sys_rename_ok [OF c(3), of p] sys_nop_readD [OF c(2)] sys_write_otherD [OF c(1), of p] by auto
qed

lemma write_atomic_cases:
  assumes "write_atomic t b fs = (r, fs')"
  obtains (create) e where "aw_create t fs = (Err e, fs')" "r = Err e"
  | (finish) w fs1 where "aw_create t fs = (Ok w, fs1)"
      "aw_finalize (w\<lparr>aw_inner := Some b\<rparr>) fs1 = (r, fs')"
proof (cases "aw_create t fs")
  case (Pair c fs1)
  show ?thesis
  proof (cases c)
    case (Inl e)
    then show ?thesis using assms Pair create by (simp add: write_atomic_def io_bind_def)
  next
    case (Inr w)
    have "aw_inner w = Some []" using aw_create_ok(1) [of t fs w fs1] Pair Inr by simp
    then show ?thesis using assms Pair Inr finish by (simp add: write_atomic_def io_bind_def aw_write_def)
  qed
qed

lemma write_atomic_err:
  assumes "write_atomic t b fs = (Err e, fs')" "p \<noteq> with_tmp_extension t"
  shows "fs_read fs' p = fs_read fs p"
  using assms(1)
proof (cases rule: write_atomic_cases)
  case create
  then show ?thesis using aw_create_other assms(2) by blast
next
  case (finish w fs1)
  have "aw_tmp w = with_tmp_extension t" using aw_create_ok(1) [OF finish(1)] by simp
  then show ?thesis
    using aw_finalize_err [OF finish(2), of p] aw_create_other [OF finish(1), of p] assms(2) by simp
qed

lemma write_atomic_ok:
  assumes "write_atomic t b fs = (Ok u, fs')"
  shows "fs_read fs' p = (if p = t then Some b else if p = with_tmp_extension t then None else fs_read fs p)"
  using assms
proof (cases rule: write_atomic_cases)
  case (finish w fs1)
  then show ?thesis
    using aw_finalize_ok [OF finish(2), of b p] aw_create_ok [OF finish(1)] aw_create_other [OF finish(1), of p]
    by auto
qed simp

lemma write_atomic_other:
  assumes "write_atomic t b fs = (r, fs')" "p \<noteq> t" "p \<noteq> with_tmp_extension t"
  shows "fs_read fs' p = fs_read fs p"
  using assms write_atomic_err [of t b fs _ fs' p] write_atomic_ok [of t b fs _ fs' p]
  by (cases r) auto

lemma stage_ok:
  assumes "stage s i b fs = (Ok q, fs')"
  shows "q = path_join (staging_dir s) i" "fs_read fs' q = Some b"
proof -
  let ?p = "path_join (staging_dir s) i"
  obtain u1 fs1 u2 fs2 u3 where c: "sys_create ?p fs = (Ok u1, fs1)" "sys_write ?p b fs1 = (Ok u2, fs2)"
      "sys_nop fs2 = (Ok u3, fs')" "q = ?p"
    using assms by (auto simp: stage_def io_bind_Ok Let_def)
  then show "q = ?p" "fs_read fs' q = Some b"
    using sys_create_okD [OF c(1)] sys_write_ok [OF c(2)] sys_nop_readD [OF c(3)] by auto
qed

lemma stage_frame:
  "p \<noteq> path_join (staging_dir s) i \<Longrightarrow> fs_read (snd (stage s i b fs)) p = fs_read fs p"
  unfolding stage_def Let_def by (intro io_bind_frame) (simp_all add: fs_reads)

lemma stage_other:
  "stage s i b fs = (r, fs') \<Longrightarrow> p \<noteq> path_join (staging_dir s) i \<Longrightarrow> fs_read fs' p = fs_read fs p"
  using stage_frame [of p s i b fs] by simp

lemma discard_snd: "snd (discard s i fs) = snd (sys_remove (path_join (staging_dir s) i) fs)"
proof (cases "sys_remove (path_join (staging_dir s) i) fs")
  case (Pair r fs')
  show ?thesis
  proof (cases r)
    case (Inl e)
    then show ?thesis using Pair by (cases e) (simp_all add: discard_def)
  next
    case (Inr u)
    then show ?thesis using Pair by (simp add: discard_def)
  qed
qed

lemma discard_other:
  "discard s i fs = (r, fs') \<Longrightarrow> p \<noteq> path_join (staging_dir s) i \<Longrightarrow> fs_read fs' p = fs_read fs p"
  using discard_snd [of s i fs] sys_remove_read [of p "path_join (staging_dir s) i" fs] by simp

text \<open>
  C37: c0: \<open>write_atomic\<close> is atomic under a failure at any point. It succeeds exactly when the
  target holds the new bytes as a completed write; on an error the target keeps what it had;
  no path but the target and its \<open>.tmp\<close> file changes, and after success the \<open>.tmp\<close> file is gone.
\<close>

theorem write_atomic_all_or_nothing:
  "case write_atomic target bytes fs of (r, fs') \<Rightarrow>
     (case r of
        Ok _ \<Rightarrow> fs_read fs' target = Some bytes \<and> fs_read fs' (with_tmp_extension target) = None
      | Err _ \<Rightarrow> fs_read fs' target = fs_read fs target) \<and>
     (\<forall>p. p = target \<or> p = with_tmp_extension target \<or> fs_read fs' p = fs_read fs p)"
proof -
  obtain r fs' where w: "write_atomic target bytes fs = (r, fs')" by fastforce
  have "\<forall>p. p = target \<or> p = with_tmp_extension target \<or> fs_read fs' p = fs_read fs p"
    using write_atomic_other [OF w] by blast
  moreover have "case r of
      Ok _ \<Rightarrow> fs_read fs' target = Some bytes \<and> fs_read fs' (with_tmp_extension target) = None
    | Err _ \<Rightarrow> fs_read fs' target = fs_read fs target"
    using write_atomic_ok [of target bytes fs _ fs'] write_atomic_err [of target bytes fs _ fs' target] w
    by (cases r) auto
  ultimately show ?thesis by (simp add: w)
qed

text \<open>
  Without faults the writer succeeds, so the first alternative above is reached.
\<close>

lemma write_atomic_succeeds:
  assumes "faults fs = []"
  shows "\<exists>fs'. write_atomic target bytes fs = (Ok (), fs') \<and> faults fs' = []"
  using assms
  by (simp add: write_atomic_def aw_create_def aw_finalize_def aw_write_def io_bind_def Let_def sys_nop_def
      sys_create_def sys_write_def sys_rename_def next_fault_def fs_read_def update_conv)

section \<open>Orphan recovery\<close>

lemma no_fault [simp]: "faults fs = [] \<Longrightarrow> next_fault fs = (None, fs)"
  by (simp add: next_fault_def)

lemma read_entries_all:
  assumes "faults fs = []" "\<forall>n \<in> set ns. fs_read fs (path_join d n) \<noteq> None"
  shows "read_entries d ns fs = (Ok (map (\<lambda>n. (n, the (fs_read fs (path_join d n)))) ns), fs)"
  using assms by (induction ns) (auto simp: io_bind_def sys_nop_def sys_read_def)

lemma dir_entries_iff:
  "n \<in> set (dir_entries d fs) \<longleftrightarrow> CHR ''/'' \<notin> set n \<and> fs_read fs (path_join d n) \<noteq> None"
proof -
  define D where "D = fst ` set (files fs)"
  have "n \<in> set (dir_entries d fs) \<longleftrightarrow> (\<exists>p. p \<in> D \<and> p = (d @ ''/'') @ n \<and> CHR ''/'' \<notin> set n)"
    unfolding dir_entries_def starts_with_def strip_prefix_Some set_map set_filter set_remdups D_def [symmetric]
    by (force simp: strip_prefix_Some)
  also have "\<dots> \<longleftrightarrow> CHR ''/'' \<notin> set n \<and> fs_read fs (path_join d n) \<noteq> None"
    unfolding D_def fs_read_def path_join_def map_of_eq_None_iff by (auto simp: image_iff)
  finally show ?thesis .
qed

lemma recover_orphans_all:
  assumes "faults fs = []"
  shows "\<exists>os. recover_orphans s fs = (Ok os, fs) \<and>
    (\<forall>i b. (i, b) \<in> set os \<longleftrightarrow> CHR ''/'' \<notin> set i \<and> fs_read fs (path_join (staging_dir s) i) = Some b)"
proof -
  let ?ns = "dir_entries (staging_dir s) fs"
  let ?os = "map (\<lambda>n. (n, the (fs_read fs (path_join (staging_dir s) n)))) ?ns"
  have "read_entries (staging_dir s) ?ns fs = (Ok ?os, fs)"
    by (rule read_entries_all) (use assms dir_entries_iff in auto)
  then have "recover_orphans s fs = (Ok ?os, fs)"
    using assms by (simp add: recover_orphans_def sys_nop_def)
  moreover have "(i, b) \<in> set ?os \<longleftrightarrow> CHR ''/'' \<notin> set i \<and> fs_read fs (path_join (staging_dir s) i) = Some b" for i b
    by (auto simp: dir_entries_iff)
  ultimately show ?thesis by blast
qed

lemma stage_succeeds:
  assumes "faults fs = []"
  shows "\<exists>fs'. stage s i b fs = (Ok (path_join (staging_dir s) i), fs') \<and> faults fs' = []"
  using assms by (simp add: stage_def io_bind_def Let_def sys_nop_def sys_create_def sys_write_def)

lemma discard_succeeds:
  assumes "faults fs = []"
  shows "\<exists>fs'. discard s i fs = (Ok (), fs') \<and> faults fs' = [] \<and> fs_read fs' (path_join (staging_dir s) i) = None"
  using assms by (auto simp: discard_def sys_remove_def fs_read_def delete_conv)

text \<open>
  An input staged before its execution survives a crash of the process. When the disk
  works, staging succeeds, and recovery on the resulting directory returns every staged file
  with its bytes, the new one included, and nothing else; after a discard it is not returned.
\<close>

theorem staged_input_recovered:
  assumes "faults fs = []" "CHR ''/'' \<notin> set i"
  shows "\<exists>fs1 os1 fs2 os2.
    stage s i b fs = (Ok (path_join (staging_dir s) i), fs1) \<and>
    recover_orphans s fs1 = (Ok os1, fs1) \<and> (i, b) \<in> set os1 \<and>
    (\<forall>j c. j \<noteq> i \<longrightarrow> (j, c) \<in> set os1 \<longleftrightarrow>
       CHR ''/'' \<notin> set j \<and> fs_read fs (path_join (staging_dir s) j) = Some c) \<and>
    discard s i fs1 = (Ok (), fs2) \<and> recover_orphans s fs2 = (Ok os2, fs2) \<and> i \<notin> fst ` set os2"
proof -
  obtain fs1 where s1: "stage s i b fs = (Ok (path_join (staging_dir s) i), fs1)" "faults fs1 = []"
    using stage_succeeds [OF assms(1)] by blast
  obtain os1 where r1: "recover_orphans s fs1 = (Ok os1, fs1)"
      "\<forall>i b. (i, b) \<in> set os1 \<longleftrightarrow> CHR ''/'' \<notin> set i \<and> fs_read fs1 (path_join (staging_dir s) i) = Some b"
    using recover_orphans_all [OF s1(2)] by blast
  obtain fs2 where d: "discard s i fs1 = (Ok (), fs2)" "faults fs2 = []"
      "fs_read fs2 (path_join (staging_dir s) i) = None"
    using discard_succeeds [OF s1(2)] by blast
  obtain os2 where r2: "recover_orphans s fs2 = (Ok os2, fs2)"
      "\<forall>i b. (i, b) \<in> set os2 \<longleftrightarrow> CHR ''/'' \<notin> set i \<and> fs_read fs2 (path_join (staging_dir s) i) = Some b"
    using recover_orphans_all [OF d(2)] by blast
  have other: "fs_read fs1 (path_join (staging_dir s) j) = fs_read fs (path_join (staging_dir s) j)"
    if "j \<noteq> i" for j
    using stage_other [OF s1(1)] that by (simp add: path_join_def)
  have "(i, b) \<in> set os1" using r1(2) stage_ok(2) [OF s1(1)] assms(2) by simp
  moreover have "i \<notin> fst ` set os2" using r2(2) d(3) by auto
  ultimately show ?thesis using s1 r1 d r2 other by fastforce
qed

theorem staged_input_recovered_witness:
  "\<exists>fs1 os1. stage \<lparr>staging_dir = ''q/.staging''\<rparr> ''a'' [1, 2] \<lparr>files = [], faults = []\<rparr> =
      (Ok (path_join (staging_dir \<lparr>staging_dir = ''q/.staging''\<rparr>) ''a''), fs1) \<and>
    recover_orphans \<lparr>staging_dir = ''q/.staging''\<rparr> fs1 = (Ok os1, fs1) \<and> (''a'', [1, 2]) \<in> set os1"
proof -
  have "faults \<lparr>files = [], faults = []\<rparr> = []" "CHR ''/'' \<notin> set ''a''" by simp_all
  from staged_input_recovered [OF this, of "\<lparr>staging_dir = ''q/.staging''\<rparr>" "[1, 2]"]
  show ?thesis by (elim exE conjE) (intro exI conjI; assumption)
qed

end
