(* ===== verification/Fuzz_Corpus.thy ===== *)
theory Fuzz_Corpus
  imports Coverage_Map File_Store
begin

text \<open>
  The fuzzer's corpus (\<open>src/fuzzer/corpus.rs\<close>): the in-memory queue with its index by content
  id, persisted one file per input through the atomic writer. BLAKE3 is the parameter
  \<open>blake3\<close> (its digest bytes), the wall clock an argument; the file system with its faults is
  that of the file store.

  The invariant says that the index and the queue agree and that every queued input is on
  disk under its id; every operation keeps it whatever the disk does. The locale
  \<open>seed_store\<close> states what the clients (the session and the concolic bridge) rely on.
\<close>

section \<open>Entries\<close>

record QueueMetadata =
  novelty_new_edges :: u32
  novelty_new_buckets :: u32
  qm_exec_us :: u64
  depth :: u32
  coverage_hash :: u64
  bitmap_size :: u32
  favored :: bool
  times_fuzzed :: u64
  created_at_ms :: u128
  reached_functions :: "u64 list"

definition from_novelty :: "u128 \<Rightarrow> Novelty \<Rightarrow> u64 \<Rightarrow> QueueMetadata" where
  "from_novelty now_ms n exec_us =
     \<lparr>novelty_new_edges = new_edges n, novelty_new_buckets = new_buckets n, qm_exec_us = exec_us,
      depth = 0, coverage_hash = 0, bitmap_size = 0, favored = False, times_fuzzed = 0,
      created_at_ms = now_ms, reached_functions = []\<rparr>"

record QueueEntry =
  qe_id :: string
  parent_id :: "string option"
  qe_input :: blob
  metadata :: QueueMetadata

definition hex02 :: "u8 \<Rightarrow> string" where
  "hex02 b = pad0 2 (show_radix 16 (unat b))"

definition input_id :: "(blob \<Rightarrow> blob) \<Rightarrow> blob \<Rightarrow> string" where
  "input_id blake3 bytes = ''blake3-'' @ concat (map hex02 (take 8 (blake3 bytes)))"

section \<open>The corpus\<close>

record FuzzCorpus =
  entries :: "QueueEntry list"
  by_id :: "string \<Rightarrow> nat option"
  queue_dir :: path
  corpus_staging :: InputStaging

definition corpus_open :: "path \<Rightarrow> FS \<Rightarrow> (IoError, FuzzCorpus) result \<times> FS" where
  "corpus_open dir fs =
     io_bind (sys_nop fs) (\<lambda>_ fs.
       io_bind (staging_open dir fs) (\<lambda>st fs.
         (Ok \<lparr>entries = [], by_id = (\<lambda>_. None), queue_dir = dir, corpus_staging = st\<rparr>, fs)))"

definition persist_input :: "FuzzCorpus \<Rightarrow> string \<Rightarrow> blob \<Rightarrow> FS \<Rightarrow> (IoError, unit) result \<times> FS" where
  "persist_input c i bytes fs = write_atomic (path_join (queue_dir c) i) bytes fs"

definition corpus_add :: "QueueEntry \<Rightarrow> FuzzCorpus \<Rightarrow> FS \<Rightarrow> (IoError, nat) result \<times> FuzzCorpus \<times> FS" where
  "corpus_add entry c fs =
     (case by_id c (qe_id entry) of
        Some existing \<Rightarrow> (Ok existing, c, fs)
      | None \<Rightarrow>
          (case persist_input c (qe_id entry) (qe_input entry) fs of
             (Err e, fs) \<Rightarrow> (Err e, c, fs)
           | (Ok _, fs) \<Rightarrow>
               let idx = length (entries c)
               in (Ok idx,
                   c\<lparr>by_id := (by_id c)(qe_id entry \<mapsto> idx), entries := entries c @ [entry]\<rparr>, fs)))"

definition pick_round_robin :: "FuzzCorpus \<Rightarrow> nat \<Rightarrow> QueueEntry option" where
  "pick_round_robin c cursor =
     (if entries c = [] then None else Some (entries c ! (cursor mod length (entries c))))"

text \<open>The index read \<open>entries[idx]\<close> panics outside the queue; the invariant excludes it.\<close>

definition corpus_get :: "FuzzCorpus \<Rightarrow> string \<Rightarrow> QueueEntry option" where
  "corpus_get c i = map_option (\<lambda>idx. entries c ! idx) (by_id c i)"

definition corpus_len :: "FuzzCorpus \<Rightarrow> nat" where
  "corpus_len c = length (entries c)"

definition corpus_is_empty :: "FuzzCorpus \<Rightarrow> bool" where
  "corpus_is_empty c \<longleftrightarrow> entries c = []"

definition stage_for_execution ::
  "FuzzCorpus \<Rightarrow> string \<Rightarrow> blob \<Rightarrow> FS \<Rightarrow> (IoError, path) result \<times> FS" where
  "stage_for_execution c i bytes fs = stage (corpus_staging c) i bytes fs"

section \<open>Invariant\<close>

text \<open>Ids are 23 characters, so neither a \<open>.tmp\<close> file nor a staged file has the path of a queued one.\<close>

definition plain_id :: "string \<Rightarrow> bool" where
  "plain_id i \<longleftrightarrow> length i = 23"

definition index_ok :: "FuzzCorpus \<Rightarrow> bool" where
  "index_ok c \<longleftrightarrow>
     (\<forall>k i. by_id c k = Some i \<longrightarrow> i < length (entries c) \<and> qe_id (entries c ! i) = k) \<and>
     (\<forall>i < length (entries c). by_id c (qe_id (entries c ! i)) = Some i)"

definition on_disk :: "FuzzCorpus \<Rightarrow> FS \<Rightarrow> bool" where
  "on_disk c fs \<longleftrightarrow>
     (\<forall>e \<in> set (entries c). plain_id (qe_id e) \<and>
        fs_read fs (path_join (queue_dir c) (qe_id e)) = Some (qe_input e))"

definition dirs_ok :: "FuzzCorpus \<Rightarrow> bool" where
  "dirs_ok c \<longleftrightarrow> staging_dir (corpus_staging c) = path_join (queue_dir c) STAGING_SUBDIR"

definition corpus_inv :: "FuzzCorpus \<Rightarrow> FS \<Rightarrow> bool" where
  "corpus_inv c fs \<longleftrightarrow> index_ok c \<and> on_disk c fs \<and> dirs_ok c"

lemma hex02_length: "length (hex02 b) = 2"
proof -
  have "length (show_radix 16 n) \<le> 2" if "n < 256" for n
    using that by (subst show_radix.simps) (subst show_radix.simps, auto)
  then have "length (show_radix 16 (unat b)) \<le> 2" using u8_bound [of b] by simp
  then show ?thesis by (simp add: hex02_def pad0_def)
qed

lemma input_id_plain: "length (blake3 bytes) = 32 \<Longrightarrow> plain_id (input_id blake3 bytes)"
  by (simp add: plain_id_def input_id_def length_concat o_def hex02_length sum_list_triv)

lemma plain_paths:
  assumes "plain_id i" "plain_id j"
  shows "path_join d i \<noteq> with_tmp_extension (path_join d j)"
    and "path_join d i \<noteq> path_join (path_join d STAGING_SUBDIR) j"
proof -
  have "length (path_join d i) \<noteq> length (with_tmp_extension (path_join d j))"
    "length (path_join d i) \<noteq> length (path_join (path_join d STAGING_SUBDIR) j)"
    using assms by (simp_all add: plain_id_def path_join_def with_tmp_extension_def STAGING_SUBDIR_def)
  then show "path_join d i \<noteq> with_tmp_extension (path_join d j)"
    "path_join d i \<noteq> path_join (path_join d STAGING_SUBDIR) j"
    by metis+
qed

lemma index_ok_get:
  assumes "index_ok c" "corpus_get c k = Some e"
  shows "qe_id e = k" "e \<in> set (entries c)"
  using assms by (auto simp: index_ok_def corpus_get_def)

lemma index_ok_distinct: "index_ok c \<Longrightarrow> distinct (map qe_id (entries c))"
  unfolding index_ok_def distinct_conv_nth by (metis length_map nth_map option.inject)

lemma index_ok_push:
  assumes "index_ok c" "by_id c (qe_id e) = None"
  shows "index_ok (c\<lparr>by_id := (by_id c)(qe_id e \<mapsto> length (entries c)), entries := entries c @ [e]\<rparr>)"
proof -
  have fresh: "qe_id (entries c ! i) \<noteq> qe_id e" if "i < length (entries c)" for i
    using assms that unfolding index_ok_def by force
  show ?thesis
    using assms fresh unfolding index_ok_def by (auto simp: nth_append less_Suc_eq)
qed

lemma corpus_add_cases:
  assumes "corpus_add e c fs = (r, c', fs')"
  obtains (known) idx where "by_id c (qe_id e) = Some idx" "r = Ok idx" "c' = c" "fs' = fs"
  | (failed) x where "by_id c (qe_id e) = None" "persist_input c (qe_id e) (qe_input e) fs = (Err x, fs')"
      "r = Err x" "c' = c"
  | (pushed) u where "by_id c (qe_id e) = None" "persist_input c (qe_id e) (qe_input e) fs = (Ok u, fs')"
      "r = Ok (length (entries c))"
      "c' = c\<lparr>by_id := (by_id c)(qe_id e \<mapsto> length (entries c)), entries := entries c @ [e]\<rparr>"
  using assms by (auto simp: corpus_add_def Let_def split: option.splits prod.splits sum.splits)

text \<open>Changes outside the queued files keep the invariant.\<close>

lemma corpus_inv_frame:
  assumes "corpus_inv c fs"
    "\<And>i. plain_id i \<Longrightarrow> fs_read fs' (path_join (queue_dir c) i) = fs_read fs (path_join (queue_dir c) i)"
  shows "corpus_inv c fs'"
  using assms by (auto simp: corpus_inv_def on_disk_def)

lemma corpus_add_inv:
  assumes "corpus_inv c fs" "plain_id (qe_id e)" "corpus_add e c fs = (r, c', fs')"
  shows "corpus_inv c' fs'"
  using assms(3)
proof (cases rule: corpus_add_cases)
  case known
  then show ?thesis using assms(1) by simp
next
  case (failed x)
  have "fs_read fs' (path_join (queue_dir c) i) = fs_read fs (path_join (queue_dir c) i)"
    if "plain_id i" for i
    using failed(2) plain_paths(1) [OF that assms(2)] write_atomic_err unfolding persist_input_def by blast
  with assms(1) show ?thesis unfolding failed(4) by (rule corpus_inv_frame)
next
  case (pushed u)
  have ids: "qe_id e' \<noteq> qe_id e" if "e' \<in> set (entries c)" for e'
    using assms(1) pushed(1) that unfolding corpus_inv_def index_ok_def by (metis in_set_conv_nth option.distinct(1))
  have "fs_read fs' (path_join (queue_dir c) (qe_id e')) = Some (qe_input e')" if "e' \<in> set (entries c)" for e'
    using that assms(1,2) ids [OF that] pushed(2) plain_paths(1) [of "qe_id e'" "qe_id e"]
      write_atomic_ok [of "path_join (queue_dir c) (qe_id e)" "qe_input e" fs u fs']
    by (simp add: corpus_inv_def on_disk_def persist_input_def)
  moreover have "fs_read fs' (path_join (queue_dir c) (qe_id e)) = Some (qe_input e)"
    using pushed(2) write_atomic_ok unfolding persist_input_def by fastforce
  ultimately show ?thesis
    using assms(1,2) pushed(4) index_ok_push [of c e] pushed(1)
    by (auto simp: corpus_inv_def on_disk_def dirs_ok_def)
qed

lemma stage_corpus_inv:
  assumes "corpus_inv c fs" "plain_id i" "stage_for_execution c i b fs = (r, fs')"
  shows "corpus_inv c fs'"
proof -
  have "fs_read fs' (path_join (queue_dir c) j) = fs_read fs (path_join (queue_dir c) j)"
    if "plain_id j" for j
    using assms(1,3) plain_paths(2) [OF that assms(2)] stage_other
    unfolding stage_for_execution_def corpus_inv_def dirs_ok_def by metis
  with assms(1) show ?thesis by (rule corpus_inv_frame)
qed

lemma discard_corpus_inv:
  assumes "corpus_inv c fs" "plain_id i" "discard (corpus_staging c) i fs = (r, fs')"
  shows "corpus_inv c fs'"
proof -
  have "fs_read fs' (path_join (queue_dir c) j) = fs_read fs (path_join (queue_dir c) j)"
    if "plain_id j" for j
    using assms(1,3) plain_paths(2) [OF that assms(2)] discard_other
    unfolding corpus_inv_def dirs_ok_def by metis
  with assms(1) show ?thesis by (rule corpus_inv_frame)
qed

lemma corpus_inv_at:
  assumes "corpus_inv c fs" "by_id c k = Some idx"
  shows "idx < corpus_len c" "qe_id (entries c ! idx) = k"
    "fs_read fs (path_join (queue_dir c) k) = Some (qe_input (entries c ! idx))"
proof -
  show i: "idx < corpus_len c" "qe_id (entries c ! idx) = k"
    using assms by (auto simp: corpus_inv_def index_ok_def corpus_len_def)
  then have "entries c ! idx \<in> set (entries c)" by (simp add: corpus_len_def)
  then show "fs_read fs (path_join (queue_dir c) k) = Some (qe_input (entries c ! idx))"
    using assms(1) i(2) by (auto simp: corpus_inv_def on_disk_def)
qed

section \<open>The store as its clients see it\<close>

text \<open>
  Adding keeps the invariant of store and disk, leaves the store alone when it fails, keeps
  every entry already there, and on success makes the key known. From these laws alone, a
  client that adds a list of entries one by one and stops at the first error ends in a good
  state that holds every entry added before the error.
\<close>

locale seed_store =
  fixes add :: "'e \<Rightarrow> 'c \<Rightarrow> FS \<Rightarrow> (IoError, nat) result \<times> 'c \<times> FS"
    and lookup :: "'c \<Rightarrow> string \<Rightarrow> 'e option"
    and key :: "'e \<Rightarrow> string"
    and ok_key :: "string \<Rightarrow> bool"
    and inv :: "'c \<Rightarrow> FS \<Rightarrow> bool"
  assumes add_inv: "inv c fs \<Longrightarrow> ok_key (key e) \<Longrightarrow> add e c fs = (r, c', fs') \<Longrightarrow> inv c' fs'"
    and add_err: "add e c fs = (Err x, c', fs') \<Longrightarrow> c' = c"
    and add_ok: "inv c fs \<Longrightarrow> add e c fs = (Ok k, c', fs') \<Longrightarrow>
      \<exists>e'. lookup c' (key e) = Some e' \<and> key e' = key e"
    and add_keeps: "inv c fs \<Longrightarrow> lookup c i = Some e' \<Longrightarrow> add e c fs = (r, c', fs') \<Longrightarrow>
      lookup c' i = Some e'"
begin

fun add_all :: "'e list \<Rightarrow> 'c \<Rightarrow> FS \<Rightarrow> 'e list \<times> 'c \<times> FS" where
  "add_all [] c fs = ([], c, fs)"
| "add_all (e # es) c fs =
     (case add e c fs of
        (Err x, c, fs) \<Rightarrow> ([], c, fs)
      | (Ok _, c, fs) \<Rightarrow> (case add_all es c fs of (done, c, fs) \<Rightarrow> (e # done, c, fs)))"

lemma add_all_keeps:
  assumes "inv c fs" "\<forall>e \<in> set es. ok_key (key e)" "add_all es c fs = (d, c', fs')" "lookup c i = Some e'"
  shows "lookup c' i = Some e'"
  using assms
proof (induction es arbitrary: c fs d)
  case (Cons e es)
  obtain r c1 fs1 where a: "add e c fs = (r, c1, fs1)" by (cases "add e c fs") auto
  have "inv c1 fs1" "lookup c1 i = Some e'"
    using add_inv [OF Cons.prems(1) _ a] add_keeps [OF Cons.prems(1) _ a] Cons.prems by auto
  then show ?case
    using Cons.IH [of c1 fs1] Cons.prems a by (auto split: sum.splits prod.splits)
qed simp

lemma add_all_sound:
  assumes "inv c fs" "\<forall>e \<in> set es. ok_key (key e)" "add_all es c fs = (d, c', fs')"
  shows "inv c' fs' \<and> (\<forall>e \<in> set d. \<exists>e'. lookup c' (key e) = Some e' \<and> key e' = key e)"
  using assms
proof (induction es arbitrary: c fs d)
  case (Cons e es)
  obtain r c1 fs1 where a: "add e c fs = (r, c1, fs1)" by (cases "add e c fs") auto
  have i1: "inv c1 fs1" using add_inv [OF Cons.prems(1) _ a] Cons.prems(2) by simp
  show ?case
  proof (cases r)
    case (Inl x)
    then show ?thesis using Cons.prems(3) a i1 by simp
  next
    case (Inr k)
    obtain d1 where d1: "add_all es c1 fs1 = (d1, c', fs')" "d = e # d1"
      using Cons.prems(3) a Inr by (auto split: prod.splits)
    obtain e' where "lookup c1 (key e) = Some e'" "key e' = key e"
      using add_ok Cons.prems(1) a Inr by blast
    then show ?thesis
      using Cons.IH [OF i1 _ d1(1)] add_all_keeps [OF i1 _ d1(1)] Cons.prems(2) d1(2) by auto
  qed
qed simp

end

lemma corpus_add_ok:
  assumes "corpus_inv c fs" "corpus_add e c fs = (Ok k, c', fs')"
  shows "\<exists>e'. corpus_get c' (qe_id e) = Some e' \<and> qe_id e' = qe_id e"
  using assms(2)
proof (cases rule: corpus_add_cases)
  case (known idx)
  then show ?thesis using assms(1) by (auto simp: corpus_inv_def index_ok_def corpus_get_def)
qed (auto simp: corpus_get_def)

lemma corpus_add_keeps:
  assumes "corpus_inv c fs" "corpus_get c i = Some e'" "corpus_add e c fs = (r, c', fs')"
  shows "corpus_get c' i = Some e'"
  using assms(3)
proof (cases rule: corpus_add_cases)
  case (pushed u)
  then show ?thesis
    using assms(1,2) by (auto simp: corpus_get_def corpus_inv_def index_ok_def nth_append)
qed (use assms(2) in auto)

interpretation queue: seed_store corpus_add corpus_get qe_id plain_id corpus_inv
proof unfold_locales
  show "corpus_inv c fs \<Longrightarrow> plain_id (qe_id e) \<Longrightarrow> corpus_add e c fs = (r, c', fs') \<Longrightarrow> corpus_inv c' fs'"
    for c fs e r c' fs' by (rule corpus_add_inv)
  show "corpus_add e c fs = (Err x, c', fs') \<Longrightarrow> c' = c" for e c fs x c' fs'
    by (erule corpus_add_cases) simp_all
  show "corpus_inv c fs \<Longrightarrow> corpus_add e c fs = (Ok k, c', fs') \<Longrightarrow>
      \<exists>e'. corpus_get c' (qe_id e) = Some e' \<and> qe_id e' = qe_id e" for c fs e k c' fs'
    by (rule corpus_add_ok)
  show "corpus_inv c fs \<Longrightarrow> corpus_get c i = Some e' \<Longrightarrow> corpus_add e c fs = (r, c', fs') \<Longrightarrow>
      corpus_get c' i = Some e'" for c fs i e' e r c' fs'
    by (rule corpus_add_keeps)
qed

lemma corpus_open_inv:
  assumes "corpus_open dir fs = (Ok c, fs')"
  shows "corpus_inv c fs' \<and> entries c = []"
  using assms
  by (auto simp: corpus_open_def staging_open_def io_bind_Ok corpus_inv_def index_ok_def on_disk_def dirs_ok_def)

section \<open>Properties\<close>

text \<open>
  Adding to the corpus is durable and duplicate-free under any disk failures: the
  invariant (queue and index agree, ids are distinct, every queued input is on disk under
  its id) survives; an error leaves the queue as it was; success makes the id known; and a
  second add of the same id changes neither the queue nor the disk and returns the same index.
\<close>

theorem corpus_add_durable:
  assumes "corpus_inv c fs" "plain_id (qe_id e)" "corpus_add e c fs = (r, c', fs')"
  shows "corpus_inv c' fs' \<and> distinct (map qe_id (entries c')) \<and>
    (case r of
       Err _ \<Rightarrow> c' = c
     | Ok idx \<Rightarrow> idx < corpus_len c' \<and> qe_id (entries c' ! idx) = qe_id e \<and>
         fs_read fs' (path_join (queue_dir c') (qe_id e)) = Some (qe_input (entries c' ! idx)) \<and>
         corpus_add e c' fs' = (Ok idx, c', fs'))"
proof -
  have inv': "corpus_inv c' fs'" using corpus_add_inv [OF assms] .
  have "by_id c' (qe_id e) = Some idx" if "r = Ok idx" for idx
    using assms(3) that by (cases rule: corpus_add_cases) auto
  moreover have "distinct (map qe_id (entries c'))"
    using inv' index_ok_distinct [of c'] by (simp add: corpus_inv_def)
  ultimately show ?thesis
    using inv' corpus_inv_at [OF inv'] queue.add_err [of e c fs _ c' fs'] assms(3)
    by (cases r) (auto simp: corpus_add_def [of e c' fs'])
qed

definition demo_entry :: QueueEntry where
  "demo_entry = \<lparr>qe_id = ''blake3-0011223344556677'', parent_id = None, qe_input = [1, 2],
     metadata = from_novelty 0 novelty_default 5\<rparr>"

definition demo_corpus :: FuzzCorpus where
  "demo_corpus = \<lparr>entries = [], by_id = (\<lambda>_. None), queue_dir = ''q'',
     corpus_staging = \<lparr>staging_dir = ''q/.staging''\<rparr>\<rparr>"

lemma demo_corpus_inv: "corpus_inv demo_corpus fs"
  by (simp add: corpus_inv_def index_ok_def on_disk_def dirs_ok_def demo_corpus_def path_join_def STAGING_SUBDIR_def)

theorem corpus_add_durable_witness:
  "\<exists>r c' fs'. corpus_add demo_entry demo_corpus \<lparr>files = [], faults = [Some (Fault NotFound 0)]\<rparr> = (r, c', fs') \<and>
     corpus_inv c' fs' \<and> distinct (map qe_id (entries c'))"
proof -
  let ?fs = "\<lparr>files = [], faults = [Some (Fault NotFound 0)]\<rparr>"
  obtain r c' fs' where a: "corpus_add demo_entry demo_corpus ?fs = (r, c', fs')"
    by (cases "corpus_add demo_entry demo_corpus ?fs") auto
  have "plain_id (qe_id demo_entry)" by (simp add: plain_id_def demo_entry_def)
  from corpus_add_durable [OF demo_corpus_inv this a] show ?thesis using a by blast
qed

end
