(* ===== verification/Fuzz_Executor.thy ===== *)
theory Fuzz_Executor
  imports Complex_Main Coverage_Map Mutators Native_Emulator
begin

text \<open>
  The executors of the fuzzer (\<open>src/fuzzer/executor.rs\<close>): the emulator-backed one, which drives
  the native emulator on registers derived from the input and folds the visited path into the
  coverage map; the in-process one, around a registered harness; and the hybrid one, which
  runs a primary executor and replays its crashes on another. The trait is the locale
  \<open>fuzz_executor\<close>, interpreted on all three.

  Parameters: the AHash hasher (\<open>ah\<close> for edges, \<open>hs\<close> for a byte string), the user's harness
  (\<open>harness\<close>, \<^const>\<open>None\<close> or the payload of its panic). Elapsed times are a script in the
  executor's state, one item per run. The fidelity ratio, an \<open>f64\<close> comparison of two small
  integers in the source, is the same comparison over the rationals.
\<close>

unbundle bit_operations_syntax

section \<open>Results\<close>

datatype ExitKind = ExitOk | Crash | Timeout | Sanitizer | Panic | EmulatorOOB | EmulatorLowFidelity

definition is_crash_like :: "ExitKind \<Rightarrow> bool" where
  "is_crash_like e \<longleftrightarrow> e \<in> {Crash, Sanitizer, Panic, EmulatorOOB}"

record CrashInfo =
  crash_kind :: string
  signal :: "u32 option"
  fault_pc :: "u64 option"
  top_frames :: "u64 list"
  sanitizer_type :: "string option"

definition crash_info_default :: CrashInfo where
  "crash_info_default =
     \<lparr>crash_kind = [], signal = None, fault_pc = None, top_frames = [], sanitizer_type = None\<rparr>"

record ExecutionResult =
  exit_kind :: ExitKind
  exec_us :: u64
  crash :: "CrashInfo option"
  edges_observed :: u64

text \<open>The next elapsed time of the script.\<close>

definition pop_clock :: "u64 list \<Rightarrow> u64 \<times> u64 list" where
  "pop_clock ts = (case ts of [] \<Rightarrow> (0, []) | t # ts \<Rightarrow> (t, ts))"

section \<open>The emulator executor\<close>

record EmulatorExecutor =
  ee_portable :: PortableInput
  ee_function :: FunctionRecord
  ee_map :: CoverageMap
  ee_budget :: nat
  ee_clock :: "u64 list"

definition executor_new :: "PortableInput \<Rightarrow> FunctionRecord \<Rightarrow> nat \<Rightarrow> u64 list \<Rightarrow> EmulatorExecutor" where
  "executor_new p f b ts =
     \<lparr>ee_portable = p, ee_function = f, ee_map = coverage_map_new, ee_budget = b, ee_clock = ts\<rparr>"

definition emulator_reset :: "EmulatorExecutor \<Rightarrow> EmulatorExecutor" where
  "emulator_reset s = s\<lparr>ee_map := coverage_map_clear (ee_map s)\<rparr>"

text \<open>\<open>BTreeMap::insert\<close> on an association list sorted by key.\<close>

fun string_less :: "string \<Rightarrow> string \<Rightarrow> bool" where
  "string_less [] ys = (ys \<noteq> [])"
| "string_less (x # xs) [] = False"
| "string_less (x # xs) (y # ys) =
     ((of_char x :: nat) < of_char y \<or> (x = y \<and> string_less xs ys))"

fun btree_insert :: "string \<Rightarrow> 'v \<Rightarrow> (string \<times> 'v) list \<Rightarrow> (string \<times> 'v) list" where
  "btree_insert k v [] = [(k, v)]"
| "btree_insert k v ((k', v') # m) =
     (if k = k' then (k, v) # m
      else if string_less k k' then (k, v) # (k', v') # m
      else (k', v') # btree_insert k v m)"

definition input_to_regs :: "(u8 list \<Rightarrow> u64) \<Rightarrow> u8 list \<Rightarrow> (string \<times> u64) list" where
  "input_to_regs hs bytes =
     (let seed = hs bytes;
          regs = fold (\<lambda>name. btree_insert name 0)
            [''rax'', ''rbx'', ''rcx'', ''rdx'', ''rsi'', ''rdi'', ''r8'', ''r9'', ''r10'', ''r11''] [];
          regs = btree_insert ''rsp'' 0x7FFE0000 regs;
          regs = btree_insert ''rbp'' 0x7FFE0000 regs;
          regs = btree_insert ''rcx'' (boundary_value seed 0) regs;
          regs = btree_insert ''rdx'' (boundary_value seed 1) regs;
          regs = btree_insert ''r8'' (boundary_value seed 2) regs
      in btree_insert ''r9'' (boundary_value seed 3) regs)"

text \<open>\<open>visited_path.windows(2)\<close> and the edge counter.\<close>

fun record_windows :: "edge_hasher \<Rightarrow> u64 list \<Rightarrow> CoverageMap \<Rightarrow> u64 \<Rightarrow> u64 \<times> CoverageMap" where
  "record_windows ah (a # b # rest) m count =
     record_windows ah (b # rest) (record_edge ah a b m) (count + 1)"
| "record_windows ah _ m count = (count, m)"

definition record_path_as_edges :: "edge_hasher \<Rightarrow> CoverageMap \<Rightarrow> u64 list \<Rightarrow> u64 \<times> CoverageMap" where
  "record_path_as_edges ah m vpath = record_windows ah vpath m 0"

definition classify_emulator_exit :: "NativeEmulationResult \<Rightarrow> ExitKind" where
  "classify_emulator_exit result =
     (if res_oob_write_sites result \<noteq> [] then EmulatorOOB
      else
        let supported = of_nat (trace_supported_steps (res_trace result)) :: rat;
            unsupp = of_nat (length (trace_unsupported (res_trace result))) :: rat
        in if supported > 0 \<and> unsupp / supported > 1 / 4 then EmulatorLowFidelity
           else if exit_reason (res_trace result) \<in> {''return'', ''function_end''} then ExitOk
           else if exit_reason (res_trace result) = ''budget_cap'' then Timeout
           else ExitOk)"

definition build_crash_info :: "NativeEmulationResult \<Rightarrow> ExitKind \<Rightarrow> CrashInfo option" where
  "build_crash_info result e =
     (if \<not> is_crash_like e \<and> e \<noteq> Timeout \<and> e \<noteq> EmulatorLowFidelity then None
      else Some
        \<lparr>crash_kind =
           (case e of
              EmulatorOOB \<Rightarrow> ''emulator_oob''
            | EmulatorLowFidelity \<Rightarrow> ''low_fidelity''
            | Timeout \<Rightarrow> ''budget_cap''
            | _ \<Rightarrow> exit_reason (res_trace result)),
         signal = None,
         fault_pc = (case res_oob_write_sites result of [] \<Rightarrow> None | a # _ \<Rightarrow> Some a),
         top_frames = take 6 (rev (res_visited_path result)),
         sanitizer_type = None\<rparr>)"

definition emulator_run ::
  "edge_hasher \<Rightarrow> (u8 list \<Rightarrow> u64) \<Rightarrow> EmulatorExecutor \<Rightarrow> u8 list \<Rightarrow> ExecutionResult \<times> EmulatorExecutor" where
  "emulator_run ah hs s input =
     (let s = emulator_reset s;
          (us, ts) = pop_clock (ee_clock s);
          s = s\<lparr>ee_clock := ts\<rparr>
      in case emulate_function (ee_portable s) (ee_function s) (Some (input_to_regs hs input))
                (Some (ee_budget s)) of
           Some emu \<Rightarrow>
             let (n, m) = record_path_as_edges ah (ee_map s) (res_visited_path emu);
                 e = classify_emulator_exit emu
             in (\<lparr>exit_kind = e, exec_us = us, crash = build_crash_info emu e, edges_observed = n\<rparr>,
                 s\<lparr>ee_map := m\<rparr>)
         | None \<Rightarrow>
             (\<lparr>exit_kind = EmulatorLowFidelity, exec_us = us,
               crash = Some (crash_info_default\<lparr>crash_kind := ''emulator_unable_to_start''\<rparr>),
               edges_observed = 0\<rparr>, s))"

section \<open>The in-process executor\<close>

datatype PanicPayload = PanicStr string | PanicString string | PanicOther

fun panic_message :: "PanicPayload \<Rightarrow> string" where
  "panic_message (PanicStr s) = ''panic: '' @ s"
| "panic_message (PanicString s) = ''panic: '' @ s"
| "panic_message PanicOther = ''panic: <non-string payload>''"

record InProcessExecutor =
  ip_name :: string
  ip_map :: CoverageMap
  ip_clock :: "u64 list"

definition inprocess_reset :: "InProcessExecutor \<Rightarrow> InProcessExecutor" where
  "inprocess_reset s = s\<lparr>ip_map := coverage_map_clear (ip_map s)\<rparr>"

definition inprocess_run ::
  "(u8 list \<Rightarrow> PanicPayload option) \<Rightarrow> InProcessExecutor \<Rightarrow> u8 list \<Rightarrow> ExecutionResult \<times> InProcessExecutor" where
  "inprocess_run harness s input =
     (let s = inprocess_reset s;
          (us, ts) = pop_clock (ip_clock s);
          s = s\<lparr>ip_clock := ts\<rparr>
      in case harness input of
           None \<Rightarrow> (\<lparr>exit_kind = ExitOk, exec_us = us, crash = None, edges_observed = 0\<rparr>, s)
         | Some payload \<Rightarrow>
             (\<lparr>exit_kind = Panic, exec_us = us,
               crash = Some \<lparr>crash_kind = panic_message payload, signal = None, fault_pc = None,
                             top_frames = [], sanitizer_type = None\<rparr>,
               edges_observed = 0\<rparr>, s))"

section \<open>The hybrid executor\<close>

record ('p, 'r) HybridExecutor =
  primary :: 'p
  replay :: 'r
  primary_crashes :: u64
  replay_replays :: u64

definition hybrid_new :: "'p \<Rightarrow> 'r \<Rightarrow> ('p, 'r) HybridExecutor" where
  "hybrid_new p r = \<lparr>primary = p, replay = r, primary_crashes = 0, replay_replays = 0\<rparr>"

definition hybrid_run ::
  "('p \<Rightarrow> u8 list \<Rightarrow> ExecutionResult \<times> 'p) \<Rightarrow> ('r \<Rightarrow> u8 list \<Rightarrow> ExecutionResult \<times> 'r) \<Rightarrow>
   ('p, 'r) HybridExecutor \<Rightarrow> u8 list \<Rightarrow> ExecutionResult \<times> ('p, 'r) HybridExecutor" where
  "hybrid_run prun rrun h input =
     (let (pr, p) = prun (primary h) input;
          h = h\<lparr>primary := p\<rparr>
      in if \<not> is_crash_like (exit_kind pr) then (pr, h)
         else
           let h = h\<lparr>primary_crashes := primary_crashes h + 1\<rparr>;
               (rr, r) = rrun (replay h) input;
               h = h\<lparr>replay := r, replay_replays := replay_replays h + 1\<rparr>
           in if is_crash_like (exit_kind rr)
              then (\<lparr>exit_kind = exit_kind rr, exec_us = exec_us pr + exec_us rr, crash = crash rr,
                     edges_observed = edges_observed pr\<rparr>, h)
              else
                let c = (case crash pr of Some c \<Rightarrow> c | None \<Rightarrow> crash_info_default);
                    c = c\<lparr>crash_kind := ''primary_only('' @ crash_kind c @ '')''\<rparr>
                in (\<lparr>exit_kind = exit_kind pr, exec_us = exec_us pr + exec_us rr, crash = Some c,
                     edges_observed = edges_observed pr\<rparr>, h))"

definition hybrid_reset ::
  "('p \<Rightarrow> 'p) \<Rightarrow> ('r \<Rightarrow> 'r) \<Rightarrow> ('p, 'r) HybridExecutor \<Rightarrow> ('p, 'r) HybridExecutor" where
  "hybrid_reset preset rreset h = h\<lparr>primary := preset (primary h), replay := rreset (replay h)\<rparr>"

definition hybrid_map :: "('p \<Rightarrow> CoverageMap) \<Rightarrow> ('p, 'r) HybridExecutor \<Rightarrow> CoverageMap" where
  "hybrid_map pmap h = pmap (primary h)"

section \<open>The executor contract\<close>

text \<open>
  What the fuzz loop relies on: the map has its size after any run, the run's crash-like and
  timeout exits carry crash details, a reset leaves the empty map, and a run does not depend
  on the map of the run before.
\<close>

locale fuzz_executor =
  fixes run :: "'s \<Rightarrow> u8 list \<Rightarrow> ExecutionResult \<times> 's"
    and emap :: "'s \<Rightarrow> CoverageMap"
    and reset :: "'s \<Rightarrow> 's"
    and ok :: "'s \<Rightarrow> bool"
  assumes run_ok: "ok s \<Longrightarrow> ok (snd (run s input))"
    and reset_ok: "ok s \<Longrightarrow> ok (reset s)"
    and map_ok: "ok s \<Longrightarrow> wf_map (emap s)"
    and reset_map: "ok s \<Longrightarrow> emap (reset s) = coverage_map_new"
    and run_fresh: "ok s \<Longrightarrow> emap (snd (run (reset s) input)) = emap (snd (run s input)) \<and>
      fst (run (reset s) input) = fst (run s input)"
    and crash_details: "is_crash_like (exit_kind (fst (run s input))) \<or> exit_kind (fst (run s input)) = Timeout \<Longrightarrow>
      crash (fst (run s input)) \<noteq> None"
begin

fun run_seq :: "'s \<Rightarrow> u8 list list \<Rightarrow> ExecutionResult list \<times> 's" where
  "run_seq s [] = ([], s)"
| "run_seq s (i # is) = (case run s i of (r, s) \<Rightarrow> (case run_seq s is of (rs, s) \<Rightarrow> (r # rs, s)))"

lemma run_seq_ok: "ok s \<Longrightarrow> ok (snd (run_seq s is)) \<and> wf_map (emap (snd (run_seq s is)))"
proof (induction "is" arbitrary: s)
  case (Cons i "is")
  obtain r s1 where r: "run s i = (r, s1)" by fastforce
  then have "ok s1" using run_ok [OF Cons.prems, of i] by simp
  with r show ?case using Cons.IH [of s1] by (auto split: prod.splits)
qed (simp add: map_ok)

lemma run_seq_crash_details:
  "r \<in> set (fst (run_seq s is)) \<Longrightarrow> is_crash_like (exit_kind r) \<or> exit_kind r = Timeout \<Longrightarrow> crash r \<noteq> None"
proof (induction "is" arbitrary: s)
  case (Cons i "is")
  then show ?case using crash_details [of s i] by (auto split: prod.splits) (metis fst_conv snd_conv)+
qed simp

end

lemma record_windows_wf: "wf_map m \<Longrightarrow> wf_map (snd (record_windows ah path m n))"
  by (induction ah path m n rule: record_windows.induct) auto

lemma emulator_reset_idem:
  assumes "wf_map (ee_map s)"
  shows "emulator_reset (emulator_reset s) = emulator_reset s"
  using assms by (simp add: emulator_reset_def clear_new)

lemma emulator_run_wf:
  assumes "wf_map (ee_map s)"
  shows "wf_map (ee_map (snd (emulator_run ah hs s input)))"
  using assms record_windows_wf [of "coverage_map_clear (ee_map s)"]
  by (auto simp: emulator_run_def emulator_reset_def record_path_as_edges_def Let_def
      split: option.splits prod.splits) (metis snd_conv wf_clear)

interpretation emulator: fuzz_executor "emulator_run ah hs" ee_map emulator_reset "\<lambda>s. wf_map (ee_map s)"
  for ah hs
proof unfold_locales
  fix s input
  show "wf_map (ee_map s) \<Longrightarrow> wf_map (ee_map (snd (emulator_run ah hs s input)))"
    by (rule emulator_run_wf)
  show "wf_map (ee_map s) \<Longrightarrow> wf_map (ee_map (emulator_reset s))"
    by (simp add: emulator_reset_def)
  show "wf_map (ee_map s) \<Longrightarrow> ee_map (emulator_reset s) = coverage_map_new"
    by (simp add: emulator_reset_def clear_new)
  show "wf_map (ee_map s) \<Longrightarrow>
      ee_map (snd (emulator_run ah hs (emulator_reset s) input)) = ee_map (snd (emulator_run ah hs s input)) \<and>
      fst (emulator_run ah hs (emulator_reset s) input) = fst (emulator_run ah hs s input)"
    by (simp add: emulator_run_def emulator_reset_idem)
  show "is_crash_like (exit_kind (fst (emulator_run ah hs s input))) \<or>
      exit_kind (fst (emulator_run ah hs s input)) = Timeout \<Longrightarrow>
      crash (fst (emulator_run ah hs s input)) \<noteq> None"
    by (auto simp: emulator_run_def Let_def is_crash_like_def build_crash_info_def split: option.splits prod.splits)
qed simp

interpretation inprocess: fuzz_executor "inprocess_run harness" ip_map inprocess_reset "\<lambda>s. wf_map (ip_map s)"
  for harness
  by unfold_locales
    (auto simp: inprocess_run_def inprocess_reset_def clear_new is_crash_like_def Let_def
      split: option.splits prod.splits)

text \<open>Two executors that satisfy the contract give a hybrid that does.\<close>

locale hybrid_pair =
  p: fuzz_executor prun pmap preset pok + r: fuzz_executor rrun rmap rreset rok
  for prun :: "'p \<Rightarrow> u8 list \<Rightarrow> ExecutionResult \<times> 'p" and pmap preset pok
    and rrun :: "'r \<Rightarrow> u8 list \<Rightarrow> ExecutionResult \<times> 'r" and rmap rreset rok
begin

definition hok :: "('p, 'r) HybridExecutor \<Rightarrow> bool" where
  "hok h \<longleftrightarrow> pok (primary h) \<and> rok (replay h)"

lemma hybrid_ok: "hok h \<Longrightarrow> hok (snd (hybrid_run prun rrun h input))"
  using p.run_ok [of "primary h" input] r.run_ok [of "replay h" input]
  by (auto simp: hybrid_run_def hok_def Let_def split: prod.splits)

lemma hybrid_result:
  "is_crash_like (exit_kind (fst (hybrid_run prun rrun h input))) \<longleftrightarrow>
     is_crash_like (exit_kind (fst (prun (primary h) input)))"
  "is_crash_like (exit_kind (fst (hybrid_run prun rrun h input))) \<or>
     exit_kind (fst (hybrid_run prun rrun h input)) = Timeout \<Longrightarrow>
     crash (fst (hybrid_run prun rrun h input)) \<noteq> None"
  "hybrid_map pmap (snd (hybrid_run prun rrun h input)) = pmap (snd (prun (primary h) input))"
  using p.crash_details [of "primary h" input] r.crash_details [of "replay h" input]
  by (auto simp: hybrid_run_def hybrid_map_def Let_def split: prod.splits)

lemma hybrid_fresh:
  assumes "hok h"
  shows "hybrid_map pmap (snd (hybrid_run prun rrun (hybrid_reset preset rreset h) input)) =
      hybrid_map pmap (snd (hybrid_run prun rrun h input))"
    and "fst (hybrid_run prun rrun (hybrid_reset preset rreset h) input) = fst (hybrid_run prun rrun h input)"
  using assms p.run_fresh [of "primary h" input] r.run_fresh [of "replay h" input]
  by (auto simp: hybrid_run_def hybrid_map_def hybrid_reset_def hok_def Let_def split: prod.splits)

end

sublocale hybrid_pair \<subseteq> hybrid: fuzz_executor "hybrid_run prun rrun" "hybrid_map pmap"
    "hybrid_reset preset rreset" hok
proof unfold_locales
  fix h input
  show "hok h \<Longrightarrow> hok (snd (hybrid_run prun rrun h input))" by (rule hybrid_ok)
  show "hok h \<Longrightarrow> hok (hybrid_reset preset rreset h)"
    by (simp add: hok_def hybrid_reset_def p.reset_ok r.reset_ok)
  show "hok h \<Longrightarrow> wf_map (hybrid_map pmap h)"
    by (simp add: hok_def hybrid_map_def p.map_ok)
  show "hok h \<Longrightarrow> hybrid_map pmap (hybrid_reset preset rreset h) = coverage_map_new"
    by (simp add: hok_def hybrid_map_def hybrid_reset_def p.reset_map)
qed (use hybrid_fresh hybrid_result(2) in blast)+

interpretation combined: hybrid_pair "inprocess_run harness" ip_map inprocess_reset "\<lambda>s. wf_map (ip_map s)"
    "emulator_run ah hs" ee_map emulator_reset "\<lambda>s. wf_map (ee_map s)"
  for harness ah hs
  by unfold_locales

section \<open>Properties\<close>

text \<open>The edges of a path, and how often a slot is hit by them.\<close>

fun path_edges :: "u64 list \<Rightarrow> (u64 \<times> u64) list" where
  "path_edges (a # b # rest) = (a, b) # path_edges (b # rest)"
| "path_edges _ = []"

definition slot_hits :: "edge_hasher \<Rightarrow> u64 list \<Rightarrow> nat \<Rightarrow> nat" where
  "slot_hits ah path i = length (filter (\<lambda>(a, b). edge_hash ah a b = i) (path_edges path))"

lemma length_path_edges: "length (path_edges path) = length path - 1"
  by (induction path rule: path_edges.induct) auto

lemma record_windows_count:
  "fst (record_windows ah path m n) = n + word_of_nat (length path - 1)"
  by (induction ah path m n rule: record_windows.induct) (auto simp: algebra_simps)

lemma u8_min: "min 255 (unat (b :: u8)) = unat b"
  using u8_bound [of b] by simp

lemma record_windows_slots:
  assumes "wf_map m" "i < MAP_SIZE"
  shows "unat (inner (snd (record_windows ah path m n)) ! i) = min 255 (unat (inner m ! i) + slot_hits ah path i)"
  using assms
proof (induction ah path m n rule: record_windows.induct)
  case (1 ah a b rest m n)
  have "unat (inner (snd (record_windows ah (a # b # rest) m n)) ! i) =
      min 255 (unat (inner (record_edge ah a b m) ! i) + slot_hits ah (b # rest) i)"
    using 1 by simp
  also have "\<dots> = min 255 (unat (inner m ! i) + slot_hits ah (a # b # rest) i)"
    using 1(2,3) by (auto simp: nth_record saturating_incr_unat slot_hits_def)
  finally show ?case .
qed (simp_all add: slot_hits_def u8_min)

text \<open>
  The coverage of an emulated run is the run's own path. Whatever map the executor
  carried from the run before, afterwards every slot holds the number of steps of this run's
  path that hash to it, capped at 255, and the reported edge count is the number of steps.
\<close>

theorem emulator_coverage_exact:
  assumes "wf_map (ee_map s)" "i < MAP_SIZE"
    "emulate_function (ee_portable s) (ee_function s) (Some (input_to_regs hs input)) (Some (ee_budget s)) = Some emu"
    "emulator_run ah hs s input = (r, s')"
  shows "unat (inner (ee_map s') ! i) = min 255 (slot_hits ah (res_visited_path emu) i) \<and>
    edges_observed r = word_of_nat (length (res_visited_path emu) - 1)"
proof -
  have new: "emulator_reset s = s\<lparr>ee_map := coverage_map_new\<rparr>"
    using assms(1) by (simp add: emulator_reset_def clear_new)
  obtain n m where w: "record_windows ah (res_visited_path emu) coverage_map_new 0 = (n, m)" by fastforce
  have "ee_map s' = m" "edges_observed r = n"
    using assms(3,4) w by (auto simp: emulator_run_def new record_path_as_edges_def Let_def split: prod.splits)
  then show ?thesis
    using record_windows_slots [of coverage_map_new i ah "res_visited_path emu" 0]
      record_windows_count [of ah "res_visited_path emu" coverage_map_new 0] assms(2) w
    by (simp add: nth_new)
qed

definition demo_function :: FunctionRecord where
  "demo_function = \<lparr>fn_start = 16, fn_end = 32, fn_size = 16, fn_source = [], calls = [], calls_imports = [],
     fn_strings = [], xrefs = 0\<rparr>"

definition demo_input :: PortableInput where
  "demo_input = \<lparr>emulation_budget = ''max'', function_list = [demo_function],
     instructions = [plain_ir 16 ''inc'' ''eax'', plain_ir 20 ''ret'' []], import_rows = []\<rparr>"

lemma demo_emulates:
  "emulate_function demo_input demo_function (Some (input_to_regs (\<lambda>_. 7) [1])) (Some 5) \<noteq> None"
  by code_simp

theorem emulator_coverage_exact_witness:
  "\<exists>emu r s'. emulate_function demo_input demo_function (Some (input_to_regs (\<lambda>_. 7) [1])) (Some 5) = Some emu \<and>
     emulator_run (\<lambda>a b. a XOR b) (\<lambda>_. 7) (executor_new demo_input demo_function 5 []) [1] = (r, s') \<and>
     unat (inner (ee_map s') ! 4) = min 255 (slot_hits (\<lambda>a b. a XOR b) (res_visited_path emu) 4)"
proof -
  let ?s = "executor_new demo_input demo_function 5 []"
  obtain emu where e: "emulate_function (ee_portable ?s) (ee_function ?s) (Some (input_to_regs (\<lambda>_. 7) [1]))
      (Some (ee_budget ?s)) = Some emu"
    using demo_emulates by (auto simp: executor_new_def)
  obtain r s' where r: "emulator_run (\<lambda>a b. a XOR b) (\<lambda>_. 7) ?s [1] = (r, s')" by fastforce
  have "wf_map (ee_map ?s)" "4 < MAP_SIZE" by (simp_all add: executor_new_def MAP_SIZE_def)
  from emulator_coverage_exact [OF this e r] e r show ?thesis
    unfolding executor_new_def by auto
qed

text \<open>
  The hybrid executor keeps the primary's coverage and never invents or hides a crash. With
  the in-process executor as primary and the emulator as replay, the combined exit is
  crash-like exactly when the harness panicked, it then carries crash details (those of the
  replay when the replay crashes, else the primary's marked \<open>primary_only\<close>), and the map is
  the primary's.
\<close>

theorem hybrid_faithful:
  "case hybrid_run (inprocess_run harness) (emulator_run ah hs) h input of (r, h') \<Rightarrow>
     (is_crash_like (exit_kind r) \<longleftrightarrow> harness input \<noteq> None) \<and>
     (harness input \<noteq> None \<longleftrightarrow> crash r \<noteq> None) \<and>
     primary_crashes h' = primary_crashes h + (if harness input = None then 0 else 1) \<and>
     hybrid_map ip_map h' = ip_map (snd (inprocess_run harness (primary h) input))"
  using emulator.crash_details [of ah hs "replay h" input]
  by (auto simp: hybrid_run_def hybrid_map_def inprocess_run_def is_crash_like_def Let_def
      split: prod.splits option.splits)

end
