(* ===== verification/Model_Validator.thy ===== *)
theory Model_Validator
  imports Fuzz_Executor
begin

text \<open>
  The model validator of the concolic engine (\<open>src/concolic/validator.rs\<close>): a satisfying model
  is re-executed, and what the run did is read off its coverage map. The executor is passed as
  the functions of its trait.

  The lemmas show what a status promises: a confirmed model did not crash, hit the requested
  edge's slot and would change the shared map; for the emulator executor an edge the run took
  is always seen; and the probe for "the branch was reached" looks at six fixed predecessors,
  so a run through the branch from anywhere else is reported unreachable.
\<close>

unbundle bit_operations_syntax

datatype ValidationStatus = Valid | ModelMismatch | UnreachableInRealRun | NewCoverageConfirmed | NewCrash

record ValidationOutcome =
  reexecuted :: bool
  reached_target_pc :: bool
  branch_flipped :: bool
  new_coverage :: Novelty
  crashed :: bool
  vo_crash_info :: "CrashInfo option"
  status :: ValidationStatus
  vo_exec_us :: u64
  vo_edges_observed :: u64
  vo_exit :: ExitKind

definition edge_index :: "edge_hasher \<Rightarrow> u64 \<Rightarrow> u64 \<Rightarrow> nat" where
  "edge_index ah from to = unat (ah from to AND (word_of_nat MAP_SIZE - 1))"

definition probe_offsets :: "u64 list" where
  "probe_offsets = [0, 1, 2, 4, 8, 16]"

definition edge_was_touched_at :: "edge_hasher \<Rightarrow> CoverageMap \<Rightarrow> u64 \<Rightarrow> bool" where
  "edge_was_touched_at ah m target_pc \<longleftrightarrow>
     list_ex (\<lambda>d. inner m ! edge_index ah (target_pc - d) target_pc > 0) probe_offsets"

definition edge_was_touched_from_to :: "edge_hasher \<Rightarrow> CoverageMap \<Rightarrow> u64 \<Rightarrow> u64 \<Rightarrow> bool" where
  "edge_was_touched_from_to ah m from to \<longleftrightarrow> inner m ! edge_index ah from to > 0"

definition derive_status :: "bool \<Rightarrow> bool \<Rightarrow> bool \<Rightarrow> Novelty \<Rightarrow> ValidationStatus" where
  "derive_status cr reached flipped novelty =
     (if cr then NewCrash
      else if flipped \<and> is_interesting novelty then NewCoverageConfirmed
      else if flipped then Valid
      else if reached then ModelMismatch
      else UnreachableInRealRun)"

definition validate_model ::
  "('s \<Rightarrow> u8 list \<Rightarrow> ExecutionResult \<times> 's) \<Rightarrow> ('s \<Rightarrow> CoverageMap) \<Rightarrow> edge_hasher \<Rightarrow> 's \<Rightarrow>
   u8 list \<Rightarrow> u64 \<Rightarrow> u64 option \<Rightarrow> CoverageMap \<Rightarrow> ValidationOutcome \<times> 's" where
  "validate_model run emap ah executor model_bytes target_pc expected_next_pc global_snapshot =
     (if model_bytes = [] then
        (\<lparr>reexecuted = False, reached_target_pc = False, branch_flipped = False,
          new_coverage = novelty_default, crashed = False, vo_crash_info = None, status = ModelMismatch,
          vo_exec_us = 0, vo_edges_observed = 0, vo_exit = ExitOk\<rparr>, executor)
      else
        let (res, executor) = run executor model_bytes;
            e = exit_kind res;
            cr = is_crash_like e;
            local_map = emap executor;
            nov = classify_against_snapshot local_map global_snapshot;
            reached = edge_was_touched_at ah local_map target_pc;
            flipped = (case expected_next_pc of
                         Some next_pc \<Rightarrow> edge_was_touched_from_to ah local_map target_pc next_pc
                       | None \<Rightarrow> False)
        in (\<lparr>reexecuted = True, reached_target_pc = reached, branch_flipped = flipped, new_coverage = nov,
             crashed = cr, vo_crash_info = crash res, status = derive_status cr reached flipped nov,
             vo_exec_us = exec_us res, vo_edges_observed = edges_observed res, vo_exit = e\<rparr>, executor))"

section \<open>Lemmas\<close>

text \<open>The mirrored hash is the one the executors record with.\<close>

lemma edge_index_eq: "edge_index ah from to = edge_hash ah from to"
  by (simp add: edge_index_def edge_hash_def MAP_MASK_def MAP_SIZE_def)

lemma path_edges_hit:
  assumes "(a, b) \<in> set (path_edges path)"
  shows "slot_hits ah path (edge_hash ah a b) > 0"
proof -
  have "(a, b) \<in> set (filter (\<lambda>(x, y). edge_hash ah x y = edge_hash ah a b) (path_edges path))"
    using assms by simp
  then show ?thesis unfolding slot_hits_def by (metis length_pos_if_in_set)
qed

lemma recorded_slot_pos:
  assumes "wf_map m" "i < MAP_SIZE"
  shows "inner (snd (record_path_as_edges ah m path)) ! i > 0 \<longleftrightarrow> inner m ! i > 0 \<or> slot_hits ah path i > 0"
proof -
  have "inner (snd (record_path_as_edges ah m path)) ! i > 0 \<longleftrightarrow>
      unat (inner (snd (record_path_as_edges ah m path)) ! i) > 0"
    by (simp add: word_greater_zero_iff unat_gt_0)
  also have "\<dots> \<longleftrightarrow> unat (inner m ! i) > 0 \<or> slot_hits ah path i > 0"
    unfolding record_path_as_edges_def record_windows_slots [OF assms] by auto
  finally show ?thesis by (simp add: word_greater_zero_iff unat_gt_0)
qed

lemma touched_from_to_complete:
  assumes "wf_map m" "(a, b) \<in> set (path_edges path)"
  shows "edge_was_touched_from_to ah (snd (record_path_as_edges ah m path)) a b"
  using recorded_slot_pos [OF assms(1) edge_hash_bound, of ah path ah a b] path_edges_hit [OF assms(2), of ah]
  by (simp add: edge_was_touched_from_to_def edge_index_eq)

lemma touched_at_iff:
  assumes "wf_map m"
  shows "edge_was_touched_at ah m tpc \<longleftrightarrow>
    (\<exists>d \<in> set probe_offsets. inner m ! edge_hash ah (tpc - d) tpc > 0)"
  by (simp add: edge_was_touched_at_def edge_index_eq list_ex_iff)

lemma validate_nonempty:
  assumes "model \<noteq> []" "run s model = (res, s')"
    "validate_model run emap ah s model tpc nxt g = (v, s'')"
  shows "s'' = s'"
    and "status v = derive_status (is_crash_like (exit_kind res)) (edge_was_touched_at ah (emap s') tpc)
      (case nxt of Some n \<Rightarrow> edge_was_touched_from_to ah (emap s') tpc n | None \<Rightarrow> False)
      (classify_against_snapshot (emap s') g)"
    and "reexecuted v" "new_coverage v = classify_against_snapshot (emap s') g"
    and "vo_crash_info v = crash res"
  using assms by (auto simp: validate_model_def Let_def)

lemma derive_confirmed:
  "derive_status c r f n = NewCoverageConfirmed \<longleftrightarrow> \<not> c \<and> f \<and> is_interesting n"
  by (simp add: derive_status_def)

context fuzz_executor
begin

lemma validate_confirmed:
  assumes "ok s" "wf_map g" "model \<noteq> []" "validate_model run emap ah s model tpc nxt g = (v, s')"
    "status v = NewCoverageConfirmed"
  shows "\<exists>n. nxt = Some n \<and> inner (emap s') ! edge_hash ah tpc n > 0 \<and>
    \<not> is_crash_like (exit_kind (fst (run s model))) \<and> merge_into_global (emap s') g \<noteq> g \<and> wf_map (emap s')"
proof -
  obtain res s1 where r: "run s model = (res, s1)" by fastforce
  have "ok s1" using run_ok [OF assms(1), of model] r by simp
  then have w: "wf_map (emap s1)" by (rule map_ok)
  note v = validate_nonempty [OF assms(3) r assms(4)]
  have "\<not> is_crash_like (exit_kind res)" "is_interesting (classify_against_snapshot (emap s1) g)"
    "case nxt of Some n \<Rightarrow> edge_was_touched_from_to ah (emap s1) tpc n | None \<Rightarrow> False"
    using assms(5) v(2) derive_confirmed by metis+
  then show ?thesis
    using v(1) r w interesting_iff_changes [OF w assms(2)]
    by (auto simp: edge_was_touched_from_to_def edge_index_eq split: option.splits)
qed

lemma validate_crash:
  assumes "model \<noteq> []" "validate_model run emap ah s model tpc nxt g = (v, s')"
  shows "status v = NewCrash \<longleftrightarrow> is_crash_like (exit_kind (fst (run s model)))"
    and "status v = NewCrash \<Longrightarrow> vo_crash_info v \<noteq> None"
proof -
  obtain res s1 where r: "run s model = (res, s1)" by fastforce
  note v = validate_nonempty [OF assms(1) r assms(2)]
  show iff: "status v = NewCrash \<longleftrightarrow> is_crash_like (exit_kind (fst (run s model)))"
    using v(2) r by (auto simp: derive_status_def)
  then show "status v = NewCrash \<Longrightarrow> vo_crash_info v \<noteq> None"
    using crash_details [of s model] v(5) r by simp
qed

end

section \<open>Properties\<close>

text \<open>
  A model the validator confirms on the emulator is worth promoting: the run did not crash,
  it hit the slot of the requested edge out of the branch, and merging its map would change the
  snapshot; and the status is \<open>NewCrash\<close> exactly when the run's exit is crash-like, with crash
  details present.
\<close>

theorem validation_sound:
  assumes "wf_map (ee_map s)" "wf_map g" "model \<noteq> []"
    "validate_model (emulator_run ah hs) ee_map ah s model tpc nxt g = (v, s')"
  shows "(status v = NewCoverageConfirmed \<longrightarrow>
      (\<exists>n. nxt = Some n \<and> inner (ee_map s') ! edge_hash ah tpc n > 0) \<and>
      \<not> is_crash_like (exit_kind (fst (emulator_run ah hs s model))) \<and> merge_into_global (ee_map s') g \<noteq> g) \<and>
    (status v = NewCrash \<longleftrightarrow> is_crash_like (exit_kind (fst (emulator_run ah hs s model)))) \<and>
    (status v = NewCrash \<longrightarrow> vo_crash_info v \<noteq> None)"
  using emulator.validate_confirmed [OF assms] emulator.validate_crash [OF assms(3,4)] by blast

theorem validation_sound_witness:
  "\<exists>v s'. validate_model (emulator_run (\<lambda>a b. a XOR b) (\<lambda>_. 7)) ee_map (\<lambda>a b. a XOR b)
       (executor_new demo_input demo_function 5 []) [1] 16 (Some 20) coverage_map_new = (v, s') \<and>
     (status v = NewCrash) =
       is_crash_like (exit_kind (fst (emulator_run (\<lambda>a b. a XOR b) (\<lambda>_. 7) (executor_new demo_input demo_function 5 []) [1])))"
proof -
  let ?s = "executor_new demo_input demo_function 5 []"
  obtain v s' where v: "validate_model (emulator_run (\<lambda>a b. a XOR b) (\<lambda>_. 7)) ee_map (\<lambda>a b. a XOR b)
      ?s [1] 16 (Some 20) coverage_map_new = (v, s')" by fastforce
  have "wf_map (ee_map ?s)" by (simp add: executor_new_def)
  from validation_sound [OF this wf_new _ v] v show ?thesis by simp
qed

text \<open>
  A taken edge is never missed. When the emulated path steps from the branch to the
  expected successor, the validator reports the branch as flipped, so a run that did not crash
  is \<open>Valid\<close> or confirmed, never a mismatch.
\<close>

theorem taken_edge_is_seen:
  assumes "wf_map (ee_map s)" "model \<noteq> []"
    "emulate_function (ee_portable s) (ee_function s) (Some (input_to_regs hs model)) (Some (ee_budget s)) = Some emu"
    "(tpc, n) \<in> set (path_edges (res_visited_path emu))"
    "validate_model (emulator_run ah hs) ee_map ah s model tpc (Some n) g = (v, s')"
  shows "branch_flipped v \<and> status v \<in> {NewCrash, NewCoverageConfirmed, Valid}"
proof -
  obtain res s1 where r: "emulator_run ah hs s model = (res, s1)" by fastforce
  have "emulator_reset s = s\<lparr>ee_map := coverage_map_new\<rparr>"
    using assms(1) by (simp add: emulator_reset_def clear_new)
  then have "ee_map s1 = snd (record_path_as_edges ah coverage_map_new (res_visited_path emu))"
    using assms(3) r by (auto simp: emulator_run_def Let_def split: prod.splits)
  then have t: "edge_was_touched_from_to ah (ee_map s1) tpc n"
    using touched_from_to_complete [OF wf_new assms(4)] by simp
  have "branch_flipped v" using assms(2,5) r t by (auto simp: validate_model_def Let_def)
  then show ?thesis
    using validate_nonempty(2) [OF assms(2) r assms(5)] t by (auto simp: derive_status_def)
qed

lemma demo_path_edge:
  "case emulate_function demo_input demo_function (Some (input_to_regs (\<lambda>_. 7) [1])) (Some 5) of
     Some emu \<Rightarrow> (16, 20) \<in> set (path_edges (res_visited_path emu)) | None \<Rightarrow> False"
  by code_simp

theorem taken_edge_is_seen_witness:
  "\<exists>v s'. validate_model (emulator_run (\<lambda>a b. a XOR b) (\<lambda>_. 7)) ee_map (\<lambda>a b. a XOR b)
       (executor_new demo_input demo_function 5 []) [1] 16 (Some 20) coverage_map_new = (v, s') \<and> branch_flipped v"
proof -
  let ?s = "executor_new demo_input demo_function 5 []"
  obtain v s' where v: "validate_model (emulator_run (\<lambda>a b. a XOR b) (\<lambda>_. 7)) ee_map (\<lambda>a b. a XOR b)
      ?s [1] 16 (Some 20) coverage_map_new = (v, s')" by fastforce
  obtain emu where e: "emulate_function (ee_portable ?s) (ee_function ?s) (Some (input_to_regs (\<lambda>_. 7) [1]))
      (Some (ee_budget ?s)) = Some emu" "(16, 20) \<in> set (path_edges (res_visited_path emu))"
    using demo_path_edge by (auto simp: executor_new_def split: option.splits)
  have "wf_map (ee_map ?s)" by (simp add: executor_new_def)
  from taken_edge_is_seen [OF this _ e v] v show ?thesis by simp
qed

text \<open>
  The reachability probe has false negatives. There is a run whose path passes through the
  target, and a hash under which none of the six probed predecessors shows it, so a model
  that reached the branch and took the wrong side is reported \<open>UnreachableInRealRun\<close>.
\<close>

theorem reach_probe_misses:
  "let path = [0x1000, 0x4000, 0x5000];
       m = snd (record_path_as_edges (\<lambda>a b. a XOR b) coverage_map_new path);
       ah = (\<lambda>a b. a XOR b)
   in 0x4000 \<in> set path \<and> \<not> edge_was_touched_at ah m 0x4000 \<and>
      derive_status False (edge_was_touched_at ah m 0x4000) (edge_was_touched_from_to ah m 0x4000 0x4004)
        (classify_against_snapshot m coverage_map_new) = UnreachableInRealRun"
proof -
  let ?ah = "\<lambda>a b :: u64. a XOR b"
  let ?path = "[0x1000, 0x4000, 0x5000] :: u64 list"
  let ?m = "snd (record_path_as_edges ?ah coverage_map_new ?path)"
  have zero: "\<not> inner ?m ! i > 0" if "i < MAP_SIZE" "slot_hits ?ah ?path i = 0" for i
    using recorded_slot_pos [OF wf_new that(1), of ?ah ?path] that nth_new [OF that(1)] by simp
  have "slot_hits ?ah ?path (edge_hash ?ah (0x4000 - d) 0x4000) = 0" if "d \<in> set probe_offsets" for d
    using that by (auto simp: probe_offsets_def slot_hits_def edge_hash_def MAP_MASK_def MAP_SIZE_def)
  then have "\<not> edge_was_touched_at ?ah ?m 0x4000"
    using zero edge_hash_bound by (auto simp: edge_was_touched_at_def edge_index_eq list_ex_iff)
  moreover have "slot_hits ?ah ?path (edge_hash ?ah 0x4000 0x4004) = 0"
    by (simp add: slot_hits_def edge_hash_def MAP_MASK_def MAP_SIZE_def)
  then have "\<not> edge_was_touched_from_to ?ah ?m 0x4000 0x4004"
    using zero edge_hash_bound by (simp add: edge_was_touched_from_to_def edge_index_eq)
  ultimately show ?thesis by (simp add: Let_def derive_status_def)
qed

end
