(* ===== verification/Corpus_Bridge.thy ===== *)
theory Corpus_Bridge
  imports Model_Validator Fuzz_Corpus
begin

text \<open>
  The bridge from the concolic engine to the fuzzer (\<open>src/concolic/fuzzer_bridge.rs\<close>): a model
  is promoted into the shared corpus, and the shared coverage map is updated, in a fixed order.
  The shared state is the corpus, the map and the disk. The code holds a lock for each step
  and releases it between steps, so the model takes three interference functions, what the
  other threads did to the shared state in the three gaps.

  The lemmas show the transactional discipline the module's documentation asks for: unless the
  promotion succeeds, the bridge itself never changes the map; when it succeeds, the input is
  in the corpus and on disk before the map knows its coverage. A promotion satisfies the
  conditions that it relies on from the other threads, so any number of bridges compose.
\<close>

datatype PromoteError = StagingFailed IoError | CorpusAddFailed IoError

datatype PromoteOutcome = Skipped string | NotNovel Novelty | Promoted string Novelty

record BridgeState =
  br_corpus :: FuzzCorpus
  br_map :: CoverageMap
  br_fs :: FS

type_synonym interference = "BridgeState \<Rightarrow> BridgeState"

definition skip_reason :: "ValidationStatus \<Rightarrow> string option" where
  "skip_reason st =
     (case st of
        NewCoverageConfirmed \<Rightarrow> None
      | NewCrash \<Rightarrow> Some ''new_crash_handled_by_crashdb''
      | Valid \<Rightarrow> Some ''valid_no_new_coverage''
      | ModelMismatch \<Rightarrow> Some ''model_mismatch''
      | UnreachableInRealRun \<Rightarrow> Some ''unreachable_in_real_run'')"

definition promote_if_novel ::
  "(blob \<Rightarrow> blob) \<Rightarrow> u128 \<Rightarrow> interference \<Rightarrow> interference \<Rightarrow> interference \<Rightarrow>
   blob \<Rightarrow> string option \<Rightarrow> ValidationOutcome \<Rightarrow> CoverageMap \<Rightarrow> BridgeState \<Rightarrow>
   (PromoteError, PromoteOutcome) result \<times> BridgeState" where
  "promote_if_novel blake3 now_ms i1 i2 i3 input_bytes parent_seed_id validation local_map st =
     (case skip_reason (status validation) of
        Some reason \<Rightarrow> (Ok (Skipped reason), st)
      | None \<Rightarrow>
          let snapshot = br_map st;
              novelty = classify_against_snapshot local_map snapshot
          in if \<not> is_interesting novelty then (Ok (NotNovel novelty), st)
             else
               let model_id = input_id blake3 input_bytes;
                   entry = \<lparr>qe_id = model_id, parent_id = parent_seed_id, qe_input = input_bytes,
                            metadata = from_novelty now_ms novelty (vo_exec_us validation)\<rparr>;
                   st = i1 st
               in case stage_for_execution (br_corpus st) model_id input_bytes (br_fs st) of
                    (Err e, fs) \<Rightarrow> (Err (StagingFailed e), st\<lparr>br_fs := fs\<rparr>)
                  | (Ok _, fs) \<Rightarrow>
                      let st = i2 (st\<lparr>br_fs := fs\<rparr>)
                      in case corpus_add entry (br_corpus st) (br_fs st) of
                           (Err e, c, fs) \<Rightarrow> (Err (CorpusAddFailed e), st\<lparr>br_corpus := c, br_fs := fs\<rparr>)
                         | (Ok _, c, fs) \<Rightarrow>
                             let st = i3 (st\<lparr>br_corpus := c, br_fs := fs\<rparr>)
                             in (Ok (Promoted model_id novelty),
                                 st\<lparr>br_map := merge_into_global local_map (br_map st)\<rparr>))"

section \<open>The shared state\<close>

text \<open>Every entry is filed under the id of its own bytes.\<close>

definition ids_ok :: "(blob \<Rightarrow> blob) \<Rightarrow> FuzzCorpus \<Rightarrow> bool" where
  "ids_ok bl c \<longleftrightarrow> (\<forall>e \<in> set (entries c). qe_id e = input_id bl (qe_input e))"

lemma ids_ok_add:
  assumes "ids_ok bl c" "qe_id e = input_id bl (qe_input e)" "corpus_add e c fs = (r, c', fs')"
  shows "ids_ok bl c'"
  using assms(3) by (cases rule: corpus_add_cases) (use assms(1,2) in \<open>auto simp: ids_ok_def\<close>)

definition bridge_inv :: "(blob \<Rightarrow> blob) \<Rightarrow> BridgeState \<Rightarrow> bool" where
  "bridge_inv bl st \<longleftrightarrow> corpus_inv (br_corpus st) (br_fs st) \<and> ids_ok bl (br_corpus st) \<and> wf_global (br_map st)"

text \<open>
  What a thread may do to the shared state: keep the invariant, never lower a byte of the map,
  never lose a corpus entry.
\<close>

definition rely :: "(blob \<Rightarrow> blob) \<Rightarrow> BridgeState \<Rightarrow> BridgeState \<Rightarrow> bool" where
  "rely bl st st' \<longleftrightarrow> bridge_inv bl st' \<and>
     (\<forall>i < MAP_SIZE. inner (br_map st) ! i \<le> inner (br_map st') ! i) \<and>
     (\<forall>k e. corpus_get (br_corpus st) k = Some e \<longrightarrow> corpus_get (br_corpus st') k = Some e)"

definition good_env :: "(blob \<Rightarrow> blob) \<Rightarrow> interference \<Rightarrow> bool" where
  "good_env bl f \<longleftrightarrow> (\<forall>st. bridge_inv bl st \<longrightarrow> rely bl st (f st))"

lemma rely_refl: "bridge_inv bl st \<Longrightarrow> rely bl st st"
  by (simp add: rely_def)

lemma rely_trans: "rely bl a b \<Longrightarrow> rely bl b c \<Longrightarrow> rely bl a c"
  unfolding rely_def using order_trans by blast

lemma rely_inv: "rely bl a b \<Longrightarrow> bridge_inv bl b"
  by (simp add: rely_def)

lemma rely_get: "rely bl a b \<Longrightarrow> corpus_get (br_corpus a) k = Some e \<Longrightarrow> corpus_get (br_corpus b) k = Some e"
  by (simp add: rely_def)

lemma good_envD: "good_env bl f \<Longrightarrow> bridge_inv bl st \<Longrightarrow> rely bl st (f st)"
  by (simp add: good_env_def)

lemma rely_stage:
  assumes "bridge_inv bl st" "plain_id i" "stage_for_execution (br_corpus st) i b (br_fs st) = (r, fs)"
  shows "rely bl st (st\<lparr>br_fs := fs\<rparr>)"
  using stage_corpus_inv [OF _ assms(2,3)] assms(1) by (simp add: rely_def bridge_inv_def)

lemma rely_add:
  assumes "bridge_inv bl st" "plain_id (qe_id e)" "qe_id e = input_id bl (qe_input e)"
    "corpus_add e (br_corpus st) (br_fs st) = (r, c, fs)"
  shows "rely bl st (st\<lparr>br_corpus := c, br_fs := fs\<rparr>)"
  using queue.add_inv [OF _ assms(2,4)] queue.add_keeps [OF _ _ assms(4)] ids_ok_add [OF _ assms(3,4)] assms(1)
  by (simp add: rely_def bridge_inv_def)

lemma rely_merge:
  assumes "bridge_inv bl st" "wf_map l"
  shows "rely bl st (st\<lparr>br_map := merge_into_global l (br_map st)\<rparr>)"
proof -
  have "wf_map (br_map st)" using assms(1) by (simp add: bridge_inv_def wf_global_def)
  then show ?thesis
    using assms wf_global_merge [of l "br_map st"] by (auto simp: rely_def bridge_inv_def nth_merge)
qed

text \<open>The steps of a promotion, as the code runs them.\<close>

lemma promote_cases:
  assumes "promote_if_novel bl now i1 i2 i3 b par v l st = (r, st')"
  obtains (skipped) reason where "skip_reason (status v) = Some reason" "r = Ok (Skipped reason)" "st' = st"
  | (known) n where "status v = NewCoverageConfirmed" "n = classify_against_snapshot l (br_map st)"
      "\<not> is_interesting n" "r = Ok (NotNovel n)" "st' = st"
  | (unstaged) e fs where
      "stage_for_execution (br_corpus (i1 st)) (input_id bl b) b (br_fs (i1 st)) = (Err e, fs)"
      "r = Err (StagingFailed e)" "st' = (i1 st)\<lparr>br_fs := fs\<rparr>"
  | (unadded) p fs st1 en e c fs1 where
      "stage_for_execution (br_corpus (i1 st)) (input_id bl b) b (br_fs (i1 st)) = (Ok p, fs)"
      "st1 = i2 ((i1 st)\<lparr>br_fs := fs\<rparr>)" "qe_id en = input_id bl b" "qe_input en = b"
      "corpus_add en (br_corpus st1) (br_fs st1) = (Err e, c, fs1)"
      "r = Err (CorpusAddFailed e)" "st' = st1\<lparr>br_corpus := c, br_fs := fs1\<rparr>"
  | (promoted) p fs st1 en k c fs1 st2 n where
      "stage_for_execution (br_corpus (i1 st)) (input_id bl b) b (br_fs (i1 st)) = (Ok p, fs)"
      "st1 = i2 ((i1 st)\<lparr>br_fs := fs\<rparr>)" "qe_id en = input_id bl b" "qe_input en = b"
      "corpus_add en (br_corpus st1) (br_fs st1) = (Ok k, c, fs1)"
      "st2 = i3 (st1\<lparr>br_corpus := c, br_fs := fs1\<rparr>)"
      "status v = NewCoverageConfirmed" "n = classify_against_snapshot l (br_map st)" "is_interesting n"
      "r = Ok (Promoted (input_id bl b) n)" "st' = st2\<lparr>br_map := merge_into_global l (br_map st2)\<rparr>"
proof -
  let ?n = "classify_against_snapshot l (br_map st)"
  let ?en = "\<lparr>qe_id = input_id bl b, parent_id = par, qe_input = b,
      metadata = from_novelty now ?n (vo_exec_us v)\<rparr>"
  obtain sr fs where sg: "stage_for_execution (br_corpus (i1 st)) (input_id bl b) b (br_fs (i1 st)) = (sr, fs)"
    by fastforce
  let ?st1 = "i2 ((i1 st)\<lparr>br_fs := fs\<rparr>)"
  obtain ar c fs1 where ad: "corpus_add ?en (br_corpus ?st1) (br_fs ?st1) = (ar, c, fs1)"
    by (cases "corpus_add ?en (br_corpus ?st1) (br_fs ?st1)") auto
  show ?thesis
  proof (cases "skip_reason (status v)")
    case (Some reason)
    then have "r = Ok (Skipped reason)" "st' = st" using assms by (simp_all add: promote_if_novel_def)
    with Some show ?thesis by (rule skipped)
  next
    case None
    then have conf: "status v = NewCoverageConfirmed"
      by (simp add: skip_reason_def split: ValidationStatus.splits)
    show ?thesis
    proof (cases "is_interesting ?n")
      case False
      then have "r = Ok (NotNovel ?n)" "st' = st" using assms None by (auto simp: promote_if_novel_def Let_def)
      with conf refl False show ?thesis by (rule known)
    next
      case True
      consider e where "sr = Err e" | p e where "sr = Ok p" "ar = Err e" | p k where "sr = Ok p" "ar = Ok k"
        by (cases sr; cases ar) auto
      then show ?thesis
      proof cases
        case 1
        have "r = Err (StagingFailed e)" "st' = (i1 st)\<lparr>br_fs := fs\<rparr>"
          using assms None True sg 1 by (simp_all add: promote_if_novel_def Let_def)
        with sg [unfolded 1] show ?thesis by (rule unstaged)
      next
        case 2
        have "r = Err (CorpusAddFailed e)" "st' = ?st1\<lparr>br_corpus := c, br_fs := fs1\<rparr>"
          using assms None True sg ad 2 by (simp_all add: promote_if_novel_def Let_def)
        with sg [unfolded 2] refl _ _ ad [unfolded 2] show ?thesis by (rule unadded) simp_all
      next
        case 3
        have "r = Ok (Promoted (input_id bl b) ?n)"
          "st' = (let st2 = i3 (?st1\<lparr>br_corpus := c, br_fs := fs1\<rparr>) in st2\<lparr>br_map := merge_into_global l (br_map st2)\<rparr>)"
          using assms None True sg ad 3 by (simp_all add: promote_if_novel_def Let_def)
        then show ?thesis
          by (intro promoted [OF sg [unfolded 3] refl _ _ ad [unfolded 3] refl conf refl True])
            (simp_all add: Let_def)
      qed
    qed
  qed
qed

text \<open>A promotion is a good step of the environment of other promotions.\<close>

lemma promote_guarantee:
  assumes "length (bl b) = 32" "good_env bl i1" "good_env bl i2" "good_env bl i3" "bridge_inv bl st" "wf_map l"
    "promote_if_novel bl now i1 i2 i3 b par v l st = (r, st')"
  shows "rely bl st st'"
  using assms(7)
proof (cases rule: promote_cases)
  case unstaged
  have r1: "rely bl st (i1 st)" by (rule good_envD [OF assms(2,5)])
  from rely_stage [OF rely_inv [OF r1] input_id_plain [of bl b, OF assms(1)] unstaged(1)]
  show ?thesis using r1 unstaged(3) by (auto intro: rely_trans)
next
  case (unadded p fs st1 en e c fs1)
  have r1: "rely bl st (i1 st)" by (rule good_envD [OF assms(2,5)])
  have r2: "rely bl st ((i1 st)\<lparr>br_fs := fs\<rparr>)"
    using rely_stage [OF rely_inv [OF r1] input_id_plain [of bl b, OF assms(1)] unadded(1)] r1 by (rule rely_trans [rotated])
  have r3: "rely bl st st1"
    using good_envD [OF assms(3) rely_inv [OF r2]] r2 unadded(2) by (auto intro: rely_trans)
  have "rely bl st1 st'"
    unfolding unadded(7) by (rule rely_add [OF rely_inv [OF r3] _ _ unadded(5)])
      (simp_all add: unadded(3,4) input_id_plain [of bl b, OF assms(1)])
  with r3 show ?thesis by (rule rely_trans)
next
  case (promoted p fs st1 en k c fs1 st2 n)
  have r1: "rely bl st (i1 st)" by (rule good_envD [OF assms(2,5)])
  have r2: "rely bl st ((i1 st)\<lparr>br_fs := fs\<rparr>)"
    using rely_stage [OF rely_inv [OF r1] input_id_plain [of bl b, OF assms(1)] promoted(1)] r1 by (rule rely_trans [rotated])
  have r3: "rely bl st st1"
    using good_envD [OF assms(3) rely_inv [OF r2]] r2 promoted(2) by (auto intro: rely_trans)
  have "rely bl st1 (st1\<lparr>br_corpus := c, br_fs := fs1\<rparr>)"
    by (rule rely_add [OF rely_inv [OF r3] _ _ promoted(5)]) (simp_all add: promoted(3,4) input_id_plain [of bl b, OF assms(1)])
  then have r4: "rely bl st (st1\<lparr>br_corpus := c, br_fs := fs1\<rparr>)" using r3 by (rule rely_trans [rotated])
  have r5: "rely bl st st2"
    using good_envD [OF assms(4) rely_inv [OF r4]] r4 promoted(6) by (auto intro: rely_trans)
  show ?thesis
    unfolding promoted(11) using rely_merge [OF rely_inv [OF r5] assms(6)] r5 by (rule rely_trans [rotated])
qed (use assms(5) in \<open>simp_all add: rely_refl\<close>)

lemma id_good_env: "good_env bl (\<lambda>st. st)"
  by (simp add: good_env_def rely_refl)

section \<open>Properties\<close>

definition map_neutral :: "interference \<Rightarrow> bool" where
  "map_neutral f \<longleftrightarrow> (\<forall>st. br_map (f st) = br_map st)"

text \<open>
  Promotion is transactional for the coverage map. As long as the other threads leave the
  map alone, it changes only when the outcome is \<open>Promoted\<close>, and then exactly by merging the
  run's map; a skip, a run without novelty, a staging failure and a corpus failure all leave it
  byte-identical, whatever the disk did.
\<close>

theorem promote_map_transactional:
  assumes "map_neutral i1" "map_neutral i2" "map_neutral i3"
    "promote_if_novel blake3 now_ms i1 i2 i3 input_bytes parent_seed_id validation local_map st = (r, st')"
  shows "br_map st' =
    (case r of Ok (Promoted _ _) \<Rightarrow> merge_into_global local_map (br_map st) | _ \<Rightarrow> br_map st)"
  using assms(4)
proof (cases rule: promote_cases)
  case (promoted p fs st1 en k c fs1 st2 n)
  have "br_map st2 = br_map st"
    using assms(1-3) promoted(2,6) by (simp add: map_neutral_def)
  then show ?thesis using promoted(10,11) by simp
qed (use assms(1-3) in \<open>simp_all add: map_neutral_def\<close>)

text \<open>
  BLAKE3 is cut to 64 bits, so two inputs can have one id. A corpus is free of collisions with \<open>b\<close> when
  no entry has the id of \<open>b\<close> and other bytes.
\<close>

definition no_collision :: "(blob \<Rightarrow> blob) \<Rightarrow> blob \<Rightarrow> FuzzCorpus \<Rightarrow> bool" where
  "no_collision bl b c \<longleftrightarrow> list_all (\<lambda>e. input_id bl (qe_input e) = input_id bl b \<longrightarrow> qe_input e = b) (entries c)"

text \<open>
  C12: no coverage without a reproducer. Under any interference by other well-behaved threads, a promotion
  keeps the shared invariant, never lowers the map and never loses an entry. When it reports \<open>Promoted\<close>,
  the run's coverage is in the map, and the corpus holds an entry under the input's id whose bytes have this
  id and are on disk; unless another input of the corpus has the same id, these bytes are the promoted input.
\<close>

theorem promoted_has_reproducer:
  assumes "length (blake3 input_bytes) = 32" "good_env blake3 i1" "good_env blake3 i2" "good_env blake3 i3"
    "bridge_inv blake3 st" "wf_map local_map"
    "promote_if_novel blake3 now_ms i1 i2 i3 input_bytes parent_seed_id validation local_map st = (r, st')"
  shows "rely blake3 st st' \<and>
    (\<forall>k n. r = Ok (Promoted k n) \<longrightarrow>
       k = input_id blake3 input_bytes \<and> status validation = NewCoverageConfirmed \<and>
       (\<exists>e. corpus_get (br_corpus st') k = Some e \<and> input_id blake3 (qe_input e) = k \<and>
          fs_read (br_fs st') (path_join (queue_dir (br_corpus st')) k) = Some (qe_input e) \<and>
          (no_collision blake3 input_bytes (br_corpus st') \<longrightarrow> qe_input e = input_bytes)) \<and>
       \<not> is_interesting (classify_against_snapshot local_map (br_map st')))"
proof (intro conjI allI impI)
  show g: "rely blake3 st st'" by (rule promote_guarantee [OF assms])
  fix k n
  assume r: "r = Ok (Promoted k n)"
  show "k = input_id blake3 input_bytes" "status validation = NewCoverageConfirmed"
    using assms(7) r by (cases rule: promote_cases; simp)+
  have inv: "corpus_inv (br_corpus st') (br_fs st')" using rely_inv [OF g] by (simp add: bridge_inv_def)
  have "\<exists>e. corpus_get (br_corpus st') k = Some e \<and> merge_into_global local_map (br_map st') = br_map st'"
    using assms(7)
  proof (cases rule: promote_cases)
    case (promoted p fs st1 en idx c fs1 st2 n')
    have pid: "plain_id (input_id blake3 input_bytes)" by (rule input_id_plain [of blake3 input_bytes, OF assms(1)])
    have r1: "rely blake3 st (i1 st)" by (rule good_envD [OF assms(2,5)])
    have r2: "bridge_inv blake3 ((i1 st)\<lparr>br_fs := fs\<rparr>)"
      by (rule rely_inv [OF rely_stage [OF rely_inv [OF r1] pid promoted(1)]])
    have i1: "bridge_inv blake3 st1"
      unfolding promoted(2) by (rule rely_inv [OF good_envD [OF assms(3) r2]])
    have i2: "bridge_inv blake3 (st1\<lparr>br_corpus := c, br_fs := fs1\<rparr>)"
      by (rule rely_inv [OF rely_add [OF i1 _ _ promoted(5)]]) (simp_all add: promoted(3,4) pid)
    have r3: "rely blake3 (st1\<lparr>br_corpus := c, br_fs := fs1\<rparr>) st2"
      unfolding promoted(6) by (rule good_envD [OF assms(4) i2])
    obtain e where "corpus_get c (qe_id en) = Some e"
      using queue.add_ok [OF _ promoted(5)] i1 by (auto simp: bridge_inv_def)
    then have "corpus_get (br_corpus st2) k = Some e"
      using rely_get [OF r3, of k e] promoted(3,10) r by simp
    moreover have "wf_map (br_map st2)" using rely_inv [OF r3] by (simp add: bridge_inv_def wf_global_def)
    ultimately show ?thesis using promoted(11) merge_idem [OF assms(6)] by simp
  qed (use r in auto)
  then obtain e where e: "corpus_get (br_corpus st') k = Some e"
      "merge_into_global local_map (br_map st') = br_map st'" by blast
  obtain idx where idx: "by_id (br_corpus st') k = Some idx" "e = entries (br_corpus st') ! idx"
    using e(1) by (auto simp: corpus_get_def)
  note at = corpus_inv_at [OF inv idx(1), folded idx(2)]
  have mem: "e \<in> set (entries (br_corpus st'))" using at(1) idx(2) by (simp add: corpus_len_def)
  then have "input_id blake3 (qe_input e) = k"
    using rely_inv [OF g] at(2) by (auto simp: bridge_inv_def ids_ok_def)
  moreover have "no_collision blake3 input_bytes (br_corpus st') \<longrightarrow> qe_input e = input_bytes"
    using mem calculation \<open>k = input_id blake3 input_bytes\<close> by (simp add: no_collision_def list_all_iff)
  ultimately show "\<exists>e. corpus_get (br_corpus st') k = Some e \<and> input_id blake3 (qe_input e) = k \<and>
      fs_read (br_fs st') (path_join (queue_dir (br_corpus st')) k) = Some (qe_input e) \<and>
      (no_collision blake3 input_bytes (br_corpus st') \<longrightarrow> qe_input e = input_bytes)"
    using at(3) e(1) by blast
  have "wf_map (br_map st')" using rely_inv [OF g] by (simp add: bridge_inv_def wf_global_def)
  then show "\<not> is_interesting (classify_against_snapshot local_map (br_map st'))"
    using interesting_iff_changes [OF assms(6)] e(2) by blast
qed

definition demo_validation :: ValidationOutcome where
  "demo_validation = \<lparr>reexecuted = True, reached_target_pc = True, branch_flipped = True,
     new_coverage = novelty_default, crashed = False, vo_crash_info = None, status = NewCoverageConfirmed,
     vo_exec_us = 0, vo_edges_observed = 0, vo_exit = ExitOk\<rparr>"

definition demo_bridge :: BridgeState where
  "demo_bridge = \<lparr>br_corpus = demo_corpus, br_map = coverage_map_new, br_fs = \<lparr>files = [], faults = []\<rparr>\<rparr>"

lemma demo_bridge_inv: "bridge_inv blake3 demo_bridge"
  by (simp add: bridge_inv_def ids_ok_def demo_bridge_def demo_corpus_inv) (simp add: demo_corpus_def)

theorem promote_map_transactional_witness:
  "\<exists>r st'. promote_if_novel (\<lambda>_. replicate 32 0) 0 (\<lambda>st. st) (\<lambda>st. st) (\<lambda>st. st) [1] None demo_validation
      (record_edge (\<lambda>a b. a) 1 2 coverage_map_new) demo_bridge = (r, st') \<and>
    br_map st' = (case r of Ok (Promoted _ _) \<Rightarrow>
        merge_into_global (record_edge (\<lambda>a b. a) 1 2 coverage_map_new) (br_map demo_bridge)
      | _ \<Rightarrow> br_map demo_bridge)"
proof -
  let ?l = "record_edge (\<lambda>a b. a) 1 2 coverage_map_new"
  obtain r st' where p: "promote_if_novel (\<lambda>_. replicate 32 0) 0 (\<lambda>st. st) (\<lambda>st. st) (\<lambda>st. st) [1] None
      demo_validation ?l demo_bridge = (r, st')" by fastforce
  have "map_neutral (\<lambda>st. st)" by (simp add: map_neutral_def)
  from promote_map_transactional [OF this this this p] p show ?thesis by blast
qed

lemma demo_run_novel_edge:
  "is_interesting (classify_against_snapshot (record_edge (\<lambda>a b. a) 1 2 coverage_map_new) coverage_map_new)"
proof -
  let ?l = "record_edge (\<lambda>a b. a) 1 2 coverage_map_new"
  have "inner ?l ! edge_hash (\<lambda>a b. a) 1 2 > 0"
    using edge_hash_bound [of "\<lambda>a b. a" 1 2] wf_new by (simp add: record_edge_def wf_map_def nth_new saturating_incr_def Let_def)
  then show ?thesis
    unfolding interesting_slots [OF wf_record [OF wf_new] wf_new]
    by (intro exI [of _ "edge_hash (\<lambda>a b. a) 1 2"]) (simp add: edge_hash_bound nth_new bucket_pos)
qed

theorem promoted_has_reproducer_witness:
  "\<exists>k n st'. promote_if_novel (\<lambda>_. replicate 32 0) 0 (\<lambda>st. st) (\<lambda>st. st) (\<lambda>st. st) [1] None demo_validation
      (record_edge (\<lambda>a b. a) 1 2 coverage_map_new) demo_bridge = (Ok (Promoted k n), st') \<and>
     rely (\<lambda>_. replicate 32 0) demo_bridge st' \<and>
     fs_read (br_fs st') (path_join (queue_dir (br_corpus st')) k) = Some [1]"
proof -
  let ?l = "record_edge (\<lambda>a b. a) 1 2 coverage_map_new" and ?bl = "\<lambda>_ :: blob. replicate 32 0 :: blob"
  let ?fs = "\<lparr>files = [], faults = []\<rparr>" and ?i = "input_id ?bl [1]"
  let ?en = "\<lparr>qe_id = ?i, parent_id = None, qe_input = [1],
      metadata = from_novelty 0 (classify_against_snapshot ?l coverage_map_new) (vo_exec_us demo_validation)\<rparr>"
  obtain p fs1 where st: "stage_for_execution demo_corpus ?i [1] ?fs = (Ok p, fs1)" "faults fs1 = []"
    using stage_succeeds [of ?fs "corpus_staging demo_corpus" ?i "[1]"] by (auto simp: stage_for_execution_def)
  obtain fs2 where w: "write_atomic (path_join (queue_dir demo_corpus) ?i) [1] fs1 = (Ok (), fs2)"
    using write_atomic_succeeds [OF st(2)] by blast
  obtain k n st' where p: "promote_if_novel ?bl 0 (\<lambda>st. st) (\<lambda>st. st) (\<lambda>st. st) [1] None demo_validation ?l demo_bridge =
      (Ok (Promoted k n), st')" and c: "entries (br_corpus st') = [?en]"
    using st(1) w demo_run_novel_edge
    by (simp add: promote_if_novel_def skip_reason_def demo_validation_def demo_bridge_def corpus_add_def
        persist_input_def demo_corpus_def Let_def)
  have "no_collision ?bl [1] (br_corpus st')" using c by (simp add: no_collision_def)
  moreover have "length (?bl [1]) = 32" "wf_map ?l" by simp_all
  ultimately show ?thesis
    using promoted_has_reproducer [of ?bl "[1]", OF _ id_good_env id_good_env id_good_env demo_bridge_inv _ p] p by auto
qed

text \<open>
  A promotion does not consume the staged copy: the corpus writes the input anew, and
  \<open>.staging/<id>\<close> is still there afterwards.
\<close>

theorem promoted_keeps_staged_copy:
  assumes "length (blake3 b) = 32" "bridge_inv blake3 st"
    "promote_if_novel blake3 now_ms (\<lambda>st. st) (\<lambda>st. st) (\<lambda>st. st) b parent v l st = (Ok (Promoted k n), st')"
  shows "fs_read (br_fs st') (path_join (staging_dir (corpus_staging (br_corpus st))) k) = Some b"
  using assms(3)
proof (cases rule: promote_cases)
  case (promoted p fs st1 en idx c fs1 st2 n')
  let ?c = "br_corpus st"
  let ?staged = "path_join (staging_dir (corpus_staging ?c)) (input_id blake3 b)"
  let ?q = "path_join (queue_dir ?c) (input_id blake3 b)"
  have "length ?staged \<noteq> length ?q" "length ?staged \<noteq> length (with_tmp_extension ?q)"
    using assms(2) by (simp_all add: bridge_inv_def corpus_inv_def dirs_ok_def path_join_def
      with_tmp_extension_def STAGING_SUBDIR_def)
  then have ne: "?staged \<noteq> ?q" "?staged \<noteq> with_tmp_extension ?q" by metis+
  have st: "fs_read fs ?staged = Some b"
    using stage_ok [of "corpus_staging ?c" "input_id blake3 b" b "br_fs st" p fs] promoted(1)
    by (simp add: stage_for_execution_def)
  have "fs_read fs1 ?staged = Some b"
    using promoted(5)
  proof (cases rule: corpus_add_cases)
    case known
    then show ?thesis using st promoted(2) by simp
  next
    case (pushed u)
    then show ?thesis
      using st ne promoted(2,3) write_atomic_other [of ?q "qe_input en" fs "Ok u" fs1 ?staged]
      by (simp add: persist_input_def)
  qed simp
  then show ?thesis using promoted(6,10,11) by simp
qed simp_all

end
