(* ===== verification/Crash_Db.thy ===== *)
theory Crash_Db
  imports Fuzz_Executor Fuzz_Corpus "HOL-Library.Multiset"
begin

text \<open>
  Crash deduplication (\<open>src/fuzzer/crash.rs\<close>): a signature from the crash kind, the signal, the
  sorted top frames and the sanitizer; a table of families with counts; one directory per
  family. BLAKE3 and the JSON printer of \<open>serde_json\<close> are parameters, the clock an argument.

  The lemmas show that a signature does not depend on the order of the frames, that hex
  encoding keeps families apart on disk, that the table after a sequence of crashes has one
  family per distinct signature with its number of occurrences, and that the separators do not
  make the hashed text unambiguous.
\<close>

section \<open>Signatures\<close>

type_synonym CrashSignature = blob

definition sig_to_hex :: "CrashSignature \<Rightarrow> string" where
  "sig_to_hex s = concat (map hex02 s)"

definition string_bytes :: "string \<Rightarrow> blob" where
  "string_bytes s = map (\<lambda>c. word_of_nat (of_char c)) s"

definition i32_le_bytes :: "u32 \<Rightarrow> blob" where
  "i32_le_bytes v = map (\<lambda>i. ucast (drop_bit (8 * i) v)) [0..<4]"

text \<open>The bytes fed to the hasher, in order.\<close>

definition signature_preimage :: "CrashInfo \<Rightarrow> blob" where
  "signature_preimage info =
     string_bytes (crash_kind info) @ string_bytes ''|'' @
     (case signal info of Some s \<Rightarrow> i32_le_bytes s | None \<Rightarrow> []) @ string_bytes ''|'' @
     concat (map to_le_bytes (sort (top_frames info))) @ string_bytes ''|'' @
     (case sanitizer_type info of Some s \<Rightarrow> string_bytes s | None \<Rightarrow> [])"

definition signature_for :: "(blob \<Rightarrow> blob) \<Rightarrow> CrashInfo \<Rightarrow> CrashSignature" where
  "signature_for blake3 info = blake3 (signature_preimage info)"

definition should_dedupe :: "ExitKind \<Rightarrow> bool" where
  "should_dedupe e \<longleftrightarrow> is_crash_like e \<or> e = Timeout"

section \<open>The details file\<close>

datatype Json = JNull | JStr string | JInt int | JArr "Json list" | JObj "(string \<times> Json) list"

definition hex_0x016 :: "u64 \<Rightarrow> string" where
  "hex_0x016 v = ''0x'' @ pad0 16 (show_radix 16 (unat v))"

definition json_opt :: "('a \<Rightarrow> Json) \<Rightarrow> 'a option \<Rightarrow> Json" where
  "json_opt f v = (case v of None \<Rightarrow> JNull | Some x \<Rightarrow> f x)"

definition info_to_json :: "string \<Rightarrow> CrashInfo \<Rightarrow> Json" where
  "info_to_json i info =
     JObj [(''schema'', JStr ''fuzzer_crash_info/1''),
           (''input_id'', JStr i),
           (''kind'', JStr (crash_kind info)),
           (''signal'', json_opt (\<lambda>s. JInt (sint s)) (signal info)),
           (''fault_pc'', json_opt (\<lambda>v. JStr (hex_0x016 v)) (fault_pc info)),
           (''top_frames'', JArr (map (\<lambda>v. JStr (hex_0x016 v)) (top_frames info))),
           (''sanitizer_type'', json_opt JStr (sanitizer_type info))]"

section \<open>The table\<close>

record CrashEntry =
  ce_signature :: CrashSignature
  ce_count :: u32
  first_input_id :: string
  first_seen_at_ms :: u128

record CrashDb =
  seen :: "(CrashSignature \<times> CrashEntry) list"
  crashes_dir :: path

definition crash_open :: "path \<Rightarrow> FS \<Rightarrow> (IoError, CrashDb) result \<times> FS" where
  "crash_open dir fs = io_bind (sys_nop fs) (\<lambda>_ fs. (Ok \<lparr>seen = [], crashes_dir = dir\<rparr>, fs))"

definition persist_crash ::
  "(Json \<Rightarrow> (IoError, blob) result) \<Rightarrow> CrashDb \<Rightarrow> CrashSignature \<Rightarrow> string \<Rightarrow> blob \<Rightarrow> CrashInfo \<Rightarrow> FS \<Rightarrow>
   (IoError, unit) result \<times> FS" where
  "persist_crash to_vec_pretty db s i input_bytes info fs =
     (let sig_dir = path_join (crashes_dir db) (sig_to_hex s)
      in io_bind (sys_nop fs) (\<lambda>_ fs.
           io_bind (write_atomic (path_join sig_dir ''input.bin'') input_bytes fs) (\<lambda>_ fs.
             io_bind (to_vec_pretty (info_to_json i info), fs) (\<lambda>info_json fs.
               write_atomic (path_join sig_dir ''info.json'') info_json fs))))"

definition dedup_and_store ::
  "(blob \<Rightarrow> blob) \<Rightarrow> (Json \<Rightarrow> (IoError, blob) result) \<Rightarrow> u128 \<Rightarrow> string \<Rightarrow> blob \<Rightarrow> CrashInfo \<Rightarrow> CrashDb \<Rightarrow> FS \<Rightarrow>
   (IoError, CrashSignature option) result \<times> CrashDb \<times> FS" where
  "dedup_and_store blake3 to_vec_pretty now_ms i input_bytes info db fs =
     (let s = signature_for blake3 info
      in case map_of (seen db) s of
           Some entry \<Rightarrow>
             (Ok None, db\<lparr>seen := AList.update s (entry\<lparr>ce_count := ce_count entry + 1\<rparr>) (seen db)\<rparr>, fs)
         | None \<Rightarrow>
             (case persist_crash to_vec_pretty db s i input_bytes info fs of
                (Err e, fs) \<Rightarrow> (Err e, db, fs)
              | (Ok _, fs) \<Rightarrow>
                  (Ok (Some s),
                   db\<lparr>seen := AList.update s
                        \<lparr>ce_signature = s, ce_count = 1, first_input_id = i, first_seen_at_ms = now_ms\<rparr>
                        (seen db)\<rparr>, fs)))"

definition crash_len :: "CrashDb \<Rightarrow> nat" where
  "crash_len db = length (seen db)"

definition crash_get :: "CrashDb \<Rightarrow> CrashSignature \<Rightarrow> CrashEntry option" where
  "crash_get db s = map_of (seen db) s"

section \<open>Hex encoding\<close>

definition hex_digit :: "nat \<Rightarrow> char" where
  "hex_digit d = char_of (if d < 10 then 48 + d else 87 + d)"

lemma zero_char: "char_of (48 :: nat) = CHR ''0''"
  by code_simp

lemma hex02_digits: "hex02 b = [hex_digit (unat b div 16), hex_digit (unat b mod 16)]"
proof (cases "unat b < 16")
  case True
  then show ?thesis
    by (subst hex02_def, subst show_radix.simps) (simp add: pad0_def hex_digit_def zero_char)
next
  case False
  have "unat b div 16 < 16" using u8_bound [of b] by simp
  then have "show_radix 16 (unat b div 16) = [hex_digit (unat b div 16)]"
    by (subst show_radix.simps) (simp add: hex_digit_def)
  then have "show_radix 16 (unat b) = [hex_digit (unat b div 16), hex_digit (unat b mod 16)]"
    using False by (subst show_radix.simps) (simp add: hex_digit_def)
  then show ?thesis by (simp add: hex02_def pad0_def)
qed

lemma hex_digit_inj:
  assumes "hex_digit a = hex_digit b" "a < 16" "b < 16"
  shows "a = b"
proof -
  have "(of_char (hex_digit a) :: nat) = of_char (hex_digit b)" using assms(1) by simp
  then show ?thesis using assms(2,3) by (simp add: hex_digit_def split: if_splits)
qed

lemma hex02_inj: "hex02 a = hex02 b \<Longrightarrow> a = b"
proof -
  assume eq: "hex02 a = hex02 b"
  have "unat a div 16 < 16" "unat b div 16 < 16" using u8_bound [of a] u8_bound [of b] by simp_all
  then have "unat a div 16 = unat b div 16" "unat a mod 16 = unat b mod 16"
    using eq hex_digit_inj by (auto simp: hex02_digits)
  then have "unat a = unat b" by (metis div_mult_mod_eq)
  then show "a = b" by (simp add: word_unat_eq_iff)
qed

lemma sig_to_hex_inj: "sig_to_hex s = sig_to_hex t \<Longrightarrow> s = t"
proof (induction s arbitrary: t)
  case Nil
  then show ?case by (cases t) (auto simp: sig_to_hex_def hex02_digits)
next
  case (Cons a s)
  then obtain b t' where t: "t = b # t'" by (cases t) (auto simp: sig_to_hex_def hex02_digits)
  have "hex02 a = hex02 b" "sig_to_hex s = sig_to_hex t'"
    using Cons.prems t hex02_length [of a] hex02_length [of b] by (auto simp: sig_to_hex_def)
  then show ?case using Cons.IH hex02_inj t by blast
qed

section \<open>The table after a crash\<close>

lemma dedup_cases:
  assumes "dedup_and_store bl js now i b info db fs = (r, db', fs')"
  obtains (dup) en where "crash_get db (signature_for bl info) = Some en" "r = Ok None" "fs' = fs"
      "db' = db\<lparr>seen := AList.update (signature_for bl info) (en\<lparr>ce_count := ce_count en + 1\<rparr>) (seen db)\<rparr>"
  | (failed) e where "crash_get db (signature_for bl info) = None"
      "persist_crash js db (signature_for bl info) i b info fs = (Err e, fs')" "r = Err e" "db' = db"
  | (fresh) u where "crash_get db (signature_for bl info) = None"
      "persist_crash js db (signature_for bl info) i b info fs = (Ok u, fs')"
      "r = Ok (Some (signature_for bl info))"
      "db' = db\<lparr>seen := AList.update (signature_for bl info)
        \<lparr>ce_signature = signature_for bl info, ce_count = 1, first_input_id = i, first_seen_at_ms = now\<rparr> (seen db)\<rparr>"
  using assms
  by (auto simp: dedup_and_store_def crash_get_def Let_def split: option.splits prod.splits sum.splits)

lemma crash_get_update:
  "crash_get (db\<lparr>seen := AList.update s en (seen db)\<rparr>) t = (if t = s then Some en else crash_get db t)"
  by (simp add: crash_get_def update_conv)

text \<open>The count of a family, zero when it is not in the table.\<close>

definition family_count :: "CrashDb \<Rightarrow> CrashSignature \<Rightarrow> u32" where
  "family_count db s = (case crash_get db s of Some en \<Rightarrow> ce_count en | None \<Rightarrow> 0)"

definition table_ok :: "CrashDb \<Rightarrow> bool" where
  "table_ok db \<longleftrightarrow> distinct (map fst (seen db)) \<and>
     (\<forall>s en. crash_get db s = Some en \<longrightarrow> ce_signature en = s)"

lemma dedup_table:
  assumes "table_ok db" "dedup_and_store bl js now i b info db fs = (r, db', fs')"
  shows "table_ok db' \<and> crashes_dir db' = crashes_dir db \<and>
    family_count db' t = family_count db t + (if t = signature_for bl info \<and> \<not> isl r then 1 else 0) \<and>
    fst ` set (seen db') = (if isl r then {} else {signature_for bl info}) \<union> fst ` set (seen db)"
  using assms(2)
proof (cases rule: dedup_cases)
  case (dup en)
  have "signature_for bl info \<in> fst ` set (seen db)"
    using dup(1) by (metis crash_get_def map_of_eq_None_iff option.distinct(1))
  with dup show ?thesis
    using assms(1) by (auto simp: table_ok_def crash_get_update family_count_def distinct_update dom_update)
next
  case (failed e)
  then show ?thesis using assms(1) by simp
next
  case (fresh u)
  then show ?thesis
    using assms(1) by (auto simp: table_ok_def crash_get_update family_count_def distinct_update dom_update)
qed

text \<open>A sequence of crashes, each with its input, stored one after the other; errors are skipped.\<close>

fun store_all ::
  "(blob \<Rightarrow> blob) \<Rightarrow> (Json \<Rightarrow> (IoError, blob) result) \<Rightarrow> (string \<times> blob \<times> CrashInfo) list \<Rightarrow> CrashDb \<Rightarrow> FS \<Rightarrow>
   CrashInfo list \<times> CrashDb \<times> FS" where
  "store_all bl js [] db fs = ([], db, fs)"
| "store_all bl js ((i, b, info) # cs) db fs =
     (case dedup_and_store bl js 0 i b info db fs of (r, db, fs) \<Rightarrow>
        (case store_all bl js cs db fs of (kept, db, fs) \<Rightarrow>
           (if isl r then kept else info # kept, db, fs)))"

lemma store_all_table:
  assumes "table_ok db" "store_all bl js cs db fs = (kept, db', fs')"
  shows "table_ok db' \<and>
    family_count db' t = family_count db t + word_of_nat (length (filter (\<lambda>c. signature_for bl c = t) kept)) \<and>
    fst ` set (seen db') = signature_for bl ` set kept \<union> fst ` set (seen db)"
  using assms
proof (induction cs arbitrary: db fs kept)
  case (Cons c cs)
  obtain i b info where c: "c = (i, b, info)" by (cases c) auto
  obtain r db1 fs1 where d: "dedup_and_store bl js 0 i b info db fs = (r, db1, fs1)"
    by (cases "dedup_and_store bl js 0 i b info db fs") auto
  obtain kept1 where s: "store_all bl js cs db1 fs1 = (kept1, db', fs')"
      "kept = (if isl r then kept1 else info # kept1)"
    using Cons.prems(2) c d by (auto split: prod.splits)
  show ?case
    using dedup_table [OF Cons.prems(1) d, of t] Cons.IH [OF _ s(1)] s(2)
    by (auto simp: algebra_simps)
qed simp

section \<open>Properties\<close>

text \<open>
  The crash table counts families exactly. After any sequence of crashes, stored under any
  disk failures into a fresh table, there is one entry per distinct signature among the crashes
  whose storing succeeded, its count is the number of those crashes with that signature (modulo
  the width of the counter), and two families never share a directory.
\<close>

theorem crash_families_exact:
  assumes "store_all blake3 to_vec_pretty cs \<lparr>seen = [], crashes_dir = dir\<rparr> fs = (kept, db, fs')"
  shows "crash_len db = card (signature_for blake3 ` set kept) \<and>
    (\<forall>s. family_count db s = word_of_nat (length (filter (\<lambda>c. signature_for blake3 c = s) kept))) \<and>
    inj_on (\<lambda>s. path_join dir (sig_to_hex s)) (fst ` set (seen db))"
proof -
  have "table_ok \<lparr>seen = [], crashes_dir = dir\<rparr>" by (simp add: table_ok_def crash_get_def)
  note t = store_all_table [OF this assms]
  have keys: "fst ` set (seen db) = signature_for blake3 ` set kept" using t by simp
  have "crash_len db = card (fst ` set (seen db))"
    using t distinct_card [of "map fst (seen db)"] by (auto simp: crash_len_def table_ok_def)
  moreover have "inj_on (\<lambda>s. path_join dir (sig_to_hex s)) (fst ` set (seen db))"
    by (auto intro!: inj_onI dest: sig_to_hex_inj)
  ultimately show ?thesis using t keys by (simp add: family_count_def crash_get_def)
qed

definition demo_crash :: CrashInfo where
  "demo_crash = \<lparr>crash_kind = ''emulator_oob'', signal = None, fault_pc = Some 16, top_frames = [16, 20],
     sanitizer_type = None\<rparr>"

theorem crash_families_exact_witness:
  "\<exists>kept db fs'. store_all (\<lambda>b. b) (\<lambda>_. Ok []) [(''a'', [1], demo_crash), (''b'', [2], demo_crash)]
      \<lparr>seen = [], crashes_dir = ''c''\<rparr> \<lparr>files = [], faults = []\<rparr> = (kept, db, fs') \<and>
    crash_len db = card (signature_for (\<lambda>b. b) ` set kept)"
proof -
  obtain d db fs' where s: "store_all (\<lambda>b. b) (\<lambda>_. Ok []) [(''a'', [1], demo_crash), (''b'', [2], demo_crash)]
      \<lparr>seen = [], crashes_dir = ''c''\<rparr> \<lparr>files = [], faults = []\<rparr> = (d, db, fs')"
    by (metis prod_cases3)
  from crash_families_exact [OF s] s show ?thesis by blast
qed

text \<open>
  The signature tolerates trace-order noise: two crashes with the same kind, signal and
  sanitizer and the same frames in any order, whatever their fault addresses, have the same
  signature.
\<close>

theorem signature_order_insensitive:
  assumes "mset (top_frames a) = mset (top_frames b)" "crash_kind a = crash_kind b" "signal a = signal b"
    "sanitizer_type a = sanitizer_type b"
  shows "signature_for blake3 a = signature_for blake3 b"
proof -
  have "sort (top_frames a) = sort (top_frames b)"
    using assms(1) by (metis mset_sort properties_for_sort sorted_sort)
  then show ?thesis using assms(2-) by (simp add: signature_for_def signature_preimage_def)
qed

text \<open>
  The separators do not keep kinds apart: two crashes of different kinds, one with a
  sanitizer name and one without, feed the same bytes to the hash, so they have one signature
  under every hash function.
\<close>

theorem signature_kinds_collide:
  "\<exists>a b. crash_kind a \<noteq> crash_kind b \<and> (\<forall>blake3. signature_for blake3 a = signature_for blake3 b)"
proof -
  let ?a = "\<lparr>crash_kind = ''panic: x|'', signal = None, fault_pc = None, top_frames = [], sanitizer_type = None\<rparr>"
  let ?b = "\<lparr>crash_kind = ''panic: x'', signal = None, fault_pc = None, top_frames = [], sanitizer_type = Some ''|''\<rparr>"
  have "signature_preimage ?a = signature_preimage ?b" by (simp add: signature_preimage_def string_bytes_def)
  then show ?thesis
    by (intro exI [of _ ?a] exI [of _ ?b]) (simp add: signature_for_def)
qed

end
