(* ===== verification/Fuzz_Scheduler.thy ===== *)
theory Fuzz_Scheduler
  imports Fuzz_Corpus Mutators
begin

text \<open>
  The power schedule (\<open>src/fuzzer/scheduler.rs\<close>): the score of a corpus entry in saturating
  32-bit arithmetic, the table of rare edges, and the weighted choice of the next entry. A
  zero penalty divisor is a Rust panic, written as \<^const>\<open>None\<close>.

  The lemmas show that scores are at least one, that the choice is total on a non-empty
  corpus and always in range, and that it is proportional: the entry at an index is chosen
  exactly when the drawn number falls in an interval as long as its score.
\<close>

unbundle bit_operations_syntax

definition saturating_add :: "'a :: len word \<Rightarrow> 'a word \<Rightarrow> 'a word" where
  "saturating_add a b = (if unat a + unat b < 2 ^ LENGTH('a) then a + b else - 1)"

definition saturating_mul :: "'a :: len word \<Rightarrow> 'a word \<Rightarrow> 'a word" where
  "saturating_mul a b = (if unat a * unat b < 2 ^ LENGTH('a) then a * b else - 1)"

definition saturating_sub :: "'a :: len word \<Rightarrow> 'a word \<Rightarrow> 'a word" where
  "saturating_sub a b = (if b \<le> a then a - b else 0)"

record PowerSchedule =
  rare_edge_weight :: u32
  reachability_weight :: u32
  speed_weight :: u32
  recent_discovery_weight :: u32
  fuzz_count_penalty_div :: u32

definition power_schedule_default :: PowerSchedule where
  "power_schedule_default = \<lparr>rare_edge_weight = 3, reachability_weight = 2, speed_weight = 1,
     recent_discovery_weight = 1, fuzz_count_penalty_div = 10\<rparr>"

section \<open>Rare edges\<close>

record RareEdges =
  re_counts :: "nat \<Rightarrow> u32 option"
  rarity_threshold :: u32

definition rare_new :: "u32 \<Rightarrow> RareEdges" where
  "rare_new t = \<lparr>re_counts = (\<lambda>_. None), rarity_threshold = t\<rparr>"

definition observe_slot :: "nat \<Rightarrow> RareEdges \<Rightarrow> RareEdges" where
  "observe_slot slot r =
     r\<lparr>re_counts := (re_counts r)(slot \<mapsto> (case re_counts r slot of Some c \<Rightarrow> c | None \<Rightarrow> 0) + 1)\<rparr>"

fun observe_bytes :: "nat \<Rightarrow> u8 list \<Rightarrow> RareEdges \<Rightarrow> RareEdges" where
  "observe_bytes slot [] r = r"
| "observe_bytes slot (b # bs) r =
     observe_bytes (slot + 1) bs (if b > 0 then observe_slot slot r else r)"

definition observe_map :: "CoverageMap \<Rightarrow> RareEdges \<Rightarrow> RareEdges" where
  "observe_map m r = observe_bytes 0 (inner m) r"

definition rare_count :: "RareEdges \<Rightarrow> nat list \<Rightarrow> u32" where
  "rare_count r slots =
     word_of_nat (length (filter (\<lambda>s. case re_counts r s of None \<Rightarrow> True | Some c \<Rightarrow> c \<le> rarity_threshold r) slots))"

section \<open>Scores\<close>

definition score :: "PowerSchedule \<Rightarrow> QueueEntry \<Rightarrow> RareEdges \<Rightarrow> u32 option" where
  "score ps entry rare =
     (let m = metadata entry;
          s = 1;
          s = saturating_add s (saturating_mul (rare_edge_weight ps) (novelty_new_edges m));
          s = saturating_add s (saturating_mul (rare_edge_weight ps div 2) (novelty_new_buckets m));
          s = (if qm_exec_us m < 1000 then saturating_add s (speed_weight ps)
               else if qm_exec_us m < 10000 then saturating_add s (speed_weight ps div 2)
               else s);
          s = (if favored m then saturating_add s 5 else s)
      in if fuzz_count_penalty_div ps = 0 then None
         else
           let penalty = ucast (times_fuzzed m div ucast (fuzz_count_penalty_div ps));
               s = saturating_sub s penalty
           in Some (max s 1))"

section \<open>Weighted choice\<close>

fun collect_scores :: "PowerSchedule \<Rightarrow> RareEdges \<Rightarrow> QueueEntry list \<Rightarrow> u32 list option" where
  "collect_scores ps rare [] = Some []"
| "collect_scores ps rare (e # es) =
     (case score ps e rare of
        None \<Rightarrow> None
      | Some w \<Rightarrow> map_option (\<lambda>ws. w # ws) (collect_scores ps rare es))"

text \<open>The subtraction loop: the index of the entry the needle falls on.\<close>

fun pick_loop :: "nat \<Rightarrow> u32 list \<Rightarrow> u64 \<Rightarrow> nat option" where
  "pick_loop idx [] needle = None"
| "pick_loop idx (w # ws) needle =
     (let w = ucast w in if needle < w then Some idx else pick_loop (idx + 1) ws (needle - w))"

definition pick ::
  "PowerSchedule \<Rightarrow> FuzzCorpus \<Rightarrow> RareEdges \<Rightarrow> Xorshift64 \<Rightarrow> (nat option \<times> Xorshift64) option" where
  "pick ps corpus rare rng =
     (if corpus_is_empty corpus then Some (None, rng)
      else
        case collect_scores ps rare (entries corpus) of
          None \<Rightarrow> None
        | Some weights \<Rightarrow>
            let total_weight = (sum_list (map ucast weights) :: u64)
            in if total_weight = 0 then Some (Some 0, rng)
               else
                 let (x, rng) = next_u64 rng;
                     needle = x mod total_weight
                 in (case pick_loop 0 weights needle of
                       Some idx \<Rightarrow> Some (Some idx, rng)
                     | None \<Rightarrow> Some (Some (length weights - 1), rng)))"

definition update_after_pick :: "QueueEntry \<Rightarrow> QueueEntry" where
  "update_after_pick entry =
     entry\<lparr>metadata := (metadata entry)\<lparr>times_fuzzed := saturating_add (times_fuzzed (metadata entry)) 1\<rparr>\<rparr>"

section \<open>Lemmas\<close>

lemma score_pos: "score ps e r = Some w \<Longrightarrow> w \<ge> 1"
  by (auto simp: score_def Let_def split: if_splits)

lemma score_total: "fuzz_count_penalty_div ps \<noteq> 0 \<Longrightarrow> \<exists>w. score ps e r = Some w"
  by (simp add: score_def Let_def)

lemma collect_scores_total:
  assumes "fuzz_count_penalty_div ps \<noteq> 0"
  shows "\<exists>ws. collect_scores ps r es = Some ws \<and> length ws = length es \<and>
    (\<forall>i < length es. score ps (es ! i) r = Some (ws ! i))"
proof (induction es)
  case (Cons e es)
  then obtain ws where ws: "collect_scores ps r es = Some ws" "length ws = length es"
      "\<forall>i < length es. score ps (es ! i) r = Some (ws ! i)" by blast
  obtain w where "score ps e r = Some w" using score_total [OF assms] by blast
  then show ?case using ws by (auto simp: nth_Cons split: nat.split)
qed simp

text \<open>Sums of fewer than \<open>2 ^ 32\<close> scores fit 64 bits.\<close>

definition weight_sum :: "u32 list \<Rightarrow> nat" where
  "weight_sum ws = sum_list (map unat ws)"

lemma weight_sum_bound: "weight_sum ws \<le> length ws * (2 ^ 32 - 1)"
proof (induction ws)
  case (Cons w ws)
  have "unat w < 2 ^ 32" using unsigned_less [of w, where ?'a = nat] by simp
  then show ?case using Cons by (simp add: weight_sum_def)
qed (simp add: weight_sum_def)

lemma word_sum_list: "sum_list (map ucast ws) = (word_of_nat (weight_sum ws) :: u64)"
  by (induction ws) (simp_all add: weight_sum_def)

lemma weight_sum_fits:
  assumes "length ws < 2 ^ 32"
  shows "unat (sum_list (map ucast ws) :: u64) = weight_sum ws"
proof -
  have "weight_sum ws \<le> length ws * (2 ^ 32 - 1)" by (rule weight_sum_bound)
  also have "\<dots> \<le> (2 ^ 32 - 1) * (2 ^ 32 - 1)" using assms by (intro mult_right_mono) auto
  also have "\<dots> < 2 ^ 64" by simp
  finally show ?thesis by (simp add: word_sum_list unat_of_nat take_bit_nat_eq_self)
qed

lemma pick_loop_interval:
  assumes "unat needle < weight_sum ws"
  shows "\<exists>i < length ws. pick_loop idx ws needle = Some (idx + i) \<and>
    weight_sum (take i ws) \<le> unat needle \<and> unat needle < weight_sum (take (Suc i) ws)"
  using assms
proof (induction ws arbitrary: idx needle)
  case (Cons w ws)
  have "unat w < 2 ^ 64" using unsigned_less [of w, where ?'a = nat] by simp
  then have uw: "unat (ucast w :: u64) = unat w"
    by (simp add: unsigned_ucast_eq take_bit_nat_eq_self)
  show ?case
  proof (cases "needle < ucast w")
    case True
    then show ?thesis by (intro exI [of _ 0]) (simp add: weight_sum_def word_less_nat_alt uw)
  next
    case False
    then have le: "unat w \<le> unat needle" by (simp add: word_less_nat_alt uw not_less)
    have sub: "unat (needle - ucast w) = unat needle - unat w"
      using False by (simp add: unat_sub uw not_less)
    have "unat (needle - ucast w) < weight_sum ws"
      using Cons.prems le by (simp add: sub weight_sum_def)
    from Cons.IH [OF this, of "idx + 1"] obtain i where i: "i < length ws"
        "pick_loop (idx + 1) ws (needle - ucast w) = Some (idx + 1 + i)"
        "weight_sum (take i ws) \<le> unat needle - unat w" "unat needle - unat w < weight_sum (take (Suc i) ws)"
      by (auto simp: sub)
    then show ?thesis
      using False le by (intro exI [of _ "Suc i"]) (simp add: weight_sum_def, linarith)
  qed
qed (simp add: weight_sum_def)

lemma weight_sum_pos: "w \<in> set ws \<Longrightarrow> w \<noteq> 0 \<Longrightarrow> 0 < weight_sum ws"
  by (auto simp: weight_sum_def unat_gt_0 dest!: split_list)

lemma live_pick: "pick ps c r rng = Some (x, rng') \<Longrightarrow> live rng \<Longrightarrow> live rng'"
  by (auto simp: pick_def Let_def dest: live_next split: if_splits option.splits prod.splits)

lemma pick_nonempty:
  assumes "fuzz_count_penalty_div ps \<noteq> 0" "entries c \<noteq> []" "length (entries c) < 2 ^ 32"
  shows "\<exists>ws i rng'. collect_scores ps rare (entries c) = Some ws \<and> length ws = length (entries c) \<and>
    (\<forall>j < length ws. score ps (entries c ! j) rare = Some (ws ! j)) \<and>
    pick ps c rare rng = Some (Some i, rng') \<and> i < length (entries c) \<and>
    (let needle = unat (fst (next_u64 rng)) mod weight_sum ws
     in weight_sum (take i ws) \<le> needle \<and> needle < weight_sum (take (Suc i) ws))"
proof -
  obtain ws where ws: "collect_scores ps rare (entries c) = Some ws" "length ws = length (entries c)"
      "\<forall>i < length (entries c). score ps (entries c ! i) rare = Some (ws ! i)"
    using collect_scores_total [OF assms(1)] by blast
  have fits: "unat (sum_list (map ucast ws) :: u64) = weight_sum ws"
    using weight_sum_fits ws(2) assms(3) by simp
  have "ws ! 0 \<noteq> 0" using ws assms(2) score_pos [of ps "entries c ! 0" rare "ws ! 0"] by fastforce
  moreover have "ws ! 0 \<in> set ws" using ws(2) assms(2) by simp
  ultimately have pos: "0 < weight_sum ws" by (rule weight_sum_pos [rotated])
  then have nz: "(sum_list (map ucast ws) :: u64) \<noteq> 0" using fits by (metis unat_0 less_irrefl)
  obtain x rng' where x: "next_u64 rng = (x, rng')" by fastforce
  let ?needle = "x mod (sum_list (map ucast ws) :: u64)"
  have needle: "unat ?needle = unat x mod weight_sum ws" by (simp add: unat_mod fits)
  then have "unat ?needle < weight_sum ws" using pos by simp
  from pick_loop_interval [OF this, of 0] obtain i where i: "i < length ws" "pick_loop 0 ws ?needle = Some i"
      "weight_sum (take i ws) \<le> unat ?needle" "unat ?needle < weight_sum (take (Suc i) ws)" by auto
  then show ?thesis
    using ws x nz assms(2) needle by (auto simp: pick_def corpus_is_empty_def Let_def)
qed

section \<open>Properties\<close>

text \<open>
  The weighted choice is total, in range and proportional. With a non-zero penalty divisor
  and fewer than \<open>2 ^ 32\<close> entries, picking from a non-empty corpus returns an index of the
  corpus; every weight is at least one; and the index is the one whose interval of the running
  weight sums holds the drawn number modulo the exact (not wrapped) total weight, so each entry
  is chosen for as many residues as its score.
\<close>

theorem pick_proportional:
  assumes "fuzz_count_penalty_div ps \<noteq> 0" "entries c \<noteq> []" "length (entries c) < 2 ^ 32"
  shows "\<exists>ws i rng'. collect_scores ps rare (entries c) = Some ws \<and> length ws = length (entries c) \<and>
    (\<forall>j < length ws. score ps (entries c ! j) rare = Some (ws ! j) \<and> ws ! j \<ge> 1) \<and>
    pick ps c rare rng = Some (Some i, rng') \<and> i < length (entries c) \<and>
    (let needle = unat (fst (next_u64 rng)) mod weight_sum ws
     in weight_sum (take i ws) \<le> needle \<and> needle < weight_sum (take i ws) + unat (ws ! i))"
proof -
  obtain ws i rng' where w: "collect_scores ps rare (entries c) = Some ws" "length ws = length (entries c)"
      "\<forall>j < length ws. score ps (entries c ! j) rare = Some (ws ! j)"
      "pick ps c rare rng = Some (Some i, rng')" "i < length (entries c)"
      "let needle = unat (fst (next_u64 rng)) mod weight_sum ws
       in weight_sum (take i ws) \<le> needle \<and> needle < weight_sum (take (Suc i) ws)"
    using pick_nonempty [OF assms] by blast
  have "weight_sum (take (Suc i) ws) = weight_sum (take i ws) + unat (ws ! i)"
    using w(2,5) by (simp add: weight_sum_def take_Suc_conv_app_nth)
  then show ?thesis using w score_pos by (auto simp: Let_def)
qed

theorem pick_proportional_witness:
  "\<exists>i rng'. pick power_schedule_default (demo_corpus\<lparr>entries := [demo_entry, demo_entry]\<rparr>) (rare_new 2)
      (xorshift_new 1) = Some (Some i, rng') \<and> i < 2"
  using pick_proportional [of power_schedule_default "demo_corpus\<lparr>entries := [demo_entry, demo_entry]\<rparr>" "rare_new 2"
    "xorshift_new 1"]
  by (fastforce simp: power_schedule_default_def)

text \<open>
  The over-fuzz penalty is computed in 64 bits and truncated to 32: an entry fuzzed
  \<open>10 * 2 ^ 32\<close> times has the score of one never fuzzed.
\<close>

theorem penalty_truncates:
  "score power_schedule_default (e\<lparr>metadata := (metadata e)\<lparr>times_fuzzed := 42949672960\<rparr>\<rparr>) r =
   score power_schedule_default (e\<lparr>metadata := (metadata e)\<lparr>times_fuzzed := 0\<rparr>\<rparr>) r"
proof -
  have "(4294967296 :: u32) = 0" by code_simp
  then have "saturating_sub a (4294967296 :: u32) = saturating_sub a 0" for a by (simp only:)
  then show ?thesis by (simp add: score_def power_schedule_default_def Let_def)
qed

end
