(* ===== verification/Fuzz_Session.thy ===== *)
theory Fuzz_Session
  imports Crash_Db Fuzz_Scheduler Model_Validator Corpus_Bridge
begin

text \<open>
  The fuzz session (\<open>src/fuzzer/session.rs\<close>): pick, mutate, execute, classify, store. It composes
  the schedule, the mutators, an executor, the coverage map, the crash table and the corpus on
  one file system. The executor is passed as the functions of its trait; a panic of any part
  is \<^const>\<open>None\<close>. The timeout is not modelled (no executor reads it).

  The lemmas show, for every executor that satisfies the contract and every disk behaviour,
  that a session never panics and keeps its invariant; what each outcome means; and where the
  loop departs from the discipline the bridge follows: the shared map is updated before the
  corpus, the age of an entry is never updated, and the staged copy of a kept input stays.
\<close>

section \<open>State\<close>

datatype IterationOutcome = IterNewCoverage | IterNewCrash | IterDuplicateCrash | IterNoChange | IterSkip

record SessionStats =
  iterations :: u64
  corpus_size :: nat
  unique_crashes :: nat
  edges_covered :: nat
  stats_seed :: u64

record FuzzSession =
  fz_corpus :: FuzzCorpus
  fz_crashes :: CrashDb
  coverage_global :: CoverageMap
  fz_rng :: Xorshift64
  schedule :: PowerSchedule
  fz_rare :: RareEdges
  fz_dict :: Dictionary
  fz_splice_pool :: "bytes list"
  iter_count :: u64
  max_input_len :: nat
  out_dir :: path
  fz_seed :: u64

definition session_new :: "path \<Rightarrow> u64 \<Rightarrow> FS \<Rightarrow> (IoError, FuzzSession) result \<times> FS" where
  "session_new dir seed fs =
     io_bind (sys_nop fs) (\<lambda>_ fs.
       io_bind (corpus_open (path_join dir ''queue'') fs) (\<lambda>corpus fs.
         io_bind (crash_open (path_join dir ''crashes'') fs) (\<lambda>crashes fs.
           (Ok \<lparr>fz_corpus = corpus, fz_crashes = crashes, coverage_global = coverage_map_new,
                fz_rng = xorshift_new seed, schedule = power_schedule_default, fz_rare = rare_new 2,
                fz_dict = \<lparr>tokens = []\<rparr>, fz_splice_pool = [], iter_count = 0, max_input_len = 4096,
                out_dir = dir, fz_seed = seed\<rparr>, fs))))"

definition with_dictionary :: "Dictionary \<Rightarrow> FuzzSession \<Rightarrow> FuzzSession" where
  "with_dictionary d s = s\<lparr>fz_dict := d\<rparr>"

definition with_splice_pool :: "bytes list \<Rightarrow> FuzzSession \<Rightarrow> FuzzSession" where
  "with_splice_pool p s = s\<lparr>fz_splice_pool := p\<rparr>"

definition with_max_input_len :: "nat \<Rightarrow> FuzzSession \<Rightarrow> FuzzSession" where
  "with_max_input_len n s = s\<lparr>max_input_len := n\<rparr>"

text \<open>The parts of the environment: hash, JSON printer and clock.\<close>

record Env =
  env_blake3 :: "blob \<Rightarrow> blob"
  env_json :: "Json \<Rightarrow> (IoError, blob) result"
  env_now :: u128

section \<open>Operations\<close>

text \<open>The three ends of \<open>execute_and_record\<close>: the crash path, the novelty path, the plain path.\<close>

definition discard_staged :: "string \<Rightarrow> FuzzSession \<Rightarrow> FS \<Rightarrow> (IoError, unit) result \<times> FS" where
  "discard_staged cand_id s fs = discard (corpus_staging (fz_corpus s)) cand_id fs"

definition crash_outcome ::
  "Env \<Rightarrow> string \<Rightarrow> blob \<Rightarrow> CrashInfo option \<Rightarrow> CrashDb \<Rightarrow> FS \<Rightarrow> (IoError, IterationOutcome) result \<times> CrashDb \<times> FS" where
  "crash_outcome env cand_id candidate info db fs =
     (case info of
        None \<Rightarrow> (Ok IterDuplicateCrash, db, fs)
      | Some info \<Rightarrow>
          (case dedup_and_store (env_blake3 env) (env_json env) (env_now env) cand_id candidate info db fs of
             (r, db, fs) \<Rightarrow>
               (map_sum (\<lambda>e. e) (\<lambda>sig. if sig = None then IterDuplicateCrash else IterNewCrash) r, db, fs)))"

definition record_crash ::
  "Env \<Rightarrow> string \<Rightarrow> blob \<Rightarrow> ExecutionResult \<Rightarrow> FuzzSession \<Rightarrow> FS \<Rightarrow>
   (IoError, IterationOutcome) result \<times> FuzzSession \<times> FS" where
  "record_crash env cand_id candidate res s fs =
     (case crash_outcome env cand_id candidate (crash res) (fz_crashes s) fs of
        (Err e, db, fs) \<Rightarrow> (Err e, s\<lparr>fz_crashes := db\<rparr>, fs)
      | (Ok outcome, db, fs) \<Rightarrow>
          (case discard_staged cand_id s fs of
             (Err e, fs) \<Rightarrow> (Err e, s\<lparr>fz_crashes := db\<rparr>, fs)
           | (Ok _, fs) \<Rightarrow> (Ok outcome, s\<lparr>fz_crashes := db\<rparr>, fs)))"

definition record_novel ::
  "Env \<Rightarrow> string \<Rightarrow> blob \<Rightarrow> string option \<Rightarrow> ExecutionResult \<Rightarrow> Novelty \<Rightarrow> CoverageMap \<Rightarrow> FuzzSession \<Rightarrow> FS \<Rightarrow>
   (IoError, IterationOutcome) result \<times> FuzzSession \<times> FS" where
  "record_novel env cand_id candidate parent res novelty local_map s fs =
     (let entry = \<lparr>qe_id = cand_id, parent_id = parent, qe_input = candidate,
                   metadata = from_novelty (env_now env) novelty (exec_us res)\<rparr>
      in case corpus_add entry (fz_corpus s) fs of
           (Err e, c, fs) \<Rightarrow> (Err e, s\<lparr>fz_corpus := c\<rparr>, fs)
         | (Ok _, c, fs) \<Rightarrow>
             (Ok IterNewCoverage, s\<lparr>fz_corpus := c, fz_rare := observe_map local_map (fz_rare s)\<rparr>, fs))"

definition record_plain ::
  "string \<Rightarrow> FuzzSession \<Rightarrow> FS \<Rightarrow> (IoError, IterationOutcome) result \<times> FuzzSession \<times> FS" where
  "record_plain cand_id s fs =
     (case discard_staged cand_id s fs of
        (Err e, fs) \<Rightarrow> (Err e, s, fs)
      | (Ok _, fs) \<Rightarrow> (Ok IterNoChange, s, fs))"

definition execute_and_record ::
  "Env \<Rightarrow> ('s \<Rightarrow> blob \<Rightarrow> ExecutionResult \<times> 's) \<Rightarrow> ('s \<Rightarrow> CoverageMap) \<Rightarrow> blob \<Rightarrow> string option \<Rightarrow>
   's \<Rightarrow> FuzzSession \<Rightarrow> FS \<Rightarrow> (IoError, IterationOutcome) result \<times> 's \<times> FuzzSession \<times> FS" where
  "execute_and_record env run emap candidate parent ex s fs =
     (let cand_id = input_id (env_blake3 env) candidate
      in case stage_for_execution (fz_corpus s) cand_id candidate fs of
           (Err e, fs) \<Rightarrow> (Err e, ex, s, fs)
         | (Ok _, fs) \<Rightarrow>
             let (res, ex) = run ex candidate;
                 (novelty, g) = classify (emap ex) (coverage_global s);
                 s = s\<lparr>coverage_global := g\<rparr>;
                 (r, s, fs) =
                   (if should_dedupe (exit_kind res) then record_crash env cand_id candidate res s fs
                    else if is_interesting novelty then
                      record_novel env cand_id candidate parent res novelty (emap ex) s fs
                    else record_plain cand_id s fs)
             in (r, ex, s, fs))"

definition seed_with ::
  "Env \<Rightarrow> ('s \<Rightarrow> blob \<Rightarrow> ExecutionResult \<times> 's) \<Rightarrow> ('s \<Rightarrow> CoverageMap) \<Rightarrow> blob \<Rightarrow>
   's \<Rightarrow> FuzzSession \<Rightarrow> FS \<Rightarrow> (IoError, IterationOutcome) result \<times> 's \<times> FuzzSession \<times> FS" where
  "seed_with env run emap bytes ex s fs = execute_and_record env run emap bytes None ex s fs"

definition fuzz_one ::
  "Env \<Rightarrow> ('s \<Rightarrow> blob \<Rightarrow> ExecutionResult \<times> 's) \<Rightarrow> ('s \<Rightarrow> CoverageMap) \<Rightarrow>
   's \<Rightarrow> FuzzSession \<Rightarrow> FS \<Rightarrow> ((IoError, IterationOutcome) result \<times> 's \<times> FuzzSession \<times> FS) option" where
  "fuzz_one env run emap ex s fs =
     (case pick (schedule s) (fz_corpus s) (fz_rare s) (fz_rng s) of
        None \<Rightarrow> None
      | Some (None, rng) \<Rightarrow> Some (Ok IterSkip, ex, s\<lparr>fz_rng := rng\<rparr>, fs)
      | Some (Some idx, rng) \<Rightarrow>
          if idx \<ge> corpus_len (fz_corpus s) then None
          else
            let entry = entries (fz_corpus s) ! idx;
                ctx = \<lparr>dict = fz_dict s, splice_pool = fz_splice_pool s, max_len = max_input_len s\<rparr>
            in case apply_random_mutation (qe_input entry) rng ctx of
                 None \<Rightarrow> None
               | Some ((mutated, _), rng) \<Rightarrow>
                   Some (execute_and_record env run emap mutated (Some (qe_id entry)) ex
                     (s\<lparr>fz_rng := rng, iter_count := iter_count s + 1\<rparr>) fs))"

definition stats :: "FuzzSession \<Rightarrow> SessionStats" where
  "stats s =
     \<lparr>iterations = iter_count s, corpus_size = corpus_len (fz_corpus s), unique_crashes = crash_len (fz_crashes s),
      edges_covered = length (filter (\<lambda>b. b > 0) (inner (coverage_global s))), stats_seed = fz_seed s\<rparr>"

fun session_run ::
  "Env \<Rightarrow> ('s \<Rightarrow> blob \<Rightarrow> ExecutionResult \<times> 's) \<Rightarrow> ('s \<Rightarrow> CoverageMap) \<Rightarrow> nat \<Rightarrow>
   's \<Rightarrow> FuzzSession \<Rightarrow> FS \<Rightarrow> ((IoError, SessionStats) result \<times> 's \<times> FuzzSession \<times> FS) option" where
  "session_run env run emap 0 ex s fs = Some (Ok (stats s), ex, s, fs)"
| "session_run env run emap (Suc n) ex s fs =
     (case fuzz_one env run emap ex s fs of
        None \<Rightarrow> None
      | Some (Err e, ex, s, fs) \<Rightarrow> Some (Err e, ex, s, fs)
      | Some (Ok _, ex, s, fs) \<Rightarrow> session_run env run emap n ex s fs)"

section \<open>Invariant\<close>

definition unaged :: "FuzzCorpus \<Rightarrow> bool" where
  "unaged c \<longleftrightarrow> (\<forall>e \<in> set (entries c). times_fuzzed (metadata e) = 0)"

definition session_inv :: "FuzzSession \<Rightarrow> FS \<Rightarrow> bool" where
  "session_inv s fs \<longleftrightarrow>
     corpus_inv (fz_corpus s) fs \<and> wf_global (coverage_global s) \<and> live (fz_rng s) \<and>
     fuzz_count_penalty_div (schedule s) \<noteq> 0 \<and> table_ok (fz_crashes s) \<and> unaged (fz_corpus s) \<and>
     queue_dir (fz_corpus s) = path_join (out_dir s) ''queue'' \<and>
     crashes_dir (fz_crashes s) = path_join (out_dir s) ''crashes''"

lemma pick_in_range:
  assumes "fuzz_count_penalty_div ps \<noteq> 0"
  shows "\<exists>x rng'. pick ps c r rng = Some (x, rng') \<and> (case x of None \<Rightarrow> entries c = [] | Some i \<Rightarrow> i < corpus_len c)"
proof -
  have loop: "pick_loop k ws n = Some i \<Longrightarrow> i < k + length ws" for k ws n i
    by (induction ws arbitrary: k n) (fastforce simp: Let_def split: if_splits)+
  obtain ws where "collect_scores ps r (entries c) = Some ws" "length ws = length (entries c)"
    using collect_scores_total [OF assms] by blast
  then show ?thesis
    using loop [of 0 ws]
    by (auto simp: pick_def corpus_is_empty_def corpus_len_def Let_def split: option.splits prod.splits)
qed

lemma persist_crash_frame:
  assumes "\<forall>q. p \<noteq> path_join (crashes_dir db) q"
  shows "fs_read (snd (persist_crash js db sig i b info fs)) p = fs_read fs p"
proof -
  have ne: "p \<noteq> path_join (path_join (crashes_dir db) (sig_to_hex sig)) f"
    "p \<noteq> with_tmp_extension (path_join (path_join (crashes_dir db) (sig_to_hex sig)) f)" for f
    using assms by (auto simp: path_join_def with_tmp_extension_def)
  then have w: "fs_read (snd (write_atomic (path_join (path_join (crashes_dir db) (sig_to_hex sig)) f) bs fs1)) p = fs_read fs1 p"
    for f bs fs1
    using write_atomic_other [of _ bs fs1 _ _ p] by (metis prod.collapse)
  show ?thesis
    unfolding persist_crash_def Let_def
    by (intro io_bind_frame) (simp_all add: fs_reads w)
qed

lemma dedup_frame:
  assumes "dedup_and_store bl js now i b info db fs = (r, db', fs')" "\<forall>q. p \<noteq> path_join (crashes_dir db) q"
  shows "fs_read fs' p = fs_read fs p"
  using assms(1) persist_crash_frame [OF assms(2), of js "signature_for bl info" i b info fs]
  by (cases rule: dedup_cases) simp_all

lemma dedup_corpus_inv:
  assumes "corpus_inv c fs" "queue_dir c = path_join d ''queue''" "crashes_dir db = path_join d ''crashes''"
    "dedup_and_store bl js now i b info db fs = (r, db', fs')"
  shows "corpus_inv c fs'"
proof (rule corpus_inv_frame [OF assms(1)])
  fix j
  have "\<forall>q. path_join (queue_dir c) j \<noteq> path_join (crashes_dir db) q"
    using assms(2,3) by (simp add: path_join_def)
  then show "fs_read fs' (path_join (queue_dir c) j) = fs_read fs (path_join (queue_dir c) j)"
    using dedup_frame [OF assms(4)] by blast
qed

lemma unaged_add:
  assumes "corpus_add e c fs = (r, c', fs')" "unaged c" "times_fuzzed (metadata e) = 0"
  shows "unaged c' \<and> queue_dir c' = queue_dir c \<and> corpus_staging c' = corpus_staging c"
  using assms by (cases rule: corpus_add_cases) (auto simp: unaged_def)

lemma discard_staged_inv:
  assumes "session_inv s fs" "plain_id i" "discard_staged i s fs = (r, fs')"
  shows "session_inv s fs'"
  using discard_corpus_inv [of "fz_corpus s" fs i r fs'] assms by (simp add: session_inv_def discard_staged_def)

lemma crash_outcome_inv:
  assumes "session_inv s fs" "crash_outcome env i b info (fz_crashes s) fs = (r, db, fs')"
  shows "session_inv (s\<lparr>fz_crashes := db\<rparr>) fs'"
proof (cases info)
  case None
  then show ?thesis using assms by (auto simp: crash_outcome_def session_inv_def)
next
  case (Some c)
  obtain r1 where d: "dedup_and_store (env_blake3 env) (env_json env) (env_now env) i b c (fz_crashes s) fs = (r1, db, fs')"
    using assms(2) Some by (auto simp: crash_outcome_def split: prod.splits)
  show ?thesis
    using assms(1) dedup_corpus_inv [OF _ _ _ d] dedup_table [OF _ d] by (auto simp: session_inv_def)
qed

lemma record_crash_inv:
  assumes "session_inv s fs" "plain_id i" "record_crash env i b res s fs = (r, s', fs')"
  shows "session_inv s' fs'"
proof -
  obtain o1 db fs1 where c: "crash_outcome env i b (crash res) (fz_crashes s) fs = (o1, db, fs1)"
    by (cases "crash_outcome env i b (crash res) (fz_crashes s) fs") auto
  note i1 = crash_outcome_inv [OF assms(1) c]
  have "discard_staged i (s\<lparr>fz_crashes := db\<rparr>) fs1 = discard_staged i s fs1" by (simp add: discard_staged_def)
  then show ?thesis
    using assms(3) c i1 discard_staged_inv [OF i1 assms(2)]
    by (auto simp: record_crash_def split: sum.splits prod.splits)
qed

lemma record_novel_inv:
  assumes "session_inv s fs" "plain_id i" "record_novel env i b par res n m s fs = (r, s', fs')"
  shows "session_inv s' fs'"
proof -
  let ?e = "\<lparr>qe_id = i, parent_id = par, qe_input = b, metadata = from_novelty (env_now env) n (exec_us res)\<rparr>"
  obtain a c fs1 where c: "corpus_add ?e (fz_corpus s) fs = (a, c, fs1)"
    by (cases "corpus_add ?e (fz_corpus s) fs") auto
  have "corpus_inv c fs1" using queue.add_inv [OF _ _ c] assms(1,2) by (simp add: session_inv_def)
  moreover have "unaged c \<and> queue_dir c = queue_dir (fz_corpus s) \<and> corpus_staging c = corpus_staging (fz_corpus s)"
    using unaged_add [OF c] assms(1) by (simp add: session_inv_def from_novelty_def)
  ultimately show ?thesis
    using assms(1,3) c by (auto simp: record_novel_def session_inv_def split: sum.splits)
qed

lemma record_plain_inv:
  assumes "session_inv s fs" "plain_id i" "record_plain i s fs = (r, s', fs')"
  shows "session_inv s' fs'"
  using discard_staged_inv [OF assms(1,2)] assms(3)
  by (auto simp: record_plain_def split: prod.splits sum.splits)

text \<open>The stages of one execution.\<close>

lemma execute_cases:
  assumes "execute_and_record env run emap b par ex s fs = (r, ex', s', fs')"
  obtains (unstaged) e where
      "stage_for_execution (fz_corpus s) (input_id (env_blake3 env) b) b fs = (Err e, fs')"
      "r = Err e" "ex' = ex" "s' = s"
  | (ran) p fs1 res n s1 where
      "stage_for_execution (fz_corpus s) (input_id (env_blake3 env) b) b fs = (Ok p, fs1)"
      "run ex b = (res, ex')" "n = classify_against_snapshot (emap ex') (coverage_global s)"
      "s1 = s\<lparr>coverage_global := merge_into_global (emap ex') (coverage_global s)\<rparr>"
      "(if should_dedupe (exit_kind res) then record_crash env (input_id (env_blake3 env) b) b res s1 fs1
        else if is_interesting n then record_novel env (input_id (env_blake3 env) b) b par res n (emap ex') s1 fs1
        else record_plain (input_id (env_blake3 env) b) s1 fs1) = (r, s', fs')"
proof -
  obtain sr fs1 where sg: "stage_for_execution (fz_corpus s) (input_id (env_blake3 env) b) b fs = (sr, fs1)"
    by fastforce
  obtain res ex1 where rn: "run ex b = (res, ex1)" by fastforce
  show ?thesis
  proof (cases sr)
    case (Inl e)
    with assms sg have "fs1 = fs'" "r = Err e" "ex' = ex" "s' = s" by (auto simp: execute_and_record_def Let_def)
    then show ?thesis using unstaged sg Inl by blast
  next
    case (Inr p)
    let ?s1 = "s\<lparr>coverage_global := merge_into_global (emap ex1) (coverage_global s)\<rparr>"
    obtain r2 s2 fs2 where t: "(if should_dedupe (exit_kind res) then record_crash env (input_id (env_blake3 env) b) b res ?s1 fs1
        else if is_interesting (classify_against_snapshot (emap ex1) (coverage_global s))
        then record_novel env (input_id (env_blake3 env) b) b par res
          (classify_against_snapshot (emap ex1) (coverage_global s)) (emap ex1) ?s1 fs1
        else record_plain (input_id (env_blake3 env) b) ?s1 fs1) = (r2, s2, fs2)"
      by (metis prod_cases3)
    have eq: "r = r2" "ex' = ex1" "s' = s2" "fs' = fs2"
      using assms sg Inr rn t by (simp_all add: execute_and_record_def classify_def Let_def)
    show ?thesis
      by (rule ran [unfolded eq, OF sg [unfolded Inr] rn refl refl t])
  qed
qed

text \<open>An execution only appends to the corpus, and does not count iterations.\<close>

definition grows :: "FuzzSession \<Rightarrow> FuzzSession \<Rightarrow> bool" where
  "grows s s' \<longleftrightarrow> (\<exists>new. entries (fz_corpus s') = entries (fz_corpus s) @ new)"

lemma grows_refl: "entries (fz_corpus s') = entries (fz_corpus s) \<Longrightarrow> grows s s'"
  by (simp add: grows_def)

lemma grows_trans: "grows a b \<Longrightarrow> grows b c \<Longrightarrow> grows a c"
  by (fastforce simp: grows_def)

lemma corpus_add_grows:
  assumes "corpus_add e c fs = (r, c', fs')"
  shows "\<exists>new. entries c' = entries c @ new"
  using assms by (cases rule: corpus_add_cases) auto

lemma record_crash_grows:
  assumes "record_crash env i b res s fs = (r, s', fs')"
  shows "fz_corpus s' = fz_corpus s \<and> iter_count s' = iter_count s"
  using assms by (auto simp: record_crash_def split: sum.splits prod.splits)

lemma record_plain_grows:
  assumes "record_plain i s fs = (r, s', fs')"
  shows "s' = s"
  using assms by (auto simp: record_plain_def split: sum.splits prod.splits)

lemma record_novel_grows:
  assumes "record_novel env i b par res n m s fs = (r, s', fs')"
  shows "grows s s' \<and> iter_count s' = iter_count s"
  using assms
  by (auto simp: record_novel_def grows_def Let_def dest: corpus_add_grows split: sum.splits prod.splits)

lemma execute_grows:
  assumes "execute_and_record env run emap b par ex s fs = (r, ex', s', fs')"
  shows "grows s s' \<and> iter_count s' = iter_count s"
  using assms
proof (cases rule: execute_cases)
  case unstaged
  then show ?thesis by (simp add: grows_refl)
next
  case (ran p fs1 res n s1)
  have "grows s1 s' \<and> iter_count s' = iter_count s1"
    using ran(5) record_crash_grows record_plain_grows record_novel_grows
    by (metis grows_refl)
  then show ?thesis using ran(4) by (simp add: grows_def)
qed

text \<open>Every executor that satisfies the contract can drive a session.\<close>

definition hash_ok :: "Env \<Rightarrow> bool" where
  "hash_ok env \<longleftrightarrow> (\<forall>b. length (env_blake3 env b) = 32)"

context fuzz_executor
begin

lemma execute_inv:
  assumes "hash_ok env" "ok ex" "session_inv s fs"
    "execute_and_record env run emap b par ex s fs = (r, ex', s', fs')"
  shows "ok ex' \<and> session_inv s' fs'"
proof -
  let ?i = "input_id (env_blake3 env) b"
  have pid: "plain_id ?i" using assms(1) input_id_plain by (simp add: hash_ok_def)
  show ?thesis
    using assms(4)
  proof (cases rule: execute_cases)
    case (unstaged e)
    then show ?thesis
      using assms(2,3) stage_corpus_inv [OF _ pid unstaged(1)] by (simp add: session_inv_def)
  next
    case (ran p fs1 res n s1)
    have ex: "ok ex'" using run_ok [OF assms(2), of b] ran(2) by simp
    have "session_inv s1 fs1"
      using assms(3) stage_corpus_inv [OF _ pid ran(1)] wf_global_merge [OF map_ok [OF ex]] ran(4)
      by (simp add: session_inv_def)
    then show ?thesis
      using ran(5) ex record_crash_inv [OF _ pid] record_novel_inv [OF _ pid] record_plain_inv [OF _ pid]
      by (metis (full_types))
  qed
qed

lemma fuzz_one_total:
  assumes "hash_ok env" "ok ex" "session_inv s fs"
  shows "\<exists>r ex' s' fs'. fuzz_one env run emap ex s fs = Some (r, ex', s', fs') \<and> ok ex' \<and> session_inv s' fs' \<and>
    grows s s' \<and> (entries (fz_corpus s) \<noteq> [] \<longrightarrow> iter_count s' = iter_count s + 1)"
proof -
  obtain x rng where p: "pick (schedule s) (fz_corpus s) (fz_rare s) (fz_rng s) = Some (x, rng)"
      "case x of None \<Rightarrow> entries (fz_corpus s) = [] | Some i \<Rightarrow> i < corpus_len (fz_corpus s)"
    using pick_in_range [of "schedule s"] assms(3) by (metis session_inv_def)
  have lv: "live rng" using live_pick [OF p(1)] assms(3) by (simp add: session_inv_def)
  show ?thesis
  proof (cases x)
    case None
    then show ?thesis using p lv assms by (simp add: fuzz_one_def session_inv_def grows_def)
  next
    case (Some idx)
    let ?e = "entries (fz_corpus s) ! idx"
    let ?ctx = "\<lparr>dict = fz_dict s, splice_pool = fz_splice_pool s, max_len = max_input_len s\<rparr>"
    obtain k g where k: "rng_range 10 rng = (k, g)" by fastforce
    obtain out m rng2 where a: "apply_random_mutation (qe_input ?e) rng ?ctx = Some ((out, m), rng2)"
        "live rng \<longrightarrow> live rng2"
      using apply_random_ok [of "qe_input ?e" rng ?ctx] by blast
    let ?s = "s\<lparr>fz_rng := rng2, iter_count := iter_count s + 1\<rparr>"
    have inv: "session_inv ?s fs" using assms(3) a(2) lv by (simp add: session_inv_def)
    obtain r ex' s' fs' where e: "execute_and_record env run emap out (Some (qe_id ?e)) ex ?s fs = (r, ex', s', fs')"
      by (metis prod_cases4)
    then show ?thesis
      using execute_inv [OF assms(1,2) inv e] execute_grows [OF e] p Some a(1)
      by (simp add: fuzz_one_def grows_def Let_def)
  qed
qed

lemma session_run_total:
  assumes "hash_ok env" "ok ex" "session_inv s fs"
  shows "\<exists>r ex' s' fs'. session_run env run emap n ex s fs = Some (r, ex', s', fs') \<and> ok ex' \<and> session_inv s' fs' \<and>
    grows s s' \<and>
    (case r of
       Err _ \<Rightarrow> True
     | Ok st \<Rightarrow> st = stats s' \<and> (entries (fz_corpus s) \<noteq> [] \<longrightarrow> iter_count s' = iter_count s + of_nat n))"
  using assms(2,3)
proof (induction n arbitrary: ex s fs)
  case 0
  then show ?case by (simp add: grows_def)
next
  case (Suc n)
  obtain r ex1 s1 fs1 where f: "fuzz_one env run emap ex s fs = Some (r, ex1, s1, fs1)" "ok ex1" "session_inv s1 fs1"
    "grows s s1" "entries (fz_corpus s) \<noteq> [] \<longrightarrow> iter_count s1 = iter_count s + 1"
    using fuzz_one_total [OF assms(1) Suc.prems] by blast
  show ?case
  proof (cases r)
    case (Inl e)
    then show ?thesis using f by simp
  next
    case (Inr x)
    obtain r' ex' s' fs' where run: "session_run env run emap n ex1 s1 fs1 = Some (r', ex', s', fs')" "ok ex'"
      "session_inv s' fs'" "grows s1 s'"
      "case r' of Err _ \<Rightarrow> True | Ok st \<Rightarrow> st = stats s' \<and> (entries (fz_corpus s1) \<noteq> [] \<longrightarrow> iter_count s' = iter_count s1 + of_nat n)"
      using Suc.IH [OF f(2,3)] by blast
    have "entries (fz_corpus s) \<noteq> [] \<longrightarrow> entries (fz_corpus s1) \<noteq> []" using f(4) by (auto simp: grows_def)
    then have "case r' of Err _ \<Rightarrow> True
        | Ok st \<Rightarrow> st = stats s' \<and> (entries (fz_corpus s) \<noteq> [] \<longrightarrow> iter_count s' = iter_count s + of_nat (Suc n))"
      using run(5) f(5) by (auto split: sum.splits)
    moreover have "session_run env run emap (Suc n) ex s fs = Some (r', ex', s', fs')" using f(1) Inr run(1) by simp
    ultimately show ?thesis using run(2,3) grows_trans [OF f(4) run(4)] by blast
  qed
qed

end

section \<open>Properties\<close>

lemma session_new_inv:
  assumes "session_new dir seed fs = (Ok s, fs')"
  shows "session_inv s fs'"
proof -
  obtain c fs1 db fs2 where o: "corpus_open (path_join dir ''queue'') fs1 = (Ok c, fs2)"
      "crash_open (path_join dir ''crashes'') fs2 = (Ok db, fs')"
      "s = \<lparr>fz_corpus = c, fz_crashes = db, coverage_global = coverage_map_new,
                fz_rng = xorshift_new seed, schedule = power_schedule_default, fz_rare = rare_new 2,
                fz_dict = \<lparr>tokens = []\<rparr>, fz_splice_pool = [], iter_count = 0, max_input_len = 4096,
                out_dir = dir, fz_seed = seed\<rparr>"
    using assms by (auto simp: session_new_def io_bind_Ok)
  have db: "db = \<lparr>seen = [], crashes_dir = path_join dir ''crashes''\<rparr>" and read: "fs_read fs' = fs_read fs2"
    using o(2) sys_nop_readD by (auto simp: crash_open_def io_bind_Ok fun_eq_iff)
  have c: "corpus_inv c fs2" "entries c = []" "queue_dir c = path_join dir ''queue''"
    using corpus_open_inv [OF o(1)] o(1) by (auto simp: corpus_open_def io_bind_Ok)
  then have "corpus_inv c fs'" using read by (simp add: corpus_inv_def on_disk_def)
  then show ?thesis
    using c db o(3)
    by (simp add: session_inv_def table_ok_def crash_get_def unaged_def power_schedule_default_def)
qed

text \<open>
  The states of a session on the emulator: opened, seeded, given a dictionary, a splice pool or another
  length limit, and fuzzed, in any order and with any outcome of the input and output.
\<close>

inductive session_reachable ::
  "Env \<Rightarrow> edge_hasher \<Rightarrow> (u8 list \<Rightarrow> u64) \<Rightarrow> EmulatorExecutor \<Rightarrow> FuzzSession \<Rightarrow> FS \<Rightarrow> bool" for env ah hs where
  opened: "session_new dir seed fs = (Ok s, fs1) \<Longrightarrow> wf_map (ee_map ex) \<Longrightarrow> session_reachable env ah hs ex s fs1"
| seeded: "session_reachable env ah hs ex s fs \<Longrightarrow>
    seed_with env (emulator_run ah hs) ee_map b ex s fs = (r, ex', s', fs') \<Longrightarrow> session_reachable env ah hs ex' s' fs'"
| dictionary: "session_reachable env ah hs ex s fs \<Longrightarrow> session_reachable env ah hs ex (with_dictionary d s) fs"
| splice_pool: "session_reachable env ah hs ex s fs \<Longrightarrow> session_reachable env ah hs ex (with_splice_pool p s) fs"
| max_input: "session_reachable env ah hs ex s fs \<Longrightarrow> session_reachable env ah hs ex (with_max_input_len n s) fs"
| fuzzed: "session_reachable env ah hs ex s fs \<Longrightarrow>
    fuzz_one env (emulator_run ah hs) ee_map ex s fs = Some (r, ex', s', fs') \<Longrightarrow> session_reachable env ah hs ex' s' fs'"

lemma session_reachable_inv:
  assumes "hash_ok env"
  shows "session_reachable env ah hs ex s fs \<Longrightarrow> wf_map (ee_map ex) \<and> session_inv s fs"
proof (induction rule: session_reachable.induct)
  case (opened dir seed fs s fs1 ex)
  then show ?case using session_new_inv by blast
next
  case (seeded ex s fs b r ex' s' fs')
  then show ?case using emulator.execute_inv [OF assms, of ex s fs] by (auto simp: seed_with_def)
next
  case (fuzzed ex s fs r ex' s' fs')
  then show ?case using emulator.fuzz_one_total [OF assms, of ex s fs ah hs] by auto
qed (simp_all add: session_inv_def with_dictionary_def with_splice_pool_def with_max_input_len_def)

text \<open>
  C15: a fuzzing session on the emulator never panics and never corrupts its state. From every state that
  opening, seeding, configuring and fuzzing reach, a run of any number of iterations returns its statistics
  or the first input/output error, whatever the disk does; the corpus index, the files behind it, the
  bucket map, the crash table and the generator satisfy their invariants at the end, and no corpus entry
  is lost or changed. A run that returns statistics from a non-empty corpus has made all its iterations:
  the counter has grown by their number.
\<close>

theorem session_never_panics:
  assumes "hash_ok env" "session_reachable env ah hs ex s fs"
  shows "\<exists>r ex' s' fs'. session_run env (emulator_run ah hs) ee_map n ex s fs = Some (r, ex', s', fs') \<and>
    corpus_inv (fz_corpus s') fs' \<and> wf_global (coverage_global s') \<and> table_ok (fz_crashes s') \<and>
    live (fz_rng s') \<and> take (corpus_len (fz_corpus s)) (entries (fz_corpus s')) = entries (fz_corpus s) \<and>
    (case r of
       Err _ \<Rightarrow> True
     | Ok st \<Rightarrow> st = stats s' \<and>
         (entries (fz_corpus s) \<noteq> [] \<longrightarrow> iterations st = iter_count s + of_nat n))"
proof -
  obtain r ex' s' fs' where run: "session_run env (emulator_run ah hs) ee_map n ex s fs = Some (r, ex', s', fs')"
    "session_inv s' fs'" "grows s s'"
    "case r of Err _ \<Rightarrow> True
     | Ok st \<Rightarrow> st = stats s' \<and> (entries (fz_corpus s) \<noteq> [] \<longrightarrow> iter_count s' = iter_count s + of_nat n)"
    using emulator.session_run_total [OF assms(1), of ex s fs ah hs n] session_reachable_inv [OF assms] by blast
  have "case r of Err _ \<Rightarrow> True
     | Ok st \<Rightarrow> st = stats s' \<and> (entries (fz_corpus s) \<noteq> [] \<longrightarrow> iterations st = iter_count s + of_nat n)"
    using run(4) by (auto simp: stats_def split: sum.splits)
  moreover have "take (corpus_len (fz_corpus s)) (entries (fz_corpus s')) = entries (fz_corpus s)"
    using run(3) by (auto simp: grows_def corpus_len_def)
  ultimately show ?thesis using run(1,2) unfolding session_inv_def by blast
qed

definition demo_env :: Env where
  "demo_env = \<lparr>env_blake3 = (\<lambda>_. replicate 32 0), env_json = (\<lambda>_. Ok []), env_now = 0\<rparr>"

lemma demo_session_opens: "\<exists>s fs'. session_new ''o'' 1 \<lparr>files = [], faults = []\<rparr> = (Ok s, fs')"
  by (simp add: session_new_def io_bind_def sys_nop_def corpus_open_def staging_open_def crash_open_def)

text \<open>A stored crash has its input on disk, and the discarded staged copy is another file.\<close>

definition crash_input_path :: "CrashDb \<Rightarrow> CrashSignature \<Rightarrow> path" where
  "crash_input_path db sig = path_join (path_join (crashes_dir db) (sig_to_hex sig)) ''input.bin''"

lemma persist_crash_input:
  assumes "persist_crash js db sig i b info fs = (Ok u, fs')"
  shows "fs_read fs' (crash_input_path db sig) = Some b"
proof -
  let ?d = "path_join (crashes_dir db) (sig_to_hex sig)"
  obtain fs1 fs2 x where w: "write_atomic (path_join ?d ''input.bin'') b fs1 = (Ok (), fs2)"
    "write_atomic (path_join ?d ''info.json'') x fs2 = (Ok u, fs')"
    using assms by (auto simp: persist_crash_def io_bind_Ok Let_def)
  have "path_join ?d ''input.bin'' \<noteq> with_tmp_extension (path_join ?d ''info.json'')"
    by (simp add: path_join_def with_tmp_extension_def)
  then show ?thesis
    using write_atomic_ok [OF w(1)] write_atomic_ok [OF w(2)] by (simp add: crash_input_path_def)
qed

lemma discard_crash_input:
  assumes "session_inv s fs0" "discard_staged i s fs = (r, fs')"
  shows "fs_read fs' (crash_input_path (fz_crashes s) sig) = fs_read fs (crash_input_path (fz_crashes s) sig)"
proof -
  have "crash_input_path (fz_crashes s) sig \<noteq> path_join (staging_dir (corpus_staging (fz_corpus s))) i"
    using assms(1) by (simp add: session_inv_def corpus_inv_def dirs_ok_def crash_input_path_def path_join_def)
  then show ?thesis using discard_other assms(2) unfolding discard_staged_def by metis
qed

text \<open>What the crash path does to the table and the disk, for each result of storing the family.\<close>

lemma record_crash_spec:
  assumes inv: "session_inv s fs0" and info: "crash res = Some info"
    and rc: "record_crash env i b res s fs = (r, s', fs')"
  defines "sig \<equiv> signature_for (env_blake3 env) info"
  defines "stored \<equiv> persist_crash (env_json env) (fz_crashes s) sig i b info fs"
  shows "crash_get (fz_crashes s) sig = None \<Longrightarrow> isl (fst stored) \<Longrightarrow> isl r \<and> fz_crashes s' = fz_crashes s"
    and "crash_get (fz_crashes s) sig \<noteq> None \<or> \<not> isl (fst stored) \<Longrightarrow>
      crash_get (fz_crashes s') sig \<noteq> None \<and> family_count (fz_crashes s') sig = family_count (fz_crashes s) sig + 1 \<and>
      (case r of Err _ \<Rightarrow> True | Ok out \<Rightarrow> out = (if crash_get (fz_crashes s) sig = None then IterNewCrash else IterDuplicateCrash))"
    and "crash_get (fz_crashes s) sig = None \<Longrightarrow> \<not> isl (fst stored) \<Longrightarrow>
      fs_read fs' (crash_input_path (fz_crashes s) sig) = Some b"
proof -
  obtain r1 db fs1 where d: "dedup_and_store (env_blake3 env) (env_json env) (env_now env) i b info (fz_crashes s) fs = (r1, db, fs1)"
    by (metis prod_cases3)
  note rcd = rc [unfolded record_crash_def crash_outcome_def info option.case d prod.case]
  have s': "s' = s\<lparr>fz_crashes := db\<rparr>" using rcd by (auto split: sum.splits prod.splits)
  have out: "\<And>out. r = Ok out \<Longrightarrow> \<exists>x. r1 = Ok x \<and> out = (if x = None then IterDuplicateCrash else IterNewCrash)"
    using rcd by (cases r1) (auto split: sum.splits prod.splits)
  have err: "isl r1 \<Longrightarrow> isl r" using rcd by (cases r1) auto
  have disk: "\<not> isl r1 \<Longrightarrow> fs_read fs' (crash_input_path (fz_crashes s) sig) = fs_read fs1 (crash_input_path (fz_crashes s) sig)"
    using rcd discard_crash_input [OF inv, of i fs1] by (cases r1) (auto split: sum.splits prod.splits)
  show "crash_get (fz_crashes s) sig = None \<Longrightarrow> isl (fst stored) \<Longrightarrow> isl r \<and> fz_crashes s' = fz_crashes s"
    using d err s' unfolding sig_def stored_def by (cases rule: dedup_cases) auto
  show "crash_get (fz_crashes s) sig \<noteq> None \<or> \<not> isl (fst stored) \<Longrightarrow>
      crash_get (fz_crashes s') sig \<noteq> None \<and> family_count (fz_crashes s') sig = family_count (fz_crashes s) sig + 1 \<and>
      (case r of Err _ \<Rightarrow> True | Ok out \<Rightarrow> out = (if crash_get (fz_crashes s) sig = None then IterNewCrash else IterDuplicateCrash))"
    using d out s' unfolding sig_def stored_def
    by (cases rule: dedup_cases; cases r) (auto simp: crash_get_update family_count_def)
  show "crash_get (fz_crashes s) sig = None \<Longrightarrow> \<not> isl (fst stored) \<Longrightarrow>
      fs_read fs' (crash_input_path (fz_crashes s) sig) = Some b"
    using d disk unfolding sig_def stored_def
    by (cases rule: dedup_cases) (auto dest: persist_crash_input)
qed

text \<open>Without disk faults nothing on the crash path fails.\<close>

lemma persist_crash_succeeds:
  assumes "faults fs = []" "\<And>j. \<exists>x. js j = Ok x"
  shows "\<exists>fs'. persist_crash js db sig i b info fs = (Ok (), fs') \<and> faults fs' = []"
proof -
  let ?d = "path_join (crashes_dir db) (sig_to_hex sig)"
  obtain fs1 where w1: "write_atomic (path_join ?d ''input.bin'') b fs = (Ok (), fs1)" "faults fs1 = []"
    using write_atomic_succeeds [OF assms(1)] by blast
  obtain x where x: "js (info_to_json i info) = Ok x" using assms(2) by blast
  obtain fs2 where w2: "write_atomic (path_join ?d ''info.json'') x fs1 = (Ok (), fs2)" "faults fs2 = []"
    using write_atomic_succeeds [OF w1(2)] by blast
  then show ?thesis using assms(1) w1 w2 x by (simp add: persist_crash_def io_bind_def sys_nop_def Let_def)
qed

lemma record_crash_succeeds:
  assumes "faults fs = []" "\<And>j. \<exists>x. env_json env j = Ok x"
  shows "\<exists>out s' fs'. record_crash env i b res s fs = (Ok out, s', fs')"
proof -
  have "\<exists>out db fs1. crash_outcome env i b (crash res) (fz_crashes s) fs = (Ok out, db, fs1) \<and> faults fs1 = []"
  proof (cases "crash res")
    case (Some info)
    then show ?thesis
      using assms(1) persist_crash_succeeds [where js = "env_json env", OF assms,
          of "fz_crashes s" "signature_for (env_blake3 env) info" i b info]
      by (cases "map_of (seen (fz_crashes s)) (signature_for (env_blake3 env) info)")
        (auto simp: crash_outcome_def dedup_and_store_def Let_def)
  qed (use assms(1) in \<open>simp add: crash_outcome_def\<close>)
  then obtain out db fs1 where "crash_outcome env i b (crash res) (fz_crashes s) fs = (Ok out, db, fs1)" "faults fs1 = []"
    by blast
  then show ?thesis using discard_succeeds [of fs1 "corpus_staging (fz_corpus s)" i]
    by (auto simp: record_crash_def discard_staged_def)
qed

text \<open>
  C36: a crash is lost only when the disk fails before it is stored. When the executor reports an exit that
  counts as a crash, it carries details. After the iteration the family is in the crash table, except when
  it was not there before and either the input could not be staged or its files could not be written; then
  the iteration returns the error and the table is unchanged. An iteration that returns an outcome has
  counted the crash once in its family, reports a new crash exactly when the family was unknown, and then
  the input is on disk in the family's directory. Without disk faults the iteration returns an outcome.
\<close>

theorem crash_never_lost:
  assumes "hash_ok env" "wf_map (ee_map ex)" "session_inv s fs"
    "execute_and_record env (emulator_run ah hs) ee_map b par ex s fs = (r, ex', s', fs')"
    "should_dedupe (exit_kind (fst (emulator_run ah hs ex b)))"
  shows "\<exists>info. crash (fst (emulator_run ah hs ex b)) = Some info \<and>
    (let sig = signature_for (env_blake3 env) info;
         known = (crash_get (fz_crashes s) sig \<noteq> None);
         i = input_id (env_blake3 env) b;
         lost = (\<not> known \<and>
           (case stage_for_execution (fz_corpus s) i b fs of
              (Err _, _) \<Rightarrow> True
            | (Ok _, fs1) \<Rightarrow> isl (fst (persist_crash (env_json env) (fz_crashes s) sig i b info fs1))))
     in (crash_get (fz_crashes s') sig = None \<longleftrightarrow> lost) \<and>
        (lost \<longrightarrow> isl r \<and> fz_crashes s' = fz_crashes s) \<and>
        (case r of
           Err _ \<Rightarrow> faults fs \<noteq> [] \<or> (\<exists>j. isl (env_json env j))
         | Ok out \<Rightarrow> out = (if known then IterDuplicateCrash else IterNewCrash) \<and>
             family_count (fz_crashes s') sig = family_count (fz_crashes s) sig + 1 \<and>
             (known \<or> fs_read fs' (crash_input_path (fz_crashes s) sig) = Some b)))"
proof -
  obtain info where info: "crash (fst (emulator_run ah hs ex b)) = Some info"
    using emulator.crash_details [of ah hs ex b] assms(5) by (auto simp: should_dedupe_def)
  let ?i = "input_id (env_blake3 env) b"
  show ?thesis
    using assms(4)
  proof (cases rule: execute_cases)
    case (unstaged e)
    then have "faults fs \<noteq> []"
      using stage_succeeds [of fs "corpus_staging (fz_corpus s)" ?i b] by (auto simp: stage_for_execution_def)
    then show ?thesis using info unstaged by (auto simp: Let_def)
  next
    case (ran p fs1 res n s1)
    have res: "crash res = Some info" "should_dedupe (exit_kind res)" using info ran(2) assms(5) by simp_all
    have s1: "session_inv s1 fs1" "fz_crashes s1 = fz_crashes s"
      using assms(1,3) ran(4) stage_corpus_inv [OF _ input_id_plain ran(1)] wf_global_merge
        emulator.map_ok emulator.run_ok [OF assms(2), of ah hs b] ran(2)
      by (simp_all add: session_inv_def hash_ok_def)
    have rc: "record_crash env ?i b res s1 fs1 = (r, s', fs')" using ran(5) res(2) by simp
    note spec = record_crash_spec [OF s1(1) res(1) rc, unfolded s1(2)]
    have fail: "faults fs \<noteq> [] \<or> (\<exists>j. isl (env_json env j))" if "r = Err e" for e
    proof (rule ccontr)
      assume "\<not> ?thesis"
      then have "faults fs = []" "\<And>j. \<exists>x. env_json env j = Ok x" by (auto simp: isl_def) (metis sum.exhaust)
      moreover from this(1) have "faults fs1 = []"
        using stage_succeeds [of fs "corpus_staging (fz_corpus s)" ?i b] ran(1) by (auto simp: stage_for_execution_def)
      ultimately show False using record_crash_succeeds [of fs1 env ?i b res s1] rc that by auto
    qed
    consider "crash_get (fz_crashes s) (signature_for (env_blake3 env) info) \<noteq> None"
      | "crash_get (fz_crashes s) (signature_for (env_blake3 env) info) = None"
        "isl (fst (persist_crash (env_json env) (fz_crashes s) (signature_for (env_blake3 env) info) ?i b info fs1))"
      | "crash_get (fz_crashes s) (signature_for (env_blake3 env) info) = None"
        "\<not> isl (fst (persist_crash (env_json env) (fz_crashes s) (signature_for (env_blake3 env) info) ?i b info fs1))"
      by blast
    then show ?thesis
    proof cases
      case 1
      show ?thesis
        using info ran(1) spec(2) [OF disjI1, OF 1] 1 fail by (intro exI [of _ info]) (cases r; auto simp: Let_def)
    next
      case 2
      obtain e where "r = Err e" "fz_crashes s' = fz_crashes s" using spec(1) [OF 2] by (auto simp: isl_def)
      then show ?thesis using info ran(1) 2 fail by (intro exI [of _ info]) (auto simp: Let_def)
    next
      case 3
      show ?thesis
        using info ran(1) spec(2) [OF disjI2, OF 3(2)] spec(3) [OF 3] 3 fail
        by (intro exI [of _ info]) (cases r; auto simp: Let_def)
    qed
  qed
qed

lemma demo_times_out:
  "case emulate_function demo_input demo_function (Some (input_to_regs (\<lambda>_. 7) [1])) (Some 1) of
     Some emu \<Rightarrow> classify_emulator_exit emu = Timeout | None \<Rightarrow> False"
  by code_simp

definition demo_session :: FuzzSession where
  "demo_session =
     \<lparr>fz_corpus = demo_corpus\<lparr>queue_dir := ''o/queue'', corpus_staging := \<lparr>staging_dir = ''o/queue/.staging''\<rparr>\<rparr>,
      fz_crashes = \<lparr>seen = [], crashes_dir = ''o/crashes''\<rparr>, coverage_global = coverage_map_new,
      fz_rng = xorshift_new 1, schedule = power_schedule_default, fz_rare = rare_new 2,
      fz_dict = \<lparr>tokens = []\<rparr>, fz_splice_pool = [], iter_count = 0, max_input_len = 4096,
      out_dir = ''o'', fz_seed = 1\<rparr>"

lemma demo_session_inv: "session_inv demo_session fs"
  by (simp add: session_inv_def demo_session_def demo_corpus_def corpus_inv_def index_ok_def on_disk_def dirs_ok_def
      table_ok_def crash_get_def unaged_def power_schedule_default_def path_join_def STAGING_SUBDIR_def)

lemma demo_hash_ok: "hash_ok demo_env"
  by (simp add: hash_ok_def demo_env_def)

theorem crash_never_lost_witness:
  "\<exists>out ex' s' fs'. execute_and_record demo_env (emulator_run (\<lambda>a b. a) (\<lambda>_. 7)) ee_map [1] None
      (executor_new demo_input demo_function 1 []) demo_session \<lparr>files = [], faults = []\<rparr> = (Ok out, ex', s', fs') \<and>
    (\<exists>info. crash (fst (emulator_run (\<lambda>a b. a) (\<lambda>_. 7) (executor_new demo_input demo_function 1 []) [1])) = Some info \<and>
       crash_get (fz_crashes s') (signature_for (env_blake3 demo_env) info) \<noteq> None)"
proof -
  let ?run = "emulator_run (\<lambda>a b. a) (\<lambda>_. 7)"
  let ?ex = "executor_new demo_input demo_function 1 []"
  let ?fs = "\<lparr>files = [], faults = []\<rparr>"
  let ?i = "input_id (env_blake3 demo_env) [1]"
  obtain res ex' where rn: "?run ?ex [1] = (res, ex')" by fastforce
  have ek: "exit_kind res = Timeout"
    using demo_times_out rn by (auto simp: emulator_run_def executor_new_def emulator_reset_def pop_clock_def
      Let_def split: option.splits prod.splits)
  obtain info where info: "crash res = Some info"
    using emulator.crash_details [of "\<lambda>a b. a" "\<lambda>_. 7" ?ex "[1]"] ek rn by auto
  obtain fs1 where st: "stage_for_execution (fz_corpus demo_session) ?i [1] ?fs =
      (Ok (path_join (staging_dir (corpus_staging (fz_corpus demo_session))) ?i), fs1)" "faults fs1 = []"
    using stage_succeeds [of ?fs "corpus_staging (fz_corpus demo_session)" ?i "[1]"]
    by (auto simp: stage_for_execution_def)
  let ?s1 = "demo_session\<lparr>coverage_global := merge_into_global (ee_map ex') (coverage_global demo_session)\<rparr>"
  let ?sig = "signature_for (env_blake3 demo_env) info"
  obtain fs2 where p: "persist_crash (env_json demo_env) (fz_crashes ?s1) ?sig ?i [1] info fs1 = (Ok (), fs2)" "faults fs2 = []"
    using persist_crash_succeeds [OF st(2), of "env_json demo_env" "fz_crashes ?s1" ?sig ?i "[1]" info]
    by (auto simp: demo_env_def)
  obtain fs3 where d: "discard (corpus_staging (fz_corpus ?s1)) ?i fs2 = (Ok (), fs3)"
    using discard_succeeds [OF p(2)] by blast
  have "\<exists>out s' fs'. execute_and_record demo_env ?run ee_map [1] None ?ex demo_session ?fs = (Ok out, ex', s', fs')"
    using st(1) rn ek info p(1) d
    by (simp add: execute_and_record_def Let_def classify_def should_dedupe_def record_crash_def crash_outcome_def
      dedup_and_store_def demo_session_def discard_staged_def)
  then obtain out s' fs' where e: "execute_and_record demo_env ?run ee_map [1] None ?ex demo_session ?fs = (Ok out, ex', s', fs')"
    by blast
  have "should_dedupe (exit_kind (fst (?run ?ex [1])))" "wf_map (ee_map ?ex)"
    using ek rn by (simp_all add: should_dedupe_def executor_new_def)
  from crash_never_lost [OF demo_hash_ok this(2) demo_session_inv e this(1)] e show ?thesis
    by (auto simp: Let_def)
qed

text \<open>
  The session updates the shared map before the corpus. When storing a new input fails after
  its execution, the session returns the error with the corpus as it was, but its coverage is
  already merged: running the same input again is no longer interesting, so it is not added
  then either.
\<close>

theorem failed_add_loses_coverage:
  assumes "wf_map (ee_map ex)" "session_inv s fs"
    "execute_and_record env (emulator_run ah hs) ee_map b par ex s fs = (Err e, ex', s', fs')"
    "\<not> should_dedupe (exit_kind (fst (emulator_run ah hs ex b)))"
    "is_interesting (classify_against_snapshot (ee_map ex') (coverage_global s))"
    "stage_for_execution (fz_corpus s) (input_id (env_blake3 env) b) b fs = (Ok p, fs1)"
  shows "fz_corpus s' = fz_corpus s \<and> coverage_global s' \<noteq> coverage_global s \<and>
    \<not> is_interesting (classify_against_snapshot (ee_map ex') (coverage_global s'))"
  using assms(3)
proof (cases rule: execute_cases)
  case unstaged
  then show ?thesis using assms(6) by simp
next
  case (ran p' fs1' res n s1)
  have w: "wf_map (ee_map ex')"
    using emulator.run_ok [OF assms(1), of ah hs b] ran(2) by simp
  have g: "wf_map (coverage_global s)" using assms(2) by (simp add: session_inv_def wf_global_def)
  have "record_novel env (input_id (env_blake3 env) b) b par res n (ee_map ex') s1 fs1' = (Err e, s', fs')"
    using ran(2,3,5) assms(4,5) by simp
  then have "s' = s1"
    using queue.add_err by (auto simp: record_novel_def Let_def split: sum.splits prod.splits)
  then show ?thesis
    using ran(4) interesting_iff_changes [OF w g] interesting_iff_changes [OF w wf_merge [OF g]]
      merge_idem [OF w g] assms(5) by simp
qed

lemma demo_exits_ok:
  "case emulate_function demo_input demo_function (Some (input_to_regs (\<lambda>_. 7) [1])) (Some 5) of
     Some emu \<Rightarrow> classify_emulator_exit emu = ExitOk \<and> (16, 20) \<in> set (path_edges (res_visited_path emu)) | None \<Rightarrow> False"
  by code_simp

lemma demo_run_novel:
  "\<exists>res ex'. emulator_run (\<lambda>a b. a) (\<lambda>_. 7) (executor_new demo_input demo_function 5 []) [1] = (res, ex') \<and>
     wf_map (ee_map ex') \<and> exit_kind res = ExitOk \<and>
     is_interesting (classify_against_snapshot (ee_map ex') coverage_map_new)"
proof -
  let ?ex = "executor_new demo_input demo_function 5 []"
  obtain emu where em: "emulate_function demo_input demo_function (Some (input_to_regs (\<lambda>_. 7) [1])) (Some 5) = Some emu"
      "classify_emulator_exit emu = ExitOk" "(16, 20) \<in> set (path_edges (res_visited_path emu))"
    using demo_exits_ok by (auto split: option.splits)
  obtain res ex' where rn: "emulator_run (\<lambda>a b. a) (\<lambda>_. 7) ?ex [1] = (res, ex')" by fastforce
  have r: "exit_kind res = ExitOk" "ee_map ex' = snd (record_path_as_edges (\<lambda>a b. a) coverage_map_new (res_visited_path emu))"
    using rn em(1,2) clear_new [OF wf_new]
    by (auto simp: emulator_run_def executor_new_def emulator_reset_def pop_clock_def Let_def split: prod.splits)
  have w: "wf_map (ee_map ex')"
    using r(2) record_windows_wf by (simp add: record_path_as_edges_def)
  have "inner (ee_map ex') ! edge_hash (\<lambda>a b. a) 16 20 > 0"
    using touched_from_to_complete [OF wf_new em(3), of "\<lambda>a b. a"] r(2)
    by (simp add: edge_was_touched_from_to_def edge_index_eq)
  then have "is_interesting (classify_against_snapshot (ee_map ex') coverage_map_new)"
    unfolding interesting_slots [OF w wf_new]
    by (intro exI [of _ "edge_hash (\<lambda>a b. a) 16 20"]) (simp add: edge_hash_bound nth_new bucket_pos)
  then show ?thesis using rn w r(1) by blast
qed

theorem failed_add_loses_coverage_witness:
  "\<exists>e ex' s' fs'. execute_and_record demo_env (emulator_run (\<lambda>a b. a) (\<lambda>_. 7)) ee_map [1] None
      (executor_new demo_input demo_function 5 []) demo_session
      \<lparr>files = [], faults = [None, None, None, Some (Fault NotFound 0)]\<rparr> = (Err e, ex', s', fs') \<and>
    fz_corpus s' = fz_corpus demo_session \<and> coverage_global s' \<noteq> coverage_global demo_session"
proof -
  let ?run = "emulator_run (\<lambda>a b. a) (\<lambda>_. 7)"
  let ?ex = "executor_new demo_input demo_function 5 []"
  let ?fs = "\<lparr>files = [], faults = [None, None, None, Some (Fault NotFound 0)]\<rparr>"
  let ?i = "input_id (env_blake3 demo_env) [1]"
  obtain res ex' where rn: "?run ?ex [1] = (res, ex')" and r: "exit_kind res = ExitOk"
    and int: "is_interesting (classify_against_snapshot (ee_map ex') coverage_map_new)"
    using demo_run_novel by blast
  obtain p fs1 where st: "stage_for_execution (fz_corpus demo_session) ?i [1] ?fs = (Ok p, fs1)"
      "faults fs1 = [Some (Fault NotFound 0)]"
    by (simp add: stage_for_execution_def stage_def io_bind_def sys_create_def sys_write_def sys_nop_def next_fault_def
      fs_read_def Let_def)
  have "\<exists>e s' fs'. execute_and_record demo_env ?run ee_map [1] None ?ex demo_session ?fs = (Err e, ex', s', fs')"
    using st rn r int
    by (simp add: execute_and_record_def Let_def classify_def should_dedupe_def is_crash_like_def record_novel_def
      demo_session_def corpus_add_def demo_corpus_def persist_input_def write_atomic_def aw_create_def io_bind_def
      sys_nop_def next_fault_def)
  then obtain e s' fs' where x: "execute_and_record demo_env ?run ee_map [1] None ?ex demo_session ?fs = (Err e, ex', s', fs')"
    by blast
  have "wf_map (ee_map ?ex)" "\<not> should_dedupe (exit_kind (fst (?run ?ex [1])))"
    using rn r by (simp_all add: executor_new_def should_dedupe_def is_crash_like_def)
  moreover have "is_interesting (classify_against_snapshot (ee_map ex') (coverage_global demo_session))"
    using int by (simp add: demo_session_def)
  ultimately show ?thesis
    using failed_add_loses_coverage [OF _ demo_session_inv x _ _ st(1)] x by blast
qed

text \<open>
  Nothing ages the corpus. In every state a session reaches, all entries have a fuzz count of
  zero, so the over-fuzz penalty of the schedule is always zero.
\<close>

theorem corpus_never_ages:
  assumes "hash_ok env" "session_new dir seed fs = (Ok s, fs1)" "wf_map (ee_map ex)"
    "session_run env (emulator_run ah hs) ee_map n ex s fs1 = Some (r, ex', s', fs')"
  shows "\<forall>e \<in> set (entries (fz_corpus s')). times_fuzzed (metadata e) = 0"
  using emulator.session_run_total [OF assms(1,3) session_new_inv [OF assms(2)], of ah hs n] assms(4)
  by (auto simp: session_inv_def unaged_def)

theorem corpus_never_ages_witness:
  "\<exists>s fs1 r ex' s' fs'. session_new ''o'' 1 \<lparr>files = [], faults = []\<rparr> = (Ok s, fs1) \<and>
     session_run demo_env (emulator_run (\<lambda>a b. a) (\<lambda>_. 7)) ee_map 3 (executor_new demo_input demo_function 5 []) s fs1 =
       Some (r, ex', s', fs') \<and> list_all (\<lambda>e. times_fuzzed (metadata e) = 0) (entries (fz_corpus s'))"
proof -
  obtain s fs1 where n: "session_new ''o'' 1 \<lparr>files = [], faults = []\<rparr> = (Ok s, fs1)"
    using demo_session_opens by blast
  let ?ex = "executor_new demo_input demo_function 5 []"
  have w: "wf_map (ee_map ?ex)" by (simp add: executor_new_def)
  obtain r ex' s' fs' where x: "session_run demo_env (emulator_run (\<lambda>a b. a) (\<lambda>_. 7)) ee_map 3 ?ex s fs1 = Some (r, ex', s', fs')"
    using emulator.session_run_total [OF demo_hash_ok w session_new_inv [OF n], of "\<lambda>a b. a" "\<lambda>_. 7" 3] by blast
  have "list_all (\<lambda>e. times_fuzzed (metadata e) = 0) (entries (fz_corpus s'))"
    unfolding list_all_iff using corpus_never_ages [OF demo_hash_ok n w x] by blast
  with n x show ?thesis by blast
qed

text \<open>A session with one seed, on which three iterations run.\<close>

lemma demo_session_new: "session_new ''o'' 1 \<lparr>files = [], faults = []\<rparr> = (Ok demo_session, \<lparr>files = [], faults = []\<rparr>)"
  by (simp add: session_new_def io_bind_def sys_nop_def corpus_open_def staging_open_def crash_open_def demo_session_def
      demo_corpus_def path_join_def STAGING_SUBDIR_def)

lemma demo_session_seeded:
  "\<exists>ex s fs. session_reachable demo_env (\<lambda>a b. a) (\<lambda>_. 7) ex s fs \<and> entries (fz_corpus s) \<noteq> []"
proof -
  let ?run = "emulator_run (\<lambda>a b. a) (\<lambda>_. 7)" and ?ex = "executor_new demo_input demo_function 5 []"
  let ?fs = "\<lparr>files = [], faults = []\<rparr>" and ?i = "input_id (env_blake3 demo_env) [1]"
  obtain res ex' where rn: "?run ?ex [1] = (res, ex')" and r: "exit_kind res = ExitOk"
    and int: "is_interesting (classify_against_snapshot (ee_map ex') coverage_map_new)"
    using demo_run_novel by blast
  obtain p fs1 where st: "stage_for_execution (fz_corpus demo_session) ?i [1] ?fs = (Ok p, fs1)" "faults fs1 = []"
    using stage_succeeds [of ?fs "corpus_staging (fz_corpus demo_session)" ?i "[1]"] by (auto simp: stage_for_execution_def)
  obtain fs2 where w: "write_atomic (path_join (queue_dir (fz_corpus demo_session)) ?i) [1] fs1 = (Ok (), fs2)"
    using write_atomic_succeeds [OF st(2)] by blast
  obtain out s' fs' where e: "execute_and_record demo_env ?run ee_map [1] None ?ex demo_session ?fs = (Ok out, ex', s', fs')"
      "entries (fz_corpus s') \<noteq> []"
    using st(1) rn r int w
    by (simp add: execute_and_record_def Let_def classify_def should_dedupe_def is_crash_like_def record_novel_def
      corpus_add_def persist_input_def demo_session_def demo_corpus_def)
  have "wf_map (ee_map ?ex)" by (simp add: executor_new_def)
  then have "session_reachable demo_env (\<lambda>a b. a) (\<lambda>_. 7) ?ex demo_session ?fs"
    using session_reachable.opened [OF demo_session_new] by blast
  then have "session_reachable demo_env (\<lambda>a b. a) (\<lambda>_. 7) ex' s' fs'"
    by (rule session_reachable.seeded) (use e(1) in \<open>simp add: seed_with_def\<close>)
  then show ?thesis using e(2) by blast
qed

theorem session_never_panics_witness:
  "\<exists>ex s fs r ex' s' fs'. session_reachable demo_env (\<lambda>a b. a) (\<lambda>_. 7) ex s fs \<and> entries (fz_corpus s) \<noteq> [] \<and>
     session_run demo_env (emulator_run (\<lambda>a b. a) (\<lambda>_. 7)) ee_map 3 ex s fs = Some (r, ex', s', fs') \<and>
     (case r of Err _ \<Rightarrow> True | Ok st \<Rightarrow> iterations st = iter_count s + 3)"
proof -
  obtain ex s fs where s: "session_reachable demo_env (\<lambda>a b. a) (\<lambda>_. 7) ex s fs" "entries (fz_corpus s) \<noteq> []"
    using demo_session_seeded by blast
  obtain r ex' s' fs' where run: "session_run demo_env (emulator_run (\<lambda>a b. a) (\<lambda>_. 7)) ee_map 3 ex s fs = Some (r, ex', s', fs')"
    "case r of Err _ \<Rightarrow> True
     | Ok st \<Rightarrow> st = stats s' \<and> (entries (fz_corpus s) \<noteq> [] \<longrightarrow> iterations st = iter_count s + of_nat 3)"
    using session_never_panics [OF demo_hash_ok s(1), of 3] by blast
  have "case r of Err _ \<Rightarrow> True | Ok st \<Rightarrow> iterations st = iter_count s + 3"
    using run(2) s(2) by (cases r) simp_all
  with s run(1) show ?thesis by blast
qed

end
