(* ===== verification/Fuzz_Reachability.thy ===== *)
theory Fuzz_Reachability
  imports Axe_Prelude
begin

text \<open>
  Reachability-guided fuzzing (\<open>src/fuzzer/reachability.rs\<close>): weighted distances from every
  function to each target over the reversed call graph, and the scheduler bonus they give. The
  queue-based relaxation is a recursive function whose termination is proved: every push lowers
  a distance. Distances are natural numbers; the \<open>u32\<close> sums saturate as in the code, and stay
  below the cap of 64. Reading the distance of a queued node panics when it is absent, written
  \<^const>\<open>None\<close>.

  The lemmas show that the relaxation computes exactly the minimum path weight up to the cap.
  An indexed maximum over targets, the bonus, and the search for the function around an
  address are shown against their definitions over the whole list.
\<close>

section \<open>The call graph\<close>

text \<open>The fields of \<open>CallGraphRecord\<close> (\<open>src/pe.rs\<close>) and \<open>FuzzTarget\<close> that are read here.\<close>

record CallGraphRecord =
  caller :: u64
  callee :: "u64 option"
  call_kind :: string
  cg_confidence :: string

definition MAX_DIST :: nat where
  "MAX_DIST = 64"

definition call_weight :: "string \<Rightarrow> string \<Rightarrow> nat" where
  "call_weight conf kind =
     (let c = to_ascii_lowercase conf
      in if c = ''high'' then 1
         else if c = ''medium'' \<or> c = ''med'' then 2
         else let k = to_ascii_lowercase kind
              in if k = ''tail'' \<or> k = ''tail_call'' \<or> k = ''jump'' then 3 else 2)"

lemma call_weight_high [simp]: "call_weight ''high'' kind = 1"
proof -
  have "to_ascii_lowercase ''high'' = ''high''" by code_simp
  then show ?thesis by (simp add: call_weight_def)
qed

type_synonym rev_graph = "u64 \<Rightarrow> (u64 \<times> nat) list option"

definition add_reverse_edge :: "CallGraphRecord \<Rightarrow> rev_graph \<Rightarrow> rev_graph" where
  "add_reverse_edge cg m =
     (case callee cg of
        None \<Rightarrow> m
      | Some c \<Rightarrow>
          let weight = call_weight (cg_confidence cg) (call_kind cg)
          in m(c \<mapsto> (case m c of Some ps \<Rightarrow> ps | None \<Rightarrow> []) @ [(caller cg, weight)]))"

definition build_reverse_callgraph :: "CallGraphRecord list \<Rightarrow> rev_graph" where
  "build_reverse_callgraph callgraph = fold add_reverse_edge callgraph (\<lambda>_. None)"

section \<open>The relaxation\<close>

type_synonym dist_map = "u64 \<Rightarrow> nat option"

definition sat_u32 :: "nat \<Rightarrow> nat" where
  "sat_u32 n = min n (2 ^ 32 - 1)"

definition better :: "nat \<Rightarrow> nat option \<Rightarrow> bool" where
  "better new old = (case old of Some existing \<Rightarrow> new < existing | None \<Rightarrow> True)"

fun relax :: "nat \<Rightarrow> (u64 \<times> nat) list \<Rightarrow> dist_map \<Rightarrow> u64 list \<Rightarrow> dist_map \<times> u64 list" where
  "relax current [] dist q = (dist, q)"
| "relax current ((pred, weight) # ps) dist q =
     (let new_dist = sat_u32 (current + weight)
      in if new_dist > MAX_DIST then relax current ps dist q
         else if better new_dist (dist pred) then relax current ps (dist(pred \<mapsto> new_dist)) (q @ [pred])
         else relax current ps dist q)"

text \<open>Potential of a state: each node's distance (one above the cap when unset), plus the queue.\<close>

definition dist_val :: "nat option \<Rightarrow> nat" where
  "dist_val d = (case d of None \<Rightarrow> MAX_DIST + 1 | Some n \<Rightarrow> n)"

definition potential :: "dist_map \<Rightarrow> u64 list \<Rightarrow> nat" where
  "potential dist q = (\<Sum>v \<in> UNIV. dist_val (dist v)) + length q"

lemma potential_push:
  assumes "n \<le> MAX_DIST" "better n (dist p)"
  shows "potential (dist(p \<mapsto> n)) (q @ [p]) \<le> potential dist q"
proof -
  have lt: "n < dist_val (dist p)"
    using assms by (auto simp: better_def dist_val_def split: option.splits)
  have "(\<Sum>v \<in> UNIV. dist_val ((dist(p \<mapsto> n)) v)) = n + (\<Sum>v \<in> UNIV - {p}. dist_val (dist v))"
    by (subst sum.remove [of UNIV p]) (auto simp: dist_val_def intro!: sum.cong)
  moreover have "(\<Sum>v \<in> UNIV. dist_val (dist v)) = dist_val (dist p) + (\<Sum>v \<in> UNIV - {p}. dist_val (dist v))"
    by (rule sum.remove) auto
  ultimately show ?thesis using lt by (simp add: potential_def)
qed

lemma relax_potential: "relax c ps d q = (d', q') \<Longrightarrow> potential d' q' \<le> potential d q"
proof (induction ps arbitrary: d q)
  case (Cons a ps)
  obtain p w where a: "a = (p, w)" by fastforce
  show ?case
  proof (cases "sat_u32 (c + w) \<le> MAX_DIST \<and> better (sat_u32 (c + w)) (d p)")
    case True
    then have "relax c ps (d(p \<mapsto> sat_u32 (c + w))) (q @ [p]) = (d', q')"
      using Cons.prems a by (simp add: Let_def)
    then have "potential d' q' \<le> potential (d(p \<mapsto> sat_u32 (c + w))) (q @ [p])" by (rule Cons.IH)
    also have "\<dots> \<le> potential d q" using True by (intro potential_push) auto
    finally show ?thesis .
  next
    case False
    then show ?thesis using Cons a by (auto simp: Let_def split: if_splits)
  qed
qed simp

function (sequential) bfs_loop :: "rev_graph \<Rightarrow> dist_map \<Rightarrow> u64 list \<Rightarrow> dist_map option" where
  "bfs_loop rg dist [] = Some dist"
| "bfs_loop rg dist (node # q) =
     (case dist node of
        None \<Rightarrow> None
      | Some current \<Rightarrow>
          (case rg node of
             None \<Rightarrow> bfs_loop rg dist q
           | Some predecessors \<Rightarrow>
               (let r = relax current predecessors dist q in bfs_loop rg (fst r) (snd r))))"
  by pat_completeness auto
termination
proof (relation "measure (\<lambda>(rg, dist, q). potential dist q)")
  show "((rg, dist, q), rg, dist, node # q) \<in> measure (\<lambda>(rg, dist, q). potential dist q)"
    for rg dist node q by (simp add: potential_def)
  show "((rg, fst r, snd r), rg, dist, node # q) \<in> measure (\<lambda>(rg, dist, q). potential dist q)"
    if "r = relax c ps dist q" for rg dist node q r c ps
  proof -
    have "potential (fst r) (snd r) \<le> potential dist q"
      using relax_potential [of c ps dist q "fst r" "snd r"] that by simp
    then show ?thesis by (cases r) (simp add: potential_def)
  qed
qed simp

definition bfs_backward :: "u64 \<Rightarrow> rev_graph \<Rightarrow> dist_map option" where
  "bfs_backward start rg = bfs_loop rg ((\<lambda>_. None)(start \<mapsto> 0)) [start]"

section \<open>Distances are minimal\<close>

text \<open>A path from a function to the target, with its weight.\<close>

inductive call_path :: "rev_graph \<Rightarrow> u64 \<Rightarrow> u64 \<Rightarrow> nat \<Rightarrow> bool" for rg :: rev_graph and start :: u64 where
  here: "call_path rg start start 0"
| step: "call_path rg start node d \<Longrightarrow> rg node = Some ps \<Longrightarrow> (pred, w) \<in> set ps \<Longrightarrow>
    call_path rg start pred (d + w)"

text \<open>One distance is at most another, an absent one being infinite.\<close>

fun dist_le :: "nat option \<Rightarrow> nat option \<Rightarrow> bool" where
  "dist_le x None = True"
| "dist_le x (Some n) = (case x of None \<Rightarrow> False | Some m \<Rightarrow> m \<le> n)"

lemma dist_le_refl [simp]: "dist_le x x"
  by (cases x) auto

lemma dist_le_trans: "dist_le x y \<Longrightarrow> dist_le y z \<Longrightarrow> dist_le x z"
  by (cases z; cases y; cases x) auto

text \<open>One predecessor relaxed; the saturation never matters below the cap.\<close>

definition relax1 :: "nat \<Rightarrow> u64 \<Rightarrow> nat \<Rightarrow> dist_map \<Rightarrow> u64 list \<Rightarrow> dist_map \<times> u64 list" where
  "relax1 c p w d q =
     (if c + w \<le> MAX_DIST \<and> better (c + w) (d p) then (d(p \<mapsto> c + w), q @ [p]) else (d, q))"

lemma relax_Cons: "relax c ((p, w) # ps) d q = (case relax1 c p w d q of (d1, q1) \<Rightarrow> relax c ps d1 q1)"
proof -
  have "sat_u32 (c + w) > MAX_DIST \<longleftrightarrow> c + w > MAX_DIST" "c + w \<le> MAX_DIST \<Longrightarrow> sat_u32 (c + w) = c + w"
    by (auto simp: sat_u32_def MAX_DIST_def)
  then show ?thesis by (auto simp: relax1_def Let_def)
qed

declare relax.simps(2) [simp del]

lemma relax1_spec:
  assumes "relax1 c p w d q = (d1, q1)"
  shows "dist_le (d1 v) (d v)" "c + w \<le> MAX_DIST \<Longrightarrow> dist_le (d1 p) (Some (c + w))" "set q \<subseteq> set q1"
    "d1 v = d v \<or> v = p \<and> p \<in> set q1 \<and> d1 v = Some (c + w) \<and> c + w \<le> MAX_DIST"
  using assms by (auto simp: relax1_def better_def split: if_splits option.splits)

lemma relax_mono: "relax c ps d q = (d', q') \<Longrightarrow> dist_le (d' v) (d v) \<and> set q \<subseteq> set q'"
proof (induction ps arbitrary: d q)
  case (Cons a ps)
  obtain p w where a: "a = (p, w)" by fastforce
  obtain d1 q1 where r1: "relax1 c p w d q = (d1, q1)" by fastforce
  have "relax c ps d1 q1 = (d', q')" using Cons.prems a r1 by (simp add: relax_Cons)
  from Cons.IH [OF this] show ?case
    using relax1_spec(1) [OF r1, of v] relax1_spec(3) [OF r1] by (blast intro: dist_le_trans)
qed simp

lemma relax_hit:
  "relax c ps d q = (d', q') \<Longrightarrow> (p, w) \<in> set ps \<Longrightarrow> c + w \<le> MAX_DIST \<Longrightarrow> dist_le (d' p) (Some (c + w))"
proof (induction ps arbitrary: d q)
  case (Cons a ps)
  obtain p0 w0 where a: "a = (p0, w0)" by fastforce
  obtain d1 q1 where r1: "relax1 c p0 w0 d q = (d1, q1)" by fastforce
  have r: "relax c ps d1 q1 = (d', q')" using Cons.prems(1) a r1 by (simp add: relax_Cons)
  show ?case
  proof (cases "(p, w) \<in> set ps")
    case True
    then show ?thesis using Cons.IH [OF r] Cons.prems(3) by blast
  next
    case False
    then have "p = p0" "w = w0" using Cons.prems(2) a by auto
    then have "dist_le (d1 p) (Some (c + w))" using relax1_spec(2) [OF r1] Cons.prems(3) by blast
    then show ?thesis using relax_mono [OF r, of p] dist_le_trans by blast
  qed
qed simp

lemma relax_changed:
  "relax c ps d q = (d', q') \<Longrightarrow>
   d' v = d v \<or> v \<in> set q' \<and> (\<exists>w. (v, w) \<in> set ps \<and> d' v = Some (c + w) \<and> c + w \<le> MAX_DIST)"
proof (induction ps arbitrary: d q)
  case (Cons a ps)
  obtain p w where a: "a = (p, w)" by fastforce
  obtain d1 q1 where r1: "relax1 c p w d q = (d1, q1)" by fastforce
  have r: "relax c ps d1 q1 = (d', q')" using Cons.prems a r1 by (simp add: relax_Cons)
  show ?case
  proof (cases "d' v = d1 v")
    case True
    have "set q1 \<subseteq> set q'" using relax_mono [OF r] by blast
    then show ?thesis using True relax1_spec(4) [OF r1, of v] a by auto
  next
    case False
    then show ?thesis using Cons.IH [OF r] a by auto
  qed
qed simp

lemma dist_le_defined: "dist_le x y \<Longrightarrow> y \<noteq> None \<Longrightarrow> x \<noteq> None"
  by (cases y; cases x) auto

lemma relax_queue: "relax c ps d q = (d', q') \<Longrightarrow> set q' \<subseteq> set q \<union> {v. d' v \<noteq> None}"
proof (induction ps arbitrary: d q)
  case (Cons a ps)
  obtain p w where a: "a = (p, w)" by fastforce
  obtain d1 q1 where r1: "relax1 c p w d q = (d1, q1)" by fastforce
  have r: "relax c ps d1 q1 = (d', q')" using Cons.prems a r1 by (simp add: relax_Cons)
  have "set q1 \<subseteq> set q \<union> {v. d1 v \<noteq> None}" using r1 by (auto simp: relax1_def split: if_splits)
  moreover have "{v. d1 v \<noteq> None} \<subseteq> {v. d' v \<noteq> None}"
    using relax_mono [OF r] dist_le_defined by blast
  ultimately show ?case using Cons.IH [OF r] by blast
qed simp

text \<open>
  The loop invariant: queued nodes have distances, every distance is the weight of a path
  below the cap, the target has distance zero, and every edge out of a node that is not queued
  is relaxed.
\<close>

definition bfs_inv :: "rev_graph \<Rightarrow> u64 \<Rightarrow> dist_map \<Rightarrow> u64 list \<Rightarrow> bool" where
  "bfs_inv rg start d q \<longleftrightarrow>
     (\<forall>v \<in> set q. d v \<noteq> None) \<and>
     (\<forall>v n. d v = Some n \<longrightarrow> call_path rg start v n \<and> n \<le> MAX_DIST) \<and>
     d start = Some 0 \<and>
     (\<forall>u n ps p w. u \<notin> set q \<longrightarrow> d u = Some n \<longrightarrow> rg u = Some ps \<longrightarrow> (p, w) \<in> set ps \<longrightarrow>
        n + w \<le> MAX_DIST \<longrightarrow> dist_le (d p) (Some (n + w)))"

lemma bfs_inv_skip:
  assumes "bfs_inv rg start d (node # q)" "rg node = None"
  shows "bfs_inv rg start d q"
  using assms unfolding bfs_inv_def by (metis list.set_intros(2) option.distinct(1) set_ConsD)

lemma bfs_inv_step:
  assumes inv: "bfs_inv rg start d (node # q)" and c: "d node = Some c" and ps: "rg node = Some ps"
    and r: "relax c ps d q = (d', q')"
  shows "bfs_inv rg start d' q'"
proof -
  have path: "call_path rg start v n \<and> n \<le> MAX_DIST" if "d v = Some n" for v n
    using inv that by (simp add: bfs_inv_def)
  have sub: "set q \<subseteq> set q'" using relax_mono [OF r] by blast
  have queued: "d' v \<noteq> None" if "v \<in> set q'" for v
  proof (cases "v \<in> set q")
    case True
    then have "d v \<noteq> None" using inv by (simp add: bfs_inv_def)
    then show ?thesis using relax_mono [OF r, of v] dist_le_defined by blast
  next
    case False
    have "set q' \<subseteq> set q \<union> {v. d' v \<noteq> None}" using relax_queue [OF r] by blast
    then show ?thesis using False that by blast
  qed
  have sound: "call_path rg start v n \<and> n \<le> MAX_DIST" if n: "d' v = Some n" for v n
  proof (cases "d' v = d v")
    case True
    then show ?thesis using path n by simp
  next
    case False
    then obtain w where w: "(v, w) \<in> set ps" "n = c + w" "c + w \<le> MAX_DIST"
      using relax_changed [OF r, of v] n by auto
    have "call_path rg start v (c + w)"
      using path [OF c] ps w(1) by (intro call_path.step) auto
    then show ?thesis using w by simp
  qed
  have start0: "d' start = Some 0"
    using relax_mono [OF r, of start] inv by (auto simp: bfs_inv_def split: option.splits)
  have self: "d' node = Some c"
  proof (cases "d' node = d node")
    case False
    then obtain w where w: "d' node = Some (c + w)" using relax_changed [OF r, of node] by blast
    then have "c + w \<le> c" using relax_mono [OF r, of node] c by simp
    with w show ?thesis by simp
  qed (simp add: c)
  have relaxed: "dist_le (d' p) (Some (n + w))"
    if u: "u \<notin> set q'" "d' u = Some n" "rg u = Some qs" "(p, w) \<in> set qs" "n + w \<le> MAX_DIST" for u n qs p w
  proof (cases "u = node")
    case True
    then show ?thesis using relax_hit [OF r] self ps u by auto
  next
    case False
    have "d u = Some n" using relax_changed [OF r, of u] u(1,2) by auto
    moreover have "u \<notin> set (node # q)" using False u(1) sub by auto
    ultimately have "dist_le (d p) (Some (n + w))"
      using inv u(3-5) unfolding bfs_inv_def by blast
    then show ?thesis using relax_mono [OF r, of p] dist_le_trans by blast
  qed
  show ?thesis unfolding bfs_inv_def using queued sound start0 relaxed by blast
qed

lemma bfs_loop_result:
  "bfs_inv rg start d q \<Longrightarrow> \<exists>d'. bfs_loop rg d q = Some d' \<and> bfs_inv rg start d' []"
proof (induction rg d q rule: bfs_loop.induct)
  case (1 rg d)
  then show ?case by simp
next
  case (2 rg d node q)
  obtain c where c: "d node = Some c" using 2(3) by (auto simp: bfs_inv_def)
  show ?case
  proof (cases "rg node")
    case None
    then show ?thesis using 2(1) [OF c None] bfs_inv_skip [OF 2(3) None] c by simp
  next
    case (Some ps)
    obtain d1 q1 where r: "relax c ps d q = (d1, q1)" by fastforce
    have "bfs_inv rg start d1 q1" by (rule bfs_inv_step [OF 2(3) c Some r])
    then show ?thesis using 2(2) [OF c Some refl] r c Some by (simp add: Let_def)
  qed
qed

lemma bfs_backward_inv: "\<exists>d. bfs_backward start rg = Some d \<and> bfs_inv rg start d []"
proof -
  have "bfs_inv rg start ((\<lambda>_. None)(start \<mapsto> 0)) [start]"
    by (auto simp: bfs_inv_def MAX_DIST_def intro: call_path.here split: if_splits)
  then show ?thesis unfolding bfs_backward_def by (rule bfs_loop_result)
qed

lemma bfs_complete:
  assumes "bfs_inv rg start d []" "call_path rg start v n" "n \<le> MAX_DIST"
  shows "dist_le (d v) (Some n)"
  using assms(2,3)
proof (induction rule: call_path.induct)
  case here
  then show ?case using assms(1) by (simp add: bfs_inv_def)
next
  case (step node n ps p w)
  then have le: "dist_le (d node) (Some n)" by simp
  then obtain m where m: "d node = Some m" "m \<le> n" by (auto split: option.splits)
  have "m + w \<le> MAX_DIST" using m(2) step.prems by simp
  then have "dist_le (d p) (Some (m + w))"
    using assms(1) m(1) step.hyps(2,3) unfolding bfs_inv_def by fastforce
  then show ?case using m(2) by (auto split: option.splits)
qed

section \<open>The graph of all targets\<close>

record ReachabilityGraph =
  distances :: "u64 \<Rightarrow> dist_map option"
  target_vas :: "u64 list"

fun build_targets :: "rev_graph \<Rightarrow> u64 list \<Rightarrow> ReachabilityGraph \<Rightarrow> ReachabilityGraph option" where
  "build_targets rg [] g = Some g"
| "build_targets rg (t # ts) g =
     (case bfs_backward t rg of
        None \<Rightarrow> None
      | Some d \<Rightarrow>
          build_targets rg ts
            (g\<lparr>target_vas := target_vas g @ [t], distances := (distances g)(t \<mapsto> d)\<rparr>))"

text \<open>The targets are given by their \<open>function_va\<close>.\<close>

definition reach_build :: "CallGraphRecord list \<Rightarrow> u64 list \<Rightarrow> ReachabilityGraph option" where
  "reach_build callgraph targets =
     build_targets (build_reverse_callgraph callgraph) targets \<lparr>distances = (\<lambda>_. None), target_vas = []\<rparr>"

definition reach_distance :: "ReachabilityGraph \<Rightarrow> u64 \<Rightarrow> u64 \<Rightarrow> nat option" where
  "reach_distance g function_va target_va =
     (case distances g target_va of None \<Rightarrow> None | Some m \<Rightarrow> m function_va)"

definition closer :: "(u64 \<times> nat) option \<Rightarrow> u64 \<Rightarrow> nat \<Rightarrow> (u64 \<times> nat) option" where
  "closer best t d = (case best of Some (b, bd) \<Rightarrow> if bd \<le> d then best else Some (t, d) | None \<Rightarrow> Some (t, d))"

definition closest_target :: "ReachabilityGraph \<Rightarrow> u64 \<Rightarrow> (u64 \<times> nat) option" where
  "closest_target g function_va =
     fold (\<lambda>t best. case reach_distance g function_va t of Some d \<Rightarrow> closer best t d | None \<Rightarrow> best)
       (target_vas g) None"

record ReachabilityObs =
  obs_reached :: "u64 list"
  obs_closest :: "u64 option"
  obs_min_distance :: "nat option"
  obs_newly_reached :: "u64 list"

definition reach_observe :: "ReachabilityGraph \<Rightarrow> u64 list \<Rightarrow> ReachabilityObs" where
  "reach_observe g reached =
     (let closest =
            fold (\<lambda>f best. case closest_target g f of Some (t, d) \<Rightarrow> closer best t d | None \<Rightarrow> best) reached None;
          newly = filter (\<lambda>f. f \<in> set (target_vas g)) reached
      in \<lparr>obs_reached = reached, obs_closest = map_option fst closest, obs_min_distance = map_option snd closest,
          obs_newly_reached = remdups_adj (sort newly)\<rparr>)"

definition bonus_for :: "ReachabilityGraph \<Rightarrow> u64 list \<Rightarrow> nat" where
  "bonus_for g reached =
     (case List.map_filter (\<lambda>f. map_option snd (closest_target g f)) reached of
        [] \<Rightarrow> 0
      | d # ds \<Rightarrow> 8 - min (fold min ds d) 8)"

section \<open>Functions around addresses\<close>

definition function_containing :: "u64 \<Rightarrow> (u64 \<times> u64) list \<Rightarrow> u64 option" where
  "function_containing va fns =
     (let n = partition_count (\<lambda>(s, _). s \<le> va) fns
      in if n = 0 then None
         else let (s, e) = fns ! (n - 1)
              in if s \<le> va \<and> va < e then Some s else None)"

definition edges_to_function_vas :: "(u64 \<times> u64) list \<Rightarrow> (u64 \<times> u64) list \<Rightarrow> u64 list" where
  "edges_to_function_vas edges fns =
     remdups_adj (sort (concat (map (\<lambda>(from, to).
       (case function_containing from fns of Some f \<Rightarrow> [f] | None \<Rightarrow> []) @
       (case function_containing to fns of Some f \<Rightarrow> [f] | None \<Rightarrow> [])) edges)))"

section \<open>Lemmas on the graph\<close>

lemma build_targets_spec:
  assumes "\<forall>t \<in> set (target_vas g). distances g t = bfs_backward t rg"
  shows "\<exists>g'. build_targets rg ts g = Some g' \<and> target_vas g' = target_vas g @ ts \<and>
    (\<forall>t \<in> set (target_vas g'). distances g' t = bfs_backward t rg)"
  using assms
proof (induction ts arbitrary: g)
  case (Cons t ts)
  obtain d where d: "bfs_backward t rg = Some d" using bfs_backward_inv by blast
  let ?g = "g\<lparr>target_vas := target_vas g @ [t], distances := (distances g)(t \<mapsto> d)\<rparr>"
  have "\<forall>u \<in> set (target_vas ?g). distances ?g u = bfs_backward u rg"
    using Cons.prems d by auto
  from Cons.IH [OF this] show ?case by (simp add: d)
qed simp

lemma closest_fold:
  assumes "fold (\<lambda>t best. case f t of Some d \<Rightarrow> closer best t d | None \<Rightarrow> best) ts b = r"
  shows "(\<forall>t d. r = Some (t, d) \<longrightarrow> b = Some (t, d) \<or> t \<in> set ts \<and> f t = Some d) \<and>
    (\<forall>t \<in> set ts. \<forall>d. f t = Some d \<longrightarrow> (\<exists>t' d'. r = Some (t', d') \<and> d' \<le> d)) \<and>
    (\<forall>t d. b = Some (t, d) \<longrightarrow> (\<exists>t' d'. r = Some (t', d') \<and> d' \<le> d))"
  using assms
proof (induction ts arbitrary: b)
  case (Cons t ts)
  let ?b = "case f t of Some d \<Rightarrow> closer b t d | None \<Rightarrow> b"
  have r: "fold (\<lambda>t best. case f t of Some d \<Rightarrow> closer best t d | None \<Rightarrow> best) ts ?b = r"
    using Cons.prems by simp
  have b1: "?b = Some (u, d) \<Longrightarrow> b = Some (u, d) \<or> u = t \<and> f t = Some d" for u d
    by (auto simp: closer_def split: option.splits prod.splits if_splits)
  have b2: "f t = Some d \<Longrightarrow> \<exists>t' d'. ?b = Some (t', d') \<and> d' \<le> d" for d
    by (auto simp: closer_def split: option.splits prod.splits)
  have b3: "b = Some (u, d) \<Longrightarrow> \<exists>t' d'. ?b = Some (t', d') \<and> d' \<le> d" for u d
    by (auto simp: closer_def split: option.splits prod.splits)
  note IH1 = Cons.IH [OF r, THEN conjunct1, rule_format]
  note IH2 = Cons.IH [OF r, THEN conjunct2, THEN conjunct1, rule_format]
  note IH3 = Cons.IH [OF r, THEN conjunct2, THEN conjunct2, rule_format]
  have IH3': "\<exists>t' d'. r = Some (t', d') \<and> d' \<le> d" if "?b = Some (t1, d1)" "d1 \<le> d" for t1 d1 d
    using IH3 [OF that(1)] that(2) by fastforce
  have "b = Some (u, d) \<or> u \<in> set (t # ts) \<and> f u = Some d" if "r = Some (u, d)" for u d
    using IH1 [OF that] b1 by auto
  moreover have "\<exists>t' d'. r = Some (t', d') \<and> d' \<le> d" if u: "u \<in> set (t # ts)" "f u = Some d" for u d
  proof (cases "u \<in> set ts")
    case True
    then show ?thesis using IH2 u(2) by blast
  next
    case False
    then obtain t' d' where "?b = Some (t', d')" "d' \<le> d" using b2 u by auto
    then show ?thesis by (rule IH3')
  qed
  moreover have "\<exists>t' d'. r = Some (t', d') \<and> d' \<le> d" if u: "b = Some (u, d)" for u d
  proof -
    obtain t' d' where "?b = Some (t', d')" "d' \<le> d" using b3 [OF u] by blast
    then show ?thesis by (rule IH3')
  qed
  ultimately show ?case by blast
qed auto

lemma closest_target_spec:
  shows "closest_target g f = Some (t, d) \<Longrightarrow> t \<in> set (target_vas g) \<and> reach_distance g f t = Some d"
    and "t \<in> set (target_vas g) \<Longrightarrow> reach_distance g f t = Some d \<Longrightarrow>
      \<exists>t' d'. closest_target g f = Some (t', d') \<and> d' \<le> d"
  using closest_fold [OF closest_target_def [symmetric], of g f] by blast+

lemma fold_min: "fold min ds (d :: nat) = Min (insert d (set ds))"
proof (induction ds arbitrary: d)
  case (Cons x xs)
  then show ?case by (cases "xs = []") (auto simp: min.assoc min.commute min.left_commute)
qed simp

lemma function_containing_sound:
  assumes "function_containing va fns = Some s"
  shows "\<exists>e. (s, e) \<in> set fns \<and> s \<le> va \<and> va < e"
proof -
  let ?n = "length (takeWhile (\<lambda>(s, _). s \<le> va) fns)"
  have n: "?n \<noteq> 0" using assms by (auto simp: function_containing_def partition_count_def Let_def)
  obtain a e where ae: "fns ! (?n - 1) = (a, e)" by fastforce
  have "?n - 1 < length fns"
    using n length_takeWhile_le [of "\<lambda>(s, _). s \<le> va" fns] by linarith
  then have "(a, e) \<in> set fns" using ae by (metis nth_mem)
  then show ?thesis using assms n ae
    by (auto simp: function_containing_def partition_count_def Let_def split: if_splits)
qed

lemma function_containing_complete:
  assumes "sorted (map fst fns)" "distinct (map fst fns)" "(s, e) \<in> set fns" "s \<le> va" "va < e"
    "\<forall>(s', e') \<in> set fns. s < s' \<longrightarrow> va < s'"
  shows "function_containing va fns = Some s"
proof -
  obtain xs ys where fns: "fns = xs @ (s, e) # ys" using assms(3) by (meson split_list)
  have "\<forall>p \<in> set xs. fst p \<le> s" using assms(1) fns by (fastforce simp: sorted_append)
  then have pre: "\<forall>p \<in> set (xs @ [(s, e)]). (\<lambda>(s, _). s \<le> va) p" using assms(4) by fastforce
  have "ys \<noteq> [] \<Longrightarrow> \<not> (\<lambda>(s, _). s \<le> va) (hd ys)"
  proof -
    assume "ys \<noteq> []"
    then obtain s' e' zs where ys: "ys = (s', e') # zs" by (cases ys) auto
    have "s < s'" using assms(1,2) fns ys by (auto simp: sorted_append)
    then have "va < s'" using assms(6) fns ys by fastforce
    then show ?thesis by (simp add: ys)
  qed
  then have "takeWhile (\<lambda>(s, _). s \<le> va) ys = []" by (cases ys) auto
  then have "takeWhile (\<lambda>(s, _). s \<le> va) fns = xs @ [(s, e)]"
    using pre takeWhile_append2 [of "xs @ [(s, e)]" "\<lambda>(s, _). s \<le> va" ys] fns by simp
  then show ?thesis
    using assms(4,5) fns by (simp add: function_containing_def partition_count_def nth_append)
qed

section \<open>Properties\<close>

text \<open>
  C19: the backward search terminates and computes shortest distances. For every call graph and
  target, the relaxation ends without a panic, and a function gets the distance \<open>n\<close> exactly
  when \<open>n\<close> is at most the cap, is the weight of some call path to the target, and no call path
  is lighter.
\<close>

theorem bfs_backward_shortest:
  "\<exists>d. bfs_backward start rg = Some d \<and>
     (\<forall>v n. d v = Some n \<longleftrightarrow>
        n \<le> MAX_DIST \<and> call_path rg start v n \<and> (\<forall>m. call_path rg start v m \<longrightarrow> n \<le> m))"
proof -
  obtain d where d: "bfs_backward start rg = Some d" "bfs_inv rg start d []"
    using bfs_backward_inv by blast
  have sound: "d v = Some n \<Longrightarrow> n \<le> MAX_DIST \<and> call_path rg start v n" for v n
    using d(2) by (simp add: bfs_inv_def)
  have least: "d v = Some n \<Longrightarrow> call_path rg start v m \<Longrightarrow> n \<le> m" for v n m
    using bfs_complete [OF d(2), of v m] sound [of v n] by (cases "m \<le> MAX_DIST") auto
  have conv: "d v = Some n" if n: "n \<le> MAX_DIST" "call_path rg start v n"
      "\<forall>m. call_path rg start v m \<longrightarrow> n \<le> m" for v n
  proof -
    obtain k where k: "d v = Some k" "k \<le> n"
      using bfs_complete [OF d(2) n(2,1)] by (auto split: option.splits)
    then have "n \<le> k" using sound [OF k(1)] n(3) by blast
    with k show ?thesis by simp
  qed
  show ?thesis using d(1) sound least conv by blast
qed

theorem bfs_backward_shortest_witness:
  "\<exists>d. bfs_backward 3 (build_reverse_callgraph
       [\<lparr>caller = 1, callee = Some 2, call_kind = ''call'', cg_confidence = ''high''\<rparr>,
        \<lparr>caller = 2, callee = Some 3, call_kind = ''jump'', cg_confidence = ''high''\<rparr>]) = Some d \<and>
     d 3 = Some 0 \<and> d 2 = Some 1"
proof -
  let ?rg = "build_reverse_callgraph
       [\<lparr>caller = 1, callee = Some 2, call_kind = ''call'', cg_confidence = ''high''\<rparr>,
        \<lparr>caller = 2, callee = Some 3, call_kind = ''jump'', cg_confidence = ''high''\<rparr>]"
  have rg: "?rg = [2 \<mapsto> [(1, 1)], 3 \<mapsto> [(2, 1)]]"
    by (simp add: build_reverse_callgraph_def add_reverse_edge_def call_weight_high)
  have c3: "call_path ?rg 3 3 0" by (rule call_path.here)
  have c2: "call_path ?rg 3 2 1" using call_path.step [OF c3, of "[(2, 1)]" 2 1] rg by simp
  have pos: "1 \<le> m" if "call_path ?rg 3 2 m" for m
    using that by (cases rule: call_path.cases) (auto simp: rg split: if_splits)
  obtain d where "bfs_backward 3 ?rg = Some d" and all: "\<forall>v n. d v = Some n \<longleftrightarrow>
      n \<le> MAX_DIST \<and> call_path ?rg 3 v n \<and> (\<forall>m. call_path ?rg 3 v m \<longrightarrow> n \<le> m)"
    using bfs_backward_shortest [of 3 ?rg] by blast
  moreover have "d 3 = Some 0" using c3 by (intro all [rule_format, THEN iffD2]) (simp add: MAX_DIST_def)
  moreover have "d 2 = Some 1" using c2 pos by (intro all [rule_format, THEN iffD2]) (simp add: MAX_DIST_def)
  ultimately show ?thesis by blast
qed

text \<open>
  The bonus reflects the nearest target. Building the graph never panics; the bonus is at
  most eight, at least eight minus the distance of any reached function to any target, and, when
  it is positive, eight minus the distance of some reached function to some target.
\<close>

theorem bonus_is_nearest:
  "\<exists>g. reach_build callgraph targets = Some g \<and> target_vas g = targets \<and> bonus_for g reached \<le> 8 \<and>
     (\<forall>f t d. f \<in> set reached \<longrightarrow> t \<in> set targets \<longrightarrow> reach_distance g f t = Some d \<longrightarrow> 8 - d \<le> bonus_for g reached) \<and>
     (bonus_for g reached > 0 \<longrightarrow>
        (\<exists>f t d. f \<in> set reached \<and> t \<in> set targets \<and> reach_distance g f t = Some d \<and> bonus_for g reached = 8 - d))"
proof -
  let ?rg = "build_reverse_callgraph callgraph"
  obtain g where g: "reach_build callgraph targets = Some g" "target_vas g = targets"
    using build_targets_spec [of "\<lparr>distances = (\<lambda>_. None), target_vas = []\<rparr>" ?rg targets]
    by (auto simp: reach_build_def)
  let ?ds = "List.map_filter (\<lambda>f. map_option snd (closest_target g f)) reached"
  have mem: "d \<in> set ?ds \<longleftrightarrow> (\<exists>f \<in> set reached. \<exists>t. closest_target g f = Some (t, d))" for d
    by (force simp: map_filter_def)
  have val: "?ds \<noteq> [] \<Longrightarrow> bonus_for g reached = 8 - min (Min (set ?ds)) 8"
    by (cases ?ds) (simp_all add: bonus_for_def fold_min)
  have lower: "8 - d \<le> bonus_for g reached"
    if f: "f \<in> set reached" "t \<in> set targets" "reach_distance g f t = Some d" for f t d
  proof -
    obtain t' d' where c: "closest_target g f = Some (t', d')" "d' \<le> d"
      using closest_target_spec(2) [of t g f d] g(2) f(2,3) by blast
    then have m: "d' \<in> set ?ds" using mem f(1) by blast
    then have "?ds \<noteq> []" "Min (set ?ds) \<le> d'" by auto
    then show ?thesis using val c(2) by simp
  qed
  have attained: "\<exists>f t d. f \<in> set reached \<and> t \<in> set targets \<and> reach_distance g f t = Some d \<and> bonus_for g reached = 8 - d"
    if "bonus_for g reached > 0"
  proof -
    have ne: "?ds \<noteq> []" using that by (auto simp: bonus_for_def)
    then have "Min (set ?ds) \<in> set ?ds" by (intro Min_in) auto
    then obtain f t where "f \<in> set reached" "closest_target g f = Some (t, Min (set ?ds))" using mem by blast
    then show ?thesis using closest_target_spec(1) g(2) val [OF ne] by fastforce
  qed
  have b8: "bonus_for g reached \<le> 8" by (simp add: bonus_for_def split: list.split)
  have all: "\<forall>f t d. f \<in> set reached \<longrightarrow> t \<in> set targets \<longrightarrow> reach_distance g f t = Some d \<longrightarrow>
      8 - d \<le> bonus_for g reached"
    by (intro allI impI) (rule lower)
  show ?thesis by (rule exI [of _ g], intro conjI impI g b8 all attained)
qed

theorem bonus_is_nearest_witness:
  "\<exists>g. reach_build [\<lparr>caller = 1, callee = Some 2, call_kind = ''call'', cg_confidence = ''high''\<rparr>] [2] = Some g \<and>
     reach_distance g 1 2 = Some 1 \<and> 7 \<le> bonus_for g [1]"
proof -
  let ?cg = "[\<lparr>caller = 1, callee = Some 2, call_kind = ''call'', cg_confidence = ''high''\<rparr>]"
  obtain g where g: "reach_build ?cg [2] = Some g" "\<forall>f t d. f \<in> set [1] \<longrightarrow> t \<in> set [2] \<longrightarrow>
      reach_distance g f t = Some d \<longrightarrow> 8 - d \<le> bonus_for g [1]"
    using bonus_is_nearest [of ?cg "[2]" "[1]"] by blast
  have rg: "build_reverse_callgraph ?cg = [2 \<mapsto> [(1, 1)]]"
    by (simp add: build_reverse_callgraph_def add_reverse_edge_def call_weight_high)
  have "bfs_backward 2 [2 \<mapsto> [(1, 1)]] = Some [2 \<mapsto> 0, 1 \<mapsto> 1]"
    by (simp add: bfs_backward_def sat_u32_def better_def MAX_DIST_def fun_upd_twist Let_def relax.simps)
  then have "reach_distance g 1 2 = Some 1"
    using g(1) by (auto simp: reach_build_def rg reach_distance_def)
  with g show ?thesis by force
qed

text \<open>
  An address is attributed to the function that holds it. On a list sorted by distinct
  starts, the result is a listed function whose range holds the address; and a function that
  holds it is found unless a later function starts at or before the address.
\<close>

theorem function_containing_correct:
  assumes "sorted (map fst fns)" "distinct (map fst fns)"
  shows "(\<forall>s. function_containing va fns = Some s \<longrightarrow> (\<exists>e. (s, e) \<in> set fns \<and> s \<le> va \<and> va < e)) \<and>
    (\<forall>(s, e) \<in> set fns. s \<le> va \<and> va < e \<and> (\<forall>(s', e') \<in> set fns. s < s' \<longrightarrow> va < s') \<longrightarrow>
       function_containing va fns = Some s)"
  using function_containing_sound function_containing_complete [OF assms] by blast

theorem function_containing_correct_witness:
  "function_containing 0x25 [(0x10, 0x20), (0x20, 0x30)] = Some 0x20"
  using function_containing_correct [of "[(0x10, 0x20), (0x20, 0x30)]" "0x25 :: u64"] by simp

end
