(* ===== verification/Btree_Map.thy ===== *)
theory Btree_Map
  imports Main "HOL-Library.List_Lexorder" "HOL-Library.Char_ord"
begin

text \<open>
  \<open>std::collections::BTreeMap\<close>: an association list with strictly increasing keys, as its
  iterators deliver it. The lemmas are the laws of lookup after insertion and removal.
\<close>

type_synonym ('k, 'v) btree = "('k \<times> 'v) list"

definition bt_get :: "('k, 'v) btree \<Rightarrow> 'k \<Rightarrow> 'v option" where
  "bt_get m k = map_of m k"

fun bt_insert :: "'k::linorder \<Rightarrow> 'v \<Rightarrow> ('k, 'v) btree \<Rightarrow> ('k, 'v) btree" where
  "bt_insert k v [] = [(k, v)]"
| "bt_insert k v ((k', v') # m) =
     (if k = k' then (k, v) # m
      else if k < k' then (k, v) # (k', v') # m
      else (k', v') # bt_insert k v m)"

definition bt_remove :: "'k \<Rightarrow> ('k, 'v) btree \<Rightarrow> ('k, 'v) btree" where
  "bt_remove k m = filter (\<lambda>(k', _). k' \<noteq> k) m"

definition bt_keys :: "('k, 'v) btree \<Rightarrow> 'k list" where
  "bt_keys m = map fst m"

definition bt_ok :: "('k::linorder, 'v) btree \<Rightarrow> bool" where
  "bt_ok m \<longleftrightarrow> sorted (bt_keys m) \<and> distinct (bt_keys m)"

lemma bt_ok_Nil [simp]: "bt_ok []"
  by (simp add: bt_ok_def bt_keys_def)

lemma bt_get_Nil [simp]: "bt_get [] k = None"
  by (simp add: bt_get_def)

lemma bt_ok_Cons: "bt_ok ((k, v) # m) \<longleftrightarrow> bt_ok m \<and> (\<forall>k' \<in> set (bt_keys m). k < k')"
  by (auto simp: bt_ok_def bt_keys_def less_le)

lemma set_keys_insert [simp]: "set (bt_keys (bt_insert k v m)) = insert k (set (bt_keys m))"
proof (induction m)
  case (Cons a m)
  obtain k' v' where "a = (k', v')" by fastforce
  then show ?case using Cons by (auto simp: bt_keys_def)
qed (simp add: bt_keys_def)

lemma bt_ok_insert [simp]: "bt_ok m \<Longrightarrow> bt_ok (bt_insert k v m)"
proof (induction m)
  case Nil
  show ?case by (simp add: bt_ok_def bt_keys_def)
next
  case (Cons a m)
  obtain k' v' where a: "a = (k', v')" by fastforce
  have ok: "bt_ok m" "\<forall>x \<in> set (bt_keys m). k' < x"
    using Cons.prems a by (simp_all add: bt_ok_Cons)
  show ?case
  proof (cases "k = k' \<or> k < k'")
    case True
    then show ?thesis using ok a by (auto simp: bt_ok_Cons bt_keys_def intro: less_trans)
  next
    case False
    then have "k' < k" by auto
    then show ?thesis using ok a Cons.IH False by (auto simp: bt_ok_Cons)
  qed
qed

lemma bt_get_insert: "bt_get (bt_insert k v m) x = (if x = k then Some v else bt_get m x)"
  if "bt_ok m"
  using that
proof (induction m)
  case (Cons a m)
  obtain k' v' where a: "a = (k', v')" by fastforce
  have "bt_ok m" using Cons.prems a by (simp add: bt_ok_Cons)
  then show ?case using Cons.IH a by (auto simp: bt_get_def)
qed (simp add: bt_get_def)

lemma bt_ok_remove [simp]: "bt_ok m \<Longrightarrow> bt_ok (bt_remove k m)"
proof (induction m)
  case (Cons a m)
  obtain k' v' where a: "a = (k', v')" by fastforce
  have "set (bt_keys (bt_remove k m)) \<subseteq> set (bt_keys m)"
    by (auto simp: bt_keys_def bt_remove_def)
  then show ?case using Cons a by (auto simp: bt_remove_def bt_ok_Cons)
qed (simp add: bt_remove_def)

lemma bt_get_remove: "bt_get (bt_remove k m) x = (if x = k then None else bt_get m x)"
  by (induction m) (auto simp: bt_get_def bt_remove_def)

lemma bt_get_keys: "bt_get m k = None \<longleftrightarrow> k \<notin> set (bt_keys m)"
  by (auto simp: bt_get_def bt_keys_def map_of_eq_None_iff)

lemma bt_get_in: "bt_get m k = Some v \<Longrightarrow> (k, v) \<in> set m"
  by (simp add: bt_get_def map_of_SomeD)

lemma bt_get_mem: "bt_ok m \<Longrightarrow> (k, v) \<in> set m \<Longrightarrow> bt_get m k = Some v"
  by (simp add: bt_get_def bt_ok_def bt_keys_def)

end
