(* ===== verification/Ir_Rows.thy ===== *)
theory Ir_Rows
  imports Pe_Records
begin

text \<open>
  \<open>src/ir.rs\<close>: the row of one instruction, read off a decoded instruction. Decoding is the work
  of the \<open>iced_x86\<close> crate; a decoded instruction is the record of what its accessors return, the
  registers by the lower-case names of the crate.
\<close>

datatype OpKind = KRegister | KMemory | KImmediate | KOther

record IcedInstruction =
  ii_ip :: u64
  ii_len :: u32
  ii_kinds :: "OpKind list"
  ii_registers :: "string list"
  ii_immediates :: "u64 list"
  ii_memory_base :: string
  ii_memory_index :: string
  ii_memory_index_scale :: u32
  ii_memory_displacement64 :: u64
  ii_memory_size :: u32
  ii_ip_rel :: "u64 option"
  ii_near_branch_target :: u64

record IrInstruction =
  ir_address :: u64
  ir_size :: u32
  ir_mnemonic :: string
  write_reg :: "string option"
  read_regs :: "string list"
  immediate :: "u64 option"
  rip_target :: "u64 option"
  stack_slot :: "int option"
  memory_base :: "string option"
  memory_index :: "string option"
  memory_scale :: u32
  memory_displacement :: int
  operand_width :: u32
  indirect_target_register :: "string option"
  indirect_target_memory :: bool
  memory_write :: bool
  memory_read :: bool
  direct_target :: "u64 option"
  ir_is_call :: bool
  ir_is_jump :: bool

definition normalize_register :: "string \<Rightarrow> string option" where
  "normalize_register name =
     (if name \<in> set [''al'', ''ah'', ''ax'', ''eax'', ''rax''] then Some ''rax''
      else if name \<in> set [''bl'', ''bh'', ''bx'', ''ebx'', ''rbx''] then Some ''rbx''
      else if name \<in> set [''cl'', ''ch'', ''cx'', ''ecx'', ''rcx''] then Some ''rcx''
      else if name \<in> set [''dl'', ''dh'', ''dx'', ''edx'', ''rdx''] then Some ''rdx''
      else if name \<in> set [''sil'', ''si'', ''esi'', ''rsi''] then Some ''rsi''
      else if name \<in> set [''dil'', ''di'', ''edi'', ''rdi''] then Some ''rdi''
      else if name \<in> set [''spl'', ''sp'', ''esp'', ''rsp''] then Some ''rsp''
      else if name \<in> set [''bpl'', ''bp'', ''ebp'', ''rbp''] then Some ''rbp''
      else if name \<in> set [''r8b'', ''r8w'', ''r8d'', ''r8''] then Some ''r8''
      else if name \<in> set [''r9b'', ''r9w'', ''r9d'', ''r9''] then Some ''r9''
      else if name \<in> set [''r10b'', ''r10w'', ''r10d'', ''r10''] then Some ''r10''
      else if name \<in> set [''r11b'', ''r11w'', ''r11d'', ''r11''] then Some ''r11''
      else if name \<in> set [''r12b'', ''r12w'', ''r12d'', ''r12''] then Some ''r12''
      else if name \<in> set [''r13b'', ''r13w'', ''r13d'', ''r13''] then Some ''r13''
      else if name \<in> set [''r14b'', ''r14w'', ''r14d'', ''r14''] then Some ''r14''
      else if name \<in> set [''r15b'', ''r15w'', ''r15d'', ''r15''] then Some ''r15''
      else if name = ''none'' then None
      else Some name)"

definition writes_first_operand :: "string \<Rightarrow> bool" where
  "writes_first_operand mnemonic \<longleftrightarrow>
     mnemonic \<in> set [''mov'', ''movzx'', ''movsxd'', ''lea'', ''xor'', ''add'', ''sub'', ''and'', ''or'',
       ''shl'', ''shr'', ''sar'', ''rol'', ''ror'']"

definition stack_slot_for :: "IcedInstruction \<Rightarrow> int option" where
  "stack_slot_for instr =
     (case normalize_register (ii_memory_base instr) of
        None \<Rightarrow> None
      | Some base \<Rightarrow>
          if base \<noteq> ''rsp'' \<and> base \<noteq> ''rbp'' then None
          else Some (sint (ii_memory_displacement64 instr)))"

definition ir_branch_target :: "IcedInstruction \<Rightarrow> u64 option" where
  "ir_branch_target instr =
     (let target = ii_near_branch_target instr in if target \<noteq> 0 then Some target else None)"

definition indirect_target_operand :: "IcedInstruction \<Rightarrow> bool \<Rightarrow> bool \<Rightarrow> string option \<times> bool" where
  "indirect_target_operand instr is_control_flow lacks_direct_target =
     (if \<not> is_control_flow \<or> \<not> lacks_direct_target \<or> ii_kinds instr = [] then (None, False)
      else case hd (ii_kinds instr) of
             KRegister \<Rightarrow> (normalize_register (hd (ii_registers instr)), False)
           | KMemory \<Rightarrow> (None, True)
           | _ \<Rightarrow> (None, False))"

definition push_unique :: "string list \<Rightarrow> string \<Rightarrow> string list" where
  "push_unique vals v = (if v \<in> set vals then vals else vals @ [v])"

definition push_unique_opt :: "string list \<Rightarrow> string option \<Rightarrow> string list" where
  "push_unique_opt vals v = (case v of Some reg \<Rightarrow> push_unique vals reg | None \<Rightarrow> vals)"

text \<open>One operand; the row under construction is the state.\<close>

definition ir_operand :: "IcedInstruction \<Rightarrow> string \<Rightarrow> nat \<Rightarrow> IrInstruction \<Rightarrow> IrInstruction" where
  "ir_operand instr mnemonic operand r =
     (case ii_kinds instr ! operand of
        KRegister \<Rightarrow>
          let reg = normalize_register (ii_registers instr ! operand)
          in if operand = 0 \<and> writes_first_operand mnemonic then r\<lparr>write_reg := reg\<rparr>
             else r\<lparr>read_regs := push_unique_opt (read_regs r) reg\<rparr>
      | KMemory \<Rightarrow>
          let base = normalize_register (ii_memory_base instr);
              index = normalize_register (ii_memory_index instr);
              r = r\<lparr>memory_base := base, memory_index := index,
                    memory_scale := ii_memory_index_scale instr,
                    memory_displacement := sint (ii_memory_displacement64 instr),
                    operand_width := ii_memory_size instr\<rparr>;
              r = (if operand = 0 \<and> writes_first_operand mnemonic then r\<lparr>memory_write := True\<rparr>
                   else r\<lparr>memory_read := True\<rparr>);
              r = r\<lparr>read_regs := push_unique_opt (push_unique_opt (read_regs r) base) index\<rparr>
          in (case stack_slot_for instr of Some slot \<Rightarrow> r\<lparr>stack_slot := Some slot\<rparr> | None \<Rightarrow> r)
      | KImmediate \<Rightarrow> r\<lparr>immediate := Some (ii_immediates instr ! operand)\<rparr>
      | KOther \<Rightarrow> r)"

definition from_iced :: "IcedInstruction \<Rightarrow> string \<Rightarrow> bool \<Rightarrow> bool \<Rightarrow> IrInstruction" where
  "from_iced instr mnemonic is_c is_j =
     (let dt = ir_branch_target instr;
          (ireg, imem) = indirect_target_operand instr (is_c \<or> is_j) (dt = None);
          r0 = \<lparr>ir_address = ii_ip instr, ir_size = ii_len instr, ir_mnemonic = mnemonic, write_reg = None,
                read_regs = [], immediate = None, rip_target = ii_ip_rel instr, stack_slot = None,
                memory_base = None, memory_index = None, memory_scale = 0, memory_displacement = 0,
                operand_width = 0, indirect_target_register = ireg, indirect_target_memory = imem,
                memory_write = False, memory_read = False, direct_target = dt,
                ir_is_call = is_c, ir_is_jump = is_j\<rparr>
      in fold (ir_operand instr mnemonic) [0..<length (ii_kinds instr)] r0)"

lemma ir_operand_fixed [simp]:
  "ir_address (ir_operand i m k r) = ir_address r"
  "ir_mnemonic (ir_operand i m k r) = ir_mnemonic r"
  "rip_target (ir_operand i m k r) = rip_target r"
  "direct_target (ir_operand i m k r) = direct_target r"
  by (simp_all add: ir_operand_def Let_def split: OpKind.split option.split)

lemma fold_operand_fixed:
  "ir_address (fold (ir_operand i m) ks r) = ir_address r \<and>
   ir_mnemonic (fold (ir_operand i m) ks r) = ir_mnemonic r \<and>
   rip_target (fold (ir_operand i m) ks r) = rip_target r \<and>
   direct_target (fold (ir_operand i m) ks r) = direct_target r"
  by (induction ks arbitrary: r) simp_all

lemma from_iced_fixed [simp]:
  "ir_address (from_iced i m c j) = ii_ip i" "ir_mnemonic (from_iced i m c j) = m"
  "rip_target (from_iced i m c j) = ii_ip_rel i"
  by (simp_all add: from_iced_def Let_def fold_operand_fixed split: prod.split)

text \<open>A register destination of a listed mnemonic is not a source of the row.\<close>

lemma from_iced_two_registers:
  assumes "ii_kinds i = [KRegister, KRegister]" "ii_registers i = [d, s]" "writes_first_operand m"
  shows "write_reg (from_iced i m c j) = normalize_register d"
    and "read_regs (from_iced i m c j) = (case normalize_register s of Some r \<Rightarrow> [r] | None \<Rightarrow> [])"
    and "immediate (from_iced i m c j) = None" "memory_write (from_iced i m c j) = False"
    and "memory_read (from_iced i m c j) = False"
  using assms
  by (simp_all add: from_iced_def ir_operand_def Let_def push_unique_opt_def push_unique_def
      upt_rec [of 0] upt_rec [of 1] numeral_2_eq_2 split: prod.split option.split)

lemma from_iced_register_immediate:
  assumes "ii_kinds i = [KRegister, KImmediate]" "ii_registers i = [d, s]" "ii_immediates i = [a, b]"
    "writes_first_operand m"
  shows "write_reg (from_iced i m c j) = normalize_register d"
    and "read_regs (from_iced i m c j) = []"
    and "immediate (from_iced i m c j) = Some b" "memory_write (from_iced i m c j) = False"
    and "memory_read (from_iced i m c j) = False"
  using assms
  by (simp_all add: from_iced_def ir_operand_def Let_def upt_rec [of 0] upt_rec [of 1] numeral_2_eq_2
      split: prod.split)

end
