(* ===== verification/Semantic_Index.thy ===== *)
theory Semantic_Index
  imports Ir_Rows Btree_Map
begin

text \<open>
  \<open>src/semantic_index.rs\<close>: for every function the ranges of its rows in the sorted lists of
  instructions, IR rows and cross references, and the budgets of the semantic passes. The
  binary search of \<open>partition_point\<close> is \<^const>\<open>partition_count\<close>, which it computes on the sorted
  lists the loader delivers; a range out of order is a panic (\<^const>\<open>None\<close>).
\<close>

record XrefRecord =
  xref_kind :: string
  xref_from :: u64
  xref_target :: u64
  xref_role :: string
  xref_symbol :: "string option"
  xref_text :: "string option"
  xref_encoding :: "string option"
  xref_section :: "string option"

record FunctionSemanticSlice =
  function_index :: nat
  function_start :: u64
  function_end :: u64
  instruction_range :: "nat \<times> nat"
  ir_range :: "nat \<times> nat"
  xref_range :: "nat \<times> nat"
  cfg_index :: "nat option"
  has_return :: bool
  overlaps_known_function :: bool

text \<open>\<open>&xs[a..b]\<close>\<close>

definition slice_range :: "'a list \<Rightarrow> nat \<times> nat \<Rightarrow> 'a list option" where
  "slice_range xs r =
     (case r of (a, b) \<Rightarrow> if a \<le> b \<and> b \<le> length xs then Some (take (b - a) (drop a xs)) else None)"

definition range_of :: "u64 list \<Rightarrow> FunctionRecord \<Rightarrow> nat \<times> nat" where
  "range_of addrs f =
     (partition_count (\<lambda>a. a < fn_start f) addrs, partition_count (\<lambda>a. a < fn_end f) addrs)"

definition overlaps_previous :: "FunctionRecord list \<Rightarrow> nat \<Rightarrow> FunctionRecord \<Rightarrow> bool" where
  "overlaps_previous functions idx f =
     (idx \<noteq> 0 \<and> idx - 1 < length functions \<and> fn_end (functions ! (idx - 1)) > fn_start f)"

definition overlaps_next :: "FunctionRecord list \<Rightarrow> nat \<Rightarrow> FunctionRecord \<Rightarrow> bool" where
  "overlaps_next functions idx f =
     (idx + 1 < length functions \<and> fn_start (functions ! (idx + 1)) < fn_end f)"

definition build_slice ::
  "FunctionRecord list \<Rightarrow> InstructionRecord list \<Rightarrow> u64 list \<Rightarrow> u64 list \<Rightarrow> u64 list \<Rightarrow> (u64, nat) btree \<Rightarrow>
   nat \<Rightarrow> FunctionSemanticSlice option" where
  "build_slice functions instructions instruction_addresses ir_addresses xref_froms cfg_by_function idx =
     (let f = functions ! idx;
          ins_range = range_of instruction_addresses f
      in case slice_range instructions ins_range of
           None \<Rightarrow> None
         | Some rows \<Rightarrow>
             Some \<lparr>function_index = idx, function_start = fn_start f, function_end = fn_end f,
               instruction_range = ins_range, ir_range = range_of ir_addresses f,
               xref_range = range_of xref_froms f, cfg_index = bt_get cfg_by_function (fn_start f),
               has_return = list_ex is_ret rows,
               overlaps_known_function = overlaps_previous functions idx f \<or> overlaps_next functions idx f\<rparr>)"

fun build_slices :: "(nat \<Rightarrow> FunctionSemanticSlice option) \<Rightarrow> nat list \<Rightarrow> FunctionSemanticSlice list option" where
  "build_slices f [] = Some []"
| "build_slices f (i # is) =
     (case f i of
        None \<Rightarrow> None
      | Some s \<Rightarrow> map_option (\<lambda>ss. s # ss) (build_slices f is))"

definition index_build ::
  "FunctionRecord list \<Rightarrow> InstructionRecord list \<Rightarrow> IrInstruction list \<Rightarrow> XrefRecord list \<Rightarrow> CfgRecord list \<Rightarrow>
   FunctionSemanticSlice list option" where
  "index_build functions instructions ir xref_rows cfg =
     (let cfg_by_function = fold (\<lambda>(i, row). bt_insert (cfg_function row) i) (List.enumerate 0 cfg) []
      in build_slices
           (build_slice functions instructions (map address instructions) (map ir_address ir)
              (map xref_from xref_rows) cfg_by_function)
           [0..<length functions])"

section \<open>Budgets\<close>

record SemanticBudget =
  budget_name :: string
  heuristic_strings_per_call :: nat
  dossier_links_per_function :: nat
  dossier_summaries_per_function :: nat
  stack_store_slots_per_function :: nat
  api_hash_constants_per_function :: nat
  encoded_blob_hints :: nat

definition usize_max :: nat where
  "usize_max = 2 ^ 64 - 1"

definition budget_from_name :: "string \<Rightarrow> SemanticBudget" where
  "budget_from_name name =
     (if name = ''high'' then
        \<lparr>budget_name = ''high'', heuristic_strings_per_call = 12, dossier_links_per_function = 256,
         dossier_summaries_per_function = 6, stack_store_slots_per_function = 512,
         api_hash_constants_per_function = 32, encoded_blob_hints = 1024\<rparr>
      else if name = ''max'' then
        \<lparr>budget_name = ''max'', heuristic_strings_per_call = usize_max, dossier_links_per_function = usize_max,
         dossier_summaries_per_function = 16, stack_store_slots_per_function = usize_max,
         api_hash_constants_per_function = usize_max, encoded_blob_hints = usize_max\<rparr>
      else
        \<lparr>budget_name = ''normal'', heuristic_strings_per_call = 4, dossier_links_per_function = 64,
         dossier_summaries_per_function = 3, stack_store_slots_per_function = 256,
         api_hash_constants_per_function = 8, encoded_blob_hints = 256\<rparr>)"

text \<open>\<open>{:04X}\<close> of an index.\<close>

definition index_hex :: "nat \<Rightarrow> string" where
  "index_hex n = pad0 4 (map upper_char (show_radix 16 n))"

definition flow_id :: "u64 \<Rightarrow> u64 \<Rightarrow> nat \<Rightarrow> string" where
  "flow_id fn callsite index = ''flow:'' @ hex016 fn @ '':'' @ hex016 callsite @ '':'' @ index_hex index"

definition recovered_id :: "u64 \<Rightarrow> string \<Rightarrow> nat \<Rightarrow> string" where
  "recovered_id fn kind index = ''recovered:'' @ hex016 fn @ '':'' @ kind @ '':'' @ index_hex index"

section \<open>Ranges of sorted lists\<close>

lemma sorted_slice:
  assumes "sorted (map f xs)" "a \<le> (b :: u64)"
  shows "partition_count (\<lambda>x. x < a) (map f xs) \<le> partition_count (\<lambda>x. x < b) (map f xs)"
    and "partition_count (\<lambda>x. x < b) (map f xs) \<le> length xs"
    and "slice_range xs (partition_count (\<lambda>x. x < a) (map f xs), partition_count (\<lambda>x. x < b) (map f xs)) =
      Some (filter (\<lambda>x. a \<le> f x \<and> f x < b) xs)"
proof -
  have tw: "takeWhile (\<lambda>x. f x < c) xs = filter (\<lambda>x. f x < c) xs" for c
    using assms(1)
  proof (induction xs)
    case (Cons x xs)
    have "\<not> f x < c \<Longrightarrow> filter (\<lambda>x. f x < c) xs = []"
      using Cons.prems by (force simp: filter_empty_conv)
    then show ?case using Cons by auto
  qed simp
  have len: "partition_count (\<lambda>x. x < c) (map f xs) = length (filter (\<lambda>x. f x < c) xs)" for c
    using tw [of c] by (simp add: partition_count_def takeWhile_map o_def)
  have tk: "take (length (filter (\<lambda>x. f x < c) xs)) xs = filter (\<lambda>x. f x < c) xs" for c
    using takeWhile_eq_take [of "\<lambda>x. f x < c" xs] tw [of c] by simp
  have dr: "drop (length (filter (\<lambda>x. f x < c) xs)) xs = filter (\<lambda>x. \<not> f x < c) xs" for c
  proof -
    have "dropWhile (\<lambda>x. f x < c) xs = filter (\<lambda>x. \<not> f x < c) xs"
      using assms(1)
    proof (induction xs)
      case (Cons x xs)
      have "\<not> f x < c \<Longrightarrow> filter (\<lambda>x. \<not> f x < c) xs = xs"
        using Cons.prems by (force simp: filter_id_conv)
      then show ?case using Cons by auto
    qed simp
    then show ?thesis using dropWhile_eq_drop [of "\<lambda>x. f x < c" xs] tw [of c] by simp
  qed
  show le: "partition_count (\<lambda>x. x < a) (map f xs) \<le> partition_count (\<lambda>x. x < b) (map f xs)"
    unfolding len using assms(2) by (induction xs) auto
  show lb: "partition_count (\<lambda>x. x < b) (map f xs) \<le> length xs" unfolding len by simp
  have "take (length (filter (\<lambda>x. f x < b) xs) - length (filter (\<lambda>x. f x < a) xs))
      (drop (length (filter (\<lambda>x. f x < a) xs)) xs) =
      drop (length (filter (\<lambda>x. f x < a) xs)) (filter (\<lambda>x. f x < b) xs)"
    using tk [of b] by (simp add: drop_take [symmetric])
  also have "\<dots> = filter (\<lambda>x. a \<le> f x \<and> f x < b) xs"
  proof -
    have s: "sorted (map f (filter (\<lambda>x. f x < b) xs))" using assms(1) by (rule sorted_filter)
    have "filter (\<lambda>x. f x < a) xs = filter (\<lambda>x. f x < a) (filter (\<lambda>x. f x < b) xs)"
      using assms(2) by (auto intro!: filter_cong)
    moreover have "drop (length (filter (\<lambda>x. f x < a) ys)) ys = filter (\<lambda>x. \<not> f x < a) ys"
      if "sorted (map f ys)" for ys
      using that
    proof (induction ys)
      case (Cons y ys)
      have "\<not> f y < a \<Longrightarrow> filter (\<lambda>x. f x < a) ys = [] \<and> filter (\<lambda>x. \<not> f x < a) ys = ys"
        using Cons.prems by (force simp: filter_empty_conv filter_id_conv)
      then show ?case using Cons by auto
    qed simp
    ultimately have "drop (length (filter (\<lambda>x. f x < a) xs)) (filter (\<lambda>x. f x < b) xs) =
        filter (\<lambda>x. \<not> f x < a) (filter (\<lambda>x. f x < b) xs)"
      using s by metis
    then show ?thesis by (simp add: not_less conj_commute)
  qed
  finally show "slice_range xs (partition_count (\<lambda>x. x < a) (map f xs), partition_count (\<lambda>x. x < b) (map f xs)) =
      Some (filter (\<lambda>x. a \<le> f x \<and> f x < b) xs)"
    using le lb by (simp add: slice_range_def len)
qed

end
