(* ===== verification/Vsa_Values.thy ===== *)
theory Vsa_Values
  imports Btree_Map Ir_Rows
begin

text \<open>
  The abstract values of \<open>src/vsa.rs\<close>: intervals with a stride and a list of possible values, the
  transfer function of an instruction, the join, and the refinement at a conditional edge.
  An \<open>i64\<close> is an integer; the registers and stack slots are ordered maps.
\<close>

record StringRecord =
  str_va :: u64
  str_rva :: u64
  str_file_offset :: u64
  str_encoding :: string
  str_size :: nat
  str_text :: string
  str_classifiers :: "string list"
  str_section :: "string option"

record AbstractValue =
  av_kind :: string
  lo :: "u64 option"
  hi :: "u64 option"
  stride :: u64
  av_value :: "string option"
  target_va :: "u64 option"
  evidence :: "u64 list"
  confidence :: string
  region :: string
  expression :: "string option"
  av_base :: "string option"
  av_index :: "string option"
  av_scale :: u32
  displacement :: int
  possible_values :: "u64 list"

record AbstractState =
  vs_regs :: "(string, AbstractValue) btree"
  vs_stack :: "(int, AbstractValue) btree"

definition state_default :: AbstractState where
  "state_default = \<lparr>vs_regs = [], vs_stack = []\<rparr>"

section \<open>Text\<close>

text \<open>\<open>0x{:X}\<close>, \<open>{:+}\<close>, \<open>{:+#x}\<close> (an \<open>i64\<close> is printed as its bit pattern).\<close>

definition hex_upper :: "u64 \<Rightarrow> string" where
  "hex_upper v = ''0x'' @ map upper_char (show_radix 16 (unat v))"

definition show_signed :: "int \<Rightarrow> string" where
  "show_signed i = (if i < 0 then CHR ''-'' else CHR ''+'') # show_nat (nat \<bar>i\<bar>)"

definition signed_hex :: "int \<Rightarrow> string" where
  "signed_hex i = ''+0x'' @ show_radix 16 (unat (word_of_int i :: u64))"

section \<open>Constructors\<close>

definition vsa_constant :: "u64 \<Rightarrow> string \<Rightarrow> u64 list \<Rightarrow> AbstractValue" where
  "vsa_constant v conf ev =
     \<lparr>av_kind = ''constant'', lo = Some v, hi = Some v, stride = 1, av_value = Some (hex_upper v),
      target_va = None, evidence = ev, confidence = conf, region = ''integer'', expression = None,
      av_base = None, av_index = None, av_scale = 0, displacement = 0, possible_values = [v]\<rparr>"

definition with_evidence :: "AbstractValue \<Rightarrow> u64 \<Rightarrow> AbstractValue" where
  "with_evidence v addr = (if addr \<in> set (evidence v) then v else v\<lparr>evidence := evidence v @ [addr]\<rparr>)"

definition arithmetic :: "AbstractValue \<Rightarrow> string \<Rightarrow> u64 \<Rightarrow> AbstractValue option" where
  "arithmetic source op imm =
     (case (lo source, hi source) of
        (Some l, Some h) \<Rightarrow>
          let (next_lo, next_hi) = (if op = ''sub'' then (l - imm, h - imm) else (l + imm, h + imm));
              s = source\<lparr>lo := Some next_lo, hi := Some next_hi\<rparr>;
              s = (if next_lo = next_hi then s\<lparr>av_kind := ''constant'', av_value := Some (hex_upper next_lo)\<rparr>
                   else s\<lparr>av_kind := ''interval'', av_value := None\<rparr>)
          in Some (s\<lparr>confidence := ''medium'', possible_values := [next_lo, next_hi]\<rparr>)
      | _ \<Rightarrow> None)"

definition shift_value :: "AbstractValue \<Rightarrow> string \<Rightarrow> u64 \<Rightarrow> AbstractValue option" where
  "shift_value source op imm =
     (case (lo source, hi source) of
        (Some l, Some h) \<Rightarrow>
          if imm \<ge> 64 then None
          else
            let (next_lo, next_hi) =
                  (if op = ''shl'' then (push_bit (unat imm) l, push_bit (unat imm) h)
                   else (drop_bit (unat imm) l, drop_bit (unat imm) h));
                a = min next_lo next_hi;
                b = max next_lo next_hi
            in Some (source\<lparr>lo := Some a, hi := Some b,
                 av_value := (if a = b then Some (hex_upper a) else None),
                 av_kind := (if a = b then ''constant'' else ''interval''),
                 confidence := ''medium'', possible_values := [next_lo, next_hi]\<rparr>)
      | _ \<Rightarrow> None)"

definition pointer_or_constant :: "u64 option \<Rightarrow> (u64, StringRecord) btree \<Rightarrow> AbstractValue option" where
  "pointer_or_constant target strings_by_va =
     (case target of
        None \<Rightarrow> None
      | Some t \<Rightarrow>
          (case bt_get strings_by_va t of
             Some s \<Rightarrow>
               Some \<lparr>av_kind = ''string_pointer'', lo = Some t, hi = Some t, stride = 1,
                 av_value = Some (str_text s), target_va = Some (str_va s), evidence = [],
                 confidence = ''high'', region = ''string'', expression = None, av_base = None,
                 av_index = None, av_scale = 0, displacement = 0, possible_values = [t]\<rparr>
           | None \<Rightarrow> Some (vsa_constant t ''medium'' [])))"

definition reg_lo :: "(string, AbstractValue) btree \<Rightarrow> string option \<Rightarrow> u64 option" where
  "reg_lo regs reg = Option.bind (Option.bind reg (bt_get regs)) lo"

definition pointer_expression ::
  "IrInstruction \<Rightarrow> (string, AbstractValue) btree \<Rightarrow> (u64, StringRecord) btree \<Rightarrow> AbstractValue option" where
  "pointer_expression ins regs strings_by_va =
     (if memory_base ins = None \<and> memory_index ins = None \<and> memory_displacement ins = 0 then None
      else
        let base_value = reg_lo regs (memory_base ins);
            index_value = reg_lo regs (memory_index ins);
            scale = max (memory_scale ins) 1;
            target = (case base_value of Some b \<Rightarrow> b | None \<Rightarrow> 0);
            target = (case index_value of Some i \<Rightarrow> target + i * ucast scale | None \<Rightarrow> target);
            target = target + word_of_int (memory_displacement ins)
        in if target = 0 then None
           else
             let str = bt_get strings_by_va target
             in Some \<lparr>av_kind = ''pointer_expression'', lo = Some target, hi = Some target, stride = 1,
                  av_value = Some (case str of Some row \<Rightarrow> str_text row | None \<Rightarrow> hex_upper target),
                  target_va = Some target, evidence = [],
                  confidence = (if base_value \<noteq> None \<or> index_value \<noteq> None then ''medium'' else ''low''),
                  region = (if str \<noteq> None then ''string'' else ''data''),
                  expression = Some ((case memory_base ins of Some b \<Rightarrow> b | None \<Rightarrow> ''0'') @ '' + '' @
                    (case memory_index ins of Some i \<Rightarrow> i | None \<Rightarrow> ''0'') @ ''*'' @ show_nat (unat scale) @ '' '' @
                    signed_hex (memory_displacement ins)),
                  av_base = memory_base ins, av_index = memory_index ins, av_scale = scale,
                  displacement = memory_displacement ins, possible_values = [target]\<rparr>)"

section \<open>Transfer\<close>

definition first_read :: "IrInstruction \<Rightarrow> (string, AbstractValue) btree \<Rightarrow> AbstractValue option" where
  "first_read ins regs = (case read_regs ins of [] \<Rightarrow> None | reg # _ \<Rightarrow> bt_get regs reg)"

definition and_mask :: "u64 \<Rightarrow> AbstractValue" where
  "and_mask imm =
     \<lparr>av_kind = ''interval'', lo = Some 0, hi = Some imm, stride = 1, av_value = None, target_va = None,
      evidence = [], confidence = ''low'', region = ''integer'', expression = None, av_base = None,
      av_index = None, av_scale = 0, displacement = 0, possible_values = [0, imm]\<rparr>"

text \<open>What is read when no arithmetic rule applies: a known address, a constant, a slot, a register.\<close>

definition value_read ::
  "IrInstruction \<Rightarrow> (u64, StringRecord) btree \<Rightarrow> (string, AbstractValue) btree \<Rightarrow> (int, AbstractValue) btree \<Rightarrow>
   AbstractValue option" where
  "value_read ins strings_by_va regs stack =
     (case pointer_or_constant (rip_target ins) strings_by_va of
        Some v \<Rightarrow> Some v
      | None \<Rightarrow>
          (case (if ir_mnemonic ins \<in> set [''mov'', ''movabs'', ''movzx'', ''movsxd'', ''lea'']
                 then pointer_or_constant (immediate ins) strings_by_va else None) of
             Some v \<Rightarrow> Some v
           | None \<Rightarrow>
               (case (if memory_read ins then Option.bind (stack_slot ins) (bt_get stack) else None) of
                  Some v \<Rightarrow> Some v
                | None \<Rightarrow> first_read ins regs)))"

definition value_for_instruction ::
  "IrInstruction \<Rightarrow> (u64, StringRecord) btree \<Rightarrow> (string, AbstractValue) btree \<Rightarrow> (int, AbstractValue) btree \<Rightarrow>
   AbstractValue option" where
  "value_for_instruction ins strings_by_va regs stack =
     (if ir_mnemonic ins = ''xor'' \<and> write_reg ins \<noteq> None \<and> read_regs ins \<noteq> [] \<and>
         write_reg ins = Some (hd (read_regs ins))
      then Some (vsa_constant 0 ''medium'' [])
      else if ir_mnemonic ins \<in> set [''add'', ''sub''] \<and> first_read ins regs \<noteq> None \<and> immediate ins \<noteq> None
      then arithmetic (the (first_read ins regs)) (ir_mnemonic ins) (the (immediate ins))
      else if ir_mnemonic ins \<in> set [''shl'', ''shr'', ''sar''] \<and> first_read ins regs \<noteq> None \<and> immediate ins \<noteq> None
      then shift_value (the (first_read ins regs)) (ir_mnemonic ins) (the (immediate ins))
      else if ir_mnemonic ins = ''and'' \<and> immediate ins \<noteq> None
      then Some (and_mask (the (immediate ins)))
      else
        (case (if ir_mnemonic ins = ''lea'' \<and> rip_target ins = None
               then pointer_expression ins regs strings_by_va else None) of
           Some v \<Rightarrow> Some v
         | None \<Rightarrow> value_read ins strings_by_va regs stack))"

definition keeps_on_unknown :: "string \<Rightarrow> bool" where
  "keeps_on_unknown m \<longleftrightarrow> m \<in> set [''mov'', ''lea'', ''movzx'', ''movsxd'']"

definition write_register ::
  "IrInstruction \<Rightarrow> (u64, StringRecord) btree \<Rightarrow> AbstractState \<Rightarrow> (string \<times> AbstractValue) option \<times> AbstractState" where
  "write_register ins strings_by_va st =
     (case write_reg ins of
        None \<Rightarrow> (None, st)
      | Some reg \<Rightarrow>
          (case value_for_instruction ins strings_by_va (vs_regs st) (vs_stack st) of
             Some v \<Rightarrow>
               let v = with_evidence v (ir_address ins)
               in (Some (reg, v), st\<lparr>vs_regs := bt_insert reg v (vs_regs st)\<rparr>)
           | None \<Rightarrow>
               if \<not> keeps_on_unknown (ir_mnemonic ins)
               then (None, st\<lparr>vs_regs := bt_remove reg (vs_regs st)\<rparr>) else (None, st)))"

definition slot_location :: "int \<Rightarrow> string" where
  "slot_location slot = ''stack['' @ show_signed slot @ '']''"

definition transfer_instruction ::
  "IrInstruction \<Rightarrow> (u64, StringRecord) btree \<Rightarrow> AbstractState \<Rightarrow> (string \<times> AbstractValue) option \<times> AbstractState" where
  "transfer_instruction ins strings_by_va st =
     (case (memory_write ins, stack_slot ins, value_for_instruction ins strings_by_va (vs_regs st) (vs_stack st)) of
        (True, Some slot, Some v) \<Rightarrow>
          let v = with_evidence v (ir_address ins)
          in (Some (slot_location slot, v), st\<lparr>vs_stack := bt_insert slot v (vs_stack st)\<rparr>)
      | _ \<Rightarrow> write_register ins strings_by_va st)"

section \<open>Join\<close>

definition values_of :: "AbstractValue \<Rightarrow> u64 list" where
  "values_of v =
     (if possible_values v \<noteq> [] then possible_values v
      else case (lo v, hi v) of
             (Some l, Some h) \<Rightarrow> if l = h then [l] else [l, h]
           | _ \<Rightarrow> [])"

function vsa_gcd :: "u64 \<Rightarrow> u64 \<Rightarrow> u64" where
  "vsa_gcd left right = (if right \<noteq> 0 then vsa_gcd right (left mod right) else left)"
  by pat_completeness auto
termination
  by (relation "measure (\<lambda>(_, r). unat r)") (simp_all add: unat_mod unat_gt_0)

declare vsa_gcd.simps [simp del]

fun stride_loop :: "u64 list \<Rightarrow> u64 \<Rightarrow> u64" where
  "stride_loop (a # b # rest) st =
     (let delta = (if a \<le> b then b - a else 0)
      in stride_loop (b # rest) (if st = 0 then delta else vsa_gcd st delta))"
| "stride_loop _ st = st"

definition stride_for_values :: "u64 list \<Rightarrow> u64" where
  "stride_for_values vals = max (stride_loop (remdups_adj (sort vals)) 0) 1"

definition show_opt_u64 :: "u64 option \<Rightarrow> string" where
  "show_opt_u64 x = (case x of Some v \<Rightarrow> ''Some('' @ show_nat (unat v) @ '')'' | None \<Rightarrow> ''None'')"

fun show_rest_u64 :: "u64 list \<Rightarrow> string" where
  "show_rest_u64 [] = '']''"
| "show_rest_u64 (x # xs) = '', '' @ show_nat (unat x) @ show_rest_u64 xs"

definition show_vec_u64 :: "u64 list \<Rightarrow> string" where
  "show_vec_u64 xs = (case xs of [] \<Rightarrow> ''[]'' | x # xs \<Rightarrow> ''['' @ show_nat (unat x) @ show_rest_u64 xs)"

definition value_signature :: "AbstractValue \<Rightarrow> string" where
  "value_signature v =
     av_kind v @ '':'' @ show_opt_u64 (lo v) @ '':'' @ show_opt_u64 (hi v) @ '':'' @
     show_vec_u64 (possible_values v) @ '':'' @ show_opt_u64 (target_va v) @ '':'' @ region v @ '':'' @
     show_nat (unat (stride v))"

definition opt_min :: "u64 option \<Rightarrow> u64 option \<Rightarrow> u64 option" where
  "opt_min x y = (case (x, y) of (Some a, Some b) \<Rightarrow> Some (min a b) | (None, _) \<Rightarrow> y | (_, None) \<Rightarrow> x)"

definition opt_max :: "u64 option \<Rightarrow> u64 option \<Rightarrow> u64 option" where
  "opt_max x y = (case (x, y) of (Some a, Some b) \<Rightarrow> Some (max a b) | (None, _) \<Rightarrow> y | (_, None) \<Rightarrow> x)"

text \<open>The minimum and maximum of a list; \<^const>\<open>None\<close> of the empty one.\<close>

definition list_min :: "u64 list \<Rightarrow> u64 option" where
  "list_min xs = (case xs of [] \<Rightarrow> None | x # xs \<Rightarrow> Some (fold min xs x))"

definition list_max :: "u64 list \<Rightarrow> u64 option" where
  "list_max xs = (case xs of [] \<Rightarrow> None | x # xs \<Rightarrow> Some (fold max xs x))"

definition same_or :: "'a \<Rightarrow> 'a \<Rightarrow> 'a \<Rightarrow> 'a" where
  "same_or d x y = (if x = y then x else d)"

definition join_values :: "AbstractValue \<Rightarrow> AbstractValue \<Rightarrow> AbstractValue" where
  "join_values left right =
     (if value_signature left = value_signature right then left
      else
        let vals = remdups_adj (sort (values_of left @ values_of right))
        in \<lparr>av_kind = (if length vals \<le> 8 \<and> length vals > 1 then ''constant_set'' else ''interval''),
            lo = (case list_min vals of Some m \<Rightarrow> Some m | None \<Rightarrow> opt_min (lo left) (lo right)),
            hi = (case list_max vals of Some m \<Rightarrow> Some m | None \<Rightarrow> opt_max (hi left) (hi right)),
            stride = stride_for_values vals,
            av_value = None,
            target_va = same_or None (target_va left) (target_va right),
            evidence = remdups_adj (sort (evidence left @ evidence right)),
            confidence = ''medium'',
            region = same_or ''unknown'' (region left) (region right),
            expression = same_or None (expression left) (expression right),
            av_base = same_or None (av_base left) (av_base right),
            av_index = same_or None (av_index left) (av_index right),
            av_scale = same_or 0 (av_scale left) (av_scale right),
            displacement = same_or 0 (displacement left) (displacement right),
            possible_values = vals\<rparr>)"

text \<open>\<open>entry(key).and_modify(join).or_insert(value)\<close>, for every entry of the right map.\<close>

definition join_entry :: "'k::linorder \<times> AbstractValue \<Rightarrow> ('k, AbstractValue) btree \<Rightarrow> ('k, AbstractValue) btree" where
  "join_entry e m =
     (case e of (key, v) \<Rightarrow>
        bt_insert key (case bt_get m key of Some existing \<Rightarrow> join_values existing v | None \<Rightarrow> v) m)"

definition join_maps :: "('k::linorder, AbstractValue) btree \<Rightarrow> ('k, AbstractValue) btree \<Rightarrow> ('k, AbstractValue) btree" where
  "join_maps left right = fold join_entry right left"

definition join_states :: "AbstractState \<Rightarrow> AbstractState \<Rightarrow> AbstractState" where
  "join_states left right =
     \<lparr>vs_regs = join_maps (vs_regs left) (vs_regs right), vs_stack = join_maps (vs_stack left) (vs_stack right)\<rparr>"

definition state_signature :: "AbstractState \<Rightarrow> string list" where
  "state_signature st =
     map (\<lambda>(name, v). ''r:'' @ name @ '':'' @ value_signature v) (vs_regs st) @
     map (\<lambda>(slot, v). ''s:'' @ (if slot < 0 then ''-'' else []) @ show_nat (nat \<bar>slot\<bar>) @ '':'' @ value_signature v)
       (vs_stack st)"

section \<open>Refinement at an edge\<close>

definition add_evidence :: "u64 \<Rightarrow> AbstractValue \<Rightarrow> AbstractValue" where
  "add_evidence va v = v\<lparr>evidence := remdups_adj (sort (evidence v @ [va]))\<rparr>"

definition upper_value :: "u64 \<Rightarrow> u64 \<Rightarrow> AbstractValue \<Rightarrow> AbstractValue" where
  "upper_value bound va v =
     (let l = (case lo v of Some l \<Rightarrow> l | None \<Rightarrow> 0);
          new_hi = (case hi v of Some old \<Rightarrow> min old bound | None \<Rightarrow> bound)
      in add_evidence va (v\<lparr>av_kind := (if l = new_hi then ''constant'' else ''interval''),
           lo := Some (min l new_hi), hi := Some new_hi,
           possible_values := (if l = new_hi then [l] else [l, new_hi]),
           av_value := None, confidence := ''medium'',
           region := (if region v = ''unknown'' then ''integer'' else region v)\<rparr>))"

definition lower_value :: "u64 \<Rightarrow> u64 \<Rightarrow> AbstractValue \<Rightarrow> AbstractValue" where
  "lower_value bound va v =
     (let h = (case hi v of Some h \<Rightarrow> h | None \<Rightarrow> bound);
          new_lo = (case lo v of Some old \<Rightarrow> max old bound | None \<Rightarrow> bound)
      in add_evidence va (v\<lparr>av_kind := (if new_lo = h then ''constant'' else ''interval''),
           lo := Some (min new_lo h), hi := Some (max h new_lo),
           possible_values := (if new_lo = h then [new_lo] else [new_lo, h]),
           av_value := None, confidence := ''medium''\<rparr>))"

definition exact_value :: "u64 \<Rightarrow> u64 \<Rightarrow> AbstractValue \<Rightarrow> AbstractValue" where
  "exact_value x va v =
     add_evidence va (v\<lparr>av_kind := ''constant'', lo := Some x, hi := Some x, possible_values := [x],
       av_value := Some (hex_upper x), target_va := None, confidence := ''medium'', region := ''integer''\<rparr>)"

definition update_reg :: "(AbstractValue \<Rightarrow> AbstractValue) \<Rightarrow> string \<Rightarrow> AbstractState \<Rightarrow> AbstractState" where
  "update_reg f reg st =
     (case bt_get (vs_regs st) reg of
        Some v \<Rightarrow> st\<lparr>vs_regs := bt_insert reg (f v) (vs_regs st)\<rparr>
      | None \<Rightarrow> st)"

definition refine_upper_bound :: "AbstractState \<Rightarrow> string \<Rightarrow> u64 \<Rightarrow> u64 \<Rightarrow> AbstractState" where
  "refine_upper_bound st reg bound va = update_reg (upper_value bound va) reg st"

definition refine_lower_bound :: "AbstractState \<Rightarrow> string \<Rightarrow> u64 \<Rightarrow> u64 \<Rightarrow> AbstractState" where
  "refine_lower_bound st reg bound va = update_reg (lower_value bound va) reg st"

definition refine_exact_value :: "AbstractState \<Rightarrow> string \<Rightarrow> u64 \<Rightarrow> u64 \<Rightarrow> AbstractState" where
  "refine_exact_value st reg x va = update_reg (exact_value x va) reg st"

definition sat_add1 :: "u64 \<Rightarrow> u64" where
  "sat_add1 x = (if x = - 1 then x else x + 1)"

definition sat_sub1 :: "u64 \<Rightarrow> u64" where
  "sat_sub1 x = (if x = 0 then 0 else x - 1)"

definition last_branch :: "IrInstruction list \<Rightarrow> IrInstruction option" where
  "last_branch block_ins = find (\<lambda>ins. ir_is_jump ins \<and> direct_target ins \<noteq> None) (rev block_ins)"

definition compare_before :: "IrInstruction \<Rightarrow> IrInstruction list \<Rightarrow> IrInstruction option" where
  "compare_before branch block_ins =
     find (\<lambda>ins. ir_mnemonic ins \<in> set [''cmp'', ''test''])
       (dropWhile (\<lambda>ins. ir_address branch \<le> ir_address ins) (rev block_ins))"

definition refine_by_branch ::
  "string \<Rightarrow> bool \<Rightarrow> bool \<Rightarrow> AbstractState \<Rightarrow> string \<Rightarrow> u64 \<Rightarrow> u64 \<Rightarrow> AbstractState" where
  "refine_by_branch m taken fallthrough st reg imm va =
     (if m \<in> set [''jbe'', ''jle'', ''jng'', ''jna''] then
        if taken then refine_upper_bound st reg imm va
        else if fallthrough then refine_lower_bound st reg (sat_add1 imm) va else st
      else if m \<in> set [''jb'', ''jl'', ''jnge'', ''jnae''] then
        if taken then refine_upper_bound st reg (sat_sub1 imm) va
        else if fallthrough then refine_lower_bound st reg imm va else st
      else if m \<in> set [''jae'', ''jge'', ''jnl'', ''jnb''] then
        if taken then refine_lower_bound st reg imm va
        else if fallthrough then refine_upper_bound st reg (sat_sub1 imm) va else st
      else if m \<in> set [''ja'', ''jg'', ''jnle'', ''jnbe''] then
        if taken then refine_lower_bound st reg (sat_add1 imm) va
        else if fallthrough then refine_upper_bound st reg imm va else st
      else if m \<in> set [''je'', ''jz''] then
        if taken then refine_exact_value st reg imm va else st
      else st)"

definition refine_state_for_edge :: "AbstractState \<Rightarrow> IrInstruction list \<Rightarrow> EdgeRecord \<Rightarrow> AbstractState" where
  "refine_state_for_edge st block_ins edge =
     (case last_branch block_ins of
        None \<Rightarrow> st
      | Some branch \<Rightarrow>
          (case compare_before branch block_ins of
             None \<Rightarrow> st
           | Some cmp \<Rightarrow>
               (case (read_regs cmp, immediate cmp) of
                  (reg # _, Some imm) \<Rightarrow>
                    let taken = (direct_target branch = Some (edge_to edge));
                        fallthrough = (edge_type edge = ''fallthrough'' \<and> \<not> taken)
                    in refine_by_branch (ir_mnemonic branch) taken fallthrough st reg imm (ir_address cmp)
                | _ \<Rightarrow> st)))"

end
