(* ===== verification/Vsa_Sound.thy ===== *)
theory Vsa_Sound
  imports Vsa_Values
begin

text \<open>
  What the abstract values of \<open>src/vsa.rs\<close> promise. The comparison of values by their printed
  signature is shown to compare the fields; the join and the unsigned refinements are sound for
  the interval of a value; shifts and constant additions are sound exactly where nothing wraps.
  The rules that are not sound have a theorem of their own.
\<close>

section \<open>Signatures identify values\<close>

definition digit_char :: "char \<Rightarrow> bool" where
  "digit_char c \<longleftrightarrow> 48 \<le> (of_char c :: nat) \<and> (of_char c :: nat) \<le> 57"

lemma digit_char_of: "d < 10 \<Longrightarrow> digit_char (char_of (48 + d :: nat))"
  by (simp add: digit_char_def)

lemma show_nat_digits: "list_all digit_char (show_nat n)"
proof (induction "10::nat" n rule: show_radix.induct)
  case (1 n)
  show ?case
  proof (cases "n < 10")
    case True
    then show ?thesis by (subst show_radix.simps) (simp add: digit_char_of)
  next
    case False
    with 1 show ?thesis by (subst show_radix.simps) (simp add: digit_char_of)
  qed
qed

lemma show_nat_inj: "show_nat m = show_nat n \<Longrightarrow> m = n"
  using parse_digits_show_nat by (metis option.inject)

lemma digits_split:
  assumes "list_all digit_char a" "list_all digit_char b" "\<not> digit_char c" "\<not> digit_char d"
    "a @ c # x = b @ d # y"
  shows "a = b \<and> c = d \<and> x = y"
proof -
  have "takeWhile digit_char (a @ c # x) = a" "takeWhile digit_char (b @ d # y) = b"
    using assms(1-4) by (auto simp: list_all_iff takeWhile_append)
  then show ?thesis using assms(5) by auto
qed

lemma number_split:
  assumes "show_nat m @ c # x = show_nat n @ d # y" "\<not> digit_char c" "\<not> digit_char d"
  shows "m = n \<and> c = d \<and> x = y"
  using digits_split [OF show_nat_digits show_nat_digits assms(2,3,1)] show_nat_inj by blast

lemma colon_split:
  assumes "a @ CHR '':'' # x = b @ CHR '':'' # y" "CHR '':'' \<notin> set a" "CHR '':'' \<notin> set b"
  shows "a = b \<and> x = y"
proof -
  have "takeWhile (\<lambda>c. c \<noteq> CHR '':'') (a @ CHR '':'' # x) = a"
    "takeWhile (\<lambda>c. c \<noteq> CHR '':'') (b @ CHR '':'' # y) = b"
    using assms(2,3) by (auto simp: takeWhile_append)
  then show ?thesis using assms(1) by auto
qed

lemma not_digit [simp]: "\<not> digit_char (CHR '':'')" "\<not> digit_char (CHR '','')" "\<not> digit_char (CHR '']'')"
    "\<not> digit_char (CHR '')'')" "\<not> digit_char (CHR ''S'')" "\<not> digit_char (CHR ''N'')"
  by (simp_all add: digit_char_def)

lemma no_colon_nat [simp]: "CHR '':'' \<notin> set (show_nat n)"
  using show_nat_digits [of n] by (auto simp: list_all_iff)

lemma no_colon_opt [simp]: "CHR '':'' \<notin> set (show_opt_u64 x)"
  by (auto simp: show_opt_u64_def split: option.split)

lemma no_colon_rest [simp]: "CHR '':'' \<notin> set (show_rest_u64 xs)"
  by (induction xs) auto

lemma no_colon_vec [simp]: "CHR '':'' \<notin> set (show_vec_u64 xs)"
  by (auto simp: show_vec_u64_def split: list.split)

lemma show_opt_inj: "show_opt_u64 x = show_opt_u64 y \<longleftrightarrow> x = y"
  by (auto simp: show_opt_u64_def split: option.splits dest!: show_nat_inj intro: unsigned_word_eqI)

lemma show_rest_inj: "show_rest_u64 xs = show_rest_u64 ys \<Longrightarrow> xs = ys"
proof (induction xs arbitrary: ys)
  case Nil
  then show ?case by (cases ys) auto
next
  case (Cons x xs)
  then obtain y zs where ys: "ys = y # zs" by (cases ys) auto
  have shape: "\<exists>c r. show_rest_u64 l = c # r \<and> \<not> digit_char c" for l
    by (cases l) auto
  obtain c r d s where "show_rest_u64 xs = c # r" "\<not> digit_char c" "show_rest_u64 zs = d # s" "\<not> digit_char d"
    using shape by blast
  then have "unat x = unat y \<and> show_rest_u64 xs = show_rest_u64 zs"
    using Cons.prems ys number_split [of "unat x" c r "unat y" d s] by auto
  then show ?case using Cons.IH ys by (auto intro: unsigned_word_eqI)
qed

lemma show_vec_inj: "show_vec_u64 xs = show_vec_u64 ys \<longleftrightarrow> xs = ys"
proof
  assume a: "show_vec_u64 xs = show_vec_u64 ys"
  have e: "show_rest_u64 (z # zs) = '', '' @ tl (show_vec_u64 (z # zs))" for z zs
    by (simp add: show_vec_u64_def)
  have h: "show_vec_u64 (z # zs) \<noteq> ''[]''" for z zs
  proof
    assume "show_vec_u64 (z # zs) = ''[]''"
    then have "show_nat (unat z) @ show_rest_u64 zs = '']''" by (simp add: show_vec_u64_def)
    moreover obtain c cs where "show_nat (unat z) = c # cs" "digit_char c"
      using show_nat_nonempty [of "unat z"] show_nat_digits [of "unat z"] by (cases "show_nat (unat z)") auto
    ultimately show False by auto
  qed
  show "xs = ys"
  proof (cases xs)
    case Nil
    then show ?thesis using a h by (cases ys) (auto simp: show_vec_u64_def)
  next
    case (Cons x xs')
    then obtain y ys' where "ys = y # ys'" using a h by (cases ys) (auto simp: show_vec_u64_def)
    then show ?thesis using a Cons e show_rest_inj by metis
  qed
qed simp

lemma value_signature_eq:
  "value_signature v = av_kind v @ CHR '':'' # show_opt_u64 (lo v) @ CHR '':'' # show_opt_u64 (hi v) @ CHR '':'' #
     show_vec_u64 (possible_values v) @ CHR '':'' # show_opt_u64 (target_va v) @ CHR '':'' # region v @ CHR '':'' #
     show_nat (unat (stride v))"
  by (simp add: value_signature_def)

lemma value_signature_fields:
  assumes "value_signature v = value_signature w" "CHR '':'' \<notin> set (av_kind v)" "CHR '':'' \<notin> set (av_kind w)"
  shows "av_kind v = av_kind w \<and> lo v = lo w \<and> hi v = hi w \<and> possible_values v = possible_values w \<and>
    target_va v = target_va w"
proof -
  note s1 = colon_split [OF assms(1)[unfolded value_signature_eq] assms(2,3)]
  note s2 = colon_split [OF s1[THEN conjunct2] no_colon_opt no_colon_opt]
  note s3 = colon_split [OF s2[THEN conjunct2] no_colon_opt no_colon_opt]
  note s4 = colon_split [OF s3[THEN conjunct2] no_colon_vec no_colon_vec]
  note s5 = colon_split [OF s4[THEN conjunct2] no_colon_opt no_colon_opt]
  show ?thesis using s1 s2 s3 s4 s5 by (simp add: show_opt_inj show_vec_inj)
qed

section \<open>Intervals\<close>

definition admits :: "AbstractValue \<Rightarrow> u64 \<Rightarrow> bool" where
  "admits v x = (case (lo v, hi v) of (Some l, Some h) \<Rightarrow> l \<le> x \<and> x \<le> h | _ \<Rightarrow> True)"

text \<open>The bounds of a value occur among its possible values.\<close>

definition value_ok :: "AbstractValue \<Rightarrow> bool" where
  "value_ok v \<longleftrightarrow> CHR '':'' \<notin> set (av_kind v) \<and>
     (\<exists>l h. lo v = Some l \<and> hi v = Some h \<and> {l, h} \<subseteq> set (possible_values v))"

lemma value_ok_constant [simp]: "value_ok (vsa_constant x c e)"
  by (simp add: value_ok_def vsa_constant_def)

lemma value_ok_evidence [simp]: "value_ok (with_evidence v a) = value_ok v" "value_ok (add_evidence a v) = value_ok v"
  by (simp_all add: value_ok_def with_evidence_def add_evidence_def)

lemma admits_evidence [simp]: "admits (with_evidence v a) x = admits v x" "admits (add_evidence a v) x = admits v x"
  by (simp_all add: admits_def with_evidence_def add_evidence_def split: option.split)

lemma arithmetic_ok: "arithmetic v op imm = Some w \<Longrightarrow> value_ok w"
  by (auto simp: arithmetic_def value_ok_def Let_def split: option.splits if_splits)

lemma shift_ok: "shift_value v op imm = Some w \<Longrightarrow> value_ok w"
  by (auto simp: shift_value_def value_ok_def Let_def min_def max_def split: option.splits if_splits)

lemma pointer_ok: "pointer_or_constant t s = Some w \<Longrightarrow> value_ok w"
  by (auto simp: pointer_or_constant_def split: option.splits) (simp_all add: value_ok_def)

lemma pointer_expression_ok: "pointer_expression ins regs s = Some w \<Longrightarrow> value_ok w"
  by (auto simp: pointer_expression_def Let_def split: if_splits) (simp_all add: value_ok_def)

lemma and_mask_ok [simp]: "value_ok (and_mask imm)"
  by (simp add: and_mask_def value_ok_def)

lemma upper_ok [simp]: "value_ok (upper_value b va v)"
  by (auto simp: upper_value_def value_ok_def add_evidence_def Let_def min_def)

lemma lower_ok [simp]: "value_ok (lower_value b va v)"
  by (auto simp: lower_value_def value_ok_def add_evidence_def Let_def min_def max_def)

lemma exact_ok [simp]: "value_ok (exact_value x va v)"
  by (simp add: exact_value_def value_ok_def add_evidence_def)

lemma fold_min_in: "fold min xs (x :: u64) = Min (insert x (set xs))"
proof (induction xs arbitrary: x)
  case (Cons y ys)
  then show ?case by (cases "ys = []") (auto simp: min.assoc min.commute min.left_commute)
qed simp

lemma fold_max_in: "fold max xs (x :: u64) = Max (insert x (set xs))"
proof (induction xs arbitrary: x)
  case (Cons y ys)
  then show ?case by (cases "ys = []") (auto simp: max.assoc max.commute max.left_commute)
qed simp

lemma list_min_Some: "xs \<noteq> [] \<Longrightarrow> list_min xs = Some (Min (set xs))"
  by (cases xs) (simp_all add: list_min_def fold_min_in)

lemma list_max_Some: "xs \<noteq> [] \<Longrightarrow> list_max xs = Some (Max (set xs))"
  by (cases xs) (simp_all add: list_max_def fold_max_in)

lemma values_of_ok: "value_ok v \<Longrightarrow> values_of v = possible_values v"
  by (auto simp: value_ok_def values_of_def)

lemma join_bounds:
  assumes "value_ok v" "value_ok w" "value_signature v \<noteq> value_signature w"
  shows "lo (join_values v w) = Some (Min (set (possible_values v) \<union> set (possible_values w)))"
    and "hi (join_values v w) = Some (Max (set (possible_values v) \<union> set (possible_values w)))"
    and "set (possible_values (join_values v w)) = set (possible_values v) \<union> set (possible_values w)"
proof -
  let ?xs = "remdups_adj (sort (possible_values v @ possible_values w))"
  have set: "set ?xs = set (possible_values v) \<union> set (possible_values w)" by simp
  have "set ?xs \<noteq> {}" unfolding set using assms(1) by (auto simp: value_ok_def)
  then have ne: "?xs \<noteq> []" by (metis empty_set)
  have j: "lo (join_values v w) = Some (Min (set ?xs))" "hi (join_values v w) = Some (Max (set ?xs))"
    "possible_values (join_values v w) = ?xs"
    using assms(3) list_min_Some [OF ne] list_max_Some [OF ne]
    by (simp_all add: join_values_def Let_def values_of_ok assms(1,2) del: remdups_adj_set set_sort)
  show "lo (join_values v w) = Some (Min (set (possible_values v) \<union> set (possible_values w)))"
    using j(1) unfolding set .
  show "hi (join_values v w) = Some (Max (set (possible_values v) \<union> set (possible_values w)))"
    using j(2) unfolding set .
  show "set (possible_values (join_values v w)) = set (possible_values v) \<union> set (possible_values w)"
    using j(3) set by simp
qed

lemma join_ok: "value_ok v \<Longrightarrow> value_ok w \<Longrightarrow> value_ok (join_values v w)"
proof (cases "value_signature v = value_signature w")
  case False
  assume ok: "value_ok v" "value_ok w"
  let ?S = "set (possible_values v) \<union> set (possible_values w)"
  have "?S \<noteq> {}" using ok by (auto simp: value_ok_def)
  then have "Min ?S \<in> ?S" "Max ?S \<in> ?S" by (auto intro!: Min_in Max_in simp del: Un_iff)
  moreover have "CHR '':'' \<notin> set (av_kind (join_values v w))"
    using False by (simp add: join_values_def Let_def)
  ultimately show ?thesis using join_bounds [OF ok False] by (simp add: value_ok_def)
qed (simp add: join_values_def)

lemma join_admits:
  assumes "value_ok v" "value_ok w" "admits v x \<or> admits w x"
  shows "admits (join_values v w) x"
proof (cases "value_signature v = value_signature w")
  case True
  have "CHR '':'' \<notin> set (av_kind v)" "CHR '':'' \<notin> set (av_kind w)"
    using assms(1,2) by (simp_all add: value_ok_def)
  from value_signature_fields [OF True this] have "lo v = lo w" "hi v = hi w" by simp_all
  then show ?thesis using assms(3) True by (auto simp: join_values_def admits_def)
next
  case False
  let ?S = "set (possible_values v) \<union> set (possible_values w)"
  have "\<exists>l \<in> ?S. l \<le> x" "\<exists>h \<in> ?S. x \<le> h"
    using assms by (auto simp: value_ok_def admits_def)
  then obtain l h where "l \<in> ?S" "l \<le> x" "h \<in> ?S" "x \<le> h" by blast
  have "Min ?S \<le> l" "h \<le> Max ?S" using \<open>l \<in> ?S\<close> \<open>h \<in> ?S\<close> by (simp_all only: Min_le Max_ge finite_set finite_Un)
  then have "Min ?S \<le> x" "x \<le> Max ?S" using \<open>l \<le> x\<close> \<open>x \<le> h\<close> by (blast intro: order_trans)+
  then show ?thesis using join_bounds [OF assms(1,2) False] by (simp add: admits_def)
qed

lemma upper_admits: "value_ok v \<Longrightarrow> admits v x \<Longrightarrow> x \<le> b \<Longrightarrow> admits (upper_value b va v) x"
  by (auto simp: upper_value_def admits_def value_ok_def add_evidence_def Let_def min_le_iff_disj)

lemma lower_admits: "value_ok v \<Longrightarrow> admits v x \<Longrightarrow> b \<le> x \<Longrightarrow> admits (lower_value b va v) x"
  by (auto simp: lower_value_def admits_def value_ok_def add_evidence_def Let_def min_le_iff_disj le_max_iff_disj)

lemma exact_admits: "admits (exact_value b va v) x \<longleftrightarrow> x = b"
  by (auto simp: exact_value_def admits_def add_evidence_def)

unbundle bit_operations_syntax

lemma and_word_le: "(x :: u64) AND y \<le> y"
  by (simp add: word_le_def unsigned_and_eq AND_upper2)

lemma and_mask_admits: "admits (and_mask imm) (x AND imm)"
  by (simp add: and_mask_def admits_def and_word_le)

section \<open>Constant additions and shifts\<close>

lemma unat_add_u64: "unat (x + y :: u64) = (if unat x + unat y < 2 ^ 64 then unat x + unat y else unat x + unat y - 2 ^ 64)"
proof (cases "unat x + unat y < 2 ^ 64")
  case True
  then show ?thesis by (simp add: unat_word_ariths)
next
  case False
  have "unat x < 2 ^ 64" "unat y < 2 ^ 64" using unsigned_less [of x] unsigned_less [of y] by simp_all
  then have "(unat x + unat y) mod 2 ^ 64 = unat x + unat y - 2 ^ 64"
    using False by (simp add: mod_if)
  then show ?thesis using False by (simp add: unat_word_ariths)
qed

lemma unat_sub_u64: "unat (x - y :: u64) = (if y \<le> x then unat x - unat y else 2 ^ 64 + unat x - unat y)"
proof (cases "y \<le> x")
  case True
  then show ?thesis by (simp add: unat_sub)
next
  case False
  have "unat ((x - y) + y) = unat x" by simp
  moreover have "unat (x - y) < 2 ^ 64" using unsigned_less [of "x - y"] by simp
  moreover have "unat x < unat y" using False by (simp add: word_less_nat_alt not_le)
  ultimately show ?thesis using False unat_add_u64 [of "x - y" y] by (simp split: if_splits)
qed

lemma arithmetic_admits:
  assumes "lo v = Some l" "hi v = Some h"
  shows "\<exists>w. arithmetic v op imm = Some w \<and>
    (\<forall>y. admits w y \<longleftrightarrow> (if op = ''sub'' then l - imm \<le> y \<and> y \<le> h - imm else l + imm \<le> y \<and> y \<le> h + imm))"
  using assms by (auto simp: arithmetic_def admits_def Let_def)

lemma add_interval_exact:
  assumes "l \<le> (h :: u64)"
  shows "(\<forall>x. l \<le> x \<and> x \<le> h \<longrightarrow> l + imm \<le> x + imm \<and> x + imm \<le> h + imm) \<longleftrightarrow>
    unat h + unat imm < 2 ^ 64 \<or> 2 ^ 64 \<le> unat l + unat imm"
proof
  assume a: "\<forall>x. l \<le> x \<and> x \<le> h \<longrightarrow> l + imm \<le> x + imm \<and> x + imm \<le> h + imm"
  have "unat h < 2 ^ 64" using unsigned_less [of h] by simp
  moreover have "l + imm \<le> h + imm" using a assms by blast
  ultimately show "unat h + unat imm < 2 ^ 64 \<or> 2 ^ 64 \<le> unat l + unat imm"
    by (auto simp: word_le_nat_alt unat_add_u64 split: if_splits)
next
  assume "unat h + unat imm < 2 ^ 64 \<or> 2 ^ 64 \<le> unat l + unat imm"
  then show "\<forall>x. l \<le> x \<and> x \<le> h \<longrightarrow> l + imm \<le> x + imm \<and> x + imm \<le> h + imm"
    by (auto simp: word_le_nat_alt unat_add_u64)
qed

lemma sub_interval_exact:
  assumes "l \<le> (h :: u64)"
  shows "(\<forall>x. l \<le> x \<and> x \<le> h \<longrightarrow> l - imm \<le> x - imm \<and> x - imm \<le> h - imm) \<longleftrightarrow> imm \<le> l \<or> h < imm"
proof
  assume a: "\<forall>x. l \<le> x \<and> x \<le> h \<longrightarrow> l - imm \<le> x - imm \<and> x - imm \<le> h - imm"
  have "l - imm \<le> h - imm" using a assms by blast
  moreover have "unat h < 2 ^ 64" "unat imm < 2 ^ 64" using unsigned_less [of h] unsigned_less [of imm] by simp_all
  ultimately show "imm \<le> l \<or> h < imm"
    by (auto simp: word_le_nat_alt word_less_nat_alt unat_sub_u64 split: if_splits)
next
  assume "imm \<le> l \<or> h < imm"
  then show "\<forall>x. l \<le> x \<and> x \<le> h \<longrightarrow> l - imm \<le> x - imm \<and> x - imm \<le> h - imm"
    by (auto simp: word_le_nat_alt word_less_nat_alt unat_sub_u64)
qed

lemma drop_bit_le: "x \<le> (y :: u64) \<Longrightarrow> drop_bit k x \<le> drop_bit k y"
proof -
  have "unat (drop_bit k z) = unat z div 2 ^ k" for z :: u64
    using unsigned_less [of z, where ?'a = nat]
    by (simp only: unsigned_drop_bit_eq) (simp add: drop_bit_eq_div take_bit_nat_eq_self)
  then show "x \<le> y \<Longrightarrow> drop_bit k x \<le> drop_bit k y"
    by (simp add: word_le_nat_alt div_le_mono)
qed

lemma unat_push_bit:
  "unat x * 2 ^ k < 2 ^ 64 \<Longrightarrow> unat (push_bit k x :: u64) = unat x * 2 ^ k"
  by (simp only: unsigned_push_bit_eq) (simp add: push_bit_eq_mult take_bit_nat_eq_self)

lemma shift_admits:
  assumes "lo v = Some l" "hi v = Some h" "l \<le> h" "imm < 64" "admits v x"
  shows "op \<noteq> ''shl'' \<Longrightarrow> \<exists>w. shift_value v op imm = Some w \<and> admits w (drop_bit (unat imm) x)"
    and "unat h * 2 ^ unat imm < 2 ^ 64 \<Longrightarrow> \<exists>w. shift_value v ''shl'' imm = Some w \<and> admits w (push_bit (unat imm) x)"
proof -
  have x: "l \<le> x" "x \<le> h" using assms(1,2,5) by (simp_all add: admits_def)
  show "\<exists>w. shift_value v op imm = Some w \<and> admits w (drop_bit (unat imm) x)" if "op \<noteq> ''shl''"
    using that assms(1,2,4) drop_bit_le [OF x(1)] drop_bit_le [OF x(2)]
    by (auto simp: shift_value_def admits_def Let_def not_le min_le_iff_disj le_max_iff_disj)
  show "\<exists>w. shift_value v ''shl'' imm = Some w \<and> admits w (push_bit (unat imm) x)"
    if b: "unat h * 2 ^ unat imm < 2 ^ 64"
  proof -
    have p: "unat (push_bit (unat imm) y) = unat y * 2 ^ unat imm" if "y \<le> h" for y
    proof -
      have "unat y * 2 ^ unat imm \<le> unat h * 2 ^ unat imm" using that by (simp add: word_le_nat_alt)
      then show ?thesis using b by (intro unat_push_bit) linarith
    qed
    have "push_bit (unat imm) l \<le> push_bit (unat imm) x" "push_bit (unat imm) x \<le> push_bit (unat imm) h"
      using x p [of l] p [of x] p [of h] assms(3) by (simp_all add: word_le_nat_alt)
    then show ?thesis using assms(1,2,4)
      by (auto simp: shift_value_def admits_def Let_def not_le min_le_iff_disj le_max_iff_disj)
  qed
qed

section \<open>Strides\<close>

lemma vsa_gcd_nat: "unat (vsa_gcd a b) = gcd (unat a) (unat b)"
proof (induction a b rule: vsa_gcd.induct)
  case (1 a b)
  show ?case
  proof (cases "b = 0")
    case True
    then show ?thesis by (subst vsa_gcd.simps) simp
  next
    case False
    then have "unat (vsa_gcd a b) = gcd (unat b) (unat (a mod b))" using 1 by (subst vsa_gcd.simps) simp
    also have "\<dots> = gcd (unat a) (unat b)" using gcd_red_nat [of "unat a" "unat b"] by (simp add: unat_mod)
    finally show ?thesis .
  qed
qed

fun deltas :: "u64 list \<Rightarrow> nat list" where
  "deltas (a # b # rest) = (unat b - unat a) # deltas (b # rest)"
| "deltas _ = []"

lemma stride_loop_dvd:
  assumes "sorted xs"
  shows "d dvd unat (stride_loop xs st) \<longleftrightarrow> d dvd unat st \<and> (\<forall>x \<in> set (deltas xs). d dvd x)"
  using assms
proof (induction xs st rule: stride_loop.induct)
  case (1 a b rest st)
  then have "a \<le> b" by simp
  then have u: "unat (b - a) = unat b - unat a" by (simp add: unat_sub)
  show ?case
  proof (cases "st = 0")
    case True
    then show ?thesis using 1 \<open>a \<le> b\<close> u by auto
  next
    case False
    then show ?thesis using 1 \<open>a \<le> b\<close> u vsa_gcd_nat [of st "b - a"] by auto
  qed
qed auto

lemma deltas_dvd:
  assumes "sorted xs"
  shows "(\<forall>x \<in> set (deltas xs). d dvd x) \<longleftrightarrow> (\<forall>a \<in> set xs. \<forall>b \<in> set xs. d dvd (unat b - unat a))"
  using assms
proof (induction xs rule: deltas.induct)
  case (1 a b rest)
  have ab: "unat a \<le> unat b" "\<forall>c \<in> set (b # rest). unat b \<le> unat c"
    using 1(2) by (auto simp: word_le_nat_alt)
  have IH: "(\<forall>x \<in> set (deltas (b # rest)). d dvd x) \<longleftrightarrow>
      (\<forall>x \<in> set (b # rest). \<forall>y \<in> set (b # rest). d dvd (unat y - unat x))"
    using 1 by simp
  have tri: "d dvd (unat c - unat a)" if "d dvd (unat b - unat a)" "d dvd (unat c - unat b)" "c \<in> set (b # rest)" for c
  proof -
    have "unat c - unat a = (unat b - unat a) + (unat c - unat b)" using ab that(3) by fastforce
    then show ?thesis using that by (simp only: dvd_add)
  qed
  have low: "unat a - unat c = 0" if "c \<in> set (b # rest)" for c
    using ab that by fastforce
  show ?case
  proof
    assume l: "\<forall>x \<in> set (deltas (a # b # rest)). d dvd x"
    then have r: "\<forall>x \<in> set (b # rest). \<forall>y \<in> set (b # rest). d dvd (unat y - unat x)" using IH by simp
    have "d dvd (unat c - unat a)" if "c \<in> set (b # rest)" for c
    proof (rule tri [OF _ _ that])
      show "d dvd (unat b - unat a)" using l by simp
      show "d dvd (unat c - unat b)" using r [rule_format, of b c] that by simp
    qed
    then show "\<forall>x \<in> set (a # b # rest). \<forall>y \<in> set (a # b # rest). d dvd (unat y - unat x)"
      using r low by auto
  next
    assume "\<forall>x \<in> set (a # b # rest). \<forall>y \<in> set (a # b # rest). d dvd (unat y - unat x)"
    then show "\<forall>x \<in> set (deltas (a # b # rest)). d dvd x" using IH by auto
  qed
qed auto

lemma stride_dvd:
  assumes "a \<in> set vals" "b \<in> set vals" "a \<noteq> b"
  shows "d dvd unat (stride_for_values vals) \<longleftrightarrow> (\<forall>x \<in> set vals. \<forall>y \<in> set vals. d dvd (unat y - unat x))"
proof -
  let ?xs = "remdups_adj (sort vals)"
  have s: "sorted ?xs" "set ?xs = set vals" by simp_all
  have eq: "d dvd unat (stride_loop ?xs 0) \<longleftrightarrow> (\<forall>x \<in> set vals. \<forall>y \<in> set vals. d dvd (unat y - unat x))" for d
    using stride_loop_dvd [OF s(1), of d 0] deltas_dvd [OF s(1), of d] s(2) by simp
  have "stride_loop ?xs 0 \<noteq> 0"
  proof
    assume "stride_loop ?xs 0 = 0"
    then have "\<forall>x \<in> set vals. \<forall>y \<in> set vals. (2 ^ 64) dvd (unat y - unat x)" using eq [of "2 ^ 64"] by simp
    then have "(2 ^ 64) dvd (unat b - unat a)" "(2 ^ 64) dvd (unat a - unat b)" using assms by blast+
    moreover have "unat a < 2 ^ 64" "unat b < 2 ^ 64"
      using unsigned_less [of a] unsigned_less [of b] by simp_all
    then have "unat b - unat a < 2 ^ 64" "unat a - unat b < 2 ^ 64" by linarith+
    ultimately have "unat b - unat a = 0" "unat a - unat b = 0" using nat_dvd_not_less by (metis gr0I)+
    then show False using assms(3) by (simp add: word_unat_eq_iff)
  qed
  then have "stride_for_values vals = stride_loop ?xs 0"
    by (simp add: stride_for_values_def max_def word_le_nat_alt) (metis One_nat_def Suc_leI unat_gt_0 word_unat_eq_iff le_antisym unat_1)
  then show ?thesis using eq by simp
qed

end
