(* ===== verification/Vsa_States.thy ===== *)
theory Vsa_States
  imports Vsa_Sound
begin

text \<open>
  States of the analysis against concrete register and stack contents: which joins, refinements
  and transfers are sound, and the rules of the code that are not. A concrete state gives every
  normalized register name and every stack slot a 64-bit value.
\<close>

section \<open>Invariant and meaning of states\<close>

definition state_ok :: "AbstractState \<Rightarrow> bool" where
  "state_ok st \<longleftrightarrow> bt_ok (vs_regs st) \<and> bt_ok (vs_stack st) \<and>
     (\<forall>k v. bt_get (vs_regs st) k = Some v \<longrightarrow> value_ok v) \<and>
     (\<forall>k v. bt_get (vs_stack st) k = Some v \<longrightarrow> value_ok v)"

definition map_admits :: "('k, AbstractValue) btree \<Rightarrow> ('k \<Rightarrow> u64) \<Rightarrow> bool" where
  "map_admits m f \<longleftrightarrow> (\<forall>k v. bt_get m k = Some v \<longrightarrow> admits v (f k))"

definition state_admits :: "AbstractState \<Rightarrow> (string \<Rightarrow> u64) \<Rightarrow> (int \<Rightarrow> u64) \<Rightarrow> bool" where
  "state_admits st regs stack \<longleftrightarrow> map_admits (vs_regs st) regs \<and> map_admits (vs_stack st) stack"

lemma state_ok_default [simp]: "state_ok state_default"
  by (simp add: state_ok_def state_default_def)

lemma state_ok_reg: "state_ok st \<Longrightarrow> bt_get (vs_regs st) k = Some v \<Longrightarrow> value_ok v"
  by (simp add: state_ok_def)

lemma state_ok_insert_reg: "state_ok st \<Longrightarrow> value_ok v \<Longrightarrow> state_ok (st\<lparr>vs_regs := bt_insert k v (vs_regs st)\<rparr>)"
  by (simp add: state_ok_def bt_get_insert)

lemma state_ok_insert_slot: "state_ok st \<Longrightarrow> value_ok v \<Longrightarrow> state_ok (st\<lparr>vs_stack := bt_insert k v (vs_stack st)\<rparr>)"
  by (simp add: state_ok_def bt_get_insert)

lemma state_ok_remove_reg: "state_ok st \<Longrightarrow> state_ok (st\<lparr>vs_regs := bt_remove k (vs_regs st)\<rparr>)"
  by (simp add: state_ok_def bt_get_remove)

lemma admits_insert_reg:
  assumes "state_ok st" "state_admits st regs stack" "admits v x"
  shows "state_admits (st\<lparr>vs_regs := bt_insert k v (vs_regs st)\<rparr>) (regs(k := x)) stack"
  using assms by (simp add: state_admits_def map_admits_def state_ok_def bt_get_insert)

section \<open>Transfer keeps the invariant\<close>

lemma first_read_ok: "state_ok st \<Longrightarrow> first_read ins (vs_regs st) = Some v \<Longrightarrow> value_ok v"
  by (auto simp: first_read_def state_ok_def split: list.splits)

lemma value_read_ok: "state_ok st \<Longrightarrow> value_read ins strs (vs_regs st) (vs_stack st) = Some v \<Longrightarrow> value_ok v"
  by (auto simp: value_read_def state_ok_def bind_eq_Some_conv split: option.splits if_splits
      dest: pointer_ok first_read_ok [rotated] intro: first_read_ok [unfolded state_ok_def])

lemma value_for_instruction_ok:
  "state_ok st \<Longrightarrow> value_for_instruction ins strs (vs_regs st) (vs_stack st) = Some v \<Longrightarrow> value_ok v"
  by (auto simp: value_for_instruction_def split: option.splits if_splits
      dest: arithmetic_ok shift_ok pointer_expression_ok value_read_ok)

lemma write_register_ok:
  assumes "state_ok st" "write_register ins strs st = (out, st')"
  shows "state_ok st' \<and> (\<forall>loc v. out = Some (loc, v) \<longrightarrow> value_ok v)"
  using assms value_for_instruction_ok [OF assms(1)]
  by (auto simp: write_register_def Let_def state_ok_insert_reg state_ok_remove_reg split: option.splits if_splits)

lemma transfer_ok:
  assumes "state_ok st" "transfer_instruction ins strs st = (out, st')"
  shows "state_ok st' \<and> (\<forall>loc v. out = Some (loc, v) \<longrightarrow> value_ok v)"
proof (cases "memory_write ins \<and> stack_slot ins \<noteq> None \<and>
    value_for_instruction ins strs (vs_regs st) (vs_stack st) \<noteq> None")
  case True
  then obtain slot v where v: "stack_slot ins = Some slot"
      "value_for_instruction ins strs (vs_regs st) (vs_stack st) = Some v" by auto
  then show ?thesis
    using assms True value_for_instruction_ok [OF assms(1) v(2)]
    by (auto simp: transfer_instruction_def Let_def state_ok_insert_slot)
next
  case False
  then have "transfer_instruction ins strs st = write_register ins strs st"
    by (auto simp: transfer_instruction_def split: option.splits bool.splits)
  then show ?thesis using write_register_ok assms by metis
qed

section \<open>Join\<close>

definition join_opt :: "AbstractValue option \<Rightarrow> AbstractValue option \<Rightarrow> AbstractValue option" where
  "join_opt x y = (case (x, y) of (Some v, Some w) \<Rightarrow> Some (join_values v w) | (None, _) \<Rightarrow> y | (_, None) \<Rightarrow> x)"

lemma join_maps_get:
  assumes "bt_ok left" "bt_ok right"
  shows "bt_ok (join_maps left right) \<and>
    (\<forall>k. bt_get (join_maps left right) k = join_opt (bt_get left k) (bt_get right k))"
  using assms unfolding join_maps_def
proof (induction right arbitrary: left)
  case Nil
  then show ?case by (auto simp: join_opt_def split: option.split)
next
  case (Cons e right)
  obtain key v where e: "e = (key, v)" by fastforce
  have r: "bt_ok right" "bt_get right key = None"
    using Cons.prems(2) e by (auto simp: bt_ok_Cons bt_get_keys)
  have l: "bt_ok (join_entry e left)" using Cons.prems(1) e by (simp add: join_entry_def)
  have g: "bt_get (join_entry e left) k = (if k = key then join_opt (bt_get left key) (Some v) else bt_get left k)" for k
    using Cons.prems(1) e by (simp add: join_entry_def bt_get_insert join_opt_def split: option.split)
  have "bt_get (e # right) k = (if k = key then Some v else bt_get right k)" for k
    by (simp add: e bt_get_def)
  then show ?case using Cons.IH [OF l r(1)] g r(2) by (auto simp: join_opt_def split: option.splits)
qed

lemma join_opt_ok:
  "join_opt x y = Some v \<Longrightarrow> (\<And>w. x = Some w \<Longrightarrow> value_ok w) \<Longrightarrow> (\<And>w. y = Some w \<Longrightarrow> value_ok w) \<Longrightarrow> value_ok v"
  by (auto simp: join_opt_def join_ok split: option.splits)

lemma join_states_ok: "state_ok s \<Longrightarrow> state_ok t \<Longrightarrow> state_ok (join_states s t)"
  using join_maps_get [of "vs_regs s" "vs_regs t"] join_maps_get [of "vs_stack s" "vs_stack t"]
  by (auto simp: state_ok_def join_states_def elim!: join_opt_ok)

lemma join_maps_admits:
  assumes "bt_ok l" "bt_ok r" "set (bt_keys l) = set (bt_keys r)" "map_admits l f \<or> map_admits r f"
    "\<forall>k v. bt_get l k = Some v \<longrightarrow> value_ok v" "\<forall>k v. bt_get r k = Some v \<longrightarrow> value_ok v"
  shows "map_admits (join_maps l r) f"
  unfolding map_admits_def
proof (intro allI impI)
  fix k u
  assume u: "bt_get (join_maps l r) k = Some u"
  have eq: "bt_get l k = None \<longleftrightarrow> bt_get r k = None" using assms(3) by (simp add: bt_get_keys)
  have "join_opt (bt_get l k) (bt_get r k) = Some u" using join_maps_get [OF assms(1,2)] u by simp
  then obtain v w where vw: "bt_get l k = Some v" "bt_get r k = Some w" "u = join_values v w"
    using eq by (auto simp: join_opt_def split: option.splits)
  have "admits v (f k) \<or> admits w (f k)" using assms(4) vw by (auto simp: map_admits_def)
  moreover have "value_ok v" "value_ok w" using assms(5,6) vw(1,2) by blast+
  ultimately show "admits u (f k)" using join_admits vw(3) by blast
qed

section \<open>Refinement\<close>

lemma update_reg_admits:
  assumes "state_ok st" "state_admits st regs stack"
    "\<And>v. value_ok v \<Longrightarrow> admits v (regs reg) \<Longrightarrow> admits (f v) (regs reg)"
  shows "state_admits (update_reg f reg st) regs stack"
proof (cases "bt_get (vs_regs st) reg")
  case (Some v)
  then have "admits (f v) (regs reg)"
    using assms by (auto simp: state_ok_def state_admits_def map_admits_def)
  then show ?thesis using admits_insert_reg [OF assms(1,2), of "f v" "regs reg" reg] Some
    by (simp add: update_reg_def)
qed (use assms in \<open>simp add: update_reg_def\<close>)

lemma update_reg_ok:
  "state_ok st \<Longrightarrow> (\<And>v. value_ok v \<Longrightarrow> value_ok (f v)) \<Longrightarrow> state_ok (update_reg f reg st)"
  by (auto simp: update_reg_def state_ok_insert_reg state_ok_reg split: option.split)

lemma refine_by_branch_ok: "state_ok st \<Longrightarrow> state_ok (refine_by_branch m t f st reg imm va)"
  by (simp add: refine_by_branch_def refine_upper_bound_def refine_lower_bound_def refine_exact_value_def update_reg_ok)

lemma refine_edge_ok: "state_ok st \<Longrightarrow> state_ok (refine_state_for_edge st ins e)"
  by (auto simp: refine_state_for_edge_def Let_def refine_by_branch_ok split: option.split list.split)

text \<open>The unsigned relation of a conditional jump after a comparison.\<close>

definition unsigned_relation :: "string \<Rightarrow> (u64 \<Rightarrow> u64 \<Rightarrow> bool) option" where
  "unsigned_relation m =
     (if m \<in> set [''jbe'', ''jna''] then Some (\<lambda>x y. x \<le> y)
      else if m \<in> set [''jb'', ''jnae''] then Some (\<lambda>x y. x < y)
      else if m \<in> set [''jae'', ''jnb''] then Some (\<lambda>x y. x \<ge> y)
      else if m \<in> set [''ja'', ''jnbe''] then Some (\<lambda>x y. x > y)
      else if m \<in> set [''je'', ''jz''] then Some (\<lambda>x y. x = y)
      else None)"

lemma sat_add1_le: "y < x \<Longrightarrow> sat_add1 y \<le> x"
  by (auto simp: sat_add1_def inc_le)

lemma le_sat_sub1: "x < y \<Longrightarrow> x \<le> sat_sub1 y"
  by (auto simp: sat_sub1_def word_le_nat_alt word_less_nat_alt unat_sub_u64)

lemma upper_state:
  "state_ok st \<Longrightarrow> state_admits st regs stack \<Longrightarrow> regs reg \<le> b \<Longrightarrow>
    state_admits (refine_upper_bound st reg b va) regs stack"
  unfolding refine_upper_bound_def by (rule update_reg_admits) (auto intro: upper_admits)

lemma lower_state:
  "state_ok st \<Longrightarrow> state_admits st regs stack \<Longrightarrow> b \<le> regs reg \<Longrightarrow>
    state_admits (refine_lower_bound st reg b va) regs stack"
  unfolding refine_lower_bound_def by (rule update_reg_admits) (auto intro: lower_admits)

lemma exact_state:
  "state_ok st \<Longrightarrow> state_admits st regs stack \<Longrightarrow> regs reg = b \<Longrightarrow>
    state_admits (refine_exact_value st reg b va) regs stack"
  unfolding refine_exact_value_def by (rule update_reg_admits) (auto simp: exact_admits)

text \<open>The refinement of each unsigned jump, by its class.\<close>

lemma refine_by_name:
  "refine_by_branch ''jbe'' t f st reg imm va =
     (if t then refine_upper_bound st reg imm va
      else if f then refine_lower_bound st reg (sat_add1 imm) va else st)"
  "refine_by_branch ''jna'' t f st reg imm va =
     (if t then refine_upper_bound st reg imm va
      else if f then refine_lower_bound st reg (sat_add1 imm) va else st)"
  "refine_by_branch ''jb'' t f st reg imm va =
     (if t then refine_upper_bound st reg (sat_sub1 imm) va
      else if f then refine_lower_bound st reg imm va else st)"
  "refine_by_branch ''jnae'' t f st reg imm va =
     (if t then refine_upper_bound st reg (sat_sub1 imm) va
      else if f then refine_lower_bound st reg imm va else st)"
  "refine_by_branch ''jae'' t f st reg imm va =
     (if t then refine_lower_bound st reg imm va
      else if f then refine_upper_bound st reg (sat_sub1 imm) va else st)"
  "refine_by_branch ''jnb'' t f st reg imm va =
     (if t then refine_lower_bound st reg imm va
      else if f then refine_upper_bound st reg (sat_sub1 imm) va else st)"
  "refine_by_branch ''ja'' t f st reg imm va =
     (if t then refine_lower_bound st reg (sat_add1 imm) va
      else if f then refine_upper_bound st reg imm va else st)"
  "refine_by_branch ''jnbe'' t f st reg imm va =
     (if t then refine_lower_bound st reg (sat_add1 imm) va
      else if f then refine_upper_bound st reg imm va else st)"
  "refine_by_branch ''je'' t f st reg imm va =
     (if t then refine_exact_value st reg imm va else st)"
  "refine_by_branch ''jz'' t f st reg imm va =
     (if t then refine_exact_value st reg imm va else st)"
  by (simp_all add: refine_by_branch_def)

lemma refine_by_class:
  "m \<in> set [''jbe'', ''jna''] \<Longrightarrow> refine_by_branch m t f st reg imm va =
     (if t then refine_upper_bound st reg imm va
      else if f then refine_lower_bound st reg (sat_add1 imm) va else st)"
  "m \<in> set [''jb'', ''jnae''] \<Longrightarrow> refine_by_branch m t f st reg imm va =
     (if t then refine_upper_bound st reg (sat_sub1 imm) va
      else if f then refine_lower_bound st reg imm va else st)"
  "m \<in> set [''jae'', ''jnb''] \<Longrightarrow> refine_by_branch m t f st reg imm va =
     (if t then refine_lower_bound st reg imm va
      else if f then refine_upper_bound st reg (sat_sub1 imm) va else st)"
  "m \<in> set [''ja'', ''jnbe''] \<Longrightarrow> refine_by_branch m t f st reg imm va =
     (if t then refine_lower_bound st reg (sat_add1 imm) va
      else if f then refine_upper_bound st reg imm va else st)"
  "m \<in> set [''je'', ''jz''] \<Longrightarrow> refine_by_branch m t f st reg imm va =
     (if t then refine_exact_value st reg imm va else st)"
  by (auto simp: refine_by_name)

lemma refine_by_branch_admits:
  assumes "state_ok st" "state_admits st regs stack" "unsigned_relation m = Some P"
    "taken \<Longrightarrow> P (regs reg) imm" "\<not> taken \<Longrightarrow> fallthrough \<Longrightarrow> \<not> P (regs reg) imm"
  shows "state_admits (refine_by_branch m taken fallthrough st reg imm va) regs stack"
proof -
  note rules = upper_state [OF assms(1,2)] lower_state [OF assms(1,2)] exact_state [OF assms(1,2)]
  consider (be) "m \<in> set [''jbe'', ''jna'']" "P = (\<lambda>x y. x \<le> y)"
    | (b) "m \<in> set [''jb'', ''jnae'']" "P = (\<lambda>x y. x < y)"
    | (ae) "m \<in> set [''jae'', ''jnb'']" "P = (\<lambda>x y. x \<ge> y)"
    | (a) "m \<in> set [''ja'', ''jnbe'']" "P = (\<lambda>x y. x > y)"
    | (e) "m \<in> set [''je'', ''jz'']" "P = (\<lambda>x y. x = y)"
    using assms(3) unfolding unsigned_relation_def
    by (simp only: option.inject option.distinct split: if_split_asm)
  then show ?thesis
  proof cases
    case be
    show ?thesis unfolding refine_by_class(1) [OF be(1)] using assms(2,4,5) be(2)
      by (auto intro!: rules sat_add1_le simp: not_le)
  next
    case b
    show ?thesis unfolding refine_by_class(2) [OF b(1)] using assms(2,4,5) b(2)
      by (auto intro!: rules le_sat_sub1 simp: not_less)
  next
    case ae
    show ?thesis unfolding refine_by_class(3) [OF ae(1)] using assms(2,4,5) ae(2)
      by (auto intro!: rules le_sat_sub1 simp: not_le)
  next
    case a
    show ?thesis unfolding refine_by_class(4) [OF a(1)] using assms(2,4,5) a(2)
      by (auto intro!: rules sat_add1_le simp: not_less)
  next
    case e
    show ?thesis unfolding refine_by_class(5) [OF e(1)] using assms(2,4) e(2)
      by (auto intro!: rules)
  qed
qed

end
