(* ===== verification/Vsa_Analysis.thy ===== *)
theory Vsa_Analysis
  imports Vsa_Values Semantic_Index
begin

text \<open>
  The driver of \<open>src/vsa.rs\<close>: the linear pass over a slice, the worklist over the blocks of a
  control-flow graph with its loop limit and row cap, and the entry points over all functions.
  A slice of the instruction list out of range is a panic (\<^const>\<open>None\<close>).
\<close>

record VsaValueRecord =
  value_id :: string
  vv_function :: u64
  site_va :: u64
  vv_location :: string
  vv_kind :: string
  vv_lo :: "u64 option"
  vv_hi :: "u64 option"
  vv_stride :: u64
  vv_value :: "string option"
  vv_target_va :: "u64 option"
  vv_evidence :: "u64 list"
  vv_confidence :: string
  vv_region :: string
  vv_expression :: "string option"
  vv_base :: "string option"
  vv_index :: "string option"
  vv_scale :: u32
  vv_displacement :: int
  vv_possible_values :: "u64 list"
  work_budget_exhausted :: bool

definition vsa_record :: "u64 \<Rightarrow> u64 \<Rightarrow> string \<Rightarrow> AbstractValue \<Rightarrow> nat \<Rightarrow> VsaValueRecord" where
  "vsa_record fn site loc v index =
     \<lparr>value_id = ''vsa:'' @ hex016 fn @ '':'' @ hex016 site @ '':'' @ index_hex index,
      vv_function = fn, site_va = site, vv_location = loc, vv_kind = av_kind v, vv_lo = lo v, vv_hi = hi v,
      vv_stride = stride v, vv_value = av_value v, vv_target_va = target_va v, vv_evidence = evidence v,
      vv_confidence = confidence v, vv_region = region v, vv_expression = expression v, vv_base = av_base v,
      vv_index = av_index v, vv_scale = av_scale v, vv_displacement = displacement v,
      vv_possible_values = possible_values v, work_budget_exhausted = False\<rparr>"

definition budget_record :: "string \<Rightarrow> string \<Rightarrow> u64 \<Rightarrow> u64 \<Rightarrow> nat \<Rightarrow> VsaValueRecord" where
  "budget_record tag v fn site index =
     \<lparr>value_id = ''vsa:'' @ hex016 fn @ '':'' @ hex016 site @ tag @ index_hex index,
      vv_function = fn, site_va = site, vv_location = ''analysis_budget'', vv_kind = ''cap'', vv_lo = None,
      vv_hi = None, vv_stride = 0, vv_value = Some v, vv_target_va = None, vv_evidence = [site],
      vv_confidence = ''high'', vv_region = ''unknown'', vv_expression = None, vv_base = None,
      vv_index = None, vv_scale = 0, vv_displacement = 0, vv_possible_values = [], work_budget_exhausted = True\<rparr>"

definition cap_record :: "u64 \<Rightarrow> u64 \<Rightarrow> nat \<Rightarrow> VsaValueRecord" where
  "cap_record = budget_record '':cap:'' ''work_budget_exhausted''"

definition loop_cap_record :: "u64 \<Rightarrow> u64 \<Rightarrow> nat \<Rightarrow> VsaValueRecord" where
  "loop_cap_record = budget_record '':loopcap:'' ''loop_widening_cap''"

type_synonym strings_map = "(u64, StringRecord) btree"
type_synonym vsa_rows = "VsaValueRecord list"

section \<open>Linear slices\<close>

definition emit_row ::
  "u64 \<Rightarrow> nat \<Rightarrow> u64 \<Rightarrow> (string \<times> AbstractValue) option \<Rightarrow> vsa_rows \<Rightarrow> vsa_rows" where
  "emit_row fn row_base site out rows =
     (case out of
        Some (loc, v) \<Rightarrow> rows @ [vsa_record fn site loc v (row_base + length rows)]
      | None \<Rightarrow> rows)"

fun linear_loop ::
  "u64 \<Rightarrow> strings_map \<Rightarrow> nat \<Rightarrow> nat \<Rightarrow> nat \<Rightarrow> IrInstruction list \<Rightarrow> AbstractState \<Rightarrow> nat \<Rightarrow> vsa_rows \<Rightarrow> vsa_rows" where
  "linear_loop fn strs cap budget row_base [] st processed rows = rows"
| "linear_loop fn strs cap budget row_base (ins # rest) st processed rows =
     (if length rows \<ge> cap \<or> processed \<ge> budget
      then rows @ [cap_record fn (ir_address ins) (row_base + length rows)]
      else
        let (out, st) = transfer_instruction ins strs st
        in linear_loop fn strs cap budget row_base rest st (processed + 1)
             (emit_row fn row_base (ir_address ins) out rows))"

definition analyze_linear_slice ::
  "u64 \<Rightarrow> IrInstruction list \<Rightarrow> strings_map \<Rightarrow> nat \<Rightarrow> nat \<Rightarrow> nat \<Rightarrow> vsa_rows" where
  "analyze_linear_slice fn ir strs cap budget row_base =
     linear_loop fn strs cap budget row_base ir state_default 0 []"

section \<open>The graph\<close>

definition block_for_cfg :: "CfgRecord \<Rightarrow> u64 \<Rightarrow> u64 option" where
  "block_for_cfg cfg addr =
     map_option block_start (find (\<lambda>b. block_start b \<le> addr \<and> addr < block_end b) (blocks cfg))"

definition instructions_by_block :: "IrInstruction list \<Rightarrow> CfgRecord \<Rightarrow> (u64, IrInstruction list) btree" where
  "instructions_by_block ir cfg =
     fold (\<lambda>b. bt_insert (block_start b)
             (filter (\<lambda>ins. block_start b \<le> ir_address ins \<and> ir_address ins < block_end b) ir))
       (blocks cfg) []"

text \<open>\<open>map.entry(k).or_default().push(v)\<close>\<close>

definition push_entry :: "'k::linorder \<Rightarrow> 'v \<Rightarrow> ('k, 'v list) btree \<Rightarrow> ('k, 'v list) btree" where
  "push_entry k v m = bt_insert k ((case bt_get m k of Some vs \<Rightarrow> vs | None \<Rightarrow> []) @ [v]) m"

text \<open>\<open>dedup_by\<close>: of a run of rows with equal target and type the first is kept.\<close>

fun dedup_edges :: "EdgeRecord list \<Rightarrow> EdgeRecord list" where
  "dedup_edges (a # b # rest) =
     (if edge_to b = edge_to a \<and> edge_type b = edge_type a then dedup_edges (a # rest)
      else a # dedup_edges (b # rest))"
| "dedup_edges es = es"

text \<open>A stable sort by target, then by type, is a stable sort by type followed by one by target.\<close>

definition order_edges :: "EdgeRecord list \<Rightarrow> EdgeRecord list" where
  "order_edges es = dedup_edges (sort_key edge_to (sort_key edge_type es))"

definition outgoing_edges_by_block :: "CfgRecord \<Rightarrow> (u64, EdgeRecord list) btree" where
  "outgoing_edges_by_block cfg =
     map (\<lambda>(k, es). (k, order_edges es))
       (fold (\<lambda>e m. case block_for_cfg cfg (edge_from e) of None \<Rightarrow> m | Some b \<Rightarrow> push_entry b e m)
          (edges cfg) [])"

definition predecessors_by_block :: "CfgRecord \<Rightarrow> (u64, u64 list) btree" where
  "predecessors_by_block cfg =
     map (\<lambda>(k, ps). (k, remdups_adj (sort ps)))
       (fold (\<lambda>e m. case block_for_cfg cfg (edge_from e) of None \<Rightarrow> m | Some b \<Rightarrow> push_entry (edge_to e) b m)
          (edges cfg) [])"

definition entry_blocks :: "CfgRecord \<Rightarrow> (u64, u64 list) btree \<Rightarrow> u64 list" where
  "entry_blocks cfg preds =
     (let entries = map block_start (filter (\<lambda>b.
            case bt_get preds (block_start b) of
              Some incoming \<Rightarrow> list_all (\<lambda>p. p = block_start b) incoming
            | None \<Rightarrow> True) (blocks cfg))
      in if entries = [] then (case blocks cfg of [] \<Rightarrow> [] | b # _ \<Rightarrow> [block_start b]) else entries)"

section \<open>The worklist\<close>

record VsaCtx =
  vc_function :: u64
  vc_ins :: "(u64, IrInstruction list) btree"
  vc_edges :: "(u64, EdgeRecord list) btree"
  vc_strings :: strings_map
  vc_cap :: nat
  vc_limit :: nat
  vc_base :: nat

type_synonym in_states = "(u64, AbstractState) btree"

definition state_at :: "in_states \<Rightarrow> u64 \<Rightarrow> AbstractState" where
  "state_at m b = (case bt_get m b of Some st \<Rightarrow> st | None \<Rightarrow> state_default)"

definition list_at :: "('k, 'v list) btree \<Rightarrow> 'k \<Rightarrow> 'v list" where
  "list_at m k = (case bt_get m k of Some vs \<Rightarrow> vs | None \<Rightarrow> [])"

text \<open>The instructions of a block; the flag says that the row cap was hit, which ends the analysis.\<close>

fun block_loop ::
  "VsaCtx \<Rightarrow> IrInstruction list \<Rightarrow> AbstractState \<Rightarrow> vsa_rows \<Rightarrow> bool \<times> AbstractState \<times> vsa_rows" where
  "block_loop c [] st rows = (False, st, rows)"
| "block_loop c (ins # rest) st rows =
     (if length rows \<ge> vc_cap c
      then (True, st, rows @ [cap_record (vc_function c) (ir_address ins) (vc_base c + length rows)])
      else
        let (out, st) = transfer_instruction ins (vc_strings c) st
        in block_loop c rest st (emit_row (vc_function c) (vc_base c) (ir_address ins) out rows))"

fun edge_loop ::
  "u64 \<Rightarrow> IrInstruction list \<Rightarrow> AbstractState \<Rightarrow> EdgeRecord list \<Rightarrow> in_states \<Rightarrow> u64 list \<Rightarrow> in_states \<times> u64 list" where
  "edge_loop block block_ins st [] in_state worklist = (in_state, worklist)"
| "edge_loop block block_ins st (edge # rest) in_state worklist =
     (let successor = edge_to edge;
          edge_state = refine_state_for_edge st block_ins edge;
          old = state_at in_state successor;
          joined = join_states old edge_state
      in if state_signature old \<noteq> state_signature joined \<or> successor = block
         then edge_loop block block_ins st rest (bt_insert successor joined in_state) (worklist @ [successor])
         else edge_loop block block_ins st rest in_state worklist)"

text \<open>Rounds left in the loop limit, summed over all addresses.\<close>

definition rounds_left :: "nat \<Rightarrow> (u64 \<Rightarrow> nat) \<Rightarrow> nat" where
  "rounds_left limit it = (\<Sum>b \<in> UNIV. limit - it b)"

lemma rounds_left_step:
  assumes "it b + 1 \<le> limit"
  shows "rounds_left limit (it(b := it b + 1)) < rounds_left limit it"
proof -
  have "rounds_left limit (it(b := it b + 1)) = (limit - (it b + 1)) + (\<Sum>x \<in> UNIV - {b}. limit - it x)"
    unfolding rounds_left_def by (subst sum.remove [of UNIV b]) (auto intro!: sum.cong)
  moreover have "rounds_left limit it = (limit - it b) + (\<Sum>x \<in> UNIV - {b}. limit - it x)"
    unfolding rounds_left_def by (rule sum.remove) auto
  ultimately show ?thesis using assms by simp
qed

lemma rounds_left_mono: "rounds_left limit (it(b := it b + 1)) \<le> rounds_left limit it"
  unfolding rounds_left_def by (rule sum_mono) auto

function (sequential) worklist_loop ::
  "VsaCtx \<Rightarrow> u64 list \<Rightarrow> in_states \<Rightarrow> (u64 \<Rightarrow> nat) \<Rightarrow> u64 set \<Rightarrow> vsa_rows \<Rightarrow> vsa_rows" where
  "worklist_loop c [] in_state iterations capped rows = rows"
| "worklist_loop c (block # worklist) in_state iterations capped rows =
     (if length rows \<ge> vc_cap c
      then rows @ [cap_record (vc_function c) block (vc_base c + length rows)]
      else
        let iterations' = iterations(block := iterations block + 1)
        in if iterations block + 1 > vc_limit c
           then
             (if block \<in> capped then worklist_loop c worklist in_state iterations' capped rows
              else worklist_loop c worklist in_state iterations' (insert block capped)
                     (rows @ [loop_cap_record (vc_function c) block (vc_base c + length rows)]))
           else
             (case block_loop c (list_at (vc_ins c) block) (state_at in_state block) rows of
                (True, _, rows') \<Rightarrow> rows'
              | (False, st, rows') \<Rightarrow>
                  (let r = edge_loop block (list_at (vc_ins c) block) st (list_at (vc_edges c) block) in_state worklist
                   in worklist_loop c (snd r) (fst r) iterations' capped rows')))"
  by pat_completeness auto

termination
proof (relation "measures [\<lambda>(c, _, _, it, _, _). rounds_left (vc_limit c) it, \<lambda>(_, wl, _). length wl]", goal_cases)
  case 1
  show ?case by simp
next
  case (2 c block worklist in_state iterations capped rows)
  show ?case using rounds_left_mono [of "vc_limit c" iterations block] by (simp add: 2(2) le_less)
next
  case (3 c block worklist in_state iterations capped rows)
  show ?case using rounds_left_mono [of "vc_limit c" iterations block] by (simp add: 3(2) le_less)
next
  case (4 c block worklist in_state iterations capped rows)
  then show ?case using rounds_left_step [of iterations block "vc_limit c"] by simp
qed

definition analyze_cfg_function ::
  "u64 \<Rightarrow> IrInstruction list \<Rightarrow> CfgRecord \<Rightarrow> strings_map \<Rightarrow> nat \<Rightarrow> nat \<Rightarrow> nat \<Rightarrow> vsa_rows" where
  "analyze_cfg_function fn ir cfg strs cap limit row_base =
     (let entries = entry_blocks cfg (predecessors_by_block cfg);
          in_state = fold (\<lambda>e m. bt_insert e (state_at m e) m) entries []
      in worklist_loop
           \<lparr>vc_function = fn, vc_ins = instructions_by_block ir cfg, vc_edges = outgoing_edges_by_block cfg,
            vc_strings = strs, vc_cap = cap, vc_limit = limit, vc_base = row_base\<rparr>
           entries in_state (\<lambda>_. 0) {} [])"

section \<open>Entry points\<close>

record SecondPassTargetRecord =
  target_id :: string
  target_function :: u64
  target_reason :: string
  priority_score :: int
  pass1_uncertainty :: string
  result_status :: string
  target_evidence :: "u64 list"

definition vsa_function_cap :: "string \<Rightarrow> nat" where
  "vsa_function_cap bname =
     (if bname = ''max'' then usize_max else if bname = ''high'' then 512 else 128)"

definition vsa_instruction_budget :: "string \<Rightarrow> nat" where
  "vsa_instruction_budget bname =
     (if bname = ''max'' then usize_max else if bname = ''high'' then 1024 else 128)"

definition vsa_loop_limit :: "string \<Rightarrow> nat" where
  "vsa_loop_limit bname =
     (if bname = ''max'' then 16 else if bname = ''high'' then 8 else 4)"

text \<open>\<open>collect\<close> into an ordered map: of rows with one key the last is kept.\<close>

definition collect_by :: "('a \<Rightarrow> u64) \<Rightarrow> 'a list \<Rightarrow> (u64, 'a) btree" where
  "collect_by key rows = fold (\<lambda>row. bt_insert (key row) row) rows []"

definition analyze_function ::
  "string \<Rightarrow> strings_map \<Rightarrow> (u64, CfgRecord) btree \<Rightarrow> u64 \<Rightarrow> IrInstruction list \<Rightarrow> nat \<Rightarrow> vsa_rows" where
  "analyze_function bname strs cfg_by_function fn function_ir row_base =
     (let linear = analyze_linear_slice fn function_ir strs (vsa_function_cap bname)
            (vsa_instruction_budget bname) row_base
      in case bt_get cfg_by_function fn of
           None \<Rightarrow> linear
         | Some cfg_record \<Rightarrow>
             if blocks cfg_record = [] then linear
             else analyze_cfg_function fn function_ir cfg_record strs (vsa_function_cap bname)
                    (vsa_loop_limit bname) row_base)"

text \<open>The loop over the slices, for a body that gets the function, its IR rows and the rows so far.\<close>

fun slices_loop ::
  "(u64 \<Rightarrow> IrInstruction list \<Rightarrow> vsa_rows \<Rightarrow> vsa_rows) \<Rightarrow> FunctionRecord list \<Rightarrow> IrInstruction list \<Rightarrow> u64 set \<Rightarrow>
   FunctionSemanticSlice list \<Rightarrow> vsa_rows \<Rightarrow> vsa_rows option" where
  "slices_loop body functions ir targets [] rows = Some rows"
| "slices_loop body functions ir targets (s # ss) rows =
     (if function_index s \<ge> length functions then slices_loop body functions ir targets ss rows
      else
        let fn = fn_start (functions ! function_index s)
        in if fn \<notin> targets then slices_loop body functions ir targets ss rows
           else case slice_range ir (ir_range s) of
                  None \<Rightarrow> None
                | Some function_ir \<Rightarrow> slices_loop body functions ir targets ss (body fn function_ir rows))"

text \<open>The stable sort by function, site, location and kind, least significant key first.\<close>

definition sort_rows :: "vsa_rows \<Rightarrow> vsa_rows" where
  "sort_rows rows = sort_key vv_function (sort_key site_va (sort_key vv_location (sort_key vv_kind rows)))"

definition analyze_targets_with_cfg ::
  "FunctionRecord list \<Rightarrow> FunctionSemanticSlice list \<Rightarrow> IrInstruction list \<Rightarrow> CfgRecord list \<Rightarrow>
   StringRecord list \<Rightarrow> SecondPassTargetRecord list \<Rightarrow> string \<Rightarrow> vsa_rows option" where
  "analyze_targets_with_cfg functions slices ir cfg strings targets bname =
     (if targets = [] then Some []
      else
        let strs = collect_by str_va strings;
            cfgs = collect_by cfg_function cfg
        in map_option sort_rows
             (slices_loop
                (\<lambda>fn function_ir rows. rows @ analyze_function bname strs cfgs fn function_ir (length rows))
                functions ir (target_function ` set targets) slices []))"

text \<open>The linear entry point: here a stored slot and a written register of one instruction both give a row.\<close>

fun targets_loop ::
  "u64 \<Rightarrow> strings_map \<Rightarrow> nat \<Rightarrow> nat \<Rightarrow> IrInstruction list \<Rightarrow> AbstractState \<Rightarrow> nat \<Rightarrow> nat \<Rightarrow> vsa_rows \<Rightarrow> vsa_rows" where
  "targets_loop fn strs cap budget [] st emitted processed rows = rows"
| "targets_loop fn strs cap budget (ins # rest) st emitted processed rows =
     (if emitted \<ge> cap \<or> processed \<ge> budget then rows @ [cap_record fn (ir_address ins) (length rows)]
      else
        let stored =
              (case (memory_write ins, stack_slot ins, value_for_instruction ins strs (vs_regs st) (vs_stack st)) of
                 (True, Some slot, Some v) \<Rightarrow> Some (slot, with_evidence v (ir_address ins))
               | _ \<Rightarrow> None);
            st = (case stored of Some (slot, v) \<Rightarrow> st\<lparr>vs_stack := bt_insert slot v (vs_stack st)\<rparr> | None \<Rightarrow> st);
            rows = emit_row fn 0 (ir_address ins) (map_option (\<lambda>(slot, v). (slot_location slot, v)) stored) rows;
            emitted = (if stored = None then emitted else emitted + 1);
            (out, st) = write_register ins strs st;
            rows = emit_row fn 0 (ir_address ins) out rows;
            emitted = (if out = None then emitted else emitted + 1)
        in targets_loop fn strs cap budget rest st emitted (processed + 1) rows)"

definition analyze_targets ::
  "FunctionRecord list \<Rightarrow> FunctionSemanticSlice list \<Rightarrow> IrInstruction list \<Rightarrow>
   StringRecord list \<Rightarrow> SecondPassTargetRecord list \<Rightarrow> string \<Rightarrow> vsa_rows option" where
  "analyze_targets functions slices ir strings targets bname =
     (if targets = [] then Some []
      else
        let strs = collect_by str_va strings
        in slices_loop
             (\<lambda>fn function_ir rows. targets_loop fn strs (vsa_function_cap bname)
                (vsa_instruction_budget bname) function_ir state_default 0 0 rows)
             functions ir (target_function ` set targets) slices [])"

end
