(* ===== verification/Vsa_Rules.thy ===== *)
theory Vsa_Rules
  imports Vsa_States
begin

text \<open>
  Properties of the single rules of \<open>src/vsa.rs\<close>: constant additions, joins, refinements at conditional edges,
  transfers of decoded instructions, strides.
\<close>

unbundle bit_operations_syntax

section \<open>Additions and strides\<close>

text \<open>
  Adding a constant to an interval is sound exactly where the bounds do not wrap apart. For
  an interval with ordered bounds, the result admits every sum exactly when no member wraps or
  all do; the same for subtraction and borrows. When only the upper end wraps, the result is
  an interval that admits nothing.
\<close>

theorem vsa_arithmetic_exact:
  assumes "lo v = Some l" "hi v = Some h" "l \<le> h"
  shows "((\<forall>x. admits v x \<longrightarrow> (\<exists>w. arithmetic v ''add'' imm = Some w \<and> admits w (x + imm))) \<longleftrightarrow>
       unat h + unat imm < 2 ^ 64 \<or> 2 ^ 64 \<le> unat l + unat imm) \<and>
    ((\<forall>x. admits v x \<longrightarrow> (\<exists>w. arithmetic v ''sub'' imm = Some w \<and> admits w (x - imm))) \<longleftrightarrow>
       imm \<le> l \<or> h < imm) \<and>
    (unat l + unat imm < 2 ^ 64 \<and> 2 ^ 64 \<le> unat h + unat imm \<longrightarrow>
       (\<exists>w. arithmetic v ''add'' imm = Some w \<and> (\<forall>y. \<not> admits w y)))"
proof (intro conjI impI)
  obtain wa where a: "arithmetic v ''add'' imm = Some wa" "\<And>y. admits wa y \<longleftrightarrow> l + imm \<le> y \<and> y \<le> h + imm"
    using arithmetic_admits [OF assms(1,2), of "''add''" imm] by auto
  obtain ws where s: "arithmetic v ''sub'' imm = Some ws" "\<And>y. admits ws y \<longleftrightarrow> l - imm \<le> y \<and> y \<le> h - imm"
    using arithmetic_admits [OF assms(1,2), of "''sub''" imm] by auto
  have v: "admits v x \<longleftrightarrow> l \<le> x \<and> x \<le> h" for x using assms(1,2) by (simp add: admits_def)
  show "(\<forall>x. admits v x \<longrightarrow> (\<exists>w. arithmetic v ''add'' imm = Some w \<and> admits w (x + imm))) \<longleftrightarrow>
      unat h + unat imm < 2 ^ 64 \<or> 2 ^ 64 \<le> unat l + unat imm"
    using add_interval_exact [OF assms(3), of imm] by (simp add: a v)
  show "(\<forall>x. admits v x \<longrightarrow> (\<exists>w. arithmetic v ''sub'' imm = Some w \<and> admits w (x - imm))) \<longleftrightarrow> imm \<le> l \<or> h < imm"
    using sub_interval_exact [OF assms(3), of imm] by (simp add: s v)
  assume wraps: "unat l + unat imm < 2 ^ 64 \<and> 2 ^ 64 \<le> unat h + unat imm"
  have "unat h < 2 ^ 64" using unsigned_less [of h, where ?'a = nat] by simp
  then have "unat (h + imm) < unat (l + imm)" using wraps unat_add_u64 [of h imm] unat_add_u64 [of l imm] by simp linarith
  then have "\<not> (l + imm \<le> y \<and> y \<le> h + imm)" for y by (auto simp: word_le_nat_alt)
  then show "\<exists>w. arithmetic v ''add'' imm = Some w \<and> (\<forall>y. \<not> admits w y)" using a by blast
qed

theorem vsa_arithmetic_exact_witness:
  "\<exists>w. arithmetic (and_mask 7) ''add'' 2 = Some w \<and> admits w 9"
proof -
  have b: "lo (and_mask 7) = Some 0" "hi (and_mask 7) = Some 7" by (simp_all add: and_mask_def)
  have "unat (7 :: u64) + unat (2 :: u64) < 2 ^ 64" by simp
  then have "\<forall>x. admits (and_mask 7) x \<longrightarrow> (\<exists>w. arithmetic (and_mask 7) ''add'' 2 = Some w \<and> admits w (x + 2))"
    using vsa_arithmetic_exact [OF b, of 2] by simp
  from this [rule_format, of 7] show ?thesis by (simp add: admits_def b)
qed

text \<open>
  The stride of a value set is the greatest common divisor of its differences: with at least
  two different values, a number divides the stride exactly when it divides the difference of
  any two of them.
\<close>

theorem vsa_stride_gcd:
  assumes "a \<in> set vals" "b \<in> set vals" "a \<noteq> b"
  shows "d dvd unat (stride_for_values vals) \<longleftrightarrow> (\<forall>x \<in> set vals. \<forall>y \<in> set vals. d dvd (unat y - unat x))"
  by (rule stride_dvd [OF assms])

theorem vsa_stride_gcd_witness: "4 dvd unat (stride_for_values [24, 8, 12])"
  using vsa_stride_gcd [of 24 "[24, 8, 12]" 8 4] by simp

section \<open>Joins\<close>

text \<open>
  The join of two states that know the same registers and slots is sound: it admits every
  concrete state one of them admits, and keeps the invariant.
\<close>

theorem vsa_join_sound:
  assumes "state_ok s" "state_ok t" "set (bt_keys (vs_regs s)) = set (bt_keys (vs_regs t))"
    "set (bt_keys (vs_stack s)) = set (bt_keys (vs_stack t))"
    "state_admits s regs stack \<or> state_admits t regs stack"
  shows "state_admits (join_states s t) regs stack \<and> state_ok (join_states s t)"
proof
  note ok = assms(1,2)[unfolded state_ok_def]
  have "map_admits (join_maps (vs_regs s) (vs_regs t)) regs"
    using assms(5) ok by (intro join_maps_admits assms(3)) (auto simp only: state_admits_def)
  moreover have "map_admits (join_maps (vs_stack s) (vs_stack t)) stack"
    using assms(5) ok by (intro join_maps_admits assms(4)) (auto simp only: state_admits_def)
  ultimately show "state_admits (join_states s t) regs stack"
    by (simp add: state_admits_def join_states_def)
  show "state_ok (join_states s t)" by (rule join_states_ok [OF assms(1,2)])
qed

abbreviation one_reg :: "u64 \<Rightarrow> AbstractState" where
  "one_reg x \<equiv> state_default\<lparr>vs_regs := [(''rax'', vsa_constant x ''medium'' [])]\<rparr>"

lemma one_reg_ok: "state_ok (one_reg x)"
  by (auto simp: state_ok_def state_default_def bt_ok_Cons bt_keys_def bt_get_def split: if_splits)

lemma one_reg_admits: "state_admits (one_reg x) regs stack \<longleftrightarrow> regs ''rax'' = x"
  by (auto simp: state_admits_def map_admits_def state_default_def bt_get_def admits_def vsa_constant_def)

theorem vsa_join_sound_witness: "state_admits (join_states (one_reg 3) (one_reg 8)) (\<lambda>_. 8) (\<lambda>_. 0)"
  using vsa_join_sound [OF one_reg_ok one_reg_ok, of 3 8 "\<lambda>_. 8" "\<lambda>_. 0"] one_reg_admits [of 8]
  by (simp add: state_default_def bt_keys_def)

text \<open>
  A register known on one path only stays known after the join. When one state knows
  nothing about a register and the other excludes a value for it, the first admits a concrete
  state with that value which the join does not admit, although that path leads to the join.
\<close>

theorem vsa_join_drops_unknown:
  assumes "state_ok s" "state_ok t" "state_admits s regs stack" "bt_get (vs_regs s) r = None"
    "bt_get (vs_regs t) r = Some v" "\<not> admits v x"
  shows "state_admits s (regs(r := x)) stack \<and> \<not> state_admits (join_states s t) (regs(r := x)) stack"
proof
  show "state_admits s (regs(r := x)) stack"
    using assms(3,4) by (auto simp: state_admits_def map_admits_def)
  have "bt_get (join_maps (vs_regs s) (vs_regs t)) r = Some v"
    using join_maps_get [of "vs_regs s" "vs_regs t"] assms(1,2,4,5) by (simp add: state_ok_def join_opt_def)
  then show "\<not> state_admits (join_states s t) (regs(r := x)) stack"
    using assms(6) by (auto simp: state_admits_def map_admits_def join_states_def)
qed

theorem vsa_join_drops_unknown_witness:
  "state_admits state_default ((\<lambda>_. 0)(''rax'' := 5)) (\<lambda>_. 0) \<and>
   \<not> state_admits (join_states state_default (one_reg 3)) ((\<lambda>_. 0)(''rax'' := 5)) (\<lambda>_. 0)"
proof (rule vsa_join_drops_unknown [OF state_ok_default one_reg_ok])
  show "state_admits state_default (\<lambda>_. 0) (\<lambda>_. 0)"
    by (simp add: state_admits_def map_admits_def state_default_def)
  show "bt_get (vs_regs state_default) ''rax'' = None" by (simp add: state_default_def)
  show "bt_get (vs_regs (one_reg 3)) ''rax'' = Some (vsa_constant 3 ''medium'' [])" by (simp add: bt_get_def)
  show "\<not> admits (vsa_constant 3 ''medium'' []) 5" by (simp add: admits_def vsa_constant_def)
qed

section \<open>Refinement\<close>

text \<open>
  The flags a full-width \<open>cmp\<close> leaves (borrow and zero), and the unsigned conditional jumps on them, as
  the processor defines them.
\<close>

definition wide_registers :: "string list" where
  "wide_registers = [''rax'', ''rbx'', ''rcx'', ''rdx'', ''rsi'', ''rdi'', ''rsp'', ''rbp'', ''r8'', ''r9'', ''r10'',
     ''r11'', ''r12'', ''r13'', ''r14'', ''r15'']"

definition compare_flags :: "u64 \<Rightarrow> u64 \<Rightarrow> bool \<times> bool" where
  "compare_flags x y = (unat x < unat y, x - y = 0)"

definition unsigned_jumps :: "string list" where
  "unsigned_jumps = [''jbe'', ''jna'', ''jb'', ''jnae'', ''jae'', ''jnb'', ''ja'', ''jnbe'', ''je'', ''jz'']"

definition jump_taken :: "string \<Rightarrow> bool \<times> bool \<Rightarrow> bool" where
  "jump_taken m flags =
     (case flags of (cf, zf) \<Rightarrow>
        if m \<in> set [''jbe'', ''jna''] then cf \<or> zf
        else if m \<in> set [''jb'', ''jnae''] then cf
        else if m \<in> set [''jae'', ''jnb''] then \<not> cf
        else if m \<in> set [''ja'', ''jnbe''] then \<not> cf \<and> \<not> zf
        else zf)"

lemma wide_register_name: "r \<in> set wide_registers \<Longrightarrow> normalize_register r = Some r"
  unfolding wide_registers_def by (simp, elim disjE) (simp_all add: normalize_register_def)

lemma jump_taken_relation:
  assumes "m \<in> set unsigned_jumps"
  shows "\<exists>P. unsigned_relation m = Some P \<and> (\<forall>x y. P x y \<longleftrightarrow> jump_taken m (compare_flags x y))"
proof -
  have f: "compare_flags x y = (x < y, x = y)" for x y
    by (simp add: compare_flags_def word_less_nat_alt)
  from assms show ?thesis unfolding unsigned_jumps_def
    by (simp, elim disjE) (auto simp: unsigned_relation_def jump_taken_def f)
qed

lemma compare_row:
  assumes "ii_kinds i = [KRegister, KImmediate]" "ii_registers i = [reg, s]" "ii_immediates i = [a, imm]"
    "reg \<in> set wide_registers"
  shows "read_regs (from_iced i ''cmp'' c j) = [reg]" "immediate (from_iced i ''cmp'' c j) = Some imm"
  using assms(1-3) wide_register_name [OF assms(4)]
  by (simp_all add: from_iced_def ir_operand_def Let_def writes_first_operand_def push_unique_opt_def push_unique_def
      upt_rec [of 0] upt_rec [of 1] numeral_2_eq_2 split: prod.split)

lemma compare_jump_found:
  assumes "ins = pre @ [cmp, branch]" "ir_is_jump branch" "direct_target branch = Some target"
    "ir_mnemonic cmp = ''cmp''" "ir_address cmp < ir_address branch"
  shows "last_branch ins = Some branch" "compare_before branch ins = Some cmp"
proof -
  have "\<not> ir_address branch \<le> ir_address cmp" using assms(5) by simp
  with assms show "last_branch ins = Some branch" "compare_before branch ins = Some cmp"
    by (simp_all add: last_branch_def compare_before_def)
qed

text \<open>
  C8: the refinement at an unsigned conditional jump after a comparison of a full register is sound. Take
  a block that ends with a \<open>cmp\<close> of a 64-bit register with an immediate, as the decoder gives it, and one
  of the unsigned conditional jumps (or \<open>je\<close>), and a concrete state that the abstract one admits. Follow the
  edge the processor follows from it: the jump's target exactly when the flags of the comparison take the
  jump. Then the state refined for that edge still admits the concrete state, and keeps the invariant.
  Tests, narrower comparisons and signed jumps are not covered: \<open>vsa_test_refined_as_cmp\<close> and
  \<open>vsa_signed_refined_unsigned\<close> show what becomes of them.
\<close>

theorem vsa_refine_sound:
  assumes "ins = pre @ [from_iced i ''cmp'' False False, branch]"
    "ii_kinds i = [KRegister, KImmediate]" "ii_registers i = [reg, s]" "ii_immediates i = [a, imm]"
    "reg \<in> set wide_registers"
    "ir_is_jump branch" "direct_target branch = Some target" "ii_ip i < ir_address branch"
    "ir_mnemonic branch \<in> set unsigned_jumps"
    "state_ok st" "state_admits st regs stack"
    "edge_to e = target \<longleftrightarrow> jump_taken (ir_mnemonic branch) (compare_flags (regs reg) imm)"
  shows "state_admits (refine_state_for_edge st ins e) regs stack \<and> state_ok (refine_state_for_edge st ins e)"
proof
  obtain P where P: "unsigned_relation (ir_mnemonic branch) = Some P"
      "\<forall>x y. P x y \<longleftrightarrow> jump_taken (ir_mnemonic branch) (compare_flags x y)"
    using jump_taken_relation [OF assms(9)] by blast
  have found: "last_branch ins = Some branch" "compare_before branch ins = Some (from_iced i ''cmp'' False False)"
    using compare_jump_found [OF assms(1,6,7)] assms(8) by simp_all
  have taken: "P (regs reg) imm \<longleftrightarrow> direct_target branch = Some (edge_to e)" using P(2) assms(7,12) by auto
  show "state_admits (refine_state_for_edge st ins e) regs stack"
    using refine_by_branch_admits [OF assms(10,11) P(1), where reg = reg and imm = imm] taken
    by (simp add: refine_state_for_edge_def Let_def found compare_row [OF assms(2-5)])
  show "state_ok (refine_state_for_edge st ins e)" by (rule refine_edge_ok [OF assms(10)])
qed

definition row_of :: "u64 \<Rightarrow> string \<Rightarrow> string list \<Rightarrow> u64 option \<Rightarrow> u64 option \<Rightarrow> IrInstruction" where
  "row_of addr m reads imm target =
     \<lparr>ir_address = addr, ir_size = 4, ir_mnemonic = m, write_reg = None, read_regs = reads, immediate = imm,
      rip_target = None, stack_slot = None, memory_base = None, memory_index = None, memory_scale = 0,
      memory_displacement = 0, operand_width = 0, indirect_target_register = None,
      indirect_target_memory = False, memory_write = False, memory_read = False, direct_target = target,
      ir_is_call = False, ir_is_jump = (target \<noteq> None)\<rparr>"

abbreviation guard_block :: "string \<Rightarrow> string \<Rightarrow> u64 \<Rightarrow> IrInstruction list" where
  "guard_block cmp jump imm \<equiv> [row_of 0x10 cmp [''rax''] (Some imm) None, row_of 0x14 jump [] None (Some 0x40)]"

lemma guard_block_find:
  assumes "cmp \<in> set [''cmp'', ''test'']"
  shows "last_branch (guard_block cmp jump imm) = Some (row_of 0x14 jump [] None (Some 0x40))"
    and "compare_before (row_of 0x14 jump [] None (Some 0x40)) (guard_block cmp jump imm) =
      Some (row_of 0x10 cmp [''rax''] (Some imm) None)"
  using assms by (auto simp: last_branch_def compare_before_def row_of_def)

abbreviation taken_edge :: EdgeRecord where
  "taken_edge \<equiv> \<lparr>edge_from = 0x14, edge_to = 0x40, edge_type = ''branch''\<rparr>"

definition compare_instruction :: "string \<Rightarrow> u64 \<Rightarrow> IcedInstruction" where
  "compare_instruction reg imm =
     \<lparr>ii_ip = 0x10, ii_len = 4, ii_kinds = [KRegister, KImmediate], ii_registers = [reg, ''none''],
      ii_immediates = [0, imm], ii_memory_base = ''none'', ii_memory_index = ''none'', ii_memory_index_scale = 1,
      ii_memory_displacement64 = 0, ii_memory_size = 0, ii_ip_rel = None, ii_near_branch_target = 0\<rparr>"

theorem vsa_refine_sound_witness:
  "state_admits (refine_state_for_edge (one_reg 3)
     [from_iced (compare_instruction ''rax'' 7) ''cmp'' False False, row_of 0x14 ''jbe'' [] None (Some 0x40)] taken_edge)
     (\<lambda>_. 3) (\<lambda>_. 0)"
proof -
  have j: "jump_taken ''jbe'' (compare_flags 3 7)" by (simp add: jump_taken_def compare_flags_def)
  show ?thesis
    using vsa_refine_sound [of _ "[]" "compare_instruction ''rax'' 7" "row_of 0x14 ''jbe'' [] None (Some 0x40)"
        "''rax''" "''none''" 0 7 "0x40" "one_reg 3" "\<lambda>_. 3" "\<lambda>_. 0" taken_edge, OF refl]
      one_reg_ok [of 3] one_reg_admits [of 3 "\<lambda>_. 3" "\<lambda>_. 0"] j
    by (simp add: row_of_def compare_instruction_def wide_registers_def unsigned_jumps_def)
qed

text \<open>
  A \<open>test\<close> is refined as if it were a \<open>cmp\<close>. On the taken edge of \<open>je\<close> after a test of a known register
  against a non-zero mask, the refined state admits no concrete state in which the jump is taken.
\<close>

theorem vsa_test_refined_as_cmp:
  assumes "last_branch ins = Some branch" "compare_before branch ins = Some cmp" "ir_mnemonic cmp = ''test''"
    "read_regs cmp = reg # rest" "immediate cmp = Some imm" "imm \<noteq> 0"
    "ir_mnemonic branch \<in> set [''je'', ''jz'']" "direct_target branch = Some (edge_to e)"
    "state_ok st" "bt_get (vs_regs st) reg = Some v"
    "regs reg AND imm = 0"
  shows "\<not> state_admits (refine_state_for_edge st ins e) regs stack"
proof -
  have "bt_get (vs_regs (refine_state_for_edge st ins e)) reg = Some (exact_value imm (ir_address cmp) v)"
    using assms refine_by_class(5) [OF assms(7)]
    by (simp add: refine_state_for_edge_def Let_def refine_exact_value_def update_reg_def state_ok_def bt_get_insert)
  moreover have "regs reg \<noteq> imm" using assms(6,11) by auto
  ultimately show ?thesis unfolding state_admits_def map_admits_def using exact_admits by blast
qed

theorem vsa_test_refined_as_cmp_witness:
  "\<not> state_admits (refine_state_for_edge (one_reg 8) (guard_block ''test'' ''je'' 4) taken_edge) (\<lambda>_. 8) (\<lambda>_. 0)"
  by (rule vsa_test_refined_as_cmp [OF guard_block_find, where reg = "''rax''" and rest = "[]" and imm = 4])
    (simp_all add: row_of_def one_reg_ok bt_get_def)

text \<open>
  Signed jumps are refined by the unsigned order. On the taken edge of a signed
  less-or-equal jump, a negative register stands in the signed relation to a non-negative
  immediate, and the refined state does not admit it.
\<close>

theorem vsa_signed_refined_unsigned:
  assumes "last_branch ins = Some branch" "compare_before branch ins = Some cmp"
    "read_regs cmp = reg # rest" "immediate cmp = Some imm"
    "ir_mnemonic branch \<in> set [''jle'', ''jng'']" "direct_target branch = Some (edge_to e)"
    "state_ok st" "bt_get (vs_regs st) reg = Some v" "sint (regs reg) < 0" "0 \<le> sint imm"
  shows "sint (regs reg) \<le> sint imm \<and> \<not> state_admits (refine_state_for_edge st ins e) regs stack"
proof
  show "sint (regs reg) \<le> sint imm" using assms(9,10) by simp
  have "refine_state_for_edge st ins e = refine_upper_bound st reg imm (ir_address cmp)"
    using assms(1-6) by (auto simp: refine_state_for_edge_def refine_by_branch_def Let_def)
  then have "bt_get (vs_regs (refine_state_for_edge st ins e)) reg = Some (upper_value imm (ir_address cmp) v)"
    using assms(7,8) by (simp add: refine_upper_bound_def update_reg_def state_ok_def bt_get_insert)
  moreover have "\<not> admits (upper_value imm (ir_address cmp) v) (regs reg)"
  proof -
    have "uint imm < uint (regs reg)"
      using assms(9,10) sint_uint_u64 [of imm] sint_uint_u64 [of "regs reg"] sint_range_u64 [of imm]
        sint_range_u64 [of "regs reg"] by simp
    then have "imm < regs reg" by (simp add: word_less_def)
    then show ?thesis
      by (auto simp: upper_value_def admits_def add_evidence_def Let_def split: option.splits)
  qed
  ultimately show "\<not> state_admits (refine_state_for_edge st ins e) regs stack"
    by (auto simp: state_admits_def map_admits_def)
qed

theorem vsa_signed_refined_unsigned_witness:
  "\<not> state_admits (refine_state_for_edge (one_reg (- 1)) (guard_block ''cmp'' ''jle'' 5) taken_edge) (\<lambda>_. - 1) (\<lambda>_. 0)"
  by (rule vsa_signed_refined_unsigned [OF guard_block_find, where reg = "''rax''" and rest = "[]" and imm = 5,
        THEN conjunct2])
    (simp_all add: row_of_def one_reg_ok bt_get_def)

section \<open>Transfers of decoded instructions\<close>

text \<open>The result of an operation on 64-bit destination and source operands.\<close>

definition machine_result :: "string \<Rightarrow> u64 \<Rightarrow> u64 \<Rightarrow> u64" where
  "machine_result m x y =
     (if m = ''mov'' then y else if m = ''xor'' then x XOR y else if m = ''and'' then x AND y
      else if m = ''or'' then x OR y else if m = ''sub'' then x - y else x + y)"

text \<open>
  The forms whose rule is right, on full 64-bit registers: the register written and the source operand.
\<close>

definition plain_form :: "IcedInstruction \<Rightarrow> string \<Rightarrow> AbstractState \<Rightarrow> (string \<Rightarrow> u64) \<Rightarrow> string \<Rightarrow> u64 \<Rightarrow> bool" where
  "plain_form i m st regs rd y \<longleftrightarrow> ii_ip_rel i = None \<and> rd \<in> set wide_registers \<and>
     ((\<exists>s a. ii_kinds i = [KRegister, KImmediate] \<and> ii_registers i = [rd, s] \<and> ii_immediates i = [a, y] \<and>
         m \<in> set [''mov'', ''and'']) \<or>
      (\<exists>rs. ii_kinds i = [KRegister, KRegister] \<and> ii_registers i = [rd, rs] \<and> rs \<in> set wide_registers \<and>
         y = regs rs \<and> (m = ''mov'' \<and> bt_get (vs_regs st) rs \<noteq> None \<or> m = ''xor'' \<and> rs = rd)))"

text \<open>An instruction that stores nothing and has a value writes it to its register.\<close>

lemma transfer_writes:
  assumes "memory_write ins = False" "write_reg ins = Some rd"
    "value_for_instruction ins strs (vs_regs st) (vs_stack st) = Some v"
  shows "transfer_instruction ins strs st =
    (Some (rd, with_evidence v (ir_address ins)),
     st\<lparr>vs_regs := bt_insert rd (with_evidence v (ir_address ins)) (vs_regs st)\<rparr>)"
  using assms by (simp add: transfer_instruction_def write_register_def Let_def)

lemma writes_plain [simp]:
  "writes_first_operand ''mov''" "writes_first_operand ''xor''" "writes_first_operand ''and''"
  "writes_first_operand ''add''" "writes_first_operand ''sub''" "writes_first_operand ''or''"
  by (simp_all add: writes_first_operand_def)

text \<open>
  C26: the transfer of the plain forms on full 64-bit registers is sound: moving an immediate or a known
  register, masking with an immediate, and clearing a register by \<open>xor\<close> with itself, each operand a 64-bit
  register name. From a state that admits the concrete one, the state after the instruction admits the
  concrete one with the 64-bit result written, whatever strings the image holds. Writes to narrower
  registers are not covered.
\<close>

theorem vsa_transfer_sound:
  assumes "state_ok st" "state_admits st regs stack" "plain_form i m st regs rd y"
  shows "state_admits (snd (transfer_instruction (from_iced i m False False) strs st))
    (regs(rd := machine_result m (regs rd) y)) stack"
proof -
  let ?ins = "from_iced i m False False"
  have w: "memory_write ?ins = False \<and> write_reg ?ins = Some rd \<and>
      (\<exists>v. value_for_instruction ?ins strs (vs_regs st) (vs_stack st) = Some v \<and> admits v (machine_result m (regs rd) y))"
  proof (cases "ii_kinds i = [KRegister, KImmediate]")
    case True
    then obtain s a where f: "ii_registers i = [rd, s]" "ii_immediates i = [a, y]" "m \<in> set [''mov'', ''and'']"
        "normalize_register rd = Some rd" "ii_ip_rel i = None"
      using assms(3) wide_register_name [of rd] by (auto simp: plain_form_def)
    have m: "writes_first_operand m" using f(3) by auto
    note r = from_iced_register_immediate [OF True f(1,2) m, of False False]
    have p: "\<exists>v. pointer_or_constant (Some y) strs = Some v \<and> admits v y"
      by (auto simp: pointer_or_constant_def admits_def vsa_constant_def split: option.split)
    from f(3) consider "m = ''mov''" | "m = ''and''" by auto
    then show ?thesis
    proof cases
      case 1
      then show ?thesis using r f(4,5) p
        by (auto simp: value_for_instruction_def value_read_def pointer_or_constant_def [of None] machine_result_def)
    next
      case 2
      then show ?thesis using r f(4,5) and_mask_admits [of y "regs rd"]
        by (auto simp: value_for_instruction_def machine_result_def)
    qed
  next
    case False
    then obtain rs where f: "ii_kinds i = [KRegister, KRegister]" "ii_registers i = [rd, rs]"
        "normalize_register rd = Some rd" "normalize_register rs = Some rs" "ii_ip_rel i = None" "y = regs rs"
        "m = ''mov'' \<and> bt_get (vs_regs st) rs \<noteq> None \<or> m = ''xor'' \<and> rs = rd"
      using assms(3) wide_register_name by (auto simp: plain_form_def)
    have m: "writes_first_operand m" using f(7) by auto
    note r = from_iced_two_registers [OF f(1,2) m, of False False]
    from f(7) consider v where "m = ''mov''" "bt_get (vs_regs st) rs = Some v" | "m = ''xor''" "rs = rd" by auto
    then show ?thesis
    proof cases
      case 1
      then have "admits v (regs rs)" using assms(2) by (simp add: state_admits_def map_admits_def)
      then show ?thesis using r f(3-6) 1
        by (auto simp: value_for_instruction_def value_read_def pointer_or_constant_def first_read_def machine_result_def)
    next
      case 2
      then show ?thesis using r f(3-6)
        by (auto simp: value_for_instruction_def machine_result_def vsa_constant_def admits_def)
    qed
  qed
  then obtain v where v: "value_for_instruction ?ins strs (vs_regs st) (vs_stack st) = Some v"
      "admits v (machine_result m (regs rd) y)" by blast
  show ?thesis
    using transfer_writes [OF _ _ v(1), of rd] w admits_insert_reg [OF assms(1,2), of _ _ rd] v(2) by simp
qed

lemma constant_bounds: "lo (vsa_constant x c e) = Some x" "hi (vsa_constant x c e) = Some x"
  by (simp_all add: vsa_constant_def)

definition two_registers :: "string \<Rightarrow> string \<Rightarrow> IcedInstruction" where
  "two_registers d s =
     \<lparr>ii_ip = 0x10, ii_len = 3, ii_kinds = [KRegister, KRegister], ii_registers = [d, s], ii_immediates = [0, 0],
      ii_memory_base = ''none'', ii_memory_index = ''none'', ii_memory_index_scale = 1,
      ii_memory_displacement64 = 0, ii_memory_size = 0, ii_ip_rel = None, ii_near_branch_target = 0\<rparr>"

theorem vsa_transfer_sound_witness:
  "state_admits (snd (transfer_instruction (from_iced (two_registers ''rcx'' ''rax'') ''mov'' False False) [] (one_reg 3)))
    ((\<lambda>_. 3)(''rcx'' := 3)) (\<lambda>_. 0)"
proof -
  have "plain_form (two_registers ''rcx'' ''rax'') ''mov'' (one_reg 3) (\<lambda>_. 3) ''rcx'' 3"
    by (simp add: plain_form_def two_registers_def wide_registers_def bt_get_def)
  from vsa_transfer_sound [OF one_reg_ok _ this, of "\<lambda>_. 0" "[]"] show ?thesis
    using one_reg_admits [of 3] by (simp add: machine_result_def)
qed

text \<open>
  An operation on two registers copies its source. For \<open>add\<close>, \<open>sub\<close>, \<open>and\<close>, \<open>or\<close> and \<open>xor\<close> of two different
  64-bit registers the destination gets the value of the source, because the row does not list the
  destination among its reads; if the source is a known constant, the true result is admitted
  only when it happens to be that constant.
\<close>

theorem vsa_copies_source_register:
  assumes "ii_kinds i = [KRegister, KRegister]" "ii_registers i = [rd, rs]" "ii_ip_rel i = None"
    "m \<in> set [''add'', ''sub'', ''and'', ''or'', ''xor'']"
    "rd \<in> set wide_registers" "rs \<in> set wide_registers" "rd \<noteq> rs"
    "state_ok st" "bt_get (vs_regs st) rs = Some v" "lo v = Some y" "hi v = Some y"
  shows "\<exists>w. bt_get (vs_regs (snd (transfer_instruction (from_iced i m False False) strs st))) rd = Some w \<and>
    (\<forall>x. admits w (machine_result m x y) \<longleftrightarrow> machine_result m x y = y)"
proof -
  let ?ins = "from_iced i m False False"
  have m: "writes_first_operand m" using assms(4) by auto
  note r = from_iced_two_registers [OF assms(1,2) m, of False False]
  have "value_for_instruction ?ins strs (vs_regs st) (vs_stack st) = Some v"
    using r assms(3,4,7,9) wide_register_name [OF assms(5)] wide_register_name [OF assms(6)]
    by (auto simp: value_for_instruction_def value_read_def pointer_or_constant_def first_read_def)
  from transfer_writes [OF _ _ this, of rd] r wide_register_name [OF assms(5)]
  have "bt_get (vs_regs (snd (transfer_instruction ?ins strs st))) rd = Some (with_evidence v (ii_ip i))"
    using assms(8) by (simp add: state_ok_def bt_get_insert)
  moreover have "admits v z \<longleftrightarrow> z = y" for z
    using assms(10,11) by (auto simp: admits_def)
  then have "admits (with_evidence v a) z \<longleftrightarrow> z = y" for a z by simp
  ultimately show ?thesis by blast
qed

theorem vsa_copies_source_register_witness:
  "\<exists>w. bt_get (vs_regs (snd (transfer_instruction (from_iced (two_registers ''rcx'' ''rax'') ''add'' False False) [] (one_reg 3)))) ''rcx'' =
     Some w \<and> \<not> admits w (4 + 3)"
proof -
  have "\<exists>w. bt_get (vs_regs (snd (transfer_instruction (from_iced (two_registers ''rcx'' ''rax'') ''add'' False False) [] (one_reg 3))))
      ''rcx'' = Some w \<and> (\<forall>x. admits w (machine_result ''add'' x 3) \<longleftrightarrow> machine_result ''add'' x 3 = 3)"
    by (rule vsa_copies_source_register [where rs = "''rax''" and v = "vsa_constant 3 ''medium'' []"])
      (simp_all add: two_registers_def wide_registers_def one_reg_ok bt_get_def constant_bounds)
  then obtain w where w: "bt_get (vs_regs (snd (transfer_instruction (from_iced (two_registers ''rcx'' ''rax'') ''add'' False False) [] (one_reg 3))))
      ''rcx'' = Some w" "\<forall>x. admits w (machine_result ''add'' x 3) \<longleftrightarrow> machine_result ''add'' x 3 = 3" by blast
  from w(2) [rule_format, of 4] have "\<not> admits w (4 + 3)" by (simp add: machine_result_def)
  with w(1) show ?thesis by blast
qed

end
