(* ===== verification/Vsa_Props.thy ===== *)
theory Vsa_Props
  imports Vsa_Analysis Vsa_States
begin

text \<open>
  Properties of \<open>src/vsa.rs\<close> and \<open>src/semantic_index.rs\<close>: the analysis ends with a bounded, sorted list of
  rows whose bounds are among their possible values; joins, refinements, constant additions and
  plain transfers are sound under the stated conditions, and the rules that are not are shown
  to be wrong.
\<close>

section \<open>Sorting\<close>

lemma insort_key_lex:
  assumes "sorted_wrt (\<lambda>a b. f a < f b \<or> f a = f b \<and> R a b) ys" "\<forall>y \<in> set ys. R x y"
  shows "sorted_wrt (\<lambda>a b. f a < f b \<or> f a = f b \<and> R a b) (insort_key (f :: 'a \<Rightarrow> 'k::linorder) x ys)"
  using assms
proof (induction ys)
  case (Cons y ys)
  show ?case
  proof (cases "f x \<le> f y")
    case True
    then have "f x < f z \<or> f x = f z \<and> R x z" if "z \<in> set (y # ys)" for z
      using Cons.prems that by fastforce
    then show ?thesis using Cons.prems True by auto
  next
    case False
    then show ?thesis using Cons by (auto simp: set_insort_key)
  qed
qed simp

lemma sort_key_lex:
  assumes "sorted_wrt R xs"
  shows "sorted_wrt (\<lambda>a b. f a < f b \<or> f a = f b \<and> R a b) (sort_key (f :: 'a \<Rightarrow> 'k::linorder) xs)"
  using assms
proof (induction xs)
  case (Cons x xs)
  then show ?case by (simp add: insort_key_lex)
qed simp

definition row_le :: "VsaValueRecord \<Rightarrow> VsaValueRecord \<Rightarrow> bool" where
  "row_le a b \<longleftrightarrow>
     vv_function a < vv_function b \<or> vv_function a = vv_function b \<and>
       (site_va a < site_va b \<or> site_va a = site_va b \<and>
          (vv_location a < vv_location b \<or> vv_location a = vv_location b \<and> vv_kind a \<le> vv_kind b))"

lemma sort_rows_sorted: "sorted_wrt row_le (sort_rows rows)"
proof -
  have "sorted_wrt (\<lambda>a b. vv_kind a \<le> vv_kind b) (sort_key vv_kind rows)"
    using sorted_sort_key [of vv_kind rows] by (simp add: sorted_map)
  from sort_key_lex [OF sort_key_lex [OF sort_key_lex [OF this, of vv_location], of site_va], of vv_function]
  show ?thesis unfolding sort_rows_def by (rule sorted_wrt_mono_rel [rotated]) (simp add: row_le_def)
qed

lemma sort_rows_set [simp]: "set (sort_rows rows) = set rows" "length (sort_rows rows) = length rows"
  by (simp_all add: sort_rows_def)

section \<open>Rows\<close>

definition row_ok :: "u64 \<Rightarrow> VsaValueRecord \<Rightarrow> bool" where
  "row_ok fn r \<longleftrightarrow> vv_function r = fn \<and>
     (work_budget_exhausted r \<or>
      (\<exists>l h. vv_lo r = Some l \<and> vv_hi r = Some h \<and> {l, h} \<subseteq> set (vv_possible_values r)))"

lemma row_ok_cap [simp]: "row_ok fn (cap_record fn site i)" "row_ok fn (loop_cap_record fn site i)"
  by (simp_all add: row_ok_def cap_record_def loop_cap_record_def budget_record_def)

lemma row_ok_record: "value_ok v \<Longrightarrow> row_ok fn (vsa_record fn site loc v i)"
  by (auto simp: row_ok_def vsa_record_def value_ok_def)

lemma emit_row_ok:
  assumes "\<forall>r \<in> set rows. row_ok fn r" "\<forall>loc v. out = Some (loc, v) \<longrightarrow> value_ok v"
  shows "\<forall>r \<in> set (emit_row fn b site out rows). row_ok fn r"
  using assms by (auto simp: emit_row_def row_ok_record split: option.splits)

lemma emit_row_length: "length (emit_row fn b site out rows) \<le> length rows + 1"
  by (simp add: emit_row_def split: option.split)

lemma linear_loop_ok:
  assumes "state_ok st" "length rows \<le> cap" "\<forall>r \<in> set rows. row_ok fn r"
  shows "length (linear_loop fn strs cap budget b ir st n rows) \<le> cap + 1 \<and>
    (\<forall>r \<in> set (linear_loop fn strs cap budget b ir st n rows). row_ok fn r)"
  using assms
proof (induction ir arbitrary: st n rows)
  case (Cons ins ir)
  obtain out st' where t: "transfer_instruction ins strs st = (out, st')" by fastforce
  note ok = transfer_ok [OF Cons.prems(1) t]
  show ?case
  proof (cases "length rows \<ge> cap \<or> n \<ge> budget")
    case True
    then show ?thesis using Cons.prems by auto
  next
    case False
    let ?rows = "emit_row fn b (ir_address ins) out rows"
    have "length ?rows \<le> cap" using emit_row_length [of fn b "ir_address ins" out rows] False by linarith
    moreover have "\<forall>r \<in> set ?rows. row_ok fn r" using emit_row_ok Cons.prems(3) ok by metis
    ultimately show ?thesis using Cons.IH [of st' ?rows "n + 1"] ok False by (simp add: t)
  qed
qed simp

lemma block_loop_ok:
  assumes "state_ok st" "length rows \<le> vc_cap c" "\<forall>r \<in> set rows. row_ok (vc_function c) r"
    "block_loop c ir st rows = (stop, st', rows')"
  shows "state_ok st' \<and> (\<forall>r \<in> set rows'. row_ok (vc_function c) r) \<and>
    length rows' \<le> vc_cap c + (if stop then 1 else 0)"
  using assms
proof (induction ir arbitrary: st rows)
  case (Cons ins ir)
  obtain out st1 where t: "transfer_instruction ins (vc_strings c) st = (out, st1)" by fastforce
  note ok = transfer_ok [OF Cons.prems(1) t]
  show ?case
  proof (cases "length rows \<ge> vc_cap c")
    case True
    then show ?thesis using Cons.prems by auto
  next
    case False
    let ?rows = "emit_row (vc_function c) (vc_base c) (ir_address ins) out rows"
    have "length ?rows \<le> vc_cap c"
      using emit_row_length [of "vc_function c" "vc_base c" "ir_address ins" out rows] False by linarith
    moreover have "\<forall>r \<in> set ?rows. row_ok (vc_function c) r" using emit_row_ok Cons.prems(3) ok by metis
    moreover have "block_loop c ir st1 ?rows = (stop, st', rows')" using Cons.prems(4) False t by simp
    ultimately show ?thesis using Cons.IH [of st1 ?rows] ok by blast
  qed
qed auto

definition states_ok :: "in_states \<Rightarrow> bool" where
  "states_ok m \<longleftrightarrow> bt_ok m \<and> (\<forall>b st. bt_get m b = Some st \<longrightarrow> state_ok st)"

lemma state_at_ok: "states_ok m \<Longrightarrow> state_ok (state_at m b)"
  by (auto simp: states_ok_def state_at_def split: option.split)

lemma states_ok_insert: "states_ok m \<Longrightarrow> state_ok st \<Longrightarrow> states_ok (bt_insert b st m)"
  by (simp add: states_ok_def bt_get_insert)

lemma edge_loop_ok:
  assumes "states_ok m" "state_ok st"
  shows "states_ok (fst (edge_loop block ins st es m wl))"
  using assms(1)
proof (induction es arbitrary: m wl)
  case (Cons e es)
  let ?j = "join_states (state_at m (edge_to e)) (refine_state_for_edge st ins e)"
  have "state_ok ?j" using join_states_ok state_at_ok refine_edge_ok Cons.prems assms(2) by blast
  then show ?case using Cons states_ok_insert by (simp add: Let_def)
qed simp

lemma worklist_loop_ok:
  assumes "states_ok m" "length rows \<le> vc_cap c" "\<forall>r \<in> set rows. row_ok (vc_function c) r"
  shows "length (worklist_loop c wl m it capped rows) \<le> vc_cap c + 1 \<and>
    (\<forall>r \<in> set (worklist_loop c wl m it capped rows). row_ok (vc_function c) r)"
  using assms
proof (induction c wl m it capped rows rule: worklist_loop.induct)
  case (2 c block wl m it capped rows)
  show ?case
  proof (cases "length rows \<ge> vc_cap c")
    case True
    then show ?thesis using 2(5,6) by simp
  next
    case room: False
    show ?thesis
    proof (cases "it block + 1 > vc_limit c")
      case lim: True
      show ?thesis
      proof (cases "block \<in> capped")
        case True
        then show ?thesis using 2(1) [OF room refl lim True] 2(4-6) room lim by (simp add: fun_upd_def)
      next
        case False
        then show ?thesis using 2(2) [OF room refl lim False] 2(4-6) room lim by (simp add: fun_upd_def)
      qed
    next
      case go: False
      obtain stop st rows' where b: "block_loop c (list_at (vc_ins c) block) (state_at m block) rows = (stop, st, rows')"
        by (metis prod_cases3)
      note ok = block_loop_ok [OF state_at_ok [OF 2(4)] 2(5,6) b]
      show ?thesis
      proof (cases stop)
        case True
        then show ?thesis using b ok room go by simp
      next
        case False
        let ?r = "edge_loop block (list_at (vc_ins c) block) st (list_at (vc_edges c) block) m wl"
        have "states_ok (fst ?r)" using edge_loop_ok 2(4) ok by blast
        then show ?thesis
          using 2(3) [OF room refl go b [symmetric] _ refl refl] b ok room go False by (simp add: Let_def fun_upd_def)
      qed
    qed
  qed
qed simp

lemma analyze_function_ok:
  "length (analyze_function bname strs cfgs fn ir b) \<le> vsa_function_cap bname + 1 \<and>
   (\<forall>r \<in> set (analyze_function bname strs cfgs fn ir b). row_ok fn r)"
proof -
  have lin: "length (analyze_linear_slice fn ir strs cap budget b) \<le> cap + 1 \<and>
      (\<forall>r \<in> set (analyze_linear_slice fn ir strs cap budget b). row_ok fn r)" for cap budget
    unfolding analyze_linear_slice_def by (rule linear_loop_ok) auto
  have ini: "states_ok (fold (\<lambda>e m. bt_insert e (state_at m e) m) es m)" if "states_ok m" for es m
    using that by (induction es arbitrary: m) (auto intro!: states_ok_insert state_at_ok)
  have "length (analyze_cfg_function fn ir cfg strs cap limit b) \<le> cap + 1 \<and>
      (\<forall>r \<in> set (analyze_cfg_function fn ir cfg strs cap limit b). row_ok fn r)" for cfg cap limit
    using worklist_loop_ok [OF ini [of "[]"], of "[]" "\<lparr>vc_function = fn, vc_ins = instructions_by_block ir cfg,
      vc_edges = outgoing_edges_by_block cfg, vc_strings = strs, vc_cap = cap, vc_limit = limit, vc_base = b\<rparr>"]
    by (simp add: analyze_cfg_function_def Let_def states_ok_def)
  then show ?thesis using lin by (auto simp: analyze_function_def Let_def split: option.split)
qed

text \<open>The rows of one function, and the slices of functions with one start address.\<close>

definition rows_of :: "u64 \<Rightarrow> VsaValueRecord list \<Rightarrow> nat" where
  "rows_of a rows = length (filter (\<lambda>r. vv_function r = a) rows)"

definition slices_of :: "FunctionRecord list \<Rightarrow> u64 \<Rightarrow> FunctionSemanticSlice list \<Rightarrow> nat" where
  "slices_of functions a ss = length (filter (\<lambda>s. fn_start (functions ! function_index s) = a) ss)"

lemma rows_of_function: "\<forall>r \<in> set new. row_ok fn r \<Longrightarrow> rows_of a new = (if a = fn then length new else 0)"
  by (auto simp: rows_of_def row_ok_def filter_id_conv filter_empty_conv)

lemma slices_loop_ok:
  assumes "\<forall>s \<in> set ss. slice_range ir (ir_range s) \<noteq> None"
    "\<And>fn sl rows. \<exists>new. body fn sl rows = rows @ new \<and> length new \<le> cap + 1 \<and> (\<forall>r \<in> set new. row_ok fn r)"
  shows "\<exists>new. slices_loop body functions ir targets ss rows = Some (rows @ new) \<and>
    (\<forall>a. rows_of a new \<le> slices_of functions a ss * (cap + 1)) \<and>
    (\<forall>r \<in> set new. \<exists>f \<in> set functions. fn_start f \<in> targets \<and> row_ok (fn_start f) r)"
  using assms(1)
proof (induction ss arbitrary: rows)
  case Nil
  then show ?case by (simp add: rows_of_def)
next
  case (Cons s ss)
  let ?f = "functions ! function_index s"
  have sl: "slices_of functions a (s # ss) = (if fn_start ?f = a then 1 else 0) + slices_of functions a ss" for a
    by (simp add: slices_of_def)
  show ?case
  proof (cases "function_index s \<ge> length functions \<or> fn_start ?f \<notin> targets")
    case True
    obtain new where new: "slices_loop body functions ir targets ss rows = Some (rows @ new)"
        "\<forall>a. rows_of a new \<le> slices_of functions a ss * (cap + 1)"
        "\<forall>r \<in> set new. \<exists>f \<in> set functions. fn_start f \<in> targets \<and> row_ok (fn_start f) r"
      using Cons by (metis list.set_intros(2))
    have "rows_of a new \<le> slices_of functions a (s # ss) * (cap + 1)" for a
      using new(2) [rule_format, of a] by (simp add: sl)
    then show ?thesis using True new(1,3) by (intro exI [of _ new]) (auto simp: Let_def)
  next
    case False
    then have f: "?f \<in> set functions" "fn_start ?f \<in> targets" by auto
    obtain sl' where sl': "slice_range ir (ir_range s) = Some sl'" using Cons.prems by auto
    obtain new where new: "body (fn_start ?f) sl' rows = rows @ new" "length new \<le> cap + 1"
        "\<forall>r \<in> set new. row_ok (fn_start ?f) r"
      using assms(2) by blast
    obtain rest where rest: "slices_loop body functions ir targets ss (rows @ new) = Some ((rows @ new) @ rest)"
        "\<forall>a. rows_of a rest \<le> slices_of functions a ss * (cap + 1)"
        "\<forall>r \<in> set rest. \<exists>f \<in> set functions. fn_start f \<in> targets \<and> row_ok (fn_start f) r"
      using Cons by (metis list.set_intros(2))
    have "slices_loop body functions ir targets (s # ss) rows = Some (rows @ (new @ rest))"
      using False sl' new(1) rest(1) by (simp add: Let_def)
    moreover have "rows_of a (new @ rest) \<le> slices_of functions a (s # ss) * (cap + 1)" for a
    proof -
      have "rows_of a (new @ rest) = rows_of a new + rows_of a rest" by (simp add: rows_of_def)
      then show ?thesis
        using rest(2) [rule_format, of a] new(2) rows_of_function [OF new(3), of a]
        by (cases "a = fn_start ?f") (auto simp: sl algebra_simps)
    qed
    moreover have "\<forall>r \<in> set (new @ rest). \<exists>f \<in> set functions. fn_start f \<in> targets \<and> row_ok (fn_start f) r"
      using new(3) rest(3) f by auto
    ultimately show ?thesis by blast
  qed
qed

section \<open>Slices of the index\<close>

lemma build_slices_spec:
  "(\<forall>i \<in> set ks. f i \<noteq> None) \<Longrightarrow> \<exists>ss. build_slices f ks = Some ss \<and> map Some ss = map f ks"
  by (induction ks) fastforce+

lemma build_slices_Some: "build_slices f ks = Some ss \<Longrightarrow> map Some ss = map f ks"
  by (induction ks arbitrary: ss) (auto split: option.splits)

lemma build_slices_nth:
  assumes "build_slices f [0..<n] = Some ss"
  shows "length ss = n" "i < n \<Longrightarrow> f i = Some (ss ! i)"
proof -
  have m: "map Some ss = map f [0..<n]" using assms by (rule build_slices_Some)
  from arg_cong [OF m, of length] show l: "length ss = n" by simp
  show "f i = Some (ss ! i)" if "i < n"
    using arg_cong [OF m, of "\<lambda>xs. xs ! i"] that l by simp
qed

lemma index_length:
  "index_build functions instructions ir xref_rows cfg = Some slices \<Longrightarrow> length slices = length functions"
  unfolding index_build_def Let_def by (rule build_slices_nth(1))

lemma index_slices:
  assumes "index_build functions instructions ir xref_rows cfg = Some slices" "i < length functions"
  shows "build_slice functions instructions (map address instructions) (map ir_address ir) (map xref_from xref_rows)
      (fold (\<lambda>(i, row). bt_insert (cfg_function row) i) (List.enumerate 0 cfg) []) i = Some (slices ! i)"
  using assms(1) unfolding index_build_def Let_def by (rule build_slices_nth(2)) (rule assms(2))

lemma build_slice_fields:
  assumes "build_slice functions instructions ia ra xa m i = Some s"
  shows "function_index s = i" "instruction_range s = range_of ia (functions ! i)"
    "ir_range s = range_of ra (functions ! i)" "xref_range s = range_of xa (functions ! i)"
    "slice_range instructions (range_of ia (functions ! i)) = Some rows \<Longrightarrow> has_return s = list_ex is_ret rows"
  using assms by (auto simp: build_slice_def Let_def split: option.splits)

lemma range_of_slice:
  assumes "sorted (map key rows)" "fn_start f \<le> fn_end f"
  shows "slice_range rows (range_of (map key rows) f) = Some (filter (\<lambda>r. fn_start f \<le> key r \<and> key r < fn_end f) rows)"
  using sorted_slice(3) [OF assms] by (simp add: range_of_def)

lemma index_ranges_valid:
  assumes "sorted (map ir_address ir)" "\<forall>f \<in> set functions. fn_start f \<le> fn_end f"
    "index_build functions instructions ir xref_rows cfg = Some slices"
  shows "\<forall>s \<in> set slices. slice_range ir (ir_range s) \<noteq> None"
proof
  fix s
  assume "s \<in> set slices"
  then obtain i where i: "i < length slices" "s = slices ! i" by (metis in_set_conv_nth)
  have l: "length slices = length functions" by (rule index_length [OF assms(3)])
  then have f: "functions ! i \<in> set functions" "i < length functions" using i by auto
  have "ir_range s = range_of (map ir_address ir) (functions ! i)"
    using build_slice_fields(3) [OF index_slices [OF assms(3) f(2)]] i(2) by simp
  then show "slice_range ir (ir_range s) \<noteq> None"
    using range_of_slice [OF assms(1), of "functions ! i"] assms(2) f(1) by simp
qed

text \<open>A slice describes the function with its number: its ranges select the rows inside.\<close>

definition slice_describes ::
  "InstructionRecord list \<Rightarrow> IrInstruction list \<Rightarrow> XrefRecord list \<Rightarrow> FunctionRecord \<Rightarrow> nat \<Rightarrow> FunctionSemanticSlice \<Rightarrow> bool" where
  "slice_describes instructions ir xref_rows f i s \<longleftrightarrow>
     (let inside = (\<lambda>a. fn_start f \<le> a \<and> a < fn_end f) in
       function_index s = i \<and>
       slice_range instructions (instruction_range s) = Some (filter (\<lambda>r. inside (address r)) instructions) \<and>
       slice_range ir (ir_range s) = Some (filter (\<lambda>r. inside (ir_address r)) ir) \<and>
       slice_range xref_rows (xref_range s) = Some (filter (\<lambda>r. inside (xref_from r)) xref_rows) \<and>
       has_return s = list_ex (\<lambda>r. inside (address r) \<and> is_ret r) instructions)"

text \<open>
  The semantic index cuts the row lists exactly. On address-sorted lists and functions that do
  not end before they start, building the index never panics; slice \<open>i\<close> describes function \<open>i\<close>;
  its three ranges select exactly the rows inside the function; and it has a return exactly
  when one of these instructions is one.
\<close>

theorem semantic_slices_exact:
  assumes "sorted (map address instructions)" "sorted (map ir_address ir)" "sorted (map xref_from xref_rows)"
    "\<forall>f \<in> set functions. fn_start f \<le> fn_end f"
  shows "\<exists>slices. index_build functions instructions ir xref_rows cfg = Some slices \<and>
    length slices = length functions \<and>
    (\<forall>i < length functions. slice_describes instructions ir xref_rows (functions ! i) i (slices ! i))"
proof -
  let ?b = "build_slice functions instructions (map address instructions) (map ir_address ir) (map xref_from xref_rows)
      (fold (\<lambda>(i, row). bt_insert (cfg_function row) i) (List.enumerate 0 cfg) [])"
  have r: "slice_range instructions (range_of (map address instructions) (functions ! i)) =
      Some (filter (\<lambda>r. fn_start (functions ! i) \<le> address r \<and> address r < fn_end (functions ! i)) instructions)"
      "slice_range ir (range_of (map ir_address ir) (functions ! i)) =
      Some (filter (\<lambda>r. fn_start (functions ! i) \<le> ir_address r \<and> ir_address r < fn_end (functions ! i)) ir)"
      "slice_range xref_rows (range_of (map xref_from xref_rows) (functions ! i)) =
      Some (filter (\<lambda>r. fn_start (functions ! i) \<le> xref_from r \<and> xref_from r < fn_end (functions ! i)) xref_rows)"
    if "i < length functions" for i
    using that assms(4) by (simp_all add: range_of_slice assms(1-3))
  then have "\<forall>i \<in> set [0..<length functions]. ?b i \<noteq> None" by (auto simp: build_slice_def Let_def)
  then obtain slices where s: "index_build functions instructions ir xref_rows cfg = Some slices"
    using build_slices_spec unfolding index_build_def Let_def by blast
  show ?thesis
  proof (intro exI conjI allI impI)
    show "index_build functions instructions ir xref_rows cfg = Some slices" by (rule s)
    show "length slices = length functions"
      by (rule index_length [OF s])
    show "slice_describes instructions ir xref_rows (functions ! i) i (slices ! i)"
      if i: "i < length functions" for i
      using build_slice_fields [OF index_slices [OF s i]] r [OF i] by (auto simp: slice_describes_def Let_def list_ex_iff)
  qed
qed

definition demo_fn :: FunctionRecord where
  "demo_fn = \<lparr>fn_start = 0x1000, fn_end = 0x1010, fn_size = 16, fn_source = ''pdata'', calls = [],
     calls_imports = [], fn_strings = [], xrefs = 0\<rparr>"

definition demo_row :: IrInstruction where
  "demo_row = \<lparr>ir_address = 0x1000, ir_size = 3, ir_mnemonic = ''mov'', write_reg = Some ''rax'', read_regs = [],
     immediate = Some 5, rip_target = None, stack_slot = None, memory_base = None, memory_index = None,
     memory_scale = 0, memory_displacement = 0, operand_width = 0, indirect_target_register = None,
     indirect_target_memory = False, memory_write = False, memory_read = False, direct_target = None,
     ir_is_call = False, ir_is_jump = False\<rparr>"

theorem semantic_slices_exact_witness:
  "\<exists>slices. index_build [demo_fn] [plain_ir 0xFFF ''nop'' [], plain_ir 0x1000 ''nop'' []] [demo_row] [] [] = Some slices \<and>
     slice_range [plain_ir 0xFFF ''nop'' [], plain_ir 0x1000 ''nop'' []] (instruction_range (slices ! 0)) =
       Some [plain_ir 0x1000 ''nop'' []]"
proof -
  have p: "sorted (map address [plain_ir 0xFFF ''nop'' [], plain_ir 0x1000 ''nop'' []])" "sorted (map ir_address [demo_row])"
    "\<forall>f \<in> set [demo_fn]. fn_start f \<le> fn_end f"
    by (simp_all add: plain_ir_def demo_fn_def)
  have q: "sorted (map xref_from [])" by simp
  obtain slices where s: "index_build [demo_fn] [plain_ir 0xFFF ''nop'' [], plain_ir 0x1000 ''nop'' []] [demo_row] [] [] = Some slices"
    and r: "\<forall>i < length [demo_fn]. slice_describes [plain_ir 0xFFF ''nop'' [], plain_ir 0x1000 ''nop'' []] [demo_row] []
      ([demo_fn] ! i) i (slices ! i)"
    using semantic_slices_exact [OF p(1,2) q p(3), of "[]"] by blast
  from r [rule_format, of 0] s show ?thesis by (simp add: slice_describes_def Let_def plain_ir_def demo_fn_def)
qed

section \<open>The analysis as a whole\<close>

text \<open>Slice \<open>i\<close> has number \<open>i\<close>, so the slices of a start address are as many as its functions.\<close>

lemma slices_of_index:
  assumes "index_build functions instructions ir xref_rows cfg = Some slices"
  shows "slices_of functions a slices = length (filter (\<lambda>f. fn_start f = a) functions)"
proof -
  have l: "length slices = length functions" by (rule index_length [OF assms])
  have "function_index (slices ! i) = i" if "i < length functions" for i
    using build_slice_fields(1) [OF index_slices [OF assms that]] .
  then have "map (\<lambda>s. functions ! function_index s) slices = functions"
    using l by (intro nth_equalityI) simp_all
  then have "length (filter (\<lambda>f. fn_start f = a) functions) =
      length (filter (\<lambda>f. fn_start f = a) (map (\<lambda>s. functions ! function_index s) slices))" by simp
  then show ?thesis by (simp add: slices_of_def filter_map o_def)
qed

lemma filter_sort_length: "length (filter P (sort_key k xs)) = length (filter P xs)"
  by (metis filter_sort length_sort)

lemma rows_of_sorted: "rows_of a (sort_rows rows) = rows_of a rows"
  by (simp add: rows_of_def sort_rows_def filter_sort_length)

text \<open>
  C11: the value-set analysis ends with bounded and well-formed output. On the slices of the index it
  never panics and its worklist terminates. No function gets more rows than the function cap plus one, the
  budget notices included: of the rows with a given function address there are at most that many for each
  function in the list that starts there. The rows are sorted by function, site, location and kind and belong
  to target functions, and every row that is not a budget notice (those carry no values) has both bounds,
  which are among its possible values.
\<close>

theorem vsa_rows_bounded:
  assumes "sorted (map ir_address ir)" "\<forall>f \<in> set functions. fn_start f \<le> fn_end f"
    "index_build functions instructions ir xref_rows cfg = Some slices"
  shows "\<exists>rows. analyze_targets_with_cfg functions slices ir cfg strings targets bname = Some rows \<and>
    (\<forall>a. length (filter (\<lambda>r. vv_function r = a) rows) \<le>
       length (filter (\<lambda>f. fn_start f = a) functions) * (vsa_function_cap bname + 1)) \<and>
    sorted_wrt row_le rows \<and>
    (\<forall>r \<in> set rows.
       (\<exists>f \<in> set functions. fn_start f \<in> target_function ` set targets \<and> vv_function r = fn_start f) \<and>
       (work_budget_exhausted r \<or>
        (\<exists>l h. vv_lo r = Some l \<and> vv_hi r = Some h \<and> {l, h} \<subseteq> set (vv_possible_values r))))"
proof (cases "targets = []")
  case False
  let ?body = "\<lambda>fn sl rows. rows @ analyze_function bname (collect_by str_va strings) (collect_by cfg_function cfg) fn sl (length rows)"
  have body: "\<exists>new. ?body fn sl rows = rows @ new \<and> length new \<le> vsa_function_cap bname + 1 \<and> (\<forall>r \<in> set new. row_ok fn r)"
    for fn sl rows
    using analyze_function_ok by blast
  have "\<exists>new. slices_loop ?body functions ir (target_function ` set targets) slices [] = Some ([] @ new) \<and>
    (\<forall>a. rows_of a new \<le> slices_of functions a slices * (vsa_function_cap bname + 1)) \<and>
    (\<forall>r \<in> set new. \<exists>f \<in> set functions. fn_start f \<in> target_function ` set targets \<and> row_ok (fn_start f) r)"
    by (rule slices_loop_ok [OF index_ranges_valid [OF assms] body])
  then obtain rows where rows: "slices_loop ?body functions ir (target_function ` set targets) slices [] = Some rows"
      "\<forall>a. rows_of a rows \<le> slices_of functions a slices * (vsa_function_cap bname + 1)"
      "\<forall>r \<in> set rows. \<exists>f \<in> set functions. fn_start f \<in> target_function ` set targets \<and> row_ok (fn_start f) r"
    by auto
  have "analyze_targets_with_cfg functions slices ir cfg strings targets bname = Some (sort_rows rows)"
    using False rows(1) by (simp add: analyze_targets_with_cfg_def Let_def)
  moreover have "\<forall>r \<in> set (sort_rows rows).
       (\<exists>f \<in> set functions. fn_start f \<in> target_function ` set targets \<and> vv_function r = fn_start f) \<and>
       (work_budget_exhausted r \<or>
        (\<exists>l h. vv_lo r = Some l \<and> vv_hi r = Some h \<and> {l, h} \<subseteq> set (vv_possible_values r)))"
    using rows(3) unfolding row_ok_def sort_rows_set by blast
  moreover have "length (filter (\<lambda>r. vv_function r = a) (sort_rows rows)) \<le>
      length (filter (\<lambda>f. fn_start f = a) functions) * (vsa_function_cap bname + 1)" for a
    using rows(2) [rule_format, of a] unfolding slices_of_index [OF assms(3)]
    by (simp add: rows_of_sorted [unfolded rows_of_def] rows_of_def)
  ultimately show ?thesis using sort_rows_sorted [of rows] by blast
qed (simp add: analyze_targets_with_cfg_def)

theorem vsa_rows_bounded_witness:
  "\<exists>slices rows. index_build [demo_fn] [] [demo_row] [] [] = Some slices \<and>
     analyze_targets_with_cfg [demo_fn] slices [demo_row] [] []
       [\<lparr>target_id = [], target_function = 0x1000, target_reason = [], priority_score = 0, pass1_uncertainty = [],
         result_status = [], target_evidence = []\<rparr>] ''normal'' = Some rows \<and>
     length (filter (\<lambda>r. vv_function r = 0x1000) rows) \<le> 129 \<and> sorted_wrt row_le rows"
proof -
  let ?targets = "[\<lparr>target_id = [], target_function = 0x1000, target_reason = [],
      priority_score = 0, pass1_uncertainty = [], result_status = [], target_evidence = []\<rparr>]"
  obtain slices where s: "index_build [demo_fn] [] [demo_row] [] [] = Some slices"
    by (simp add: index_build_def build_slice_def slice_range_def range_of_def partition_count_def Let_def demo_fn_def)
  have "sorted (map ir_address [demo_row])" "\<forall>f \<in> set [demo_fn]. fn_start f \<le> fn_end f"
    by (simp_all add: demo_fn_def)
  from vsa_rows_bounded [OF this s, of "[]" ?targets "''normal''"] obtain rows where
    rows: "analyze_targets_with_cfg [demo_fn] slices [demo_row] [] [] ?targets ''normal'' = Some rows"
      "\<forall>a. length (filter (\<lambda>r. vv_function r = a) rows) \<le>
         length (filter (\<lambda>f. fn_start f = a) [demo_fn]) * (vsa_function_cap ''normal'' + 1)" "sorted_wrt row_le rows"
    by blast
  from rows(2) [rule_format, of "0x1000"] have "length (filter (\<lambda>r. vv_function r = 0x1000) rows) \<le> 129"
    by (simp add: demo_fn_def vsa_function_cap_def)
  with s rows(1,3) show ?thesis by blast
qed

end
