(* ===== verification/Byte_Reader.thy ===== *)
theory Byte_Reader
  imports Axe_Prelude
begin

text \<open>
  The byte readers the binary parsers share (\<open>read_u16\<close>, \<open>read_u32\<close>, \<open>read_u64\<close>,
  \<open>read_c_string\<close> of \<open>src/pe.rs\<close>, the \<open>read_u32\<close> of \<open>src/eh\<close>), over a file as the list of
  its bytes. A slice out of range is \<^const>\<open>None\<close> where the code asks with \<open>get\<close>. File offsets
  (\<open>usize\<close>) are natural numbers: they are sums of a few 32-bit numbers and cannot reach
  \<open>2 ^ 64\<close>. Text is kept as UTF-8 bytes, \<open>String::from_utf8_lossy\<close> replaces the sequences
  that are not UTF-8.
\<close>

type_synonym bytes = "u8 list"

section \<open>Results\<close>

definition chain :: "('e, 'a) result \<Rightarrow> ('a \<Rightarrow> ('e, 'b) result) \<Rightarrow> ('e, 'b) result" where
  "chain m f = (case m of Inl e \<Rightarrow> Err e | Inr x \<Rightarrow> f x)"

definition ok_or :: "'e \<Rightarrow> 'a option \<Rightarrow> ('e, 'a) result" where
  "ok_or e r = (case r of None \<Rightarrow> Err e | Some x \<Rightarrow> Ok x)"

definition unwrap_or :: "'a \<Rightarrow> 'a option \<Rightarrow> 'a" where
  "unwrap_or d r = (case r of None \<Rightarrow> d | Some x \<Rightarrow> x)"

lemma chain_simps [simp]: "chain (Err e) f = Err e" "chain (Ok x) f = f x"
  by (simp_all add: chain_def)

lemma chain_Ok: "chain m f = Ok y \<longleftrightarrow> (\<exists>x. m = Ok x \<and> f x = Ok y)"
  by (cases m) simp_all

lemma chain_Err: "chain m f = Err e \<longleftrightarrow> m = Err e \<or> (\<exists>x. m = Ok x \<and> f x = Err e)"
  by (cases m) simp_all

lemma ok_or_simps [simp]: "ok_or e None = Err e" "ok_or e (Some x) = Ok x"
  by (simp_all add: ok_or_def)

lemma ok_or_Ok [simp]: "ok_or e r = Ok x \<longleftrightarrow> r = Some x"
  by (cases r) simp_all

lemma ok_or_Err [simp]: "ok_or e r = Err e' \<longleftrightarrow> r = None \<and> e' = e"
  by (cases r) auto

lemma unwrap_or_simps [simp]: "unwrap_or d None = d" "unwrap_or d (Some x) = x"
  by (simp_all add: unwrap_or_def)

section \<open>Little-endian reads\<close>

text \<open>\<open>bytes.get(offset..offset + n)\<close>\<close>

definition get_range :: "bytes \<Rightarrow> nat \<Rightarrow> nat \<Rightarrow> bytes option" where
  "get_range bs off n = (if off + n \<le> length bs then Some (take n (drop off bs)) else None)"

fun le_nat :: "bytes \<Rightarrow> nat" where
  "le_nat [] = 0"
| "le_nat (b # bs) = unat b + 256 * le_nat bs"

fun le_encode :: "nat \<Rightarrow> nat \<Rightarrow> bytes" where
  "le_encode 0 v = []"
| "le_encode (Suc n) v = of_nat (v mod 256) # le_encode n (v div 256)"

definition read_u16 :: "bytes \<Rightarrow> nat \<Rightarrow> 16 word option" where
  "read_u16 bs off = map_option (\<lambda>s. of_nat (le_nat s)) (get_range bs off 2)"

definition read_u32 :: "bytes \<Rightarrow> nat \<Rightarrow> u32 option" where
  "read_u32 bs off = map_option (\<lambda>s. of_nat (le_nat s)) (get_range bs off 4)"

definition read_u64 :: "bytes \<Rightarrow> nat \<Rightarrow> u64 option" where
  "read_u64 bs off = map_option (\<lambda>s. of_nat (le_nat s)) (get_range bs off 8)"

definition enc_u16 :: "16 word \<Rightarrow> bytes" where "enc_u16 w = le_encode 2 (unat w)"
definition enc_u32 :: "u32 \<Rightarrow> bytes" where "enc_u32 w = le_encode 4 (unat w)"
definition enc_u64 :: "u64 \<Rightarrow> bytes" where "enc_u64 w = le_encode 8 (unat w)"

lemma get_range_length: "get_range bs off n = Some s \<Longrightarrow> length s = n"
  by (auto simp: get_range_def split: if_splits)

lemma get_range_None [simp]: "get_range bs off n = None \<longleftrightarrow> length bs < off + n"
  by (auto simp: get_range_def)

lemma get_range_append [simp]:
  "get_range (pre @ s @ suf) (length pre) (length s) = Some s"
  by (simp add: get_range_def)

lemma length_le_encode [simp]: "length (le_encode n v) = n"
  by (induction n arbitrary: v) simp_all

lemma unat_mod_256 [simp]: "unat (of_nat (v mod 256) :: u8) = v mod 256"
  by (rule unat_of_nat_less) simp

lemma le_nat_encode: "v < 256 ^ n \<Longrightarrow> le_nat (le_encode n v) = v"
proof (induction n arbitrary: v)
  case (Suc n)
  have "v div 256 < 256 ^ n" using Suc.prems by (simp add: less_mult_imp_div_less mult.commute)
  then have "le_nat (le_encode n (v div 256)) = v div 256" by (rule Suc.IH)
  then show ?case by simp
qed simp

lemma unat_u8: "unat (b :: u8) < 256"
  using unsigned_less [of b, where ?'a = nat] by simp

lemma le_nat_less: "le_nat bs < 256 ^ length bs"
proof (induction bs)
  case (Cons b bs)
  have "unat b < 256" by (rule unat_u8)
  then show ?case using Cons by simp
qed simp

lemma le_nat_append: "le_nat (xs @ ys) = le_nat xs + 256 ^ length xs * le_nat ys"
  by (induction xs) (simp_all add: algebra_simps)

lemma le_encode_nat: "le_encode (length bs) (le_nat bs) = bs"
proof (induction bs)
  case (Cons b bs)
  have b: "unat b < 256" by (rule unat_u8)
  then have "(unat b + 256 * le_nat bs) mod 256 = unat b" "(unat b + 256 * le_nat bs) div 256 = le_nat bs"
    by simp_all
  then show ?case using Cons by simp
qed simp

lemma enc_length [simp]: "length (enc_u16 w) = 2" "length (enc_u32 x) = 4" "length (enc_u64 y) = 8"
  by (simp_all add: enc_u16_def enc_u32_def enc_u64_def)

lemma le_nat_enc [simp]:
  "le_nat (enc_u16 w) = unat w" "le_nat (enc_u32 x) = unat x" "le_nat (enc_u64 y) = unat y"
  using unsigned_less [where ?'a = nat, of w] unsigned_less [where ?'a = nat, of x] unsigned_less [where ?'a = nat, of y]
  by (simp_all add: enc_u16_def enc_u32_def enc_u64_def le_nat_encode)

text \<open>A read finds the number that was written, and what a read returns was written there.\<close>

lemma read_u32_enc [simp]: "read_u32 (pre @ enc_u32 w @ suf) (length pre) = Some w"
  using get_range_append [of pre "enc_u32 w" suf] by (simp add: read_u32_def)

lemma read_u32_at: "k = length pre \<Longrightarrow> read_u32 (pre @ enc_u32 w @ suf) k = Some w"
  by simp

lemma read_None [simp]:
  "read_u16 bs off = None \<longleftrightarrow> length bs < off + 2"
  "read_u32 bs off = None \<longleftrightarrow> length bs < off + 4"
  "read_u64 bs off = None \<longleftrightarrow> length bs < off + 8"
  by (simp_all add: read_u16_def read_u32_def read_u64_def)

lemma read_u32_in_range: "off + 4 \<le> length bs \<Longrightarrow> \<exists>w. read_u32 bs off = Some w"
  by (cases "read_u32 bs off") simp_all

lemma read_u16_in_range: "off + 2 \<le> length bs \<Longrightarrow> \<exists>w. read_u16 bs off = Some w"
  by (cases "read_u16 bs off") simp_all

lemma read_u64_in_range: "off + 8 \<le> length bs \<Longrightarrow> \<exists>w. read_u64 bs off = Some w"
  by (cases "read_u64 bs off") simp_all

lemma read_u32_Some: "read_u32 bs off = Some w \<Longrightarrow> off + 4 \<le> length bs"
  using read_None(2) [of bs off] by (cases "off + 4 \<le> length bs") simp_all

lemma read_u64_Some: "read_u64 bs off = Some w \<Longrightarrow> off + 8 \<le> length bs"
  using read_None(3) [of bs off] by (cases "off + 8 \<le> length bs") simp_all

lemma read_u32_enc_iff: "read_u32 bs off = Some w \<longleftrightarrow> off + 4 \<le> length bs \<and> take 4 (drop off bs) = enc_u32 w"
proof -
  have "take 4 (drop off bs) = enc_u32 w" if "off + 4 \<le> length bs" "of_nat (le_nat (take 4 (drop off bs))) = w"
  proof -
    let ?s = "take 4 (drop off bs)"
    have l: "length ?s = 4" using that(1) by simp
    then have "le_nat ?s < 2 ^ 32" using le_nat_less [of ?s] by simp
    then have "unat w = le_nat ?s" unfolding that(2) [symmetric] by (intro unat_of_nat_less) simp
    then show ?thesis using le_encode_nat [of ?s] l by (simp add: enc_u32_def)
  qed
  then show ?thesis by (auto simp: read_u32_def get_range_def)
qed

section \<open>Text\<close>

definition byte_char :: "u8 \<Rightarrow> char" where
  "byte_char b = char_of (unat b)"

text \<open>The replacement character U+FFFD.\<close>

definition replacement :: string where
  "replacement = map char_of [0xEF, 0xBF, 0xBD :: nat]"

definition byte_in :: "u8 \<Rightarrow> u8 \<Rightarrow> u8 \<Rightarrow> bool" where
  "byte_in a b x \<longleftrightarrow> a \<le> x \<and> x \<le> b"

text \<open>
  The ranges of the second byte of a sequence, and its length in bytes; \<^const>\<open>None\<close> for a byte that
  starts no sequence.
\<close>

definition utf8_lead :: "u8 \<Rightarrow> (nat \<times> u8 \<times> u8) option" where
  "utf8_lead b =
     (if b < 0x80 then Some (1, 0, 0)
      else if byte_in 0xC2 0xDF b then Some (2, 0x80, 0xBF)
      else if b = 0xE0 then Some (3, 0xA0, 0xBF)
      else if byte_in 0xE1 0xEC b \<or> byte_in 0xEE 0xEF b then Some (3, 0x80, 0xBF)
      else if b = 0xED then Some (3, 0x80, 0x9F)
      else if b = 0xF0 then Some (4, 0x90, 0xBF)
      else if byte_in 0xF1 0xF3 b then Some (4, 0x80, 0xBF)
      else if b = 0xF4 then Some (4, 0x80, 0x8F)
      else None)"

text \<open>The number of bytes after the first that continue a sequence of \<open>n\<close> bytes.\<close>

fun tail_run :: "nat \<Rightarrow> bytes \<Rightarrow> nat" where
  "tail_run 0 bs = 0"
| "tail_run (Suc n) [] = 0"
| "tail_run (Suc n) (b # bs) = (if byte_in 0x80 0xBF b then Suc (tail_run n bs) else 0)"

text \<open>The valid sequence or the maximal invalid part at the start of the bytes: is it valid, and how many bytes it has after the first.\<close>

definition utf8_chunk :: "u8 \<Rightarrow> bytes \<Rightarrow> bool \<times> nat" where
  "utf8_chunk b bs =
     (case utf8_lead b of
        None \<Rightarrow> (False, 0)
      | Some (n, low, high) \<Rightarrow>
          if n = 1 then (True, 0)
          else case bs of
                 [] \<Rightarrow> (False, 0)
               | c # cs \<Rightarrow>
                   if \<not> byte_in low high c then (False, 0)
                   else let k = tail_run (n - 2) cs in (k = n - 2, Suc k))"

function from_utf8_lossy :: "bytes \<Rightarrow> string" where
  "from_utf8_lossy [] = []"
| "from_utf8_lossy (b # bs) =
     (case utf8_chunk b bs of
        (valid, k) \<Rightarrow>
          (if valid then map byte_char (b # take k bs) else replacement) @ from_utf8_lossy (drop k bs))"
  by pat_completeness auto
termination by (relation "measure length") auto

lemma from_utf8_lossy_ascii: "(\<forall>b\<in>set bs. b < 0x80) \<Longrightarrow> from_utf8_lossy bs = map byte_char bs"
  by (induction bs) (simp_all add: utf8_chunk_def utf8_lead_def)

definition find_nul :: "bytes \<Rightarrow> nat \<Rightarrow> nat" where
  "find_nul bs start = start + length (takeWhile (\<lambda>b. b \<noteq> 0) (drop start bs))"

definition read_c_string :: "bytes \<Rightarrow> nat \<Rightarrow> string option" where
  "read_c_string bs start =
     (if start \<ge> length bs then None
      else Some (from_utf8_lossy (take (find_nul bs start - start) (drop start bs))))"

lemma find_nul_bounds: "start \<le> length bs \<Longrightarrow> start \<le> find_nul bs start \<and> find_nul bs start \<le> length bs"
  using length_takeWhile_le [of "\<lambda>b. b \<noteq> 0" "drop start bs"] by (simp add: find_nul_def)

end
