(* ===== verification/Pe_Image.thy ===== *)
theory Pe_Image
  imports Byte_Reader Pe_Records
begin

text \<open>
  The image of a PE file as \<open>src/pe.rs\<close> keeps it (\<open>PEImage\<close>, \<open>SectionRecord\<close>, the import,
  export and exception rows) and its address lookups. The entropy of a section, a
  floating-point number no lookup reads, is left out of its record; \<open>path\<close> and the mapping
  are the bytes.
\<close>

record SectionRecord =
  sec_name :: string
  sec_rva :: u32
  sec_va :: u64
  virtual_size :: u32
  raw_start :: u32
  raw_size :: u32
  data_size :: nat
  executable :: bool
  readable :: bool
  writable :: bool
  data_range :: "nat \<times> nat"

record ExportRecord =
  export_name :: string
  ordinal :: u32
  export_va :: u64
  export_rva :: u32

record ExceptionRecord =
  begin_rva :: u32
  end_rva :: u32
  unwind_rva :: u32
  exc_begin :: u64
  exc_end :: u64
  exc_unwind :: u64

record DataDirectory =
  dir_rva :: u32
  dir_size :: u32

record PEImage =
  pe_bytes :: bytes
  pe_base :: u64
  entry_va :: u64
  machine :: "16 word"
  dll_characteristics :: "16 word"
  data_directories :: "DataDirectory list"
  pe_sections :: "SectionRecord list"
  pe_imports :: "ImportRecord list"
  pe_exports :: "ExportRecord list"
  pe_exceptions :: "ExceptionRecord list"
  function_seeds_cache :: "u64 list"
  overlay_offset_cache :: "nat option"

text \<open>\<open>&bytes[a..b]\<close>; \<^const>\<open>None\<close> is the panic.\<close>

definition section_data :: "SectionRecord \<Rightarrow> bytes \<Rightarrow> bytes option" where
  "section_data s bs =
     (case data_range s of (a, b) \<Rightarrow>
        if a \<le> b \<and> b \<le> length bs then Some (take (b - a) (drop a bs)) else None)"

definition sat_add32 :: "u32 \<Rightarrow> u32 \<Rightarrow> u32" where
  "sat_add32 a b = (if unat a + unat b < 2 ^ 32 then a + b else - 1)"

definition section_span :: "SectionRecord \<Rightarrow> u32" where
  "section_span s = max (max (virtual_size s) (raw_size s)) (of_nat (data_size s))"

definition section_for_rva :: "PEImage \<Rightarrow> u32 \<Rightarrow> SectionRecord option" where
  "section_for_rva img rva =
     find (\<lambda>s. sec_rva s \<le> rva \<and> rva < sat_add32 (sec_rva s) (section_span s)) (pe_sections img)"

definition section_for_va :: "PEImage \<Rightarrow> u64 \<Rightarrow> SectionRecord option" where
  "section_for_va img va =
     (if va < pe_base img then None else section_for_rva img (ucast (va - pe_base img)))"

definition section_by_rva :: "PEImage \<Rightarrow> u32 \<Rightarrow> SectionRecord option" where
  "section_by_rva img rva = find (\<lambda>s. sec_rva s = rva) (pe_sections img)"

definition rva_to_file_offset :: "PEImage \<Rightarrow> u32 \<Rightarrow> nat option" where
  "rva_to_file_offset img rva =
     (case section_for_rva img rva of
        None \<Rightarrow> None
      | Some s \<Rightarrow>
          if rva < sec_rva s then None
          else let offset = unat (rva - sec_rva s)
               in if offset \<ge> unat (max (raw_size s) (of_nat (data_size s))) then None
                  else Some (unat (raw_start s) + offset))"

definition directory :: "PEImage \<Rightarrow> nat \<Rightarrow> DataDirectory option" where
  "directory img index =
     (if index < length (data_directories img)
      then (let dir = data_directories img ! index
            in if dir_rva dir \<noteq> 0 \<and> dir_size dir \<noteq> 0 then Some dir else None)
      else None)"

datatype PeError = NotMz | InvalidSignature | OnlyPe32Plus | ReadOutOfBounds | SlicePanic

text \<open>\<open>read_c_string_rva\<close> slices from the start without asking whether the file reaches that far.\<close>

definition read_c_string_rva :: "PEImage \<Rightarrow> u32 \<Rightarrow> (PeError, string option) result" where
  "read_c_string_rva img rva =
     (case rva_to_file_offset img rva of
        None \<Rightarrow> Ok None
      | Some start \<Rightarrow>
          let bs = pe_bytes img
          in if start > length bs then Err SlicePanic
             else Ok (Some (from_utf8_lossy (take (find_nul bs start - start) (drop start bs)))))"

section \<open>Executable addresses\<close>

definition exec_va :: "PEImage \<Rightarrow> u64 \<Rightarrow> bool" where
  "exec_va img va = (case section_for_va img va of Some s \<Rightarrow> executable s | None \<Rightarrow> False)"

section \<open>Lookups\<close>

lemma sat_add32_unat: "unat (sat_add32 a b) = min (unat a + unat b) (2 ^ 32 - 1)"
proof (cases "unat a + unat b < 2 ^ 32")
  case True
  then have "unat (a + b) = unat a + unat b" by (simp add: unat_word_ariths)
  then show ?thesis using True by (simp add: sat_add32_def)
next
  case False
  have "unat (- 1 :: u32) = 2 ^ 32 - 1" by (simp add: unsigned_minus_1_eq_mask mask_eq_exp_minus_1)
  then show ?thesis using False by (simp add: sat_add32_def)
qed

text \<open>The section of an address is one of the image's, and the address lies in its span.\<close>

lemma section_for_rva_span:
  assumes "section_for_rva img rva = Some s"
  shows "s \<in> set (pe_sections img)" "sec_rva s \<le> rva" "unat rva < unat (sec_rva s) + unat (section_span s)"
proof -
  have s: "s \<in> set (pe_sections img)" "sec_rva s \<le> rva" "rva < sat_add32 (sec_rva s) (section_span s)"
    using assms by (auto simp: section_for_rva_def find_Some_iff)
  then show "s \<in> set (pe_sections img)" "sec_rva s \<le> rva" by simp_all
  show "unat rva < unat (sec_rva s) + unat (section_span s)"
    using s(3) sat_add32_unat [of "sec_rva s" "section_span s"] by (simp add: word_less_nat_alt)
qed

lemma section_for_va_rva:
  "section_for_va img va = Some s \<Longrightarrow>
   pe_base img \<le> va \<and> section_for_rva img (ucast (va - pe_base img)) = Some s"
  by (auto simp: section_for_va_def split: if_splits)

lemma rva_to_file_offset_Some:
  assumes "rva_to_file_offset img rva = Some off"
  shows "\<exists>s. section_for_rva img rva = Some s \<and> off = unat (raw_start s) + unat (rva - sec_rva s) \<and>
    off < unat (raw_start s) + unat (max (raw_size s) (of_nat (data_size s)))"
  using assms by (auto simp: rva_to_file_offset_def Let_def not_le split: option.splits if_splits)

lemma exec_va_section:
  "exec_va img va \<longleftrightarrow> (\<exists>s. section_for_va img va = Some s \<and> executable s)"
  by (auto simp: exec_va_def split: option.splits)

end
