(* ===== verification/Pe_Loader.thy ===== *)
theory Pe_Loader
  imports Pe_Image
begin

text \<open>
  \<open>PEImage::parse\<close> of \<open>src/pe.rs\<close>: the headers, the section table, the import, export and
  exception directories, the function seeds and the overlay. \<^const>\<open>SlicePanic\<close> is the panic of
  a slice whose start lies behind its end or behind the end of the file; every other error is the value the
  code returns. Additions on addresses wrap, as they do in the released build.
\<close>

section \<open>Headers\<close>

definition rd16 :: "bytes \<Rightarrow> nat \<Rightarrow> (PeError, 16 word) result" where
  "rd16 bs off = ok_or ReadOutOfBounds (read_u16 bs off)"

definition rd32 :: "bytes \<Rightarrow> nat \<Rightarrow> (PeError, u32) result" where
  "rd32 bs off = ok_or ReadOutOfBounds (read_u32 bs off)"

definition rd64 :: "bytes \<Rightarrow> nat \<Rightarrow> (PeError, u64) result" where
  "rd64 bs off = ok_or ReadOutOfBounds (read_u64 bs off)"

fun parse_directories :: "bytes \<Rightarrow> nat \<Rightarrow> nat list \<Rightarrow> (PeError, DataDirectory list) result" where
  "parse_directories bs dir_base [] = Ok []"
| "parse_directories bs dir_base (index # is) =
     (let offset = dir_base + index * 8
      in if offset + 8 > length bs then Ok []
         else chain (rd32 bs offset) (\<lambda>rva.
              chain (rd32 bs (offset + 4)) (\<lambda>sz.
              chain (parse_directories bs dir_base is) (\<lambda>ds.
                Ok (\<lparr>dir_rva = rva, dir_size = sz\<rparr> # ds)))))"

definition parse_section :: "bytes \<Rightarrow> u64 \<Rightarrow> nat \<Rightarrow> (PeError, SectionRecord) result" where
  "parse_section bs base offset =
     (let name_bytes = take 8 (drop offset bs);
          name = from_utf8_lossy (takeWhile (\<lambda>b. b \<noteq> 0) name_bytes)
      in chain (rd32 bs (offset + 8)) (\<lambda>vsize.
         chain (rd32 bs (offset + 12)) (\<lambda>rva.
         chain (rd32 bs (offset + 16)) (\<lambda>rsize.
         chain (rd32 bs (offset + 20)) (\<lambda>rstart.
         chain (rd32 bs (offset + 36)) (\<lambda>characteristics.
           let start = unat rstart;
               stop = min (start + unat rsize) (length bs);
               dsize = stop - start
           in if start > stop then Err SlicePanic
              else Ok \<lparr>sec_name = name, sec_rva = rva, sec_va = base + ucast rva, virtual_size = vsize,
                     raw_start = rstart, raw_size = rsize, data_size = dsize,
                     executable = bit characteristics 29, readable = bit characteristics 30,
                     writable = bit characteristics 31, data_range = (start, stop)\<rparr>))))))"

fun parse_sections :: "bytes \<Rightarrow> u64 \<Rightarrow> nat \<Rightarrow> nat list \<Rightarrow> (PeError, SectionRecord list) result" where
  "parse_sections bs base section_base [] = Ok []"
| "parse_sections bs base section_base (idx # is) =
     (let offset = section_base + idx * 40
      in if offset + 40 > length bs then Ok []
         else chain (parse_section bs base offset) (\<lambda>s.
              chain (parse_sections bs base section_base is) (\<lambda>ss. Ok (s # ss))))"

section \<open>Imports\<close>

text \<open>\<open>strings::import_categories\<close>\<close>

definition category_groups :: "(string \<times> string list) list" where
  "category_groups =
     [(''file'', [''createfile'', ''readfile'', ''writefile'', ''deletefile'', ''copyfile'', ''movefile'']),
      (''process'', [''createprocess'', ''shellexecute'', ''winexec'', ''openprocess'', ''terminateprocess'']),
      (''registry'', [''regopen'', ''regcreate'', ''regset'', ''regquery'', ''regdelete'']),
      (''network'', [''socket'', ''connect'', ''send'', ''recv'', ''internet'', ''winhttp'', ''wsastartup'', ''urlmon'']),
      (''crypto'', [''crypt'', ''bcrypt'', ''ncrypt'', ''cert'']),
      (''anti_debug'', [''isdebuggerpresent'', ''checkremotedebuggerpresent'', ''ntqueryinformationprocess'']),
      (''service'', [''openscmanager'', ''createservice'', ''openservice'', ''startservice'']),
      (''thread'', [''createthread'', ''beginthread'', ''queueuserapc'', ''sleep'']),
      (''memory'', [''virtualalloc'', ''virtualprotect'', ''writeprocessmemory'', ''readprocessmemory'', ''mapviewoffile'']),
      (''module'', [''loadlibrary'', ''getprocaddress'', ''getmodulehandle''])]"

definition import_categories :: "string \<Rightarrow> string list" where
  "import_categories symbol =
     (let name = to_ascii_lowercase (after_last (CHR ''!'') symbol)
      in map fst (filter (\<lambda>(category, needles). list_ex (\<lambda>needle. contains needle name) needles) category_groups))"

definition thunk_name :: "PEImage \<Rightarrow> u64 \<Rightarrow> nat \<Rightarrow> string \<times> 16 word option" where
  "thunk_name img v index =
     (if bit v 63 then (''ord_'' @ show_nat (unat (take_bit 16 v)), None)
      else let name_off = rva_to_file_offset img (ucast v)
           in (unwrap_or (''ord_'' @ show_nat index)
                 (Option.bind name_off (\<lambda>off. read_c_string (pe_bytes img) (off + 2))),
               Option.bind name_off (\<lambda>off. read_u16 (pe_bytes img) off)))"

definition import_row :: "PEImage \<Rightarrow> string \<Rightarrow> u32 \<Rightarrow> u64 \<Rightarrow> nat \<Rightarrow> ImportRecord" where
  "import_row img dll_name first_thunk v index =
     (let (name, hnt) = thunk_name img v index;
          va = pe_base img + ucast first_thunk + of_nat (index * 8);
          symbol = dll_name @ ''!'' @ name
      in \<lparr>dll = dll_name, import_name = name, imp_symbol = symbol, import_va = va,
          import_rva = va - pe_base img, hint = hnt, categories = import_categories symbol\<rparr>)"

text \<open>The loop over the thunks of one library; the first argument is the number of rounds left.\<close>

fun thunk_loop :: "PEImage \<Rightarrow> string \<Rightarrow> u32 \<Rightarrow> nat \<Rightarrow> nat \<Rightarrow> nat \<Rightarrow> ImportRecord list" where
  "thunk_loop img dll_name first_thunk 0 index thunk_offset = []"
| "thunk_loop img dll_name first_thunk (Suc n) index thunk_offset =
     (if thunk_offset + 8 > length (pe_bytes img) then []
      else let v = unwrap_or 0 (read_u64 (pe_bytes img) thunk_offset)
           in if v = 0 then []
              else import_row img dll_name first_thunk v index #
                thunk_loop img dll_name first_thunk n (Suc index) (thunk_offset + 8))"

text \<open>The loop over the import descriptors.\<close>

fun descriptor_loop :: "PEImage \<Rightarrow> nat \<Rightarrow> nat \<Rightarrow> (PeError, ImportRecord list) result" where
  "descriptor_loop img 0 offset = Ok []"
| "descriptor_loop img (Suc n) offset =
     (let bs = pe_bytes img
      in if offset + 20 > length bs then Ok []
         else let original_first_thunk = unwrap_or 0 (read_u32 bs offset);
                  name_rva = unwrap_or 0 (read_u32 bs (offset + 12));
                  first_thunk = unwrap_or 0 (read_u32 bs (offset + 16))
              in if original_first_thunk = 0 \<and> name_rva = 0 \<and> first_thunk = 0 then Ok []
                 else chain (read_c_string_rva img name_rva) (\<lambda>name.
                   let dll_name = unwrap_or [] name;
                       thunk_rva = (if original_first_thunk \<noteq> 0 then original_first_thunk else first_thunk);
                       rows = (case rva_to_file_offset img thunk_rva of
                                 None \<Rightarrow> []
                               | Some thunk_offset \<Rightarrow> thunk_loop img dll_name first_thunk 65536 0 thunk_offset)
                   in chain (descriptor_loop img n (offset + 20)) (\<lambda>more. Ok (rows @ more))))"

definition parse_imports :: "PEImage \<Rightarrow> (PeError, ImportRecord list) result" where
  "parse_imports img =
     (case directory img 1 of
        None \<Rightarrow> Ok []
      | Some dir \<Rightarrow>
          (case rva_to_file_offset img (dir_rva dir) of
             None \<Rightarrow> Ok []
           | Some offset \<Rightarrow> descriptor_loop img 4096 offset))"

section \<open>Exports\<close>

definition export_row :: "PEImage \<Rightarrow> u32 \<Rightarrow> nat \<Rightarrow> nat \<Rightarrow> nat \<Rightarrow> nat \<Rightarrow> (PeError, ExportRecord) result" where
  "export_row img ordinal_base names_off ord_off func_off index =
     (let bs = pe_bytes img;
          name_rva = unwrap_or 0 (read_u32 bs (names_off + index * 4))
      in chain (read_c_string_rva img name_rva) (\<lambda>name.
           let ordinal_index = unat (unwrap_or 0 (read_u16 bs (ord_off + index * 2)));
               function_rva = unwrap_or 0 (read_u32 bs (func_off + ordinal_index * 4))
           in Ok \<lparr>export_name = unwrap_or (''exp_'' @ show_nat index) name,
                  ordinal = ordinal_base + of_nat ordinal_index,
                  export_va = pe_base img + ucast function_rva, export_rva = function_rva\<rparr>))"

fun collect_rows :: "(nat \<Rightarrow> ('e, 'a) result) \<Rightarrow> nat list \<Rightarrow> ('e, 'a list) result" where
  "collect_rows f [] = Ok []"
| "collect_rows f (i # is) = chain (f i) (\<lambda>r. chain (collect_rows f is) (\<lambda>rs. Ok (r # rs)))"

definition parse_exports :: "PEImage \<Rightarrow> (PeError, ExportRecord list) result" where
  "parse_exports img =
     (case directory img 0 of
        None \<Rightarrow> Ok []
      | Some dir \<Rightarrow>
          (case rva_to_file_offset img (dir_rva dir) of
             None \<Rightarrow> Ok []
           | Some offset \<Rightarrow>
               let bs = pe_bytes img
               in if offset + 40 > length bs then Ok []
                  else let ordinal_base = unwrap_or 0 (read_u32 bs (offset + 16));
                           number_of_names = unwrap_or 0 (read_u32 bs (offset + 24));
                           address_functions = unwrap_or 0 (read_u32 bs (offset + 28));
                           address_names = unwrap_or 0 (read_u32 bs (offset + 32));
                           address_ordinals = unwrap_or 0 (read_u32 bs (offset + 36))
                       in (case rva_to_file_offset img address_names of
                             None \<Rightarrow> Ok []
                           | Some names_off \<Rightarrow>
                               (case rva_to_file_offset img address_ordinals of
                                  None \<Rightarrow> Ok []
                                | Some ord_off \<Rightarrow>
                                    (case rva_to_file_offset img address_functions of
                                       None \<Rightarrow> Ok []
                                     | Some func_off \<Rightarrow>
                                         collect_rows (export_row img ordinal_base names_off ord_off func_off)
                                           [0..<unat number_of_names])))))"

section \<open>Exceptions\<close>

definition runtime_functions :: "PEImage \<Rightarrow> (nat \<times> nat) option" where
  "runtime_functions img =
     (case Option.bind (directory img 3)
            (\<lambda>dir. map_option (\<lambda>off. (off, unat (dir_size dir))) (rva_to_file_offset img (dir_rva dir))) of
        Some r \<Rightarrow> Some r
      | None \<Rightarrow>
          map_option (\<lambda>s. (unat (raw_start s), data_size s))
            (find (\<lambda>s. eq_ignore_ascii_case (sec_name s) ''.pdata'') (pe_sections img)))"

definition exception_row :: "PEImage \<Rightarrow> nat \<Rightarrow> ExceptionRecord option" where
  "exception_row img offset =
     (let bs = pe_bytes img;
          b = unwrap_or 0 (read_u32 bs offset);
          e = unwrap_or 0 (read_u32 bs (offset + 4));
          u = unwrap_or 0 (read_u32 bs (offset + 8))
      in if b \<noteq> 0 \<and> e > b \<and> (case section_for_rva img b of Some s \<Rightarrow> executable s | None \<Rightarrow> False)
         then Some \<lparr>begin_rva = b, end_rva = e, unwind_rva = u, exc_begin = pe_base img + ucast b,
                    exc_end = pe_base img + ucast e, exc_unwind = pe_base img + ucast u\<rparr>
         else None)"

function exception_loop :: "PEImage \<Rightarrow> nat \<Rightarrow> nat \<Rightarrow> ExceptionRecord list" where
  "exception_loop img offset stop =
     (if offset + 12 \<le> stop
      then (case exception_row img offset of Some r \<Rightarrow> [r] | None \<Rightarrow> []) @
        exception_loop img (offset + 12) stop
      else [])"
  by pat_completeness auto
termination by (relation "measure (\<lambda>(img, offset, stop). stop - offset)") auto

declare exception_loop.simps [simp del]

definition parse_exceptions :: "PEImage \<Rightarrow> ExceptionRecord list" where
  "parse_exceptions img =
     (case runtime_functions img of
        None \<Rightarrow> []
      | Some (start, sz) \<Rightarrow>
          sort_key exc_begin (exception_loop img start (min (start + sz) (length (pe_bytes img)))))"

section \<open>The loader\<close>

definition overlay_offset :: "PEImage \<Rightarrow> nat option" where
  "overlay_offset img =
     (let ends = map (\<lambda>s. unat (raw_start s) + unat (raw_size s)) (pe_sections img);
          stop = fold max ends 0
      in if stop > 0 \<and> stop < length (pe_bytes img) then Some stop else None)"

definition function_seeds :: "PEImage \<Rightarrow> ExportRecord list \<Rightarrow> ExceptionRecord list \<Rightarrow> u64 list" where
  "function_seeds img exports exceptions =
     remdups_adj (sort
       ((if entry_va img \<noteq> 0 then [entry_va img] else []) @
        filter (\<lambda>v. v \<noteq> 0) (map exc_begin exceptions) @
        map export_va (filter (\<lambda>e. exec_va img (export_va e)) exports)))"

definition parse_tail :: "PEImage \<Rightarrow> (PeError, PEImage) result" where
  "parse_tail img =
     chain (parse_imports img) (\<lambda>imports.
     chain (parse_exports img) (\<lambda>exports.
       let exceptions = parse_exceptions img
       in Ok (img\<lparr>pe_imports := imports, pe_exports := exports, pe_exceptions := exceptions,
                function_seeds_cache := function_seeds img exports exceptions,
                overlay_offset_cache := overlay_offset img\<rparr>)))"

definition mk_image ::
  "bytes \<Rightarrow> u64 \<Rightarrow> u32 \<Rightarrow> 16 word \<Rightarrow> 16 word \<Rightarrow> DataDirectory list \<Rightarrow> SectionRecord list \<Rightarrow> PEImage" where
  "mk_image bs base entry_rva mach dllc dirs secs =
     \<lparr>pe_bytes = bs, pe_base = base, entry_va = (if entry_rva = 0 then 0 else base + ucast entry_rva),
      machine = mach, dll_characteristics = dllc, data_directories = dirs,
      pe_sections = sort_key sec_rva secs, pe_imports = [], pe_exports = [], pe_exceptions = [],
      function_seeds_cache = [], overlay_offset_cache = None\<rparr>"

definition parse_optional :: "bytes \<Rightarrow> 16 word \<Rightarrow> nat \<Rightarrow> nat \<Rightarrow> nat \<Rightarrow> (PeError, PEImage) result" where
  "parse_optional bs mach section_count optional_size opt =
     chain (rd16 bs opt) (\<lambda>magic.
       if magic \<noteq> 0x20b then Err OnlyPe32Plus
       else
         chain (rd32 bs (opt + 16)) (\<lambda>entry_rva.
         chain (rd64 bs (opt + 24)) (\<lambda>base.
         chain (rd16 bs (opt + 70)) (\<lambda>dllc.
         chain (rd32 bs (opt + 108)) (\<lambda>number_of_dirs.
         chain (parse_directories bs (opt + 112) [0..<min (unat number_of_dirs) 16]) (\<lambda>dirs.
         chain (parse_sections bs base (opt + optional_size) [0..<section_count]) (\<lambda>secs.
           parse_tail (mk_image bs base entry_rva mach dllc dirs secs))))))))"

definition pe_parse :: "bytes \<Rightarrow> (PeError, PEImage) result" where
  "pe_parse bs =
     (if length bs < 0x100 \<or> take 2 bs \<noteq> [0x4D, 0x5A] then Err NotMz
      else chain (rd32 bs 0x3c) (\<lambda>pe_off.
        let pe_offset = unat pe_off
        in if pe_offset + 24 \<ge> length bs \<or> take 4 (drop pe_offset bs) \<noteq> [0x50, 0x45, 0, 0]
           then Err InvalidSignature
           else let coff = pe_offset + 4
                in chain (rd16 bs coff) (\<lambda>mach.
                   chain (rd16 bs (coff + 2)) (\<lambda>section_count.
                   chain (rd16 bs (coff + 16)) (\<lambda>optional_size.
                     parse_optional bs mach (unat section_count) (unat optional_size) (coff + 20))))))"

end
