(* ===== verification/Pe_Props.thy ===== *)
theory Pe_Props
  imports Pe_Loader
begin

text \<open>
  What the loader delivers: when it panics, that every image it returns is the one the bytes of the file
  describe (header fields, sections and exception rows against their bytes), and the import slots. The header fields are
  read off the file by the specification functions \<open>raw_start_at\<close>, \<open>raw_size_at\<close> and \<open>section_offsets\<close>.
\<close>

section \<open>The section table\<close>

definition raw_start_at :: "bytes \<Rightarrow> nat \<Rightarrow> nat" where
  "raw_start_at bs off = unat (unwrap_or 0 (read_u32 bs (off + 20)))"

definition raw_size_at :: "bytes \<Rightarrow> nat \<Rightarrow> nat" where
  "raw_size_at bs off = unat (unwrap_or 0 (read_u32 bs (off + 16)))"

text \<open>The offsets of the section headers the loader visits.\<close>

definition section_offsets :: "bytes \<Rightarrow> nat list" where
  "section_offsets bs =
     (let pe_offset = unat (unwrap_or 0 (read_u32 bs 0x3c));
          count = unat (unwrap_or 0 (read_u16 bs (pe_offset + 6)));
          optional_size = unat (unwrap_or 0 (read_u16 bs (pe_offset + 20)))
      in map (\<lambda>i. pe_offset + 24 + optional_size + i * 40) [0..<count])"

text \<open>What a section row holds of its file.\<close>

definition section_ok :: "bytes \<Rightarrow> SectionRecord \<Rightarrow> bool" where
  "section_ok bs s \<longleftrightarrow>
     unat (raw_start s) \<le> length bs \<and>
     data_range s = (unat (raw_start s), min (unat (raw_start s) + unat (raw_size s)) (length bs)) \<and>
     data_size s = snd (data_range s) - fst (data_range s)"

lemma rd32_in_range: "off + 4 \<le> length bs \<Longrightarrow> rd32 bs off = Ok (unwrap_or 0 (read_u32 bs off))"
  using read_u32_in_range [of off bs] by (auto simp: rd32_def)

lemma rd32_errors: "rd32 bs off \<noteq> Err SlicePanic" "rd16 bs off \<noteq> Err SlicePanic" "rd64 bs off \<noteq> Err SlicePanic"
  by (simp_all add: rd32_def rd16_def rd64_def)

lemma parse_section_panic:
  assumes "off + 40 \<le> length bs" "length bs < raw_start_at bs off"
  shows "parse_section bs base off = Err SlicePanic"
proof -
  have "rd32 bs (off + 8) = Ok (unwrap_or 0 (read_u32 bs (off + 8)))"
    "rd32 bs (off + 12) = Ok (unwrap_or 0 (read_u32 bs (off + 12)))"
    "rd32 bs (off + 16) = Ok (unwrap_or 0 (read_u32 bs (off + 16)))"
    "rd32 bs (off + 20) = Ok (unwrap_or 0 (read_u32 bs (off + 20)))"
    "rd32 bs (off + 36) = Ok (unwrap_or 0 (read_u32 bs (off + 36)))"
    using assms(1) by (simp_all add: rd32_in_range)
  then show ?thesis using assms(2) by (simp add: parse_section_def Let_def raw_start_at_def)
qed

lemma parse_section_Ok:
  assumes "off + 40 \<le> length bs" "raw_start_at bs off \<le> length bs"
  obtains s where "parse_section bs base off = Ok s" "section_ok bs s"
    "unat (raw_start s) = raw_start_at bs off" "unat (raw_size s) = raw_size_at bs off"
    "sec_va s = base + ucast (sec_rva s)"
proof -
  have r: "rd32 bs (off + 8) = Ok (unwrap_or 0 (read_u32 bs (off + 8)))"
    "rd32 bs (off + 12) = Ok (unwrap_or 0 (read_u32 bs (off + 12)))"
    "rd32 bs (off + 16) = Ok (unwrap_or 0 (read_u32 bs (off + 16)))"
    "rd32 bs (off + 20) = Ok (unwrap_or 0 (read_u32 bs (off + 20)))"
    "rd32 bs (off + 36) = Ok (unwrap_or 0 (read_u32 bs (off + 36)))"
    using assms(1) by (simp_all add: rd32_in_range)
  let ?f = "\<lambda>k. unwrap_or 0 (read_u32 bs (off + k))"
  let ?s = "\<lparr>sec_name = from_utf8_lossy (takeWhile (\<lambda>b. b \<noteq> 0) (take 8 (drop off bs))), sec_rva = ?f 12,
    sec_va = base + ucast (?f 12), virtual_size = ?f 8, raw_start = ?f 20, raw_size = ?f 16,
    data_size = min (unat (?f 20) + unat (?f 16)) (length bs) - unat (?f 20),
    executable = bit (?f 36) 29, readable = bit (?f 36) 30, writable = bit (?f 36) 31,
    data_range = (unat (?f 20), min (unat (?f 20) + unat (?f 16)) (length bs))\<rparr>"
  have "parse_section bs base off = Ok ?s"
    using assms(2) by (simp add: parse_section_def Let_def r raw_start_at_def)
  then show ?thesis
    by (rule that) (use assms(2) in \<open>simp_all add: section_ok_def raw_start_at_def raw_size_at_def\<close>)
qed

lemma parse_sections_panic_iff:
  "parse_sections bs base sb is = Err SlicePanic \<longleftrightarrow>
   (\<exists>i\<in>set (takeWhile (\<lambda>i. sb + i * 40 + 40 \<le> length bs) is). length bs < raw_start_at bs (sb + i * 40))"
proof (induction "is")
  case (Cons i "is")
  consider "length bs < sb + i * 40 + 40"
    | "sb + i * 40 + 40 \<le> length bs" "length bs < raw_start_at bs (sb + i * 40)"
    | "sb + i * 40 + 40 \<le> length bs" "raw_start_at bs (sb + i * 40) \<le> length bs" by linarith
  then show ?case
  proof cases
    case 2
    then show ?thesis by (simp add: parse_section_panic Let_def)
  next
    case 3
    then obtain s where "parse_section bs base (sb + i * 40) = Ok s" by (rule parse_section_Ok)
    then show ?thesis using 3 Cons by (auto simp: Let_def chain_Err)
  qed simp
qed simp

lemma parse_sections_errors:
  "parse_sections bs base sb is = Err e \<Longrightarrow> e = SlicePanic"
proof (induction "is")
  case (Cons i "is")
  show ?case
  proof (cases "sb + i * 40 + 40 \<le> length bs")
    case True
    show ?thesis
    proof (cases "raw_start_at bs (sb + i * 40) \<le> length bs")
      case le: True
      obtain s where "parse_section bs base (sb + i * 40) = Ok s" by (rule parse_section_Ok [OF True le])
      then show ?thesis using Cons True by (auto simp: Let_def chain_Err)
    next
      case False
      then show ?thesis using Cons.prems True by (simp add: parse_section_panic Let_def)
    qed
  qed (use Cons.prems in simp)
qed simp

lemma takeWhile_upt_mono:
  assumes "\<And>i j. i \<le> j \<Longrightarrow> P j \<Longrightarrow> P i"
  shows "set (takeWhile P [0..<n]) = {i. i < n \<and> P i}"
proof (induction n)
  case (Suc n)
  show ?case
  proof (cases "\<forall>i<n. P i")
    case True
    then have "takeWhile P [0..<n] = [0..<n]" by (simp add: takeWhile_eq_all_conv)
    then show ?thesis using True by (auto simp: takeWhile_append less_Suc_eq)
  next
    case False
    then obtain i where "i < n" "\<not> P i" by blast
    then have "\<not> P n" using assms [of i n] by auto
    moreover have "takeWhile P ([0..<n] @ [n]) = takeWhile P [0..<n]"
      using \<open>i < n\<close> \<open>\<not> P i\<close> by (intro takeWhile_append1 [of i]) auto
    ultimately show ?thesis using Suc by (auto simp: less_Suc_eq)
  qed
qed simp

lemma parse_sections_range:
  "parse_sections bs base sb [0..<n] = Err SlicePanic \<longleftrightarrow>
   (\<exists>i<n. sb + i * 40 + 40 \<le> length bs \<and> length bs < raw_start_at bs (sb + i * 40))"
proof -
  have "set (takeWhile (\<lambda>i. sb + i * 40 + 40 \<le> length bs) [0..<n]) = {i. i < n \<and> sb + i * 40 + 40 \<le> length bs}"
    by (rule takeWhile_upt_mono) simp
  then show ?thesis by (auto simp: parse_sections_panic_iff)
qed

lemma parse_sections_ok:
  "parse_sections bs base sb is = Ok ss \<Longrightarrow>
   (\<forall>s\<in>set ss. section_ok bs s \<and> sec_va s = base + ucast (sec_rva s) \<and>
      (\<exists>i\<in>set is. sb + i * 40 + 40 \<le> length bs \<and> unat (raw_start s) = raw_start_at bs (sb + i * 40) \<and>
        unat (raw_size s) = raw_size_at bs (sb + i * 40)))"
proof (induction "is" arbitrary: ss)
  case (Cons i "is")
  show ?case
  proof (cases "sb + i * 40 + 40 \<le> length bs")
    case True
    show ?thesis
    proof (cases "raw_start_at bs (sb + i * 40) \<le> length bs")
      case le: True
      obtain s where s: "parse_section bs base (sb + i * 40) = Ok s" "section_ok bs s"
        "unat (raw_start s) = raw_start_at bs (sb + i * 40)" "unat (raw_size s) = raw_size_at bs (sb + i * 40)"
        "sec_va s = base + ucast (sec_rva s)" by (rule parse_section_Ok [OF True le])
      then obtain rest where "parse_sections bs base sb is = Ok rest" "ss = s # rest"
        using Cons.prems True by (auto simp: Let_def chain_Ok)
      then show ?thesis using Cons.IH [of rest] s True by auto
    next
      case False
      then show ?thesis using Cons.prems True by (simp add: parse_section_panic Let_def)
    qed
  qed (use Cons.prems in simp)
qed simp

section \<open>No panic when the raw data lie in the file\<close>

definition sections_in_file :: "PEImage \<Rightarrow> bool" where
  "sections_in_file img \<longleftrightarrow>
     (\<forall>s\<in>set (pe_sections img). section_ok (pe_bytes img) s \<and>
        unat (raw_start s) + unat (raw_size s) \<le> length (pe_bytes img))"

lemma section_ok_in_file:
  assumes "section_ok bs s" "unat (raw_start s) + unat (raw_size s) \<le> length bs"
  shows "data_size s = unat (raw_size s)" "max (raw_size s) (of_nat (data_size s)) = raw_size s"
proof -
  show "data_size s = unat (raw_size s)" using assms by (simp add: section_ok_def)
  then show "max (raw_size s) (of_nat (data_size s)) = raw_size s" by simp
qed

lemma offset_in_file:
  assumes "sections_in_file img" "rva_to_file_offset img rva = Some off"
  shows "off < length (pe_bytes img)"
proof -
  obtain s where s: "section_for_rva img rva = Some s"
    "off < unat (raw_start s) + unat (max (raw_size s) (of_nat (data_size s)))"
    using rva_to_file_offset_Some [OF assms(2)] by blast
  then have "section_ok (pe_bytes img) s" "unat (raw_start s) + unat (raw_size s) \<le> length (pe_bytes img)"
    using section_for_rva_span(1) [OF s(1)] assms(1) by (auto simp: sections_in_file_def)
  then show ?thesis using s(2) section_ok_in_file(2) by force
qed

lemma read_c_string_rva_ok: "sections_in_file img \<Longrightarrow> read_c_string_rva img rva \<noteq> Err e"
  by (auto simp: read_c_string_rva_def Let_def dest: offset_in_file split: option.split)

lemma descriptor_loop_ok: "sections_in_file img \<Longrightarrow> descriptor_loop img n offset \<noteq> Err e"
  by (induction img n offset rule: descriptor_loop.induct)
    (auto simp: Let_def chain_Err read_c_string_rva_ok split: if_splits)

lemma parse_imports_ok: "sections_in_file img \<Longrightarrow> parse_imports img \<noteq> Err e"
  by (auto simp: parse_imports_def descriptor_loop_ok split: option.split)

lemma collect_rows_ok: "(\<And>i. f i \<noteq> Err e) \<Longrightarrow> collect_rows f is \<noteq> Err e"
  by (induction "is") (auto simp: chain_Err)

lemma parse_exports_ok:
  assumes "sections_in_file img"
  shows "parse_exports img \<noteq> Err e"
proof -
  have "export_row img ob no oo fo i \<noteq> Err e" for ob no oo fo i
    by (auto simp: export_row_def Let_def chain_Err read_c_string_rva_ok [OF assms])
  then have "collect_rows (export_row img ob no oo fo) is \<noteq> Err e" for ob no oo fo "is"
    by (rule collect_rows_ok)
  then show ?thesis by (simp add: parse_exports_def Let_def split: option.split)
qed

lemma parse_tail_ok: "sections_in_file img \<Longrightarrow> parse_tail img \<noteq> Err e"
  by (auto simp: parse_tail_def chain_Err Let_def parse_imports_ok parse_exports_ok)

lemma parse_directories_no_error: "parse_directories bs base is \<noteq> Err e"
  by (induction "is") (auto simp: Let_def rd32_in_range chain_Err)

lemma mk_image_simps [simp]:
  "pe_bytes (mk_image bs base entry mach dllc dirs secs) = bs"
  "pe_base (mk_image bs base entry mach dllc dirs secs) = base"
  "pe_sections (mk_image bs base entry mach dllc dirs secs) = sort_key sec_rva secs"
  by (simp_all add: mk_image_def)

lemma parse_optional_ok:
  assumes "\<And>i. i < n \<Longrightarrow> opt + os + i * 40 + 40 \<le> length bs \<Longrightarrow>
    raw_start_at bs (opt + os + i * 40) + raw_size_at bs (opt + os + i * 40) \<le> length bs"
  shows "parse_optional bs mach n os opt \<noteq> Err SlicePanic"
proof
  assume "parse_optional bs mach n os opt = Err SlicePanic"
  then have "\<exists>base entry dllc dirs. parse_sections bs base (opt + os) [0..<n] = Err SlicePanic \<or>
      (\<exists>secs. parse_sections bs base (opt + os) [0..<n] = Ok secs \<and>
        parse_tail (mk_image bs base entry mach dllc dirs secs) = Err SlicePanic)"
    by (auto simp: parse_optional_def chain_Err rd32_errors parse_directories_no_error split: if_splits)
      blast
  then obtain base entry dllc dirs where p: "parse_sections bs base (opt + os) [0..<n] = Err SlicePanic \<or>
      (\<exists>secs. parse_sections bs base (opt + os) [0..<n] = Ok secs \<and>
        parse_tail (mk_image bs base entry mach dllc dirs secs) = Err SlicePanic)" by blast
  have "parse_sections bs base (opt + os) [0..<n] \<noteq> Err SlicePanic"
    using assms by (force simp: parse_sections_range)
  with p obtain secs where s: "parse_sections bs base (opt + os) [0..<n] = Ok secs"
    "parse_tail (mk_image bs base entry mach dllc dirs secs) = Err SlicePanic" by blast
  have "sections_in_file (mk_image bs base entry mach dllc dirs secs)"
    using parse_sections_ok [OF s(1)] assms by (fastforce simp: sections_in_file_def)
  then show False using s(2) parse_tail_ok by blast
qed

lemma pe_parse_cases:
  assumes "pe_parse bs = r"
  obtains e where "r = Err e" "e \<noteq> SlicePanic"
  | mach where "0x100 \<le> length bs" "unat (unwrap_or 0 (read_u32 bs 0x3c)) + 24 < length bs"
      "r = parse_optional bs mach (unat (unwrap_or 0 (read_u16 bs (unat (unwrap_or 0 (read_u32 bs 0x3c)) + 6))))
         (unat (unwrap_or 0 (read_u16 bs (unat (unwrap_or 0 (read_u32 bs 0x3c)) + 20))))
         (unat (unwrap_or 0 (read_u32 bs 0x3c)) + 24)"
proof (cases "length bs < 0x100")
  case True
  then show ?thesis using assms by (intro that(1) [of NotMz]) (simp_all add: pe_parse_def)
next
  case False
  let ?o = "unat (unwrap_or 0 (read_u32 bs 0x3c))"
  obtain po where po: "read_u32 bs 0x3c = Some po" using False read_u32_in_range [of "0x3c" bs] by auto
  show ?thesis
  proof (cases "?o + 24 < length bs \<and> take 2 bs = [0x4D, 0x5A] \<and> take 4 (drop ?o bs) = [0x50, 0x45, 0, 0]")
    case False
    then show ?thesis
      using assms po that(1) by (auto simp: pe_parse_def rd32_def Let_def split: if_splits)
  next
    case True
    obtain m where "read_u16 bs (?o + 4) = Some m" using True read_u16_in_range [of "?o + 4" bs] by auto
    moreover obtain c where "read_u16 bs (?o + 6) = Some c" using True read_u16_in_range [of "?o + 6" bs] by auto
    moreover obtain z where "read_u16 bs (?o + 20) = Some z" using True read_u16_in_range [of "?o + 20" bs] by auto
    ultimately show ?thesis
      using assms po True \<open>\<not> length bs < 0x100\<close>
      by (intro that(2) [of m]) (simp_all add: pe_parse_def rd32_def rd16_def Let_def add.commute)
  qed
qed

text \<open>
  C28: the loader never panics on a file in which, for every section header that lies in the file, the
  start of the raw data plus their size does not exceed the length of the file.
\<close>

theorem pe_parse_no_panic:
  assumes "\<forall>off\<in>set (section_offsets bs). off + 40 \<le> length bs \<longrightarrow> raw_start_at bs off + raw_size_at bs off \<le> length bs"
  shows "pe_parse bs \<noteq> Err SlicePanic"
proof (cases rule: pe_parse_cases [OF refl, of bs])
  case (1 e)
  then show ?thesis by simp
next
  case (2 mach)
  show ?thesis
    unfolding 2(3) by (rule parse_optional_ok) (use assms in \<open>auto simp: section_offsets_def Let_def\<close>)
qed

section \<open>The panic\<close>

text \<open>The header is well formed and its optional part lies in the file.\<close>

definition header_ok :: "bytes \<Rightarrow> bool" where
  "header_ok bs \<longleftrightarrow>
     (let pe_offset = unat (unwrap_or 0 (read_u32 bs 0x3c))
      in 0x100 \<le> length bs \<and> take 2 bs = [0x4D, 0x5A] \<and> pe_offset + 136 \<le> length bs \<and>
         take 4 (drop pe_offset bs) = [0x50, 0x45, 0, 0] \<and> read_u16 bs (pe_offset + 24) = Some 0x20b)"

text \<open>
  A section header whose raw data start behind the end of the file makes the loader panic: the
  slice of its bytes has its end before its start.
\<close>

theorem pe_parse_panics:
  assumes "header_ok bs" "off \<in> set (section_offsets bs)" "off + 40 \<le> length bs" "length bs < raw_start_at bs off"
  shows "pe_parse bs = Err SlicePanic"
proof -
  let ?o = "unat (unwrap_or 0 (read_u32 bs 0x3c))"
  have h: "0x100 \<le> length bs" "take 2 bs = [0x4D, 0x5A]" "?o + 136 \<le> length bs"
    "take 4 (drop ?o bs) = [0x50, 0x45, 0, 0]" "read_u16 bs (?o + 24) = Some 0x20b"
    using assms(1) by (simp_all add: header_ok_def Let_def)
  let ?n = "unat (unwrap_or 0 (read_u16 bs (?o + 6)))"
  let ?os = "unat (unwrap_or 0 (read_u16 bs (?o + 20)))"
  obtain i where i: "i < ?n" "off = ?o + 24 + ?os + i * 40"
    using assms(2) by (auto simp: section_offsets_def Let_def)
  have sp: "parse_sections bs base (?o + 24 + ?os) [0..<?n] = Err SlicePanic" for base
    unfolding parse_sections_range using i assms(3,4) by (intro exI [of _ i]) simp
  obtain po mach c z where r: "read_u32 bs 0x3c = Some po" "read_u16 bs (?o + 4) = Some mach"
    "read_u16 bs (?o + 6) = Some c" "read_u16 bs (?o + 20) = Some z"
    using h(1,3) read_u32_in_range [of "0x3c" bs] read_u16_in_range [of "?o + 4" bs]
      read_u16_in_range [of "?o + 6" bs] read_u16_in_range [of "?o + 20" bs] by auto
  obtain e b d n where f: "read_u32 bs (?o + 24 + 16) = Some e" "read_u64 bs (?o + 24 + 24) = Some b"
    "read_u16 bs (?o + 24 + 70) = Some d" "read_u32 bs (?o + 24 + 108) = Some n"
    using h(3) read_u32_in_range [of "?o + 24 + 16" bs] read_u64_in_range [of "?o + 24 + 24" bs]
      read_u16_in_range [of "?o + 24 + 70" bs] read_u32_in_range [of "?o + 24 + 108" bs] by auto
  obtain ds where ds: "parse_directories bs (?o + 24 + 112) [0..<min (unat n) 16] = Ok ds"
    using parse_directories_no_error by (metis sum.exhaust)
  have "parse_optional bs mach ?n ?os (?o + 24) = Err SlicePanic"
    using h(5) f ds sp by (simp add: parse_optional_def rd16_def rd32_def rd64_def del: add.assoc)
  moreover have "pe_parse bs = parse_optional bs mach ?n ?os (?o + 24)"
    using h r by (simp add: pe_parse_def rd32_def rd16_def Let_def add.commute)
  ultimately show ?thesis by simp
qed

section \<open>The invariant of the loaded image\<close>

definition exception_ok :: "PEImage \<Rightarrow> ExceptionRecord \<Rightarrow> bool" where
  "exception_ok img e \<longleftrightarrow>
     begin_rva e \<noteq> 0 \<and> begin_rva e < end_rva e \<and>
     exc_begin e = pe_base img + ucast (begin_rva e) \<and> exc_end e = pe_base img + ucast (end_rva e) \<and>
     exc_unwind e = pe_base img + ucast (unwind_rva e) \<and>
     (\<exists>s. section_for_rva img (begin_rva e) = Some s \<and> executable s)"

definition overlay_ok :: "PEImage \<Rightarrow> bool" where
  "overlay_ok img \<longleftrightarrow>
     (case overlay_offset_cache img of
        None \<Rightarrow> True
      | Some off \<Rightarrow>
          0 < off \<and> off < length (pe_bytes img) \<and>
          (\<forall>s\<in>set (pe_sections img). unat (raw_start s) + unat (raw_size s) \<le> off))"

definition image_ok :: "bytes \<Rightarrow> PEImage \<Rightarrow> bool" where
  "image_ok bs img \<longleftrightarrow>
     pe_bytes img = bs \<and>
     (\<forall>s\<in>set (pe_sections img). section_ok bs s \<and> sec_va s = pe_base img + ucast (sec_rva s)) \<and>
     sorted (map sec_rva (pe_sections img)) \<and>
     (\<forall>e\<in>set (pe_exceptions img). exception_ok img e) \<and> sorted (map exc_begin (pe_exceptions img)) \<and>
     sorted (function_seeds_cache img) \<and> distinct (function_seeds_cache img) \<and>
     (\<forall>e\<in>set (pe_exceptions img). exc_begin e \<noteq> 0 \<longrightarrow> exc_begin e \<in> set (function_seeds_cache img)) \<and>
     overlay_ok img"

lemma section_ok_data: "section_ok bs s \<Longrightarrow> \<exists>d. section_data s bs = Some d \<and> length d = data_size s"
  by (auto simp: section_ok_def section_data_def)

lemma exception_row_ok: "exception_row img off = Some e \<Longrightarrow> exception_ok img e"
  by (auto simp: exception_row_def exception_ok_def Let_def split: if_splits option.splits)

lemma exception_loop_rows:
  "set (exception_loop img offset stop) \<subseteq> {e. \<exists>off. exception_row img off = Some e}"
proof (induction img offset stop rule: exception_loop.induct)
  case (1 img offset stop)
  then show ?case
    by (subst exception_loop.simps) (auto split: option.split)
qed

lemma fold_max_ge: "(n :: nat) \<le> fold max xs n \<and> (\<forall>x\<in>set xs. x \<le> fold max xs n)"
proof (induction xs arbitrary: n)
  case (Cons x xs)
  have "max x n \<le> fold max xs (max x n)" "\<forall>y\<in>set xs. y \<le> fold max xs (max x n)" using Cons by blast+
  then show ?case by auto
qed simp

lemma parse_tail_image:
  assumes "parse_tail img = Ok img'"
  shows "\<exists>ims exs. img' = img\<lparr>pe_imports := ims, pe_exports := exs,
      pe_exceptions := parse_exceptions img,
      function_seeds_cache := function_seeds img exs (parse_exceptions img),
      overlay_offset_cache := overlay_offset img\<rparr>"
  using assms by (auto simp: parse_tail_def chain_Ok Let_def)

lemma parse_exceptions_ok: "e \<in> set (parse_exceptions img) \<Longrightarrow> exception_ok img e"
  using exception_loop_rows exception_row_ok
  by (fastforce simp: parse_exceptions_def split: option.splits)

lemma parse_exceptions_sorted: "sorted (map exc_begin (parse_exceptions img))"
  by (auto simp: parse_exceptions_def split: option.split)

lemma remdups_adj_sorted_distinct: "sorted xs \<Longrightarrow> sorted (remdups_adj xs) \<and> distinct (remdups_adj xs)"
  by (induction xs rule: remdups_adj.induct) (auto simp: order.order_iff_strict)

lemma parse_tail_invariant:
  assumes "parse_tail (mk_image bs base entry mach dllc dirs secs) = Ok img"
    and "\<forall>s\<in>set secs. section_ok bs s \<and> sec_va s = base + ucast (sec_rva s)"
  shows "image_ok bs img"
proof -
  let ?m = "mk_image bs base entry mach dllc dirs secs"
  obtain ims exs where img: "img = ?m\<lparr>pe_imports := ims, pe_exports := exs,
      pe_exceptions := parse_exceptions ?m,
      function_seeds_cache := function_seeds ?m exs (parse_exceptions ?m),
      overlay_offset_cache := overlay_offset ?m\<rparr>"
    using parse_tail_image [OF assms(1)] by blast
  have lookup: "section_for_rva img = section_for_rva ?m" by (simp add: img section_for_rva_def fun_eq_iff)
  have "exception_ok img e" if "exception_ok ?m e" for e
    using that by (simp add: exception_ok_def lookup) (simp add: img)
  then have exc: "\<forall>e\<in>set (pe_exceptions img). exception_ok img e" using parse_exceptions_ok by (simp add: img)
  have seeds: "sorted (function_seeds_cache img) \<and> distinct (function_seeds_cache img)"
    by (simp add: img function_seeds_def remdups_adj_sorted_distinct)
  have "\<forall>e\<in>set (pe_exceptions img). exc_begin e \<noteq> 0 \<longrightarrow> exc_begin e \<in> set (function_seeds_cache img)"
    by (auto simp: img function_seeds_def)
  moreover have "overlay_ok img"
    using fold_max_ge [of 0 "map (\<lambda>s. unat (raw_start s) + unat (raw_size s)) (sort_key sec_rva secs)"]
    by (auto simp: overlay_ok_def overlay_offset_def img Let_def split: option.split)
  ultimately show ?thesis
    using assms(2) exc seeds by (simp add: image_ok_def img parse_exceptions_sorted)
qed

lemma parse_optional_image:
  assumes "Ok img = parse_optional bs mach n os opt"
  obtains base entry dllc dirs secs where "parse_sections bs base (opt + os) [0..<n] = Ok secs"
    "parse_tail (mk_image bs base entry mach dllc dirs secs) = Ok img"
  using assms [symmetric] unfolding parse_optional_def by (auto simp: chain_Ok split: if_splits)

lemma pe_parse_image_ok:
  assumes "pe_parse bs = Ok img"
  shows "image_ok bs img"
proof (cases rule: pe_parse_cases [OF assms])
  case (2 mach)
  then show ?thesis
    by (auto elim!: parse_optional_image intro: parse_tail_invariant dest: parse_sections_ok)
qed simp

section \<open>The exception table\<close>

text \<open>A runtime function entry as it stands in the file, and the row it stands for.\<close>

definition enc_runtime :: "u32 \<times> u32 \<times> u32 \<Rightarrow> bytes" where
  "enc_runtime t = (case t of (b, e, u) \<Rightarrow> enc_u32 b @ enc_u32 e @ enc_u32 u)"

definition runtime_row :: "PEImage \<Rightarrow> u32 \<times> u32 \<times> u32 \<Rightarrow> ExceptionRecord option" where
  "runtime_row img t =
     (case t of (b, e, u) \<Rightarrow>
        if b \<noteq> 0 \<and> b < e \<and> (\<exists>s. section_for_rva img b = Some s \<and> executable s)
        then Some \<lparr>begin_rva = b, end_rva = e, unwind_rva = u, exc_begin = pe_base img + ucast b,
                   exc_end = pe_base img + ucast e, exc_unwind = pe_base img + ucast u\<rparr>
        else None)"

lemma length_enc_runtime [simp]: "length (enc_runtime t) = 12"
  by (simp add: enc_runtime_def split: prod.split)

lemma exception_row_enc:
  assumes "pe_bytes img = pre @ enc_runtime t @ suf"
  shows "exception_row img (length pre) = runtime_row img t"
proof -
  obtain b e u where t: "t = (b, e, u)" by (cases t) auto
  have r: "read_u32 (pe_bytes img) (length pre) = Some b"
    "read_u32 (pe_bytes img) (length pre + 4) = Some e" "read_u32 (pe_bytes img) (length pre + 8) = Some u"
    using read_u32_at [of "length pre" pre b "enc_u32 e @ enc_u32 u @ suf"]
      read_u32_at [of "length pre + 4" "pre @ enc_u32 b" e "enc_u32 u @ suf"]
      read_u32_at [of "length pre + 8" "pre @ enc_u32 b @ enc_u32 e" u suf]
    by (simp_all add: assms enc_runtime_def t)
  show ?thesis
    by (auto simp: exception_row_def runtime_row_def t Let_def r split: option.split)
qed

text \<open>The walk over a table delivers the rows of its entries, in order.\<close>

theorem exception_table_round_trip:
  assumes "pe_bytes img = pre @ concat (map enc_runtime ts) @ suf"
  shows "exception_loop img (length pre) (length pre + 12 * length ts) = List.map_filter (runtime_row img) ts"
  using assms
proof (induction ts arbitrary: pre)
  case Nil
  then show ?case by (subst exception_loop.simps) (simp add: List.map_filter_def)
next
  case (Cons t ts)
  have "exception_loop img (length (pre @ enc_runtime t)) (length (pre @ enc_runtime t) + 12 * length ts) =
      List.map_filter (runtime_row img) ts"
    by (rule Cons.IH) (use Cons.prems in simp)
  moreover have "exception_row img (length pre) = runtime_row img t"
    by (rule exception_row_enc) (use Cons.prems in simp)
  ultimately show ?case
    by (subst exception_loop.simps) (simp add: List.map_filter_simps algebra_simps split: option.split)
qed

section \<open>The image and the bytes of the file\<close>

text \<open>
  The fields of a file, read off its bytes without the readers of the code: the position of the PE header,
  the offsets of the section headers and of the data directories, up to the first one that is cut off.
\<close>

definition le_at :: "bytes \<Rightarrow> nat \<Rightarrow> nat \<Rightarrow> nat" where
  "le_at bs off n = le_nat (take n (drop off bs))"

definition section_header_offsets :: "bytes \<Rightarrow> nat list" where
  "section_header_offsets bs =
     (let pe = le_at bs 0x3c 4
      in takeWhile (\<lambda>off. off + 40 \<le> length bs)
           (map (\<lambda>i. pe + 24 + le_at bs (pe + 20) 2 + i * 40) [0..<le_at bs (pe + 6) 2]))"

definition directory_offsets :: "bytes \<Rightarrow> nat list" where
  "directory_offsets bs =
     (let pe = le_at bs 0x3c 4
      in takeWhile (\<lambda>off. off + 8 \<le> length bs) (map (\<lambda>i. pe + 136 + i * 8) [0..<min (le_at bs (pe + 132) 4) 16]))"

definition holds32 :: "bytes \<Rightarrow> nat \<Rightarrow> u32 \<Rightarrow> bool" where
  "holds32 bs off v \<longleftrightarrow> off + 4 \<le> length bs \<and> take 4 (drop off bs) = enc_u32 v"

text \<open>The record is what stands in the header at the offset.\<close>

definition section_from :: "bytes \<Rightarrow> u64 \<Rightarrow> nat \<Rightarrow> SectionRecord \<Rightarrow> bool" where
  "section_from bs base off s \<longleftrightarrow>
     sec_name s = from_utf8_lossy (takeWhile (\<lambda>b. b \<noteq> 0) (take 8 (drop off bs))) \<and>
     holds32 bs (off + 8) (virtual_size s) \<and> holds32 bs (off + 12) (sec_rva s) \<and>
     holds32 bs (off + 16) (raw_size s) \<and> holds32 bs (off + 20) (raw_start s) \<and>
     sec_va s = base + ucast (sec_rva s) \<and>
     (\<exists>ch. holds32 bs (off + 36) ch \<and> executable s = bit ch 29 \<and> readable s = bit ch 30 \<and> writable s = bit ch 31)"

definition directory_from :: "bytes \<Rightarrow> nat \<Rightarrow> DataDirectory \<Rightarrow> bool" where
  "directory_from bs off d \<longleftrightarrow> holds32 bs off (dir_rva d) \<and> holds32 bs (off + 4) (dir_size d)"

definition header_from :: "bytes \<Rightarrow> PEImage \<Rightarrow> bool" where
  "header_from bs img \<longleftrightarrow>
     (let pe = le_at bs 0x3c 4
      in take 2 bs = [0x4D, 0x5A] \<and> take 4 (drop pe bs) = [0x50, 0x45, 0, 0] \<and>
         take 2 (drop (pe + 4) bs) = enc_u16 (machine img) \<and> take 8 (drop (pe + 48) bs) = enc_u64 (pe_base img) \<and>
         take 2 (drop (pe + 94) bs) = enc_u16 (dll_characteristics img) \<and>
         (\<exists>e. holds32 bs (pe + 40) e \<and> entry_va img = (if e = 0 then 0 else pe_base img + ucast e)) \<and>
         list_all2 (directory_from bs) (directory_offsets bs) (data_directories img))"

definition sections_from :: "bytes \<Rightarrow> PEImage \<Rightarrow> bool" where
  "sections_from bs img \<longleftrightarrow>
     (\<exists>hs. list_all2 (section_from bs (pe_base img)) (section_header_offsets bs) hs \<and>
        pe_sections img = sort_key sec_rva hs)"

text \<open>
  The section that covers an address, and the file offset of the address, in terms of the header fields:
  the address lies in the raw data.
\<close>

definition covering :: "PEImage \<Rightarrow> u32 \<Rightarrow> SectionRecord option" where
  "covering img rva =
     find (\<lambda>s. unat (sec_rva s) \<le> unat rva \<and> unat rva < 2 ^ 32 - 1 \<and>
        unat rva < unat (sec_rva s) + unat (max (virtual_size s) (raw_size s))) (pe_sections img)"

definition file_offset :: "PEImage \<Rightarrow> u32 \<Rightarrow> nat option" where
  "file_offset img rva =
     (case covering img rva of
        Some s \<Rightarrow> if unat rva - unat (sec_rva s) < unat (raw_size s)
                  then Some (unat (raw_start s) + (unat rva - unat (sec_rva s))) else None
      | None \<Rightarrow> None)"

text \<open>The exception table: directory 3, or else the section \<open>.pdata\<close>.\<close>

definition exception_table :: "PEImage \<Rightarrow> (nat \<times> nat) option" where
  "exception_table img =
     (let ds = data_directories img;
          found = (if 3 < length ds \<and> dir_rva (ds ! 3) \<noteq> 0 \<and> dir_size (ds ! 3) \<noteq> 0
                   then file_offset img (dir_rva (ds ! 3)) else None)
      in case found of
           Some off \<Rightarrow> Some (off, unat (dir_size (ds ! 3)))
         | None \<Rightarrow>
             (case find (\<lambda>s. eq_ignore_ascii_case (sec_name s) ''.pdata'') (pe_sections img) of
                Some s \<Rightarrow> Some (unat (raw_start s), data_size s)
              | None \<Rightarrow> None))"

text \<open>The record of an entry that starts in an executable section and is not empty.\<close>

definition entry_record :: "PEImage \<Rightarrow> nat \<Rightarrow> ExceptionRecord option" where
  "entry_record img off =
     (let at = (\<lambda>k. of_nat (le_at (pe_bytes img) (off + k) 4)); b = at 0; e = at 4; u = at 8
      in if 0 < b \<and> b < e \<and> (\<exists>s. covering img b = Some s \<and> executable s)
         then Some \<lparr>begin_rva = b, end_rva = e, unwind_rva = u, exc_begin = pe_base img + ucast b,
                    exc_end = pe_base img + ucast e, exc_unwind = pe_base img + ucast u\<rparr>
         else None)"

definition exceptions_from :: "PEImage \<Rightarrow> bool" where
  "exceptions_from img \<longleftrightarrow>
     pe_exceptions img =
       (case exception_table img of
          None \<Rightarrow> []
        | Some (start, sz) \<Rightarrow>
            sort_key exc_begin
              (List.map_filter (\<lambda>k. entry_record img (start + 12 * k))
                 [0..<(min (start + sz) (length (pe_bytes img)) - start) div 12]))"

lemma rd32_holds: "rd32 bs off = Ok v \<longleftrightarrow> holds32 bs off v"
  by (simp add: rd32_def read_u32_enc_iff holds32_def)

lemma enc_of_le_nat:
  "length s = 2 \<Longrightarrow> enc_u16 (of_nat (le_nat s)) = s" "length s = 8 \<Longrightarrow> enc_u64 (of_nat (le_nat s)) = s"
  using le_nat_less [of s] le_encode_nat [of s]
  by (auto simp: enc_u16_def enc_u64_def unsigned_of_nat take_bit_nat_eq_self)

lemma rd16_holds: "rd16 bs off = Ok v \<Longrightarrow> off + 2 \<le> length bs \<and> take 2 (drop off bs) = enc_u16 v"
  by (auto simp: rd16_def read_u16_def get_range_def enc_of_le_nat split: if_splits)

lemma rd64_holds: "rd64 bs off = Ok v \<Longrightarrow> off + 8 \<le> length bs \<and> take 8 (drop off bs) = enc_u64 v"
  by (auto simp: rd64_def read_u64_def get_range_def enc_of_le_nat split: if_splits)

lemma rd16_le_at: "rd16 bs off = Ok v \<Longrightarrow> le_at bs off 2 = unat v"
  using rd16_holds [of bs off v] by (simp add: le_at_def)

lemma rd32_le_at: "rd32 bs off = Ok v \<Longrightarrow> le_at bs off 4 = unat v"
  by (simp add: rd32_holds holds32_def le_at_def)

lemma parse_directories_from:
  "parse_directories bs db is = Ok ds \<Longrightarrow>
   list_all2 (directory_from bs) (takeWhile (\<lambda>off. off + 8 \<le> length bs) (map (\<lambda>i. db + i * 8) is)) ds"
  by (induction "is" arbitrary: ds) (auto simp: Let_def chain_Ok rd32_holds directory_from_def split: if_splits)

lemma parse_section_from: "parse_section bs base off = Ok s \<Longrightarrow> section_from bs base off s"
  by (auto simp: parse_section_def Let_def chain_Ok rd32_holds section_from_def split: if_splits)

lemma parse_sections_from:
  "parse_sections bs base sb is = Ok ss \<Longrightarrow>
   list_all2 (section_from bs base) (takeWhile (\<lambda>off. off + 40 \<le> length bs) (map (\<lambda>i. sb + i * 40) is)) ss"
  by (induction "is" arbitrary: ss) (auto simp: Let_def chain_Ok dest: parse_section_from split: if_splits)

text \<open>The lookups of the code agree with those of the specification.\<close>

lemma section_span_ok: "section_ok bs s \<Longrightarrow> section_span s = max (virtual_size s) (raw_size s) \<and>
    max (raw_size s) (of_nat (data_size s)) = raw_size s"
proof -
  assume ok: "section_ok bs s"
  have "data_size s \<le> unat (raw_size s)" using ok by (auto simp: section_ok_def)
  then have "of_nat (data_size s) \<le> raw_size s"
    using order_trans [OF take_bit_nat_less_eq_self] by (simp add: word_le_nat_alt unsigned_of_nat)
  moreover from this have "of_nat (data_size s) \<le> max (virtual_size s) (raw_size s)" by (rule max.coboundedI2)
  ultimately show ?thesis unfolding section_span_def by (simp add: max.absorb1)
qed

lemma covering_eq:
  assumes "\<forall>s\<in>set (pe_sections img). section_ok bs s"
  shows "section_for_rva img rva = covering img rva"
proof -
  have "(sec_rva s \<le> rva \<and> rva < sat_add32 (sec_rva s) (section_span s)) \<longleftrightarrow>
      (unat (sec_rva s) \<le> unat rva \<and> unat rva < 2 ^ 32 - 1 \<and>
       unat rva < unat (sec_rva s) + unat (max (virtual_size s) (raw_size s)))" if "s \<in> set (pe_sections img)" for s
    using section_span_ok [of bs s] assms that by (auto simp: word_le_nat_alt word_less_nat_alt sat_add32_unat)
  then show ?thesis
    unfolding section_for_rva_def covering_def by (intro find_cong) auto
qed

lemma file_offset_eq:
  assumes "\<forall>s\<in>set (pe_sections img). section_ok bs s"
  shows "rva_to_file_offset img rva = file_offset img rva"
proof (cases "covering img rva")
  case (Some s)
  have "s \<in> set (pe_sections img)" "unat (sec_rva s) \<le> unat rva"
    using Some by (auto simp: covering_def find_Some_iff)
  then have "unat (rva - sec_rva s) = unat rva - unat (sec_rva s)" "\<not> rva < sec_rva s"
    "max (raw_size s) (of_nat (data_size s)) = raw_size s"
    using section_span_ok assms by (auto simp: unat_sub word_le_nat_alt word_less_nat_alt)
  then show ?thesis
    using Some by (simp add: rva_to_file_offset_def covering_eq [OF assms] file_offset_def Let_def)
qed (simp add: rva_to_file_offset_def covering_eq [OF assms] file_offset_def)

lemma runtime_functions_eq:
  assumes "\<forall>s\<in>set (pe_sections img). section_ok bs s"
  shows "runtime_functions img = exception_table img"
  by (simp add: runtime_functions_def exception_table_def directory_def Let_def file_offset_eq [OF assms]
      split: option.split)

lemma exception_row_eq:
  assumes "\<forall>s\<in>set (pe_sections img). section_ok bs s" "off + 12 \<le> length (pe_bytes img)"
  shows "exception_row img off = entry_record img off"
  using assms(2)
  by (auto simp: exception_row_def entry_record_def Let_def covering_eq [OF assms(1)] read_u32_def get_range_def
      le_at_def word_gt_0 split: option.splits)

lemma map_filter_cong: "(\<And>x. x \<in> set xs \<Longrightarrow> f x = g x) \<Longrightarrow> List.map_filter f xs = List.map_filter g xs"
  by (induction xs) (simp_all add: List.map_filter_simps split: option.split)

lemma map_filter_map: "List.map_filter f (map g xs) = List.map_filter (\<lambda>x. f (g x)) xs"
  by (induction xs) (simp_all add: List.map_filter_simps split: option.split)

lemma exception_loop_eq:
  "exception_loop img offset stop = List.map_filter (\<lambda>k. exception_row img (offset + 12 * k)) [0..<(stop - offset) div 12]"
proof (induction img offset stop rule: exception_loop.induct)
  case (1 img offset stop)
  show ?case
  proof (cases "offset + 12 \<le> stop")
    case True
    then have "(stop - offset) div 12 = Suc ((stop - (offset + 12)) div 12)" by (simp add: div_if [of "stop - offset"])
    then have u: "[0..<(stop - offset) div 12] = 0 # map Suc [0..<(stop - (offset + 12)) div 12]"
      by (simp add: upt_conv_Cons map_Suc_upt)
    show ?thesis
      unfolding u using 1 [OF True] True
      by (subst exception_loop.simps) (simp add: List.map_filter_simps map_filter_map add.assoc split: option.split)
  next
    case False
    then show ?thesis by (subst exception_loop.simps) (simp add: List.map_filter_simps div_if)
  qed
qed

lemma parse_exceptions_from:
  assumes "\<forall>s\<in>set (pe_sections img). section_ok bs s"
  shows "parse_exceptions img =
    (case exception_table img of
       None \<Rightarrow> []
     | Some (start, sz) \<Rightarrow>
         sort_key exc_begin
           (List.map_filter (\<lambda>k. entry_record img (start + 12 * k))
              [0..<(min (start + sz) (length (pe_bytes img)) - start) div 12]))"
proof (cases "exception_table img")
  case (Some r)
  obtain start sz where r: "r = (start, sz)" by (cases r)
  let ?n = "(min (start + sz) (length (pe_bytes img)) - start) div 12"
  have "exception_row img (start + 12 * k) = entry_record img (start + 12 * k)" if "k < ?n" for k
  proof (rule exception_row_eq [OF assms])
    have "12 * Suc k \<le> 12 * ?n" using that by (intro mult_le_mono2) simp
    also have "\<dots> \<le> length (pe_bytes img) - start" by (rule order_trans [OF times_div_less_eq_dividend]) simp
    finally show "start + 12 * k + 12 \<le> length (pe_bytes img)" by simp
  qed
  then have "List.map_filter (\<lambda>k. exception_row img (start + 12 * k)) [0..<?n] =
      List.map_filter (\<lambda>k. entry_record img (start + 12 * k)) [0..<?n]"
    by (intro map_filter_cong) simp
  then show ?thesis
    using Some r by (simp add: parse_exceptions_def runtime_functions_eq [OF assms] exception_loop_eq)
qed (simp add: parse_exceptions_def runtime_functions_eq [OF assms])

lemma parse_optional_from:
  assumes "parse_optional bs mach n os opt = Ok img"
  shows "\<exists>entry base dllc count dirs secs.
    rd32 bs (opt + 16) = Ok entry \<and> rd64 bs (opt + 24) = Ok base \<and> rd16 bs (opt + 70) = Ok dllc \<and>
    rd32 bs (opt + 108) = Ok count \<and> parse_directories bs (opt + 112) [0..<min (unat count) 16] = Ok dirs \<and>
    parse_sections bs base (opt + os) [0..<n] = Ok secs \<and> parse_tail (mk_image bs base entry mach dllc dirs secs) = Ok img"
  using assms unfolding parse_optional_def by (auto simp: chain_Ok split: if_splits)

lemma pe_parse_header:
  assumes "pe_parse bs = Ok img"
  shows "\<exists>po mach n os. rd32 bs 0x3c = Ok po \<and> rd16 bs (unat po + 4) = Ok mach \<and> rd16 bs (unat po + 6) = Ok n \<and>
    rd16 bs (unat po + 20) = Ok os \<and> take 2 bs = [0x4D, 0x5A] \<and> take 4 (drop (unat po) bs) = [0x50, 0x45, 0, 0] \<and>
    parse_optional bs mach (unat n) (unat os) (unat po + 24) = Ok img"
  using assms unfolding pe_parse_def Let_def
  by (auto simp: chain_Ok add.commute add.left_commute split: if_splits)

lemma pe_parse_from:
  assumes "pe_parse bs = Ok img"
  shows "header_from bs img \<and> sections_from bs img \<and> exceptions_from img"
proof -
  have ok: "image_ok bs img" by (rule pe_parse_image_ok [OF assms])
  obtain po mach n os where h: "rd32 bs 0x3c = Ok po" "rd16 bs (unat po + 4) = Ok mach" "rd16 bs (unat po + 6) = Ok n"
    "rd16 bs (unat po + 20) = Ok os" "take 2 bs = [0x4D, 0x5A]" "take 4 (drop (unat po) bs) = [0x50, 0x45, 0, 0]"
    "parse_optional bs mach (unat n) (unat os) (unat po + 24) = Ok img"
    using pe_parse_header [OF assms] by blast
  obtain entry base dllc count dirs secs where o: "rd32 bs (unat po + 24 + 16) = Ok entry"
    "rd64 bs (unat po + 24 + 24) = Ok base" "rd16 bs (unat po + 24 + 70) = Ok dllc"
    "rd32 bs (unat po + 24 + 108) = Ok count"
    "parse_directories bs (unat po + 24 + 112) [0..<min (unat count) 16] = Ok dirs"
    "parse_sections bs base (unat po + 24 + unat os) [0..<unat n] = Ok secs"
    "parse_tail (mk_image bs base entry mach dllc dirs secs) = Ok img"
    using parse_optional_from [OF h(7)] by blast
  let ?m = "mk_image bs base entry mach dllc dirs secs"
  obtain ims exs where img: "img = ?m\<lparr>pe_imports := ims, pe_exports := exs, pe_exceptions := parse_exceptions ?m,
      function_seeds_cache := function_seeds ?m exs (parse_exceptions ?m), overlay_offset_cache := overlay_offset ?m\<rparr>"
    using parse_tail_image [OF o(7)] by blast
  have pe: "le_at bs 0x3c 4 = unat po" "le_at bs (unat po + 6) 2 = unat n" "le_at bs (unat po + 20) 2 = unat os"
    "le_at bs (unat po + 132) 4 = unat count"
    using rd32_le_at [OF h(1)] rd16_le_at [OF h(3)] rd16_le_at [OF h(4)] rd32_le_at [OF o(4)] by (simp_all add: add.commute)
  have "list_all2 (directory_from bs) (directory_offsets bs) dirs"
    using parse_directories_from [OF o(5)] by (simp add: directory_offsets_def pe Let_def add.commute add.left_commute)
  then have "header_from bs img"
    using h(5,6) rd16_holds [OF h(2)] rd64_holds [OF o(2)] rd16_holds [OF o(3)] o(1)
    unfolding header_from_def Let_def pe
    by (intro conjI exI [of _ entry]) (simp_all add: img mk_image_def rd32_holds add.commute)
  moreover have "sections_from bs img"
    using parse_sections_from [OF o(6)]
    by (auto simp: sections_from_def section_header_offsets_def pe Let_def img mk_image_def)
  moreover have "exceptions_from img"
  proof -
    have fields: "pe_sections img = pe_sections ?m" "data_directories img = data_directories ?m"
      "pe_bytes img = pe_bytes ?m" "pe_base img = pe_base ?m" by (simp_all add: img)
    have same: "exception_table ?m = exception_table img" "entry_record ?m = entry_record img"
      unfolding exception_table_def file_offset_def covering_def entry_record_def fields by (rule refl)+
    have "\<forall>s\<in>set (pe_sections ?m). section_ok bs s" using ok by (simp add: image_ok_def img)
    note from_table = parse_exceptions_from [OF this, unfolded same, folded fields(3)]
    have "pe_exceptions img = parse_exceptions ?m" by (simp add: img)
    then show ?thesis unfolding exceptions_from_def from_table .
  qed
  ultimately show ?thesis by blast
qed

text \<open>
  C6: every image the loader returns is the one its bytes describe. The header fields and the data
  directories stand at their offsets; the sections are exactly those of the section headers, up to the
  first one the end of the file cuts off, sorted by address, and their data lie in the file; the exception
  records are exactly the entries of the exception table (directory 3, or else the section \<open>.pdata\<close>)
  that are not empty and start in an executable section, sorted by start. The function seeds are sorted,
  distinct and contain the start of every exception record that is not zero, and an overlay lies behind
  the data of every section.
\<close>

theorem pe_parse_invariant:
  assumes "pe_parse bs = Ok img"
  shows "image_ok bs img \<and> header_from bs img \<and> sections_from bs img \<and> exceptions_from img"
  using pe_parse_image_ok [OF assms] pe_parse_from [OF assms] by blast

section \<open>Import slots\<close>

definition thunk_at :: "PEImage \<Rightarrow> nat \<Rightarrow> u64" where
  "thunk_at img off = unwrap_or 0 (read_u64 (pe_bytes img) off)"

lemma thunk_at_outside: "\<not> off + 8 \<le> length (pe_bytes img) \<Longrightarrow> thunk_at img off = 0"
proof -
  assume "\<not> off + 8 \<le> length (pe_bytes img)"
  then have r: "read_u64 (pe_bytes img) off = None" by simp
  show "thunk_at img off = 0" unfolding thunk_at_def r by simp
qed

lemma import_row_fields [simp]:
  "dll (import_row img d ft v i) = d"
  "import_va (import_row img d ft v i) = pe_base img + ucast ft + of_nat (i * 8)"
  "import_rva (import_row img d ft v i) = ucast ft + of_nat (i * 8)"
  by (simp_all add: import_row_def Let_def split: prod.split)

text \<open>
  One library: its rows are the nonzero thunks before the first zero, the end of the file or the
  bound; row \<open>k\<close> carries the address of slot \<open>k\<close> of the address table.
\<close>

lemma thunk_loop_slots:
  "(\<forall>k<length (thunk_loop img d ft n i off).
      thunk_loop img d ft n i off ! k = import_row img d ft (thunk_at img (off + 8 * k)) (i + k) \<and>
      thunk_at img (off + 8 * k) \<noteq> 0 \<and> off + 8 * k + 8 \<le> length (pe_bytes img)) \<and>
   length (thunk_loop img d ft n i off) \<le> n \<and>
   (length (thunk_loop img d ft n i off) = n \<or>
    thunk_at img (off + 8 * length (thunk_loop img d ft n i off)) = 0)"
proof (induction n arbitrary: i off)
  case (Suc n)
  let ?rest = "thunk_loop img d ft n (Suc i) (off + 8)"
  show ?case
  proof (cases "off + 8 \<le> length (pe_bytes img) \<and> thunk_at img off \<noteq> 0")
    case True
    then have eq: "thunk_loop img d ft (Suc n) i off = import_row img d ft (thunk_at img off) i # ?rest"
      by (simp add: thunk_at_def Let_def)
    show ?thesis
      unfolding eq using Suc [of "Suc i" "off + 8"] True
      by (auto simp: less_Suc_eq_0_disj nth_Cons' algebra_simps)
  next
    case False
    then have "thunk_loop img d ft (Suc n) i off = []" by (auto simp: thunk_at_def Let_def)
    moreover have "thunk_at img off = 0" using False thunk_at_outside by auto
    ultimately show ?thesis by simp
  qed
qed simp

section \<open>A concrete file\<close>

lemma read_skip:
  "length xs \<le> off \<Longrightarrow> read_u16 (xs @ ys) off = read_u16 ys (off - length xs)"
  "length xs \<le> off \<Longrightarrow> read_u32 (xs @ ys) off = read_u32 ys (off - length xs)"
  "length xs \<le> off \<Longrightarrow> read_u64 (xs @ ys) off = read_u64 ys (off - length xs)"
  by (auto simp: read_u16_def read_u32_def read_u64_def get_range_def)

lemma read_hit:
  "read_u16 (enc_u16 a @ ys) 0 = Some a" "read_u32 (enc_u32 b @ ys) 0 = Some b"
  "read_u64 (enc_u64 c @ ys) 0 = Some c"
  by (simp_all add: read_u16_def read_u32_def read_u64_def get_range_def)

definition dos_stub :: bytes where "dos_stub = [0x4D, 0x5A] @ replicate 58 0"
definition pe_signature :: bytes where "pe_signature = [0x50, 0x45, 0, 0]"
definition text_name :: bytes where "text_name = [0x2E, 0x74, 0x65, 0x78, 0x74, 0, 0, 0]"
definition zeros :: "nat \<Rightarrow> bytes" where "zeros n = replicate n 0"

text \<open>A file with one section whose raw data start at \<open>rs\<close> and hold one exception record.\<close>

definition sample_pe :: "u32 \<Rightarrow> bytes" where
  "sample_pe rs =
     dos_stub @ enc_u32 0x40 @
     pe_signature @ enc_u16 0x8664 @ enc_u16 1 @ zeros 12 @ enc_u16 144 @ enc_u16 0 @
     enc_u16 0x20b @ zeros 14 @ enc_u32 0x1000 @ zeros 4 @ enc_u64 0x140000000 @
     zeros 38 @ enc_u16 0x8160 @ zeros 36 @ enc_u32 4 @
     enc_u32 0 @ enc_u32 0 @ enc_u32 0 @ enc_u32 0 @ enc_u32 0 @ enc_u32 0 @ enc_u32 0x1000 @ enc_u32 12 @
     text_name @ enc_u32 16 @ enc_u32 0x1000 @ enc_u32 16 @ enc_u32 rs @
     zeros 12 @ enc_u32 0x60000020 @
     enc_u32 0x1004 @ enc_u32 0x100C @ enc_u32 0x1008 @ zeros 4"

lemma sample_lengths [simp]:
  "length dos_stub = 60" "length pe_signature = 4" "length text_name = 8" "length (zeros n) = n"
  by (simp_all add: dos_stub_def pe_signature_def text_name_def zeros_def)

lemma sample_length [simp]: "length (sample_pe rs) = 288" by (simp add: sample_pe_def)

lemmas sample_reads = sample_pe_def read_skip read_hit

lemma sample_offsets [simp]: "section_offsets (sample_pe rs) = [232]"
  by (simp add: section_offsets_def sample_reads)

lemma sample_raw [simp]: "raw_start_at (sample_pe rs) 232 = unat rs" "raw_size_at (sample_pe rs) 232 = 16"
  by (simp_all add: raw_start_at_def raw_size_at_def sample_reads)

lemma sample_header [simp]: "header_ok (sample_pe rs)"
  by (simp add: header_ok_def Let_def sample_reads) (simp add: dos_stub_def pe_signature_def)

definition sample_text :: SectionRecord where
  "sample_text = \<lparr>sec_name = ''.text'', sec_rva = 0x1000, sec_va = 0x140001000,
    virtual_size = 16, raw_start = 272, raw_size = 16, data_size = 16, executable = True, readable = True,
    writable = False, data_range = (272, 288)\<rparr>"

lemma sample_flags:
  "bit (0x60000020 :: u32) 29" "bit (0x60000020 :: u32) 30" "\<not> bit (0x60000020 :: u32) 31"
  by (simp_all add: bit_iff_odd_drop_bit)

lemma sample_section:
  "parse_section (sample_pe 272) 0x140000000 232 = Ok sample_text"
proof -
  have "take 8 (drop 232 (sample_pe 272)) = text_name" by (simp add: sample_pe_def)
  moreover have "from_utf8_lossy (takeWhile (\<lambda>b. b \<noteq> 0) text_name) = ''.text''"
    by (simp add: text_name_def from_utf8_lossy_ascii byte_char_def char_of_def bit_Suc_0_iff del: from_utf8_lossy.simps)
  ultimately show ?thesis
    by (simp add: parse_section_def rd32_def Let_def sample_reads sample_text_def sample_flags)
qed

definition sample_exception :: ExceptionRecord where
  "sample_exception = \<lparr>begin_rva = 0x1004, end_rva = 0x100C, unwind_rva = 0x1008,
     exc_begin = 0x140001004, exc_end = 0x14000100C, exc_unwind = 0x140001008\<rparr>"

definition sample_image :: PEImage where
  "sample_image = \<lparr>pe_bytes = sample_pe 272, pe_base = 0x140000000, entry_va = 0x140001000, machine = 0x8664,
     dll_characteristics = 0x8160,
     data_directories = [\<lparr>dir_rva = 0, dir_size = 0\<rparr>, \<lparr>dir_rva = 0, dir_size = 0\<rparr>, \<lparr>dir_rva = 0, dir_size = 0\<rparr>,
       \<lparr>dir_rva = 0x1000, dir_size = 12\<rparr>],
     pe_sections = [sample_text], pe_imports = [], pe_exports = [], pe_exceptions = [],
     function_seeds_cache = [], overlay_offset_cache = None\<rparr>"

lemma sample_image_simps [simp]:
  "pe_bytes sample_image = sample_pe 272" "pe_base sample_image = 0x140000000"
  "pe_sections sample_image = [sample_text]" "entry_va sample_image = 0x140001000"
  by (simp_all add: sample_image_def)

lemma sample_text_simps [simp]:
  "sec_rva sample_text = 0x1000" "raw_start sample_text = 272" "raw_size sample_text = 16"
  "data_size sample_text = 16" "executable sample_text" "virtual_size sample_text = 16"
  "sec_name sample_text = ''.text''" "sec_va sample_text = 0x140001000"
  by (simp_all add: sample_text_def)

lemma sample_lookup [simp]:
  "section_for_rva sample_image 0x1000 = Some sample_text" "section_for_rva sample_image 0x1004 = Some sample_text"
  by (simp_all add: section_for_rva_def section_span_def sat_add32_def)

lemma sample_exceptions: "parse_exceptions sample_image = [sample_exception]"
proof -
  have "directory sample_image 3 = Some \<lparr>dir_rva = 0x1000, dir_size = 12\<rparr>"
    by (simp add: directory_def Let_def sample_image_def)
  then have r: "runtime_functions sample_image = Some (272, 12)"
    by (simp add: runtime_functions_def rva_to_file_offset_def)
  have "exception_row sample_image 272 = Some sample_exception"
    unfolding exception_row_def by (simp add: sample_reads sample_exception_def)
  then show ?thesis
    unfolding parse_exceptions_def r by (simp add: exception_loop.simps [of _ 272] exception_loop.simps [of _ 284])
qed

lemma sample_directories:
  "directory sample_image 0 = None" "directory sample_image (Suc 0) = None"
  by (simp_all add: directory_def Let_def sample_image_def)

definition sample_loaded :: PEImage where
  "sample_loaded = sample_image\<lparr>pe_imports := [], pe_exports := [], pe_exceptions := [sample_exception],
     function_seeds_cache := [0x140001000, 0x140001004], overlay_offset_cache := None\<rparr>"

lemma sample_tail: "parse_tail sample_image = Ok sample_loaded"
  by (simp add: parse_tail_def parse_imports_def parse_exports_def sample_directories Let_def sample_exceptions
      sample_loaded_def function_seeds_def overlay_offset_def sample_exception_def)

lemma sample_fields:
  "read_u32 (sample_pe rs) 60 = Some 0x40" "read_u16 (sample_pe rs) 68 = Some 0x8664"
  "read_u16 (sample_pe rs) 70 = Some 1" "read_u16 (sample_pe rs) 84 = Some 144"
  "read_u16 (sample_pe rs) 88 = Some 0x20b" "read_u32 (sample_pe rs) 104 = Some 0x1000"
  "read_u64 (sample_pe rs) 112 = Some 0x140000000" "read_u16 (sample_pe rs) 158 = Some 0x8160"
  "read_u32 (sample_pe rs) 196 = Some 4"
  by (simp_all add: sample_reads)

lemma sample_parse: "pe_parse (sample_pe 272) = Ok sample_loaded"
proof -
  have mk: "mk_image (sample_pe 272) 0x140000000 0x1000 0x8664 0x8160 (data_directories sample_image) [sample_text] = sample_image"
    by (simp add: mk_image_def sample_image_def)
  have dirs: "parse_directories (sample_pe 272) 200 [0..<4] = Ok (data_directories sample_image)"
    by (simp add: upt_rec rd32_def Let_def sample_image_def sample_reads numeral_eq_Suc)
  have secs: "parse_sections (sample_pe 272) 0x140000000 232 [0..<1] = Ok [sample_text]"
    by (simp add: upt_rec sample_section Let_def)
  have "parse_optional (sample_pe 272) 0x8664 1 144 88 = Ok sample_loaded"
    using dirs secs sample_tail mk by (simp add: parse_optional_def rd16_def rd32_def rd64_def sample_fields)
  then show ?thesis
    using sample_header [of 272] by (simp add: pe_parse_def header_ok_def Let_def rd32_def rd16_def sample_fields)
qed

lemma sample_loaded_simps [simp]:
  "pe_bytes sample_loaded = sample_pe 272" "pe_base sample_loaded = 0x140000000"
  "pe_sections sample_loaded = [sample_text]"
  by (simp_all add: sample_loaded_def)

lemma sample_va: "section_for_va sample_loaded va =
    (if va < 0x140000000 then None
     else if 0x1000 \<le> (ucast (va - 0x140000000) :: u32) \<and> (ucast (va - 0x140000000) :: u32) < 0x1010
     then Some sample_text else None)"
  by (simp add: section_for_va_def section_for_rva_def section_span_def sat_add32_def)

lemma sample_image_ok: "image_ok (sample_pe 272) sample_loaded"
  by (rule pe_parse_image_ok [OF sample_parse])

text \<open>
  The sample has its raw data at offset 272, inside the file; with them at offset 1000 the loader
  panics.
\<close>

theorem pe_parse_no_panic_witness:
  "section_offsets (sample_pe 272) = [232] \<and> pe_parse (sample_pe 272) \<noteq> Err SlicePanic"
  using pe_parse_no_panic [of "sample_pe 272"] by simp

theorem pe_parse_panics_witness: "pe_parse (sample_pe 1000) = Err SlicePanic"
  using pe_parse_panics [of "sample_pe 1000" 232] by simp

theorem pe_parse_invariant_witness:
  "image_ok (sample_pe 272) sample_loaded \<and> header_from (sample_pe 272) sample_loaded \<and>
     sections_from (sample_pe 272) sample_loaded \<and> exceptions_from sample_loaded \<and>
     pe_exceptions sample_loaded = [sample_exception] \<and> pe_sections sample_loaded = [sample_text]"
  using pe_parse_invariant [OF sample_parse] by (simp add: sample_loaded_def)

theorem exception_table_round_trip_witness:
  "exception_loop (sample_image\<lparr>pe_bytes := enc_runtime (0x1004, 0x100C, 0x1008) @ enc_runtime (0x2000, 0x1000, 0)\<rparr>) 0 24 =
     [sample_exception]"
  using exception_table_round_trip [of "sample_image\<lparr>pe_bytes := enc_runtime (0x1004, 0x100C, 0x1008) @ enc_runtime (0x2000, 0x1000, 0)\<rparr>"
      "[]" "[(0x1004, 0x100C, 0x1008), (0x2000, 0x1000, 0)]" "[]"]
  by (simp add: runtime_row_def sample_image_def sample_exception_def List.map_filter_simps section_for_rva_def
      section_span_def sat_add32_def)

end
