(* ===== verification/Disasm_Ranges.thy ===== *)
theory Disasm_Ranges
  imports Pe_Props Btree_Map "HOL-Library.Product_Lexorder"
begin

text \<open>
  \<open>disassembly_ranges\<close> of \<open>src/pe.rs\<close>: the address ranges the disassembler sweeps. With exception
  rows the ranges are the rows and, in every executable section, the gaps between them, of which
  at most the first \<open>0x20000\<close> bytes are kept.
\<close>

record DisasmRange =
  section_rva :: u32
  dr_start :: u64
  dr_end :: u64

definition section_stop :: "SectionRecord \<Rightarrow> u64" where
  "section_stop s = sec_va s + of_nat (data_size s)"

definition orphan_cap :: u64 where
  "orphan_cap = 0x20000"

text \<open>The range of one exception row, and the row in the map of covered ranges.\<close>

definition exception_range :: "PEImage \<Rightarrow> ExceptionRecord \<Rightarrow> DisasmRange option" where
  "exception_range img e =
     (case section_for_va img (exc_begin e) of
        None \<Rightarrow> None
      | Some s \<Rightarrow>
          if \<not> executable s then None
          else let start = max (exc_begin e) (sec_va s);
                   stop = min (exc_end e) (section_stop s)
               in if stop > start
                  then Some \<lparr>section_rva = sec_rva s, dr_start = start, dr_end = stop\<rparr> else None)"

definition push_covered :: "DisasmRange \<Rightarrow> (u32, (u64 \<times> u64) list) btree \<Rightarrow> (u32, (u64 \<times> u64) list) btree" where
  "push_covered r m =
     bt_insert (section_rva r) (unwrap_or [] (bt_get m (section_rva r)) @ [(dr_start r, dr_end r)]) m"

fun gap_loop :: "u32 \<Rightarrow> u64 \<Rightarrow> (u64 \<times> u64) list \<Rightarrow> DisasmRange list \<times> u64" where
  "gap_loop rva cursor [] = ([], cursor)"
| "gap_loop rva cursor ((start, stop) # items) =
     (let (rs, c) = gap_loop rva (max cursor stop) items
      in ((if start > cursor
           then [\<lparr>section_rva = rva, dr_start = cursor, dr_end = min start (cursor + orphan_cap)\<rparr>] else []) @ rs, c))"

definition section_gaps :: "(u32, (u64 \<times> u64) list) btree \<Rightarrow> SectionRecord \<Rightarrow> DisasmRange list" where
  "section_gaps covered s =
     (let (rs, cursor) = gap_loop (sec_rva s) (sec_va s) (sort (unwrap_or [] (bt_get covered (sec_rva s))))
      in rs @ (if cursor < section_stop s
               then [\<lparr>section_rva = sec_rva s, dr_start = cursor,
                      dr_end = min (section_stop s) (cursor + orphan_cap)\<rparr>] else []))"

definition disassembly_ranges :: "PEImage \<Rightarrow> ExceptionRecord list \<Rightarrow> DisasmRange list" where
  "disassembly_ranges img exceptions =
     (let exe = filter executable (pe_sections img)
      in if exceptions = []
         then map (\<lambda>s. \<lparr>section_rva = sec_rva s, dr_start = sec_va s, dr_end = section_stop s\<rparr>) exe
         else let rows = List.map_filter (exception_range img) exceptions;
                  covered = fold push_covered rows [];
                  ranges = rows @ concat (map (section_gaps covered) exe)
              in sort_key (\<lambda>r. (section_rva r, dr_start r, dr_end r)) ranges)"

section \<open>The covered map\<close>

lemma covered_items:
  "bt_ok m \<Longrightarrow> bt_ok (fold push_covered rows m) \<and>
   unwrap_or [] (bt_get (fold push_covered rows m) k) =
     unwrap_or [] (bt_get m k) @ map (\<lambda>r. (dr_start r, dr_end r)) (filter (\<lambda>r. section_rva r = k) rows)"
  by (induction rows arbitrary: m) (auto simp: push_covered_def bt_get_insert)

section \<open>Gaps\<close>

lemma gap_loop_cursor: "gap_loop rva c items = (rs, c') \<Longrightarrow> c \<le> c' \<and> (c' = c \<or> c' \<in> snd ` set items)"
proof (induction rva c items arbitrary: rs c' rule: gap_loop.induct)
  case (2 rva c s e items)
  obtain rs' where g: "gap_loop rva (max c e) items = (rs', c')"
    using 2(2) by (auto simp: Let_def split: prod.splits)
  have "max c e \<le> c'" "c' = max c e \<or> c' \<in> snd ` set items" using 2(1) [OF g] by simp_all
  then show ?case by (cases "c \<le> e") (auto simp: max_def)
qed simp

lemma plus_cap: "unat (x :: u64) + 0x20000 < 2 ^ 64 \<Longrightarrow> x < x + orphan_cap \<and> unat (x + orphan_cap) = unat x + 0x20000"
proof -
  assume "unat (x :: u64) + 0x20000 < 2 ^ 64"
  then have "unat (x + orphan_cap) = unat x + 0x20000" by (simp add: orphan_cap_def unat_word_ariths)
  then show ?thesis by (simp add: word_less_nat_alt)
qed

text \<open>Every gap starts at or after the first cursor, is not empty and ends where an item starts or earlier.\<close>

lemma gap_loop_valid:
  assumes "gap_loop rva c items = (rs, c')" "r \<in> set rs"
    and "\<And>s e. (s, e) \<in> set items \<Longrightarrow> unat s + 0x20000 < 2 ^ 64"
  shows "section_rva r = rva \<and> c \<le> dr_start r \<and> dr_start r < dr_end r \<and> (\<exists>s\<in>fst ` set items. dr_end r \<le> s)"
  using assms
proof (induction rva c items arbitrary: rs c' rule: gap_loop.induct)
  case (2 rva c s e items)
  obtain rs' where g: "gap_loop rva (max c e) items = (rs', c')"
    using 2(2) by (auto simp: Let_def split: prod.splits)
  show ?case
  proof (cases "r \<in> set rs'")
    case True
    then have "section_rva r = rva \<and> max c e \<le> dr_start r \<and> dr_start r < dr_end r \<and> (\<exists>s\<in>fst ` set items. dr_end r \<le> s)"
      using 2(1) [OF g] 2(4) by auto
    then show ?thesis by auto
  next
    case False
    then have r: "c < s" "r = \<lparr>section_rva = rva, dr_start = c, dr_end = min s (c + orphan_cap)\<rparr>"
      using 2(2,3) g by (auto simp: Let_def split: if_splits)
    moreover have "unat c + 0x20000 < 2 ^ 64" using 2(4) [of s e] r(1) by (simp add: word_less_nat_alt)
    ultimately show ?thesis using plus_cap [of c] by auto
  qed
qed simp

lemma gap_loop_rva: "gap_loop rva c items = (rs, c') \<Longrightarrow> r \<in> set rs \<Longrightarrow> section_rva r = rva"
proof (induction rva c items arbitrary: rs c' rule: gap_loop.induct)
  case (2 rva c s e items)
  obtain rs' where g: "gap_loop rva (max c e) items = (rs', c')"
    using 2(2) by (auto simp: Let_def split: prod.splits)
  show ?case using 2(1) [OF g] 2(2,3) g by (auto simp: Let_def split: if_splits)
qed simp

lemma gap_loop_from: "gap_loop rva c items = (rs, c') \<Longrightarrow> r \<in> set rs \<Longrightarrow> c \<le> dr_start r"
proof (induction rva c items arbitrary: rs c' rule: gap_loop.induct)
  case (2 rva c s e items)
  obtain rs' where g: "gap_loop rva (max c e) items = (rs', c')"
    using 2(2) by (auto simp: Let_def split: prod.splits)
  show ?case using 2(1) [OF g] 2(2,3) g by (auto simp: Let_def split: if_splits)
qed simp

lemma gap_loop_ends: "gap_loop rva c items = (rs, c') \<Longrightarrow> (s, e) \<in> set items \<Longrightarrow> e \<le> c'"
proof (induction rva c items arbitrary: rs c' rule: gap_loop.induct)
  case (2 rva c s' e' items)
  obtain rs' where g: "gap_loop rva (max c e') items = (rs', c')"
    using 2(2) by (auto simp: Let_def split: prod.splits)
  then have "max c e' \<le> c'" using gap_loop_cursor by blast
  then show ?case using 2(1) [OF g] 2(3) by auto
qed simp

definition in_range :: "u64 \<Rightarrow> DisasmRange \<Rightarrow> bool" where
  "in_range a r \<longleftrightarrow> dr_start r \<le> a \<and> a < dr_end r"

text \<open>
  The address lies in a gap between the items of which the range keeps the first \<open>0x20000\<close> bytes: the range
  starts where the gap does, at the first cursor or the end of an item, and no item reaches into the stretch
  from there to the address.
\<close>

definition cut_gap :: "u64 \<Rightarrow> (u64 \<times> u64) set \<Rightarrow> u64 \<Rightarrow> DisasmRange \<Rightarrow> bool" where
  "cut_gap c items a r \<longleftrightarrow>
     dr_end r = dr_start r + orphan_cap \<and> dr_start r \<le> a \<and> dr_end r \<le> a \<and>
     (dr_start r = c \<or> dr_start r \<in> snd ` items) \<and> (\<forall>(s, e)\<in>items. e \<le> dr_start r \<or> a < s)"

lemma gap_loop_covers:
  assumes "gap_loop rva c items = (rs, c')" "sorted (map fst items)" "c \<le> a" "a < c'"
  shows "(\<exists>(s, e)\<in>set items. s \<le> a \<and> a < e) \<or> (\<exists>r\<in>set rs. in_range a r \<or> cut_gap c (set items) a r)"
  using assms
proof (induction rva c items arbitrary: rs c' rule: gap_loop.induct)
  case (2 rva c s e items)
  obtain rs' where g: "gap_loop rva (max c e) items = (rs', c')"
    using 2(2) by (auto simp: Let_def split: prod.splits)
  let ?r = "\<lparr>section_rva = rva, dr_start = c, dr_end = min s (c + orphan_cap)\<rparr>"
  have rs: "rs = (if s > c then [?r] else []) @ rs'"
    using 2(2) g by (auto simp: Let_def)
  consider "a < s" | "s \<le> a" "a < e" | "max c e \<le> a" using 2(4) by (cases "a < s"; cases "a < e") auto
  then show ?case
  proof cases
    case 1
    then have "c < s" using 2(4) by simp
    moreover have "a < s'" if "(s', e') \<in> set items" for s' e' using 1 2(3) that by force
    ultimately have "in_range a ?r \<or> cut_gap c (set ((s, e) # items)) a ?r"
      using 1 2(4) by (auto simp: in_range_def cut_gap_def min_def not_less)
    then show ?thesis using \<open>c < s\<close> rs by auto
  next
    case 3
    have "cut_gap c (set ((s, e) # items)) a r" if "cut_gap (max c e) (set items) a r" "max c e \<le> dr_start r" for r
      using that by (auto simp: cut_gap_def max_def split: if_splits)
    moreover have "max c e \<le> dr_start r" if "cut_gap (max c e) (set items) a r" "r \<in> set rs'" for r
      using gap_loop_from [OF g that(2)] .
    ultimately show ?thesis using 2(1) [OF g _ 3 2(5)] 2(3) unfolding rs by fastforce
  qed auto
qed simp

section \<open>The ranges\<close>

text \<open>No section ends within the orphan cap of the top of the address space.\<close>

definition image_fits :: "PEImage \<Rightarrow> bool" where
  "image_fits img \<longleftrightarrow> (\<forall>s\<in>set (pe_sections img). unat (sec_va s) + data_size s + 0x20000 < 2 ^ 64)"

definition range_ok :: "PEImage \<Rightarrow> DisasmRange \<Rightarrow> bool" where
  "range_ok img r \<longleftrightarrow>
     (\<exists>s\<in>set (pe_sections img). executable s \<and> sec_rva s = section_rva r \<and> sec_va s \<le> dr_start r \<and>
        dr_start r \<le> dr_end r \<and> dr_end r \<le> section_stop s)"

lemma section_stop_unat:
  assumes "image_fits img" "s \<in> set (pe_sections img)"
  shows "unat (section_stop s) = unat (sec_va s) + data_size s" "unat (section_stop s) + 0x20000 < 2 ^ 64"
    "sec_va s \<le> section_stop s"
proof -
  have f: "unat (sec_va s) + data_size s + 0x20000 < 2 ^ 64" using assms by (simp add: image_fits_def)
  then have "unat (of_nat (data_size s) :: u64) = data_size s" by (intro unat_of_nat_less) simp
  then show u: "unat (section_stop s) = unat (sec_va s) + data_size s"
    using f by (simp add: section_stop_def unat_word_ariths)
  then show "unat (section_stop s) + 0x20000 < 2 ^ 64" "sec_va s \<le> section_stop s"
    using f by (simp_all add: word_le_nat_alt)
qed

lemma exception_range_ok:
  assumes "exception_range img e = Some r"
  shows "dr_start r < dr_end r \<and> (\<exists>s\<in>set (pe_sections img). executable s \<and> sec_rva s = section_rva r \<and>
    sec_va s \<le> dr_start r \<and> dr_end r \<le> section_stop s)"
  using assms section_for_va_rva section_for_rva_span(1)
  by (fastforce simp: exception_range_def Let_def split: option.splits if_splits)

lemma range_okI:
  assumes "s \<in> set (pe_sections img)" "executable s" "sec_rva s = section_rva r" "sec_va s \<le> dr_start r"
    "dr_start r \<le> dr_end r" "dr_end r \<le> section_stop s"
  shows "range_ok img r"
  using assms unfolding range_ok_def by blast

lemma map_filter_mem: "y \<in> set (List.map_filter f xs) \<longleftrightarrow> (\<exists>x\<in>set xs. f x = Some y)"
  by (force simp: List.map_filter_def)

lemma section_gaps_ok:
  assumes img: "image_ok bs img" "image_fits img" and s: "s \<in> set (pe_sections img)" "executable s"
    and rows: "\<And>r. r \<in> set rows \<Longrightarrow> \<exists>e. exception_range img e = Some r"
    and r: "r \<in> set (section_gaps (fold push_covered rows []) s)"
  shows "range_ok img r"
proof -
  let ?items = "sort (unwrap_or [] (bt_get (fold push_covered rows []) (sec_rva s)))"
  obtain rs c where g: "gap_loop (sec_rva s) (sec_va s) ?items = (rs, c)" by fastforce
  have items: "\<exists>s'\<in>set (pe_sections img). executable s' \<and> sec_rva s' = sec_rva s \<and> sec_va s' = sec_va s \<and>
      sec_va s \<le> x \<and> x < y \<and> y \<le> section_stop s'" if xy: "(x, y) \<in> set ?items" for x y
  proof -
    obtain q where q: "q \<in> set rows" "section_rva q = sec_rva s" "x = dr_start q" "y = dr_end q"
      using xy covered_items [of "[]" rows "sec_rva s"] by auto
    obtain s' where "s' \<in> set (pe_sections img)" "executable s'" "sec_rva s' = sec_rva s"
      "sec_va s' \<le> x" "x < y" "y \<le> section_stop s'"
      using rows [OF q(1)] exception_range_ok q by metis
    moreover have "sec_va s' = sec_va s" using img(1) s(1) calculation(1,3) by (auto simp: image_ok_def)
    ultimately show ?thesis by metis
  qed
  have fits: "unat x + 0x20000 < 2 ^ 64" if xy: "(x, y) \<in> set ?items" for x y
  proof -
    obtain s' where "s' \<in> set (pe_sections img)" "x < y" "y \<le> section_stop s'" using items [OF xy] by blast
    then show ?thesis using section_stop_unat(2) [OF img(2)] by (force simp: word_less_nat_alt word_le_nat_alt)
  qed
  show ?thesis
  proof (cases "r \<in> set rs")
    case True
    then have v: "section_rva r = sec_rva s" "sec_va s \<le> dr_start r" "dr_start r < dr_end r"
      "\<exists>x\<in>fst ` set ?items. dr_end r \<le> x"
      using gap_loop_valid [OF g True fits] by auto
    then obtain x y where xy: "(x, y) \<in> set ?items" "dr_end r \<le> x" by fastforce
    obtain s' where s': "s' \<in> set (pe_sections img)" "executable s'" "sec_rva s' = sec_rva s" "sec_va s' = sec_va s"
      "x < y" "y \<le> section_stop s'" using items [OF xy(1)] by blast
    then have "dr_end r \<le> section_stop s'" using xy(2) by simp
    then show ?thesis using v(1-3) s' by (intro range_okI [of s']) simp_all
  next
    case False
    then have rr: "c < section_stop s" "r = \<lparr>section_rva = sec_rva s, dr_start = c, dr_end = min (section_stop s) (c + orphan_cap)\<rparr>"
      using r g by (auto simp: section_gaps_def split: if_splits)
    have "sec_va s \<le> c" using gap_loop_cursor [OF g] by simp
    moreover have "c < c + orphan_cap"
      using plus_cap [of c] section_stop_unat(2) [OF img(2) s(1)] rr(1) by (simp add: word_less_nat_alt)
    ultimately show ?thesis using rr s by (intro range_okI [of s]) auto
  qed
qed

lemma sorted_map_fst: "sorted xs \<Longrightarrow> sorted (map fst xs)" for xs :: "(u64 \<times> u64) list"
  by (induction xs) (auto simp: less_eq_prod_def)

lemma sorted_map_fst_key: "sorted (map (\<lambda>r. (section_rva r, f r)) rs) \<Longrightarrow> sorted (map section_rva rs)"
  by (induction rs) (auto simp: less_eq_prod_def)

text \<open>
  The ranges are ordered by section, and each lies inside the data of an executable section.
\<close>

theorem disassembly_ranges_valid:
  assumes "image_ok bs img" "image_fits img"
  shows "sorted (map section_rva (disassembly_ranges img exceptions)) \<and>
    (\<forall>r\<in>set (disassembly_ranges img exceptions). range_ok img r)"
proof (cases "exceptions = []")
  case True
  let ?f = "\<lambda>s. \<lparr>section_rva = sec_rva s, dr_start = sec_va s, dr_end = section_stop s\<rparr>"
  have "range_ok img (?f s)" if "s \<in> set (pe_sections img)" "executable s" for s
    using that section_stop_unat(3) [OF assms(2) that(1)] by (intro range_okI [of s]) simp_all
  moreover have "sorted (map section_rva (map ?f (filter executable (pe_sections img))))"
    using assms(1) by (simp add: image_ok_def o_def sorted_filter)
  ultimately show ?thesis using True by (auto simp: disassembly_ranges_def Let_def)
next
  case False
  let ?rows = "List.map_filter (exception_range img) exceptions"
  have "range_ok img r" if r: "r \<in> set ?rows" for r
  proof -
    obtain e where "exception_range img e = Some r" using r by (auto simp: map_filter_mem)
    then obtain s where "dr_start r < dr_end r" "s\<in>set (pe_sections img)" "executable s" "sec_rva s = section_rva r"
      "sec_va s \<le> dr_start r" "dr_end r \<le> section_stop s"
      using exception_range_ok by blast
    then show ?thesis by (intro range_okI [of s]) simp_all
  qed
  moreover have "range_ok img r" if "s \<in> set (pe_sections img)" "executable s"
    "r \<in> set (section_gaps (fold push_covered ?rows []) s)" for s r
    using section_gaps_ok [OF assms that(1,2) _ that(3)] by (auto simp: map_filter_mem)
  ultimately have "\<forall>r\<in>set (disassembly_ranges img exceptions). range_ok img r"
    using False by (auto simp: disassembly_ranges_def Let_def)
  moreover have "sorted (map section_rva (disassembly_ranges img exceptions))"
    by (rule sorted_map_fst_key [of "\<lambda>r. (dr_start r, dr_end r)"]) (simp add: disassembly_ranges_def False Let_def)
  ultimately show ?thesis by blast
qed

text \<open>The exception rows of a section as address ranges.\<close>

definition section_rows :: "PEImage \<Rightarrow> ExceptionRecord list \<Rightarrow> SectionRecord \<Rightarrow> (u64 \<times> u64) set" where
  "section_rows img exceptions s =
     {(dr_start q, dr_end q) | q e. e \<in> set exceptions \<and> exception_range img e = Some q \<and> section_rva q = sec_rva s}"

text \<open>
  C17: every address of an executable section is in one of its ranges, or it lies in a gap between the
  section's exception rows of which a range keeps the first \<open>0x20000\<close> bytes: that range starts at the start
  of the section or at the end of a row, ends \<open>0x20000\<close> bytes further and not behind the address, and no row
  of the section reaches into the stretch from the start of the range to the address.
\<close>

theorem disassembly_ranges_cover:
  assumes "s \<in> set (pe_sections img)" "executable s" "sec_va s \<le> a" "a < section_stop s"
  shows "\<exists>r\<in>set (disassembly_ranges img exceptions). section_rva r = sec_rva s \<and>
    (in_range a r \<or> cut_gap (sec_va s) (section_rows img exceptions s) a r)"
proof (cases "exceptions = []")
  case True
  then show ?thesis using assms by (auto simp: disassembly_ranges_def in_range_def)
next
  case False
  let ?rows = "List.map_filter (exception_range img) exceptions"
  let ?items = "sort (unwrap_or [] (bt_get (fold push_covered ?rows []) (sec_rva s)))"
  have items: "set ?items = section_rows img exceptions s"
    using covered_items [of "[]" ?rows "sec_rva s"] by (auto simp: section_rows_def map_filter_mem)
  have "sorted ?items" by simp
  then have sorted: "sorted (map fst ?items)" by (rule sorted_map_fst)
  obtain rs c where g: "gap_loop (sec_rva s) (sec_va s) ?items = (rs, c)" by fastforce
  have gaps: "set (section_gaps (fold push_covered ?rows []) s) \<subseteq> set (disassembly_ranges img exceptions)"
    using assms(1,2) False by (auto simp: disassembly_ranges_def Let_def)
  have rows: "set ?rows \<subseteq> set (disassembly_ranges img exceptions)"
    using False by (auto simp: disassembly_ranges_def Let_def)
  show ?thesis
  proof (cases "a < c")
    case True
    consider x y where "(x, y) \<in> set ?items" "x \<le> a" "a < y"
      | r where "r \<in> set rs" "in_range a r \<or> cut_gap (sec_va s) (set ?items) a r"
      using gap_loop_covers [OF g sorted assms(3) True] by blast
    then show ?thesis
    proof cases
      case 1
      then obtain q where "q \<in> set ?rows" "section_rva q = sec_rva s" "x = dr_start q" "y = dr_end q"
        using covered_items [of "[]" ?rows "sec_rva s"] by auto
      then show ?thesis using 1 rows by (auto simp: in_range_def)
    next
      case 2
      have "r \<in> set (section_gaps (fold push_covered ?rows []) s)" using 2(1) g by (simp add: section_gaps_def)
      moreover have "section_rva r = sec_rva s" using gap_loop_rva [OF g 2(1)] .
      ultimately show ?thesis using 2(2) gaps unfolding items by blast
    qed
  next
    case False
    let ?r = "\<lparr>section_rva = sec_rva s, dr_start = c, dr_end = min (section_stop s) (c + orphan_cap)\<rparr>"
    have "c < section_stop s" using False assms(4) by (meson not_less order.strict_trans1)
    then have "?r \<in> set (section_gaps (fold push_covered ?rows []) s)"
      using g by (simp add: section_gaps_def)
    moreover have "c = sec_va s \<or> c \<in> snd ` set ?items" using gap_loop_cursor [OF g] by blast
    then have "in_range a ?r \<or> cut_gap (sec_va s) (set ?items) a ?r"
      using False assms(4) gap_loop_ends [OF g]
      by (auto simp: in_range_def cut_gap_def min_def not_less)
    ultimately show ?thesis using gaps unfolding items by (intro bexI [of _ ?r]) auto
  qed
qed

text \<open>The sample image: the gap before its exception row, the row and the rest of the section.\<close>

definition sample_ranges :: "DisasmRange list" where
  "sample_ranges =
     [\<lparr>section_rva = 0x1000, dr_start = 0x140001000, dr_end = 0x140001004\<rparr>,
      \<lparr>section_rva = 0x1000, dr_start = 0x140001004, dr_end = 0x14000100C\<rparr>,
      \<lparr>section_rva = 0x1000, dr_start = 0x14000100C, dr_end = 0x140001010\<rparr>]"

lemma sample_fits: "image_fits sample_loaded"
  by (simp add: image_fits_def)

lemma sample_disassembly: "disassembly_ranges sample_loaded [sample_exception] = sample_ranges"
proof -
  have "exception_range sample_loaded sample_exception =
      Some \<lparr>section_rva = 0x1000, dr_start = 0x140001004, dr_end = 0x14000100C\<rparr>"
    by (simp add: exception_range_def sample_va sample_exception_def section_stop_def Let_def)
  then show ?thesis
    by (simp add: disassembly_ranges_def List.map_filter_simps push_covered_def section_gaps_def section_stop_def
        orphan_cap_def sample_ranges_def bt_get_def)
qed

theorem disassembly_ranges_valid_witness:
  "disassembly_ranges sample_loaded [sample_exception] = sample_ranges \<and>
   sorted (map section_rva sample_ranges) \<and> range_ok sample_loaded (sample_ranges ! 0)"
proof -
  have "sample_ranges ! 0 \<in> set sample_ranges" by (simp add: sample_ranges_def)
  then show ?thesis
    using disassembly_ranges_valid [OF sample_image_ok sample_fits, of "[sample_exception]"]
    by (simp add: sample_disassembly)
qed

theorem disassembly_ranges_cover_witness:
  "\<exists>r\<in>set sample_ranges. section_rva r = 0x1000 \<and>
     (in_range 0x140001002 r \<or> cut_gap 0x140001000 (section_rows sample_loaded [sample_exception] sample_text) 0x140001002 r)"
  using disassembly_ranges_cover [of sample_text sample_loaded "0x140001002" "[sample_exception]"]
  by (simp add: sample_disassembly section_stop_def)

end
