(* ===== verification/Facts.thy ===== *)
theory Facts
  imports Byte_Reader
begin

text \<open>
  \<open>src/facts\<close>: where a claim comes from, how sure it is and the addresses that justify it, and
  the legacy text form of evidence. Scores are thousandths, in which every literal score of
  the code and every midpoint of two of them is exact; rounding of \<open>f32\<close> is not modelled. The
  claims of this development carry no value (\<open>Claim<()>\<close>).
\<close>

datatype ConfidenceBand = High | Medium | Low | UnknownBand

datatype ClaimSource =
    Pdb | Dwarf | ObjectSymbol | Rtti | ExceptionHandling | CtorDtorPattern | FieldAccessInference
  | SwitchReconstruction | JumpTableHeuristic | Naming | LlmHeuristic

datatype EvidenceRef =
    Instruction u64
  | Range u64 u64
  | Section string u64
  | DebugRecord string string
  | Artifact string string
  | RawAddr u64
  | TraceEvent string

record Confidence =
  band :: ConfidenceBand
  score :: nat

record Claim =
  claim_source :: ClaimSource
  confidence :: Confidence
  evidence_refs :: "EvidenceRef list"

section \<open>Confidence\<close>

definition midpoint :: "ConfidenceBand \<Rightarrow> nat" where
  "midpoint b = (case b of High \<Rightarrow> 920 | Medium \<Rightarrow> 700 | Low \<Rightarrow> 450 | UnknownBand \<Rightarrow> 300)"

definition band_as_str :: "ConfidenceBand \<Rightarrow> string" where
  "band_as_str b = (case b of High \<Rightarrow> ''high'' | Medium \<Rightarrow> ''medium'' | Low \<Rightarrow> ''low'' | UnknownBand \<Rightarrow> ''unknown'')"

definition band_from_score :: "nat \<Rightarrow> ConfidenceBand" where
  "band_from_score s =
     (if s \<ge> 850 then High else if s \<ge> 600 then Medium else if s \<ge> 350 then Low else UnknownBand)"

definition confidence_from_score :: "nat \<Rightarrow> Confidence" where
  "confidence_from_score s = (let clamped = min s 1000 in \<lparr>band = band_from_score clamped, score = clamped\<rparr>)"

definition confidence_from_band :: "ConfidenceBand \<Rightarrow> Confidence" where
  "confidence_from_band b = \<lparr>band = b, score = midpoint b\<rparr>"

definition default_confidence_band :: "ClaimSource \<Rightarrow> nat \<times> nat" where
  "default_confidence_band s =
     (case s of
        Pdb \<Rightarrow> (980, 1000)
      | Dwarf \<Rightarrow> (980, 1000)
      | ObjectSymbol \<Rightarrow> (850, 950)
      | Rtti \<Rightarrow> (850, 970)
      | ExceptionHandling \<Rightarrow> (750, 950)
      | CtorDtorPattern \<Rightarrow> (650, 900)
      | FieldAccessInference \<Rightarrow> (450, 850)
      | SwitchReconstruction \<Rightarrow> (650, 950)
      | JumpTableHeuristic \<Rightarrow> (400, 700)
      | Naming \<Rightarrow> (200, 550)
      | LlmHeuristic \<Rightarrow> (200, 550))"

definition coerce_provider :: "string \<Rightarrow> ClaimSource" where
  "coerce_provider provider =
     (let p = to_ascii_lowercase provider
      in if p = ''pdb'' then Pdb
         else if p = ''dwarf'' then Dwarf
         else if p = ''object'' \<or> p = ''object_symbol'' then ObjectSymbol
         else if p = ''rtti'' then Rtti
         else if p = ''eh'' \<or> p = ''exception_handling'' then ExceptionHandling
         else Naming)"

section \<open>Claims\<close>

definition claim_new :: "ClaimSource \<Rightarrow> Claim" where
  "claim_new s =
     (let (a, b) = default_confidence_band s
      in \<lparr>claim_source = s, confidence = confidence_from_score ((a + b) div 2), evidence_refs = []\<rparr>)"

definition claim_with_score :: "nat \<Rightarrow> Claim \<Rightarrow> Claim" where
  "claim_with_score s c = c\<lparr>confidence := confidence_from_score s\<rparr>"

definition claim_with_evidence :: "EvidenceRef list \<Rightarrow> Claim \<Rightarrow> Claim" where
  "claim_with_evidence ev c = c\<lparr>evidence_refs := evidence_refs c @ ev\<rparr>"

section \<open>Evidence as text\<close>

definition legacy_va :: "EvidenceRef \<Rightarrow> u64 option" where
  "legacy_va r =
     (case r of
        Instruction va \<Rightarrow> Some va
      | RawAddr va \<Rightarrow> Some va
      | Section name va \<Rightarrow> Some va
      | Range a b \<Rightarrow> Some a
      | _ \<Rightarrow> None)"

definition to_legacy_string :: "EvidenceRef \<Rightarrow> string option" where
  "to_legacy_string r = map_option (\<lambda>va. ''rva_or_va:'' @ hex016 va) (legacy_va r)"

definition to_legacy_strings :: "EvidenceRef list \<Rightarrow> string list" where
  "to_legacy_strings rs = List.map_filter to_legacy_string rs"

text \<open>The evidence of \<open>From<&SymbolGraphRecord>\<close>.\<close>

definition parse_legacy :: "string \<Rightarrow> EvidenceRef option" where
  "parse_legacy s =
     Option.bind (strip_prefix ''rva_or_va:'' s) (\<lambda>hex. map_option RawAddr (parse_u64_radix 16 hex))"

definition legacy_evidence :: "string list \<Rightarrow> EvidenceRef list" where
  "legacy_evidence ss = List.map_filter parse_legacy ss"

section \<open>Hexadecimal round trip\<close>

lemma digit_val_hex:
  "d < 16 \<Longrightarrow> digit_val 16 (upper_char (char_of (if d < 10 then 48 + d else 87 + d))) = Some d"
  by (cases "d < 10") (auto simp: digit_val_def upper_char_def of_char_char_of_small Let_def)

lemma parse_upper_hex: "parse_digits 16 (map upper_char (show_radix 16 n)) 0 = Some n"
proof (induction "16::nat" n rule: show_radix.induct)
  case (1 n)
  show ?case
  proof (cases "n < 16")
    case True
    then show ?thesis by (subst show_radix.simps) (simp add: digit_val_hex)
  next
    case False
    with 1 have IH: "parse_digits 16 (map upper_char (show_radix 16 (n div 16))) 0 = Some (n div 16)" by simp
    have "show_radix 16 n = show_radix 16 (n div 16) @ [char_of (if n mod 16 < 10 then 48 + n mod 16 else 87 + n mod 16)]"
      using False by (subst show_radix.simps) simp
    then show ?thesis using digit_val_hex [of "n mod 16"] by (simp add: parse_digits_append IH)
  qed
qed

lemma parse_zeros: "parse_digits 16 (replicate k (CHR ''0'') @ s) 0 = parse_digits 16 s 0"
proof (induction k)
  case (Suc k)
  have "digit_val 16 (CHR ''0'') = Some 0" by code_simp
  then show ?case using Suc by simp
qed simp

lemma show_radix_nonempty: "show_radix r n \<noteq> []"
  by (subst show_radix.simps) simp

lemma upper_hex_not_plus:
  "c \<in> set (map upper_char (show_radix 16 n)) \<Longrightarrow> c \<noteq> CHR ''+''"
proof (induction "16::nat" n rule: show_radix.induct)
  case (1 n)
  have d: "upper_char (char_of (if d < 10 then 48 + d else 87 + d)) \<noteq> CHR ''+''" if "d < 16" for d :: nat
  proof
    assume e: "upper_char (char_of (if d < 10 then 48 + d else 87 + d)) = CHR ''+''"
    have "digit_val 16 (CHR ''+'') = None" by code_simp
    then show False using digit_val_hex [OF that] e by simp
  qed
  show ?case
    using 1 d [of n] d [of "n mod 16"] by (subst (asm) (2) show_radix.simps) (auto split: if_splits)
qed

lemma parse_hex016: "parse_u64_radix 16 (hex016 v) = Some v"
proof -
  let ?s = "hex016 v"
  have p: "parse_digits 16 ?s 0 = Some (unat v)"
    by (simp add: hex016_def pad0_def parse_zeros parse_upper_hex)
  have ne: "?s \<noteq> []" by (simp add: hex016_def pad0_def show_radix_nonempty)
  have np: "hd ?s \<noteq> CHR ''+''"
    using ne upper_hex_not_plus [of _ "unat v"] hd_in_set [OF ne] by (auto simp: hex016_def pad0_def)
  have "int (unat v) < 2 ^ 64" using unsigned_less [of v, where ?'a = int] by simp
  moreover obtain c cs where "?s = c # cs" using ne by (cases ?s) auto
  ultimately have "parse_unsigned 64 16 ?s = Some (unat v)"
    using p np by (simp add: parse_unsigned_def)
  then show ?thesis by (simp add: parse_u64_radix_def)
qed

text \<open>
  Evidence written in the legacy form is read back as the addresses it carried; evidence without an
  address is dropped.
\<close>

theorem legacy_evidence_round_trip:
  "legacy_evidence (to_legacy_strings rs) = map RawAddr (List.map_filter legacy_va rs)"
proof -
  have "parse_legacy (''rva_or_va:'' @ hex016 va) = Some (RawAddr va)" for va
    by (simp add: parse_legacy_def parse_hex016 del: append_Cons append.simps)
  then show ?thesis
    by (induction rs)
      (auto simp: legacy_evidence_def to_legacy_strings_def to_legacy_string_def List.map_filter_simps
        split: option.split simp del: append_Cons append.simps)
qed

end
