(* ===== verification/Eh_Pe.thy ===== *)
theory Eh_Pe
  imports Pe_Image Btree_Map Facts
begin

text \<open>
  \<open>src/eh\<close>: exception-handling facts of a PE image. \<open>pe_unwind.rs\<close> decodes the unwind block of
  an exception row and names its personality routine; \<open>pe_seh.rs\<close>, \<open>pe_fh3.rs\<close> and
  \<open>pe_fh4.rs\<close> read the language-specific data of the three kinds of handlers;
  \<open>catch_resolver.rs\<close> finds type names; \<open>extract_eh\<close> of \<open>mod.rs\<close> walks all rows. The Itanium
  walker (\<open>itanium.rs\<close>), built on the crate \<open>gimli\<close>, is a parameter.
\<close>

section \<open>Facts\<close>

datatype EhAbi = MsvcFH3 | MsvcFH4 | MsSEH | MsGSHandlerEH | ItaniumCxx | ItaniumCleanup | UnknownAbi

record UnwindRange =
  uw_begin :: u64
  uw_end :: u64

record TryRegion =
  try_begin_va :: u64
  try_end_va :: u64
  try_state_low :: "int option"
  try_state_high :: "int option"
  call_site_index :: "u32 option"
  catch_handler_indices :: "nat list"

datatype CatchKind = Typed "string option" u64 | Ellipsis | Cleanup | Filter

record CatchHandler =
  handler_va :: u64
  catch_kind :: CatchKind
  adjectives :: u32
  frame_offset :: "int option"
  continuation_va :: "u64 option"

record CleanupAction =
  region_begin_va :: u64
  region_end_va :: u64
  landing_pad_va :: "u64 option"
  unwind_handler_va :: "u64 option"
  state_from :: "int option"
  state_to :: "int option"

record EhFunctionFact =
  function_va :: u64
  function_end_va :: u64
  eh_abi :: EhAbi
  personality_name :: "string option"
  personality_va :: "u64 option"
  unwind_ranges :: "UnwindRange list"
  try_regions :: "TryRegion list"
  catch_handlers :: "CatchHandler list"
  cleanup_actions :: "CleanupAction list"
  eh_claim :: Claim

section \<open>Unwind information\<close>

record UnwindInfo =
  uw_version :: u8
  uw_flags :: u8
  prolog_size :: u8
  code_count :: u8
  frame_register :: u8
  unwind_codes_bytes :: nat
  handler_rva :: "u32 option"
  language_specific_data_offset :: "nat option"

definition handler_flags :: "u8 \<Rightarrow> bool" where
  "handler_flags fl \<longleftrightarrow> bit fl 0 \<or> bit fl 1"

definition has_exception_handler :: "UnwindInfo \<Rightarrow> bool" where
  "has_exception_handler u \<longleftrightarrow> handler_flags (uw_flags u)"

definition is_chained :: "UnwindInfo \<Rightarrow> bool" where
  "is_chained u \<longleftrightarrow> bit (uw_flags u) 2"

definition parse_unwind_info :: "PEImage \<Rightarrow> ExceptionRecord \<Rightarrow> UnwindInfo option" where
  "parse_unwind_info img exc =
     (case rva_to_file_offset img (unwind_rva exc) of
        None \<Rightarrow> None
      | Some file_offset \<Rightarrow>
          let bs = pe_bytes img
          in if file_offset + 4 > length bs then None
             else let b = drop file_offset bs;
                      version_flags = b ! 0;
                      fl = take_bit 5 (drop_bit 3 version_flags);
                      count = b ! 2;
                      codes_bytes = (unat count * 2 + 3) div 4 * 4;
                      after_codes = 4 + codes_bytes;
                      info = \<lparr>uw_version = take_bit 3 version_flags, uw_flags = fl, prolog_size = b ! 1,
                              code_count = count, frame_register = b ! 3, unwind_codes_bytes = codes_bytes,
                              handler_rva = None, language_specific_data_offset = None\<rparr>
                  in if handler_flags fl
                     then (if file_offset + after_codes + 4 > length bs then None
                           else (case read_u32 bs (file_offset + after_codes) of
                                   None \<Rightarrow> None
                                 | Some rva \<Rightarrow>
                                     Some (info\<lparr>handler_rva := Some rva,
                                       language_specific_data_offset := Some (file_offset + after_codes + 4)\<rparr>)))
                     else Some info)"

datatype PersonalityKind =
    CxxFrameHandler3 | CxxFrameHandler4 | CSpecificHandler | GSHandlerCheckEH | GxxPersonalityV0 | UnknownPersonality

record Personality =
  p_kind :: PersonalityKind
  p_name :: "string option"
  p_va :: "u64 option"

definition personality_kind :: "string option \<Rightarrow> PersonalityKind" where
  "personality_kind name =
     (case name of
        None \<Rightarrow> UnknownPersonality
      | Some n \<Rightarrow>
          if n = ''__CxxFrameHandler3'' then CxxFrameHandler3
          else if n = ''__CxxFrameHandler4'' then CxxFrameHandler4
          else if n = ''__C_specific_handler'' then CSpecificHandler
          else if n = ''__GSHandlerCheck_EH'' \<or> n = ''__GSHandlerCheck_SEH'' then GSHandlerCheckEH
          else if n = ''__gxx_personality_v0'' \<or> n = ''__gxx_personality_v15'' then GxxPersonalityV0
          else UnknownPersonality)"

definition resolve_personality :: "UnwindInfo \<Rightarrow> ImportRecord list \<Rightarrow> Personality" where
  "resolve_personality u imps =
     (case handler_rva u of
        None \<Rightarrow> \<lparr>p_kind = UnknownPersonality, p_name = None, p_va = None\<rparr>
      | Some rva \<Rightarrow>
          let name = map_option import_name (find (\<lambda>i. import_rva i = ucast rva) imps)
          in \<lparr>p_kind = personality_kind name, p_name = name, p_va = Some (ucast rva)\<rparr>)"

text \<open>The fields every fact of an exception row shares.\<close>

definition mk_fact ::
  "ExceptionRecord \<Rightarrow> Personality \<Rightarrow> EhAbi \<Rightarrow> TryRegion list \<Rightarrow> CatchHandler list \<Rightarrow> CleanupAction list \<Rightarrow>
   nat \<Rightarrow> EvidenceRef list \<Rightarrow> EhFunctionFact" where
  "mk_fact exc p abi trs chs cas sc ev =
     \<lparr>function_va = exc_begin exc, function_end_va = exc_end exc, eh_abi = abi, personality_name = p_name p,
      personality_va = p_va p, unwind_ranges = [\<lparr>uw_begin = exc_begin exc, uw_end = exc_end exc\<rparr>],
      try_regions = trs, catch_handlers = chs, cleanup_actions = cas,
      eh_claim = claim_with_evidence ev (claim_with_score sc (claim_new ExceptionHandling))\<rparr>"

definition pdata_evidence :: "ExceptionRecord \<Rightarrow> EvidenceRef" where
  "pdata_evidence exc = Section ''.pdata'' (exc_begin exc)"

section \<open>Structured exception handling\<close>

record ScopeTableEntry =
  sc_begin_rva :: u32
  sc_end_rva :: u32
  sc_handler_rva :: u32
  sc_jump_target_rva :: u32

definition is_finally :: "ScopeTableEntry \<Rightarrow> bool" where
  "is_finally e \<longleftrightarrow> sc_handler_rva e = 1"

definition read_scope :: "bytes \<Rightarrow> nat \<Rightarrow> ScopeTableEntry option" where
  "read_scope bs base =
     Option.bind (read_u32 bs base) (\<lambda>b.
     Option.bind (read_u32 bs (base + 4)) (\<lambda>e.
     Option.bind (read_u32 bs (base + 8)) (\<lambda>h.
     Option.bind (read_u32 bs (base + 12)) (\<lambda>j.
       Some \<lparr>sc_begin_rva = b, sc_end_rva = e, sc_handler_rva = h, sc_jump_target_rva = j\<rparr>))))"

text \<open>A table of \<open>n\<close> entries of \<open>w\<close> bytes, as the three parsers read theirs.\<close>

fun read_table :: "(nat \<Rightarrow> 'a option) \<Rightarrow> nat \<Rightarrow> nat \<Rightarrow> nat \<Rightarrow> 'a list option" where
  "read_table rd w 0 base = Some []"
| "read_table rd w (Suc n) base =
     (case rd base of
        None \<Rightarrow> None
      | Some x \<Rightarrow> map_option (\<lambda>xs. x # xs) (read_table rd w n (base + w)))"

definition seh_step ::
  "u64 \<Rightarrow> ScopeTableEntry \<Rightarrow> TryRegion list \<times> CatchHandler list \<times> CleanupAction list \<Rightarrow>
   TryRegion list \<times> CatchHandler list \<times> CleanupAction list" where
  "seh_step base e acc =
     (case acc of (trs, chs, cas) \<Rightarrow>
        let b = base + ucast (sc_begin_rva e);
            x = base + ucast (sc_end_rva e);
            target = base + ucast (sc_jump_target_rva e)
        in if is_finally e
           then (trs, chs, cas @ [\<lparr>region_begin_va = b, region_end_va = x, landing_pad_va = Some target,
                   unwind_handler_va = None, state_from = None, state_to = None\<rparr>])
           else (trs @ [\<lparr>try_begin_va = b, try_end_va = x, try_state_low = None, try_state_high = None,
                   call_site_index = None, catch_handler_indices = [length chs]\<rparr>],
                 chs @ [\<lparr>handler_va = base + ucast (sc_handler_rva e), catch_kind = Filter, adjectives = 0,
                   frame_offset = None, continuation_va = Some target\<rparr>], cas))"

definition seh_entries :: "bytes \<Rightarrow> nat \<Rightarrow> ScopeTableEntry list option" where
  "seh_entries bs scope_offset =
     (if scope_offset + 4 > length bs then None
      else case read_u32 bs scope_offset of
             None \<Rightarrow> None
           | Some n \<Rightarrow>
               let count = unat n
               in if count > 4096 then None
                  else let table_start = scope_offset + 4
                       in if table_start + count * 16 > length bs then None
                          else read_table (read_scope bs) 16 count table_start)"

definition parse_seh ::
  "PEImage \<Rightarrow> ExceptionRecord \<Rightarrow> UnwindInfo \<Rightarrow> Personality \<Rightarrow> bool \<Rightarrow> EhFunctionFact option" where
  "parse_seh img exc u p has_gs_cookie =
     (case language_specific_data_offset u of
        None \<Rightarrow> None
      | Some lang_offset \<Rightarrow>
          let scope_offset = (if has_gs_cookie then lang_offset + 4 else lang_offset)
          in (case seh_entries (pe_bytes img) scope_offset of
                None \<Rightarrow> None
              | Some entries \<Rightarrow>
                  let (trs, chs, cas) = fold (seh_step (pe_base img)) entries ([], [], [])
                  in Some (mk_fact exc p (if has_gs_cookie then MsGSHandlerEH else MsSEH) trs chs cas 850
                       [pdata_evidence exc, RawAddr (pe_base img + of_nat scope_offset)])))"

section \<open>C++ frame handler 3\<close>

record FuncInfo =
  fi_magic :: u32
  max_state :: int
  unwind_map_rva :: u32
  try_blocks_count :: u32
  try_block_map_rva :: u32
  ip_map_count :: u32
  ip_to_state_map_rva :: u32

record TryBlockMapEntry =
  try_low :: int
  try_high :: int
  catch_high :: int
  handlers_count :: u32
  handler_array_rva :: u32

record HandlerTypeEntry =
  ht_adjectives :: u32
  type_descriptor_rva :: u32
  catch_object_offset :: int
  ht_handler_rva :: u32
  ht_frame_offset :: int

definition parse_func_info :: "PEImage \<Rightarrow> u32 \<Rightarrow> FuncInfo option" where
  "parse_func_info img rva =
     (case rva_to_file_offset img rva of
        None \<Rightarrow> None
      | Some off \<Rightarrow>
          let bs = pe_bytes img
          in if off + 28 > length bs then None
             else Option.bind (read_u32 bs off) (\<lambda>m.
                  Option.bind (read_u32 bs (off + 4)) (\<lambda>ms.
                  Option.bind (read_u32 bs (off + 8)) (\<lambda>um.
                  Option.bind (read_u32 bs (off + 12)) (\<lambda>tc.
                  Option.bind (read_u32 bs (off + 16)) (\<lambda>tm.
                  Option.bind (read_u32 bs (off + 20)) (\<lambda>ic.
                  Option.bind (read_u32 bs (off + 24)) (\<lambda>im.
                    Some \<lparr>fi_magic = m, max_state = sint ms, unwind_map_rva = um, try_blocks_count = tc,
                      try_block_map_rva = tm, ip_map_count = ic, ip_to_state_map_rva = im\<rparr>))))))))"

definition read_try_block :: "bytes \<Rightarrow> nat \<Rightarrow> TryBlockMapEntry option" where
  "read_try_block bs base =
     Option.bind (read_u32 bs base) (\<lambda>l.
     Option.bind (read_u32 bs (base + 4)) (\<lambda>h.
     Option.bind (read_u32 bs (base + 8)) (\<lambda>c.
     Option.bind (read_u32 bs (base + 12)) (\<lambda>n.
     Option.bind (read_u32 bs (base + 16)) (\<lambda>a.
       Some \<lparr>try_low = sint l, try_high = sint h, catch_high = sint c, handlers_count = n, handler_array_rva = a\<rparr>)))))"

definition parse_try_block_map :: "PEImage \<Rightarrow> FuncInfo \<Rightarrow> TryBlockMapEntry list option" where
  "parse_try_block_map img info =
     (if try_blocks_count info = 0 \<or> try_block_map_rva info = 0 then Some []
      else case rva_to_file_offset img (try_block_map_rva info) of
             None \<Rightarrow> None
           | Some off \<Rightarrow>
               let n = unat (try_blocks_count info)
               in if off + n * 20 > length (pe_bytes img) then None
                  else read_table (read_try_block (pe_bytes img)) 20 n off)"

definition read_handler :: "bytes \<Rightarrow> nat \<Rightarrow> HandlerTypeEntry option" where
  "read_handler bs base =
     Option.bind (read_u32 bs base) (\<lambda>a.
     Option.bind (read_u32 bs (base + 4)) (\<lambda>t.
     Option.bind (read_u32 bs (base + 8)) (\<lambda>c.
     Option.bind (read_u32 bs (base + 12)) (\<lambda>h.
     Option.bind (read_u32 bs (base + 16)) (\<lambda>f.
       Some \<lparr>ht_adjectives = a, type_descriptor_rva = t, catch_object_offset = sint c, ht_handler_rva = h,
         ht_frame_offset = sint f\<rparr>)))))"

definition parse_handler_array :: "PEImage \<Rightarrow> TryBlockMapEntry \<Rightarrow> HandlerTypeEntry list option" where
  "parse_handler_array img tb =
     (if handlers_count tb = 0 \<or> handler_array_rva tb = 0 then Some []
      else case rva_to_file_offset img (handler_array_rva tb) of
             None \<Rightarrow> None
           | Some off \<Rightarrow>
               let n = unat (handlers_count tb)
               in if off + n * 20 > length (pe_bytes img) then None
                  else read_table (read_handler (pe_bytes img)) 20 n off)"

record RttiRecord =
  rtti_va :: u64
  rtti_rva :: u64
  rtti_text :: string
  rtti_section :: "string option"

definition from_rtti :: "RttiRecord list \<Rightarrow> (u64, RttiRecord) btree" where
  "from_rtti rtti = fold (\<lambda>r. bt_insert (rtti_va r) r) rtti []"

definition resolver_lookup :: "(u64, RttiRecord) btree \<Rightarrow> u64 \<Rightarrow> string option" where
  "resolver_lookup resolver va = map_option rtti_text (bt_get resolver va)"

definition catch_of :: "PEImage \<Rightarrow> (u64, RttiRecord) btree \<Rightarrow> HandlerTypeEntry \<Rightarrow> CatchHandler" where
  "catch_of img resolver h =
     (let td = pe_base img + ucast (type_descriptor_rva h)
      in \<lparr>handler_va = pe_base img + ucast (ht_handler_rva h),
          catch_kind = (if type_descriptor_rva h = 0 then Ellipsis else Typed (resolver_lookup resolver td) td),
          adjectives = ht_adjectives h, frame_offset = Some (ht_frame_offset h), continuation_va = None\<rparr>)"

definition fh3_step ::
  "PEImage \<Rightarrow> ExceptionRecord \<Rightarrow> (u64, RttiRecord) btree \<Rightarrow> TryBlockMapEntry \<Rightarrow>
   TryRegion list \<times> CatchHandler list \<Rightarrow> TryRegion list \<times> CatchHandler list" where
  "fh3_step img exc resolver tb acc =
     (case acc of (trs, chs) \<Rightarrow>
        (trs @ [\<lparr>try_begin_va = exc_begin exc, try_end_va = exc_end exc, try_state_low = Some (try_low tb),
           try_state_high = Some (try_high tb), call_site_index = None,
           catch_handler_indices = [0..<unat (handlers_count tb)]\<rparr>],
         chs @ map (catch_of img resolver) (unwrap_or [] (parse_handler_array img tb))))"

definition fh3_magic :: "u32 \<Rightarrow> bool" where
  "fh3_magic m \<longleftrightarrow> m = 0x19930520 \<or> m = 0x19930521 \<or> m = 0x19930522"

definition parse_fh3 ::
  "PEImage \<Rightarrow> ExceptionRecord \<Rightarrow> UnwindInfo \<Rightarrow> Personality \<Rightarrow> (u64, RttiRecord) btree \<Rightarrow> EhFunctionFact option" where
  "parse_fh3 img exc u p resolver =
     (case language_specific_data_offset u of
        None \<Rightarrow> None
      | Some lang_offset \<Rightarrow>
          if lang_offset + 4 > length (pe_bytes img) then None
          else Option.bind (read_u32 (pe_bytes img) lang_offset) (\<lambda>func_info_rva.
               Option.bind (parse_func_info img func_info_rva) (\<lambda>func_info.
                 if \<not> fh3_magic (fi_magic func_info) then None
                 else let try_blocks = unwrap_or [] (parse_try_block_map img func_info);
                          (trs, chs) = fold (fh3_step img exc resolver) try_blocks ([], [])
                      in Some (mk_fact exc p MsvcFH3 trs chs [] 950
                           ([pdata_evidence exc, RawAddr (pe_base img + ucast func_info_rva)] @
                            map (\<lambda>h. Instruction (handler_va h)) chs)))))"

section \<open>C++ frame handler 4\<close>

record FuncInfo4Header =
  is_catch_funclet :: bool
  has_unwind_map :: bool
  has_try_block_map :: bool
  has_es_types :: bool
  bbt_flags :: u8

definition fh4_header :: "u8 \<Rightarrow> FuncInfo4Header" where
  "fh4_header b =
     \<lparr>is_catch_funclet = bit b 0, has_unwind_map = bit b 1, has_try_block_map = bit b 2, has_es_types = bit b 3,
      bbt_flags = take_bit 2 (drop_bit 4 b)\<rparr>"

definition is_plausible :: "FuncInfo4Header \<Rightarrow> bool" where
  "is_plausible h \<longleftrightarrow> has_unwind_map h \<or> has_try_block_map h \<or> is_catch_funclet h"

definition degraded_fact :: "ExceptionRecord \<Rightarrow> Personality \<Rightarrow> EhFunctionFact" where
  "degraded_fact exc p = mk_fact exc p UnknownAbi [] [] [] 400 [pdata_evidence exc]"

definition parse_fh4 :: "PEImage \<Rightarrow> ExceptionRecord \<Rightarrow> UnwindInfo \<Rightarrow> Personality \<Rightarrow> EhFunctionFact option" where
  "parse_fh4 img exc u p =
     (case language_specific_data_offset u of
        None \<Rightarrow> None
      | Some lang_offset \<Rightarrow>
          let bs = pe_bytes img
          in if lang_offset \<ge> length bs then None
             else if lang_offset + 4 > length bs then None
             else Option.bind (read_u32 bs lang_offset) (\<lambda>func_info_rva.
                  Option.bind (rva_to_file_offset img func_info_rva) (\<lambda>func_info_off.
                    if func_info_off \<ge> length bs then None
                    else let b = bs ! func_info_off;
                             header = fh4_header b
                         in if bit b 6 \<or> bit b 7 \<or> \<not> is_plausible header then Some (degraded_fact exc p)
                            else Some (mk_fact exc p MsvcFH4 [] [] [] 700
                                   [pdata_evidence exc, RawAddr (pe_base img + ucast func_info_rva)]))))"

section \<open>All rows\<close>

definition unknown_fact :: "ExceptionRecord \<Rightarrow> Personality \<Rightarrow> EhFunctionFact" where
  "unknown_fact exc p = mk_fact exc p UnknownAbi [] [] [] 400 [pdata_evidence exc]"

definition eh_of_row ::
  "PEImage \<Rightarrow> ImportRecord list \<Rightarrow> (u64, RttiRecord) btree \<Rightarrow> ExceptionRecord \<Rightarrow> EhFunctionFact option" where
  "eh_of_row img imps resolver exc =
     (case parse_unwind_info img exc of
        None \<Rightarrow> None
      | Some u \<Rightarrow>
          if \<not> has_exception_handler u then None
          else let p = resolve_personality u imps
               in (case p_kind p of
                     CxxFrameHandler3 \<Rightarrow> parse_fh3 img exc u p resolver
                   | CxxFrameHandler4 \<Rightarrow> parse_fh4 img exc u p
                   | CSpecificHandler \<Rightarrow> parse_seh img exc u p False
                   | GSHandlerCheckEH \<Rightarrow> parse_seh img exc u p True
                   | GxxPersonalityV0 \<Rightarrow> Some (unknown_fact exc p)
                   | UnknownPersonality \<Rightarrow> Some (unknown_fact exc p)))"

text \<open>An image of any format: the PE image, or another one, for which \<open>as_pe\<close> is \<open>None\<close>.\<close>

definition extract_eh ::
  "(unit \<Rightarrow> EhFunctionFact list) \<Rightarrow> PEImage option \<Rightarrow> ExceptionRecord list \<Rightarrow> ImportRecord list \<Rightarrow>
   RttiRecord list \<Rightarrow> EhFunctionFact list" where
  "extract_eh extract_itanium as_pe exceptions imps rtti =
     (if exceptions = [] then []
      else case as_pe of
             None \<Rightarrow> extract_itanium ()
           | Some img \<Rightarrow> List.map_filter (eh_of_row img imps (from_rtti rtti)) exceptions)"

text \<open>The exception rows of an image: \<open>exceptions()\<close> of the trait is empty and only PE overrides it.\<close>

definition image_exceptions :: "PEImage option \<Rightarrow> ExceptionRecord list" where
  "image_exceptions as_pe = (case as_pe of Some img \<Rightarrow> pe_exceptions img | None \<Rightarrow> [])"

end
