(* ===== verification/Eh_Props.thy ===== *)
theory Eh_Props
  imports Eh_Pe Pe_Props "HOL-Library.Sublist"
begin

text \<open>
  What the exception-handling facts say of the file: where the language-specific data lie, the
  round trip of scope tables, when a function has a fact and what becomes of each entry of its scope table, the
  pairing of try regions with their handlers, and the rows that get a fact.
\<close>

section \<open>Unwind information\<close>

text \<open>
  The language-specific data of an unwind block start inside the file, behind the unwind codes
  padded to four bytes and the handler address; they exist exactly for the handler flags.
\<close>

theorem unwind_info_layout:
  assumes "parse_unwind_info img exc = Some u"
  shows "\<exists>off. rva_to_file_offset img (unwind_rva exc) = Some off \<and>
    unwind_codes_bytes u mod 4 = 0 \<and> 2 * unat (code_count u) \<le> unwind_codes_bytes u \<and>
    unwind_codes_bytes u < 2 * unat (code_count u) + 4 \<and>
    (if has_exception_handler u
     then language_specific_data_offset u = Some (off + 8 + unwind_codes_bytes u) \<and>
       off + 8 + unwind_codes_bytes u \<le> length (pe_bytes img) \<and>
       handler_rva u = read_u32 (pe_bytes img) (off + 4 + unwind_codes_bytes u)
     else language_specific_data_offset u = None \<and> handler_rva u = None)"
proof -
  obtain off where off: "rva_to_file_offset img (unwind_rva exc) = Some off" "off + 4 \<le> length (pe_bytes img)"
    using assms by (auto simp: parse_unwind_info_def Let_def not_less split: option.splits if_splits)
  have codes: "(n * 2 + 3) div 4 * 4 mod 4 = (0 :: nat)" "2 * n \<le> (n * 2 + 3) div 4 * 4"
    "(n * 2 + 3) div 4 * 4 < 2 * n + 4" for n :: nat
    by (simp, linarith, linarith)
  have "unwind_codes_bytes u = (unat (code_count u) * 2 + 3) div 4 * 4"
    using assms off by (auto simp: parse_unwind_info_def Let_def split: if_splits option.splits)
  moreover have "if has_exception_handler u
     then language_specific_data_offset u = Some (off + 8 + unwind_codes_bytes u) \<and>
       off + 8 + unwind_codes_bytes u \<le> length (pe_bytes img) \<and>
       handler_rva u = read_u32 (pe_bytes img) (off + 4 + unwind_codes_bytes u)
     else language_specific_data_offset u = None \<and> handler_rva u = None"
    using assms off
    by (auto simp: parse_unwind_info_def has_exception_handler_def Let_def add_ac split: if_splits option.splits)
  ultimately show ?thesis using off(1) codes by metis
qed

section \<open>Scope tables\<close>

definition enc_scope :: "ScopeTableEntry \<Rightarrow> bytes" where
  "enc_scope e = enc_u32 (sc_begin_rva e) @ enc_u32 (sc_end_rva e) @ enc_u32 (sc_handler_rva e) @
     enc_u32 (sc_jump_target_rva e)"

lemma length_enc_scope [simp]: "length (enc_scope e) = 16"
  by (simp add: enc_scope_def)

lemma read_scope_enc: "read_scope (pre @ enc_scope e @ suf) (length pre) = Some e"
proof -
  let ?bs = "pre @ enc_scope e @ suf"
  have "read_u32 ?bs (length pre) = Some (sc_begin_rva e)"
    "read_u32 ?bs (length pre + 4) = Some (sc_end_rva e)"
    "read_u32 ?bs (length pre + 8) = Some (sc_handler_rva e)"
    "read_u32 ?bs (length pre + 12) = Some (sc_jump_target_rva e)"
    using read_u32_at [of "length pre" pre "sc_begin_rva e"]
      read_u32_at [of "length pre + 4" "pre @ enc_u32 (sc_begin_rva e)" "sc_end_rva e"]
      read_u32_at [of "length pre + 8" "pre @ enc_u32 (sc_begin_rva e) @ enc_u32 (sc_end_rva e)" "sc_handler_rva e"]
      read_u32_at [of "length pre + 12" "pre @ enc_u32 (sc_begin_rva e) @ enc_u32 (sc_end_rva e) @ enc_u32 (sc_handler_rva e)"
        "sc_jump_target_rva e" suf]
    by (simp_all add: enc_scope_def)
  then show ?thesis by (simp add: read_scope_def)
qed

lemma read_table_enc:
  assumes rd: "\<And>pre e suf. rd (pre @ enc e @ suf) (length pre) = Some e" and "\<And>e. length (enc e) = w"
  shows "read_table (rd (pre @ concat (map enc es) @ suf)) w (length es) (length pre) = Some es"
proof (induction es arbitrary: pre)
  case (Cons e es)
  have "rd (pre @ enc e @ concat (map enc es) @ suf) (length pre) = Some e" by (rule rd)
  moreover have "read_table (rd ((pre @ enc e) @ concat (map enc es) @ suf)) w (length es) (length (pre @ enc e)) = Some es"
    by (rule Cons.IH)
  ultimately show ?case by (simp add: assms(2))
qed simp

lemma seh_entries_enc:
  assumes "length es \<le> 4096"
  shows "seh_entries (pre @ enc_u32 (of_nat (length es)) @ concat (map enc_scope es) @ suf) (length pre) = Some es"
proof -
  let ?bs = "pre @ enc_u32 (of_nat (length es)) @ concat (map enc_scope es) @ suf"
  have n: "unat (of_nat (length es) :: u32) = length es" using assms by (intro unat_of_nat_less) simp
  have len: "length (concat (map enc_scope es)) = length es * 16" by (induction es) simp_all
  have "read_table (read_scope ((pre @ enc_u32 (of_nat (length es))) @ concat (map enc_scope es) @ suf)) 16 (length es)
      (length (pre @ enc_u32 (of_nat (length es)))) = Some es"
    by (rule read_table_enc) (simp_all add: read_scope_enc)
  then show ?thesis using assms n len by (simp add: seh_entries_def Let_def)
qed

text \<open>A scope table of at most 4096 entries is read back as it was written.\<close>

theorem scope_table_round_trip:
  assumes "length es \<le> 4096"
  shows "seh_entries (pre @ enc_u32 (of_nat (length es)) @ concat (map enc_scope es) @ suf) (length pre) = Some es"
  using assms by (rule seh_entries_enc)

lemma read_table_length: "read_table rd w n base = Some xs \<Longrightarrow> length xs = n"
  by (induction rd w n base arbitrary: xs rule: read_table.induct) (auto split: option.splits)

lemma seh_entries_bound: "seh_entries bs off = Some es \<Longrightarrow> length es \<le> 4096 \<and> off + 4 + length es * 16 \<le> length bs"
  by (auto simp: seh_entries_def Let_def not_less dest!: read_table_length split: if_splits option.splits)

section \<open>Regions and handlers\<close>

definition seh_try :: "u64 \<Rightarrow> nat \<Rightarrow> ScopeTableEntry \<Rightarrow> TryRegion" where
  "seh_try base k e =
     \<lparr>try_begin_va = base + ucast (sc_begin_rva e), try_end_va = base + ucast (sc_end_rva e), try_state_low = None,
      try_state_high = None, call_site_index = None, catch_handler_indices = [k]\<rparr>"

definition seh_handler :: "u64 \<Rightarrow> ScopeTableEntry \<Rightarrow> CatchHandler" where
  "seh_handler base e =
     \<lparr>handler_va = base + ucast (sc_handler_rva e), catch_kind = Filter, adjectives = 0, frame_offset = None,
      continuation_va = Some (base + ucast (sc_jump_target_rva e))\<rparr>"

definition seh_cleanup :: "u64 \<Rightarrow> ScopeTableEntry \<Rightarrow> CleanupAction" where
  "seh_cleanup base e =
     \<lparr>region_begin_va = base + ucast (sc_begin_rva e), region_end_va = base + ucast (sc_end_rva e),
      landing_pad_va = Some (base + ucast (sc_jump_target_rva e)), unwind_handler_va = None, state_from = None,
      state_to = None\<rparr>"

lemma seh_fold:
  "fold (seh_step base) es (trs, chs, cas) =
   (let ts = filter (\<lambda>e. \<not> is_finally e) es
    in (trs @ map (\<lambda>(k, e). seh_try base k e) (List.enumerate (length chs) ts), chs @ map (seh_handler base) ts,
        cas @ map (seh_cleanup base) (filter is_finally es)))"
  by (induction es arbitrary: trs chs cas)
    (simp_all add: seh_step_def seh_try_def seh_handler_def seh_cleanup_def Let_def)

lemma mk_fact_fields [simp]:
  "function_va (mk_fact exc p abi trs chs cas sc ev) = exc_begin exc"
  "function_end_va (mk_fact exc p abi trs chs cas sc ev) = exc_end exc"
  "eh_abi (mk_fact exc p abi trs chs cas sc ev) = abi"
  "personality_name (mk_fact exc p abi trs chs cas sc ev) = p_name p"
  "try_regions (mk_fact exc p abi trs chs cas sc ev) = trs"
  "catch_handlers (mk_fact exc p abi trs chs cas sc ev) = chs"
  "cleanup_actions (mk_fact exc p abi trs chs cas sc ev) = cas"
  "score (confidence (eh_claim (mk_fact exc p abi trs chs cas sc ev))) = min sc 1000"
  "unwind_ranges (mk_fact exc p abi trs chs cas sc ev) = [\<lparr>uw_begin = exc_begin exc, uw_end = exc_end exc\<rparr>]"
  by (simp_all add: mk_fact_def claim_with_evidence_def claim_with_score_def confidence_from_score_def Let_def)

text \<open>The table as it stands in the file: the number of entries at the offset, then the entries.\<close>

definition scope_table_at :: "bytes \<Rightarrow> nat \<Rightarrow> ScopeTableEntry list \<Rightarrow> bool" where
  "scope_table_at bs off es \<longleftrightarrow>
     length es \<le> 4096 \<and>
     (\<exists>pre suf. length pre = off \<and> bs = pre @ enc_u32 (of_nat (length es)) @ concat (map enc_scope es) @ suf)"

lemma take_snoc_drop: "take (m + n) (drop off bs) = take m (drop off bs) @ take n (drop (off + m) bs)"
  by (simp add: take_add add.commute)

lemma read_scope_bytes:
  assumes "read_scope bs base = Some e"
  shows "take 16 (drop base bs) = enc_scope e"
proof -
  have r: "read_u32 bs base = Some (sc_begin_rva e)" "read_u32 bs (base + 4) = Some (sc_end_rva e)"
    "read_u32 bs (base + 8) = Some (sc_handler_rva e)" "read_u32 bs (base + 12) = Some (sc_jump_target_rva e)"
    using assms by (auto simp: read_scope_def split: bind_splits)
  have "take 16 (drop base bs) =
      take 4 (drop base bs) @ take 4 (drop (base + 4) bs) @ take 4 (drop (base + 8) bs) @ take 4 (drop (base + 12) bs)"
    using take_snoc_drop [of 4 12 base bs] take_snoc_drop [of 4 8 "base + 4" bs] take_snoc_drop [of 4 4 "base + 8" bs]
    by (simp add: add.commute)
  then show ?thesis using r [unfolded read_u32_enc_iff] by (simp add: enc_scope_def)
qed

lemma read_table_bytes:
  assumes "read_table (read_scope bs) 16 n base = Some es"
  shows "take (16 * n) (drop base bs) = concat (map enc_scope es)"
  using assms
proof (induction n arbitrary: base es)
  case (Suc n)
  then obtain e rest where e: "read_scope bs base = Some e" "read_table (read_scope bs) 16 n (base + 16) = Some rest"
    "es = e # rest" by (auto split: option.splits)
  show ?case using take_snoc_drop [of 16 "16 * n" base bs] read_scope_bytes [OF e(1)] Suc.IH [OF e(2)] e(3) by simp
qed simp

lemma seh_entries_iff: "seh_entries bs off = Some es \<longleftrightarrow> scope_table_at bs off es"
proof
  assume "scope_table_at bs off es"
  then show "seh_entries bs off = Some es" using seh_entries_enc by (auto simp: scope_table_at_def)
next
  assume e: "seh_entries bs off = Some es"
  then obtain n where n: "read_u32 bs off = Some n" "read_table (read_scope bs) 16 (unat n) (off + 4) = Some es"
    by (auto simp: seh_entries_def Let_def split: if_splits option.splits)
  have len: "length es = unat n" using read_table_length [OF n(2)] .
  then have n_eq: "n = of_nat (length es)" by simp
  have fits: "off + 4 + length es * 16 \<le> length bs" "length es \<le> 4096" using seh_entries_bound [OF e] by simp_all
  have "take 4 (drop off bs) = enc_u32 (of_nat (length es))"
    using n(1) unfolding n_eq [symmetric] by (simp only: read_u32_enc_iff)
  then have "take (4 + 16 * length es) (drop off bs) = enc_u32 (of_nat (length es)) @ concat (map enc_scope es)"
    by (simp only: take_snoc_drop read_table_bytes [OF n(2), folded len])
  moreover have "bs = take off bs @ take (4 + 16 * length es) (drop off bs) @ drop (4 + 16 * length es) (drop off bs)"
    by (simp only: append_take_drop_id)
  ultimately have eq: "bs = take off bs @ enc_u32 (of_nat (length es)) @ concat (map enc_scope es) @ drop (4 + 16 * length es) (drop off bs)"
    by (simp only: append.assoc)
  have "length (take off bs) = off" using fits(1) by simp
  with eq show "scope_table_at bs off es" unfolding scope_table_at_def using fits(2) by blast
qed

text \<open>
  C22: structured exception handling reads the scope table behind the unwind data, or four bytes further
  for a function with a stack cookie. There is a fact exactly when a table of at most 4096 entries stands
  there in full. Its entries are split by their handler: an entry whose handler is not 1 gives a try region
  with the entry's bounds and one handler, the filter, which continues at the jump target; region \<open>k\<close> names
  handler \<open>k\<close>. An entry whose handler is 1 gives a cleanup with its bounds that lands at the jump target.
  The order of the table is kept.
\<close>

theorem seh_fact_splits_scopes:
  "(parse_seh img exc u p gs \<noteq> None \<longleftrightarrow>
      (\<exists>off es. language_specific_data_offset u = Some off \<and>
         scope_table_at (pe_bytes img) (if gs then off + 4 else off) es)) \<and>
   (\<forall>f off es. parse_seh img exc u p gs = Some f \<and> language_specific_data_offset u = Some off \<and>
      scope_table_at (pe_bytes img) (if gs then off + 4 else off) es \<longrightarrow>
      (let filters = filter (\<lambda>e. sc_handler_rva e \<noteq> 1) es;
           finals = filter (\<lambda>e. sc_handler_rva e = 1) es;
           va = (\<lambda>rva. pe_base img + ucast rva)
       in function_va f = exc_begin exc \<and> function_end_va f = exc_end exc \<and>
          map (\<lambda>t. (try_begin_va t, try_end_va t)) (try_regions f) =
            map (\<lambda>e. (va (sc_begin_rva e), va (sc_end_rva e))) filters \<and>
          map catch_handler_indices (try_regions f) = map (\<lambda>k. [k]) [0..<length filters] \<and>
          map (\<lambda>h. (handler_va h, catch_kind h, continuation_va h)) (catch_handlers f) =
            map (\<lambda>e. (va (sc_handler_rva e), Filter, Some (va (sc_jump_target_rva e)))) filters \<and>
          map (\<lambda>c. (region_begin_va c, region_end_va c, landing_pad_va c)) (cleanup_actions f) =
            map (\<lambda>e. (va (sc_begin_rva e), va (sc_end_rva e), Some (va (sc_jump_target_rva e)))) finals))"
proof (intro conjI allI impI)
  show "parse_seh img exc u p gs \<noteq> None \<longleftrightarrow>
      (\<exists>off es. language_specific_data_offset u = Some off \<and>
         scope_table_at (pe_bytes img) (if gs then off + 4 else off) es)"
    by (simp add: parse_seh_def seh_entries_iff [symmetric] seh_fold Let_def split: option.split)
next
  fix f off es
  assume a: "parse_seh img exc u p gs = Some f \<and> language_specific_data_offset u = Some off \<and>
      scope_table_at (pe_bytes img) (if gs then off + 4 else off) es"
  have fin: "is_finally = (\<lambda>e. sc_handler_rva e = 1)" by (simp add: is_finally_def fun_eq_iff)
  have i: "map catch_handler_indices (map (\<lambda>(k, e). seh_try b k e) (List.enumerate m es)) = map (\<lambda>k. [k]) [m..<m + length es]"
    for b m es by (induction es arbitrary: m) (simp_all add: seh_try_def upt_rec)
  have r: "map (\<lambda>t. (try_begin_va t, try_end_va t)) (map (\<lambda>(k, e). seh_try b k e) (List.enumerate m es)) =
      map (\<lambda>e. (b + ucast (sc_begin_rva e), b + ucast (sc_end_rva e))) es" for b m es
    by (induction es arbitrary: m) (simp_all add: seh_try_def)
  show "let filters = filter (\<lambda>e. sc_handler_rva e \<noteq> 1) es; finals = filter (\<lambda>e. sc_handler_rva e = 1) es;
           va = (\<lambda>rva. pe_base img + ucast rva)
       in function_va f = exc_begin exc \<and> function_end_va f = exc_end exc \<and>
          map (\<lambda>t. (try_begin_va t, try_end_va t)) (try_regions f) =
            map (\<lambda>e. (va (sc_begin_rva e), va (sc_end_rva e))) filters \<and>
          map catch_handler_indices (try_regions f) = map (\<lambda>k. [k]) [0..<length filters] \<and>
          map (\<lambda>h. (handler_va h, catch_kind h, continuation_va h)) (catch_handlers f) =
            map (\<lambda>e. (va (sc_handler_rva e), Filter, Some (va (sc_jump_target_rva e)))) filters \<and>
          map (\<lambda>c. (region_begin_va c, region_end_va c, landing_pad_va c)) (cleanup_actions f) =
            map (\<lambda>e. (va (sc_begin_rva e), va (sc_end_rva e), Some (va (sc_jump_target_rva e)))) finals"
    using a i [of "pe_base img" 0] r [of "pe_base img" 0] unfolding seh_entries_iff [symmetric]
    by (auto simp: parse_seh_def seh_fold Let_def fin seh_handler_def seh_cleanup_def)
qed

text \<open>
  The handler indices of every C++ try block count from zero, while the handlers of all blocks
  stand one after the other in one list: from the second block on the indices name handlers of
  the first, and a block whose array cannot be read still names as many as its header says.
\<close>

theorem fh3_indices_restart:
  "map catch_handler_indices (fst (fold (fh3_step img exc resolver) tbs ([], []))) =
     map (\<lambda>tb. [0..<unat (handlers_count tb)]) tbs \<and>
   snd (fold (fh3_step img exc resolver) tbs ([], [])) =
     concat (map (\<lambda>tb. map (catch_of img resolver) (unwrap_or [] (parse_handler_array img tb))) tbs)"
proof -
  have "map catch_handler_indices (fst (fold (fh3_step img exc resolver) tbs (trs, chs))) =
      map catch_handler_indices trs @ map (\<lambda>tb. [0..<unat (handlers_count tb)]) tbs \<and>
    snd (fold (fh3_step img exc resolver) tbs (trs, chs)) =
      chs @ concat (map (\<lambda>tb. map (catch_of img resolver) (unwrap_or [] (parse_handler_array img tb))) tbs)"
    for trs chs
    by (induction tbs arbitrary: trs chs) (simp_all add: fh3_step_def)
  then show ?thesis by simp
qed

section \<open>The rows that get a fact\<close>

definition abi_of :: "PersonalityKind \<Rightarrow> EhAbi set" where
  "abi_of k =
     (case k of
        CxxFrameHandler3 \<Rightarrow> {MsvcFH3}
      | CxxFrameHandler4 \<Rightarrow> {MsvcFH4, UnknownAbi}
      | CSpecificHandler \<Rightarrow> {MsSEH}
      | GSHandlerCheckEH \<Rightarrow> {MsGSHandlerEH}
      | _ \<Rightarrow> {UnknownAbi})"

definition fact_of_row :: "PEImage \<Rightarrow> ImportRecord list \<Rightarrow> ExceptionRecord \<Rightarrow> EhFunctionFact \<Rightarrow> bool" where
  "fact_of_row img imps exc f \<longleftrightarrow>
     (\<exists>u. parse_unwind_info img exc = Some u \<and> has_exception_handler u \<and>
        function_va f = exc_begin exc \<and> function_end_va f = exc_end exc \<and>
        personality_name f = p_name (resolve_personality u imps) \<and>
        eh_abi f \<in> abi_of (p_kind (resolve_personality u imps)) \<and>
        (eh_abi f = UnknownAbi \<longrightarrow> try_regions f = [] \<and> catch_handlers f = [] \<and> cleanup_actions f = []) \<and>
        (score (confidence (eh_claim f)) < 600 \<longleftrightarrow> eh_abi f = UnknownAbi))"

lemma eh_of_row_fact:
  assumes "eh_of_row img imps resolver exc = Some f"
  shows "fact_of_row img imps exc f"
proof -
  obtain u where u: "parse_unwind_info img exc = Some u" "has_exception_handler u"
    using assms by (auto simp: eh_of_row_def split: option.splits if_splits)
  have "function_va f = exc_begin exc \<and> function_end_va f = exc_end exc \<and>
      personality_name f = p_name (resolve_personality u imps) \<and>
      eh_abi f \<in> abi_of (p_kind (resolve_personality u imps)) \<and>
      (eh_abi f = UnknownAbi \<longrightarrow> try_regions f = [] \<and> catch_handlers f = [] \<and> cleanup_actions f = []) \<and>
      (score (confidence (eh_claim f)) < 600 \<longleftrightarrow> eh_abi f = UnknownAbi)"
  proof (cases "p_kind (resolve_personality u imps)")
    case CxxFrameHandler3
    then show ?thesis using assms u
      by (auto simp: eh_of_row_def abi_of_def Let_def parse_fh3_def split: option.splits if_splits prod.splits bind_splits)
  next
    case CxxFrameHandler4
    then show ?thesis using assms u
      by (auto simp: eh_of_row_def abi_of_def Let_def parse_fh4_def degraded_fact_def split: option.splits if_splits bind_splits)
  next
    case CSpecificHandler
    then show ?thesis using assms u
      by (auto simp: eh_of_row_def abi_of_def Let_def parse_seh_def split: option.splits if_splits prod.splits)
  next
    case GSHandlerCheckEH
    then show ?thesis using assms u
      by (auto simp: eh_of_row_def abi_of_def Let_def parse_seh_def split: option.splits if_splits prod.splits)
  qed (use assms u in \<open>auto simp: eh_of_row_def abi_of_def Let_def unknown_fact_def\<close>)
  then show ?thesis using u by (auto simp: fact_of_row_def)
qed

lemma map_filter_rows:
  assumes "\<And>x y. f x = Some y \<Longrightarrow> P x y"
  shows "\<exists>rows. subseq rows xs \<and> list_all2 P rows (List.map_filter f xs)"
proof (induction xs)
  case (Cons x xs)
  then obtain rows where r: "subseq rows xs" "list_all2 P rows (List.map_filter f xs)" by blast
  show ?case
  proof (cases "f x")
    case None
    then show ?thesis using r by (intro exI [of _ rows]) (auto simp: List.map_filter_simps)
  next
    case (Some y)
    then show ?thesis using r assms by (intro exI [of _ "x # rows"]) (auto simp: List.map_filter_simps)
  qed
qed (simp add: List.map_filter_simps)

text \<open>
  The facts of a PE image follow its exception rows in order, at most one for each row; a row has a
  fact only if its unwind block names a handler, and the kind of the fact is that of the handler's import.
\<close>

theorem extract_eh_rows:
  "\<exists>rows. subseq rows exceptions \<and>
     list_all2 (fact_of_row img imps) rows (extract_eh it (Some img) exceptions imps rtti)"
proof (cases "exceptions = []")
  case True
  then show ?thesis by (simp add: extract_eh_def)
next
  case False
  then show ?thesis
    using map_filter_rows [of "eh_of_row img imps (from_rtti rtti)" "fact_of_row img imps" exceptions] eh_of_row_fact
    by (auto simp: extract_eh_def)
qed

text \<open>For an image that is not PE the Itanium walker is never asked.\<close>

lemma itanium_never_reached: "extract_eh it None (image_exceptions None) imps rtti = []"
  by (simp add: extract_eh_def image_exceptions_def)

section \<open>A concrete image\<close>

definition sample_scopes :: "ScopeTableEntry list" where
  "sample_scopes =
     [\<lparr>sc_begin_rva = 0x1100, sc_end_rva = 0x1120, sc_handler_rva = 0x1800, sc_jump_target_rva = 0x1130\<rparr>,
      \<lparr>sc_begin_rva = 0x1140, sc_end_rva = 0x1150, sc_handler_rva = 1, sc_jump_target_rva = 0x1900\<rparr>]"

text \<open>An unwind block without codes, with the flag of an exception handler and two scopes.\<close>

definition unwind_head :: bytes where "unwind_head = [9, 4, 0, 0]"

definition eh_bytes :: bytes where
  "eh_bytes = unwind_head @ enc_u32 0x3000 @ enc_u32 2 @ concat (map enc_scope sample_scopes)"

definition eh_section :: SectionRecord where
  "eh_section = \<lparr>sec_name = ''.rdata'', sec_rva = 0x1000, sec_va = 0x140001000, virtual_size = 44, raw_start = 0,
     raw_size = 44, data_size = 44, executable = True, readable = True, writable = False, data_range = (0, 44)\<rparr>"

definition eh_image :: PEImage where
  "eh_image = \<lparr>pe_bytes = eh_bytes, pe_base = 0x140000000, entry_va = 0x140001000, machine = 0x8664,
     dll_characteristics = 0, data_directories = [], pe_sections = [eh_section], pe_imports = [], pe_exports = [],
     pe_exceptions = [], function_seeds_cache = [], overlay_offset_cache = None\<rparr>"

definition eh_exception :: ExceptionRecord where
  "eh_exception = \<lparr>begin_rva = 0x1100, end_rva = 0x1200, unwind_rva = 0x1000,
     exc_begin = 0x140001100, exc_end = 0x140001200, exc_unwind = 0x140001000\<rparr>"

definition eh_unwind :: UnwindInfo where
  "eh_unwind = \<lparr>uw_version = 1, uw_flags = 1, prolog_size = 4, code_count = 0, frame_register = 0,
     unwind_codes_bytes = 0, handler_rva = Some 0x3000, language_specific_data_offset = Some 8\<rparr>"

definition eh_import :: ImportRecord where
  "eh_import = \<lparr>dll = ''vcruntime'', import_name = ''__C_specific_handler'', imp_symbol = ''vcruntime!__C_specific_handler'',
     import_va = 0x140003000, import_rva = 0x3000, hint = None, categories = []\<rparr>"

lemma eh_simps [simp]:
  "pe_bytes eh_image = eh_bytes" "pe_base eh_image = 0x140000000" "pe_sections eh_image = [eh_section]"
  "unwind_rva eh_exception = 0x1000" "exc_begin eh_exception = 0x140001100" "exc_end eh_exception = 0x140001200"
  "uw_flags eh_unwind = 1" "handler_rva eh_unwind = Some 0x3000" "language_specific_data_offset eh_unwind = Some 8"
  "unwind_codes_bytes eh_unwind = 0" "code_count eh_unwind = 0"
  "import_rva eh_import = 0x3000" "import_name eh_import = ''__C_specific_handler''"
  "length unwind_head = 4" "length sample_scopes = 2"
  by (simp_all add: eh_image_def eh_exception_def eh_unwind_def eh_import_def unwind_head_def sample_scopes_def)

lemma eh_bytes_length [simp]: "length eh_bytes = 44" by (simp add: eh_bytes_def sample_scopes_def)

lemma eh_offset [simp]: "rva_to_file_offset eh_image 0x1000 = Some 0"
  by (simp add: rva_to_file_offset_def section_for_rva_def section_span_def sat_add32_def eh_section_def)

lemma eh_parse_unwind: "parse_unwind_info eh_image eh_exception = Some eh_unwind"
proof -
  have "eh_bytes ! 0 = 9" "eh_bytes ! 1 = 4" "eh_bytes ! 2 = 0" "eh_bytes ! 3 = 0"
    by (simp_all add: eh_bytes_def unwind_head_def)
  moreover have "read_u32 eh_bytes 4 = Some 0x3000" by (simp add: eh_bytes_def read_skip read_hit)
  ultimately show ?thesis
    by (simp add: parse_unwind_info_def Let_def handler_flags_def eh_unwind_def take_bit_eq_mod drop_bit_eq_div)
qed

lemma eh_table: "eh_bytes = (unwind_head @ enc_u32 0x3000) @ enc_u32 (of_nat (length sample_scopes)) @ concat (map enc_scope sample_scopes) @ []"
  by (simp add: eh_bytes_def)

lemma eh_entries: "seh_entries eh_bytes 8 = Some sample_scopes"
  using seh_entries_enc [of sample_scopes "unwind_head @ enc_u32 0x3000" "[]"] unfolding eh_table [symmetric] by simp

definition eh_personality :: Personality where
  "eh_personality = \<lparr>p_kind = CSpecificHandler, p_name = Some ''__C_specific_handler'', p_va = Some 0x3000\<rparr>"

lemma eh_resolved: "resolve_personality eh_unwind [eh_import] = eh_personality"
  by (simp add: resolve_personality_def personality_kind_def eh_personality_def)

definition eh_fact :: EhFunctionFact where
  "eh_fact = mk_fact eh_exception eh_personality MsSEH [seh_try 0x140000000 0 (sample_scopes ! 0)]
     [seh_handler 0x140000000 (sample_scopes ! 0)] [seh_cleanup 0x140000000 (sample_scopes ! 1)] 850
     [pdata_evidence eh_exception, RawAddr 0x140000008]"

lemma eh_split:
  "filter (\<lambda>e. \<not> is_finally e) sample_scopes = [sample_scopes ! 0]"
  "filter is_finally sample_scopes = [sample_scopes ! 1]"
  by (simp_all add: sample_scopes_def is_finally_def)

lemma eh_fact_fields:
  "length (catch_handlers eh_fact) = 1" "length (cleanup_actions eh_fact) = 1"
  by (simp_all add: eh_fact_def)

lemma eh_parse_seh: "parse_seh eh_image eh_exception eh_unwind eh_personality False = Some eh_fact"
  by (simp add: parse_seh_def eh_entries seh_fold eh_fact_def Let_def eh_split)

lemma eh_extracted: "extract_eh it (Some eh_image) [eh_exception] [eh_import] [] = [eh_fact]"
  by (simp add: extract_eh_def eh_of_row_def eh_parse_unwind has_exception_handler_def handler_flags_def eh_resolved
      List.map_filter_simps eh_parse_seh) (simp add: eh_personality_def eh_parse_seh [unfolded eh_personality_def])

theorem unwind_info_layout_witness:
  "parse_unwind_info eh_image eh_exception = Some eh_unwind \<and> unwind_codes_bytes eh_unwind mod 4 = 0"
  using unwind_info_layout [OF eh_parse_unwind] eh_parse_unwind by auto

theorem scope_table_round_trip_witness: "seh_entries eh_bytes 8 = Some sample_scopes"
  using scope_table_round_trip [of sample_scopes "unwind_head @ enc_u32 0x3000" "[]"]
  unfolding eh_table [symmetric] by simp

theorem seh_fact_splits_scopes_witness:
  "parse_seh eh_image eh_exception eh_unwind eh_personality False = Some eh_fact \<and>
   map catch_handler_indices (try_regions eh_fact) = [[0]] \<and>
   map (\<lambda>h. (handler_va h, continuation_va h)) (catch_handlers eh_fact) = [(0x140001800, Some 0x140001130)] \<and>
   map landing_pad_va (cleanup_actions eh_fact) = [Some 0x140001900]"
proof -
  have t: "scope_table_at eh_bytes 8 sample_scopes" using eh_entries by (simp add: seh_entries_iff)
  have "map catch_handler_indices (try_regions eh_fact) =
      map (\<lambda>k. [k]) [0..<length (filter (\<lambda>e. sc_handler_rva e \<noteq> 1) sample_scopes)]"
    using seh_fact_splits_scopes [of eh_image eh_exception eh_unwind eh_personality False] eh_parse_seh t
    by (simp add: Let_def)
  then have "map catch_handler_indices (try_regions eh_fact) = [[0]]" by (simp add: sample_scopes_def)
  then show ?thesis
    by (simp add: eh_parse_seh) (simp add: eh_fact_def seh_handler_def seh_cleanup_def sample_scopes_def)
qed

end
