(* ===== verification/Jump_Tables.thy ===== *)
theory Jump_Tables
  imports Pe_Image Vsa_Analysis "HOL-Library.Product_Lexorder"
begin

text \<open>
  \<open>src/jump_tables.rs\<close>: the targets of indirect jumps through a table in the image. The table
  address comes from the instruction or from the value rows of its registers, the number of
  entries from a comparison before the jump; the entries are read as 8-byte addresses, then
  as 4-byte offsets from the image base, then as 4-byte offsets from the table. \<^const>\<open>None\<close> of
  \<open>build_jump_tables\<close> is the panic of a slice out of range.
\<close>

record JumpTableRecord =
  table_id :: string
  jt_function :: u64
  jump_va :: u64
  table_va :: "u64 option"
  entry_size :: u32
  jt_targets :: "u64 list"
  jt_confidence :: string
  jt_evidence :: "u64 list"

record ResolvedTable =
  rt_kind :: string
  rt_targets :: "u64 list"
  rt_entry_size :: u32

section \<open>Entries\<close>

text \<open>\<open>chunks_exact(w).take(n)\<close> read by \<open>conv\<close> until a target is not executable.\<close>

fun read_targets :: "(bytes \<Rightarrow> u64) \<Rightarrow> nat \<Rightarrow> (u64 \<Rightarrow> bool) \<Rightarrow> nat \<Rightarrow> bytes \<Rightarrow> u64 list" where
  "read_targets conv w is_exec 0 data = []"
| "read_targets conv w is_exec (Suc n) data =
     (if length data < w then []
      else let target = conv (take w data)
           in if \<not> is_exec target then [] else target # read_targets conv w is_exec n (drop w data))"

definition enough :: "u64 list \<Rightarrow> u64 list option" where
  "enough targets = (if length targets \<ge> 2 then Some targets else None)"

definition conv_absolute :: "bytes \<Rightarrow> u64" where
  "conv_absolute chunk = of_nat (le_nat chunk)"

definition conv_rva :: "u64 \<Rightarrow> bytes \<Rightarrow> u64" where
  "conv_rva image_base chunk = image_base + ucast (of_nat (le_nat chunk) :: u32)"

definition conv_relative :: "u64 \<Rightarrow> bytes \<Rightarrow> u64" where
  "conv_relative tva chunk = tva + scast (of_nat (le_nat chunk) :: u32)"

definition resolve_absolute_entries :: "bytes \<Rightarrow> (u64 \<Rightarrow> bool) \<Rightarrow> nat \<Rightarrow> u64 list option" where
  "resolve_absolute_entries data is_exec max_entries = enough (read_targets conv_absolute 8 is_exec max_entries data)"

definition resolve_rva_entries :: "bytes \<Rightarrow> u64 \<Rightarrow> (u64 \<Rightarrow> bool) \<Rightarrow> nat \<Rightarrow> u64 list option" where
  "resolve_rva_entries data image_base is_exec max_entries =
     enough (read_targets (conv_rva image_base) 4 is_exec max_entries data)"

definition resolve_relative_entries :: "u64 \<Rightarrow> bytes \<Rightarrow> (u64 \<Rightarrow> bool) \<Rightarrow> nat \<Rightarrow> u64 list option" where
  "resolve_relative_entries tva data is_exec max_entries =
     enough (read_targets (conv_relative tva) 4 is_exec max_entries data)"

definition resolve_table_entries ::
  "u64 \<Rightarrow> bytes \<Rightarrow> u64 \<Rightarrow> (u64 \<Rightarrow> bool) \<Rightarrow> nat \<Rightarrow> ResolvedTable option" where
  "resolve_table_entries tva data image_base is_exec max_entries =
     (case resolve_absolute_entries data is_exec max_entries of
        Some ts \<Rightarrow> Some \<lparr>rt_kind = ''absolute'', rt_targets = ts, rt_entry_size = 8\<rparr>
      | None \<Rightarrow>
          (case resolve_rva_entries data image_base is_exec max_entries of
             Some ts \<Rightarrow> Some \<lparr>rt_kind = ''rva'', rt_targets = ts, rt_entry_size = 4\<rparr>
           | None \<Rightarrow>
               (case resolve_relative_entries tva data is_exec max_entries of
                  Some ts \<Rightarrow> Some \<lparr>rt_kind = ''relative'', rt_targets = ts, rt_entry_size = 4\<rparr>
                | None \<Rightarrow> None)))"

section \<open>The table address\<close>

type_synonym value_index = "(u64 \<times> string, VsaValueRecord list) btree"

definition index_values :: "VsaValueRecord list \<Rightarrow> value_index" where
  "index_values vals =
     fold (\<lambda>v m. let k = (vv_function v, vv_location v) in bt_insert k (unwrap_or [] (bt_get m k) @ [v]) m) vals []"

definition latest_value :: "value_index \<Rightarrow> u64 \<Rightarrow> string \<Rightarrow> u64 \<Rightarrow> VsaValueRecord option" where
  "latest_value vals fn location before_or_at =
     (case bt_get vals (fn, location) of
        None \<Rightarrow> None
      | Some rows \<Rightarrow>
          let index = partition_count (\<lambda>row. site_va row \<le> before_or_at) rows
          in if index = 0 then None else if index - 1 < length rows then Some (rows ! (index - 1)) else None)"

definition candidate_table_va :: "u64 \<Rightarrow> IrInstruction \<Rightarrow> value_index \<Rightarrow> u64 option" where
  "candidate_table_va fn ins vals =
     (case rip_target ins of
        Some target \<Rightarrow> Some target
      | None \<Rightarrow>
          if memory_base ins = None \<and> memory_displacement ins > 0 \<and> (indirect_target_memory ins \<or> memory_read ins)
          then Some (word_of_int (memory_displacement ins))
          else
            let base = Option.bind (Option.bind (memory_base ins) (\<lambda>reg. latest_value vals fn reg (ir_address ins)))
                         (\<lambda>row. case vv_target_va row of Some t \<Rightarrow> Some t | None \<Rightarrow> vv_lo row);
                index_offset = unwrap_or 0
                  (map_option (\<lambda>v. v * ucast (max (memory_scale ins) 1))
                    (Option.bind (Option.bind (memory_index ins) (\<lambda>reg. latest_value vals fn reg (ir_address ins))) vv_lo))
            in map_option (\<lambda>b. b + index_offset + word_of_int (memory_displacement ins)) base)"

definition limit_of :: "IrInstruction \<Rightarrow> nat option" where
  "limit_of ins =
     (if ir_mnemonic ins \<in> set [''cmp'', ''sub'', ''and'']
      then (case immediate ins of
              None \<Rightarrow> None
            | Some imm \<Rightarrow> if imm > 0 \<and> imm \<le> 4096 then Some (unat imm + 1) else None)
      else None)"

fun find_map :: "('a \<Rightarrow> 'b option) \<Rightarrow> 'a list \<Rightarrow> 'b option" where
  "find_map f [] = None"
| "find_map f (x # xs) = (case f x of Some y \<Rightarrow> Some y | None \<Rightarrow> find_map f xs)"

definition infer_switch_entry_limit :: "IrInstruction list \<Rightarrow> u64 \<Rightarrow> nat option" where
  "infer_switch_entry_limit ir jva =
     find_map limit_of (take 12 (filter (\<lambda>ins. ir_address ins < jva) (rev ir)))"

section \<open>All tables\<close>

definition jump_max_entries :: "string \<Rightarrow> nat" where
  "jump_max_entries bname = (if bname = ''max'' then 4096 else if bname = ''high'' then 512 else 128)"

text \<open>The row of one instruction; the outer option is the panic.\<close>

definition jump_row ::
  "PEImage \<Rightarrow> FunctionRecord \<Rightarrow> value_index \<Rightarrow> nat \<Rightarrow> IrInstruction list \<Rightarrow> IrInstruction \<Rightarrow>
   JumpTableRecord option option" where
  "jump_row img f vals max_entries ir_slice ins =
     (if \<not> ir_is_jump ins \<or> direct_target ins \<noteq> None then Some None
      else case candidate_table_va (fn_start f) ins vals of
             None \<Rightarrow> Some None
           | Some tva \<Rightarrow>
               (case section_for_va img tva of
                  None \<Rightarrow> Some None
                | Some s \<Rightarrow>
                    (case section_data s (pe_bytes img) of
                       None \<Rightarrow> None
                     | Some section_bytes \<Rightarrow>
                         let offset = unat tva - unat (sec_va s)
                         in if offset \<ge> length section_bytes then Some None
                            else let data = drop offset section_bytes;
                                     entry_limit = min (unwrap_or max_entries (infer_switch_entry_limit ir_slice (ir_address ins)))
                                       max_entries
                                 in Some (map_option (\<lambda>r.
                                      \<lparr>table_id = ''jumptable:'' @ hex016 (fn_start f) @ '':'' @ hex016 (ir_address ins),
                                       jt_function = fn_start f, jump_va = ir_address ins, table_va = Some tva,
                                       entry_size = rt_entry_size r, jt_targets = rt_targets r,
                                       jt_confidence = ''medium'', jt_evidence = [ir_address ins, tva]\<rparr>)
                                      (resolve_table_entries tva data (pe_base img) (exec_va img) entry_limit)))))"

fun collect_jumps :: "('a \<Rightarrow> 'b option option) \<Rightarrow> 'a list \<Rightarrow> 'b list option" where
  "collect_jumps f [] = Some []"
| "collect_jumps f (x # xs) =
     (case f x of
        None \<Rightarrow> None
      | Some r \<Rightarrow> map_option (\<lambda>rs. (case r of Some y \<Rightarrow> [y] | None \<Rightarrow> []) @ rs) (collect_jumps f xs))"

definition slice_tables ::
  "PEImage \<Rightarrow> FunctionRecord list \<Rightarrow> u64 set \<Rightarrow> value_index \<Rightarrow> nat \<Rightarrow> IrInstruction list \<Rightarrow>
   FunctionSemanticSlice \<Rightarrow> JumpTableRecord list option" where
  "slice_tables img functions target_fns vals max_entries ir s =
     (if \<not> function_index s < length functions then Some []
      else let f = functions ! function_index s
           in if fn_start f \<notin> target_fns then Some []
              else (case slice_range ir (ir_range s) of
                      None \<Rightarrow> None
                    | Some ir_slice \<Rightarrow> collect_jumps (jump_row img f vals max_entries ir_slice) ir_slice))"

fun concat_tables :: "('a \<Rightarrow> 'b list option) \<Rightarrow> 'a list \<Rightarrow> 'b list option" where
  "concat_tables f [] = Some []"
| "concat_tables f (x # xs) =
     (case f x of None \<Rightarrow> None | Some r \<Rightarrow> map_option (\<lambda>rs. r @ rs) (concat_tables f xs))"

definition build_jump_tables ::
  "PEImage \<Rightarrow> FunctionRecord list \<Rightarrow> FunctionSemanticSlice list \<Rightarrow> IrInstruction list \<Rightarrow> VsaValueRecord list \<Rightarrow>
   SecondPassTargetRecord list \<Rightarrow> string \<Rightarrow> JumpTableRecord list option" where
  "build_jump_tables img functions slices ir vsa_values targets bname =
     (let target_fns = set (map target_function targets)
      in if target_fns = {} then Some []
         else concat_tables
           (slice_tables img functions target_fns (index_values vsa_values) (jump_max_entries bname) ir) slices)"

section \<open>Entries: lemmas\<close>

lemma read_targets_spec:
  "length (read_targets conv w is_exec n data) \<le> n \<and>
   (\<forall>k<length (read_targets conv w is_exec n data).
      is_exec (read_targets conv w is_exec n data ! k) \<and> (k + 1) * w \<le> length data \<and>
      read_targets conv w is_exec n data ! k = conv (take w (drop (k * w) data)))"
proof (induction n arbitrary: data)
  case (Suc n)
  show ?case
  proof (cases "length data < w \<or> \<not> is_exec (conv (take w data))")
    case True
    then show ?thesis by (auto simp: Let_def)
  next
    case False
    then have eq: "read_targets conv w is_exec (Suc n) data = conv (take w data) # read_targets conv w is_exec n (drop w data)"
      by (simp add: Let_def)
    have IH: "length (read_targets conv w is_exec n (drop w data)) \<le> n"
      "\<And>k. k < length (read_targets conv w is_exec n (drop w data)) \<Longrightarrow>
        is_exec (read_targets conv w is_exec n (drop w data) ! k) \<and> (k + 1) * w \<le> length data - w \<and>
        read_targets conv w is_exec n (drop w data) ! k = conv (take w (drop (k * w + w) data))"
      using Suc [of "drop w data", unfolded length_drop drop_drop] by blast+
    have "is_exec ((conv (take w data) # read_targets conv w is_exec n (drop w data)) ! k) \<and> (k + 1) * w \<le> length data \<and>
        (conv (take w data) # read_targets conv w is_exec n (drop w data)) ! k = conv (take w (drop (k * w) data))"
      if "k < length (conv (take w data) # read_targets conv w is_exec n (drop w data))" for k
    proof (cases k)
      case 0
      then show ?thesis using False by simp
    next
      case (Suc j)
      then show ?thesis using IH(2) [of j] that False by (auto simp: add.commute)
    qed
    then show ?thesis unfolding eq by (intro conjI) (use IH(1) in simp, blast)
  qed
qed simp

end
