(* ===== verification/Jump_Props.thy ===== *)
theory Jump_Props
  imports Jump_Tables Vsa_Props Pe_Props
begin

text \<open>
  What a jump-table row says: how many targets it has, where in the file they were read and that
  they are executable; which value row the table address comes from; and that the pass never
  panics on a loaded image and the slices of the semantic index.
\<close>

section \<open>Values\<close>

lemma index_values_get:
  "bt_ok m \<Longrightarrow>
   bt_ok (fold (\<lambda>v m. let k = (vv_function v, vv_location v) in bt_insert k (unwrap_or [] (bt_get m k) @ [v]) m) vals m) \<and>
   unwrap_or [] (bt_get (fold (\<lambda>v m. let k = (vv_function v, vv_location v)
      in bt_insert k (unwrap_or [] (bt_get m k) @ [v]) m) vals m) (fn, loc)) =
     unwrap_or [] (bt_get m (fn, loc)) @ filter (\<lambda>v. vv_function v = fn \<and> vv_location v = loc) vals"
  by (induction vals arbitrary: m) (auto simp: bt_get_insert Let_def)

lemma index_values_rows:
  "unwrap_or [] (bt_get (index_values vals) (fn, loc)) = filter (\<lambda>v. vv_function v = fn \<and> vv_location v = loc) vals"
  using index_values_get [of "[]" vals fn loc] by (simp add: index_values_def)

lemma rows_sorted_by_site:
  assumes "sorted_wrt row_le vals"
  shows "sorted (map site_va (filter (\<lambda>v. vv_function v = fn \<and> vv_location v = loc) vals))"
proof -
  have "sorted_wrt row_le (filter (\<lambda>v. vv_function v = fn \<and> vv_location v = loc) vals)"
    using assms by (rule sorted_wrt_filter)
  then show ?thesis
    unfolding sorted_map by (rule sorted_wrt_mono_rel [rotated]) (auto simp: row_le_def)
qed

lemma partition_last:
  fixes f :: "'a \<Rightarrow> 'b::linorder"
  assumes "sorted (map f xs)"
  shows "partition_count (\<lambda>x. f x \<le> a) xs = length (filter (\<lambda>x. f x \<le> a) xs)"
    "i < partition_count (\<lambda>x. f x \<le> a) xs \<Longrightarrow> f (xs ! i) \<le> a"
    "i < length xs \<Longrightarrow> partition_count (\<lambda>x. f x \<le> a) xs \<le> i \<Longrightarrow> a < f (xs ! i)"
proof -
  have tw: "takeWhile (\<lambda>x. f x \<le> a) xs = filter (\<lambda>x. f x \<le> a) xs"
    using assms
  proof (induction xs)
    case (Cons x xs)
    have "\<not> f x \<le> a \<Longrightarrow> filter (\<lambda>x. f x \<le> a) xs = []"
      using Cons.prems by (force simp: filter_empty_conv)
    then show ?case using Cons by auto
  qed simp
  show "partition_count (\<lambda>x. f x \<le> a) xs = length (filter (\<lambda>x. f x \<le> a) xs)"
    by (simp add: partition_count_def tw)
  show "i < partition_count (\<lambda>x. f x \<le> a) xs \<Longrightarrow> f (xs ! i) \<le> a"
    unfolding partition_count_def by (metis nth_mem set_takeWhileD takeWhile_nth)
  assume i: "i < length xs" "partition_count (\<lambda>x. f x \<le> a) xs \<le> i"
  let ?p = "partition_count (\<lambda>x. f x \<le> a) xs"
  have p: "?p < length xs" using i by simp
  have "\<not> f (xs ! ?p) \<le> a" unfolding partition_count_def
    by (rule nth_length_takeWhile) (use p in \<open>simp add: partition_count_def\<close>)
  moreover have "f (xs ! ?p) \<le> f (xs ! i)" using sorted_nth_mono [OF assms i(2)] i p by simp
  ultimately show "a < f (xs ! i)" by simp
qed

text \<open>
  On the sorted rows of the value analysis the binary search finds the last row of the register at
  or before the jump, and finds none only if there is none.
\<close>

theorem latest_value_correct:
  assumes "sorted_wrt row_le vals"
  shows "case latest_value (index_values vals) fn loc a of
      None \<Rightarrow> \<not> (\<exists>v\<in>set vals. vv_function v = fn \<and> vv_location v = loc \<and> site_va v \<le> a)
    | Some v \<Rightarrow> v \<in> set vals \<and> vv_function v = fn \<and> vv_location v = loc \<and> site_va v \<le> a \<and>
        \<not> (\<exists>u\<in>set vals. vv_function u = fn \<and> vv_location u = loc \<and> site_va v < site_va u \<and> site_va u \<le> a)"
proof -
  define R where "R = filter (\<lambda>v. vv_function v = fn \<and> vv_location v = loc) vals"
  define p where "p = partition_count (\<lambda>row. site_va row \<le> a) R"
  have mem: "u \<in> set R \<longleftrightarrow> u \<in> set vals \<and> vv_function u = fn \<and> vv_location u = loc" for u
    by (auto simp: R_def)
  have sorted: "sorted (map site_va R)" unfolding R_def by (rule rows_sorted_by_site [OF assms])
  note part = partition_last [OF sorted, where a = a, folded p_def]
  have rows: "unwrap_or [] (bt_get (index_values vals) (fn, loc)) = R" by (simp add: index_values_rows R_def)
  have lv: "latest_value (index_values vals) fn loc a = (if p = 0 then None else if p - 1 < length R then Some (R ! (p - 1)) else None)"
    using rows by (cases "bt_get (index_values vals) (fn, loc)") (simp_all add: latest_value_def Let_def p_def partition_count_def)
  have le: "p \<le> length R" unfolding p_def partition_count_def by (rule length_takeWhile_le)
  have idx: "\<exists>i<length R. u = R ! i" if "u \<in> set R" for u using that by (metis in_set_conv_nth)
  show ?thesis
  proof (cases "p = 0")
    case True
    have "a < site_va u" if "u \<in> set R" for u using idx [OF that] part(3) True by auto
    then show ?thesis using True mem by (auto simp: lv not_le)
  next
    case False
    let ?v = "R ! (p - 1)"
    have p: "p - 1 < p" "p - 1 < length R" using False le by linarith+
    have v: "?v \<in> set R" using p(2) by (rule nth_mem)
    have at: "site_va ?v \<le> a" by (rule part(2) [OF p(1)])
    have last: "\<not> (site_va ?v < site_va u \<and> site_va u \<le> a)" if u: "u \<in> set R" for u
    proof -
      obtain i where i: "i < length R" "u = R ! i" using idx [OF u] by blast
      show ?thesis
      proof (cases "i < p")
        case True
        then have "site_va u \<le> site_va ?v" using sorted_nth_mono [OF sorted, of i "p - 1"] i p(2) by simp
        then show ?thesis by (meson leD)
      next
        case False
        then have "a < site_va u" using part(3) [of i] i by simp
        then show ?thesis by (meson leD)
      qed
    qed
    have n: "latest_value (index_values vals) fn loc a = Some ?v" using False p(2) lv by simp
    show ?thesis unfolding n option.case using v at last mem by blast
  qed
qed

section \<open>Rows\<close>

definition entry_ok :: "PEImage \<Rightarrow> u64 \<Rightarrow> bytes \<Rightarrow> u32 \<Rightarrow> nat \<Rightarrow> u64 \<Rightarrow> bool" where
  "entry_ok img tva data w k t \<longleftrightarrow>
     (let chunk = take (unat w) (drop (k * unat w) data)
      in (k + 1) * unat w \<le> length data \<and>
         (w = 8 \<and> t = conv_absolute chunk \<or>
          w = 4 \<and> (t = conv_rva (pe_base img) chunk \<or> t = conv_relative tva chunk)))"

lemma enough_Some: "enough ts = Some us \<longleftrightarrow> us = ts \<and> 2 \<le> length ts"
  by (auto simp: enough_def)

lemma resolve_ok:
  assumes "resolve_table_entries tva data (pe_base img) is_exec n = Some r"
  shows "2 \<le> length (rt_targets r) \<and> length (rt_targets r) \<le> n \<and> (\<forall>t\<in>set (rt_targets r). is_exec t) \<and>
    (\<forall>k<length (rt_targets r). entry_ok img tva data (rt_entry_size r) k (rt_targets r ! k))"
proof -
  consider "r = \<lparr>rt_kind = ''absolute'', rt_targets = read_targets conv_absolute 8 is_exec n data, rt_entry_size = 8\<rparr>"
    | "r = \<lparr>rt_kind = ''rva'', rt_targets = read_targets (conv_rva (pe_base img)) 4 is_exec n data, rt_entry_size = 4\<rparr>"
    | "r = \<lparr>rt_kind = ''relative'', rt_targets = read_targets (conv_relative tva) 4 is_exec n data, rt_entry_size = 4\<rparr>"
    using assms by (auto simp: resolve_table_entries_def resolve_absolute_entries_def resolve_rva_entries_def
        resolve_relative_entries_def enough_Some split: option.splits)
  moreover have "2 \<le> length (rt_targets r)"
    using assms by (auto simp: resolve_table_entries_def resolve_absolute_entries_def resolve_rva_entries_def
        resolve_relative_entries_def enough_Some split: option.splits)
  ultimately show ?thesis
    using read_targets_spec [of conv_absolute 8 is_exec n data]
      read_targets_spec [of "conv_rva (pe_base img)" 4 is_exec n data]
      read_targets_spec [of "conv_relative tva" 4 is_exec n data]
    by cases (auto simp: entry_ok_def Let_def in_set_conv_nth)
qed

definition table_row_ok :: "PEImage \<Rightarrow> nat \<Rightarrow> JumpTableRecord \<Rightarrow> bool" where
  "table_row_ok img cap r \<longleftrightarrow>
     2 \<le> length (jt_targets r) \<and> length (jt_targets r) \<le> cap \<and> (\<forall>t\<in>set (jt_targets r). exec_va img t) \<and>
     (\<exists>tva s d. table_va r = Some tva \<and> section_for_va img tva = Some s \<and> section_data s (pe_bytes img) = Some d \<and>
        unat tva - unat (sec_va s) < length d \<and>
        (\<forall>k<length (jt_targets r).
           entry_ok img tva (drop (unat tva - unat (sec_va s)) d) (entry_size r) k (jt_targets r ! k)))"

lemma jump_row_ok:
  assumes "jump_row img f vals cap ir_slice ins = Some (Some r)"
  shows "table_row_ok img cap r \<and> jt_function r = fn_start f \<and> jump_va r = ir_address ins \<and>
    ir_is_jump ins \<and> direct_target ins = None \<and> candidate_table_va (fn_start f) ins vals = table_va r"
proof -
  obtain tva s d where t: "ir_is_jump ins" "direct_target ins = None"
    "candidate_table_va (fn_start f) ins vals = Some tva" "section_for_va img tva = Some s"
    "section_data s (pe_bytes img) = Some d" "\<not> unat tva - unat (sec_va s) \<ge> length d"
    using assms by (auto simp: jump_row_def Let_def split: if_splits option.splits)
  let ?n = "min (unwrap_or cap (infer_switch_entry_limit ir_slice (ir_address ins))) cap"
  let ?d = "drop (unat tva - unat (sec_va s)) d"
  obtain q where q: "resolve_table_entries tva ?d (pe_base img) (exec_va img) ?n = Some q"
    and r: "jt_targets r = rt_targets q" "entry_size r = rt_entry_size q" "table_va r = Some tva"
      "jt_function r = fn_start f" "jump_va r = ir_address ins"
    using assms t by (auto simp: jump_row_def Let_def)
  show ?thesis
    using resolve_ok [OF q] r t by (auto simp: table_row_ok_def)
qed

lemma collect_jumps_mem: "collect_jumps f xs = Some rs \<Longrightarrow> r \<in> set rs \<Longrightarrow> \<exists>x\<in>set xs. f x = Some (Some r)"
  by (induction xs arbitrary: rs) (auto split: option.splits)

lemma concat_tables_mem: "concat_tables f xs = Some rs \<Longrightarrow> r \<in> set rs \<Longrightarrow> \<exists>x\<in>set xs. \<exists>ys. f x = Some ys \<and> r \<in> set ys"
  by (induction xs arbitrary: rs) (auto split: option.splits)

lemma slice_range_set: "slice_range xs rg = Some ys \<Longrightarrow> set ys \<subseteq> set xs"
  by (auto simp: slice_range_def dest!: in_set_takeD in_set_dropD split: prod.splits if_splits)

text \<open>
  C13: every row belongs to an indirect jump of a target function; it has between two targets and the
  bound of the budget, each executable, each decoded from its place in the section bytes behind
  the table address.
\<close>

theorem jump_tables_sound:
  assumes "build_jump_tables img functions slices ir vsa_values targets bname = Some rows" "r \<in> set rows"
  shows "table_row_ok img (jump_max_entries bname) r \<and>
    (\<exists>t\<in>set targets. target_function t = jt_function r) \<and>
    (\<exists>ins\<in>set ir. ir_address ins = jump_va r \<and> ir_is_jump ins \<and> direct_target ins = None \<and>
       candidate_table_va (jt_function r) ins (index_values vsa_values) = table_va r)"
proof -
  obtain s ys where s: "slice_tables img functions (set (map target_function targets)) (index_values vsa_values)
      (jump_max_entries bname) ir s = Some ys" "r \<in> set ys"
    using assms by (auto simp: build_jump_tables_def Let_def split: if_splits dest: concat_tables_mem)
  then obtain ir_slice where i: "fn_start (functions ! function_index s) \<in> set (map target_function targets)"
    "slice_range ir (ir_range s) = Some ir_slice"
    "collect_jumps (jump_row img (functions ! function_index s) (index_values vsa_values) (jump_max_entries bname) ir_slice)
       ir_slice = Some ys"
    by (auto simp: slice_tables_def Let_def split: if_splits option.splits)
  obtain ins where ins: "ins \<in> set ir_slice"
    "jump_row img (functions ! function_index s) (index_values vsa_values) (jump_max_entries bname) ir_slice ins = Some (Some r)"
    using collect_jumps_mem [OF i(3) s(2)] by blast
  show ?thesis using jump_row_ok [OF ins(2)] i(1) ins(1) slice_range_set [OF i(2)] by auto
qed

text \<open>On a loaded image and the slices of the semantic index the pass does not panic.\<close>

theorem jump_tables_total:
  assumes "image_ok bs img" "sorted (map ir_address ir)" "\<forall>f\<in>set functions. fn_start f \<le> fn_end f"
    and "index_build functions instructions ir xref_rows cfg = Some slices"
  shows "build_jump_tables img functions slices ir vsa_values targets bname \<noteq> None"
proof -
  have d: False if sec: "section_for_va img tva = Some s" "section_data s (pe_bytes img) = None" for tva s
  proof -
    have "s \<in> set (pe_sections img)" using sec(1) section_for_va_rva section_for_rva_span(1) by blast
    then show False using assms(1) section_ok_data [of bs s] sec(2) by (auto simp: image_ok_def)
  qed
  have "jump_row img f vals cap ir_slice ins \<noteq> None" for f vals cap ir_slice ins
    by (auto simp: jump_row_def Let_def dest: d split: option.split)
  then have c: "collect_jumps (jump_row img f vals cap ir_slice) xs \<noteq> None" for f vals cap ir_slice xs
    by (induction xs) (auto split: option.split)
  have "slice_tables img functions fns vals cap ir s \<noteq> None" if "s \<in> set slices" for fns vals cap s
    using index_ranges_valid [OF assms(2-4)] that c by (auto simp: slice_tables_def Let_def split: option.split)
  then have "concat_tables (slice_tables img functions fns vals cap ir) ss \<noteq> None" if "set ss \<subseteq> set slices" for fns vals cap ss
    using that by (induction ss) (auto split: option.split)
  then show ?thesis by (auto simp: build_jump_tables_def Let_def)
qed

text \<open>
  The executable check looks only at the low 32 bits of the distance from the image base: an
  address four gigabytes above a code address passes it too.
\<close>

theorem executable_check_alias:
  assumes "pe_base img \<le> va" "unat va + 2 ^ 32 < 2 ^ 64"
  shows "exec_va img (va + 2 ^ 32) = exec_va img va"
proof -
  have u: "unat (va + 2 ^ 32) = unat va + 2 ^ 32" using assms(2) by (simp add: unat_word_ariths)
  then have le: "\<not> va + 2 ^ 32 < pe_base img" using assms(1) by (simp add: word_less_nat_alt word_le_nat_alt)
  have wrap: "(ucast (x + 2 ^ 32) :: u32) = ucast (x :: u64)" for x
    by (rule word_unat_eq_iff [THEN iffD2])
      (simp add: unsigned_ucast_eq take_bit_eq_mod unat_word_ariths mod_mod_cancel)
  have "va + 2 ^ 32 - pe_base img = va - pe_base img + 2 ^ 32" by simp
  then have "(ucast (va + 2 ^ 32 - pe_base img) :: u32) = ucast (va - pe_base img)" using wrap by metis
  moreover have "\<not> va < pe_base img" using assms(1) by simp
  ultimately show ?thesis using le by (simp add: exec_va_def section_for_va_def)
qed

section \<open>A concrete table\<close>

definition jump_fn :: FunctionRecord where
  "jump_fn = \<lparr>fn_start = 0x140001000, fn_end = 0x140001010, fn_size = 16, fn_source = ''pdata'', calls = [],
     calls_imports = [], fn_strings = [], xrefs = 0\<rparr>"

text \<open>\<open>jmp [rip + disp]\<close> through the first bytes of the section.\<close>

definition jump_ins :: IrInstruction where
  "jump_ins = \<lparr>ir_address = 0x140001000, ir_size = 6, ir_mnemonic = ''jmp'', write_reg = None, read_regs = [],
     immediate = None, rip_target = Some 0x140001000, stack_slot = None, memory_base = None, memory_index = None,
     memory_scale = 0, memory_displacement = 0, operand_width = 8, indirect_target_register = None,
     indirect_target_memory = True, memory_write = False, memory_read = True, direct_target = None,
     ir_is_call = False, ir_is_jump = True\<rparr>"

definition jump_target :: SecondPassTargetRecord where
  "jump_target = \<lparr>target_id = [], target_function = 0x140001000, target_reason = [], priority_score = 0,
     pass1_uncertainty = [], result_status = [], target_evidence = []\<rparr>"

definition jump_slice :: FunctionSemanticSlice where
  "jump_slice = \<lparr>function_index = 0, function_start = 0x140001000, function_end = 0x140001010,
     instruction_range = (0, 0), ir_range = (0, 1), xref_range = (0, 0), cfg_index = None, has_return = False,
     overlaps_known_function = False\<rparr>"

lemma jump_simps [simp]:
  "fn_start jump_fn = 0x140001000" "fn_end jump_fn = 0x140001010"
  "ir_address jump_ins = 0x140001000" "ir_is_jump jump_ins"
  "direct_target jump_ins = None" "rip_target jump_ins = Some 0x140001000" "ir_mnemonic jump_ins = ''jmp''"
  "target_function jump_target = 0x140001000" "function_index jump_slice = 0" "ir_range jump_slice = (0, 1)"
  by (simp_all add: jump_fn_def jump_ins_def jump_target_def jump_slice_def)

lemma jump_index: "index_build [jump_fn] [] [jump_ins] [] [] = Some [jump_slice]"
  by (simp add: index_build_def build_slice_def slice_range_def range_of_def partition_count_def Let_def
      overlaps_previous_def overlaps_next_def jump_slice_def)

lemma sample_data: "section_data sample_text (sample_pe 272) =
    Some (enc_u32 0x1004 @ enc_u32 0x100C @ enc_u32 0x1008 @ zeros 4)"
  by (simp add: section_data_def sample_text_def) (simp add: sample_pe_def)

lemma conv_rva_enc: "conv_rva b (enc_u32 w) = b + ucast w"
  by (simp add: conv_rva_def)

lemma read_targets_numeral:
  "read_targets conv w is_exec (numeral n) data =
     (if length data < w \<or> \<not> is_exec (conv (take w data)) then []
      else conv (take w data) # read_targets conv w is_exec (pred_numeral n) (drop w data))"
  by (simp add: numeral_eq_Suc Let_def)

lemma jump_resolved:
  "resolve_table_entries 0x140001000 (enc_u32 0x1004 @ enc_u32 0x100C @ enc_u32 0x1008 @ zeros 4) 0x140000000
     (exec_va sample_loaded) 128 =
   Some \<lparr>rt_kind = ''rva'', rt_targets = [0x140001004, 0x14000100C, 0x140001008], rt_entry_size = 4\<rparr>"
proof -
  let ?d = "enc_u32 0x1004 @ enc_u32 0x100C @ enc_u32 0x1008 @ zeros 4"
  have "conv_absolute (take 8 ?d) = 0x100C00001004"
    by (simp add: conv_absolute_def le_nat_append)
  then have "read_targets conv_absolute 8 (exec_va sample_loaded) 128 ?d = []"
    by (simp add: read_targets_numeral exec_va_def sample_va del: take_append)
  moreover have "conv_rva b (zeros 4) = b" for b
    by (simp add: conv_rva_def zeros_def numeral_eq_Suc)
  then have "read_targets (conv_rva 0x140000000) 4 (exec_va sample_loaded) 128 ?d = [0x140001004, 0x14000100C, 0x140001008]"
    by (simp add: read_targets_numeral exec_va_def sample_va conv_rva_enc)
  ultimately show ?thesis
    by (simp add: resolve_table_entries_def resolve_absolute_entries_def resolve_rva_entries_def enough_def)
qed

definition jump_table_row :: JumpTableRecord where
  "jump_table_row = \<lparr>table_id = ''jumptable:'' @ hex016 0x140001000 @ '':'' @ hex016 0x140001000, jt_function = 0x140001000,
     jump_va = 0x140001000, table_va = Some 0x140001000, entry_size = 4,
     jt_targets = [0x140001004, 0x14000100C, 0x140001008], jt_confidence = ''medium'',
     jt_evidence = [0x140001000, 0x140001000]\<rparr>"

lemma jump_built:
  "build_jump_tables sample_loaded [jump_fn] [jump_slice] [jump_ins] [] [jump_target] ''normal'' = Some [jump_table_row]"
proof -
  have "infer_switch_entry_limit [jump_ins] 0x140001000 = None" by (simp add: infer_switch_entry_limit_def)
  then have "jump_row sample_loaded jump_fn (index_values []) 128 [jump_ins] jump_ins = Some (Some jump_table_row)"
    by (simp add: jump_row_def candidate_table_va_def sample_va sample_data jump_resolved jump_table_row_def Let_def)
  then show ?thesis
    by (simp add: build_jump_tables_def slice_tables_def slice_range_def jump_max_entries_def)
qed

theorem jump_tables_sound_witness:
  "build_jump_tables sample_loaded [jump_fn] [jump_slice] [jump_ins] [] [jump_target] ''normal'' = Some [jump_table_row] \<and>
   table_row_ok sample_loaded 128 jump_table_row"
  using jump_tables_sound [OF jump_built, of jump_table_row] jump_built by (simp add: jump_max_entries_def)

theorem jump_tables_total_witness:
  "build_jump_tables sample_loaded [jump_fn] [jump_slice] [jump_ins] [] [jump_target] ''normal'' \<noteq> None"
  using jump_tables_total [OF sample_image_ok _ _ jump_index] by simp

definition value_row :: "u64 \<Rightarrow> u64 \<Rightarrow> VsaValueRecord" where
  "value_row site v = vsa_record 0x1000 site ''rax'' (vsa_constant v [] []) 0"

theorem latest_value_correct_witness:
  "latest_value (index_values [value_row 0x1001 5, value_row 0x1004 7]) 0x1000 ''rax'' 0x1003 = Some (value_row 0x1001 5)"
proof -
  have "sorted_wrt row_le [value_row 0x1001 5, value_row 0x1004 7]"
    by (simp add: value_row_def vsa_record_def row_le_def)
  from latest_value_correct [OF this, where fn = "0x1000" and loc = "''rax''" and a = "0x1003"]
  show ?thesis by (auto simp: value_row_def vsa_record_def split: option.splits)
qed

theorem executable_check_alias_witness:
  "exec_va sample_loaded 0x140001004 \<and> exec_va sample_loaded 0x240001004"
  using executable_check_alias [of sample_loaded "0x140001004"] by (simp add: exec_va_def sample_va)

end
