(* ===== verification/Write_Log.thy ===== *)
theory Write_Log
  imports File_Store
begin

text \<open>
  \<open>src/unpack/write_log.rs\<close> and the decoding part of \<open>src/unpack/guard_pages.rs\<close>: the bounded
  log of guard-page violations. The locale \<open>bounded_log\<close> is the contract of a log that keeps
  the newest entries and counts the dropped ones; the log of the code is an instance when its
  bound is positive.
\<close>

datatype GuardAccessKind = GRead | GWrite | GExecute | GOther

record GuardViolation =
  faulting_address :: u64
  gv_access :: GuardAccessKind

definition STATUS_GUARD_PAGE_VIOLATION :: u32 where
  "STATUS_GUARD_PAGE_VIOLATION = 0x80000001"

definition decode_guard_violation :: "u32 \<Rightarrow> u64 list \<Rightarrow> GuardViolation option" where
  "decode_guard_violation code info =
     (if code \<noteq> STATUS_GUARD_PAGE_VIOLATION then None
      else if length info < 2 then None
      else Some \<lparr>faulting_address = info ! 1,
        gv_access = (if info ! 0 = 0 then GRead else if info ! 0 = 1 then GWrite
                     else if info ! 0 = 8 then GExecute else GOther)\<rparr>)"

record WriteLogEntry =
  ts_ms :: u64
  faulting_pc :: string
  wl_target_va :: string
  wl_access :: string
  wl_region_id :: "u32 option"

record WriteLog =
  entries :: "WriteLogEntry list"
  max_entries :: nat
  dropped_count :: nat

definition DEFAULT_MAX_ENTRIES :: nat where
  "DEFAULT_MAX_ENTRIES = 100000"

definition log_with_capacity :: "nat \<Rightarrow> WriteLog" where
  "log_with_capacity n = \<lparr>entries = [], max_entries = n, dropped_count = 0\<rparr>"

definition log_new :: WriteLog where
  "log_new = log_with_capacity DEFAULT_MAX_ENTRIES"

text \<open>\<open>pop_front\<close> of an empty queue removes nothing; the counter grows all the same.\<close>

definition log_record :: "WriteLogEntry \<Rightarrow> WriteLog \<Rightarrow> WriteLog" where
  "log_record e l =
     (let l = (if length (entries l) \<ge> max_entries l
               then l\<lparr>entries := tl (entries l), dropped_count := dropped_count l + 1\<rparr> else l)
      in l\<lparr>entries := entries l @ [e]\<rparr>)"

definition access_kind_str :: "GuardAccessKind \<Rightarrow> string" where
  "access_kind_str k =
     (case k of GRead \<Rightarrow> ''read'' | GWrite \<Rightarrow> ''write'' | GExecute \<Rightarrow> ''execute'' | GOther \<Rightarrow> ''other'')"

text \<open>\<open>0x{:016x}\<close>\<close>

definition hex016_lower :: "u64 \<Rightarrow> string" where
  "hex016_lower v = ''0x'' @ pad0 16 (show_radix 16 (unat v))"

definition record_access :: "u64 \<Rightarrow> u64 \<Rightarrow> u64 \<Rightarrow> GuardAccessKind \<Rightarrow> u32 option \<Rightarrow> WriteLog \<Rightarrow> WriteLog" where
  "record_access ts fpc tva k region l =
     log_record \<lparr>ts_ms = ts, faulting_pc = hex016_lower fpc, wl_target_va = hex016_lower tva,
       wl_access = access_kind_str k, wl_region_id = region\<rparr> l"

text \<open>One line of JSON per entry, written atomically; the JSON text of an entry is a parameter.\<close>

definition emit_jsonl :: "(WriteLogEntry \<Rightarrow> blob) \<Rightarrow> path \<Rightarrow> WriteLog \<Rightarrow> FS \<Rightarrow> (IoError, nat) result \<times> FS" where
  "emit_jsonl to_json p l fs =
     io_bind (sys_nop fs) (\<lambda>_ fs.
       let buf = concat (map (\<lambda>e. to_json e @ [10]) (entries l))
       in io_bind (write_atomic p buf fs) (\<lambda>_ fs. (Ok (length buf), fs)))"

section \<open>The contract of a bounded log\<close>

definition last_n :: "nat \<Rightarrow> 'a list \<Rightarrow> 'a list" where
  "last_n n xs = drop (length xs - n) xs"

lemma last_n_snoc: "0 < n \<Longrightarrow> last_n n (xs @ [x]) = (if length (last_n n xs) \<ge> n then tl (last_n n xs) else last_n n xs) @ [x]"
proof -
  assume n: "0 < n"
  show ?thesis
  proof (cases "n \<le> length xs")
    case True
    then have "length xs + 1 - n = Suc (length xs - n)" by simp
    then show ?thesis using True n by (simp add: last_n_def drop_Suc tl_drop)
  next
    case False
    then show ?thesis using n by (simp add: last_n_def)
  qed
qed

locale bounded_log =
  fixes rec :: "'e \<Rightarrow> 's \<Rightarrow> 's" and view :: "'s \<Rightarrow> 'e list" and drops :: "'s \<Rightarrow> nat" and bound :: "'s \<Rightarrow> nat"
    and ok :: "'s \<Rightarrow> bool"
  assumes view_rec: "ok s \<Longrightarrow> view (rec e s) = (if length (view s) \<ge> bound s then tl (view s) else view s) @ [e]"
    and drops_rec: "ok s \<Longrightarrow> drops (rec e s) = drops s + (if length (view s) \<ge> bound s then 1 else 0)"
    and bound_rec: "ok s \<Longrightarrow> bound (rec e s) = bound s"
    and ok_rec: "ok s \<Longrightarrow> ok (rec e s)"
    and ok_bound: "ok s \<Longrightarrow> 0 < bound s"
begin

lemma fold_rec:
  assumes "ok s" "view s = last_n (bound s) xs" "drops s + length (view s) = length xs"
  shows "ok (fold rec es s) \<and> bound (fold rec es s) = bound s \<and>
    view (fold rec es s) = last_n (bound s) (xs @ es) \<and>
    drops (fold rec es s) + length (view (fold rec es s)) = length (xs @ es)"
  using assms
proof (induction es arbitrary: s xs)
  case (Cons e es)
  have pos: "0 < bound s" using Cons.prems(1) by (rule ok_bound)
  have v: "view (rec e s) = last_n (bound s) (xs @ [e])"
    using Cons.prems pos by (simp add: view_rec last_n_snoc)
  have d: "drops (rec e s) + length (view (rec e s)) = length (xs @ [e])"
    using Cons.prems pos by (auto simp: view_rec drops_rec)
  show ?case
    using Cons.IH [of "rec e s" "xs @ [e]"] Cons.prems(1) v d by (auto simp: bound_rec ok_rec)
qed simp

end

interpretation wl: bounded_log log_record entries dropped_count max_entries "\<lambda>l. 0 < max_entries l"
  by unfold_locales (simp_all add: log_record_def Let_def)

text \<open>
  C33: a log with a positive bound holds exactly the newest entries, in order, and counts each of the others.
\<close>

theorem write_log_keeps_newest:
  assumes "0 < n"
  shows "entries (fold log_record es (log_with_capacity n)) = last_n n es \<and>
    dropped_count (fold log_record es (log_with_capacity n)) = length es - n \<and>
    length (entries (fold log_record es (log_with_capacity n))) = min n (length es)"
proof -
  let ?l = "log_with_capacity n"
  have b: "max_entries ?l = n" "entries ?l = last_n (max_entries ?l) []" "dropped_count ?l + length (entries ?l) = length ([] :: WriteLogEntry list)"
    by (simp_all add: log_with_capacity_def last_n_def)
  have "entries (fold log_record es ?l) = last_n n es \<and>
      dropped_count (fold log_record es ?l) + length (entries (fold log_record es ?l)) = length es"
    using wl.fold_rec [of ?l "[]" es] b assms by auto
  moreover have "length (last_n n es) = min n (length es)" by (simp add: last_n_def)
  ultimately show ?thesis by auto
qed

text \<open>With the bound zero the log is not empty but holds the newest entry.\<close>

lemma zero_bound_keeps_one:
  "entries (fold log_record (es @ [e]) (log_with_capacity 0)) = [e]"
proof -
  let ?l = "fold log_record es (log_with_capacity 0)"
  have "max_entries ?l = 0 \<and> length (entries ?l) \<le> 1"
    by (induction es rule: rev_induct) (auto simp: log_record_def log_with_capacity_def Let_def)
  then have "max_entries ?l = 0" "tl (entries ?l) = []" by (cases "entries ?l"; simp)+
  then have "entries (log_record e ?l) = [e]" by (simp add: log_record_def Let_def)
  then show ?thesis by simp
qed

definition log_entry :: "u64 \<Rightarrow> WriteLogEntry" where
  "log_entry t = \<lparr>ts_ms = t, faulting_pc = [], wl_target_va = [], wl_access = ''write'', wl_region_id = None\<rparr>"

theorem write_log_keeps_newest_witness:
  "map ts_ms (entries (fold log_record (map log_entry [0, 1, 2, 3]) (log_with_capacity 3))) = [1, 2, 3] \<and>
   dropped_count (fold log_record (map log_entry [0, 1, 2, 3]) (log_with_capacity 3)) = 1"
  using write_log_keeps_newest [of 3 "map log_entry [0, 1, 2, 3]"]
  by (simp add: last_n_def log_entry_def del: fold_simps)

end
