(* ===== verification/Memory_Map.thy ===== *)
theory Memory_Map
  imports Axe_Prelude
begin

text \<open>
  \<open>src/unpack/memory_map.rs\<close>: the walk over the target's address space. \<open>VirtualQueryEx\<close> is a
  parameter, a function from addresses to what it reports (\<^const>\<open>None\<close> for a failed call), and so
  are the constants of the \<open>windows\<close> crate. The loop is partial: \<open>enumerate_walk\<close> is
  \<^const>\<open>None\<close> when it does not end.
\<close>

datatype RegionState = Committed | Reserved | Free
datatype RegionKind = KImage | KMapped | KPrivate | KNone

record RegionInfo =
  ri_base :: u64
  ri_size :: u64
  ri_allocation_base :: u64
  ri_state :: RegionState
  ri_protect :: string
  ri_kind :: RegionKind

text \<open>\<open>MEMORY_BASIC_INFORMATION\<close>\<close>

record Mbi =
  m_base :: u64
  m_allocation_base :: u64
  m_size :: u64
  m_state :: u32
  m_protect :: u32
  m_type :: u32

text \<open>The constants of the Windows API.\<close>

record WinFlags =
  MEM_COMMIT :: u32
  MEM_RESERVE :: u32
  MEM_FREE :: u32
  MEM_IMAGE :: u32
  MEM_MAPPED :: u32
  MEM_PRIVATE :: u32
  PAGE_NOACCESS :: u32
  PAGE_READONLY :: u32
  PAGE_READWRITE :: u32
  PAGE_WRITECOPY :: u32
  PAGE_EXECUTE :: u32
  PAGE_EXECUTE_READ :: u32
  PAGE_EXECUTE_READWRITE :: u32
  PAGE_EXECUTE_WRITECOPY :: u32

definition decode_protect_amd64 :: "WinFlags \<Rightarrow> u32 \<Rightarrow> string" where
  "decode_protect_amd64 w protect =
     (let m = take_bit 8 protect
      in if m = PAGE_NOACCESS w then ''---''
         else if m = PAGE_READONLY w then ''R--''
         else if m = PAGE_READWRITE w \<or> m = PAGE_WRITECOPY w then ''RW-''
         else if m = PAGE_EXECUTE w then ''--X''
         else if m = PAGE_EXECUTE_READ w then ''R-X''
         else if m = PAGE_EXECUTE_READWRITE w \<or> m = PAGE_EXECUTE_WRITECOPY w then ''RWX''
         else ''0x'' @ pad0 2 (show_radix 16 (unat m)))"

definition region_of :: "WinFlags \<Rightarrow> Mbi \<Rightarrow> RegionInfo" where
  "region_of w m =
     (let st = (if m_state m = MEM_COMMIT w then Committed
                else if m_state m = MEM_RESERVE w then Reserved
                else if m_state m = MEM_FREE w then Free
                else Reserved);
          k = (if m_type m = MEM_IMAGE w then KImage
               else if m_type m = MEM_MAPPED w then KMapped
               else if m_type m = MEM_PRIVATE w then KPrivate
               else KNone)
      in \<lparr>ri_base = m_base m, ri_size = m_size m, ri_allocation_base = m_allocation_base m, ri_state = st,
          ri_protect = (if st = Free then ''---'' else decode_protect_amd64 w (m_protect m)), ri_kind = k\<rparr>)"

definition sat_add64 :: "u64 \<Rightarrow> u64 \<Rightarrow> u64" where
  "sat_add64 a b = (if unat a + unat b < 2 ^ 64 then a + b else - 1)"

definition address_ceiling :: u64 where
  "address_ceiling = 0x00007FFFFFFEFFFF"

partial_function (option) enumerate_walk ::
  "WinFlags \<Rightarrow> (u64 \<Rightarrow> Mbi option) \<Rightarrow> u64 \<Rightarrow> RegionInfo list \<Rightarrow> RegionInfo list option" where
  "enumerate_walk w query addr out =
     (if addr < address_ceiling
      then (case query addr of
              None \<Rightarrow> Some out
            | Some m \<Rightarrow>
                if m_size m = 0 then Some out
                else enumerate_walk w query (sat_add64 (m_base m) (m_size m)) (out @ [region_of w m]))
      else Some out)"

definition enumerate_regions :: "WinFlags \<Rightarrow> (u64 \<Rightarrow> Mbi option) \<Rightarrow> RegionInfo list option" where
  "enumerate_regions w query = enumerate_walk w query 0 []"

definition committed_only :: "RegionInfo list \<Rightarrow> RegionInfo list" where
  "committed_only regions = filter (\<lambda>r. ri_state r = Committed) regions"

definition image_only :: "RegionInfo list \<Rightarrow> RegionInfo list" where
  "image_only regions = filter (\<lambda>r. ri_kind r = KImage) regions"

section \<open>The contract of the query\<close>

text \<open>
  What \<open>VirtualQueryEx\<close> documents: the queried address is rounded down to its page, and what is
  reported is the part from that page on to the end of the run of pages with the same attributes. So two
  addresses of one run give different bases and sizes, but the same end.
\<close>

definition page_down :: "u64 \<Rightarrow> nat" where
  "page_down a = unat a div 0x1000 * 0x1000"

definition block_end_of :: "Mbi \<Rightarrow> nat" where
  "block_end_of m = unat (m_base m) + unat (m_size m)"

definition query_reports_pages :: "(u64 \<Rightarrow> Mbi option) \<Rightarrow> bool" where
  "query_reports_pages query \<longleftrightarrow>
     (\<forall>a m. query a = Some m \<longrightarrow>
        unat (m_base m) = page_down a \<and> 0x1000 dvd block_end_of m \<and> unat a < block_end_of m \<and> block_end_of m \<le> 2 ^ 64 \<and>
        (\<forall>b. page_down a \<le> unat b \<and> unat b < block_end_of m \<longrightarrow>
           (\<exists>m'. query b = Some m' \<and> block_end_of m' = block_end_of m \<and> m_state m' = m_state m \<and>
              m_protect m' = m_protect m \<and> m_type m' = m_type m)))"

lemma query_reports_pagesD:
  assumes "query_reports_pages query" "query a = Some m"
  shows "unat (m_base m) = page_down a" "0x1000 dvd block_end_of m" "unat a < block_end_of m" "block_end_of m \<le> 2 ^ 64"
  using assms unfolding query_reports_pages_def by blast+

lemma sat_add64_unat: "unat (sat_add64 a b) = min (unat a + unat b) (2 ^ 64 - 1)"
proof (cases "unat a + unat b < 2 ^ 64")
  case True
  then have "unat (a + b) = unat a + unat b" by (simp add: unat_word_ariths)
  then show ?thesis using True by (simp add: sat_add64_def)
next
  case False
  have "unat (- 1 :: u64) = 2 ^ 64 - 1" by (simp add: unsigned_minus_1_eq_mask mask_eq_exp_minus_1)
  then show ?thesis using False by (simp add: sat_add64_def)
qed

text \<open>The regions are adjacent: each starts where the one before it ends, the first at \<open>a\<close>.\<close>

fun tiles_from :: "nat \<Rightarrow> RegionInfo list \<Rightarrow> bool" where
  "tiles_from a [] \<longleftrightarrow> True"
| "tiles_from a (r # rs) \<longleftrightarrow> unat (ri_base r) = a \<and> ri_size r \<noteq> 0 \<and> tiles_from (a + unat (ri_size r)) rs"

lemma tiles_snoc:
  "tiles_from a (rs @ [r]) \<longleftrightarrow>
   tiles_from a rs \<and> unat (ri_base r) = a + sum_list (map (\<lambda>r. unat (ri_size r)) rs) \<and> ri_size r \<noteq> 0"
  by (induction rs arbitrary: a) (auto simp: add.assoc)

text \<open>The walk asks only at page boundaries, so what is reported starts at the queried address.\<close>

lemma query_at_page:
  assumes "query_reports_pages query" "query a = Some m" "0x1000 dvd unat a"
  shows "m_base m = a" "m_size m \<noteq> 0" "0x1000 dvd unat a + unat (m_size m)" "unat a + unat (m_size m) \<le> 2 ^ 64"
proof -
  note D = query_reports_pagesD [OF assms(1,2)]
  have "page_down a = unat a" using assms(3) by (simp add: page_down_def)
  then have base: "unat (m_base m) = unat a" using D(1) by simp
  then show "m_base m = a" by (simp add: word_unat_eq_iff)
  show "0x1000 dvd unat a + unat (m_size m)" "unat a + unat (m_size m) \<le> 2 ^ 64"
    using D(2,4) base by (simp_all add: block_end_of_def)
  show "m_size m \<noteq> 0" using D(3) base by (auto simp: block_end_of_def)
qed

definition regions_end :: "RegionInfo list \<Rightarrow> nat" where
  "regions_end rs = sum_list (map (\<lambda>r. unat (ri_size r)) rs)"

text \<open>Every region is what the query reports at its base.\<close>

definition reported :: "WinFlags \<Rightarrow> (u64 \<Rightarrow> Mbi option) \<Rightarrow> RegionInfo \<Rightarrow> bool" where
  "reported w query r \<longleftrightarrow> (\<exists>m. query (ri_base r) = Some m \<and> r = region_of w m)"

lemma enumerate_walk_ends:
  assumes q: "query_reports_pages query"
    and "tiles_from 0 out" "0x1000 dvd unat addr" "unat addr = regions_end out" "list_all (reported w query) out"
  shows "\<exists>rs. enumerate_walk w query addr out = Some rs \<and> tiles_from 0 rs \<and> list_all (reported w query) rs \<and>
    (unat address_ceiling \<le> regions_end rs \<or> query (of_nat (regions_end rs)) = None)"
  using assms(2-)
proof (induction "2 ^ 64 - unat addr" arbitrary: addr out rule: less_induct)
  case less
  show ?case
  proof (cases "addr < address_ceiling \<and> query addr \<noteq> None")
    case False
    then have e: "enumerate_walk w query addr out = Some out"
      by (subst enumerate_walk.simps) (auto split: option.split)
    have "unat address_ceiling \<le> unat addr \<or> query (of_nat (unat addr)) = None"
      using False by (auto simp: word_less_nat_alt)
    then show ?thesis using e less.prems by auto
  next
    case True
    then obtain m where m: "query addr = Some m" "addr < address_ceiling" by blast
    note P = query_at_page [OF q m(1) less.prems(2)]
    let ?next = "sat_add64 (m_base m) (m_size m)" and ?out = "out @ [region_of w m]"
    have walk: "enumerate_walk w query addr out = enumerate_walk w query ?next ?out"
      using m P(2) by (subst enumerate_walk.simps) simp
    have reg: "ri_base (region_of w m) = addr" "ri_size (region_of w m) = m_size m"
      using P(1) by (simp_all add: region_of_def Let_def)
    have t: "tiles_from 0 ?out" using less.prems(1,3) reg P(2) by (simp add: tiles_snoc regions_end_def)
    have rep: "list_all (reported w query) ?out" using less.prems(4) m(1) reg(1) by (auto simp: reported_def)
    have sum: "regions_end ?out = unat addr + unat (m_size m)" using less.prems(3) reg by (simp add: regions_end_def)
    show ?thesis
    proof (cases "unat addr + unat (m_size m) < 2 ^ 64")
      case True
      then have u: "unat ?next = unat addr + unat (m_size m)" using P(1) by (simp add: sat_add64_unat)
      have "unat addr < unat ?next" using u P(2) by (simp add: word_unat_eq_iff)
      moreover have "unat ?next < 2 ^ 64" using unsigned_less [of ?next, where ?'a = nat] by simp
      ultimately have "2 ^ 64 - unat ?next < 2 ^ 64 - unat addr" by linarith
      from less.hyps [OF this t] show ?thesis using P(3) rep sum u walk by simp
    next
      case False
      then have e: "unat addr + unat (m_size m) = 2 ^ 64" "unat ?next = 2 ^ 64 - 1"
        using P by (simp_all add: sat_add64_unat)
      then have "enumerate_walk w query ?next ?out = Some ?out"
        by (subst enumerate_walk.simps) (simp add: word_less_nat_alt address_ceiling_def)
      moreover have "unat address_ceiling \<le> regions_end ?out" using e(1) sum by (simp add: address_ceiling_def)
      ultimately show ?thesis using walk t rep by (intro exI [of _ ?out]) simp
    qed
  qed
qed

text \<open>
  C24: when the queries answer as documented, from the page of the queried address on, the walk ends, its
  regions are not empty and adjacent from address zero on, each is what the query reports at its base, and
  the walk stops only behind the ceiling or at an address for which the query fails.
\<close>

theorem enumerate_regions_tile:
  assumes "query_reports_pages query"
  shows "\<exists>rs. enumerate_regions w query = Some rs \<and> tiles_from 0 rs \<and> list_all (reported w query) rs \<and>
    (unat address_ceiling \<le> regions_end rs \<or> query (of_nat (regions_end rs)) = None)"
  unfolding enumerate_regions_def
  using enumerate_walk_ends [OF assms, of "[]" 0] by (simp add: regions_end_def)

text \<open>Two runs of pages, one page and the rest of the lower half of the address space.\<close>

definition sample_query :: "u64 \<Rightarrow> Mbi option" where
  "sample_query a =
     (let page = of_nat (page_down a)
      in if a < 0x1000
         then Some \<lparr>m_base = page, m_allocation_base = 0, m_size = 0x1000 - page, m_state = 0x10000, m_protect = 1, m_type = 0\<rparr>
         else if a < 0x800000000000
         then Some \<lparr>m_base = page, m_allocation_base = 0x1000, m_size = 0x800000000000 - page, m_state = 0x1000,
           m_protect = 4, m_type = 0x20000\<rparr>
         else None)"

text \<open>The values of the Windows headers.\<close>

definition windows_flags :: WinFlags where
  "windows_flags = \<lparr>MEM_COMMIT = 0x1000, MEM_RESERVE = 0x2000, MEM_FREE = 0x10000, MEM_IMAGE = 0x1000000,
     MEM_MAPPED = 0x40000, MEM_PRIVATE = 0x20000, PAGE_NOACCESS = 1, PAGE_READONLY = 2, PAGE_READWRITE = 4,
     PAGE_WRITECOPY = 8, PAGE_EXECUTE = 0x10, PAGE_EXECUTE_READ = 0x20, PAGE_EXECUTE_READWRITE = 0x40,
     PAGE_EXECUTE_WRITECOPY = 0x80\<rparr>"

lemma page_down_le: "page_down a \<le> unat a"
  by (simp add: page_down_def)

lemma page_down_ge: "0x1000 dvd n \<Longrightarrow> n \<le> unat a \<Longrightarrow> n \<le> page_down a"
  unfolding page_down_def by (auto elim!: dvdE)

lemma unat_page_down: "unat (of_nat (page_down a) :: u64) = page_down a"
  using page_down_le [of a] unsigned_less [of a, where ?'a = nat] by (simp add: unsigned_of_nat take_bit_nat_eq_self)

lemma page_rest:
  fixes a e :: u64
  assumes "a < e"
  shows "page_down a + unat (e - of_nat (page_down a)) = unat e"
proof -
  have "unat (of_nat (page_down a) :: u64) \<le> unat e"
    using assms page_down_le [of a] by (simp add: unat_page_down word_less_nat_alt)
  then have "unat (e - of_nat (page_down a)) = unat e - page_down a"
    by (simp add: unat_sub word_le_nat_alt unat_page_down)
  then show ?thesis using \<open>unat (of_nat (page_down a) :: u64) \<le> unat e\<close> by (simp add: unat_page_down)
qed

lemma sample_query_ends:
  assumes "sample_query a = Some m"
  shows "unat (m_base m) = page_down a" "block_end_of m = (if a < 0x1000 then 0x1000 else 0x800000000000)"
    "a < 0x800000000000"
  using assms page_rest [of a "0x1000"] page_rest [of a "0x800000000000"]
  by (auto simp: sample_query_def Let_def block_end_of_def unat_page_down word_less_nat_alt split: if_splits)

lemma sample_query_reports: "query_reports_pages sample_query"
  unfolding query_reports_pages_def
proof (intro allI impI)
  fix a m assume m: "sample_query a = Some m"
  note E = sample_query_ends [OF m]
  have same: "\<exists>m'. sample_query b = Some m' \<and> block_end_of m' = block_end_of m \<and> m_state m' = m_state m \<and>
      m_protect m' = m_protect m \<and> m_type m' = m_type m"
    if "page_down a \<le> unat b" "unat b < block_end_of m" for b
  proof -
    have lt: "b < 0x1000 \<longleftrightarrow> a < 0x1000" "b < 0x800000000000"
      using that E(2,3) page_down_ge [of "0x1000" a] by (auto simp: word_less_nat_alt not_less split: if_splits)
    then obtain m' where m': "sample_query b = Some m'" by (auto simp: sample_query_def Let_def)
    have "m_state m' = m_state m \<and> m_protect m' = m_protect m \<and> m_type m' = m_type m"
      using m m' lt E(3) by (auto simp: sample_query_def Let_def split: if_splits)
    then show ?thesis using m' sample_query_ends(2) [OF m'] E(2) lt(1) by simp
  qed
  show "unat (m_base m) = page_down a \<and> 0x1000 dvd block_end_of m \<and> unat a < block_end_of m \<and> block_end_of m \<le> 2 ^ 64 \<and>
      (\<forall>b. page_down a \<le> unat b \<and> unat b < block_end_of m \<longrightarrow>
         (\<exists>m'. sample_query b = Some m' \<and> block_end_of m' = block_end_of m \<and> m_state m' = m_state m \<and>
            m_protect m' = m_protect m \<and> m_type m' = m_type m))"
    using same E by (auto simp: word_less_nat_alt)
qed

theorem enumerate_regions_tile_witness:
  "\<exists>rs. enumerate_regions windows_flags sample_query = Some rs \<and> tiles_from 0 rs \<and>
     list_all (reported windows_flags sample_query) rs"
  using enumerate_regions_tile [OF sample_query_reports] by blast

end
