(* ===== verification/Unpack_Snapshot.thy ===== *)
theory Unpack_Snapshot
  imports Pe_Image File_Store Memory_Map Write_Log Facts
begin

text \<open>
  The snapshot of an unpacked process: capture (\<open>src/unpack/snapshot_capture.rs\<close>,
  \<open>src/unpack/region_buffer.rs\<close>, the types of \<open>src/unpack/snapshot.rs\<close>) and the loader
  \<open>PEImage::from_snapshot\<close> of \<open>src/pe.rs\<close>. Files are those of \<^const>\<open>write_atomic\<close> and
  \<^const>\<open>sys_read\<close>. The BLAKE3 hash, the JSON encoder and decoder and \<open>ReadProcessMemory\<close> are
  parameters. Fields of the manifest that the loader does not read are left out, the entropies (floating
  point) too; scores are of any linear order, which JSON numbers, without NaN, are. Mapping the anonymous
  buffer succeeds.
\<close>

section \<open>Types\<close>

record RegionBuffer =
  rb_va_base :: u64
  rb_bytes :: bytes
  writes_observed :: u64
  executions_observed :: u64

record RegionOrigin =
  alloc_api :: string
  alloc_site_va :: string
  alloc_size_requested :: u64

record RegionDescriptor =
  rd_id :: u32
  rd_va_base :: string
  size_bytes :: u64
  permissions :: string
  origin :: RegionOrigin
  blob_path :: string
  blob_hash_blake3 :: string
  rd_writes_observed :: u64
  rd_executions_observed :: u64

record OepCorroboration =
  entropy_drop :: bool
  execute_from_newly_allocated :: bool
  function_prologue_match :: bool
  iat_call_pattern :: bool

record 's OepCandidate =
  oep_va :: string
  oep_region_id :: u32
  corroboration :: OepCorroboration
  confidence_score :: 's

record 's SnapshotManifest =
  sm_schema :: string
  sm_regions :: "RegionDescriptor list"
  oep_candidates :: "'s OepCandidate list"

definition SNAPSHOT_SCHEMA :: string where
  "SNAPSHOT_SCHEMA = ''vuln_discovery.unpack_snapshot.v1''"

definition from_bytes :: "u64 \<Rightarrow> bytes \<Rightarrow> RegionBuffer" where
  "from_bytes va bs = \<lparr>rb_va_base = va, rb_bytes = bs, writes_observed = 0, executions_observed = 0\<rparr>"

definition to_descriptor ::
  "(bytes \<Rightarrow> string) \<Rightarrow> RegionBuffer \<Rightarrow> u32 \<Rightarrow> string \<Rightarrow> RegionOrigin \<Rightarrow> string \<Rightarrow> RegionDescriptor" where
  "to_descriptor blake3 b i perms orig blob =
     \<lparr>rd_id = i, rd_va_base = hex016_lower (rb_va_base b), size_bytes = of_nat (length (rb_bytes b)),
      permissions = perms, origin = orig, blob_path = blob, blob_hash_blake3 = blake3 (rb_bytes b),
      rd_writes_observed = writes_observed b, rd_executions_observed = executions_observed b\<rparr>"

section \<open>Capture\<close>

record CaptureFilter =
  include_image :: bool
  include_private :: bool
  include_mapped :: bool
  max_region_bytes :: u64

definition default_filter :: CaptureFilter where
  "default_filter = \<lparr>include_image = True, include_private = True, include_mapped = False,
     max_region_bytes = 64 * 1024 * 1024\<rparr>"

record CapturedRegion =
  cap_buffer :: RegionBuffer
  cap_permissions :: string
  cap_origin :: RegionOrigin

definition include_kind :: "CaptureFilter \<Rightarrow> RegionKind \<Rightarrow> bool" where
  "include_kind f k =
     (case k of KImage \<Rightarrow> include_image f | KMapped \<Rightarrow> include_mapped f | KPrivate \<Rightarrow> include_private f | KNone \<Rightarrow> False)"

text \<open>A read that fails or returns nothing gives an empty buffer.\<close>

definition read_region :: "(u64 \<Rightarrow> u64 \<Rightarrow> bytes option) \<Rightarrow> RegionInfo \<Rightarrow> RegionBuffer" where
  "read_region read_process r = from_bytes (ri_base r) (unwrap_or [] (read_process (ri_base r) (ri_size r)))"

definition captured_region :: "(u64 \<Rightarrow> u64 \<Rightarrow> bytes option) \<Rightarrow> CaptureFilter \<Rightarrow> RegionInfo \<Rightarrow> CapturedRegion option" where
  "captured_region read_process f r =
     (if ri_state r \<noteq> Committed \<or> \<not> include_kind f (ri_kind r) \<or> ri_size r > max_region_bytes f \<or> ri_protect r = ''---''
      then None
      else Some \<lparr>cap_buffer = read_region read_process r, cap_permissions = ri_protect r,
        cap_origin = \<lparr>alloc_api = (case ri_kind r of KImage \<Rightarrow> ''initial'' | KMapped \<Rightarrow> ''mapped''
              | KPrivate \<Rightarrow> ''VirtualAlloc'' | KNone \<Rightarrow> ''unknown''),
          alloc_site_va = hex016_lower (ri_allocation_base r), alloc_size_requested = ri_size r\<rparr>\<rparr>)"

definition capture ::
  "WinFlags \<Rightarrow> (u64 \<Rightarrow> Mbi option) \<Rightarrow> (u64 \<Rightarrow> u64 \<Rightarrow> bytes option) \<Rightarrow> CaptureFilter \<Rightarrow> CapturedRegion list option" where
  "capture w query read_process f =
     map_option (List.map_filter (captured_region read_process f)) (enumerate_regions w query)"

section \<open>Emission\<close>

definition blob_name :: "nat \<Rightarrow> string" where
  "blob_name idx = ''regions/region_'' @ pad0 2 (show_nat idx) @ ''.bin''"

definition manifest_name :: string where
  "manifest_name = ''unpack_provenance.json''"

definition dump_to :: "path \<Rightarrow> RegionBuffer \<Rightarrow> FS \<Rightarrow> (IoError, unit) result \<times> FS" where
  "dump_to p b fs = io_bind (sys_nop fs) (\<lambda>_ fs. write_atomic p (rb_bytes b) fs)"

fun emit_regions ::
  "(bytes \<Rightarrow> string) \<Rightarrow> path \<Rightarrow> nat \<Rightarrow> CapturedRegion list \<Rightarrow> FS \<Rightarrow> (IoError, RegionDescriptor list) result \<times> FS" where
  "emit_regions blake3 out_dir idx [] fs = (Ok [], fs)"
| "emit_regions blake3 out_dir idx (c # cs) fs =
     io_bind (dump_to (path_join out_dir (blob_name idx)) (cap_buffer c) fs) (\<lambda>_ fs.
       io_bind (emit_regions blake3 out_dir (Suc idx) cs fs) (\<lambda>ds fs.
         (Ok (to_descriptor blake3 (cap_buffer c) (of_nat idx) (cap_permissions c) (cap_origin c) (blob_name idx) # ds), fs)))"

definition emit_snapshot ::
  "('s SnapshotManifest \<Rightarrow> bytes) \<Rightarrow> (bytes \<Rightarrow> string) \<Rightarrow> path \<Rightarrow> 's SnapshotManifest \<Rightarrow> CapturedRegion list \<Rightarrow> FS \<Rightarrow>
   (IoError, nat \<times> 's SnapshotManifest) result \<times> FS" where
  "emit_snapshot encode blake3 out_dir manifest captured fs =
     io_bind (sys_nop fs) (\<lambda>_ fs.
       io_bind (emit_regions blake3 out_dir 0 captured fs) (\<lambda>ds fs.
         let manifest = manifest\<lparr>sm_regions := ds\<rparr>;
             manifest_bytes = encode manifest
         in io_bind (write_atomic (path_join out_dir manifest_name) manifest_bytes fs) (\<lambda>_ fs.
              (Ok (sum_list (map (\<lambda>c. length (rb_bytes (cap_buffer c))) captured) + length manifest_bytes, manifest), fs))))"

section \<open>Loading\<close>

datatype SnapshotError =
    SnapIo IoError | BadJson | WrongSchema string | NoRegions | BlobUnreadable u32 IoError
  | SizeMismatch u32 u64 nat | HashMismatch u32 string string

definition parse_hex_va :: "string \<Rightarrow> u64" where
  "parse_hex_va s =
     unwrap_or 0 (parse_u64_radix 16 (trim_start_matches ''0X'' (trim_start_matches ''0x'' (trim s))))"

definition char_at :: "string \<Rightarrow> nat \<Rightarrow> char \<Rightarrow> bool" where
  "char_at s i c \<longleftrightarrow> i < length s \<and> s ! i = c"

definition parse_permissions :: "string \<Rightarrow> bool \<times> bool \<times> bool" where
  "parse_permissions perms = (char_at perms 2 (CHR ''X''), char_at perms 0 (CHR ''R''), char_at perms 1 (CHR ''W''))"

text \<open>\<open>Path::join\<close>: an absolute path replaces the directory.\<close>

definition join_blob :: "path \<Rightarrow> string \<Rightarrow> path" where
  "join_blob dir p = (if p \<noteq> [] \<and> hd p = CHR ''/'' then p else path_join dir p)"

definition region_section :: "u64 \<Rightarrow> nat \<Rightarrow> RegionDescriptor \<Rightarrow> bytes \<Rightarrow> SectionRecord" where
  "region_section base offset r blob =
     (let va = parse_hex_va (rd_va_base r);
          (exec, rd, wr) = parse_permissions (permissions r)
      in \<lparr>sec_name = ''region_'' @ pad0 2 (show_nat (unat (rd_id r))),
          sec_rva = ucast (if va < base then 0 else va - base), sec_va = va,
          virtual_size = of_nat (length blob), raw_start = of_nat offset, raw_size = of_nat (length blob),
          data_size = length blob, executable = exec, readable = rd, writable = wr,
          data_range = (offset, offset + length blob)\<rparr>)"

text \<open>Reading and checking the blobs, in the order of the regions.\<close>

fun load_regions ::
  "(bytes \<Rightarrow> string) \<Rightarrow> path \<Rightarrow> u64 \<Rightarrow> nat \<Rightarrow> RegionDescriptor list \<Rightarrow> FS \<Rightarrow>
   (SnapshotError, (SectionRecord \<times> bytes) list) result \<times> FS" where
  "load_regions blake3 dir base offset [] fs = (Ok [], fs)"
| "load_regions blake3 dir base offset (r # rs) fs =
     (case sys_read (join_blob dir (blob_path r)) fs of
        (Err e, fs) \<Rightarrow> (Err (BlobUnreadable (rd_id r) e), fs)
      | (Ok blob, fs) \<Rightarrow>
          if of_nat (length blob) \<noteq> size_bytes r
          then (Err (SizeMismatch (rd_id r) (size_bytes r) (length blob)), fs)
          else if blake3 blob \<noteq> blob_hash_blake3 r
          then (Err (HashMismatch (rd_id r) (blob_hash_blake3 r) (blake3 blob)), fs)
          else (case load_regions blake3 dir base (offset + length blob) rs fs of
                  (Err e, fs) \<Rightarrow> (Err e, fs)
                | (Ok rest, fs) \<Rightarrow> (Ok ((region_section base offset r blob, blob) # rest), fs)))"

text \<open>\<open>max_by\<close>: of equal elements the later one wins.\<close>

fun max_by_score :: "('s::linorder) OepCandidate list \<Rightarrow> 's OepCandidate option" where
  "max_by_score [] = None"
| "max_by_score (x # xs) = Some (fold (\<lambda>y acc. if confidence_score acc > confidence_score y then acc else y) xs x)"

definition snapshot_entry :: "('s::linorder) OepCandidate list \<Rightarrow> u64" where
  "snapshot_entry cs = unwrap_or 0 (map_option (\<lambda>c. parse_hex_va (oep_va c)) (max_by_score cs))"

definition snapshot_image :: "u64 \<Rightarrow> ('s::linorder) OepCandidate list \<Rightarrow> (SectionRecord \<times> bytes) list \<Rightarrow> PEImage" where
  "snapshot_image base cs loaded =
     (let entry = snapshot_entry cs
      in \<lparr>pe_bytes = concat (map snd loaded), pe_base = base, entry_va = entry, machine = 0x8664,
          dll_characteristics = 0, data_directories = [], pe_sections = sort_key sec_rva (map fst loaded),
          pe_imports = [], pe_exports = [], pe_exceptions = [],
          function_seeds_cache = (if entry \<noteq> 0 then [entry] else []), overlay_offset_cache = None\<rparr>)"

definition from_snapshot ::
  "(bytes \<Rightarrow> ('s::linorder) SnapshotManifest option) \<Rightarrow> (bytes \<Rightarrow> string) \<Rightarrow> path \<Rightarrow> string \<Rightarrow> FS \<Rightarrow>
   (SnapshotError, PEImage) result \<times> FS" where
  "from_snapshot decode blake3 dir name fs =
     (case sys_read (path_join dir name) fs of
        (Err e, fs) \<Rightarrow> (Err (SnapIo e), fs)
      | (Ok manifest_bytes, fs) \<Rightarrow>
          (case decode manifest_bytes of
             None \<Rightarrow> (Err BadJson, fs)
           | Some m \<Rightarrow>
               if sm_schema m \<noteq> SNAPSHOT_SCHEMA then (Err (WrongSchema (sm_schema m)), fs)
               else if sm_regions m = [] then (Err NoRegions, fs)
               else let rs = sort_key (\<lambda>r. parse_hex_va (rd_va_base r)) (sm_regions m);
                        base = parse_hex_va (rd_va_base (hd rs))
                    in (case load_regions blake3 dir base 0 rs fs of
                          (Err e, fs) \<Rightarrow> (Err e, fs)
                        | (Ok loaded, fs) \<Rightarrow> (Ok (snapshot_image base (oep_candidates m) loaded), fs))))"

end
