(* ===== verification/Unpack_Props.thy ===== *)
theory Unpack_Props
  imports Unpack_Snapshot
begin

text \<open>
  The snapshot: addresses survive the text form of the manifest, a loaded snapshot has checked
  every blob, what was captured is found again at its addresses, and which candidate becomes
  the entry point.
\<close>

section \<open>Addresses as text\<close>

definition hex_char :: "nat \<Rightarrow> char" where
  "hex_char d = char_of (if d < 10 then 48 + d else 87 + d)"

lemma digit_val_hex_char: "d < 16 \<Longrightarrow> digit_val 16 (hex_char d) = Some d"
  by (cases "d < 10") (auto simp: digit_val_def hex_char_def of_char_char_of_small Let_def)

lemma show_hex_chars: "c \<in> set (show_radix 16 n) \<Longrightarrow> \<exists>d<16. c = hex_char d"
proof (induction "16::nat" n rule: show_radix.induct)
  case (1 n)
  show ?case
  proof (cases "n < 16")
    case True
    then show ?thesis using 1(2) by (subst (asm) show_radix.simps) (auto simp: hex_char_def)
  next
    case False
    have "show_radix 16 n = show_radix 16 (n div 16) @ [hex_char (n mod 16)]"
      using False by (subst show_radix.simps) (simp add: hex_char_def)
    then consider "c \<in> set (show_radix 16 (n div 16))" | "c = hex_char (n mod 16)" using 1(2) by auto
    then show ?thesis
    proof cases
      case 1
      then show ?thesis using "1.hyps" False by simp
    next
      case 2
      then show ?thesis by (intro exI [of _ "n mod 16"]) simp
    qed
  qed
qed

lemma parse_lower_hex: "parse_digits 16 (show_radix 16 n) 0 = Some n"
proof (induction "16::nat" n rule: show_radix.induct)
  case (1 n)
  show ?case
  proof (cases "n < 16")
    case True
    then have "show_radix 16 n = [hex_char n]" by (subst show_radix.simps) (simp add: hex_char_def)
    then show ?thesis using True by (simp add: digit_val_hex_char)
  next
    case False
    with 1 have IH: "parse_digits 16 (show_radix 16 (n div 16)) 0 = Some (n div 16)" by simp
    have "show_radix 16 n = show_radix 16 (n div 16) @ [hex_char (n mod 16)]"
      using False by (subst show_radix.simps) (simp add: hex_char_def)
    then show ?thesis using digit_val_hex_char [of "n mod 16"] by (simp add: parse_digits_append IH)
  qed
qed

lemma hex_char_props:
  assumes "d < 16"
  shows "\<not> is_ws (hex_char d)" "hex_char d \<noteq> CHR ''x''" "hex_char d \<noteq> CHR ''X''" "hex_char d \<noteq> CHR ''+''"
proof -
  show "\<not> is_ws (hex_char d)"
    using assms by (cases "d < 10") (auto simp: is_ws_def hex_char_def of_char_char_of_small Let_def)
  have "digit_val 16 (CHR ''x'') = None" "digit_val 16 (CHR ''X'') = None" "digit_val 16 (CHR ''+'') = None"
    by code_simp+
  then show "hex_char d \<noteq> CHR ''x''" "hex_char d \<noteq> CHR ''X''" "hex_char d \<noteq> CHR ''+''"
    using digit_val_hex_char [OF assms] by (metis option.distinct(1))+
qed

lemma hex16_chars: "c \<in> set (pad0 16 (show_radix 16 n)) \<Longrightarrow> \<exists>d<16. c = hex_char d"
proof -
  have "CHR ''0'' = hex_char 0" by (simp add: hex_char_def char_of_def bit_Suc_0_iff)
  then show "c \<in> set (pad0 16 (show_radix 16 n)) \<Longrightarrow> \<exists>d<16. c = hex_char d"
    using show_hex_chars by (fastforce simp: pad0_def split: if_splits)
qed

lemma trim_id: "s \<noteq> [] \<Longrightarrow> \<not> is_ws (hd s) \<Longrightarrow> \<not> is_ws (last s) \<Longrightarrow> trim s = s"
proof -
  assume s: "s \<noteq> []" "\<not> is_ws (hd s)" "\<not> is_ws (last s)"
  have "dropWhile is_ws s = s" using s by (cases s) auto
  moreover have "dropWhile is_ws (rev s) = rev s" using s by (cases "rev s") (auto simp: hd_rev [symmetric])
  ultimately show "trim s = s" by (simp add: trim_def)
qed

lemma trim_no_match: "(\<And>c. c \<in> set s \<Longrightarrow> c \<noteq> b) \<Longrightarrow> trim_start_matches [a, b] s = s"
proof -
  assume c: "\<And>c. c \<in> set s \<Longrightarrow> c \<noteq> b"
  have "strip_prefix [a, b] s = None"
  proof (cases "strip_prefix [a, b] s")
    case (Some r)
    then show ?thesis using c by (auto simp: strip_prefix_Some)
  qed
  then show ?thesis by (subst trim_start_matches.simps) simp
qed

lemma parse_hex_lower: "parse_hex_va (hex016_lower v) = v"
proof -
  let ?s = "pad0 16 (show_radix 16 (unat v))"
  have ne: "?s \<noteq> []" by (simp add: pad0_def show_radix_nonempty)
  have ch: "\<And>c. c \<in> set ?s \<Longrightarrow> \<not> is_ws c \<and> c \<noteq> CHR ''x'' \<and> c \<noteq> CHR ''X'' \<and> c \<noteq> CHR ''+''"
    using hex16_chars hex_char_props by metis
  have "trim (''0x'' @ ?s) = ''0x'' @ ?s"
  proof (rule trim_id)
    have "\<not> is_ws (CHR ''0'')" by code_simp
    then show "\<not> is_ws (hd (''0x'' @ ?s))" by simp
    show "\<not> is_ws (last (''0x'' @ ?s))" using ch [OF last_in_set [OF ne]] ne by simp
  qed simp
  moreover have "trim_start_matches ''0x'' (''0x'' @ ?s) = ?s"
    by (subst trim_start_matches.simps) (simp add: trim_no_match ch del: append_Cons append.simps strip_prefix.simps)
  moreover have "trim_start_matches ''0X'' ?s = ?s" using ch by (intro trim_no_match) blast
  moreover have "parse_u64_radix 16 ?s = Some v"
  proof -
    obtain c cs where s: "?s = c # cs" using ne by (cases ?s) auto
    have "int (unat v) < 2 ^ 64" using unsigned_less [of v, where ?'a = int] by simp
    moreover have "parse_digits 16 ?s 0 = Some (unat v)" by (simp add: pad0_def parse_zeros parse_lower_hex)
    moreover have "c \<noteq> CHR ''+''" using ch [of c] s by simp
    ultimately have "parse_unsigned 64 16 ?s = Some (unat v)" using s by (simp add: parse_unsigned_def)
    then show ?thesis by (simp add: parse_u64_radix_def)
  qed
  ultimately show ?thesis by (simp add: parse_hex_va_def hex016_lower_def del: append_Cons append.simps)
qed

section \<open>File names\<close>

lemma pad0_show_inj: "pad0 2 (show_nat i) = pad0 2 (show_nat j) \<Longrightarrow> i = j"
proof -
  have z: "parse_digits 10 (replicate k (CHR ''0'') @ s) 0 = parse_digits 10 s 0" for k s
  proof (induction k)
    case (Suc k)
    have "digit_val 10 (CHR ''0'') = Some 0" by code_simp
    then show ?case using Suc by simp
  qed simp
  assume "pad0 2 (show_nat i) = pad0 2 (show_nat j)"
  then have "parse_digits 10 (pad0 2 (show_nat i)) 0 = parse_digits 10 (pad0 2 (show_nat j)) 0" by simp
  then show "i = j" by (simp add: pad0_def z parse_digits_show_nat)
qed

lemma blob_name_inj [simp]: "blob_name i = blob_name j \<longleftrightarrow> i = j"
  by (auto simp: blob_name_def dest: pad0_show_inj)

lemma blob_name_neq [simp]: "blob_name i \<noteq> manifest_name" "manifest_name \<noteq> blob_name i"
  by (simp_all add: blob_name_def manifest_name_def)

lemma blob_not_tmp [simp]:
  "path_join d (blob_name i) \<noteq> with_tmp_extension p" "with_tmp_extension p \<noteq> path_join d (blob_name i)"
  "path_join d manifest_name \<noteq> with_tmp_extension p"
proof -
  have l: "last (with_tmp_extension p) = CHR ''p''" by (simp add: with_tmp_extension_def)
  have "last (path_join d (blob_name i)) = CHR ''n''" by (simp add: path_join_def blob_name_def)
  then show "path_join d (blob_name i) \<noteq> with_tmp_extension p" "with_tmp_extension p \<noteq> path_join d (blob_name i)"
    using l by force+
  have "last (path_join d manifest_name) = CHR ''n''" by (simp add: path_join_def manifest_name_def)
  then show "path_join d manifest_name \<noteq> with_tmp_extension p" using l by force
qed

lemma join_blob_name [simp]: "join_blob d (blob_name i) = path_join d (blob_name i)"
  by (simp add: join_blob_def blob_name_def)

section \<open>Emission\<close>

definition descriptor_of :: "(bytes \<Rightarrow> string) \<Rightarrow> nat \<Rightarrow> CapturedRegion \<Rightarrow> RegionDescriptor" where
  "descriptor_of blake3 idx c =
     to_descriptor blake3 (cap_buffer c) (of_nat idx) (cap_permissions c) (cap_origin c) (blob_name idx)"

lemma dump_to_ok:
  assumes "dump_to p b fs = (Ok u, fs')"
  shows "fs_read fs' p = Some (rb_bytes b)" "q \<noteq> p \<Longrightarrow> q \<noteq> with_tmp_extension p \<Longrightarrow> fs_read fs' q = fs_read fs q"
proof -
  obtain a fs1 where s: "sys_nop fs = (Ok a, fs1)" "write_atomic p (rb_bytes b) fs1 = (Ok u, fs')"
    using assms by (auto simp: dump_to_def io_bind_Ok)
  show "fs_read fs' p = Some (rb_bytes b)" using write_atomic_ok [OF s(2)] by simp
  show "q \<noteq> p \<Longrightarrow> q \<noteq> with_tmp_extension p \<Longrightarrow> fs_read fs' q = fs_read fs q"
    using write_atomic_ok [OF s(2), of q] sys_nop_readD [OF s(1)] by simp
qed

text \<open>After the blobs are written each is in its file, and each descriptor describes its region.\<close>

lemma emit_regions_ok:
  assumes "emit_regions blake3 dir idx cs fs = (Ok ds, fs')"
  shows "ds = map (\<lambda>(k, c). descriptor_of blake3 k c) (List.enumerate idx cs) \<and>
    (\<forall>k<length cs. fs_read fs' (path_join dir (blob_name (idx + k))) = Some (rb_bytes (cap_buffer (cs ! k)))) \<and>
    (\<forall>i<idx. fs_read fs' (path_join dir (blob_name i)) = fs_read fs (path_join dir (blob_name i)))"
  using assms
proof (induction blake3 dir idx cs fs arbitrary: ds fs' rule: emit_regions.induct)
  case (2 blake3 dir idx c cs fs)
  obtain u fs1 rest where d: "dump_to (path_join dir (blob_name idx)) (cap_buffer c) fs = (Ok u, fs1)"
    and e: "emit_regions blake3 dir (Suc idx) cs fs1 = (Ok rest, fs')" and ds: "ds = descriptor_of blake3 idx c # rest"
    using 2(2) by (auto simp: io_bind_Ok descriptor_of_def)
  note IH = 2(1) [OF e]
  note w = dump_to_ok [OF d]
  have here: "fs_read fs' (path_join dir (blob_name idx)) = Some (rb_bytes (cap_buffer c))"
    using IH w(1) by simp
  have "fs_read fs' (path_join dir (blob_name (idx + k))) = Some (rb_bytes (cap_buffer ((c # cs) ! k)))"
    if "k < length (c # cs)" for k
    using that here IH by (cases k) auto
  moreover have "fs_read fs' (path_join dir (blob_name i)) = fs_read fs (path_join dir (blob_name i))" if "i < idx" for i
    using IH w(2) [of "path_join dir (blob_name i)"] that by simp
  ultimately show ?case using IH ds by simp
qed simp

lemma emit_snapshot_ok:
  assumes "emit_snapshot encode blake3 dir m cs fs = (Ok (written, m'), fs')"
  shows "m' = m\<lparr>sm_regions := map (\<lambda>(k, c). descriptor_of blake3 k c) (List.enumerate 0 cs)\<rparr> \<and>
    fs_read fs' (path_join dir manifest_name) = Some (encode m') \<and>
    (\<forall>k<length cs. fs_read fs' (path_join dir (blob_name k)) = Some (rb_bytes (cap_buffer (cs ! k))))"
proof -
  obtain fs1 ds fs2 u where e: "emit_regions blake3 dir 0 cs fs1 = (Ok ds, fs2)" and m': "m' = m\<lparr>sm_regions := ds\<rparr>"
    and w: "write_atomic (path_join dir manifest_name) (encode m') fs2 = (Ok u, fs')"
    using assms by (auto simp: emit_snapshot_def io_bind_Ok Let_def)
  note r = emit_regions_ok [OF e]
  have "fs_read fs' (path_join dir (blob_name k)) = fs_read fs2 (path_join dir (blob_name k))" for k
    using write_atomic_ok [OF w, of "path_join dir (blob_name k)"] by simp
  moreover have "fs_read fs' (path_join dir manifest_name) = Some (encode m')"
    using write_atomic_ok [OF w] by simp
  ultimately show ?thesis using r m' by simp
qed

section \<open>Loading\<close>

lemma sys_read_ok: "sys_read p fs = (Ok b, fs') \<Longrightarrow> fs_read fs p = Some b \<and> (\<forall>q. fs_read fs' q = fs_read fs q)"
  by (auto simp: sys_read_def split: prod.splits option.splits Fault.splits)

lemma sys_read_no_fault: "faults fs = [] \<Longrightarrow> fs_read fs p = Some b \<Longrightarrow> sys_read p fs = (Ok b, fs)"
  by (simp add: sys_read_def)

definition blob_ok :: "(bytes \<Rightarrow> string) \<Rightarrow> RegionDescriptor \<Rightarrow> bytes \<Rightarrow> bool" where
  "blob_ok blake3 r b \<longleftrightarrow> of_nat (length b) = size_bytes r \<and> blake3 b = blob_hash_blake3 r"

text \<open>Loaded sections: one for each region, over its blob, at consecutive places of the buffer.\<close>

lemma load_regions_ok:
  assumes "load_regions blake3 dir base offset rs fs = (Ok loaded, fs')"
  shows "(\<forall>r\<in>set rs. \<exists>b. fs_read fs (join_blob dir (blob_path r)) = Some b \<and> blob_ok blake3 r b) \<and>
    list_all2 (\<lambda>r (s, b). fs_read fs (join_blob dir (blob_path r)) = Some b \<and>
      (\<exists>pre suf. concat (map snd loaded) = pre @ b @ suf \<and> s = region_section base (offset + length pre) r b)) rs loaded"
  using assms
proof (induction blake3 dir base offset rs fs arbitrary: loaded fs' rule: load_regions.induct)
  case (2 blake3 dir base offset r rs fs)
  obtain b fs1 where b: "sys_read (join_blob dir (blob_path r)) fs = (Ok b, fs1)"
    "of_nat (length b) = size_bytes r" "blake3 b = blob_hash_blake3 r"
    using 2(2) by (auto split: prod.splits sum.splits if_splits)
  then obtain rest where rest: "load_regions blake3 dir base (offset + length b) rs fs1 = (Ok rest, fs')"
    "loaded = (region_section base offset r b, b) # rest"
    using 2(2) by (auto split: prod.splits sum.splits if_splits)
  have rd: "fs_read fs (join_blob dir (blob_path r)) = Some b" "fs_read fs1 q = fs_read fs q" for q
    using sys_read_ok [OF b(1)] by auto
  have IH: "(\<forall>r\<in>set rs. \<exists>b. fs_read fs1 (join_blob dir (blob_path r)) = Some b \<and> blob_ok blake3 r b) \<and>
    list_all2 (\<lambda>r (s, b). fs_read fs1 (join_blob dir (blob_path r)) = Some b \<and>
      (\<exists>pre suf. concat (map snd rest) = pre @ b @ suf \<and> s = region_section base (offset + length b0 + length pre) r b)) rs rest"
    if b0: "b0 = b" for b0
    unfolding b0 by (rule 2(1) [OF b(1) [symmetric] refl _ _ rest(1)]) (simp_all add: b)
  have "list_all2 (\<lambda>r (s, c). fs_read fs (join_blob dir (blob_path r)) = Some c \<and>
      (\<exists>pre suf. concat (map snd loaded) = pre @ c @ suf \<and> s = region_section base (offset + length pre) r c)) rs rest"
  proof (rule list_all2_mono [OF conjunct2 [OF IH [OF refl]]])
    fix q p
    assume h: "case p of (s, c) \<Rightarrow> fs_read fs1 (join_blob dir (blob_path q)) = Some c \<and>
      (\<exists>pre suf. concat (map snd rest) = pre @ c @ suf \<and> s = region_section base (offset + length b + length pre) q c)"
    obtain s c where p: "p = (s, c)" by fastforce
    obtain pre suf where ps: "concat (map snd rest) = pre @ c @ suf"
      "s = region_section base (offset + length b + length pre) q c" using h p by auto
    have "concat (map snd loaded) = (b @ pre) @ c @ suf" using ps(1) rest(2) by simp
    moreover have "s = region_section base (offset + length (b @ pre)) q c" using ps(2) by (simp add: add.assoc)
    ultimately show "case p of (s, c) \<Rightarrow> fs_read fs (join_blob dir (blob_path q)) = Some c \<and>
      (\<exists>pre suf. concat (map snd loaded) = pre @ c @ suf \<and> s = region_section base (offset + length pre) q c)"
      using h p rd(2) by (simp only: prod.case) blast
  qed
  moreover have "\<exists>pre suf. concat (map snd loaded) = pre @ b @ suf \<and>
      region_section base offset r b = region_section base (offset + length pre) r b"
    by (intro exI [of _ "[]"] exI [of _ "concat (map snd rest)"]) (simp add: rest(2))
  ultimately show ?case using IH [OF refl] b rd by (auto simp: rest(2) blob_ok_def)
qed simp

lemma load_regions_succeeds:
  assumes "faults fs = []" "\<And>r. r \<in> set rs \<Longrightarrow> \<exists>b. fs_read fs (join_blob dir (blob_path r)) = Some b \<and> blob_ok blake3 r b"
  shows "\<exists>loaded. load_regions blake3 dir base offset rs fs = (Ok loaded, fs)"
  using assms(2)
proof (induction rs arbitrary: offset)
  case (Cons r rs)
  obtain b where b: "fs_read fs (join_blob dir (blob_path r)) = Some b" "blob_ok blake3 r b" using Cons.prems by auto
  obtain rest where "load_regions blake3 dir base (offset + length b) rs fs = (Ok rest, fs)"
    using Cons.IH [of "offset + length b"] Cons.prems by auto
  then show ?case using sys_read_no_fault [OF assms(1) b(1)] b(2) by (simp add: blob_ok_def)
qed simp

text \<open>
  A snapshot that loads has the expected schema, at least one region, and for every region a blob
  whose size and hash are those of the manifest.
\<close>

theorem snapshot_checks_blobs:
  assumes "from_snapshot decode blake3 dir name fs = (Ok img, fs')"
  shows "\<exists>bs m. fs_read fs (path_join dir name) = Some bs \<and> decode bs = Some m \<and> sm_schema m = SNAPSHOT_SCHEMA \<and>
    sm_regions m \<noteq> [] \<and>
    (\<forall>r\<in>set (sm_regions m). \<exists>b. fs_read fs (join_blob dir (blob_path r)) = Some b \<and> blob_ok blake3 r b)"
proof -
  let ?rs = "\<lambda>m. sort_key (\<lambda>r. parse_hex_va (rd_va_base r)) (sm_regions m)"
  obtain bs m loaded fs1 where b: "sys_read (path_join dir name) fs = (Ok bs, fs1)" "decode bs = Some m"
    "sm_schema m = SNAPSHOT_SCHEMA" "sm_regions m \<noteq> []"
    "load_regions blake3 dir (parse_hex_va (rd_va_base (hd (?rs m)))) 0 (?rs m) fs1 = (Ok loaded, fs')"
    using assms by (auto simp: from_snapshot_def Let_def split: prod.splits sum.splits option.splits if_splits)
  have "fs_read fs1 q = fs_read fs q" for q using sys_read_ok [OF b(1)] by simp
  moreover have "\<forall>r\<in>set (sm_regions m). \<exists>b. fs_read fs1 (join_blob dir (blob_path r)) = Some b \<and> blob_ok blake3 r b"
    using load_regions_ok [OF b(5)] by simp
  ultimately show ?thesis using b sys_read_ok [OF b(1)] by auto
qed

section \<open>The entry point\<close>

definition keep_best :: "('s::linorder) OepCandidate \<Rightarrow> 's OepCandidate \<Rightarrow> 's OepCandidate" where
  "keep_best y acc = (if confidence_score acc > confidence_score y then acc else y)"

lemma fold_last_max:
  "\<exists>pre suf. x # xs = pre @ fold keep_best xs x # suf \<and>
     (\<forall>y\<in>set pre. confidence_score y \<le> confidence_score (fold keep_best xs x)) \<and>
     (\<forall>y\<in>set suf. confidence_score y < confidence_score (fold keep_best xs x))"
proof (induction xs rule: rev_induct)
  case (snoc y xs)
  let ?m = "fold keep_best xs x"
  obtain pre suf where IH: "x # xs = pre @ ?m # suf" "\<forall>y\<in>set pre. confidence_score y \<le> confidence_score ?m"
    "\<forall>y\<in>set suf. confidence_score y < confidence_score ?m" using snoc by blast
  show ?case
  proof (cases "confidence_score ?m > confidence_score y")
    case True
    then have e: "fold keep_best (xs @ [y]) x = ?m" by (simp add: keep_best_def)
    have "x # xs @ [y] = pre @ ?m # (suf @ [y])" using IH(1) by simp
    then show ?thesis unfolding e using IH(2,3) True by (intro exI [of _ pre] exI [of _ "suf @ [y]"]) auto
  next
    case False
    then have e: "fold keep_best (xs @ [y]) x = y" by (simp add: keep_best_def)
    have "\<forall>z\<in>set (x # xs). confidence_score z \<le> confidence_score y"
      unfolding IH(1) using IH(2,3) False by force
    then show ?thesis unfolding e by (intro exI [of _ "x # xs"] exI [of _ "[]"]) simp
  qed
next
  case Nil
  show ?case by (intro exI [of _ "[]"]) simp
qed

text \<open>
  The entry point is the address of the last of the best candidates, in the order of the manifest.
\<close>

theorem snapshot_entry_last_best:
  assumes "cs \<noteq> []"
  shows "\<exists>pre c suf. cs = pre @ c # suf \<and> snapshot_entry cs = parse_hex_va (oep_va c) \<and>
    (\<forall>y\<in>set pre. confidence_score y \<le> confidence_score c) \<and> (\<forall>y\<in>set suf. confidence_score y < confidence_score c)"
proof -
  obtain x xs where cs: "cs = x # xs" using assms by (cases cs) auto
  show ?thesis
    using fold_last_max [of x xs] unfolding cs snapshot_entry_def max_by_score.simps keep_best_def [abs_def]
    by (simp only: option.map unwrap_or_simps) blast
qed

section \<open>Round trip\<close>

definition cap_va :: "CapturedRegion \<Rightarrow> u64" where
  "cap_va c = rb_va_base (cap_buffer c)"

definition cap_bytes :: "CapturedRegion \<Rightarrow> bytes" where
  "cap_bytes c = rb_bytes (cap_buffer c)"

text \<open>All regions lie within four gigabytes, and two of them do not overlap.\<close>

definition regions_close :: "CapturedRegion list \<Rightarrow> bool" where
  "regions_close cs \<longleftrightarrow>
     (\<forall>c\<in>set cs. \<forall>d\<in>set cs. unat (cap_va c) + length (cap_bytes c) < unat (cap_va d) + 2 ^ 32)"

definition regions_disjoint :: "CapturedRegion list \<Rightarrow> bool" where
  "regions_disjoint cs \<longleftrightarrow>
     (\<forall>c\<in>set cs. \<forall>d\<in>set cs. c = d \<or> unat (cap_va c) + length (cap_bytes c) \<le> unat (cap_va d) \<or>
        unat (cap_va d) + length (cap_bytes d) \<le> unat (cap_va c))"

definition section_of :: "CapturedRegion \<Rightarrow> u64 \<Rightarrow> bytes \<Rightarrow> SectionRecord \<Rightarrow> bool" where
  "section_of c base buf s \<longleftrightarrow>
     sec_va s = cap_va c \<and> sec_rva s = ucast (cap_va c - base) \<and> section_span s = of_nat (length (cap_bytes c)) \<and>
     section_data s buf = Some (cap_bytes c) \<and>
     (executable s, readable s, writable s) = parse_permissions (cap_permissions c)"

lemma region_section_of:
  assumes "concat (map snd loaded) = pre @ cap_bytes c @ suf" "base \<le> cap_va c"
  shows "section_of c base (concat (map snd loaded)) (region_section base (length pre) (descriptor_of blake3 k c) (cap_bytes c))"
proof -
  have "parse_hex_va (rd_va_base (descriptor_of blake3 k c)) = cap_va c"
    by (simp add: descriptor_of_def to_descriptor_def parse_hex_lower cap_va_def)
  then show ?thesis
    using assms
    by (auto simp: section_of_def region_section_def Let_def section_span_def section_data_def descriptor_of_def
        to_descriptor_def split: prod.split)
qed

lemma unat_ucast32: "unat (x :: u64) < 2 ^ 32 \<Longrightarrow> unat (ucast x :: u32) = unat x"
  by (simp add: unsigned_ucast_eq take_bit_eq_mod)

text \<open>An address of a region is in the section of that region and of no other.\<close>

lemma lookup_section:
  assumes sections: "\<And>s. s \<in> set (pe_sections img) \<Longrightarrow> \<exists>d\<in>set cs. section_of d (pe_base img) (pe_bytes img) s"
    and all: "\<And>d. d \<in> set cs \<Longrightarrow> \<exists>s\<in>set (pe_sections img). section_of d (pe_base img) (pe_bytes img) s"
    and cs: "regions_close cs" "regions_disjoint cs" and base: "\<exists>d\<in>set cs. cap_va d = pe_base img"
      "\<forall>d\<in>set cs. pe_base img \<le> cap_va d"
    and c: "c \<in> set cs" "i < length (cap_bytes c)" "unat (cap_va c) + length (cap_bytes c) \<le> 2 ^ 64"
  shows "\<exists>s. section_for_va img (cap_va c + of_nat i) = Some s \<and> section_of c (pe_base img) (pe_bytes img) s"
proof -
  let ?a = "cap_va c + of_nat i"
  let ?b = "pe_base img"
  obtain e where e: "e \<in> set cs" "cap_va e = ?b" using base(1) by blast
  have near: "unat (cap_va d) + length (cap_bytes d) < unat ?b + 2 ^ 32" if "d \<in> set cs" for d
    using bspec [OF bspec [OF cs(1) [unfolded regions_close_def] that] e(1)] e(2) by simp
  have a: "unat ?a = unat (cap_va c) + i"
  proof -
    have "unat (of_nat i :: u64) = i" using c(2,3) by (intro unat_of_nat_less) simp
    then show ?thesis using c(2,3) by (simp add: unat_word_ariths)
  qed
  have le: "unat ?b \<le> unat (cap_va d)" if "d \<in> set cs" for d using base(2) that by (simp add: word_le_nat_alt)
  have diff: "unat (x - ?b) = unat x - unat ?b" if "unat ?b \<le> unat x" for x
    using that by (simp add: unat_sub word_le_nat_alt)
  have rva: "unat (ucast (x - ?b) :: u32) = unat x - unat ?b" if "unat ?b \<le> unat x" "unat x < unat ?b + 2 ^ 32" for x
    using unat_ucast32 [of "x - ?b"] diff [OF that(1)] that(2) by simp
  have inside: "(sec_rva s \<le> ucast (?a - ?b) \<and> ucast (?a - ?b) < sat_add32 (sec_rva s) (section_span s)) \<longleftrightarrow>
      unat (cap_va d) \<le> unat ?a \<and> unat ?a < unat (cap_va d) + length (cap_bytes d)"
    if d: "d \<in> set cs" "section_of d ?b (pe_bytes img) s" for d s
  proof -
    have len: "length (cap_bytes d) < 2 ^ 32" using cs(1) d(1) by (force simp: regions_close_def)
    then have span: "unat (section_span s) = length (cap_bytes d)"
      using d(2) by (simp add: section_of_def unat_of_nat_less)
    have r: "unat (sec_rva s) = unat (cap_va d) - unat ?b"
      using d(2) rva [of "cap_va d"] near [OF d(1)] le [OF d(1)] by (simp add: section_of_def)
    have ra: "unat (ucast (?a - ?b) :: u32) = unat ?a - unat ?b"
      using rva [of ?a] near [OF c(1)] le [OF c(1)] a c(2) by simp
    have "min (unat (sec_rva s) + unat (section_span s)) (2 ^ 32 - 1) = unat (sec_rva s) + unat (section_span s)"
      using r span near [OF d(1)] le [OF d(1)] by simp
    then show ?thesis
      using r ra span le [OF d(1)] le [OF c(1)] a
      by (simp add: word_le_nat_alt word_less_nat_alt sat_add32_unat) linarith
  qed
  have hit: "unat (cap_va c) \<le> unat ?a \<and> unat ?a < unat (cap_va c) + length (cap_bytes c)" using a c(2) by simp
  obtain s0 where s0: "s0 \<in> set (pe_sections img)" "section_of c ?b (pe_bytes img) s0" using all [OF c(1)] by blast
  let ?P = "\<lambda>s. sec_rva s \<le> ucast (?a - ?b) \<and> ucast (?a - ?b) < sat_add32 (sec_rva s) (section_span s)"
  have "\<exists>s\<in>set (pe_sections img). ?P s" using inside [OF c(1) s0(2)] hit s0(1) by blast
  then have "find ?P (pe_sections img) \<noteq> None" unfolding find_None_iff by blast
  then obtain s where s: "find ?P (pe_sections img) = Some s" by blast
  then have sp: "s \<in> set (pe_sections img)" "?P s" by (auto simp: find_Some_iff)
  obtain d where d: "d \<in> set cs" "section_of d ?b (pe_bytes img) s" using sections [OF sp(1)] by blast
  have "unat (cap_va d) \<le> unat ?a \<and> unat ?a < unat (cap_va d) + length (cap_bytes d)" using inside [OF d] sp(2) by blast
  then have "d = c" using cs(2) c(1) d(1) hit by (force simp: regions_disjoint_def)
  moreover have "\<not> ?a < ?b" using a le [OF c(1)] by (simp add: word_less_nat_alt)
  ultimately have "section_for_va img ?a = Some s \<and> section_of c ?b (pe_bytes img) s"
    using s d(2) unfolding section_for_va_def section_for_rva_def by simp
  then show ?thesis by blast
qed

lemma hd_sort_key_le:
  assumes "x \<in> set xs"
  shows "f (hd (sort_key f xs)) \<le> f x" "hd (sort_key f xs) \<in> set xs"
proof -
  have st: "set (sort_key f xs) = set xs" by simp
  have ne: "sort_key f xs \<noteq> []" using st assms by force
  then obtain y ys where s: "sort_key f xs = y # ys" by (cases "sort_key f xs") auto
  have "sorted (map f (y # ys))" using sorted_sort_key [of f xs] by (simp add: s)
  moreover have "x \<in> set (y # ys)" using st assms by (simp add: s)
  ultimately show "f (hd (sort_key f xs)) \<le> f x" by (auto simp: s)
  show "hd (sort_key f xs) \<in> set xs" using st by (auto simp: s)
qed

lemma descriptor_of_fields:
  "parse_hex_va (rd_va_base (descriptor_of blake3 k c)) = cap_va c"
  "blob_path (descriptor_of blake3 k c) = blob_name k"
  "blob_ok blake3 (descriptor_of blake3 k c) (cap_bytes c)"
  by (simp_all add: descriptor_of_def to_descriptor_def parse_hex_lower cap_va_def cap_bytes_def blob_ok_def)

lemma set_descriptors:
  "r \<in> set (map (\<lambda>(k, c). descriptor_of blake3 k c) (List.enumerate 0 cs)) \<longleftrightarrow>
     (\<exists>k<length cs. r = descriptor_of blake3 k (cs ! k))"
proof -
  have "(k, c) \<in> set (List.enumerate 0 cs) \<longleftrightarrow> k < length cs \<and> c = cs ! k" for k c
    by (auto simp: in_set_enumerate_eq)
  then show ?thesis by (force simp: image_iff)
qed

text \<open>The sections of the image are those of the captured regions.\<close>

lemma loaded_sections:
  assumes loaded: "load_regions blake3 dir base 0 rs fs = (Ok loaded, fs')"
    and rs: "\<And>r. r \<in> set rs \<longleftrightarrow> (\<exists>k<length cs. r = descriptor_of blake3 k (cs ! k))"
    and files: "\<And>k. k < length cs \<Longrightarrow> fs_read fs (path_join dir (blob_name k)) = Some (cap_bytes (cs ! k))"
    and base: "\<And>c. c \<in> set cs \<Longrightarrow> base \<le> cap_va c"
  shows "s \<in> set (map fst loaded) \<Longrightarrow> \<exists>d\<in>set cs. section_of d base (concat (map snd loaded)) s"
    "d \<in> set cs \<Longrightarrow> \<exists>s\<in>set (map fst loaded). section_of d base (concat (map snd loaded)) s"
proof -
  let ?buf = "concat (map snd loaded)"
  have all: "list_all2 (\<lambda>r (s, b). fs_read fs (join_blob dir (blob_path r)) = Some b \<and>
      (\<exists>pre suf. ?buf = pre @ b @ suf \<and> s = region_section base (length pre) r b)) rs loaded"
    using load_regions_ok [OF loaded] by simp
  then have len: "length rs = length loaded" by (rule list_all2_lengthD)
  have at: "section_of (cs ! k) base ?buf (fst (loaded ! i))"
    if i: "i < length rs" and k: "k < length cs" "rs ! i = descriptor_of blake3 k (cs ! k)" for i k
  proof -
    obtain s b where sb: "loaded ! i = (s, b)" by fastforce
    obtain pre suf where r: "fs_read fs (path_join dir (blob_name k)) = Some b" "?buf = pre @ b @ suf"
      "s = region_section base (length pre) (rs ! i) b"
      using list_all2_nthD [OF all i] sb by (auto simp: k(2) descriptor_of_fields)
    then have "b = cap_bytes (cs ! k)" using files [OF k(1)] by simp
    then show ?thesis using region_section_of [of loaded pre "cs ! k" suf base blake3 k] r base [OF nth_mem [OF k(1)]] k(2) sb
      by simp
  qed
  show "\<exists>d\<in>set cs. section_of d base ?buf s" if s: "s \<in> set (map fst loaded)"
  proof -
    obtain i where i: "i < length rs" "s = fst (loaded ! i)" using s len by (auto simp: in_set_conv_nth)
    obtain k where "k < length cs" "rs ! i = descriptor_of blake3 k (cs ! k)" using rs [of "rs ! i"] i(1) by auto
    then show ?thesis using at [OF i(1)] i(2) nth_mem by blast
  qed
  show "\<exists>s\<in>set (map fst loaded). section_of d base ?buf s" if d: "d \<in> set cs"
  proof -
    obtain k where k: "k < length cs" "d = cs ! k" using d by (auto simp: in_set_conv_nth)
    obtain i where i: "i < length rs" "rs ! i = descriptor_of blake3 k (cs ! k)"
      using rs [of "descriptor_of blake3 k (cs ! k)"] k(1) by (auto simp: in_set_conv_nth)
    then show ?thesis using at [OF i(1) k(1) i(2)] k(2) len by auto
  qed
qed

text \<open>
  C7: a snapshot of disjoint regions within 4 GB of each other is loaded back. When the capture is not empty,
  no two regions overlap, every region ends less than 4 GB above the start of every other one and within the
  64-bit address space, the manifest has the schema the loader knows and decodes back from its encoding, and
  no further read fails, then the loader returns an image, and every address of every region is found in
  a section that holds the bytes of that region, with its permissions. The distance is needed: the loader keeps
  section addresses as 32-bit offsets from the lowest region, so a capture that spans more is not covered.
\<close>

theorem snapshot_round_trip:
  assumes emit: "emit_snapshot encode blake3 dir m cs fs = (Ok (written, m'), fs')"
    and json: "decode (encode m') = Some m'" and "faults fs' = []"
    and schema: "sm_schema m = SNAPSHOT_SCHEMA" and ne: "cs \<noteq> []"
    and cs: "regions_close cs" "regions_disjoint cs"
    and fit: "\<And>c. c \<in> set cs \<Longrightarrow> unat (cap_va c) + length (cap_bytes c) \<le> 2 ^ 64"
  shows "\<exists>img. from_snapshot decode blake3 dir manifest_name fs' = (Ok img, fs') \<and>
    (\<forall>c\<in>set cs. \<forall>i<length (cap_bytes c). \<exists>s. section_for_va img (cap_va c + of_nat i) = Some s \<and>
       section_of c (pe_base img) (pe_bytes img) s)"
proof -
  let ?ds = "map (\<lambda>(k, c). descriptor_of blake3 k c) (List.enumerate 0 cs)"
  let ?key = "\<lambda>r. parse_hex_va (rd_va_base r)"
  define rs where "rs = sort_key ?key ?ds"
  define base where "base = ?key (hd rs)"
  note e = emit_snapshot_ok [OF emit]
  have m': "m' = m\<lparr>sm_regions := ?ds\<rparr>" using e by simp
  have files: "fs_read fs' (path_join dir (blob_name k)) = Some (cap_bytes (cs ! k))" if "k < length cs" for k
    using e that by (simp add: cap_bytes_def)
  have rs: "r \<in> set rs \<longleftrightarrow> (\<exists>k<length cs. r = descriptor_of blake3 k (cs ! k))" for r
    unfolding rs_def set_sort by (rule set_descriptors)
  have d0: "descriptor_of blake3 k (cs ! k) \<in> set ?ds" if "k < length cs" for k
    using set_descriptors that by blast
  have min: "base \<le> cap_va c" if c: "c \<in> set cs" for c
  proof -
    obtain k where k: "k < length cs" "c = cs ! k" using c by (auto simp: in_set_conv_nth)
    show ?thesis using hd_sort_key_le(1) [OF d0 [OF k(1)], of ?key] k(2)
      by (simp add: base_def rs_def descriptor_of_fields)
  qed
  have "hd rs \<in> set ?ds" using hd_sort_key_le(2) [OF d0 [of 0]] ne by (simp add: rs_def)
  then obtain k where k: "k < length cs" "hd rs = descriptor_of blake3 k (cs ! k)" unfolding set_descriptors by blast
  then have attained: "\<exists>d\<in>set cs. cap_va d = base" by (auto simp: base_def descriptor_of_fields)
  have "\<exists>b. fs_read fs' (join_blob dir (blob_path r)) = Some b \<and> blob_ok blake3 r b" if "r \<in> set rs" for r
    using that files by (auto simp: rs descriptor_of_fields)
  then obtain loaded where loaded: "load_regions blake3 dir base 0 rs fs' = (Ok loaded, fs')"
    using load_regions_succeeds [OF \<open>faults fs' = []\<close>, of rs dir blake3 base 0] by blast
  let ?img = "snapshot_image base (oep_candidates m') loaded"
  have img: "pe_base ?img = base" "pe_bytes ?img = concat (map snd loaded)" "set (pe_sections ?img) = set (map fst loaded)"
    by (simp_all add: snapshot_image_def Let_def)
  have "sys_read (path_join dir manifest_name) fs' = (Ok (encode m'), fs')"
    using e \<open>faults fs' = []\<close> by (simp add: sys_read_no_fault)
  moreover have "sm_schema m' = SNAPSHOT_SCHEMA" "sm_regions m' = ?ds" using schema m' by simp_all
  moreover have "?ds \<noteq> []" using d0 [of 0] ne by force
  ultimately have "from_snapshot decode blake3 dir manifest_name fs' = (Ok ?img, fs')"
    using json loaded by (simp add: from_snapshot_def Let_def rs_def [symmetric] base_def [symmetric])
  moreover have "\<exists>s. section_for_va ?img (cap_va c + of_nat i) = Some s \<and> section_of c (pe_base ?img) (pe_bytes ?img) s"
    if "c \<in> set cs" "i < length (cap_bytes c)" for c i
    by (rule lookup_section [OF _ _ cs])
      (use loaded_sections [OF loaded rs files min] attained min that fit in \<open>auto simp: img\<close>)
  ultimately show ?thesis by blast
qed

definition demo_region :: CapturedRegion where
  "demo_region = \<lparr>cap_buffer = from_bytes 0x10 [0x55, 0x48, 0xC3], cap_permissions = ''R-X'',
     cap_origin = \<lparr>alloc_api = ''VirtualAlloc'', alloc_site_va = hex016_lower 0x10, alloc_size_requested = 3\<rparr>\<rparr>"

definition demo_manifest :: "nat SnapshotManifest" where
  "demo_manifest = \<lparr>sm_schema = SNAPSHOT_SCHEMA, sm_regions = [], oep_candidates = []\<rparr>"

definition demo_hash :: "bytes \<Rightarrow> string" where "demo_hash b = show_nat (length b)"

definition demo_encode :: "nat SnapshotManifest \<Rightarrow> bytes" where "demo_encode m = [0x7B, 0x7D]"

definition demo_emit :: "(IoError, nat \<times> nat SnapshotManifest) result \<times> FS" where
  "demo_emit = emit_snapshot demo_encode demo_hash ''d'' demo_manifest [demo_region] \<lparr>files = [], faults = []\<rparr>"

definition demo_written :: "nat SnapshotManifest" where
  "demo_written = demo_manifest\<lparr>sm_regions := [descriptor_of demo_hash 0 demo_region]\<rparr>"

lemma demo_emit_ok: "fst demo_emit = Ok (5, demo_written)" "faults (snd demo_emit) = []" by code_simp+

lemma demo_emit_eq:
  "emit_snapshot demo_encode demo_hash ''d'' demo_manifest [demo_region] \<lparr>files = [], faults = []\<rparr> =
   (Ok (5, demo_written), snd demo_emit)"
  using demo_emit_ok(1) unfolding demo_emit_def by (metis prod.collapse)

lemma demo_region_simps [simp]: "cap_va demo_region = 0x10" "cap_bytes demo_region = [0x55, 0x48, 0xC3]"
  by (simp_all add: cap_va_def cap_bytes_def demo_region_def from_bytes_def)

theorem snapshot_round_trip_witness:
  "\<exists>img. from_snapshot (\<lambda>_. Some demo_written) demo_hash ''d'' manifest_name (snd demo_emit) = (Ok img, snd demo_emit) \<and>
     (\<exists>s. section_for_va img 0x12 = Some s \<and> section_of demo_region (pe_base img) (pe_bytes img) s)"
proof -
  have "\<exists>img. from_snapshot (\<lambda>_. Some demo_written) demo_hash ''d'' manifest_name (snd demo_emit) = (Ok img, snd demo_emit) \<and>
    (\<forall>c\<in>set [demo_region]. \<forall>i<length (cap_bytes c). \<exists>s. section_for_va img (cap_va c + of_nat i) = Some s \<and>
       section_of c (pe_base img) (pe_bytes img) s)"
    by (rule snapshot_round_trip [OF demo_emit_eq])
      (auto simp: demo_emit_ok demo_manifest_def regions_close_def regions_disjoint_def)
  then obtain img where img: "from_snapshot (\<lambda>_. Some demo_written) demo_hash ''d'' manifest_name (snd demo_emit) = (Ok img, snd demo_emit)"
    "\<forall>i<3. \<exists>s. section_for_va img (0x10 + of_nat i) = Some s \<and> section_of demo_region (pe_base img) (pe_bytes img) s"
    by auto
  then show ?thesis using img(2) [rule_format, of 2] by auto
qed

theorem snapshot_checks_blobs_witness:
  "\<exists>m. sm_schema m = SNAPSHOT_SCHEMA \<and> sm_regions (m :: nat SnapshotManifest) \<noteq> []"
proof -
  have f: "fst (from_snapshot (\<lambda>_. Some demo_written) demo_hash ''d'' manifest_name (snd demo_emit)) \<noteq> Err BadJson \<and>
    isl (fst (from_snapshot (\<lambda>_. Some demo_written) demo_hash ''d'' manifest_name (snd demo_emit))) = False"
    by code_simp
  obtain r fs' where e: "from_snapshot (\<lambda>_. Some demo_written) demo_hash ''d'' manifest_name (snd demo_emit) = (r, fs')" by fastforce
  then obtain img where "from_snapshot (\<lambda>_. Some demo_written) demo_hash ''d'' manifest_name (snd demo_emit) = (Ok img, fs')"
    using f by (cases r) auto
  from snapshot_checks_blobs [OF this] show ?thesis by blast
qed

text \<open>Two candidates with the best score: the second is the entry point.\<close>

definition demo_oep :: "string \<Rightarrow> nat \<Rightarrow> nat OepCandidate" where
  "demo_oep va s = \<lparr>oep_va = va, oep_region_id = 0,
     corroboration = \<lparr>entropy_drop = True, execute_from_newly_allocated = True, function_prologue_match = False,
       iat_call_pattern = False\<rparr>, confidence_score = s\<rparr>"

theorem snapshot_entry_last_best_witness:
  "snapshot_entry [demo_oep ''0x10'' 7, demo_oep ''0x20'' 7] = 0x20 \<and>
   (\<exists>pre c suf. [demo_oep ''0x10'' 7, demo_oep ''0x20'' 7] = pre @ c # suf \<and>
      snapshot_entry [demo_oep ''0x10'' 7, demo_oep ''0x20'' 7] = parse_hex_va (oep_va c))"
proof -
  have "snapshot_entry [demo_oep ''0x10'' 7, demo_oep ''0x20'' 7] = 0x20" by code_simp
  moreover note snapshot_entry_last_best [of "[demo_oep ''0x10'' 7, demo_oep ''0x20'' 7]"]
  ultimately show ?thesis by blast
qed

end
