(* ===== verification/Ssa.thy ===== *)
theory Ssa
  imports Vsa_Analysis
begin

text \<open>
  \<open>src/ssa.rs\<close>: versioned definitions of registers, stack slots, flags and memory, and the edges from
  definitions to uses. A function is walked in address order; at the first instruction of a block with
  several predecessors, values that differ between them are joined by a phi. The functions are processed in
  parallel and collected in order, which is the order of the index. Versions are natural numbers: a
  function has fewer than \<open>2\<^sup>32\<close> definitions.
\<close>

section \<open>Rows\<close>

record SsaValueRecord =
  ssa_id :: string
  sv_function :: u64
  sv_block :: "u64 option"
  sv_site_va :: u64
  sv_storage :: string
  sv_version :: nat
  sv_kind :: string
  sv_source :: string
  sv_value :: "string option"
  sv_evidence :: "u64 list"
  sv_confidence :: string

record DataflowEdgeRecord =
  df_edge_id :: string
  df_function :: u64
  from_value :: "string option"
  to_value :: string
  from_va :: "u64 option"
  to_va :: u64
  from_storage :: "string option"
  to_storage :: string
  edge_kind :: string
  df_type_tag :: "string option"
  df_evidence :: "u64 list"

record CurrentDef =
  cd_id :: string
  cd_site_va :: u64
  cd_storage :: string

type_synonym defs = "(string, CurrentDef) btree"

text \<open>The variables of \<open>process_function_slice\<close>.\<close>

record SsaState =
  ss_values :: "SsaValueRecord list"
  ss_edges :: "DataflowEdgeRecord list"
  caps_hit :: bool
  versions :: "(string, nat) btree"
  current :: defs
  out_defs_by_block :: "(u64, defs) btree"
  emitted_join_phis :: "u64 list"
  emitted :: nat

definition ssa_start :: SsaState where
  "ssa_start = \<lparr>ss_values = [], ss_edges = [], caps_hit = False, versions = [], current = [],
     out_defs_by_block = [], emitted_join_phis = [], emitted = 0\<rparr>"

section \<open>Storages\<close>

definition flag_setters :: "string list" where
  "flag_setters = [''cmp'', ''test'', ''sub'', ''add'', ''and'', ''or'', ''xor'']"

definition write_storages :: "IrInstruction \<Rightarrow> (string \<times> string \<times> string) list" where
  "write_storages ins =
     (case write_reg ins of Some r \<Rightarrow> [(r, ''register'', ir_mnemonic ins)] | None \<Rightarrow> []) @
     (if memory_write ins
      then (case stack_slot ins of Some slot \<Rightarrow> [(slot_location slot, ''stack_slot'', ir_mnemonic ins)] | None \<Rightarrow> []) @
        [(''mem'', ''memory'', ''store'')]
      else []) @
     (if ir_mnemonic ins \<in> set flag_setters
      then map (\<lambda>fl. (fl, ''flag'', ir_mnemonic ins)) [''zf'', ''sf'', ''of'', ''cf''] else [])"

definition read_storages :: "IrInstruction \<Rightarrow> string list" where
  "read_storages ins =
     remdups_adj (sort (read_regs ins @
       (if memory_read ins then (case stack_slot ins of Some slot \<Rightarrow> [slot_location slot] | None \<Rightarrow> []) else [])))"

definition constant_value :: "IrInstruction \<Rightarrow> string option" where
  "constant_value ins =
     (if ir_mnemonic ins \<in> set [''mov'', ''movabs'', ''lea'']
      then map_option hex_upper (case rip_target ins of Some t \<Rightarrow> Some t | None \<Rightarrow> immediate ins) else None)"

definition kind_for_storage :: "string \<Rightarrow> string" where
  "kind_for_storage storage =
     (if storage = ''mem'' then ''memory''
      else if starts_with ''stack['' storage then ''stack_slot''
      else if storage \<in> set [''zf'', ''sf'', ''of'', ''cf'', ''pf'', ''af''] then ''flag''
      else ''register'')"

definition ssa_block_for :: "CfgRecord option \<Rightarrow> u64 \<Rightarrow> u64 option" where
  "ssa_block_for cfg addr =
     Option.bind cfg (\<lambda>row. map_option block_start (find (\<lambda>b. block_start b \<le> addr \<and> addr < block_end b) (blocks row)))"

definition predecessor_blocks_by_join :: "CfgRecord option \<Rightarrow> (u64, u64 list) btree" where
  "predecessor_blocks_by_join cfg =
     (case cfg of
        None \<Rightarrow> []
      | Some row \<Rightarrow>
          filter (\<lambda>(k, ps). length ps > 1)
            (map (\<lambda>(k, ps). (k, remdups_adj (sort ps)))
              (fold (\<lambda>e m. case ssa_block_for cfg (edge_from e) of None \<Rightarrow> m | Some b \<Rightarrow> push_entry (edge_to e) b m)
                (edges row) [])))"

section \<open>New values\<close>

text \<open>The number of a new value is the length of the list of values.\<close>

definition ssa_ident :: "u64 \<Rightarrow> string \<Rightarrow> nat \<Rightarrow> nat \<Rightarrow> string" where
  "ssa_ident fn storage v index =
     ''ssa:'' @ hex016 fn @ '':'' @ storage @ '':v'' @ show_nat v @ '':'' @ show_nat index"

definition version_of :: "(string, nat) btree \<Rightarrow> string \<Rightarrow> nat" where
  "version_of m storage = (case bt_get m storage of Some v \<Rightarrow> v | None \<Rightarrow> 0)"

definition new_value ::
  "u64 \<Rightarrow> u64 option \<Rightarrow> u64 \<Rightarrow> string \<Rightarrow> string \<Rightarrow> string \<Rightarrow> string option \<Rightarrow> (string, nat) btree \<Rightarrow> u64 list \<Rightarrow>
   nat \<Rightarrow> SsaValueRecord" where
  "new_value fn block site storage kind source val vers ev index =
     (let v = version_of vers storage + 1
      in \<lparr>ssa_id = ssa_ident fn storage v index, sv_function = fn, sv_block = block, sv_site_va = site,
          sv_storage = storage, sv_version = v, sv_kind = kind, sv_source = source, sv_value = val,
          sv_evidence = remdups_adj (sort (ev @ [site])),
          sv_confidence = (if source = ''phi'' then ''medium'' else ''high'')\<rparr>)"

definition mk_edge :: "u64 \<Rightarrow> string \<Rightarrow> SsaValueRecord \<Rightarrow> CurrentDef \<Rightarrow> nat \<Rightarrow> DataflowEdgeRecord" where
  "mk_edge fn ekind val d index =
     \<lparr>df_edge_id = ''df:'' @ hex016 fn @ '':'' @ show_nat index @ '':'' @ ssa_id val, df_function = fn,
      from_value = Some (cd_id d), to_value = ssa_id val, from_va = Some (cd_site_va d), to_va = sv_site_va val,
      from_storage = Some (cd_storage d), to_storage = sv_storage val, edge_kind = ekind, df_type_tag = None,
      df_evidence = [cd_site_va d, sv_site_va val]\<rparr>"

definition push_edges ::
  "u64 \<Rightarrow> string \<Rightarrow> SsaValueRecord \<Rightarrow> CurrentDef list \<Rightarrow> DataflowEdgeRecord list \<Rightarrow> DataflowEdgeRecord list" where
  "push_edges fn ekind val ds es = fold (\<lambda>d es. es @ [mk_edge fn ekind val d (length es)]) ds es"

text \<open>A value is emitted: its edges, the current definition of its storage, the row itself.\<close>

definition emit_value ::
  "u64 \<Rightarrow> u64 option \<Rightarrow> u64 \<Rightarrow> string \<Rightarrow> string \<Rightarrow> string \<Rightarrow> string option \<Rightarrow> string \<Rightarrow> CurrentDef list \<Rightarrow>
   SsaState \<Rightarrow> SsaState" where
  "emit_value fn block site storage kind source val ekind ds st =
     (let row = new_value fn block site storage kind source val (versions st) (map cd_site_va ds) (length (ss_values st))
      in st\<lparr>ss_values := ss_values st @ [row], ss_edges := push_edges fn ekind row ds (ss_edges st),
            versions := bt_insert storage (sv_version row) (versions st),
            current := bt_insert storage \<lparr>cd_id = ssa_id row, cd_site_va = sv_site_va row, cd_storage = storage\<rparr> (current st),
            emitted := emitted st + 1\<rparr>)"

section \<open>Joins\<close>

definition incoming_defs :: "u64 list \<Rightarrow> (u64, defs) btree \<Rightarrow> string \<Rightarrow> CurrentDef list" where
  "incoming_defs predecessors outs storage =
     List.map_filter (\<lambda>p. Option.bind (bt_get outs p) (\<lambda>ds. bt_get ds storage)) predecessors"

definition join_storages :: "u64 list \<Rightarrow> (u64, defs) btree \<Rightarrow> string list" where
  "join_storages predecessors outs =
     remdups_adj (sort (concat (map (\<lambda>p. case bt_get outs p of Some ds \<Rightarrow> bt_keys ds | None \<Rightarrow> []) predecessors)))"

text \<open>The phis of one block; the first number counts what is left of the cap.\<close>

fun phi_loop :: "u64 \<Rightarrow> u64 \<Rightarrow> u64 list \<Rightarrow> (u64, defs) btree \<Rightarrow> nat \<Rightarrow> string list \<Rightarrow> SsaState \<Rightarrow> SsaState" where
  "phi_loop fn block predecessors outs remaining [] st = st"
| "phi_loop fn block predecessors outs remaining (storage # storages) st =
     (if remaining = 0 then st
      else
        let incoming = incoming_defs predecessors outs storage
        in if length incoming < 2 \<or> length (remdups (map cd_id incoming)) < 2
           then phi_loop fn block predecessors outs remaining storages st
           else phi_loop fn block predecessors outs (remaining - 1) storages
             (emit_value fn (Some block) block storage (kind_for_storage storage) ''phi'' None ''phi'' incoming st))"

definition emit_join_phis :: "u64 \<Rightarrow> u64 \<Rightarrow> u64 list \<Rightarrow> nat \<Rightarrow> SsaState \<Rightarrow> SsaState" where
  "emit_join_phis fn block predecessors remaining st =
     (if remaining = 0 then st
      else phi_loop fn block predecessors (out_defs_by_block st) remaining
        (join_storages predecessors (out_defs_by_block st)) st)"

section \<open>One function\<close>

fun write_loop ::
  "u64 \<Rightarrow> u64 option \<Rightarrow> IrInstruction \<Rightarrow> CurrentDef list \<Rightarrow> nat \<Rightarrow> (string \<times> string \<times> string) list \<Rightarrow>
   SsaState \<Rightarrow> SsaState" where
  "write_loop fn block ins input_defs cap [] st = st"
| "write_loop fn block ins input_defs cap ((storage, kind, source) # ws) st =
     (if emitted st \<ge> cap then st\<lparr>caps_hit := True\<rparr>
      else write_loop fn block ins input_defs cap ws
        (emit_value fn block (ir_address ins) storage kind source (constant_value ins)
          (if kind = ''memory'' then ''memory_store'' else ''use_def'') input_defs st))"

definition input_defs_of :: "IrInstruction \<Rightarrow> defs \<Rightarrow> CurrentDef list" where
  "input_defs_of ins cur =
     List.map_filter (bt_get cur) (read_storages ins) @
     (if memory_read ins then (case bt_get cur ''mem'' of Some d \<Rightarrow> [d] | None \<Rightarrow> []) else [])"

text \<open>The phis of the block of an instruction, when it is the first one seen of it; the flag is the early exit.\<close>

definition enter_block ::
  "u64 \<Rightarrow> (u64, u64 list) btree \<Rightarrow> nat \<Rightarrow> u64 option \<Rightarrow> SsaState \<Rightarrow> bool \<times> SsaState" where
  "enter_block fn joins cap block st =
     (case block of
        None \<Rightarrow> (False, st)
      | Some b \<Rightarrow>
          if b \<in> set (emitted_join_phis st) then (False, st)
          else
            let st = st\<lparr>emitted_join_phis := b # emitted_join_phis st\<rparr>
            in (case bt_get joins b of
                  None \<Rightarrow> (False, st)
                | Some predecessors \<Rightarrow>
                    let st = emit_join_phis fn b predecessors (cap - emitted st) st
                    in if emitted st \<ge> cap then (True, st\<lparr>caps_hit := True\<rparr>) else (False, st)))"

definition leave_block :: "u64 option \<Rightarrow> SsaState \<Rightarrow> SsaState" where
  "leave_block block st =
     (case block of None \<Rightarrow> st | Some b \<Rightarrow> st\<lparr>out_defs_by_block := bt_insert b (current st) (out_defs_by_block st)\<rparr>)"

fun ssa_loop ::
  "u64 \<Rightarrow> CfgRecord option \<Rightarrow> (u64, u64 list) btree \<Rightarrow> nat \<Rightarrow> IrInstruction list \<Rightarrow> SsaState \<Rightarrow> SsaState" where
  "ssa_loop fn cfg joins cap [] st = st"
| "ssa_loop fn cfg joins cap (ins # rest) st =
     (if emitted st \<ge> cap then st\<lparr>caps_hit := True\<rparr>
      else
        let block = ssa_block_for cfg (ir_address ins);
            (stop, st) = enter_block fn joins cap block st
        in if stop then st
           else ssa_loop fn cfg joins cap rest
             (leave_block block
               (write_loop fn block ins (input_defs_of ins (current st)) cap (write_storages ins) st)))"

definition process_function_slice :: "u64 \<Rightarrow> IrInstruction list \<Rightarrow> CfgRecord option \<Rightarrow> nat \<Rightarrow> SsaState" where
  "process_function_slice fn function_ir cfg cap =
     ssa_loop fn cfg (predecessor_blocks_by_join cfg) cap function_ir ssa_start"

section \<open>All functions\<close>

record SsaBuildResult =
  sr_values :: "SsaValueRecord list"
  sr_edges :: "DataflowEdgeRecord list"
  sr_caps_hit :: bool

definition ssa_function_cap :: "string \<Rightarrow> nat" where
  "ssa_function_cap bname = (if bname = ''max'' then usize_max else if bname = ''high'' then 256 else 64)"

text \<open>One slice; the outer option is the panic of a range outside the list.\<close>

definition ssa_slice ::
  "FunctionRecord list \<Rightarrow> IrInstruction list \<Rightarrow> (u64, CfgRecord) btree \<Rightarrow> nat \<Rightarrow> u64 set option \<Rightarrow>
   FunctionSemanticSlice \<Rightarrow> SsaState option option" where
  "ssa_slice functions ir cfgs cap selected s =
     (if function_index s \<ge> length functions then Some None
      else
        let fn = fn_start (functions ! function_index s)
        in if (case selected of None \<Rightarrow> False | Some sel \<Rightarrow> fn \<notin> sel) then Some None
           else map_option (\<lambda>function_ir. Some (process_function_slice fn function_ir (bt_get cfgs fn) cap))
                  (slice_range ir (ir_range s)))"

fun collect_slices :: "('a \<Rightarrow> 'b option option) \<Rightarrow> 'a list \<Rightarrow> 'b list option" where
  "collect_slices f [] = Some []"
| "collect_slices f (x # xs) =
     (case f x of
        None \<Rightarrow> None
      | Some r \<Rightarrow> map_option (\<lambda>rs. (case r of Some y \<Rightarrow> y # rs | None \<Rightarrow> rs)) (collect_slices f xs))"

definition build_ssa_inner ::
  "FunctionRecord list \<Rightarrow> FunctionSemanticSlice list \<Rightarrow> IrInstruction list \<Rightarrow> CfgRecord list \<Rightarrow> string \<Rightarrow>
   u64 set option \<Rightarrow> SsaBuildResult option" where
  "build_ssa_inner functions slices ir cfg bname selected =
     map_option (\<lambda>per_function.
       \<lparr>sr_values = concat (map ss_values per_function), sr_edges = concat (map ss_edges per_function),
        sr_caps_hit = list_ex caps_hit per_function\<rparr>)
       (collect_slices (ssa_slice functions ir (collect_by cfg_function cfg) (ssa_function_cap bname) selected) slices)"

definition build_ssa ::
  "FunctionRecord list \<Rightarrow> FunctionSemanticSlice list \<Rightarrow> IrInstruction list \<Rightarrow> CfgRecord list \<Rightarrow> string \<Rightarrow>
   SsaBuildResult option" where
  "build_ssa functions slices ir cfg bname = build_ssa_inner functions slices ir cfg bname None"

definition build_ssa_for_targets ::
  "FunctionRecord list \<Rightarrow> FunctionSemanticSlice list \<Rightarrow> IrInstruction list \<Rightarrow> CfgRecord list \<Rightarrow>
   SecondPassTargetRecord list \<Rightarrow> string \<Rightarrow> SsaBuildResult option" where
  "build_ssa_for_targets functions slices ir cfg targets bname =
     (let selected = target_function ` set targets
      in if selected = {} then Some \<lparr>sr_values = [], sr_edges = [], sr_caps_hit = False\<rparr>
         else build_ssa_inner functions slices ir cfg bname (Some selected))"

end
