(* ===== verification/Ssa_Props.thy ===== *)
theory Ssa_Props
  imports Ssa Vsa_Props Facts
begin

text \<open>
  Single assignment: the identifiers of a function are distinct, the versions of a storage count up from
  one, the current definition of a storage is its last value, and every dataflow edge leads from an earlier
  value to a later one. Across branches the edges follow the order of addresses and not the graph.
\<close>

section \<open>Identifiers\<close>

lemma parse_digits_chars: "parse_digits r s acc = Some v \<Longrightarrow> c \<in> set s \<Longrightarrow> digit_val r c \<noteq> None"
  by (induction s arbitrary: acc) (auto split: option.splits)

lemma no_colon: "parse_digits r s 0 = Some v \<Longrightarrow> digit_val r (CHR '':'') = None \<Longrightarrow> CHR '':'' \<notin> set s"
  using parse_digits_chars by blast

lemma show_nat_no_colon: "CHR '':'' \<notin> set (show_nat n)"
proof -
  have "digit_val 10 (CHR '':'') = None" by code_simp
  then show ?thesis by (rule no_colon [OF parse_digits_show_nat])
qed

lemma hex016_no_colon: "CHR '':'' \<notin> set (hex016 v)"
proof -
  have "parse_digits 16 (hex016 v) 0 = Some (unat v)"
    by (simp add: hex016_def pad0_def parse_zeros parse_upper_hex)
  moreover have "digit_val 16 (CHR '':'') = None" by code_simp
  ultimately show ?thesis by (rule no_colon)
qed

lemma after_last_append: "c \<notin> set t \<Longrightarrow> after_last c (s @ c # t) = t"
proof -
  assume c: "c \<notin> set t"
  have "takeWhile (\<lambda>x. x \<noteq> c) (rev t @ c # rev s) = rev t"
    using c by (subst takeWhile_append2) auto
  then show ?thesis by (simp add: after_last_def)
qed

lemma ident_index: "after_last (CHR '':'') (ssa_ident fn storage v i) = show_nat i"
proof -
  have "ssa_ident fn storage v i = (''ssa:'' @ hex016 fn @ '':'' @ storage @ '':v'' @ show_nat v) @ CHR '':'' # show_nat i"
    by (simp add: ssa_ident_def)
  then show ?thesis using after_last_append [OF show_nat_no_colon] by metis
qed

lemma ident_inj_index: "ssa_ident fn s v i = ssa_ident fn' s' v' j \<Longrightarrow> i = j"
  using ident_index show_nat_inj by metis

lemma hex016_inj: "hex016 a = hex016 b \<longleftrightarrow> a = b"
  using parse_hex016 by (metis option.inject)

lemma ident_function: "takeWhile (\<lambda>c. c \<noteq> CHR '':'') (drop 4 (ssa_ident fn storage v i)) = hex016 fn"
proof -
  have "drop 4 (ssa_ident fn storage v i) = hex016 fn @ CHR '':'' # storage @ '':v'' @ show_nat v @ '':'' @ show_nat i"
    by (simp add: ssa_ident_def)
  moreover have "takeWhile (\<lambda>c. c \<noteq> CHR '':'') (hex016 fn @ CHR '':'' # t) = hex016 fn" for t
    using hex016_no_colon [of fn] by (subst takeWhile_append2) auto
  ultimately show ?thesis by metis
qed

lemma ident_inj_function: "ssa_ident fn s v i = ssa_ident fn' s' v' j \<Longrightarrow> fn = fn'"
  using ident_function hex016_inj by metis

section \<open>The invariant of a function\<close>

definition def_of :: "SsaValueRecord \<Rightarrow> CurrentDef" where
  "def_of v = \<lparr>cd_id = ssa_id v, cd_site_va = sv_site_va v, cd_storage = sv_storage v\<rparr>"

text \<open>The last value of a storage, which is what \<open>current\<close> abbreviates.\<close>

definition last_def :: "SsaValueRecord list \<Rightarrow> string \<Rightarrow> CurrentDef option" where
  "last_def vs s = map_option def_of (find (\<lambda>v. sv_storage v = s) (rev vs))"

definition of_storage :: "string \<Rightarrow> SsaValueRecord list \<Rightarrow> SsaValueRecord list" where
  "of_storage s vs = filter (\<lambda>v. sv_storage v = s) vs"

definition ids_ok :: "u64 \<Rightarrow> SsaValueRecord list \<Rightarrow> bool" where
  "ids_ok fn vs \<longleftrightarrow>
     (\<forall>i<length vs. sv_function (vs ! i) = fn \<and> ssa_id (vs ! i) = ssa_ident fn (sv_storage (vs ! i)) (sv_version (vs ! i)) i)"

definition versions_ok :: "SsaValueRecord list \<Rightarrow> bool" where
  "versions_ok vs \<longleftrightarrow> (\<forall>s. map sv_version (of_storage s vs) = [1..<Suc (length (of_storage s vs))])"

text \<open>
  An edge leads from an earlier value to a later one and carries their storages and sites. Unless it enters
  a phi, no value of the used storage lies between, except of the using instruction itself.
\<close>

definition edge_ok :: "u64 \<Rightarrow> SsaValueRecord list \<Rightarrow> DataflowEdgeRecord \<Rightarrow> bool" where
  "edge_ok fn vs e \<longleftrightarrow>
     (\<exists>i j. i < j \<and> j < length vs \<and> df_function e = fn \<and>
        from_value e = Some (ssa_id (vs ! i)) \<and> from_va e = Some (sv_site_va (vs ! i)) \<and> from_storage e = Some (sv_storage (vs ! i)) \<and>
        to_value e = ssa_id (vs ! j) \<and> to_va e = sv_site_va (vs ! j) \<and> to_storage e = sv_storage (vs ! j) \<and>
        (edge_kind e = ''phi'' \<or>
         (\<forall>k. i < k \<and> k < j \<and> sv_storage (vs ! k) = sv_storage (vs ! i) \<longrightarrow> sv_site_va (vs ! k) = sv_site_va (vs ! j))))"

text \<open>What emitting a value asks of a definition it uses.\<close>

definition usable :: "SsaValueRecord list \<Rightarrow> string \<Rightarrow> u64 \<Rightarrow> CurrentDef \<Rightarrow> bool" where
  "usable vs ekind site d \<longleftrightarrow>
     (\<exists>i<length vs. d = def_of (vs ! i) \<and>
        (ekind = ''phi'' \<or>
         (\<forall>k. i < k \<and> k < length vs \<and> sv_storage (vs ! k) = sv_storage (vs ! i) \<longrightarrow> sv_site_va (vs ! k) = site)))"

definition ssa_inv :: "u64 \<Rightarrow> nat \<Rightarrow> SsaState \<Rightarrow> bool" where
  "ssa_inv fn cap st \<longleftrightarrow>
     emitted st = length (ss_values st) \<and> emitted st \<le> cap \<and>
     ids_ok fn (ss_values st) \<and> versions_ok (ss_values st) \<and>
     bt_ok (versions st) \<and> (\<forall>s. version_of (versions st) s = length (of_storage s (ss_values st))) \<and>
     bt_ok (current st) \<and> (\<forall>s. bt_get (current st) s = last_def (ss_values st) s) \<and>
     bt_ok (out_defs_by_block st) \<and>
     (\<forall>b ds s d. bt_get (out_defs_by_block st) b = Some ds \<longrightarrow> bt_get ds s = Some d \<longrightarrow> d \<in> def_of ` set (ss_values st)) \<and>
     (\<forall>e\<in>set (ss_edges st). edge_ok fn (ss_values st) e)"

lemma ssa_invD:
  assumes "ssa_inv fn cap st"
  shows "emitted st = length (ss_values st)" "emitted st \<le> cap" "ids_ok fn (ss_values st)" "versions_ok (ss_values st)"
    "bt_ok (versions st)" "version_of (versions st) s = length (of_storage s (ss_values st))"
    "bt_ok (current st)" "bt_get (current st) s = last_def (ss_values st) s" "bt_ok (out_defs_by_block st)"
    "bt_get (out_defs_by_block st) b = Some ds \<Longrightarrow> bt_get ds s = Some d \<Longrightarrow> d \<in> def_of ` set (ss_values st)"
    "e \<in> set (ss_edges st) \<Longrightarrow> edge_ok fn (ss_values st) e"
  using assms unfolding ssa_inv_def by blast+

lemma last_def_in: "last_def vs s = Some d \<Longrightarrow> d \<in> def_of ` set vs"
  by (auto simp: last_def_def find_Some_iff) (metis image_eqI nth_mem length_rev set_rev)

lemma last_def_snoc: "last_def (vs @ [v]) s = (if sv_storage v = s then Some (def_of v) else last_def vs s)"
  by (simp add: last_def_def)

lemma edge_ok_mono: "edge_ok fn vs e \<Longrightarrow> edge_ok fn (vs @ ws) e"
  unfolding edge_ok_def by (elim exE) (rename_tac i j, rule_tac x = i in exI, rule_tac x = j in exI, auto simp: nth_append)

lemma push_edges_in:
  "e \<in> set (push_edges fn k v ds es) \<Longrightarrow> e \<in> set es \<or> (\<exists>d\<in>set ds. \<exists>n. e = mk_edge fn k v d n)"
proof (induction ds arbitrary: es)
  case (Cons d ds)
  have "push_edges fn k v (d # ds) es = push_edges fn k v ds (es @ [mk_edge fn k v d (length es)])"
    by (simp add: push_edges_def)
  then show ?case using Cons.IH [of "es @ [mk_edge fn k v d (length es)]"] Cons.prems by auto
qed (simp add: push_edges_def)

lemma new_value_fields [simp]:
  "sv_function (new_value fn block site storage kind source val vers ev i) = fn"
  "sv_site_va (new_value fn block site storage kind source val vers ev i) = site"
  "sv_storage (new_value fn block site storage kind source val vers ev i) = storage"
  "sv_version (new_value fn block site storage kind source val vers ev i) = version_of vers storage + 1"
  "ssa_id (new_value fn block site storage kind source val vers ev i) = ssa_ident fn storage (version_of vers storage + 1) i"
  by (simp_all add: new_value_def Let_def)

lemma usable_phi: "d \<in> def_of ` set vs \<Longrightarrow> usable vs ''phi'' site d"
  by (auto simp: usable_def in_set_conv_nth)

lemma usable_snoc: "usable vs ekind site d \<Longrightarrow> sv_site_va v = site \<Longrightarrow> usable (vs @ [v]) ekind' site d" if "ekind \<noteq> ''phi''"
  using that unfolding usable_def
  by (elim exE conjE) (rename_tac i, rule_tac x = i in exI, auto simp: nth_append less_Suc_eq)

lemma last_def_usable:
  assumes "last_def vs s = Some d"
  shows "usable vs ekind site d"
proof -
  obtain i where i: "i < length vs" "sv_storage (rev vs ! i) = s" "\<forall>j<i. sv_storage (rev vs ! j) \<noteq> s" "d = def_of (rev vs ! i)"
    using assms by (auto simp: last_def_def find_Some_iff)
  let ?k = "length vs - Suc i"
  have "sv_storage (vs ! k) \<noteq> s" if "?k < k" "k < length vs" for k
    using i(3) [rule_format, of "length vs - Suc k"] that i(1) by (simp add: rev_nth)
  moreover have "rev vs ! i = vs ! ?k" using i(1) by (simp add: rev_nth)
  ultimately show ?thesis unfolding usable_def using i by (intro exI [of _ ?k]) auto
qed

lemma new_edge_ok:
  assumes "usable vs k (sv_site_va v) d"
  shows "edge_ok fn (vs @ [v]) (mk_edge fn k v d n)"
proof -
  obtain i where i: "i < length vs" "d = def_of (vs ! i)" and
    last: "k = ''phi'' \<or> (\<forall>j. i < j \<and> j < length vs \<and> sv_storage (vs ! j) = sv_storage (vs ! i) \<longrightarrow> sv_site_va (vs ! j) = sv_site_va v)"
    using assms unfolding usable_def by blast
  show ?thesis
    unfolding edge_ok_def mk_edge_def i(2) def_of_def
    by (intro exI [of _ i] exI [of _ "length vs"]) (use i(1) last in \<open>auto simp: nth_append\<close>)
qed

lemma of_storage_snoc: "of_storage s (vs @ [v]) = of_storage s vs @ (if sv_storage v = s then [v] else [])"
  by (simp add: of_storage_def)

lemma version_of_insert: "bt_ok m \<Longrightarrow> version_of (bt_insert k n m) s = (if s = k then n else version_of m s)"
  by (simp add: version_of_def bt_get_insert)

lemma emit_value_inv:
  assumes inv: "ssa_inv fn cap st" and room: "emitted st < cap"
    and ds: "\<And>d. d \<in> set ds \<Longrightarrow> usable (ss_values st) ekind site d"
  shows "ssa_inv fn cap (emit_value fn block site storage kind source val ekind ds st)"
proof -
  let ?v = "new_value fn block site storage kind source val (versions st) (map cd_site_va ds) (length (ss_values st))"
  let ?vs = "ss_values st @ [?v]"
  note I = ssa_invD [OF inv]
  have ids: "ids_ok fn ?vs" using I(3) by (auto simp: ids_ok_def nth_append less_Suc_eq)
  have vers: "versions_ok ?vs"
    using I(4,6) by (simp add: versions_ok_def of_storage_snoc)
  have edges: "\<forall>e\<in>set (push_edges fn ekind ?v ds (ss_edges st)). edge_ok fn ?vs e"
  proof
    fix e
    assume "e \<in> set (push_edges fn ekind ?v ds (ss_edges st))"
    then consider "e \<in> set (ss_edges st)" | d n where "d \<in> set ds" "e = mk_edge fn ekind ?v d n"
      using push_edges_in by metis
    then show "edge_ok fn ?vs e"
    proof cases
      case 1
      then show ?thesis by (intro edge_ok_mono I(11))
    next
      case 2
      then show ?thesis using new_edge_ok [of "ss_values st" ekind ?v d] ds by simp
    qed
  qed
  have def: "\<lparr>cd_id = ssa_id ?v, cd_site_va = sv_site_va ?v, cd_storage = storage\<rparr> = def_of ?v"
    by (simp add: def_of_def)
  have outs: "\<forall>b ds s d. bt_get (out_defs_by_block st) b = Some ds \<longrightarrow> bt_get ds s = Some d \<longrightarrow> d \<in> def_of ` set ?vs"
    using I(10) by fastforce
  have ver: "\<forall>s. version_of (bt_insert storage (sv_version ?v) (versions st)) s = length (of_storage s ?vs)"
    using I(5,6) by (simp add: version_of_insert of_storage_snoc)
  have cur: "\<forall>s. bt_get (bt_insert storage (def_of ?v) (current st)) s = last_def ?vs s"
    using I(7,8) by (auto simp: bt_get_insert last_def_snoc)
  show ?thesis
    unfolding ssa_inv_def emit_value_def Let_def def
    using I(1,5,7,9) room ids vers edges outs ver cur by simp
qed

lemma incoming_defs_in:
  assumes "ssa_inv fn cap st" "d \<in> set (incoming_defs ps (out_defs_by_block st) s)"
  shows "d \<in> def_of ` set (ss_values st)"
proof -
  obtain p ds where "bt_get (out_defs_by_block st) p = Some ds" "bt_get ds s = Some d"
    using assms(2) by (auto simp: incoming_defs_def List.map_filter_def bind_eq_Some_conv)
  then show ?thesis by (rule ssa_invD(10) [OF assms(1)])
qed

lemma emit_value_simps [simp]:
  "out_defs_by_block (emit_value fn block site storage kind source val ekind ds st) = out_defs_by_block st"
  "emitted (emit_value fn block site storage kind source val ekind ds st) = emitted st + 1"
  by (simp_all add: emit_value_def Let_def)

lemma phi_loop_inv:
  "ssa_inv fn cap st \<Longrightarrow> emitted st + remaining \<le> cap \<Longrightarrow> out_defs_by_block st = outs \<Longrightarrow>
   ssa_inv fn cap (phi_loop fn block ps outs remaining storages st)"
proof (induction fn block ps outs remaining storages st rule: phi_loop.induct)
  case (2 fn block ps outs remaining storage storages st)
  note prems = 2(3-5)
  show ?case
  proof (cases "remaining = 0")
    case False
    let ?inc = "incoming_defs ps outs storage"
    let ?st = "emit_value fn (Some block) block storage (kind_for_storage storage) ''phi'' None ''phi'' ?inc st"
    have st: "ssa_inv fn cap ?st"
      using prems False by (intro emit_value_inv usable_phi) (auto intro: incoming_defs_in)
    show ?thesis
    proof (cases "length ?inc < 2 \<or> length (remdups (map cd_id ?inc)) < 2")
      case True
      then show ?thesis using 2(1) [OF False refl True prems] False by simp
    next
      case few: False
      have "ssa_inv fn cap (phi_loop fn block ps outs (remaining - 1) storages ?st)"
        by (rule 2(2) [OF False refl few st]) (use prems False in auto)
      then show ?thesis using False few by simp
    qed
  qed (use prems in simp)
qed simp

lemma inv_caps [simp]: "ssa_inv fn cap (st\<lparr>caps_hit := h\<rparr>) = ssa_inv fn cap st"
  by (simp add: ssa_inv_def)

lemma inv_joined [simp]: "ssa_inv fn cap (st\<lparr>emitted_join_phis := h\<rparr>) = ssa_inv fn cap st"
  by (simp add: ssa_inv_def)

lemma enter_block_inv:
  assumes "ssa_inv fn cap st"
  shows "ssa_inv fn cap (snd (enter_block fn joins cap block st))"
proof -
  have "ssa_inv fn cap (emit_join_phis fn b ps (cap - emitted st) (st\<lparr>emitted_join_phis := h\<rparr>))" for b ps h
    using assms ssa_invD(2) [OF assms] unfolding emit_join_phis_def by (auto intro!: phi_loop_inv)
  then show ?thesis
    using assms by (auto simp: enter_block_def Let_def split: option.splits)
qed

lemma write_loop_inv:
  assumes "ssa_inv fn cap st" "\<And>d. d \<in> set ds \<Longrightarrow> usable (ss_values st) ''use_def'' (ir_address ins) d"
  shows "ssa_inv fn cap (write_loop fn block ins ds cap ws st)"
  using assms
proof (induction fn block ins ds cap ws st rule: write_loop.induct)
  case (2 fn block ins ds cap storage kind source ws st)
  show ?case
  proof (cases "emitted st \<ge> cap")
    case False
    let ?st = "emit_value fn block (ir_address ins) storage kind source (constant_value ins)
          (if kind = ''memory'' then ''memory_store'' else ''use_def'') ds st"
    have kinds: "usable vs ''use_def'' site d \<Longrightarrow> usable vs ek site d" for vs ek site d
      by (auto simp: usable_def)
    have "ssa_inv fn cap ?st" using 2(2,3) False kinds by (intro emit_value_inv) auto
    moreover have "usable (ss_values ?st) ''use_def'' (ir_address ins) d" if "d \<in> set ds" for d
      using usable_snoc [OF _ 2(3) [OF that]] by (simp add: emit_value_def Let_def)
    ultimately have "ssa_inv fn cap (write_loop fn block ins ds cap ws ?st)" by (rule 2(1) [OF False])
    then show ?thesis using False by simp
  qed (use 2(2) in simp)
qed simp

lemma set_append_option:
  "set (xs @ (if c then (case x of Some d \<Rightarrow> [d] | None \<Rightarrow> []) else [])) \<subseteq> set xs \<union> set_option x"
  by (cases c; cases x) (simp_all only: if_True if_False option.case set_append set_simps option.set, blast+)

lemma input_defs_in:
  assumes "ssa_inv fn cap st" "d \<in> set (input_defs_of ins (current st))"
  shows "usable (ss_values st) ek site d"
proof -
  have "set (input_defs_of ins (current st)) \<subseteq>
      set (List.map_filter (bt_get (current st)) (read_storages ins)) \<union> set_option (bt_get (current st) ''mem'')"
    unfolding input_defs_of_def by (rule set_append_option)
  moreover have "\<exists>s. bt_get (current st) s = Some e" if "e \<in> set (List.map_filter (bt_get (current st)) xs)" for e xs
    using that by (induction xs) (auto simp: List.map_filter_simps split: option.splits)
  ultimately obtain s where "bt_get (current st) s = Some d"
    using assms(2) by (meson UnE elem_set subsetD)
  then show ?thesis using ssa_invD(8) [OF assms(1)] last_def_usable by metis
qed

lemma leave_block_inv:
  assumes "ssa_inv fn cap st"
  shows "ssa_inv fn cap (leave_block block st)"
proof -
  note I = ssa_invD [OF assms]
  have "d \<in> def_of ` set (ss_values st)" if "bt_get (current st) s = Some d" for s d
    using that I(8) last_def_in by metis
  then show ?thesis
    using assms by (auto simp: leave_block_def ssa_inv_def bt_get_insert split: option.splits)
qed

lemma ssa_loop_inv: "ssa_inv fn cap st \<Longrightarrow> ssa_inv fn cap (ssa_loop fn cfg joins cap ir st)"
proof (induction fn cfg joins cap ir st rule: ssa_loop.induct)
  case (2 fn cfg joins cap ins rest st)
  show ?case
  proof (cases "emitted st \<ge> cap")
    case False
    obtain stop st1 where e: "enter_block fn joins cap (ssa_block_for cfg (ir_address ins)) st = (stop, st1)" by fastforce
    have st1: "ssa_inv fn cap st1" using enter_block_inv [OF 2(2), of joins "ssa_block_for cfg (ir_address ins)"] by (simp add: e)
    let ?st2 = "leave_block (ssa_block_for cfg (ir_address ins)) (write_loop fn (ssa_block_for cfg (ir_address ins)) ins
      (input_defs_of ins (current st1)) cap (write_storages ins) st1)"
    have st2: "ssa_inv fn cap ?st2" by (intro leave_block_inv write_loop_inv st1 input_defs_in [OF st1])
    show ?thesis
    proof (cases stop)
      case False
      then show ?thesis using 2(1) [OF \<open>\<not> emitted st \<ge> cap\<close> refl refl e [symmetric] _ st2] \<open>\<not> emitted st \<ge> cap\<close>
        by (simp add: e Let_def)
    qed (use False e st1 in simp)
  qed (use 2(2) in simp)
qed simp

lemma process_inv: "ssa_inv fn cap (process_function_slice fn ir cfg cap)"
proof -
  have "ssa_inv fn cap ssa_start"
    by (simp add: ssa_inv_def ssa_start_def ids_ok_def versions_ok_def of_storage_def version_of_def last_def_def)
  then show ?thesis unfolding process_function_slice_def by (rule ssa_loop_inv)
qed

lemma ids_distinct: "ids_ok fn vs \<Longrightarrow> distinct (map ssa_id vs)"
  by (auto simp: distinct_conv_nth ids_ok_def dest: ident_inj_index)

text \<open>
  C9: single assignment: the values of a function have distinct identifiers, the versions of each storage are
  1, 2, 3 in the order of the rows, and there are at most as many values as the cap allows.
\<close>

theorem ssa_single_assignment:
  "distinct (map ssa_id (ss_values (process_function_slice fn ir cfg cap))) \<and>
   (let vs = of_storage s (ss_values (process_function_slice fn ir cfg cap)) in map sv_version vs = [1..<Suc (length vs)]) \<and>
   length (ss_values (process_function_slice fn ir cfg cap)) \<le> cap"
proof -
  note I = ssa_invD [OF process_inv [of fn cap ir cfg]]
  show ?thesis using I(1,2,4) ids_distinct [OF I(3)] by (simp add: versions_ok_def Let_def)
qed

text \<open>
  C27: every edge of a function leads from an earlier value to a later one, with their storages and sites; a
  used value is the last one of its storage before the using instruction.
\<close>

theorem ssa_edges_forward:
  assumes "e \<in> set (ss_edges (process_function_slice fn ir cfg cap))"
  shows "edge_ok fn (ss_values (process_function_slice fn ir cfg cap)) e"
  by (rule ssa_invD(11) [OF process_inv assms])

section \<open>All functions\<close>

lemma collect_slices_total:
  "(\<And>x. x \<in> set xs \<Longrightarrow> f x \<noteq> None) \<Longrightarrow> collect_slices f xs = Some (List.map_filter (\<lambda>x. the (f x)) xs)"
  by (induction xs) (auto simp: List.map_filter_simps split: option.splits)

definition slice_key :: "FunctionRecord list \<Rightarrow> FunctionSemanticSlice \<Rightarrow> u64" where
  "slice_key functions s = fn_start (functions ! function_index s)"

definition slice_ok :: "u64 \<Rightarrow> SsaState option \<Rightarrow> bool" where
  "slice_ok fn r \<longleftrightarrow> (case r of None \<Rightarrow> True | Some st \<Rightarrow> \<exists>cap. ssa_inv fn cap st)"

definition values_of_slice :: "SsaState option \<Rightarrow> SsaValueRecord list" where
  "values_of_slice r = (case r of None \<Rightarrow> [] | Some st \<Rightarrow> ss_values st)"

lemma slice_values:
  assumes "slice_ok fn r"
  shows "distinct (map ssa_id (values_of_slice r))"
    "v \<in> set (values_of_slice r) \<Longrightarrow> sv_function v = fn \<and> (\<exists>s n i. ssa_id v = ssa_ident fn s n i)"
proof -
  have "ids_ok fn (values_of_slice r)"
  proof (cases r)
    case (Some st)
    then obtain cap where "ssa_inv fn cap st" using assms by (auto simp: slice_ok_def)
    then show ?thesis using Some ssa_invD(3) by (simp add: values_of_slice_def)
  qed (simp add: values_of_slice_def ids_ok_def)
  then show "distinct (map ssa_id (values_of_slice r))"
    "v \<in> set (values_of_slice r) \<Longrightarrow> sv_function v = fn \<and> (\<exists>s n i. ssa_id v = ssa_ident fn s n i)"
    using ids_distinct by (auto simp: ids_ok_def in_set_conv_nth)
qed

lemma concat_ids_distinct:
  "(\<And>x. x \<in> set xs \<Longrightarrow> slice_ok (key x) (g x)) \<Longrightarrow> distinct (map key xs) \<Longrightarrow>
   distinct (map ssa_id (concat (map (\<lambda>x. values_of_slice (g x)) xs)))"
proof (induction xs)
  case (Cons x xs)
  let ?rest = "concat (map (\<lambda>x. values_of_slice (g x)) xs)"
  have "ssa_id v \<noteq> ssa_id w" if v: "v \<in> set (values_of_slice (g x))" and w: "w \<in> set ?rest" for v w
  proof
    assume e: "ssa_id v = ssa_id w"
    obtain y where y: "y \<in> set xs" "w \<in> set (values_of_slice (g y))" using w by auto
    have "key x = key y"
      using slice_values(2) [OF Cons.prems(1) v] slice_values(2) [OF Cons.prems(1) y(2)] y(1) e
      by (metis ident_inj_function list.set_intros(1,2))
    then show False using Cons.prems(2) y(1) by (simp add: rev_image_eqI)
  qed
  moreover have "distinct (map ssa_id ?rest)" using Cons by simp
  moreover have "distinct (map ssa_id (values_of_slice (g x)))" using slice_values(1) [OF Cons.prems(1)] by simp
  ultimately show ?case by auto
qed simp

definition edge_joins :: "SsaValueRecord list \<Rightarrow> DataflowEdgeRecord \<Rightarrow> bool" where
  "edge_joins vs e \<longleftrightarrow>
     (\<exists>v\<in>set vs. \<exists>w\<in>set vs. from_value e = Some (ssa_id v) \<and> to_value e = ssa_id w \<and>
        sv_function v = df_function e \<and> sv_function w = df_function e)"

lemma edge_joinsI: "edge_ok fn vs e \<Longrightarrow> ids_ok fn vs \<Longrightarrow> set vs \<subseteq> set ws \<Longrightarrow> edge_joins ws e"
proof -
  assume e: "edge_ok fn vs e" and ids: "ids_ok fn vs" and sub: "set vs \<subseteq> set ws"
  obtain i j where ij: "i < j" "j < length vs" "df_function e = fn" "from_value e = Some (ssa_id (vs ! i))"
    "to_value e = ssa_id (vs ! j)" using e unfolding edge_ok_def by blast
  have "vs ! i \<in> set ws" "vs ! j \<in> set ws" "sv_function (vs ! i) = fn" "sv_function (vs ! j) = fn"
    using ij(1,2) sub ids by (auto simp: ids_ok_def)
  then show ?thesis unfolding edge_joins_def using ij(3-5)
    by (intro bexI [of _ "vs ! i"] bexI [of _ "vs ! j"]) simp_all
qed

lemma ssa_slice_result:
  assumes "slice_range ir (ir_range s) \<noteq> None"
  shows "\<exists>r. ssa_slice functions ir cfgs cap selected s = Some r \<and> slice_ok (slice_key functions s) r"
proof -
  obtain sl where sl: "slice_range ir (ir_range s) = Some sl" using assms by blast
  let ?fn = "slice_key functions s"
  have "slice_ok ?fn (Some (process_function_slice ?fn sl (bt_get cfgs ?fn) cap))"
    using process_inv by (simp add: slice_ok_def) blast
  moreover have "slice_ok ?fn None" by (simp add: slice_ok_def)
  moreover have "ssa_slice functions ir cfgs cap selected s \<in>
      {Some None, Some (Some (process_function_slice ?fn sl (bt_get cfgs ?fn) cap))}"
    by (simp add: ssa_slice_def slice_key_def Let_def sl)
  ultimately show ?thesis by blast
qed

lemma build_ssa_spec:
  assumes ranges: "\<forall>s\<in>set slices. slice_range ir (ir_range s) \<noteq> None"
    and keys: "distinct (map (slice_key functions) slices)"
  shows "\<exists>r. build_ssa_inner functions slices ir cfg bname selected = Some r \<and> distinct (map ssa_id (sr_values r)) \<and>
    (\<forall>e\<in>set (sr_edges r). edge_joins (sr_values r) e)"
proof -
  let ?f = "ssa_slice functions ir (collect_by cfg_function cfg) (ssa_function_cap bname) selected"
  let ?g = "\<lambda>s. the (?f s)"
  have ok: "?f s \<noteq> None \<and> slice_ok (slice_key functions s) (?g s)" if "s \<in> set slices" for s
    using ssa_slice_result [of ir s] ranges that by (metis option.distinct(1) option.sel)
  then have c: "collect_slices ?f slices = Some (List.map_filter ?g slices)" by (intro collect_slices_total) simp
  let ?states = "List.map_filter ?g slices"
  have vals: "concat (map ss_values ?states) = concat (map (\<lambda>x. values_of_slice (?g x)) slices)"
    by (induction slices) (auto simp: List.map_filter_simps values_of_slice_def split: option.split)
  have "distinct (map ssa_id (concat (map ss_values ?states)))"
    unfolding vals by (rule concat_ids_distinct [OF _ keys]) (use ok in blast)
  moreover have "edge_joins (concat (map ss_values ?states)) e" if e: "e \<in> set (concat (map ss_edges ?states))" for e
  proof -
    obtain st where st: "st \<in> set ?states" "e \<in> set (ss_edges st)" using e by auto
    obtain s where s: "s \<in> set slices" "?g s = Some st" using st(1) by (auto simp: List.map_filter_def)
    then obtain cap where inv: "ssa_inv (slice_key functions s) cap st" using ok [OF s(1)] by (auto simp: slice_ok_def)
    show ?thesis using ssa_invD(11) [OF inv st(2)] ssa_invD(3) [OF inv] by (rule edge_joinsI) (use st(1) in auto)
  qed
  ultimately show ?thesis unfolding build_ssa_inner_def c by simp
qed

text \<open>
  On the slices of the index the builder does not panic; identifiers are distinct over all
  functions, and both ends of an edge are values of its function.
\<close>

theorem ssa_values_unique:
  assumes "sorted (map ir_address ir)" "\<forall>f\<in>set functions. fn_start f \<le> fn_end f" "distinct (map fn_start functions)"
    "index_build functions instructions ir xref_rows cfg = Some slices"
  shows "\<exists>r. build_ssa_for_targets functions slices ir cfg targets bname = Some r \<and>
    distinct (map ssa_id (sr_values r)) \<and> (\<forall>e\<in>set (sr_edges r). edge_joins (sr_values r) e)"
proof -
  have len: "length slices = length functions" by (rule index_length [OF assms(4)])
  have "function_index (slices ! i) = i" if "i < length functions" for i
    using index_slices [OF assms(4) that] by (rule build_slice_fields(1))
  then have "map (slice_key functions) slices = map fn_start functions"
    using len by (intro nth_equalityI) (simp_all add: slice_key_def)
  then have "distinct (map (slice_key functions) slices)" using assms(3) by simp
  from build_ssa_spec [OF index_ranges_valid [OF assms(1,2,4)] this] show ?thesis
    by (simp add: build_ssa_for_targets_def Let_def)
qed

section \<open>Branches and loops\<close>

definition ssa_row :: "u64 \<Rightarrow> string \<Rightarrow> string option \<Rightarrow> string list \<Rightarrow> IrInstruction" where
  "ssa_row a m w rs = \<lparr>ir_address = a, ir_size = 4, ir_mnemonic = m, write_reg = w, read_regs = rs, immediate = None,
     rip_target = None, stack_slot = None, memory_base = None, memory_index = None, memory_scale = 0,
     memory_displacement = 0, operand_width = 64, indirect_target_register = None, indirect_target_memory = False,
     memory_write = False, memory_read = False, direct_target = None, ir_is_call = False, ir_is_jump = False\<rparr>"

definition bb :: "u64 \<Rightarrow> u64 \<Rightarrow> BasicBlockRecord" where
  "bb a b = \<lparr>block_start = a, block_end = b, instruction_count = 1\<rparr>"

definition cfg_edge :: "u64 \<Rightarrow> u64 \<Rightarrow> EdgeRecord" where
  "cfg_edge a b = \<lparr>edge_from = a, edge_to = b, edge_type = ''branch''\<rparr>"

text \<open>A conditional: block 0 branches to 4 and 8, which both end in 12; 4 writes \<open>rax\<close>, 8 reads it.\<close>

definition diamond :: CfgRecord where
  "diamond = \<lparr>cfg_function = 0, blocks = [bb 0 4, bb 4 8, bb 8 12, bb 12 16],
     edges = [cfg_edge 0 4, cfg_edge 0 8, cfg_edge 4 12, cfg_edge 8 12]\<rparr>"

definition diamond_rows :: "IrInstruction list" where
  "diamond_rows = [ssa_row 0 ''mov'' (Some ''rax'') [], ssa_row 4 ''mov'' (Some ''rax'') [],
     ssa_row 8 ''mov'' (Some ''rcx'') [''rax''], ssa_row 12 ''mov'' (Some ''rdx'') [''rcx'']]"

text \<open>A loop: block 4 adds to \<open>rax\<close> and branches to itself.\<close>

definition self_loop :: CfgRecord where
  "self_loop = \<lparr>cfg_function = 0, blocks = [bb 0 4, bb 4 8], edges = [cfg_edge 0 4, cfg_edge 4 4]\<rparr>"

definition self_loop_rows :: "IrInstruction list" where
  "self_loop_rows = [ssa_row 0 ''mov'' (Some ''rax'') [], ssa_row 4 ''lea'' (Some ''rax'') [''rax'']]"

definition def_use :: "SsaState \<Rightarrow> (u64 option \<times> u64) list" where
  "def_use st = map (\<lambda>e. (from_va e, to_va e)) (ss_edges st)"

definition block_edges :: "CfgRecord \<Rightarrow> (u64 \<times> u64) set" where
  "block_edges cfg = set (map (\<lambda>e. (edge_from e, edge_to e)) (edges cfg))"

lemma diamond_def_use: "def_use (process_function_slice 0 diamond_rows (Some diamond) 64) = [(Some 4, 8), (Some 8, 12)]"
  by code_simp

lemma self_loop_def_use: "def_use (process_function_slice 0 self_loop_rows (Some self_loop) 64) = [(Some 0, 4)]"
  by code_simp

text \<open>
  The edges follow the order of addresses and not the graph: the write of block 4 reaches the read of block
  8, although no path leads from 4 to 8; and the write of a loop body does not reach the
  read of the next round, although the block is its own successor.
\<close>

theorem ssa_edges_ignore_paths:
  "(Some 4, 8) \<in> set (def_use (process_function_slice 0 diamond_rows (Some diamond) 64)) \<and>
   (4, 8) \<notin> (block_edges diamond)\<^sup>+ \<and>
   (Some 4, 4) \<notin> set (def_use (process_function_slice 0 self_loop_rows (Some self_loop) 64)) \<and>
   (4, 4) \<in> (block_edges self_loop)\<^sup>+"
proof -
  have d: "block_edges diamond = {(0, 4), (0, 8), (4, 12), (8, 12)}"
    by (simp add: block_edges_def diamond_def cfg_edge_def)
  have "(4, 8) \<notin> (block_edges diamond)\<^sup>+"
  proof
    assume "(4, 8) \<in> (block_edges diamond)\<^sup>+"
    then obtain z where z: "(4, z) \<in> block_edges diamond" "(z, 8) \<in> (block_edges diamond)\<^sup>*" by (meson tranclD)
    then have "(12, 8) \<in> (block_edges diamond)\<^sup>*" by (auto simp: d)
    then show False by (cases rule: converse_rtranclE) (auto simp: d)
  qed
  moreover have "(4, 4) \<in> block_edges self_loop" by (simp add: block_edges_def self_loop_def cfg_edge_def)
  ultimately show ?thesis by (simp add: diamond_def_use self_loop_def_use r_into_trancl')
qed

theorem ssa_edges_forward_witness:
  "edge_ok 0 (ss_values (process_function_slice 0 diamond_rows (Some diamond) 64))
     (hd (ss_edges (process_function_slice 0 diamond_rows (Some diamond) 64)))"
proof -
  have "ss_edges (process_function_slice 0 diamond_rows (Some diamond) 64) \<noteq> []"
    using diamond_def_use by (auto simp: def_use_def)
  from ssa_edges_forward [OF hd_in_set [OF this]] show ?thesis .
qed

definition ssa_target :: SecondPassTargetRecord where
  "ssa_target = \<lparr>target_id = [], target_function = 0x1000, target_reason = [], priority_score = 0, pass1_uncertainty = [],
     result_status = [], target_evidence = []\<rparr>"

theorem ssa_values_unique_witness:
  "\<exists>slices r. index_build [demo_fn] [] [demo_row] [] [] = Some slices \<and>
     build_ssa_for_targets [demo_fn] slices [demo_row] [] [ssa_target] ''normal'' = Some r \<and> distinct (map ssa_id (sr_values r))"
proof -
  obtain slices where s: "index_build [demo_fn] [] [demo_row] [] [] = Some slices"
    by (simp add: index_build_def build_slice_def slice_range_def range_of_def partition_count_def Let_def demo_fn_def)
  have "sorted (map ir_address [demo_row])" "\<forall>f\<in>set [demo_fn]. fn_start f \<le> fn_end f" "distinct (map fn_start [demo_fn])"
    by (simp_all add: demo_fn_def)
  from ssa_values_unique [OF this s, of "[ssa_target]" "''normal''"] s show ?thesis by blast
qed

end
