(* ===== verification/String_Scan.thy ===== *)
theory String_Scan
  imports Pe_Props Vsa_Values
begin

text \<open>
  \<open>src/strings.rs\<close>: the ASCII and UTF-16 strings of the sections of an image, with their tags.
  \<open>runs\<close> is the reference for the ASCII scan, \<open>even_runs\<close> for the UTF-16 scan.
\<close>

section \<open>Classification\<close>

definition backslash :: char where "backslash = char_of (0x5C :: nat)"

definition looks_like_path :: "string \<Rightarrow> bool" where
  "looks_like_path t \<longleftrightarrow>
     (length t > 3 \<and> t ! 1 = CHR '':'' \<and> t ! 2 = backslash) \<or> starts_with [backslash, backslash] t \<or> starts_with ''/'' t"

definition trim_braces :: "string \<Rightarrow> string" where
  "trim_braces t =
     (let brace = (\<lambda>c. c = CHR ''{'' \<or> c = CHR ''}'')
      in rev (dropWhile brace (rev (dropWhile brace t))))"

definition looks_like_guid :: "string \<Rightarrow> bool" where
  "looks_like_guid t \<longleftrightarrow>
     (let parts = split_on (CHR ''-'') (trim_braces t)
      in length parts = 5 \<and>
         list_all (\<lambda>(n, p). length p = n \<and> list_all (\<lambda>c. digit_val 16 c \<noteq> None) p) (zip [8, 4, 4, 4, 12] parts))"

definition looks_like_format :: "string \<Rightarrow> bool" where
  "looks_like_format t \<longleftrightarrow>
     list_ex (\<lambda>n. contains n t)
       [[backslash, CHR ''n''], [backslash, CHR ''r''], ''%s'', ''%d'', ''%u'', ''%x'', ''%X'', ''%f'']"

definition classify_string :: "string \<Rightarrow> string list" where
  "classify_string t =
     (let lower = to_ascii_lowercase t
      in remdups_adj (sort
        ((if list_ex (\<lambda>n. contains n lower) [''http://'', ''https://'', ''ftp://''] then [''url''] else []) @
         (if list_ex (\<lambda>p. starts_with p lower) [''hkcu'', ''hklm'', ''hkcr'', ''hku'', ''hkey_''] then [''registry''] else []) @
         (if looks_like_path t then [''path''] else []) @
         (if contains ''.pdb'' lower then [''pdb''] else []) @
         (if looks_like_guid t then [''guid''] else []) @
         (if looks_like_format t then [''format''] else []) @
         (if list_ex (\<lambda>n. contains n lower)
               [''cmd.exe'', ''powershell'', ''rundll32'', ''regsvr32'', ''schtasks'', ''wmic'']
          then [''command''] else []))))"

section \<open>The ASCII scan\<close>

definition printable :: "u8 \<Rightarrow> bool" where
  "printable b \<longleftrightarrow> 0x20 \<le> b \<and> b \<le> 0x7E"

definition string_row :: "u64 \<Rightarrow> SectionRecord \<Rightarrow> nat \<Rightarrow> string \<Rightarrow> nat \<Rightarrow> string \<Rightarrow> StringRecord" where
  "string_row base s begin encoding sz t =
     (let va = base + ucast (sec_rva s) + of_nat begin
      in \<lparr>str_va = va, str_rva = (if va < base then 0 else va - base),
          str_file_offset = ucast (raw_start s) + of_nat begin, str_encoding = encoding, str_size = sz, str_text = t,
          str_classifiers = classify_string t, str_section = Some (sec_name s)\<rparr>)"

definition push_ascii ::
  "u64 \<Rightarrow> SectionRecord \<Rightarrow> bytes \<Rightarrow> nat \<Rightarrow> nat \<Rightarrow> nat \<Rightarrow> StringRecord list \<Rightarrow> StringRecord list" where
  "push_ascii base s data max_strings begin stop rows =
     (if length rows \<ge> max_strings \<or> stop - begin < 5 then rows
      else rows @ [string_row base s begin ''ASCII'' (stop - begin) (from_utf8_lossy (take (stop - begin) (drop begin data)))])"

text \<open>The loop over the bytes; \<open>start\<close> is the begin of the current run.\<close>

fun ascii_loop :: "(nat \<Rightarrow> nat \<Rightarrow> 'r \<Rightarrow> 'r) \<Rightarrow> bytes \<Rightarrow> nat \<Rightarrow> nat option \<Rightarrow> 'r \<Rightarrow> 'r" where
  "ascii_loop push [] idx start rows = (case start of Some begin \<Rightarrow> push begin idx rows | None \<Rightarrow> rows)"
| "ascii_loop push (b # bs) idx start rows =
     (if printable b
      then ascii_loop push bs (Suc idx) (case start of None \<Rightarrow> Some idx | Some i \<Rightarrow> Some i) rows
      else case start of
             Some begin \<Rightarrow> ascii_loop push bs (Suc idx) None (push begin idx rows)
           | None \<Rightarrow> ascii_loop push bs (Suc idx) None rows)"

definition scan_ascii ::
  "u64 \<Rightarrow> SectionRecord \<Rightarrow> bytes \<Rightarrow> nat \<Rightarrow> StringRecord list \<Rightarrow> StringRecord list" where
  "scan_ascii base s data max_strings rows = ascii_loop (push_ascii base s data max_strings) data 0 None rows"

section \<open>The UTF-16 scan\<close>

definition pair_at :: "bytes \<Rightarrow> nat \<Rightarrow> bool" where
  "pair_at data i \<longleftrightarrow> i + 1 < length data \<and> printable (data ! i) \<and> data ! (i + 1) = 0"

text \<open>The inner loop: the units from position \<open>i\<close> on.\<close>

function utf16_units :: "bytes \<Rightarrow> nat \<Rightarrow> u8 list" where
  "utf16_units data i = (if pair_at data i then data ! i # utf16_units data (i + 2) else [])"
  by pat_completeness auto
termination by (relation "measure (\<lambda>(data, i). length data - i)") (auto simp: pair_at_def)

declare utf16_units.simps [simp del]

function utf16_loop ::
  "u64 \<Rightarrow> SectionRecord \<Rightarrow> bytes \<Rightarrow> nat \<Rightarrow> nat \<Rightarrow> StringRecord list \<Rightarrow> StringRecord list" where
  "utf16_loop base s data max_strings i rows =
     (if i + 10 \<le> length data \<and> length rows < max_strings
      then
        let units = utf16_units data i;
            rows = (if length units \<ge> 5
                    then rows @ [string_row base s i ''UTF-16LE'' (length units * 2) (map byte_char units)] else rows)
        in utf16_loop base s data max_strings (i + 2 * length units + 2) rows
      else rows)"
  by pat_completeness auto
termination by (relation "measure (\<lambda>(base, s, data, m, i, rows). length data - i)") auto

declare utf16_loop.simps [simp del]

definition scan_utf16 ::
  "u64 \<Rightarrow> SectionRecord \<Rightarrow> bytes \<Rightarrow> nat \<Rightarrow> StringRecord list \<Rightarrow> StringRecord list" where
  "scan_utf16 base s data max_strings rows = utf16_loop base s data max_strings 0 rows"

section \<open>All sections\<close>

text \<open>\<^const>\<open>None\<close> is the panic of a section range outside the file.\<close>

fun extract_loop ::
  "bytes \<Rightarrow> u64 \<Rightarrow> nat \<Rightarrow> SectionRecord list \<Rightarrow> StringRecord list \<Rightarrow> StringRecord list option" where
  "extract_loop bs base max_strings [] rows = Some rows"
| "extract_loop bs base max_strings (s # ss) rows =
     (case section_data s bs of
        None \<Rightarrow> None
      | Some data \<Rightarrow>
          let rows = scan_ascii base s data max_strings rows
          in if length rows \<ge> max_strings then Some rows
             else let rows = scan_utf16 base s data max_strings rows
                  in if length rows \<ge> max_strings then Some rows else extract_loop bs base max_strings ss rows)"

definition extract_strings_from ::
  "bytes \<Rightarrow> u64 \<Rightarrow> SectionRecord list \<Rightarrow> nat \<Rightarrow> StringRecord list option" where
  "extract_strings_from bs base secs max_strings = extract_loop bs base max_strings secs []"

definition extract_strings_pe :: "PEImage \<Rightarrow> nat \<Rightarrow> StringRecord list option" where
  "extract_strings_pe img max_strings = extract_strings_from (pe_bytes img) (pe_base img) (pe_sections img) max_strings"

section \<open>Runs\<close>

text \<open>A maximal run of printable bytes.\<close>

definition is_run :: "bytes \<Rightarrow> nat \<Rightarrow> nat \<Rightarrow> bool" where
  "is_run data b e \<longleftrightarrow>
     b < e \<and> e \<le> length data \<and> (\<forall>i. b \<le> i \<and> i < e \<longrightarrow> printable (data ! i)) \<and>
     (b = 0 \<or> \<not> printable (data ! (b - 1))) \<and> (e = length data \<or> \<not> printable (data ! e))"

definition runs :: "bytes \<Rightarrow> (nat \<times> nat) list" where
  "runs data = ascii_loop (\<lambda>b e rs. rs @ [(b, e)]) data 0 None []"

lemma ascii_loop_fold:
  "ascii_loop push bs idx start (fold (\<lambda>(b, e). push b e) rs rows) =
   fold (\<lambda>(b, e). push b e) (ascii_loop (\<lambda>b e rs. rs @ [(b, e)]) bs idx start rs) rows"
proof (induction bs arbitrary: idx start rs)
  case Nil
  then show ?case by (simp split: option.split)
next
  case (Cons x bs)
  show ?case
  proof (cases "printable x")
    case False
    then show ?thesis using Cons.IH [of "Suc idx" None "rs @ [(the start, idx)]"] Cons.IH [of "Suc idx" None rs]
      by (cases start) simp_all
  qed (simp add: Cons.IH)
qed

lemma scan_ascii_runs:
  "scan_ascii base s data m rows = fold (\<lambda>(b, e). push_ascii base s data m b e) (runs data) rows"
  using ascii_loop_fold [of "push_ascii base s data m" data 0 None "[]" rows] by (simp add: scan_ascii_def runs_def)

text \<open>The state of the scan behind position \<open>idx\<close>.\<close>

definition scan_inv :: "bytes \<Rightarrow> nat \<Rightarrow> nat option \<Rightarrow> (nat \<times> nat) list \<Rightarrow> bool" where
  "scan_inv data idx start rs \<longleftrightarrow>
     idx \<le> length data \<and> sorted_wrt (\<lambda>(b, e) (b', e'). e < b') rs \<and>
     set rs = {(b, e). is_run data b e \<and> e < idx} \<and>
     (case start of
        None \<Rightarrow> idx = 0 \<or> \<not> printable (data ! (idx - 1))
      | Some b \<Rightarrow> b < idx \<and> (\<forall>i. b \<le> i \<and> i < idx \<longrightarrow> printable (data ! i)) \<and> (b = 0 \<or> \<not> printable (data ! (b - 1))))"

lemma is_runD:
  assumes "is_run data b e"
  shows "b < e" "e \<le> length data" "b \<le> i \<Longrightarrow> i < e \<Longrightarrow> printable (data ! i)"
    "b \<noteq> 0 \<Longrightarrow> \<not> printable (data ! (b - 1))" "e \<noteq> length data \<Longrightarrow> \<not> printable (data ! e)"
  using assms unfolding is_run_def by blast+

lemma run_last: "is_run data b e \<Longrightarrow> 0 < e \<and> printable (data ! (e - 1))"
  using is_runD(1) [of data b e] is_runD(3) [of data b e "e - 1"] by auto

lemma run_begin: "is_run data b e \<Longrightarrow> is_run data c e \<Longrightarrow> b \<le> c"
  using is_runD(4) [of data b e] is_runD(3) [of data c e "b - 1"] is_runD(1) [of data b e] by fastforce

lemma run_unique: "is_run data b e \<Longrightarrow> is_run data c e \<Longrightarrow> b = c"
  using run_begin by (blast intro: antisym)

lemma run_before:
  assumes "is_run data b e" "e < idx" "idx \<le> length data" "\<forall>i. c \<le> i \<and> i < idx \<longrightarrow> printable (data ! i)"
  shows "e < c"
proof (rule ccontr)
  assume "\<not> e < c"
  then have "printable (data ! e)" using assms(2,4) by simp
  then show False using assms by (auto simp: is_run_def)
qed

lemma scan_inv_print:
  assumes "scan_inv data idx start rs" "idx < length data" "printable (data ! idx)"
  shows "scan_inv data (Suc idx) (case start of None \<Rightarrow> Some idx | Some b \<Rightarrow> Some b) rs"
proof -
  have "{(b, e). is_run data b e \<and> e < Suc idx} = {(b, e). is_run data b e \<and> e < idx}"
    using assms(2,3) by (auto simp: is_run_def less_Suc_eq)
  then show ?thesis
    using assms by (cases start) (auto simp: scan_inv_def less_Suc_eq)
qed

lemma scan_inv_break:
  assumes "scan_inv data idx start rs" "idx < length data" "\<not> printable (data ! idx)"
  shows "scan_inv data (Suc idx) None (case start of None \<Rightarrow> rs | Some b \<Rightarrow> rs @ [(b, idx)])"
proof (cases start)
  case None
  have "e \<noteq> idx" if "is_run data b e" for b e
  proof
    assume "e = idx"
    then have "0 < idx" "printable (data ! (idx - 1))" using run_last [OF that] by simp_all
    then show False using assms(1) None by (simp add: scan_inv_def)
  qed
  then have "{(b, e). is_run data b e \<and> e < Suc idx} = {(b, e). is_run data b e \<and> e < idx}"
    by (auto simp: less_Suc_eq)
  then show ?thesis using assms None by (simp add: scan_inv_def)
next
  case (Some c)
  have c: "c < idx" "\<forall>i. c \<le> i \<and> i < idx \<longrightarrow> printable (data ! i)" "c = 0 \<or> \<not> printable (data ! (c - 1))"
    using assms(1) Some by (auto simp: scan_inv_def)
  have run: "is_run data c idx" using c assms(2,3) by (simp add: is_run_def)
  then have new: "{(b, e). is_run data b e \<and> e < Suc idx} = insert (c, idx) {(b, e). is_run data b e \<and> e < idx}"
    using run_unique by (auto simp: less_Suc_eq)
  have "e < c" if "is_run data b e" "e < idx" for b e
    using run_before [OF that _ c(2)] assms(2) by simp
  then show ?thesis using assms Some new by (auto simp: scan_inv_def sorted_wrt_append)
qed

lemma ascii_loop_inv:
  "data = pre @ bs \<Longrightarrow> scan_inv data (length pre) start rs \<Longrightarrow>
   ascii_loop (\<lambda>b e rs. rs @ [(b, e)]) bs (length pre) start rs = out \<Longrightarrow>
   set out = {(b, e). is_run data b e} \<and> sorted_wrt (\<lambda>(b, e) (b', e'). e < b') out"
proof (induction bs arbitrary: pre start rs)
  case (Cons x bs)
  have x: "data ! length pre = x" "length pre < length data" "data = (pre @ [x]) @ bs" using Cons.prems(1) by simp_all
  note IH = Cons.IH [of "pre @ [x]"]
  show ?case
  proof (cases "printable x")
    case True
    then show ?thesis
      using IH [OF x(3), of "case start of None \<Rightarrow> Some (length pre) | Some b \<Rightarrow> Some b" rs]
        scan_inv_print [OF Cons.prems(2) x(2)] Cons.prems(3) x(1) by simp
  next
    case False
    then show ?thesis
      using IH [OF x(3), of None "case start of None \<Rightarrow> rs | Some b \<Rightarrow> rs @ [(b, length pre)]"]
        scan_inv_break [OF Cons.prems(2) x(2)] Cons.prems(3) x(1) by (cases start) simp_all
  qed
next
  case Nil
  let ?n = "length data"
  have pre: "length pre = ?n" using Nil.prems(1) by simp
  have le: "e \<le> ?n" if "is_run data b e" for b e using that by (simp add: is_run_def)
  show ?case
  proof (cases start)
    case None
    have "e \<noteq> ?n" if "is_run data b e" for b e
    proof
      assume "e = ?n"
      then have "0 < ?n" "printable (data ! (?n - 1))" using run_last [OF that] by simp_all
      then show False using Nil.prems(2) None pre by (simp add: scan_inv_def)
    qed
    then have "{(b, e). is_run data b e \<and> e < ?n} = {(b, e). is_run data b e}" using le by (auto simp: le_less)
    then have eq: "{(b, e). is_run data b e} = {(b, e). is_run data b e \<and> e < ?n}" ..
    show ?thesis unfolding eq using Nil.prems(2,3) None pre by (simp add: scan_inv_def)
  next
    case (Some c)
    have c: "c < ?n" "\<forall>i. c \<le> i \<and> i < ?n \<longrightarrow> printable (data ! i)" "c = 0 \<or> \<not> printable (data ! (c - 1))"
      using Nil.prems(2) Some pre by (auto simp: scan_inv_def)
    have run: "is_run data c ?n" using c by (simp add: is_run_def)
    have before: "e < c" if "is_run data b e" "e < ?n" for b e
      using run_before [OF that _ c(2)] by simp
    have "{(b, e). is_run data b e} = insert (c, ?n) {(b, e). is_run data b e \<and> e < ?n}" (is "?A = ?B")
    proof (rule subset_antisym; rule subrelI)
      fix b e assume "(b, e) \<in> ?A"
      then have r: "is_run data b e" by simp
      then have "e = ?n \<Longrightarrow> b = c" using run_unique [OF _ run] by simp
      then show "(b, e) \<in> ?B" using r le [OF r] by fastforce
    next
      fix b e assume "(b, e) \<in> ?B"
      then show "(b, e) \<in> ?A" using run by auto
    qed
    then have eq: "{(b, e). is_run data b e} = insert (c, ?n) {(b, e). is_run data b e \<and> e < ?n}" .
    have out: "out = rs @ [(c, ?n)]" using Nil.prems(3) Some pre by simp
    have rs: "sorted_wrt (\<lambda>(b, e) (b', e'). e < b') rs" "set rs = {(b, e). is_run data b e \<and> e < ?n}"
      using Nil.prems(2) pre by (simp_all add: scan_inv_def)
    have "sorted_wrt (\<lambda>(b, e) (b', e'). e < b') out"
      unfolding out using rs(1) before by (auto simp: sorted_wrt_append rs(2))
    then show ?thesis unfolding eq out using rs(2) by simp
  qed
qed

lemma runs_spec: "set (runs data) = {(b, e). is_run data b e}" "sorted_wrt (\<lambda>(b, e) (b', e'). e < b') (runs data)"
proof -
  have "scan_inv data 0 None []" by (auto simp: scan_inv_def is_run_def)
  then show "set (runs data) = {(b, e). is_run data b e}" "sorted_wrt (\<lambda>(b, e) (b', e'). e < b') (runs data)"
    using ascii_loop_inv [of data "[]" data None "[]"] by (simp_all add: runs_def)
qed

section \<open>The scan against its reference\<close>

definition ascii_row :: "u64 \<Rightarrow> SectionRecord \<Rightarrow> bytes \<Rightarrow> nat \<times> nat \<Rightarrow> StringRecord" where
  "ascii_row base s data = (\<lambda>(b, e). string_row base s b ''ASCII'' (e - b) (from_utf8_lossy (take (e - b) (drop b data))))"

lemma fold_push_ascii:
  "fold (\<lambda>(b, e). push_ascii base s data m b e) rs rows =
   rows @ take (m - length rows) (map (ascii_row base s data) (filter (\<lambda>(b, e). 5 \<le> e - b) rs))"
proof (induction rs arbitrary: rows)
  case (Cons r rs)
  obtain b e where r: "r = (b, e)" by (cases r)
  show ?case
  proof (cases "length rows \<ge> m \<or> e - b < 5")
    case True
    then have "push_ascii base s data m b e rows = rows" by (simp add: push_ascii_def)
    then show ?thesis using r True by (auto simp: Cons.IH)
  next
    case False
    then have p: "push_ascii base s data m b e rows = rows @ [ascii_row base s data (b, e)]"
      by (simp add: push_ascii_def ascii_row_def)
    have "m - length rows = Suc (m - Suc (length rows))" using Suc_diff_Suc [of "length rows" m] False by simp
    then show ?thesis using False r by (simp add: Cons.IH p)
  qed
qed simp

text \<open>
  C40: the ASCII scan of a section adds, up to the limit, one row for each maximal run of printable
  bytes of at least five bytes, and no other, in the order of the file.
\<close>

theorem strings_ascii_exact:
  "\<exists>rs. set rs = {(b, e). is_run data b e \<and> 5 \<le> e - b} \<and> sorted_wrt (\<lambda>(b, e) (b', e'). e < b') rs \<and>
        scan_ascii base s data max_strings rows =
          rows @ take (max_strings - length rows) (map (ascii_row base s data) rs)"
proof -
  let ?rs = "filter (\<lambda>(b, e). 5 \<le> e - b) (runs data)"
  have "set ?rs = {(b, e). is_run data b e \<and> 5 \<le> e - b}" using runs_spec(1) [of data] by auto
  moreover have "sorted_wrt (\<lambda>(b, e) (b', e'). e < b') ?rs" using runs_spec(2) by (rule sorted_wrt_filter)
  ultimately show ?thesis unfolding scan_ascii_runs fold_push_ascii by blast
qed

section \<open>UTF-16 strings are found at even offsets only\<close>

definition utf16le :: "u8 list \<Rightarrow> bytes" where
  "utf16le t = concat (map (\<lambda>c. [c, 0]) t)"

lemma utf16le_simps [simp]: "utf16le [] = []" "utf16le (c # t) = c # 0 # utf16le t"
  by (simp_all add: utf16le_def)

lemma utf16le_length [simp]: "length (utf16le t) = 2 * length t"
  by (induction t) simp_all

lemma utf16le_odd: "i < length t \<Longrightarrow> utf16le t ! Suc (2 * i) = 0"
proof (induction t arbitrary: i)
  case (Cons c t)
  then show ?case by (cases i) simp_all
qed simp

lemma utf16_units_encoded:
  assumes "list_all printable t"
  shows "utf16_units (pre @ utf16le t) (length pre) = t"
  using assms
proof (induction t arbitrary: pre)
  case Nil
  show ?case by (subst utf16_units.simps) (simp add: pair_at_def)
next
  case (Cons c t)
  have "pair_at (pre @ utf16le (c # t)) (length pre)" using Cons.prems by (simp add: pair_at_def nth_append)
  then show ?case
    using Cons.IH [of "pre @ [c, 0]"] Cons.prems by (subst utf16_units.simps) (simp add: nth_append)
qed

lemma not_printable_0: "\<not> printable 0"
  by (simp add: printable_def)

lemma no_pair_shifted:
  assumes "list_all printable t" "t \<noteq> []"
  shows "\<not> pair_at (x # utf16le t) (2 * k)"
proof (cases k)
  case 0
  obtain c u where t: "t = c # u" using assms(2) by (cases t) auto
  then have "c \<noteq> 0" using assms(1) not_printable_0 by auto
  then show ?thesis using 0 t by (simp add: pair_at_def)
next
  case (Suc j)
  have "(x # utf16le t) ! (2 * k) = 0" if "2 * k + 1 < length (x # utf16le t)"
    using utf16le_odd [of j t] that Suc by simp
  then show ?thesis using not_printable_0 by (auto simp: pair_at_def)
qed

lemma utf16_loop_no_pair:
  assumes "\<And>k. \<not> pair_at data (2 * k)"
  shows "utf16_loop base s data m (2 * k) rows = rows"
proof (induction "length data - 2 * k" arbitrary: k rule: less_induct)
  case less
  have units: "utf16_units data (2 * k) = []" using assms [of k] by (subst utf16_units.simps) simp
  have "utf16_loop base s data m (2 * k + 2) rows = rows" if "2 * k + 10 \<le> length data"
    using less [of "k + 1"] that by simp
  then show ?case by (subst utf16_loop.simps) (simp add: units)
qed

text \<open>
  The UTF-16 scan of a section that holds one encoded text of five or more printable characters
  yields the one row with that text when the text starts at an even offset of the section, and no
  row when one byte stands before it.
\<close>

theorem strings_utf16_even_only:
  assumes "list_all printable t" "5 \<le> length t" "length rows < max_strings"
  shows "scan_utf16 base s (utf16le t) max_strings rows =
           rows @ [string_row base s 0 ''UTF-16LE'' (2 * length t) (map byte_char t)] \<and>
         scan_utf16 base s (x # utf16le t) max_strings rows = rows"
proof
  have units: "utf16_units (utf16le t) 0 = t" using utf16_units_encoded [OF assms(1), of "[]"] by simp
  have stop: "utf16_loop base s (utf16le t) max_strings (2 * length t + 2) r = r" for r
    by (subst utf16_loop.simps) simp
  show "scan_utf16 base s (utf16le t) max_strings rows =
          rows @ [string_row base s 0 ''UTF-16LE'' (2 * length t) (map byte_char t)]"
    unfolding scan_utf16_def using assms stop
    by (subst utf16_loop.simps) (simp add: units mult.commute)
  have "t \<noteq> []" using assms(2) by auto
  then show "scan_utf16 base s (x # utf16le t) max_strings rows = rows"
    unfolding scan_utf16_def using utf16_loop_no_pair [OF no_pair_shifted [OF assms(1)], where k = 0]
    by simp
qed

lemma strings_utf16_even_only_witness:
  "scan_utf16 0x400000 sample_text (utf16le [0x68, 0x65, 0x6C, 0x6C, 0x6F]) 10 [] =
     [string_row 0x400000 sample_text 0 ''UTF-16LE'' 10 ''hello''] \<and>
   scan_utf16 0x400000 sample_text (7 # utf16le [0x68, 0x65, 0x6C, 0x6C, 0x6F]) 10 [] = []"
  using strings_utf16_even_only [of "[0x68, 0x65, 0x6C, 0x6C, 0x6F]" "[]" 10 "0x400000" sample_text 7]
  by (simp add: printable_def byte_char_def char_of_def bit_0)

section \<open>Rows point into the file\<close>

definition row_in_file :: "bytes \<Rightarrow> StringRecord \<Rightarrow> bool" where
  "row_in_file bs r \<longleftrightarrow>
     (let a = unat (str_file_offset r); raw = take (str_size r) (drop a bs)
      in a + str_size r \<le> length bs \<and> 5 \<le> str_size r \<and>
         (str_encoding r = ''ASCII'' \<and> str_text r = from_utf8_lossy raw \<or>
          str_encoding r = ''UTF-16LE'' \<and>
          str_text r \<in> map byte_char ` {u. list_all printable u \<and> utf16le u = raw}))"

lemma section_data_slice:
  assumes "section_ok bs s" "section_data s bs = Some d" "b + n \<le> length d"
  shows "unat (ucast (raw_start s) + of_nat b :: u64) = unat (raw_start s) + b"
    "unat (raw_start s) + b + n \<le> length bs"
    "take n (drop (unat (raw_start s) + b) bs) = take n (drop b d)"
proof -
  let ?a = "unat (raw_start s)" and ?z = "min (unat (raw_start s) + unat (raw_size s)) (length bs)"
  have d: "d = take (?z - ?a) (drop ?a bs)" using assms(1,2) by (auto simp: section_ok_def section_data_def split: if_splits)
  have len: "length d = ?z - ?a" using d assms(1) by (auto simp: section_ok_def)
  have "?a < 2 ^ 32" "unat (raw_size s) < 2 ^ 32" using unsigned_less [of "raw_start s"] unsigned_less [of "raw_size s"] by simp_all
  moreover have "b \<le> unat (raw_size s)" using assms(3) len by simp
  ultimately have "?a + b < 2 ^ 64" by simp
  then show "unat (ucast (raw_start s) + of_nat b :: u64) = ?a + b"
    using \<open>b \<le> unat (raw_size s)\<close> \<open>unat (raw_size s) < 2 ^ 32\<close>
    by (simp add: unat_word_ariths unsigned_ucast_eq unat_of_nat take_bit_nat_eq_self)
  show "?a + b + n \<le> length bs" using assms(1,3) len by (auto simp: section_ok_def)
  show "take n (drop (?a + b) bs) = take n (drop b d)"
    using assms(3) len by (simp add: d drop_take min_def add.commute)
qed

lemma ascii_row_in_file:
  assumes "section_ok bs s" "section_data s bs = Some d" "is_run d b e" "5 \<le> e - b"
  shows "row_in_file bs (ascii_row base s d (b, e))"
proof -
  have le: "b + (e - b) \<le> length d" using is_runD(1,2) [OF assms(3)] by simp
  note S = section_data_slice [OF assms(1,2) le]
  show ?thesis using S assms(4) by (simp add: row_in_file_def ascii_row_def string_row_def Let_def)
qed

lemma utf16_units_bytes:
  "i \<le> length data \<Longrightarrow> list_all printable (utf16_units data i) \<and>
     i + 2 * length (utf16_units data i) \<le> length data \<and>
     utf16le (utf16_units data i) = take (2 * length (utf16_units data i)) (drop i data)"
proof (induction data i rule: utf16_units.induct)
  case (1 data i)
  show ?case
  proof (cases "pair_at data i")
    case True
    then have d: "drop i data = data ! i # data ! Suc i # drop (i + 2) data"
      using Cons_nth_drop_Suc [of i data] Cons_nth_drop_Suc [of "Suc i" data] by (simp add: pair_at_def)
    have "utf16_units data i = data ! i # utf16_units data (i + 2)"
      using True by (subst utf16_units.simps) simp
    moreover have "printable (data ! i)" "data ! Suc i = 0" "i + 2 \<le> length data" using True by (simp_all add: pair_at_def)
    ultimately show ?thesis using "1.IH" [OF True] d by simp
  next
    case False
    then have "utf16_units data i = []" by (subst utf16_units.simps) simp
    then show ?thesis using "1.prems" by simp
  qed
qed

lemma utf16_row_in_file:
  assumes "section_ok bs s" "section_data s bs = Some d" "i \<le> length d" "5 \<le> length (utf16_units d i)"
  shows "row_in_file bs (string_row base s i ''UTF-16LE'' (length (utf16_units d i) * 2) (map byte_char (utf16_units d i)))"
proof -
  note U = utf16_units_bytes [OF assms(3)]
  have le: "i + length (utf16_units d i) * 2 \<le> length d" using U by (simp add: mult.commute)
  note S = section_data_slice [OF assms(1,2) le]
  show ?thesis using S U assms(4)
    by (auto simp: row_in_file_def string_row_def Let_def mult.commute intro!: imageI)
qed

text \<open>What the scan keeps: the limit, and that the rows point into the file.\<close>

definition rows_ok :: "bytes \<Rightarrow> nat \<Rightarrow> StringRecord list \<Rightarrow> bool" where
  "rows_ok bs m rows \<longleftrightarrow> length rows \<le> m \<and> list_all (row_in_file bs) rows"

lemma scan_ascii_rows_ok:
  assumes "section_ok bs s" "section_data s bs = Some d" "rows_ok bs m rows"
  shows "rows_ok bs m (scan_ascii base s d m rows)"
proof -
  have "row_in_file bs r" if "r \<in> set (map (ascii_row base s d) (filter (\<lambda>(b, e). 5 \<le> e - b) (runs d)))" for r
    using that runs_spec(1) [of d] ascii_row_in_file [OF assms(1,2)] by auto
  then show ?thesis using assms(3) unfolding scan_ascii_runs fold_push_ascii rows_ok_def
    by (auto simp: list_all_iff dest: in_set_takeD)
qed

lemma utf16_loop_rows_ok:
  assumes "section_ok bs s" "section_data s bs = Some d"
  shows "rows_ok bs m rows \<Longrightarrow> rows_ok bs m (utf16_loop base s d m i rows)"
proof (induction "length d - i" arbitrary: i rows rule: less_induct)
  case less
  let ?u = "utf16_units d i"
  let ?r = "if length ?u \<ge> 5 then rows @ [string_row base s i ''UTF-16LE'' (length ?u * 2) (map byte_char ?u)] else rows"
  show ?case
  proof (cases "i + 10 \<le> length d \<and> length rows < m")
    case True
    then have "rows_ok bs m ?r"
      using less.prems utf16_row_in_file [OF assms, of i base] by (auto simp: rows_ok_def)
    moreover have "length d - (i + 2 * length ?u + 2) < length d - i" using True by linarith
    ultimately have "rows_ok bs m (utf16_loop base s d m (i + 2 * length ?u + 2) ?r)"
      by (intro less.hyps)
    then show ?thesis using True by (subst utf16_loop.simps) (simp add: Let_def)
  next
    case False
    then show ?thesis using less.prems by (subst utf16_loop.simps) auto
  qed
qed

lemma extract_loop_rows_ok:
  assumes "list_all (section_ok bs) ss" "rows_ok bs m rows"
  shows "\<exists>out. extract_loop bs base m ss rows = Some out \<and> rows_ok bs m out"
  using assms
proof (induction ss arbitrary: rows)
  case (Cons s ss)
  obtain d where d: "section_data s bs = Some d" using section_ok_data [of bs s] Cons.prems(1) by auto
  have s: "section_ok bs s" using Cons.prems(1) by simp
  note a = scan_ascii_rows_ok [OF s d Cons.prems(2), of base]
  have u: "rows_ok bs m (scan_utf16 base s d m (scan_ascii base s d m rows))"
    unfolding scan_utf16_def by (rule utf16_loop_rows_ok [OF s d a])
  show ?case
    using Cons.IH [OF _ u] Cons.prems(1) a u d by (simp add: Let_def)
qed simp

text \<open>
  C16: on a loaded image the string scan does not panic, keeps the limit, and every row points into
  the file: the bytes at its offset are its text in the encoding it names.
\<close>

theorem strings_located:
  assumes "pe_parse bs = Ok img"
  shows "\<exists>rows. extract_strings_pe img max_strings = Some rows \<and> length rows \<le> max_strings \<and> list_all (row_in_file bs) rows"
proof -
  have ok: "image_ok bs img" using assms by (rule pe_parse_image_ok)
  then have "list_all (section_ok bs) (pe_sections img)" "pe_bytes img = bs" by (simp_all add: image_ok_def list_all_iff)
  then show ?thesis using extract_loop_rows_ok [of bs "pe_sections img" max_strings "[]" "pe_base img"]
    by (simp add: extract_strings_pe_def extract_strings_from_def rows_ok_def)
qed

lemma strings_located_witness:
  "\<exists>rows. extract_strings_pe sample_loaded 4 = Some rows \<and> length rows \<le> 4 \<and> list_all (row_in_file (sample_pe 272)) rows"
  using strings_located [OF sample_parse, of 4] by simp

end
