(* ===== verification/Structured.thy ===== *)
theory Structured
  imports Cfg_Builder Jump_Tables Vsa_Analysis
begin

text \<open>
  \<open>src/structured.rs\<close>: the structured view of a function. Back edges are found with the dominators of the
  blocks, computed by iteration from the full sets. \<^const>\<open>None\<close> of \<open>dom_loop\<close> and its callers is a
  loop that does not end, and of \<open>return_blocks_by_function\<close> a slice out of order.
\<close>

record StructuredFlowRecord =
  structured_flow_id :: string
  sf_function :: u64
  block_order :: "u64 list"
  branch_edges :: "EdgeRecord list"
  fallthrough_edges :: "EdgeRecord list"
  return_blocks :: "u64 list"
  backedges :: "EdgeRecord list"
  switch_candidates :: "u64 list"
  has_loop_like_backedge :: bool
  switch_cases :: "u64 list"
  goto_edges :: "EdgeRecord list"
  sf_regions :: "string list"
  natural_loops :: "EdgeRecord list"
  shared_return_blocks :: "u64 list"
  structuring_notes :: "string list"
  sf_refined :: bool
  sf_confidence :: string

section \<open>Dominators\<close>

definition block_for_address :: "CfgRecord \<Rightarrow> u64 \<Rightarrow> u64 option" where
  "block_for_address cfg addr =
     (case find (\<lambda>b. block_start b \<le> addr \<and> addr < block_end b) (blocks cfg) of
        Some b \<Rightarrow> Some (block_start b)
      | None \<Rightarrow> if list_ex (\<lambda>b. block_start b = addr) (blocks cfg) then Some addr else None)"

definition block_predecessors :: "CfgRecord \<Rightarrow> (u64, u64 list) btree" where
  "block_predecessors cfg =
     fold (\<lambda>e m. case block_for_address cfg (edge_from e) of
                   None \<Rightarrow> m
                 | Some from_block \<Rightarrow>
                     push_entry (unwrap_or (edge_to e) (block_for_address cfg (edge_to e))) from_block m)
       (edges cfg) []"

text \<open>\<open>reduce\<close> with the intersection; no set at all gives the empty set.\<close>

definition intersect_all :: "u64 set list \<Rightarrow> u64 set" where
  "intersect_all ss = (case ss of [] \<Rightarrow> {} | s # ss \<Rightarrow> fold (\<lambda>x acc. acc \<inter> x) ss s)"

definition dom_next :: "(u64, u64 list) btree \<Rightarrow> (u64, u64 set) btree \<Rightarrow> u64 \<Rightarrow> u64 set" where
  "dom_next preds doms block =
     insert block (intersect_all (List.map_filter (bt_get doms) (unwrap_or [] (bt_get preds block))))"

definition dom_step ::
  "(u64, u64 list) btree \<Rightarrow> u64 \<Rightarrow> bool \<times> (u64, u64 set) btree \<Rightarrow> bool \<times> (u64, u64 set) btree" where
  "dom_step preds block st =
     (let (changed, doms) = st; following = dom_next preds doms block
      in if bt_get doms block \<noteq> Some following then (True, bt_insert block following doms) else (changed, doms))"

definition dom_pass ::
  "(u64, u64 list) btree \<Rightarrow> u64 list \<Rightarrow> (u64, u64 set) btree \<Rightarrow> bool \<times> (u64, u64 set) btree" where
  "dom_pass preds bs doms = fold (dom_step preds) bs (False, doms)"

partial_function (option) dom_loop ::
  "(u64, u64 list) btree \<Rightarrow> u64 list \<Rightarrow> (u64, u64 set) btree \<Rightarrow> (u64, u64 set) btree option" where
  "dom_loop preds bs doms =
     (case dom_pass preds bs doms of (changed, doms') \<Rightarrow> if changed then dom_loop preds bs doms' else Some doms')"

declare dom_loop.simps [code]

definition dom_start :: "u64 list \<Rightarrow> u64 \<Rightarrow> (u64, u64 set) btree" where
  "dom_start bs entry = fold (\<lambda>b. bt_insert b (if b = entry then {entry} else set bs)) bs []"

definition dominator_sets :: "CfgRecord \<Rightarrow> (u64, u64 set) btree option" where
  "dominator_sets cfg =
     (let bs = map block_start (blocks cfg)
      in case bs of
           [] \<Rightarrow> Some []
         | entry # _ \<Rightarrow> dom_loop (block_predecessors cfg) (filter (\<lambda>b. b \<noteq> entry) bs) (dom_start bs entry))"

section \<open>Back edges\<close>

definition fallback_backedges :: "EdgeRecord list \<Rightarrow> EdgeRecord list" where
  "fallback_backedges es = filter (\<lambda>e. edge_to e \<le> edge_from e) es"

definition is_backedge :: "CfgRecord \<Rightarrow> (u64, u64 set) btree \<Rightarrow> EdgeRecord \<Rightarrow> bool" where
  "is_backedge cfg doms e \<longleftrightarrow>
     \<not> edge_to e > edge_from e \<and>
     (case block_for_address cfg (edge_from e) of
        None \<Rightarrow> False
      | Some from_block \<Rightarrow>
          (case bt_get doms from_block of
             None \<Rightarrow> False
           | Some ds \<Rightarrow> unwrap_or (edge_to e) (block_for_address cfg (edge_to e)) \<in> ds))"

definition natural_backedges :: "CfgRecord \<Rightarrow> EdgeRecord list option" where
  "natural_backedges cfg =
     (if blocks cfg = [] \<or> length (blocks cfg) > 768 \<or> length (edges cfg) > 4096
      then Some (fallback_backedges (edges cfg))
      else map_option (\<lambda>doms. filter (is_backedge cfg doms) (edges cfg)) (dominator_sets cfg))"

section \<open>The record of a function\<close>

definition incoming_counts :: "EdgeRecord list \<Rightarrow> (u64, nat) btree" where
  "incoming_counts es = fold (\<lambda>e m. bt_insert (edge_to e) (unwrap_or 0 (bt_get m (edge_to e)) + 1) m) es []"

definition shared_returns :: "EdgeRecord list \<Rightarrow> u64 list" where
  "shared_returns es = map fst (filter (\<lambda>(target, count). count \<ge> 2) (incoming_counts es))"

fun return_rows :: "InstructionRecord list \<Rightarrow> FunctionRecord list \<Rightarrow> (u64, u64 list) btree \<Rightarrow> (u64, u64 list) btree option" where
  "return_rows ins [] m = Some m"
| "return_rows ins (f # fs) m =
     (case slice_range ins (range_of (map address ins) f) of
        None \<Rightarrow> None
      | Some rows \<Rightarrow> return_rows ins fs (bt_insert (fn_start f) (map address (filter is_ret rows)) m))"

definition return_blocks_by_function :: "FunctionRecord list \<Rightarrow> InstructionRecord list \<Rightarrow> (u64, u64 list) btree option" where
  "return_blocks_by_function functions ins = return_rows ins functions []"

definition switch_edge :: "EdgeRecord list \<Rightarrow> EdgeRecord \<Rightarrow> bool" where
  "switch_edge es e \<longleftrightarrow>
     edge_type e = ''branch'' \<and> length (filter (\<lambda>c. edge_from c = edge_from e) es) \<ge> 3"

definition structured_row ::
  "FunctionRecord \<Rightarrow> CfgRecord option \<Rightarrow> EdgeRecord list \<Rightarrow> u64 list \<Rightarrow> StructuredFlowRecord" where
  "structured_row f cfg backs returns =
     (let es = (case cfg of Some row \<Rightarrow> edges row | None \<Rightarrow> [])
      in \<lparr>structured_flow_id = ''structured:'' @ hex016 (fn_start f), sf_function = fn_start f,
          block_order = (case cfg of Some row \<Rightarrow> map block_start (blocks row) | None \<Rightarrow> []),
          branch_edges = filter (\<lambda>e. edge_type e = ''branch'') es,
          fallthrough_edges = filter (\<lambda>e. edge_type e = ''fallthrough'') es,
          return_blocks = returns, backedges = backs,
          switch_candidates = map edge_from (filter (switch_edge es) es),
          has_loop_like_backedge = (backs \<noteq> []), switch_cases = [], goto_edges = [], sf_regions = [],
          natural_loops = backs, shared_return_blocks = shared_returns es, structuring_notes = [],
          sf_refined = False, sf_confidence = (if cfg \<noteq> None then ''medium'' else ''low'')\<rparr>)"

definition structured_of ::
  "(u64, CfgRecord) btree \<Rightarrow> (u64, u64 list) btree \<Rightarrow> FunctionRecord \<Rightarrow> StructuredFlowRecord option" where
  "structured_of cfgs returns f =
     (let cfg = bt_get cfgs (fn_start f)
      in map_option (\<lambda>backs. structured_row f cfg backs (unwrap_or [] (bt_get returns (fn_start f))))
           (case cfg of Some row \<Rightarrow> natural_backedges row | None \<Rightarrow> Some (fallback_backedges [])))"

definition build_structured_flow ::
  "FunctionRecord list \<Rightarrow> CfgRecord list \<Rightarrow> InstructionRecord list \<Rightarrow> StructuredFlowRecord list option" where
  "build_structured_flow functions cfg ins =
     (case return_blocks_by_function functions ins of
        None \<Rightarrow> None
      | Some returns \<Rightarrow> those (map (structured_of (collect_by cfg_function cfg) returns) functions))"

section \<open>Refinement with jump tables\<close>

definition tables_by_function :: "JumpTableRecord list \<Rightarrow> (u64, JumpTableRecord list) btree" where
  "tables_by_function jts = fold (\<lambda>t. push_entry (jt_function t) t) jts []"

definition add_case :: "'a \<Rightarrow> 'a list \<Rightarrow> 'a list" where
  "add_case x xs = (if x \<in> set xs then xs else xs @ [x])"

definition is_goto :: "u64 list \<Rightarrow> EdgeRecord \<Rightarrow> bool" where
  "is_goto order e \<longleftrightarrow>
     edge_to e < edge_from e \<or> order \<noteq> [] \<and> (edge_from e \<notin> set order \<or> edge_to e \<notin> set order)"

definition dedup_sorted :: "'a::linorder list \<Rightarrow> 'a list" where
  "dedup_sorted xs = remdups_adj (sort xs)"

definition refine_row :: "(u64, JumpTableRecord list) btree \<Rightarrow> StructuredFlowRecord \<Rightarrow> StructuredFlowRecord" where
  "refine_row jump_by_function row =
     (let tables = bt_get jump_by_function (sf_function row);
          cases = dedup_sorted (fold (\<lambda>t cs. fold add_case (jt_targets t) cs) (unwrap_or [] tables) (switch_cases row));
          gotos = filter (is_goto (block_order row)) (branch_edges row);
          regions =
            (if has_loop_like_backedge row then [''loop''] else []) @
            (if branch_edges row \<noteq> [] then [''if''] else []) @
            (if unwrap_or [] tables \<noteq> [] then [''switch''] else []) @
            (if gotos \<noteq> [] then [''goto''] else []) @
            (if return_blocks row \<noteq> [] then [''return''] else []);
          notes = structuring_notes row @
            (if has_loop_like_backedge row then [''natural_loop_backedge''] else []) @
            (if gotos \<noteq> [] then [''tail_merge_or_backward_branch''] else []) @
            (if shared_return_blocks row \<noteq> [] then [''shared_return_or_common_epilogue''] else [])
      in row\<lparr>switch_cases := cases, goto_edges := gotos, sf_regions := dedup_sorted regions,
             structuring_notes := dedup_sorted notes, sf_refined := True,
             sf_confidence := (if cases = [] \<and> gotos = [] then ''medium'' else ''high'')\<rparr>)"

text \<open>The rows after the pass, with the number of refined ones.\<close>

definition refine_selected_structured_flow ::
  "StructuredFlowRecord list \<Rightarrow> u64 list \<Rightarrow> JumpTableRecord list \<Rightarrow> StructuredFlowRecord list \<times> nat" where
  "refine_selected_structured_flow rows selected jts =
     (let chosen = (\<lambda>row. selected = [] \<or> sf_function row \<in> set selected)
      in (map (\<lambda>row. if chosen row then refine_row (tables_by_function jts) row else row) rows,
          length (filter chosen rows)))"

end
