(* ===== verification/Structured_Props.thy ===== *)
theory Structured_Props
  imports Structured
begin

text \<open>
  Dominators: the iteration ends and computes for every block exactly the blocks on all paths to it, so a
  reported back edge leads to a block its source cannot be reached without. Paths start at the entry or at
  a block without predecessors, as in the code.
\<close>

section \<open>Paths\<close>

definition nodes :: "CfgRecord \<Rightarrow> u64 set" where
  "nodes cfg = block_start ` set (blocks cfg)"

definition preds_of :: "CfgRecord \<Rightarrow> u64 \<Rightarrow> u64 list" where
  "preds_of cfg b = unwrap_or [] (bt_get (block_predecessors cfg) b)"

definition is_root :: "CfgRecord \<Rightarrow> u64 \<Rightarrow> bool" where
  "is_root cfg b \<longleftrightarrow> b \<in> nodes cfg \<and> (b = block_start (hd (blocks cfg)) \<or> preds_of cfg b = [])"

inductive root_path :: "CfgRecord \<Rightarrow> u64 list \<Rightarrow> u64 \<Rightarrow> bool" for cfg where
  root: "is_root cfg b \<Longrightarrow> root_path cfg [b] b"
| step: "root_path cfg p b \<Longrightarrow> b \<in> set (preds_of cfg c) \<Longrightarrow> root_path cfg (p @ [c]) c"

definition dominates :: "CfgRecord \<Rightarrow> u64 \<Rightarrow> u64 \<Rightarrow> bool" where
  "dominates cfg d b \<longleftrightarrow> (\<forall>p. root_path cfg p b \<longrightarrow> d \<in> set p)"

lemma block_for_address_node: "block_for_address cfg a = Some b \<Longrightarrow> b \<in> nodes cfg"
  by (auto simp: block_for_address_def nodes_def list_ex_iff find_Some_iff split: option.splits if_splits)

lemma preds_fold_nodes:
  assumes "bt_ok m" "\<And>k. set (unwrap_or [] (bt_get m k)) \<subseteq> nodes cfg"
  shows "set (unwrap_or [] (bt_get
    (fold (\<lambda>e m. case block_for_address cfg (edge_from e) of
        None \<Rightarrow> m
      | Some b \<Rightarrow> push_entry (unwrap_or (edge_to e) (block_for_address cfg (edge_to e))) b m) es m) k)) \<subseteq> nodes cfg"
  using assms
proof (induction es arbitrary: m)
  case (Cons e es)
  show ?case
  proof (cases "block_for_address cfg (edge_from e)")
    case None
    then show ?thesis using Cons by simp
  next
    case (Some b)
    let ?m = "push_entry (unwrap_or (edge_to e) (block_for_address cfg (edge_to e))) b m"
    have "bt_ok ?m" using Cons.prems(1) by (simp add: push_entry_def)
    moreover have "set (unwrap_or [] (bt_get ?m k)) \<subseteq> nodes cfg" for k
      using Cons.prems block_for_address_node [OF Some]
      by (auto simp: push_entry_def bt_get_insert unwrap_or_def split: option.splits if_splits)
    ultimately show ?thesis using Cons.IH Some by simp
  qed
qed simp

lemma preds_of_nodes: "set (preds_of cfg b) \<subseteq> nodes cfg"
  using preds_fold_nodes [of "[]" cfg "edges cfg" b] by (simp add: preds_of_def block_predecessors_def unwrap_or_def)

section \<open>One update\<close>

text \<open>The sets as a function; the tables of the loop have the blocks as keys.\<close>

definition dom_ok :: "CfgRecord \<Rightarrow> (u64, u64 set) btree \<Rightarrow> bool" where
  "dom_ok cfg doms \<longleftrightarrow> bt_ok doms \<and> set (bt_keys doms) = nodes cfg"

definition dset :: "(u64, u64 set) btree \<Rightarrow> u64 \<Rightarrow> u64 set" where
  "dset doms b = unwrap_or {} (bt_get doms b)"

definition next_set :: "CfgRecord \<Rightarrow> (u64, u64 set) btree \<Rightarrow> u64 \<Rightarrow> u64 set" where
  "next_set cfg doms b = insert b (if preds_of cfg b = [] then {} else (\<Inter>p\<in>set (preds_of cfg b). dset doms p))"

lemma dom_ok_get: "dom_ok cfg doms \<Longrightarrow> b \<in> nodes cfg \<Longrightarrow> bt_get doms b = Some (dset doms b)"
  by (cases "bt_get doms b") (auto simp: dom_ok_def dset_def unwrap_or_def bt_get_keys)

lemma intersect_all_Inter: "ss \<noteq> [] \<Longrightarrow> intersect_all ss = \<Inter> (set ss)"
proof (cases ss)
  case (Cons s rest)
  have "fold (\<lambda>x acc. acc \<inter> x) rest a = a \<inter> \<Inter> (set rest)" for a
    by (induction rest arbitrary: a) auto
  then show ?thesis using Cons by (simp add: intersect_all_def)
qed simp

lemma map_filter_all_Some: "(\<And>x. x \<in> set xs \<Longrightarrow> f x = Some (g x)) \<Longrightarrow> List.map_filter f xs = map g xs"
  by (induction xs) (simp_all add: List.map_filter_simps)

lemma dom_next_set:
  assumes "dom_ok cfg doms"
  shows "dom_next (block_predecessors cfg) doms b = next_set cfg doms b"
proof -
  have "bt_get doms p = Some (dset doms p)" if "p \<in> set (preds_of cfg b)" for p
    using that preds_of_nodes dom_ok_get [OF assms] by blast
  then have "List.map_filter (bt_get doms) (preds_of cfg b) = map (dset doms) (preds_of cfg b)"
    by (rule map_filter_all_Some)
  then show ?thesis
    by (simp add: dom_next_def next_set_def preds_of_def [symmetric] intersect_all_Inter) (simp add: intersect_all_def)
qed

text \<open>What the loop keeps: the sets contain the dominators, the entry has itself only, and no update grows a set.\<close>

definition dom_inv :: "CfgRecord \<Rightarrow> u64 \<Rightarrow> (u64, u64 set) btree \<Rightarrow> bool" where
  "dom_inv cfg entry doms \<longleftrightarrow>
     dom_ok cfg doms \<and> dset doms entry = {entry} \<and>
     (\<forall>b\<in>nodes cfg. dset doms b \<subseteq> nodes cfg \<and> {d \<in> nodes cfg. dominates cfg d b} \<subseteq> dset doms b \<and>
        (b \<noteq> entry \<longrightarrow> next_set cfg doms b \<subseteq> dset doms b))"

lemma dom_invD:
  assumes "dom_inv cfg entry doms"
  shows "dom_ok cfg doms" "dset doms entry = {entry}" "b \<in> nodes cfg \<Longrightarrow> dset doms b \<subseteq> nodes cfg"
    "b \<in> nodes cfg \<Longrightarrow> {d \<in> nodes cfg. dominates cfg d b} \<subseteq> dset doms b"
    "b \<in> nodes cfg \<Longrightarrow> b \<noteq> entry \<Longrightarrow> next_set cfg doms b \<subseteq> dset doms b"
  using assms unfolding dom_inv_def by simp_all

lemma dset_insert: "dom_ok cfg doms \<Longrightarrow> dset (bt_insert b s doms) c = (if c = b then s else dset doms c)"
  by (simp add: dset_def bt_get_insert dom_ok_def unwrap_or_def)

lemma dom_ok_insert: "dom_ok cfg doms \<Longrightarrow> b \<in> nodes cfg \<Longrightarrow> dom_ok cfg (bt_insert b s doms)"
  by (auto simp: dom_ok_def)

lemma dominates_step:
  assumes "dominates cfg d b" "d \<noteq> b" "p \<in> set (preds_of cfg b)"
  shows "dominates cfg d p"
  unfolding dominates_def
proof (intro allI impI)
  fix q assume "root_path cfg q p"
  then have "root_path cfg (q @ [b]) b" using assms(3) by (rule root_path.step)
  then show "d \<in> set q" using assms(1,2) by (auto simp: dominates_def)
qed

lemma dominates_root: "is_root cfg b \<Longrightarrow> dominates cfg d b \<Longrightarrow> d = b"
  using root_path.root by (fastforce simp: dominates_def)

lemma next_set_sound:
  assumes "dom_inv cfg entry doms" "b \<in> nodes cfg"
  shows "{d \<in> nodes cfg. dominates cfg d b} \<subseteq> next_set cfg doms b"
proof
  fix d assume d: "d \<in> {d \<in> nodes cfg. dominates cfg d b}"
  show "d \<in> next_set cfg doms b"
  proof (cases "preds_of cfg b = []")
    case True
    then show ?thesis using d assms(2) dominates_root [of cfg b d] by (simp add: is_root_def next_set_def)
  next
    case False
    have "d \<in> dset doms p" if "p \<in> set (preds_of cfg b)" "d \<noteq> b" for p
      using dominates_step [of cfg d b p] that d assms(1) preds_of_nodes [of cfg b] by (auto simp: dom_inv_def)
    then show ?thesis using False by (auto simp: next_set_def)
  qed
qed

lemma next_set_mono: "(\<And>p. dset doms' p \<subseteq> dset doms p) \<Longrightarrow> next_set cfg doms' b \<subseteq> next_set cfg doms b"
  unfolding next_set_def by (auto split: if_splits)

lemma dom_inv_update:
  assumes inv: "dom_inv cfg entry doms" and b: "b \<in> nodes cfg" "b \<noteq> entry"
  shows "dom_inv cfg entry (bt_insert b (next_set cfg doms b) doms)"
proof -
  let ?doms = "bt_insert b (next_set cfg doms b) doms"
  have ok: "dom_ok cfg doms" using inv by (simp add: dom_inv_def)
  note ins = dset_insert [OF ok]
  have sub: "next_set cfg doms b \<subseteq> dset doms b" using inv b by (simp add: dom_inv_def)
  then have "dset ?doms p \<subseteq> dset doms p" for p by (simp add: ins)
  then have mono: "next_set cfg ?doms c \<subseteq> next_set cfg doms c" for c by (rule next_set_mono)
  have "next_set cfg ?doms c \<subseteq> dset ?doms c" if "c \<in> nodes cfg" "c \<noteq> entry" for c
    using mono [of c] inv that by (auto simp: ins dom_inv_def)
  moreover have "dset ?doms c \<subseteq> nodes cfg" if "c \<in> nodes cfg" for c
    using sub dom_invD(3) [OF inv] that b(1) unfolding ins by (cases "c = b") auto
  moreover have "{d \<in> nodes cfg. dominates cfg d c} \<subseteq> dset ?doms c" if "c \<in> nodes cfg" for c
    using next_set_sound [OF inv b(1)] inv that unfolding ins dom_inv_def by auto
  ultimately show ?thesis
    using inv b dom_ok_insert [OF ok b(1)] by (simp add: dom_inv_def ins)
qed

lemma dom_inv_start:
  assumes "blocks cfg \<noteq> []"
  defines "entry \<equiv> block_start (hd (blocks cfg))"
  shows "dom_inv cfg entry (dom_start (map block_start (blocks cfg)) entry)"
proof -
  have fold: "bt_ok m \<Longrightarrow>
      bt_ok (fold (\<lambda>b. bt_insert b (g b)) bs m) \<and>
      bt_get (fold (\<lambda>b. bt_insert b (g b)) bs m) c = (if c \<in> set bs then Some (g c) else bt_get m c)"
    for g :: "u64 \<Rightarrow> u64 set" and bs m c
    by (induction bs arbitrary: m) (auto simp: bt_get_insert)
  let ?d = "dom_start (map block_start (blocks cfg)) entry"
  have get: "bt_get ?d c = (if c \<in> nodes cfg then Some (if c = entry then {entry} else nodes cfg) else None)" for c
    using fold [of "[]" "\<lambda>b. if b = entry then {entry} else set (map block_start (blocks cfg))" "map block_start (blocks cfg)" c]
    unfolding dom_start_def nodes_def by (simp only: bt_ok_Nil simp_thms bt_get_Nil set_map)
  have "c \<notin> set (bt_keys ?d) \<longleftrightarrow> c \<notin> nodes cfg" for c
    using bt_get_keys [of ?d c] unfolding get by (simp split: if_splits)
  then have "set (bt_keys ?d) = nodes cfg" by blast
  moreover have "bt_ok ?d" using fold [of "[]"] by (simp add: dom_start_def)
  ultimately have ok: "dom_ok cfg ?d" by (simp add: dom_ok_def)
  have entry: "entry \<in> nodes cfg" using assms by (simp add: nodes_def)
  then have "is_root cfg entry" by (simp add: is_root_def entry_def)
  then have root: "{d \<in> nodes cfg. dominates cfg d entry} \<subseteq> {entry}" using dominates_root by blast
  have dset: "dset ?d c = (if c \<in> nodes cfg then if c = entry then {entry} else nodes cfg else {})" for c
    by (simp add: dset_def get unwrap_or_def)
  have sub: "dset ?d c \<subseteq> nodes cfg" for c using entry by (simp add: dset)
  have "next_set cfg ?d c \<subseteq> nodes cfg" if "c \<in> nodes cfg" for c
    using sub that by (cases "preds_of cfg c") (auto simp: next_set_def)
  then show ?thesis using ok entry root sub by (simp add: dom_inv_def dset)
qed

section \<open>The loop\<close>

text \<open>A measure that every change decreases.\<close>

definition dom_size :: "CfgRecord \<Rightarrow> (u64, u64 set) btree \<Rightarrow> nat" where
  "dom_size cfg doms = (\<Sum>b\<in>nodes cfg. card (dset doms b))"

lemma dom_size_update:
  assumes inv: "dom_inv cfg entry doms" and b: "b \<in> nodes cfg" "b \<noteq> entry" "next_set cfg doms b \<noteq> dset doms b"
  shows "dom_size cfg (bt_insert b (next_set cfg doms b) doms) < dom_size cfg doms"
proof -
  have fin: "finite (nodes cfg)" by (simp add: nodes_def)
  note D = dom_invD [OF inv]
  have "finite (dset doms b)" using D(3) [OF b(1)] fin finite_subset by blast
  then have "card (next_set cfg doms b) < card (dset doms b)"
    using D(5) [OF b(1,2)] b(3) by (intro psubset_card_mono) auto
  then show ?thesis unfolding dom_size_def dset_insert [OF D(1)] using fin b(1) by (intro sum_strict_mono_ex1) auto
qed

lemma dom_pass_spec:
  assumes "set bs \<subseteq> nodes cfg - {entry}" "dom_inv cfg entry doms"
  shows "\<exists>c doms'. fold (dom_step (block_predecessors cfg)) bs (ch, doms) = (c, doms') \<and> dom_inv cfg entry doms' \<and>
     (if c \<and> \<not> ch then dom_size cfg doms' < dom_size cfg doms
      else dom_size cfg doms' \<le> dom_size cfg doms) \<and> (ch \<longrightarrow> c) \<and>
     (\<not> c \<longrightarrow> doms' = doms \<and> (\<forall>b\<in>set bs. next_set cfg doms b = dset doms b))"
  using assms
proof (induction bs arbitrary: ch doms)
  case (Cons b bs)
  have b: "b \<in> nodes cfg" "b \<noteq> entry" "set bs \<subseteq> nodes cfg - {entry}" using Cons.prems(1) by auto
  note inv = Cons.prems(2)
  have ok: "dom_ok cfg doms" using inv by (rule dom_invD)
  note get = dom_ok_get [OF ok b(1)]
  note nxt = dom_next_set [OF ok, of b]
  show ?case
  proof (cases "next_set cfg doms b = dset doms b")
    case True
    then have "dom_step (block_predecessors cfg) b (ch, doms) = (ch, doms)"
      by (simp add: dom_step_def Let_def get nxt)
    then show ?thesis using Cons.IH [OF b(3) inv, of ch] True by auto
  next
    case False
    let ?doms = "bt_insert b (next_set cfg doms b) doms"
    have "dom_step (block_predecessors cfg) b (ch, doms) = (True, ?doms)"
      using False by (simp add: dom_step_def Let_def get nxt)
    moreover have "dom_size cfg ?doms < dom_size cfg doms" using dom_size_update [OF inv b(1,2) False] .
    ultimately show ?thesis using Cons.IH [OF b(3) dom_inv_update [OF inv b(1,2)], of True] by fastforce
  qed
qed simp

lemma dom_loop_total:
  assumes "set bs \<subseteq> nodes cfg - {entry}" "dom_inv cfg entry doms"
  shows "\<exists>out. dom_loop (block_predecessors cfg) bs doms = Some out \<and> dom_inv cfg entry out \<and>
     (\<forall>b\<in>set bs. next_set cfg out b = dset out b)"
  using assms(2)
proof (induction "dom_size cfg doms" arbitrary: doms rule: less_induct)
  case less
  obtain c doms' where p: "dom_pass (block_predecessors cfg) bs doms = (c, doms')" "dom_inv cfg entry doms'"
    "c \<Longrightarrow> dom_size cfg doms' < dom_size cfg doms"
    "\<not> c \<Longrightarrow> doms' = doms \<and> (\<forall>b\<in>set bs. next_set cfg doms b = dset doms b)"
    using dom_pass_spec [OF assms(1) less.prems, of False] by (auto simp: dom_pass_def split: if_splits)
  show ?case
  proof (cases c)
    case True
    then show ?thesis using less.hyps [OF p(3) p(2)] p(1) by (subst dom_loop.simps) simp
  next
    case False
    then show ?thesis using p(1,2,4) by (subst dom_loop.simps) auto
  qed
qed

lemma fixpoint_dominates:
  assumes inv: "dom_inv cfg entry doms" and entry: "entry = block_start (hd (blocks cfg))"
    and fixp: "\<And>b. b \<in> nodes cfg \<Longrightarrow> b \<noteq> entry \<Longrightarrow> next_set cfg doms b = dset doms b"
  shows "root_path cfg p b \<Longrightarrow> b \<in> nodes cfg \<Longrightarrow> d \<in> dset doms b \<Longrightarrow> d \<in> set p"
proof (induction rule: root_path.induct)
  case (root b)
  show ?case
  proof (cases "b = entry")
    case True
    then show ?thesis using root.prems dom_invD(2) [OF inv] by simp
  next
    case False
    then have "preds_of cfg b = []" using root.hyps entry by (simp add: is_root_def)
    then show ?thesis using fixp [OF root.prems(1) False] root.prems(2) by (simp add: next_set_def)
  qed
next
  case (step p b c)
  have b: "b \<in> nodes cfg" using step.hyps(2) preds_of_nodes by blast
  show ?case
  proof (cases "c = entry")
    case True
    then show ?thesis using step.prems dom_invD(2) [OF inv] by simp
  next
    case False
    have "d \<in> next_set cfg doms c" using step.prems fixp [OF step.prems(1) False] by simp
    then have "d = c \<or> d \<in> dset doms b" using step.hyps(2) by (auto simp: next_set_def split: if_splits)
    then show ?thesis using step.IH [OF b] by auto
  qed
qed

lemma dominator_sets_spec:
  "\<exists>doms. dominator_sets cfg = Some doms \<and>
     (\<forall>b. bt_get doms b = (if b \<in> nodes cfg then Some {d \<in> nodes cfg. dominates cfg d b} else None))"
proof (cases "blocks cfg")
  case Nil
  then show ?thesis by (simp add: dominator_sets_def nodes_def)
next
  case (Cons b0 rest)
  define entry where "entry = block_start (hd (blocks cfg))"
  have ne: "blocks cfg \<noteq> []" using Cons by simp
  let ?bs = "filter (\<lambda>b. b \<noteq> entry) (map block_start (blocks cfg))"
  have bs: "set ?bs = nodes cfg - {entry}" by (auto simp: nodes_def)
  obtain out where out: "dom_loop (block_predecessors cfg) ?bs (dom_start (map block_start (blocks cfg)) entry) = Some out"
    "dom_inv cfg entry out" "\<forall>b\<in>set ?bs. next_set cfg out b = dset out b"
    using dom_loop_total [OF eq_refl [OF bs] dom_inv_start [OF ne, folded entry_def]] by blast
  have "dominator_sets cfg = Some out" using out(1) Cons by (simp add: dominator_sets_def entry_def)
  moreover have "bt_get out b = (if b \<in> nodes cfg then Some {d \<in> nodes cfg. dominates cfg d b} else None)" for b
  proof (cases "b \<in> nodes cfg")
    case True
    have "next_set cfg out c = dset out c" if "c \<in> nodes cfg" "c \<noteq> entry" for c
      using out(3) that unfolding bs by blast
    note below = fixpoint_dominates [OF out(2) entry_def this _ True]
    have "dset out b \<subseteq> {d \<in> nodes cfg. dominates cfg d b}"
      using dom_invD(3) [OF out(2) True] below by (auto simp: dominates_def)
    then show ?thesis using dom_invD(4) [OF out(2) True] dom_ok_get [OF dom_invD(1) [OF out(2)] True] True by auto
  next
    case False
    then show ?thesis using out(2) by (simp add: bt_get_keys dom_inv_def dom_ok_def)
  qed
  ultimately show ?thesis by blast
qed

text \<open>
  C5: the computation of the dominators ends for every graph, and the set of a block holds exactly the
  blocks that lie on every path to it.
\<close>

theorem dominators_exact:
  "\<exists>doms. dominator_sets cfg = Some doms \<and>
     (\<forall>b. bt_get doms b = (if b \<in> nodes cfg then Some {d \<in> nodes cfg. dominates cfg d b} else None))"
  by (rule dominator_sets_spec)

section \<open>Back edges\<close>

definition header_of :: "CfgRecord \<Rightarrow> EdgeRecord \<Rightarrow> u64" where
  "header_of cfg e = unwrap_or (edge_to e) (block_for_address cfg (edge_to e))"

definition loops_back :: "CfgRecord \<Rightarrow> EdgeRecord \<Rightarrow> bool" where
  "loops_back cfg e \<longleftrightarrow>
     edge_to e \<le> edge_from e \<and> header_of cfg e \<in> nodes cfg \<and>
     (\<exists>s. block_for_address cfg (edge_from e) = Some s \<and> dominates cfg (header_of cfg e) s)"

text \<open>
  C10: the detection of back edges ends for every graph. For a graph with blocks, of at most 768 blocks
  and 4096 edges, the reported edges are exactly those that do not go forward and whose target block lies
  on every path to the block of their source; for any other graph they are all the edges that do not go
  forward. The order of the edges is kept.
\<close>

theorem natural_backedges_exact:
  "natural_backedges cfg =
     Some (filter (if blocks cfg \<noteq> [] \<and> length (blocks cfg) \<le> 768 \<and> length (edges cfg) \<le> 4096
                   then loops_back cfg else (\<lambda>e. edge_to e \<le> edge_from e)) (edges cfg))"
proof (cases "blocks cfg \<noteq> [] \<and> length (blocks cfg) \<le> 768 \<and> length (edges cfg) \<le> 4096")
  case True
  obtain doms where doms: "dominator_sets cfg = Some doms"
    "\<And>b. bt_get doms b = (if b \<in> nodes cfg then Some {d \<in> nodes cfg. dominates cfg d b} else None)"
    using dominator_sets_spec by blast
  have "is_backedge cfg doms e = loops_back cfg e" for e
    by (auto simp: is_backedge_def loops_back_def header_of_def doms(2) not_less dest: block_for_address_node
        split: option.split)
  then have "is_backedge cfg doms = loops_back cfg" by (rule ext)
  then show ?thesis using True doms(1) by (simp add: natural_backedges_def)
next
  case False
  then show ?thesis by (auto simp: natural_backedges_def fallback_backedges_def not_le)
qed

lemma natural_backedges_total: "\<exists>es. natural_backedges cfg = Some es \<and> set es \<subseteq> {e \<in> set (edges cfg). edge_to e \<le> edge_from e}"
  using dominator_sets_spec [of cfg]
  by (auto simp: natural_backedges_def fallback_backedges_def is_backedge_def split: if_splits)

text \<open>
  An edge of a built graph starts at a call, a jump or a branch: a block that runs on into the next one
  has no edge to it.
\<close>

lemma edges_from_transfers:
  assumes "e \<in> set (edges (function_cfg f insns))"
  shows "\<exists>ins\<in>set insns. address ins = edge_from e \<and> (is_call ins \<or> is_jump ins \<or> branch_target ins \<noteq> None)"
  using assms by (auto simp: function_cfg_def ins_edges_def branch_into_def split: option.splits if_splits)

definition ins_row :: "u64 \<Rightarrow> string \<Rightarrow> u64 option \<Rightarrow> bool \<Rightarrow> InstructionRecord" where
  "ins_row a m target ret =
     (plain_ir a m [])\<lparr>ins_size := 2, is_jump := target \<noteq> None, branch_target := target, is_ret := ret\<rparr>"

definition two_entry_loop :: "InstructionRecord list" where
  "two_entry_loop =
     [ins_row 0 ''nop'' None False, ins_row 2 ''je'' (Some 6) False, ins_row 4 ''nop'' None False,
      ins_row 6 ''nop'' None False, ins_row 8 ''jne'' (Some 4) False, ins_row 10 ''jne'' (Some 2) False,
      ins_row 12 ''ret'' None True]"

definition fn_row :: "u64 \<Rightarrow> FunctionRecord" where
  "fn_row stop = \<lparr>fn_start = 0, fn_end = stop, fn_size = stop, fn_source = ''entry'', calls = [], calls_imports = [],
     fn_strings = [], xrefs = 0\<rparr>"

definition branch_edge :: "u64 \<Rightarrow> u64 \<Rightarrow> EdgeRecord" where
  "branch_edge a b = \<lparr>edge_from = a, edge_to = b, edge_type = ''branch''\<rparr>"

definition loop_cfg :: CfgRecord where
  "loop_cfg = function_cfg (fn_row 8)
     [ins_row 0 ''je'' (Some 6) False, ins_row 2 ''nop'' None False, ins_row 4 ''jne'' (Some 2) False, ins_row 6 ''ret'' None True]"

lemma loop_cfg_small: "blocks loop_cfg \<noteq> []" "length (blocks loop_cfg) \<le> 768" "length (edges loop_cfg) \<le> 4096"
  by code_simp+

theorem natural_backedges_exact_witness: "loops_back loop_cfg (branch_edge 4 2) \<and> \<not> loops_back loop_cfg (branch_edge 0 6)"
proof -
  have "natural_backedges loop_cfg = Some [branch_edge 4 2]" "branch_edge 0 6 \<in> set (edges loop_cfg)"
    "branch_edge 0 6 \<noteq> branch_edge 4 2"
    by code_simp+
  moreover have "natural_backedges loop_cfg = Some (filter (loops_back loop_cfg) (edges loop_cfg))"
    using natural_backedges_exact [of loop_cfg] by (simp add: loop_cfg_small)
  ultimately have f: "filter (loops_back loop_cfg) (edges loop_cfg) = [branch_edge 4 2]"
    and e: "branch_edge 0 6 \<in> set (edges loop_cfg)" "branch_edge 0 6 \<noteq> branch_edge 4 2" by simp_all
  have "branch_edge 4 2 \<in> set (filter (loops_back loop_cfg) (edges loop_cfg))"
    "branch_edge 0 6 \<notin> set (filter (loops_back loop_cfg) (edges loop_cfg))"
    unfolding f using e(2) by simp_all
  then show ?thesis using e(1) by simp
qed

text \<open>
  The first block of this function runs into the second, so nothing leads from the entry to the rest of the
  graph, and every edge that goes back is a natural loop: the one from 8 to 4 too, although 8 is reached
  from the entry over 2 and 6.
\<close>

theorem entry_fall_through_lost:
  "\<exists>cfg. build_cfg [fn_row 14] two_entry_loop = Some [cfg] \<and> map block_start (blocks cfg) = [0, 2, 4, 6, 10, 12] \<and>
     preds_of cfg 2 = [10] \<and> branch_edge 2 6 \<in> set (edges cfg) \<and>
     natural_backedges cfg = Some [branch_edge 8 4, branch_edge 10 2]"
proof -
  have "map_option (map (\<lambda>cfg. (map block_start (blocks cfg), preds_of cfg 2, branch_edge 2 6 \<in> set (edges cfg), natural_backedges cfg)))
     (build_cfg [fn_row 14] two_entry_loop) =
     Some [([0, 2, 4, 6, 10, 12], [10], True, Some [branch_edge 8 4, branch_edge 10 2])]"
    by code_simp
  then show ?thesis by auto
qed

definition if_then :: "InstructionRecord list" where
  "if_then =
     [ins_row 0 ''cmp'' None False, ins_row 2 ''je'' (Some 6) False, ins_row 4 ''nop'' None False,
      ins_row 6 ''ret'' None True]"

text \<open>
  The branch of an \<open>if\<close> without an \<open>else\<close> is reported as a goto: the code compares the address of the jump with the
  starts of the blocks, and a jump is the last instruction of its block.
\<close>

theorem structured_if_is_goto:
  "(case build_cfg [fn_row 8] if_then of
      None \<Rightarrow> None
    | Some cfg \<Rightarrow>
        map_option (\<lambda>rows. map (\<lambda>r. (goto_edges r, sf_regions r)) (fst (refine_selected_structured_flow rows [] [])))
          (build_structured_flow [fn_row 8] cfg if_then)) =
   Some [([branch_edge 2 6], [''goto'', ''if'', ''return''])]"
  by code_simp

end
