(* ===== verification/Call_Resolution.thy ===== *)
theory Call_Resolution
  imports Semantic_Index Pe_Image
begin

text \<open>
  \<open>src/functions.rs\<close>: where functions start and end. \<open>src/xrefs.rs\<close>: the calls, imports and strings of a
  function from the cross references. \<open>src/wrappers.rs\<close>: calls through chains of wrapper functions resolved to
  the imported function. The image trait is the PE image; hash maps by address are maps.
\<close>

section \<open>Functions\<close>

definition ins_by_va :: "InstructionRecord list \<Rightarrow> u64 \<Rightarrow> InstructionRecord option" where
  "ins_by_va rows = map_of (rev (map (\<lambda>row. (address row, row)) rows))"

definition or_insert :: "u64 \<Rightarrow> 'v \<Rightarrow> (u64, 'v) btree \<Rightarrow> (u64, 'v) btree" where
  "or_insert k v m = (case bt_get m k of None \<Rightarrow> bt_insert k v m | Some _ \<Rightarrow> m)"

definition function_seed_map :: "PEImage \<Rightarrow> ExceptionRecord list \<Rightarrow> ExportRecord list \<Rightarrow> u64 list \<Rightarrow> (u64, string) btree" where
  "function_seed_map img excs exps direct_code_targets =
     (let seeds = (if entry_va img \<noteq> 0 then bt_insert (entry_va img) ''entry'' [] else []);
          seeds = fold (\<lambda>e. or_insert (exc_begin e) ''pdata'') excs seeds;
          seeds = fold (\<lambda>x m. if (case section_for_va img (export_va x) of Some s \<Rightarrow> executable s | None \<Rightarrow> False)
                               then or_insert (export_va x) ''export'' m else m) exps seeds;
          seeds = fold (\<lambda>t. or_insert t ''call'') direct_code_targets seeds
      in fold (\<lambda>s m. if executable s then or_insert (sec_va s) ''section'' m else m) (pe_sections img) seeds)"

fun first_return :: "u64 \<Rightarrow> (u64 \<Rightarrow> InstructionRecord option) \<Rightarrow> u64 list \<Rightarrow> u64" where
  "first_return max_end by_va [] = max_end"
| "first_return max_end by_va (a # as) =
     (if a \<ge> max_end then max_end
      else case by_va a of
             Some ins \<Rightarrow> if is_ret ins then address ins + ucast (ins_size ins) else first_return max_end by_va as
           | None \<Rightarrow> first_return max_end by_va as)"

definition guess_function_end ::
  "PEImage \<Rightarrow> u64 list \<Rightarrow> (u64 \<Rightarrow> InstructionRecord option) \<Rightarrow> (u64, u64) btree \<Rightarrow> u64 \<Rightarrow> u64" where
  "guess_function_end img addresses by_va exc_end_of start =
     (case bt_get exc_end_of start of
        Some stop \<Rightarrow> stop
      | None \<Rightarrow>
          (case section_for_va img start of
             None \<Rightarrow> start
           | Some s \<Rightarrow>
               let max_end = min (sec_va s + of_nat (data_size s)) (start + 0x4000)
               in first_return max_end by_va (dropWhile (\<lambda>a. a < start) addresses)))"

fun discover_loop ::
  "PEImage \<Rightarrow> u64 list \<Rightarrow> (u64 \<Rightarrow> InstructionRecord option) \<Rightarrow> (u64, u64) btree \<Rightarrow> nat \<Rightarrow>
   (u64 \<times> string) list \<Rightarrow> FunctionRecord list \<Rightarrow> FunctionRecord list" where
  "discover_loop img addresses by_va exc_end_of max_functions [] fs = fs"
| "discover_loop img addresses by_va exc_end_of max_functions ((start, source) # seeds) fs =
     (if length fs \<ge> max_functions then fs
      else let stop = guess_function_end img addresses by_va exc_end_of start
           in if by_va start = None \<or> list_ex (\<lambda>f. fn_start f \<le> start \<and> start < fn_end f) fs \<or>
                 (case section_for_va img start of None \<Rightarrow> True | Some s \<Rightarrow> \<not> executable s) \<or> stop \<le> start
              then discover_loop img addresses by_va exc_end_of max_functions seeds fs
              else discover_loop img addresses by_va exc_end_of max_functions seeds
                (fs @ [\<lparr>fn_start = start, fn_end = stop, fn_size = stop - start, fn_source = source, calls = [],
                        calls_imports = [], fn_strings = [], xrefs = 0\<rparr>]))"

definition discover_functions ::
  "PEImage \<Rightarrow> InstructionRecord list \<Rightarrow> ExceptionRecord list \<Rightarrow> ExportRecord list \<Rightarrow> u64 list \<Rightarrow> nat \<Rightarrow> FunctionRecord list" where
  "discover_functions img rows excs exps direct_code_targets max_functions =
     sort_key fn_start
       (discover_loop img (sort (remdups (map address rows))) (ins_by_va rows)
         (fold (\<lambda>e. bt_insert (exc_begin e) (exc_end e)) excs []) max_functions
         (function_seed_map img excs exps direct_code_targets) [])"

section \<open>References\<close>

definition push_new :: "'a list \<Rightarrow> 'a \<Rightarrow> 'a list" where
  "push_new target v = (if v \<in> set target then target else target @ [v])"

definition attach_ref :: "XrefRecord \<Rightarrow> FunctionRecord \<Rightarrow> FunctionRecord" where
  "attach_ref x f =
     (let f = f\<lparr>xrefs := xrefs f + 1\<rparr>
      in if xref_kind x = ''import''
         then (case xref_symbol x of Some s \<Rightarrow> f\<lparr>calls_imports := push_new (calls_imports f) s\<rparr> | None \<Rightarrow> f)
         else if xref_kind x = ''string''
         then (case xref_text x of Some t \<Rightarrow> f\<lparr>fn_strings := push_new (fn_strings f) t\<rparr> | None \<Rightarrow> f)
         else if xref_kind x = ''code'' \<and> xref_role x = ''call''
         then f\<lparr>calls := push_new (calls f) (xref_target x)\<rparr> else f)"

text \<open>The first function that contains the place of the reference.\<close>

fun attach_one :: "XrefRecord \<Rightarrow> FunctionRecord list \<Rightarrow> FunctionRecord list" where
  "attach_one x [] = []"
| "attach_one x (f # fs) =
     (if fn_start f \<le> xref_from x \<and> xref_from x < fn_end f then attach_ref x f # fs else f # attach_one x fs)"

definition attach_function_refs :: "FunctionRecord list \<Rightarrow> XrefRecord list \<Rightarrow> FunctionRecord list" where
  "attach_function_refs functions xs = fold attach_one xs functions"

section \<open>Wrappers\<close>

datatype WrapperTarget = WImport string | WFunction u64

record ResolvedCallRecord =
  rc_caller :: u64
  callsite :: u64
  original_callee :: u64
  resolved_api :: string
  wrapper_chain :: "u64 list"
  chain_depth :: nat
  rc_confidence :: string
  resolution_kind :: "string option"
  class_id :: "string option"
  rc_vtable_va :: "u64 option"
  vtable_slot :: "nat option"
  rc_target :: "u64 option"
  candidate_targets :: "u64 list"
  candidate_classes :: "string list"

definition wrapper_of :: "XrefRecord list \<Rightarrow> WrapperTarget option" where
  "wrapper_of xs =
     (case filter (\<lambda>x. xref_role x = ''call'' \<or> xref_role x = ''branch'') xs of
        [c] \<Rightarrow>
          if xref_kind c = ''import'' then map_option WImport (xref_symbol c)
          else if xref_kind c = ''code'' then Some (WFunction (xref_target c)) else None
      | _ \<Rightarrow> None)"

fun wrapper_loop ::
  "FunctionRecord list \<Rightarrow> XrefRecord list \<Rightarrow> FunctionSemanticSlice list \<Rightarrow> (u64, WrapperTarget) btree \<Rightarrow>
   (u64, WrapperTarget) btree option" where
  "wrapper_loop functions xs [] m = Some m"
| "wrapper_loop functions xs (s # ss) m =
     (if function_index s \<ge> length functions then wrapper_loop functions xs ss m
      else case slice_range xs (xref_range s) of
             None \<Rightarrow> None
           | Some rows \<Rightarrow>
               wrapper_loop functions xs ss
                 (case wrapper_of rows of
                    Some w \<Rightarrow> bt_insert (fn_start (functions ! function_index s)) w m
                  | None \<Rightarrow> m))"

definition discover_wrappers ::
  "FunctionRecord list \<Rightarrow> FunctionSemanticSlice list \<Rightarrow> XrefRecord list \<Rightarrow> (u64, WrapperTarget) btree option" where
  "discover_wrappers functions slices xs = wrapper_loop functions xs slices []"

text \<open>The number is the depth that is left, \<open>seen\<close> the set of visited functions, \<open>ch\<close> the chain of the source.\<close>

fun resolve_loop ::
  "(u64, WrapperTarget) btree \<Rightarrow> nat \<Rightarrow> u64 \<Rightarrow> u64 list \<Rightarrow> u64 list \<Rightarrow> (string \<times> u64 list) option" where
  "resolve_loop wrappers 0 current seen ch = None"
| "resolve_loop wrappers (Suc n) current seen ch =
     (if current \<in> set seen then None
      else case bt_get wrappers current of
             None \<Rightarrow> None
           | Some (WImport symbol) \<Rightarrow> Some (symbol, ch @ [current])
           | Some (WFunction following) \<Rightarrow>
               resolve_loop wrappers n following (current # seen) (ch @ [current]))"

definition resolve_target :: "u64 \<Rightarrow> (u64, WrapperTarget) btree \<Rightarrow> nat \<Rightarrow> (string \<times> u64 list) option" where
  "resolve_target target wrappers max_depth = resolve_loop wrappers max_depth target [] []"

definition resolved_row ::
  "(u64, WrapperTarget) btree \<Rightarrow> nat \<Rightarrow> u64 \<Rightarrow> XrefRecord \<Rightarrow> ResolvedCallRecord option" where
  "resolved_row wrappers max_depth caller x =
     (if xref_kind x \<noteq> ''code'' \<or> xref_role x \<noteq> ''call'' then None
      else map_option (\<lambda>(api, ch).
          \<lparr>rc_caller = caller, callsite = xref_from x, original_callee = xref_target x, resolved_api = api,
           wrapper_chain = ch, chain_depth = length ch, rc_confidence = ''high'',
           resolution_kind = Some ''wrapper_collapse'', class_id = None, rc_vtable_va = None, vtable_slot = None,
           rc_target = None, candidate_targets = [], candidate_classes = []\<rparr>)
        (resolve_target (xref_target x) wrappers max_depth))"

fun resolve_slices ::
  "FunctionRecord list \<Rightarrow> XrefRecord list \<Rightarrow> (u64, WrapperTarget) btree \<Rightarrow> nat \<Rightarrow> FunctionSemanticSlice list \<Rightarrow>
   ResolvedCallRecord list option" where
  "resolve_slices functions xs wrappers max_depth [] = Some []"
| "resolve_slices functions xs wrappers max_depth (s # ss) =
     (if function_index s \<ge> length functions then resolve_slices functions xs wrappers max_depth ss
      else case slice_range xs (xref_range s) of
             None \<Rightarrow> None
           | Some rows \<Rightarrow>
               map_option
                 ((@) (List.map_filter (resolved_row wrappers max_depth (fn_start (functions ! function_index s))) rows))
                 (resolve_slices functions xs wrappers max_depth ss))"

definition resolve_calls ::
  "FunctionRecord list \<Rightarrow> FunctionSemanticSlice list \<Rightarrow> XrefRecord list \<Rightarrow> nat \<Rightarrow> ResolvedCallRecord list option" where
  "resolve_calls functions slices xs max_depth =
     (case discover_wrappers functions slices xs of
        None \<Rightarrow> None
      | Some wrappers \<Rightarrow> resolve_slices functions xs wrappers max_depth slices)"

end
