(* ===== verification/Call_Props.thy ===== *)
theory Call_Props
  imports Call_Resolution
begin

text \<open>
  Discovered functions do not overlap, references go to the function around them, and a call is resolved
  exactly when a chain of wrappers within the depth leads to an import.
\<close>

section \<open>Functions\<close>

definition apart :: "FunctionRecord list \<Rightarrow> bool" where
  "apart fs \<longleftrightarrow> sorted_wrt (\<lambda>f g. fn_end f \<le> fn_start g) fs \<and> list_all (\<lambda>f. fn_start f < fn_end f) fs"

definition found_at :: "PEImage \<Rightarrow> InstructionRecord list \<Rightarrow> FunctionRecord \<Rightarrow> bool" where
  "found_at img rows f \<longleftrightarrow>
     fn_start f \<in> set (map address rows) \<and> (\<exists>s. section_for_va img (fn_start f) = Some s \<and> executable s)"

lemma bt_ok_or_insert: "bt_ok m \<Longrightarrow> bt_ok (or_insert k v m)"
  by (simp add: or_insert_def split: option.split)

lemma bt_ok_fold: "(\<And>x m. bt_ok m \<Longrightarrow> bt_ok (f x m)) \<Longrightarrow> bt_ok m \<Longrightarrow> bt_ok (fold f xs m)"
  by (induction xs arbitrary: m) simp_all

lemma seed_map_ok: "bt_ok (function_seed_map img excs exps targets)"
  unfolding function_seed_map_def Let_def by (intro bt_ok_fold) (simp_all add: bt_ok_or_insert bt_ok_Cons bt_keys_def)

lemma ins_by_va_known: "ins_by_va rows a \<noteq> None \<longleftrightarrow> a \<in> set (map address rows)"
  by (simp add: ins_by_va_def map_of_eq_None_iff image_image)

lemma discover_loop_inv:
  assumes "sorted_wrt (<) (map fst seeds)" "apart fs" "list_all (found_at img rows) fs" "length fs \<le> m"
    and "list_all (\<lambda>f. list_all (\<lambda>a. fn_start f < a) (map fst seeds)) fs"
    and "discover_loop img addrs (ins_by_va rows) ends m seeds fs = out"
  shows "apart out \<and> list_all (found_at img rows) out \<and> length out \<le> m"
  using assms
proof (induction seeds arbitrary: fs)
  case (Cons x seeds)
  obtain a src where x: "x = (a, src)" by fastforce
  have rest: "sorted_wrt (<) (map fst seeds)" "list_all (\<lambda>f. list_all (\<lambda>a. fn_start f < a) (map fst seeds)) fs"
    using Cons.prems(1,5) x by (auto simp: list_all_iff)
  let ?stop = "guess_function_end img addrs (ins_by_va rows) ends a"
  let ?skip = "ins_by_va rows a = None \<or> list_ex (\<lambda>f. fn_start f \<le> a \<and> a < fn_end f) fs \<or>
    (case section_for_va img a of None \<Rightarrow> True | Some s \<Rightarrow> \<not> executable s) \<or> ?stop \<le> a"
  let ?f = "\<lparr>fn_start = a, fn_end = ?stop, fn_size = ?stop - a, fn_source = src, calls = [], calls_imports = [],
    fn_strings = [], xrefs = 0\<rparr>"
  show ?case
  proof (cases "length fs \<ge> m")
    case True
    then show ?thesis using Cons.prems x by simp
  next
    case len: False
    show ?thesis
    proof (cases ?skip)
      case True
      then have "discover_loop img addrs (ins_by_va rows) ends m seeds fs = out"
        using Cons.prems(6) x len by (simp only: discover_loop.simps if_False if_True Let_def)
      then show ?thesis using Cons.IH [OF rest(1) Cons.prems(2,3,4) rest(2)] by simp
    next
      case False
      then have "discover_loop img addrs (ins_by_va rows) ends m seeds (fs @ [?f]) = out"
        using Cons.prems(6) x len by (simp only: discover_loop.simps if_False Let_def)
      moreover have "fn_end f \<le> a" if "f \<in> set fs" for f
      proof -
        have "fn_start f < a" "\<not> (fn_start f \<le> a \<and> a < fn_end f)"
          using False that Cons.prems(5) x by (auto simp: list_all_iff list_ex_iff)
        then show ?thesis by (meson less_imp_le not_less)
      qed
      then have "apart (fs @ [?f])" using Cons.prems(2) False by (auto simp: apart_def sorted_wrt_append)
      moreover have "found_at img rows ?f" using False ins_by_va_known [of rows a] by (auto simp: found_at_def split: option.splits)
      moreover have "list_all (\<lambda>c. a < c) (map fst seeds)" using Cons.prems(1) x by (simp add: list_all_iff)
      ultimately show ?thesis using Cons.IH [OF rest(1), of "fs @ [?f]"] Cons.prems(3) rest(2) len by simp
    qed
  qed
qed simp

lemma apart_sorted: "apart fs \<Longrightarrow> sorted (map fn_start fs)"
  by (induction fs) (auto simp: apart_def list_all_iff intro: order.strict_implies_order order.strict_trans2)

text \<open>
  C14: the discovered functions lie one behind the other without overlap, in order of their start; each starts
  at a decoded instruction in an executable section, and there are at most as many as asked for.
\<close>

theorem discovered_functions_apart:
  "apart (discover_functions img rows excs exps targets m) \<and>
   list_all (found_at img rows) (discover_functions img rows excs exps targets m) \<and>
   length (discover_functions img rows excs exps targets m) \<le> m"
proof -
  let ?seeds = "function_seed_map img excs exps targets"
  let ?out = "discover_loop img (sort (remdups (map address rows))) (ins_by_va rows)
    (fold (\<lambda>e. bt_insert (exc_begin e) (exc_end e)) excs []) m ?seeds []"
  have "sorted_wrt (<) (map fst ?seeds)" using seed_map_ok [of img excs exps targets]
    by (simp add: bt_ok_def bt_keys_def strict_sorted_iff)
  then have out: "apart ?out" "list_all (found_at img rows) ?out" "length ?out \<le> m"
    using discover_loop_inv [of ?seeds "[]" img rows m] by (simp_all add: apart_def)
  have "discover_functions img rows excs exps targets m = ?out"
    unfolding discover_functions_def by (rule sort_key_id_if_sorted [OF apart_sorted [OF out(1)]])
  then show ?thesis using out by simp
qed

section \<open>References\<close>

definition in_function :: "XrefRecord \<Rightarrow> FunctionRecord \<Rightarrow> bool" where
  "in_function x f \<longleftrightarrow> fn_start f \<le> xref_from x \<and> xref_from x < fn_end f"

lemma attach_ref_range [simp]: "fn_start (attach_ref x f) = fn_start f" "fn_end (attach_ref x f) = fn_end f"
  by (simp_all add: attach_ref_def Let_def split: option.split)

lemma apart_attach [simp]: "apart (map (\<lambda>f. if P f then attach_ref x f else f) fs) = apart fs"
  by (simp add: apart_def sorted_wrt_map list.pred_map comp_def if_distrib [of fn_start] if_distrib [of fn_end] cong: if_cong)

lemma attach_one_map: "apart fs \<Longrightarrow> attach_one x fs = map (\<lambda>f. if in_function x f then attach_ref x f else f) fs"
proof (induction fs)
  case (Cons f fs)
  have "\<not> in_function x g" if "in_function x f" "g \<in> set fs" for g
    using that Cons.prems by (fastforce simp: in_function_def apart_def)
  then show ?case using Cons by (auto simp: in_function_def [symmetric] apart_def map_idI)
qed simp

text \<open>
  On functions that do not overlap every function gets exactly the references from its own range, in order.
\<close>

theorem function_refs_exact:
  assumes "apart fs"
  shows "attach_function_refs fs xs = map (\<lambda>f. fold attach_ref (filter (\<lambda>x. in_function x f) xs) f) fs"
  using assms unfolding attach_function_refs_def
proof (induction xs arbitrary: fs)
  case (Cons x xs)
  have "in_function y (if P f then attach_ref x f else f) = in_function y f" for y P f by (simp add: in_function_def)
  then show ?case using Cons by (simp add: attach_one_map comp_def)
qed simp

definition small_fn :: "u64 \<Rightarrow> u64 \<Rightarrow> FunctionRecord" where
  "small_fn a b = \<lparr>fn_start = a, fn_end = b, fn_size = b - a, fn_source = ''pdata'', calls = [], calls_imports = [],
     fn_strings = [], xrefs = 0\<rparr>"

definition call_ref :: "u64 \<Rightarrow> u64 \<Rightarrow> XrefRecord" where
  "call_ref a t = \<lparr>xref_kind = ''code'', xref_from = a, xref_target = t, xref_role = ''call'', xref_symbol = None,
     xref_text = None, xref_encoding = None, xref_section = None\<rparr>"

lemma function_refs_exact_witness:
  "map (\<lambda>f. (calls f, xrefs f))
     (attach_function_refs [small_fn 0 16, small_fn 16 32] [call_ref 4 16, call_ref 8 16, call_ref 20 64, call_ref 40 0]) =
   [([16], 2), ([64], 1)]"
proof -
  have "apart [small_fn 0 16, small_fn 16 32]" by (simp add: apart_def small_fn_def)
  from function_refs_exact [OF this, of "[call_ref 4 16, call_ref 8 16, call_ref 20 64, call_ref 40 0]"]
  show ?thesis by (simp add: in_function_def attach_ref_def small_fn_def call_ref_def push_new_def)
qed

section \<open>Wrappers\<close>

text \<open>A chain of wrappers from a function to an import.\<close>

fun wrapper_path :: "(u64, WrapperTarget) btree \<Rightarrow> u64 \<Rightarrow> u64 list \<Rightarrow> string \<Rightarrow> bool" where
  "wrapper_path w t [] api = False"
| "wrapper_path w t [c] api \<longleftrightarrow> c = t \<and> bt_get w t = Some (WImport api)"
| "wrapper_path w t (c # d # cs) api \<longleftrightarrow> c = t \<and> bt_get w t = Some (WFunction d) \<and> wrapper_path w d (d # cs) api"

lemma wrapper_path_import: "bt_get w t = Some (WImport s) \<Longrightarrow> wrapper_path w t p api \<longleftrightarrow> p = [t] \<and> api = s"
  by (cases "(w, t, p, api)" rule: wrapper_path.cases) auto

lemma wrapper_path_head: "wrapper_path w t (c # p) api \<Longrightarrow> c = t"
  by (cases p) auto

lemma wrapper_path_function:
  assumes "bt_get w t = Some (WFunction d)"
  shows "wrapper_path w t p api \<longleftrightarrow> (\<exists>q. p = t # q \<and> wrapper_path w d q api)"
proof (cases p)
  case (Cons c q)
  then show ?thesis using assms wrapper_path_head [of w d] by (cases q) auto
qed simp

lemma wrapper_path_none: "bt_get w t = None \<Longrightarrow> \<not> wrapper_path w t p api"
  by (cases "(w, t, p, api)" rule: wrapper_path.cases) auto

lemma wrapper_path_unique: "wrapper_path w t p api \<Longrightarrow> wrapper_path w t q api' \<Longrightarrow> p = q"
proof (induction p arbitrary: t q)
  case (Cons c p)
  show ?case
  proof (cases "bt_get w t")
    case None
    then show ?thesis using Cons.prems wrapper_path_none by blast
  next
    case (Some x)
    then show ?thesis using Cons
      by (cases x) (auto simp: wrapper_path_import wrapper_path_function)
  qed
qed simp

lemma wrapper_path_suffix: "wrapper_path w t p api \<Longrightarrow> x \<in> set p \<Longrightarrow> \<exists>q. wrapper_path w x q api \<and> length q \<le> length p"
proof (induction p arbitrary: t)
  case (Cons c p)
  show ?case
  proof (cases "bt_get w t")
    case None
    then show ?thesis using Cons.prems wrapper_path_none by blast
  next
    case (Some y)
    show ?thesis
    proof (cases "x = t")
      case True
      then show ?thesis using Cons.prems(1) by blast
    next
      case False
      then show ?thesis using Cons Some
        by (cases y) (fastforce simp: wrapper_path_import wrapper_path_function)+
    qed
  qed
qed simp

lemma wrapper_path_distinct: "wrapper_path w t p api \<Longrightarrow> distinct p"
proof (induction p arbitrary: t)
  case (Cons c p)
  have c: "c = t" using wrapper_path_head [OF Cons.prems] .
  have tail: "p = [] \<or> (\<exists>d. wrapper_path w d p api)" using Cons.prems by (cases p) auto
  have "c \<notin> set p"
  proof
    assume "c \<in> set p"
    then obtain d where "wrapper_path w d p api" using tail by auto
    then obtain q where "wrapper_path w c q api" "length q \<le> length p"
      using wrapper_path_suffix \<open>c \<in> set p\<close> by blast
    then show False using wrapper_path_unique [OF Cons.prems, of q api] c by auto
  qed
  then show ?case using tail Cons.IH by auto
qed simp

lemma resolve_loop_spec:
  "resolve_loop w n t seen ch = Some (api, out) \<longleftrightarrow>
   (\<exists>p. out = ch @ p \<and> wrapper_path w t p api \<and> length p \<le> n \<and> set p \<inter> set seen = {})"
proof (induction n arbitrary: t seen ch)
  case 0
  then show ?case by (auto elim: wrapper_path.elims)
next
  case (Suc n)
  show ?case
  proof (cases "t \<in> set seen \<or> bt_get w t = None")
    case True
    then show ?thesis by (auto dest: wrapper_path_none elim: wrapper_path.elims)
  next
    case False
    then obtain x where x: "bt_get w t = Some x" "t \<notin> set seen" by auto
    show ?thesis
    proof (cases x)
      case (WImport s)
      then show ?thesis using x by (auto simp: wrapper_path_import)
    next
      case (WFunction d)
      have "t \<notin> set q" if "wrapper_path w d q api" for q
        using wrapper_path_distinct [of w t "t # q" api] wrapper_path_function [of w t d "t # q" api] x(1) WFunction that by simp
      then show ?thesis using x WFunction by (auto simp: Suc.IH wrapper_path_function)
    qed
  qed
qed

text \<open>
  C18: a call is resolved to an import exactly when a chain of wrappers of at most the given length
  leads there; the chain is the one reported, and it never visits a function twice.
\<close>

theorem resolve_target_exact:
  "resolve_target t w max_depth = Some (api, ch) \<longleftrightarrow> wrapper_path w t ch api \<and> length ch \<le> max_depth \<and> distinct ch"
  using resolve_loop_spec [of w max_depth t "[]" "[]" api ch] wrapper_path_distinct by (auto simp: resolve_target_def)

end
