(* ===== verification/Value_Graph.thy ===== *)
theory Value_Graph
  imports Vsa_Analysis "HOL-Library.AList"
begin

text \<open>
  \<open>src/value_graph.rs\<close>: the constants and strings that registers and stack slots hold, followed through the rows
  of a function in address order. \<open>src/indirect_resolver.rs\<close>: the targets of indirect calls and jumps from the
  value sets. \<^const>\<open>None\<close> of a loop over slices is the panic of a range outside the list.
\<close>

section \<open>Tracked values\<close>

record TrackedValue =
  tv_inferred_type :: string
  tv_value :: "string option"
  tv_target_va :: "u64 option"
  tv_evidence :: "u64 list"
  tv_confidence :: string

record ValueGraphRecord =
  vg_value_id :: string
  vg_function :: u64
  source_instruction :: u64
  vg_location :: string
  inferred_type :: string
  vg_value :: "string option"
  vg_target_va :: "u64 option"
  vg_evidence :: "u64 list"
  vg_confidence :: string

type_synonym string_table = "(u64, StringRecord) btree"

definition known_string :: "string_table \<Rightarrow> u64 option \<Rightarrow> StringRecord option" where
  "known_string strings_by_va target = Option.bind target (bt_get strings_by_va)"

definition constant_of :: "string \<Rightarrow> TrackedValue" where
  "constant_of t =
     \<lparr>tv_inferred_type = ''constant'', tv_value = Some t, tv_target_va = None, tv_evidence = [],
      tv_confidence = ''medium''\<rparr>"

definition clears_itself :: "IrInstruction \<Rightarrow> bool" where
  "clears_itself ins \<longleftrightarrow>
     ir_mnemonic ins = ''xor'' \<and>
     (case (write_reg ins, read_regs ins) of (Some w, r # _) \<Rightarrow> w = r | _ \<Rightarrow> False)"

definition value_from_instruction :: "IrInstruction \<Rightarrow> string_table \<Rightarrow> TrackedValue option" where
  "value_from_instruction ins strings_by_va =
     (case (case known_string strings_by_va (rip_target ins) of
              Some s \<Rightarrow> Some s | None \<Rightarrow> known_string strings_by_va (immediate ins)) of
        Some s \<Rightarrow>
          Some \<lparr>tv_inferred_type = ''string_pointer'', tv_value = Some (str_text s), tv_target_va = Some (str_va s),
                tv_evidence = [], tv_confidence = ''high''\<rparr>
      | None \<Rightarrow>
          if clears_itself ins then Some (constant_of ''0x0'')
          else if ir_mnemonic ins \<in> set [''mov'', ''movabs'', ''movzx'', ''movsxd'', ''lea'']
          then map_option (\<lambda>i. constant_of (hex_upper i)) (immediate ins)
          else None)"

definition stack_value :: "IrInstruction \<Rightarrow> (int, TrackedValue) btree \<Rightarrow> TrackedValue option" where
  "stack_value ins stack =
     (if \<not> memory_read ins then None else Option.bind (stack_slot ins) (bt_get stack))"

definition copy_from_first_reg :: "IrInstruction \<Rightarrow> (string, TrackedValue) btree \<Rightarrow> TrackedValue option" where
  "copy_from_first_reg ins regs = (case read_regs ins of [] \<Rightarrow> None | r # _ \<Rightarrow> bt_get regs r)"

definition append_evidence :: "TrackedValue \<Rightarrow> u64 \<Rightarrow> TrackedValue" where
  "append_evidence v a = (if a \<in> set (tv_evidence v) then v else v\<lparr>tv_evidence := tv_evidence v @ [a]\<rparr>)"

definition record_for :: "u64 \<Rightarrow> u64 \<Rightarrow> string \<Rightarrow> TrackedValue \<Rightarrow> nat \<Rightarrow> ValueGraphRecord option" where
  "record_for fn source loc v index =
     (if tv_value v = None \<and> tv_target_va v = None then None
      else Some \<lparr>vg_value_id = ''value:'' @ hex016 fn @ '':'' @ hex016 source @ '':'' @ index_hex index,
                 vg_function = fn, source_instruction = source, vg_location = loc,
                 inferred_type = tv_inferred_type v, vg_value = tv_value v, vg_target_va = tv_target_va v,
                 vg_evidence = tv_evidence v, vg_confidence = tv_confidence v\<rparr>)"

definition push_row :: "ValueGraphRecord option \<Rightarrow> ValueGraphRecord list \<Rightarrow> ValueGraphRecord list" where
  "push_row r rows = (case r of Some row \<Rightarrow> rows @ [row] | None \<Rightarrow> rows)"

section \<open>One instruction\<close>

record GraphState =
  gs_regs :: "(string, TrackedValue) btree"
  gs_stack :: "(int, TrackedValue) btree"
  gs_rows :: "ValueGraphRecord list"

definition store_step :: "u64 \<Rightarrow> string_table \<Rightarrow> IrInstruction \<Rightarrow> GraphState \<Rightarrow> GraphState" where
  "store_step fn strs ins st =
     (if memory_write ins
      then case stack_slot ins of
             None \<Rightarrow> st
           | Some slot \<Rightarrow>
               (case (case value_from_instruction ins strs of
                        Some v \<Rightarrow> Some v | None \<Rightarrow> copy_from_first_reg ins (gs_regs st)) of
                  None \<Rightarrow> st
                | Some v \<Rightarrow>
                    let v = append_evidence v (ir_address ins)
                    in st\<lparr>gs_stack := bt_insert slot v (gs_stack st),
                          gs_rows := push_row (record_for fn (ir_address ins) (slot_location slot) v (length (gs_rows st)))
                            (gs_rows st)\<rparr>)
      else st)"

definition write_step :: "u64 \<Rightarrow> string_table \<Rightarrow> IrInstruction \<Rightarrow> GraphState \<Rightarrow> GraphState" where
  "write_step fn strs ins st =
     (case write_reg ins of
        None \<Rightarrow> st
      | Some r \<Rightarrow>
          (case (case value_from_instruction ins strs of
                   Some v \<Rightarrow> Some v
                 | None \<Rightarrow> (case stack_value ins (gs_stack st) of
                              Some v \<Rightarrow> Some v | None \<Rightarrow> copy_from_first_reg ins (gs_regs st))) of
             Some v \<Rightarrow>
               let v = append_evidence v (ir_address ins)
               in st\<lparr>gs_regs := bt_insert r v (gs_regs st),
                     gs_rows := push_row (record_for fn (ir_address ins) r v (length (gs_rows st))) (gs_rows st)\<rparr>
           | None \<Rightarrow>
               if ir_mnemonic ins \<notin> set [''mov'', ''lea'', ''movzx'', ''movsxd'']
               then st\<lparr>gs_regs := bt_remove r (gs_regs st)\<rparr> else st))"

definition graph_step :: "u64 \<Rightarrow> string_table \<Rightarrow> IrInstruction \<Rightarrow> GraphState \<Rightarrow> GraphState" where
  "graph_step fn strs ins st = write_step fn strs ins (store_step fn strs ins st)"

definition graph_function :: "u64 \<Rightarrow> string_table \<Rightarrow> IrInstruction list \<Rightarrow> ValueGraphRecord list \<Rightarrow> ValueGraphRecord list" where
  "graph_function fn strs ir_slice rows =
     gs_rows (fold (graph_step fn strs) ir_slice \<lparr>gs_regs = [], gs_stack = [], gs_rows = rows\<rparr>)"

fun graph_slices ::
  "FunctionRecord list \<Rightarrow> IrInstruction list \<Rightarrow> string_table \<Rightarrow> FunctionSemanticSlice list \<Rightarrow>
   ValueGraphRecord list \<Rightarrow> ValueGraphRecord list option" where
  "graph_slices functions ir strs [] rows = Some rows"
| "graph_slices functions ir strs (s # ss) rows =
     (if function_index s \<ge> length functions then graph_slices functions ir strs ss rows
      else case slice_range ir (ir_range s) of
             None \<Rightarrow> None
           | Some ir_slice \<Rightarrow>
               graph_slices functions ir strs ss
                 (graph_function (fn_start (functions ! function_index s)) strs ir_slice rows))"

definition build_value_graph ::
  "FunctionRecord list \<Rightarrow> FunctionSemanticSlice list \<Rightarrow> IrInstruction list \<Rightarrow> StringRecord list \<Rightarrow>
   ValueGraphRecord list option" where
  "build_value_graph functions slices ir strings =
     graph_slices functions ir (collect_by str_va strings) slices []"

section \<open>Indirect calls and jumps\<close>

record ResolvedIndirectRecord =
  ri_schema :: string
  ri_kind :: string
  ri_function :: u64
  ri_site_va :: u64
  ri_target_va :: u64
  via :: string
  resolved_symbol :: "string option"
  ri_confidence :: string
  ri_evidence :: "u64 list"

definition confidence_rank :: "string \<Rightarrow> nat" where
  "confidence_rank c =
     (if c = ''high'' \<or> c = ''definite'' then 3 else if c = ''medium'' then 2 else if c = ''low'' then 1 else 0)"

text \<open>\<open>{:X}\<close> of an \<open>i64\<close> prints its two's complement.\<close>

definition describe_memory :: "IrInstruction \<Rightarrow> string" where
  "describe_memory ins =
     ''['' @
     (case memory_base ins of Some b \<Rightarrow> b | None \<Rightarrow> []) @
     (case memory_index ins of
        Some i \<Rightarrow> if memory_scale ins > 1 then i @ ''*'' @ show_nat (unat (memory_scale ins)) else i
      | None \<Rightarrow> []) @
     (if memory_displacement ins = 0 then []
      else if memory_displacement ins > 0 then ''+'' @ hex_upper (word_of_int (memory_displacement ins))
      else ''-'' @ hex_upper (word_of_int (- memory_displacement ins))) @
     '']''"

type_synonym site_index = "((u64 \<times> u64 \<times> string) \<times> VsaValueRecord) list"

text \<open>The map is only looked up, so its order is left open: a list without equal keys.\<close>

definition index_site :: "VsaValueRecord \<Rightarrow> site_index \<Rightarrow> site_index" where
  "index_site v m =
     (if vv_target_va v = None then m
      else
        let key = (vv_function v, site_va v, to_ascii_lowercase (vv_location v))
        in (case map_of m key of
              Some existing \<Rightarrow>
                if confidence_rank (vv_confidence existing) \<ge> confidence_rank (vv_confidence v) then m
                else AList.update key v m
            | None \<Rightarrow> AList.update key v m))"

definition vsa_by_site :: "VsaValueRecord list \<Rightarrow> site_index" where
  "vsa_by_site vs = fold index_site vs []"

definition function_of_ir :: "FunctionRecord list \<Rightarrow> IrInstruction list \<Rightarrow> (u64, u64) btree" where
  "function_of_ir functions ir =
     fold (\<lambda>(a, f). bt_insert a f)
       (concat (map (\<lambda>f. map (\<lambda>ins. (ir_address ins, fn_start f))
          (filter (\<lambda>ins. ir_address ins \<ge> fn_start f \<and> ir_address ins < fn_end f) ir)) functions)) []"

definition lookup_site :: "site_index \<Rightarrow> u64 \<Rightarrow> IrInstruction \<Rightarrow> (string \<times> VsaValueRecord option) option" where
  "lookup_site m fn ins =
     (case indirect_target_register ins of
        Some reg \<Rightarrow> Some (''register='' @ reg, map_of m (fn, ir_address ins, to_ascii_lowercase reg))
      | None \<Rightarrow>
          if indirect_target_memory ins
          then Some (''memory='' @ describe_memory ins,
                     Option.bind (memory_base ins) (\<lambda>reg. map_of m (fn, ir_address ins, to_ascii_lowercase reg)))
          else None)"

definition indirect_row ::
  "(u64, u64) btree \<Rightarrow> site_index \<Rightarrow> (u64, ImportRecord) btree \<Rightarrow> IrInstruction \<Rightarrow> ResolvedIndirectRecord option" where
  "indirect_row fns m imports_by_va ins =
     (if \<not> (ir_is_call ins \<or> ir_is_jump ins) \<or> direct_target ins \<noteq> None \<or> rip_target ins \<noteq> None then None
      else case bt_get fns (ir_address ins) of
             None \<Rightarrow> None
           | Some fn \<Rightarrow>
               (case lookup_site m fn ins of
                  Some (how, Some v) \<Rightarrow>
                    (case vv_target_va v of
                       None \<Rightarrow> None
                     | Some t \<Rightarrow>
                         if t = 0 then None
                         else Some \<lparr>ri_schema = ''resolved_indirect/1'',
                           ri_kind = (if ir_is_call ins then ''indirect_call'' else ''indirect_jump''),
                           ri_function = fn, ri_site_va = ir_address ins, ri_target_va = t, via = how,
                           resolved_symbol = (case bt_get imports_by_va t of
                                                Some imp \<Rightarrow> Some (imp_symbol imp) | None \<Rightarrow> vv_expression v),
                           ri_confidence = (if vv_confidence v = ''high'' then ''high''
                                            else if vv_confidence v = ''medium'' \<or> vv_confidence v = ''definite''
                                            then ''medium'' else ''low''),
                           ri_evidence = (if ir_address ins \<in> set (vv_evidence v) then vv_evidence v
                                          else ir_address ins # vv_evidence v)\<rparr>)
                | _ \<Rightarrow> None))"

definition resolve_indirect ::
  "FunctionRecord list \<Rightarrow> IrInstruction list \<Rightarrow> VsaValueRecord list \<Rightarrow> ImportRecord list \<Rightarrow> ResolvedIndirectRecord list" where
  "resolve_indirect functions ir vsa_values imports =
     List.map_filter
       (indirect_row (function_of_ir functions ir) (vsa_by_site vsa_values) (collect_by import_va imports)) ir"

end
