(* ===== verification/Value_Graph_Props.thy ===== *)
theory Value_Graph_Props
  imports Value_Graph
begin

text \<open>
  Rows of the value graph cite instructions of their own function; a resolved indirect call carries the best
  value the analysis has for its register. The value that is taken is wrong for loads, stores and calls
  through memory.
\<close>

section \<open>Ordered maps as sets of entries\<close>

lemma set_bt_insert: "set (bt_insert k v m) \<subseteq> insert (k, v) (set m)"
  by (induction k v m rule: bt_insert.induct) auto

lemma bt_insert_values: "snd ` set (bt_insert k v m) \<subseteq> insert v (snd ` set m)"
  using set_bt_insert [of k v m] by force

lemma values_insert: "snd ` set m \<subseteq> S \<Longrightarrow> v \<in> S \<Longrightarrow> snd ` set (bt_insert k v m) \<subseteq> S"
  using bt_insert_values [of k v m] by blast

lemma bt_remove_values: "snd ` set (bt_remove k m) \<subseteq> snd ` set m"
  by (auto simp: bt_remove_def)

lemma bt_get_value: "bt_get m k = Some v \<Longrightarrow> v \<in> snd ` set m"
  using bt_get_in by force

lemma fold_insert_set: "set (fold (\<lambda>(a, f). bt_insert a f) ps m) \<subseteq> set ps \<union> set m"
proof (induction ps arbitrary: m)
  case (Cons p ps)
  obtain a f where p: "p = (a, f)" by fastforce
  show ?case using Cons.IH [of "bt_insert a f m"] set_bt_insert [of a f m] by (auto simp: p)
qed simp

section \<open>Evidence\<close>

definition tv_ok :: "u64 set \<Rightarrow> TrackedValue \<Rightarrow> bool" where
  "tv_ok A v \<longleftrightarrow> set (tv_evidence v) \<subseteq> A \<and> distinct (tv_evidence v)"

definition graph_row_ok :: "u64 \<Rightarrow> u64 set \<Rightarrow> ValueGraphRecord \<Rightarrow> bool" where
  "graph_row_ok fn A r \<longleftrightarrow>
     vg_function r = fn \<and> source_instruction r \<in> set (vg_evidence r) \<and> set (vg_evidence r) \<subseteq> A \<and>
     distinct (vg_evidence r) \<and> (vg_value r \<noteq> None \<or> vg_target_va r \<noteq> None)"

definition graph_inv :: "u64 \<Rightarrow> u64 set \<Rightarrow> ValueGraphRecord set \<Rightarrow> GraphState \<Rightarrow> bool" where
  "graph_inv fn A old st \<longleftrightarrow>
     snd ` set (gs_regs st) \<subseteq> Collect (tv_ok A) \<and> snd ` set (gs_stack st) \<subseteq> Collect (tv_ok A) \<and>
     set (gs_rows st) \<subseteq> old \<union> Collect (graph_row_ok fn A)"

lemma append_evidence_ok: "tv_ok A v \<Longrightarrow> a \<in> A \<Longrightarrow> tv_ok A (append_evidence v a) \<and> a \<in> set (tv_evidence (append_evidence v a))"
  by (auto simp: tv_ok_def append_evidence_def)

lemma value_from_instruction_ok: "value_from_instruction ins strs = Some v \<Longrightarrow> tv_ok A v"
  by (auto simp: value_from_instruction_def constant_of_def tv_ok_def split: option.splits if_splits)

lemma record_for_ok:
  "record_for fn a loc v i = Some r \<Longrightarrow> tv_ok A v \<Longrightarrow> a \<in> set (tv_evidence v) \<Longrightarrow> graph_row_ok fn A r"
  by (auto simp: record_for_def graph_row_ok_def tv_ok_def split: if_splits)

lemma push_row_ok:
  "set rows \<subseteq> old \<union> Collect (graph_row_ok fn A) \<Longrightarrow> tv_ok A v \<Longrightarrow> a \<in> set (tv_evidence v) \<Longrightarrow>
   set (push_row (record_for fn a loc v i) rows) \<subseteq> old \<union> Collect (graph_row_ok fn A)"
  using record_for_ok [of fn a loc v i _ A] by (auto simp: push_row_def split: option.split)

lemma bt_get_ok: "snd ` set m \<subseteq> Collect (tv_ok A) \<Longrightarrow> bt_get m k = Some v \<Longrightarrow> tv_ok A v"
  using bt_get_value [of m k v] by blast

lemma copy_ok: "graph_inv fn A old st \<Longrightarrow> copy_from_first_reg ins (gs_regs st) = Some v \<Longrightarrow> tv_ok A v"
  unfolding graph_inv_def copy_from_first_reg_def by (simp add: bt_get_ok split: list.splits)

lemma stack_ok: "graph_inv fn A old st \<Longrightarrow> stack_value ins (gs_stack st) = Some v \<Longrightarrow> tv_ok A v"
  unfolding graph_inv_def stack_value_def by (auto simp: bind_eq_Some_conv bt_get_ok split: if_splits)

lemma graph_inv_stack:
  assumes "graph_inv fn A old st" "tv_ok A v" "a \<in> set (tv_evidence v)"
  shows "graph_inv fn A old (st\<lparr>gs_stack := bt_insert slot v (gs_stack st),
    gs_rows := push_row (record_for fn a loc v i) (gs_rows st)\<rparr>)"
  using assms values_insert [of "gs_stack st" "Collect (tv_ok A)" v slot] push_row_ok [of "gs_rows st" old fn A v a loc i]
  by (simp add: graph_inv_def)

lemma graph_inv_regs:
  assumes "graph_inv fn A old st" "tv_ok A v" "a \<in> set (tv_evidence v)"
  shows "graph_inv fn A old (st\<lparr>gs_regs := bt_insert r v (gs_regs st),
    gs_rows := push_row (record_for fn a loc v i) (gs_rows st)\<rparr>)"
  using assms values_insert [of "gs_regs st" "Collect (tv_ok A)" v r] push_row_ok [of "gs_rows st" old fn A v a loc i]
  by (simp add: graph_inv_def)

lemma graph_inv_remove: "graph_inv fn A old st \<Longrightarrow> graph_inv fn A old (st\<lparr>gs_regs := bt_remove r (gs_regs st)\<rparr>)"
  using bt_remove_values [of r "gs_regs st"] by (simp add: graph_inv_def subset_trans)

lemma store_step_inv:
  assumes inv: "graph_inv fn A old st" and a: "ir_address ins \<in> A"
  shows "graph_inv fn A old (store_step fn strs ins st)"
proof -
  have "graph_inv fn A old (let w = append_evidence v (ir_address ins)
      in st\<lparr>gs_stack := bt_insert slot w (gs_stack st),
            gs_rows := push_row (record_for fn (ir_address ins) (slot_location slot) w (length (gs_rows st))) (gs_rows st)\<rparr>)"
    if "tv_ok A v" for v slot
    using graph_inv_stack [OF inv] append_evidence_ok [OF that a] by (simp add: Let_def)
  then show ?thesis
    using inv value_from_instruction_ok [of ins strs _ A] copy_ok [OF inv, of ins]
    by (simp add: store_step_def split: option.split)
qed

lemma write_step_inv:
  assumes inv: "graph_inv fn A old st" and a: "ir_address ins \<in> A"
  shows "graph_inv fn A old (write_step fn strs ins st)"
proof -
  have "graph_inv fn A old (let w = append_evidence v (ir_address ins)
      in st\<lparr>gs_regs := bt_insert r w (gs_regs st),
            gs_rows := push_row (record_for fn (ir_address ins) r w (length (gs_rows st))) (gs_rows st)\<rparr>)"
    if "tv_ok A v" for v r
    using graph_inv_regs [OF inv] append_evidence_ok [OF that a] by (simp add: Let_def)
  then show ?thesis
    using inv value_from_instruction_ok [of ins strs _ A] copy_ok [OF inv, of ins] stack_ok [OF inv, of ins]
      graph_inv_remove [OF inv]
    by (simp add: write_step_def split: option.split)
qed

lemma graph_function_rows:
  assumes "ir_address ` set ir_slice \<subseteq> A"
  shows "set (graph_function fn strs ir_slice rows) \<subseteq> set rows \<union> Collect (graph_row_ok fn A)"
proof -
  have "graph_inv fn A old st \<Longrightarrow> graph_inv fn A old (fold (graph_step fn strs) ir_slice st)" for old st
    using assms by (induction ir_slice arbitrary: st) (simp_all add: graph_step_def store_step_inv write_step_inv)
  from this [of "set rows" "\<lparr>gs_regs = [], gs_stack = [], gs_rows = rows\<rparr>"] show ?thesis
    by (simp add: graph_inv_def graph_function_def)
qed

definition cites_own_function ::
  "FunctionRecord list \<Rightarrow> FunctionSemanticSlice list \<Rightarrow> IrInstruction list \<Rightarrow> ValueGraphRecord \<Rightarrow> bool" where
  "cites_own_function functions slices ir r \<longleftrightarrow>
     (\<exists>s\<in>set slices. \<exists>ir_slice. function_index s < length functions \<and> slice_range ir (ir_range s) = Some ir_slice \<and>
        graph_row_ok (fn_start (functions ! function_index s)) (ir_address ` set ir_slice) r)"

lemma graph_slices_rows:
  "graph_slices functions ir strs ss rows = Some out \<Longrightarrow>
   set out \<subseteq> set rows \<union> Collect (cites_own_function functions ss ir)"
proof (induction ss arbitrary: rows)
  case (Cons s ss)
  have mono: "cites_own_function functions ss ir r \<Longrightarrow> cites_own_function functions (s # ss) ir r" for r
    by (auto simp: cites_own_function_def)
  show ?case
  proof (cases "function_index s \<ge> length functions")
    case True
    then show ?thesis using Cons mono by fastforce
  next
    case False
    then obtain ir_slice where sl: "slice_range ir (ir_range s) = Some ir_slice"
      "graph_slices functions ir strs ss (graph_function (fn_start (functions ! function_index s)) strs ir_slice rows) = Some out"
      using Cons.prems by (auto split: option.splits)
    have "graph_row_ok (fn_start (functions ! function_index s)) (ir_address ` set ir_slice) r \<Longrightarrow>
        cites_own_function functions (s # ss) ir r" for r
      using False sl(1) by (auto simp: cites_own_function_def not_le)
    then show ?thesis
      using Cons.IH [OF sl(2)] graph_function_rows [OF subset_refl, of "fn_start (functions ! function_index s)" strs ir_slice rows] mono
      by blast
  qed
qed simp

text \<open>
  C29: every row of the value graph belongs to the function of a slice: it names a value or an address, and its
  evidence holds each instruction once, the one of the row among them, and only instructions of the slice.
\<close>

theorem value_graph_cites_own_function:
  assumes "build_value_graph functions slices ir strings = Some rows" "r \<in> set rows"
  shows "cites_own_function functions slices ir r"
  using graph_slices_rows [where rows = "[]"] assms unfolding build_value_graph_def by fastforce

section \<open>What the rows say\<close>

definition iced :: "u64 \<Rightarrow> OpKind list \<Rightarrow> string list \<Rightarrow> u64 \<Rightarrow> string \<Rightarrow> u64 \<Rightarrow> IcedInstruction" where
  "iced a kinds regs imm base disp =
     \<lparr>ii_ip = a, ii_len = 4, ii_kinds = kinds, ii_registers = regs, ii_immediates = [imm, imm], ii_memory_base = base,
      ii_memory_index = ''none'', ii_memory_index_scale = 1, ii_memory_displacement64 = disp, ii_memory_size = 8,
      ii_ip_rel = None, ii_near_branch_target = 0\<rparr>"

text \<open>\<open>mov rbx, 0x40; mov rax, [rbx]\<close> and \<open>mov rax, 5; mov [rbp - 8], rax; call; mov rcx, [rbp - 8]; mov rdx, rax\<close>\<close>

definition load_rows :: "IrInstruction list" where
  "load_rows =
     [from_iced (iced 0 [KRegister, KImmediate] [''rbx'', ''none''] 0x40 ''none'' 0) ''mov'' False False,
      from_iced (iced 4 [KRegister, KMemory] [''rax'', ''none''] 0 ''rbx'' 0) ''mov'' False False]"

definition spill_rows :: "IrInstruction list" where
  "spill_rows =
     [from_iced (iced 0 [KRegister, KImmediate] [''rax'', ''none''] 5 ''none'' 0) ''mov'' False False,
      from_iced (iced 4 [KMemory, KRegister] [''none'', ''rax''] 0 ''rbp'' (- 8)) ''mov'' False False,
      from_iced (iced 8 [KOther] [''none''] 0 ''none'' 0) ''call'' True False,
      from_iced (iced 12 [KRegister, KMemory] [''rcx'', ''none''] 0 ''rbp'' (- 8)) ''mov'' False False,
      from_iced (iced 16 [KRegister, KRegister] [''rdx'', ''rax''] 0 ''none'' 0) ''mov'' False False]"

definition locations :: "ValueGraphRecord list \<Rightarrow> (u64 \<times> string \<times> string option) list" where
  "locations rows = map (\<lambda>r. (source_instruction r, vg_location r, vg_value r)) rows"

text \<open>
  The first register an instruction reads is taken for its source, and for an access to memory that is the
  base register: a load gives its destination the pointer instead of what it points to, and a
  store to a stack slot is not tracked, so nor is the load behind it. A call leaves every register as it was.
\<close>

theorem value_graph_misreads_memory:
  "locations (graph_function 0 [] load_rows []) = [(0, ''rbx'', Some ''0x40''), (4, ''rax'', Some ''0x40'')] \<and>
   locations (graph_function 0 [] spill_rows []) = [(0, ''rax'', Some ''0x5''), (16, ''rdx'', Some ''0x5'')]"
  by code_simp

section \<open>Indirect calls\<close>

definition site_key :: "VsaValueRecord \<Rightarrow> u64 \<times> u64 \<times> string" where
  "site_key v = (vv_function v, site_va v, to_ascii_lowercase (vv_location v))"

definition best_at :: "VsaValueRecord list \<Rightarrow> u64 \<times> u64 \<times> string \<Rightarrow> VsaValueRecord \<Rightarrow> bool" where
  "best_at vs k v \<longleftrightarrow>
     v \<in> set vs \<and> site_key v = k \<and> vv_target_va v \<noteq> None \<and>
     list_all (\<lambda>w. site_key w = k \<longrightarrow> vv_target_va w \<noteq> None \<longrightarrow>
       confidence_rank (vv_confidence w) \<le> confidence_rank (vv_confidence v)) vs"

lemma index_site_spec:
  "map_of (index_site v m) k =
     (if vv_target_va v \<noteq> None \<and> k = site_key v \<and>
         (case map_of m k of Some e \<Rightarrow> confidence_rank (vv_confidence e) < confidence_rank (vv_confidence v) | None \<Rightarrow> True)
      then Some v else map_of m k)"
  by (auto simp: index_site_def site_key_def Let_def update_conv' not_le split: option.splits)

lemma vsa_by_site_spec:
  "case map_of (vsa_by_site vs) k of
     Some v \<Rightarrow> best_at vs k v
   | None \<Rightarrow> list_all (\<lambda>w. site_key w = k \<longrightarrow> vv_target_va w = None) vs"
proof (induction vs rule: rev_induct)
  case (snoc x vs)
  have "vsa_by_site (vs @ [x]) = index_site x (vsa_by_site vs)" by (simp add: vsa_by_site_def)
  then show ?case using snoc
    by (cases "map_of (vsa_by_site vs) k"; cases "vv_target_va x = None"; cases "k = site_key x")
       (auto simp: index_site_spec best_at_def list_all_iff split: option.splits)
qed (simp add: vsa_by_site_def)

definition resolved_from ::
  "FunctionRecord list \<Rightarrow> IrInstruction list \<Rightarrow> VsaValueRecord list \<Rightarrow> ResolvedIndirectRecord \<Rightarrow> bool" where
  "resolved_from functions ir vs r \<longleftrightarrow>
     (\<exists>ins\<in>set ir. \<exists>f\<in>set functions. \<exists>reg v.
        (ir_is_call ins \<or> ir_is_jump ins) \<and> direct_target ins = None \<and> rip_target ins = None \<and>
        ri_site_va r = ir_address ins \<and> ri_function r = fn_start f \<and>
        fn_start f \<le> ir_address ins \<and> ir_address ins < fn_end f \<and>
        (indirect_target_register ins = Some reg \<or> indirect_target_register ins = None \<and> memory_base ins = Some reg) \<and>
        best_at vs (fn_start f, ir_address ins, to_ascii_lowercase reg) v \<and> vv_target_va v = Some (ri_target_va r) \<and>
        ri_target_va r \<noteq> 0)"

lemma function_of_ir_spec:
  assumes "bt_get (function_of_ir functions ir) a = Some s"
  shows "\<exists>f\<in>set functions. s = fn_start f \<and> fn_start f \<le> a \<and> a < fn_end f"
  using subsetD [OF fold_insert_set bt_get_in [OF assms [unfolded function_of_ir_def]]] by auto

text \<open>
  C21: a resolved call or jump lies in its function, is indirect, and its target is the address of a value
  record with the highest confidence for its register at its place.
\<close>

theorem resolved_indirect_best:
  assumes "r \<in> set (resolve_indirect functions ir vs imports)"
  shows "resolved_from functions ir vs r"
proof -
  let ?fns = "function_of_ir functions ir" and ?m = "vsa_by_site vs" and ?imps = "collect_by import_va imports"
  obtain ins where ins: "ins \<in> set ir" "indirect_row ?fns ?m ?imps ins = Some r"
    using assms by (auto simp: resolve_indirect_def List.map_filter_def)
  obtain s how v t where s: "ir_is_call ins \<or> ir_is_jump ins" "direct_target ins = None" "rip_target ins = None"
    "bt_get ?fns (ir_address ins) = Some s" "lookup_site ?m s ins = Some (how, Some v)" "vv_target_va v = Some t" "t \<noteq> 0"
    "ri_site_va r = ir_address ins" "ri_function r = s" "ri_target_va r = t"
    using ins(2) by (auto simp: indirect_row_def split: if_splits option.splits)
  obtain f where f: "f \<in> set functions" "s = fn_start f" "fn_start f \<le> ir_address ins" "ir_address ins < fn_end f"
    using function_of_ir_spec [OF s(4)] by blast
  obtain reg where reg: "indirect_target_register ins = Some reg \<or> indirect_target_register ins = None \<and> memory_base ins = Some reg"
    "map_of ?m (s, ir_address ins, to_ascii_lowercase reg) = Some v"
    using s(5) by (auto simp: lookup_site_def bind_eq_Some_conv split: option.splits if_splits)
  have "best_at vs (s, ir_address ins, to_ascii_lowercase reg) v"
    using vsa_by_site_spec [where vs = vs and k = "(s, ir_address ins, to_ascii_lowercase reg)"] reg(2) by simp
  then show ?thesis using ins(1) s(1-3,6-10) f reg(1) unfolding resolved_from_def
    by (intro bexI [of _ ins] bexI [of _ f] exI [of _ reg] exI [of _ v]) simp_all
qed

definition call_through :: "string \<Rightarrow> IrInstruction" where
  "call_through base = from_iced (iced 0x10 [KMemory] [''none''] 0 base 8) ''call'' True False"

definition value_at :: "u64 \<Rightarrow> string \<Rightarrow> u64 \<Rightarrow> VsaValueRecord" where
  "value_at site reg t = (vsa_record 0 site reg (vsa_constant t ''high'' []) 0)\<lparr>vv_target_va := Some t\<rparr>"

definition fn0 :: FunctionRecord where
  "fn0 = \<lparr>fn_start = 0, fn_end = 0x20, fn_size = 0x20, fn_source = ''entry'', calls = [], calls_imports = [], fn_strings = [],
     xrefs = 0\<rparr>"

text \<open>
  A call through memory at \<open>rax + 8\<close> is resolved to the value of \<open>rax\<close> itself: neither the displacement nor the
  load is taken into account.
\<close>

theorem indirect_call_target_is_pointer:
  "map (\<lambda>r. (ri_target_va r, via r)) (resolve_indirect [fn0] [call_through ''rax''] [value_at 0x10 ''rax'' 0x40] []) =
     [(0x40, ''memory=[rax+0x8]'')]"
  by code_simp

lemma resolved_indirect_best_witness:
  "\<exists>r. resolve_indirect [fn0] [call_through ''rax''] [value_at 0x10 ''rax'' 0x40] [] = [r] \<and>
     resolved_from [fn0] [call_through ''rax''] [value_at 0x10 ''rax'' 0x40] r"
proof -
  let ?rs = "resolve_indirect [fn0] [call_through ''rax''] [value_at 0x10 ''rax'' 0x40] []"
  have "length ?rs = 1" by code_simp
  then obtain r where r: "?rs = [r]" by (auto simp: length_Suc_conv)
  then show ?thesis using resolved_indirect_best [of r "[fn0]" "[call_through ''rax'']" "[value_at 0x10 ''rax'' 0x40]" "[]"] by simp
qed

definition fn0_slice :: FunctionSemanticSlice where
  "fn0_slice = \<lparr>function_index = 0, function_start = 0, function_end = 0x20, instruction_range = (0, 0),
     ir_range = (0, 2), xref_range = (0, 0), cfg_index = None, has_return = False, overlaps_known_function = False\<rparr>"

lemma value_graph_cites_own_function_witness:
  "\<exists>rows. build_value_graph [fn0] [fn0_slice] load_rows [] = Some rows \<and> length rows = 2 \<and>
     cites_own_function [fn0] [fn0_slice] load_rows (hd rows)"
proof -
  have "map_option length (build_value_graph [fn0] [fn0_slice] load_rows []) = Some 2" by code_simp
  then obtain rows where rows: "build_value_graph [fn0] [fn0_slice] load_rows [] = Some rows" "length rows = 2" by auto
  then have "hd rows \<in> set rows" by (intro list.set_sel) auto
  with value_graph_cites_own_function [OF rows(1)] rows show ?thesis by blast
qed

end
