(* ===== verification/Api_Classify.thy ===== *)
theory Api_Classify
  imports Winapi Pe_Loader
begin

text \<open>
  The rest of \<open>src/winapi.rs\<close>: the tier and family of an API, its categories and the registers of its arguments.
\<close>

record ApiClassification =
  tier :: string
  family :: string
  ac_relevance :: string
  ac_noise_reason :: "string option"
  normalized_symbol :: string

record ApiArg =
  arg_index :: nat
  arg_register :: string
  arg_name :: string

record ApiMetadata =
  meta_categories :: "string list"
  meta_args :: "ApiArg list"

text \<open>The four registers with the names of one row of the table.\<close>

definition args_named :: "string \<Rightarrow> string \<Rightarrow> string \<Rightarrow> string \<Rightarrow> ApiArg list" where
  "args_named a b c d =
     [\<lparr>arg_index = 0, arg_register = ''rcx'', arg_name = a\<rparr>, \<lparr>arg_index = 1, arg_register = ''rdx'', arg_name = b\<rparr>,
      \<lparr>arg_index = 2, arg_register = ''r8'', arg_name = c\<rparr>, \<lparr>arg_index = 3, arg_register = ''r9'', arg_name = d\<rparr>]"

definition match_api_args :: "string \<Rightarrow> ApiArg list" where
  "match_api_args name =
     (if contains ''createfile'' name
      then args_named ''lpFileName'' ''dwDesiredAccess'' ''dwShareMode'' ''lpSecurityAttributes''
      else if contains ''regopen'' name \<or> contains ''regcreate'' name
      then args_named ''hKey'' ''lpSubKey'' ''reserved_or_options'' ''sam_or_class''
      else if contains ''regsetvalue'' name \<or> contains ''regqueryvalue'' name
      then args_named ''hKey'' ''lpValueName'' ''reserved_or_type'' ''dwType_or_data''
      else if contains ''createprocess'' name
      then args_named ''lpApplicationName'' ''lpCommandLine'' ''lpProcessAttributes'' ''lpThreadAttributes''
      else if contains ''shellexecute'' name
      then args_named ''hwnd'' ''lpOperation'' ''lpFile'' ''lpParameters''
      else if contains ''winhttp'' name \<or> contains ''internet'' name \<or> contains ''connect'' name
      then args_named ''handle_or_host'' ''object_or_port'' ''flags_or_context'' ''reserved''
      else args_named ''arg0'' ''arg1'' ''arg2'' ''arg3'')"

definition metadata :: "string \<Rightarrow> ApiMetadata" where
  "metadata symbol = \<lparr>meta_categories = import_categories symbol, meta_args = match_api_args (api_name symbol)\<rparr>"

definition is_os_api_dll :: "string \<Rightarrow> bool" where
  "is_os_api_dll dll_name \<longleftrightarrow>
     list_ex (\<lambda>needle. contains needle dll_name)
       [''advapi32'', ''api-ms-win'', ''bcrypt'', ''crypt32'', ''dnsapi'', ''iphlpapi'', ''kernel32'', ''kernelbase'',
        ''mpr'', ''ncrypt'', ''netapi32'', ''ntdll'', ''ole32'', ''oleaut32'', ''rpcrt4'', ''secur32'', ''shell32'',
        ''shlwapi'', ''urlmon'', ''user32'', ''version'', ''winhttp'', ''wininet'', ''ws2_32'']"

definition runtime_families :: "(string \<times> string list) list" where
  "runtime_families =
     [(''qt'', [''qt5'', ''qt6'', ''qstring'', ''qobject'']),
      (''v8'', [''v8'', ''icu'']),
      (''steam'', [''steam'', ''tier0'', ''vstdlib'']),
      (''msvc_runtime'', [''msvcp'', ''vcruntime'', ''ucrtbase'', ''api-ms-win-crt'']),
      (''crt'', [''memcpy'', ''memmove'', ''malloc'', ''free'', ''printf'']),
      (''graphics'', [''d3d'', ''dxgi'', ''vulkan'', ''nvngx'', ''amd'']),
      (''audio'', [''phonon'', ''fmod'', ''xaudio'']),
      (''compression'', [''zlib'', ''lz4'', ''zstd'']),
      (''threading_runtime'', [''tbb'', ''concrt''])]"

definition runtime_family :: "string \<Rightarrow> string \<Rightarrow> string option" where
  "runtime_family dll_name name =
     (let joined = dll_name @ ''!'' @ name
      in map_option fst (find (\<lambda>(fam, needles). list_ex (\<lambda>needle. contains needle joined) needles) runtime_families))"

definition malware_relevant_family :: "string \<Rightarrow> bool" where
  "malware_relevant_family fam \<longleftrightarrow>
     fam \<in> set [''file'', ''process'', ''registry'', ''network'', ''crypto'', ''anti_debug'', ''service'', ''thread'',
       ''memory'', ''module'']"

definition split_once :: "char \<Rightarrow> string \<Rightarrow> (string \<times> string) option" where
  "split_once c s = (if c \<in> set s then Some (takeWhile (\<lambda>x. x \<noteq> c) s, tl (dropWhile (\<lambda>x. x \<noteq> c) s)) else None)"

definition normalize_symbol :: "string \<Rightarrow> string" where
  "normalize_symbol symbol =
     (case split_once (CHR ''!'') symbol of
        None \<Rightarrow> symbol
      | Some (dll_name, name) \<Rightarrow>
          if starts_with ''?'' name
          then dll_name @ ''!'' @
            (if contains ''QString'' name then ''Qt QString method''
             else if contains ''CUtlString'' name then ''CUtlString method''
             else if contains ''CBufferString'' name then ''CBufferString method''
             else ''msvc_mangled_cpp_symbol'')
          else symbol)"

definition classify_api :: "string \<Rightarrow> ApiClassification" where
  "classify_api symbol =
     (let dll_name = to_ascii_lowercase (case split_once (CHR ''!'') symbol of Some (d, _) \<Rightarrow> d | None \<Rightarrow> []);
          name = api_name symbol;
          cats = import_categories symbol;
          fam = (case cats of c # _ \<Rightarrow> c | [] \<Rightarrow> unwrap_or ''unknown'' (runtime_family dll_name name));
          os_api = is_os_api_dll dll_name \<or> cats \<noteq> [];
          runtime_api = \<not> os_api \<and> runtime_family dll_name name \<noteq> None;
          t = (if os_api then ''os_api'' else if runtime_api then ''runtime_api'' else ''internal_api'')
      in \<lparr>tier = t, family = fam,
          ac_relevance =
            (if t = ''os_api'' then (if malware_relevant_family fam then ''high'' else ''medium'')
             else if t = ''internal_api'' then ''medium'' else ''low''),
          ac_noise_reason = (if t = ''runtime_api'' then Some (''runtime_library:'' @ fam) else None),
          normalized_symbol = normalize_symbol symbol\<rparr>)"

section \<open>What the tables say\<close>

lemma match_api_args_registers: "map arg_register (match_api_args name) = [''rcx'', ''rdx'', ''r8'', ''r9'']"
  "map arg_index (match_api_args name) = [0, 1, 2, 3]"
  by (simp_all add: match_api_args_def args_named_def)

text \<open>
  An API of a known category or of a system library is never noise; only the tier of runtime libraries is.
\<close>

theorem noise_is_runtime_only:
  "ac_noise_reason (classify_api symbol) \<noteq> None \<longleftrightarrow>
     tier (classify_api symbol) = ''runtime_api'' \<and> import_categories symbol = [] \<and>
     ac_relevance (classify_api symbol) = ''low'' \<and>
     ac_noise_reason (classify_api symbol) = Some (''runtime_library:'' @ family (classify_api symbol))"
  by (simp add: classify_api_def Let_def)

text \<open>
  The names of arguments are chosen by a part of the name of the function: a file mapping, whose first argument is a
  handle, gets those of \<open>CreateFile\<close>. The C runtime behind \<open>api-ms-win-crt\<close> counts as a system library, since
  the test for those comes first and accepts \<open>api-ms-win\<close>.
\<close>

theorem api_tables_shadow_rows:
  "map arg_name (meta_args (metadata ''KERNEL32.dll!CreateFileMappingW'')) =
     [''lpFileName'', ''dwDesiredAccess'', ''dwShareMode'', ''lpSecurityAttributes''] \<and>
   map_option (\<lambda>p. hd (proto_args p)) (prototype ''KERNEL32.dll!CreateFileMappingW'') = Some ''HANDLE'' \<and>
   family (classify_api ''api-ms-win-crt-string-l1-1-0.dll!strlen'') = ''msvc_runtime'' \<and>
   tier (classify_api ''api-ms-win-crt-string-l1-1-0.dll!strlen'') = ''os_api''"
  by code_simp

end
