(* ===== verification/Api_Flows.thy ===== *)
theory Api_Flows
  imports Api_Classify String_Scan Value_Graph Call_Resolution
begin

text \<open>
  \<open>src/dataflow.rs\<close>: the values that reach the argument registers of API calls, and the rows of the call
  graph. Strings are byte strings, so the cut after 500 characters counts bytes. Addresses of the lookup
  sets are lists; \<^const>\<open>None\<close> is the panic of a range outside the list.
\<close>

section \<open>Rows\<close>

record ApiFlowRecord =
  af_flow_id :: string
  af_function :: u64
  af_callsite :: u64
  api :: string
  normalized_api :: string
  api_tier :: string
  api_family :: string
  semantic_relevance :: string
  noise_reason :: "string option"
  api_categories :: "string list"
  af_value :: string
  value_tags :: "string list"
  argument :: string
  argument_register :: "string option"
  argument_index :: "nat option"
  argument_name :: "string option"
  af_confidence :: string
  flow_mode :: string
  af_resolved_api :: "string option"
  af_wrapper_chain :: "u64 list"
  af_evidence :: "u64 list"

record CallGraphRow =
  cg_caller :: u64
  cg_callee :: "u64 option"
  cg_import :: "string option"
  cg_callsite :: u64
  cg_call_kind :: string
  cgr_confidence :: string
  cg_resolved_api :: "string option"
  cg_wrapper_chain :: "u64 list"

text \<open>The two counters and the flag this pass changes.\<close>

record FlowCounters =
  api_flows_proven :: nat
  api_flows_heuristic :: nat
  cap_heuristic_api_flows :: bool

text \<open>A string a register or slot of the stack points to.\<close>

record FlowValue =
  fv_value :: string
  fv_tags :: "string list"
  fv_evidence :: "u64 list"

section \<open>The values of registers\<close>

definition string_value :: "u64 option \<Rightarrow> string_table \<Rightarrow> u64 \<Rightarrow> FlowValue option" where
  "string_value target strs evidence_va =
     map_option (\<lambda>s. \<lparr>fv_value = str_text s, fv_tags = str_classifiers s, fv_evidence = [evidence_va]\<rparr>)
       (known_string strs target)"

type_synonym flow_regs = "(string, FlowValue) btree"
type_synonym flow_stack = "(int, FlowValue) btree"

definition first_reg_value :: "IrInstruction \<Rightarrow> flow_regs \<Rightarrow> FlowValue option" where
  "first_reg_value ins regs = (case read_regs ins of [] \<Rightarrow> None | r # _ \<Rightarrow> bt_get regs r)"

definition slot_value :: "IrInstruction \<Rightarrow> flow_stack \<Rightarrow> FlowValue option" where
  "slot_value ins stack = (if memory_read ins then Option.bind (stack_slot ins) (bt_get stack) else None)"

definition or_else :: "'a option \<Rightarrow> 'a option \<Rightarrow> 'a option" where
  "or_else a b = (case a of Some x \<Rightarrow> Some x | None \<Rightarrow> b)"

definition update_state ::
  "IrInstruction \<Rightarrow> string_table \<Rightarrow> flow_regs \<times> flow_stack \<Rightarrow> flow_regs \<times> flow_stack" where
  "update_state ins strs st =
     (case st of (regs, stack) \<Rightarrow>
        if ir_mnemonic ins = ''xor''
        then (case write_reg ins of
                Some w \<Rightarrow> (if w \<in> set (read_regs ins) then bt_remove w regs else regs, stack)
              | None \<Rightarrow> (regs, stack))
        else
          let stack = (case (if memory_write ins then stack_slot ins else None) of
                         Some slot \<Rightarrow> (case first_reg_value ins regs of
                                         Some v \<Rightarrow> bt_insert slot v stack | None \<Rightarrow> stack)
                       | None \<Rightarrow> stack)
          in case write_reg ins of
               None \<Rightarrow> (regs, stack)
             | Some w \<Rightarrow>
                 (case or_else (string_value (rip_target ins) strs (ir_address ins))
                         (or_else (string_value (immediate ins) strs (ir_address ins))
                           (or_else (slot_value ins stack) (first_reg_value ins regs))) of
                    Some v \<Rightarrow> (bt_insert w v regs, stack)
                  | None \<Rightarrow>
                      (if ir_mnemonic ins \<notin> set [''mov'', ''lea'', ''movzx'', ''movsxd''] then bt_remove w regs else regs,
                       stack)))"

text \<open>The rows of the value graph by function and location, in their order.\<close>

definition flow_index :: "ValueGraphRecord list \<Rightarrow> u64 \<Rightarrow> string \<Rightarrow> ValueGraphRecord list" where
  "flow_index vals fn loc = filter (\<lambda>r. vg_function r = fn \<and> vg_location r = loc) vals"

definition latest_indexed_value :: "ValueGraphRecord list \<Rightarrow> u64 \<Rightarrow> string \<Rightarrow> u64 \<Rightarrow> ValueGraphRecord option" where
  "latest_indexed_value vals fn loc before_or_at =
     (let rows = flow_index vals fn loc;
          idx = partition_count (\<lambda>r. source_instruction r \<le> before_or_at) rows
      in if idx = 0 then None else Some (rows ! (idx - 1)))"

section \<open>Call sites\<close>

type_synonym call_sites = "(u64, string \<times> ResolvedCallRecord option) btree"

definition symbol_entries :: "(XrefRecord \<Rightarrow> bool) \<Rightarrow> XrefRecord list \<Rightarrow> (u64, string) btree" where
  "symbol_entries p xs =
     fold (\<lambda>x m. case xref_symbol x of Some s \<Rightarrow> if p x then bt_insert (xref_from x) s m else m | None \<Rightarrow> m) xs []"

definition import_call :: "XrefRecord \<Rightarrow> bool" where
  "import_call x \<longleftrightarrow> xref_kind x = ''import'' \<and> (xref_role x = ''call'' \<or> xref_role x = ''operand'')"

definition jmp_addresses :: "IrInstruction list \<Rightarrow> u64 list" where
  "jmp_addresses ir = map ir_address (filter (\<lambda>ins. \<not> ir_is_call ins \<and> ir_mnemonic ins = ''jmp'') ir)"

definition thunk_to_import :: "IrInstruction list \<Rightarrow> XrefRecord list \<Rightarrow> (u64, string) btree" where
  "thunk_to_import ir xs =
     symbol_entries (\<lambda>x. xref_kind x = ''import'' \<and> xref_role x = ''operand'' \<and> xref_from x \<in> set (jmp_addresses ir)) xs"

definition mov_to_import :: "IrInstruction list \<Rightarrow> XrefRecord list \<Rightarrow> (u64, string) btree" where
  "mov_to_import ir xs =
     symbol_entries (\<lambda>x. xref_kind x = ''import'' \<and> xref_role x = ''operand'' \<and> xref_from x \<notin> set (jmp_addresses ir) \<and>
       (case bt_get (collect_by ir_address ir) (xref_from x) of
          Some ins \<Rightarrow> \<not> ir_is_call ins \<and> write_reg ins \<noteq> None | None \<Rightarrow> False)) xs"

definition call_by_site :: "IrInstruction list \<Rightarrow> XrefRecord list \<Rightarrow> ResolvedCallRecord list \<Rightarrow> call_sites" where
  "call_by_site ir xs resolved =
     (let sites = map (\<lambda>(a, s). (a, (s, None))) (symbol_entries import_call xs);
          thunks = thunk_to_import ir xs;
          sites = fold (\<lambda>x m. if xref_kind x = ''code'' \<and> xref_role x = ''call''
                              then (case bt_get thunks (xref_target x) of
                                      Some s \<Rightarrow> or_insert (xref_from x) (s, None) m | None \<Rightarrow> m)
                              else m) xs sites
      in fold (\<lambda>r. bt_insert (callsite r) (resolved_api r, Some r)) resolved sites)"

section \<open>Flows of a call\<close>

definition flow_row ::
  "u64 \<Rightarrow> u64 \<Rightarrow> string \<Rightarrow> ResolvedCallRecord option \<Rightarrow> string \<Rightarrow> string list \<Rightarrow> u64 list \<Rightarrow> ApiArg \<Rightarrow> nat \<Rightarrow> ApiFlowRecord" where
  "flow_row fn site name resolved v tags ev a index =
     (let c = classify_api name
      in \<lparr>af_flow_id = flow_id fn site index, af_function = fn, af_callsite = site, api = name,
          normalized_api = normalized_symbol c, api_tier = tier c, api_family = family c,
          semantic_relevance = ac_relevance c, noise_reason = ac_noise_reason c,
          api_categories = import_categories name, af_value = take 500 v, value_tags = tags,
          argument = arg_name a, argument_register = Some (arg_register a), argument_index = Some (arg_index a),
          argument_name = Some (arg_name a), af_confidence = ''high'', flow_mode = ''proven'',
          af_resolved_api = map_option resolved_api resolved,
          af_wrapper_chain = (case resolved of Some r \<Rightarrow> wrapper_chain r | None \<Rightarrow> []), af_evidence = ev @ [site]\<rparr>)"

definition argument_row ::
  "ValueGraphRecord list \<Rightarrow> flow_regs \<Rightarrow> u64 \<Rightarrow> u64 \<Rightarrow> string \<Rightarrow> ResolvedCallRecord option \<Rightarrow> ApiArg \<Rightarrow> nat \<Rightarrow>
   ApiFlowRecord option" where
  "argument_row vals regs fn site name resolved a index =
     (case latest_indexed_value vals fn (arg_register a) site of
        Some r \<Rightarrow>
          (let v = unwrap_or [] (vg_value r)
           in Some (flow_row fn site name resolved v (classify_string v) (vg_evidence r) a index))
      | None \<Rightarrow>
          map_option (\<lambda>v. flow_row fn site name resolved (fv_value v) (fv_tags v) (fv_evidence v) a index)
            (bt_get regs (arg_register a)))"

text \<open>The rows of the arguments, numbered from the length of the list so far.\<close>

fun argument_rows :: "(ApiArg \<Rightarrow> nat \<Rightarrow> ApiFlowRecord option) \<Rightarrow> nat \<Rightarrow> ApiArg list \<Rightarrow> ApiFlowRecord list" where
  "argument_rows f n [] = []"
| "argument_rows f n (a # as) =
     (case f a n of None \<Rightarrow> argument_rows f n as | Some r \<Rightarrow> r # argument_rows f (n + 1) as)"

definition heuristic_row ::
  "u64 \<Rightarrow> u64 \<Rightarrow> string \<Rightarrow> ResolvedCallRecord option \<Rightarrow> nat \<Rightarrow> nat \<times> string \<Rightarrow> ApiFlowRecord option" where
  "heuristic_row fn site name resolved start_index p =
     (case p of (idx, v) \<Rightarrow>
        let tags = classify_string v; c = classify_api name
        in if tags = [] then None
           else Some \<lparr>af_flow_id = flow_id fn site (start_index + idx), af_function = fn, af_callsite = site, api = name,
             normalized_api = normalized_symbol c, api_tier = tier c, api_family = family c,
             semantic_relevance = ac_relevance c, noise_reason = ac_noise_reason c,
             api_categories = import_categories name, af_value = take 500 v, value_tags = tags,
             argument = ''unknown_static_candidate'', argument_register = None, argument_index = None,
             argument_name = None, af_confidence = ''low'', flow_mode = ''heuristic'',
             af_resolved_api = map_option resolved_api resolved,
             af_wrapper_chain = (case resolved of Some r \<Rightarrow> wrapper_chain r | None \<Rightarrow> []), af_evidence = [fn, site]\<rparr>)"

definition heuristic_flows ::
  "FunctionRecord \<Rightarrow> u64 \<Rightarrow> string \<Rightarrow> nat \<Rightarrow> nat \<Rightarrow> ResolvedCallRecord option \<Rightarrow> ApiFlowRecord list \<times> bool" where
  "heuristic_flows f site name strings_per_call start_index resolved =
     (if import_categories name = [] then ([], False)
      else (List.map_filter (heuristic_row (fn_start f) site name resolved start_index)
              (List.enumerate 0 (take strings_per_call (fn_strings f))),
            length (fn_strings f) > strings_per_call))"

section \<open>A function\<close>

record FlowState =
  fs_regs :: flow_regs
  fs_stack :: flow_stack
  reg_to_import :: "(string, string) btree"
  fs_rows :: "ApiFlowRecord list"
  fs_counters :: FlowCounters

definition call_step ::
  "FunctionRecord \<Rightarrow> ValueGraphRecord list \<Rightarrow> nat \<Rightarrow> u64 \<Rightarrow> string \<times> ResolvedCallRecord option \<Rightarrow> FlowState \<Rightarrow> FlowState" where
  "call_step f vals strings_per_call site target st =
     (case target of (name, resolved) \<Rightarrow>
        let n = length (fs_rows st);
            proven = argument_rows (argument_row vals (fs_regs st) (fn_start f) site name resolved) n
              (meta_args (metadata name));
            c = fs_counters st
        in if proven \<noteq> []
           then st\<lparr>fs_rows := fs_rows st @ proven,
                   fs_counters := c\<lparr>api_flows_proven := api_flows_proven c + length proven\<rparr>\<rparr>
           else
             let (guessed, cap) = heuristic_flows f site name strings_per_call n resolved
             in st\<lparr>fs_rows := fs_rows st @ guessed,
                   fs_counters := c\<lparr>api_flows_heuristic := api_flows_heuristic c + length guessed,
                                    cap_heuristic_api_flows := (cap_heuristic_api_flows c \<or> cap)\<rparr>\<rparr>)"

definition track_import :: "(u64, string) btree \<Rightarrow> IrInstruction \<Rightarrow> (string, string) btree \<Rightarrow> (string, string) btree" where
  "track_import movs ins m =
     (case write_reg ins of
        None \<Rightarrow> m
      | Some reg \<Rightarrow> (case bt_get movs (ir_address ins) of Some s \<Rightarrow> bt_insert reg s m | None \<Rightarrow> bt_remove reg m))"

definition called_api :: "call_sites \<Rightarrow> IrInstruction \<Rightarrow> (string, string) btree \<Rightarrow> (string \<times> ResolvedCallRecord option) option" where
  "called_api sites ins m =
     or_else (bt_get sites (ir_address ins))
       (case read_regs ins of [] \<Rightarrow> None | r # _ \<Rightarrow> map_option (\<lambda>s. (s, None)) (bt_get m r))"

definition flow_step ::
  "FunctionRecord \<Rightarrow> string_table \<Rightarrow> ValueGraphRecord list \<Rightarrow> call_sites \<Rightarrow> (u64, string) btree \<Rightarrow> nat \<Rightarrow>
   IrInstruction \<Rightarrow> FlowState \<Rightarrow> FlowState" where
  "flow_step f strs vals sites movs strings_per_call ins st =
     (let (regs, stack) = update_state ins strs (fs_regs st, fs_stack st);
          st = st\<lparr>fs_regs := regs, fs_stack := stack, reg_to_import := track_import movs ins (reg_to_import st)\<rparr>
      in if \<not> ir_is_call ins then st
         else case called_api sites ins (reg_to_import st) of
                None \<Rightarrow> st
              | Some target \<Rightarrow> call_step f vals strings_per_call (ir_address ins) target st)"

definition flow_function ::
  "FunctionRecord \<Rightarrow> string_table \<Rightarrow> ValueGraphRecord list \<Rightarrow> call_sites \<Rightarrow> (u64, string) btree \<Rightarrow> nat \<Rightarrow>
   IrInstruction list \<Rightarrow> ApiFlowRecord list \<times> FlowCounters \<Rightarrow> ApiFlowRecord list \<times> FlowCounters" where
  "flow_function f strs vals sites movs strings_per_call ir_slice acc =
     (let st = fold (flow_step f strs vals sites movs strings_per_call) ir_slice
                 \<lparr>fs_regs = [], fs_stack = [], reg_to_import = [], fs_rows = fst acc, fs_counters = snd acc\<rparr>
      in (fs_rows st, fs_counters st))"

fun flow_slices ::
  "FunctionRecord list \<Rightarrow> IrInstruction list \<Rightarrow>
   (FunctionRecord \<Rightarrow> IrInstruction list \<Rightarrow> 'acc \<Rightarrow> 'acc) \<Rightarrow> FunctionSemanticSlice list \<Rightarrow> 'acc \<Rightarrow> 'acc option" where
  "flow_slices functions ir step [] acc = Some acc"
| "flow_slices functions ir step (s # ss) acc =
     (if function_index s \<ge> length functions then flow_slices functions ir step ss acc
      else case slice_range ir (ir_range s) of
             None \<Rightarrow> None
           | Some ir_slice \<Rightarrow> flow_slices functions ir step ss (step (functions ! function_index s) ir_slice acc))"

definition build_api_flows ::
  "FunctionRecord list \<Rightarrow> FunctionSemanticSlice list \<Rightarrow> IrInstruction list \<Rightarrow> XrefRecord list \<Rightarrow> StringRecord list \<Rightarrow>
   ValueGraphRecord list \<Rightarrow> ResolvedCallRecord list \<Rightarrow> SemanticBudget \<Rightarrow> FlowCounters \<Rightarrow>
   (ApiFlowRecord list \<times> FlowCounters) option" where
  "build_api_flows functions slices ir xs strings vals resolved_calls budget counters =
     flow_slices functions ir
       (\<lambda>f. flow_function f (collect_by str_va strings) vals (call_by_site ir xs resolved_calls) (mov_to_import ir xs)
              (heuristic_strings_per_call budget))
       slices ([], counters)"

section \<open>The call graph\<close>

definition call_row :: "(u64, ResolvedCallRecord) btree \<Rightarrow> u64 \<Rightarrow> XrefRecord \<Rightarrow> CallGraphRow option" where
  "call_row by_site caller x =
     (let resolved = bt_get by_site (xref_from x);
          row = \<lparr>cg_caller = caller, cg_callee = None, cg_import = None, cg_callsite = xref_from x, cg_call_kind = [],
                 cgr_confidence = ''high'', cg_resolved_api = map_option resolved_api resolved,
                 cg_wrapper_chain = (case resolved of Some r \<Rightarrow> wrapper_chain r | None \<Rightarrow> [])\<rparr>
      in if xref_role x \<noteq> ''call'' \<and> xref_role x \<noteq> ''branch'' then None
         else if xref_kind x = ''import'' then Some (row\<lparr>cg_import := xref_symbol x, cg_call_kind := ''import''\<rparr>)
         else if xref_kind x = ''code''
         then Some (row\<lparr>cg_callee := Some (xref_target x),
                        cg_call_kind := (if xref_role x = ''branch'' then ''tail_or_jump'' else ''direct''),
                        cgr_confidence := (if xref_role x = ''branch'' then ''medium'' else ''high'')\<rparr>)
         else None)"

fun callgraph_slices ::
  "FunctionRecord list \<Rightarrow> XrefRecord list \<Rightarrow> (u64, ResolvedCallRecord) btree \<Rightarrow> FunctionSemanticSlice list \<Rightarrow>
   CallGraphRow list option" where
  "callgraph_slices functions xs by_site [] = Some []"
| "callgraph_slices functions xs by_site (s # ss) =
     (if function_index s \<ge> length functions then callgraph_slices functions xs by_site ss
      else case slice_range xs (xref_range s) of
             None \<Rightarrow> None
           | Some rows \<Rightarrow>
               map_option ((@) (List.map_filter (call_row by_site (fn_start (functions ! function_index s))) rows))
                 (callgraph_slices functions xs by_site ss))"

definition build_callgraph ::
  "FunctionRecord list \<Rightarrow> FunctionSemanticSlice list \<Rightarrow> XrefRecord list \<Rightarrow> ResolvedCallRecord list \<Rightarrow>
   CallGraphRow list option" where
  "build_callgraph functions slices xs resolved_calls =
     callgraph_slices functions xs (collect_by callsite resolved_calls) slices"

end
