(* ===== verification/Api_Flow_Props.thy ===== *)
theory Api_Flow_Props
  imports Api_Flows Value_Graph_Props
begin

text \<open>
  The counters agree with the rows, proven rows name a register and cite their call. A value that was
  overwritten by an unknown one is still reported as proven.
\<close>

section \<open>Counters and rows\<close>

definition proven_rows :: "ApiFlowRecord list \<Rightarrow> nat" where
  "proven_rows rows = length (filter (\<lambda>r. flow_mode r = ''proven'') rows)"

definition heuristic_rows :: "ApiFlowRecord list \<Rightarrow> nat" where
  "heuristic_rows rows = length (filter (\<lambda>r. flow_mode r = ''heuristic'') rows)"

definition proven_ok :: "ApiFlowRecord \<Rightarrow> bool" where
  "proven_ok r \<longleftrightarrow>
     flow_mode r = ''proven'' \<and> af_confidence r = ''high'' \<and> af_callsite r \<in> set (af_evidence r) \<and>
     (\<exists>reg\<in>set [''rcx'', ''rdx'', ''r8'', ''r9'']. argument_register r = Some reg)"

definition heuristic_ok :: "ApiFlowRecord \<Rightarrow> bool" where
  "heuristic_ok r \<longleftrightarrow>
     flow_mode r = ''heuristic'' \<and> af_confidence r = ''low'' \<and> argument_register r = None \<and> value_tags r \<noteq> [] \<and>
     api_categories r \<noteq> []"

definition flow_ok :: "IrInstruction list \<Rightarrow> ApiFlowRecord \<Rightarrow> bool" where
  "flow_ok ir r \<longleftrightarrow>
     (proven_ok r \<or> heuristic_ok r) \<and> length (af_value r) \<le> 500 \<and>
     (\<exists>ins\<in>set ir. ir_is_call ins \<and> af_callsite r = ir_address ins)"

lemma flow_row_simps [simp]:
  "flow_mode (flow_row fn site name res v tags ev a i) = ''proven''"
  "af_confidence (flow_row fn site name res v tags ev a i) = ''high''"
  "af_callsite (flow_row fn site name res v tags ev a i) = site"
  "af_value (flow_row fn site name res v tags ev a i) = take 500 v"
  "af_evidence (flow_row fn site name res v tags ev a i) = ev @ [site]"
  "argument_register (flow_row fn site name res v tags ev a i) = Some (arg_register a)"
  by (simp_all add: flow_row_def Let_def)

lemma argument_row_ok:
  assumes "argument_row vals regs fn site name res a i = Some r" "arg_register a \<in> set [''rcx'', ''rdx'', ''r8'', ''r9'']"
  shows "proven_ok r \<and> length (af_value r) \<le> 500 \<and> af_callsite r = site"
  using assms by (auto simp: argument_row_def proven_ok_def Let_def split: option.splits)

lemma argument_rows_all:
  "(\<And>a i r. a \<in> set args \<Longrightarrow> f a i = Some r \<Longrightarrow> P r) \<Longrightarrow> list_all P (argument_rows f n args)"
  by (induction f n args rule: argument_rows.induct) (auto split: option.split)

lemma heuristic_flows_ok:
  "list_all (\<lambda>r. heuristic_ok r \<and> length (af_value r) \<le> 500 \<and> af_callsite r = site)
     (fst (heuristic_flows f site name k n res))"
  by (auto simp: heuristic_flows_def heuristic_row_def heuristic_ok_def list_all_iff List.map_filter_def Let_def split: if_splits)

definition flow_inv :: "IrInstruction list \<Rightarrow> FlowCounters \<Rightarrow> ApiFlowRecord list \<Rightarrow> FlowCounters \<Rightarrow> bool" where
  "flow_inv ir c0 rows c \<longleftrightarrow>
     list_all (flow_ok ir) rows \<and> api_flows_proven c = api_flows_proven c0 + proven_rows rows \<and>
     api_flows_heuristic c = api_flows_heuristic c0 + heuristic_rows rows"

lemma counts_append [simp]:
  "proven_rows (xs @ ys) = proven_rows xs + proven_rows ys" "heuristic_rows (xs @ ys) = heuristic_rows xs + heuristic_rows ys"
  by (simp_all add: proven_rows_def heuristic_rows_def)

lemma counts_all:
  "list_all proven_ok rows \<Longrightarrow> proven_rows rows = length rows \<and> heuristic_rows rows = 0"
  "list_all heuristic_ok rows \<Longrightarrow> heuristic_rows rows = length rows \<and> proven_rows rows = 0"
  by (induction rows) (auto simp: proven_rows_def heuristic_rows_def proven_ok_def heuristic_ok_def)

lemma call_step_inv:
  assumes "flow_inv ir c0 (fs_rows st) (fs_counters st)" "ins \<in> set ir" "ir_is_call ins"
  shows "flow_inv ir c0 (fs_rows (call_step f vals k (ir_address ins) target st))
    (fs_counters (call_step f vals k (ir_address ins) target st))"
proof -
  obtain name res where t: "target = (name, res)" by fastforce
  let ?n = "length (fs_rows st)"
  let ?p = "argument_rows (argument_row vals (fs_regs st) (fn_start f) (ir_address ins) name res) ?n (meta_args (metadata name))"
  let ?h = "heuristic_flows f (ir_address ins) name k ?n res"
  have "arg_register a \<in> set [''rcx'', ''rdx'', ''r8'', ''r9'']" if "a \<in> set (meta_args (metadata name))" for a
    using match_api_args_registers(1) [of "api_name name"] that imageI [of a _ arg_register]
    by (metis ApiMetadata.select_convs(2) list.set_map metadata_def)
  then have p: "list_all (\<lambda>r. proven_ok r \<and> length (af_value r) \<le> 500 \<and> af_callsite r = ir_address ins) ?p"
    by (intro argument_rows_all argument_row_ok)
  have ok: "list_all (flow_ok ir) ?p" "list_all (flow_ok ir) (fst ?h)"
    using p heuristic_flows_ok [of "ir_address ins" f name k ?n res] assms(2,3)
    by (auto simp: flow_ok_def list_all_iff)
  have "list_all proven_ok ?p" "list_all heuristic_ok (fst ?h)"
    using p heuristic_flows_ok [of "ir_address ins" f name k ?n res] by (auto simp: list_all_iff)
  note counts = counts_all(1) [OF this(1)] counts_all(2) [OF this(2)]
  show ?thesis
  proof (cases "?p = []")
    case True
    obtain guessed cap where h: "?h = (guessed, cap)" by fastforce
    show ?thesis using True assms(1) ok(2) counts(2) unfolding h by (simp add: call_step_def t flow_inv_def Let_def h)
  next
    case False
    then show ?thesis using assms(1) ok(1) counts(1) by (simp add: call_step_def t flow_inv_def Let_def)
  qed
qed

lemma flow_step_inv:
  assumes "flow_inv ir c0 (fs_rows st) (fs_counters st)" "ins \<in> set ir"
  shows "flow_inv ir c0 (fs_rows (flow_step f strs vals sites movs k ins st)) (fs_counters (flow_step f strs vals sites movs k ins st))"
  using assms call_step_inv [of ir c0 _ ins]
  by (auto simp: flow_step_def Let_def split: prod.split option.split)

lemma flow_function_inv:
  assumes "flow_inv ir c0 (fst acc) (snd acc)" "set ir_slice \<subseteq> set ir"
  shows "flow_inv ir c0 (fst (flow_function f strs vals sites movs k ir_slice acc))
    (snd (flow_function f strs vals sites movs k ir_slice acc))"
proof -
  let ?step = "flow_step f strs vals sites movs k"
  have "flow_inv ir c0 (fs_rows st) (fs_counters st) \<Longrightarrow>
      flow_inv ir c0 (fs_rows (fold ?step ir_slice st)) (fs_counters (fold ?step ir_slice st))" for st
    using assms(2) by (induction ir_slice arbitrary: st) (simp_all add: flow_step_inv)
  then show ?thesis using assms(1) by (simp add: flow_function_def Let_def)
qed

lemma slice_range_subset: "slice_range xs r = Some ys \<Longrightarrow> set ys \<subseteq> set xs"
  by (auto simp: slice_range_def split: prod.splits if_splits dest: in_set_takeD in_set_dropD)

lemma flow_slices_inv:
  "(\<And>f ir_slice acc. I acc \<Longrightarrow> set ir_slice \<subseteq> set ir \<Longrightarrow> I (step f ir_slice acc)) \<Longrightarrow>
   flow_slices functions ir step ss acc = Some out \<Longrightarrow> I acc \<Longrightarrow> I out"
proof (induction ss arbitrary: acc)
  case (Cons s ss)
  show ?case
  proof (cases "function_index s \<ge> length functions")
    case False
    then obtain ir_slice where sl: "slice_range ir (ir_range s) = Some ir_slice"
      "flow_slices functions ir step ss (step (functions ! function_index s) ir_slice acc) = Some out"
      using Cons.prems(2) by (auto split: option.splits)
    have "set ir_slice \<subseteq> set ir" using slice_range_subset [OF sl(1)] .
    then show ?thesis using Cons.IH [OF Cons.prems(1) sl(2)] Cons.prems(1,3) by blast
  qed (use Cons in simp)
qed simp

text \<open>
  C25: the counters grow by the numbers of proven and heuristic rows, and every row is one of the two: a proven
  one names an argument register and cites its call, a heuristic one has low confidence, a tag and a categorised API.
\<close>

theorem api_flow_counters_exact:
  assumes "build_api_flows functions slices ir xs strings vals resolved_calls budget c0 = Some (rows, c)"
  shows "list_all (flow_ok ir) rows \<and> api_flows_proven c = api_flows_proven c0 + proven_rows rows \<and>
     api_flows_heuristic c = api_flows_heuristic c0 + heuristic_rows rows"
proof -
  have "flow_inv ir c0 (fst (rows, c)) (snd (rows, c))"
    using assms unfolding build_api_flows_def
    by (rule flow_slices_inv [rotated]) (simp_all add: flow_function_inv, simp add: flow_inv_def proven_rows_def heuristic_rows_def)
  then show ?thesis by (simp add: flow_inv_def)
qed

section \<open>Values that are gone\<close>

text \<open>\<open>mov rcx, 0x40; add rcx, rdx; call [DeleteFileW]\<close> with a string at \<open>0x40\<close>\<close>

definition stale_rows :: "IrInstruction list" where
  "stale_rows =
     [from_iced (iced 0 [KRegister, KImmediate] [''rcx'', ''none''] 0x40 ''none'' 0) ''mov'' False False,
      from_iced (iced 4 [KRegister, KRegister] [''rcx'', ''rdx''] 0 ''none'' 0) ''add'' False False,
      from_iced (iced 8 [KOther] [''none''] 0 ''none'' 0) ''call'' True False]"

definition stale_string :: StringRecord where
  "stale_string = \<lparr>str_va = 0x40, str_rva = 0x40, str_file_offset = 0x40, str_encoding = ''ASCII'', str_size = 5,
     str_text = ''a.tmp'', str_classifiers = [], str_section = None\<rparr>"

definition delete_call :: XrefRecord where
  "delete_call = \<lparr>xref_kind = ''import'', xref_from = 8, xref_target = 0, xref_role = ''call'',
     xref_symbol = Some ''KERNEL32.dll!DeleteFileW'', xref_text = None, xref_encoding = None, xref_section = None\<rparr>"

definition three_slice :: FunctionSemanticSlice where
  "three_slice = fn0_slice\<lparr>ir_range := (0, 3)\<rparr>"

definition no_counts :: FlowCounters where
  "no_counts = \<lparr>api_flows_proven = 0, api_flows_heuristic = 0, cap_heuristic_api_flows = False\<rparr>"

definition stale_flows :: "(ApiFlowRecord list \<times> FlowCounters) option" where
  "stale_flows =
     Option.bind (build_value_graph [fn0] [three_slice] stale_rows [stale_string])
       (\<lambda>vals. build_api_flows [fn0] [three_slice] stale_rows [delete_call] [stale_string] vals [] (budget_from_name ''normal'') no_counts)"











text \<open>The whole run over the three rows: the value graph, then the flows.\<close>

lemma stale_flows_run:
  "map_option (\<lambda>p. map (\<lambda>r. (af_callsite r, argument_register r, af_value r, af_confidence r, flow_mode r)) (fst p)) stale_flows =
   Some [(8, Some ''rcx'', ''a.tmp'', ''high'', ''proven'')]"
  by code_simp

lemma api_flow_counters_exact_witness:
  "\<exists>rows c. stale_flows = Some (rows, c) \<and> length rows = 1 \<and> list_all (flow_ok stale_rows) rows \<and>
     api_flows_proven c = proven_rows rows"
proof -
  have "map_option (\<lambda>p. length (fst p)) stale_flows = Some 1" by code_simp
  then obtain rows c vals where r: "stale_flows = Some (rows, c)" "length rows = 1"
    "build_api_flows [fn0] [three_slice] stale_rows [delete_call] [stale_string] vals [] (budget_from_name ''normal'') no_counts = Some (rows, c)"
    by (auto simp: stale_flows_def bind_eq_Some_conv)
  from api_flow_counters_exact [OF r(3)] r(1,2) show ?thesis by (auto simp: no_counts_def)
qed

end
