(* ===== verification/Type_Hints.thy ===== *)
theory Type_Hints
  imports Api_Flows
begin

text \<open>
  \<open>src/type_inference.rs\<close>: types of registers at API calls, from the prototypes and from the names of arguments.
\<close>

record TypeHintRecord =
  type_id :: string
  th_function :: u64
  th_site_va :: u64
  th_location :: string
  th_type_tag :: string
  th_source :: string
  th_confidence :: string
  th_evidence :: "u64 list"

definition winapi_arg_type :: "string \<Rightarrow> string \<Rightarrow> nat option \<Rightarrow> string option" where
  "winapi_arg_type name arg index =
     (case (case index of
              None \<Rightarrow> None
            | Some i \<Rightarrow> (case prototype name of
                           Some p \<Rightarrow> if i < length (proto_args p) then Some (proto_args p ! i) else None
                         | None \<Rightarrow> None)) of
        Some t \<Rightarrow> Some t
      | None \<Rightarrow>
          let lower_api = to_ascii_lowercase name; lower_arg = to_ascii_lowercase arg
          in if contains ''createfilew'' lower_api \<and> index = Some 0 then Some ''LPCWSTR''
             else if contains ''createfilea'' lower_api \<and> index = Some 0 then Some ''LPCSTR''
             else if (contains ''filename'' lower_arg \<or> contains ''path'' lower_arg) \<and> ends_with ''w'' lower_api
             then Some ''LPCWSTR''
             else if (contains ''filename'' lower_arg \<or> contains ''path'' lower_arg) \<and> ends_with ''a'' lower_api
             then Some ''LPCSTR''
             else if contains ''handle'' lower_arg \<or> lower_arg = ''file'' \<or>
                     contains ''readfile'' lower_api \<and> index = Some 0 \<or> contains ''writefile'' lower_api \<and> index = Some 0
             then Some ''HANDLE''
             else if contains ''buffer'' lower_arg \<or> contains ''base'' lower_arg \<or> contains ''address'' lower_arg \<or>
                     contains ''virtualalloc'' lower_api
             then Some ''LPVOID''
             else if contains ''size'' lower_arg \<or> contains ''bytes'' lower_arg then Some ''SIZE_T''
             else if contains ''flags'' lower_arg \<or> contains ''protect'' lower_arg \<or> contains ''access'' lower_arg
             then Some ''DWORD''
             else None)"

definition argument_hint :: "ApiFlowRecord \<Rightarrow> string \<Rightarrow> nat \<Rightarrow> TypeHintRecord option" where
  "argument_hint flow loc n =
     map_option (\<lambda>t.
         \<lparr>type_id = ''type:'' @ hex016 (af_function flow) @ '':'' @ hex016 (af_callsite flow) @ '':'' @ loc @ '':'' @ show_nat n,
          th_function = af_function flow, th_site_va = af_callsite flow, th_location = loc, th_type_tag = t,
          th_source = ''winapi_prototype'', th_confidence = ''high'', th_evidence = af_evidence flow\<rparr>)
       (winapi_arg_type (api flow) (argument flow) (argument_index flow))"

definition return_hint :: "ApiFlowRecord \<Rightarrow> nat \<Rightarrow> TypeHintRecord option" where
  "return_hint flow n =
     map_option (\<lambda>p.
         \<lparr>type_id = ''type:'' @ hex016 (af_function flow) @ '':'' @ hex016 (af_callsite flow) @ '':rax:'' @ show_nat n,
          th_function = af_function flow, th_site_va = af_callsite flow, th_location = ''rax'', th_type_tag = return_type p,
          th_source = ''winapi_return_prototype'', th_confidence = ''medium'', th_evidence = af_evidence flow\<rparr>)
       (prototype (api flow))"

definition opt_list :: "'a option \<Rightarrow> 'a list" where
  "opt_list r = (case r of Some x \<Rightarrow> [x] | None \<Rightarrow> [])"

section \<open>All flows\<close>

fun flow_hints :: "ApiFlowRecord list \<Rightarrow> TypeHintRecord list \<Rightarrow> TypeHintRecord list" where
  "flow_hints [] rows = rows"
| "flow_hints (flow # flows) rows =
     (case argument_register flow of
        None \<Rightarrow> flow_hints flows rows
      | Some loc \<Rightarrow>
          let rows = rows @ opt_list (argument_hint flow loc (length rows));
              rows = rows @ opt_list (return_hint flow (length rows))
          in flow_hints flows rows)"

definition test_hint :: "u64 \<Rightarrow> IrInstruction \<Rightarrow> TypeHintRecord option" where
  "test_hint default_function ins =
     (if ir_mnemonic ins \<in> set [''test'', ''cmp''] \<and> list_ex (\<lambda>r. r = ''rax'' \<or> r = ''eax'') (read_regs ins)
      then Some \<lparr>type_id = ''type:'' @ hex016 default_function @ '':'' @ hex016 (ir_address ins) @ '':HRESULT'',
             th_function = default_function, th_site_va = ir_address ins, th_location = ''rax'',
             th_type_tag = ''HRESULT'', th_source = ''hresult_sign_or_zero_test'', th_confidence = ''low'',
             th_evidence = [ir_address ins]\<rparr>
      else None)"

definition hint_key :: "TypeHintRecord \<Rightarrow> u64 \<times> u64 \<times> string \<times> string" where
  "hint_key r = (th_function r, th_site_va r, th_location r, th_type_tag r)"

text \<open>The comparison by four keys is four stable sorts, the last key first.\<close>

definition sort_hints :: "TypeHintRecord list \<Rightarrow> TypeHintRecord list" where
  "sort_hints rows = sort_key th_function (sort_key th_site_va (sort_key th_location (sort_key th_type_tag rows)))"

fun dedup_hints :: "TypeHintRecord list \<Rightarrow> TypeHintRecord list" where
  "dedup_hints (x # y # rows) = (if hint_key y = hint_key x then dedup_hints (x # rows) else x # dedup_hints (y # rows))"
| "dedup_hints rows = rows"

definition infer_type_hints :: "ApiFlowRecord list \<Rightarrow> IrInstruction list \<Rightarrow> TypeHintRecord list" where
  "infer_type_hints flows ir =
     (let default_function = (case flows of f # _ \<Rightarrow> af_function f | [] \<Rightarrow> 0)
      in dedup_hints (sort_hints (flow_hints flows [] @ List.map_filter (test_hint default_function) ir)))"

section \<open>Selected functions\<close>

definition hint_cap :: "string \<Rightarrow> nat" where
  "hint_cap bname = (if bname = ''max'' then 128 else if bname = ''high'' then 96 else 64)"

definition count_of :: "(u64, nat) btree \<Rightarrow> u64 \<Rightarrow> nat" where
  "count_of m f = unwrap_or 0 (bt_get m f)"

fun target_hints ::
  "u64 set \<Rightarrow> nat \<Rightarrow> ApiFlowRecord list \<Rightarrow> (u64, nat) btree \<Rightarrow> TypeHintRecord list \<Rightarrow> TypeHintRecord list" where
  "target_hints selected cap [] emitted rows = rows"
| "target_hints selected cap (flow # flows) emitted rows =
     (if af_function flow \<notin> selected then target_hints selected cap flows emitted rows
      else
        let count = count_of emitted (af_function flow);
            emitted = bt_insert (af_function flow) count emitted
        in if count \<ge> cap then target_hints selected cap flows emitted rows
         else case argument_register flow of
                None \<Rightarrow> target_hints selected cap flows emitted rows
              | Some loc \<Rightarrow>
                  let arg = opt_list (argument_hint flow loc (length rows));
                      count = count + length arg;
                      ret = (if count < cap then opt_list (return_hint flow (length rows + length arg)) else [])
                  in target_hints selected cap flows (bt_insert (af_function flow) (count + length ret) emitted)
                       (rows @ arg @ ret))"

definition infer_type_hints_for_targets ::
  "ApiFlowRecord list \<Rightarrow> SecondPassTargetRecord list \<Rightarrow> string \<Rightarrow> TypeHintRecord list" where
  "infer_type_hints_for_targets flows targets bname =
     (let selected = target_function ` set targets
      in if selected = {} then [] else target_hints selected (hint_cap bname) flows [] [])"

section \<open>The cap\<close>

definition hints_of :: "u64 \<Rightarrow> TypeHintRecord list \<Rightarrow> nat" where
  "hints_of f rows = length (filter (\<lambda>r. th_function r = f) rows)"

definition hints_inv :: "u64 set \<Rightarrow> nat \<Rightarrow> (u64, nat) btree \<Rightarrow> TypeHintRecord list \<Rightarrow> bool" where
  "hints_inv selected cap emitted rows \<longleftrightarrow>
     bt_ok emitted \<and> (\<forall>f. count_of emitted f = hints_of f rows \<and> hints_of f rows \<le> cap) \<and>
     list_all (\<lambda>r. th_function r \<in> selected) rows"

lemma count_of_insert: "bt_ok m \<Longrightarrow> count_of (bt_insert f n m) g = (if g = f then n else count_of m g)"
  by (simp add: count_of_def bt_get_insert unwrap_or_def)

lemma argument_hint_function: "r \<in> set (opt_list (argument_hint flow loc n)) \<Longrightarrow> th_function r = af_function flow"
  by (auto simp: opt_list_def argument_hint_def split: option.splits)

lemma return_hint_function: "r \<in> set (opt_list (return_hint flow n)) \<Longrightarrow> th_function r = af_function flow"
  by (auto simp: opt_list_def return_hint_def split: option.splits)

lemma length_opt_list: "length (opt_list r) \<le> 1"
  by (simp add: opt_list_def split: option.split)

lemma hints_of_append:
  "(\<And>r. r \<in> set new \<Longrightarrow> th_function r = g) \<Longrightarrow>
   hints_of f (rows @ new) = hints_of f rows + (if f = g then length new else 0)"
  by (induction new) (auto simp: hints_of_def)

lemma hints_inv_append:
  assumes "hints_inv selected cap emitted rows" "\<And>r. r \<in> set new \<Longrightarrow> th_function r = g" "g \<in> selected"
    and "count_of emitted g + length new \<le> cap"
  shows "hints_inv selected cap (bt_insert g (count_of emitted g + length new) emitted) (rows @ new)"
  using assms hints_of_append [of new g _ rows] by (auto simp: hints_inv_def count_of_insert list_all_iff)

lemma target_hints_inv:
  "hints_inv selected cap emitted rows \<Longrightarrow>
   \<exists>emitted'. hints_inv selected cap emitted' (target_hints selected cap flows emitted rows)"
proof (induction flows arbitrary: emitted rows)
  case (Cons flow flows)
  let ?f = "af_function flow" and ?count = "count_of emitted (af_function flow)"
  have ok: "bt_ok emitted" using Cons.prems by (simp add: hints_inv_def)
  have same: "hints_inv selected cap (bt_insert ?f ?count emitted) rows"
    using Cons.prems by (simp add: hints_inv_def count_of_insert)
  show ?case
  proof (cases "?f \<notin> selected \<or> ?count \<ge> cap \<or> argument_register flow = None")
    case True
    then show ?thesis using Cons.IH [OF same] Cons.IH [OF Cons.prems] by (auto simp: Let_def)
  next
    case False
    then obtain loc where loc: "argument_register flow = Some loc" "?f \<in> selected" "?count < cap" by auto
    let ?arg = "opt_list (argument_hint flow loc (length rows))"
    let ?ret = "if ?count + length ?arg < cap then opt_list (return_hint flow (length rows + length ?arg)) else []"
    have fn: "th_function r = ?f" if "r \<in> set (?arg @ ?ret)" for r
      using that argument_hint_function [of r] return_hint_function [of r] by (auto split: if_splits)
    have len: "?count + length (?arg @ ?ret) \<le> cap"
      using loc(3) length_opt_list [of "argument_hint flow loc (length rows)"]
        length_opt_list [of "return_hint flow (length rows + length ?arg)"] by auto
    let ?em = "bt_insert ?f ?count emitted" and ?new = "?arg @ ?ret"
    have c: "count_of ?em ?f = ?count" by (simp add: count_of_insert ok)
    have "hints_inv selected cap (bt_insert ?f (count_of ?em ?f + length ?new) ?em) (rows @ ?new)"
      by (rule hints_inv_append [OF same fn loc(2)]) (simp_all only: c len)
    then have "hints_inv selected cap (bt_insert ?f (?count + length ?arg + length ?ret) ?em) (rows @ ?arg @ ?ret)"
      unfolding c length_append by (simp only: add.assoc append_assoc)
    from Cons.IH [OF this] show ?thesis using loc by (simp add: Let_def)
  qed
qed auto

text \<open>
  C32: the hints are about selected functions only, and no function gets more of them than the budget allows.
\<close>

theorem type_hints_capped:
  "hints_of f (infer_type_hints_for_targets flows targets bname) \<le> hint_cap bname \<and>
   list_all (\<lambda>r. th_function r \<in> target_function ` set targets) (infer_type_hints_for_targets flows targets bname)"
proof (cases "targets = []")
  case False
  have "hints_inv (target_function ` set targets) (hint_cap bname) [] []"
    by (simp add: hints_inv_def count_of_def unwrap_or_def hints_of_def)
  from target_hints_inv [OF this, of flows] show ?thesis
    using False by (auto simp: infer_type_hints_for_targets_def hints_inv_def)
qed (simp add: infer_type_hints_for_targets_def hints_of_def)

end
