(* ===== verification/Spec2Isabelle.thy ===== *)
theory Spec2Isabelle
  imports Axe_Prelude Expr_Dag Expr_Typing Expr_Semantics Slicer Shadow_State X86_Operands
    Shadow_Emulator Shadow_Typing Pe_Records Winapi Native_Emulator Native_Props Branch_Lifter
    Symbolic_Solver Smt_Backend Smt2_Emit Pure_Rust Ladder Smt2_Backend Backlog Cfg_Builder
    Coverage_Map Mutators File_Store Fuzz_Corpus Fuzz_Executor Model_Validator Corpus_Bridge Crash_Db
    Fuzz_Scheduler Fuzz_Session Fuzz_Reachability
    Btree_Map Ir_Rows Semantic_Index Vsa_Values Vsa_Sound Vsa_States Vsa_Analysis Vsa_Rules Vsa_Props
    Byte_Reader Pe_Image Pe_Loader Pe_Props Disasm_Ranges Facts Eh_Pe Eh_Props Jump_Tables Jump_Props
    Write_Log Memory_Map Unpack_Snapshot Unpack_Props Ssa Ssa_Props String_Scan
    Structured Structured_Props Call_Resolution Call_Props Value_Graph Value_Graph_Props Api_Classify
    Api_Flows Api_Flow_Props Type_Hints
begin

text \<open>
  A verification of the loader, the static analyses, the symbolic-execution core, the fuzzer and the
  snapshots of Axe, a binary analysis tool written in Rust.

  \<^bold>\<open>The program.\<close> Axe loads an executable (\<open>PEImage::parse\<close> of \<open>src/pe.rs\<close>), or a snapshot of an unpacked process that its
  unpacker (\<open>src/unpack\<close>) has captured, reads the exception metadata (\<open>src/eh\<close>), disassembles the ranges the
  loader names, builds control-flow graphs (\<open>src/cfg.rs\<close>), computes value sets over them (\<open>src/vsa.rs\<close>), resolves
  jump tables from those (\<open>src/jump_tables.rs\<close>), and explores branches in two ways. The native emulator
  (\<open>src/native_emulator.rs\<close>) runs instructions on concrete 64-bit values and records textual branch
  predicates, which the legacy solver (\<open>src/symbolic_solver.rs\<close>) solves by arithmetic. The concolic
  engine (\<open>src/concolic\<close>) follows the same instructions symbolically: the shadow emulator keeps a
  shadow state of expression nodes, and every conditional jump becomes a branch event whose predicate
  is a node of a hash-consed expression DAG. The frontier scheduler orders the branches worth
  flipping; for one of them the session builds a query from the target and the path constraints, and
  the solver ladder tries constant folding, a fast solver in Rust, and an external Z3 process, the
  latter on a slice of the constraints. A branch is labelled unreachable only on an authoritative
  \<open>Unsat\<close> with an unsat core. A model of a flipped branch is run by the validator, and one that adds
  coverage is promoted by the bridge into the corpus the fuzzer works on. The fuzzer (\<open>src/fuzzer\<close>) picks an
  entry of the corpus by weight, mutates it, stages it on disk, runs it, and compares the coverage of the run
  with the shared map: crashes go to the crash table by signature, novel inputs to the corpus. Distances in
  the call graph say how close a run came to the targets.

  \<^bold>\<open>Theories.\<close>
  \<^item> \<open>Axe_Prelude\<close>: machine integers, the parts of Rust's string and integer library the code calls, shared lemmas.
  \<^item> \<open>Expr_Dag\<close>, \<open>Expr_Typing\<close>: \<open>concolic/expr.rs\<close>, the interning tables, \<open>sort_of\<close> and \<open>validate\<close>. Interning keeps
    the tables consistent and is injective; validation returns and decides a declarative typing judgement. The
    locales \<open>interner\<close> and \<open>dag_recursion\<close> carry the two tables and every walk over the DAG.
  \<^item> \<open>Expr_Semantics\<close>: not code; the bit-vector meaning of the expressions (SMT-LIB), against which the solvers are stated.
  \<^item> \<open>Slicer\<close>: \<open>concolic/slicer.rs\<close>. The slice is sound, equisatisfiable at a fixpoint, and within the closure of shared symbols.
  \<^item> \<open>Shadow_State\<close>, \<open>X86_Operands\<close>, \<open>Shadow_Emulator\<close>, \<open>Shadow_Typing\<close>: \<open>concolic/shadow_state.rs\<close> and
    \<open>concolic/shadow_emulator.rs\<close>: registers, memory, the operand parser, every instruction handler. The invariant of
    the emulator is kept by every handler, and the predicates of a run validate.
  \<^item> \<open>Pe_Records\<close>, \<open>Winapi\<close>: the rows of \<open>pe.rs\<close> the components exchange, and the prototype table of \<open>winapi.rs\<close>.
  \<^item> \<open>Native_Emulator\<close>, \<open>Native_Props\<close>: \<open>native_emulator.rs\<close>. Runs are bounded; \<open>cmp\<close> and a jump decide the relation the jump names.
  \<^item> \<open>Branch_Lifter\<close>: \<open>concolic/predicate.rs\<close>. Both lifters build nodes that mean the relation of the jump, and agree
    with the decision of the native emulator.
  \<^item> \<open>Symbolic_Solver\<close>: \<open>symbolic_solver.rs\<close>. Sound where nothing wraps; the wrap-around and signed cases are proved wrong.
  \<^item> \<open>Smt_Backend\<close>: \<open>concolic/backend.rs\<close>: queries, reports, the authoritative bar. The locale \<open>unreachability_contract\<close>
    states what the ladder relies on; \<open>Pure_Rust\<close> interprets it.
  \<^item> \<open>Smt2_Emit\<close>: \<open>concolic/smt2_emit.rs\<close>. The emitter returns for every valid query, its names are
    unambiguous and its parentheses balanced; its text can be exponential.
  \<^item> \<open>Pure_Rust\<close>: \<open>concolic/pure_rust.rs\<close>, tier 1: its models are right for byte comparisons, its \<open>Unsat\<close> for unsigned ones.
  \<^item> \<open>Ladder\<close>: \<open>concolic/ladder.rs\<close>: constant folding is right, the log is complete, a branch is marked unreachable only when
    the full query has no solution. The default ladder reports a model for an unsatisfiable query.
  \<^item> \<open>Smt2_Backend\<close>: \<open>concolic/smt2_backend.rs\<close>: models and unsat cores are read back; an error line hides every \<open>Unsat\<close>.
  \<^item> \<open>Backlog\<close>: \<open>concolic/scheduler.rs\<close>: push and pop keep the invariant of the three indices and refine a map; every item is
    popped. The laws of the standard heap and hash map are the locale \<open>heap_and_map\<close>.
  \<^item> \<open>Cfg_Builder\<close>: \<open>cfg.rs\<close>: blocks partition the instructions, edges stay inside the function and lead to blocks.

  \<^item> \<open>Coverage_Map\<close>: \<open>fuzzer/coverage.rs\<close>: the verdict on a run is exact, the shared map depends on the set of runs only.
  \<^item> \<open>Mutators\<close>: \<open>fuzzer/mutators.rs\<close>: the generator is a permutation; no mutation indexes out of range, and what it reports
    is what was applied.
  \<^item> \<open>File_Store\<close>: \<open>atomic_write.rs\<close> and \<open>fuzzer/staging.rs\<close> over a file store with a script of faults: atomic writes are all or
    nothing, staged inputs are recovered.
  \<^item> \<open>Fuzz_Corpus\<close>, \<open>Crash_Db\<close>: \<open>fuzzer/corpus.rs\<close> and \<open>fuzzer/crash.rs\<close>: queue, index and files agree under any faults; families are
    counted exactly. The locale \<open>seed_store\<close> is what the bridge and the session rely on.
  \<^item> \<open>Fuzz_Executor\<close>: \<open>fuzzer/executor.rs\<close>: the emulator, in-process and hybrid executors. The locale \<open>fuzz_executor\<close> is the contract
    of the trait, interpreted for all three.
  \<^item> \<open>Model_Validator\<close>, \<open>Corpus_Bridge\<close>: \<open>concolic/validator.rs\<close> and \<open>concolic/fuzzer_bridge.rs\<close>: a confirmed model took its edge; a
    promotion is transactional for the map and leaves the input on disk, whatever other threads do between its steps.
  \<^item> \<open>Fuzz_Scheduler\<close>, \<open>Fuzz_Session\<close>: \<open>fuzzer/scheduler.rs\<close> and \<open>fuzzer/session.rs\<close>: the choice is proportional to the scores; a session
    never panics from any state it reaches, keeps every invariant, and loses a crash only to a failure of the disk before it is stored.
  \<^item> \<open>Fuzz_Reachability\<close>: \<open>fuzzer/reachability.rs\<close>: the backward search ends and computes shortest distances.
  \<^item> \<open>Btree_Map\<close>: ordered maps as the standard library iterates them, with the laws of lookup.
  \<^item> \<open>Ir_Rows\<close>, \<open>Semantic_Index\<close>: \<open>ir.rs\<close> and \<open>semantic_index.rs\<close>: the row of a decoded instruction, and the ranges of the rows of a
    function, which are exact.
  \<^item> \<open>Vsa_Values\<close>, \<open>Vsa_Analysis\<close>: \<open>vsa.rs\<close>: abstract values, transfer, join and refinement, the worklist with its limits, the entry
    points. \<open>Vsa_Sound\<close>, \<open>Vsa_States\<close>, \<open>Vsa_Rules\<close>, \<open>Vsa_Props\<close>: intervals against concrete values. The analysis ends with bounded output;
    joins are sound, and so are refinements after unsigned comparisons and plain transfers of full 64-bit registers; the rules for
    signed jumps, \<open>test\<close> and two-register operations are shown to be wrong.

  \<^item> \<open>Byte_Reader\<close>, \<open>Pe_Image\<close>, \<open>Pe_Loader\<close>, \<open>Pe_Props\<close>: \<open>pe.rs\<close>: the little-endian readers, the image with its address lookups,
    and \<open>PEImage::parse\<close> with the import, export and exception directories. A parsed image satisfies the invariant
    \<open>image_ok\<close>, and its header fields, sections and exception records are the ones the bytes of the file give (\<open>header_from\<close>,
    \<open>sections_from\<close>, \<open>exceptions_from\<close>); the loader does not panic when the section data lie in the file; exception tables are
    read back as written.
  \<^item> \<open>Disasm_Ranges\<close>: \<open>disassembly_ranges\<close> of \<open>pe.rs\<close>: the ranges are valid and miss only the tails of gaps between exception rows that are cut off after \<open>0x20000\<close> bytes.
  \<^item> \<open>Facts\<close>: \<open>src/facts\<close>: claims, confidence bands, evidence and its textual form, which is read back.
  \<^item> \<open>Eh_Pe\<close>, \<open>Eh_Props\<close>: \<open>src/eh\<close>: unwind blocks and scope tables are read back as written; there is a fact exactly when a scope table
    stands at its place, and every scope becomes one try region or, when its handler is 1, one cleanup; and each row gives at most one fact.
  \<^item> \<open>Jump_Tables\<close>, \<open>Jump_Props\<close>: \<open>jump_tables.rs\<close>: the search never panics on a loaded image, and a reported table is decoded from the
    bytes at its address, with executable targets.
  \<^item> \<open>Write_Log\<close>: \<open>unpack/write_log.rs\<close> and the decoder of \<open>unpack/guard_pages.rs\<close>: the locale \<open>bounded_log\<close> is the contract of a log
    that keeps the newest entries; the log of the code is an instance.
  \<^item> \<open>Memory_Map\<close>: \<open>unpack/memory_map.rs\<close>: for queries that answer from the page of the address on, the walk over the address space
    ends, and its regions tile it.
  \<^item> \<open>Unpack_Snapshot\<close>, \<open>Unpack_Props\<close>: \<open>unpack/snapshot_capture.rs\<close>, \<open>unpack/region_buffer.rs\<close>, the types of \<open>unpack/snapshot.rs\<close> and
    \<open>PEImage::from_snapshot\<close>: what was captured within 4 GB is found again at its addresses, over the files of \<open>File_Store\<close> and the lookups of
    \<open>Pe_Image\<close>.
  \<^item> \<open>Ssa\<close>, \<open>Ssa_Props\<close>: \<open>ssa.rs\<close>: a function is walked once in address order; each value gets a fresh identifier and version, each
    edge leads from an earlier definition to a later use. Definitions leak between branches, and back edges are missed.
  \<^item> \<open>String_Scan\<close>: \<open>strings.rs\<close>: the ASCII scan finds exactly the maximal runs, every row points to its bytes in the file; UTF-16
    texts at odd offsets are missed.
  \<^item> \<open>Structured\<close>, \<open>Structured_Props\<close>: \<open>structured.rs\<close>: the iteration for the dominators ends and is exact, and so are the
    natural loops on the graph it is given, up to the limits of the code on blocks and edges; that graph lacks the edges of blocks that run into the next one.
  \<^item> \<open>Call_Resolution\<close>, \<open>Call_Props\<close>: \<open>functions.rs\<close>, \<open>xrefs.rs\<close>, \<open>wrappers.rs\<close>: discovered functions do not overlap, references
    go to the function around them, calls are resolved exactly along chains of wrappers.
  \<^item> \<open>Value_Graph\<close>, \<open>Value_Graph_Props\<close>: \<open>value_graph.rs\<close> and \<open>indirect_resolver.rs\<close>: evidence stays within the function, the best value
    record is taken; accesses to memory are read as copies of the pointer.
  \<^item> \<open>Api_Classify\<close>, \<open>Api_Flows\<close>, \<open>Api_Flow_Props\<close>, \<open>Type_Hints\<close>: \<open>winapi.rs\<close>, \<open>dataflow.rs\<close> and \<open>type_inference.rs\<close>: the counters of the
    flows are exact, hints stay within their cap; a value that was overwritten is still
    reported as proven.

  \<^bold>\<open>Conventions.\<close> Rust integers are words of their width, or integers with the checked operation
  written out; strings are byte strings; \<open>None\<close> of an operation that cannot fail in Rust is a panic
  (an index out of range), and the properties show it does not occur on valid input. Structures are
  records and the state is passed explicitly. The elapsed times the code reports, the \<open>z3\<close> process, the
  order of hash-map iteration, ties of the heap and single-precision arithmetic are parameters, and so are the
  hashes of the \<open>blake3\<close> and \<open>ahash\<close> crates, the JSON writer and the fuzzed function. So are \<open>VirtualQueryEx\<close>, \<open>ReadProcessMemory\<close> and the
  Itanium exception walker. Scores of facts are thousandths. The disk is a list of files and a
  list of faults, one for each call of the operating system; a fault may leave a prefix of the bytes.
  The steps of other threads are functions applied where a lock is not held.

  \<^bold>\<open>Fuel and bounds.\<close> Walks over the DAG use the length of the node table plus two as fuel; children
  have smaller ids than their parents, so this is enough on a well-formed DAG, and each walk is shown to
  return there (\<open>dag_recursion_total\<close>, \<open>expr_text_returns\<close>, \<open>count_refs_returns\<close>,
  \<open>classify_side_returns\<close>). The slicer has the iteration cap of the code; the loop of \<open>pop\<close> takes one heap
  entry per turn. The backward search terminates because distances only decrease, the
  worklist of the value-set analysis because every block has a bounded number of rounds. Node ids are 32-bit, so properties that add nodes assume room for them.

  \<^bold>\<open>Not modelled.\<close> ELF, Mach-O and debug-symbol files and the decoding of instructions are read by third-party crates (goblin,
  gimli, pdb, iced); the in-process Z3 backend is a binding. The unpacker's debugger, breakpoints, hooks and driver are
  calls of the operating system in unsafe code; its entropy curves and scores, like the score of the frontier items and the
  vulnerability scores, are floating-point arithmetic. The trace stores and several exports go through SQLite and JSON. The decompiler and the
  reports of behaviour, triage and summaries print text from heuristics without a stated contract. Entry
  points (\<open>lib.rs\<close>, \<open>bin\<close>) and sessions beyond the fuzzer's chain the above over files.
  Within reach and not done: the vulnerability graph over
  petgraph, the decision logic of the concolic session, and reading the emitted script back as SMT-LIB terms.
\<close>

end
